(* ===== verification/Prelude.thy ===== *)
theory Prelude
  imports Main "HOL-Library.Sublist"
begin

section \<open>Shared vocabulary of the development\<close>

text \<open>
  What every other theory uses: Rust's \<open>Result\<close> as a sum with the error on the left, the
  combinators \<open>?\<close>, \<open>map\<close>, \<open>map_err\<close>, \<open>ok_or\<close> and \<open>collect\<close> of it, the string functions of
  the standard library the sources call (\<open>split\<close>, \<open>join\<close>, \<open>to_string\<close> of a number,
  \<open>strip_suffix\<close>, \<open>to_lowercase\<close> of an ASCII text), and the collections of facts the component
  proofs share.

  A Rust \<open>String\<close> is the list of the bytes of its UTF-8, so \<open>string\<close>, whose characters are
  bytes, is the same data. A \<open>usize\<close> that only counts or indexes is a \<open>nat\<close>.
\<close>

named_theorems result_simps \<open>equations of the result combinators\<close>

subsection \<open>Results\<close>

type_synonym ('e, 'a) result = "'e + 'a"

text \<open>The operator \<open>?\<close>, and \<open>Result::and_then\<close>: an error is the result, a value goes on.\<close>

definition and_then :: "('e, 'a) result \<Rightarrow> ('a \<Rightarrow> ('e, 'b) result) \<Rightarrow> ('e, 'b) result" where
  "and_then r f = (case r of Inl e \<Rightarrow> Inl e | Inr a \<Rightarrow> f a)"

lemma and_then_simps [simp, result_simps]:
  "and_then (Inl e) f = Inl e" "and_then (Inr a) f = f a"
  by (simp_all add: and_then_def)

lemma and_then_cong [fundef_cong]:
  "r = r' \<Longrightarrow> (\<And>a. r' = Inr a \<Longrightarrow> f a = g a) \<Longrightarrow> and_then r f = and_then r' g"
  by (simp add: and_then_def split: sum.split)

lemma and_then_Inr_iff: "and_then r f = Inr b \<longleftrightarrow> (\<exists>a. r = Inr a \<and> f a = Inr b)"
  by (cases r) simp_all

lemma and_then_Inl_iff: "and_then r f = Inl e \<longleftrightarrow> r = Inl e \<or> (\<exists>a. r = Inr a \<and> f a = Inl e)"
  by (cases r) simp_all

lemma and_then_InrE [elim!]:
  assumes "and_then r f = Inr b"
  obtains a where "r = Inr a" "f a = Inr b"
  using assms by (cases r) auto

lemma and_then_assoc: "and_then (and_then r f) g = and_then r (\<lambda>a. and_then (f a) g)"
  by (cases r) simp_all

lemma and_then_Inr_right [simp]: "and_then r Inr = r"
  by (cases r) simp_all

text \<open>\<open>Result::map\<close>, \<open>Result::map_err\<close> and \<open>Option::ok_or\<close>.\<close>

definition map_ok :: "('a \<Rightarrow> 'b) \<Rightarrow> ('e, 'a) result \<Rightarrow> ('e, 'b) result" where
  "map_ok f r = and_then r (\<lambda>a. Inr (f a))"

definition map_err :: "('e \<Rightarrow> 'f) \<Rightarrow> ('e, 'a) result \<Rightarrow> ('f, 'a) result" where
  "map_err f r = (case r of Inl e \<Rightarrow> Inl (f e) | Inr a \<Rightarrow> Inr a)"

definition ok_or :: "'e \<Rightarrow> 'a option \<Rightarrow> ('e, 'a) result" where
  "ok_or e x = (case x of None \<Rightarrow> Inl e | Some a \<Rightarrow> Inr a)"

lemma map_ok_simps [simp, result_simps]:
  "map_ok f (Inl e) = Inl e" "map_ok f (Inr a) = Inr (f a)"
  by (simp_all add: map_ok_def)

lemma map_err_simps [simp, result_simps]:
  "map_err f (Inl e) = Inl (f e)" "map_err f (Inr a) = Inr a"
  by (simp_all add: map_err_def)

lemma ok_or_simps [simp, result_simps]: "ok_or e None = Inl e" "ok_or e (Some a) = Inr a"
  by (simp_all add: ok_or_def)

lemma map_ok_Inr_iff [simp]: "map_ok f r = Inr b \<longleftrightarrow> (\<exists>a. r = Inr a \<and> b = f a)"
  by (cases r) auto

lemma map_ok_Inl_iff [simp]: "map_ok f r = Inl e \<longleftrightarrow> r = Inl e"
  by (cases r) auto

lemma map_err_Inr_iff [simp]: "map_err f r = Inr b \<longleftrightarrow> r = Inr b"
  by (cases r) auto

lemma map_err_Inl_iff [simp]: "map_err f r = Inl e \<longleftrightarrow> (\<exists>e'. r = Inl e' \<and> e = f e')"
  by (cases r) auto

lemma ok_or_Inr_iff [simp]: "ok_or e x = Inr a \<longleftrightarrow> x = Some a"
  by (cases x) auto

lemma ok_or_Inl_iff [simp]: "ok_or e x = Inl e' \<longleftrightarrow> x = None \<and> e' = e"
  by (cases x) auto

text \<open>\<open>collect::<Result<Vec<_>, _>>()\<close>: every value in order, or the first error.\<close>

fun collect_results :: "('e, 'a) result list \<Rightarrow> ('e, 'a list) result" where
  "collect_results [] = Inr []"
| "collect_results (r # rs) =
     and_then r (\<lambda>a. and_then (collect_results rs) (\<lambda>as. Inr (a # as)))"

lemma collect_results_map_Inr [simp]: "collect_results (map (\<lambda>x. Inr (f x)) xs) = Inr (map f xs)"
  by (induction xs) simp_all

lemma collect_results_InrD:
  "collect_results rs = Inr as \<Longrightarrow> rs = map Inr as"
  by (induction rs arbitrary: as) auto

lemma collect_results_Inr_iff: "collect_results rs = Inr as \<longleftrightarrow> rs = map Inr as"
  using collect_results_InrD collect_results_map_Inr [of id as] by fastforce

lemma collect_results_mapD:
  "collect_results (map p xs) = Inr ys \<Longrightarrow>
     ys = map (\<lambda>x. projr (p x)) xs \<and> (\<forall>x \<in> set xs. p x = Inr (projr (p x)))"
  by (induction xs arbitrary: ys) auto

lemma collect_results_Inl_mem: "collect_results rs = Inl e \<Longrightarrow> Inl e \<in> set rs"
  by (induction rs) (auto simp: and_then_Inl_iff)

subsection \<open>Strings of the standard library\<close>

text \<open>\<open>str::split(c)\<close>: never empty, the empty string is one empty part.\<close>

fun split_on :: "'a \<Rightarrow> 'a list \<Rightarrow> 'a list list" where
  "split_on c [] = [[]]"
| "split_on c (x # xs) =
     (if x = c then [] # split_on c xs
      else case split_on c xs of [] \<Rightarrow> [[x]] | p # ps \<Rightarrow> (x # p) # ps)"

lemma split_on_not_Nil [simp]: "split_on c xs \<noteq> []"
  by (cases xs) (auto split: list.splits)

text \<open>\<open>[..].join(sep)\<close>.\<close>

fun join_with :: "'a list \<Rightarrow> 'a list list \<Rightarrow> 'a list" where
  "join_with sep [] = []"
| "join_with sep [p] = p"
| "join_with sep (p # q # ps) = p @ sep @ join_with sep (q # ps)"

lemma join_with_Cons: "ps \<noteq> [] \<Longrightarrow> join_with sep (p # ps) = p @ sep @ join_with sep ps"
  by (cases ps) simp_all

lemma split_on_part: "c \<notin> set p \<Longrightarrow> split_on c (p @ c # xs) = p # split_on c xs"
  by (induction p) auto

lemma split_on_append: "split_on c (p @ c # xs) = split_on c p @ split_on c xs"
  by (induction p) (auto split: list.splits)

lemma split_on_whole: "c \<notin> set p \<Longrightarrow> split_on c p = [p]"
  by (induction p) auto

lemma split_on_join:
  assumes "ps \<noteq> []" and "\<And>p. p \<in> set ps \<Longrightarrow> c \<notin> set p"
  shows "split_on c (join_with [c] ps) = ps"
  using assms
proof (induction ps rule: list_nonempty_induct)
  case (single p)
  then show ?case by (simp add: split_on_whole)
next
  case (cons p ps)
  then show ?case by (simp add: join_with_Cons split_on_part)
qed

lemma join_split_on: "join_with [c] (split_on c xs) = xs"
proof (induction xs)
  case (Cons x xs)
  then show ?case
    by (cases "split_on c xs"; cases "tl (split_on c xs)") (auto simp: join_with_Cons)
qed simp

lemma split_on_no_separator: "p \<in> set (split_on c xs) \<Longrightarrow> c \<notin> set p"
  by (induction xs arbitrary: p) (auto split: if_splits list.splits)

text \<open>\<open>to_string\<close> of an unsigned number: its decimal digits.\<close>

fun show_nat :: "nat \<Rightarrow> string" where
  "show_nat n =
     (if n < 10 then [char_of (48 + n)] else show_nat (n div 10) @ [char_of (48 + n mod 10)])"

declare show_nat.simps [simp del]

definition digit_value :: "char \<Rightarrow> nat option" where
  "digit_value c =
     (let n = of_char c in if 48 \<le> n \<and> n \<le> (57 :: nat) then Some (n - 48) else None)"

text \<open>\<open>str::parse\<close> to an unsigned number without its bound: the value the digits spell.\<close>

fun digits_from :: "nat \<Rightarrow> string \<Rightarrow> nat option" where
  "digits_from acc [] = Some acc"
| "digits_from acc (c # cs) =
     (case digit_value c of None \<Rightarrow> None | Some d \<Rightarrow> digits_from (10 * acc + d) cs)"

definition read_nat :: "string \<Rightarrow> nat option" where
  "read_nat s = (if s = [] then None else digits_from 0 s)"

lemma digit_value_char_of: "d < 10 \<Longrightarrow> digit_value (char_of (48 + d)) = Some d"
  by (simp add: digit_value_def Let_def)

lemma digits_from_append:
  "digits_from acc (xs @ ys) =
     (case digits_from acc xs of None \<Rightarrow> None | Some a \<Rightarrow> digits_from a ys)"
  by (induction xs arbitrary: acc) (auto split: option.splits)

lemma show_nat_not_Nil [simp]: "show_nat n \<noteq> []"
  by (subst show_nat.simps) simp

lemma digits_from_show_nat: "digits_from 0 (show_nat n) = Some n"
proof (induction n rule: show_nat.induct)
  case (1 n)
  show ?case
  proof (cases "n < 10")
    case True
    then show ?thesis by (subst show_nat.simps) (simp add: digit_value_char_of)
  next
    case False
    with 1 show ?thesis
      by (subst show_nat.simps) (simp add: digits_from_append digit_value_char_of)
  qed
qed

lemma read_show_nat [simp]: "read_nat (show_nat n) = Some n"
  by (simp add: read_nat_def digits_from_show_nat)

lemma show_nat_inject [simp]: "show_nat m = show_nat n \<longleftrightarrow> m = n"
  by (metis option.inject read_show_nat)

text \<open>\<open>char::is_ascii_digit\<close> and its kin, on bytes.\<close>

definition is_ascii_digit :: "char \<Rightarrow> bool" where
  "is_ascii_digit c \<longleftrightarrow> (48 :: nat) \<le> of_char c \<and> of_char c \<le> (57 :: nat)"

definition is_ascii_upper :: "char \<Rightarrow> bool" where
  "is_ascii_upper c \<longleftrightarrow> (65 :: nat) \<le> of_char c \<and> of_char c \<le> (90 :: nat)"

definition is_ascii_lower :: "char \<Rightarrow> bool" where
  "is_ascii_lower c \<longleftrightarrow> (97 :: nat) \<le> of_char c \<and> of_char c \<le> (122 :: nat)"

definition is_ascii_alphabetic :: "char \<Rightarrow> bool" where
  "is_ascii_alphabetic c \<longleftrightarrow> is_ascii_upper c \<or> is_ascii_lower c"

definition is_ascii_alphanumeric :: "char \<Rightarrow> bool" where
  "is_ascii_alphanumeric c \<longleftrightarrow> is_ascii_alphabetic c \<or> is_ascii_digit c"

definition ascii_lower :: "char \<Rightarrow> char" where
  "ascii_lower c = (if is_ascii_upper c then char_of (of_char c + 32 :: nat) else c)"

lemma show_nat_digits: "c \<in> set (show_nat n) \<Longrightarrow> is_ascii_digit c"
proof (induction n rule: show_nat.induct)
  case (1 n)
  then show ?case
    by (cases "n < 10") (subst (asm) (2) show_nat.simps, auto simp: is_ascii_digit_def)+
qed

text \<open>\<open>str::strip_suffix\<close> and \<open>str::strip_prefix\<close>.\<close>

fun strip_prefix :: "'a list \<Rightarrow> 'a list \<Rightarrow> 'a list option" where
  "strip_prefix [] xs = Some xs"
| "strip_prefix (p # ps) [] = None"
| "strip_prefix (p # ps) (x # xs) = (if p = x then strip_prefix ps xs else None)"

definition strip_suffix :: "'a list \<Rightarrow> 'a list \<Rightarrow> 'a list option" where
  "strip_suffix suf xs = map_option rev (strip_prefix (rev suf) (rev xs))"

lemma strip_prefix_Some_iff: "strip_prefix ps xs = Some ys \<longleftrightarrow> xs = ps @ ys"
  by (induction ps xs rule: strip_prefix.induct) auto

lemma strip_suffix_Some_iff: "strip_suffix suf xs = Some ys \<longleftrightarrow> xs = ys @ suf"
proof -
  have "rev xs = rev suf @ zs \<longleftrightarrow> xs = rev zs @ suf" for zs
    by (metis rev_append rev_rev_ident)
  then show ?thesis
    unfolding strip_suffix_def by (auto simp: strip_prefix_Some_iff) (metis rev_rev_ident)
qed

subsection \<open>The order of values\<close>

text \<open>Rust's \<open>std::cmp::Ordering\<close> and its tests.\<close>

datatype ordering = OLess | OEqual | OGreater

fun is_eq :: "ordering \<Rightarrow> bool" where
  "is_eq OEqual = True" | "is_eq _ = False"

fun is_lt :: "ordering \<Rightarrow> bool" where
  "is_lt OLess = True" | "is_lt _ = False"

fun is_gt :: "ordering \<Rightarrow> bool" where
  "is_gt OGreater = True" | "is_gt _ = False"

fun is_le :: "ordering \<Rightarrow> bool" where
  "is_le OGreater = False" | "is_le _ = True"

fun is_ge :: "ordering \<Rightarrow> bool" where
  "is_ge OLess = False" | "is_ge _ = True"

fun reverse_ordering :: "ordering \<Rightarrow> ordering" where
  "reverse_ordering OLess = OGreater"
| "reverse_ordering OEqual = OEqual"
| "reverse_ordering OGreater = OLess"

definition cmp_of :: "'a::linorder \<Rightarrow> 'a \<Rightarrow> ordering" where
  "cmp_of x y = (if x < y then OLess else if x = y then OEqual else OGreater)"

lemma cmp_of_simps [simp]:
  "cmp_of x y = OEqual \<longleftrightarrow> x = y"
  "cmp_of x y = OLess \<longleftrightarrow> x < y"
  "cmp_of x y = OGreater \<longleftrightarrow> y < x"
  by (auto simp: cmp_of_def)

lemma cmp_of_reverse: "cmp_of y x = reverse_ordering (cmp_of x y)"
  by (auto simp: cmp_of_def)

text \<open>\<open>Ord::cmp\<close> of two byte strings: lexicographic, a prefix first.\<close>

fun bytes_cmp :: "string \<Rightarrow> string \<Rightarrow> ordering" where
  "bytes_cmp [] [] = OEqual"
| "bytes_cmp [] (y # ys) = OLess"
| "bytes_cmp (x # xs) [] = OGreater"
| "bytes_cmp (x # xs) (y # ys) =
     (if (of_char x :: nat) < of_char y then OLess
      else if (of_char y :: nat) < of_char x then OGreater
      else bytes_cmp xs ys)"

lemma bytes_cmp_eq_iff: "bytes_cmp xs ys = OEqual \<longleftrightarrow> xs = ys"
  by (induction xs ys rule: bytes_cmp.induct) (auto simp: not_less_iff_gr_or_eq)

lemma bytes_cmp_reverse: "bytes_cmp ys xs = reverse_ordering (bytes_cmp xs ys)"
  by (induction xs ys rule: bytes_cmp.induct) auto

end
