(* ===== verification/Operators.thy ===== *)
theory Operators
  imports Prelude
begin

section \<open>The operators of a specification\<close>

text \<open>
  \<open>crates/specification/src/domain/operator.rs\<close>. The grouping of the operators is in their
  types, as in the source: a comparison, a logical connective and a computation are three types,
  and an infix operator is one of them or \<open>IS\<close>. The constructors carry a letter for their type
  (\<open>CEq\<close> is \<open>Comparison::Eq\<close>). The \<open>show_\<close> functions are the \<open>Display\<close> instances.
\<close>

datatype prefix_op = PNot | PNeg

datatype postfix_op = IsNull | IsNotNull

datatype comparison = CEq | CNe | CGt | CLt | CGe | CLe

datatype logical = LAnd | LOr

datatype arithmetic = AAdd | ASub | AMul | ADiv | AMod | AShl | AShr

datatype infix_op = IComparison comparison | IIs | ILogical logical | IArithmetic arithmetic

text \<open>The constants of \<open>impl Infix\<close>.\<close>

abbreviation infix_EQ :: infix_op where "infix_EQ \<equiv> IComparison CEq"
abbreviation infix_NE :: infix_op where "infix_NE \<equiv> IComparison CNe"
abbreviation infix_GT :: infix_op where "infix_GT \<equiv> IComparison CGt"
abbreviation infix_LT :: infix_op where "infix_LT \<equiv> IComparison CLt"
abbreviation infix_GE :: infix_op where "infix_GE \<equiv> IComparison CGe"
abbreviation infix_LE :: infix_op where "infix_LE \<equiv> IComparison CLe"
abbreviation infix_IS :: infix_op where "infix_IS \<equiv> IIs"
abbreviation infix_AND :: infix_op where "infix_AND \<equiv> ILogical LAnd"
abbreviation infix_OR :: infix_op where "infix_OR \<equiv> ILogical LOr"
abbreviation infix_ADD :: infix_op where "infix_ADD \<equiv> IArithmetic AAdd"
abbreviation infix_SUB :: infix_op where "infix_SUB \<equiv> IArithmetic ASub"
abbreviation infix_MUL :: infix_op where "infix_MUL \<equiv> IArithmetic AMul"
abbreviation infix_DIV :: infix_op where "infix_DIV \<equiv> IArithmetic ADiv"
abbreviation infix_MOD :: infix_op where "infix_MOD \<equiv> IArithmetic AMod"
abbreviation infix_SHL :: infix_op where "infix_SHL \<equiv> IArithmetic AShl"
abbreviation infix_SHR :: infix_op where "infix_SHR \<equiv> IArithmetic AShr"

fun show_prefix :: "prefix_op \<Rightarrow> string" where
  "show_prefix PNot = ''NOT''"
| "show_prefix PNeg = ''-''"

fun show_postfix :: "postfix_op \<Rightarrow> string" where
  "show_postfix IsNull = ''IS NULL''"
| "show_postfix IsNotNull = ''IS NOT NULL''"

fun show_comparison :: "comparison \<Rightarrow> string" where
  "show_comparison CEq = ''=''"
| "show_comparison CNe = ''!=''"
| "show_comparison CGt = ''>''"
| "show_comparison CLt = ''<''"
| "show_comparison CGe = ''>=''"
| "show_comparison CLe = ''<=''"

fun show_logical :: "logical \<Rightarrow> string" where
  "show_logical LAnd = ''AND''"
| "show_logical LOr = ''OR''"

fun show_arithmetic :: "arithmetic \<Rightarrow> string" where
  "show_arithmetic AAdd = ''+''"
| "show_arithmetic ASub = ''-''"
| "show_arithmetic AMul = ''*''"
| "show_arithmetic ADiv = ''/''"
| "show_arithmetic AMod = ''%''"
| "show_arithmetic AShl = ''<<''"
| "show_arithmetic AShr = ''>>''"

fun show_infix :: "infix_op \<Rightarrow> string" where
  "show_infix (IComparison op) = show_comparison op"
| "show_infix IIs = ''IS''"
| "show_infix (ILogical op) = show_logical op"
| "show_infix (IArithmetic op) = show_arithmetic op"

text \<open>An error names an operator by its text, which is the operator's alone.\<close>

lemma show_operator_inject:
  "show_comparison a = show_comparison b \<longleftrightarrow> a = b"
  "show_logical c = show_logical d \<longleftrightarrow> c = d"
  "show_arithmetic f = show_arithmetic g \<longleftrightarrow> f = g"
  subgoal by (cases a; cases b) simp_all
  subgoal by (cases c; cases d) simp_all
  subgoal by (cases f; cases g) simp_all
  done

lemma show_operator_distinct:
  "show_comparison a \<noteq> show_logical c" "show_comparison a \<noteq> show_arithmetic f"
  "show_logical c \<noteq> show_arithmetic f" "show_comparison a \<noteq> ''IS''"
  "show_logical c \<noteq> ''IS''" "show_arithmetic f \<noteq> ''IS''"
  subgoal by (cases a; cases c) simp_all
  subgoal by (cases a; cases f) simp_all
  subgoal by (cases c; cases f) simp_all
  subgoal by (cases a) simp_all
  subgoal by (cases c) simp_all
  subgoal by (cases f) simp_all
  done

lemma show_infix_inject [simp]: "show_infix op = show_infix op' \<longleftrightarrow> op = op'"
  by (cases op; cases op')
    (simp_all add: show_operator_inject show_operator_distinct show_operator_distinct [symmetric])


section \<open>What the evaluator needs of a value\<close>

text \<open>
  \<open>crates/specification/src/domain/operand.rs\<close>. The trait \<open>Operand\<close> is a record of its methods,
  one field per method: a value of the record is an \<open>impl\<close>, and a function generic in
  \<open>V: Operand\<close> takes it as an argument. A method's \<open>&'static str\<close> is a string.

  \<open>Panicked\<close> is not a variant of the source's enum. A method of the trait may abort (the reading
  of a text slices it at a byte that need not start a character), and an abort unwinds through
  every caller the evaluator has, as an error does through \<open>?\<close>: nothing of the evaluator
  catches one. So it is a value of the error type here, told apart from the errors the code
  returns.
\<close>

datatype operand_error =
    Unsupported string string "string option"
  | DivisionByZero
  | OutOfRange
  | Unreadable string string string
  | Panicked

record 'v operand =
  op_null :: 'v
  op_is_null :: "'v \<Rightarrow> bool"
  op_from_bool :: "bool \<Rightarrow> 'v"
  op_as_bool :: "'v \<Rightarrow> bool option"
  op_kind :: "'v \<Rightarrow> string"
  op_equals :: "'v \<Rightarrow> 'v \<Rightarrow> (operand_error, bool) result"
  op_compare :: "'v \<Rightarrow> 'v \<Rightarrow> (operand_error, ordering) result"
  op_negate :: "'v \<Rightarrow> (operand_error, 'v) result"
  op_compute :: "'v \<Rightarrow> arithmetic \<Rightarrow> 'v \<Rightarrow> (operand_error, 'v) result"
  op_read_beside :: "'v \<Rightarrow> 'v \<Rightarrow> (operand_error, 'v option) result"

text \<open>The trait's default of \<open>read_beside\<close>.\<close>

definition read_beside_default :: "'v \<Rightarrow> 'v \<Rightarrow> (operand_error, 'v option) result" where
  "read_beside_default self other = Inr None"

definition unsupported :: "string \<Rightarrow> string \<Rightarrow> string \<Rightarrow> operand_error" where
  "unsupported operator left right = Unsupported operator left (Some right)"

definition unsupported_unary :: "string \<Rightarrow> string \<Rightarrow> operand_error" where
  "unsupported_unary operator operand = Unsupported operator operand None"

fun show_operand_error :: "operand_error \<Rightarrow> string" where
  "show_operand_error (Unsupported operator left (Some right)) =
     ''operator \"'' @ operator @ ''\" is not supported for '' @ left @ '' and '' @ right"
| "show_operand_error (Unsupported operator left None) =
     ''operator \"'' @ operator @ ''\" is not supported for '' @ left"
| "show_operand_error DivisionByZero = ''division by zero''"
| "show_operand_error OutOfRange = ''the result is out of range''"
| "show_operand_error (Unreadable text kind form) =
     CHR 0x27 # text @ [CHR 0x27] @ '' is not a '' @ kind @ '': '' @ form"
| "show_operand_error Panicked = ''''"

text \<open>
  The contract between the evaluator and a type of values: the null is the one null, a truth
  value is not null and is the truth value it was made of. The evaluator's lemmas rest on it; a
  type of values discharges it once.
\<close>

locale operand_laws =
  fixes ops :: "'v operand"
  assumes null_is_null: "op_is_null ops (op_null ops)"
    and bool_not_null: "\<not> op_is_null ops (op_from_bool ops b)"
    and as_bool_from_bool: "op_as_bool ops (op_from_bool ops b) = Some b"
begin

lemmas operand_simps = null_is_null bool_not_null as_bool_from_bool

lemma null_not_bool: "op_null ops \<noteq> op_from_bool ops b"
proof
  assume "op_null ops = op_from_bool ops b"
  then have "op_is_null ops (op_from_bool ops b)"
    using null_is_null by simp
  then show False by (simp add: bool_not_null)
qed

lemma from_bool_inject: "op_from_bool ops a = op_from_bool ops b \<longleftrightarrow> a = b"
proof
  assume "op_from_bool ops a = op_from_bool ops b"
  then have "op_as_bool ops (op_from_bool ops a) = op_as_bool ops (op_from_bool ops b)"
    by simp
  then show "a = b" by (simp add: as_bool_from_bool)
qed simp

end

end
