(* ===== verification/Ast.thy ===== *)
theory Ast
  imports Operators
begin

section \<open>The tree of a specification\<close>

text \<open>
  \<open>crates/specification/src/domain/ast.rs\<close>: paths, the tree \<open>Expr<V>\<close>, generic in its values, the
  functions that build it, and \<open>try_map_values\<close>, which goes from one stage of a specification to
  the next. A \<open>Box\<close> is the tree it holds. A closure that may fail is a function into a result.
\<close>

subsection \<open>Paths\<close>

datatype root = RGlobal | RItem nat

record path =
  path_root :: root
  path_objects :: "string list"
  path_name :: string

definition path_new :: "root \<Rightarrow> string \<Rightarrow> path" where
  "path_new root name = \<lparr>path_root = root, path_objects = [], path_name = name\<rparr>"

definition path_global :: "string \<Rightarrow> path" where
  "path_global name = path_new RGlobal name"

definition path_item :: "string \<Rightarrow> path" where
  "path_item name = path_new (RItem 0) name"

definition path_outer :: "nat \<Rightarrow> string \<Rightarrow> path" where
  "path_outer up name = path_new (RItem up) name"

definition path_child :: "path \<Rightarrow> string \<Rightarrow> path" where
  "path_child p name =
     \<lparr>path_root = path_root p, path_objects = path_objects p @ [path_name p], path_name = name\<rparr>"

definition path_sibling :: "path \<Rightarrow> string \<Rightarrow> path" where
  "path_sibling p name = p\<lparr>path_name := name\<rparr>"

text \<open>\<open>split\<close> gives one part at least, so the source's \<open>unwrap_or_default\<close> is never taken.\<close>

definition path_dotted :: "root \<Rightarrow> string \<Rightarrow> path" where
  "path_dotted root names =
     (case split_on CHR ''.'' names of
        [] \<Rightarrow> path_new root []
      | first # rest \<Rightarrow> foldl path_child (path_new root first) rest)"

definition path_names :: "path \<Rightarrow> string list" where
  "path_names p = path_objects p @ [path_name p]"

lemma path_new_simps [simp]:
  "path_root (path_new r n) = r" "path_objects (path_new r n) = []" "path_name (path_new r n) = n"
  by (simp_all add: path_new_def)

lemma path_child_simps [simp]:
  "path_root (path_child p n) = path_root p"
  "path_objects (path_child p n) = path_objects p @ [path_name p]"
  "path_name (path_child p n) = n"
  by (simp_all add: path_child_def)

lemma path_names_not_Nil [simp]: "path_names p \<noteq> []"
  by (simp add: path_names_def)

lemma path_names_child [simp]: "path_names (path_child p n) = path_names p @ [n]"
  by (simp add: path_names_def)

lemma path_names_new [simp]: "path_names (path_new r n) = [n]"
  by (simp add: path_names_def)

lemma path_root_foldl_child [simp]: "path_root (foldl path_child p ns) = path_root p"
  by (induction ns arbitrary: p) simp_all

lemma path_names_foldl_child [simp]: "path_names (foldl path_child p ns) = path_names p @ ns"
  by (induction ns arbitrary: p) simp_all

text \<open>A path is its root and its names.\<close>

lemma path_eqI:
  assumes "path_root p = path_root q" and "path_names p = path_names q"
  shows "p = q"
  using assms by (cases p; cases q) (simp add: path_names_def)

lemma path_of_names:
  "path_names p = n # ns \<Longrightarrow> foldl path_child (path_new (path_root p) n) ns = p"
  by (rule path_eqI) simp_all

lemma path_root_dotted [simp]: "path_root (path_dotted r s) = r"
  by (simp add: path_dotted_def split: list.split)

lemma path_names_dotted: "path_names (path_dotted r s) = split_on CHR ''.'' s"
  by (simp add: path_dotted_def split: list.split)

lemma path_dotted_join:
  assumes "\<And>n. n \<in> set (path_names p) \<Longrightarrow> CHR ''.'' \<notin> set n"
  shows "path_dotted (path_root p) (join_with ''.'' (path_names p)) = p"
  using assms by (intro path_eqI) (simp_all add: path_names_dotted split_on_join)

subsection \<open>The tree\<close>

datatype 'v expr =
    EValue 'v
  | EField path
  | EPrefix prefix_op "'v expr"
  | EInfix "'v expr" infix_op "'v expr"
  | EPostfix "'v expr" postfix_op
  | EAny path "'v expr"
  | EItem nat

fun try_map_values :: "('v \<Rightarrow> ('e, 'w) result) \<Rightarrow> 'v expr \<Rightarrow> ('e, 'w expr) result" where
  "try_map_values f (EValue v) = and_then (f v) (\<lambda>w. Inr (EValue w))"
| "try_map_values f (EField p) = Inr (EField p)"
| "try_map_values f (EItem up) = Inr (EItem up)"
| "try_map_values f (EPrefix op e) = and_then (try_map_values f e) (\<lambda>e'. Inr (EPrefix op e'))"
| "try_map_values f (EInfix l op r) =
     and_then (try_map_values f l) (\<lambda>l'. and_then (try_map_values f r) (\<lambda>r'. Inr (EInfix l' op r')))"
| "try_map_values f (EPostfix e op) = and_then (try_map_values f e) (\<lambda>e'. Inr (EPostfix e' op))"
| "try_map_values f (EAny source predicate) =
     and_then (try_map_values f predicate) (\<lambda>p'. Inr (EAny source p'))"

text \<open>The functions that build the tree.\<close>

definition ast_value :: "'v \<Rightarrow> 'v expr" where "ast_value v = EValue v"
definition ast_field :: "path \<Rightarrow> 'v expr" where "ast_field p = EField p"
definition ast_item :: "'v expr" where "ast_item = EItem 0"
definition ast_outer_item :: "nat \<Rightarrow> 'v expr" where "ast_outer_item up = EItem up"
definition ast_not :: "'v expr \<Rightarrow> 'v expr" where "ast_not e = EPrefix PNot e"
definition ast_neg :: "'v expr \<Rightarrow> 'v expr" where "ast_neg e = EPrefix PNeg e"
definition ast_infix :: "'v expr \<Rightarrow> infix_op \<Rightarrow> 'v expr \<Rightarrow> 'v expr" where
  "ast_infix l op r = EInfix l op r"
definition ast_equal :: "'v expr \<Rightarrow> 'v expr \<Rightarrow> 'v expr" where
  "ast_equal l r = ast_infix l infix_EQ r"
definition ast_not_equal :: "'v expr \<Rightarrow> 'v expr \<Rightarrow> 'v expr" where
  "ast_not_equal l r = ast_infix l infix_NE r"
definition ast_greater_than :: "'v expr \<Rightarrow> 'v expr \<Rightarrow> 'v expr" where
  "ast_greater_than l r = ast_infix l infix_GT r"
definition ast_less_than :: "'v expr \<Rightarrow> 'v expr \<Rightarrow> 'v expr" where
  "ast_less_than l r = ast_infix l infix_LT r"
definition ast_greater_than_equal :: "'v expr \<Rightarrow> 'v expr \<Rightarrow> 'v expr" where
  "ast_greater_than_equal l r = ast_infix l infix_GE r"
definition ast_less_than_equal :: "'v expr \<Rightarrow> 'v expr \<Rightarrow> 'v expr" where
  "ast_less_than_equal l r = ast_infix l infix_LE r"
definition ast_is :: "'v expr \<Rightarrow> 'v expr \<Rightarrow> 'v expr" where "ast_is l r = ast_infix l infix_IS r"
definition ast_and :: "'v expr \<Rightarrow> 'v expr \<Rightarrow> 'v expr" where "ast_and l r = ast_infix l infix_AND r"
definition ast_or :: "'v expr \<Rightarrow> 'v expr \<Rightarrow> 'v expr" where "ast_or l r = ast_infix l infix_OR r"
definition ast_and_all :: "'v expr \<Rightarrow> 'v expr list \<Rightarrow> 'v expr" where
  "ast_and_all first rest = foldl ast_and first rest"
definition ast_or_all :: "'v expr \<Rightarrow> 'v expr list \<Rightarrow> 'v expr" where
  "ast_or_all first rest = foldl ast_or first rest"
definition ast_add :: "'v expr \<Rightarrow> 'v expr \<Rightarrow> 'v expr" where "ast_add l r = ast_infix l infix_ADD r"
definition ast_sub :: "'v expr \<Rightarrow> 'v expr \<Rightarrow> 'v expr" where "ast_sub l r = ast_infix l infix_SUB r"
definition ast_mul :: "'v expr \<Rightarrow> 'v expr \<Rightarrow> 'v expr" where "ast_mul l r = ast_infix l infix_MUL r"
definition ast_div :: "'v expr \<Rightarrow> 'v expr \<Rightarrow> 'v expr" where "ast_div l r = ast_infix l infix_DIV r"
definition ast_modulo :: "'v expr \<Rightarrow> 'v expr \<Rightarrow> 'v expr" where
  "ast_modulo l r = ast_infix l infix_MOD r"
definition ast_left_shift :: "'v expr \<Rightarrow> 'v expr \<Rightarrow> 'v expr" where
  "ast_left_shift l r = ast_infix l infix_SHL r"
definition ast_right_shift :: "'v expr \<Rightarrow> 'v expr \<Rightarrow> 'v expr" where
  "ast_right_shift l r = ast_infix l infix_SHR r"
definition ast_is_null :: "'v expr \<Rightarrow> 'v expr" where "ast_is_null e = EPostfix e IsNull"
definition ast_is_not_null :: "'v expr \<Rightarrow> 'v expr" where "ast_is_not_null e = EPostfix e IsNotNull"
definition ast_any :: "path \<Rightarrow> 'v expr \<Rightarrow> 'v expr" where
  "ast_any source predicate = EAny source predicate"
definition ast_all :: "path \<Rightarrow> 'v expr \<Rightarrow> 'v expr" where
  "ast_all source predicate = ast_not (ast_any source (ast_not predicate))"

lemmas ast_builders =
  ast_value_def ast_field_def ast_item_def ast_outer_item_def ast_not_def ast_neg_def
  ast_infix_def ast_equal_def ast_not_equal_def ast_greater_than_def ast_less_than_def
  ast_greater_than_equal_def ast_less_than_equal_def ast_is_def ast_and_def ast_or_def
  ast_add_def ast_sub_def ast_mul_def ast_div_def ast_modulo_def ast_left_shift_def
  ast_right_shift_def ast_is_null_def ast_is_not_null_def ast_any_def ast_all_def

subsection \<open>The constants of a tree, and what \<open>try_map_values\<close> does to them\<close>

text \<open>The constants in order, left to right, and the tree with other constants in their places.\<close>

fun expr_values :: "'v expr \<Rightarrow> 'v list" where
  "expr_values (EValue v) = [v]"
| "expr_values (EField p) = []"
| "expr_values (EItem up) = []"
| "expr_values (EPrefix op e) = expr_values e"
| "expr_values (EInfix l op r) = expr_values l @ expr_values r"
| "expr_values (EPostfix e op) = expr_values e"
| "expr_values (EAny source predicate) = expr_values predicate"

lemma set_expr_values: "set (expr_values e) = set_expr e"
  by (induction e) auto


lemma collect_results_append:
  "collect_results (xs @ ys) =
     and_then (collect_results xs) (\<lambda>as. and_then (collect_results ys) (\<lambda>bs. Inr (as @ bs)))"
  by (induction xs) (auto simp: and_then_def split: sum.splits)

lemma try_map_values_values:
  "map_ok expr_values (try_map_values f e) = collect_results (map f (expr_values e))"
  by (induction e) (auto simp: collect_results_append and_then_def map_ok_def split: sum.splits)

lemma try_map_values_shape:
  "try_map_values f e = Inr e' \<Longrightarrow> map_expr (\<lambda>_. ()) e' = map_expr (\<lambda>_. ()) e"
  by (induction e arbitrary: e') auto

lemma try_map_values_Inr_id [simp]: "try_map_values Inr e = Inr e"
  by (induction e) simp_all

lemma try_map_values_total: "try_map_values (\<lambda>v. Inr (f v)) e = Inr (map_expr f e)"
  by (induction e) simp_all


subsection \<open>The scope of a tree\<close>

text \<open>The trees whose items are all items of a collection they are inside of.\<close>

definition rooted :: "nat \<Rightarrow> path \<Rightarrow> bool" where
  "rooted n p = (case path_root p of RGlobal \<Rightarrow> True | RItem up \<Rightarrow> up < n)"

fun closed :: "nat \<Rightarrow> 'v expr \<Rightarrow> bool" where
  "closed n (EValue v) \<longleftrightarrow> True"
| "closed n (EField p) \<longleftrightarrow> rooted n p"
| "closed n (EItem up) \<longleftrightarrow> up < n"
| "closed n (EPrefix op e) \<longleftrightarrow> closed n e"
| "closed n (EInfix l op r) \<longleftrightarrow> closed n l \<and> closed n r"
| "closed n (EPostfix e op) \<longleftrightarrow> closed n e"
| "closed n (EAny source predicate) \<longleftrightarrow> rooted n source \<and> closed (n + 1) predicate"

end
