(* ===== verification/Mapping_Transform.thy ===== *)
theory Mapping_Transform
  imports Ast
begin

section \<open>From the domain's terms to the storage's\<close>

text \<open>
  \<open>crates/specification/src/infrastructure/mapping.rs\<close>. The trait \<open>Mapping\<close> is a record of its
  three methods. \<open>Inside\<close>, the collections an expression is inside of, is the list of them, the
  nearest last, as in the source. The closures \<open>place\<close>, \<open>path\<close> and \<open>item\<close> are written out. Of a
  function that recurses through a closure or through another function, the non-recursive part is
  a definition of its own: \<open>any_collection\<close> is the body of \<open>collection\<close> but for its predicate.
\<close>

datatype 's mapped =
    MScalar "'s expr"
  | MComposite "'s mapped list"
  | MNull 's

record ('d, 's, 'e) storage_mapping =
  mapping_field :: "path \<Rightarrow> ('e, 's mapped) result"
  mapping_value :: "'d \<Rightarrow> ('e, 's mapped) result"
  mapping_element :: "path \<Rightarrow> ('e, 's mapped) result"

text \<open>The trait's default of \<open>element\<close>.\<close>

definition element_default :: "path \<Rightarrow> ('e, 's mapped) result" where
  "element_default collection = Inr (MScalar (EItem 0))"

datatype 'e transform_error =
    TMapping 'e
  | ShapeMismatch
  | TNoCurrentItem
  | OutsideItsCollection
  | CollectionNotAPlace
  | NotComposite
  | EmptyComposite
  | UnsupportedOperator infix_op
  | UnexpectedComposite

fun show_transform_error :: "('e \<Rightarrow> string) \<Rightarrow> 'e transform_error \<Rightarrow> string" where
  "show_transform_error show_e (TMapping e) = show_e e"
| "show_transform_error show_e ShapeMismatch = ''composite expressions have different length''"
| "show_transform_error show_e NotComposite = ''not enough composite expressions''"
| "show_transform_error show_e EmptyComposite = ''a composite expression has no parts''"
| "show_transform_error show_e (UnsupportedOperator op) =
     ''operator \"'' @ show_infix op @ ''\" is not supported for composite expressions''"
| "show_transform_error show_e UnexpectedComposite =
     ''a composite expression where a single one is needed''"
| "show_transform_error show_e TNoCurrentItem = ''no current item in context''"
| "show_transform_error show_e OutsideItsCollection =
     ''the mapping put a member of an item outside its collection: the storage's '' @
     ''path of a member of an item starts with the collection's''"
| "show_transform_error show_e CollectionNotAPlace =
     ''the mapping answered for a collection with what is not a place''"

record collection =
  col_domain :: "string list"
  col_storage :: "string list"

subsection \<open>Where a path stands\<close>

definition from_candidate :: "string list \<Rightarrow> path option" where
  "from_candidate names =
     (case names of
        [] \<Rightarrow> None
      | first # rest \<Rightarrow> Some (foldl path_child (path_global first) rest))"

text \<open>\<open>inside.len().checked_sub(up + 1).map(|at| inside[at])\<close>.\<close>

definition collection_out :: "collection list \<Rightarrow> nat \<Rightarrow> collection option" where
  "collection_out inside up =
     (if up + 1 \<le> length inside then Some (inside ! (length inside - (up + 1))) else None)"

definition whole :: "path \<Rightarrow> collection list \<Rightarrow> ('e transform_error, path) result" where
  "whole p inside =
     and_then
       (case path_root p of
          RGlobal \<Rightarrow> Inr None
        | RItem up \<Rightarrow> map_ok Some (ok_or TNoCurrentItem (collection_out inside up)))
       (\<lambda>collection.
          ok_or TNoCurrentItem (from_candidate (
            (case collection of None \<Rightarrow> [] | Some c \<Rightarrow> col_domain c) @ path_names p)))"

fun placed_expr :: "'s expr \<Rightarrow> string list \<Rightarrow> nat \<Rightarrow> ('e transform_error, 's expr) result" where
  "placed_expr (EField p) pre up =
     (if path_root p = RGlobal
      then (case strip_prefix pre (path_names p) of
              None \<Rightarrow> Inl OutsideItsCollection
            | Some [] \<Rightarrow> Inl OutsideItsCollection
            | Some (first # rest) \<Rightarrow>
                Inr (EField (foldl path_child (path_outer up first) rest)))
      else Inr (EField p))"
| "placed_expr (EValue v) pre up = Inr (EValue v)"
| "placed_expr (EItem n) pre up = Inr (EItem n)"
| "placed_expr (EPrefix op e) pre up = map_ok (EPrefix op) (placed_expr e pre up)"
| "placed_expr (EPostfix e op) pre up = map_ok (\<lambda>e. EPostfix e op) (placed_expr e pre up)"
| "placed_expr (EInfix l op r) pre up =
     and_then (placed_expr l pre up) (\<lambda>l.
       and_then (placed_expr r pre up) (\<lambda>r. Inr (EInfix l op r)))"
| "placed_expr (EAny source predicate) pre up =
     map_ok (EAny source) (placed_expr predicate pre up)"

text \<open>
  The source indexes \<open>inside\<close> without a test: every caller has asked \<open>whole\<close> first, which fails
  where the index is out of range.
\<close>

fun placed ::
  "'s mapped \<Rightarrow> root \<Rightarrow> collection list \<Rightarrow> ('e transform_error, 's mapped) result" where
  "placed mapped RGlobal inside = Inr mapped"
| "placed (MScalar e) (RItem up) inside =
     map_ok MScalar (placed_expr e (col_storage (inside ! (length inside - 1 - up))) up)"
| "placed (MComposite parts) (RItem up) inside =
     map_ok MComposite (collect_results (map (\<lambda>part. placed part (RItem up) inside) parts))"
| "placed (MNull v) (RItem up) inside = Inr (MNull v)"

definition shifted_index :: "nat \<Rightarrow> nat \<Rightarrow> nat \<Rightarrow> nat" where
  "shifted_index up local n = (if n < local then n else n + up)"

definition shifted_path :: "path \<Rightarrow> nat \<Rightarrow> nat \<Rightarrow> path" where
  "shifted_path p up local =
     (case path_root p of
        RGlobal \<Rightarrow> p
      | RItem n \<Rightarrow> path_dotted (RItem (shifted_index up local n)) (join_with ''.'' (path_names p)))"

fun shifted :: "'s expr \<Rightarrow> nat \<Rightarrow> nat \<Rightarrow> 's expr" where
  "shifted (EValue v) up local = EValue v"
| "shifted (EField p) up local = EField (shifted_path p up local)"
| "shifted (EItem n) up local = EItem (shifted_index up local n)"
| "shifted (EPrefix op e) up local = EPrefix op (shifted e up local)"
| "shifted (EPostfix e op) up local = EPostfix (shifted e up local) op"
| "shifted (EInfix l op r) up local = EInfix (shifted l up local) op (shifted r up local)"
| "shifted (EAny source predicate) up local =
     EAny (shifted_path source up local) (shifted predicate up (local + 1))"

fun further_out :: "'s mapped \<Rightarrow> nat \<Rightarrow> 's mapped" where
  "further_out (MScalar e) up = MScalar (shifted e up 0)"
| "further_out (MComposite parts) up = MComposite (map (\<lambda>part. further_out part up) parts)"
| "further_out (MNull v) up = MNull v"

subsection \<open>Operands\<close>

definition scalar :: "'s mapped \<Rightarrow> ('e transform_error, 's expr) result" where
  "scalar mapped =
     (case mapped of
        MScalar e \<Rightarrow> Inr e
      | MNull v \<Rightarrow> Inr (EValue v)
      | MComposite _ \<Rightarrow> Inl UnexpectedComposite)"

datatype 's written = WOne "'s expr" | WSeveral "'s mapped list"

definition written :: "'s mapped \<Rightarrow> 's written" where
  "written mapped =
     (case mapped of
        MScalar e \<Rightarrow> WOne e
      | MNull v \<Rightarrow> WOne (EValue v)
      | MComposite parts \<Rightarrow> WSeveral parts)"

text \<open>
  \<open>equal\<close>: the pairs are compared lazily and in order, and the first that fails is the result.
\<close>

lemma zip_smaller [termination_simp]:
  "(l, r) \<in> set (zip left right) \<Longrightarrow> size l < Suc (size_list size left)"
  by (drule set_zip_leftD) (induction left, auto)

fun equal_pair :: "'s mapped \<Rightarrow> 's mapped \<Rightarrow> ('e transform_error, 's expr) result" where
  "equal_pair tested (MNull _) = map_ok ast_is_null (scalar tested)"
| "equal_pair (MNull _) tested = map_ok ast_is_null (scalar tested)"
| "equal_pair (MScalar left) (MScalar right) = Inr (ast_equal left right)"
| "equal_pair (MComposite left) (MComposite right) =
     (if length left \<noteq> length right then Inl ShapeMismatch
      else and_then (collect_results (map (\<lambda>(l, r). equal_pair l r) (zip left right))) (\<lambda>parts.
        case parts of [] \<Rightarrow> Inl EmptyComposite | first # rest \<Rightarrow> Inr (ast_and_all first rest)))"
| "equal_pair _ _ = Inl ShapeMismatch"

definition equal_composites ::
  "'s mapped list \<Rightarrow> 's mapped list \<Rightarrow> ('e transform_error, 's expr) result" where
  "equal_composites left right =
     (if length left \<noteq> length right then Inl ShapeMismatch
      else and_then (collect_results (map (\<lambda>(l, r). equal_pair l r) (zip left right))) (\<lambda>parts.
        case parts of [] \<Rightarrow> Inl EmptyComposite | first # rest \<Rightarrow> Inr (ast_and_all first rest)))"

lemma equal_pair_composites:
  "equal_pair (MComposite left) (MComposite right) = equal_composites left right"
  by (simp add: equal_composites_def)

definition null_test_of :: "infix_op \<Rightarrow> ('s expr \<Rightarrow> 's expr) option" where
  "null_test_of op =
     (case op of
        IComparison CEq \<Rightarrow> Some ast_is_null
      | IComparison CNe \<Rightarrow> Some ast_is_not_null
      | _ \<Rightarrow> None)"

definition combined ::
  "infix_op \<Rightarrow> 's mapped \<Rightarrow> 's mapped \<Rightarrow> ('e transform_error, 's mapped) result" where
  "combined op left right =
     (case (left, right, null_test_of op) of
        (tested, MNull _, Some test) \<Rightarrow> map_ok (\<lambda>e. MScalar (test e)) (scalar tested)
      | (MNull _, tested, Some test) \<Rightarrow> map_ok (\<lambda>e. MScalar (test e)) (scalar tested)
      | (left, right, _) \<Rightarrow>
          (case (written left, written right) of
             (WOne left, WOne right) \<Rightarrow> Inr (MScalar (ast_infix left op right))
           | (WSeveral left, WSeveral right) \<Rightarrow>
               (case op of
                  IComparison CEq \<Rightarrow> map_ok MScalar (equal_composites left right)
                | IComparison CNe \<Rightarrow> map_ok (\<lambda>e. MScalar (ast_not e)) (equal_composites left right)
                | _ \<Rightarrow> Inl (UnsupportedOperator op))
           | _ \<Rightarrow> Inl NotComposite))"

subsection \<open>The tree\<close>

definition mapped_member ::
  "path \<Rightarrow> ('d, 's, 'e) storage_mapping \<Rightarrow> collection list \<Rightarrow> ('e transform_error, 's mapped) result"
  where
  "mapped_member p m inside =
     and_then (whole p inside) (\<lambda>w.
       and_then (map_err TMapping (mapping_field m w)) (\<lambda>mapped. placed mapped (path_root p) inside))"

definition mapped_element ::
  "nat \<Rightarrow> ('d, 's, 'e) storage_mapping \<Rightarrow> collection list \<Rightarrow> ('e transform_error, 's mapped) result"
  where
  "mapped_element up m inside =
     and_then (ok_or TNoCurrentItem (collection_out inside up)) (\<lambda>c.
       and_then (ok_or TNoCurrentItem (from_candidate (col_domain c))) (\<lambda>p.
         and_then (map_err TMapping (mapping_element m p)) (\<lambda>mapped. Inr (further_out mapped up))))"

definition any_collection ::
  "path \<Rightarrow> ('d, 's, 'e) storage_mapping \<Rightarrow> collection list
    \<Rightarrow> ('e transform_error, path \<times> collection) result" where
  "any_collection source m inside =
     and_then (whole source inside) (\<lambda>domain.
     and_then (map_err TMapping (mapping_field m domain)) (\<lambda>answer.
     and_then (case answer of
         MScalar (EField p) \<Rightarrow> if path_root p = RGlobal then Inr p else Inl CollectionNotAPlace
       | _ \<Rightarrow> Inl CollectionNotAPlace) (\<lambda>storage.
     and_then (placed (MScalar (EField storage) :: 's mapped) (path_root source) inside) (\<lambda>place.
     and_then (case place of
         MScalar (EField p) \<Rightarrow> Inr p
       | _ \<Rightarrow> Inl CollectionNotAPlace) (\<lambda>source.
     Inr (source, \<lparr>col_domain = path_names domain, col_storage = path_names storage\<rparr>))))))"

fun lower ::
  "'d expr \<Rightarrow> ('d, 's, 'e) storage_mapping \<Rightarrow> collection list
    \<Rightarrow> ('e transform_error, 's mapped) result" where
  "lower (EValue v) m inside = map_err TMapping (mapping_value m v)"
| "lower (EField p) m inside = mapped_member p m inside"
| "lower (EItem up) m inside = mapped_element up m inside"
| "lower (EPrefix op e) m inside =
     and_then (lower e m inside) (\<lambda>mapped.
       and_then (scalar mapped) (\<lambda>e. Inr (MScalar (EPrefix op e))))"
| "lower (EPostfix e op) m inside =
     and_then (lower e m inside) (\<lambda>mapped.
       and_then (scalar mapped) (\<lambda>e. Inr (MScalar (EPostfix e op))))"
| "lower (EInfix l op r) m inside =
     and_then (lower l m inside) (\<lambda>left.
       and_then (lower r m inside) (\<lambda>right. combined op left right))"
| "lower (EAny source predicate) m inside =
     and_then (any_collection source m inside) (\<lambda>(source, collection).
       and_then (lower predicate m (inside @ [collection])) (\<lambda>mapped.
         and_then (scalar mapped) (\<lambda>p. Inr (MScalar (ast_any source p)))))"

definition transform ::
  "'d expr \<Rightarrow> ('d, 's, 'e) storage_mapping \<Rightarrow> ('e transform_error, 's expr) result" where
  "transform e m = and_then (lower e m []) scalar"

end
