(* ===== verification/Evaluate.thy ===== *)
theory Evaluate
  imports Ast Operators
begin

section \<open>The evaluator\<close>

text \<open>
  \<open>crates/specification/src/domain/evaluate.rs\<close>: the reader that decides in memory whether a
  candidate satisfies a specification.

  The trait \<open>Context\<close> is a record of its three methods over a type \<open>'c\<close> of candidates and
  objects, an \<open>impl\<close> being a value of the record. The source's \<open>Scope\<close> holds the item under test
  as the first of a chain of frames, each borrowing the one outside it; here it is the list of
  those frames, the nearest first. A closure the source passes on to delay an evaluation is the
  result of that evaluation: nothing evaluated has an effect, so which of them were run shows in
  the errors alone, and those are taken in the source's order.
\<close>

subsection \<open>Candidates\<close>

datatype context_error =
    Missing string
  | NotAValue string
  | NotAnObject string
  | NotACollection string

datatype ('c, 'v) element = ElemObject 'c | ElemValue 'v

record ('c, 'v) ctx_ops =
  ctx_field :: "'c \<Rightarrow> string \<Rightarrow> (context_error, 'v) result"
  ctx_object :: "'c \<Rightarrow> string \<Rightarrow> (context_error, 'c) result"
  ctx_collection :: "'c \<Rightarrow> string \<Rightarrow> (context_error, ('c, 'v) element list) result"

datatype eval_error =
    EvContext context_error
  | NoCurrentItem
  | NotBoolean string
  | EvOperand operand_error

fun show_context_error :: "context_error \<Rightarrow> string" where
  "show_context_error (Missing name) = ''key '' @ [CHR 0x27] @ name @ [CHR 0x27] @ '' not found''"
| "show_context_error (NotAValue name) = CHR 0x27 # name @ [CHR 0x27] @ '' is not a value''"
| "show_context_error (NotAnObject name) = CHR 0x27 # name @ [CHR 0x27] @ '' is not an object''"
| "show_context_error (NotACollection name) =
     CHR 0x27 # name @ [CHR 0x27] @ '' is not a collection''"

fun show_eval_error :: "eval_error \<Rightarrow> string" where
  "show_eval_error (EvContext e) = show_context_error e"
| "show_eval_error NoCurrentItem = ''no current item in context''"
| "show_eval_error (NotBoolean kind) = ''a boolean was expected, got '' @ kind"
| "show_eval_error (EvOperand e) = show_operand_error e"

record ('c, 'v) frame =
  frame_element :: "('c, 'v) element"
  frame_collection :: string

record ('c, 'v) scope =
  scope_global :: 'c
  scope_item :: "('c, 'v) frame list"

subsection \<open>Truth values\<close>

definition truth :: "'v operand \<Rightarrow> 'v \<Rightarrow> (eval_error, bool option) result" where
  "truth ops v =
     (if op_is_null ops v then Inr None
      else map_ok Some (ok_or (NotBoolean (op_kind ops v)) (op_as_bool ops v)))"

definition from_truth :: "'v operand \<Rightarrow> bool option \<Rightarrow> 'v" where
  "from_truth ops t = (case t of None \<Rightarrow> op_null ops | Some b \<Rightarrow> op_from_bool ops b)"

fun deciding :: "logical \<Rightarrow> bool" where
  "deciding LAnd = False"
| "deciding LOr = True"

definition connective ::
  "logical \<Rightarrow> bool option \<Rightarrow> ('e, bool option) result \<Rightarrow> ('e, bool option) result" where
  "connective op left right =
     (if left = Some (deciding op) then Inr left
      else and_then right (\<lambda>r. Inr (
        if r = Some (deciding op) then Some (deciding op)
        else case (left, r) of (Some _, Some _) \<Rightarrow> Some (\<not> deciding op) | _ \<Rightarrow> None)))"

definition strict ::
  "'v operand \<Rightarrow> 'v \<Rightarrow> 'v \<Rightarrow> ('v \<Rightarrow> 'v \<Rightarrow> (operand_error, 'v) result) \<Rightarrow> (operand_error, 'v) result"
  where
  "strict ops l r f = (if op_is_null ops l \<or> op_is_null ops r then Inr (op_null ops) else f l r)"

fun compare_values ::
  "'v operand \<Rightarrow> 'v \<Rightarrow> comparison \<Rightarrow> 'v \<Rightarrow> (operand_error, bool) result" where
  "compare_values ops l CEq r = op_equals ops l r"
| "compare_values ops l CNe r = map_ok Not (op_equals ops l r)"
| "compare_values ops l CGt r = map_ok is_gt (op_compare ops l r)"
| "compare_values ops l CLt r = map_ok is_lt (op_compare ops l r)"
| "compare_values ops l CGe r = map_ok is_ge (op_compare ops l r)"
| "compare_values ops l CLe r = map_ok is_le (op_compare ops l r)"

definition named_error :: "infix_op \<Rightarrow> operand_error \<Rightarrow> eval_error" where
  "named_error op e =
     EvOperand (case e of
        Unsupported _ left right \<Rightarrow> Unsupported (show_infix op) left right
      | other \<Rightarrow> other)"

subsection \<open>Where a path leads\<close>

text \<open>The loop of \<open>frame\<close> steps out \<open>up\<close> times; running off the chain is no item.\<close>

definition frame_out :: "nat \<Rightarrow> ('c, 'v) scope \<Rightarrow> (eval_error, ('c, 'v) frame) result" where
  "frame_out up s =
     (case drop up (scope_item s) of [] \<Rightarrow> Inl NoCurrentItem | f # _ \<Rightarrow> Inr f)"

fun objects_from ::
  "('c, 'v) ctx_ops \<Rightarrow> 'c \<Rightarrow> string list \<Rightarrow> (context_error, 'c) result" where
  "objects_from ctx c [] = Inr c"
| "objects_from ctx c (n # ns) = and_then (ctx_object ctx c n) (\<lambda>c'. objects_from ctx c' ns)"

definition owner ::
  "('c, 'v) ctx_ops \<Rightarrow> path \<Rightarrow> ('c, 'v) scope \<Rightarrow> (eval_error, 'c) result" where
  "owner ctx p s =
     and_then
       (case path_root p of
          RGlobal \<Rightarrow> Inr (scope_global s)
        | RItem up \<Rightarrow> and_then (frame_out up s) (\<lambda>f.
            case frame_element f of
              ElemObject c \<Rightarrow> Inr c
            | ElemValue _ \<Rightarrow> Inl (EvContext (NotAnObject (frame_collection f @ ''[*]'')))))
       (\<lambda>root. map_err EvContext (objects_from ctx root (path_objects p)))"

definition eval_member ::
  "('c, 'v) ctx_ops \<Rightarrow> path \<Rightarrow> ('c, 'v) scope \<Rightarrow> (eval_error, 'v) result" where
  "eval_member ctx p s =
     and_then (owner ctx p s) (\<lambda>c. map_err EvContext (ctx_field ctx c (path_name p)))"

definition eval_itself :: "nat \<Rightarrow> ('c, 'v) scope \<Rightarrow> (eval_error, 'v) result" where
  "eval_itself up s =
     and_then (frame_out up s) (\<lambda>f.
       case frame_element f of
         ElemValue v \<Rightarrow> Inr v
       | ElemObject _ \<Rightarrow> Inl (EvContext (NotAValue (frame_collection f @ ''[*]''))))"

subsection \<open>The operators\<close>

text \<open>
  Each function is the case of the source's function of the same name, over the results of the
  operands it evaluates.
\<close>

definition eval_prefix ::
  "'v operand \<Rightarrow> prefix_op \<Rightarrow> (eval_error, 'v) result \<Rightarrow> (eval_error, 'v) result" where
  "eval_prefix ops op result =
     and_then result (\<lambda>v.
       case op of
         PNot \<Rightarrow> and_then (truth ops v) (\<lambda>t. Inr (from_truth ops (map_option Not t)))
       | PNeg \<Rightarrow>
           if op_is_null ops v then Inr (op_null ops) else map_err EvOperand (op_negate ops v))"

text \<open>\<open>is_null\<close>: a member is asked about whatever it is, an object that is there is not null.\<close>

definition eval_is_null ::
  "'v operand \<Rightarrow> ('c, 'v) ctx_ops \<Rightarrow> 'v expr \<Rightarrow> ('c, 'v) scope \<Rightarrow> (eval_error, 'v) result
    \<Rightarrow> (eval_error, bool) result" where
  "eval_is_null ops ctx operand s result =
     (case operand of
        EField p \<Rightarrow> and_then (owner ctx p s) (\<lambda>c.
          case ctx_field ctx c (path_name p) of
            Inr v \<Rightarrow> Inr (op_is_null ops v)
          | Inl (NotAValue _) \<Rightarrow>
              map_err EvContext (map_ok (\<lambda>_. False) (ctx_object ctx c (path_name p)))
          | Inl e \<Rightarrow> Inl (EvContext e))
      | _ \<Rightarrow> map_ok (op_is_null ops) result)"

definition eval_postfix ::
  "'v operand \<Rightarrow> postfix_op \<Rightarrow> (eval_error, bool) result \<Rightarrow> (eval_error, 'v) result" where
  "eval_postfix ops op null =
     map_ok (\<lambda>n. op_from_bool ops (case op of IsNull \<Rightarrow> n | IsNotNull \<Rightarrow> \<not> n)) null"

definition eval_logical ::
  "'v operand \<Rightarrow> logical \<Rightarrow> (eval_error, 'v) result \<Rightarrow> (eval_error, 'v) result
    \<Rightarrow> (eval_error, 'v) result" where
  "eval_logical ops op left right =
     and_then left (\<lambda>l. and_then (truth ops l) (\<lambda>t.
       map_ok (from_truth ops) (connective op t (and_then right (truth ops)))))"

fun is_constant :: "'v expr \<Rightarrow> bool" where
  "is_constant (EValue v) = True"
| "is_constant _ = False"

definition read_constants ::
  "'v operand \<Rightarrow> 'v expr \<Rightarrow> 'v expr \<Rightarrow> 'v \<Rightarrow> 'v \<Rightarrow> (operand_error, 'v \<times> 'v) result" where
  "read_constants ops le re l r =
     and_then (if is_constant le then op_read_beside ops l r else Inr None) (\<lambda>read_l.
       case read_l of
         Some l' \<Rightarrow> Inr (l', r)
       | None \<Rightarrow>
           and_then (if is_constant re then op_read_beside ops r l else Inr None) (\<lambda>read_r.
             case read_r of Some r' \<Rightarrow> Inr (l, r') | None \<Rightarrow> Inr (l, r)))"

definition eval_infix ::
  "'v operand \<Rightarrow> 'v expr \<Rightarrow> infix_op \<Rightarrow> 'v expr
    \<Rightarrow> (eval_error, 'v) result \<Rightarrow> (eval_error, 'v) result \<Rightarrow> (eval_error, 'v) result" where
  "eval_infix ops le op re left right =
     and_then left (\<lambda>l. and_then right (\<lambda>r.
       case op of
         IIs \<Rightarrow>
           and_then (map_err (named_error op) (read_constants ops le re l r)) (\<lambda>(l, r).
             if op_is_null ops l \<or> op_is_null ops r
             then Inr (op_from_bool ops (op_is_null ops l \<and> op_is_null ops r))
             else map_err (named_error op) (map_ok (op_from_bool ops) (op_equals ops l r)))
       | IComparison comparison \<Rightarrow>
           and_then (map_err (named_error op) (read_constants ops le re l r)) (\<lambda>(l, r).
             map_err (named_error op) (strict ops l r (\<lambda>l r.
               map_ok (op_from_bool ops) (compare_values ops l comparison r))))
       | IArithmetic arithmetic \<Rightarrow>
           map_err (named_error op) (strict ops l r (\<lambda>l r. op_compute ops l arithmetic r))
       | ILogical logical \<Rightarrow> eval_logical ops logical left right))"

text \<open>
  \<open>some\<close>: the items are tried in order and the first outcome that is not \<open>Ok(false)\<close> decides: a
  witness, or an error.
\<close>

definition first_outcome :: "('e, bool) result list \<Rightarrow> ('e, bool) result" where
  "first_outcome outcomes =
     (case find (\<lambda>r. r \<noteq> Inr False) outcomes of None \<Rightarrow> Inr False | Some r \<Rightarrow> r)"

definition enter :: "('c, 'v) scope \<Rightarrow> string \<Rightarrow> ('c, 'v) element \<Rightarrow> ('c, 'v) scope" where
  "enter s collection e =
     s\<lparr>scope_item := \<lparr>frame_element = e, frame_collection = collection\<rparr> # scope_item s\<rparr>"

definition eval_some ::
  "'v operand \<Rightarrow> ('c, 'v) ctx_ops \<Rightarrow> path \<Rightarrow> (('c, 'v) scope \<Rightarrow> (eval_error, 'v) result)
    \<Rightarrow> ('c, 'v) scope \<Rightarrow> (eval_error, 'v) result" where
  "eval_some ops ctx source predicate s =
     and_then (owner ctx source s) (\<lambda>c.
     and_then (map_err EvContext (ctx_collection ctx c (path_name source))) (\<lambda>items.
       map_ok (op_from_bool ops) (first_outcome (map (\<lambda>e.
         and_then (and_then (predicate (enter s (path_name source) e)) (truth ops))
           (\<lambda>t. Inr (t = Some True))) items))))"

fun eval ::
  "'v operand \<Rightarrow> ('c, 'v) ctx_ops \<Rightarrow> 'v expr \<Rightarrow> ('c, 'v) scope \<Rightarrow> (eval_error, 'v) result" where
  "eval ops ctx (EValue v) s = Inr v"
| "eval ops ctx (EField p) s = eval_member ctx p s"
| "eval ops ctx (EItem up) s = eval_itself up s"
| "eval ops ctx (EPrefix op e) s = eval_prefix ops op (eval ops ctx e s)"
| "eval ops ctx (EPostfix e op) s =
     eval_postfix ops op (eval_is_null ops ctx e s (eval ops ctx e s))"
| "eval ops ctx (EInfix l (ILogical op) r) s =
     eval_logical ops op (eval ops ctx l s) (eval ops ctx r s)"
| "eval ops ctx (EInfix l op r) s =
     eval_infix ops l op r (eval ops ctx l s) (eval ops ctx r s)"
| "eval ops ctx (EAny source predicate) s =
     eval_some ops ctx source (\<lambda>s'. eval ops ctx predicate s') s"

definition evaluate ::
  "'v operand \<Rightarrow> ('c, 'v) ctx_ops \<Rightarrow> 'v expr \<Rightarrow> 'c \<Rightarrow> (eval_error, 'v) result" where
  "evaluate ops ctx e candidate =
     eval ops ctx e \<lparr>scope_global = candidate, scope_item = []\<rparr>"

definition is_satisfied_by ::
  "'v operand \<Rightarrow> ('c, 'v) ctx_ops \<Rightarrow> 'v expr \<Rightarrow> 'c \<Rightarrow> (eval_error, bool) result" where
  "is_satisfied_by ops ctx specification candidate =
     and_then (evaluate ops ctx specification candidate) (\<lambda>v.
       and_then (truth ops v) (\<lambda>t. Inr (t = Some True)))"


section \<open>A candidate made of plain data\<close>

text \<open>
  \<open>crates/specification/src/domain/record.rs\<close>: a value, an object of named members or a
  collection. A \<open>BTreeMap\<close> is a map. \<open>record_ctx\<close> is \<open>impl Context for Record\<close>.
\<close>

datatype 'v rec =
    RValue 'v
  | RObject "string \<Rightarrow> 'v rec option"
  | RCollection "'v rec list"

definition record_value :: "'v \<Rightarrow> 'v rec" where
  "record_value v = RValue v"

text \<open>\<open>collect\<close> into a map: of two members of one name the later stays.\<close>

definition record_object :: "(string \<times> 'v rec) list \<Rightarrow> 'v rec" where
  "record_object members = RObject (foldl (\<lambda>m (name, r). m(name \<mapsto> r)) Map.empty members)"

definition record_collection :: "'v rec list \<Rightarrow> 'v rec" where
  "record_collection items = RCollection items"

definition record_member :: "'v rec \<Rightarrow> string \<Rightarrow> (context_error, 'v rec) result" where
  "record_member r name =
     (case r of
        RObject members \<Rightarrow> ok_or (Missing name) (members name)
      | RValue _ \<Rightarrow> Inl (Missing name)
      | RCollection _ \<Rightarrow> Inl (Missing name))"

definition record_field :: "'v rec \<Rightarrow> string \<Rightarrow> (context_error, 'v) result" where
  "record_field r name =
     and_then (record_member r name) (\<lambda>m.
       case m of RValue v \<Rightarrow> Inr v | _ \<Rightarrow> Inl (NotAValue name))"

definition record_object_at :: "'v rec \<Rightarrow> string \<Rightarrow> (context_error, 'v rec) result" where
  "record_object_at r name =
     and_then (record_member r name) (\<lambda>m.
       case m of RObject ms \<Rightarrow> Inr (RObject ms) | _ \<Rightarrow> Inl (NotAnObject name))"

definition record_element :: "'v rec \<Rightarrow> ('v rec, 'v) element" where
  "record_element item = (case item of RValue v \<Rightarrow> ElemValue v | other \<Rightarrow> ElemObject other)"

definition record_collection_at ::
  "'v rec \<Rightarrow> string \<Rightarrow> (context_error, ('v rec, 'v) element list) result" where
  "record_collection_at r name =
     and_then (record_member r name) (\<lambda>m.
       case m of
         RCollection items \<Rightarrow> Inr (map record_element items)
       | _ \<Rightarrow> Inl (NotACollection name))"

definition record_ctx :: "('v rec, 'v) ctx_ops" where
  "record_ctx = \<lparr>
     ctx_field = record_field,
     ctx_object = record_object_at,
     ctx_collection = record_collection_at\<rparr>"

lemma record_ctx_simps [simp]:
  "ctx_field record_ctx = record_field"
  "ctx_object record_ctx = record_object_at"
  "ctx_collection record_ctx = record_collection_at"
  by (simp_all add: record_ctx_def)

text \<open>Building an object and asking for a member: the last declaration of the name.\<close>

lemma record_object_member:
  "record_member (record_object ms) n = ok_or (Missing n) (map_of (rev ms) n)"
proof -
  have "foldl (\<lambda>m (name, r). m(name \<mapsto> r)) m0 ms = m0 ++ map_of (rev ms)" for m0
    by (induction ms arbitrary: m0) (auto simp: map_add_def fun_eq_iff split: option.splits)
  then show ?thesis by (simp add: record_member_def record_object_def)
qed

end
