(* ===== verification/Evaluate_Laws.thy ===== *)
theory Evaluate_Laws
  imports Evaluate
begin

section \<open>The laws of the evaluator\<close>

text \<open>
  Three-valued logic as a specification (\<open>kleene\<close>), the evaluator the ported sources have, which
  evaluates every part of a tree (\<open>eval_eager\<close>), and what relates them to the evaluator of the
  source, which stops as soon as a result is decided. Everything is proved once in the locale
  \<open>operand_laws\<close>, for any type of values that keeps the contract.
\<close>

subsection \<open>The specification: three-valued connectives\<close>

fun kleene :: "logical \<Rightarrow> bool option \<Rightarrow> bool option \<Rightarrow> bool option" where
  "kleene LAnd (Some False) b = Some False"
| "kleene LAnd a (Some False) = Some False"
| "kleene LAnd (Some True) (Some True) = Some True"
| "kleene LAnd _ _ = None"
| "kleene LOr (Some True) b = Some True"
| "kleene LOr a (Some True) = Some True"
| "kleene LOr (Some False) (Some False) = Some False"
| "kleene LOr _ _ = None"

fun dual :: "logical \<Rightarrow> logical" where
  "dual LAnd = LOr"
| "dual LOr = LAnd"

lemma connective_kleene: "connective op a (Inr b) = Inr (kleene op a b)"
  by (cases "(op, a, b)" rule: kleene.cases)
    (auto simp: connective_def split: option.split)

lemma connective_decided: "a = Some (deciding op) \<Longrightarrow> connective op a r = Inr a"
  by (simp add: connective_def)

lemma connective_undecided:
  "a \<noteq> Some (deciding op) \<Longrightarrow> connective op a r = map_ok (kleene op a) r"
  by (cases r) (simp_all add: connective_kleene, simp add: connective_def)

lemma kleene_dual: "map_option Not (kleene op a b) = kleene (dual op) (map_option Not a) (map_option Not b)"
  by (cases "(op, a, b)" rule: kleene.cases) auto

lemma deciding_dual [simp]: "deciding (dual op) = (\<not> deciding op)"
  by (cases op) simp_all

subsection \<open>The sources' evaluator: every part of the tree is evaluated\<close>

definition eager_logical ::
  "'v operand \<Rightarrow> logical \<Rightarrow> (eval_error, 'v) result \<Rightarrow> (eval_error, 'v) result
    \<Rightarrow> (eval_error, 'v) result" where
  "eager_logical ops op left right =
     and_then (and_then left (truth ops)) (\<lambda>a. and_then (and_then right (truth ops)) (\<lambda>b.
       Inr (from_truth ops (kleene op a b))))"

definition eager_some ::
  "'v operand \<Rightarrow> ('c, 'v) ctx_ops \<Rightarrow> path \<Rightarrow> (('c, 'v) scope \<Rightarrow> (eval_error, 'v) result)
    \<Rightarrow> ('c, 'v) scope \<Rightarrow> (eval_error, 'v) result" where
  "eager_some ops ctx source predicate s =
     and_then (owner ctx source s) (\<lambda>c.
     and_then (map_err EvContext (ctx_collection ctx c (path_name source))) (\<lambda>items.
     and_then (collect_results (map (\<lambda>e.
         and_then (predicate (enter s (path_name source) e)) (truth ops)) items)) (\<lambda>truths.
       Inr (op_from_bool ops (Some True \<in> set truths)))))"

fun eval_eager ::
  "'v operand \<Rightarrow> ('c, 'v) ctx_ops \<Rightarrow> 'v expr \<Rightarrow> ('c, 'v) scope \<Rightarrow> (eval_error, 'v) result" where
  "eval_eager ops ctx (EValue v) s = Inr v"
| "eval_eager ops ctx (EField p) s = eval_member ctx p s"
| "eval_eager ops ctx (EItem up) s = eval_itself up s"
| "eval_eager ops ctx (EPrefix op e) s = eval_prefix ops op (eval_eager ops ctx e s)"
| "eval_eager ops ctx (EPostfix e op) s =
     eval_postfix ops op (eval_is_null ops ctx e s (eval_eager ops ctx e s))"
| "eval_eager ops ctx (EInfix l (ILogical op) r) s =
     eager_logical ops op (eval_eager ops ctx l s) (eval_eager ops ctx r s)"
| "eval_eager ops ctx (EInfix l op r) s =
     eval_infix ops l op r (eval_eager ops ctx l s) (eval_eager ops ctx r s)"
| "eval_eager ops ctx (EAny source predicate) s =
     eager_some ops ctx source (\<lambda>s'. eval_eager ops ctx predicate s') s"

lemma first_outcome_Cons:
  "first_outcome (r # rs) = (if r = Inr False then first_outcome rs else r)"
  by (simp add: first_outcome_def)

lemma first_outcome_Nil [simp]: "first_outcome [] = Inr False"
  by (simp add: first_outcome_def)

lemma first_outcome_all_Inr:
  "first_outcome (map (\<lambda>x. Inr (P x)) xs) = Inr (\<exists>x \<in> set xs. P x)"
  by (induction xs) (auto simp: first_outcome_Cons)

lemma first_outcome_Inr_False_iff: "first_outcome rs = Inr False \<longleftrightarrow> (\<forall>r \<in> set rs. r = Inr False)"
  by (induction rs) (auto simp: first_outcome_Cons)

lemma first_outcome_decisive_iff:
  assumes "d \<noteq> Inr False"
  shows "first_outcome rs = d \<longleftrightarrow>
    (\<exists>before after. rs = before @ d # after \<and> (\<forall>r \<in> set before. r = Inr False))"
proof (induction rs)
  case Nil
  with assms show ?case by auto
next
  case (Cons r rs)
  show ?case
  proof (cases "r = Inr False")
    case True
    have "(\<exists>before after. r # rs = before @ d # after \<and> (\<forall>x \<in> set before. x = Inr False)) \<longleftrightarrow>
        (\<exists>before after. rs = before @ d # after \<and> (\<forall>x \<in> set before. x = Inr False))"
    proof
      assume "\<exists>before after. r # rs = before @ d # after \<and> (\<forall>x \<in> set before. x = Inr False)"
      then obtain before after where "r # rs = before @ d # after" "\<forall>x \<in> set before. x = Inr False"
        by blast
      with True assms show "\<exists>before after. rs = before @ d # after \<and> (\<forall>x \<in> set before. x = Inr False)"
        by (cases before) auto
    next
      assume "\<exists>before after. rs = before @ d # after \<and> (\<forall>x \<in> set before. x = Inr False)"
      then obtain before after where "rs = before @ d # after" "\<forall>x \<in> set before. x = Inr False"
        by blast
      with True show "\<exists>before after. r # rs = before @ d # after \<and> (\<forall>x \<in> set before. x = Inr False)"
        by (intro exI [of _ "r # before"] exI [of _ after]) simp
    qed
    with Cons True show ?thesis by (simp add: first_outcome_Cons)
  next
    case False
    then show ?thesis
      by (auto simp: first_outcome_Cons Cons_eq_append_conv)
  qed
qed

lemma first_outcome_map_iff:
  assumes "d \<noteq> Inr False"
  shows "first_outcome (map f xs) = d \<longleftrightarrow>
    (\<exists>before x after. xs = before @ x # after \<and> f x = d \<and> (\<forall>b \<in> set before. f b = Inr False))"
proof
  assume "first_outcome (map f xs) = d"
  then obtain rs rs' where "map f xs = rs @ d # rs'" and false: "\<forall>r \<in> set rs. r = Inr False"
    using first_outcome_decisive_iff [OF assms] by blast
  then obtain bs x as where "xs = bs @ x # as" "map f bs = rs" "f x = d"
    by (auto simp: map_eq_append_conv map_eq_Cons_conv)
  with false show "\<exists>before x after. xs = before @ x # after \<and> f x = d
      \<and> (\<forall>b \<in> set before. f b = Inr False)"
    by (intro exI [of _ bs] exI [of _ x] exI [of _ as]) auto
next
  assume "\<exists>before x after. xs = before @ x # after \<and> f x = d \<and> (\<forall>b \<in> set before. f b = Inr False)"
  then obtain bs x as where "map f xs = map f bs @ d # map f as" "\<forall>r \<in> set (map f bs). r = Inr False"
    by auto
  then show "first_outcome (map f xs) = d"
    using first_outcome_decisive_iff [OF assms] by blast
qed

text \<open>What the predicate of a quantifier is of an item: its truth value, or its error.\<close>

definition item_truth ::
  "'v operand \<Rightarrow> ('c, 'v) ctx_ops \<Rightarrow> 'v expr \<Rightarrow> path \<Rightarrow> ('c, 'v) scope \<Rightarrow> ('c, 'v) element
    \<Rightarrow> (eval_error, bool option) result" where
  "item_truth ops ctx predicate source s e =
     and_then (eval ops ctx predicate (enter s (path_name source) e)) (truth ops)"

lemma item_outcome_iff:
  "and_then r (\<lambda>t. Inr (t = Some True)) = Inr False \<longleftrightarrow> (\<exists>t. r = Inr t \<and> t \<noteq> Some True)"
  "and_then r (\<lambda>t. Inr (t = Some True)) = Inr True \<longleftrightarrow> r = Inr (Some True)"
  "and_then r (\<lambda>t. Inr (t = Some True)) = Inl e \<longleftrightarrow> r = Inl e"
  by (cases r; auto)+

lemma eval_any_outcome:
  assumes "owner ctx source s = Inr c" and "ctx_collection ctx c (path_name source) = Inr items"
  shows "eval ops ctx (EAny source predicate) s = map_ok (op_from_bool ops)
    (first_outcome (map (\<lambda>e. and_then (item_truth ops ctx predicate source s e)
      (\<lambda>t. Inr (t = Some True))) items))"
  using assms by (simp add: eval_some_def item_truth_def)

context operand_laws
begin

lemma map_ok_from_bool:
  "map_ok (op_from_bool ops) r = Inr (op_from_bool ops b) \<longleftrightarrow> r = Inr b"
  by (cases r) (auto simp: from_bool_inject)

lemma any_true_iff:
  assumes "owner ctx source s = Inr c" and "ctx_collection ctx c (path_name source) = Inr items"
  shows "eval ops ctx (EAny source predicate) s = Inr (op_from_bool ops True) \<longleftrightarrow>
    (\<exists>before e after. items = before @ e # after
      \<and> item_truth ops ctx predicate source s e = Inr (Some True)
      \<and> (\<forall>b \<in> set before. \<exists>t. item_truth ops ctx predicate source s b = Inr t \<and> t \<noteq> Some True))"
  by (simp only: eval_any_outcome [OF assms] map_ok_from_bool)
    (simp add: first_outcome_map_iff item_outcome_iff)

lemma any_false_iff:
  assumes "owner ctx source s = Inr c" and "ctx_collection ctx c (path_name source) = Inr items"
  shows "eval ops ctx (EAny source predicate) s = Inr (op_from_bool ops False) \<longleftrightarrow>
    (\<forall>e \<in> set items. \<exists>t. item_truth ops ctx predicate source s e = Inr t \<and> t \<noteq> Some True)"
  by (simp only: eval_any_outcome [OF assms] map_ok_from_bool)
    (simp add: first_outcome_Inr_False_iff item_outcome_iff)

lemma any_error_iff:
  assumes "owner ctx source s = Inr c" and "ctx_collection ctx c (path_name source) = Inr items"
  shows "eval ops ctx (EAny source predicate) s = Inl f \<longleftrightarrow>
    (\<exists>before e after. items = before @ e # after
      \<and> item_truth ops ctx predicate source s e = Inl f
      \<and> (\<forall>b \<in> set before. \<exists>t. item_truth ops ctx predicate source s b = Inr t \<and> t \<noteq> Some True))"
  by (simp only: eval_any_outcome [OF assms] map_ok_Inl_iff)
    (simp add: first_outcome_map_iff item_outcome_iff)

lemma truth_from_bool [simp]: "truth ops (op_from_bool ops b) = Inr (Some b)"
  by (simp add: truth_def operand_simps)

lemma truth_null [simp]: "truth ops (op_null ops) = Inr None"
  by (simp add: truth_def operand_simps)

lemma truth_from_truth [simp]: "truth ops (from_truth ops t) = Inr t"
  by (simp add: from_truth_def split: option.split)

lemma from_truth_Some [simp]: "from_truth ops (Some b) = op_from_bool ops b"
  by (simp add: from_truth_def)

lemma eval_logical_truth:
  "eval_logical ops op left right =
     map_ok (from_truth ops)
       (and_then (and_then left (truth ops)) (\<lambda>a. connective op a (and_then right (truth ops))))"
  by (cases left) (simp_all add: eval_logical_def map_ok_def and_then_assoc)

lemma prefix_not_truth:
  "eval_prefix ops PNot result =
     map_ok (\<lambda>t. from_truth ops (map_option Not t)) (and_then result (truth ops))"
  by (cases result) (simp_all add: eval_prefix_def map_ok_def)

lemma truth_after_map_ok_from_truth [simp]:
  "and_then (map_ok (\<lambda>x. from_truth ops (f x)) r) (truth ops) = map_ok f r"
  by (cases r) simp_all

text \<open>De Morgan, errors and short circuits included.\<close>

lemma not_logical:
  "eval_prefix ops PNot (eval_logical ops op left right) =
     eval_logical ops (dual op) (eval_prefix ops PNot left) (eval_prefix ops PNot right)"
proof (cases "and_then left (truth ops)")
  case (Inl e)
  then show ?thesis
    by (simp add: prefix_not_truth eval_logical_truth)
next
  case (Inr a)
  show ?thesis
  proof (cases "a = Some (deciding op)")
    case True
    with Inr show ?thesis
      by (simp add: prefix_not_truth eval_logical_truth connective_decided)
  next
    case False
    then have "map_option Not a \<noteq> Some (deciding (dual op))"
      by (cases a) auto
    with False Inr show ?thesis
      by (cases "and_then right (truth ops)")
        (simp_all add: prefix_not_truth eval_logical_truth connective_undecided kleene_dual)
  qed
qed

lemma logical_eager:
  assumes "eager_logical ops op left right = Inr v"
  shows "eval_logical ops op left right = Inr v"
  using assms
  by (auto simp: eager_logical_def eval_logical_truth connective_kleene and_then_Inr_iff)

text \<open>A collection under \<open>any\<close>, its items' truths all known.\<close>

lemma eval_some_truths:
  assumes "owner ctx source s = Inr c"
    and "ctx_collection ctx c (path_name source) = Inr items"
    and "\<And>e. e \<in> set items \<Longrightarrow>
      and_then (predicate (enter s (path_name source) e)) (truth ops) = Inr (t e)"
  shows "eval_some ops ctx source predicate s
    = Inr (op_from_bool ops (\<exists>e \<in> set items. t e = Some True))"
proof -
  have m: "map (\<lambda>e. and_then (and_then (predicate (enter s (path_name source) e)) (truth ops))
        (\<lambda>t. Inr (t = Some True))) items = map (\<lambda>e. Inr (t e = Some True)) items"
    using assms(3) by simp
  show ?thesis
    by (simp only: eval_some_def assms(1,2) and_then_simps map_err_simps m
        first_outcome_all_Inr map_ok_simps)
qed

lemma some_eager:
  assumes eager: "eager_some ops ctx source p s = Inr v"
    and refines: "\<And>s v. p s = Inr v \<Longrightarrow> q s = Inr v"
  shows "eval_some ops ctx source q s = Inr v"
proof -
  let ?p = "\<lambda>e. and_then (p (enter s (path_name source) e)) (truth ops)"
  obtain c items truths where c: "owner ctx source s = Inr c"
    and items: "ctx_collection ctx c (path_name source) = Inr items"
    and truths: "collect_results (map ?p items) = Inr truths"
    and v: "v = op_from_bool ops (Some True \<in> set truths)"
    using eager by (auto simp: eager_some_def)
  define t where "t e = projr (?p e)" for e
  from collect_results_mapD [OF truths] have truths_t: "truths = map t items"
    and p_t: "\<And>e. e \<in> set items \<Longrightarrow> ?p e = Inr (t e)"
    by (auto simp: t_def)
  have "and_then (q (enter s (path_name source) e)) (truth ops) = Inr (t e)" if "e \<in> set items" for e
    using p_t [OF that] refines by (auto simp: and_then_Inr_iff)
  then have "eval_some ops ctx source q s
      = Inr (op_from_bool ops (\<exists>e \<in> set items. t e = Some True))"
    by (rule eval_some_truths [OF c items])
  moreover have "Some True \<in> set truths \<longleftrightarrow> (\<exists>e \<in> set items. t e = Some True)"
    by (force simp: truths_t)
  ultimately show ?thesis using v by simp
qed

lemma is_null_mono:
  "eval_is_null ops ctx e s r = Inr n \<Longrightarrow> (\<And>v. r = Inr v \<Longrightarrow> r' = Inr v) \<Longrightarrow>
    eval_is_null ops ctx e s r' = Inr n"
  by (cases e) (auto simp: eval_is_null_def)

lemma eval_eager_refined: "eval_eager ops ctx e s = Inr v \<Longrightarrow> eval ops ctx e s = Inr v"
proof (induction e arbitrary: s v)
  case (EInfix l op r)
  show ?case
  proof (cases op)
    case (ILogical lop)
    with EInfix show ?thesis
      by (auto simp: eager_logical_def and_then_Inr_iff eval_logical_truth connective_kleene)
  qed (use EInfix in \<open>auto simp: eval_infix_def\<close>)
next
  case (EPostfix e op)
  then show ?case by (auto simp: eval_postfix_def intro: is_null_mono)
next
  case (EAny source predicate)
  then show ?case by (auto intro: some_eager)
qed (auto simp: eval_prefix_def)

end


section \<open>Equality with the null\<close>

text \<open>
  \<open>crates/specification/src/domain/null_test.rs\<close>: in the notations where null is a value, an
  equality with the null constant is the null test of the other operand.
\<close>

definition is_null_constant :: "'v operand \<Rightarrow> 'v expr \<Rightarrow> bool" where
  "is_null_constant ops e = (case e of EValue v \<Rightarrow> op_is_null ops v | _ \<Rightarrow> False)"

definition test_or_compare ::
  "'v operand \<Rightarrow> 'v expr \<Rightarrow> 'v expr \<Rightarrow> ('v expr \<Rightarrow> 'v expr)
    \<Rightarrow> ('v expr \<Rightarrow> 'v expr \<Rightarrow> 'v expr) \<Rightarrow> 'v expr" where
  "test_or_compare ops left right test compare =
     (if is_null_constant ops right then test left
      else if is_null_constant ops left then test right
      else compare left right)"

definition null_equal :: "'v operand \<Rightarrow> 'v expr \<Rightarrow> 'v expr \<Rightarrow> 'v expr" where
  "null_equal ops left right = test_or_compare ops left right ast_is_null ast_equal"

definition null_not_equal :: "'v operand \<Rightarrow> 'v expr \<Rightarrow> 'v expr \<Rightarrow> 'v expr" where
  "null_not_equal ops left right = test_or_compare ops left right ast_is_not_null ast_not_equal"

fun throughout :: "'v operand \<Rightarrow> 'v expr \<Rightarrow> 'v expr" where
  "throughout ops (EInfix l (IComparison CEq) r) =
     null_equal ops (throughout ops l) (throughout ops r)"
| "throughout ops (EInfix l (IComparison CNe) r) =
     null_not_equal ops (throughout ops l) (throughout ops r)"
| "throughout ops (EInfix l op r) = ast_infix (throughout ops l) op (throughout ops r)"
| "throughout ops (EPrefix op e) = EPrefix op (throughout ops e)"
| "throughout ops (EPostfix e op) = EPostfix (throughout ops e) op"
| "throughout ops (EAny source predicate) = EAny source (throughout ops predicate)"
| "throughout ops (EValue v) = EValue v"
| "throughout ops (EField p) = EField p"
| "throughout ops (EItem up) = EItem up"

text \<open>A tree in which no equality has the null constant for an operand.\<close>

fun no_null_equality :: "'v operand \<Rightarrow> 'v expr \<Rightarrow> bool" where
  "no_null_equality ops (EInfix l op r) \<longleftrightarrow>
     no_null_equality ops l \<and> no_null_equality ops r \<and>
     (op = infix_EQ \<or> op = infix_NE \<longrightarrow>
       \<not> is_null_constant ops l \<and> \<not> is_null_constant ops r)"
| "no_null_equality ops (EPrefix op e) \<longleftrightarrow> no_null_equality ops e"
| "no_null_equality ops (EPostfix e op) \<longleftrightarrow> no_null_equality ops e"
| "no_null_equality ops (EAny source predicate) \<longleftrightarrow> no_null_equality ops predicate"
| "no_null_equality ops (EValue v) \<longleftrightarrow> True"
| "no_null_equality ops (EField p) \<longleftrightarrow> True"
| "no_null_equality ops (EItem up) \<longleftrightarrow> True"

lemmas null_test_defs = null_equal_def null_not_equal_def test_or_compare_def

lemma throughout_no_null_equality: "no_null_equality ops (throughout ops e)"
  by (induction ops e rule: throughout.induct) (auto simp: null_test_defs ast_builders)

lemma throughout_unchanged: "no_null_equality ops e \<Longrightarrow> throughout ops e = e"
proof (induction ops e rule: throughout.induct)
  case (1 ops l r)
  then show ?case by (auto simp: null_test_defs ast_builders)
next
  case (2 ops l r)
  then show ?case by (auto simp: null_test_defs ast_builders)
qed (auto simp: ast_builders)

text \<open>
  The test against the comparison it replaces: where the comparison has a value that is not
  null, nothing changes for the operand; the comparison with the null constant is null of
  everything, the test is true or false of everything.
\<close>

context operand_laws
begin

lemma null_comparison_is_null:
  assumes "eval ops ctx l s = Inr v" and "op_is_null ops n"
    and "op_read_beside ops n v = Inr None"
    and "is_constant l \<Longrightarrow> op_read_beside ops v n = Inr None"
  shows "eval ops ctx (ast_equal l (EValue n)) s = Inr (op_null ops)"
  using assms
  by (simp add: ast_builders eval_infix_def read_constants_def strict_def)

lemma null_equal_eval:
  assumes "op_is_null ops n" and "eval ops ctx l s = Inr v"
  shows "eval ops ctx (null_equal ops l (EValue n)) s = Inr (op_from_bool ops (op_is_null ops v))"
proof -
  have "eval_is_null ops ctx l s (eval ops ctx l s) = Inr (op_is_null ops v)"
    using assms(2) by (cases l) (auto simp: eval_is_null_def eval_member_def split: sum.splits)
  then show ?thesis
    using assms(1) by (simp add: null_test_defs is_null_constant_def ast_builders eval_postfix_def)
qed

lemma null_not_equal_eval:
  assumes "op_is_null ops n" and "eval ops ctx l s = Inr v"
  shows "eval ops ctx (null_not_equal ops l (EValue n)) s
    = Inr (op_from_bool ops (\<not> op_is_null ops v))"
proof -
  have "eval_is_null ops ctx l s (eval ops ctx l s) = Inr (op_is_null ops v)"
    using assms(2) by (cases l) (auto simp: eval_is_null_def eval_member_def split: sum.splits)
  then show ?thesis
    using assms(1) by (simp add: null_test_defs is_null_constant_def ast_builders eval_postfix_def)
qed

end

end
