(* ===== verification/Float64.thy ===== *)
theory Float64
  imports Prelude
begin

section \<open>The double-precision numbers of Rust\<close>

text \<open>
  Rust's \<open>f64\<close> is IEEE 754 binary64, computed with round-to-nearest, ties to even. A number is
  here what its bits say: a NaN (of which there is one: no code modelled here looks at its
  payload or its sign), an infinity, or a sign, a significand and a power of two. The canonical
  finite numbers are those of \<open>f64_ok\<close>; every operation makes canonical numbers, and computes the
  exact rational result before it rounds once.
\<close>

datatype f64 = F_NaN | F_Inf bool | F_Fin bool nat int

definition f64_ok :: "f64 \<Rightarrow> bool" where
  "f64_ok x = (case x of
     F_Fin s m e \<Rightarrow> m < 2 ^ 53 \<and> -1074 \<le> e \<and> e \<le> 971 \<and> (2 ^ 52 \<le> m \<or> e = -1074)
   | _ \<Rightarrow> True)"

fun bit_length :: "nat \<Rightarrow> nat" where
  "bit_length n = (if n = 0 then 0 else Suc (bit_length (n div 2)))"

declare bit_length.simps [simp del]

text \<open>The quotient of \<open>n / d\<close> by \<open>2 ^ e\<close> as a fraction, and the integer nearest to it.\<close>

definition scaled :: "nat \<Rightarrow> nat \<Rightarrow> int \<Rightarrow> nat \<times> nat" where
  "scaled n d e = (if 0 \<le> e then (n, d * 2 ^ nat e) else (n * 2 ^ nat (- e), d))"

definition nearest :: "nat \<times> nat \<Rightarrow> nat" where
  "nearest q =
     (let i = fst q div snd q; r = fst q mod snd q
      in if snd q < 2 * r \<or> (2 * r = snd q \<and> odd i) then i + 1 else i)"

definition exponent_for :: "nat \<Rightarrow> nat \<Rightarrow> int" where
  "exponent_for n d =
     (let e = int (bit_length n) - int (bit_length d) - 53;
          q = scaled n d e
      in max (-1074) (if 2 ^ 53 * snd q \<le> fst q then e + 1 else e))"

definition f64_of_ratio :: "bool \<Rightarrow> nat \<Rightarrow> nat \<Rightarrow> f64" where
  "f64_of_ratio s n d =
     (if n = 0 then F_Fin s 0 (-1074)
      else let e = exponent_for n d; m = nearest (scaled n d e);
               (m, e) = (if m = 2 ^ 53 then (2 ^ 52, e + 1) else (m, e))
           in if 971 < e then F_Inf s else F_Fin s m e)"

text \<open>\<open>i * 2 ^ e\<close>, rounded; a zero is positive.\<close>

definition f64_of_scaled :: "int \<Rightarrow> int \<Rightarrow> f64" where
  "f64_of_scaled i e =
     (let n = nat \<bar>i\<bar>
      in if 0 \<le> e then f64_of_ratio (i < 0) (n * 2 ^ nat e) 1
         else f64_of_ratio (i < 0) n (2 ^ nat (- e)))"

definition f64_of_int :: "int \<Rightarrow> f64" where
  "f64_of_int i = f64_of_scaled i 0"

fun is_nan :: "f64 \<Rightarrow> bool" where
  "is_nan F_NaN = True" | "is_nan _ = False"

fun is_infinite :: "f64 \<Rightarrow> bool" where
  "is_infinite (F_Inf s) = True" | "is_infinite _ = False"

fun is_finite :: "f64 \<Rightarrow> bool" where
  "is_finite (F_Fin s m e) = True" | "is_finite _ = False"

text \<open>\<open>x == 0.0\<close>, of either sign.\<close>

fun is_zero :: "f64 \<Rightarrow> bool" where
  "is_zero (F_Fin s m e) = (m = 0)" | "is_zero _ = False"

fun f64_neg :: "f64 \<Rightarrow> f64" where
  "f64_neg F_NaN = F_NaN"
| "f64_neg (F_Inf s) = F_Inf (\<not> s)"
| "f64_neg (F_Fin s m e) = F_Fin (\<not> s) m e"

definition signed :: "bool \<Rightarrow> nat \<Rightarrow> int" where
  "signed s m = (if s then - int m else int m)"

fun f64_add :: "f64 \<Rightarrow> f64 \<Rightarrow> f64" where
  "f64_add (F_Fin s m e) (F_Fin s' m' e') =
     (let f = min e e';
          i = signed s m * 2 ^ nat (e - f) + signed s' m' * 2 ^ nat (e' - f)
      in if i = 0 then F_Fin (s \<and> s') 0 (-1074) else f64_of_scaled i f)"
| "f64_add (F_Inf s) (F_Inf s') = (if s = s' then F_Inf s else F_NaN)"
| "f64_add (F_Inf s) (F_Fin s' m e) = F_Inf s"
| "f64_add (F_Fin s' m e) (F_Inf s) = F_Inf s"
| "f64_add _ _ = F_NaN"

definition f64_sub :: "f64 \<Rightarrow> f64 \<Rightarrow> f64" where
  "f64_sub x y = f64_add x (f64_neg y)"

fun f64_mul :: "f64 \<Rightarrow> f64 \<Rightarrow> f64" where
  "f64_mul (F_Fin s m e) (F_Fin s' m' e') =
     (if 0 \<le> e + e' then f64_of_ratio (s \<noteq> s') (m * m' * 2 ^ nat (e + e')) 1
      else f64_of_ratio (s \<noteq> s') (m * m') (2 ^ nat (- (e + e'))))"
| "f64_mul (F_Inf s) (F_Inf s') = F_Inf (s \<noteq> s')"
| "f64_mul (F_Inf s) (F_Fin s' m e) = (if m = 0 then F_NaN else F_Inf (s \<noteq> s'))"
| "f64_mul (F_Fin s' m e) (F_Inf s) = (if m = 0 then F_NaN else F_Inf (s \<noteq> s'))"
| "f64_mul _ _ = F_NaN"

fun f64_div :: "f64 \<Rightarrow> f64 \<Rightarrow> f64" where
  "f64_div (F_Fin s m e) (F_Fin s' m' e') =
     (if m' = 0 then (if m = 0 then F_NaN else F_Inf (s \<noteq> s'))
      else if e' \<le> e then f64_of_ratio (s \<noteq> s') (m * 2 ^ nat (e - e')) m'
      else f64_of_ratio (s \<noteq> s') m (m' * 2 ^ nat (e' - e)))"
| "f64_div (F_Inf s) (F_Fin s' m e) = F_Inf (s \<noteq> s')"
| "f64_div (F_Fin s m e) (F_Inf s') = F_Fin (s \<noteq> s') 0 (-1074)"
| "f64_div _ _ = F_NaN"

text \<open>
  \<open>partial_cmp\<close>: of finite numbers by their value, a multiple of \<open>2 ^ (-1074)\<close>; an infinity is
  beyond every number; a NaN is not ordered.
\<close>

definition f64_units :: "bool \<Rightarrow> nat \<Rightarrow> int \<Rightarrow> int" where
  "f64_units s m e = signed s m * 2 ^ nat (e + 1074)"

text \<open>A number that is not a NaN by its side - below, among or above the finite - and its value.\<close>

fun f64_rank :: "f64 \<Rightarrow> int \<times> int" where
  "f64_rank (F_Inf s) = ((if s then -1 else 1), 0)"
| "f64_rank (F_Fin s m e) = (0, f64_units s m e)"
| "f64_rank F_NaN = (2, 0)"

definition rank_cmp :: "int \<times> int \<Rightarrow> int \<times> int \<Rightarrow> ordering" where
  "rank_cmp a b =
     (if fst a < fst b then OLess else if fst b < fst a then OGreater else cmp_of (snd a) (snd b))"

definition f64_partial_cmp :: "f64 \<Rightarrow> f64 \<Rightarrow> ordering option" where
  "f64_partial_cmp x y =
     (if is_nan x \<or> is_nan y then None else Some (rank_cmp (f64_rank x) (f64_rank y)))"

subsection \<open>Every result is canonical\<close>

lemma bit_length_bounds:
  "0 < n \<Longrightarrow> 2 ^ (bit_length n - 1) \<le> n \<and> n < 2 ^ bit_length n"
proof (induction n rule: bit_length.induct)
  case (1 n)
  show ?case
  proof (cases "n = 1")
    case True
    then show ?thesis by (simp add: bit_length.simps)
  next
    case False
    with 1 have IH: "2 ^ (bit_length (n div 2) - 1) \<le> n div 2" "n div 2 < 2 ^ bit_length (n div 2)"
      by simp_all
    have pos: "0 < bit_length (n div 2)"
      using False \<open>0 < n\<close> by (subst bit_length.simps) simp
    have len: "bit_length n = Suc (bit_length (n div 2))"
      using \<open>0 < n\<close> by (subst bit_length.simps) simp
    have "(2::nat) ^ bit_length (n div 2) = 2 * 2 ^ (bit_length (n div 2) - 1)"
      using pos by (metis Suc_diff_1 power_Suc)
    with IH(1) have "2 ^ bit_length (n div 2) \<le> n" by simp
    moreover have "n < 2 * 2 ^ bit_length (n div 2)" using IH(2) by simp
    ultimately show ?thesis by (simp add: len)
  qed
qed

lemma bit_length_pos: "0 < n \<Longrightarrow> 0 < bit_length n"
  by (subst bit_length.simps) simp

text \<open>At the exponent chosen the quotient is below \<open>2 ^ 53\<close>, and \<open>2 ^ 52\<close> at least unless subnormal.\<close>

lemma nearest_le:
  assumes "n < k * d" shows "nearest (n, d) \<le> k"
proof -
  have "n div d < k" using assms by (simp add: less_mult_imp_div_less)
  then show ?thesis by (simp add: nearest_def Let_def)
qed

lemma nearest_ge:
  assumes "k * d \<le> n" and "0 < d" shows "k \<le> nearest (n, d)"
proof -
  have "k \<le> n div d" using assms by (simp add: less_eq_div_iff_mult_less_eq)
  then show ?thesis by (simp add: nearest_def Let_def)
qed

lemma scaled_Suc:
  "snd (scaled n d e) * k * 2 \<le> fst (scaled n d e) \<longleftrightarrow> snd (scaled n d (e + 1)) * k \<le> fst (scaled n d (e + 1))"
proof (cases "0 \<le> e")
  case True
  then have "nat (e + 1) = Suc (nat e)" by simp
  with True show ?thesis by (simp add: scaled_def mult.assoc mult.left_commute mult.commute)
next
  case False
  show ?thesis
  proof (cases "e = -1")
    case True
    then show ?thesis by (simp add: scaled_def)
  next
    case neg: False
    with False have "nat (- e) = Suc (nat (- (e + 1)))" and "\<not> 0 \<le> e + 1" by simp_all
    with False show ?thesis by (simp add: scaled_def mult.assoc mult.left_commute mult.commute)
  qed
qed


lemma scaled_estimate:
  assumes "0 < n" "0 < d"
  defines "e \<equiv> int (bit_length n) - int (bit_length d) - 53"
  shows "2 ^ 52 * snd (scaled n d e) \<le> fst (scaled n d e)
    \<and> fst (scaled n d e) < 2 ^ 54 * snd (scaled n d e)"
proof -
  note nb = bit_length_bounds [OF assms(1)] and db = bit_length_bounds [OF assms(2)]
  obtain b where b: "bit_length d = Suc b" using bit_length_pos [OF assms(2)] by (cases "bit_length d") auto
  obtain a where a: "bit_length n = Suc a" using bit_length_pos [OF assms(1)] by (cases "bit_length n") auto
  show ?thesis
  proof (cases "0 \<le> e")
    case True
    define k where "k = nat e"
    have ka: "a = b + 53 + k" using True a b by (simp add: k_def e_def)
    have "2 ^ 52 * (d * 2 ^ k) \<le> 2 ^ 52 * (2 ^ Suc b * 2 ^ k)"
      using db b by (intro mult_le_mono) auto
    also have "\<dots> = 2 ^ a" by (simp add: ka power_add)
    also have "\<dots> \<le> n" using nb a by simp
    finally have lower: "2 ^ 52 * (d * 2 ^ k) \<le> n" .
    have "n < 2 ^ Suc a" using nb a by simp
    also have "\<dots> = 2 ^ 54 * (2 ^ b * 2 ^ k)" by (simp add: ka power_add)
    also have "\<dots> \<le> 2 ^ 54 * (d * 2 ^ k)" using db b by (intro mult_le_mono) auto
    finally have "n < 2 ^ 54 * (d * 2 ^ k)" .
    with lower True show ?thesis by (simp add: scaled_def k_def)
  next
    case False
    define k where "k = nat (- e)"
    have ka: "a + k = b + 53" using False a b by (simp add: k_def e_def)
    have "2 ^ 52 * d \<le> 2 ^ 52 * 2 ^ Suc b" using db b by (intro mult_le_mono) auto
    also have "\<dots> = 2 ^ (a + k)" by (simp add: ka power_add)
    also have "\<dots> \<le> n * 2 ^ k" using nb a by (simp add: power_add)
    finally have lower: "2 ^ 52 * d \<le> n * 2 ^ k" .
    have "n * 2 ^ k < 2 ^ Suc a * 2 ^ k" using nb a by simp
    also have "\<dots> = 2 * 2 ^ (a + k)" by (simp add: power_add)
    also have "\<dots> = 2 ^ 54 * 2 ^ b" by (simp add: ka power_add)
    also have "\<dots> \<le> 2 ^ 54 * d" using db b by (intro mult_le_mono) auto
    finally have "n * 2 ^ k < 2 ^ 54 * d" .
    with lower False show ?thesis by (simp add: scaled_def k_def)
  qed
qed

lemma scaled_pos: "0 < d \<Longrightarrow> 0 < snd (scaled n d e)"
  by (simp add: scaled_def)

lemma scaled_mono:
  assumes "e \<le> f" "fst (scaled n d e) < k * snd (scaled n d e)"
  shows "fst (scaled n d f) < k * snd (scaled n d f)"
  using assms
proof (induction "nat (f - e)" arbitrary: f)
  case (Suc j)
  then have IH: "fst (scaled n d (f - 1)) < k * snd (scaled n d (f - 1))" by simp
  have "\<not> snd (scaled n d (f - 1)) * k * 2 \<le> fst (scaled n d (f - 1))"
    using IH by (simp add: mult.commute)
  then show ?case
    using scaled_Suc [of n d "f - 1" k] by (simp add: mult.commute not_le)
qed simp

lemma exponent_for_bounds:
  assumes "0 < n" "0 < d"
  defines "q \<equiv> scaled n d (exponent_for n d)"
  shows "fst q < 2 ^ 53 * snd q"
    and "exponent_for n d \<noteq> -1074 \<Longrightarrow> 2 ^ 52 * snd q \<le> fst q"
    and "-1074 \<le> exponent_for n d"
proof -
  define e0 where "e0 = int (bit_length n) - int (bit_length d) - 53"
  define e1 where "e1 = (if 2 ^ 53 * snd (scaled n d e0) \<le> fst (scaled n d e0) then e0 + 1 else e0)"
  have ex: "exponent_for n d = max (-1074) e1"
    by (simp add: exponent_for_def e0_def e1_def Let_def)
  note est = scaled_estimate [OF assms(1,2), folded e0_def]
  have upper: "fst (scaled n d e1) < 2 ^ 53 * snd (scaled n d e1)"
  proof (cases "2 ^ 53 * snd (scaled n d e0) \<le> fst (scaled n d e0)")
    case True
    have "\<not> snd (scaled n d e0) * 2 ^ 53 * 2 \<le> fst (scaled n d e0)" using est by simp
    with True show ?thesis using scaled_Suc [of n d e0 "2 ^ 53"] by (simp add: e1_def)
  qed (simp add: e1_def)
  have lower: "2 ^ 52 * snd (scaled n d e1) \<le> fst (scaled n d e1)"
  proof (cases "2 ^ 53 * snd (scaled n d e0) \<le> fst (scaled n d e0)")
    case True
    then show ?thesis using scaled_Suc [of n d e0 "2 ^ 52"] by (simp add: e1_def)
  next
    case False
    with est show ?thesis by (simp add: e1_def)
  qed
  show "fst q < 2 ^ 53 * snd q"
    unfolding q_def ex by (rule scaled_mono [OF _ upper]) simp
  show "-1074 \<le> exponent_for n d" by (simp add: ex)
  show "2 ^ 52 * snd q \<le> fst q" if "exponent_for n d \<noteq> -1074"
    using lower that unfolding q_def ex by (auto simp: max_def split: if_splits)
qed

lemma f64_of_ratio_ok: "0 < d \<Longrightarrow> f64_ok (f64_of_ratio s n d)"
proof (cases "n = 0")
  case False
  assume d: "0 < d"
  let ?e = "exponent_for n d" and ?q = "scaled n d (exponent_for n d)"
  define m where "m = nearest ?q"
  from False d have pos: "0 < n" "0 < d" by simp_all
  note b = exponent_for_bounds [OF pos]
  have m: "m \<le> 2 ^ 53" "?e \<noteq> -1074 \<Longrightarrow> 2 ^ 52 \<le> m"
    using nearest_le [of "fst ?q" "2 ^ 53" "snd ?q"] nearest_ge [of "2 ^ 52" "snd ?q" "fst ?q"]
      b scaled_pos [OF d] by (simp_all add: m_def)
  show ?thesis
  proof (cases "m = 2 ^ 53")
    case True
    with False b show ?thesis
      by (auto simp: f64_of_ratio_def f64_ok_def Let_def m_def [symmetric])
  next
    case other: False
    with m have "m < 2 ^ 53" by simp
    with False other b m show ?thesis
      by (auto simp: f64_of_ratio_def f64_ok_def Let_def m_def [symmetric])
  qed
qed (simp add: f64_of_ratio_def f64_ok_def)

text \<open>The integer chosen is no further from the quotient than a half.\<close>

lemma half_bounds:
  "x = d - r \<Longrightarrow> d \<le> 2 * r \<Longrightarrow> r < d \<Longrightarrow> 2 * \<bar>x\<bar> \<le> d"
  "x = - r \<Longrightarrow> 2 * r \<le> d \<Longrightarrow> 0 \<le> r \<Longrightarrow> 2 * \<bar>x\<bar> \<le> d"
  for x d r :: int
  by linarith+

lemma nearest_half:
  assumes "0 < d" shows "2 * \<bar>int (nearest (n, d)) * int d - int n\<bar> \<le> int d"
proof -
  have n: "int n = int (n div d) * int d + int (n mod d)"
    by (metis div_mult_mod_eq of_nat_add of_nat_mult)
  have r: "int (n mod d) < int d" using assms by simp
  show ?thesis
  proof (cases "d < 2 * (n mod d) \<or> (2 * (n mod d) = d \<and> odd (n div d))")
    case True
    then have "int (nearest (n, d)) * int d - int n = int d - int (n mod d)"
      by (simp add: nearest_def Let_def n algebra_simps)
    moreover have "d \<le> 2 * (n mod d)" using True by auto
    then have "int d \<le> 2 * int (n mod d)" by linarith
    ultimately show ?thesis using r by (rule half_bounds(1))
  next
    case False
    then have "int (nearest (n, d)) * int d - int n = - int (n mod d)"
      using n by (auto simp: nearest_def Let_def)
    moreover have "2 * (n mod d) \<le> d" using False by auto
    then have "2 * int (n mod d) \<le> int d" by linarith
    ultimately show ?thesis by (rule half_bounds(2)) simp
  qed
qed

lemma f64_of_scaled_ok [simp]: "f64_ok (f64_of_scaled i e)"
  by (simp add: f64_of_scaled_def Let_def f64_of_ratio_ok)

lemma f64_of_int_ok [simp]: "f64_ok (f64_of_int i)"
  by (simp add: f64_of_int_def)

lemma f64_simple_ok [simp]:
  "f64_ok F_NaN" "f64_ok (F_Inf s)" "f64_ok (F_Fin s 0 (-1074))"
  by (simp_all add: f64_ok_def)

lemma f64_neg_ok [simp]: "f64_ok (f64_neg x) = f64_ok x"
  by (cases x) (simp_all add: f64_ok_def)

lemma f64_add_ok [simp]: "f64_ok (f64_add x y)" if "f64_ok x" "f64_ok y"
  using that by (cases "(x, y)" rule: f64_add.cases) (simp_all add: Let_def)

lemma f64_mul_ok [simp]: "f64_ok (f64_mul x y)"
  by (cases "(x, y)" rule: f64_mul.cases) (simp_all add: f64_of_ratio_ok)

lemma f64_div_ok [simp]: "f64_ok (f64_div x y)"
  by (cases "(x, y)" rule: f64_div.cases) (simp_all add: f64_of_ratio_ok)

text \<open>Of finite numbers only a division by zero is a NaN.\<close>

lemma f64_of_ratio_not_nan [simp]: "\<not> is_nan (f64_of_ratio s n d)"
  by (simp add: f64_of_ratio_def Let_def)

lemma f64_finite_not_nan:
  assumes "is_finite x" "is_finite y"
  shows "\<not> is_nan (f64_add x y)" "\<not> is_nan (f64_sub x y)" "\<not> is_nan (f64_mul x y)"
    "\<not> is_zero y \<Longrightarrow> \<not> is_nan (f64_div x y)"
  using assms
  by (cases x; cases y; simp add: Let_def f64_sub_def f64_of_scaled_def)+

lemma finite_iff: "is_finite x \<longleftrightarrow> \<not> is_nan x \<and> \<not> is_infinite x"
  by (cases x) simp_all

subsection \<open>The order\<close>

lemma rank_cmp_eq_iff [simp]: "rank_cmp a b = OEqual \<longleftrightarrow> a = b"
  by (cases a; cases b) (auto simp: rank_cmp_def)

lemma rank_cmp_reverse: "rank_cmp b a = reverse_ordering (rank_cmp a b)"
  by (auto simp: rank_cmp_def cmp_of_reverse [of "snd b"])

lemma rank_cmp_less: "rank_cmp a b = OLess \<longleftrightarrow> fst a < fst b \<or> fst a = fst b \<and> snd a < snd b"
  by (auto simp: rank_cmp_def)

end
