(* ===== verification/Reading.thy ===== *)
theory Reading
  imports Prelude "HOL-Library.Word"
begin

section \<open>A string constant read as a point in time, a date or a UUID\<close>

text \<open>
  \<open>crates/specification/src/domain/reading.rs\<close>. The calendar is the crate \<open>chrono\<close>'s and the
  parsing of a UUID the crate \<open>uuid\<close>'s: what the source calls of them are the fields of the record
  \<open>calendar\<close>, an argument of the definitions here.

  A text is the bytes of its UTF-8. The source slices it at byte positions: \<open>text.get(a..b)\<close> is none
  where a position is not the start of a character, \<open>&text[a..b]\<close> and \<open>split_at\<close> abort there. So a
  reading is \<open>Inl ()\<close>, an abort, or \<open>Inr\<close> of an option.
\<close>

type_synonym i64 = "64 word"
type_synonym i32 = "32 word"
type_synonym uuid = "128 word"

type_synonym 'a reading = "(unit, 'a option) result"

record ('date, 'time, 'offset, 'moment) calendar =
  cal_from_ymd_opt :: "int \<Rightarrow> nat \<Rightarrow> nat \<Rightarrow> 'date option"
  cal_and_hms_micro_opt :: "'date \<Rightarrow> nat \<Rightarrow> nat \<Rightarrow> nat \<Rightarrow> nat \<Rightarrow> 'time option"
  cal_east_opt :: "int \<Rightarrow> 'offset option"
  cal_from_local_single :: "'offset \<Rightarrow> 'time \<Rightarrow> 'moment option"
  cal_timestamp_micros :: "'moment \<Rightarrow> i64"
  cal_utc_micros :: "'time \<Rightarrow> i64"
  cal_date :: "'time \<Rightarrow> 'date"
  cal_num_days_from_ce :: "'date \<Rightarrow> i32"
  cal_parse_uuid :: "string \<Rightarrow> uuid option"

subsection \<open>Slices of a text\<close>

definition is_continuation :: "char \<Rightarrow> bool" where
  "is_continuation c \<longleftrightarrow> (128 :: nat) \<le> of_char c \<and> of_char c < (192 :: nat)"

definition is_char_boundary :: "string \<Rightarrow> nat \<Rightarrow> bool" where
  "is_char_boundary s i \<longleftrightarrow> i = length s \<or> (i < length s \<and> \<not> is_continuation (s ! i))"

definition str_get :: "string \<Rightarrow> nat \<Rightarrow> nat \<Rightarrow> string option" where
  "str_get s a b =
     (if a \<le> b \<and> b \<le> length s \<and> is_char_boundary s a \<and> is_char_boundary s b
      then Some (take (b - a) (drop a s)) else None)"

definition str_slice :: "string \<Rightarrow> nat \<Rightarrow> nat \<Rightarrow> (unit, string) result" where
  "str_slice s a b = ok_or () (str_get s a b)"

definition str_split_at :: "string \<Rightarrow> nat \<Rightarrow> (unit, string \<times> string) result" where
  "str_split_at s i =
     (if i \<le> length s \<and> is_char_boundary s i then Inr (take i s, drop i s) else Inl ())"

text \<open>\<open>?\<close> of an option inside a computation that may abort.\<close>

definition read_then :: "'a reading \<Rightarrow> ('a \<Rightarrow> 'b reading) \<Rightarrow> 'b reading" where
  "read_then r f =
     and_then r (\<lambda>x. case x of None \<Rightarrow> Inr None | Some a \<Rightarrow> f a)"

lemma read_then_simps [simp]:
  "read_then (Inl u) f = Inl u"
  "read_then (Inr None) f = Inr None"
  "read_then (Inr (Some a)) f = f a"
  by (simp_all add: read_then_def)

text \<open>The last position of a character of a set: \<open>rfind\<close> of ASCII characters.\<close>

fun find_last_from :: "nat \<Rightarrow> char set \<Rightarrow> string \<Rightarrow> nat option" where
  "find_last_from i cs [] = None"
| "find_last_from i cs (c # s) =
     (case find_last_from (Suc i) cs s of
        Some j \<Rightarrow> Some j
      | None \<Rightarrow> if c \<in> cs then Some i else None)"

definition rfind :: "char set \<Rightarrow> string \<Rightarrow> nat option" where
  "rfind cs s = find_last_from 0 cs s"

text \<open>How many characters a text has, and \<open>format!("{:0<6}")\<close>, which pads to six of them.\<close>

definition count_chars :: "string \<Rightarrow> nat" where
  "count_chars s = length (filter (\<lambda>c. \<not> is_continuation c) s)"

definition pad_zeros :: "string \<Rightarrow> string" where
  "pad_zeros s = s @ replicate (6 - count_chars s) CHR ''0''"

subsection \<open>The forms\<close>

definition POINT_IN_TIME :: string where
  "POINT_IN_TIME = ''YYYY-MM-DD, or that with THH:MM[:SS[.ffffff]] and Z or an offset''"

definition UUID :: string where
  "UUID = ''8-4-4-4-12 hexadecimal digits''"

definition UNIX_EPOCH_FROM_CE :: i32 where
  "UNIX_EPOCH_FROM_CE = 719163"

definition digits :: "string \<Rightarrow> nat \<Rightarrow> nat \<Rightarrow> nat reading" where
  "digits text a b = Inr (
     case str_get text a b of
       None \<Rightarrow> None
     | Some part \<Rightarrow>
         if part = [] \<or> \<not> list_all is_ascii_digit part then None
         else (case read_nat part of
             None \<Rightarrow> None
           | Some n \<Rightarrow> if n < 2 ^ 32 then Some n else None))"

text \<open>The seconds and microseconds that follow hours and minutes.\<close>

definition seconds_of :: "string \<Rightarrow> (nat \<times> nat) reading" where
  "seconds_of rest =
     (case rest of
        [] \<Rightarrow> Inr (Some (0, 0))
      | c # _ \<Rightarrow>
          if c \<noteq> CHR '':'' then Inr None
          else read_then (digits rest 1 3) (\<lambda>second.
            and_then (str_slice rest 3 (length rest)) (\<lambda>fraction.
              case fraction of
                [] \<Rightarrow> Inr (Some (second, 0))
              | f # _ \<Rightarrow>
                  if f = CHR ''.'' \<and> 2 \<le> length fraction \<and> length fraction \<le> 7
                  then and_then (str_slice fraction 1 (length fraction)) (\<lambda>digs.
                    read_then (digits (pad_zeros digs) 0 6) (\<lambda>micros.
                      Inr (Some (second, micros))))
                  else Inr None)))"

definition offset_of :: "string option \<Rightarrow> int reading" where
  "offset_of offset =
     (case offset of
        None \<Rightarrow> Inr (Some 0)
      | Some o' \<Rightarrow>
          if o' = ''Z'' then Inr (Some 0)
          else if length o' \<noteq> 6 then Inr None
          else and_then (str_slice o' 3 4) (\<lambda>colon.
            if colon \<noteq> '':'' then Inr None
            else read_then (digits o' 1 3) (\<lambda>hours.
              read_then (digits o' 4 6) (\<lambda>minutes.
                let seconds = int ((hours * 60 + minutes) * 60)
                in Inr (Some (if hd o' = CHR ''-'' then - seconds else seconds))))))"

definition time_of_day :: "string \<Rightarrow> (nat \<times> nat \<times> nat \<times> nat \<times> int) reading" where
  "time_of_day rest =
     (if rest = [] then Inr (Some (0, 0, 0, 0, 0))
      else read_then
        (Inr (case strip_prefix ''T'' rest of
                Some r \<Rightarrow> Some r
              | None \<Rightarrow> strip_prefix '' '' rest)) (\<lambda>rest.
        let (offset, rest) =
          (case rfind {CHR ''Z'', CHR ''+'', CHR ''-''} rest of
             Some at \<Rightarrow> (Some (drop at rest), take at rest)
           | None \<Rightarrow> (None, rest))
        in read_then (digits rest 0 2) (\<lambda>hour.
           read_then (digits rest 3 5) (\<lambda>minute.
             if length rest < 5 then Inr None
             else and_then (str_slice rest 2 3) (\<lambda>colon.
               if colon \<noteq> '':'' then Inr None
               else and_then (str_slice rest 5 (length rest)) (\<lambda>seconds.
                 read_then (seconds_of seconds) (\<lambda>(second, micros).
                   read_then (offset_of offset) (\<lambda>off.
                     Inr (Some (hour, minute, second, micros, off))))))))))"

definition parse_moment ::
  "('date, 'time, 'offset, 'moment) calendar \<Rightarrow> string \<Rightarrow> ('time \<times> int) reading" where
  "parse_moment cal text =
     and_then (str_split_at text (min (length text) 10)) (\<lambda>(date, rest).
       read_then (digits date 0 4) (\<lambda>year.
       read_then (digits date 5 7) (\<lambda>month.
       read_then (digits date 8 10) (\<lambda>day.
         if length date \<noteq> 10 then Inr None
         else and_then (str_slice date 4 5) (\<lambda>dash.
           if dash \<noteq> ''-'' then Inr None
           else and_then (str_slice date 7 8) (\<lambda>dash.
             if dash \<noteq> ''-'' then Inr None
             else read_then (Inr (cal_from_ymd_opt cal (int year) month day)) (\<lambda>d.
               read_then (time_of_day rest) (\<lambda>(hour, minute, second, micros, offset).
                 read_then (Inr (cal_and_hms_micro_opt cal d hour minute second micros)) (\<lambda>t.
                   Inr (Some (t, offset)))))))))))"

definition point_in_time ::
  "('date, 'time, 'offset, 'moment) calendar \<Rightarrow> string \<Rightarrow> i64 reading" where
  "point_in_time cal text =
     read_then (parse_moment cal text) (\<lambda>(moment, offset).
       read_then (Inr (cal_east_opt cal offset)) (\<lambda>offset.
         read_then (Inr (cal_from_local_single cal offset moment)) (\<lambda>m.
           Inr (Some (cal_timestamp_micros cal m)))))"

definition without_zone ::
  "('date, 'time, 'offset, 'moment) calendar \<Rightarrow> string \<Rightarrow> i64 reading" where
  "without_zone cal text =
     read_then (parse_moment cal text) (\<lambda>(moment, _). Inr (Some (cal_utc_micros cal moment)))"

definition date_from_naive ::
  "('date, 'time, 'offset, 'moment) calendar \<Rightarrow> 'date \<Rightarrow> i32" where
  "date_from_naive cal d = cal_num_days_from_ce cal d - UNIX_EPOCH_FROM_CE"

definition calendar_date ::
  "('date, 'time, 'offset, 'moment) calendar \<Rightarrow> string \<Rightarrow> i32 reading" where
  "calendar_date cal text =
     read_then (parse_moment cal text) (\<lambda>(moment, _).
       Inr (Some (date_from_naive cal (cal_date cal moment))))"

definition is_ascii_hexdigit :: "char \<Rightarrow> bool" where
  "is_ascii_hexdigit c \<longleftrightarrow>
     is_ascii_digit c \<or> ((65 :: nat) \<le> of_char c \<and> of_char c \<le> (70 :: nat))
       \<or> ((97 :: nat) \<le> of_char c \<and> of_char c \<le> (102 :: nat))"

definition read_uuid ::
  "('date, 'time, 'offset, 'moment) calendar \<Rightarrow> string \<Rightarrow> uuid reading" where
  "read_uuid cal text =
     (if length text = 36 \<and>
         list_all (\<lambda>(i, c). if i = 8 \<or> i = 13 \<or> i = 18 \<or> i = 23 then c = CHR ''-''
                            else is_ascii_hexdigit c) (enumerate 0 text)
      then Inr (cal_parse_uuid cal text) else Inr None)"


section \<open>Where the reading of a text aborts\<close>

text \<open>
  A slice at a byte position aborts where the position is inside a character. Of a text of ASCII
  there is no such position, so no text of ASCII aborts the reading; a text whose eleventh byte
  continues a character aborts it at the very first step.
\<close>

definition is_ascii :: "string \<Rightarrow> bool" where
  "is_ascii s \<longleftrightarrow> (\<forall>c \<in> set s. (of_char c :: nat) < 128)"

lemma is_ascii_boundary: "is_ascii s \<Longrightarrow> is_char_boundary s i \<longleftrightarrow> i \<le> length s"
proof -
  assume "is_ascii s"
  then have "\<not> is_continuation (s ! i)" if "i < length s"
    using nth_mem [OF that] by (auto simp: is_ascii_def is_continuation_def)
  then show ?thesis by (auto simp: is_char_boundary_def)
qed

lemma is_ascii_take [simp]: "is_ascii s \<Longrightarrow> is_ascii (take n s)"
  by (auto simp: is_ascii_def dest: in_set_takeD)

lemma is_ascii_drop [simp]: "is_ascii s \<Longrightarrow> is_ascii (drop n s)"
  by (auto simp: is_ascii_def dest: in_set_dropD)

lemma is_ascii_Cons [simp]: "is_ascii (c # s) \<longleftrightarrow> (of_char c :: nat) < 128 \<and> is_ascii s"
  by (auto simp: is_ascii_def)

lemma str_slice_ascii:
  "is_ascii s \<Longrightarrow> a \<le> b \<Longrightarrow> b \<le> length s \<Longrightarrow> str_slice s a b = Inr (take (b - a) (drop a s))"
  by (simp add: str_slice_def str_get_def is_ascii_boundary)

text \<open>A reading that does not abort.\<close>

definition calm :: "'a reading \<Rightarrow> bool" where
  "calm r \<longleftrightarrow> r \<noteq> Inl ()"

lemma calm_Inr [simp]: "calm (Inr x)"
  by (simp add: calm_def)

lemma calm_read_then: "calm r \<Longrightarrow> (\<And>a. r = Inr (Some a) \<Longrightarrow> calm (f a)) \<Longrightarrow> calm (read_then r f)"
  by (cases r) (auto simp: calm_def read_then_def split: option.splits)

lemma calm_digits [simp]: "calm (digits s a b)"
  by (simp add: digits_def)

lemma digits_length: "digits s a b = Inr (Some n) \<Longrightarrow> b \<le> length s"
  by (auto simp: digits_def str_get_def split: if_splits option.splits)

lemma calm_fraction:
  assumes "is_ascii fraction"
  shows "calm (case fraction of
      [] \<Rightarrow> Inr (Some (second, 0))
    | f # _ \<Rightarrow>
        if f = CHR ''.'' \<and> 2 \<le> length fraction \<and> length fraction \<le> 7
        then and_then (str_slice fraction 1 (length fraction)) (\<lambda>digs.
          read_then (digits (pad_zeros digs) 0 6) (\<lambda>micros. Inr (Some (second, micros))))
        else Inr None)"
proof -
  have "str_slice fraction 1 (length fraction) = Inr (tl fraction)" if "2 \<le> length fraction"
    using str_slice_ascii [OF assms, of 1 "length fraction"] that by (simp add: drop_Suc)
  then show ?thesis by (auto split: list.split intro!: calm_read_then)
qed

lemma calm_seconds: "is_ascii s \<Longrightarrow> calm (seconds_of s)"
proof (cases s)
  case (Cons c cs)
  assume ascii: "is_ascii s"
  show ?thesis
  proof (cases "c = CHR '':''")
    case colon: True
    show ?thesis
      unfolding seconds_of_def Cons list.case colon
      using ascii digits_length [of s 1 3] calm_fraction [of "drop 2 cs"]
      by (auto simp: Cons colon str_slice_ascii simp del: One_nat_def intro!: calm_read_then)
  qed (simp add: Cons seconds_of_def)
qed (simp add: seconds_of_def)

lemma calm_offset: "(\<And>t. o' = Some t \<Longrightarrow> is_ascii t) \<Longrightarrow> calm (offset_of o')"
  by (cases o') (auto simp: offset_of_def str_slice_ascii Let_def intro!: calm_read_then)

lemma strip_prefix_ascii: "is_ascii s \<Longrightarrow> strip_prefix p s = Some t \<Longrightarrow> is_ascii t"
  by (auto simp: strip_prefix_Some_iff is_ascii_def)

lemma calm_time_of_day:
  assumes "is_ascii s" shows "calm (time_of_day s)"
proof -
  have body: "calm (read_then (digits rest 0 2) (\<lambda>hour.
           read_then (digits rest 3 5) (\<lambda>minute.
             if length rest < 5 then Inr None
             else and_then (str_slice rest 2 3) (\<lambda>colon.
               if colon \<noteq> '':'' then Inr None
               else and_then (str_slice rest 5 (length rest)) (\<lambda>seconds.
                 read_then (seconds_of seconds) (\<lambda>(second, micros).
                   read_then (offset_of offset) (\<lambda>off.
                     Inr (Some (hour, minute, second, micros, off)))))))))"
    if "is_ascii rest" "\<And>t. offset = Some t \<Longrightarrow> is_ascii t" for rest offset
    using that calm_offset [of offset]
    by (auto intro!: calm_read_then simp: str_slice_ascii calm_seconds)
  have split: "calm (let (offset, rest) =
          (case rfind {CHR ''Z'', CHR ''+'', CHR ''-''} rest of
             Some at \<Rightarrow> (Some (drop at rest), take at rest)
           | None \<Rightarrow> (None, rest))
        in read_then (digits rest 0 2) (\<lambda>hour.
           read_then (digits rest 3 5) (\<lambda>minute.
             if length rest < 5 then Inr None
             else and_then (str_slice rest 2 3) (\<lambda>colon.
               if colon \<noteq> '':'' then Inr None
               else and_then (str_slice rest 5 (length rest)) (\<lambda>seconds.
                 read_then (seconds_of seconds) (\<lambda>(second, micros).
                   read_then (offset_of offset) (\<lambda>off.
                     Inr (Some (hour, minute, second, micros, off)))))))))"
    if "is_ascii rest" for rest
  proof (cases "rfind {CHR ''Z'', CHR ''+'', CHR ''-''} rest")
    case None
    with body [of rest None] that show ?thesis by simp
  next
    case (Some at)
    with body [of "take at rest" "Some (drop at rest)"] that show ?thesis by simp
  qed
  show ?thesis
  proof (cases "s = []")
    case False
    show ?thesis
      unfolding time_of_day_def if_not_P [OF False]
      by (rule calm_read_then, simp, rule split)
        (use assms in \<open>auto split: option.splits dest: strip_prefix_ascii\<close>)
  qed (simp add: time_of_day_def)
qed

lemma calm_parse_moment:
  assumes "is_ascii s" shows "calm (parse_moment cal s)"
proof -
  let ?d = "take (min (length s) 10) s" and ?r = "drop (min (length s) 10) s"
  have ascii: "is_ascii ?d" "is_ascii ?r" using assms by simp_all
  have "str_split_at s (min (length s) 10) = Inr (?d, ?r)"
    using assms by (simp add: str_split_at_def is_ascii_boundary)
  moreover have "calm (read_then (Inr (cal_from_ymd_opt cal (int year) month day)) (\<lambda>d.
               read_then (time_of_day ?r) (\<lambda>(hour, minute, second, micros, offset).
                 read_then (Inr (cal_and_hms_micro_opt cal d hour minute second micros)) (\<lambda>t.
                   Inr (Some (t, offset))))))" for year month day
    using calm_time_of_day [OF ascii(2)] by (auto intro!: calm_read_then)
  ultimately show ?thesis
    unfolding parse_moment_def using ascii
    by (auto intro!: calm_read_then simp: str_slice_ascii dest!: digits_length)
qed

lemma parse_moment_aborts:
  assumes "10 < length s" "is_continuation (s ! 10)"
  shows "parse_moment cal s = Inl ()"
  using assms by (simp add: parse_moment_def str_split_at_def is_char_boundary_def min_def)

end
