(* ===== verification/Values.thy ===== *)
theory Values
  imports Operators Float64 Reading "HOL-Library.Signed_Division"
begin

section \<open>The scalar values\<close>

text \<open>
  \<open>crates/specification/src/domain/value.rs\<close>: the values a specification is written with, and
  \<open>impl Operand for Value\<close>, which is \<open>value_operand\<close>. An \<open>i64\<close> is a 64-bit word read as signed; a
  point in time and a span are the \<open>i64\<close> of microseconds they hold, a date the \<open>i32\<close> of days, a
  UUID its 128 bits, most significant byte first.
\<close>

datatype val =
    VNull
  | VBool bool
  | VInt i64
  | VFloat f64
  | VText string
  | VTimestamp i64
  | VDate i32
  | VInterval i64
  | VUuid uuid

fun value_kind :: "val \<Rightarrow> string" where
  "value_kind VNull = ''null''"
| "value_kind (VBool _) = ''boolean''"
| "value_kind (VInt _) = ''integer''"
| "value_kind (VFloat _) = ''float''"
| "value_kind (VText _) = ''text''"
| "value_kind (VTimestamp _) = ''timestamp''"
| "value_kind (VDate _) = ''date''"
| "value_kind (VInterval _) = ''interval''"
| "value_kind (VUuid _) = ''uuid''"

fun value_is_null :: "val \<Rightarrow> bool" where
  "value_is_null VNull = True"
| "value_is_null _ = False"

fun value_as_bool :: "val \<Rightarrow> bool option" where
  "value_as_bool (VBool b) = Some b"
| "value_as_bool _ = None"

subsection \<open>Integers\<close>

text \<open>The checked operations: the exact result, where it fits.\<close>

definition i64_of_int :: "int \<Rightarrow> i64 option" where
  "i64_of_int i = (if - (2 ^ 63) \<le> i \<and> i < 2 ^ 63 then Some (word_of_int i) else None)"

definition checked_add :: "i64 \<Rightarrow> i64 \<Rightarrow> i64 option" where
  "checked_add l r = i64_of_int (sint l + sint r)"

definition checked_sub :: "i64 \<Rightarrow> i64 \<Rightarrow> i64 option" where
  "checked_sub l r = i64_of_int (sint l - sint r)"

definition checked_mul :: "i64 \<Rightarrow> i64 \<Rightarrow> i64 option" where
  "checked_mul l r = i64_of_int (sint l * sint r)"

definition checked_neg :: "i64 \<Rightarrow> i64 option" where
  "checked_neg l = i64_of_int (- sint l)"

text \<open>Division truncates towards zero; none of a zero divisor or a result that does not fit.\<close>

definition checked_div :: "i64 \<Rightarrow> i64 \<Rightarrow> i64 option" where
  "checked_div l r = (if r = 0 then None else i64_of_int (sint l sdiv sint r))"

definition checked_rem :: "i64 \<Rightarrow> i64 \<Rightarrow> i64 option" where
  "checked_rem l r =
     (if r = 0 \<or> i64_of_int (sint l sdiv sint r) = None then None
      else i64_of_int (sint l smod sint r))"

text \<open>\<open>wrapping_shl(right as u32)\<close>: the count is taken modulo 64; \<open>>>\<close> of an \<open>i64\<close> keeps the sign.\<close>

definition shift_count :: "i64 \<Rightarrow> nat" where
  "shift_count r = unat (ucast r :: 32 word) mod 64"

definition checked :: "i64 option \<Rightarrow> (operand_error, i64) result" where
  "checked x = ok_or OutOfRange x"

fun integer :: "arithmetic \<Rightarrow> i64 \<Rightarrow> i64 \<Rightarrow> (operand_error, i64) result" where
  "integer AAdd l r = checked (checked_add l r)"
| "integer ASub l r = checked (checked_sub l r)"
| "integer AMul l r = checked (checked_mul l r)"
| "integer ADiv l r = (if r = 0 then Inl DivisionByZero else checked (checked_div l r))"
| "integer AMod l r =
     (if r = 0 then Inl DivisionByZero
      else Inr (case checked_rem l r of Some m \<Rightarrow> m | None \<Rightarrow> 0))"
| "integer AShl l r = Inr (push_bit (shift_count r) l)"
| "integer AShr l r = Inr (signed_drop_bit (shift_count r) l)"

subsection \<open>Floats\<close>

definition float :: "arithmetic \<Rightarrow> f64 \<Rightarrow> f64 \<Rightarrow> (operand_error, val) result option" where
  "float op l r =
     (let finish = (\<lambda>result.
        let overflow = is_infinite result \<and> is_finite l \<and> is_finite r;
            underflow = is_zero result \<and>
              (case op of
                 AMul \<Rightarrow> \<not> is_zero l \<and> \<not> is_zero r
               | ADiv \<Rightarrow> \<not> is_zero l \<and> is_finite r
               | _ \<Rightarrow> False)
        in Some (if overflow \<or> underflow then Inl OutOfRange else Inr (VFloat result)))
      in case op of
        AAdd \<Rightarrow> finish (f64_add l r)
      | ASub \<Rightarrow> finish (f64_sub l r)
      | AMul \<Rightarrow> finish (f64_mul l r)
      | ADiv \<Rightarrow>
          if is_zero r \<and> \<not> is_nan l then Some (Inl DivisionByZero) else finish (f64_div l r)
      | AMod \<Rightarrow> None
      | AShl \<Rightarrow> None
      | AShr \<Rightarrow> None)"

text \<open>PostgreSQL's order of floats: where one is a NaN, false before true of "is a NaN".\<close>

definition float_order :: "f64 \<Rightarrow> f64 \<Rightarrow> ordering" where
  "float_order l r =
     (case f64_partial_cmp l r of
        Some c \<Rightarrow> c
      | None \<Rightarrow> cmp_of (is_nan l) (is_nan r))"

definition int_to_f64 :: "i64 \<Rightarrow> f64" where
  "int_to_f64 i = f64_of_int (sint i)"

subsection \<open>Points in time and spans\<close>

definition checked_as :: "(i64 \<Rightarrow> val) \<Rightarrow> i64 option \<Rightarrow> (operand_error, val) result option" where
  "checked_as wrap result = Some (ok_or OutOfRange (map_option wrap result))"

definition temporal :: "arithmetic \<Rightarrow> val \<Rightarrow> val \<Rightarrow> (operand_error, val) result option" where
  "temporal op left right =
     (case (left, op, right) of
        (VTimestamp l, ASub, VTimestamp r) \<Rightarrow> checked_as VInterval (checked_sub l r)
      | (VTimestamp l, AAdd, VInterval r) \<Rightarrow> checked_as VTimestamp (checked_add l r)
      | (VInterval r, AAdd, VTimestamp l) \<Rightarrow> checked_as VTimestamp (checked_add l r)
      | (VTimestamp l, ASub, VInterval r) \<Rightarrow> checked_as VTimestamp (checked_sub l r)
      | (VInterval l, AAdd, VInterval r) \<Rightarrow> checked_as VInterval (checked_add l r)
      | (VInterval l, ASub, VInterval r) \<Rightarrow> checked_as VInterval (checked_sub l r)
      | _ \<Rightarrow> None)"

subsection \<open>The trait\<close>

definition signed_cmp :: "'n::len word \<Rightarrow> 'n word \<Rightarrow> ordering" where
  "signed_cmp l r = cmp_of (sint l) (sint r)"

definition value_compare :: "val \<Rightarrow> val \<Rightarrow> (operand_error, ordering) result" where
  "value_compare left right =
     (case (left, right) of
        (VBool l, VBool r) \<Rightarrow> Inr (cmp_of l r)
      | (VInt l, VInt r) \<Rightarrow> Inr (signed_cmp l r)
      | (VFloat l, VFloat r) \<Rightarrow> Inr (float_order l r)
      | (VInt l, VFloat r) \<Rightarrow> Inr (float_order (int_to_f64 l) r)
      | (VFloat l, VInt r) \<Rightarrow> Inr (float_order l (int_to_f64 r))
      | (VText l, VText r) \<Rightarrow> Inr (bytes_cmp l r)
      | (VTimestamp l, VTimestamp r) \<Rightarrow> Inr (signed_cmp l r)
      | (VDate l, VDate r) \<Rightarrow> Inr (signed_cmp l r)
      | (VInterval l, VInterval r) \<Rightarrow> Inr (signed_cmp l r)
      | (VUuid l, VUuid r) \<Rightarrow> Inr (cmp_of l r)
      | _ \<Rightarrow> Inl (unsupported (show_comparison CLt) (value_kind left) (value_kind right)))"

lemma value_compare_simps [simp]:
  "value_compare (VBool a) (VBool b) = Inr (cmp_of a b)"
  "value_compare (VInt i) (VInt j) = Inr (signed_cmp i j)"
  "value_compare (VFloat x) (VFloat y) = Inr (float_order x y)"
  "value_compare (VInt i) (VFloat y) = Inr (float_order (int_to_f64 i) y)"
  "value_compare (VFloat x) (VInt j) = Inr (float_order x (int_to_f64 j))"
  "value_compare (VText s) (VText t) = Inr (bytes_cmp s t)"
  "value_compare (VTimestamp i) (VTimestamp j) = Inr (signed_cmp i j)"
  "value_compare (VDate d) (VDate d') = Inr (signed_cmp d d')"
  "value_compare (VInterval i) (VInterval j) = Inr (signed_cmp i j)"
  "value_compare (VUuid u) (VUuid u') = Inr (cmp_of u u')"
  by (simp_all add: value_compare_def)

definition value_equals :: "val \<Rightarrow> val \<Rightarrow> (operand_error, bool) result" where
  "value_equals l r = map_ok is_eq (value_compare l r)"

fun value_negate :: "val \<Rightarrow> (operand_error, val) result" where
  "value_negate (VInt i) = ok_or OutOfRange (map_option VInt (checked_neg i))"
| "value_negate (VFloat x) = Inr (VFloat (f64_neg x))"
| "value_negate (VInterval i) = ok_or OutOfRange (map_option VInterval (checked_neg i))"
| "value_negate v = Inl (unsupported_unary (show_prefix PNeg) (value_kind v))"

definition value_compute :: "val \<Rightarrow> arithmetic \<Rightarrow> val \<Rightarrow> (operand_error, val) result" where
  "value_compute l op r =
     (let defined =
        (case (l, r) of
           (VInt a, VInt b) \<Rightarrow> Some (map_ok VInt (integer op a b))
         | (VFloat a, VFloat b) \<Rightarrow> float op a b
         | (VInt a, VFloat b) \<Rightarrow> float op (int_to_f64 a) b
         | (VFloat a, VInt b) \<Rightarrow> float op a (int_to_f64 b)
         | _ \<Rightarrow> temporal op l r)
      in case defined of
           Some result \<Rightarrow> result
         | None \<Rightarrow> Inl (unsupported (show_arithmetic op) (value_kind l) (value_kind r)))"

lemma value_compute_simps [simp]:
  "value_compute (VInt a) op (VInt b) = map_ok VInt (integer op a b)"
  "value_compute (VTimestamp x) ASub (VTimestamp y) = the (checked_as VInterval (checked_sub x y))"
  "value_compute (VTimestamp x) AAdd (VInterval i) = the (checked_as VTimestamp (checked_add x i))"
  "value_compute (VInterval i) AAdd (VTimestamp x) = the (checked_as VTimestamp (checked_add x i))"
  "value_compute (VTimestamp x) ASub (VInterval i) = the (checked_as VTimestamp (checked_sub x i))"
  "value_compute (VInterval i) AAdd (VInterval j) = the (checked_as VInterval (checked_add i j))"
  "value_compute (VInterval i) ASub (VInterval j) = the (checked_as VInterval (checked_sub i j))"
  by (simp_all add: value_compute_def temporal_def checked_as_def)

lemma value_compute_float:
  assumes "float op (case l of VInt i \<Rightarrow> int_to_f64 i | VFloat x \<Rightarrow> x)
      (case r of VInt i \<Rightarrow> int_to_f64 i | VFloat x \<Rightarrow> x) = Some result"
    and "l = VInt a \<and> r = VFloat y \<or> l = VFloat x \<and> r = VInt b \<or> l = VFloat x \<and> r = VFloat y"
  shows "value_compute l op r = result"
  using assms by (auto simp: value_compute_def)

definition read_as ::
  "('a \<Rightarrow> val) \<Rightarrow> operand_error \<Rightarrow> 'a reading \<Rightarrow> (operand_error, val option) result" where
  "read_as wrap unreadable r =
     (case r of
        Inl () \<Rightarrow> Inl Panicked
      | Inr None \<Rightarrow> Inl unreadable
      | Inr (Some a) \<Rightarrow> Inr (Some (wrap a)))"

definition value_read_beside ::
  "('date, 'time, 'offset, 'moment) calendar \<Rightarrow> val \<Rightarrow> val \<Rightarrow> (operand_error, val option) result"
  where
  "value_read_beside cal self other =
     (case self of
        VText text \<Rightarrow>
          (case other of
             VTimestamp _ \<Rightarrow>
               read_as VTimestamp (Unreadable text (value_kind other) POINT_IN_TIME)
                 (point_in_time cal text)
           | VDate _ \<Rightarrow>
               read_as VDate (Unreadable text (value_kind other) POINT_IN_TIME)
                 (calendar_date cal text)
           | VUuid _ \<Rightarrow>
               read_as VUuid (Unreadable text (value_kind other) UUID) (read_uuid cal text)
           | _ \<Rightarrow> Inr None)
      | _ \<Rightarrow> Inr None)"

definition value_operand ::
  "('date, 'time, 'offset, 'moment) calendar \<Rightarrow> val operand" where
  "value_operand cal = \<lparr>
     op_null = VNull,
     op_is_null = value_is_null,
     op_from_bool = VBool,
     op_as_bool = value_as_bool,
     op_kind = value_kind,
     op_equals = value_equals,
     op_compare = value_compare,
     op_negate = value_negate,
     op_compute = value_compute,
     op_read_beside = value_read_beside cal\<rparr>"

lemma value_operand_simps [simp]:
  "op_null (value_operand cal) = VNull"
  "op_is_null (value_operand cal) = value_is_null"
  "op_from_bool (value_operand cal) = VBool"
  "op_as_bool (value_operand cal) = value_as_bool"
  "op_kind (value_operand cal) = value_kind"
  "op_equals (value_operand cal) = value_equals"
  "op_compare (value_operand cal) = value_compare"
  "op_negate (value_operand cal) = value_negate"
  "op_compute (value_operand cal) = value_compute"
  "op_read_beside (value_operand cal) = value_read_beside cal"
  by (simp_all add: value_operand_def)

end
