(* ===== verification/Typing.thy ===== *)
theory Typing
  imports Evaluate_Laws Evaluate Values
begin

section \<open>Well-typed specifications\<close>

text \<open>
  The abstract promise of the evaluator over \<open>Value\<close> and \<open>Record\<close>: a specification whose members
  are those of the candidate's shape, and whose operators are given operands of kinds they take,
  is evaluated to a value of its type, or fails for a reason of the data (a division by zero, a
  result out of range, a string constant that cannot be read), never for a reason of the tree.
  The types are a specification of their own: the source has none for a tree.
\<close>

datatype kind = KBool | KInt | KFloat | KText | KTimestamp | KDate | KInterval | KUuid

text \<open>The type of an expression: of a kind or null, or the null and nothing else.\<close>

datatype ty = TyNull | Ty kind

fun value_type :: "val \<Rightarrow> ty" where
  "value_type VNull = TyNull"
| "value_type (VBool _) = Ty KBool"
| "value_type (VInt _) = Ty KInt"
| "value_type (VFloat _) = Ty KFloat"
| "value_type (VText _) = Ty KText"
| "value_type (VTimestamp _) = Ty KTimestamp"
| "value_type (VDate _) = Ty KDate"
| "value_type (VInterval _) = Ty KInterval"
| "value_type (VUuid _) = Ty KUuid"

definition has_type :: "val \<Rightarrow> ty \<Rightarrow> bool" where
  "has_type v t \<longleftrightarrow> v = VNull \<or> value_type v = t"

text \<open>The shape of a candidate, and the records of that shape: any value may be null.\<close>

datatype shape = SValue kind | SObject "string \<Rightarrow> shape option" | SCollection shape

primrec fits :: "shape \<Rightarrow> val rec \<Rightarrow> bool" where
  "fits (SValue k) r = (case r of RValue v \<Rightarrow> has_type v (Ty k) | _ \<Rightarrow> False)"
| "fits (SObject ss) r =
     (case r of
        RObject ms \<Rightarrow> (\<forall>n. case (map_option fits \<circ> ss) n of
           None \<Rightarrow> True
         | Some ok \<Rightarrow> (case ms n of None \<Rightarrow> False | Some m \<Rightarrow> ok m))
      | _ \<Rightarrow> False)"
| "fits (SCollection sh) r =
     (case r of RCollection items \<Rightarrow> list_all (fits sh) items | _ \<Rightarrow> False)"

definition conforms :: "val rec \<Rightarrow> shape \<Rightarrow> bool" where
  "conforms r sh = fits sh r"

lemma conforms_value: "conforms r (SValue k) \<longleftrightarrow> (\<exists>v. r = RValue v \<and> has_type v (Ty k))"
  by (cases r) (simp_all add: conforms_def)

lemma conforms_object:
  "conforms r (SObject ss) \<longleftrightarrow>
     (\<exists>ms. r = RObject ms \<and> (\<forall>n sh. ss n = Some sh \<longrightarrow> (\<exists>m. ms n = Some m \<and> conforms m sh)))"
proof (cases r)
  case (RObject ms)
  have "(case map_option fits (ss n) of None \<Rightarrow> True
          | Some ok \<Rightarrow> (case ms n of None \<Rightarrow> False | Some m \<Rightarrow> ok m)) \<longleftrightarrow>
        (\<forall>sh. ss n = Some sh \<longrightarrow> (\<exists>m. ms n = Some m \<and> fits sh m))" for n
    by (cases "ss n"; cases "ms n") auto
  with RObject show ?thesis by (simp add: conforms_def)
qed (simp_all add: conforms_def)

lemma conforms_collection:
  "conforms r (SCollection sh) \<longleftrightarrow>
     (\<exists>items. r = RCollection items \<and> (\<forall>i \<in> set items. conforms i sh))"
  by (cases r) (auto simp: conforms_def list_all_iff)

lemmas conforms_simps = conforms_value conforms_object conforms_collection

definition shape_member :: "shape \<Rightarrow> string \<Rightarrow> shape option" where
  "shape_member sh n = (case sh of SObject ss \<Rightarrow> ss n | _ \<Rightarrow> None)"

fun shape_at :: "shape \<Rightarrow> string list \<Rightarrow> shape option" where
  "shape_at sh [] = Some sh"
| "shape_at sh (n # ns) =
     (case shape_member sh n of
        Some (SObject ss) \<Rightarrow> shape_at (SObject ss) ns
      | _ \<Rightarrow> None)"

definition shape_of_path :: "shape \<Rightarrow> shape list \<Rightarrow> path \<Rightarrow> shape option" where
  "shape_of_path g items p =
     (let root = (case path_root p of
          RGlobal \<Rightarrow> Some g
        | RItem up \<Rightarrow> if up < length items then Some (items ! up) else None)
      in case root of
           Some (SObject ss) \<Rightarrow>
             (case shape_at (SObject ss) (path_objects p) of
                Some sh \<Rightarrow> shape_member sh (path_name p)
              | None \<Rightarrow> None)
         | _ \<Rightarrow> None)"

fun is_bool_type :: "ty \<Rightarrow> bool" where
  "is_bool_type (Ty KBool) = True"
| "is_bool_type TyNull = True"
| "is_bool_type _ = False"

definition is_number :: "ty \<Rightarrow> bool" where
  "is_number t \<longleftrightarrow> t = Ty KInt \<or> t = Ty KFloat"

definition is_read_kind :: "ty \<Rightarrow> bool" where
  "is_read_kind t \<longleftrightarrow> t = Ty KTimestamp \<or> t = Ty KDate \<or> t = Ty KUuid"

definition comparable :: "bool \<Rightarrow> ty \<Rightarrow> bool \<Rightarrow> ty \<Rightarrow> bool" where
  "comparable cl l cr r \<longleftrightarrow>
     l = TyNull \<or> r = TyNull \<or> l = r \<or> is_number l \<and> is_number r
     \<or> cl \<and> l = Ty KText \<and> is_read_kind r \<or> cr \<and> r = Ty KText \<and> is_read_kind l"

definition arithmetic_type :: "arithmetic \<Rightarrow> ty \<Rightarrow> ty \<Rightarrow> ty option" where
  "arithmetic_type op l r =
     (if l = TyNull \<or> r = TyNull then Some TyNull
      else if l = Ty KInt \<and> r = Ty KInt then Some (Ty KInt)
      else if is_number l \<and> is_number r \<and> op \<in> {AAdd, ASub, AMul, ADiv} then Some (Ty KFloat)
      else if l = Ty KTimestamp \<and> op = ASub \<and> r = Ty KTimestamp then Some (Ty KInterval)
      else if l = Ty KTimestamp \<and> op \<in> {AAdd, ASub} \<and> r = Ty KInterval then Some (Ty KTimestamp)
      else if l = Ty KInterval \<and> op = AAdd \<and> r = Ty KTimestamp then Some (Ty KTimestamp)
      else if l = Ty KInterval \<and> op \<in> {AAdd, ASub} \<and> r = Ty KInterval then Some (Ty KInterval)
      else None)"

fun negation_type :: "ty \<Rightarrow> ty option" where
  "negation_type TyNull = Some TyNull"
| "negation_type (Ty KInt) = Some (Ty KInt)"
| "negation_type (Ty KFloat) = Some (Ty KFloat)"
| "negation_type (Ty KInterval) = Some (Ty KInterval)"
| "negation_type _ = None"

fun type_of :: "shape \<Rightarrow> shape list \<Rightarrow> val expr \<Rightarrow> ty option" where
  "type_of g items (EValue v) = Some (value_type v)"
| "type_of g items (EField p) =
     (case shape_of_path g items p of Some (SValue k) \<Rightarrow> Some (Ty k) | _ \<Rightarrow> None)"
| "type_of g items (EItem up) =
     (if up < length items then (case items ! up of SValue k \<Rightarrow> Some (Ty k) | _ \<Rightarrow> None) else None)"
| "type_of g items (EPrefix op e) =
     (case type_of g items e of
        None \<Rightarrow> None
      | Some t \<Rightarrow>
          (case op of
             PNot \<Rightarrow> if is_bool_type t then Some (Ty KBool) else None
           | PNeg \<Rightarrow> negation_type t))"
| "type_of g items (EPostfix e op) =
     (case e of
        EField p \<Rightarrow>
          (case shape_of_path g items p of
             Some (SValue k) \<Rightarrow> Some (Ty KBool)
           | Some (SObject ss) \<Rightarrow> Some (Ty KBool)
           | _ \<Rightarrow> None)
      | _ \<Rightarrow> map_option (\<lambda>_. Ty KBool) (type_of g items e))"
| "type_of g items (EInfix l op r) =
     (case (type_of g items l, type_of g items r) of
        (Some lt, Some rt) \<Rightarrow>
          (case op of
             ILogical _ \<Rightarrow> if is_bool_type lt \<and> is_bool_type rt then Some (Ty KBool) else None
           | IArithmetic a \<Rightarrow> arithmetic_type a lt rt
           | _ \<Rightarrow>
               if comparable (is_constant l) lt (is_constant r) rt then Some (Ty KBool) else None)
      | _ \<Rightarrow> None)"
| "type_of g items (EAny source predicate) =
     (case shape_of_path g items source of
        Some (SCollection sh) \<Rightarrow>
          (case type_of g (sh # items) predicate of
             Some t \<Rightarrow> if is_bool_type t then Some (Ty KBool) else None
           | None \<Rightarrow> None)
      | _ \<Rightarrow> None)"

subsection \<open>What a well-typed evaluation may end in\<close>

text \<open>
  The failures that are of the data. An abort of the reading of a constant is none: it is told apart by \<open>ab\<close>,
  whether one may have happened.
\<close>

fun data_error :: "bool \<Rightarrow> operand_error \<Rightarrow> bool" where
  "data_error ab (Unsupported _ _ _) = False"
| "data_error ab Panicked = ab"
| "data_error ab _ = True"

fun data_failure :: "bool \<Rightarrow> eval_error \<Rightarrow> bool" where
  "data_failure ab (EvOperand e) = data_error ab e"
| "data_failure ab _ = False"

definition sound_or :: "bool \<Rightarrow> ty \<Rightarrow> (eval_error, val) result \<Rightarrow> bool" where
  "sound_or ab t r = (case r of Inl e \<Rightarrow> data_failure ab e | Inr v \<Rightarrow> has_type v t)"

abbreviation sound :: "ty \<Rightarrow> (eval_error, val) result \<Rightarrow> bool" where
  "sound \<equiv> sound_or False"

lemma sound_simps [simp]:
  "sound_or ab t (Inl e) = data_failure ab e" "sound_or ab t (Inr v) = has_type v t"
  by (simp_all add: sound_or_def)

lemma sound_and_then:
  assumes "sound_or ab t r" and "\<And>v. r = Inr v \<Longrightarrow> has_type v t \<Longrightarrow> sound_or ab u (f v)"
  shows "sound_or ab u (and_then r f)"
  using assms by (cases r) simp_all

definition element_conforms :: "(val rec, val) element \<Rightarrow> shape \<Rightarrow> bool" where
  "element_conforms e sh =
     (case e of
        ElemValue v \<Rightarrow> conforms (RValue v) sh
      | ElemObject c \<Rightarrow> conforms c sh \<and> (\<forall>k. sh \<noteq> SValue k))"

definition scope_conforms :: "(val rec, val) scope \<Rightarrow> shape \<Rightarrow> shape list \<Rightarrow> bool" where
  "scope_conforms s g items \<longleftrightarrow>
     conforms (scope_global s) g
     \<and> list_all2 (\<lambda>f sh. element_conforms (frame_element f) sh) (scope_item s) items"

subsection \<open>Values of a type\<close>

lemma has_type_null [simp]: "has_type VNull t"
  by (simp add: has_type_def)

lemma has_typeE:
  assumes "has_type v (Ty k)"
  obtains "v = VNull"
  | b where "v = VBool b" "k = KBool" | i where "v = VInt i" "k = KInt"
  | x where "v = VFloat x" "k = KFloat" | s where "v = VText s" "k = KText"
  | m where "v = VTimestamp m" "k = KTimestamp" | d where "v = VDate d" "k = KDate"
  | n where "v = VInterval n" "k = KInterval" | u where "v = VUuid u" "k = KUuid"
  using assms by (cases v) (auto simp: has_type_def)

lemma has_type_values [simp]:
  "has_type (VBool b) t \<longleftrightarrow> t = Ty KBool" "has_type (VInt i) t \<longleftrightarrow> t = Ty KInt"
  "has_type (VFloat x) t \<longleftrightarrow> t = Ty KFloat" "has_type (VText s) t \<longleftrightarrow> t = Ty KText"
  "has_type (VTimestamp m) t \<longleftrightarrow> t = Ty KTimestamp" "has_type (VDate d) t \<longleftrightarrow> t = Ty KDate"
  "has_type (VInterval n) t \<longleftrightarrow> t = Ty KInterval" "has_type (VUuid u) t \<longleftrightarrow> t = Ty KUuid"
  by (auto simp: has_type_def)

lemma has_type_TyNull [simp]: "has_type v TyNull \<longleftrightarrow> v = VNull"
  by (cases v) (auto simp: has_type_def)

lemma truth_of_bool_type:
  assumes "has_type v t" and "is_bool_type t"
  obtains b where "truth (value_operand cal) v = Inr b"
proof -
  have "\<exists>b. truth (value_operand cal) v = Inr b"
    using assms by (cases t rule: is_bool_type.cases) (auto simp: truth_def elim: has_typeE)
  with that show thesis by blast
qed

lemma has_type_from_truth [simp]: "has_type (from_truth (value_operand cal) b) (Ty KBool)"
  by (cases b) (simp_all add: from_truth_def has_type_def)

text \<open>Two values of one kind, or two numbers, are compared, whatever they are.\<close>

lemma value_compare_total:
  assumes "has_type l (Ty k)" "has_type r (Ty k')" "l \<noteq> VNull" "r \<noteq> VNull"
    and "k = k' \<or> k \<in> {KInt, KFloat} \<and> k' \<in> {KInt, KFloat}"
  shows "\<exists>c. value_compare l r = Inr c"
  using assms by (auto elim!: has_typeE)

definition data_sound :: "bool \<Rightarrow> ty \<Rightarrow> (operand_error, val) result \<Rightarrow> bool" where
  "data_sound ab t r = (case r of Inl e \<Rightarrow> data_error ab e | Inr v \<Rightarrow> has_type v t)"

lemma data_sound_simps [simp]:
  "data_sound ab t (Inl e) = data_error ab e" "data_sound ab t (Inr v) = has_type v t"
  by (simp_all add: data_sound_def)

lemma data_sound_if: "data_sound ab t (if b then x else y) = (if b then data_sound ab t x else data_sound ab t y)"
  by simp

lemma float_sound:
  assumes "op \<in> {AAdd, ASub, AMul, ADiv}"
  shows "\<exists>r. float op x y = Some r \<and> data_sound ab (Ty KFloat) r"
  using assms by (cases op) (simp_all add: float_def Let_def data_sound_if has_type_def)

lemma integer_data_error: "integer op x y = Inl e \<Longrightarrow> data_error ab e"
  by (cases op) (auto simp: checked_def split: if_splits)

lemma checked_as_sound:
  "(\<And>x. has_type (wrap x) t) \<Longrightarrow>
   \<exists>r. checked_as wrap o' = Some r \<and> data_sound ab t r"
  by (cases o') (auto simp: checked_as_def)

lemma data_sound_map_ok: "(\<And>e. r = Inl e \<Longrightarrow> data_error ab e) \<Longrightarrow> (\<And>a. has_type (f a) t) \<Longrightarrow> data_sound ab t (map_ok f r)"
  by (cases r) simp_all

lemma data_sound_ok_or: "data_sound ab t (ok_or OutOfRange (map_option f x)) \<longleftrightarrow> (\<forall>a. x = Some a \<longrightarrow> has_type (f a) t)"
  by (cases x) simp_all

lemma value_compute_sound:
  assumes "has_type l (Ty k)" "has_type r (Ty k')" "l \<noteq> VNull" "r \<noteq> VNull"
    and "arithmetic_type op (Ty k) (Ty k') = Some w"
  shows "data_sound ab w (value_compute l op r)"
proof (cases "k \<in> {KInt, KFloat} \<and> k' \<in> {KInt, KFloat}")
  case True
  show ?thesis
  proof (cases "k = KInt \<and> k' = KInt")
    case True
    with assms show ?thesis
      by (auto elim!: has_typeE simp: arithmetic_type_def
          intro!: data_sound_map_ok intro: integer_data_error)
  next
    case False
    with True assms(5) have op: "op \<in> {AAdd, ASub, AMul, ADiv}" and w: "w = Ty KFloat"
      by (auto simp: arithmetic_type_def is_number_def split: if_splits)
    from True False assms(1-4) float_sound [OF op] w show ?thesis
      by (elim has_typeE) (auto dest!: value_compute_float)
  qed
next
  case False
  with assms show ?thesis
    by (elim has_typeE) (auto simp: arithmetic_type_def is_number_def checked_as_def
        data_sound_ok_or split: if_splits)
qed

lemma value_negate_sound:
  assumes "has_type v t" "v \<noteq> VNull" "negation_type t = Some u"
  shows "data_sound ab u (value_negate v)"
  using assms by (cases t rule: negation_type.cases)
    (auto elim!: has_typeE simp: data_sound_ok_or)

text \<open>A comparison whose constants have been read is defined, or of a null.\<close>

definition compared :: "val \<times> val \<Rightarrow> bool" where
  "compared p = (fst p = VNull \<or> snd p = VNull \<or> (\<exists>c. value_compare (fst p) (snd p) = Inr c))"

lemma read_as_sound:
  assumes "\<And>a. has_type (w a) t" and "r = Inl () \<Longrightarrow> ab"
  shows "(\<exists>e. read_as w (Unreadable x y z) r = Inl e \<and> data_error ab e)
   \<or> (\<exists>l. read_as w (Unreadable x y z) r = Inr (Some l) \<and> has_type l t)"
proof (cases r)
  case (Inr o')
  with assms show ?thesis by (cases o') (simp_all add: read_as_def)
qed (use assms(2) in \<open>simp add: read_as_def case_unit_Unity\<close>)

text \<open>Only the reading of a point in time, and so of a date, may abort.\<close>

lemma readings_abort:
  "point_in_time cal text = Inl () \<Longrightarrow> parse_moment cal text = Inl ()"
  "calendar_date cal text = Inl () \<Longrightarrow> parse_moment cal text = Inl ()"
  "read_uuid cal text = Inl () \<Longrightarrow> ab"
  by (auto simp: point_in_time_def calendar_date_def read_uuid_def read_then_def and_then_def split: sum.splits option.splits if_splits)

lemma read_beside_cases:
  assumes "has_type r (Ty k)" "r \<noteq> VNull" "parse_moment cal text = Inl () \<Longrightarrow> ab"
  shows "value_read_beside cal (VText text) r = Inr None \<and> \<not> is_read_kind (Ty k)
    \<or> (\<exists>e. value_read_beside cal (VText text) r = Inl e \<and> data_error ab e)
    \<or> (\<exists>l'. value_read_beside cal (VText text) r = Inr (Some l') \<and> has_type l' (Ty k))"
  using assms readings_abort(1,2) [of cal "text"] readings_abort(3) [of cal "text" ab]
  by (elim has_typeE) (simp_all add: value_read_beside_def is_read_kind_def read_as_sound)


lemma read_beside_not_text: "(\<forall>s. l \<noteq> VText s) \<Longrightarrow> value_read_beside cal l r = Inr None"
  by (cases l) (auto simp: value_read_beside_def)

lemma read_beside_null [simp]: "value_read_beside cal l VNull = Inr None"
  by (cases l) (simp_all add: value_read_beside_def)

lemma read_beside_text [simp]: "value_read_beside cal l (VText s) = Inr None"
  by (cases l) (simp_all add: value_read_beside_def)

lemma read_constants_null:
  assumes "l = VNull \<or> r = VNull"
  shows "read_constants (value_operand cal) le re l r = Inr (l, r)"
  using assms by (auto simp: read_constants_def read_beside_not_text)

lemma read_constants_same:
  assumes "has_type l (Ty k)" "has_type r (Ty k')" "l \<noteq> VNull" "r \<noteq> VNull"
    and "k = k' \<or> k \<in> {KInt, KFloat} \<and> k' \<in> {KInt, KFloat}"
  shows "read_constants (value_operand cal) le re l r = Inr (l, r)"
  using assms by (auto elim!: has_typeE simp: read_constants_def read_beside_not_text)

lemma read_kinds: "is_read_kind (Ty k) \<longleftrightarrow> k = KTimestamp \<or> k = KDate \<or> k = KUuid"
  by (auto simp: is_read_kind_def)

text \<open>A text constant beside a kind it is read as.\<close>

lemma read_constants_text_left:
  assumes "has_type r (Ty k)" "r \<noteq> VNull" "is_read_kind (Ty k)" "is_constant le" "parse_moment cal str = Inl () \<Longrightarrow> ab"
  shows "(\<exists>e. read_constants (value_operand cal) le re (VText str) r = Inl e \<and> data_error ab e)
    \<or> (\<exists>l'. read_constants (value_operand cal) le re (VText str) r = Inr (l', r)
          \<and> has_type l' (Ty k))"
  using read_beside_cases [of r k cal str ab] assms by (auto simp: read_constants_def)

lemma read_constants_text_right:
  assumes "has_type l (Ty k)" "l \<noteq> VNull" "is_read_kind (Ty k)" "is_constant re" "parse_moment cal str = Inl () \<Longrightarrow> ab"
  shows "(\<exists>e. read_constants (value_operand cal) le re l (VText str) = Inl e \<and> data_error ab e)
    \<or> (\<exists>r'. read_constants (value_operand cal) le re l (VText str) = Inr (l, r')
          \<and> has_type r' (Ty k))"
  using read_beside_cases [of l k cal str ab] assms by (auto simp: read_constants_def)

definition read_sound :: "bool \<Rightarrow> (operand_error, val \<times> val) result \<Rightarrow> bool" where
  "read_sound ab p = (case p of Inl e \<Rightarrow> data_error ab e | Inr q \<Rightarrow> compared q)"

lemma read_constants_sound:
  assumes "has_type l t" "has_type r u" "comparable (is_constant le) t (is_constant re) u"
    and calm: "\<And>str. l = VText str \<and> is_constant le \<or> r = VText str \<and> is_constant re \<Longrightarrow> parse_moment cal str = Inl () \<Longrightarrow> ab"
  shows "read_sound ab (read_constants (value_operand cal) le re l r)"
proof (cases "l = VNull \<or> r = VNull")
  case True
  then show ?thesis
    by (auto simp: read_constants_null read_sound_def compared_def)
next
  case False
  with assms obtain k k' where tu: "t = Ty k" "u = Ty k'"
    by (cases t; cases u) auto
  show ?thesis
  proof (cases "k = k' \<or> k \<in> {KInt, KFloat} \<and> k' \<in> {KInt, KFloat}")
    case True
    have rc: "read_constants (value_operand cal) le re l r = Inr (l, r)"
      using assms(1,2) True False unfolding tu by (intro read_constants_same) auto
    have "\<exists>c. value_compare l r = Inr c"
      using assms(1,2) True False unfolding tu by (intro value_compare_total) auto
    then show ?thesis
      by (simp add: rc read_sound_def compared_def)
  next
    case other: False
    with assms(3) tu consider
        "is_constant le" "k = KText" "is_read_kind (Ty k')"
      | "is_constant re" "k' = KText" "is_read_kind (Ty k)"
      by (auto simp: comparable_def is_number_def)
    then show ?thesis
    proof cases
      case 1
      with assms(1) tu False obtain str where l: "l = VText str" by (auto elim: has_typeE)
      from 1 assms(2) tu False calm [of str] read_constants_text_left [of r k' le cal str ab re]
      consider e where "read_constants (value_operand cal) le re l r = Inl e" "data_error ab e"
        | l' where "read_constants (value_operand cal) le re l r = Inr (l', r)" "has_type l' (Ty k')"
        by (auto simp: l)
      then show ?thesis
      proof cases
        case 2
        have "l' = VNull \<or> (\<exists>c. value_compare l' r = Inr c)"
          using value_compare_total [of l' k' r k'] 2 assms(2) tu False by auto
        with 2 show ?thesis by (auto simp: read_sound_def compared_def)
      qed (simp add: read_sound_def)
    next
      case 2
      with assms(2) tu False obtain str where r: "r = VText str" by (auto elim: has_typeE)
      from 2 assms(1) tu False calm [of str] read_constants_text_right [of l k re cal str ab le]
      consider e where "read_constants (value_operand cal) le re l r = Inl e" "data_error ab e"
        | r' where "read_constants (value_operand cal) le re l r = Inr (l, r')" "has_type r' (Ty k)"
        by (auto simp: r)
      then show ?thesis
      proof cases
        case 2
        have "r' = VNull \<or> (\<exists>c. value_compare l r' = Inr c)"
          using value_compare_total [of l k r' k] 2 assms(1) tu False by auto
        with 2 show ?thesis by (auto simp: read_sound_def compared_def)
      qed (simp add: read_sound_def)
    qed
  qed
qed

subsection \<open>Paths of a shape\<close>

lemma shape_member_lookup:
  assumes "conforms (RObject ms) sh" "shape_member sh n = Some sh'"
  shows "\<exists>m. ms n = Some m \<and> conforms m sh'"
  using assms by (cases sh) (auto simp: shape_member_def conforms_object)

lemma objects_from_shape:
  assumes "shape_at (SObject ss) ns = Some sh" "conforms c (SObject ss)"
  shows "\<exists>c'. objects_from record_ctx c ns = Inr c' \<and> conforms c' sh"
  using assms
proof (induction "SObject ss" ns arbitrary: ss c rule: shape_at.induct)
  case (2 n ns)
  then obtain ss' where ss': "ss n = Some (SObject ss')"
    and rest: "shape_at (SObject ss') ns = Some sh"
    by (auto simp: shape_member_def split: option.splits shape.splits)
  with 2(3) obtain m where m: "record_object_at c n = Inr m" "conforms m (SObject ss')"
    by (force simp: conforms_object record_object_at_def record_member_def)
  from 2(1) [of "SObject ss'" ss', OF _ _ rest m(2)] ss'
  obtain c' where "objects_from record_ctx m ns = Inr c'" "conforms c' sh"
    by (auto simp: shape_member_def)
  with m(1) show ?case by simp
qed simp

lemma scope_item_shape:
  assumes "scope_conforms s g items" "up < length items"
  shows "\<exists>f. frame_out up s = Inr f \<and> element_conforms (frame_element f) (items ! up)"
proof -
  from assms have len: "up < length (scope_item s)"
    by (auto simp: scope_conforms_def dest: list_all2_lengthD)
  then have "drop up (scope_item s) = scope_item s ! up # drop (Suc up) (scope_item s)"
    by (simp add: Cons_nth_drop_Suc)
  with assms len show ?thesis
    by (auto simp: frame_out_def scope_conforms_def list_all2_conv_all_nth)
qed

lemma owner_shape:
  assumes "scope_conforms s g items" "shape_of_path g items p = Some sh"
  shows "\<exists>c m. owner record_ctx p s = Inr c \<and> record_member c (path_name p) = Inr m \<and> conforms m sh"
proof -
  obtain ss sh' where at: "shape_at (SObject ss) (path_objects p) = Some sh'"
    and member: "shape_member sh' (path_name p) = Some sh"
    and root: "(case path_root p of RGlobal \<Rightarrow> Some g
        | RItem up \<Rightarrow> if up < length items then Some (items ! up) else None) = Some (SObject ss)"
    using assms(2) by (auto simp: shape_of_path_def Let_def split: option.splits shape.splits)
  obtain r where r: "conforms r (SObject ss)"
    and owner: "owner record_ctx p s = map_err EvContext (objects_from record_ctx r (path_objects p))"
  proof (cases "path_root p")
    case RGlobal
    with root assms(1) that [of "scope_global s"] show ?thesis
      by (auto simp: scope_conforms_def owner_def)
  next
    case (RItem up)
    with root have up: "up < length items" "items ! up = SObject ss"
      by (simp_all split: if_splits)
    from scope_item_shape [OF assms(1) up(1)] obtain f where
      f: "frame_out up s = Inr f" "element_conforms (frame_element f) (SObject ss)"
      using up(2) by auto
    then obtain c where "frame_element f = ElemObject c" "conforms c (SObject ss)"
      by (auto simp: element_conforms_def conforms_object split: element.splits)
    with f RItem that [of c] show ?thesis by (auto simp: owner_def)
  qed
  from objects_from_shape [OF at r] obtain c' where
    c': "objects_from record_ctx r (path_objects p) = Inr c'" "conforms c' sh'"
    by blast
  from member obtain ss' where "sh' = SObject ss'"
    by (auto simp: shape_member_def split: shape.splits)
  with c'(2) obtain ms where ms: "c' = RObject ms"
    by (auto simp: conforms_object)
  from shape_member_lookup [OF _ member] c'(2) obtain m where
    "ms (path_name p) = Some m" "conforms m sh"
    by (auto simp: ms)
  with c' owner show ?thesis by (auto simp: ms record_member_def)
qed

subsection \<open>Soundness\<close>

lemma sound_map_err:
  assumes "data_sound ab t r" "\<And>e. data_error ab e \<Longrightarrow> data_failure ab (f e)"
  shows "sound_or ab t (map_err f r)"
  using assms by (cases r) simp_all

lemma data_failure_named: "data_error ab e \<Longrightarrow> data_failure ab (named_error op e)"
  by (cases e) (simp_all add: named_error_def)

lemma eval_prefix_sound:
  assumes "sound_or ab t r"
    and "(case op of PNot \<Rightarrow> if is_bool_type t then Some (Ty KBool) else None
        | PNeg \<Rightarrow> negation_type t) = Some u"
  shows "sound_or ab u (eval_prefix (value_operand cal) op r)"
proof (cases r)
  case (Inr v)
  with assms(1) have v: "has_type v t" by simp
  show ?thesis
  proof (cases op)
    case PNot
    with assms(2) have "is_bool_type t" "u = Ty KBool" by (simp_all split: if_splits)
    with truth_of_bool_type [OF v, of cal] obtain b where "truth (value_operand cal) v = Inr b"
      by blast
    with PNot Inr \<open>u = Ty KBool\<close> show ?thesis by (simp add: eval_prefix_def)
  next
    case PNeg
    with assms(2) have neg: "negation_type t = Some u" by simp
    show ?thesis
    proof (cases "v = VNull")
      case False
      then have "\<not> value_is_null v" by (cases v) simp_all
      with value_negate_sound [OF v False neg] PNeg Inr show ?thesis
        by (simp add: eval_prefix_def sound_map_err)
    qed (use PNeg Inr in \<open>simp add: eval_prefix_def\<close>)
  qed
qed (use assms in \<open>simp add: eval_prefix_def\<close>)

lemma value_is_null_iff [simp]: "value_is_null v \<longleftrightarrow> v = VNull"
  by (cases v) simp_all

lemma eval_logical_sound:
  assumes "sound_or ab t l" "sound_or ab u r" "is_bool_type t" "is_bool_type u"
  shows "sound_or ab (Ty KBool) (eval_logical (value_operand cal) op l r)"
proof (cases l)
  case (Inr v)
  with assms truth_of_bool_type [of v t cal] obtain a where
    a: "truth (value_operand cal) v = Inr a" by auto
  show ?thesis
  proof (cases "a = Some (deciding op)")
    case True
    with Inr a show ?thesis by (simp add: eval_logical_def connective_decided)
  next
    case False
    show ?thesis
    proof (cases r)
      case (Inl e)
      with assms Inr a False show ?thesis
        by (simp add: eval_logical_def connective_undecided)
    next
      case (Inr w)
      with assms truth_of_bool_type [of w u cal] obtain b where
        b: "truth (value_operand cal) w = Inr b" by auto
      from \<open>l = Inr v\<close> a b Inr show ?thesis
        by (simp add: eval_logical_def connective_kleene)
    qed
  qed
qed (use assms in \<open>simp add: eval_logical_def\<close>)

lemma strict_compared:
  assumes "compared (l, r)"
  shows "data_sound ab (Ty KBool) (strict (value_operand cal) l r (\<lambda>l r.
    map_ok VBool (compare_values (value_operand cal) l cmp r)))"
  using assms
  by (cases cmp) (auto simp: compared_def strict_def value_equals_def)

lemma eval_comparison_sound:
  assumes "sound_or ab t l" "sound_or ab u r" "comparable (is_constant le) t (is_constant re) u"
    and calm: "\<And>str. l = Inr (VText str) \<and> is_constant le \<or> r = Inr (VText str) \<and> is_constant re
      \<Longrightarrow> parse_moment cal str = Inl () \<Longrightarrow> ab"
    and op: "op = IComparison cmp \<or> op = IIs"
  shows "sound_or ab (Ty KBool) (eval_infix (value_operand cal) le op re l r)"
proof (cases "\<exists>v w. l = Inr v \<and> r = Inr w")
  case True
  then obtain v w where vw: "l = Inr v" "r = Inr w" by blast
  with assms have "read_sound ab (read_constants (value_operand cal) le re v w)"
    by (intro read_constants_sound) simp_all
  then consider e where "read_constants (value_operand cal) le re v w = Inl e" "data_error ab e"
    | v' w' where "read_constants (value_operand cal) le re v w = Inr (v', w')" "compared (v', w')"
    by (auto simp: read_sound_def split: sum.splits)
  then show ?thesis
  proof cases
    case 1
    with op vw show ?thesis by (auto simp: eval_infix_def data_failure_named)
  next
    case 2
    from op show ?thesis
    proof
      assume "op = IIs"
      with 2 vw show ?thesis by (auto simp: eval_infix_def compared_def value_equals_def)
    next
      assume "op = IComparison cmp"
      with 2 vw show ?thesis
        by (simp add: eval_infix_def sound_map_err strict_compared data_failure_named)
    qed
  qed
qed (use assms in \<open>cases l; cases r; auto simp: eval_infix_def\<close>)

lemma eval_arithmetic_sound:
  assumes "sound_or ab t l" "sound_or ab u r" "arithmetic_type op t u = Some w"
  shows "sound_or ab w (eval_infix (value_operand cal) le (IArithmetic op) re l r)"
proof (cases "\<exists>a b. l = Inr a \<and> r = Inr b")
  case True
  then obtain a b where ab: "l = Inr a" "r = Inr b" by blast
  have "data_sound ab w (strict (value_operand cal) a b (\<lambda>l r. value_compute l op r))"
  proof (cases "a = VNull \<or> b = VNull")
    case False
    with assms ab obtain k k' where "t = Ty k" "u = Ty k'" by (cases t; cases u) auto
    with value_compute_sound [of a k b k' op w] assms ab False show ?thesis
      by (simp add: strict_def)
  qed (simp add: strict_def)
  with ab show ?thesis
    by (simp add: eval_infix_def sound_map_err data_failure_named)
qed (use assms in \<open>cases l; cases r; auto simp: eval_infix_def\<close>)

lemma eval_is_null_sound:
  assumes conf: "scope_conforms s g items"
    and type: "type_of g items (EPostfix e op) = Some t"
    and operand: "\<And>u. type_of g items e = Some u \<Longrightarrow> sound_or ab u r"
  shows "sound_or ab t (eval_postfix (value_operand cal) op (eval_is_null (value_operand cal) record_ctx e s r))"
proof -
  have t: "t = Ty KBool"
    using type by (auto split: expr.splits option.splits shape.splits)
  have "\<forall>f. eval_is_null (value_operand cal) record_ctx e s r = Inl f \<longrightarrow> data_failure ab f"
  proof (cases "\<exists>p. e = EField p")
    case True
    then obtain p where e: "e = EField p" by blast
    with type obtain sh where sh: "shape_of_path g items p = Some sh"
      and leaf: "(\<exists>k. sh = SValue k) \<or> (\<exists>ss. sh = SObject ss)"
      by (auto split: option.splits shape.splits)
    from owner_shape [OF conf sh] obtain c m where
      cm: "owner record_ctx p s = Inr c" "record_member c (path_name p) = Inr m" "conforms m sh"
      by blast
    from leaf cm show ?thesis
      by (auto simp: e eval_is_null_def record_field_def record_object_at_def conforms_simps)
  next
    case False
    then have "eval_is_null (value_operand cal) record_ctx e s r = map_ok value_is_null r"
      by (cases e) (simp_all add: eval_is_null_def)
    moreover from False type obtain u where "type_of g items e = Some u"
      by (cases e) (auto split: option.splits)
    with operand have "sound_or ab u r" by blast
    ultimately show ?thesis by (cases r) auto
  qed
  then show ?thesis
    by (cases "eval_is_null (value_operand cal) record_ctx e s r") (simp_all add: eval_postfix_def t)
qed

lemma first_outcome_sound:
  assumes "\<And>r. r \<in> set rs \<Longrightarrow> \<forall>e. r = Inl e \<longrightarrow> data_failure ab e"
  shows "\<forall>e. first_outcome rs = Inl e \<longrightarrow> data_failure ab e"
  using assms by (induction rs) (auto simp: first_outcome_Cons)

lemma conforms_element:
  assumes "conforms r sh" shows "element_conforms (record_element r) sh"
  using assms by (cases r; cases sh)
    (simp_all add: record_element_def element_conforms_def conforms_simps)

lemma eval_some_sound:
  assumes conf: "scope_conforms s g items"
    and source: "shape_of_path g items source = Some (SCollection sh)"
    and bool: "is_bool_type t"
    and pred: "\<And>s'. scope_conforms s' g (sh # items) \<Longrightarrow> sound_or ab t (p s')"
  shows "sound_or ab (Ty KBool) (eval_some (value_operand cal) record_ctx source p s)"
proof -
  let ?ops = "value_operand cal"
  from owner_shape [OF conf source] obtain c rs where
    c: "owner record_ctx source s = Inr c" "record_member c (path_name source) = Inr (RCollection rs)"
    and rs: "\<forall>r \<in> set rs. conforms r sh"
    by (auto simp: conforms_collection)
  define outcome where "outcome e = and_then (and_then (p (enter s (path_name source) e)) (truth ?ops))
      (\<lambda>t. Inr (t = Some True))" for e :: "(val rec, val) element"
  have one: "data_failure ab f" if "r \<in> set rs" "outcome (record_element r) = Inl f" for r f
  proof -
    from that rs conf have "scope_conforms (enter s (path_name source) (record_element r)) g (sh # items)"
      by (simp add: scope_conforms_def enter_def conforms_element)
    then have pr: "sound_or ab t (p (enter s (path_name source) (record_element r)))" by (rule pred)
    show ?thesis
    proof (cases "p (enter s (path_name source) (record_element r))")
      case (Inl e)
      with pr that(2) show ?thesis by (simp add: outcome_def)
    next
      case (Inr v)
      with pr have "has_type v t" by simp
      then obtain b where "truth ?ops v = Inr b" using bool by (rule truth_of_bool_type)
      with Inr that(2) show ?thesis by (simp add: outcome_def)
    qed
  qed
  have "\<forall>e. first_outcome (map outcome (map record_element rs)) = Inl e \<longrightarrow> data_failure ab e"
    by (rule first_outcome_sound) (auto dest: one)
  moreover have "eval_some ?ops record_ctx source p s
      = map_ok VBool (first_outcome (map outcome (map record_element rs)))"
    by (simp add: eval_some_def c record_collection_at_def outcome_def [abs_def])
  ultimately show ?thesis
    by (cases "first_outcome (map outcome (map record_element rs))") simp_all
qed

lemma well_typed_sound:
  assumes "type_of g items e = Some t" "scope_conforms s g items"
    and "\<forall>str. VText str \<in> set_expr e \<longrightarrow> parse_moment cal str = Inl () \<longrightarrow> ab"
  shows "sound_or ab t (eval (value_operand cal) record_ctx e s)"
  using assms
proof (induction e arbitrary: items s t)
  case (EValue v)
  then show ?case by (auto simp: has_type_def)
next
  case (EField p)
  then obtain k where "shape_of_path g items p = Some (SValue k)" "t = Ty k"
    by (auto split: option.splits shape.splits)
  with owner_shape [OF EField(2)] show ?case
    by (force simp: eval_member_def record_field_def conforms_value)
next
  case (EItem up)
  then obtain k where "up < length items" "items ! up = SValue k" "t = Ty k"
    by (auto split: if_splits shape.splits)
  with scope_item_shape [OF EItem(2)] show ?case
    by (fastforce simp: eval_itself_def element_conforms_def conforms_value split: element.splits)
next
  case (EPrefix op e)
  then obtain u where u: "type_of g items e = Some u" by (auto split: option.splits)
  with EPrefix show ?case by (auto intro!: eval_prefix_sound [of ab u])
next
  case (EPostfix e op)
  then show ?case by (simp only: eval.simps) (rule eval_is_null_sound, auto)
next
  case (EInfix l op r)
  then obtain u w where uw: "type_of g items l = Some u" "type_of g items r = Some w"
    by (auto split: option.splits)
  with EInfix have sound: "sound_or ab u (eval (value_operand cal) record_ctx l s)"
    "sound_or ab w (eval (value_operand cal) record_ctx r s)"
    by simp_all
  have calm: "ab" if "eval (value_operand cal) record_ctx l s = Inr (VText str) \<and> is_constant l
      \<or> eval (value_operand cal) record_ctx r s = Inr (VText str) \<and> is_constant r" "parse_moment cal str = Inl ()" for str
  proof -
    have "VText str \<in> set_expr l \<union> set_expr r"
      using that(1) by (cases l; cases r) auto
    then show ?thesis using EInfix.prems(3) that(2) by auto
  qed
  note comparison = eval_comparison_sound [OF sound _ calm]
  from uw EInfix.prems(1) sound show ?case
    by (cases op)
      (auto split: if_splits intro: eval_logical_sound comparison eval_arithmetic_sound)
next
  case (EAny source predicate)
  then obtain sh u where "shape_of_path g items source = Some (SCollection sh)"
    "type_of g (sh # items) predicate = Some u" "is_bool_type u" "t = Ty KBool"
    by (auto split: option.splits shape.splits if_splits)
  with EAny show ?case by (auto intro: eval_some_sound)
qed

text \<open>An abort is by a constant that is not all ASCII.\<close>

lemma sound_or_aborts:
  "sound_or ab t r \<longleftrightarrow> sound t r \<or> ab \<and> (\<exists>e. r = Inl (EvOperand e) \<and> e = Panicked)"
proof (cases r)
  case (Inl f)
  then show ?thesis
  proof (cases f)
    case (EvOperand e)
    with Inl show ?thesis by (cases e) (auto simp: sound_or_def)
  qed (simp_all add: sound_or_def)
qed (simp add: sound_or_def)

end
