(* ===== verification/Value_Laws.thy ===== *)
theory Value_Laws
  imports Values Evaluate_Laws
begin

section \<open>The arithmetic and the order of the values\<close>

text \<open>
  What PostgreSQL promises of its operators and \<open>value.rs\<close> repeats: an integer result is the exact
  one or an error, a float result is a number of the format and is never an infinity of finite
  operands, and the order within a kind is total, with the NaN above every number.
\<close>

subsection \<open>The contract with the evaluator\<close>

interpretation value_ops: operand_laws "value_operand cal" for cal
  by unfold_locales simp_all

subsection \<open>Integers\<close>

lemma i64_of_int_Some: "i64_of_int i = Some w \<longleftrightarrow> - (2 ^ 63) \<le> i \<and> i < 2 ^ 63 \<and> sint w = i"
proof -
  have "sint (word_of_int i :: i64) = i" if "- (2 ^ 63) \<le> i" "i < 2 ^ 63"
    using that by (simp add: sint_sbintrunc' signed_take_bit_int_eq_self)
  then show ?thesis by (auto simp: i64_of_int_def)
qed

lemma i64_of_int_None: "i64_of_int i = None \<longleftrightarrow> i < - (2 ^ 63) \<or> 2 ^ 63 \<le> i"
  by (auto simp: i64_of_int_def)

lemma sint_i64_bounds: "- (2 ^ 63) \<le> sint (w :: i64)" "sint (w :: i64) < 2 ^ 63"
  using sint_ge [of w] sint_lt [of w] by simp_all

text \<open>The number an operator computes; of a left shift, what the bits that are left spell.\<close>

fun outcome :: "arithmetic \<Rightarrow> int \<Rightarrow> int \<Rightarrow> int" where
  "outcome AAdd l r = l + r"
| "outcome ASub l r = l - r"
| "outcome AMul l r = l * r"
| "outcome ADiv l r = l sdiv r"
| "outcome AMod l r = l smod r"
| "outcome AShl l r = signed_take_bit 63 (l * 2 ^ nat (r mod 64))"
| "outcome AShr l r = l div 2 ^ nat (r mod 64)"

lemma shift_count_mod: "shift_count r = nat (sint r mod 64)"
proof -
  have u: "uint (ucast r :: 32 word) mod 64 = uint r mod 64"
  proof -
    have "uint (ucast r :: 32 word) = take_bit 32 (uint r)"
      by (simp add: unsigned_ucast_eq)
    then have "take_bit 6 (uint (ucast r :: 32 word)) = take_bit 6 (uint r)"
      by simp
    then show ?thesis by (simp add: take_bit_eq_mod)
  qed
  have s: "sint r mod 64 = uint r mod 64"
  proof -
    have "take_bit 6 (sint r) = take_bit 6 (uint r)"
      by (simp add: sint_uint take_bit_signed_take_bit)
    then show ?thesis by (simp add: take_bit_eq_mod)
  qed
  have "int (shift_count r) = uint (ucast r :: 32 word) mod 64"
    by (simp add: shift_count_def zmod_int)
  with u s show ?thesis by (metis nat_int)
qed

lemma sdiv_out_of_range:
  assumes "i64_of_int (sint (l :: i64) sdiv sint (r :: i64)) = None"
  shows "\<bar>sint (r :: i64)\<bar> \<le> 1"
proof (rule ccontr)
  assume "\<not> ?thesis"
  then have two: "2 \<le> \<bar>sint r\<bar>" by linarith
  let ?q = "\<bar>sint l\<bar> div \<bar>sint r\<bar>"
  have "?q \<le> \<bar>sint l\<bar> div 2" using two by (intro zdiv_mono2) simp_all
  also have "\<bar>sint l\<bar> \<le> 2 ^ 63" using sint_i64_bounds [of l] by linarith
  then have "\<bar>sint l\<bar> div 2 \<le> 2 ^ 62" by simp
  finally have "?q \<le> 2 ^ 62" .
  moreover have "0 \<le> ?q" by (rule pos_imp_zdiv_nonneg_iff [THEN iffD2]) (use two in auto)
  moreover have "sint l sdiv sint r = sgn (sint l) * sgn (sint r) * ?q"
    by (simp add: signed_divide_int_def)
  ultimately have "\<bar>sint l sdiv sint r\<bar> \<le> 2 ^ 62"
    by (simp add: abs_mult sgn_if split: if_splits)
  with assms show False by (auto simp: i64_of_int_None)
qed

lemma smod_in_range:
  assumes "sint (r :: i64) \<noteq> 0"
  shows "- (2 ^ 63) \<le> sint l smod sint r \<and> sint (l :: i64) smod sint r < 2 ^ 63"
proof -
  have "\<bar>sint l smod sint r\<bar> < \<bar>sint r\<bar>" using smod_int_range [OF assms, of "sint l"] by auto
  moreover have "\<bar>sint r\<bar> \<le> 2 ^ 63" using sint_i64_bounds [of r] by linarith
  ultimately show ?thesis by linarith
qed

lemma checked_rem_exact:
  assumes "sint r \<noteq> 0"
  shows "sint (case checked_rem l r of Some m \<Rightarrow> m | None \<Rightarrow> 0) = sint l smod sint r"
proof (cases "i64_of_int (sint l sdiv sint r) = None")
  case True
  then have "\<bar>sint r\<bar> = 1" using sdiv_out_of_range [OF True] assms by linarith
  then have "sint l smod sint r = 0"
    using smod_int_range [OF assms, of "sint l"] by simp
  with True show ?thesis by (simp add: checked_rem_def)
next
  case False
  have "r \<noteq> 0" using assms by auto
  moreover obtain m where m: "i64_of_int (sint l smod sint r) = Some m"
    using smod_in_range [OF assms, of l] by (simp add: i64_of_int_def)
  moreover have "sint m = sint l smod sint r" using m by (simp add: i64_of_int_Some)
  ultimately have "checked_rem l r = Some m" using False by (simp add: checked_rem_def)
  with \<open>sint m = _\<close> show ?thesis by simp
qed

lemma sint_eq_0 [simp]: "sint (w :: i64) = 0 \<longleftrightarrow> w = 0"
  by (metis signed_0 signed_word_eqI)

lemma checked_Inr: "checked x = Inr w \<longleftrightarrow> x = Some w" "checked x = Inl e \<longleftrightarrow> x = None \<and> e = OutOfRange"
  by (auto simp: checked_def)

lemma push_bit_exact: "sint (push_bit (shift_count r) (l :: i64)) = outcome AShl (sint l) (sint r)"
proof -
  have "sint (push_bit (shift_count r) l) = signed_take_bit 63 (push_bit (shift_count r) (sint l))"
    by (simp only: signed_push_bit_eq) simp
  then show ?thesis by (simp only: push_bit_eq_mult shift_count_mod outcome.simps)
qed

lemma drop_bit_exact: "sint (signed_drop_bit (shift_count r) l) = outcome AShr (sint l) (sint r)"
  by (simp add: sint_signed_drop_bit_eq drop_bit_eq_div shift_count_mod)

lemma Inr_sint: "sint x = k \<Longrightarrow> (Inr x :: (operand_error, i64) result) = Inr w \<longleftrightarrow> sint w = k"
  by (metis signed_word_eqI sum.inject(2))

lemma integer_value:
  "integer op l r = Inr w \<longleftrightarrow>
     \<not> (op \<in> {ADiv, AMod} \<and> sint r = 0) \<and> sint w = outcome op (sint l) (sint r)"
proof (cases op)
  case AMod
  then show ?thesis
    using Inr_sint [OF checked_rem_exact [of r l]] by (cases "r = 0") simp_all
next
  case AShl
  then show ?thesis using Inr_sint [OF push_bit_exact [of r l]] by simp
next
  case AShr
  then show ?thesis using Inr_sint [OF drop_bit_exact [of r l]] by simp
qed (use sint_i64_bounds [of w] in \<open>auto simp: checked_Inr checked_add_def checked_sub_def
    checked_mul_def checked_div_def i64_of_int_Some\<close>)

lemma integer_error:
  "integer op l r = Inl e \<longleftrightarrow>
     (op \<in> {ADiv, AMod} \<and> sint r = 0 \<and> e = DivisionByZero)
     \<or> (\<not> (op \<in> {ADiv, AMod} \<and> sint r = 0) \<and> e = OutOfRange
        \<and> (outcome op (sint l) (sint r) < - (2 ^ 63) \<or> 2 ^ 63 \<le> outcome op (sint l) (sint r)))"
proof (cases op)
  case AMod
  then show ?thesis using smod_in_range [of r l] by (auto simp: not_le not_less)
next
  case AShl
  then show ?thesis
    using sint_i64_bounds [of "push_bit (shift_count r) l"] push_bit_exact [of r l]
    by (auto simp: not_le not_less)
next
  case AShr
  then show ?thesis
    using sint_i64_bounds [of "signed_drop_bit (shift_count r) l"] drop_bit_exact [of r l]
    by (auto simp: not_le not_less)
qed (auto simp: checked_Inr checked_add_def checked_sub_def checked_mul_def checked_div_def
    i64_of_int_None)

text \<open>The exact result of an operator over two integers, where it has one; a shift moves bits.\<close>

fun exact :: "arithmetic \<Rightarrow> int \<Rightarrow> int \<Rightarrow> int option" where
  "exact AAdd l r = Some (l + r)"
| "exact ASub l r = Some (l - r)"
| "exact AMul l r = Some (l * r)"
| "exact ADiv l r = (if r = 0 then None else Some (l sdiv r))"
| "exact AMod l r = (if r = 0 then None else Some (l smod r))"
| "exact AShl l r = None"
| "exact AShr l r = None"

lemma exact_or_error:
  assumes "exact op (sint l) (sint r) = Some x"
  shows "integer op l r = (if - (2 ^ 63) \<le> x \<and> x < 2 ^ 63 then Inr (word_of_int x) else Inl OutOfRange)"
proof (cases "- (2 ^ 63) \<le> x \<and> x < 2 ^ 63")
  case True
  then have "sint (word_of_int x :: i64) = x" by (simp add: sint_sbintrunc' signed_take_bit_int_eq_self)
  then show ?thesis
    using assms True integer_value [of op l r "word_of_int x"] by (cases op) (auto split: if_splits)
next
  case False
  then show ?thesis
    using assms integer_error [of op l r OutOfRange] by (cases op) (auto simp: not_le not_less split: if_splits)
qed

lemma left_shift_bits:
  "bit (push_bit (shift_count r) (l :: i64)) i \<longleftrightarrow> i < 64 \<and> nat (sint r mod 64) \<le> i \<and> bit l (i - nat (sint r mod 64))"
  by (auto simp: bit_push_bit_iff shift_count_mod)

subsection \<open>The order\<close>

lemma float_order_rank: "float_order l r = rank_cmp (f64_rank l) (f64_rank r)"
proof -
  have "fst (f64_rank x) < 2" if "\<not> is_nan x" for x
    using that by (cases x) simp_all
  moreover have "f64_rank x = (2, 0)" if "is_nan x" for x
    using that by (cases x) simp_all
  ultimately show ?thesis
    by (cases "is_nan l"; cases "is_nan r")
      (force simp: float_order_def f64_partial_cmp_def rank_cmp_def cmp_of_def)+
qed

lemma is_le_iff: "is_le c \<longleftrightarrow> c \<noteq> OGreater"
  by (cases c) simp_all

lemma reverse_ordering_simps [simp]:
  "reverse_ordering (reverse_ordering c) = c"
  "reverse_ordering c = OEqual \<longleftrightarrow> c = OEqual"
  "reverse_ordering c = OGreater \<longleftrightarrow> c = OLess"
  "reverse_ordering c = OLess \<longleftrightarrow> c = OGreater"
  by (cases c; simp)+

lemma rank_cmp_trans: "is_le (rank_cmp a b) \<Longrightarrow> is_le (rank_cmp b c) \<Longrightarrow> is_le (rank_cmp a c)"
  by (auto simp: is_le_iff rank_cmp_def split: if_splits)

lemma cmp_of_trans: "is_le (cmp_of a b) \<Longrightarrow> is_le (cmp_of b c) \<Longrightarrow> is_le (cmp_of a c)"
  by (auto simp: is_le_iff)

lemma bytes_le_Cons:
  "is_le (bytes_cmp (x # xs) (y # ys)) \<longleftrightarrow>
     (of_char x :: nat) < of_char y \<or> (of_char x :: nat) = of_char y \<and> is_le (bytes_cmp xs ys)"
  by auto

lemma bytes_cmp_trans: "is_le (bytes_cmp a b) \<Longrightarrow> is_le (bytes_cmp b c) \<Longrightarrow> is_le (bytes_cmp a c)"
proof (induction a b arbitrary: c rule: bytes_cmp.induct)
  case (2 y ys)
  then show ?case by (cases c) simp_all
next
  case (4 x xs y ys)
  then obtain z zs where c: "c = z # zs" by (cases c) simp_all
  from 4(2,3) 4(1) [of zs] show ?case
    unfolding c bytes_le_Cons by (auto intro: less_trans)
qed simp_all

lemma value_kind_iff:
  "value_kind v = ''boolean'' \<longleftrightarrow> (\<exists>b. v = VBool b)" "value_kind v = ''integer'' \<longleftrightarrow> (\<exists>i. v = VInt i)"
  "value_kind v = ''float'' \<longleftrightarrow> (\<exists>x. v = VFloat x)" "value_kind v = ''text'' \<longleftrightarrow> (\<exists>s. v = VText s)"
  "value_kind v = ''timestamp'' \<longleftrightarrow> (\<exists>m. v = VTimestamp m)" "value_kind v = ''date'' \<longleftrightarrow> (\<exists>d. v = VDate d)"
  "value_kind v = ''interval'' \<longleftrightarrow> (\<exists>n. v = VInterval n)" "value_kind v = ''uuid'' \<longleftrightarrow> (\<exists>u. v = VUuid u)"
  "value_kind v = ''null'' \<longleftrightarrow> v = VNull"
  by (cases v; simp)+

lemma value_compare_null [simp]:
  "\<exists>e. value_compare VNull r = Inl e" "\<exists>e. value_compare l VNull = Inl e"
  by (simp add: value_compare_def, cases l, simp_all add: value_compare_def)

lemma order_le_simps:
  "is_le (signed_cmp i j) \<longleftrightarrow> sint i \<le> sint j" "is_le (cmp_of a b) \<longleftrightarrow> a \<le> b"
  "is_le (float_order x y) = is_le (rank_cmp (f64_rank x) (f64_rank y))"
  by (auto simp: is_le_iff signed_cmp_def float_order_rank)

lemma value_compare_trans:
  assumes "value_kind a = value_kind b" "value_kind c = value_kind b"
    and "value_compare a b = Inr x" "value_compare b c = Inr y" "is_le x" "is_le y"
  shows "\<exists>z. value_compare a c = Inr z \<and> is_le z"
proof (cases b)
  case VNull
  with assms(4) value_compare_null(1) [of c] show ?thesis by auto
next
  case (VText s)
  with assms show ?thesis
    by (auto simp: value_kind_iff intro: bytes_cmp_trans)
next
  case (VFloat z)
  with assms obtain x' y' where xy: "a = VFloat x'" "c = VFloat y'"
    by (auto simp: value_kind_iff)
  with VFloat assms(3-6)
  have "is_le (rank_cmp (f64_rank x') (f64_rank z))" "is_le (rank_cmp (f64_rank z) (f64_rank y'))"
    by (auto simp: order_le_simps)
  then have "is_le (float_order x' y')" unfolding order_le_simps by (rule rank_cmp_trans)
  with xy show ?thesis by simp
qed (use assms in \<open>auto simp: value_kind_iff order_le_simps\<close>)

lemma value_compare_reverse:
  "value_compare r l =
     (case value_compare l r of
        Inr c \<Rightarrow> Inr (reverse_ordering c)
      | Inl _ \<Rightarrow> Inl (unsupported ''<'' (value_kind r) (value_kind l)))"
proof -
  have sc: "reverse_ordering (signed_cmp x y) = signed_cmp y x" for x y :: "'n::len word"
    by (simp add: signed_cmp_def cmp_of_reverse [of "sint y"])
  have fo: "reverse_ordering (float_order x y) = float_order y x" for x y
    by (simp add: float_order_rank rank_cmp_reverse [of "f64_rank y"])
  have co: "reverse_ordering (cmp_of x y) = cmp_of y x" for x y :: "'a::linorder"
    by (simp add: cmp_of_reverse [of y])
  have bc: "reverse_ordering (bytes_cmp x y) = bytes_cmp y x" for x y
    by (simp add: bytes_cmp_reverse [of y])
  note reverses = sc fo co bc
  show ?thesis
    by (cases l; cases r; simp add: value_compare_def reverses)
qed

subsection \<open>Floats\<close>

lemma float_result:
  assumes "float op x y = Some (Inr v)"
  shows "\<exists>z. v = VFloat z \<and> (f64_ok x \<and> f64_ok y \<longrightarrow> f64_ok z)
    \<and> (is_finite x \<and> is_finite y \<longrightarrow> is_finite z)
    \<and> (op = AMul \<and> \<not> is_zero x \<and> \<not> is_zero y \<longrightarrow> \<not> is_zero z)
    \<and> (op = ADiv \<and> \<not> is_zero x \<and> is_finite y \<longrightarrow> \<not> is_zero z)"
proof (cases op)
  case AAdd
  with assms f64_finite_not_nan(1) [of x y] show ?thesis
    by (auto simp: float_def Let_def finite_iff split: if_splits)
next
  case ASub
  with assms f64_finite_not_nan(2) [of x y] show ?thesis
    by (auto simp: float_def Let_def finite_iff f64_sub_def split: if_splits)
next
  case AMul
  with assms f64_finite_not_nan(3) [of x y] show ?thesis
    by (auto simp: float_def Let_def finite_iff split: if_splits)
next
  case ADiv
  with assms f64_finite_not_nan(4) [of x y] show ?thesis
    by (auto simp: float_def Let_def finite_iff split: if_splits)
qed (use assms in \<open>simp_all add: float_def\<close>)

end
