(* ===== verification/Evaluator_Properties.thy ===== *)
theory Evaluator_Properties
  imports Typing Evaluate_Laws Value_Laws Reading
begin

section \<open>The evaluator over \<open>Value\<close> and \<open>Record\<close>\<close>

text \<open>
  The properties of the reader in memory, over the model's own values and candidates: the facts of
  the locale \<open>operand_laws\<close> through its interpretation \<open>value_ops\<close>, and the soundness of the types.
  \<open>sample_calendar\<close> stands for \<open>chrono\<close> in the witnesses: days of the proleptic Gregorian calendar.
\<close>

definition days_from_civil :: "int \<Rightarrow> nat \<Rightarrow> nat \<Rightarrow> int" where
  "days_from_civil y m d =
     (let y = (if m \<le> 2 then y - 1 else y); era = y div 400; yoe = y mod 400;
          mp = (int m + 9) mod 12; doy = (153 * mp + 2) div 5 + int d - 1
      in era * 146097 + yoe * 365 + yoe div 4 - yoe div 100 + doy - 719468)"

definition sample_calendar :: "(int, int, int, int) calendar" where
  "sample_calendar = \<lparr>
     cal_from_ymd_opt = (\<lambda>y m d.
       if 1 \<le> m \<and> m \<le> 12 \<and> 1 \<le> d \<and> d \<le> 31 then Some (days_from_civil y m d) else None),
     cal_and_hms_micro_opt = (\<lambda>d h m s u.
       if h < 24 \<and> m < 60 \<and> s < 60
       then Some (((d * 24 + int h) * 60 + int m) * 60000000 + int s * 1000000 + int u) else None),
     cal_east_opt = (\<lambda>s. if \<bar>s\<bar> < 86400 then Some s else None),
     cal_from_local_single = (\<lambda>offset t. Some (t - offset * 1000000)),
     cal_timestamp_micros = word_of_int,
     cal_utc_micros = word_of_int,
     cal_date = (\<lambda>t. t div 86400000000),
     cal_num_days_from_ce = (\<lambda>d. word_of_int (d + 719163)),
     cal_parse_uuid = (\<lambda>_. None)\<rparr>"

subsection \<open>A well-typed specification\<close>

text \<open>
  C1: A specification that is well typed for the shape of the candidates is evaluated on every
  candidate of that shape to a value of its type (or to null), or ends in a failure of the data -
  a division by zero, a result out of range, a string constant that cannot be read. It never ends
  in a missing member, a member of the wrong sort, an operator its operands do not have, a truth
  value that is no truth value, or an item that is not there. It aborts only by a string constant of
  its own that aborts the reading as a point in time, and no constant of ASCII does: with constants
  of ASCII alone it does not abort.
\<close>

theorem evaluation_type_sound:
  assumes "type_of g [] e = Some t" and "conforms candidate g"
  shows "sound t (evaluate (value_operand cal) record_ctx e candidate)
    \<or> evaluate (value_operand cal) record_ctx e candidate = Inl (EvOperand Panicked)
      \<and> (\<exists>str. VText str \<in> set_expr e \<and> parse_moment cal str = Inl () \<and> \<not> is_ascii str)"
proof -
  let ?ab = "\<exists>str. VText str \<in> set_expr e \<and> parse_moment cal str = Inl () \<and> \<not> is_ascii str"
  have "\<forall>str. VText str \<in> set_expr e \<longrightarrow> parse_moment cal str = Inl () \<longrightarrow> ?ab"
    using calm_parse_moment [of _ cal] unfolding calm_def by blast
  then have "sound_or ?ab t (evaluate (value_operand cal) record_ctx e candidate)"
    using assms unfolding evaluate_def by (intro well_typed_sound) (simp_all add: scope_conforms_def)
  then show ?thesis unfolding sound_or_aborts [of ?ab] by blast
qed

definition sample_shape :: shape where
  "sample_shape = SObject [
     ''items'' \<mapsto> SCollection (SObject [''price'' \<mapsto> SValue KInt]), ''since'' \<mapsto> SValue KTimestamp]"

definition sample_spec :: "val expr" where
  "sample_spec = ast_and
     (ast_any (path_global ''items'')
       (ast_greater_than (ast_add (ast_field (path_item ''price'')) (ast_value (VInt 1)))
         (ast_value (VInt 41))))
     (ast_less_than (ast_field (path_global ''since'')) (ast_value (VText ''2026-09-01'')))"

definition sample_record :: "val rec" where
  "sample_record = RObject [
     ''items'' \<mapsto> RCollection [RObject [''price'' \<mapsto> RValue (VInt 41)]],
     ''since'' \<mapsto> RValue VNull]"

lemmas sample_defs = sample_shape_def sample_spec_def sample_record_def

theorem evaluation_type_sound_witness:
  "sound (Ty KBool) (evaluate (value_operand sample_calendar) record_ctx sample_spec sample_record)"
proof -
  have "type_of sample_shape [] sample_spec = Some (Ty KBool)"
    by (simp add: sample_defs ast_builders shape_of_path_def shape_member_def path_global_def
        path_item_def comparable_def arithmetic_type_def is_read_kind_def)
  moreover have "conforms sample_record sample_shape"
    by (simp add: sample_defs conforms_simps)
  moreover have "is_ascii str" if "VText str \<in> set_expr sample_spec" for str
    using that by (auto simp: sample_defs ast_builders is_ascii_def)
  ultimately show ?thesis using evaluation_type_sound [of sample_shape sample_spec "Ty KBool" sample_record sample_calendar] by blast
qed

subsection \<open>The connectives and the quantifiers\<close>

text \<open>
  C2: De Morgan's laws hold of the evaluator exactly: the negation of a conjunction and the
  disjunction of the negations are the same result, error for error and null for null, though
  both stop at the operand that decides; and so with the connectives exchanged.
\<close>

theorem de_morgan_exact:
  "eval (value_operand cal) ctx (ast_not (ast_and l r)) s =
     eval (value_operand cal) ctx (ast_or (ast_not l) (ast_not r)) s \<and>
   eval (value_operand cal) ctx (ast_not (ast_or l r)) s =
     eval (value_operand cal) ctx (ast_and (ast_not l) (ast_not r)) s"
  using value_ops.not_logical [of cal LAnd "eval (value_operand cal) ctx l s"]
    value_ops.not_logical [of cal LOr "eval (value_operand cal) ctx l s"]
  by (simp add: ast_builders)

text \<open>
  C3: Stopping early changes no answer: what the evaluator that evaluates every operand of every
  connective, and the predicate of every item of every collection, makes of a specification, the
  evaluator that stops at what is decided makes of it too.
\<close>

theorem early_stop_refines:
  assumes "eval_eager (value_operand cal) ctx e s = Inr v"
  shows "eval (value_operand cal) ctx e s = Inr v"
  using assms by (rule value_ops.eval_eager_refined)

definition sample_scope :: "(val rec, val) scope" where
  "sample_scope = \<lparr>scope_global = sample_record, scope_item = []\<rparr>"

theorem early_stop_refines_witness:
  "eval (value_operand sample_calendar) record_ctx
     (ast_or (ast_is_null (ast_field (path_global ''since'')))
       (ast_less_than (ast_field (path_global ''since'')) (ast_value (VTimestamp 0)))) sample_scope
   = Inr (VBool True)"
proof (rule early_stop_refines)
  show "eval_eager (value_operand sample_calendar) record_ctx
     (ast_or (ast_is_null (ast_field (path_global ''since'')))
       (ast_less_than (ast_field (path_global ''since'')) (ast_value (VTimestamp 0)))) sample_scope
   = Inr (VBool True)"
    by (simp add: ast_builders sample_scope_def sample_record_def path_global_def eager_logical_def
        eval_postfix_def eval_is_null_def owner_def record_field_def record_member_def truth_def
        eval_infix_def eval_member_def read_constants_def value_read_beside_def strict_def
        from_truth_def)
qed

text \<open>
  \<open>any\<close> over a collection is true when, and only when, some item's predicate is true and every
  item before it is known and not true; it is an error when the predicate of some item is that
  error and every item before it is known and not true; it is false when every item's predicate is
  known and none is true. Items after the one that decides are never looked at.
\<close>

theorem any_decided_by_first:
  assumes "owner ctx source s = Inr c" and "ctx_collection ctx c (path_name source) = Inr items"
  shows "(eval (value_operand cal) ctx (ast_any source p) s = Inr (VBool True) \<longleftrightarrow>
      (\<exists>before e after. items = before @ e # after
        \<and> item_truth (value_operand cal) ctx p source s e = Inr (Some True)
        \<and> (\<forall>b \<in> set before. \<exists>t. item_truth (value_operand cal) ctx p source s b = Inr t \<and> t \<noteq> Some True)))
    \<and> (eval (value_operand cal) ctx (ast_any source p) s = Inl f \<longleftrightarrow>
      (\<exists>before e after. items = before @ e # after
        \<and> item_truth (value_operand cal) ctx p source s e = Inl f
        \<and> (\<forall>b \<in> set before. \<exists>t. item_truth (value_operand cal) ctx p source s b = Inr t \<and> t \<noteq> Some True)))
    \<and> (eval (value_operand cal) ctx (ast_any source p) s = Inr (VBool False) \<longleftrightarrow>
      (\<forall>e \<in> set items. \<exists>t. item_truth (value_operand cal) ctx p source s e = Inr t \<and> t \<noteq> Some True))"
  using value_ops.any_true_iff [OF assms, of cal p] value_ops.any_error_iff [OF assms, of cal p f]
    value_ops.any_false_iff [OF assms, of cal p]
  unfolding ast_any_def by simp

lemma sample_items:
  "owner record_ctx (path_global ''items'') sample_scope = Inr sample_record"
  "ctx_collection record_ctx sample_record (path_name (path_global ''items''))
     = Inr [ElemObject (RObject [''price'' \<mapsto> RValue (VInt 41)])]"
  by (simp_all add: sample_scope_def sample_record_def owner_def path_global_def
      record_collection_at_def record_member_def record_element_def)

theorem any_decided_by_first_witness:
  "eval (value_operand sample_calendar) record_ctx
     (ast_any (path_global ''items'') (ast_value VNull)) sample_scope = Inr (VBool False)"
  using any_decided_by_first [OF sample_items, of sample_calendar "ast_value VNull"]
  by (simp add: item_truth_def ast_value_def truth_def)

lemma item_truth_not:
  "item_truth (value_operand cal) ctx (ast_not p) source s e
    = map_ok (map_option Not) (item_truth (value_operand cal) ctx p source s e)"
  by (simp add: item_truth_def ast_not_def value_ops.prefix_not_truth map_ok_def and_then_assoc)

text \<open>
  \<open>all\<close> over a collection whose items' predicates are all known is true when, and only when, no
  item's predicate is false: an item of unknown truth does not refute it, as it does not satisfy
  \<open>any\<close>; and it is false otherwise, never null.
\<close>

theorem all_fails_on_a_false_item:
  assumes "owner ctx source s = Inr c" and "ctx_collection ctx c (path_name source) = Inr items"
    and "\<And>e. e \<in> set items \<Longrightarrow> item_truth (value_operand cal) ctx p source s e = Inr (t e)"
  shows "eval (value_operand cal) ctx (ast_all source p) s
    = Inr (VBool (\<forall>e \<in> set items. t e \<noteq> Some False))"
proof -
  have "eval_some (value_operand cal) ctx source
      (\<lambda>s'. eval (value_operand cal) ctx (ast_not p) s') s
    = Inr (op_from_bool (value_operand cal) (\<exists>e \<in> set items. map_option Not (t e) = Some True))"
    using assms(3) item_truth_not [of cal ctx p source s]
    by (intro value_ops.eval_some_truths [OF assms(1,2)])
      (simp only: item_truth_def [symmetric], simp)
  moreover have "(\<exists>e \<in> set items. map_option Not (t e) = Some True) \<longleftrightarrow>
      (\<exists>e \<in> set items. t e = Some False)"
    by (intro bex_cong refl) auto
  ultimately have some: "eval_some (value_operand cal) ctx source
      (\<lambda>s'. eval (value_operand cal) ctx (ast_not p) s') s
    = Inr (VBool (\<exists>e \<in> set items. t e = Some False))"
    by (simp only: value_operand_simps)
  have "eval (value_operand cal) ctx (ast_all source p) s
    = eval_prefix (value_operand cal) PNot (eval_some (value_operand cal) ctx source
        (\<lambda>s'. eval (value_operand cal) ctx (ast_not p) s') s)"
    by (simp only: ast_all_def ast_any_def ast_not_def [of "EAny _ _"] eval.simps)
  then show ?thesis
    unfolding some by (simp add: eval_prefix_def truth_def from_truth_def)
qed

theorem all_fails_on_a_false_item_witness:
  "eval (value_operand sample_calendar) record_ctx
     (ast_all (path_global ''items'') (ast_value VNull)) sample_scope = Inr (VBool True)"
  using all_fails_on_a_false_item [OF sample_items, of sample_calendar "ast_value VNull" "\<lambda>_. None"]
  by (simp add: item_truth_def ast_value_def truth_def)

subsection \<open>Equality with the null\<close>

text \<open>
  The pass over a tree of the notations where null is a value leaves no equality with the null
  constant, whatever the tree; it changes nothing in a tree that has none, so a second pass changes
  nothing.
\<close>

theorem null_pass_normal_form:
  "no_null_equality (value_operand cal) (throughout (value_operand cal) e)
   \<and> throughout (value_operand cal) (throughout (value_operand cal) e) = throughout (value_operand cal) e"
  by (simp add: throughout_no_null_equality throughout_unchanged)

text \<open>
  The equality such a notation writes with the null constant asks the question it is read as:
  of an operand that is evaluated to a value, whatever the value, it is true where the value is
  null and false where it is not - never null, as SQL's comparison with null is - and the
  inequality is its negation.
\<close>

theorem null_equality_asks:
  assumes "eval (value_operand cal) ctx l s = Inr v"
  shows "eval (value_operand cal) ctx (null_equal (value_operand cal) l (ast_value VNull)) s
      = Inr (VBool (v = VNull))
    \<and> eval (value_operand cal) ctx (null_not_equal (value_operand cal) l (ast_value VNull)) s
      = Inr (VBool (v \<noteq> VNull))
    \<and> eval (value_operand cal) ctx (ast_equal l (ast_value VNull)) s = Inr VNull"
proof (intro conjI)
  show "eval (value_operand cal) ctx (null_equal (value_operand cal) l (ast_value VNull)) s
      = Inr (VBool (v = VNull))"
    using value_ops.null_equal_eval [of cal VNull ctx l s v] assms by (simp add: ast_value_def)
  show "eval (value_operand cal) ctx (null_not_equal (value_operand cal) l (ast_value VNull)) s
      = Inr (VBool (v \<noteq> VNull))"
    using value_ops.null_not_equal_eval [of cal VNull ctx l s v] assms by (simp add: ast_value_def)
  show "eval (value_operand cal) ctx (ast_equal l (ast_value VNull)) s = Inr VNull"
    using value_ops.null_comparison_is_null [of cal ctx l s v VNull] assms
    by (simp add: ast_value_def read_beside_not_text)
qed

theorem null_equality_asks_witness:
  "eval (value_operand sample_calendar) record_ctx
     (null_equal (value_operand sample_calendar) (ast_field (path_global ''since'')) (ast_value VNull))
     sample_scope = Inr (VBool True)"
  using null_equality_asks [of sample_calendar record_ctx "ast_field (path_global ''since'')" sample_scope VNull]
  by (simp add: ast_field_def eval_member_def owner_def path_global_def sample_scope_def
      sample_record_def record_field_def record_member_def)

subsection \<open>The values\<close>

text \<open>
  C4: A sum, a difference, a product, a quotient truncated towards zero and a remainder with the sign of
  the dividend are the mathematical ones, or the range error exactly where no 64-bit integer is the
  result; a zero divisor is the division error: nothing of these wraps. A shift is no such operator and
  never fails: it moves the bits by the count modulo 64, as PostgreSQL does - to the left those that
  leave the 64 are lost, to the right the quotient is rounded down.
\<close>

theorem integer_arithmetic_exact:
  "(\<forall>x. exact op (sint l) (sint r) = Some x \<longrightarrow>
      integer op l r = (if - (2 ^ 63) \<le> x \<and> x < 2 ^ 63 then Inr (word_of_int x) else Inl OutOfRange))
   \<and> (op \<in> {ADiv, AMod} \<and> sint r = 0 \<longrightarrow> integer op l r = Inl DivisionByZero)
   \<and> (\<exists>w. integer AShl l r = Inr w
       \<and> (\<forall>i. bit w i \<longleftrightarrow> i < 64 \<and> nat (sint r mod 64) \<le> i \<and> bit l (i - nat (sint r mod 64))))
   \<and> (\<exists>w. integer AShr l r = Inr w \<and> sint w = sint l div 2 ^ nat (sint r mod 64))"
  using exact_or_error [of op l r] left_shift_bits [of r l] drop_bit_exact [of r l] by auto

theorem integer_arithmetic_exact_witness:
  "integer ADiv (-7) 2 = Inr (-3) \<and> integer AAdd (word_of_int (2 ^ 63 - 1)) 1 = Inl OutOfRange
    \<and> integer AMod 5 0 = Inl DivisionByZero"
proof (intro conjI)
  show "integer ADiv (-7) 2 = Inr (-3)"
    using integer_arithmetic_exact [of ADiv "-7" 2] by simp
  show "integer AAdd (word_of_int (2 ^ 63 - 1)) 1 = Inl OutOfRange"
    using integer_arithmetic_exact [of AAdd "word_of_int (2 ^ 63 - 1)" 1]
    by (simp add: sint_sbintrunc')
  show "integer AMod 5 0 = Inl DivisionByZero"
    using integer_arithmetic_exact [of AMod 5 0] by simp
qed

text \<open>
  The values of one kind are totally preordered by \<open>compare\<close>, the NaN greatest and equal to
  itself: of any two, comparing them the other way round is the reversed outcome, comparing a value
  that is not null with itself is equal, and at most, after at most, is at most.
\<close>

theorem order_within_a_kind:
  assumes "value_kind a = value_kind b" "value_kind c = value_kind b" "b \<noteq> VNull"
  shows "\<exists>x y z. value_compare a b = Inr x \<and> value_compare b a = Inr (reverse_ordering x)
    \<and> value_compare b b = Inr OEqual \<and> value_compare b c = Inr y \<and> value_compare a c = Inr z
    \<and> (is_le x \<and> is_le y \<longrightarrow> is_le z)"
proof -
  have total: "\<exists>x. value_compare u v = Inr x" if "value_kind u = value_kind v" "v \<noteq> VNull" for u v
    using that by (cases v) (auto simp: value_kind_iff)
  have same: "value_compare b b = Inr OEqual"
    using assms(3) bytes_cmp_eq_iff by (cases b) (simp_all add: signed_cmp_def float_order_rank)
  obtain x where x: "value_compare a b = Inr x" using total [OF assms(1,3)] by blast
  have c: "c \<noteq> VNull" using assms(2,3) value_kind_iff(9) [of b] by auto
  obtain y z where yz: "value_compare b c = Inr y" "value_compare a c = Inr z"
    using total [of b c] total [of a c] assms c by auto
  have "is_le x \<and> is_le y \<longrightarrow> is_le z"
    using value_compare_trans [OF assms(1,2) x yz(1)] yz(2) by auto
  with x yz same value_compare_reverse [of b a] show ?thesis by auto
qed

theorem order_within_a_kind_witness:
  "\<exists>x y z. value_compare (VFloat (F_Inf False)) (VFloat F_NaN) = Inr x
    \<and> value_compare (VFloat F_NaN) (VFloat (F_Inf False)) = Inr (reverse_ordering x)
    \<and> value_compare (VFloat F_NaN) (VFloat F_NaN) = Inr OEqual
    \<and> value_compare (VFloat F_NaN) (VFloat F_NaN) = Inr y
    \<and> value_compare (VFloat (F_Inf False)) (VFloat F_NaN) = Inr z \<and> (is_le x \<and> is_le y \<longrightarrow> is_le z)"
  using order_within_a_kind [of "VFloat (F_Inf False)" "VFloat F_NaN" "VFloat F_NaN"] by simp

text \<open>
  A float an operator results in is a number of the format where its operands are, and the two
  ends IEEE arithmetic passes over in silence are refused: finite operands never make an infinity
  or a NaN, and a product, or a quotient by a finite number, of numbers that are not zero is not
  zero.
\<close>

theorem float_arithmetic_in_range:
  assumes "float op x y = Some (Inr v)"
  shows "\<exists>z. v = VFloat z \<and> (f64_ok x \<and> f64_ok y \<longrightarrow> f64_ok z)
    \<and> (is_finite x \<and> is_finite y \<longrightarrow> is_finite z)
    \<and> (op = AMul \<and> \<not> is_zero x \<and> \<not> is_zero y \<longrightarrow> \<not> is_zero z)
    \<and> (op = ADiv \<and> \<not> is_zero x \<and> is_finite y \<longrightarrow> \<not> is_zero z)"
  using assms by (rule float_result)

theorem float_arithmetic_in_range_witness:
  "\<exists>z. VFloat F_NaN = VFloat z \<and> (f64_ok (F_Inf False) \<and> f64_ok (F_Inf True) \<longrightarrow> f64_ok z)
    \<and> (is_finite (F_Inf False) \<and> is_finite (F_Inf True) \<longrightarrow> is_finite z)
    \<and> (AAdd = AMul \<and> \<not> is_zero (F_Inf False) \<and> \<not> is_zero (F_Inf True) \<longrightarrow> \<not> is_zero z)
    \<and> (AAdd = ADiv \<and> \<not> is_zero (F_Inf False) \<and> is_finite (F_Inf True) \<longrightarrow> \<not> is_zero z)"
  by (rule float_arithmetic_in_range) (simp add: float_def Let_def)

text \<open>
  A text of ASCII is read as a point in time, or is not one: the reading of it never aborts.
  A text whose eleventh byte continues a character aborts the reading, whatever the calendar.
\<close>

theorem reading_aborts_inside_a_character:
  "(is_ascii s \<longrightarrow> parse_moment cal s \<noteq> Inl ())
   \<and> (10 < length s \<and> is_continuation (s ! 10) \<longrightarrow> parse_moment cal s = Inl ())"
  using calm_parse_moment [of s cal] parse_moment_aborts [of s cal] by (simp add: calm_def)

theorem reading_aborts_inside_a_character_witness:
  "parse_moment sample_calendar (''2026-09-0'' @ [char_of (195 :: nat), char_of (169 :: nat)]) = Inl ()
   \<and> parse_moment sample_calendar ''2026-09-01'' \<noteq> Inl ()"
  using reading_aborts_inside_a_character
      [of "''2026-09-0'' @ [char_of (195 :: nat), char_of (169 :: nat)]" sample_calendar]
    reading_aborts_inside_a_character [of "''2026-09-01''" sample_calendar]
  by (simp add: is_continuation_def is_ascii_def)

subsection \<open>The tree\<close>

text \<open>
  Going from one stage of a specification to the next converts its constants, in the order they
  are written, and nothing else: the result is the tree with the converted constants in their
  places, or, when some constant cannot be converted, the error of the first that cannot.
\<close>

theorem constants_converted_in_order:
  "map_ok expr_values (try_map_values f e) = collect_results (map f (expr_values e))
   \<and> (\<forall>e'. try_map_values f e = Inr e' \<longrightarrow> map_expr (\<lambda>_. ()) e' = map_expr (\<lambda>_. ()) e)"
  using try_map_values_values try_map_values_shape by blast

theorem constants_converted_in_order_witness:
  "try_map_values (\<lambda>n. if n = 0 then Inl ''zero'' else Inr (show_nat n))
     (ast_and (ast_value 7) (ast_value 0)) = Inl ''zero''"
  using constants_converted_in_order [of "\<lambda>n. if n = 0 then Inl ''zero'' else Inr (show_nat n)"
      "ast_and (ast_value 7) (ast_value 0)"]
  by (simp add: ast_builders)

text \<open>
  A path whose names hold no dot is read back from its spelling with dots, from the root it is
  of; and whatever text is split at its dots, the names of the path are the parts of the text.
\<close>

theorem dotted_path_round_trip:
  "((\<forall>n \<in> set (path_names p). CHR ''.'' \<notin> set n) \<longrightarrow>
     path_dotted (path_root p) (join_with ''.'' (path_names p)) = p)
   \<and> join_with ''.'' (path_names (path_dotted r s)) = s"
  using path_dotted_join [of p] by (simp add: path_names_dotted join_split_on)

theorem dotted_path_round_trip_witness:
  "path_dotted (RItem 1) ''address.city'' = path_child (path_outer 1 ''address'') ''city''"
  using dotted_path_round_trip [of "path_child (path_outer 1 ''address'') ''city''"]
  by (simp add: path_outer_def)

end
