(* ===== verification/Mapping_Laws.thy ===== *)
theory Mapping_Laws
  imports Mapping_Transform Evaluator_Properties
begin

section \<open>The mapping as a guard, and what it keeps\<close>

text \<open>
  The transformation asks the mapping for every member, names nothing else, and keeps a tree the mapping
  answers with itself.
\<close>

subsection \<open>What a tree names\<close>

text \<open>The constants and the paths of a tree.\<close>

fun leaves :: "'v expr \<Rightarrow> ('v + path) set" where
  "leaves (EValue v) = {Inl v}"
| "leaves (EField p) = {Inr p}"
| "leaves (EItem up) = {}"
| "leaves (EPrefix op e) = leaves e"
| "leaves (EInfix l op r) = leaves l \<union> leaves r"
| "leaves (EPostfix e op) = leaves e"
| "leaves (EAny source predicate) = insert (Inr source) (leaves predicate)"

fun mapped_leaves :: "'s mapped \<Rightarrow> ('s + path) set" where
  "mapped_leaves (MScalar e) = leaves e"
| "mapped_leaves (MComposite parts) = (\<Union>part \<in> set parts. mapped_leaves part)"
| "mapped_leaves (MNull v) = {Inl v}"

text \<open>The members a tree asks for, by their names from the candidate; \<open>ds\<close> is nearest first.\<close>

definition full_names :: "string list list \<Rightarrow> path \<Rightarrow> string list" where
  "full_names ds p =
     (case path_root p of
        RGlobal \<Rightarrow> path_names p
      | RItem up \<Rightarrow> (if up < length ds then ds ! up else []) @ path_names p)"

fun asked :: "string list list \<Rightarrow> 'd expr \<Rightarrow> string list list" where
  "asked ds (EValue v) = []"
| "asked ds (EField p) = [full_names ds p]"
| "asked ds (EItem up) = []"
| "asked ds (EPrefix op e) = asked ds e"
| "asked ds (EInfix l op r) = asked ds l @ asked ds r"
| "asked ds (EPostfix e op) = asked ds e"
| "asked ds (EAny source predicate) =
     full_names ds source # asked (full_names ds source # ds) predicate"

definition candidate_path :: "string list \<Rightarrow> path" where
  "candidate_path ns = foldl path_child (path_global (hd ns)) (tl ns)"

lemma from_candidate_Some: "ns \<noteq> [] \<Longrightarrow> from_candidate ns = Some (candidate_path ns)"
  by (cases ns) (simp_all add: from_candidate_def candidate_path_def)

lemma full_names_not_Nil [simp]: "full_names ds p \<noteq> []"
  by (simp add: full_names_def split: root.split)

lemma path_names_candidate [simp]: "ns \<noteq> [] \<Longrightarrow> path_names (candidate_path ns) = ns"
  by (cases ns) (simp_all add: candidate_path_def path_global_def)

lemma path_root_candidate [simp]: "path_root (candidate_path ns) = RGlobal"
  by (simp add: candidate_path_def path_global_def)

definition inside_of :: "string list list \<Rightarrow> collection list \<Rightarrow> bool" where
  "inside_of ds inside \<longleftrightarrow> map col_domain inside = rev ds"

lemma inside_of_length: "inside_of ds inside \<Longrightarrow> length inside = length ds"
  by (metis inside_of_def length_map length_rev)

lemma inside_of_nth:
  assumes "inside_of ds inside" "up < length ds"
  shows "col_domain (inside ! (length inside - (up + 1))) = ds ! up"
proof -
  have "col_domain (inside ! (length inside - (up + 1)))
      = map col_domain inside ! (length inside - (up + 1))"
    using assms inside_of_length by (subst nth_map) fastforce+
  also have "\<dots> = ds ! up"
    using assms inside_of_length [OF assms(1)] by (simp add: inside_of_def rev_nth)
  finally show ?thesis .
qed

lemma collection_out_Some_iff:
  "collection_out inside up = Some c \<longleftrightarrow>
     up < length inside \<and> c = inside ! (length inside - (up + 1))"
  by (auto simp: collection_out_def)

lemma whole_names:
  assumes "inside_of ds inside"
  shows "whole p inside =
    (case path_root p of
       RItem up \<Rightarrow> if up < length ds then Inr (candidate_path (full_names ds p)) else Inl TNoCurrentItem
     | RGlobal \<Rightarrow> Inr (candidate_path (full_names ds p)))"
proof (cases "path_root p")
  case RGlobal
  then show ?thesis by (simp add: whole_def from_candidate_Some full_names_def)
next
  case (RItem up)
  then show ?thesis
    using inside_of_nth [OF assms, of up] inside_of_length [OF assms]
    by (simp add: whole_def collection_out_def from_candidate_Some full_names_def)
qed

lemma inside_of_snoc:
  "inside_of ds inside \<Longrightarrow> inside_of (col_domain c # ds) (inside @ [c])"
  by (simp add: inside_of_def)

subsection \<open>Every member is asked for\<close>

lemma any_collection_asks:
  fixes m :: "('d, 's, 'e) storage_mapping"
  assumes any: "any_collection source m inside = Inr (place, c)" and inside: "inside_of ds inside"
  shows "\<exists>storage. mapping_field m (candidate_path (full_names ds source)) = Inr (MScalar (EField storage))
    \<and> path_root storage = RGlobal \<and> path_names storage = col_storage c
    \<and> col_domain c = full_names ds source
    \<and> (placed (MScalar (EField storage)) (path_root source) inside :: ('e transform_error, 's mapped) result)
        = Inr (MScalar (EField place))
    \<and> (\<forall>up. path_root source = RItem up \<longrightarrow> up < length ds)"
proof -
  from any obtain domain answer placement where
    w: "(whole source inside :: ('e transform_error, path) result) = Inr domain" and
    f: "mapping_field m domain = Inr answer" and
    rest: "and_then (case answer of
         MScalar (EField p) \<Rightarrow> if path_root p = RGlobal then Inr p else Inl CollectionNotAPlace
       | _ \<Rightarrow> Inl CollectionNotAPlace) (\<lambda>storage.
     and_then (placed (MScalar (EField storage) :: 's mapped) (path_root source) inside) (\<lambda>place.
     and_then (case place of
         MScalar (EField p) \<Rightarrow> Inr p
       | _ \<Rightarrow> Inl CollectionNotAPlace) (\<lambda>source.
     Inr (source, \<lparr>col_domain = path_names domain, col_storage = path_names storage\<rparr>))))
      = (Inr (place, c) :: ('e transform_error, path \<times> collection) result)"
    unfolding any_collection_def by auto
  have domain: "domain = candidate_path (full_names ds source)"
    and range: "\<forall>up. path_root source = RItem up \<longrightarrow> up < length ds"
    using w by (auto simp: whole_names [OF inside] split: root.splits if_splits)
  from rest obtain storage where answer: "answer = MScalar (EField storage)" "path_root storage = RGlobal"
    and place: "(placed (MScalar (EField storage)) (path_root source) inside :: ('e transform_error, 's mapped) result)
        = Inr (MScalar (EField place))"
    and c: "c = \<lparr>col_domain = path_names domain, col_storage = path_names storage\<rparr>"
    by (force split: mapped.splits expr.splits if_splits)
  with f domain range show ?thesis by auto
qed

lemma lower_asks:
  assumes "lower e m inside = Inr r" "inside_of ds inside"
  shows "\<forall>ns \<in> set (asked ds e). \<exists>a. mapping_field m (candidate_path ns) = Inr a"
  using assms
proof (induction e arbitrary: inside ds r)
  case (EField p)
  then show ?case
    by (auto simp: mapped_member_def whole_names split: root.splits if_splits)
next
  case (EAny source predicate)
  then obtain place c r' where
    any: "any_collection source m inside = Inr (place, c)" and
    r': "lower predicate m (inside @ [c]) = Inr r'"
    by auto
  from any_collection_asks [OF any EAny.prems(2)] EAny.IH [OF r' inside_of_snoc [OF EAny.prems(2)]]
  show ?case by auto
next
  case (EInfix l op r)
  then show ?case by auto
qed auto

subsection \<open>Nothing else is named\<close>

text \<open>What an answer of the mapping names, and what \<open>transform\<close> may make of a name.\<close>

definition answered :: "('d, 's, 'e) storage_mapping \<Rightarrow> ('s + path) \<Rightarrow> bool" where
  "answered m leaf \<longleftrightarrow>
     (\<exists>p a. mapping_field m p = Inr a \<and> leaf \<in> mapped_leaves a)
     \<or> (\<exists>v a. mapping_value m v = Inr a \<and> leaf \<in> mapped_leaves a)
     \<or> (\<exists>p a. mapping_element m p = Inr a \<and> leaf \<in> mapped_leaves a)"

definition derived :: "('d, 's, 'e) storage_mapping \<Rightarrow> ('s + path) \<Rightarrow> bool" where
  "derived m leaf \<longleftrightarrow>
     answered m leaf
     \<or> (\<exists>q a c. leaf = Inr q \<and> path_root q \<noteq> RGlobal
          \<and> answered m (Inr a) \<and> path_root a = RGlobal \<and> answered m (Inr c) \<and> path_root c = RGlobal
          \<and> path_names a = path_names c @ path_names q)
     \<or> (\<exists>q a. leaf = Inr q \<and> path_root q \<noteq> RGlobal
          \<and> answered m (Inr a) \<and> path_root a \<noteq> RGlobal \<and> path_names q = path_names a)"

fun dotless :: "'s + path \<Rightarrow> bool" where
  "dotless (Inl v) = True"
| "dotless (Inr q) = (\<forall>n \<in> set (path_names q). CHR ''.'' \<notin> set n)"

definition plain_elements :: "('d, 's, 'e) storage_mapping \<Rightarrow> bool" where
  "plain_elements m \<longleftrightarrow>
     (\<forall>p a. mapping_element m p = Inr a \<longrightarrow> mapped_leaves a \<subseteq> Collect dotless)"

lemma answered_derived [intro]: "answered m leaf \<Longrightarrow> derived m leaf"
  by (simp add: derived_def)

definition placed_in :: "('d, 's, 'e) storage_mapping \<Rightarrow> collection list \<Rightarrow> bool" where
  "placed_in m inside \<longleftrightarrow>
     (\<forall>c \<in> set inside. \<exists>a. answered m (Inr a) \<and> path_root a = RGlobal \<and> path_names a = col_storage c)"

lemma placed_expr_leaves:
  assumes "placed_expr e pre up = Inr e'" "leaves e \<subseteq> Collect (answered m)"
    and "answered m (Inr c)" "path_root c = RGlobal" "path_names c = pre"
  shows "leaves e' \<subseteq> Collect (derived m)"
  using assms(1,2)
proof (induction e arbitrary: e')
  case (EField p)
  show ?case
  proof (cases "path_root p = RGlobal")
    case True
    with EField(1) obtain first rest where
      names: "path_names p = pre @ first # rest"
      and e': "e' = EField (foldl path_child (path_outer up first) rest)"
      by (auto simp: strip_prefix_Some_iff split: option.splits list.splits)
    have "answered m (Inr p)" using EField(2) by simp
    with True names e' assms(3-5) show ?thesis
      by (auto simp: derived_def path_outer_def)
  next
    case False
    with EField show ?thesis by auto
  qed
qed auto

lemma placed_leaves:
  fixes m :: "('d, 's, 'e) storage_mapping"
  assumes "(placed a root inside :: ('e transform_error, 's mapped) result) = Inr r" "mapped_leaves a \<subseteq> Collect (answered m)"
    and "placed_in m inside" "\<forall>up. root = RItem up \<longrightarrow> up < length inside"
  shows "mapped_leaves r \<subseteq> Collect (derived m)"
  using assms
proof (induction a root inside arbitrary: r rule: placed.induct)
  case (2 e up inside)
  let ?c = "inside ! (length inside - Suc up)"
  have "?c \<in> set inside" using 2(4) by (intro nth_mem) auto
  with 2(3) obtain c where c: "answered m (Inr c)" "path_root c = RGlobal" "path_names c = col_storage ?c"
    by (auto simp: placed_in_def)
  from 2(2) have leaf: "leaves e \<subseteq> Collect (answered m)" by simp
  from 2(1) show ?case by (auto dest!: placed_expr_leaves [OF _ leaf c])
next
  case (3 parts up inside)
  then obtain rs where rs: "collect_results (map (\<lambda>part. placed part (RItem up) inside) parts)
      = (Inr rs :: ('e transform_error, 's mapped list) result)"
    and r: "r = MComposite rs"
    by auto
  have "mapped_leaves r' \<subseteq> Collect (derived m)" if "r' \<in> set rs" for r'
  proof -
    from that collect_results_mapD [OF rs] obtain part where
      part: "part \<in> set parts"
        "placed part (RItem up) inside = (Inr r' :: ('e transform_error, 's mapped) result)"
      by (metis (no_types, lifting) imageE list.set_map)
    show ?thesis
      by (rule 3(1) [OF part(1) part(2)]) (use 3(3-5) part(1) in auto)
  qed
  then show ?case by (auto simp: r)
qed auto

lemma shifted_path_names:
  assumes "dotless (Inr p)"
  shows "path_names (shifted_path p up local) = path_names p"
  using assms
  by (auto simp: shifted_path_def path_names_dotted split_on_join split: root.split)

lemma shifted_path_root: "path_root (shifted_path p up local) = RGlobal \<longleftrightarrow> path_root p = RGlobal"
  by (simp add: shifted_path_def split: root.split)

lemma shifted_path_global [simp]: "path_root p = RGlobal \<Longrightarrow> shifted_path p up local = p"
  by (simp add: shifted_path_def)

lemma shifted_path_derived:
  assumes "answered m (Inr p)" "dotless (Inr p)"
  shows "derived m (Inr (shifted_path p up local))"
proof (cases "path_root p = RGlobal")
  case True
  with assms show ?thesis by auto
next
  case False
  with assms show ?thesis
    unfolding derived_def by (metis shifted_path_names shifted_path_root)
qed

lemma shifted_leaves:
  assumes "leaves e \<subseteq> Collect (answered m)" "leaves e \<subseteq> Collect dotless"
  shows "leaves (shifted e up local) \<subseteq> Collect (derived m)"
  using assms by (induction e arbitrary: local) (auto intro: shifted_path_derived)

lemma further_out_leaves:
  assumes "mapped_leaves a \<subseteq> Collect (answered m)" "mapped_leaves a \<subseteq> Collect dotless"
  shows "mapped_leaves (further_out a up) \<subseteq> Collect (derived m)"
  using assms
proof (induction a up rule: further_out.induct)
  case (1 e up)
  then show ?case using shifted_leaves [of e m up 0] by simp
next
  case (2 parts up)
  have "mapped_leaves (further_out part up) \<subseteq> Collect (derived m)" if "part \<in> set parts" for part
    by (rule 2(1) [OF that]) (use 2(2,3) that in auto)
  then show ?case by auto
qed auto

lemma scalar_leaves: "scalar a = Inr e \<Longrightarrow> leaves e = mapped_leaves a"
  by (cases a) (auto simp: scalar_def)

lemma ast_and_all_leaves: "leaves (ast_and_all e es) = leaves e \<union> (\<Union>x \<in> set es. leaves x)"
  by (induction es arbitrary: e) (auto simp: ast_and_all_def ast_builders)

lemma equal_leaves:
  fixes l r :: "'s mapped"
  shows "equal_pair l r = (Inr e :: ('e transform_error, 's expr) result) \<Longrightarrow>
    leaves e \<subseteq> mapped_leaves l \<union> mapped_leaves r"
proof (induction l r arbitrary: e rule: equal_pair.induct)
  case (4 left right)
  from 4(2) obtain first rest where
    parts: "collect_results (map (\<lambda>(l, r). equal_pair l r) (zip left right))
      = (Inr (first # rest) :: ('e transform_error, 's expr list) result)"
    and len: "length left = length right" and e: "e = ast_and_all first rest"
    by (auto split: if_splits list.splits)
  have "leaves x \<subseteq> mapped_leaves (MComposite left) \<union> mapped_leaves (MComposite right)"
    if "x \<in> set (first # rest)" for x
  proof -
    from that collect_results_mapD [OF parts] obtain l r where
      lr: "(l, r) \<in> set (zip left right)"
        "equal_pair l r = (Inr x :: ('e transform_error, 's expr) result)"
      by (metis (mono_tags, lifting) case_prod_conv imageE list.set_map old.prod.exhaust)
    from 4(1) [OF _ lr(1) refl lr(2)] len have "leaves x \<subseteq> mapped_leaves l \<union> mapped_leaves r"
      by simp
    with lr(1) show ?thesis by (auto dest: set_zip_leftD set_zip_rightD)
  qed
  then show ?case by (auto simp: e ast_and_all_leaves)
qed (auto simp: ast_builders dest: scalar_leaves)

lemma written_leaves:
  "written a = WOne e \<Longrightarrow> leaves e = mapped_leaves a"
  "written a = WSeveral parts \<Longrightarrow> (\<Union>x \<in> set parts. mapped_leaves x) = mapped_leaves a"
  by (cases a; auto simp: written_def)+

lemma null_tests: "null_test_of op = Some test \<Longrightarrow> leaves (test e) = leaves e"
  by (auto simp: null_test_of_def ast_builders split: infix_op.splits comparison.splits)

text \<open>\<open>combined\<close> case by case.\<close>

lemma combined_null:
  assumes "null_test_of op = Some test"
  shows "combined op l (MNull v) = map_ok (\<lambda>e. MScalar (test e)) (scalar l)"
    and "(\<forall>w. r \<noteq> MNull w) \<Longrightarrow> combined op (MNull v) r = map_ok (\<lambda>e. MScalar (test e)) (scalar r)"
  using assms by (cases l, simp_all add: combined_def) (cases r, simp_all add: combined_def)

lemma combined_one:
  fixes l r :: "'s mapped"
  shows "(null_test_of op :: ('s expr \<Rightarrow> 's expr) option) = None \<Longrightarrow>
      written l = WOne a \<Longrightarrow> written r = WOne b \<Longrightarrow>
      combined op l r = Inr (MScalar (ast_infix a op b))"
    and "combined op (MScalar a) (MScalar b) = Inr (MScalar (ast_infix a op b))"
  by (cases l; cases r; simp add: combined_def written_def) (simp add: combined_def written_def)

lemma combined_mixed:
  fixes ls :: "'s mapped list"
  shows "(null_test_of op :: ('s expr \<Rightarrow> 's expr) option) = None \<Longrightarrow>
      combined op (MComposite ls) (MNull v) = Inl NotComposite"
    and "(null_test_of op :: ('s expr \<Rightarrow> 's expr) option) = None \<Longrightarrow>
      combined op (MNull v) (MComposite ls) = Inl NotComposite"
    and "combined op (MComposite ls) (MScalar e) = Inl NotComposite"
    and "combined op (MScalar e) (MComposite ls) = Inl NotComposite"
  by (simp_all add: combined_def written_def)

lemma combined_several:
  "combined op (MComposite ls) (MComposite rs) =
     (case op of
        IComparison CEq \<Rightarrow> map_ok MScalar (equal_composites ls rs)
      | IComparison CNe \<Rightarrow> map_ok (\<lambda>e. MScalar (ast_not e)) (equal_composites ls rs)
      | _ \<Rightarrow> Inl (UnsupportedOperator op))"
  by (simp add: combined_def written_def)

lemma combined_leaves:
  fixes l r :: "'s mapped"
  assumes "combined op l r = (Inr a :: ('e transform_error, 's mapped) result)"
  shows "mapped_leaves a \<subseteq> mapped_leaves l \<union> mapped_leaves r"
proof (cases "\<exists>ls rs. l = MComposite ls \<and> r = MComposite rs")
  case True
  then obtain ls rs where lr: "l = MComposite ls" "r = MComposite rs" by blast
  have eq: "leaves e \<subseteq> mapped_leaves l \<union> mapped_leaves r"
    if "equal_composites ls rs = (Inr e :: ('e transform_error, 's expr) result)" for e
    using equal_leaves [of "MComposite ls" "MComposite rs" e] that unfolding equal_pair_composites lr .
  from assms obtain e where e: "equal_composites ls rs = (Inr e :: ('e transform_error, 's expr) result)"
    "mapped_leaves a = leaves e"
    by (auto simp: lr combined_several ast_builders split: infix_op.splits comparison.splits)
  with eq [OF e(1)] show ?thesis by simp
next
  case mixed: False
  show ?thesis
  proof (cases "null_test_of op :: ('s expr \<Rightarrow> 's expr) option")
    case None
    with assms mixed show ?thesis
      by (cases l; cases r) (auto simp: combined_one combined_mixed written_def ast_builders)
  next
    case (Some test)
    note nt = combined_null [OF Some] null_tests [OF Some]
    show ?thesis
    proof (cases r)
      case (MNull v)
      with assms show ?thesis by (auto simp: nt dest: scalar_leaves)
    next
      case (MScalar e)
      with assms show ?thesis
        by (cases l) (auto simp: nt combined_one combined_mixed ast_builders scalar_def)
    next
      case (MComposite rs)
      with assms mixed show ?thesis
        by (cases l) (auto simp: nt combined_mixed scalar_def)
    qed
  qed
qed

lemma answered_field: "mapping_field m w = Inr a \<Longrightarrow> mapped_leaves a \<subseteq> Collect (answered m)"
  by (auto simp: answered_def)

lemma answered_value: "mapping_value m v = Inr a \<Longrightarrow> mapped_leaves a \<subseteq> Collect (answered m)"
  unfolding answered_def by blast

lemma answered_element: "mapping_element m w = Inr a \<Longrightarrow> mapped_leaves a \<subseteq> Collect (answered m)"
  by (auto simp: answered_def)

lemma mapped_member_leaves:
  fixes m :: "('d, 's, 'e) storage_mapping"
  assumes "mapped_member p m inside = Inr r" "placed_in m inside" "inside_of ds inside"
  shows "mapped_leaves r \<subseteq> Collect (derived m)"
proof -
  from assms(1) obtain w a where
    w: "(whole p inside :: ('e transform_error, path) result) = Inr w" and a: "mapping_field m w = Inr a" and
    r: "placed a (path_root p) inside = (Inr r :: ('e transform_error, 's mapped) result)"
    by (auto simp: mapped_member_def)
  have "\<forall>up. path_root p = RItem up \<longrightarrow> up < length inside"
    using w inside_of_length [OF assms(3)] by (auto simp: whole_names [OF assms(3)] split: if_splits)
  from placed_leaves [OF r answered_field [OF a] assms(2) this] show ?thesis .
qed

lemma mapped_element_leaves:
  assumes "mapped_element up m inside = Inr r" "plain_elements m"
  shows "mapped_leaves r \<subseteq> Collect (derived m)"
proof -
  from assms(1) obtain p a where a: "mapping_element m p = Inr a" "r = further_out a up"
    by (auto simp: mapped_element_def)
  with assms(2) have "mapped_leaves a \<subseteq> Collect dotless" by (simp add: plain_elements_def)
  from further_out_leaves [OF answered_element [OF a(1)] this] show ?thesis by (simp add: a(2))
qed

lemma any_collection_leaves:
  fixes m :: "('d, 's, 'e) storage_mapping"
  assumes "any_collection source m inside = Inr (place, c)" "placed_in m inside" "inside_of ds inside"
  shows "derived m (Inr place) \<and> placed_in m (inside @ [c])"
proof -
  from any_collection_asks [OF assms(1,3)] obtain storage where
    f: "mapping_field m (candidate_path (full_names ds source)) = Inr (MScalar (EField storage))" and
    storage: "path_root storage = RGlobal" "path_names storage = col_storage c" and
    p: "placed (MScalar (EField storage)) (path_root source) inside
      = (Inr (MScalar (EField place)) :: ('e transform_error, 's mapped) result)" and
    range: "\<forall>up. path_root source = RItem up \<longrightarrow> up < length inside"
    using inside_of_length [OF assms(3)] by auto
  from answered_field [OF f] have "answered m (Inr storage)" by simp
  with storage assms(2) have "placed_in m (inside @ [c])"
    by (auto simp: placed_in_def)
  with placed_leaves [OF p answered_field [OF f] assms(2) range] show ?thesis by simp
qed

lemma lower_leaves:
  fixes m :: "('d, 's, 'e) storage_mapping"
  assumes "lower e m inside = Inr r" "inside_of ds inside" "placed_in m inside" "plain_elements m"
  shows "mapped_leaves r \<subseteq> Collect (derived m)"
  using assms(1-3)
proof (induction e arbitrary: inside ds r)
  case (EValue v)
  then show ?case by (auto dest: answered_value)
next
  case (EField p)
  then show ?case using mapped_member_leaves [of p m inside r ds] by simp
next
  case (EItem up)
  then show ?case using mapped_element_leaves [of up m inside r] assms(4) by simp
next
  case (EInfix l op rt)
  then obtain a b where "lower l m inside = Inr a" "lower rt m inside = Inr b" 
    "combined op a b = (Inr r :: ('e transform_error, 's mapped) result)"
    by auto
  with EInfix combined_leaves [of op a b r] show ?case by blast
next
  case (EAny source predicate)
  then obtain place c r' e' where
    any: "any_collection source m inside = Inr (place, c)" and
    r': "lower predicate m (inside @ [c]) = Inr r'"
      "scalar r' = (Inr e' :: ('e transform_error, 's expr) result)" "r = MScalar (ast_any place e')"
    by auto
  from any_collection_leaves [OF any EAny.prems(3,2)]
    EAny.IH [OF r'(1) inside_of_snoc [OF EAny.prems(2)]] scalar_leaves [OF r'(2)]
  show ?case by (auto simp: r'(3) ast_any_def)
next
  case (EPrefix op e)
  then obtain a e' where a: "lower e m inside = Inr a" "r = MScalar (EPrefix op e')"
    "scalar a = (Inr e' :: ('e transform_error, 's expr) result)"
    by auto
  from EPrefix.IH [OF a(1) EPrefix.prems(2,3)] a(2) scalar_leaves [OF a(3)] show ?case by simp
next
  case (EPostfix e op)
  then obtain a e' where a: "lower e m inside = Inr a" "r = MScalar (EPostfix e' op)"
    "scalar a = (Inr e' :: ('e transform_error, 's expr) result)"
    by auto
  from EPostfix.IH [OF a(1) EPostfix.prems(2,3)] a(2) scalar_leaves [OF a(3)] show ?case by simp
qed


subsection \<open>The mapping that changes nothing\<close>

definition identity_mapping :: "('v, 'v, 'e) storage_mapping" where
  "identity_mapping = \<lparr>
     mapping_field = (\<lambda>p. Inr (MScalar (EField p))),
     mapping_value = (\<lambda>v. Inr (MScalar (EValue v))),
     mapping_element = element_default\<rparr>"

definition same_names :: "collection list \<Rightarrow> bool" where
  "same_names inside \<longleftrightarrow> (\<forall>c \<in> set inside. col_storage c = col_domain c \<and> col_domain c \<noteq> [])"

lemma rooted_iff: "rooted n p \<longleftrightarrow> (\<forall>up. path_root p = RItem up \<longrightarrow> up < n)"
  by (simp add: rooted_def split: root.split)

lemma whole_rooted:
  assumes "inside_of ds inside"
  shows "whole p inside =
    (if rooted (length ds) p then Inr (candidate_path (full_names ds p)) else Inl TNoCurrentItem)"
  by (simp add: whole_names [OF assms] rooted_def split: root.split)

text \<open>The path of a member of an item is put back where it was.\<close>

lemma placed_back:
  assumes "inside_of ds inside" "same_names inside" "rooted (length ds) p"
  shows "placed (MScalar (EField (candidate_path (full_names ds p)))) (path_root p) inside
    = Inr (MScalar (EField p))"
proof (cases "path_root p")
  case RGlobal
  moreover from RGlobal have "candidate_path (full_names ds p) = p"
    by (intro path_eqI) (simp_all add: full_names_def)
  ultimately show ?thesis by simp
next
  case (RItem up)
  with assms(3) have up: "up < length ds" by (simp add: rooted_def)
  let ?c = "inside ! (length inside - Suc up)"
  have "?c \<in> set inside"
    using up inside_of_length [OF assms(1)] by (intro nth_mem) auto
  with assms(2) have "col_storage ?c = col_domain ?c" by (simp add: same_names_def)
  also have "\<dots> = ds ! up" using inside_of_nth [OF assms(1) up] by simp
  finally have storage: "col_storage ?c = ds ! up" .
  obtain first rest where names: "path_names p = first # rest"
    by (cases "path_names p") simp_all
  have "strip_prefix (ds ! up) (ds ! up @ path_names p) = Some (first # rest)"
    by (simp add: strip_prefix_Some_iff names)
  moreover have "foldl path_child (path_outer up first) rest = p"
    using path_of_names [OF names] RItem by (simp add: path_outer_def)
  ultimately show ?thesis
    using RItem up storage by (simp add: full_names_def)
qed

lemma identity_any:
  assumes "inside_of ds inside" "same_names inside"
  shows "any_collection source identity_mapping inside =
    (if rooted (length ds) source
     then Inr (source, \<lparr>col_domain = full_names ds source, col_storage = full_names ds source\<rparr>)
     else Inl TNoCurrentItem)"
  by (simp add: any_collection_def whole_rooted [OF assms(1)] identity_mapping_def
      placed_back [OF assms])

lemma identity_lower:
  assumes "inside_of ds inside" "same_names inside"
  shows "lower e identity_mapping inside =
    (if closed (length ds) e then Inr (MScalar e) else Inl TNoCurrentItem)"
  using assms
proof (induction e arbitrary: ds inside)
  case (EValue v)
  then show ?case by (simp add: identity_mapping_def)
next
  case (EField p)
  then show ?case
    by (simp add: mapped_member_def whole_rooted identity_mapping_def placed_back [OF EField])
next
  case (EItem up)
  have "col_domain (inside ! (length inside - Suc up)) \<noteq> []" if "up < length ds"
    using EItem that inside_of_length [OF EItem(1)] by (auto simp: same_names_def)
  then show ?case
    using inside_of_length [OF EItem(1)]
    by (auto simp: mapped_element_def collection_out_def from_candidate_Some identity_mapping_def
        element_default_def shifted_index_def)
next
  case (EInfix l op r)
  then show ?case by (simp add: combined_one ast_infix_def)
next
  case (EAny source predicate)
  let ?c = "\<lparr>col_domain = full_names ds source, col_storage = full_names ds source\<rparr>"
  have "inside_of (full_names ds source # ds) (inside @ [?c])"
    using inside_of_snoc [OF EAny.prems(1), of ?c] by simp
  moreover have "same_names (inside @ [?c])"
    using EAny.prems(2) by (auto simp: same_names_def)
  ultimately show ?case
    using EAny.IH [of "full_names ds source # ds" "inside @ [?c]"]
    by (simp add: identity_any [OF EAny.prems] scalar_def ast_any_def)
qed (simp_all add: scalar_def)

subsection \<open>Properties\<close>

text \<open>
  C5: The mapping is a guard. When a specification is transformed, the mapping has answered for
  every member the specification filters by, asked by its whole path from the candidate: a member the
  mapping refuses is never compiled. And every constant and every path of the result is one the mapping
  answered with: the answer itself, or, for a member of an item, what is left of the answer after the
  answer for the item's collection, or the answer for an element put further out. This second part is
  claimed of the mappings whose answers for an element name members without a dot (\<open>plain_elements\<close>):
  an answer with a dot in a name is taken apart at it when it is put further out, and then names
  members the mapping never answered with (\<open>element_names_split_at_dots\<close> below).
\<close>

theorem transform_guard:
  fixes m :: "('d, 's, 'e) storage_mapping"
  assumes "transform e m = Inr e'"
  shows "(\<forall>ns \<in> set (asked [] e). \<exists>a. mapping_field m (candidate_path ns) = Inr a)
    \<and> (plain_elements m \<longrightarrow> (\<forall>leaf \<in> leaves e'. derived m leaf))"
proof -
  from assms(1) obtain r where
    r: "lower e m [] = Inr r" "scalar r = (Inr e' :: ('e transform_error, 's expr) result)"
    by (auto simp: transform_def)
  have inside: "inside_of [] []" "placed_in m []"
    by (simp_all add: inside_of_def placed_in_def)
  from lower_asks [OF r(1) inside(1)] lower_leaves [OF r(1) inside] scalar_leaves [OF r(2)]
  show ?thesis by auto
qed

definition price_mapping :: "(val, val, string) storage_mapping" where
  "price_mapping = \<lparr>
     mapping_field = (\<lambda>p.
       if path_names p = [''items''] then Inr (MScalar (EField (path_global ''lines'')))
       else if path_names p = [''items'', ''price'']
       then Inr (MScalar (EField (path_child (path_global ''lines'') ''cents'')))
       else Inl ''refused''),
     mapping_value = (\<lambda>v. Inr (MScalar (EValue v))),
     mapping_element = element_default\<rparr>"

definition cheap_item :: "val expr" where
  "cheap_item = ast_any (path_global ''items'')
     (ast_less_than (ast_field (path_item ''price'')) (ast_value (VInt 100)))"

lemma cheap_item_transformed:
  "transform cheap_item price_mapping =
     Inr (ast_any (path_global ''lines'')
       (ast_less_than (ast_field (path_item ''cents'')) (ast_value (VInt 100))))"
  by (simp add: cheap_item_def price_mapping_def transform_def ast_builders any_collection_def
      whole_def from_candidate_def mapped_member_def collection_out_def combined_one scalar_def
      path_global_def path_item_def path_outer_def)

theorem transform_guard_witness:
  "asked [] cheap_item = [[''items''], [''items'', ''price'']]
   \<and> (\<exists>a. mapping_field price_mapping (candidate_path [''items'', ''price'']) = Inr a)
   \<and> derived price_mapping (Inr (path_item ''cents''))"
proof (intro conjI)
  show asked: "asked [] cheap_item = [[''items''], [''items'', ''price'']]"
    by (simp add: cheap_item_def ast_builders full_names_def path_global_def path_item_def)
  note guard = transform_guard [OF cheap_item_transformed]
  show "\<exists>a. mapping_field price_mapping (candidate_path [''items'', ''price'']) = Inr a"
    using guard unfolding asked by simp
  have "plain_elements price_mapping" by (simp add: plain_elements_def price_mapping_def element_default_def)
  then show "derived price_mapping (Inr (path_item ''cents''))"
    using guard by (simp add: ast_builders)
qed

text \<open>
  C6: The mapping that answers every member and value with itself leaves every specification as it
  is, nested collections included; and a specification that names an item further out than there
  are collections is refused, by every path of it that does.
\<close>

theorem identity_transform:
  "transform e identity_mapping = (if closed 0 e then Inr e else Inl TNoCurrentItem)"
  by (simp add: transform_def identity_lower [of "[]" "[]"] inside_of_def same_names_def scalar_def)

lemma and_all_eval:
  assumes "eval (value_operand cal) ctx e s = Inr (VBool b)"
    and "\<forall>(x, c) \<in> set xs. eval (value_operand cal) ctx x s = Inr (VBool c)"
  shows "eval (value_operand cal) ctx (ast_and_all e (map fst xs)) s
    = Inr (VBool (b \<and> (\<forall>(x, c) \<in> set xs. c)))"
  using assms
proof (induction xs arbitrary: e b)
  case Nil
  then show ?case by (simp add: ast_and_all_def)
next
  case (Cons p xs)
  obtain x c where p: "p = (x, c)" by (cases p)
  have "eval (value_operand cal) ctx (ast_and e x) s = Inr (VBool (b \<and> c))"
    using Cons.prems by (simp add: p ast_builders value_ops.eval_logical_truth truth_def
        connective_kleene from_truth_def) (cases b; cases c; simp)
  with Cons.IH [of "ast_and e x" "b \<and> c"] Cons.prems show ?case
    by (simp add: p ast_and_all_def conj_assoc)
qed

lemma scalar_parts:
  "collect_results (map (\<lambda>(l, r). equal_pair l r) (zip (map MScalar ls) (map MScalar rs)))
    = Inr (map (\<lambda>(l, r). ast_equal l r) (zip ls rs))"
proof (induction ls arbitrary: rs)
  case (Cons l ls)
  then show ?case by (cases rs) simp_all
qed simp

text \<open>
  Two composites are equal when all their parts are, and unequal when some part is not: over
  parts that compare to truth values, the tree that \<open>=\<close> of two composites becomes is their
  conjunction, and the one \<open>!=\<close> becomes is its negation, not the conjunction of the inequalities.
\<close>

theorem composites_compared_part_by_part:
  assumes "length ls = length rs" "length ts = length ls" "ls \<noteq> []"
    and "\<And>i. i < length ls \<Longrightarrow> eval (value_operand cal) ctx (ast_equal (ls ! i) (rs ! i)) s = Inr (VBool (ts ! i))"
  shows "\<exists>e. combined infix_EQ (MComposite (map MScalar ls)) (MComposite (map MScalar rs))
        = (Inr (MScalar e) :: ('e transform_error, val mapped) result)
      \<and> eval (value_operand cal) ctx e s = Inr (VBool (\<forall>t \<in> set ts. t))
      \<and> combined infix_NE (MComposite (map MScalar ls)) (MComposite (map MScalar rs))
        = (Inr (MScalar (ast_not e)) :: ('e transform_error, val mapped) result)
      \<and> eval (value_operand cal) ctx (ast_not e) s = Inr (VBool (\<exists>t \<in> set ts. \<not> t))"
proof -
  define es where "es = zip (map (\<lambda>(l, r). ast_equal l r) (zip ls rs)) ts"
  have fst_es: "map fst es = map (\<lambda>(l, r). ast_equal l r) (zip ls rs)" and snd_es: "map snd es = ts"
    using assms(1,2) by (simp_all add: es_def)
  have all: "\<forall>(x, c) \<in> set es. eval (value_operand cal) ctx x s = Inr (VBool c)"
    using assms(1,2,4) by (auto simp: es_def set_zip)
  from assms(1-3) obtain x c es' where es: "es = (x, c) # es'"
    by (cases es) (auto simp: es_def)
  define e where "e = ast_and_all x (map fst es')"
  have "equal_composites (map MScalar ls) (map MScalar rs)
      = (Inr e :: ('e transform_error, val expr) result)"
    using assms(1) fst_es by (simp add: equal_composites_def scalar_parts es e_def flip: fst_es)
  moreover have eval_e: "eval (value_operand cal) ctx e s = Inr (VBool (\<forall>t \<in> set ts. t))"
  proof -
    have "set ts = insert c (snd ` set es')"
      using snd_es es by (metis list.set_map list.simps(15) snd_conv image_insert)
    then have "(\<forall>t \<in> set ts. t) \<longleftrightarrow> c \<and> (\<forall>(x, c) \<in> set es'. c)" by auto
    with and_all_eval [of cal ctx x s c es'] all es show ?thesis by (simp add: e_def)
  qed
  moreover have "eval (value_operand cal) ctx (ast_not e) s = Inr (VBool (\<exists>t \<in> set ts. \<not> t))"
    by (simp add: ast_not_def eval_e eval_prefix_def truth_def from_truth_def)
  ultimately show ?thesis by (intro exI [of _ e]) (simp add: combined_several)
qed

theorem composites_compared_part_by_part_witness:
  "\<exists>e. combined infix_EQ (MComposite (map MScalar [ast_value (VInt 1), ast_value (VInt 2)]))
        (MComposite (map MScalar [ast_value (VInt 1), ast_value (VInt 3)]))
        = (Inr (MScalar e) :: (unit transform_error, val mapped) result)
      \<and> eval (value_operand sample_calendar) record_ctx e sample_scope = Inr (VBool False)"
proof -
  have "eval (value_operand sample_calendar) record_ctx
      (ast_equal ([ast_value (VInt 1), ast_value (VInt 2)] ! i) ([ast_value (VInt 1), ast_value (VInt 3)] ! i))
      sample_scope = Inr (VBool ([True, False] ! i))" if "i < 2" for i
    using that
    by (cases i) (simp_all add: ast_builders eval_infix_def read_constants_def strict_def
        value_equals_def signed_cmp_def cmp_of_def read_beside_not_text)
  then show ?thesis
    using composites_compared_part_by_part [of "[ast_value (VInt 1), ast_value (VInt 2)]"
        "[ast_value (VInt 1), ast_value (VInt 3)]" "[True, False]" sample_calendar record_ctx sample_scope,
        where 'e = unit]
    by auto
qed

text \<open>
  An answer for an element that names an item is put further out by its spelling with dots, so
  its names are kept where none of them holds a dot, and a name that holds one becomes several.
\<close>

theorem element_names_split_at_dots:
  "path_names (shifted_path p up local) =
     (case path_root p of
        RGlobal \<Rightarrow> path_names p
      | RItem n \<Rightarrow> concat (map (split_on CHR ''.'') (path_names p)))"
proof -
  have join: "split_on CHR ''.'' (join_with ''.'' ns) = concat (map (split_on CHR ''.'') ns)"
    if "ns \<noteq> []" for ns
    using that by (induction ns rule: list_nonempty_induct) (simp_all add: join_with_Cons split_on_append)
  show ?thesis
    by (simp add: shifted_path_def path_names_dotted join split: root.split)
qed

end
