(* ===== verification/Pg_Containment.thy ===== *)
theory Pg_Containment
  imports Ast Values
begin

section \<open>Names, types and the schema of the PostgreSQL compiler\<close>

text \<open>
  \<open>crates/specification/src/infrastructure/pg/\<close>: \<open>identifier.rs\<close>, \<open>singular.rs\<close>, \<open>precedence.rs\<close>,
  \<open>param_type.rs\<close>, \<open>layout.rs\<close>, \<open>schema.rs\<close>, and the errors of \<open>mod.rs\<close>. A text is the list of its
  bytes; a byte of a character beyond ASCII is no letter, so the tests of a name by its characters
  are tests of its bytes. The trait \<open>ParamType\<close> is a record of its two methods.
\<close>

datatype compile_error =
    PNoCurrentItem
  | NoTable
  | AmbiguousKey string
  | WrongKey string
  | InvalidIdentifier string
  | NulInText
  | UndeclaredMember string
  | ItemNotAValue string

fun show_compile_error :: "compile_error \<Rightarrow> string" where
  "show_compile_error PNoCurrentItem = ''no current item in context''"
| "show_compile_error NoTable =
     ''a member of the candidate inside a collection's predicate needs the '' @
     ''candidate's table: compile with a schema''"
| "show_compile_error (AmbiguousKey message) = message"
| "show_compile_error (WrongKey message) = message"
| "show_compile_error (UndeclaredMember message) = message"
| "show_compile_error (ItemNotAValue message) = message"
| "show_compile_error NulInText =
     ''a text with a NUL (U+0000) in it is no text PostgreSQL has''"
| "show_compile_error (InvalidIdentifier name) =
     CHR 0x27 # name @ [CHR 0x27] @ '' is not a valid identifier''"

subsection \<open>Names\<close>

definition is_name_start :: "char \<Rightarrow> bool" where
  "is_name_start c \<longleftrightarrow> is_ascii_alphabetic c \<or> c = CHR ''_''"

definition is_name_char :: "char \<Rightarrow> bool" where
  "is_name_char c \<longleftrightarrow> is_ascii_alphanumeric c \<or> c = CHR ''_''"

definition is_plain :: "string \<Rightarrow> bool" where
  "is_plain name \<longleftrightarrow>
     (case name of [] \<Rightarrow> False | first # rest \<Rightarrow> is_name_start first \<and> list_all is_name_char rest)"

definition plain :: "string \<Rightarrow> (compile_error, string) result" where
  "plain name = (if is_plain name then Inr name else Inl (InvalidIdentifier name))"

definition quoted :: "string \<Rightarrow> string" where
  "quoted name =
     [CHR 0x22] @ concat (map (\<lambda>c. if c = CHR 0x22 then [CHR 0x22, CHR 0x22] else [c]) name)
       @ [CHR 0x22]"

definition pg_identifier :: "string \<Rightarrow> (compile_error, string) result" where
  "pg_identifier name = map_ok quoted (plain name)"

definition pg_qualified :: "string \<Rightarrow> (compile_error, string) result" where
  "pg_qualified name =
     map_ok (join_with ''.'') (collect_results (map pg_identifier (split_on CHR ''.'' name)))"

text \<open>\<open>key\<close> of \<open>mod.rs\<close>: a name as a literal.\<close>

definition doc_key :: "string \<Rightarrow> (compile_error, string) result" where
  "doc_key name = map_ok (\<lambda>n. [CHR 0x27] @ n @ [CHR 0x27]) (plain name)"

subsection \<open>The singular of a name\<close>

definition UNCHANGED :: "string list" where
  "UNCHANGED = [''series'', ''species'', ''news'', ''data'', ''equipment'', ''information'',
     ''money'', ''sheep'']"

definition IRREGULAR :: "(string \<times> string) list" where
  "IRREGULAR = [(''people'', ''person''), (''children'', ''child''), (''men'', ''man''),
     (''women'', ''woman''), (''mice'', ''mouse''), (''feet'', ''foot'')]"

definition strip_stem :: "string \<Rightarrow> string \<Rightarrow> string option" where
  "strip_stem suf word =
     (case strip_suffix suf word of
        None \<Rightarrow> None
      | Some stem \<Rightarrow> if stem = [] then None else Some stem)"

definition singular :: "string \<Rightarrow> string" where
  "singular word =
     (if word \<in> set UNCHANGED then word
      else case map_of IRREGULAR word of
        Some one \<Rightarrow> one
      | None \<Rightarrow>
          (case strip_stem ''ies'' word of
             Some stem \<Rightarrow> stem @ ''y''
           | None \<Rightarrow>
               if list_ex (\<lambda>suf. strip_stem suf word \<noteq> None)
                    [''sses'', ''shes'', ''ches'', ''xes'', ''zes'', ''uses'']
               then (case strip_stem ''es'' word of Some stem \<Rightarrow> stem | None \<Rightarrow> word)
               else (case strip_stem ''s'' word of
                   Some stem \<Rightarrow>
                     if list_ex (\<lambda>e. strip_suffix e stem \<noteq> None) [''s'', ''u'', ''i''] then word
                     else stem
                 | None \<Rightarrow> word)))"

definition singular_of :: "string \<Rightarrow> (compile_error, string) result" where
  "singular_of table =
     map_ok (\<lambda>name. singular (map ascii_lower name)) (plain (last (split_on CHR ''.'' table)))"

subsection \<open>Precedence\<close>

datatype associativity = AssocLeft | AssocRight | AssocNon

definition ATOM :: nat where "ATOM = 255"
definition CAST :: nat where "CAST = 160"
definition OTHER :: nat where "OTHER = 100"

fun prefix_precedence :: "prefix_op \<Rightarrow> nat" where
  "prefix_precedence PNeg = 140"
| "prefix_precedence PNot = 60"

fun infix_precedence :: "infix_op \<Rightarrow> nat \<times> associativity" where
  "infix_precedence (IArithmetic AMul) = (120, AssocLeft)"
| "infix_precedence (IArithmetic ADiv) = (120, AssocLeft)"
| "infix_precedence (IArithmetic AMod) = (120, AssocLeft)"
| "infix_precedence (IArithmetic AAdd) = (110, AssocLeft)"
| "infix_precedence (IArithmetic ASub) = (110, AssocLeft)"
| "infix_precedence (IArithmetic AShl) = (OTHER, AssocLeft)"
| "infix_precedence (IArithmetic AShr) = (OTHER, AssocLeft)"
| "infix_precedence (IComparison _) = (80, AssocNon)"
| "infix_precedence IIs = (70, AssocNon)"
| "infix_precedence (ILogical LAnd) = (50, AssocLeft)"
| "infix_precedence (ILogical LOr) = (40, AssocLeft)"

definition postfix_precedence :: "postfix_op \<Rightarrow> nat" where
  "postfix_precedence op = 70"

fun regroups :: "infix_op \<Rightarrow> bool" where
  "regroups (ILogical _) = True"
| "regroups _ = False"

subsection \<open>The types of the parameters\<close>

record 'v param_type =
  pt_type :: "'v \<Rightarrow> string option"
  pt_nul_in_text :: "'v \<Rightarrow> bool"

definition nul_in_text_default :: "'v \<Rightarrow> bool" where
  "nul_in_text_default v = False"

fun value_nul_in_text :: "val \<Rightarrow> bool" where
  "value_nul_in_text (VText s) = (CHR 0x00 \<in> set s)"
| "value_nul_in_text _ = False"

fun value_param_type :: "val \<Rightarrow> string option" where
  "value_param_type VNull = None"
| "value_param_type (VBool _) = Some ''boolean''"
| "value_param_type (VInt _) = Some ''bigint''"
| "value_param_type (VFloat _) = Some ''double precision''"
| "value_param_type (VText _) = Some ''text''"
| "value_param_type (VTimestamp _) = Some ''timestamptz''"
| "value_param_type (VDate _) = Some ''date''"
| "value_param_type (VInterval _) = Some ''interval''"
| "value_param_type (VUuid _) = Some ''uuid''"

definition value_params :: "val param_type" where
  "value_params = \<lparr>pt_type = value_param_type, pt_nul_in_text = value_nul_in_text\<rparr>"

definition option_or :: "'a option \<Rightarrow> 'a option \<Rightarrow> 'a option" where
  "option_or x y = (case x of None \<Rightarrow> y | Some a \<Rightarrow> Some a)"

definition under_prefix :: "'v param_type \<Rightarrow> prefix_op \<Rightarrow> 'v expr \<Rightarrow> string option" where
  "under_prefix pt op operand =
     (case operand of
        EValue v \<Rightarrow>
          option_or (pt_type pt v) (case op of PNeg \<Rightarrow> Some ''bigint'' | PNot \<Rightarrow> None)
      | _ \<Rightarrow> None)"

fun is_shift :: "infix_op \<Rightarrow> bool" where
  "is_shift (IArithmetic AShl) = True"
| "is_shift (IArithmetic AShr) = True"
| "is_shift _ = False"

definition is_a_count_to_cast :: "infix_op \<Rightarrow> 'v expr \<Rightarrow> bool" where
  "is_a_count_to_cast op right \<longleftrightarrow> is_shift op \<and> (case right of EValue _ \<Rightarrow> False | _ \<Rightarrow> True)"

definition under_postfix :: "'v param_type \<Rightarrow> 'v expr \<Rightarrow> string option" where
  "under_postfix pt operand =
     (case operand of EValue v \<Rightarrow> option_or (pt_type pt v) (Some ''text'') | _ \<Rightarrow> None)"

definition of_both ::
  "'v param_type \<Rightarrow> 'v expr \<Rightarrow> infix_op \<Rightarrow> 'v expr \<Rightarrow> string option \<times> string option" where
  "of_both pt left op right =
     (case (left, right) of
        (EValue l, EValue r) \<Rightarrow>
          (let count = (\<lambda>said.
                 if said = Some ''bigint'' \<and> is_shift op then Some ''integer'' else said)
           in case (pt_type pt l, pt_type pt r, op) of
                (None, None, IArithmetic _) \<Rightarrow> (Some ''bigint'', count (Some ''bigint''))
              | (l, r, _) \<Rightarrow> (l, count r))
      | _ \<Rightarrow> (None, None))"

subsection \<open>The layout of a document\<close>

datatype doc_kind = DBool | DInt | DFloat | DText | DTimestamp | DDate | DUuid

fun kind_read :: "doc_kind \<Rightarrow> string \<Rightarrow> string" where
  "kind_read DText text = ''('' @ text @ '' COLLATE \"C\")''"
| "kind_read DBool text = text @ ''::boolean''"
| "kind_read DInt text = text @ ''::bigint''"
| "kind_read DFloat text = text @ ''::double precision''"
| "kind_read DTimestamp text = text @ ''::timestamptz''"
| "kind_read DDate text = text @ ''::date''"
| "kind_read DUuid text = text @ ''::uuid''"

text \<open>A \<open>Layout\<close> is the list of its members, which hold layouts.\<close>

datatype member =
    MemValue doc_kind
  | MemObject "(string \<times> member) list"
  | MemCollection "(string \<times> member) list"
  | MemValues doc_kind

type_synonym layout = "(string \<times> member) list"

datatype items = IObjects layout | IValues doc_kind

fun member_items :: "member \<Rightarrow> items option" where
  "member_items (MemCollection layout) = Some (IObjects layout)"
| "member_items (MemValues kind) = Some (IValues kind)"
| "member_items (MemValue _) = None"
| "member_items (MemObject _) = None"

definition layout_new :: layout where "layout_new = []"

definition layout_with :: "layout \<Rightarrow> string \<Rightarrow> member \<Rightarrow> layout" where
  "layout_with layout name member = layout @ [(name, member)]"

definition layout_value :: "layout \<Rightarrow> string \<Rightarrow> doc_kind \<Rightarrow> layout" where
  "layout_value layout name kind = layout_with layout name (MemValue kind)"

definition layout_object :: "layout \<Rightarrow> string \<Rightarrow> layout \<Rightarrow> layout" where
  "layout_object layout name inner = layout_with layout name (MemObject inner)"

definition layout_collection :: "layout \<Rightarrow> string \<Rightarrow> layout \<Rightarrow> layout" where
  "layout_collection layout name inner = layout_with layout name (MemCollection inner)"

definition layout_values :: "layout \<Rightarrow> string \<Rightarrow> doc_kind \<Rightarrow> layout" where
  "layout_values layout name kind = layout_with layout name (MemValues kind)"

definition layout_member :: "layout \<Rightarrow> string \<Rightarrow> member option" where
  "layout_member layout name = map_of (rev layout) name"

subsection \<open>The schema\<close>

record foreign_key =
  fk_name :: "string option"
  fk_table :: string
  fk_columns :: "string list"
  fk_referenced_table :: string
  fk_referenced_columns :: "string list"

definition fk_new :: "string \<Rightarrow> string \<Rightarrow> string \<Rightarrow> string \<Rightarrow> foreign_key" where
  "fk_new table column referenced_table referenced_column = \<lparr>
     fk_name = None, fk_table = table, fk_columns = [column],
     fk_referenced_table = referenced_table, fk_referenced_columns = [referenced_column]\<rparr>"

definition fk_and :: "foreign_key \<Rightarrow> string \<Rightarrow> string \<Rightarrow> foreign_key" where
  "fk_and key column referenced_column =
     key\<lparr>fk_columns := fk_columns key @ [column],
         fk_referenced_columns := fk_referenced_columns key @ [referenced_column]\<rparr>"

definition fk_named :: "foreign_key \<Rightarrow> string \<Rightarrow> foreign_key" where
  "fk_named key name = key\<lparr>fk_name := Some name\<rparr>"

definition fk_key_name :: "foreign_key \<Rightarrow> string" where
  "fk_key_name key =
     (case fk_name key of
        Some name \<Rightarrow> name
      | None \<Rightarrow>
          last (split_on CHR ''.'' (fk_table key)) @ ''_'' @ join_with ''_'' (fk_columns key)
            @ ''_fkey'')"

record schema =
  sch_table :: string
  sch_alias :: "string option"
  sch_keys :: "foreign_key list"
  sch_composites :: "(string \<times> string) list"
  sch_documents :: "(string \<times> string \<times> layout) list"
  sch_gins :: "(string \<times> string \<times> string list) list"

definition schema_new :: "string \<Rightarrow> schema" where
  "schema_new table = \<lparr>
     sch_table = table, sch_alias = None, sch_keys = [], sch_composites = [], sch_documents = [],
     sch_gins = []\<rparr>"

definition schema_alias :: "schema \<Rightarrow> string \<Rightarrow> schema" where
  "schema_alias s alias = s\<lparr>sch_alias := Some alias\<rparr>"

definition schema_key :: "schema \<Rightarrow> foreign_key \<Rightarrow> schema" where
  "schema_key s key = s\<lparr>sch_keys := sch_keys s @ [key]\<rparr>"

definition schema_foreign_key ::
  "schema \<Rightarrow> string \<Rightarrow> string \<Rightarrow> string \<Rightarrow> string \<Rightarrow> schema" where
  "schema_foreign_key s table column referenced_table referenced_column =
     schema_key s (fk_new table column referenced_table referenced_column)"

definition schema_composite :: "schema \<Rightarrow> string \<Rightarrow> string \<Rightarrow> schema" where
  "schema_composite s table column = s\<lparr>sch_composites := sch_composites s @ [(table, column)]\<rparr>"

definition schema_document :: "schema \<Rightarrow> string \<Rightarrow> string \<Rightarrow> layout \<Rightarrow> schema" where
  "schema_document s table column layout =
     s\<lparr>sch_documents := sch_documents s @ [(table, column, layout)]\<rparr>"

definition with_gin :: "schema \<Rightarrow> string \<Rightarrow> string \<Rightarrow> string list \<Rightarrow> schema" where
  "with_gin s table column names = s\<lparr>sch_gins := sch_gins s @ [(table, column, names)]\<rparr>"

definition schema_gin :: "schema \<Rightarrow> string \<Rightarrow> string \<Rightarrow> schema" where
  "schema_gin s table column = with_gin s table column []"

definition schema_gin_at :: "schema \<Rightarrow> string \<Rightarrow> string \<Rightarrow> string \<Rightarrow> schema" where
  "schema_gin_at s table column names = with_gin s table column (split_on CHR ''.'' names)"

definition schema_gins :: "schema \<Rightarrow> string \<Rightarrow> string \<Rightarrow> string list list" where
  "schema_gins s table column =
     map (\<lambda>(_, _, p). p) (filter (\<lambda>(t, c, _). t = table \<and> c = column) (sch_gins s))"

definition schema_layout :: "schema \<Rightarrow> string \<Rightarrow> string \<Rightarrow> layout option" where
  "schema_layout s table column =
     map_option (\<lambda>(_, _, l). l)
       (find (\<lambda>(t, c, _). t = table \<and> c = column) (rev (sch_documents s)))"

definition is_composite :: "schema \<Rightarrow> string \<Rightarrow> string \<Rightarrow> bool" where
  "is_composite s table column \<longleftrightarrow>
     list_ex (\<lambda>(t, c). t = table \<and> c = column) (sch_composites s)"

definition key_named :: "schema \<Rightarrow> string \<Rightarrow> foreign_key option" where
  "key_named s name = find (\<lambda>key. fk_key_name key = name) (sch_keys s)"

definition keys_referencing :: "schema \<Rightarrow> string \<Rightarrow> string \<Rightarrow> foreign_key list" where
  "keys_referencing s table referenced_table =
     filter (\<lambda>key. fk_table key = table \<and> fk_referenced_table key = referenced_table) (sch_keys s)"

definition keys_on :: "schema \<Rightarrow> string \<Rightarrow> string \<Rightarrow> foreign_key list" where
  "keys_on s table column =
     filter (\<lambda>key. fk_table key = table \<and> list_ex (\<lambda>c. c = column) (fk_columns key)) (sch_keys s)"

definition schema_row :: "schema \<Rightarrow> string" where
  "schema_row s = (case sch_alias s of Some a \<Rightarrow> a | None \<Rightarrow> sch_table s)"

lemma value_params_simps [simp]:
  "pt_type value_params = value_param_type" "pt_nul_in_text value_params = value_nul_in_text"
  by (simp_all add: value_params_def)


section \<open>Equalities as containment\<close>

text \<open>
  \<open>crates/specification/src/infrastructure/pg/containment.rs\<close>, and the counters of \<open>mod.rs\<close>. A
  \<open>Pattern\<close> is the list of its members. The source pushes the parameters of a pattern onto a
  vector; here each function returns the ones it pushed, in order, and its caller appends them.
\<close>

text \<open>How many parameters and aliases have been numbered so far: the source's \<open>Next\<close>.\<close>

record counts =
  nx_param :: nat
  nx_alias :: nat

datatype spelled = SText | SInt | SBool

fun spelled_of :: "doc_kind \<Rightarrow> spelled option" where
  "spelled_of DText = Some SText"
| "spelled_of DInt = Some SInt"
| "spelled_of DBool = Some SBool"
| "spelled_of _ = None"

datatype 'v contained =
    CConstant spelled 'v
  | CObject "(string \<times> 'v contained) list"
  | CArray "'v contained list"

type_synonym 'v pattern = "(string \<times> 'v contained) list"

subsection \<open>What contains two patterns\<close>

function (sequential) contained_and :: "'v contained \<Rightarrow> 'v contained \<Rightarrow> 'v contained"
  and pattern_and :: "'v pattern \<Rightarrow> 'v pattern \<Rightarrow> 'v pattern"
  and merge_member :: "string \<Rightarrow> 'v contained \<Rightarrow> 'v pattern \<Rightarrow> 'v pattern"
where
  "contained_and (CObject mine) (CObject yours) = CObject (pattern_and mine yours)"
| "contained_and (CArray mine) (CArray yours) = CArray (mine @ yours)"
| "contained_and mine _ = mine"
| "pattern_and members [] = members"
| "pattern_and members ((name, theirs) # rest) =
     pattern_and (merge_member name theirs members) rest"
| "merge_member name theirs [] = [(name, theirs)]"
| "merge_member name theirs ((n, ours) # members) =
     (if n = name then (n, contained_and ours theirs) # members
      else (n, ours) # merge_member name theirs members)"
  by pat_completeness auto
termination
  by (relation "measures [
       (\<lambda>x. case x of
          Inl (_, theirs) \<Rightarrow> size theirs
        | Inr (Inl (_, b)) \<Rightarrow> size_list (size_prod (\<lambda>_. 0) size) b
        | Inr (Inr (_, theirs, _)) \<Rightarrow> size theirs),
       (\<lambda>x. case x of
          Inl _ \<Rightarrow> 0
        | Inr (Inl (_, b)) \<Rightarrow> 0
        | Inr (Inr (_, _, members)) \<Rightarrow> Suc (length members))]")
    auto

subsection \<open>The pattern of an equality and of a predicate\<close>

definition pattern_of :: "string \<Rightarrow> 'v contained \<Rightarrow> 'v pattern" where
  "pattern_of name member = [(name, member)]"

text \<open>\<open>nested\<close>: the pattern at the end of the objects.\<close>

definition pattern_nested :: "string list \<Rightarrow> 'v pattern \<Rightarrow> 'v pattern" where
  "pattern_nested objects p =
     foldr (\<lambda>object inner. pattern_of object (CObject inner)) objects p"

text \<open>The loop through the objects of a layout, of \<open>equal\<close> and of \<open>of_collection\<close>.\<close>

fun layout_at :: "layout \<Rightarrow> string list \<Rightarrow> layout option" where
  "layout_at layout [] = Some layout"
| "layout_at layout (object # objects) =
     (case layout_member layout object of
        Some (MemObject inner) \<Rightarrow> layout_at inner objects
      | _ \<Rightarrow> None)"

definition pattern_equal ::
  "'v param_type \<Rightarrow> layout \<Rightarrow> string list \<Rightarrow> 'v \<Rightarrow> 'v pattern option" where
  "pattern_equal pt layout names v =
     (if names = [] then None
      else case layout_at layout (butlast names) of
        None \<Rightarrow> None
      | Some layout \<Rightarrow>
          (case layout_member layout (last names) of
             Some (MemValue kind) \<Rightarrow>
               (case spelled_of kind of
                  None \<Rightarrow> None
                | Some s \<Rightarrow>
                    if pt_type pt v = None then None
                    else Some (pattern_nested (butlast names)
                      (pattern_of (last names) (CConstant s v))))
           | _ \<Rightarrow> None))"

text \<open>\<open>of_array\<close>.\<close>

definition pattern_of_array :: "string list \<Rightarrow> 'v contained list \<Rightarrow> 'v pattern option" where
  "pattern_of_array names elements =
     (if names = [] then None
      else if elements = [] then None
      else Some (pattern_nested (butlast names) (pattern_of (last names) (CArray elements))))"

definition or_none :: "'v pattern option \<Rightarrow> 'v pattern" where
  "or_none p = (case p of None \<Rightarrow> [] | Some p \<Rightarrow> p)"

text \<open>The constants an item is equal to.\<close>

fun pattern_constants :: "'v param_type \<Rightarrow> 'v expr \<Rightarrow> spelled \<Rightarrow> 'v contained list" where
  "pattern_constants pt (EInfix l (ILogical LAnd) r) s =
     pattern_constants pt l s @ pattern_constants pt r s"
| "pattern_constants pt (EInfix (EItem n) (IComparison CEq) (EValue v)) s =
     (if n = 0 \<and> pt_type pt v \<noteq> None then [CConstant s v] else [])"
| "pattern_constants pt (EInfix (EValue v) (IComparison CEq) (EItem n)) s =
     (if n = 0 \<and> pt_type pt v \<noteq> None then [CConstant s v] else [])"
| "pattern_constants pt _ s = []"

definition array_elements ::
  "'v param_type \<Rightarrow> (layout \<Rightarrow> 'v pattern) \<Rightarrow> 'v expr \<Rightarrow> items \<Rightarrow> 'v contained list" where
  "array_elements pt of_item predicate items =
     (case items of
        IObjects layout \<Rightarrow> (let object = of_item layout in if object = [] then [] else [CObject object])
      | IValues kind \<Rightarrow>
          (case spelled_of kind of
             Some s \<Rightarrow> pattern_constants pt predicate s
           | None \<Rightarrow> []))"

definition collection_items :: "layout \<Rightarrow> string list \<Rightarrow> items option" where
  "collection_items layout names =
     (if names = [] then None
      else case layout_at layout (butlast names) of
        None \<Rightarrow> None
      | Some layout \<Rightarrow>
          (case layout_member layout (last names) of
             None \<Rightarrow> None
           | Some member \<Rightarrow> member_items member))"

definition equality_of :: "'v expr \<Rightarrow> 'v expr \<Rightarrow> (path \<times> 'v) option" where
  "equality_of left right =
     (case (left, right) of
        (EField p, EValue v) \<Rightarrow> Some (p, v)
      | (EValue v, EField p) \<Rightarrow> Some (p, v)
      | _ \<Rightarrow> None)"

fun of_item :: "'v param_type \<Rightarrow> 'v expr \<Rightarrow> layout \<Rightarrow> 'v pattern" where
  "of_item pt (EInfix l (ILogical LAnd) r) layout =
     pattern_and (of_item pt l layout) (of_item pt r layout)"
| "of_item pt (EInfix l (IComparison CEq) r) layout =
     (case equality_of l r of
        Some (p, v) \<Rightarrow>
          if path_root p = RItem 0 then or_none (pattern_equal pt layout (path_names p) v) else []
      | None \<Rightarrow> [])"
| "of_item pt (EAny source predicate) layout =
     (if path_root source = RItem 0
      then (case collection_items layout (path_names source) of
          None \<Rightarrow> []
        | Some items \<Rightarrow>
            or_none (pattern_of_array (path_names source)
              (array_elements pt (\<lambda>layout. of_item pt predicate layout) predicate items)))
      else [])"
| "of_item pt _ layout = []"

definition pattern_elements :: "'v param_type \<Rightarrow> 'v expr \<Rightarrow> items \<Rightarrow> 'v contained list" where
  "pattern_elements pt predicate items = array_elements pt (of_item pt predicate) predicate items"

subsection \<open>The text of a pattern\<close>

definition parameter ::
  "'v param_type \<Rightarrow> 'v \<Rightarrow> counts \<Rightarrow> (compile_error, string \<times> 'v list \<times> counts) result" where
  "parameter pt v nx =
     (if pt_nul_in_text pt v then Inl NulInText
      else (let param = nx_param nx + 1
            in Inr (show_nat param, [v], nx\<lparr>nx_param := param\<rparr>)))"

text \<open>The entries of an object joined, in parentheses where there are several.\<close>

definition joined :: "string list \<Rightarrow> string" where
  "joined entries =
     (let sql = join_with '' || '' entries
      in if 1 < length entries then ''('' @ sql @ '')'' else sql)"

text \<open>The empty array: \<open>'[]'::jsonb\<close>.\<close>

definition empty_array :: string where
  "empty_array = [CHR 0x27] @ ''[]'' @ [CHR 0x27] @ ''::jsonb''"

fun contained_json ::
    "'v param_type \<Rightarrow> 'v contained \<Rightarrow> counts
      \<Rightarrow> (compile_error, string \<times> 'v list \<times> counts) result"
  and object_entries ::
    "'v param_type \<Rightarrow> 'v pattern \<Rightarrow> counts
      \<Rightarrow> (compile_error, string list \<times> 'v list \<times> counts) result"
  and array_items ::
    "'v param_type \<Rightarrow> 'v contained list \<Rightarrow> counts
      \<Rightarrow> (compile_error, string list \<times> 'v list \<times> counts) result"
where
  "contained_json pt (CConstant s v) nx =
     and_then (parameter pt v nx) (\<lambda>(param, params, nx).
       Inr (
         (case s of
            SText \<Rightarrow> ''(jsonb_object(ARRAY['v'], ARRAY[$'' @ param @ ''::text]) -> 'v')''
          | SInt \<Rightarrow> ''$'' @ param @ ''::bigint::text::jsonb''
          | SBool \<Rightarrow> ''$'' @ param @ ''::boolean::text::jsonb''),
         params, nx))"
| "contained_json pt (CObject members) nx =
     and_then (object_entries pt members nx) (\<lambda>(entries, params, nx).
       Inr (joined entries, params, nx))"
| "contained_json pt (CArray items) nx =
     and_then (array_items pt items nx) (\<lambda>(written, params, nx).
       Inr (join_with '' || '' (empty_array # written), params, nx))"
| "object_entries pt [] nx = Inr ([], [], nx)"
| "object_entries pt ((name, CConstant SText v) # members) nx =
     and_then (doc_key name) (\<lambda>key.
     and_then (parameter pt v nx) (\<lambda>(param, params, nx).
     and_then (object_entries pt members nx) (\<lambda>(entries, more, nx).
       Inr ((''jsonb_object(ARRAY['' @ key @ ''], ARRAY[$'' @ param @ ''::text])'') # entries,
         params @ more, nx))))"
| "object_entries pt ((name, member) # members) nx =
     and_then (doc_key name) (\<lambda>key.
     and_then (contained_json pt member nx) (\<lambda>(value, params, nx).
     and_then (object_entries pt members nx) (\<lambda>(entries, more, nx).
       Inr ((''jsonb_set('{}'::jsonb, ARRAY['' @ key @ ''], '' @ value @ '')'') # entries,
         params @ more, nx))))"
| "array_items pt [] nx = Inr ([], [], nx)"
| "array_items pt (item # items) nx =
     and_then (contained_json pt item nx) (\<lambda>(value, params, nx).
     and_then (array_items pt items nx) (\<lambda>(written, more, nx).
       Inr (value # written, params @ more, nx)))"

definition pattern_object ::
  "'v param_type \<Rightarrow> 'v pattern \<Rightarrow> counts \<Rightarrow> (compile_error, string \<times> 'v list \<times> counts) result"
  where
  "pattern_object pt members nx =
     and_then (object_entries pt members nx) (\<lambda>(entries, params, nx).
       Inr (joined entries, params, nx))"

text \<open>\<open>at\<close>: the source takes the last member and asks that it be the only one.\<close>

fun pattern_at :: "'v pattern \<Rightarrow> string list \<Rightarrow> 'v contained option" where
  "pattern_at members [] = None"
| "pattern_at members (name # rest) =
     (case members of
        [(member, c)] \<Rightarrow>
          if member \<noteq> name then None
          else if rest = [] then Some c
          else (case c of
              CObject inner \<Rightarrow> pattern_at inner rest
            | _ \<Rightarrow> None)
      | _ \<Rightarrow> None)"

definition containing ::
  "'v param_type \<Rightarrow> 'v pattern \<Rightarrow> string \<Rightarrow> string list \<Rightarrow> counts
    \<Rightarrow> (compile_error, (string \<times> 'v list \<times> counts) option) result" where
  "containing pt members document at nx =
     (if at = [] then
        and_then (pattern_object pt members nx) (\<lambda>(json, params, nx).
          Inr (Some (document @ '' @> '' @ json, params, nx)))
      else case pattern_at members at of
        None \<Rightarrow> Inr None
      | Some c \<Rightarrow>
          and_then (contained_json pt c nx) (\<lambda>(json, params, nx).
          and_then (collect_results (map doc_key at)) (\<lambda>keys.
            Inr (Some (''('' @ document @ '' -> '' @ join_with '' -> '' keys @ '') @> ('' @ json @ '')'',
              params, nx)))))"

end
