(* ===== verification/Pg_Compile.thy ===== *)
theory Pg_Compile
  imports Pg_Containment
begin

section \<open>The PostgreSQL compiler\<close>

text \<open>
  \<open>crates/specification/src/infrastructure/pg/mod.rs\<close>: a specification as the condition of a query.
  \<open>Next\<close> is the record \<open>counts\<close>. The item under test, which the source borrows together with the
  items outside it, is the first of the list of them. A \<open>Fragment\<close> is a record. A function of the
  source that compiles a part of the tree in its middle is two definitions here, what it does
  before and what it does after, put together in \<open>render\<close> in the order of the source.
\<close>

datatype stand = Truth | OfValue

datatype reading_of = ReadValue | ReadNullTest

datatype holds = HTable | HUnnested | HDocument items

record query_item =
  it_alias :: string
  it_row :: string
  it_holds :: holds

record 'v fragment =
  fr_sql :: string
  fr_params :: "'v list"
  fr_prec :: nat

record 'v pg_query =
  q_sql :: string
  q_params :: "'v list"

record compiler =
  cmp_schema :: "schema option"
  cmp_offset :: nat

definition compiler_new :: compiler where
  "compiler_new = \<lparr>cmp_schema = None, cmp_offset = 0\<rparr>"

definition compiler_schema :: "compiler \<Rightarrow> schema \<Rightarrow> compiler" where
  "compiler_schema c s = c\<lparr>cmp_schema := Some s\<rparr>"

definition compiler_offset :: "compiler \<Rightarrow> nat \<Rightarrow> compiler" where
  "compiler_offset c n = c\<lparr>cmp_offset := n\<rparr>"

subsection \<open>Fragments\<close>

definition frag_text :: "string \<Rightarrow> 'v fragment" where
  "frag_text sql = \<lparr>fr_sql = sql, fr_params = [], fr_prec = ATOM\<rparr>"

definition within :: "'v fragment \<Rightarrow> nat \<Rightarrow> bool \<Rightarrow> 'v fragment" where
  "within f precedence apart =
     (if fr_prec f < precedence \<or> (fr_prec f = precedence \<and> apart)
      then f\<lparr>fr_sql := ''('' @ fr_sql f @ '')'', fr_prec := ATOM\<rparr> else f)"

definition of_type :: "'v fragment \<Rightarrow> string option \<Rightarrow> 'v fragment" where
  "of_type f param_type =
     (case param_type of
        Some t \<Rightarrow> f\<lparr>fr_sql := fr_sql f @ ''::'' @ t\<rparr>
      | None \<Rightarrow> f)"

definition frag_with :: "'v fragment \<Rightarrow> string \<Rightarrow> nat \<Rightarrow> 'v fragment" where
  "frag_with f sql precedence = f\<lparr>fr_sql := sql, fr_prec := precedence\<rparr>"

definition frag_and :: "'v fragment \<Rightarrow> 'v list \<Rightarrow> 'v fragment" where
  "frag_and f params = f\<lparr>fr_params := fr_params f @ params\<rparr>"

fun spelling :: "infix_op \<Rightarrow> string" where
  "spelling IIs = ''IS NOT DISTINCT FROM''"
| "spelling op = show_infix op"

subsection \<open>Items\<close>

definition item_out :: "query_item list \<Rightarrow> nat \<Rightarrow> (compile_error, query_item) result" where
  "item_out items up =
     (case drop up items of [] \<Rightarrow> Inl PNoCurrentItem | item # _ \<Rightarrow> Inr item)"

definition no_members :: "string \<Rightarrow> string list \<Rightarrow> compile_error" where
  "no_members row names =
     UndeclaredMember (row @ ''.'' @ join_with ''.'' names @ '': the items of '' @ row
       @ '' are values, which have no members'')"

definition pg_itself ::
  "nat \<Rightarrow> query_item list \<Rightarrow> counts \<Rightarrow> (compile_error, 'v fragment \<times> counts) result" where
  "pg_itself up items nx =
     and_then (item_out items up) (\<lambda>item.
     and_then (case it_holds item of
         HUnnested \<Rightarrow> Inr (quoted (it_alias item))
       | HDocument (IValues kind) \<Rightarrow> Inr (kind_read kind (quoted (it_alias item)))
       | HTable \<Rightarrow>
           Inl (ItemNotAValue (''an item of '' @ it_row item @ '' is a row of a table: name its column''))
       | HDocument (IObjects _) \<Rightarrow>
           Inl (ItemNotAValue (''an item of '' @ it_row item
             @ '' is an object of a document: name its member''))) (\<lambda>sql.
     Inr (frag_text sql, nx)))"

definition pg_constant ::
  "'v param_type \<Rightarrow> 'v \<Rightarrow> counts \<Rightarrow> (compile_error, 'v fragment \<times> counts) result" where
  "pg_constant pt v nx =
     (if pt_nul_in_text pt v then Inl NulInText
      else (let param = nx_param nx + 1
            in Inr (\<lparr>fr_sql = ''$'' @ show_nat param, fr_params = [v], fr_prec = ATOM\<rparr>,
                    nx\<lparr>nx_param := param\<rparr>)))"

subsection \<open>Documents\<close>

text \<open>The loop of \<open>in_document\<close>: through the objects, with the text and the message so far.\<close>

fun through_objects ::
  "string \<Rightarrow> string \<Rightarrow> layout \<Rightarrow> string list \<Rightarrow> (compile_error, string \<times> string \<times> layout) result"
  where
  "through_objects object at layout [] = Inr (object, at, layout)"
| "through_objects object at layout (step # steps) =
     (let at = at @ ''.'' @ step
      in case layout_member layout step of
           Some (MemObject inner) \<Rightarrow>
             and_then (doc_key step) (\<lambda>k.
               through_objects (object @ '' -> '' @ k) at inner steps)
         | _ \<Rightarrow> Inl (UndeclaredMember (at @ '' is not an object of its document's layout'')))"

definition in_document ::
  "string \<Rightarrow> string \<Rightarrow> layout \<Rightarrow> string list
    \<Rightarrow> (compile_error, string \<times> string \<times> member) result" where
  "in_document document of' layout names =
     (if names = [] then
        Inl (UndeclaredMember (of' @ '': a path into a document names a member''))
      else and_then (through_objects document of' layout (butlast names)) (\<lambda>(object, at, layout).
        and_then (ok_or (UndeclaredMember (at @ ''.'' @ last names
            @ '' is not a member of its document's layout'')) (layout_member layout (last names)))
          (\<lambda>member. Inr (object, last names, member))))"

definition document_member ::
  "string \<Rightarrow> string \<Rightarrow> layout \<Rightarrow> string list \<Rightarrow> reading_of \<Rightarrow> (compile_error, string) result" where
  "document_member document of' layout names reading =
     and_then (in_document document of' layout names) (\<lambda>(object, name, member).
     and_then (doc_key name) (\<lambda>k.
       let text = ''('' @ object @ '' ->> '' @ k @ '')''
       in case (member, reading) of
            (MemValue kind, _) \<Rightarrow> Inr (kind_read kind text)
          | (_, ReadNullTest) \<Rightarrow> Inr text
          | (_, ReadValue) \<Rightarrow>
              Inl (UndeclaredMember (of' @ ''.'' @ join_with ''.'' names
                @ '' is an object or a collection of its document, not a value''))))"

definition if_array :: "string \<Rightarrow> string" where
  "if_array array =
     ''CASE WHEN jsonb_typeof('' @ array @ '') = 'array' THEN '' @ array @ '' END''"

subsection \<open>Keys\<close>

definition key_of_collection ::
  "compiler \<Rightarrow> string \<Rightarrow> string \<Rightarrow> (compile_error, foreign_key option) result" where
  "key_of_collection c row name =
     (case cmp_schema c of
        None \<Rightarrow> Inr None
      | Some s \<Rightarrow>
          (case key_named s name of
             Some key \<Rightarrow>
               if fk_referenced_table key \<noteq> row
               then Inl (WrongKey (''the key '' @ name @ '' references '' @ fk_referenced_table key
                 @ '', not '' @ row))
               else Inr (Some key)
           | None \<Rightarrow>
               (case keys_referencing s name row of
                  [] \<Rightarrow> Inr None
                | [key] \<Rightarrow> Inr (Some key)
                | keys \<Rightarrow>
                    Inl (AmbiguousKey (name @ '' has '' @ show_nat (length keys) @ '' keys to '' @ row
                      @ '': '' @ join_with '', '' (map fk_key_name keys) @ ''; name the key'')))))"

definition key_of_object ::
  "compiler \<Rightarrow> string \<Rightarrow> string \<Rightarrow> (compile_error, foreign_key option) result" where
  "key_of_object c row name =
     (case cmp_schema c of
        None \<Rightarrow> Inr None
      | Some s \<Rightarrow>
          (case key_named s name of
             Some key \<Rightarrow>
               if fk_table key \<noteq> row
               then Inl (WrongKey (''the key '' @ name @ '' is on '' @ fk_table key @ '', not '' @ row))
               else Inr (Some key)
           | None \<Rightarrow>
               (case keys_on s row name of
                  [] \<Rightarrow> Inr None
                | [key] \<Rightarrow> Inr (Some key)
                | keys \<Rightarrow>
                    Inl (AmbiguousKey (name @ '' is a column of '' @ show_nat (length keys)
                      @ '' keys of '' @ row @ '': '' @ join_with '', '' (map fk_key_name keys)
                      @ ''; name the key'')))))"

text \<open>The equalities of a key's columns, \<open>left.c = right.r\<close>, in pairs.\<close>

definition joined_keys ::
  "string \<Rightarrow> string list \<Rightarrow> string \<Rightarrow> string list \<Rightarrow> (compile_error, string) result" where
  "joined_keys left lefts right rights =
     map_ok (join_with '' AND '') (collect_results (map (\<lambda>(l, r).
       and_then (pg_identifier l) (\<lambda>l. and_then (pg_identifier r) (\<lambda>r.
         Inr (left @ ''.'' @ l @ '' = '' @ right @ ''.'' @ r)))) (zip lefts rights)))"

subsection \<open>Members\<close>

fun member_of_row ::
  "compiler \<Rightarrow> string \<Rightarrow> string \<Rightarrow> string list \<Rightarrow> counts \<Rightarrow> reading_of
    \<Rightarrow> (compile_error, string \<times> counts) result" where
  "member_of_row c row of' [] nx reading = Inr (row, nx)"
| "member_of_row c row of' [name] nx reading =
     and_then (pg_identifier name) (\<lambda>n. Inr (row @ ''.'' @ n, nx))"
| "member_of_row c row of' (object # rest) nx reading =
     (case (case cmp_schema c of None \<Rightarrow> None | Some s \<Rightarrow> schema_layout s of' object) of
        Some layout \<Rightarrow>
          and_then (pg_identifier object) (\<lambda>o'.
          and_then (document_member (row @ ''.'' @ o') (of' @ ''.'' @ object) layout rest reading)
            (\<lambda>member. Inr (member, nx)))
      | None \<Rightarrow>
          and_then (key_of_object c of' object) (\<lambda>key.
            case key of
              None \<Rightarrow>
                and_then (pg_identifier object) (\<lambda>o'.
                  member_of_row c (''('' @ row @ ''.'' @ o' @ '')'') (of' @ ''.'' @ object) rest nx reading)
            | Some key \<Rightarrow>
                (let number = nx_alias nx + 1
                 in and_then (singular_of (fk_referenced_table key)) (\<lambda>one.
                    let alias = quoted (one @ ''_'' @ show_nat number)
                    in and_then (joined_keys alias (fk_referenced_columns key) row (fk_columns key)) (\<lambda>keys.
                       and_then (member_of_row c alias (fk_referenced_table key) rest
                           (nx\<lparr>nx_alias := number\<rparr>) reading) (\<lambda>(member, nx).
                       and_then (pg_qualified (fk_referenced_table key)) (\<lambda>table.
                         Inr (''(SELECT '' @ member @ '' FROM '' @ table @ '' AS '' @ alias
                             @ '' WHERE '' @ keys @ '')'', nx))))))))"

definition pg_column :: "compiler \<Rightarrow> path \<Rightarrow> query_item list \<Rightarrow> (compile_error, string) result" where
  "pg_column c p items =
     and_then (collect_results (map pg_identifier (path_names p))) (\<lambda>names.
       case path_root p of
         RGlobal \<Rightarrow>
           if length names = 1 \<and> items \<noteq> []
           then and_then (ok_or NoTable (cmp_schema c)) (\<lambda>s.
             and_then (pg_qualified (schema_row s)) (\<lambda>row. Inr (row @ ''.'' @ hd names)))
           else Inr (join_with ''.'' names)
       | RItem up \<Rightarrow>
           and_then (item_out items up) (\<lambda>item.
             let alias = quoted (it_alias item)
             in Inr (case names of
                 column # m # members \<Rightarrow>
                   ''('' @ alias @ ''.'' @ column @ '').'' @ join_with ''.'' (m # members)
               | _ \<Rightarrow> alias @ ''.'' @ join_with ''.'' names)))"

definition pg_member ::
  "compiler \<Rightarrow> path \<Rightarrow> query_item list \<Rightarrow> counts \<Rightarrow> reading_of
    \<Rightarrow> (compile_error, string \<times> counts) result" where
  "pg_member c p items nx reading =
     (let names = path_names p
      in case path_root p of
           RItem up \<Rightarrow>
             and_then (item_out items up) (\<lambda>item.
               case it_holds item of
                 HDocument (IObjects layout) \<Rightarrow>
                   and_then (document_member (quoted (it_alias item)) (it_row item) layout names reading)
                     (\<lambda>member. Inr (member, nx))
               | HDocument (IValues _) \<Rightarrow> Inl (no_members (it_row item) names)
               | _ \<Rightarrow> member_of_row c (quoted (it_alias item)) (it_row item) names nx reading)
         | RGlobal \<Rightarrow>
             (let column = and_then (pg_column c p items) (\<lambda>column. Inr (column, nx))
              in case (names, cmp_schema c) of
                   (object # _, Some s) \<Rightarrow>
                     if length names > 1
                     then and_then (key_of_object c (sch_table s) object) (\<lambda>key.
                       if key \<noteq> None \<or> is_composite s (sch_table s) object
                          \<or> schema_layout s (sch_table s) object \<noteq> None
                       then and_then (pg_qualified (schema_row s)) (\<lambda>row.
                         member_of_row c row (sch_table s) names nx reading)
                       else column)
                     else column
                 | _ \<Rightarrow> column))"

subsection \<open>Null tests\<close>

definition is_composite_column ::
  "compiler \<Rightarrow> 'v expr \<Rightarrow> query_item list \<Rightarrow> (compile_error, bool) result" where
  "is_composite_column c operand items =
     (case (operand, cmp_schema c) of
        (EField p, Some s) \<Rightarrow>
          (let names = path_names p; owners = butlast names
           in and_then (case path_root p of
                  RItem up \<Rightarrow>
                    and_then (item_out items up) (\<lambda>item.
                      case it_holds item of HDocument _ \<Rightarrow> Inr None | _ \<Rightarrow> Inr (Some (it_row item)))
                | RGlobal \<Rightarrow> Inr (Some (sch_table s))) (\<lambda>of'.
                case of' of
                  None \<Rightarrow> Inr False
                | Some of' \<Rightarrow>
                    Inr (is_composite s (join_with ''.'' (of' # owners)) (last names))))
      | _ \<Rightarrow> Inr False)"

definition null_test ::
  "compiler \<Rightarrow> postfix_op \<Rightarrow> 'v expr \<Rightarrow> query_item list \<Rightarrow> (compile_error, string) result" where
  "null_test c op operand items =
     and_then (is_composite_column c operand items) (\<lambda>composite.
       Inr (if \<not> composite then show_postfix op
            else case op of
              IsNull \<Rightarrow> ''IS NOT DISTINCT FROM NULL''
            | IsNotNull \<Rightarrow> ''IS DISTINCT FROM NULL''))"

subsection \<open>Operators\<close>

definition prefix_fragment :: "prefix_op \<Rightarrow> string option \<Rightarrow> 'v fragment \<Rightarrow> 'v fragment" where
  "prefix_fragment op alone operand =
     (let precedence = prefix_precedence op;
          operand = of_type operand alone;
          doubled = (op = PNeg \<and> fr_prec operand = precedence);
          operand = within operand precedence doubled;
          sql = (case op of PNot \<Rightarrow> ''NOT '' @ fr_sql operand | PNeg \<Rightarrow> ''-'' @ fr_sql operand)
      in frag_with operand sql precedence)"

definition postfix_fragment ::
  "postfix_op \<Rightarrow> string option \<Rightarrow> string \<Rightarrow> 'v fragment \<Rightarrow> 'v fragment" where
  "postfix_fragment op alone test operand =
     (let precedence = postfix_precedence op;
          operand = within (of_type operand alone) precedence True
      in frag_with operand (fr_sql operand @ '' '' @ test) precedence)"

definition infix_fragment ::
  "'v param_type \<Rightarrow> 'v expr \<Rightarrow> infix_op \<Rightarrow> 'v expr \<Rightarrow> 'v fragment \<Rightarrow> 'v fragment \<Rightarrow> 'v fragment"
  where
  "infix_fragment pt le op re left right =
     (let (precedence, associativity) = infix_precedence op;
          apart = (\<lambda>side. associativity \<noteq> side \<and> \<not> regroups op);
          (of_left, of_right) = of_both pt le op re;
          left = of_type left of_left;
          right = (if is_a_count_to_cast op re
                   then of_type (within right CAST False) (Some ''integer'')
                   else of_type right of_right);
          left = within left precedence (apart AssocLeft);
          right = within right precedence (apart AssocRight);
          sql = fr_sql left @ '' '' @ spelling op @ '' '' @ fr_sql right
      in frag_and (frag_with left sql precedence) (fr_params right))"

subsection \<open>Collections and containment\<close>

record entered =
  en_document :: string
  en_of :: string
  en_layout :: layout
  en_names :: "string list"
  en_gins :: "string list list"

record gin =
  gin_document :: string
  gin_at :: "string list"
  gin_names :: "string list"

record doc_collection =
  dc_array :: string
  dc_row :: string
  dc_items :: items
  dc_gin :: "gin option"

text \<open>\<open>max_by_key\<close> gives the last of the longest.\<close>

definition gin_serving :: "string list list \<Rightarrow> string \<Rightarrow> string list \<Rightarrow> gin option" where
  "gin_serving gins document names =
     map_option (\<lambda>at. \<lparr>gin_document = document, gin_at = at, gin_names = names\<rparr>)
       (foldl (\<lambda>best at.
          case best of
            None \<Rightarrow> Some at
          | Some b \<Rightarrow> if length b \<le> length at then Some at else Some b)
        None (filter (\<lambda>at. strip_prefix at names \<noteq> None) gins))"

definition document_at ::
  "compiler \<Rightarrow> string \<Rightarrow> string \<Rightarrow> string list \<Rightarrow> (compile_error, entered option) result" where
  "document_at c of' row names =
     (case (cmp_schema c, names) of
        (Some s, column # rest) \<Rightarrow>
          (case schema_layout s of' column of
             Some layout \<Rightarrow>
               if rest \<noteq> []
               then and_then (pg_identifier column) (\<lambda>col. Inr (Some \<lparr>
                 en_document = row @ ''.'' @ col, en_of = of' @ ''.'' @ column, en_layout = layout,
                 en_names = rest, en_gins = schema_gins s of' column\<rparr>))
               else Inr None
           | None \<Rightarrow> Inr None)
      | _ \<Rightarrow> Inr None)"

definition document_collection ::
  "compiler \<Rightarrow> path \<Rightarrow> query_item option \<Rightarrow> (compile_error, doc_collection option) result" where
  "document_collection c source enclosing =
     (let names = path_names source
      in and_then (case enclosing of
             Some item \<Rightarrow>
               (case it_holds item of
                  HDocument (IObjects layout) \<Rightarrow> Inr (Some \<lparr>
                    en_document = quoted (it_alias item), en_of = it_row item, en_layout = layout,
                    en_names = names, en_gins = []\<rparr>)
                | HDocument (IValues _) \<Rightarrow> Inl (no_members (it_row item) names)
                | _ \<Rightarrow> document_at c (it_row item) (quoted (it_alias item)) names)
           | None \<Rightarrow>
               (case cmp_schema c of
                  Some s \<Rightarrow> and_then (pg_qualified (schema_row s)) (\<lambda>row.
                    document_at c (sch_table s) row names)
                | None \<Rightarrow> Inr None)) (\<lambda>entered.
           case entered of
             None \<Rightarrow> Inr None
           | Some en \<Rightarrow>
               (let gin = gin_serving (en_gins en) (en_document en) (en_names en)
                in and_then (in_document (en_document en) (en_of en) (en_layout en) (en_names en))
                  (\<lambda>(object, name, member).
                     let at = en_of en @ ''.'' @ join_with ''.'' (en_names en)
                     in case member_items member of
                          Some items \<Rightarrow>
                            and_then (doc_key name) (\<lambda>k. Inr (Some \<lparr>
                              dc_array = object @ '' -> '' @ k, dc_row = at, dc_items = items,
                              dc_gin = gin\<rparr>))
                        | None \<Rightarrow>
                            Inl (UndeclaredMember (at @ '' is not a collection of its document's layout''))))))"

definition contained_equality ::
  "compiler \<Rightarrow> 'v param_type \<Rightarrow> 'v expr \<Rightarrow> 'v expr \<Rightarrow> query_item list
    \<Rightarrow> (compile_error, (gin \<times> 'v pattern) option) result" where
  "contained_equality c pt left right items =
     (case equality_of left right of
        None \<Rightarrow> Inr None
      | Some (p, v) \<Rightarrow>
          and_then (case (path_root p, cmp_schema c) of
              (RGlobal, Some s) \<Rightarrow>
                and_then (pg_qualified (schema_row s)) (\<lambda>row.
                  document_at c (sch_table s) row (path_names p))
            | (RGlobal, None) \<Rightarrow> Inr None
            | (RItem up, _) \<Rightarrow>
                and_then (item_out items up) (\<lambda>item.
                  case it_holds item of
                    HDocument _ \<Rightarrow> Inr None
                  | _ \<Rightarrow> document_at c (it_row item) (quoted (it_alias item)) (path_names p)))
            (\<lambda>entered.
              Inr (case entered of
                  None \<Rightarrow> None
                | Some en \<Rightarrow>
                    (case gin_serving (en_gins en) (en_document en) (en_names en) of
                       None \<Rightarrow> None
                     | Some gin \<Rightarrow>
                         map_option (\<lambda>pattern. (gin, pattern))
                           (pattern_equal pt (en_layout en) (en_names en) v)))))"

definition containment ::
  "compiler \<Rightarrow> 'v param_type \<Rightarrow> 'v expr \<Rightarrow> 'v expr \<Rightarrow> query_item list \<Rightarrow> counts
    \<Rightarrow> (compile_error, ('v fragment \<times> counts) option) result" where
  "containment c pt left right items nx =
     and_then (contained_equality c pt left right items) (\<lambda>found.
       case found of
         None \<Rightarrow> Inr None
       | Some (gin, pattern) \<Rightarrow>
           and_then (containing pt pattern (gin_document gin) (gin_at gin) nx) (\<lambda>written.
             Inr (map_option (\<lambda>(sql, params, nx).
               (\<lparr>fr_sql = sql, fr_params = params, fr_prec = OTHER\<rparr>, nx)) written)))"

text \<open>What \<open>infix\<close> tries first.\<close>

definition containment_first ::
  "compiler \<Rightarrow> 'v param_type \<Rightarrow> 'v expr \<Rightarrow> infix_op \<Rightarrow> 'v expr \<Rightarrow> query_item list \<Rightarrow> counts \<Rightarrow> stand
    \<Rightarrow> (compile_error, ('v fragment \<times> counts) option) result" where
  "containment_first c pt left op right items nx stand =
     (if stand = Truth \<and> op = IComparison CEq then containment c pt left right items nx
      else Inr None)"

definition and_precedence :: nat where
  "and_precedence = fst (infix_precedence (ILogical LAnd))"

text \<open>\<open>exists_in_document\<close> up to its predicate, and after it.\<close>

definition document_opened ::
  "'v param_type \<Rightarrow> doc_collection \<Rightarrow> path \<Rightarrow> 'v expr \<Rightarrow> counts \<Rightarrow> stand
    \<Rightarrow> (compile_error, (string \<times> 'v list) option \<times> query_item \<times> counts) result" where
  "document_opened pt collection source predicate nx stand =
     (let pattern =
        (case (stand, dc_gin collection) of
           (Truth, Some gin) \<Rightarrow>
             map_option (\<lambda>pattern. (gin, pattern))
               (pattern_of_array (gin_names gin) (pattern_elements pt predicate (dc_items collection)))
         | _ \<Rightarrow> None)
      in and_then (case pattern of
          Some (gin, pattern) \<Rightarrow>
            and_then (containing pt pattern (gin_document gin) (gin_at gin) nx) (\<lambda>written.
              Inr (case written of
                  Some (contains, params, nx) \<Rightarrow> (Some (contains, params), nx)
                | None \<Rightarrow> (None, nx)))
        | None \<Rightarrow> Inr (None, nx)) (\<lambda>(written, nx).
          let number = nx_alias nx + 1
          in and_then (singular_of (path_name source)) (\<lambda>one.
            Inr (written,
              \<lparr>it_alias = one @ ''_'' @ show_nat number, it_row = dc_row collection,
               it_holds = HDocument (dc_items collection)\<rparr>,
              nx\<lparr>nx_alias := number\<rparr>))))"

definition document_closed ::
  "doc_collection \<Rightarrow> (string \<times> 'v list) option \<Rightarrow> query_item \<Rightarrow> 'v fragment \<Rightarrow> 'v fragment" where
  "document_closed collection written inner predicate =
     (let elements =
        (case dc_items collection of
           IObjects _ \<Rightarrow> ''jsonb_array_elements''
         | IValues _ \<Rightarrow> ''jsonb_array_elements_text'');
          sql = ''EXISTS (SELECT 1 FROM '' @ elements @ ''('' @ if_array (dc_array collection)
            @ '') AS '' @ quoted (it_alias inner) @ '' WHERE '' @ fr_sql predicate @ '')'';
          ex = frag_with predicate sql ATOM
      in case written of
           None \<Rightarrow> ex
         | Some (contains, params) \<Rightarrow>
             frag_and \<lparr>fr_sql = contains @ '' AND '' @ fr_sql ex, fr_params = params,
                       fr_prec = and_precedence\<rparr> (fr_params ex))"

text \<open>\<open>exists_in_rows\<close> up to its predicate, and after it.\<close>

definition rows_opened ::
  "compiler \<Rightarrow> path \<Rightarrow> query_item option \<Rightarrow> counts
    \<Rightarrow> (compile_error, (foreign_key \<times> schema) option \<times> query_item \<times> counts) result" where
  "rows_opened c source enclosing nx =
     (let of' = (case (enclosing, cmp_schema c) of
           (Some item, _) \<Rightarrow> Some (it_row item)
         | (None, Some s) \<Rightarrow> Some (sch_table s)
         | (None, None) \<Rightarrow> None);
          name = join_with ''.'' (path_names source)
      in and_then (case of' of
             Some of' \<Rightarrow> key_of_collection c of' name
           | None \<Rightarrow> Inr None) (\<lambda>key.
           let relation = (case (key, cmp_schema c) of (Some k, Some s) \<Rightarrow> Some (k, s) | _ \<Rightarrow> None);
               number = nx_alias nx + 1
           in and_then (case key of
                  Some key \<Rightarrow> singular_of (fk_table key)
                | None \<Rightarrow> singular_of (path_name source)) (\<lambda>alias.
                Inr (relation,
                  \<lparr>it_alias = alias @ ''_'' @ show_nat number,
                   it_row = (case key of
                       Some key \<Rightarrow> fk_table key
                     | None \<Rightarrow> (case of' of Some of' \<Rightarrow> of' | None \<Rightarrow> []) @ ''.'' @ name),
                   it_holds = (case key of Some _ \<Rightarrow> HTable | None \<Rightarrow> HUnnested)\<rparr>,
                  nx\<lparr>nx_alias := number\<rparr>))))"

definition rows_closed ::
  "compiler \<Rightarrow> path \<Rightarrow> query_item option \<Rightarrow> query_item list \<Rightarrow> (foreign_key \<times> schema) option
    \<Rightarrow> query_item \<Rightarrow> 'v fragment \<Rightarrow> (compile_error, 'v fragment) result" where
  "rows_closed c source enclosing items relation inner predicate =
     (let alias = quoted (it_alias inner)
      in case relation of
           None \<Rightarrow>
             and_then (pg_column c source items) (\<lambda>column.
               Inr (frag_with predicate
                 (''EXISTS (SELECT 1 FROM unnest('' @ column @ '') AS '' @ alias @ '' WHERE ''
                    @ fr_sql predicate @ '')'') ATOM))
         | Some (key, s) \<Rightarrow>
             and_then (case enclosing of
                 Some item \<Rightarrow> Inr (quoted (it_alias item))
               | None \<Rightarrow> pg_qualified (schema_row s)) (\<lambda>parent.
             and_then (joined_keys alias (fk_columns key) parent (fk_referenced_columns key)) (\<lambda>keys.
               let predicate = within predicate and_precedence False
               in and_then (pg_qualified (fk_table key)) (\<lambda>table.
                  Inr (frag_with predicate
                    (''EXISTS (SELECT 1 FROM '' @ table @ '' AS '' @ alias @ '' WHERE '' @ keys
                       @ '' AND '' @ fr_sql predicate @ '')'') ATOM)))))"

definition enclosing_of ::
  "path \<Rightarrow> query_item list \<Rightarrow> (compile_error, query_item option) result" where
  "enclosing_of source items =
     (case path_root source of
        RGlobal \<Rightarrow> Inr None
      | RItem up \<Rightarrow> map_ok Some (item_out items up))"

subsection \<open>The condition\<close>

fun infix_stand :: "infix_op \<Rightarrow> stand \<Rightarrow> stand" where
  "infix_stand (ILogical _) stand = stand"
| "infix_stand _ stand = OfValue"

fun render ::
  "compiler \<Rightarrow> 'v param_type \<Rightarrow> 'v expr \<Rightarrow> query_item list \<Rightarrow> counts \<Rightarrow> stand
    \<Rightarrow> (compile_error, 'v fragment \<times> counts) result" where
  "render c pt (EValue v) items nx stand = pg_constant pt v nx"
| "render c pt (EField p) items nx stand =
     and_then (pg_member c p items nx ReadValue) (\<lambda>(sql, nx). Inr (frag_text sql, nx))"
| "render c pt (EItem up) items nx stand = pg_itself up items nx"
| "render c pt (EPrefix op e) items nx stand =
     and_then (render c pt e items nx OfValue) (\<lambda>(operand, nx).
       Inr (prefix_fragment op (under_prefix pt op e) operand, nx))"
| "render c pt (EPostfix e op) items nx stand =
     and_then (null_test c op e items) (\<lambda>test.
     and_then (case e of
         EField p \<Rightarrow>
           and_then (pg_member c p items nx ReadNullTest) (\<lambda>(sql, nx). Inr (frag_text sql, nx))
       | _ \<Rightarrow> render c pt e items nx OfValue) (\<lambda>(operand, nx).
     Inr (postfix_fragment op (under_postfix pt e) test operand, nx)))"
| "render c pt (EInfix l op r) items nx stand =
     and_then (containment_first c pt l op r items nx stand) (\<lambda>done'.
       case done' of
         Some result \<Rightarrow> Inr result
       | None \<Rightarrow>
           and_then (render c pt l items nx (infix_stand op stand)) (\<lambda>(left, nx).
           and_then (render c pt r items nx (infix_stand op stand)) (\<lambda>(right, nx).
           Inr (infix_fragment pt l op r left right, nx))))"
| "render c pt (EAny source predicate) items nx stand =
     and_then (enclosing_of source items) (\<lambda>enclosing.
     and_then (document_collection c source enclosing) (\<lambda>collection.
       case collection of
         Some collection \<Rightarrow>
           and_then (document_opened pt collection source predicate nx stand)
             (\<lambda>(written, inner, nx).
           and_then (render c pt predicate (inner # items) nx Truth) (\<lambda>(p, nx).
           Inr (document_closed collection written inner p, nx)))
       | None \<Rightarrow>
           and_then (rows_opened c source enclosing nx) (\<lambda>(relation, inner, nx).
           and_then (render c pt predicate (inner # items) nx Truth) (\<lambda>(p, nx).
           and_then (rows_closed c source enclosing items relation inner p) (\<lambda>f.
           Inr (f, nx))))))"

definition compile_with ::
  "compiler \<Rightarrow> 'v param_type \<Rightarrow> 'v expr \<Rightarrow> (compile_error, 'v pg_query) result" where
  "compile_with c pt specification =
     and_then (render c pt specification [] \<lparr>nx_param = cmp_offset c, nx_alias = 0\<rparr> Truth)
       (\<lambda>(fragment, _). Inr \<lparr>q_sql = fr_sql fragment, q_params = fr_params fragment\<rparr>)"

definition compile :: "'v param_type \<Rightarrow> 'v expr \<Rightarrow> (compile_error, 'v pg_query) result" where
  "compile pt specification = compile_with compiler_new pt specification"

end
