(* ===== verification/Pg_Text.thy ===== *)
theory Pg_Text
  imports Pg_Compile
begin

section \<open>The text of a condition\<close>

text \<open>
  What the text of a compiled condition is made of: words of a fixed vocabulary, quoted plain names,
  literals that hold a plain name, the names of types, and the numbers of the parameters.
  \<open>sql_text types ns s\<close> says that \<open>s\<close> is such a text whose parameters are numbered \<open>ns\<close>, in the
  order of the text. No other byte of a candidate, of a constant or of a schema can be in it.
\<close>

definition WORDS :: "string list" where
  "WORDS = [
     ''('', '')'', ''.'', '' '', '').'', '' = '', '' AND '', '' -> '', '' ->> '', '' @> '', '') @> ('',
     '' || '', '' COLLATE \"C\")'',
     ''::boolean'', ''::bigint'', ''::double precision'', ''::timestamptz'', ''::date'', ''::uuid'',
     ''CASE WHEN jsonb_typeof('', '') = 'array' THEN '', '' END'',
     ''(SELECT '', '' FROM '', '' AS '', '' WHERE '',
     ''EXISTS (SELECT 1 FROM '', ''EXISTS (SELECT 1 FROM unnest('', '') AS '',
     ''jsonb_array_elements'', ''jsonb_array_elements_text'',
     ''IS NOT DISTINCT FROM NULL'', ''IS DISTINCT FROM NULL'', ''IS NULL'', ''IS NOT NULL'',
     ''NOT '', ''IS NOT DISTINCT FROM'', ''AND'', ''OR'', ''='', ''!='', ''>'', ''<'', ''>='', ''<='',
     ''+'', ''-'', ''*'', ''/'', ''%'', ''<<'', ''>>'',
     ''(jsonb_object(ARRAY['v'], ARRAY['', ''::text]) -> 'v')'', ''::bigint::text::jsonb'',
     ''::boolean::text::jsonb'', ''jsonb_object(ARRAY['', ''], ARRAY['', ''::text])'',
     ''jsonb_set('{}'::jsonb, ARRAY['', ''], '', empty_array]"

inductive sql_text :: "string set \<Rightarrow> nat list \<Rightarrow> string \<Rightarrow> bool" for types where
  sql_empty: "sql_text types [] []"
| sql_word: "w \<in> set WORDS \<Longrightarrow> sql_text types [] w"
| sql_name: "is_plain name \<Longrightarrow> sql_text types [] (quoted name)"
| sql_key: "is_plain name \<Longrightarrow> sql_text types [] ([CHR 0x27] @ name @ [CHR 0x27])"
| sql_type: "t \<in> types \<Longrightarrow> sql_text types [] (''::'' @ t)"
| sql_param: "sql_text types [n] (''$'' @ show_nat n)"
| sql_append: "sql_text types ns s \<Longrightarrow> sql_text types ms t \<Longrightarrow> sql_text types (ns @ ms) (s @ t)"

lemma sql_append_left: "sql_text types [] s \<Longrightarrow> sql_text types ns t \<Longrightarrow> sql_text types ns (s @ t)"
  using sql_append [of types "[]" s ns t] by simp

lemma sql_append_right: "sql_text types ns s \<Longrightarrow> sql_text types [] t \<Longrightarrow> sql_text types ns (s @ t)"
  using sql_append [of types ns s "[]" t] by simp

lemma sql_around:
  "sql_text types [] s \<Longrightarrow> sql_text types ns m \<Longrightarrow> sql_text types [] t \<Longrightarrow> sql_text types ns (s @ m @ t)"
  by (intro sql_append_left sql_append_right)

text \<open>A text with no parameters, put together from such texts.\<close>

definition sql_closed :: "string set \<Rightarrow> string \<Rightarrow> bool" where
  "sql_closed types s \<longleftrightarrow> sql_text types [] s"

lemma sql_closed_append [intro]:
  "sql_closed types s \<Longrightarrow> sql_closed types t \<Longrightarrow> sql_closed types (s @ t)"
  by (simp add: sql_closed_def sql_append_left)

lemma sql_closed_empty [simp, intro]: "sql_closed types []"
  by (simp add: sql_closed_def sql_empty)

lemma sql_closed_word: "w \<in> set WORDS \<Longrightarrow> sql_closed types w"
  by (simp add: sql_closed_def sql_word)

lemma sql_closed_join:
  assumes "sql_closed types sep" and "\<And>p. p \<in> set ps \<Longrightarrow> sql_closed types p"
  shows "sql_closed types (join_with sep ps)"
  using assms by (induction sep ps rule: join_with.induct) auto

subsection \<open>Names\<close>

lemma pg_identifier_Inr: "pg_identifier name = Inr s \<longleftrightarrow> is_plain name \<and> s = quoted name"
  by (auto simp: pg_identifier_def plain_def split: if_splits)

lemma doc_key_Inr: "doc_key name = Inr s \<longleftrightarrow> is_plain name \<and> s = [CHR 0x27] @ name @ [CHR 0x27]"
  by (auto simp: doc_key_def plain_def split: if_splits)

lemma pg_identifier_closed: "pg_identifier name = Inr s \<Longrightarrow> sql_closed types s"
  by (auto simp: pg_identifier_Inr sql_closed_def intro: sql_name)

lemma doc_key_closed: "doc_key name = Inr s \<Longrightarrow> sql_closed types s"
  unfolding doc_key_Inr sql_closed_def by (elim conjE, erule ssubst) (rule sql_key)

lemma collected_closed:
  assumes "collect_results (map f xs) = Inr ys" and "\<And>x y. f x = Inr y \<Longrightarrow> sql_closed types y"
  shows "\<forall>y \<in> set ys. sql_closed types y"
  using collect_results_mapD [OF assms(1)] assms(2) by fastforce

lemma dot_word: "sql_closed types ''.''"
  by (rule sql_closed_word) (simp add: WORDS_def)

lemma pg_qualified_closed: "pg_qualified name = Inr s \<Longrightarrow> sql_closed types s"
  unfolding pg_qualified_def
  by (auto intro!: sql_closed_join dot_word dest!: collected_closed intro: pg_identifier_closed)

text \<open>The singular of a plain name is one, and so is an alias numbered after it.\<close>

lemma name_char_digit: "is_ascii_digit c \<Longrightarrow> is_name_char c"
  by (simp add: is_name_char_def is_ascii_alphanumeric_def)

lemma is_plain_prefix: "is_plain (s @ t) \<Longrightarrow> s \<noteq> [] \<Longrightarrow> is_plain s"
  by (cases s) (simp_all add: is_plain_def)

lemma is_plain_append: "is_plain s \<Longrightarrow> list_all is_name_char t \<Longrightarrow> is_plain (s @ t)"
  by (cases s) (simp_all add: is_plain_def)

lemma is_plain_numbered: "is_plain s \<Longrightarrow> is_plain (s @ ''_'' @ show_nat n)"
  by (rule is_plain_append)
    (auto simp: list_all_iff is_name_char_def is_ascii_alphanumeric_def dest: show_nat_digits)

lemma strip_stem_Some: "strip_stem suf word = Some stem \<longleftrightarrow> word = stem @ suf \<and> stem \<noteq> []"
proof -
  have "strip_stem suf word = Some stem \<longleftrightarrow> strip_suffix suf word = Some stem \<and> stem \<noteq> []"
    by (auto simp: strip_stem_def split: option.splits if_splits)
  then show ?thesis by (simp add: strip_suffix_Some_iff)
qed

lemma is_plain_singular: "is_plain word \<Longrightarrow> is_plain (singular word)"
proof -
  assume word: "is_plain word"
  have irregular: "is_plain one" if "map_of IRREGULAR word = Some one" for one
    using that by (auto simp: IRREGULAR_def split: if_splits) (code_simp+)
  have stem: "is_plain stem" if "strip_stem suf word = Some stem" for suf stem
    using that word is_plain_prefix by (auto simp: strip_stem_Some)
  have y: "is_plain (stem @ ''y'')" if "strip_stem suf word = Some stem" for suf stem
    by (rule is_plain_append [OF stem [OF that]]) code_simp
  show ?thesis
    unfolding singular_def
    by (auto simp: word irregular dest: stem y split: option.split)
qed

lemma is_name_start_lower: "is_name_start c \<Longrightarrow> is_name_start (ascii_lower c)"
  by (auto simp: is_name_start_def ascii_lower_def is_ascii_alphabetic_def is_ascii_upper_def
      is_ascii_lower_def)

lemma is_name_char_lower: "is_name_char c \<Longrightarrow> is_name_char (ascii_lower c)"
  by (auto simp: is_name_char_def ascii_lower_def is_ascii_alphanumeric_def is_ascii_alphabetic_def
      is_ascii_upper_def is_ascii_lower_def)

lemma is_plain_lower: "is_plain name \<Longrightarrow> is_plain (map ascii_lower name)"
  by (cases name) (auto simp: is_plain_def list_all_iff is_name_start_lower is_name_char_lower)

lemma singular_of_plain: "singular_of table = Inr one \<Longrightarrow> is_plain one"
  by (auto simp: singular_of_def plain_def is_plain_singular is_plain_lower split: if_splits)

lemma alias_closed:
  "singular_of table = Inr one \<Longrightarrow> sql_closed types (quoted (one @ ''_'' @ show_nat n))"
  unfolding sql_closed_def
  by (rule sql_name [OF is_plain_numbered [OF singular_of_plain]])

subsection \<open>Numbered parameters\<close>

text \<open>
  What a part of the compiler writes after \<open>nx\<close>: a text whose parameters are the next ones, in the
  order of the list, none of them a text with a NUL.
\<close>

definition type_names :: "'v param_type \<Rightarrow> string set" where
  "type_names pt = {t. \<exists>v. pt_type pt v = Some t} \<union> {''bigint'', ''integer'', ''text''}"

definition numbered ::
  "'v param_type \<Rightarrow> counts \<Rightarrow> string \<Rightarrow> 'v list \<Rightarrow> counts \<Rightarrow> bool" where
  "numbered pt nx s params nx' \<longleftrightarrow>
     sql_text (type_names pt) [Suc (nx_param nx)..<Suc (nx_param nx')] s
     \<and> nx_param nx' = nx_param nx + length params
     \<and> (\<forall>v \<in> set params. \<not> pt_nul_in_text pt v)"

lemma numbered_closed:
  "sql_closed (type_names pt) s \<Longrightarrow> nx_param nx' = nx_param nx \<Longrightarrow> numbered pt nx s [] nx'"
  by (simp add: numbered_def sql_closed_def)

lemma numbered_append:
  assumes "numbered pt nx s ps nx1" and "numbered pt nx1 t qs nx2"
  shows "numbered pt nx (s @ t) (ps @ qs) nx2"
proof -
  have "[Suc (nx_param nx)..<Suc (nx_param nx2)] =
      [Suc (nx_param nx)..<Suc (nx_param nx1)] @ [Suc (nx_param nx1)..<Suc (nx_param nx2)]"
    using assms upt_add_eq_append [of "Suc (nx_param nx)" "Suc (nx_param nx1)" "length qs"]
    by (simp add: numbered_def del: upt_Suc)
  then show ?thesis
    using assms by (auto simp: numbered_def simp del: upt_Suc intro: sql_append)
qed

lemma numbered_left:
  "sql_closed (type_names pt) s \<Longrightarrow> numbered pt nx t ps nx' \<Longrightarrow> numbered pt nx (s @ t) ps nx'"
  unfolding numbered_def sql_closed_def by (blast intro: sql_append_left)

lemma numbered_right:
  "numbered pt nx s ps nx' \<Longrightarrow> sql_closed (type_names pt) t \<Longrightarrow> numbered pt nx (s @ t) ps nx'"
  unfolding numbered_def sql_closed_def by (blast intro: sql_append_right)

lemma numbered_around:
  "sql_closed (type_names pt) s \<Longrightarrow> numbered pt nx m ps nx' \<Longrightarrow> sql_closed (type_names pt) t
    \<Longrightarrow> numbered pt nx (s @ m @ t) ps nx'"
  by (intro numbered_left numbered_right)

lemma numbered_parameter:
  "\<not> pt_nul_in_text pt v \<Longrightarrow>
     numbered pt nx (''$'' @ show_nat (nx_param nx + 1)) [v] (nx\<lparr>nx_param := nx_param nx + 1\<rparr>)"
  using sql_param [of "type_names pt" "Suc (nx_param nx)"] by (simp add: numbered_def)

lemma numbered_alias [simp]:
  "numbered pt (nx\<lparr>nx_alias := a\<rparr>) s ps nx' \<longleftrightarrow> numbered pt nx s ps nx'"
  "numbered pt nx s ps (nx'\<lparr>nx_alias := a\<rparr>) \<longleftrightarrow> numbered pt nx s ps nx'"
  by (simp_all add: numbered_def)

end
