(* ===== verification/Pg_Laws.thy ===== *)
theory Pg_Laws
  imports Pg_Text
begin

section \<open>What the compiler writes\<close>

text \<open>
  The words a condition is written in, from the fragments up: what the compiler writes is closed under them.
\<close>

subsection \<open>The words\<close>

lemma words:
  "sql_closed T ''(''" "sql_closed T '')''" "sql_closed T ''.''" "sql_closed T '' ''"
  "sql_closed T '').''" "sql_closed T '' = ''" "sql_closed T '' AND ''" "sql_closed T '' -> ''"
  "sql_closed T '' ->> ''" "sql_closed T '' @> ''" "sql_closed T '') @> (''" "sql_closed T '' || ''"
  "sql_closed T '' COLLATE \"C\")''" "sql_closed T ''::boolean''" "sql_closed T ''::bigint''"
  "sql_closed T ''::double precision''" "sql_closed T ''::timestamptz''" "sql_closed T ''::date''"
  "sql_closed T ''::uuid''" "sql_closed T ''CASE WHEN jsonb_typeof(''"
  "sql_closed T '') = 'array' THEN ''" "sql_closed T '' END''" "sql_closed T ''(SELECT ''"
  "sql_closed T '' FROM ''" "sql_closed T '' AS ''" "sql_closed T '' WHERE ''"
  "sql_closed T ''EXISTS (SELECT 1 FROM ''" "sql_closed T ''EXISTS (SELECT 1 FROM unnest(''"
  "sql_closed T '') AS ''" "sql_closed T ''jsonb_array_elements''"
  "sql_closed T ''jsonb_array_elements_text''" "sql_closed T ''IS NOT DISTINCT FROM NULL''"
  "sql_closed T ''IS DISTINCT FROM NULL''" "sql_closed T ''IS NULL''" "sql_closed T ''IS NOT NULL''"
  "sql_closed T ''NOT ''" "sql_closed T ''-''" "sql_closed T ''(jsonb_object(ARRAY['v'], ARRAY[''"
  "sql_closed T ''::text]) -> 'v')''" "sql_closed T ''::bigint::text::jsonb''"
  "sql_closed T ''::boolean::text::jsonb''" "sql_closed T ''jsonb_object(ARRAY[''"
  "sql_closed T ''], ARRAY[''" "sql_closed T ''::text])''"
  "sql_closed T ''jsonb_set('{}'::jsonb, ARRAY[''" "sql_closed T ''], ''" "sql_closed T empty_array"
  by (rule sql_closed_word, simp add: WORDS_def)+

lemma spelling_closed: "sql_closed T (spelling op)"
  by (rule sql_closed_word, cases op rule: spelling.cases)
    (simp add: WORDS_def, (rename_tac o', case_tac o', simp_all add: WORDS_def)+)

lemma show_postfix_closed: "sql_closed T (show_postfix op)"
  by (cases op) (simp_all add: words)

lemma kind_read_closed: "sql_closed T text \<Longrightarrow> sql_closed T (kind_read kind text)"
  by (cases kind) (simp_all only: kind_read.simps, intro sql_closed_append words; assumption)+

lemmas text_parts = sql_closed_append words spelling_closed show_postfix_closed kind_read_closed

lemmas text_names = pg_identifier_closed doc_key_closed pg_qualified_closed alias_closed

subsection \<open>Texts with no parameters\<close>

lemma through_objects_closed:
  "through_objects object at layout steps = Inr (object', at', layout') \<Longrightarrow> sql_closed T object
    \<Longrightarrow> sql_closed T object'"
proof (induction object at layout steps rule: through_objects.induct)
  case (2 object at layout step steps)
  then show ?case
    by (fastforce simp: Let_def simp del: append_Cons intro: text_parts text_names
        split: option.splits member.splits)
qed simp

lemma in_document_closed:
  "in_document document of' layout names = Inr (object, name, member) \<Longrightarrow> sql_closed T document
    \<Longrightarrow> sql_closed T object"
  by (auto simp: in_document_def dest: through_objects_closed split: if_splits)

lemma document_member_closed:
  "document_member document of' layout names reading = Inr s \<Longrightarrow> sql_closed T document
    \<Longrightarrow> sql_closed T s"
  unfolding document_member_def Let_def
  by (auto simp del: append_Cons intro!: text_parts intro: text_names dest!: in_document_closed
      split: member.splits reading_of.splits)

lemma if_array_closed: "sql_closed T array \<Longrightarrow> sql_closed T (if_array array)"
  unfolding if_array_def by (intro text_parts)

lemma joined_keys_closed:
  assumes "joined_keys left lefts right rights = Inr s" and "sql_closed T left" "sql_closed T right"
  shows "sql_closed T s"
proof -
  from assms(1) obtain parts where parts: "s = join_with '' AND '' parts"
    "collect_results (map (\<lambda>(l, r). and_then (pg_identifier l) (\<lambda>l. and_then (pg_identifier r) (\<lambda>r.
         Inr (left @ ''.'' @ l @ '' = '' @ right @ ''.'' @ r)))) (zip lefts rights)) = Inr parts"
    unfolding joined_keys_def map_ok_Inr_iff by blast
  have "\<forall>p \<in> set parts. sql_closed T p"
    by (rule collected_closed [OF parts(2)])
      (use assms(2,3) in \<open>auto simp del: append_Cons intro!: sql_closed_append words
         intro: pg_identifier_closed\<close>)
  then show ?thesis
    unfolding parts(1) by (intro sql_closed_join words) blast
qed

lemma member_of_row_closed:
  "member_of_row c row of' names nx reading = Inr (s, nx') \<Longrightarrow> sql_closed T row
    \<Longrightarrow> sql_closed T s \<and> nx_param nx' = nx_param nx"
proof (induction c row of' names nx reading arbitrary: s nx' rule: member_of_row.induct)
  case (3 c row of' object n rest nx reading)
  show ?case
  proof (cases "case cmp_schema c of None \<Rightarrow> None | Some s \<Rightarrow> schema_layout s of' object")
    case (Some layout)
    with "3.prems" show ?thesis
      by (auto simp del: append_Cons intro!: sql_closed_append words
          intro: pg_identifier_closed dest!: document_member_closed)
  next
    case None
    with "3.prems" obtain key where key: "key_of_object c of' object = Inr key" by auto
    show ?thesis
    proof (cases key)
      case None': None
      with "3.prems"(1) key None obtain o' where o': "pg_identifier object = Inr o'" and
        member: "member_of_row c (''('' @ row @ ''.'' @ o' @ '')'') (of' @ ''.'' @ object) (n # rest)
          nx reading = Inr (s, nx')"
        by (auto simp del: append_Cons)
      have "sql_closed T (''('' @ row @ ''.'' @ o' @ '')'')"
        using "3.prems"(2) pg_identifier_closed [OF o'] by (intro text_parts)
      then show ?thesis by (rule "3.IH"(1) [OF None key None' o' member])
    next
      case (Some k)
      with "3.prems"(1) key None obtain one keys member nx1 table where
        one: "singular_of (fk_referenced_table k) = Inr one" and
        keys: "joined_keys (quoted (one @ ''_'' @ show_nat (nx_alias nx + 1)))
          (fk_referenced_columns k) row (fk_columns k) = Inr keys" and
        member: "member_of_row c (quoted (one @ ''_'' @ show_nat (nx_alias nx + 1)))
          (fk_referenced_table k) (n # rest) (nx\<lparr>nx_alias := nx_alias nx + 1\<rparr>) reading
          = Inr (member, nx1)" and
        table: "pg_qualified (fk_referenced_table k) = Inr table" and
        s: "s = ''(SELECT '' @ member @ '' FROM '' @ table @ '' AS ''
          @ quoted (one @ ''_'' @ show_nat (nx_alias nx + 1)) @ '' WHERE '' @ keys @ '')''" and
        nx': "nx' = nx1"
        by (auto simp: Let_def simp del: append_Cons)
      have al: "sql_closed T (quoted (one @ ''_'' @ show_nat (nx_alias nx + 1)))"
        by (rule alias_closed [OF one])
      have "sql_closed T member \<and> nx_param nx1 = nx_param nx"
        using "3.IH"(2) [OF None key Some refl one refl keys member al] by simp
      then show ?thesis
        unfolding s nx' using al joined_keys_closed [OF keys al "3.prems"(2)]
          pg_qualified_closed [OF table] by (intro conjI text_parts) simp_all
    qed
  qed
qed (auto simp del: append_Cons intro!: sql_closed_append words intro: pg_identifier_closed)

text \<open>The items under test are known by plain names.\<close>

definition plain_aliases :: "query_item list \<Rightarrow> bool" where
  "plain_aliases items \<longleftrightarrow> list_all (\<lambda>item. is_plain (it_alias item)) items"

lemma item_out_alias:
  "item_out items up = Inr item \<Longrightarrow> plain_aliases items \<Longrightarrow> sql_closed T (quoted (it_alias item))"
  by (auto simp: item_out_def plain_aliases_def list_all_iff sql_closed_def intro!: sql_name
      split: list.splits dest: in_set_dropD) (metis in_set_dropD list.set_intros(1))

lemma pg_column_closed:
  assumes "pg_column c p items = Inr s" and plain: "plain_aliases items"
  shows "sql_closed T s"
proof -
  from assms obtain names where names: "collect_results (map pg_identifier (path_names p)) = Inr names"
    unfolding pg_column_def by auto
  have all: "\<forall>n \<in> set names. sql_closed T n"
    by (rule collected_closed [OF names pg_identifier_closed])
  have dotted: "sql_closed T (join_with ''.'' ns)" if "set ns \<subseteq> set names" for ns
    using that all by (intro sql_closed_join words) blast
  show ?thesis
  proof (cases "path_root p")
    case RGlobal
    with assms(1) names all show ?thesis
      by (cases names)
        (auto simp: pg_column_def simp del: append_Cons intro!: text_parts intro: text_names dotted
          split: if_splits)
  next
    case (RItem up)
    with assms(1) names obtain item where item: "s = (case names of
        column # m # members \<Rightarrow>
          ''('' @ quoted (it_alias item) @ ''.'' @ column @ '').'' @ join_with ''.'' (m # members)
      | _ \<Rightarrow> quoted (it_alias item) @ ''.'' @ join_with ''.'' names)" "item_out items up = Inr item"
      by (auto simp: pg_column_def Let_def simp del: append_Cons)
    have al: "sql_closed T (quoted (it_alias item))"
      by (rule item_out_alias [OF item(2) plain])
    show ?thesis
      unfolding item(1) using al all dotted
      by (auto simp del: append_Cons simp: subset_iff intro!: text_parts split: list.split)
  qed
qed

lemma pg_member_closed:
  assumes "pg_member c p items nx reading = Inr (s, nx')" and plain: "plain_aliases items"
  shows "sql_closed T s \<and> nx_param nx' = nx_param nx"
proof (cases "path_root p")
  case (RItem up)
  with assms(1) obtain item where item: "item_out items up = Inr item"
    by (auto simp: pg_member_def Let_def)
  have al: "sql_closed T (quoted (it_alias item))"
    by (rule item_out_alias [OF item plain])
  show ?thesis
    using assms(1) RItem item al
    by (auto simp: pg_member_def Let_def split: holds.splits items.splits
        dest!: document_member_closed member_of_row_closed)
next
  case RGlobal
  let ?column = "and_then (pg_column c p items) (\<lambda>column. Inr (column, nx))"
  have column: "?thesis" if "?column = Inr (s, nx')"
    using that plain pg_column_closed by auto
  have row: "?thesis" if "pg_qualified q = Inr row" "member_of_row c row t names nx reading = Inr (s, nx')"
    for q row t names
    using member_of_row_closed [OF that(2) pg_qualified_closed [OF that(1)]] .
  show ?thesis
    using assms(1) RGlobal column row
    by (auto simp: pg_member_def Let_def split: list.splits option.splits if_splits)
qed

lemma pg_itself_closed:
  assumes "pg_itself up items nx = Inr (f, nx')" and plain: "plain_aliases items"
  shows "sql_closed T (fr_sql f) \<and> fr_params f = [] \<and> nx' = nx"
proof -
  from assms(1) obtain item where item: "item_out items up = Inr item"
    by (auto simp: pg_itself_def)
  show ?thesis
    using assms(1) item item_out_alias [OF item plain, of T]
    by (auto simp: pg_itself_def frag_text_def intro: kind_read_closed
        split: holds.splits items.splits)
qed

lemma pg_constant_numbered:
  "pg_constant pt v nx = Inr (f, nx') \<Longrightarrow> numbered pt nx (fr_sql f) (fr_params f) nx'"
  using numbered_parameter [of pt v nx]
  by (auto simp: pg_constant_def Let_def split: if_splits)

lemma null_test_closed: "null_test c op e items = Inr test \<Longrightarrow> sql_closed T test"
  unfolding null_test_def
  by (cases op) (auto intro!: text_parts split: if_splits)

subsection \<open>Fragments\<close>

lemma numbered_same: "nx_param nx1 = nx_param nx \<Longrightarrow> numbered pt nx1 s ps nx' = numbered pt nx s ps nx'"
  by (simp add: numbered_def)

abbreviation frag_numbered :: "'v param_type \<Rightarrow> counts \<Rightarrow> 'v fragment \<Rightarrow> counts \<Rightarrow> bool" where
  "frag_numbered pt nx f nx' \<equiv> numbered pt nx (fr_sql f) (fr_params f) nx'"

lemma within_numbered: "frag_numbered pt nx f nx' \<Longrightarrow> frag_numbered pt nx (within f p apart) nx'"
  using numbered_around [OF words(1) _ words(2), of pt nx "fr_sql f" "fr_params f" nx']
  by (simp add: within_def del: append_Cons)

lemma of_type_numbered:
  assumes "frag_numbered pt nx f nx'" and "\<And>t. type = Some t \<Longrightarrow> t \<in> type_names pt"
  shows "frag_numbered pt nx (of_type f type) nx'"
  using assms
  by (auto simp: of_type_def sql_closed_def intro!: numbered_right sql_type split: option.split
      simp del: append_Cons)

lemma under_prefix_named: "under_prefix pt op e = Some t \<Longrightarrow> t \<in> type_names pt"
  by (auto simp: under_prefix_def option_or_def type_names_def
      split: expr.splits option.splits prefix_op.splits)

lemma under_postfix_named: "under_postfix pt e = Some t \<Longrightarrow> t \<in> type_names pt"
  by (auto simp: under_postfix_def option_or_def type_names_def split: expr.splits option.splits)

lemma of_both_named:
  "of_both pt l op r = (a, b) \<Longrightarrow> a = Some t \<or> b = Some t \<Longrightarrow> t \<in> type_names pt"
  by (auto simp: of_both_def type_names_def Let_def
      split: expr.splits option.splits infix_op.splits if_splits)

lemma integer_named: "''integer'' \<in> type_names pt"
  by (simp add: type_names_def)

lemma frag_params_simps [simp]:
  "fr_params (within f p apart) = fr_params f" "fr_params (of_type f type) = fr_params f"
  "fr_params (frag_with f sql p) = fr_params f" "fr_sql (frag_with f sql p) = sql"
  "fr_prec (frag_with f sql p) = p" "fr_sql (frag_and f ps) = fr_sql f"
  "fr_params (frag_and f ps) = fr_params f @ ps" "fr_prec (frag_and f ps) = fr_prec f"
  "fr_sql (frag_text sql) = sql" "fr_params (frag_text sql) = []" "fr_prec (frag_text sql) = ATOM"
  by (simp_all add: within_def of_type_def frag_with_def frag_and_def frag_text_def split: option.split)

lemma prefix_fragment_params [simp]: "fr_params (prefix_fragment op t f) = fr_params f"
  by (simp add: prefix_fragment_def Let_def)

lemma postfix_fragment_params [simp]: "fr_params (postfix_fragment op t test f) = fr_params f"
  by (simp add: postfix_fragment_def Let_def)

lemma infix_fragment_params [simp]:
  "fr_params (infix_fragment pt l op r f g) = fr_params f @ fr_params g"
  by (simp add: infix_fragment_def Let_def split: prod.split)

lemma prefix_fragment_numbered:
  assumes "frag_numbered pt nx f nx'"
  shows "frag_numbered pt nx (prefix_fragment op (under_prefix pt op e) f) nx'"
proof -
  note * = within_numbered [OF of_type_numbered [OF assms under_prefix_named], simplified]
  show ?thesis
    unfolding prefix_fragment_def Let_def
    by (cases op) (simp_all add: * numbered_left words del: append_Cons)
qed

lemma postfix_fragment_numbered:
  assumes "frag_numbered pt nx f nx'" and "sql_closed (type_names pt) test"
  shows "frag_numbered pt nx (postfix_fragment op (under_postfix pt e) test f) nx'"
proof -
  note * = within_numbered [OF of_type_numbered [OF assms(1) under_postfix_named], simplified]
  show ?thesis
    unfolding postfix_fragment_def Let_def
    by (simp add: * numbered_right words assms(2) sql_closed_append del: append_Cons)
qed

lemma infix_fragment_numbered:
  assumes "frag_numbered pt nx f nx1" "frag_numbered pt nx1 g nx2"
  shows "frag_numbered pt nx (infix_fragment pt l op r f g) nx2"
proof -
  obtain a b where ab: "of_both pt l op r = (a, b)" by fastforce
  obtain p assoc where pa: "infix_precedence op = (p, assoc)" by fastforce
  let ?right = "if is_a_count_to_cast op r then of_type (within g CAST False) (Some ''integer'')
    else of_type g b"
  let ?l = "within (of_type f a) p (assoc \<noteq> AssocLeft \<and> \<not> regroups op)"
  let ?r = "within ?right p (assoc \<noteq> AssocRight \<and> \<not> regroups op)"
  have l: "frag_numbered pt nx ?l nx1"
    by (rule within_numbered [OF of_type_numbered [OF assms(1)]]) (rule of_both_named [OF ab], simp)
  have r: "frag_numbered pt nx1 ?r nx2"
    using assms(2) of_both_named [OF ab] integer_named
    by (intro within_numbered) (auto intro!: of_type_numbered within_numbered simp del: frag_params_simps)
  have "numbered pt nx (fr_sql ?l @ '' '' @ spelling op @ '' '' @ fr_sql ?r)
      (fr_params ?l @ fr_params ?r) nx2"
    by (rule numbered_append [OF l numbered_left [OF words(4)
          numbered_left [OF spelling_closed numbered_left [OF words(4) r]]]])
  then show ?thesis
    by (simp add: infix_fragment_def Let_def ab pa del: append_Cons split: if_splits)
qed

subsection \<open>Patterns\<close>

lemma parameter_numbered:
  "parameter pt v nx = Inr (s, ps, nx') \<Longrightarrow> numbered pt nx (''$'' @ s) ps nx' \<and> ps = [v]"
  using numbered_parameter [of pt v nx] by (auto simp: parameter_def Let_def split: if_splits)

text \<open>Several texts one after the other.\<close>

definition numbered_list ::
  "'v param_type \<Rightarrow> counts \<Rightarrow> string list \<Rightarrow> 'v list \<Rightarrow> counts \<Rightarrow> bool" where
  "numbered_list pt nx ss ps nx' \<longleftrightarrow>
     (\<forall>sep. sql_closed (type_names pt) sep \<longrightarrow> numbered pt nx (join_with sep ss) ps nx')"

lemma numbered_list_Nil: "numbered_list pt nx [] [] nx"
  by (simp add: numbered_list_def numbered_closed)

lemma numbered_list_Cons:
  assumes "numbered pt nx s ps nx1" and "numbered_list pt nx1 ss qs nx2"
  shows "numbered_list pt nx (s # ss) (ps @ qs) nx2"
proof (cases ss)
  case Nil
  have "numbered pt nx1 [] qs nx2"
    using assms(2) sql_closed_empty unfolding numbered_list_def Nil by (metis join_with.simps(1))
  from numbered_append [OF assms(1) this] show ?thesis
    by (simp add: numbered_list_def Nil)
next
  case (Cons t ts)
  then show ?thesis
    using assms by (auto simp: numbered_list_def intro!: numbered_append [OF _ numbered_left])
qed

lemma joined_numbered: "numbered_list pt nx ss ps nx' \<Longrightarrow> numbered pt nx (joined ss) ps nx'"
  using words(1,2,12) by (auto simp: numbered_list_def joined_def Let_def simp del: append_Cons
      intro!: numbered_around)

lemma text_entry_numbered:
  assumes "doc_key name = Inr key" and "numbered pt nx (''$'' @ param) ps nx'"
  shows "numbered pt nx
    (''jsonb_object(ARRAY['' @ key @ ''], ARRAY[$'' @ param @ ''::text])'') ps nx'"
  using numbered_left [OF words(42)
      numbered_left [OF doc_key_closed [OF assms(1)]
        numbered_around [OF words(43) assms(2) words(44)]]]
  by simp

lemma entry_numbered:
  assumes "doc_key name = Inr key" and "numbered pt nx s ps nx'"
  shows "numbered pt nx (''jsonb_set('{}'::jsonb, ARRAY['' @ key @ ''], '' @ s @ '')'') ps nx'"
  by (rule numbered_left [OF words(45)
      numbered_left [OF doc_key_closed [OF assms(1)]
        numbered_around [OF words(46) assms(2) words(2)]]])

lemma constant_numbered:
  assumes "numbered pt nx (''$'' @ param) ps nx'"
  shows "numbered pt nx
      (''(jsonb_object(ARRAY['v'], ARRAY[$'' @ param @ ''::text]) -> 'v')'') ps nx'"
    "numbered pt nx (''$'' @ param @ ''::bigint::text::jsonb'') ps nx'"
    "numbered pt nx (''$'' @ param @ ''::boolean::text::jsonb'') ps nx'"
  using numbered_around [OF words(38) assms words(39)] numbered_right [OF assms words(40)]
    numbered_right [OF assms words(41)]
  by simp_all

lemma member_entry_numbered:
  assumes "and_then (doc_key name) (\<lambda>key. and_then (contained_json pt member nx) (\<lambda>(value, params, nx).
      and_then (object_entries pt members nx) (\<lambda>(entries, more, nx).
        Inr ((''jsonb_set('{}'::jsonb, ARRAY['' @ key @ ''], '' @ value @ '')'') # entries,
          params @ more, nx)))) = Inr (ss, ps, nx')"
    and "\<And>key s ps nx'. doc_key name = Inr key \<Longrightarrow> contained_json pt member nx = Inr (s, ps, nx')
      \<Longrightarrow> numbered pt nx s ps nx'"
    and "\<And>key a v b qs nx1 ss ps nx'. doc_key name = Inr key
      \<Longrightarrow> contained_json pt member nx = Inr a \<Longrightarrow> (v, b) = a \<Longrightarrow> (qs, nx1) = b
      \<Longrightarrow> object_entries pt members nx1 = Inr (ss, ps, nx') \<Longrightarrow> numbered_list pt nx1 ss ps nx'"
  shows "numbered_list pt nx ss ps nx'"
proof -
  from assms(1) obtain key v qs nx1 ss' rs where
    *: "doc_key name = Inr key" "contained_json pt member nx = Inr (v, qs, nx1)"
      "object_entries pt members nx1 = Inr (ss', rs, nx')" "ps = qs @ rs"
      "ss = (''jsonb_set('{}'::jsonb, ARRAY['' @ key @ ''], '' @ v @ '')'') # ss'"
    by (auto simp del: append_Cons)
  show ?thesis
    unfolding *(4,5)
    by (rule numbered_list_Cons [OF entry_numbered [OF *(1) assms(2) [OF *(1,2)]]
          assms(3) [OF *(1,2) refl refl *(3)]])
qed

lemma json_numbered:
  fixes pt :: "'v param_type"
  shows
  "contained_json pt c nx = Inr (s, ps, nx') \<Longrightarrow> numbered pt nx s ps nx'"
  "object_entries pt members nx = Inr (ss, ps, nx') \<Longrightarrow> numbered_list pt nx ss ps nx'"
  "array_items pt cs nx = Inr (ss, ps, nx') \<Longrightarrow> numbered_list pt nx ss ps nx'"
proof (induction pt c nx and pt members nx and pt cs nx arbitrary: s ps nx' and ss ps nx'
    and ss ps nx' rule: contained_json_object_entries_array_items.induct)
  case (1 pt k v nx)
  then show ?case
    by (auto simp del: append_Cons dest!: parameter_numbered split: spelled.split
        intro: constant_numbered)
next
  case (2 pt members nx)
  then show ?case by (auto intro: joined_numbered)
next
  case (3 pt items nx)
  then obtain written where w: "array_items pt items nx = Inr (written, ps, nx')"
    "s = join_with '' || '' (empty_array # written)"
    by (auto simp del: join_with.simps)
  have "numbered_list pt nx (empty_array # written) ([] @ ps) nx'"
    by (rule numbered_list_Cons [OF numbered_closed [OF words(47) refl] "3.IH" [OF w(1)]])
  then show ?case using w(2) words(12) by (simp add: numbered_list_def del: join_with.simps)
next
  case (5 pt name v members nx)
  then obtain key param qs nx1 ss' rs where
    *: "doc_key name = Inr key" "parameter pt v nx = Inr (param, qs, nx1)"
      "object_entries pt members nx1 = Inr (ss', rs, nx')" "ps = qs @ rs"
      "ss = (''jsonb_object(ARRAY['' @ key @ ''], ARRAY[$'' @ param @ ''::text])'') # ss'"
    by (auto simp del: append_Cons)
  show ?case
    unfolding *(4,5)
    by (rule numbered_list_Cons [OF text_entry_numbered [OF *(1)] "5.IH" [OF *(1,2) refl refl *(3)]])
      (use parameter_numbered [OF *(2)] in blast)
next
  case "6_1"
  show ?case
    by (rule member_entry_numbered [OF "6_1.prems" [unfolded object_entries.simps] "6_1.IH"])
next
  case "6_2"
  show ?case
    by (rule member_entry_numbered [OF "6_2.prems" [unfolded object_entries.simps] "6_2.IH"])
next
  case "6_3"
  show ?case
    by (rule member_entry_numbered [OF "6_3.prems" [unfolded object_entries.simps] "6_3.IH"])
next
  case "6_4"
  show ?case
    by (rule member_entry_numbered [OF "6_4.prems" [unfolded object_entries.simps] "6_4.IH"])
next
  case (8 pt item items nx)
  then obtain v qs nx1 ss' rs where
    *: "contained_json pt item nx = Inr (v, qs, nx1)" "array_items pt items nx1 = Inr (ss', rs, nx')"
      "ps = qs @ rs" "ss = v # ss'"
    by auto
  show ?case
    unfolding *(3,4) by (rule numbered_list_Cons [OF "8.IH"(1) [OF *(1)] "8.IH"(2) [OF *(1) refl refl *(2)]])
qed (simp_all add: numbered_list_Nil)

lemma containing_numbered:
  assumes "containing pt members document at nx = Inr (Some (s, ps, nx'))"
    and "sql_closed (type_names pt) document"
  shows "numbered pt nx s ps nx'"
proof (cases "at = []")
  case True
  with assms(1) obtain json entries where json: "s = document @ '' @> '' @ json"
    "object_entries pt members nx = Inr (entries, ps, nx')" "json = joined entries"
    by (auto simp: containing_def pattern_object_def)
  show ?thesis
    unfolding json(1,3)
    by (intro numbered_left assms(2) words joined_numbered json_numbered(2) [OF json(2)])
next
  case False
  with assms(1) obtain c json keys where *: "contained_json pt c nx = Inr (json, ps, nx')"
    "collect_results (map doc_key at) = Inr keys"
    "s = ''('' @ document @ '' -> '' @ join_with '' -> '' keys @ '') @> ('' @ json @ '')''"
    by (auto simp: containing_def simp del: append_Cons split: option.splits)
  have "sql_closed (type_names pt) (join_with '' -> '' keys)"
    using collected_closed [OF *(2), of "type_names pt"] doc_key_closed
    by (intro sql_closed_join words) blast
  then show ?thesis
    unfolding *(3)
    by (intro numbered_left numbered_around assms(2) words json_numbered(1) [OF *(1)])
qed

subsection \<open>Documents and collections\<close>

lemma gin_serving_document: "gin_serving gins document names = Some g \<Longrightarrow> gin_document g = document"
  by (auto simp: gin_serving_def)

lemma document_at_closed:
  "document_at c of' row names = Inr (Some en) \<Longrightarrow> sql_closed T row \<Longrightarrow> sql_closed T (en_document en)"
  by (auto simp: document_at_def simp del: append_Cons intro!: text_parts intro: text_names
      split: option.splits list.splits if_splits)

text \<open>The document entered for a path, of a collection or of an equality.\<close>

lemma document_collection_closed:
  assumes "document_collection c source enclosing = Inr (Some dc)"
    and "\<And>item. enclosing = Some item \<Longrightarrow> sql_closed T (quoted (it_alias item))"
  shows "sql_closed T (dc_array dc)"
    and "dc_gin dc = Some g \<Longrightarrow> sql_closed T (gin_document g)"
proof -
  from assms(1) obtain en object name member k where
    en: "(case enclosing of
             Some item \<Rightarrow>
               (case it_holds item of
                  HDocument (IObjects layout) \<Rightarrow> Inr (Some \<lparr>
                    en_document = quoted (it_alias item), en_of = it_row item, en_layout = layout,
                    en_names = path_names source, en_gins = []\<rparr>)
                | HDocument (IValues _) \<Rightarrow> Inl (no_members (it_row item) (path_names source))
                | _ \<Rightarrow> document_at c (it_row item) (quoted (it_alias item)) (path_names source))
           | None \<Rightarrow>
               (case cmp_schema c of
                  Some s \<Rightarrow> and_then (pg_qualified (schema_row s)) (\<lambda>row.
                    document_at c (sch_table s) row (path_names source))
                | None \<Rightarrow> Inr None)) = Inr (Some en)" and
    object: "in_document (en_document en) (en_of en) (en_layout en) (en_names en)
      = Inr (object, name, member)" and
    k: "doc_key name = Inr k" and
    dc: "dc_array dc = object @ '' -> '' @ k"
      "dc_gin dc = gin_serving (en_gins en) (en_document en) (en_names en)"
    unfolding document_collection_def Let_def
    by (auto simp del: append_Cons split: option.splits)
  have document: "sql_closed T (en_document en)"
    using en assms(2)
    by (auto split: option.splits holds.splits items.splits intro: document_at_closed
        dest: pg_qualified_closed)
  show "sql_closed T (dc_array dc)"
    unfolding dc using in_document_closed [OF object document] doc_key_closed [OF k]
    by (intro text_parts)
  show "dc_gin dc = Some g \<Longrightarrow> sql_closed T (gin_document g)"
    using document by (simp add: dc gin_serving_document)
qed

lemma contained_equality_closed:
  assumes "contained_equality c pt l r items = Inr (Some (g, pattern))" and "plain_aliases items"
  shows "sql_closed T (gin_document g)"
  using assms
  apply (auto simp: contained_equality_def gin_serving_document
      split: option.splits root.splits holds.splits)
      apply (blast intro: document_at_closed item_out_alias pg_qualified_closed)+
  done

lemma containment_numbered:
  assumes "containment_first c pt l op r items nx stand = Inr (Some (f, nx'))"
    and "plain_aliases items"
  shows "frag_numbered pt nx f nx'"
  using assms
  apply (auto simp: containment_first_def containment_def split: if_splits option.splits)
  apply (blast intro: containing_numbered contained_equality_closed)
  done

lemma document_opened_numbered:
  assumes "document_opened pt dc source predicate nx stand = Inr (written, inner, nx')"
    and "\<And>g. dc_gin dc = Some g \<Longrightarrow> sql_closed (type_names pt) (gin_document g)"
  shows "is_plain (it_alias inner)"
    and "case written of None \<Rightarrow> nx_param nx' = nx_param nx
      | Some (s, ps) \<Rightarrow> numbered pt nx s ps nx'"
  using assms(1)
   apply (auto simp: document_opened_def Let_def simp del: append_Cons
      split: option.splits stand.splits)
        apply (blast intro: is_plain_numbered singular_of_plain)+
  using assms
  apply (auto simp: document_opened_def Let_def simp del: append_Cons
      split: option.splits stand.splits)
  apply (blast intro: containing_numbered)+
  done

lemma document_closed_numbered:
  assumes inner: "is_plain (it_alias inner)" and array: "sql_closed (type_names pt) (dc_array dc)"
    and written: "case written of None \<Rightarrow> nx_param nx1 = nx_param nx
      | Some (s, ps) \<Rightarrow> numbered pt nx s ps nx1"
    and f: "frag_numbered pt nx1 f nx2"
  shows "frag_numbered pt nx (document_closed dc written inner f) nx2"
proof -
  let ?elements = "case dc_items dc of IObjects _ \<Rightarrow> ''jsonb_array_elements''
    | IValues _ \<Rightarrow> ''jsonb_array_elements_text''"
  let ?sql = "''EXISTS (SELECT 1 FROM '' @ ?elements @ ''('' @ if_array (dc_array dc)
      @ '') AS '' @ quoted (it_alias inner) @ '' WHERE '' @ fr_sql f @ '')''"
  have al: "sql_closed (type_names pt) (quoted (it_alias inner))"
    by (simp add: sql_closed_def sql_name inner)
  have el: "sql_closed (type_names pt) ?elements"
    by (simp add: words split: items.split)
  have sql: "numbered pt nx1 ?sql (fr_params f) nx2"
    by (rule numbered_left [OF words(27) numbered_left [OF el numbered_left [OF words(1)
          numbered_left [OF if_array_closed [OF array] numbered_left [OF words(29)
            numbered_left [OF al numbered_around [OF words(26) f words(2)]]]]]]])
  show ?thesis
  proof (cases written)
    case None
    then show ?thesis
      using sql written numbered_same [of nx nx1 pt]
      by (simp add: document_closed_def Let_def del: append_Cons)
  next
    case (Some w)
    obtain s ps where w: "w = (s, ps)" by fastforce
    have "numbered pt nx s ps nx1" using written Some w by simp
    then have "numbered pt nx (s @ '' AND '' @ ?sql) (ps @ fr_params f) nx2"
      by (rule numbered_append [OF _ numbered_left [OF words(7) sql]])
    then show ?thesis
      by (simp add: document_closed_def Let_def Some w del: append_Cons)
  qed
qed

lemma rows_opened_counts:
  assumes "rows_opened c source enclosing nx = Inr (relation, inner, nx')"
  shows "is_plain (it_alias inner)" and "nx_param nx' = nx_param nx"
proof -
  from assms obtain key :: "foreign_key option" and one where
    one: "(case key of Some key \<Rightarrow> singular_of (fk_table key) | None \<Rightarrow> singular_of (path_name source))
      = Inr one" and
    inner: "it_alias inner = one @ ''_'' @ show_nat (nx_alias nx + 1)" and
    nx': "nx' = nx\<lparr>nx_alias := nx_alias nx + 1\<rparr>"
    by (auto simp: rows_opened_def Let_def simp del: append_Cons)
  show "is_plain (it_alias inner)"
    using one unfolding inner
    by (cases key) (auto simp del: append_Cons intro!: is_plain_numbered dest: singular_of_plain)
  show "nx_param nx' = nx_param nx" by (simp add: nx')
qed

lemma rows_closed_numbered:
  assumes closed: "rows_closed c source enclosing items relation inner f = Inr g"
    and inner: "is_plain (it_alias inner)" and items: "plain_aliases items"
    and enclosing: "\<And>item. enclosing = Some item \<Longrightarrow> sql_closed (type_names pt) (quoted (it_alias item))"
    and f: "frag_numbered pt nx f nx'"
  shows "frag_numbered pt nx g nx'"
proof -
  have al: "sql_closed (type_names pt) (quoted (it_alias inner))"
    by (simp add: sql_closed_def sql_name inner)
  show ?thesis
  proof (cases relation)
    case None
    with closed obtain column where column: "pg_column c source items = Inr column"
      "g = frag_with f (''EXISTS (SELECT 1 FROM unnest('' @ column @ '') AS '' @ quoted (it_alias inner)
        @ '' WHERE '' @ fr_sql f @ '')'') ATOM"
      by (auto simp: rows_closed_def Let_def simp del: append_Cons)
    show ?thesis
      unfolding column(2) frag_params_simps
      by (rule numbered_left [OF words(28) numbered_left [OF pg_column_closed [OF column(1) items]
            numbered_left [OF words(29) numbered_left [OF al numbered_around [OF words(26) f words(2)]]]]])
  next
    case (Some r)
    obtain key s where r: "r = (key, s)" by fastforce
    from closed Some r obtain parent keys table where
      parent: "(case enclosing of Some item \<Rightarrow> Inr (quoted (it_alias item))
        | None \<Rightarrow> pg_qualified (schema_row s)) = Inr parent" and
      keys: "joined_keys (quoted (it_alias inner)) (fk_columns key) parent (fk_referenced_columns key)
        = Inr keys" and
      table: "pg_qualified (fk_table key) = Inr table" and
      g: "g = frag_with (within f and_precedence False)
        (''EXISTS (SELECT 1 FROM '' @ table @ '' AS '' @ quoted (it_alias inner) @ '' WHERE '' @ keys
          @ '' AND '' @ fr_sql (within f and_precedence False) @ '')'') ATOM"
      by (auto simp: rows_closed_def Let_def simp del: append_Cons)
    have "sql_closed (type_names pt) parent"
      using parent enclosing pg_qualified_closed by (auto split: option.splits)
    note keys' = joined_keys_closed [OF keys al this]
    show ?thesis
      unfolding g frag_params_simps(3,4)
      by (rule numbered_left [OF words(27) numbered_left [OF pg_qualified_closed [OF table]
            numbered_left [OF words(25) numbered_left [OF al numbered_left [OF words(26)
              numbered_left [OF keys'
                numbered_around [OF words(7) within_numbered [OF f] words(2)]]]]]]])
  qed
qed

subsection \<open>The condition\<close>

lemma render_postfixE:
  assumes "render c pt (EPostfix e op) items nx stand = Inr (f, nx')"
  obtains (member) p sql test where "null_test c op e items = Inr test" "e = EField p"
      "pg_member c p items nx ReadNullTest = Inr (sql, nx')"
      "f = postfix_fragment op (under_postfix pt e) test (frag_text sql)"
    | (operand) test operand where "null_test c op e items = Inr test"
      "render c pt e items nx OfValue = Inr (operand, nx')"
      "f = postfix_fragment op (under_postfix pt e) test operand"
proof -
  from assms obtain test where test: "null_test c op e items = Inr test" by auto
  show ?thesis
  proof (cases "\<exists>p. e = EField p")
    case True
    with assms test that(1) show ?thesis by auto
  next
    case False
    then have "render c pt (EPostfix e op) items nx stand =
        and_then (render c pt e items nx OfValue) (\<lambda>(operand, nx).
          Inr (postfix_fragment op (under_postfix pt e) test operand, nx))"
      using test by (cases e) (simp_all del: render.simps add: render.simps(5))
    with assms test that(2) show ?thesis by (auto simp del: render.simps)
  qed
qed

lemma render_numbered:
  "render c pt e items nx stand = Inr (f, nx') \<Longrightarrow> plain_aliases items \<Longrightarrow> frag_numbered pt nx f nx'"
proof (induction e arbitrary: items nx stand f nx')
  case (EValue v)
  then show ?case by (simp add: pg_constant_numbered)
next
  case (EField p)
  then show ?case by (auto dest!: pg_member_closed intro!: numbered_closed)
next
  case (EItem up)
  then show ?case by (auto dest!: pg_itself_closed intro!: numbered_closed)
next
  case (EPrefix op e)
  then show ?case by (auto intro: prefix_fragment_numbered)
next
  case (EPostfix e op)
  from EPostfix.prems(1) show ?case
  proof (cases rule: render_postfixE)
    case (member p sql test)
    then show ?thesis
      using pg_member_closed [OF member(3) EPostfix.prems(2)] null_test_closed [OF member(1)]
      by (simp only: postfix_fragment_numbered numbered_closed frag_params_simps)
  next
    case (operand test g)
    then show ?thesis
      using EPostfix.IH [OF operand(2) EPostfix.prems(2)] null_test_closed [OF operand(1)]
      by (simp only: postfix_fragment_numbered)
  qed
next
  case (EInfix l op r)
  from EInfix.prems(1) obtain done' where d: "containment_first c pt l op r items nx stand = Inr done'"
    by auto
  show ?case
  proof (cases done')
    case (Some result)
    with EInfix.prems d show ?thesis using containment_numbered by fastforce
  next
    case None
    with EInfix.prems(1) d obtain left nx1 right where
      "render c pt l items nx (infix_stand op stand) = Inr (left, nx1)"
      "render c pt r items nx1 (infix_stand op stand) = Inr (right, nx')"
      "f = infix_fragment pt l op r left right"
      by auto
    then show ?thesis
      using EInfix.IH EInfix.prems(2) infix_fragment_numbered by blast
  qed
next
  case (EAny source predicate)
  from EAny.prems(1) obtain enclosing collection where
    e: "enclosing_of source items = Inr enclosing" and
    d: "document_collection c source enclosing = Inr collection"
    by auto
  have enclosing: "sql_closed (type_names pt) (quoted (it_alias item))" if "enclosing = Some item" for item
    using e that EAny.prems(2) item_out_alias
    by (auto simp: enclosing_of_def split: root.splits)
  show ?case
  proof (cases collection)
    case (Some dc)
    with EAny.prems(1) e d obtain written inner nx1 p where
      o': "document_opened pt dc source predicate nx stand = Inr (written, inner, nx1)" and
      p: "render c pt predicate (inner # items) nx1 Truth = Inr (p, nx')" and
      f: "f = document_closed dc written inner p"
      by auto
    note dc = document_collection_closed [OF d [unfolded Some] enclosing]
    note inner = document_opened_numbered [OF o' dc(2)]
    have "frag_numbered pt nx1 p nx'"
      by (rule EAny.IH [OF p]) (use inner(1) EAny.prems(2) in \<open>simp add: plain_aliases_def\<close>)
    then show ?thesis
      unfolding f by (intro document_closed_numbered [OF inner(1) dc(1) inner(2)])
  next
    case None
    with EAny.prems(1) e d obtain relation inner nx1 p where
      o': "rows_opened c source enclosing nx = Inr (relation, inner, nx1)" and
      p: "render c pt predicate (inner # items) nx1 Truth = Inr (p, nx')" and
      f: "rows_closed c source enclosing items relation inner p = Inr f"
      by auto
    note inner = rows_opened_counts [OF o']
    have "frag_numbered pt nx1 p nx'"
      by (rule EAny.IH [OF p]) (use inner(1) EAny.prems(2) in \<open>simp add: plain_aliases_def\<close>)
    then show ?thesis
      using rows_closed_numbered [OF f inner(1) EAny.prems(2) enclosing] numbered_same [OF inner(2)]
      by blast
  qed
qed

end
