(* ===== verification/Pg_Constants.thy ===== *)
theory Pg_Constants
  imports Pg_Laws
begin

section \<open>The parameters are constants of the tree\<close>

text \<open>
  Every parameter of a condition is a constant of its tree, or a pattern of such constants.
\<close>

definition pattern_values :: "'v pattern \<Rightarrow> 'v set" where
  "pattern_values members = (\<Union>m \<in> set members. set_contained (snd m))"

lemma pattern_values_simps [simp]:
  "pattern_values [] = {}"
  "pattern_values (m # members) = set_contained (snd m) \<union> pattern_values members"
  "pattern_values (members @ others) = pattern_values members \<union> pattern_values others"
  by (auto simp: pattern_values_def)

lemma set_contained_simps:
  "set_contained (CConstant s v) = {v}"
  "set_contained (CObject members) = pattern_values members"
  "set_contained (CArray cs) = (\<Union>c \<in> set cs. set_contained c)"
  by (auto simp: pattern_values_def)

declare contained.set [simp del]

lemma merged_values:
  fixes a b :: "'v contained" and p q :: "'v pattern"
  shows
  "set_contained (contained_and a b) \<subseteq> set_contained a \<union> set_contained b"
  "pattern_values (pattern_and p q) \<subseteq> pattern_values p \<union> pattern_values q"
  "pattern_values (merge_member n c p) \<subseteq> set_contained c \<union> pattern_values p"
  by (induction a b and p q and n c p rule: contained_and_pattern_and_merge_member.induct)
    (auto simp: set_contained_simps)

lemma nested_values [simp]: "pattern_values (pattern_nested objects p) = pattern_values p"
  by (induction objects) (simp_all add: pattern_nested_def pattern_of_def set_contained_simps)

lemma pattern_equal_values: "pattern_equal pt layout names v = Some p \<Longrightarrow> pattern_values p = {v}"
  by (auto simp: pattern_equal_def pattern_of_def set_contained_simps
      split: if_splits option.splits member.splits)

lemma pattern_of_array_values:
  "pattern_of_array names cs = Some p \<Longrightarrow> pattern_values p = (\<Union>c \<in> set cs. set_contained c)"
  by (auto simp: pattern_of_array_def pattern_of_def set_contained_simps split: if_splits)

lemma or_none_values: "pattern_values (or_none p) = (case p of None \<Rightarrow> {} | Some p \<Rightarrow> pattern_values p)"
  by (simp add: or_none_def split: option.split)

lemma pattern_constants_values:
  "c \<in> set (pattern_constants pt e s) \<Longrightarrow> set_contained c \<subseteq> set_expr e"
  by (induction pt e s rule: pattern_constants.induct) (auto simp: set_contained_simps split: if_splits)

lemma equality_of_values: "equality_of l r = Some (p, v) \<Longrightarrow> v \<in> set_expr l \<union> set_expr r"
  by (auto simp: equality_of_def split: expr.splits)

lemma array_elements_values:
  assumes "\<And>layout. pattern_values (f layout) \<subseteq> set_expr predicate"
    and "c \<in> set (array_elements pt f predicate items)"
  shows "set_contained c \<subseteq> set_expr predicate"
  using assms pattern_constants_values
  by (fastforce simp: array_elements_def Let_def set_contained_simps
      split: items.splits option.splits if_splits)

lemma of_item_values: "pattern_values (of_item pt e layout) \<subseteq> set_expr e"
proof (induction pt e layout rule: of_item.induct)
  case (1 pt l r layout)
  then show ?case using merged_values(2) [of "of_item pt l layout" "of_item pt r layout"] by auto
next
  case (2 pt l r layout)
  then show ?case
    using equality_of_values [of l r]
    by (auto simp: or_none_values dest!: pattern_equal_values split: option.splits)
next
  case (3 pt source predicate layout)
  have "set_contained c \<subseteq> set_expr predicate"
    if "c \<in> set (array_elements pt (\<lambda>layout. of_item pt predicate layout) predicate items)"
      "path_root source = RItem 0" "collection_items layout (path_names source) = Some items" for c items
    by (rule array_elements_values [OF _ that(1)]) (rule "3.IH" [OF that(2,3)])
  then have "(\<Union>c \<in> set (array_elements pt (of_item pt predicate) predicate items). set_contained c)
      \<subseteq> set_expr predicate"
    if "path_root source = RItem 0" "collection_items layout (path_names source) = Some items" for items
    using that by blast
  then show ?case
    by (auto simp: or_none_values dest!: pattern_of_array_values split: option.splits) blast
qed auto

lemma parameter_values: "parameter pt v nx = Inr (s, ps, nx') \<Longrightarrow> set ps = {v}"
  by (auto simp: parameter_def Let_def split: if_splits)

lemma member_entry_values:
  assumes "and_then (doc_key name) (\<lambda>key. and_then (contained_json pt member nx) (\<lambda>(value, params, nx).
      and_then (object_entries pt members nx) (\<lambda>(entries, more, nx).
        Inr ((''jsonb_set('{}'::jsonb, ARRAY['' @ key @ ''], '' @ value @ '')'') # entries,
          params @ more, nx)))) = Inr (ss, ps, nx')"
    and "\<And>key s ps nx'. doc_key name = Inr key \<Longrightarrow> contained_json pt member nx = Inr (s, ps, nx')
      \<Longrightarrow> set ps \<subseteq> A"
    and "\<And>key a v b qs nx1 ss ps nx'. doc_key name = Inr key
      \<Longrightarrow> contained_json pt member nx = Inr a \<Longrightarrow> (v, b) = a \<Longrightarrow> (qs, nx1) = b
      \<Longrightarrow> object_entries pt members nx1 = Inr (ss, ps, nx') \<Longrightarrow> set ps \<subseteq> B"
  shows "set ps \<subseteq> A \<union> B"
proof -
  from assms(1) obtain key v qs nx1 ss' rs where
    *: "doc_key name = Inr key" "contained_json pt member nx = Inr (v, qs, nx1)"
      "object_entries pt members nx1 = Inr (ss', rs, nx')" "ps = qs @ rs"
    by (auto simp del: append_Cons)
  show ?thesis
    using assms(2) [OF *(1,2)] assms(3) [OF *(1,2) refl refl *(3)] *(4) by auto
qed

lemma json_values:
  fixes pt :: "'v param_type"
  shows
  "contained_json pt c nx = Inr (s, ps, nx') \<Longrightarrow> set ps \<subseteq> set_contained c"
  "object_entries pt members nx = Inr (ss, ps, nx') \<Longrightarrow> set ps \<subseteq> pattern_values members"
  "array_items pt cs nx = Inr (ss, ps, nx') \<Longrightarrow> set ps \<subseteq> (\<Union>c \<in> set cs. set_contained c)"
proof (induction pt c nx and pt members nx and pt cs nx arbitrary: s ps nx' and ss ps nx'
    and ss ps nx' rule: contained_json_object_entries_array_items.induct)
  case "6_1"
  show ?case
    using member_entry_values [OF "6_1.prems" [unfolded object_entries.simps] "6_1.IH"] by simp
next
  case "6_2"
  show ?case
    using member_entry_values [OF "6_2.prems" [unfolded object_entries.simps] "6_2.IH"] by simp
next
  case "6_3"
  show ?case
    using member_entry_values [OF "6_3.prems" [unfolded object_entries.simps] "6_3.IH"] by simp
next
  case "6_4"
  show ?case
    using member_entry_values [OF "6_4.prems" [unfolded object_entries.simps] "6_4.IH"] by simp
next
  case (3 pt items nx)
  then obtain written where "array_items pt items nx = Inr (written, ps, nx')" by auto
  from "3.IH" [OF this] show ?case by (simp add: set_contained_simps)
next
  case (5 pt name v members nx)
  then obtain key param qs nx1 ss' rs where
    *: "doc_key name = Inr key" "parameter pt v nx = Inr (param, qs, nx1)"
      "object_entries pt members nx1 = Inr (ss', rs, nx')" "ps = qs @ rs"
    by (auto simp del: append_Cons)
  show ?case
    using "5.IH" [OF *(1,2) refl refl *(3)] parameter_values [OF *(2)] *(4)
    by (auto simp: set_contained_simps)
next
  case (8 pt item items nx)
  then obtain v qs nx1 ss' rs where
    *: "contained_json pt item nx = Inr (v, qs, nx1)" "array_items pt items nx1 = Inr (ss', rs, nx')"
      "ps = qs @ rs"
    by auto
  show ?case
    using "8.IH"(1) [OF *(1)] "8.IH"(2) [OF *(1) refl refl *(2)] *(3) by auto
qed (auto simp: set_contained_simps simp del: append_Cons dest!: parameter_values)

lemma pattern_at_values: "pattern_at members names = Some c \<Longrightarrow> set_contained c \<subseteq> pattern_values members"
  by (induction members names rule: pattern_at.induct)
    (fastforce simp: set_contained_simps split: list.splits prod.splits contained.splits if_splits)+

lemma containing_values:
  "containing pt members document at nx = Inr (Some (s, ps, nx')) \<Longrightarrow> set ps \<subseteq> pattern_values members"
  by (auto simp: containing_def pattern_object_def simp del: append_Cons
      split: if_splits option.splits dest!: json_values pattern_at_values)

lemma containment_first_values:
  assumes "containment_first c pt l op r items nx stand = Inr (Some (f, nx'))"
  shows "set (fr_params f) \<subseteq> set_expr l \<union> set_expr r"
proof -
  from assms obtain g :: gin and pattern s ps where
    *: "contained_equality c pt l r items = Inr (Some (g, pattern))"
      "containing pt pattern (gin_document g) (gin_at g) nx = Inr (Some (s, ps, nx'))"
      "fr_params f = ps"
    by (auto simp: containment_first_def containment_def split: if_splits option.splits)
  from *(1) obtain p v and en :: entered where "equality_of l r = Some (p, v)"
    "pattern_equal pt (en_layout en) (en_names en) v = Some pattern"
    by (auto simp: contained_equality_def split: option.splits)
  then show ?thesis
    using containing_values [OF *(2)] *(3) pattern_equal_values equality_of_values by fastforce
qed

lemma document_opened_values:
  assumes "document_opened pt dc source predicate nx stand = Inr (Some (s, ps), inner, nx')"
  shows "set ps \<subseteq> set_expr predicate"
proof -
  from assms obtain g :: gin and pattern nx1 where
    *: "pattern_of_array (gin_names g) (pattern_elements pt predicate (dc_items dc)) = Some pattern"
      "containing pt pattern (gin_document g) (gin_at g) nx = Inr (Some (s, ps, nx1))"
    by (auto simp: document_opened_def Let_def simp del: append_Cons split: option.splits stand.splits)
  have "set_contained c \<subseteq> set_expr predicate"
    if "c \<in> set (pattern_elements pt predicate (dc_items dc))" for c
    by (rule array_elements_values [OF of_item_values that [unfolded pattern_elements_def]])
  then show ?thesis
    using containing_values [OF *(2)] pattern_of_array_values [OF *(1)] by blast
qed

lemma document_closed_params:
  "fr_params (document_closed dc written inner f) =
    (case written of None \<Rightarrow> [] | Some (s, ps) \<Rightarrow> ps) @ fr_params f"
  by (simp add: document_closed_def Let_def split: option.split)

lemma rows_closed_params:
  "rows_closed c source enclosing items relation inner f = Inr g \<Longrightarrow> fr_params g = fr_params f"
  by (auto simp: rows_closed_def Let_def simp del: append_Cons split: option.splits prod.splits)

lemma pg_itself_params: "pg_itself up items nx = Inr (f, nx') \<Longrightarrow> fr_params f = []"
  by (auto simp: pg_itself_def)

lemma render_values:
  "render c pt e items nx stand = Inr (f, nx') \<Longrightarrow> set (fr_params f) \<subseteq> set_expr e"
proof (induction e arbitrary: items nx stand f nx')
  case (EValue v)
  then show ?case by (auto simp: pg_constant_def Let_def split: if_splits)
next
  case (EItem up)
  then show ?case by (simp add: pg_itself_params)
next
  case (EPostfix e op)
  from EPostfix.prems obtain test operand where
    "f = postfix_fragment op (under_postfix pt e) test operand"
    "fr_params operand = [] \<or> render c pt e items nx OfValue = Inr (operand, nx')"
    by (rule render_postfixE) auto
  then show ?case using EPostfix.IH [of items nx OfValue operand nx'] by auto
next
  case (EInfix l op r)
  from EInfix.prems obtain done' where d: "containment_first c pt l op r items nx stand = Inr done'"
    by auto
  show ?case
  proof (cases done')
    case (Some result)
    with EInfix.prems d show ?thesis using containment_first_values by fastforce
  next
    case None
    with EInfix d show ?thesis by fastforce
  qed
next
  case (EAny source predicate)
  from EAny.prems obtain enclosing collection where
    "enclosing_of source items = Inr enclosing"
    "document_collection c source enclosing = Inr collection"
    by auto
  with EAny show ?case
    by (cases collection)
      (fastforce simp: document_closed_params rows_closed_params split: option.splits prod.splits
        dest: document_opened_values)+
qed fastforce+

end
