(* ===== verification/Pg_Blind.thy ===== *)
theory Pg_Blind
  imports Pg_Constants
begin

section \<open>The text does not depend on the constants\<close>

text \<open>
  A change of the constants that keeps the type each is written with, and whether it is a text with
  a NUL, commutes with every function of the compiler: the text is the same, and the parameters are
  the changed ones.
\<close>

definition same_types :: "'v param_type \<Rightarrow> ('v \<Rightarrow> 'v) \<Rightarrow> bool" where
  "same_types pt f \<longleftrightarrow>
     (\<forall>v. pt_type pt (f v) = pt_type pt v \<and> pt_nul_in_text pt (f v) = pt_nul_in_text pt v)"

lemma same_types_simps:
  "same_types pt f \<Longrightarrow> pt_type pt (f v) = pt_type pt v"
  "same_types pt f \<Longrightarrow> pt_nul_in_text pt (f v) = pt_nul_in_text pt v"
  by (simp_all add: same_types_def)

definition map_pattern :: "('v \<Rightarrow> 'v) \<Rightarrow> 'v pattern \<Rightarrow> 'v pattern" where
  "map_pattern f members = map (\<lambda>(name, c). (name, map_contained f c)) members"

lemma map_pattern_simps [simp]:
  "map_pattern f [] = []" "map_pattern f ((name, c) # ms) = (name, map_contained f c) # map_pattern f ms"
  "map_pattern f members = [] \<longleftrightarrow> members = []"
  by (simp_all add: map_pattern_def)

lemma map_contained_simps:
  "map_contained f (CConstant s v) = CConstant s (f v)"
  "map_contained f (CObject members) = CObject (map_pattern f members)"
  "map_contained f (CArray cs) = CArray (map (map_contained f) cs)"
  by (simp_all add: map_pattern_def map_prod_def)

declare contained.map [simp del]
declare map_contained_simps [simp]

lemma merged_mapped:
  fixes a b :: "'v contained" and p q :: "'v pattern"
  shows
  "map_contained f (contained_and a b) = contained_and (map_contained f a) (map_contained f b)"
  "map_pattern f (pattern_and p q) = pattern_and (map_pattern f p) (map_pattern f q)"
  "map_pattern f (merge_member n c p) = merge_member n (map_contained f c) (map_pattern f p)"
  by (induction a b and p q and n c p rule: contained_and_pattern_and_merge_member.induct) simp_all

lemma nested_mapped:
  "map_pattern f (pattern_nested objects p) = pattern_nested objects (map_pattern f p)"
  by (induction objects) (simp_all add: pattern_nested_def pattern_of_def)

lemma map_pattern_of: "map_pattern f (pattern_of n c) = pattern_of n (map_contained f c)"
  by (simp add: pattern_of_def)

lemma pattern_equal_mapped:
  "same_types pt f \<Longrightarrow>
     pattern_equal pt layout names (f v) = map_option (map_pattern f) (pattern_equal pt layout names v)"
  by (auto simp: pattern_equal_def nested_mapped map_pattern_of same_types_simps
      split: option.split member.split)

lemma pattern_of_array_mapped:
  "pattern_of_array names (map (map_contained f) cs) = map_option (map_pattern f) (pattern_of_array names cs)"
  by (simp add: pattern_of_array_def nested_mapped map_pattern_of)

lemma pattern_constants_mapped:
  "same_types pt f \<Longrightarrow>
     pattern_constants pt (map_expr f e) s = map (map_contained f) (pattern_constants pt e s)"
  by (induction pt e s rule: pattern_constants.induct) (simp_all add: same_types_simps)

lemma equality_of_mapped:
  "equality_of (map_expr f l) (map_expr f r) = map_option (\<lambda>(p, v). (p, f v)) (equality_of l r)"
  by (simp add: equality_of_def split: expr.split)

lemma or_none_mapped: "or_none (map_option (map_pattern f) p) = map_pattern f (or_none p)"
  by (simp add: or_none_def split: option.split)

lemma array_elements_mapped:
  assumes "same_types pt f" and "\<And>layout. g' layout = map_pattern f (g layout)"
  shows "array_elements pt g' (map_expr f predicate) items =
    map (map_contained f) (array_elements pt g predicate items)"
  using assms
  by (simp add: array_elements_def Let_def pattern_constants_mapped split: items.split option.split)

lemma of_item_mapped:
  "same_types pt f \<Longrightarrow> of_item pt (map_expr f e) layout = map_pattern f (of_item pt e layout)"
proof (induction pt e layout rule: of_item.induct)
  case (2 pt l r layout)
  then show ?case
    by (simp add: equality_of_mapped pattern_equal_mapped or_none_mapped split: option.split)
next
  case (3 pt source predicate layout)
  show ?case
  proof (cases "path_root source = RItem 0")
    case root: True
    show ?thesis
    proof (cases "collection_items layout (path_names source)")
      case (Some items)
      have "array_elements pt (of_item pt (map_expr f predicate)) (map_expr f predicate) items =
          map (map_contained f) (array_elements pt (of_item pt predicate) predicate items)"
        by (rule array_elements_mapped [OF "3.prems"]) (rule "3.IH" [OF root Some "3.prems"])
      then show ?thesis using root Some by (simp add: pattern_of_array_mapped or_none_mapped)
    qed (simp add: root)
  qed simp
qed (simp_all add: merged_mapped)

lemma pattern_elements_mapped:
  "same_types pt f \<Longrightarrow> pattern_elements pt (map_expr f predicate) items =
     map (map_contained f) (pattern_elements pt predicate items)"
  unfolding pattern_elements_def by (rule array_elements_mapped) (simp_all add: of_item_mapped)

subsection \<open>The text of a pattern\<close>

lemma and_then_map_ok: "and_then (map_ok g r) h = and_then r (\<lambda>a. h (g a))"
  by (cases r) simp_all

lemma map_ok_and_then: "map_ok g (and_then r h) = and_then r (\<lambda>a. map_ok g (h a))"
  by (cases r) simp_all

definition map_params :: "('v \<Rightarrow> 'v) \<Rightarrow> 'a \<times> 'v list \<times> counts \<Rightarrow> 'a \<times> 'v list \<times> counts" where
  "map_params f = (\<lambda>(s, ps, nx). (s, map f ps, nx))"

lemma map_params_simp [simp]: "map_params f (s, ps, nx) = (s, map f ps, nx)"
  by (simp add: map_params_def)

lemma parameter_mapped:
  "same_types pt f \<Longrightarrow> parameter pt (f v) nx = map_ok (map_params f) (parameter pt v nx)"
  by (simp add: parameter_def same_types_simps Let_def)

lemma map_params_case:
  "(case map_params f a of (s, ps, nx) \<Rightarrow> h s ps nx) = (case a of (s, ps, nx) \<Rightarrow> h s (map f ps) nx)"
  by (cases a) simp

lemma map_ok_case:
  "map_ok g (case a of (s, ps, nx) \<Rightarrow> h s ps nx) = (case a of (s, ps, nx) \<Rightarrow> map_ok g (h s ps nx))"
  by (cases a) simp

lemmas mapped_results = and_then_map_ok map_ok_and_then map_params_case map_ok_case

definition member_entry ::
  "'v param_type \<Rightarrow> string \<Rightarrow> 'v contained \<Rightarrow> 'v pattern \<Rightarrow> counts
    \<Rightarrow> (compile_error, string list \<times> 'v list \<times> counts) result" where
  "member_entry pt name member members nx =
     and_then (doc_key name) (\<lambda>key. and_then (contained_json pt member nx) (\<lambda>(value, params, nx).
       and_then (object_entries pt members nx) (\<lambda>(entries, more, nx).
         Inr ((''jsonb_set('{}'::jsonb, ARRAY['' @ key @ ''], '' @ value @ '')'') # entries,
           params @ more, nx))))"

lemma member_entry_mapped:
  assumes "\<And>key. doc_key name = Inr key \<Longrightarrow>
      contained_json pt (map_contained f member) nx = map_ok (map_params f) (contained_json pt member nx)"
    and "\<And>key a v b qs nx1. doc_key name = Inr key
      \<Longrightarrow> contained_json pt member nx = Inr a \<Longrightarrow> (v, b) = a \<Longrightarrow> (qs, nx1) = b
      \<Longrightarrow> object_entries pt (map_pattern f members) nx1 = map_ok (map_params f) (object_entries pt members nx1)"
  shows "member_entry pt name (map_contained f member) (map_pattern f members) nx =
    map_ok (map_params f) (member_entry pt name member members nx)"
  using assms
  by (cases "doc_key name"; cases "contained_json pt member nx") (auto simp: member_entry_def mapped_results)

lemma object_entries_member:
  "(\<And>v. member \<noteq> CConstant SText v) \<Longrightarrow>
     object_entries pt ((name, member) # members) nx = member_entry pt name member members nx"
  by (cases "(pt, (name, member) # members, nx)" rule: object_entries.cases) (auto simp: member_entry_def)

lemma json_mapped:
  fixes pt :: "'v param_type"
  assumes "same_types pt f"
  shows
  "contained_json pt (map_contained f c) nx = map_ok (map_params f) (contained_json pt c nx)"
  "object_entries pt (map_pattern f members) nx = map_ok (map_params f) (object_entries pt members nx)"
  "array_items pt (map (map_contained f) cs) nx = map_ok (map_params f) (array_items pt cs nx)"
  using assms
proof (induction pt c nx and pt members nx and pt cs nx
    rule: contained_json_object_entries_array_items.induct)
  case (1 pt s v nx)
  then show ?case by (simp add: parameter_mapped mapped_results)
next
  case (5 pt name v members nx)
  then show ?case
    by (cases "doc_key name"; cases "parameter pt v nx") (auto simp: parameter_mapped mapped_results)
next
  case "6_1"
  then show ?case
    using member_entry_mapped [OF "6_1.IH"(1) [OF _ "6_1.prems"] "6_1.IH"(2) [OF _ _ _ _ "6_1.prems"]]
    by (simp del: object_entries.simps contained_json.simps add: object_entries_member)
next
  case "6_2"
  then show ?case
    using member_entry_mapped [OF "6_2.IH"(1) [OF _ "6_2.prems"] "6_2.IH"(2) [OF _ _ _ _ "6_2.prems"]]
    by (simp del: object_entries.simps contained_json.simps add: object_entries_member)
next
  case "6_3"
  then show ?case
    using member_entry_mapped [OF "6_3.IH"(1) [OF _ "6_3.prems"] "6_3.IH"(2) [OF _ _ _ _ "6_3.prems"]]
    by (simp del: object_entries.simps contained_json.simps add: object_entries_member)
next
  case "6_4"
  then show ?case
    using member_entry_mapped [OF "6_4.IH"(1) [OF _ "6_4.prems"] "6_4.IH"(2) [OF _ _ _ _ "6_4.prems"]]
    by (simp del: object_entries.simps contained_json.simps add: object_entries_member)
next
  case (8 pt item items nx)
  then show ?case by (cases "contained_json pt item nx") (auto simp: mapped_results)
qed (auto simp: mapped_results intro!: and_then_cong)

lemma pattern_at_mapped:
  "pattern_at (map_pattern f members) names = map_option (map_contained f) (pattern_at members names)"
  by (induction members names rule: pattern_at.induct)
    (auto split: list.split prod.split contained.split simp: map_pattern_def)

lemma containing_mapped:
  assumes "same_types pt f"
  shows "containing pt (map_pattern f members) document at nx =
    map_ok (map_option (map_params f)) (containing pt members document at nx)"
proof (cases "at = []")
  case True
  then show ?thesis
    using json_mapped(2) [OF assms, of members nx]
    by (cases "object_entries pt members nx")
      (auto simp: containing_def pattern_object_def mapped_results)
next
  case False
  then show ?thesis
    using assms
    by (auto simp: containing_def pattern_at_mapped json_mapped mapped_results split: option.split
        intro!: and_then_cong)
qed

subsection \<open>The condition\<close>

definition map_fragment :: "('v \<Rightarrow> 'v) \<Rightarrow> 'v fragment \<Rightarrow> 'v fragment" where
  "map_fragment f fr = fr\<lparr>fr_params := map f (fr_params fr)\<rparr>"

lemma map_fragment_simps [simp]:
  "fr_sql (map_fragment f fr) = fr_sql fr" "fr_params (map_fragment f fr) = map f (fr_params fr)"
  "fr_prec (map_fragment f fr) = fr_prec fr"
  by (simp_all add: map_fragment_def)

lemma map_fragment_none: "fr_params fr = [] \<Longrightarrow> map_fragment f fr = fr"
  by (simp add: map_fragment_def)

lemma fragments_mapped:
  "within (map_fragment f fr) p apart = map_fragment f (within fr p apart)"
  "of_type (map_fragment f fr) t = map_fragment f (of_type fr t)"
  "frag_with (map_fragment f fr) sql p = map_fragment f (frag_with fr sql p)"
  "frag_and (map_fragment f fr) (map f ps) = map_fragment f (frag_and fr ps)"
  "frag_text sql = map_fragment f (frag_text sql)"
  "prefix_fragment op t (map_fragment f fr) = map_fragment f (prefix_fragment op t fr)"
  "postfix_fragment pop t test (map_fragment f fr) = map_fragment f (postfix_fragment pop t test fr)"
  by (simp_all add: within_def of_type_def frag_with_def frag_and_def frag_text_def map_fragment_def
      prefix_fragment_def postfix_fragment_def Let_def split: option.split prefix_op.split)

lemma under_mapped:
  assumes "same_types pt f"
  shows "under_prefix pt op (map_expr f e) = under_prefix pt op e"
    "under_postfix pt (map_expr f e) = under_postfix pt e"
    "of_both pt (map_expr f l) iop (map_expr f r) = of_both pt l iop r"
    "is_a_count_to_cast iop (map_expr f r) = is_a_count_to_cast iop r"
  using assms
  by (simp_all add: under_prefix_def under_postfix_def of_both_def is_a_count_to_cast_def
      same_types_simps split: expr.split)

lemma infix_fragment_mapped:
  assumes "same_types pt f"
  shows "infix_fragment pt (map_expr f l) op (map_expr f r) (map_fragment f a) (map_fragment f b) =
    map_fragment f (infix_fragment pt l op r a b)"
  using assms
  by (simp add: infix_fragment_def under_mapped fragments_mapped(1-4) Let_def split: prod.split
      flip: fragments_mapped(4))

lemma null_test_mapped: "null_test c op (map_expr f e) items = null_test c op e items"
  by (simp add: null_test_def is_composite_column_def split: expr.split)

lemma contained_equality_mapped:
  assumes "same_types pt f"
  shows "contained_equality c pt (map_expr f l) (map_expr f r) items =
    map_ok (map_option (\<lambda>(g, pattern). (g, map_pattern f pattern))) (contained_equality c pt l r items)"
  using assms
  by (auto simp: contained_equality_def equality_of_mapped pattern_equal_mapped mapped_results
      option.map_comp comp_def split: option.split intro!: and_then_cong)

lemma containment_first_mapped:
  assumes "same_types pt f"
  shows "containment_first c pt (map_expr f l) op (map_expr f r) items nx stand =
    map_ok (map_option (\<lambda>(fr, nx). (map_fragment f fr, nx)))
      (containment_first c pt l op r items nx stand)"
  using assms
  by (auto simp: containment_first_def containment_def contained_equality_mapped containing_mapped
      mapped_results option.map_comp comp_def map_fragment_def split_def map_params_def
      split: option.split intro!: and_then_cong)

definition map_written :: "('v \<Rightarrow> 'v) \<Rightarrow> (string \<times> 'v list) option \<Rightarrow> (string \<times> 'v list) option" where
  "map_written f = map_option (\<lambda>(s, ps). (s, map f ps))"

lemma document_opened_mapped:
  assumes "same_types pt f"
  shows "document_opened pt dc source (map_expr f predicate) nx stand =
    map_ok (\<lambda>(written, inner, nx). (map_written f written, inner, nx))
      (document_opened pt dc source predicate nx stand)"
proof -
  let ?found = "case (stand, dc_gin dc) of
      (Truth, Some gin) \<Rightarrow> map_option (\<lambda>pattern. (gin, pattern))
        (pattern_of_array (gin_names gin) (pattern_elements pt predicate (dc_items dc)))
    | _ \<Rightarrow> None"
  have found: "(case (stand, dc_gin dc) of
      (Truth, Some gin) \<Rightarrow> map_option (\<lambda>pattern. (gin, pattern))
        (pattern_of_array (gin_names gin) (pattern_elements pt (map_expr f predicate) (dc_items dc)))
    | _ \<Rightarrow> None) = map_option (\<lambda>(g, p). (g, map_pattern f p)) ?found"
    using assms
    by (simp add: pattern_elements_mapped pattern_of_array_mapped option.map_comp comp_def
        split: stand.split option.split)
  show ?thesis
  proof (cases ?found)
    case None
    then show ?thesis
      unfolding document_opened_def found by (simp add: Let_def map_ok_and_then map_written_def)
  next
    case (Some gp)
    obtain g p where gp: "gp = (g, p)" by fastforce
    show ?thesis
      using assms unfolding document_opened_def found Some gp
      by (cases "containing pt p (gin_document g) (gin_at g) nx")
        (auto simp: containing_mapped Let_def map_ok_and_then map_written_def split: option.split)
  qed
qed

lemma document_closed_mapped:
  "document_closed dc (map_written f written) inner (map_fragment f fr) =
     map_fragment f (document_closed dc written inner fr)"
  by (simp add: document_closed_def Let_def map_written_def map_fragment_def frag_with_def frag_and_def
      split: option.split prod.split)

lemma rows_closed_mapped:
  "rows_closed c source enclosing items relation inner (map_fragment f fr) =
     map_ok (map_fragment f) (rows_closed c source enclosing items relation inner fr)"
  by (auto simp: rows_closed_def Let_def fragments_mapped(1,3) mapped_results
      split: option.split prod.split intro!: and_then_cong)

definition map_rendered :: "('v \<Rightarrow> 'v) \<Rightarrow> 'v fragment \<times> counts \<Rightarrow> 'v fragment \<times> counts" where
  "map_rendered f = (\<lambda>(fr, nx). (map_fragment f fr, nx))"

lemma map_rendered_simp [simp]: "map_rendered f (fr, nx) = (map_fragment f fr, nx)"
  by (simp add: map_rendered_def)

lemma map_rendered_case:
  "(case map_rendered f a of (fr, nx) \<Rightarrow> h fr nx) = (case a of (fr, nx) \<Rightarrow> h (map_fragment f fr) nx)"
  by (cases a) simp

lemma render_member_mapped:
  "and_then (pg_member c p items nx reading) (\<lambda>(sql, nx). Inr (frag_text sql, nx)) =
     map_ok (map_rendered f)
       (and_then (pg_member c p items nx reading) (\<lambda>(sql, nx). Inr (frag_text sql, nx)))"
  by (auto simp: map_ok_and_then map_fragment_def frag_text_def intro!: and_then_cong)

lemma render_mapped:
  assumes "same_types pt f"
  shows "render c pt (map_expr f e) items nx stand = map_ok (map_rendered f) (render c pt e items nx stand)"
proof (induction e arbitrary: items nx stand)
  case (EValue v)
  then show ?case
    using assms by (simp add: pg_constant_def same_types_simps Let_def map_fragment_def)
next
  case (EField p)
  then show ?case using render_member_mapped by simp
next
  case (EItem up)
  then show ?case
    by (auto simp: pg_itself_def map_ok_and_then map_fragment_def frag_text_def intro!: and_then_cong)
next
  case (EPrefix op e)
  then show ?case
    by (auto simp: mapped_results(1,2) map_rendered_case under_mapped [OF assms] fragments_mapped
        intro!: and_then_cong)
next
  case (EPostfix e op)
  show ?case
  proof (cases "\<exists>p. e = EField p")
    case True
    then show ?thesis
      by (auto simp: map_ok_and_then map_fragment_none under_postfix_def intro!: and_then_cong)
  next
    case False
    have unfolded: "render c pt (EPostfix e' op) items nx stand =
        and_then (null_test c op e' items) (\<lambda>test. and_then (render c pt e' items nx OfValue)
          (\<lambda>(operand, nx). Inr (postfix_fragment op (under_postfix pt e') test operand, nx)))"
      if "\<nexists>p. e' = EField p" for e'
      using that by (cases e') (simp_all del: render.simps add: render.simps(5))
    have "\<nexists>p. map_expr f e = EField p" using False by (cases e) auto
    with False show ?thesis
      by (auto simp: unfolded mapped_results(1,2) map_rendered_case under_mapped [OF assms]
          null_test_mapped fragments_mapped(7) EPostfix.IH simp del: render.simps intro!: and_then_cong)
  qed
next
  case (EInfix l op r)
  show ?case
  proof (cases "containment_first c pt l op r items nx stand")
    case (Inr done')
    then show ?thesis
      by (cases done')
        (auto simp: containment_first_mapped [OF assms] EInfix.IH mapped_results(1,2) map_rendered_case
          infix_fragment_mapped [OF assms] intro!: and_then_cong)
  qed (simp add: containment_first_mapped [OF assms])
next
  case (EAny source predicate)
  show ?case
    by (auto simp: mapped_results(1,2) EAny.IH document_opened_mapped [OF assms] map_rendered_case
        document_closed_mapped rows_closed_mapped split: option.split intro!: and_then_cong)
qed

end
