(* ===== verification/Pg_Grouping.thy ===== *)
theory Pg_Grouping
  imports Pg_Laws
begin

section \<open>The grouping of a condition\<close>

text \<open>
  The text of a condition as the tree of operators it is written from, with the parentheses that
  are in it. \<open>grouped\<close> is the rule by which PostgreSQL reads a text without more parentheses than
  these back as the tree: an operand binds tighter than its operator, or as tight on the side the
  operator associates to. \<open>AND\<close> and \<open>OR\<close> may stand on either side of themselves, as what they are
  of does not depend on how they are grouped.
\<close>

datatype sx =
    SAtom string
  | SParens sx
  | SCast sx string
  | SPrefix prefix_op sx
  | SPostfix sx string
  | SInfix sx infix_op sx
  | SContains string
  | SKeys string
  | SExists string sx string

fun sx_prec :: "sx \<Rightarrow> nat" where
  "sx_prec (SPrefix op _) = prefix_precedence op"
| "sx_prec (SPostfix _ _) = postfix_precedence IsNull"
| "sx_prec (SInfix _ op _) = fst (infix_precedence op)"
| "sx_prec (SContains _) = OTHER"
| "sx_prec (SKeys _) = and_precedence"
| "sx_prec _ = ATOM"

fun spell :: "sx \<Rightarrow> string" where
  "spell (SAtom s) = s"
| "spell (SParens t) = ''('' @ spell t @ '')''"
| "spell (SCast t type) = spell t @ ''::'' @ type"
| "spell (SPrefix PNot t) = ''NOT '' @ spell t"
| "spell (SPrefix PNeg t) = ''-'' @ spell t"
| "spell (SPostfix t test) = spell t @ '' '' @ test"
| "spell (SInfix l op r) = spell l @ '' '' @ spelling op @ '' '' @ spell r"
| "spell (SContains s) = s"
| "spell (SKeys s) = s"
| "spell (SExists before t after) = before @ spell t @ after"

text \<open>An operand of an operator of this precedence, on the side it associates to or not.\<close>

definition stands_in :: "sx \<Rightarrow> nat \<Rightarrow> bool \<Rightarrow> bool" where
  "stands_in t p same_side \<longleftrightarrow> p < sx_prec t \<or> (p = sx_prec t \<and> same_side)"

fun grouped :: "sx \<Rightarrow> bool" where
  "grouped (SParens t) \<longleftrightarrow> grouped t"
| "grouped (SCast t _) \<longleftrightarrow> grouped t \<and> stands_in t CAST True"
| "grouped (SPrefix op t) \<longleftrightarrow> grouped t \<and> stands_in t (prefix_precedence op) (op = PNot)"
| "grouped (SPostfix t _) \<longleftrightarrow> grouped t \<and> stands_in t (postfix_precedence IsNull) False"
| "grouped (SInfix l op r) \<longleftrightarrow> grouped l \<and> grouped r
     \<and> stands_in l (fst (infix_precedence op)) (snd (infix_precedence op) = AssocLeft \<or> regroups op)
     \<and> stands_in r (fst (infix_precedence op)) (snd (infix_precedence op) = AssocRight \<or> regroups op)"
| "grouped (SExists _ t _) \<longleftrightarrow> grouped t"
| "grouped _ \<longleftrightarrow> True"

text \<open>\<open>of_tree t e\<close>: the text is \<open>e\<close>, operator by operator.\<close>

inductive of_tree :: "sx \<Rightarrow> 'v expr \<Rightarrow> bool" where
  of_value: "of_tree (SAtom s) (EValue v)"
| of_field: "of_tree (SAtom s) (EField p)"
| of_itself: "of_tree (SAtom s) (EItem up)"
| of_parens: "of_tree t e \<Longrightarrow> of_tree (SParens t) e"
| of_cast: "of_tree t e \<Longrightarrow> of_tree (SCast t type) e"
| of_prefix: "of_tree t e \<Longrightarrow> of_tree (SPrefix op t) (EPrefix op e)"
| of_postfix: "of_tree t e \<Longrightarrow>
    test \<in> {show_postfix op, if op = IsNull then ''IS NOT DISTINCT FROM NULL''
      else ''IS DISTINCT FROM NULL''} \<Longrightarrow> of_tree (SPostfix t test) (EPostfix e op)"
| of_infix: "of_tree l a \<Longrightarrow> of_tree r b \<Longrightarrow> of_tree (SInfix l op r) (EInfix a op b)"
| of_equality: "equality_of a b \<noteq> None \<Longrightarrow>
    of_tree (SContains s) (EInfix a (IComparison CEq) b)"
| of_items: "of_tree t predicate \<Longrightarrow> of_tree (SExists before t after) (EAny source predicate)"
| of_rows: "of_tree t predicate \<Longrightarrow>
    of_tree (SExists before (SInfix (SKeys keys) (ILogical LAnd) t) after) (EAny source predicate)"
| of_indexed: "of_tree t (EAny source predicate) \<Longrightarrow>
    of_tree (SInfix (SContains s) (ILogical LAnd) t) (EAny source predicate)"

definition reads :: "'v fragment \<Rightarrow> 'v expr \<Rightarrow> bool" where
  "reads f e \<longleftrightarrow> (\<exists>t. spell t = fr_sql f \<and> sx_prec t = fr_prec f \<and> grouped t \<and> of_tree t e)"

lemma readsI: "spell t = fr_sql f \<Longrightarrow> sx_prec t = fr_prec f \<Longrightarrow> grouped t \<Longrightarrow> of_tree t e \<Longrightarrow> reads f e"
  by (auto simp: reads_def)

lemma precedences:
  "prefix_precedence op < ATOM" "postfix_precedence pop < ATOM" "fst (infix_precedence iop) < ATOM"
  "CAST < ATOM" "OTHER < CAST" "prefix_precedence op < CAST" "postfix_precedence pop < CAST"
  "fst (infix_precedence iop) < CAST" "and_precedence < CAST"
proof -
  show "fst (infix_precedence iop) < ATOM" "fst (infix_precedence iop) < CAST"
    by (cases iop rule: infix_precedence.cases; simp add: ATOM_def CAST_def OTHER_def)+
  show "prefix_precedence op < ATOM" "prefix_precedence op < CAST"
    by (cases op; simp add: ATOM_def CAST_def)+
qed (simp_all add: ATOM_def CAST_def OTHER_def postfix_precedence_def and_precedence_def)

lemma sx_prec_cast: "CAST \<le> sx_prec t \<Longrightarrow> sx_prec t = ATOM"
  using precedences by (cases t) (auto simp: not_less [symmetric])

lemma reads_atom: "sql = fr_sql f \<Longrightarrow> fr_prec f = ATOM \<Longrightarrow> of_tree (SAtom sql) e \<Longrightarrow> reads f e"
  by (rule readsI) auto

lemma reads_within:
  assumes "reads f e" and "p < ATOM"
  obtains t where "spell t = fr_sql (within f p apart)" "sx_prec t = fr_prec (within f p apart)"
    "grouped t" "of_tree t e" "stands_in t p (\<not> apart)"
proof -
  from assms obtain t where t: "spell t = fr_sql f" "sx_prec t = fr_prec f" "grouped t" "of_tree t e"
    by (auto simp: reads_def)
  show thesis
  proof (cases "fr_prec f < p \<or> (fr_prec f = p \<and> apart)")
    case True
    with t assms(2) show ?thesis
      by (intro that [of "SParens t"]) (auto simp: within_def stands_in_def intro: of_parens)
  next
    case False
    with t show ?thesis
      by (intro that [of t]) (auto simp: within_def stands_in_def)
  qed
qed

lemma reads_within': "reads f e \<Longrightarrow> p < ATOM \<Longrightarrow> reads (within f p apart) e"
  by (erule reads_within) (auto intro: readsI)

lemma of_type_prec [simp]: "fr_prec (of_type f type) = fr_prec f"
  by (simp add: of_type_def split: option.split)

lemma reads_cast:
  assumes "reads f e" and "type \<noteq> None \<Longrightarrow> CAST \<le> fr_prec f"
  shows "reads (of_type f type) e"
proof (cases type)
  case None
  with assms(1) show ?thesis by (simp add: of_type_def)
next
  case (Some t)
  from assms(1) obtain sx where *: "spell sx = fr_sql f" "sx_prec sx = fr_prec f" "grouped sx"
    "of_tree sx e" by (auto simp: reads_def)
  have atom: "sx_prec sx = ATOM"
    by (rule sx_prec_cast) (use assms(2) Some *(2) in simp)
  show ?thesis
    by (rule readsI [of "SCast sx t"])
      (use * atom Some precedences(4) in \<open>auto simp: of_type_def stands_in_def intro: of_cast\<close>)
qed

subsection \<open>Every part of the compiler\<close>

lemma prefix_fragment_reads:
  assumes "reads f e" and "type \<noteq> None \<Longrightarrow> CAST \<le> fr_prec f"
  shows "reads (prefix_fragment op type f) (EPrefix op e)"
proof -
  let ?f = "of_type f type"
  let ?apart = "op = PNeg \<and> fr_prec ?f = prefix_precedence op"
  let ?g = "within ?f (prefix_precedence op) ?apart"
  obtain t where t: "spell t = fr_sql ?g" "sx_prec t = fr_prec ?g"
    "grouped t" "of_tree t e" "stands_in t (prefix_precedence op) (\<not> ?apart)"
    by (rule reads_within [OF reads_cast [OF assms] precedences(1)])
  have "stands_in t (prefix_precedence op) (op = PNot)"
  proof (cases op)
    case PNeg
    with t(2,5) show ?thesis by (auto simp: stands_in_def within_def ATOM_def split: if_splits)
  next
    case PNot
    with t(5) show ?thesis by (simp add: stands_in_def)
  qed
  with t have "grouped (SPrefix op t)" "of_tree (SPrefix op t) (EPrefix op e)"
    by (auto intro: of_prefix)
  moreover have "spell (SPrefix op t) = fr_sql (prefix_fragment op type f)"
    using t(1) by (cases op) (simp_all add: prefix_fragment_def Let_def)
  ultimately show ?thesis
    by (intro readsI [of "SPrefix op t"]) (simp_all add: prefix_fragment_def Let_def)
qed

lemma postfix_fragment_reads:
  assumes "reads f e" and "type \<noteq> None \<Longrightarrow> CAST \<le> fr_prec f"
    and "test \<in> {show_postfix op, if op = IsNull then ''IS NOT DISTINCT FROM NULL''
      else ''IS DISTINCT FROM NULL''}"
  shows "reads (postfix_fragment op type test f) (EPostfix e op)"
proof -
  let ?g = "within (of_type f type) (postfix_precedence op) True"
  obtain t where t: "spell t = fr_sql ?g" "grouped t" "of_tree t e"
    "stands_in t (postfix_precedence op) (\<not> True)"
    by (rule reads_within [OF reads_cast [OF assms(1,2)] precedences(2)])
  show ?thesis
    by (rule readsI [of "SPostfix t test"])
      (use t of_postfix [OF t(3) assms(3)] in
        \<open>auto simp: postfix_fragment_def Let_def postfix_precedence_def\<close>)
qed

lemma null_test_words:
  "null_test c op e items = Inr test \<Longrightarrow>
    test \<in> {show_postfix op, if op = IsNull then ''IS NOT DISTINCT FROM NULL''
      else ''IS DISTINCT FROM NULL''}"
  by (cases op) (auto simp: null_test_def split: if_splits)

lemma infix_fragment_reads:
  assumes f: "reads f a" and g: "reads g b"
    and atoms: "fst (of_both pt a op b) \<noteq> None \<Longrightarrow> CAST \<le> fr_prec f"
      "snd (of_both pt a op b) \<noteq> None \<Longrightarrow> CAST \<le> fr_prec g"
  shows "reads (infix_fragment pt a op b f g) (EInfix a op b)"
proof -
  obtain oa ob where o': "of_both pt a op b = (oa, ob)" by fastforce
  obtain p assoc where pa: "infix_precedence op = (p, assoc)" by fastforce
  let ?right = "if is_a_count_to_cast op b then of_type (within g CAST False) (Some ''integer'')
    else of_type g ob"
  let ?l = "within (of_type f oa) p (assoc \<noteq> AssocLeft \<and> \<not> regroups op)"
  let ?r = "within ?right p (assoc \<noteq> AssocRight \<and> \<not> regroups op)"
  have p: "p < ATOM" using precedences(3) [of op] pa by simp
  have count: "CAST \<le> fr_prec (within g CAST False)"
    using precedences(4) by (simp add: within_def)
  have right: "reads ?right b"
    using reads_cast [OF reads_within' [OF g precedences(4)], of "Some ''integer''" False]
      reads_cast [OF g, of ob] atoms(2) count o'
    by simp
  have left: "reads (of_type f oa) a"
    by (rule reads_cast [OF f]) (use atoms(1) o' in simp)
  obtain l where l: "spell l = fr_sql ?l" "grouped l" "of_tree l a"
    "stands_in l p (\<not> (assoc \<noteq> AssocLeft \<and> \<not> regroups op))"
    by (rule reads_within [OF left p])
  obtain r where r: "spell r = fr_sql ?r" "grouped r" "of_tree r b"
    "stands_in r p (\<not> (assoc \<noteq> AssocRight \<and> \<not> regroups op))"
    by (rule reads_within [OF right p])
  show ?thesis
    by (rule readsI [of "SInfix l op r"])
      (use l r in \<open>simp_all add: infix_fragment_def Let_def o' pa of_infix disj_commute\<close>)
qed

lemma document_closed_reads:
  assumes "reads p predicate"
  shows "reads (document_closed dc written inner p) (EAny source predicate)"
proof -
  from assms obtain t where t: "spell t = fr_sql p" "grouped t" "of_tree t predicate"
    by (auto simp: reads_def)
  let ?before = "''EXISTS (SELECT 1 FROM '' @ (case dc_items dc of IObjects _ \<Rightarrow> ''jsonb_array_elements''
      | IValues _ \<Rightarrow> ''jsonb_array_elements_text'') @ ''('' @ if_array (dc_array dc)
      @ '') AS '' @ quoted (it_alias inner) @ '' WHERE ''"
  let ?t = "SExists ?before t '')''"
  have exists: "of_tree ?t (EAny source predicate)" by (rule of_items [OF t(3)])
  show ?thesis
  proof (cases written)
    case None
    show ?thesis
      by (rule readsI [of ?t]) (use t exists None in \<open>simp_all add: document_closed_def Let_def\<close>)
  next
    case (Some w)
    obtain c ps where w: "w = (c, ps)" by fastforce
    let ?both = "SInfix (SContains c) (ILogical LAnd) ?t"
    show ?thesis
      by (rule readsI [of ?both])
        (use t of_indexed [OF exists] Some w precedences in \<open>auto simp: document_closed_def Let_def
           stands_in_def and_precedence_def OTHER_def ATOM_def frag_and_def\<close>)
  qed
qed

lemma rows_closed_reads:
  assumes closed: "rows_closed c source enclosing items relation inner p = Inr g"
    and p: "reads p predicate"
  shows "reads g (EAny source predicate)"
proof (cases relation)
  case None
  from p obtain t where t: "spell t = fr_sql p" "grouped t" "of_tree t predicate"
    by (auto simp: reads_def)
  from closed None obtain column where g: "g = frag_with p
      ((''EXISTS (SELECT 1 FROM unnest('' @ column @ '') AS '' @ quoted (it_alias inner) @ '' WHERE '')
        @ fr_sql p @ '')'') ATOM"
    by (auto simp: rows_closed_def Let_def)
  show ?thesis
    unfolding g
    by (rule readsI [of "SExists (''EXISTS (SELECT 1 FROM unnest('' @ column @ '') AS ''
          @ quoted (it_alias inner) @ '' WHERE '') t '')''"]) (use t of_items [OF t(3)] in simp_all)
next
  case (Some r)
  obtain t where t: "spell t = fr_sql (within p and_precedence False)" "grouped t" "of_tree t predicate"
    "stands_in t and_precedence True"
    by (rule reads_within [OF p, of and_precedence False])
      (use precedences(4,9) in \<open>auto intro: less_trans\<close>)
  from closed Some obtain key s keys table where
    g: "g = frag_with (within p and_precedence False)
      ((''EXISTS (SELECT 1 FROM '' @ table @ '' AS '' @ quoted (it_alias inner) @ '' WHERE '')
        @ (keys @ '' AND '' @ fr_sql (within p and_precedence False)) @ '')'') ATOM"
    by (auto simp: rows_closed_def Let_def split: prod.splits)
  show ?thesis
    unfolding g
    by (rule readsI [of "SExists (''EXISTS (SELECT 1 FROM '' @ table @ '' AS ''
          @ quoted (it_alias inner) @ '' WHERE '') (SInfix (SKeys keys) (ILogical LAnd) t) '')''"])
      (use t of_rows [OF t(3)] in \<open>simp_all add: stands_in_def and_precedence_def\<close>)
qed

lemma render_atom:
  "render c pt (EValue v) items nx stand = Inr (f, nx') \<Longrightarrow> fr_prec f = ATOM"
  by (auto simp: pg_constant_def Let_def split: if_splits)

lemma typed_constants:
  "under_prefix pt op e \<noteq> None \<Longrightarrow> \<exists>v. e = EValue v"
  "under_postfix pt e \<noteq> None \<Longrightarrow> \<exists>v. e = EValue v"
  "fst (of_both pt a iop b) \<noteq> None \<Longrightarrow> \<exists>v. a = EValue v"
  "snd (of_both pt a iop b) \<noteq> None \<Longrightarrow> \<exists>v. b = EValue v"
  by (auto simp: under_prefix_def under_postfix_def of_both_def split: expr.splits)

lemma render_cast:
  "render c pt e items nx stand = Inr (f, nx') \<Longrightarrow> \<exists>v. e = EValue v \<Longrightarrow> CAST \<le> fr_prec f"
  using precedences(4) render_atom by fastforce

lemma pg_itself_reads: "pg_itself up items nx = Inr (f, nx') \<Longrightarrow> reads f (EItem up)"
  by (auto simp: pg_itself_def intro!: reads_atom of_itself)

lemma render_reads: "render c pt e items nx stand = Inr (f, nx') \<Longrightarrow> reads f e"
proof (induction e arbitrary: items nx stand f nx')
  case (EValue v)
  from render_atom [OF EValue] show ?case by (intro reads_atom of_value) auto
next
  case (EField p)
  then show ?case by (auto intro!: reads_atom of_field)
next
  case (EItem up)
  then show ?case by (simp add: pg_itself_reads)
next
  case (EPrefix op e)
  then obtain g where g: "render c pt e items nx OfValue = Inr (g, nx')"
    "f = prefix_fragment op (under_prefix pt op e) g"
    by auto
  show ?case
    unfolding g(2)
    by (rule prefix_fragment_reads [OF EPrefix.IH [OF g(1)] render_cast [OF g(1) typed_constants(1)]])
next
  case (EPostfix e op)
  from EPostfix.prems show ?case
  proof (cases rule: render_postfixE)
    case (member p sql test)
    have "reads (frag_text sql) e" unfolding member(2) by (intro reads_atom of_field) simp_all
    then show ?thesis
      unfolding member(4) using null_test_words [OF member(1)] precedences(4)
      by (intro postfix_fragment_reads) simp_all
  next
    case (operand test g)
    show ?thesis
      unfolding operand(3)
      by (rule postfix_fragment_reads [OF EPostfix.IH [OF operand(2)]
            render_cast [OF operand(2) typed_constants(2)] null_test_words [OF operand(1)]])
  qed
next
  case (EInfix l op r)
  from EInfix.prems obtain done' where d: "containment_first c pt l op r items nx stand = Inr done'"
    by auto
  show ?case
  proof (cases done')
    case (Some result)
    with EInfix.prems d have "containment_first c pt l op r items nx stand = Inr (Some (f, nx'))" by simp
    then show ?thesis
      by (auto simp: containment_first_def containment_def contained_equality_def split: if_splits
          option.splits intro!: readsI [of "SContains (fr_sql f)"] of_equality)
  next
    case None
    with EInfix.prems d obtain left nx1 right where
      l: "render c pt l items nx (infix_stand op stand) = Inr (left, nx1)" and
      r: "render c pt r items nx1 (infix_stand op stand) = Inr (right, nx')" and
      f: "f = infix_fragment pt l op r left right"
      by auto
    show ?thesis
      unfolding f
      by (rule infix_fragment_reads [OF EInfix.IH(1) [OF l] EInfix.IH(2) [OF r]
            render_cast [OF l typed_constants(3)] render_cast [OF r typed_constants(4)]])
  qed
next
  case (EAny source predicate)
  from EAny.prems obtain enclosing collection where
    "enclosing_of source items = Inr enclosing"
    "document_collection c source enclosing = Inr collection"
    by auto
  with EAny show ?case
    by (cases collection) (auto intro!: document_closed_reads intro: rows_closed_reads)
qed

end
