(* ===== verification/Pg_Index.thy ===== *)
theory Pg_Index
  imports Pg_Constants Typing Value_Laws
begin

section \<open>What an index is asked for follows from the condition\<close>

text \<open>
  A document as a record, and what it is for a document to hold what a layout says and to contain a
  pattern. A GIN index is asked for a pattern before the condition itself is; \<open>doc_holds\<close> is the
  containment \<open>@>\<close> on the documents that hold what the layout says: an object contains an object
  whose every member it has and contains, an array an array each of whose elements one of its own
  contains, a value the constant it is equal to.
\<close>

fun kind_of_value :: "doc_kind \<Rightarrow> val \<Rightarrow> bool" where
  "kind_of_value DBool v = (case v of VBool _ \<Rightarrow> True | _ \<Rightarrow> False)"
| "kind_of_value DInt v = (case v of VInt _ \<Rightarrow> True | _ \<Rightarrow> False)"
| "kind_of_value DFloat v = (case v of VFloat _ \<Rightarrow> True | _ \<Rightarrow> False)"
| "kind_of_value DText v = (case v of VText _ \<Rightarrow> True | _ \<Rightarrow> False)"
| "kind_of_value DTimestamp v = (case v of VTimestamp _ \<Rightarrow> True | _ \<Rightarrow> False)"
| "kind_of_value DDate v = (case v of VDate _ \<Rightarrow> True | _ \<Rightarrow> False)"
| "kind_of_value DUuid v = (case v of VUuid _ \<Rightarrow> True | _ \<Rightarrow> False)"

definition value_fits :: "doc_kind \<Rightarrow> val rec \<Rightarrow> bool" where
  "value_fits k r \<longleftrightarrow> (case r of RValue v \<Rightarrow> v = VNull \<or> kind_of_value k v | _ \<Rightarrow> False)"

lemma pair_size: "(n, c) \<in> set ms \<Longrightarrow> size c < Suc (size_list (size_prod (\<lambda>_. 0) size) ms)"
  by (induction ms) auto

lemma layout_member_size:
  "layout_member ms n = Some mem \<Longrightarrow> size mem < Suc (size_list (size_prod (\<lambda>_. 0) size) ms)"
  by (rule pair_size [of n]) (auto simp: layout_member_def dest: map_of_SomeD)

function doc_fits :: "member \<Rightarrow> val rec \<Rightarrow> bool" where
  "doc_fits (MemValue k) r = value_fits k r"
| "doc_fits (MemObject ms) r =
     (case r of
        RObject m \<Rightarrow> list_all (\<lambda>n. case (layout_member ms n, m n) of
            (Some mem, Some x) \<Rightarrow> doc_fits mem x
          | _ \<Rightarrow> True) (map fst ms)
      | _ \<Rightarrow> False)"
| "doc_fits (MemCollection ms) r =
     (case r of RCollection rs \<Rightarrow> list_all (doc_fits (MemObject ms)) rs | _ \<Rightarrow> False)"
| "doc_fits (MemValues k) r =
     (case r of RCollection rs \<Rightarrow> list_all (value_fits k) rs | _ \<Rightarrow> False)"
  by pat_completeness auto
termination
  apply (relation "measures [\<lambda>(mem, _). size mem, \<lambda>(mem, _). case mem of MemCollection _ \<Rightarrow> 1 | _ \<Rightarrow> 0]")
  subgoal by simp
  subgoal using layout_member_size by fastforce
  subgoal by simp
  done

fun items_fit :: "items \<Rightarrow> val rec \<Rightarrow> bool" where
  "items_fit (IObjects layout) r = doc_fits (MemObject layout) r"
| "items_fit (IValues k) r = value_fits k r"

function doc_holds :: "val rec \<Rightarrow> val contained \<Rightarrow> bool" where
  "doc_holds r (CConstant s v) =
     (case r of RValue w \<Rightarrow> v \<noteq> VNull \<and> value_equals w v = Inr True | _ \<Rightarrow> False)"
| "doc_holds r (CObject ms) =
     (case r of
        RObject m \<Rightarrow> list_all (\<lambda>(n, c). case m n of Some x \<Rightarrow> doc_holds x c | None \<Rightarrow> False) ms
      | _ \<Rightarrow> False)"
| "doc_holds r (CArray cs) =
     (case r of RCollection rs \<Rightarrow> list_all (\<lambda>c. list_ex (\<lambda>x. doc_holds x c) rs) cs | _ \<Rightarrow> False)"
  by pat_completeness auto
termination
  apply (relation "measure (\<lambda>(_, c). size c)")
  subgoal by simp
  subgoal by (auto dest: pair_size)
  subgoal by (auto intro!: le_imp_less_Suc size_list_estimation')
  done

subsection \<open>An equality of a member with a constant\<close>

lemma value_equals_commute: "value_equals v w = Inr True \<longleftrightarrow> value_equals w v = Inr True"
proof -
  have "is_eq (reverse_ordering c) = is_eq c" for c by (cases c) simp_all
  then show ?thesis
    by (auto simp: value_equals_def value_compare_reverse [of v w] split: sum.splits)
qed

lemma member_equality:
  assumes "spelled_of k = Some s" and "value_fits k (RValue w)" and x: "\<not> is_constant x"
  shows "eval_infix (value_operand cal) x (IComparison CEq) (EValue v) (Inr w) (Inr v)
        = Inr (VBool True) \<longleftrightarrow> v \<noteq> VNull \<and> value_equals w v = Inr True"
    and "eval_infix (value_operand cal) (EValue v) (IComparison CEq) x (Inr v) (Inr w)
        = Inr (VBool True) \<longleftrightarrow> v \<noteq> VNull \<and> value_equals w v = Inr True"
proof -
  have "k \<in> {DText, DInt, DBool}" using assms(1) by (cases k) simp_all
  then have read: "value_read_beside cal v w = Inr None"
    using assms(2) by (cases v; cases k; cases w) (simp_all add: value_read_beside_def value_fits_def)
  have null: "value_equals w v \<noteq> Inr True" if "w = VNull"
    using that by (cases v) (simp_all add: value_equals_def value_compare_def)
  have outcome: "strict (value_operand cal) a b (\<lambda>l r. map_ok VBool (value_equals l r)) = Inr (VBool True)
      \<longleftrightarrow> a \<noteq> VNull \<and> b \<noteq> VNull \<and> value_equals a b = Inr True" for a b
    by (auto simp: strict_def)
  show "eval_infix (value_operand cal) x (IComparison CEq) (EValue v) (Inr w) (Inr v)
        = Inr (VBool True) \<longleftrightarrow> v \<noteq> VNull \<and> value_equals w v = Inr True"
    using null x by (auto simp: eval_infix_def read_constants_def read outcome)
  show "eval_infix (value_operand cal) (EValue v) (IComparison CEq) x (Inr v) (Inr w)
        = Inr (VBool True) \<longleftrightarrow> v \<noteq> VNull \<and> value_equals w v = Inr True"
    using null x value_equals_commute [of v w]
    by (auto simp: eval_infix_def read_constants_def read outcome)
qed

subsection \<open>Documents\<close>

lemma record_member_object:
  "record_member r n = Inr x \<longleftrightarrow> (\<exists>m. r = RObject m \<and> m n = Some x)"
  by (cases r) (auto simp: record_member_def)

lemma doc_fits_object: "doc_fits (MemObject ms) r \<Longrightarrow> \<exists>m. r = RObject m"
  by (cases r) simp_all

lemma doc_holds_constant:
  "doc_holds r (CConstant s v) \<longleftrightarrow> (\<exists>w. r = RValue w \<and> v \<noteq> VNull \<and> value_equals w v = Inr True)"
  by (cases r) auto

lemma doc_holds_array:
  "doc_holds r (CArray cs) \<longleftrightarrow> (\<exists>rs. r = RCollection rs \<and> (\<forall>c \<in> set cs. \<exists>x \<in> set rs. doc_holds x c))"
  by (cases r) (auto simp: list_all_iff list_ex_iff)

lemma doc_fits_member:
  assumes "doc_fits (MemObject ms) (RObject m)" and "layout_member ms n = Some mem" and "m n = Some x"
  shows "doc_fits mem x"
proof -
  have "n \<in> set (map fst ms)"
    using assms(2) by (auto simp: layout_member_def dest!: map_of_SomeD intro: rev_image_eqI)
  with assms(1) have "case (layout_member ms n, m n) of (Some mem, Some x) \<Rightarrow> doc_fits mem x | _ \<Rightarrow> True"
    by (simp only: doc_fits.simps rec.case list_all_iff)
  then show ?thesis using assms(2,3) by simp
qed

lemma doc_holds_nested_Cons:
  "doc_holds r (CObject (pattern_nested (n # ns) p)) \<longleftrightarrow>
     (\<exists>m x. r = RObject m \<and> m n = Some x \<and> doc_holds x (CObject (pattern_nested ns p)))"
  by (cases r) (auto simp: pattern_nested_def pattern_of_def split: option.splits)

lemma doc_holds_of:
  "doc_holds r (CObject (pattern_of n c)) \<longleftrightarrow> (\<exists>m x. r = RObject m \<and> m n = Some x \<and> doc_holds x c)"
  by (cases r) (auto simp: pattern_of_def split: option.splits)

declare doc_fits.simps [simp del] doc_holds.simps [simp del]

text \<open>Through the objects of a path, the record and the layout go together.\<close>

lemma object_step:
  assumes "layout_member layout n = Some (MemObject ms)" and "doc_fits (MemObject layout) r"
  shows "objects_from record_ctx r (n # names) = Inr r' \<longleftrightarrow>
    (\<exists>m mx. r = RObject m \<and> m n = Some (RObject mx) \<and> doc_fits (MemObject ms) (RObject mx)
      \<and> objects_from record_ctx (RObject mx) names = Inr r')"
proof -
  have "objects_from record_ctx r (n # names) = Inr r' \<longleftrightarrow> (\<exists>m mx. r = RObject m
      \<and> m n = Some (RObject mx) \<and> objects_from record_ctx (RObject mx) names = Inr r')"
    by (auto simp: record_object_at_def record_member_def split: rec.splits)
  then show ?thesis using doc_fits_member [OF _ assms(1)] assms(2) by blast
qed

lemma layout_step:
  assumes "layout_at layout (n # names) = Some inner"
  obtains ms where "layout_member layout n = Some (MemObject ms)" "layout_at ms names = Some inner"
  using assms by (auto split: option.splits member.splits)

lemma objects_fit:
  assumes "layout_at layout names = Some inner" and "doc_fits (MemObject layout) r"
    and "objects_from record_ctx r names = Inr r'"
  shows "doc_fits (MemObject inner) r'"
  using assms
proof (induction names arbitrary: layout r)
  case (Cons n names)
  then obtain ms where ms: "layout_member layout n = Some (MemObject ms)" "layout_at ms names = Some inner"
    by (blast elim: layout_step)
  from Cons.prems(3) obtain mx where "doc_fits (MemObject ms) (RObject mx)"
    "objects_from record_ctx (RObject mx) names = Inr r'"
    unfolding object_step [OF ms(1) Cons.prems(2)] by blast
  then show ?case by (rule Cons.IH [OF ms(2)])
qed simp

lemma objects_followed:
  assumes "layout_at layout names = Some inner" and "doc_fits (MemObject layout) r"
  shows "doc_holds r (CObject (pattern_nested names p)) \<longleftrightarrow>
    (\<exists>r'. objects_from record_ctx r names = Inr r' \<and> doc_holds r' (CObject p))"
  using assms
proof (induction names arbitrary: layout r)
  case (Cons n names)
  then obtain ms where ms: "layout_member layout n = Some (MemObject ms)" "layout_at ms names = Some inner"
    by (blast elim: layout_step)
  have "doc_holds r (CObject (pattern_nested (n # names) p)) \<longleftrightarrow>
      (\<exists>m mx. r = RObject m \<and> m n = Some (RObject mx) \<and> doc_fits (MemObject ms) (RObject mx)
        \<and> doc_holds (RObject mx) (CObject (pattern_nested names p)))"
    unfolding doc_holds_nested_Cons using doc_fits_object doc_fits_member [OF _ ms(1)] Cons.prems(2) by metis
  also have "\<dots> \<longleftrightarrow> (\<exists>m mx. r = RObject m \<and> m n = Some (RObject mx)
      \<and> doc_fits (MemObject ms) (RObject mx)
      \<and> (\<exists>r'. objects_from record_ctx (RObject mx) names = Inr r' \<and> doc_holds r' (CObject p)))"
    by (simp only: Cons.IH [OF ms(2)] cong: conj_cong)
  also have "\<dots> \<longleftrightarrow> (\<exists>r'. objects_from record_ctx r (n # names) = Inr r' \<and> doc_holds r' (CObject p))"
    unfolding object_step [OF ms(1) Cons.prems(2)] by blast
  finally show ?case .
qed (simp add: pattern_nested_def)

subsection \<open>Patterns together\<close>

lemma doc_holds_object:
  "doc_holds r (CObject p) \<longleftrightarrow>
     (\<exists>m. r = RObject m \<and> (\<forall>(n, c) \<in> set p. \<exists>x. m n = Some x \<and> doc_holds x c))"
proof (cases r)
  case (RObject m)
  have "(case m n of Some x \<Rightarrow> doc_holds x c | None \<Rightarrow> False) \<longleftrightarrow> (\<exists>x. m n = Some x \<and> doc_holds x c)"
    for n c by (simp split: option.split)
  then show ?thesis by (simp add: RObject list_all_iff doc_holds.simps)
qed (simp_all add: doc_holds.simps)

lemma merged_holds:
  fixes a b :: "val contained" and p q :: "val pattern"
  shows "doc_holds r a \<Longrightarrow> doc_holds r b \<Longrightarrow> doc_holds r (contained_and a b)"
    and "doc_holds r' (CObject p) \<Longrightarrow> doc_holds r' (CObject q) \<Longrightarrow> doc_holds r' (CObject (pattern_and p q))"
    and "doc_holds r'' (CObject [(n, c)]) \<Longrightarrow> doc_holds r'' (CObject p)
      \<Longrightarrow> doc_holds r'' (CObject (merge_member n c p))"
proof (induction a b and p q and n c p arbitrary: r and r' and r''
    rule: contained_and_pattern_and_merge_member.induct)
  case (2 mine yours)
  then show ?case by (auto simp: doc_holds_array)
next
  case (5 members name theirs rest)
  from "5.prems" have "doc_holds r' (CObject [(name, theirs)])" "doc_holds r' (CObject rest)"
    by (auto simp: doc_holds_object)
  with 5 show ?case by simp
next
  case (7 name theirs n ours members)
  from "7.prems" obtain m x y where m: "r'' = RObject m" "m name = Some x" "doc_holds x theirs"
    "m n = Some y" "doc_holds y ours" "doc_holds r'' (CObject members)"
    by (auto simp: doc_holds_object)
  show ?case
  proof (cases "n = name")
    case True
    have "doc_holds y (contained_and ours theirs)" using "7.IH"(1) [OF True m(5)] m True by simp
    with m True show ?thesis by (auto simp: doc_holds_object)
  next
    case False
    have "doc_holds r'' (CObject (merge_member name theirs members))"
      by (rule "7.IH"(2) [OF False "7.prems"(1) m(6)])
    with m False show ?thesis by (auto simp: doc_holds_object)
  qed
qed (auto)

lemma holds_none [simp]: "doc_fits (MemObject layout) r \<Longrightarrow> doc_holds r (CObject [])"
  using doc_fits_object by (auto simp: doc_holds_object)

subsection \<open>The pattern of a predicate\<close>

text \<open>The scope whose nearest item is a record, and what \<open>owner\<close> is of a path from it.\<close>

definition item_scope :: "('v rec, 'v) scope \<Rightarrow> 'v rec \<Rightarrow> bool" where
  "item_scope s r \<longleftrightarrow>
     (\<exists>f fs. scope_item s = f # fs \<and> frame_element f = record_element r)"

lemma owner_item:
  assumes "item_scope s (RObject m)" and "path_root p = RItem 0"
  shows "owner record_ctx p s = map_err EvContext (objects_from record_ctx (RObject m) (path_objects p))"
  using assms by (auto simp: item_scope_def owner_def frame_out_def record_element_def)

lemma item_scope_enter: "item_scope (enter s name (record_element r)) r"
  by (simp add: item_scope_def enter_def)

lemma member_found:
  assumes "doc_fits (MemObject layout) (RObject m)" and "item_scope s (RObject m)"
    and "path_root p = RItem 0" and "layout_at layout (path_objects p) = Some inner"
  shows "eval_member record_ctx p s = Inr w \<longleftrightarrow>
    (\<exists>mx. objects_from record_ctx (RObject m) (path_objects p) = Inr (RObject mx)
      \<and> mx (path_name p) = Some (RValue w))"
  by (auto simp: eval_member_def owner_item [OF assms(2,3)] record_field_def record_member_object
      record_member_def split: rec.splits)

lemma value_param_type_None [simp]: "value_param_type v = None \<longleftrightarrow> v = VNull"
  by (cases v) simp_all

lemma equality_holds:
  assumes pattern: "pattern_equal value_params layout (path_names p) v = Some pattern"
    and fits: "doc_fits (MemObject layout) (RObject m)" and scope: "item_scope s (RObject m)"
    and root: "path_root p = RItem 0"
  shows "eval (value_operand cal) record_ctx (EInfix (EField p) (IComparison CEq) (EValue v)) s
      = Inr (VBool True) \<longleftrightarrow> doc_holds (RObject m) (CObject pattern)"
    and "eval (value_operand cal) record_ctx (EInfix (EValue v) (IComparison CEq) (EField p)) s
      = Inr (VBool True) \<longleftrightarrow> doc_holds (RObject m) (CObject pattern)"
proof -
  have names: "butlast (path_names p) = path_objects p" "last (path_names p) = path_name p"
    by (simp_all add: path_names_def)
  from pattern obtain inner k sp where
    inner: "layout_at layout (path_objects p) = Some inner" and
    k: "layout_member inner (path_name p) = Some (MemValue k)" "spelled_of k = Some sp" and
    pat: "pattern = pattern_nested (path_objects p) (pattern_of (path_name p) (CConstant sp v))" and
    v: "v \<noteq> VNull"
    by (auto simp: pattern_equal_def names split: option.splits member.splits if_splits)
  have holds: "doc_holds (RObject m) (CObject pattern) \<longleftrightarrow>
      (\<exists>mx w. objects_from record_ctx (RObject m) (path_objects p) = Inr (RObject mx)
        \<and> mx (path_name p) = Some (RValue w) \<and> value_equals w v = Inr True)"
    unfolding pat objects_followed [OF inner fits] doc_holds_of doc_holds_constant
    using v by blast
  have equal: "eval_infix (value_operand cal) (EField p) (IComparison CEq) (EValue v) (Inr w) (Inr v)
        = Inr (VBool True) \<longleftrightarrow> value_equals w v = Inr True"
    "eval_infix (value_operand cal) (EValue v) (IComparison CEq) (EField p) (Inr v) (Inr w)
        = Inr (VBool True) \<longleftrightarrow> value_equals w v = Inr True"
    if at: "eval_member record_ctx p s = Inr w" for w
  proof -
    from at obtain mx where mx: "objects_from record_ctx (RObject m) (path_objects p) = Inr (RObject mx)"
      "mx (path_name p) = Some (RValue w)"
      unfolding member_found [OF fits scope root inner] by blast
    have "value_fits k (RValue w)"
      using doc_fits_member [OF objects_fit [OF inner fits mx(1)] k(1) mx(2)] by (simp add: doc_fits.simps)
    note equal = member_equality [OF k(2) this, of "EField p", simplified is_constant.simps, simplified]
    show "eval_infix (value_operand cal) (EField p) (IComparison CEq) (EValue v) (Inr w) (Inr v)
        = Inr (VBool True) \<longleftrightarrow> value_equals w v = Inr True"
      unfolding equal(1) using v by simp
    show "eval_infix (value_operand cal) (EValue v) (IComparison CEq) (EField p) (Inr v) (Inr w)
        = Inr (VBool True) \<longleftrightarrow> value_equals w v = Inr True"
      unfolding equal(2) using v by simp
  qed
  have left: "eval (value_operand cal) record_ctx (EInfix (EField p) (IComparison CEq) (EValue v)) s
      = eval_infix (value_operand cal) (EField p) (IComparison CEq) (EValue v) (eval_member record_ctx p s) (Inr v)"
    "eval (value_operand cal) record_ctx (EInfix (EValue v) (IComparison CEq) (EField p)) s
      = eval_infix (value_operand cal) (EValue v) (IComparison CEq) (EField p) (Inr v) (eval_member record_ctx p s)"
    by simp_all
  have holds': "doc_holds (RObject m) (CObject pattern) \<longleftrightarrow>
      (\<exists>w. eval_member record_ctx p s = Inr w \<and> value_equals w v = Inr True)"
    unfolding holds member_found [OF fits scope root inner] by blast
  show "eval (value_operand cal) record_ctx (EInfix (EField p) (IComparison CEq) (EValue v)) s
      = Inr (VBool True) \<longleftrightarrow> doc_holds (RObject m) (CObject pattern)"
  proof (cases "eval_member record_ctx p s")
    case (Inr w)
    show ?thesis unfolding left(1) holds' Inr equal(1) [OF Inr] by simp
  qed (simp add: holds' eval_infix_def)
  show "eval (value_operand cal) record_ctx (EInfix (EValue v) (IComparison CEq) (EField p)) s
      = Inr (VBool True) \<longleftrightarrow> doc_holds (RObject m) (CObject pattern)"
  proof (cases "eval_member record_ctx p s")
    case (Inr w)
    show ?thesis unfolding left(2) holds' Inr equal(2) [OF Inr] by simp
  qed (simp add: holds' eval_infix_def)
qed

lemma truth_true: "truth (value_operand cal) v = Inr (Some True) \<longleftrightarrow> v = VBool True"
  by (cases v) (auto simp: truth_def)

lemma and_true:
  "eval_logical (value_operand cal) LAnd left right = Inr (VBool True) \<longleftrightarrow>
     left = Inr (VBool True) \<and> right = Inr (VBool True)"
proof -
  have from_truth_true: "from_truth (value_operand cal) t = VBool True \<longleftrightarrow> t = Some True" for t
    by (cases t) (simp_all add: from_truth_def)
  have both: "connective LAnd a b = Inr (Some True) \<longleftrightarrow> a = Some True \<and> b = (Inr (Some True) :: ('e, _) result)"
    for a b
    by (cases b) (auto simp: connective_def split: option.splits if_splits)
  have result: "map_ok (from_truth (value_operand cal)) r = Inr (VBool True) \<longleftrightarrow> r = Inr (Some True)" for r
    by (cases r) (simp_all add: from_truth_true)
  have rest: "and_then (truth (value_operand cal) b) (\<lambda>t. map_ok (from_truth (value_operand cal))
      (connective LAnd t (and_then right (truth (value_operand cal))))) = Inr (VBool True)
      \<longleftrightarrow> b = VBool True \<and> right = Inr (VBool True)" for b
    unfolding and_then_Inr_iff result both by (auto simp: truth_true and_then_Inr_iff)
  show ?thesis
    by (cases left) (simp_all add: eval_logical_def rest)
qed

lemma member_value_equality:
  assumes "spelled_of k = Some sp" "items_fit (IValues k) r" "item_scope s r" "v \<noteq> VNull"
    and "eval (value_operand cal) record_ctx (EInfix (EItem 0) (IComparison CEq) (EValue v)) s = Inr (VBool True)
      \<or> eval (value_operand cal) record_ctx (EInfix (EValue v) (IComparison CEq) (EItem 0)) s = Inr (VBool True)"
  shows "doc_holds r (CConstant sp v)"
proof -
  from assms(2) obtain w where w: "r = RValue w" by (cases r) (simp_all add: value_fits_def)
  have itself: "eval (value_operand cal) record_ctx (EItem 0) s = Inr w"
    using assms(3) w by (auto simp: item_scope_def eval_itself_def frame_out_def record_element_def)
  have fits: "value_fits k (RValue w)" using assms(2) w by simp
  have "value_equals w v = Inr True"
    using assms(5) member_equality [OF assms(1) fits, of "EItem 0" cal v]
    by (simp add: itself del: eval.simps(3))
  then show ?thesis using w assms(4) by (simp add: doc_holds_constant)
qed

lemma constants_hold:
  assumes "eval (value_operand cal) record_ctx e s = Inr (VBool True)"
    and "spelled_of k = Some sp" "items_fit (IValues k) r" "item_scope s r"
    and "c \<in> set (pattern_constants value_params e sp)"
  shows "doc_holds r c"
  using assms(1,2,5)
proof (induction value_params e sp rule: pattern_constants.induct)
  case (2 n v s')
  then show ?case
    using member_value_equality [OF 2(2) assms(3,4), of v cal] by (auto split: if_splits)
next
  case (3 v n s')
  then show ?case
    using member_value_equality [OF 3(2) assms(3,4), of v cal] by (auto split: if_splits)
qed (auto simp: and_true)

lemma any_true_value:
  assumes "eval (value_operand cal) record_ctx (EAny source predicate) s = Inr (VBool True)"
    and "item_scope s (RObject m)" and "path_root source = RItem 0"
  obtains mx rs x where
    "objects_from record_ctx (RObject m) (path_objects source) = Inr (RObject mx)"
    "mx (path_name source) = Some (RCollection rs)" "x \<in> set rs"
    "eval (value_operand cal) record_ctx predicate (enter s (path_name source) (record_element x))
      = Inr (VBool True)"
proof -
  from assms(1) obtain c items where c: "owner record_ctx source s = Inr c"
    "ctx_collection record_ctx c (path_name source) = Inr items"
    by (auto simp: eval_some_def)
  from assms(1) obtain e where e: "e \<in> set items"
    "item_truth (value_operand cal) record_ctx predicate source s e = Inr (Some True)"
    using value_ops.any_true_iff [OF c, where cal = cal and predicate = predicate, THEN iffD1]
    by (auto simp del: eval.simps) blast
  from c(1) have "objects_from record_ctx (RObject m) (path_objects source) = Inr c"
    unfolding owner_item [OF assms(2,3)] by simp
  moreover from c(2) obtain mx rs where "c = RObject mx" "mx (path_name source) = Some (RCollection rs)"
    "items = map record_element rs"
    by (auto simp: record_collection_at_def record_member_def split: rec.splits)
  ultimately show thesis
    using e that by (auto simp: item_truth_def and_then_Inr_iff truth_true)
qed

lemma collection_items_found:
  assumes "collection_items layout (path_names p) = Some items"
  obtains inner mem where "layout_at layout (path_objects p) = Some inner"
    "layout_member inner (path_name p) = Some mem" "member_items mem = Some items"
  using assms by (auto simp: collection_items_def path_names_def split: option.splits)

lemma items_fit_each:
  "doc_fits mem (RCollection rs) \<Longrightarrow> member_items mem = Some items \<Longrightarrow> x \<in> set rs \<Longrightarrow> items_fit items x"
  by (cases mem) (auto simp: doc_fits.simps list_all_iff)

lemma array_elements_hold:
  assumes "eval (value_operand cal) record_ctx predicate s = Inr (VBool True)"
    and "items_fit items r" and "item_scope s r"
    and "\<And>layout m. items = IObjects layout \<Longrightarrow> r = RObject m \<Longrightarrow> doc_holds r (CObject (f layout))"
    and "c \<in> set (array_elements value_params f predicate items)"
  shows "doc_holds r c"
proof (cases items)
  case (IObjects layout)
  with assms(2) obtain m where "r = RObject m" using doc_fits_object by auto
  with assms(4,5) IObjects show ?thesis by (auto simp: array_elements_def Let_def split: if_splits)
next
  case (IValues k)
  with assms(5) obtain sp where "spelled_of k = Some sp" "c \<in> set (pattern_constants value_params predicate sp)"
    by (auto simp: array_elements_def dest: sym split: option.splits)
  with constants_hold assms(1,2,3) IValues show ?thesis by blast
qed

lemma item_pattern_holds:
  assumes "eval (value_operand cal) record_ctx e s = Inr (VBool True)"
    and "doc_fits (MemObject layout) (RObject m)" "item_scope s (RObject m)"
  shows "doc_holds (RObject m) (CObject (of_item value_params e layout))"
  using assms
proof (induction value_params e layout arbitrary: s m rule: of_item.induct)
  case (1 l r layout)
  then show ?case by (auto simp: and_true intro: merged_holds(2))
next
  case (2 l r layout)
  show ?case
  proof (cases "equality_of l r")
    case None
    with 2 show ?thesis by simp
  next
    case (Some pv)
    obtain p v where pv: "pv = (p, v)" by fastforce
    have sides: "l = EField p \<and> r = EValue v \<or> l = EValue v \<and> r = EField p"
      using Some pv by (auto simp: equality_of_def split: expr.splits)
    show ?thesis
    proof (cases "path_root p = RItem 0 \<and> pattern_equal value_params layout (path_names p) v \<noteq> None")
      case True
      then obtain pattern where "pattern_equal value_params layout (path_names p) v = Some pattern" by blast
      with equality_holds [OF this 2(2,3)] True sides 2(1) Some pv show ?thesis
        by (auto simp: or_none_def simp del: eval.simps)
    next
      case False
      then show ?thesis using 2(2) Some pv by (auto simp: or_none_def)
    qed
  qed
next
  case (3 source predicate layout)
  show ?case
  proof (cases "path_root source = RItem 0 \<and> collection_items layout (path_names source) \<noteq> None")
    case True
    then obtain items where root: "path_root source = RItem 0" and
      items: "collection_items layout (path_names source) = Some items"
      by blast
    obtain inner mem where inner: "layout_at layout (path_objects source) = Some inner" and
      mem: "layout_member inner (path_name source) = Some mem" "member_items mem = Some items"
      by (rule collection_items_found [OF items])
    obtain mx rs x where mx: "objects_from record_ctx (RObject m) (path_objects source) = Inr (RObject mx)"
      and rs: "mx (path_name source) = Some (RCollection rs)" "x \<in> set rs"
      and true: "eval (value_operand cal) record_ctx predicate
        (enter s (path_name source) (record_element x)) = Inr (VBool True)"
      by (rule any_true_value [OF "3.prems"(1,3) root])
    have x: "items_fit items x"
      using doc_fits_member [OF objects_fit [OF inner "3.prems"(2) mx] mem(1) rs(1)] mem(2) rs(2)
      by (rule items_fit_each)
    let ?elements = "array_elements value_params (of_item value_params predicate) predicate items"
    have objects: "doc_holds x (CObject (of_item value_params predicate layout'))"
      if "items = IObjects layout'" "x = RObject m'" for layout' m'
      unfolding that(2)
    proof (rule "3.hyps" [OF root items true])
      show "doc_fits (MemObject layout') (RObject m')" using x that by simp
      show "item_scope (enter s (path_name source) (record_element x)) (RObject m')"
        unfolding that(2) by (rule item_scope_enter)
    qed
    have "doc_holds x c" if "c \<in> set ?elements" for c
      by (rule array_elements_hold [OF true x item_scope_enter objects that])
    then have "doc_holds (RCollection rs) (CArray ?elements)" using rs(2) by (auto simp: doc_holds_array)
    then have "doc_holds (RObject mx) (CObject (pattern_of (path_name source) (CArray ?elements)))"
      using rs(1) by (auto simp: doc_holds_of)
    then have "doc_holds (RObject m) (CObject (pattern_nested (path_objects source)
        (pattern_of (path_name source) (CArray ?elements))))"
      unfolding objects_followed [OF inner "3.prems"(2)] using mx by blast
    then show ?thesis
      using root items "3.prems"(2)
      by (auto simp: or_none_def pattern_of_array_def path_names_def)
  next
    case False
    then show ?thesis using "3.prems"(2) by (auto simp: or_none_def)
  qed
qed simp_all

lemma elements_hold:
  assumes "eval (value_operand cal) record_ctx predicate s = Inr (VBool True)"
    and "items_fit items r" and "item_scope s r"
    and "c \<in> set (pattern_elements value_params predicate items)"
  shows "doc_holds r c"
proof (rule array_elements_hold [OF assms(1-3) _ assms(4) [unfolded pattern_elements_def]])
  fix layout m assume "items = IObjects layout" "r = RObject m"
  with assms(2,3) item_pattern_holds [OF assms(1)]
  show "doc_holds r (CObject (of_item value_params predicate layout))" by simp
qed

end
