(* ===== verification/Pg_Properties.thy ===== *)
theory Pg_Properties
  imports Pg_Blind Pg_Grouping Pg_Index Evaluator_Properties
begin

section \<open>What holds of the PostgreSQL compiler\<close>

text \<open>
  The properties of the compiler, over the lemmas of \<open>Pg_Laws\<close>, \<open>Pg_Constants\<close>, \<open>Pg_Blind\<close>,
  \<open>Pg_Grouping\<close> and \<open>Pg_Index\<close>, each with a condition it is applied to.
\<close>

subsection \<open>Only closed conditions\<close>

lemma item_out_within: "item_out items up = Inr item \<Longrightarrow> up < length items"
  by (auto simp: item_out_def split: list.splits) (metis drop_eq_Nil list.distinct(1) not_less)

lemma pg_member_rooted: "pg_member c p items nx reading = Inr r \<Longrightarrow> rooted (length items) p"
  by (auto simp: pg_member_def rooted_def Let_def dest: item_out_within split: root.splits)

lemma containment_first_closed:
  assumes "containment_first c pt l op r items nx stand = Inr (Some x)"
  shows "closed (length items) l \<and> closed (length items) r"
proof -
  from assms obtain p v where "equality_of l r = Some (p, v)" "rooted (length items) p"
    by (auto simp: containment_first_def containment_def contained_equality_def rooted_def
        split: if_splits option.splits root.splits) (blast dest: item_out_within)+
  then show ?thesis by (auto simp: equality_of_def split: expr.splits)
qed

lemma render_closed: "render c pt e items nx stand = Inr out \<Longrightarrow> closed (length items) e"
proof (induction e arbitrary: items nx stand out)
  case (EField p)
  then show ?case by (auto dest: pg_member_rooted)
next
  case (EItem up)
  then show ?case by (auto simp: pg_itself_def dest: item_out_within)
next
  case (EPostfix e op)
  obtain f nx' where out: "out = (f, nx')" by fastforce
  from EPostfix.prems [unfolded out] show ?case
    by (cases rule: render_postfixE) (use EPostfix.IH in \<open>auto dest: pg_member_rooted\<close>)
next
  case (EInfix l op r)
  from EInfix.prems obtain done' where d: "containment_first c pt l op r items nx stand = Inr done'"
    by auto
  show ?case
  proof (cases done')
    case (Some x)
    with d containment_first_closed show ?thesis by fastforce
  next
    case None
    with d EInfix show ?thesis by fastforce
  qed
next
  case (EAny source predicate)
  from EAny.prems obtain enclosing collection where
    e: "enclosing_of source items = Inr enclosing"
      "document_collection c source enclosing = Inr collection"
    by auto
  have "rooted (length items) source"
    using e(1) by (auto simp: enclosing_of_def rooted_def dest: item_out_within split: root.splits)
  moreover obtain inner nx1 r' where "render c pt predicate (inner # items) nx1 Truth = Inr r'"
    using EAny.prems e by (cases collection) (auto split: prod.splits)
  then have "closed (Suc (length items)) predicate" using EAny.IH by fastforce
  ultimately show ?case by simp
qed auto

subsection \<open>The properties\<close>

definition sample_condition :: "val expr" where
  "sample_condition = ast_and (ast_equal (ast_field (path_global ''status'')) (ast_value (VText ''on'')))
     (ast_not (ast_greater_than (ast_field (path_global ''level'')) (ast_value (VInt 3))))"

lemma sample_compiled:
  "compile_with compiler_new value_params sample_condition = Inr \<lparr>
     q_sql = ''\"status\" = $1 AND NOT \"level\" > $2'', q_params = [VText ''on'', VInt 3]\<rparr>"
  by code_simp

text \<open>
  C7: What is compiled can inject nothing. The text of a condition is made of the words of a fixed
  vocabulary, quoted plain names, literals holding a plain name, the names of the types and the
  numbers of the parameters, which are the next ones after the offset in the order of the text;
  and its parameters are constants of the specification, none a text with a NUL.
\<close>

theorem condition_text_is_safe:
  assumes "compile_with c pt e = Inr q"
  shows "sql_text (type_names pt) [Suc (cmp_offset c)..<Suc (cmp_offset c + length (q_params q))] (q_sql q)
    \<and> (\<forall>v \<in> set (q_params q). v \<in> set_expr e \<and> \<not> pt_nul_in_text pt v)"
proof -
  from assms obtain f nx where
    f: "render c pt e [] \<lparr>nx_param = cmp_offset c, nx_alias = 0\<rparr> Truth = Inr (f, nx)" and
    q: "q = \<lparr>q_sql = fr_sql f, q_params = fr_params f\<rparr>"
    by (auto simp: compile_with_def)
  have "plain_aliases []" by (simp add: plain_aliases_def)
  from render_numbered [OF f this] render_values [OF f] show ?thesis
    by (auto simp: q numbered_def simp del: upt_Suc)
qed

theorem condition_text_is_safe_witness:
  "sql_text (type_names value_params) [Suc 0..<Suc 2] ''\"status\" = $1 AND NOT \"level\" > $2''
    \<and> VText ''on'' \<in> set_expr sample_condition \<and> \<not> value_nul_in_text (VText ''on'')"
  using condition_text_is_safe [OF sample_compiled] by (simp add: compiler_new_def numeral_2_eq_2)

text \<open>
  C8: The text of a condition does not depend on its constants: a change of them that keeps the
  type each is written with, and whether it is a text with a NUL, leaves the text as it is and
  changes the parameters alone, and a specification that is refused is refused with the same error.
\<close>

theorem condition_text_ignores_constants:
  assumes "\<forall>v. pt_type pt (f v) = pt_type pt v \<and> pt_nul_in_text pt (f v) = pt_nul_in_text pt v"
  shows "compile_with c pt (map_expr f e) =
    map_ok (\<lambda>q. \<lparr>q_sql = q_sql q, q_params = map f (q_params q)\<rparr>) (compile_with c pt e)"
  using render_mapped [of pt f c e "[]" _ Truth] assms
  by (auto simp: compile_with_def same_types_def map_ok_and_then and_then_map_ok map_rendered_def
      split_def intro!: and_then_cong)

theorem condition_text_ignores_constants_witness:
  "compile_with compiler_new value_params
      (map_expr (\<lambda>v. case v of VInt n \<Rightarrow> VInt (n + 1) | _ \<Rightarrow> v) sample_condition) = Inr \<lparr>
     q_sql = ''\"status\" = $1 AND NOT \"level\" > $2'', q_params = [VText ''on'', VInt 4]\<rparr>"
proof -
  have "\<forall>v. pt_type value_params (case v of VInt n \<Rightarrow> VInt (n + 1) | _ \<Rightarrow> v) = pt_type value_params v
      \<and> pt_nul_in_text value_params (case v of VInt n \<Rightarrow> VInt (n + 1) | _ \<Rightarrow> v) = pt_nul_in_text value_params v"
    by (simp split: val.split)
  from condition_text_ignores_constants [OF this, of compiler_new sample_condition]
  show ?thesis by (simp add: sample_compiled)
qed



text \<open>
  Only a specification whose items are all items of a collection they are named inside of is
  compiled.
\<close>

theorem only_closed_conditions_compile:
  "compile_with c pt e = Inr q \<Longrightarrow> closed 0 e"
  by (auto simp: compile_with_def dest: render_closed)

theorem only_closed_conditions_compile_witness: "closed 0 sample_condition"
  by (rule only_closed_conditions_compile [OF sample_compiled])

text \<open>
  C10: What an index is asked for before a condition follows from the condition: where the predicate
  of \<open>any\<close> is true of an item that holds what the layout says, the item contains every element of
  the pattern made of the predicate, so the rows the index leaves out are none the condition selects.
\<close>

theorem index_pattern_follows_from_condition:
  assumes "eval (value_operand cal) record_ctx predicate s = Inr (VBool True)"
    and "items_fit items r" and "item_scope s r"
  shows "\<forall>c \<in> set (pattern_elements value_params predicate items). doc_holds r c"
  using elements_hold [OF assms] by blast

definition sample_item :: "val rec" where
  "sample_item = record_object [(''status'', RValue (VText ''on'')),
     (''tags'', RCollection [RValue (VInt 1), RValue (VInt 2)])]"

definition sample_layout :: layout where
  "sample_layout = layout_values (layout_value layout_new ''status'' DText) ''tags'' DInt"

definition sample_predicate :: "val expr" where
  "sample_predicate = ast_and (ast_equal (ast_field (path_item ''status'')) (ast_value (VText ''on'')))
     (ast_any (path_item ''tags'') (ast_equal ast_item (ast_value (VInt 2))))"

definition item_of_orders :: "(val rec, val) scope" where
  "item_of_orders = \<lparr>scope_global = RCollection [], scope_item =
     [\<lparr>frame_element = record_element sample_item, frame_collection = ''orders''\<rparr>]\<rparr>"

lemma sample_item_scope: "item_scope item_of_orders sample_item"
  by (simp add: item_scope_def item_of_orders_def)

lemma sample_item_fits: "doc_fits (MemObject sample_layout) sample_item"
  by (simp add: sample_layout_def sample_item_def record_object_def doc_fits.simps layout_new_def
      layout_value_def layout_values_def layout_with_def layout_member_def value_fits_def)

theorem index_pattern_follows_from_condition_witness:
  "list_all (doc_holds sample_item)
     (pattern_elements value_params sample_predicate (IObjects sample_layout))"
proof -
  have "eval (value_operand sample_calendar) record_ctx sample_predicate item_of_orders = Inr (VBool True)"
    by code_simp
  then show ?thesis
    unfolding list_all_iff
    by (rule index_pattern_follows_from_condition) (simp_all add: sample_item_fits sample_item_scope)
qed

text \<open>
  Where only truth counts, the equality of a member of a document with a constant and the
  containment it is written as agree, on the documents that hold what the layout says: one is true
  when, and only when, the other is, on whichever side the constant is.
\<close>

theorem contained_equality_exact:
  assumes "pattern_equal value_params layout (path_names p) v = Some pattern"
    and "doc_fits (MemObject layout) (RObject m)" "item_scope s (RObject m)" "path_root p = RItem 0"
  shows "(eval (value_operand cal) record_ctx (EInfix (EField p) (IComparison CEq) (EValue v)) s
      = Inr (VBool True) \<longleftrightarrow> doc_holds (RObject m) (CObject pattern))
    \<and> (eval (value_operand cal) record_ctx (EInfix (EValue v) (IComparison CEq) (EField p)) s
      = Inr (VBool True) \<longleftrightarrow> doc_holds (RObject m) (CObject pattern))"
  using equality_holds [OF assms] by blast

theorem contained_equality_exact_witness:
  "eval (value_operand sample_calendar) record_ctx
     (EInfix (EField (path_item ''status'')) (IComparison CEq) (EValue (VText ''off''))) item_of_orders
     \<noteq> Inr (VBool True)"
proof -
  obtain m where m: "sample_item = RObject m" by (simp add: sample_item_def record_object_def)
  have "pattern_equal value_params sample_layout (path_names (path_item ''status'')) (VText ''off'')
      = Some [(''status'', CConstant SText (VText ''off''))]"
    by code_simp
  from contained_equality_exact [OF this, of m item_of_orders sample_calendar]
  have "eval (value_operand sample_calendar) record_ctx
      (EInfix (EField (path_item ''status'')) (IComparison CEq) (EValue (VText ''off''))) item_of_orders
      = Inr (VBool True) \<longleftrightarrow> doc_holds sample_item (CObject [(''status'', CConstant SText (VText ''off''))])"
    using sample_item_fits sample_item_scope by (simp add: m path_item_def del: eval.simps)
  also have "\<not> \<dots>" by code_simp
  finally show ?thesis by simp
qed

end
