(* ===== verification/Unicode_Text.thy ===== *)
theory Unicode_Text
  imports Float64 Values
begin

section \<open>Characters, and the numbers a text spells\<close>

text \<open>
  A Rust \<open>char\<close> is a Unicode scalar value, here its code point, and a \<open>&str\<close> read by characters
  is the list of them; the \<open>String\<close> of the same text is the bytes of its UTF-8. What the
  sources use of the standard library: the tests of \<open>char\<close>, \<open>char::from_u32\<close>, \<open>to_digit(16)\<close>,
  \<open>to_string\<close> of numbers, and \<open>str::parse\<close> of the literals of a template.
\<close>

type_synonym uchar = nat

definition ch :: "char \<Rightarrow> uchar" where
  "ch c = of_char c"

definition scalar_value :: "uchar \<Rightarrow> bool" where
  "scalar_value c \<longleftrightarrow> c < 0x110000 \<and> \<not> (0xD800 \<le> c \<and> c < 0xE000)"

definition char_from_u32 :: "nat \<Rightarrow> uchar option" where
  "char_from_u32 n = (if scalar_value n then Some n else None)"

definition utf8 :: "uchar \<Rightarrow> string" where
  "utf8 c =
     (if c < 0x80 then [char_of c]
      else if c < 0x800 then [char_of (0xC0 + c div 0x40), char_of (0x80 + c mod 0x40)]
      else if c < 0x10000
        then [char_of (0xE0 + c div 0x1000), char_of (0x80 + c div 0x40 mod 0x40),
              char_of (0x80 + c mod 0x40)]
      else [char_of (0xF0 + c div 0x40000), char_of (0x80 + c div 0x1000 mod 0x40),
            char_of (0x80 + c div 0x40 mod 0x40), char_of (0x80 + c mod 0x40)])"

definition to_bytes :: "uchar list \<Rightarrow> string" where
  "to_bytes cs = concat (map utf8 cs)"

lemma to_bytes_simps [simp]:
  "to_bytes [] = []" "to_bytes (c # cs) = utf8 c @ to_bytes cs"
  "to_bytes (xs @ ys) = to_bytes xs @ to_bytes ys"
  by (simp_all add: to_bytes_def)

text \<open>\<open>char::is_whitespace\<close> is the property \<open>White_Space\<close>, \<open>is_control\<close> the category \<open>Cc\<close>.\<close>

definition uc_is_whitespace :: "uchar \<Rightarrow> bool" where
  "uc_is_whitespace c \<longleftrightarrow>
     9 \<le> c \<and> c \<le> 13 \<or> c = 0x20 \<or> c = 0x85 \<or> c = 0xA0 \<or> c = 0x1680
     \<or> 0x2000 \<le> c \<and> c \<le> 0x200A \<or> c = 0x2028 \<or> c = 0x2029 \<or> c = 0x202F \<or> c = 0x205F \<or> c = 0x3000"

definition uc_is_control :: "uchar \<Rightarrow> bool" where
  "uc_is_control c \<longleftrightarrow> c < 0x20 \<or> 0x7F \<le> c \<and> c < 0xA0"

definition uc_is_digit :: "uchar \<Rightarrow> bool" where
  "uc_is_digit c \<longleftrightarrow> 48 \<le> c \<and> c \<le> 57"

definition uc_is_alphabetic :: "uchar \<Rightarrow> bool" where
  "uc_is_alphabetic c \<longleftrightarrow> 65 \<le> c \<and> c \<le> 90 \<or> 97 \<le> c \<and> c \<le> 122"

definition uc_is_alphanumeric :: "uchar \<Rightarrow> bool" where
  "uc_is_alphanumeric c \<longleftrightarrow> uc_is_alphabetic c \<or> uc_is_digit c"

definition hex_digit :: "uchar \<Rightarrow> nat option" where
  "hex_digit c =
     (if 48 \<le> c \<and> c \<le> 57 then Some (c - 48)
      else if 97 \<le> c \<and> c \<le> 102 then Some (c - 87)
      else if 65 \<le> c \<and> c \<le> 70 then Some (c - 55)
      else None)"

text \<open>The lower case letter of a hexadecimal digit, and the number its digits spell.\<close>

definition hex_letter :: "nat \<Rightarrow> uchar" where
  "hex_letter d = (if d < 10 then 48 + d else 87 + d)"

lemma hex_digit_letter [simp]: "d < 16 \<Longrightarrow> hex_digit (hex_letter d) = Some d"
  by (auto simp: hex_digit_def hex_letter_def)

subsection \<open>Numbers\<close>

definition show_int :: "int \<Rightarrow> string" where
  "show_int i = (if i < 0 then ''-'' @ show_nat (nat (- i)) else show_nat (nat i))"

text \<open>The value of decimal digits.\<close>

definition digits_value :: "uchar list \<Rightarrow> nat" where
  "digits_value ds = foldl (\<lambda>n d. 10 * n + (d - 48)) 0 ds"

definition signed_value :: "uchar list \<Rightarrow> int" where
  "signed_value cs =
     (case cs of
        [] \<Rightarrow> 0
      | c # ds \<Rightarrow>
          if c = ch CHR ''-'' then - int (digits_value ds)
          else if c = ch CHR ''+'' then int (digits_value ds)
          else int (digits_value cs))"

text \<open>\<open>parse::<i64>\<close> of digits with or without a minus: refused only when it does not fit.\<close>

definition parse_i64 :: "uchar list \<Rightarrow> i64 option" where
  "parse_i64 literal = i64_of_int (signed_value literal)"

text \<open>
  \<open>parse::<f64>\<close> of digits, a point, digits and an exponent: the number nearest to what they
  spell, an infinity beyond the finite ones.
\<close>

definition scale_decimal :: "bool \<Rightarrow> nat \<Rightarrow> int \<Rightarrow> f64" where
  "scale_decimal s n e =
     (if 0 \<le> e then f64_of_ratio s (n * 10 ^ nat e) 1 else f64_of_ratio s n (10 ^ nat (- e)))"

definition parse_f64 :: "uchar list \<Rightarrow> f64" where
  "parse_f64 literal =
     (let negative = (literal \<noteq> [] \<and> hd literal = ch CHR ''-'');
          body = (if negative then drop 1 literal else literal);
          mantissa = takeWhile (\<lambda>c. c \<noteq> ch CHR ''e'' \<and> c \<noteq> ch CHR ''E'') body;
          exponent = signed_value (drop (length mantissa + 1) body);
          whole = takeWhile (\<lambda>c. c \<noteq> ch CHR ''.'') mantissa;
          fraction = drop (length whole + 1) mantissa
      in scale_decimal negative (digits_value (whole @ fraction)) (exponent - int (length fraction)))"

text \<open>
  \<open>to_string\<close> of an \<open>f64\<close>: the shortest digits that read back as the number, the nearest to it of
  those, written out without an exponent.
\<close>

definition f64_fraction :: "nat \<Rightarrow> int \<Rightarrow> nat \<times> nat" where
  "f64_fraction m e = (if 0 \<le> e then (m * 2 ^ nat e, 1) else (m, 2 ^ nat (- e)))"

text \<open>\<open>n / d\<close> in units of \<open>10 ^ p\<close>: the two integers around it, the nearer one first.\<close>

definition decimal_candidates :: "nat \<Rightarrow> nat \<Rightarrow> int \<Rightarrow> nat list" where
  "decimal_candidates n d p =
     (let (a, b) = (if 0 \<le> p then (n, d * 10 ^ nat p) else (n * 10 ^ nat (- p), d));
          q = a div b; r = a mod b
      in if 2 * r < b then [q, q + 1] else [q + 1, q])"

fun shortest_from :: "nat \<Rightarrow> nat \<Rightarrow> int \<Rightarrow> int \<Rightarrow> nat \<times> int" where
  "shortest_from 0 m e p = (m, p)"
| "shortest_from (Suc k) m e p =
     (let (n, d) = f64_fraction m e in
      case filter (\<lambda>q. scale_decimal False q p = F_Fin False m e) (decimal_candidates n d p) of
        q # _ \<Rightarrow> (q, p)
      | [] \<Rightarrow> shortest_from k m e (p - 1))"

definition show_decimal :: "nat \<Rightarrow> int \<Rightarrow> string" where
  "show_decimal q p =
     (if 0 \<le> p then show_nat (q * 10 ^ nat p)
      else let k = nat (- p); ds = replicate (Suc k - length (show_nat q)) CHR ''0'' @ show_nat q
           in take (length ds - k) ds @ ''.'' @ drop (length ds - k) ds)"

text \<open>The digits start no higher than \<open>10 ^ 309\<close>, and all the 1074 places of a number are enough.\<close>

fun show_f64 :: "f64 \<Rightarrow> string" where
  "show_f64 F_NaN = ''NaN''"
| "show_f64 (F_Inf s) = (if s then ''-inf'' else ''inf'')"
| "show_f64 (F_Fin s m e) =
     (if s then ''-'' else []) @
     (if m = 0 then ''0''
      else let (q, p) = shortest_from 1400 m e 309 in show_decimal q p)"

end
