(* ===== verification/Jsonpath_Lexer.thy ===== *)
theory Jsonpath_Lexer
  imports Unicode_Text
begin

section \<open>From the text of a template to its tokens\<close>

text \<open>
  \<open>crates/specification/src/domain/jsonpath/lexer.rs\<close>, with the placeholders of \<open>template.rs\<close> and
  the errors of \<open>error.rs\<close>. A text is the list of its characters, and a position an index in it,
  as the source has them; what a token keeps of the text is bytes again. Each function that may
  be past the end asks \<open>char_at\<close>, the source's \<open>chars.get\<close>.
\<close>

subsection \<open>Placeholders and errors\<close>

datatype param_key = ByPosition nat | ByName string

datatype param_kind = AnyKind | IntegerKind | NumberKind

record param =
  param_key :: param_key
  param_kind :: param_kind

record syntax_error =
  se_message :: string
  se_position :: nat
  se_expected :: string
  se_expression :: "uchar list"

definition syntax_error_new :: "string \<Rightarrow> nat \<Rightarrow> string \<Rightarrow> syntax_error" where
  "syntax_error_new message position expected =
     \<lparr>se_message = message, se_position = position, se_expected = expected, se_expression = []\<rparr>"

definition syntax_error_within :: "syntax_error \<Rightarrow> uchar list \<Rightarrow> syntax_error" where
  "syntax_error_within e expression = e\<lparr>se_expression := expression\<rparr>"

text \<open>The characters of an ASCII text.\<close>

definition chs :: "string \<Rightarrow> uchar list" where
  "chs s = map of_char s"

definition shown :: "uchar \<Rightarrow> uchar list" where
  "shown c =
     (if c = 10 then chs [CHR 0x5C, CHR ''n'']
      else if c = 9 then chs [CHR 0x5C, CHR ''t'']
      else if c = 13 then chs [CHR 0x5C, CHR ''r'']
      else if uc_is_control c
        then chs [CHR 0x5C, CHR ''x''] @ [hex_letter (c div 16), hex_letter (c mod 16)]
      else [c])"

definition show_syntax_error :: "syntax_error \<Rightarrow> string" where
  "show_syntax_error e =
     (let said = se_message e @ '' at position '' @ show_nat (se_position e)
                 @ '' (expected '' @ se_expected e @ '')''
      in if se_expression e = [] then said
         else
           let echoed = concat (map shown (se_expression e));
               pointer = sum_list (map (length \<circ> shown) (take (se_position e) (se_expression e)))
           in said @ [CHR 0x0A] @ ''  '' @ to_bytes echoed @ [CHR 0x0A] @ ''  ''
              @ replicate pointer CHR '' '' @ ''^'')"

fun show_param_key :: "param_key \<Rightarrow> string" where
  "show_param_key (ByPosition position) = ''#'' @ show_nat position"
| "show_param_key (ByName name) = [CHR 0x27] @ name @ [CHR 0x27]"

fun show_param_kind :: "param_kind \<Rightarrow> string" where
  "show_param_kind AnyKind = ''a value''"
| "show_param_kind IntegerKind = ''an integer''"
| "show_param_kind NumberKind = ''a number''"

subsection \<open>Tokens\<close>

datatype tkind =
    TDollar | TAt | TDot | TLeftBracket | TRightBracket | TLeftParen | TRightParen | TQuestion
  | TStar | TAnd | TOr | TNot | TEq | TNe | TGt | TGe | TLt | TLe
  | TInt i64 | TFloat f64 | TText string | TName string | TPlaceholder param

record token =
  token_kind :: tkind
  token_position :: nat

definition VALID_TOKEN :: string where
  "VALID_TOKEN = ''valid token''"

definition char_at :: "uchar list \<Rightarrow> nat \<Rightarrow> uchar option" where
  "char_at chars i = (if i < length chars then Some (chars ! i) else None)"

text \<open>\<open>chars.get(from..)\<close> is none past the end, where \<open>drop\<close> is empty: no characters either way.\<close>

definition lex_run :: "uchar list \<Rightarrow> nat \<Rightarrow> (uchar \<Rightarrow> bool) \<Rightarrow> nat" where
  "lex_run chars from test = length (takeWhile test (drop from chars))"

definition blanks :: "uchar list \<Rightarrow> nat \<Rightarrow> nat" where
  "blanks chars from = lex_run chars from uc_is_whitespace"

definition is_positional :: "tkind \<Rightarrow> bool" where
  "is_positional k =
     (case k of
        TPlaceholder p \<Rightarrow> (case param_key p of ByPosition _ \<Rightarrow> True | ByName _ \<Rightarrow> False)
      | _ \<Rightarrow> False)"

definition positional :: "token list \<Rightarrow> nat" where
  "positional tokens = length (filter (\<lambda>t. is_positional (token_kind t)) tokens)"

definition is_name_start :: "uchar \<Rightarrow> bool" where
  "is_name_start c \<longleftrightarrow> uc_is_alphabetic c \<or> c = ch CHR ''_''"

definition is_name_part :: "uchar \<Rightarrow> bool" where
  "is_name_part c \<longleftrightarrow> uc_is_alphanumeric c \<or> c = ch CHR ''_''"

type_synonym 'a lexed = "(syntax_error, 'a \<times> nat) result"

definition placeholder_letter :: "uchar option \<Rightarrow> param_kind option" where
  "placeholder_letter c =
     (if c = Some (ch CHR ''s'') then Some AnyKind
      else if c = Some (ch CHR ''d'') then Some IntegerKind
      else if c = Some (ch CHR ''f'') then Some NumberKind
      else None)"

definition placeholder :: "uchar list \<Rightarrow> nat \<Rightarrow> nat \<Rightarrow> tkind lexed" where
  "placeholder chars at index =
     (let malformed =
        syntax_error_new ''Malformed placeholder'' at ''%s, %d, %f or %(name)s''
      in and_then
           (if char_at chars (at + 1) = Some (ch CHR ''('') then
              let len = lex_run chars (at + 2) is_name_part;
                  name = take len (drop (at + 2) chars);
                  close = at + 2 + len
              in if name = [] \<or> char_at chars close \<noteq> Some (ch CHR '')'') then Inl malformed
                 else Inr (ByName (to_bytes name), close + 1)
            else Inr (ByPosition index, at + 1))
           (\<lambda>(key, letter_at).
              case placeholder_letter (char_at chars letter_at) of
                None \<Rightarrow> Inl malformed
              | Some tkind \<Rightarrow>
                  Inr (TPlaceholder \<lparr>param_key = key, param_kind = tkind\<rparr>, letter_at + 1)))"

text \<open>The places where the parts of a number end, each the variable of \<open>number\<close> of its name.\<close>

definition digits_at :: "uchar list \<Rightarrow> nat \<Rightarrow> nat" where
  "digits_at chars from = lex_run chars from uc_is_digit"

definition number_whole_end :: "uchar list \<Rightarrow> nat \<Rightarrow> nat" where
  "number_whole_end chars at =
     (let sign = (if char_at chars at = Some (ch CHR ''-'') then 1 else 0)
      in at + sign + digits_at chars (at + sign))"

definition number_fraction_end :: "uchar list \<Rightarrow> nat \<Rightarrow> nat" where
  "number_fraction_end chars whole_end =
     (let count = digits_at chars (whole_end + 1)
      in if char_at chars whole_end = Some (ch CHR ''.'') \<and> 0 < count then whole_end + 1 + count
         else whole_end)"

definition number_exponent_end :: "uchar list \<Rightarrow> nat \<Rightarrow> nat" where
  "number_exponent_end chars fraction_end =
     (if char_at chars fraction_end \<in> {Some (ch CHR ''e''), Some (ch CHR ''E'')} then
        let sign = (if char_at chars (fraction_end + 1) \<in> {Some (ch CHR ''+''), Some (ch CHR ''-'')}
                    then 1 else 0);
            count = digits_at chars (fraction_end + 1 + sign)
        in if count = 0 then fraction_end else fraction_end + 1 + sign + count
      else fraction_end)"

definition lex_number :: "uchar list \<Rightarrow> nat \<Rightarrow> tkind lexed" where
  "lex_number chars at =
     (let whole_end = number_whole_end chars at;
          exponent_end = number_exponent_end chars (number_fraction_end chars whole_end);
          literal = take (exponent_end - at) (drop at chars);
          out_of_range = syntax_error_new ''Number out of range'' at ''a number that fits''
      in map_ok (\<lambda>tkind. (tkind, exponent_end))
           (if exponent_end = whole_end then map_ok TInt (ok_or out_of_range (parse_i64 literal))
            else
              let value = parse_f64 literal
              in if is_finite value then Inr (TFloat value) else Inl out_of_range))"

fun hex_fold :: "nat \<Rightarrow> uchar list \<Rightarrow> nat option" where
  "hex_fold code [] = Some code"
| "hex_fold code (c # cs) =
     (case hex_digit c of None \<Rightarrow> None | Some digit \<Rightarrow> hex_fold (code * 16 + digit) cs)"

definition hex4 :: "uchar list \<Rightarrow> nat \<Rightarrow> nat option" where
  "hex4 chars at =
     (if at + 4 \<le> length chars then hex_fold 0 (take 4 (drop at chars)) else None)"

definition simple_escape :: "uchar \<Rightarrow> uchar option" where
  "simple_escape c =
     map_of [(0x5C, 0x5C), (0x27, 0x27), (0x22, 0x22), (ch CHR ''/'', ch CHR ''/''),
             (ch CHR ''b'', 8), (ch CHR ''f'', 12), (ch CHR ''n'', 10), (ch CHR ''r'', 13),
             (ch CHR ''t'', 9)] c"

definition INVALID_ESCAPE :: "nat \<Rightarrow> syntax_error" where
  "INVALID_ESCAPE at = syntax_error_new ''Invalid escape'' at
     ([CHR 0x5C, CHR 0x5C] @ '', '' @ [CHR 0x5C, CHR 0x27] @ '', '' @ [CHR 0x5C, CHR 0x22] @ '', ''
      @ [CHR 0x5C] @ ''/, '' @ [CHR 0x5C] @ ''b, '' @ [CHR 0x5C] @ ''f, '' @ [CHR 0x5C] @ ''n, ''
      @ [CHR 0x5C] @ ''r, '' @ [CHR 0x5C] @ ''t or '' @ [CHR 0x5C] @ ''uXXXX'')"

definition lex_escape :: "uchar list \<Rightarrow> nat \<Rightarrow> uchar lexed" where
  "lex_escape chars at =
     (let invalid = INVALID_ESCAPE at
      in case char_at chars (at + 1) of
           None \<Rightarrow> Inl invalid
         | Some e \<Rightarrow>
             (case simple_escape e of
                Some c \<Rightarrow> Inr (c, at + 2)
              | None \<Rightarrow>
                  if e = ch CHR ''u'' then
                    and_then (ok_or invalid (hex4 chars (at + 2))) (\<lambda>high.
                      if 0xD800 \<le> high \<and> high < 0xDC00 then
                        and_then
                          (ok_or invalid
                            (case (if char_at chars (at + 6) = Some 0x5C
                                      \<and> char_at chars (at + 7) = Some (ch CHR ''u'')
                                   then hex4 chars (at + 8) else None) of
                               None \<Rightarrow> None
                             | Some low \<Rightarrow> if 0xDC00 \<le> low \<and> low < 0xE000 then Some low else None))
                          (\<lambda>low.
                             map_ok (\<lambda>c. (c, at + 12))
                               (ok_or invalid
                                 (char_from_u32
                                   (0x10000 + (high - 0xD800) * 2 ^ 10 + (low - 0xDC00)))))
                      else map_ok (\<lambda>c. (c, at + 6)) (ok_or invalid (char_from_u32 high)))
                  else Inl invalid))"

subsection \<open>The loop of a string\<close>

lemma lex_escape_advances: "lex_escape chars at = Inr (c, n) \<Longrightarrow> at < n"
  by (auto simp: lex_escape_def Let_def split: option.splits if_splits)

text \<open>\<open>text\<close> after its opening quote: the characters read so far are \<open>read\<close>.\<close>

function lex_text_from ::
  "uchar list \<Rightarrow> nat \<Rightarrow> uchar \<Rightarrow> uchar list \<Rightarrow> nat \<Rightarrow> tkind lexed" where
  "lex_text_from chars at quote read position =
     (case char_at chars position of
        None \<Rightarrow> Inl (syntax_error_new ''Unterminated string'' at ''closing quote'')
      | Some c \<Rightarrow>
          if c = quote then Inr (TText (to_bytes read), position + 1)
          else if c = 0x5C then
            (case lex_escape chars position of
               Inl e \<Rightarrow> Inl e
             | Inr (d, after) \<Rightarrow> lex_text_from chars at quote (read @ [d]) after)
          else if c < 0x20 then
            Inl (syntax_error_new ''Control character in a string'' position
                   (''its escape, '' @ [CHR 0x5C] @ ''n or '' @ [CHR 0x5C] @ ''uXXXX''))
          else lex_text_from chars at quote (read @ [c]) (position + 1))"
  by pat_completeness auto
termination
  by (relation "measure (\<lambda>(chars, at, quote, read, position). length chars - position)")
    (auto simp: char_at_def split: if_splits dest!: lex_escape_advances)

declare lex_text_from.simps [simp del]

definition lex_text :: "uchar list \<Rightarrow> nat \<Rightarrow> uchar \<Rightarrow> tkind lexed" where
  "lex_text chars at quote = lex_text_from chars at quote [] (at + 1)"

subsection \<open>One token, and all of them\<close>

definition one_char_token :: "uchar \<Rightarrow> tkind option" where
  "one_char_token c =
     map_of [(ch CHR ''$'', TDollar), (ch CHR ''@'', TAt), (ch CHR ''.'', TDot),
             (ch CHR ''['', TLeftBracket), (ch CHR '']'', TRightBracket),
             (ch CHR ''('', TLeftParen), (ch CHR '')'', TRightParen), (ch CHR ''?'', TQuestion),
             (ch CHR ''*'', TStar)] c"

definition two_char_token :: "uchar \<Rightarrow> uchar option \<Rightarrow> tkind option" where
  "two_char_token c after =
     map_of [((ch CHR ''&'', Some (ch CHR ''&'')), TAnd), ((ch CHR ''|'', Some (ch CHR ''|'')), TOr),
             ((ch CHR ''='', Some (ch CHR ''='')), TEq), ((ch CHR ''!'', Some (ch CHR ''='')), TNe),
             ((ch CHR ''>'', Some (ch CHR ''='')), TGe), ((ch CHR ''<'', Some (ch CHR ''='')), TLe)]
            (c, after)"

definition short_operator :: "uchar \<Rightarrow> tkind option" where
  "short_operator c =
     map_of [(ch CHR ''!'', TNot), (ch CHR ''>'', TGt), (ch CHR ''<'', TLt)] c"

text \<open>The match of \<open>token\<close>, arm by arm in its order.\<close>

definition lex_token :: "uchar \<Rightarrow> uchar list \<Rightarrow> nat \<Rightarrow> nat \<Rightarrow> tkind lexed" where
  "lex_token first chars at index =
     (case one_char_token first of
        Some tkind \<Rightarrow> Inr (tkind, at + 1)
      | None \<Rightarrow>
     (case two_char_token first (char_at chars (at + 1)) of
        Some tkind \<Rightarrow> Inr (tkind, at + 2)
      | None \<Rightarrow>
     (case short_operator first of
        Some tkind \<Rightarrow> Inr (tkind, at + 1)
      | None \<Rightarrow>
          if first = ch CHR ''%'' then placeholder chars at index
          else if first = 0x27 \<or> first = 0x22 then lex_text chars at first
          else if uc_is_digit first then lex_number chars at
          else if first = ch CHR ''-'' \<and> char_at chars (at + 1) \<noteq> None
               \<and> uc_is_digit (the (char_at chars (at + 1))) then lex_number chars at
          else if is_name_start first then
            let len = lex_run chars at is_name_part
            in Inr (TName (to_bytes (take len (drop at chars))), at + len)
          else
            Inl (syntax_error_new
                   (''Unexpected character '' @ [CHR 0x27] @ to_bytes (shown first) @ [CHR 0x27])
                   at VALID_TOKEN))))"

lemma lex_text_from_advances:
  "lex_text_from chars at quote read position = Inr (k, n) \<Longrightarrow> position < n"
proof (induction chars at quote read position rule: lex_text_from.induct)
  case (1 chars at quote read position)
  note result = "1.prems" [unfolded lex_text_from.simps [of chars at quote read position]]
  from result obtain c where c: "char_at chars position = Some c" by (auto split: option.splits)
  consider "c = quote" | "c \<noteq> quote" "c = 0x5C" | "c \<noteq> quote" "c \<noteq> 0x5C" by blast
  then show ?case
  proof cases
    case 1
    with result c show ?thesis by auto
  next
    case 2
    with result c obtain d after where e: "lex_escape chars position = Inr (d, after)"
      and rest: "lex_text_from chars at quote (read @ [d]) after = Inr (k, n)"
      by (auto split: sum.splits)
    have "after < n" using "1.IH"(1) [OF c 2] e rest by blast
    with e show ?thesis by (auto dest: lex_escape_advances)
  next
    case 3
    with result c have "\<not> c < 0x20"
      and "lex_text_from chars at quote (read @ [c]) (position + 1) = Inr (k, n)"
      by (auto split: if_splits)
    with "1.IH"(2) [OF c 3] show ?thesis by simp
  qed
qed

lemma lex_run_pos:
  "char_at chars at = Some c \<Longrightarrow> test c \<Longrightarrow> 0 < lex_run chars at test"
  by (auto simp: char_at_def lex_run_def Cons_nth_drop_Suc [symmetric] split: if_splits)

lemma lex_name_pos:
  "char_at chars at = Some c \<Longrightarrow> is_name_start c \<Longrightarrow> 0 < lex_run chars at is_name_part"
  by (rule lex_run_pos) (auto simp: is_name_start_def is_name_part_def uc_is_alphanumeric_def)

lemma number_fraction_end_ge: "e \<le> number_fraction_end chars e"
  by (simp add: number_fraction_end_def Let_def)

lemma number_exponent_end_ge: "e \<le> number_exponent_end chars e"
  by (simp add: number_exponent_end_def Let_def)

lemma number_whole_end_gt:
  assumes "char_at chars at = Some c" and "uc_is_digit c \<or> c = ch CHR ''-''"
  shows "at < number_whole_end chars at"
  using assms lex_run_pos [of chars at c uc_is_digit]
  by (cases "c = ch CHR ''-''") (auto simp: number_whole_end_def digits_at_def)

lemma lex_number_advances:
  assumes "lex_number chars at = Inr (k, n)" and "char_at chars at = Some c"
    and "uc_is_digit c \<or> c = ch CHR ''-''"
  shows "at < n"
proof -
  let ?w = "number_whole_end chars at"
  have "n = number_exponent_end chars (number_fraction_end chars ?w)"
    using assms(1) unfolding lex_number_def Let_def by auto
  with number_whole_end_gt [OF assms(2,3)] show ?thesis
    by (metis number_fraction_end_ge number_exponent_end_ge less_le_trans)
qed

lemma placeholder_advances: "placeholder chars at index = Inr (k, n) \<Longrightarrow> at < n"
  by (auto simp: placeholder_def Let_def and_then_Inr_iff split: option.splits if_splits)

lemma lex_tokenE:
  assumes "lex_token first chars at index = Inr (k, n)"
  obtains (one) "one_char_token first = Some k" "n = at + 1"
  | (two) "two_char_token first (char_at chars (at + 1)) = Some k" "n = at + 2"
  | (short) "short_operator first = Some k" "n = at + 1"
  | (placeholder) "placeholder chars at index = Inr (k, n)"
  | (quoted) "lex_text chars at first = Inr (k, n)"
  | (number) "lex_number chars at = Inr (k, n)"
      "uc_is_digit first \<or> (first = ch CHR ''-'' \<and> char_at chars (at + 1) \<noteq> None)"
  | (name) "is_name_start first" "n = at + lex_run chars at is_name_part"
      "k = TName (to_bytes (take (lex_run chars at is_name_part) (drop at chars)))"
proof (cases "one_char_token first")
  case None
  note one_none = this
  show ?thesis
  proof (cases "two_char_token first (char_at chars (at + 1))")
    case None
    note two_none = this
    show ?thesis
    proof (cases "short_operator first")
      case None
      note step = assms [unfolded lex_token_def one_none two_none None option.case]
      consider "first = ch CHR ''%''" | "first \<noteq> ch CHR ''%''" "first = 0x27 \<or> first = 0x22"
        | "first \<noteq> ch CHR ''%''" "\<not> (first = 0x27 \<or> first = 0x22)"
        by blast
      then show ?thesis
      proof cases
        case 1
        from step [unfolded if_P [OF 1]] show ?thesis by (rule placeholder)
      next
        case 2
        from step [unfolded if_not_P [OF 2(1)] if_P [OF 2(2)]] show ?thesis by (rule quoted)
      next
        case 3
        note step = step [unfolded if_not_P [OF 3(1)] if_not_P [OF 3(2)]]
        consider "uc_is_digit first"
          | "\<not> uc_is_digit first" "first = ch CHR ''-'' \<and> char_at chars (at + 1) \<noteq> None
               \<and> uc_is_digit (the (char_at chars (at + 1)))"
          | "\<not> uc_is_digit first" "\<not> (first = ch CHR ''-'' \<and> char_at chars (at + 1) \<noteq> None
               \<and> uc_is_digit (the (char_at chars (at + 1))))"
          by blast
        then show ?thesis
        proof cases
          case 1
          from step [unfolded if_P [OF 1]] 1 show ?thesis by (intro number) simp_all
        next
          case 2
          from step [unfolded if_not_P [OF 2(1)] if_P [OF 2(2)]] 2 show ?thesis
            by (intro number) simp_all
        next
          case 3
          note step = step [unfolded if_not_P [OF 3(1)] if_not_P [OF 3(2)]]
          show ?thesis
          proof (cases "is_name_start first")
            case True
            with step show ?thesis by (intro name) (simp_all add: Let_def)
          next
            case False
            with step show ?thesis by simp
          qed
        qed
      qed
    next
      case (Some k')
      with assms one_none two_none show ?thesis
        by (intro short) (simp_all only: lex_token_def option.case sum.inject prod.inject)
    qed
  next
    case (Some k')
    with assms one_none show ?thesis
      by (intro two) (simp_all only: lex_token_def option.case sum.inject prod.inject)
  qed
next
  case (Some k')
  with assms show ?thesis
    by (intro one) (simp_all only: lex_token_def option.case sum.inject prod.inject)
qed

lemma lex_token_advances:
  assumes "lex_token first chars at index = Inr (k, n)" and "char_at chars at = Some first"
  shows "at < n"
  using assms(1)
proof (cases rule: lex_tokenE)
  case placeholder
  then show ?thesis by (rule placeholder_advances)
next
  case quoted
  then show ?thesis unfolding lex_text_def by (auto dest: lex_text_from_advances)
next
  case number
  with assms(2) show ?thesis by (metis lex_number_advances)
next
  case name
  with assms(2) show ?thesis by (simp add: lex_name_pos)
qed simp_all

function tokenize_from :: "uchar list \<Rightarrow> nat \<Rightarrow> nat \<Rightarrow> (syntax_error, token list) result" where
  "tokenize_from chars at placeholders =
     (let position = at + blanks chars at in
      case char_at chars position of
        None \<Rightarrow> Inr []
      | Some first \<Rightarrow>
          (case lex_token first chars position placeholders of
             Inl e \<Rightarrow> Inl e
           | Inr (tkind, after) \<Rightarrow>
               map_ok (\<lambda>tokens. \<lparr>token_kind = tkind, token_position = position\<rparr> # tokens)
                 (tokenize_from chars after
                    (placeholders + (if is_positional tkind then 1 else 0)))))"
  by pat_completeness auto
termination
proof (relation "measure (\<lambda>(chars, at, placeholders). length chars - at)", goal_cases)
  case 1
  then show ?case by simp
next
  case prems: (2 chars at placeholders position first ka tkind after)
  then have "position < length chars" "position < after" "at \<le> position"
    by (auto simp: char_at_def split: if_splits dest: lex_token_advances)
  then show ?case by simp
qed

declare tokenize_from.simps [simp del]

definition tokenize :: "uchar list \<Rightarrow> (syntax_error, token list) result" where
  "tokenize chars = tokenize_from chars 0 0"

end
