(* ===== verification/Jsonpath_Parser.thy ===== *)
theory Jsonpath_Parser
  imports Jsonpath_Lexer Ast
begin

section \<open>From the tokens of a template to its tree\<close>

text \<open>
  \<open>crates/specification/src/domain/jsonpath/parser.rs\<close>: one function per rule of the grammar. The
  rules call one another in a circle, and what makes a call smaller is that the input is shorter
  after a successful one; so the functions of the circle take fuel, and running out of it is an
  outcome of its own, \<open>OutOfFuel\<close>, which no text reaches: \<open>Jsonpath_Parser_Laws\<close>.
\<close>

datatype slot = Literal val | Placeholder param

definition MAX_HEIGHT :: nat where "MAX_HEIGHT = 128"
definition MAX_NESTING :: nat where "MAX_NESTING = 32"

datatype parse_error = OutOfFuel | Syntax syntax_error

subsection \<open>The input\<close>

record input =
  in_tokens :: "token list"
  in_end :: nat

definition in_kind :: "input \<Rightarrow> tkind option" where
  "in_kind i = (case in_tokens i of [] \<Rightarrow> None | t # _ \<Rightarrow> Some (token_kind t))"

definition in_position :: "input \<Rightarrow> nat" where
  "in_position i = (case in_tokens i of [] \<Rightarrow> in_end i | t # _ \<Rightarrow> token_position t)"

definition advance :: "input \<Rightarrow> input" where
  "advance i = i\<lparr>in_tokens := drop 1 (in_tokens i)\<rparr>"

definition in_error :: "input \<Rightarrow> string \<Rightarrow> string \<Rightarrow> parse_error" where
  "in_error i message expected = Syntax (syntax_error_new message (in_position i) expected)"

definition expect :: "input \<Rightarrow> tkind \<Rightarrow> string \<Rightarrow> string \<Rightarrow> (parse_error, input) result" where
  "expect i tkind message expected =
     (if in_kind i = Some tkind then Inr (advance i) else Inl (in_error i message expected))"

fun spelling_of :: "tkind \<Rightarrow> string" where
  "spelling_of TDollar = ''$''"
| "spelling_of TAt = ''@''"
| "spelling_of TDot = ''.''"
| "spelling_of TLeftBracket = ''[''"
| "spelling_of TRightBracket = '']''"
| "spelling_of TLeftParen = ''(''"
| "spelling_of TRightParen = '')''"
| "spelling_of TQuestion = ''?''"
| "spelling_of TStar = ''*''"
| "spelling_of TAnd = ''&&''"
| "spelling_of TOr = ''||''"
| "spelling_of TNot = ''!''"
| "spelling_of TEq = ''==''"
| "spelling_of TNe = ''!=''"
| "spelling_of TGt = ''>''"
| "spelling_of TGe = ''>=''"
| "spelling_of TLt = ''<''"
| "spelling_of TLe = ''<=''"
| "spelling_of (TInt value) = show_int (sint value)"
| "spelling_of (TFloat value) = show_f64 value"
| "spelling_of (TText value) = [CHR 0x22] @ value @ [CHR 0x22]"
| "spelling_of (TName name) = name"
| "spelling_of (TPlaceholder p) =
     (case param_key p of ByPosition _ \<Rightarrow> ''%'' | ByName name \<Rightarrow> ''%('' @ name @ '')'')"

definition unexpected :: "input \<Rightarrow> string \<Rightarrow> parse_error" where
  "unexpected i expected =
     (case in_kind i of
        Some tkind \<Rightarrow>
          in_error i (''Unexpected token '' @ [CHR 0x27] @ spelling_of tkind @ [CHR 0x27]) expected
      | None \<Rightarrow> in_error i ''Unexpected end of expression'' expected)"

subsection \<open>Trees with their heights\<close>

type_synonym 'a parsed = "(parse_error, 'a \<times> input) result"

record tree =
  tree_expr :: "slot expr"
  tree_height :: nat

definition too_deep :: "input \<Rightarrow> parse_error" where
  "too_deep at = in_error at ''Expression is nested too deep'' ''a simpler expression''"

definition taller :: "input \<Rightarrow> nat \<Rightarrow> (parse_error, nat) result" where
  "taller at h = (if h < MAX_HEIGHT then Inr (h + 1) else Inl (too_deep at))"

definition deeper :: "input \<Rightarrow> nat \<Rightarrow> (parse_error, nat) result" where
  "deeper at depth = (if depth < MAX_NESTING then Inr (depth + 1) else Inl (too_deep at))"

definition leaf :: "slot expr \<Rightarrow> tree" where
  "leaf e = \<lparr>tree_expr = e, tree_height = 1\<rparr>"

definition over :: "input \<Rightarrow> (slot expr \<Rightarrow> slot expr) \<Rightarrow> tree \<Rightarrow> (parse_error, tree) result" where
  "over at mk operand =
     map_ok (\<lambda>h. \<lparr>tree_expr = mk (tree_expr operand), tree_height = h\<rparr>)
       (taller at (tree_height operand))"

definition over_both ::
  "input \<Rightarrow> (slot expr \<Rightarrow> slot expr \<Rightarrow> slot expr) \<Rightarrow> tree \<Rightarrow> tree \<Rightarrow> (parse_error, tree) result" where
  "over_both at mk left right =
     map_ok (\<lambda>h. \<lparr>tree_expr = mk (tree_expr left) (tree_expr right), tree_height = h\<rparr>)
       (taller at (max (tree_height left) (tree_height right)))"

subsection \<open>The rules outside the circle\<close>

text \<open>The names of a path; each turn of the loop takes two tokens.\<close>

function names_from :: "string list \<Rightarrow> input \<Rightarrow> string list parsed" where
  "names_from names i =
     (if in_kind i = Some TDot then
        (case in_kind (advance i) of
           Some (TName name) \<Rightarrow> names_from (names @ [name]) (advance (advance i))
         | _ \<Rightarrow> Inl (in_error (advance i) ''Expected field name'' (''after '' @ [CHR 0x27, CHR ''.'', CHR 0x27])))
      else Inr (names, i))"
  by pat_completeness auto
termination
  by (relation "measure (\<lambda>(names, i). length (in_tokens i))")
    (auto simp: advance_def in_kind_def split: list.splits)

declare names_from.simps [simp del]

definition names_rule :: "input \<Rightarrow> string list parsed" where
  "names_rule i = names_from [] i"

definition collection_path :: "root \<Rightarrow> string list \<Rightarrow> path option" where
  "collection_path root names =
     (case names of
        [] \<Rightarrow> None
      | first # rest \<Rightarrow> Some (foldl path_child (path_new root first) rest))"

definition wildcard :: "input \<Rightarrow> (parse_error, input) result" where
  "wildcard i =
     (let message = ''Expected wildcard '' @ [CHR 0x27] @ ''[*]'' @ [CHR 0x27];
          expected = ''after path''
      in and_then (expect i TLeftBracket message expected) (\<lambda>i.
           and_then (expect i TStar message expected) (\<lambda>i.
             expect i TRightBracket message expected)))"

text \<open>
  The loop of a chain, to the left; \<open>fuel\<close> counts its turns. The closure is \<open>operand\<close>.
\<close>

fun chain_loop ::
  "nat \<Rightarrow> tkind \<Rightarrow> (slot expr \<Rightarrow> slot expr \<Rightarrow> slot expr) \<Rightarrow> (input \<Rightarrow> tree parsed)
    \<Rightarrow> tree \<Rightarrow> input \<Rightarrow> tree parsed" where
  "chain_loop 0 separator mk operand left i = Inl OutOfFuel"
| "chain_loop (Suc fuel) separator mk operand left i =
     (if in_kind i = Some separator then
        and_then (operand (advance i)) (\<lambda>(right, rest).
          and_then (over_both i mk left right) (\<lambda>left.
            chain_loop fuel separator mk operand left rest))
      else Inr (left, i))"

definition chain ::
  "nat \<Rightarrow> input \<Rightarrow> tkind \<Rightarrow> (slot expr \<Rightarrow> slot expr \<Rightarrow> slot expr) \<Rightarrow> (input \<Rightarrow> tree parsed)
    \<Rightarrow> tree parsed" where
  "chain fuel i separator mk operand =
     and_then (operand i) (\<lambda>(left, i). chain_loop fuel separator mk operand left i)"

definition comparison_maker :: "tkind option \<Rightarrow> (slot expr \<Rightarrow> slot expr \<Rightarrow> slot expr) option" where
  "comparison_maker k =
     (case k of
        Some TEq \<Rightarrow> Some ast_equal
      | Some TNe \<Rightarrow> Some ast_not_equal
      | Some TGt \<Rightarrow> Some ast_greater_than
      | Some TGe \<Rightarrow> Some ast_greater_than_equal
      | Some TLt \<Rightarrow> Some ast_less_than
      | Some TLe \<Rightarrow> Some ast_less_than_equal
      | _ \<Rightarrow> None)"

text \<open>The literals of \<open>operand\<close>: \<open>true\<close>, \<open>false\<close> and \<open>null\<close> in any case of their letters.\<close>

definition literal_value :: "tkind \<Rightarrow> val option" where
  "literal_value k =
     (case k of
        TInt value \<Rightarrow> Some (VInt value)
      | TFloat value \<Rightarrow> Some (VFloat value)
      | TText value \<Rightarrow> Some (VText value)
      | TName name \<Rightarrow>
          if map ascii_lower name = ''true'' then Some (VBool True)
          else if map ascii_lower name = ''false'' then Some (VBool False)
          else if map ascii_lower name = ''null'' then Some VNull
          else None
      | _ \<Rightarrow> None)"

definition OPERAND_EXPECTED :: string where
  "OPERAND_EXPECTED =
     ''value (number, string, boolean, null or placeholder) or query''"

definition placeholder_of :: "tkind \<Rightarrow> param option" where
  "placeholder_of k = (case k of TPlaceholder p \<Rightarrow> Some p | _ \<Rightarrow> None)"

subsection \<open>The circle\<close>

function (sequential) or_rule :: "nat \<Rightarrow> input \<Rightarrow> root \<Rightarrow> nat \<Rightarrow> tree parsed"
and and_rule :: "nat \<Rightarrow> input \<Rightarrow> root \<Rightarrow> nat \<Rightarrow> tree parsed"
and unary_rule :: "nat \<Rightarrow> input \<Rightarrow> root \<Rightarrow> nat \<Rightarrow> tree parsed"
and comparison_rule :: "nat \<Rightarrow> input \<Rightarrow> root \<Rightarrow> nat \<Rightarrow> tree parsed"
and operand_rule :: "nat \<Rightarrow> input \<Rightarrow> root \<Rightarrow> nat \<Rightarrow> tree parsed"
and query_rule :: "nat \<Rightarrow> input \<Rightarrow> root \<Rightarrow> nat \<Rightarrow> tree parsed"
and filter_rule :: "nat \<Rightarrow> input \<Rightarrow> root \<Rightarrow> nat \<Rightarrow> tree parsed" where
  "or_rule 0 i scope depth = Inl OutOfFuel"
| "or_rule (Suc fuel) i scope depth =
     chain fuel i TOr ast_or (\<lambda>i. and_rule fuel i scope depth)"
| "and_rule 0 i scope depth = Inl OutOfFuel"
| "and_rule (Suc fuel) i scope depth =
     chain fuel i TAnd ast_and (\<lambda>i. unary_rule fuel i scope depth)"
| "unary_rule 0 i scope depth = Inl OutOfFuel"
| "unary_rule (Suc fuel) i scope depth =
     (if in_kind i = Some TNot then
        and_then (deeper i depth) (\<lambda>depth.
          and_then (unary_rule fuel (advance i) scope depth) (\<lambda>(operand, rest).
            and_then (over i ast_not operand) (\<lambda>t. Inr (t, rest))))
      else comparison_rule fuel i scope depth)"
| "comparison_rule 0 i scope depth = Inl OutOfFuel"
| "comparison_rule (Suc fuel) i scope depth =
     and_then (operand_rule fuel i scope depth) (\<lambda>(left, i).
       case comparison_maker (in_kind i) of
         None \<Rightarrow> Inr (left, i)
       | Some mk \<Rightarrow>
           and_then (operand_rule fuel (advance i) scope depth) (\<lambda>(right, rest).
             and_then (over_both i mk left right) (\<lambda>t. Inr (t, rest))))"
| "operand_rule 0 i scope depth = Inl OutOfFuel"
| "operand_rule (Suc fuel) i scope depth =
     (case in_kind i of
        None \<Rightarrow> Inl (unexpected i OPERAND_EXPECTED)
      | Some k \<Rightarrow>
          if k = TLeftParen then
            and_then (deeper i depth) (\<lambda>depth.
              and_then (or_rule fuel (advance i) scope depth) (\<lambda>(inner, rest).
                and_then (expect rest TRightParen
                    (''Expected '' @ [CHR 0x27] @ '')'' @ [CHR 0x27]) ''closing parenthesis'')
                  (\<lambda>rest. Inr (inner, rest))))
          else
            (case literal_value k of
               Some v \<Rightarrow> Inr (leaf (EValue (Literal v)), advance i)
             | None \<Rightarrow>
                 (case placeholder_of k of
                    Some p \<Rightarrow> Inr (leaf (EValue (Placeholder p)), advance i)
                  | None \<Rightarrow>
                      if k = TAt then query_rule fuel (advance i) scope depth
                      else if k = TDollar then query_rule fuel (advance i) RGlobal depth
                      else Inl (unexpected i OPERAND_EXPECTED))))"
| "query_rule 0 i root depth = Inl OutOfFuel"
| "query_rule (Suc fuel) i root depth =
     and_then (names_rule i) (\<lambda>(names, i).
       case collection_path root names of
         None \<Rightarrow>
           (case root of
              RItem up \<Rightarrow>
                if in_kind i \<noteq> Some TLeftBracket then Inr (leaf (EItem up), i)
                else Inl (in_error i ''Expected field name''
                  (''after '' @ [CHR 0x27] @ ''@'' @ [CHR 0x27] @ '' or '' @ [CHR 0x27] @ ''$'' @ [CHR 0x27]))
            | RGlobal \<Rightarrow> Inl (in_error i ''Expected field name''
                  (''after '' @ [CHR 0x27] @ ''@'' @ [CHR 0x27] @ '' or '' @ [CHR 0x27] @ ''$'' @ [CHR 0x27])))
       | Some path \<Rightarrow>
           if in_kind i = Some TLeftBracket then
             and_then (wildcard i) (\<lambda>after.
               and_then (deeper i depth) (\<lambda>depth.
                 and_then (filter_rule fuel after (RItem 0) depth) (\<lambda>(predicate, rest).
                   and_then (over i (ast_any path) predicate) (\<lambda>t. Inr (t, rest)))))
           else Inr (leaf (EField path), i))"
| "filter_rule 0 i scope depth = Inl OutOfFuel"
| "filter_rule (Suc fuel) i scope depth =
     (let message = ''Expected filter expression '' @ [CHR 0x27] @ ''[?...]'' @ [CHR 0x27] in
      and_then (expect i TLeftBracket message ([CHR 0x27] @ ''['' @ [CHR 0x27])) (\<lambda>i.
        and_then (expect i TQuestion message ([CHR 0x27] @ ''?'' @ [CHR 0x27])) (\<lambda>i.
          and_then (or_rule fuel i scope depth) (\<lambda>(predicate, i).
            and_then (expect i TRightBracket (''Expected '' @ [CHR 0x27] @ '']'' @ [CHR 0x27])
                ''end of filter expression'')
              (\<lambda>i. Inr (predicate, i))))))"
  by pat_completeness auto
termination
  by (relation "measure (\<lambda>x. case x of
        Inl (Inl (n, _)) \<Rightarrow> n | Inl (Inr (Inl (n, _))) \<Rightarrow> n | Inl (Inr (Inr (n, _))) \<Rightarrow> n
      | Inr (Inl (Inl (n, _))) \<Rightarrow> n | Inr (Inl (Inr (n, _))) \<Rightarrow> n
      | Inr (Inr (Inl (n, _))) \<Rightarrow> n | Inr (Inr (Inr (n, _))) \<Rightarrow> n)") simp_all

declare or_rule.simps [simp del] and_rule.simps [simp del] unary_rule.simps [simp del]
  comparison_rule.simps [simp del] operand_rule.simps [simp del] query_rule.simps [simp del]
  filter_rule.simps [simp del]

subsection \<open>The whole\<close>

definition is_named :: "tkind \<Rightarrow> bool" where
  "is_named k =
     (case k of
        TPlaceholder p \<Rightarrow> (case param_key p of ByName _ \<Rightarrow> True | ByPosition _ \<Rightarrow> False)
      | _ \<Rightarrow> False)"

definition one_style :: "token list \<Rightarrow> (parse_error, unit) result" where
  "one_style tokens =
     (case (find (\<lambda>t. is_named (token_kind t)) tokens,
            find (\<lambda>t. is_positional (token_kind t)) tokens) of
        (Some first, Some second) \<Rightarrow>
          Inl (Syntax (syntax_error_new ''Positional and named placeholders in one template''
                 (max (token_position first) (token_position second)) ''placeholders of one style''))
      | _ \<Rightarrow> Inr ())"

text \<open>Eight calls to a token, and the calls of an empty input.\<close>

definition parser_fuel :: "token list \<Rightarrow> nat" where
  "parser_fuel tokens = 8 * length tokens + 10"

definition template_rule :: "token list \<Rightarrow> nat \<Rightarrow> (parse_error, slot expr) result" where
  "template_rule tokens end_at =
     (let fuel = parser_fuel tokens in
      and_then (one_style tokens) (\<lambda>_.
      and_then (expect \<lparr>in_tokens = tokens, in_end = end_at\<rparr> TDollar
          (''Expected '' @ [CHR 0x27] @ ''$'' @ [CHR 0x27]) ''a template starts at the root'') (\<lambda>i.
      and_then (names_rule i) (\<lambda>(names, after).
      and_then
        (case collection_path RGlobal names of
           None \<Rightarrow> filter_rule fuel after RGlobal 0
         | Some source \<Rightarrow>
             and_then (wildcard after) (\<lambda>i.
               and_then (filter_rule fuel i (RItem 0) 1) (\<lambda>(predicate, rest).
                 and_then (over after (ast_any source) predicate) (\<lambda>t. Inr (t, rest)))))
        (\<lambda>(tree, i).
           case in_kind i of
             None \<Rightarrow> Inr (tree_expr tree)
           | Some _ \<Rightarrow> Inl (unexpected i ''end of expression''))))))"

end
