(* ===== verification/Jsonpath_Grammar.thy ===== *)
theory Jsonpath_Grammar
  imports Jsonpath_Parser Evaluate_Laws
begin

section \<open>Templates\<close>

text \<open>
  \<open>crates/specification/src/domain/jsonpath/template.rs\<close> and the other errors of \<open>error.rs\<close>: a
  template is read once and bound to parameters for each use. \<open>Params::Named\<close> is a map from names.
\<close>

definition admits :: "param_kind \<Rightarrow> val \<Rightarrow> bool" where
  "admits k v =
     (case (k, v) of
        (AnyKind, _) \<Rightarrow> True
      | (_, VNull) \<Rightarrow> True
      | (IntegerKind, VInt _) \<Rightarrow> True
      | (NumberKind, VInt _) \<Rightarrow> True
      | (NumberKind, VFloat _) \<Rightarrow> True
      | (IntegerKind, _) \<Rightarrow> False
      | (NumberKind, _) \<Rightarrow> False)"

datatype params = Positional "val list" | Named "string \<rightharpoonup> val"

definition params_none :: params where
  "params_none = Positional []"

definition params_positional :: "val list \<Rightarrow> params" where
  "params_positional values = Positional values"

text \<open>Of two values with one name the later is kept.\<close>

definition params_named :: "(string \<times> val) list \<Rightarrow> params" where
  "params_named values = Named (map_of (rev values))"

datatype bind_error =
    Missing param_key
  | Unused nat nat
  | WrongStyle
  | Mismatch param_key param_kind string

fun show_bind_error :: "bind_error \<Rightarrow> string" where
  "show_bind_error (Missing key) = ''no parameter for placeholder '' @ show_param_key key"
| "show_bind_error (Unused placeholders parameters) =
     show_nat parameters @ '' parameters for '' @ show_nat placeholders @ '' placeholders''"
| "show_bind_error WrongStyle =
     ''positional parameters for named placeholders, or named for positional''"
| "show_bind_error (Mismatch key expected found) =
     ''placeholder '' @ show_param_key key @ '' expects '' @ show_param_kind expected @ '', got '' @ found"

definition params_get :: "params \<Rightarrow> param_key \<Rightarrow> (bind_error, val) result" where
  "params_get params key =
     (case (params, key) of
        (Positional values, ByPosition position) \<Rightarrow>
          ok_or (Missing key) (if position < length values then Some (values ! position) else None)
      | (Named values, ByName name) \<Rightarrow> ok_or (Missing key) (values name)
      | _ \<Rightarrow> Inl WrongStyle)"

record template =
  tm_source :: "uchar list"
  tm_expr :: "slot expr"
  tm_positional :: nat

definition MAX_LENGTH :: nat where "MAX_LENGTH = 262144"

definition parse_within :: "uchar list \<Rightarrow> parse_error \<Rightarrow> parse_error" where
  "parse_within source e =
     (case e of OutOfFuel \<Rightarrow> OutOfFuel | Syntax s \<Rightarrow> Syntax (syntax_error_within s source))"

definition template_parse :: "uchar list \<Rightarrow> (parse_error, template) result" where
  "template_parse source =
     (if MAX_LENGTH < length (to_bytes source) then
        Inl (Syntax (syntax_error_new ''Template too long'' MAX_LENGTH ''at most 262144 bytes of UTF-8''))
      else
        and_then (map_err (\<lambda>e. Syntax (syntax_error_within e source)) (tokenize source)) (\<lambda>tokens.
        and_then (map_err (parse_within source) (template_rule tokens (length source))) (\<lambda>expr.
          Inr \<lparr>tm_source = source, tm_expr = expr, tm_positional = positional tokens\<rparr>)))"

definition bind_slot :: "params \<Rightarrow> slot \<Rightarrow> (bind_error, val) result" where
  "bind_slot params slot =
     (case slot of
        Literal value \<Rightarrow> Inr value
      | Placeholder p \<Rightarrow>
          and_then (params_get params (param_key p)) (\<lambda>value.
            if admits (param_kind p) value then Inr value
            else Inl (Mismatch (param_key p) (param_kind p) (value_kind value))))"

definition template_bind ::
  "val operand \<Rightarrow> template \<Rightarrow> params \<Rightarrow> (bind_error, val expr) result" where
  "template_bind ops t params =
     and_then (try_map_values (bind_slot params) (tm_expr t)) (\<lambda>bound.
       case params of
         Positional values \<Rightarrow>
           if tm_positional t < length values then Inl (Unused (tm_positional t) (length values))
           else Inr (throughout ops bound)
       | Named _ \<Rightarrow> Inr (throughout ops bound))"

datatype match_error = MatchBind bind_error | MatchEval eval_error

fun show_match_error :: "match_error \<Rightarrow> string" where
  "show_match_error (MatchBind e) = show_bind_error e"
| "show_match_error (MatchEval e) = show_eval_error e"

definition template_matches ::
  "val operand \<Rightarrow> ('c, val) ctx_ops \<Rightarrow> template \<Rightarrow> 'c \<Rightarrow> params \<Rightarrow> (match_error, bool) result" where
  "template_matches ops ctx t candidate params =
     and_then (map_err MatchBind (template_bind ops t params)) (\<lambda>specification.
       map_err MatchEval (is_satisfied_by ops ctx specification candidate))"


section \<open>The grammar of a template\<close>

text \<open>
  The grammar the module documents, on the kinds of the tokens, with the tree of each phrase and
  how deep the phrase nests: the groups, negations and collections around its innermost part. The
  parser reads a sequence of tokens as a tree exactly when the grammar has it, the tree is no taller
  than \<open>MAX_HEIGHT\<close> and the phrase no deeper than \<open>MAX_NESTING\<close>.
\<close>

definition path_kinds :: "string list \<Rightarrow> tkind list" where
  "path_kinds names = concat (map (\<lambda>n. [TDot, TName n]) names)"

lemma path_kinds_simps [simp]:
  "path_kinds [] = []" "path_kinds (n # ns) = TDot # TName n # path_kinds ns"
  "path_kinds (ns @ ms) = path_kinds ns @ path_kinds ms"
  by (simp_all add: path_kinds_def)

definition wildcard_kinds :: "tkind list" where
  "wildcard_kinds = [TLeftBracket, TStar, TRightBracket]"

inductive
  g_or :: "root \<Rightarrow> tkind list \<Rightarrow> slot expr \<Rightarrow> nat \<Rightarrow> bool" and
  g_or_rest :: "root \<Rightarrow> slot expr \<Rightarrow> tkind list \<Rightarrow> slot expr \<Rightarrow> nat \<Rightarrow> bool" and
  g_and :: "root \<Rightarrow> tkind list \<Rightarrow> slot expr \<Rightarrow> nat \<Rightarrow> bool" and
  g_and_rest :: "root \<Rightarrow> slot expr \<Rightarrow> tkind list \<Rightarrow> slot expr \<Rightarrow> nat \<Rightarrow> bool" and
  g_unary :: "root \<Rightarrow> tkind list \<Rightarrow> slot expr \<Rightarrow> nat \<Rightarrow> bool" and
  g_comparison :: "root \<Rightarrow> tkind list \<Rightarrow> slot expr \<Rightarrow> nat \<Rightarrow> bool" and
  g_operand :: "root \<Rightarrow> tkind list \<Rightarrow> slot expr \<Rightarrow> nat \<Rightarrow> bool" and
  g_query :: "root \<Rightarrow> tkind list \<Rightarrow> slot expr \<Rightarrow> nat \<Rightarrow> bool" and
  g_filter :: "root \<Rightarrow> tkind list \<Rightarrow> slot expr \<Rightarrow> nat \<Rightarrow> bool"
where
  Or: "g_and s ts l d \<Longrightarrow> g_or_rest s l us e d' \<Longrightarrow> g_or s (ts @ us) e (max d d')"
| Or_end: "g_or_rest s l [] l 0"
| Or_more: "g_and s ts r d \<Longrightarrow> g_or_rest s (ast_or l r) us e d'
    \<Longrightarrow> g_or_rest s l (TOr # ts @ us) e (max d d')"
| And: "g_unary s ts l d \<Longrightarrow> g_and_rest s l us e d' \<Longrightarrow> g_and s (ts @ us) e (max d d')"
| And_end: "g_and_rest s l [] l 0"
| And_more: "g_unary s ts r d \<Longrightarrow> g_and_rest s (ast_and l r) us e d'
    \<Longrightarrow> g_and_rest s l (TAnd # ts @ us) e (max d d')"
| Not: "g_unary s ts e d \<Longrightarrow> g_unary s (TNot # ts) (ast_not e) (Suc d)"
| Unary: "g_comparison s ts e d \<Longrightarrow> g_unary s ts e d"
| Operand: "g_operand s ts e d \<Longrightarrow> g_comparison s ts e d"
| Comparison: "g_operand s ts l d \<Longrightarrow> comparison_maker (Some k) = Some mk \<Longrightarrow> g_operand s us r d'
    \<Longrightarrow> g_comparison s (ts @ k # us) (mk l r) (max d d')"
| Group: "g_or s ts e d \<Longrightarrow> g_operand s (TLeftParen # ts @ [TRightParen]) e (Suc d)"
| Literal: "literal_value k = Some v \<Longrightarrow> g_operand s [k] (EValue (Literal v)) 0"
| Place: "g_operand s [TPlaceholder p] (EValue (Placeholder p)) 0"
| At: "g_query s ts e d \<Longrightarrow> g_operand s (TAt # ts) e d"
| Dollar: "g_query RGlobal ts e d \<Longrightarrow> g_operand s (TDollar # ts) e d"
| Itself: "g_query (RItem up) [] (EItem up) 0"
| Field: "collection_path s names = Some p \<Longrightarrow> g_query s (path_kinds names) (EField p) 0"
| Collection: "collection_path s names = Some p \<Longrightarrow> g_filter (RItem 0) us e d
    \<Longrightarrow> g_query s (path_kinds names @ wildcard_kinds @ us) (ast_any p e) (Suc d)"
| Filter: "g_or s ts e d \<Longrightarrow> g_filter s (TLeftBracket # TQuestion # ts @ [TRightBracket]) e d"

inductive g_template :: "tkind list \<Rightarrow> slot expr \<Rightarrow> nat \<Rightarrow> bool" where
  "g_filter RGlobal ts e d \<Longrightarrow> g_template (TDollar # ts) e d"
| "collection_path RGlobal names = Some p \<Longrightarrow> g_filter (RItem 0) ts e d
    \<Longrightarrow> g_template (TDollar # path_kinds names @ wildcard_kinds @ ts) (ast_any p e) (Suc d)"

lemmas grammar_intros =
  g_or_g_or_rest_g_and_g_and_rest_g_unary_g_comparison_g_operand_g_query_g_filter.intros
lemmas grammar_inducts =
  g_or_g_or_rest_g_and_g_and_rest_g_unary_g_comparison_g_operand_g_query_g_filter.inducts

fun expr_height :: "'v expr \<Rightarrow> nat" where
  "expr_height (EValue v) = 1"
| "expr_height (EField p) = 1"
| "expr_height (EItem up) = 1"
| "expr_height (EPrefix op e) = expr_height e + 1"
| "expr_height (EInfix l op r) = max (expr_height l) (expr_height r) + 1"
| "expr_height (EPostfix e op) = expr_height e + 1"
| "expr_height (EAny p e) = expr_height e + 1"

lemma comparison_builders:
  "ast_equal = (\<lambda>l r. EInfix l (IComparison CEq) r)"
  "ast_not_equal = (\<lambda>l r. EInfix l (IComparison CNe) r)"
  "ast_greater_than = (\<lambda>l r. EInfix l (IComparison CGt) r)"
  "ast_greater_than_equal = (\<lambda>l r. EInfix l (IComparison CGe) r)"
  "ast_less_than = (\<lambda>l r. EInfix l (IComparison CLt) r)"
  "ast_less_than_equal = (\<lambda>l r. EInfix l (IComparison CLe) r)"
  by (simp_all add: ast_builders fun_eq_iff)

lemma comparison_makerE:
  assumes "comparison_maker k = Some mk"
  obtains op where "mk = (\<lambda>l r. EInfix l (IComparison op) r)"
  using assms unfolding comparison_maker_def comparison_builders
  by (auto split: option.splits tkind.splits)

subsection \<open>The input by its kinds\<close>

definition kinds :: "input \<Rightarrow> tkind list" where
  "kinds i = map token_kind (in_tokens i)"

lemma in_kind_kinds: "in_kind i = (case kinds i of [] \<Rightarrow> None | k # _ \<Rightarrow> Some k)"
  by (simp add: in_kind_def kinds_def split: list.split)

lemma in_kind_Some: "in_kind i = Some k \<longleftrightarrow> (\<exists>ks. kinds i = k # ks)"
  by (auto simp: in_kind_kinds split: list.split)

lemma kinds_advance [simp]: "kinds (advance i) = drop 1 (kinds i)"
  by (simp add: kinds_def advance_def drop_map)

lemma in_end_advance [simp]: "in_end (advance i) = in_end i"
  by (simp add: advance_def)

lemma expect_InrD: "expect i k m x = Inr j \<Longrightarrow> kinds i = k # kinds j"
  by (auto simp: expect_def in_kind_Some split: if_splits)

lemma expect_Inr: "kinds i = k # ks \<Longrightarrow> \<exists>j. expect i k m x = Inr j \<and> kinds j = ks"
  by (simp add: expect_def in_kind_kinds)

lemma expect_not_out [simp]: "expect i k m x \<noteq> Inl OutOfFuel"
  by (simp add: expect_def in_error_def)

lemma names_from_InrD:
  "names_from acc i = Inr (ns, j) \<Longrightarrow> \<exists>ms. ns = acc @ ms \<and> kinds i = path_kinds ms @ kinds j"
proof (induction acc i rule: names_from.induct)
  case (1 acc i)
  show ?case
  proof (cases "in_kind i = Some TDot")
    case True
    with "1.prems" obtain n where n: "in_kind (advance i) = Some (TName n)"
      and "names_from (acc @ [n]) (advance (advance i)) = Inr (ns, j)"
      by (subst (asm) names_from.simps) (auto split: option.splits tkind.splits)
    with "1.IH" [OF True n] obtain ms where "ns = acc @ n # ms"
      and "kinds (advance (advance i)) = path_kinds ms @ kinds j" by auto
    with True n show ?thesis by (auto simp: in_kind_Some intro!: exI [of _ "n # ms"])
  next
    case False
    with "1.prems" show ?thesis by (subst (asm) names_from.simps) (auto intro!: exI [of _ "[]"])
  qed
qed

lemma names_rule_InrD: "names_rule i = Inr (ns, j) \<Longrightarrow> kinds i = path_kinds ns @ kinds j"
  unfolding names_rule_def by (auto dest: names_from_InrD)

lemma names_from_Inr:
  "kinds i = path_kinds ms @ ks \<Longrightarrow> (\<forall>us. ks \<noteq> TDot # us)
    \<Longrightarrow> \<exists>j. names_from acc i = Inr (acc @ ms, j) \<and> kinds j = ks"
proof (induction ms arbitrary: acc i)
  case Nil
  then have "in_kind i \<noteq> Some TDot" by (auto simp: in_kind_Some)
  with Nil show ?case by (subst names_from.simps) auto
next
  case (Cons m ms)
  then have "in_kind i = Some TDot" "in_kind (advance i) = Some (TName m)"
    and "kinds (advance (advance i)) = path_kinds ms @ ks"
    by (auto simp: in_kind_Some)
  with Cons.IH [of "advance (advance i)" "acc @ [m]"] Cons.prems(2) show ?case
    by (subst names_from.simps) auto
qed

lemma names_rule_Inr:
  "kinds i = path_kinds ms @ ks \<Longrightarrow> (\<And>us. ks \<noteq> TDot # us)
    \<Longrightarrow> \<exists>j. names_rule i = Inr (ms, j) \<and> kinds j = ks"
  using names_from_Inr [of i ms ks "[]"] by (simp add: names_rule_def)

lemma names_from_not_out: "names_from acc i \<noteq> Inl OutOfFuel"
proof (induction acc i rule: names_from.induct)
  case (1 acc i)
  then show ?case
    by (subst names_from.simps) (auto simp: in_error_def split: option.splits tkind.splits)
qed

lemma names_rule_not_out [simp]: "names_rule i \<noteq> Inl OutOfFuel"
  by (simp add: names_rule_def names_from_not_out)

lemma wildcard_InrD: "wildcard i = Inr j \<Longrightarrow> kinds i = wildcard_kinds @ kinds j"
  by (auto simp: wildcard_def wildcard_kinds_def Let_def dest!: expect_InrD)

lemma wildcard_Inr: "kinds i = wildcard_kinds @ ks \<Longrightarrow> \<exists>j. wildcard i = Inr j \<and> kinds j = ks"
  by (auto simp: wildcard_def wildcard_kinds_def Let_def expect_def in_kind_kinds)

lemma wildcard_not_out [simp]: "wildcard i \<noteq> Inl OutOfFuel"
  by (auto simp: wildcard_def Let_def and_then_Inl_iff)

lemma deeper_Inr [simp]: "deeper i d = Inr d' \<longleftrightarrow> d < MAX_NESTING \<and> d' = d + 1"
  by (auto simp: deeper_def)

lemma taller_Inr [simp]: "taller i h = Inr h' \<longleftrightarrow> h < MAX_HEIGHT \<and> h' = h + 1"
  by (auto simp: taller_def)

lemma bounds_not_out [simp]: "deeper i d \<noteq> Inl OutOfFuel" "taller i h \<noteq> Inl OutOfFuel"
  by (simp_all add: deeper_def taller_def too_deep_def in_error_def)

lemma over_not_out [simp]: "over i mk t \<noteq> Inl OutOfFuel" "over_both i f t u \<noteq> Inl OutOfFuel"
  by (simp_all add: over_def over_both_def)

lemma unexpected_not_out [simp]: "unexpected i x \<noteq> OutOfFuel" "in_error i m x \<noteq> OutOfFuel"
  by (simp_all add: unexpected_def in_error_def split: option.split)

end
