(* ===== verification/Jsonpath_Parser_Laws.thy ===== *)
theory Jsonpath_Parser_Laws
  imports Jsonpath_Grammar
begin

section \<open>The parser reads the grammar\<close>

text \<open>
  What the rules of \<open>Jsonpath_Parser\<close> read is derived by the grammar of \<open>Jsonpath_Grammar\<close>.
\<close>

subsection \<open>What it reads is in the grammar\<close>

definition rule_reads ::
  "(root \<Rightarrow> tkind list \<Rightarrow> slot expr \<Rightarrow> nat \<Rightarrow> bool) \<Rightarrow> (input \<Rightarrow> root \<Rightarrow> nat \<Rightarrow> tree parsed) \<Rightarrow> bool" where
  "rule_reads G P \<longleftrightarrow> (\<forall>i s depth t j. P i s depth = Inr (t, j) \<longrightarrow> depth \<le> MAX_NESTING \<longrightarrow>
     (\<exists>ts d. kinds i = ts @ kinds j \<and> G s ts (tree_expr t) d \<and> depth + d \<le> MAX_NESTING
       \<and> tree_height t = expr_height (tree_expr t) \<and> tree_height t \<le> MAX_HEIGHT))"

lemma rule_readsI:
  assumes "\<And>i s depth t j. P i s depth = Inr (t, j) \<Longrightarrow> depth \<le> MAX_NESTING \<Longrightarrow>
     \<exists>ts d. kinds i = ts @ kinds j \<and> G s ts (tree_expr t) d \<and> depth + d \<le> MAX_NESTING
       \<and> tree_height t = expr_height (tree_expr t) \<and> tree_height t \<le> MAX_HEIGHT"
  shows "rule_reads G P"
  using assms unfolding rule_reads_def by blast

lemma rule_readsE:
  assumes "rule_reads G P" and "P i s depth = Inr (t, j)" and "depth \<le> MAX_NESTING"
  obtains ts d where "kinds i = ts @ kinds j" "G s ts (tree_expr t) d" "depth + d \<le> MAX_NESTING"
    "tree_height t = expr_height (tree_expr t)" "tree_height t \<le> MAX_HEIGHT"
  using assms unfolding rule_reads_def by blast

lemma overE:
  assumes "over i mk t = Inr u"
  obtains "tree_expr u = mk (tree_expr t)" "tree_height u = tree_height t + 1" "tree_height u \<le> MAX_HEIGHT"
  using assms by (auto simp: over_def)

lemma over_bothE:
  assumes "over_both i mk l r = Inr u"
  obtains "tree_expr u = mk (tree_expr l) (tree_expr r)"
    "tree_height u = max (tree_height l) (tree_height r) + 1" "tree_height u \<le> MAX_HEIGHT"
  using assms by (auto simp: over_both_def)

text \<open>The loops, in one lemma: a chain of phrases of \<open>G\<close> is a phrase of \<open>H\<close>.\<close>

lemma chain_loop_reads:
  assumes "rule_reads G P"
    and rest_end: "\<And>l. H s l [] l 0"
    and rest_more: "\<And>ts r d l us e d'. G s ts r d \<Longrightarrow> H s (mk l r) us e d'
      \<Longrightarrow> H s l (k # ts @ us) e (max d d')"
    and height: "\<And>l r. expr_height (mk l r) = max (expr_height l) (expr_height r) + 1"
    and "depth \<le> MAX_NESTING"
  shows "chain_loop fuel k mk (\<lambda>i. P i s depth) l i = Inr (t, j)
    \<Longrightarrow> tree_height l = expr_height (tree_expr l) \<Longrightarrow> tree_height l \<le> MAX_HEIGHT
    \<Longrightarrow> \<exists>us d. kinds i = us @ kinds j \<and> H s (tree_expr l) us (tree_expr t) d \<and> depth + d \<le> MAX_NESTING
      \<and> tree_height t = expr_height (tree_expr t) \<and> tree_height t \<le> MAX_HEIGHT"
proof (induction fuel arbitrary: l i)
  case (Suc fuel)
  show ?case
  proof (cases "in_kind i = Some k")
    case True
    with Suc.prems(1) obtain r rest l' where
      r: "P (advance i) s depth = Inr (r, rest)" and l': "over_both i mk l r = Inr l'"
      and loop: "chain_loop fuel k mk (\<lambda>i. P i s depth) l' rest = Inr (t, j)"
      by auto
    from rule_readsE [OF assms(1) r assms(5)] obtain ts d where
      ts: "kinds (advance i) = ts @ kinds rest" "G s ts (tree_expr r) d" "depth + d \<le> MAX_NESTING"
      and hr: "tree_height r = expr_height (tree_expr r)" by metis
    from l' Suc.prems hr have h': "tree_expr l' = mk (tree_expr l) (tree_expr r)"
      "tree_height l' = expr_height (tree_expr l')" "tree_height l' \<le> MAX_HEIGHT"
      by (auto elim!: over_bothE simp: height)
    from Suc.IH [OF loop h'(2,3)] obtain us d' where
      us: "kinds rest = us @ kinds j" "H s (mk (tree_expr l) (tree_expr r)) us (tree_expr t) d'"
        "depth + d' \<le> MAX_NESTING"
      and ht: "tree_height t = expr_height (tree_expr t)" "tree_height t \<le> MAX_HEIGHT"
      unfolding h'(1) by blast
    have "kinds i = (k # ts @ us) @ kinds j" using True ts(1) us(1) by (auto simp: in_kind_Some)
    moreover have "H s (tree_expr l) (k # ts @ us) (tree_expr t) (max d d')"
      by (rule rest_more [OF ts(2) us(2)])
    moreover have "depth + max d d' \<le> MAX_NESTING" using ts(3) us(3) by simp
    ultimately show ?thesis using ht by blast
  next
    case False
    with Suc.prems rest_end show ?thesis using assms(5) by fastforce
  qed
qed simp

lemma chain_reads:
  assumes "rule_reads G P"
    and "\<And>s l. H s l [] l 0"
    and "\<And>s ts r d l us e d'. G s ts r d \<Longrightarrow> H s (mk l r) us e d' \<Longrightarrow> H s l (k # ts @ us) e (max d d')"
    and "\<And>l r. expr_height (mk l r) = max (expr_height l) (expr_height r) + 1"
    and whole: "\<And>s ts l d us e d'. G s ts l d \<Longrightarrow> H s l us e d' \<Longrightarrow> W s (ts @ us) e (max d d')"
  shows "rule_reads W (\<lambda>i s depth. chain fuel i k mk (\<lambda>i. P i s depth))"
proof (rule rule_readsI)
  fix i s depth t j
  assume run: "chain fuel i k mk (\<lambda>i. P i s depth) = Inr (t, j)" and depth: "depth \<le> MAX_NESTING"
  then obtain l rest where l: "P i s depth = Inr (l, rest)"
    and loop: "chain_loop fuel k mk (\<lambda>i. P i s depth) l rest = Inr (t, j)"
    by (auto simp: chain_def)
  from rule_readsE [OF assms(1) l depth] obtain ts d where
    ts: "kinds i = ts @ kinds rest" "G s ts (tree_expr l) d" "depth + d \<le> MAX_NESTING"
    and hl: "tree_height l = expr_height (tree_expr l)" "tree_height l \<le> MAX_HEIGHT" .
  have "\<exists>us d. kinds rest = us @ kinds j \<and> H s (tree_expr l) us (tree_expr t) d
      \<and> depth + d \<le> MAX_NESTING \<and> tree_height t = expr_height (tree_expr t) \<and> tree_height t \<le> MAX_HEIGHT"
    by (rule chain_loop_reads [where H = H, OF assms(1) _ _ assms(4) depth loop hl])
      (use assms(2,3) in blast)+
  then obtain us d' where
    us: "kinds rest = us @ kinds j" "H s (tree_expr l) us (tree_expr t) d'" "depth + d' \<le> MAX_NESTING"
    and ht: "tree_height t = expr_height (tree_expr t)" "tree_height t \<le> MAX_HEIGHT" by blast
  have "kinds i = (ts @ us) @ kinds j" "depth + max d d' \<le> MAX_NESTING" using ts us by auto
  with whole [OF ts(2) us(2)] ht show "\<exists>ts d. kinds i = ts @ kinds j \<and> W s ts (tree_expr t) d
      \<and> depth + d \<le> MAX_NESTING \<and> tree_height t = expr_height (tree_expr t) \<and> tree_height t \<le> MAX_HEIGHT"
    by blast
qed


lemma leaf_simps [simp]: "tree_expr (leaf e) = e" "tree_height (leaf e) = 1"
  by (simp_all add: leaf_def)

lemma builder_heights [simp]:
  "expr_height (ast_or l r) = max (expr_height l) (expr_height r) + 1"
  "expr_height (ast_and l r) = max (expr_height l) (expr_height r) + 1"
  "expr_height (ast_not e) = expr_height e + 1"
  "expr_height (ast_any p e) = expr_height e + 1"
  by (simp_all add: ast_builders)

lemma or_reads: "rule_reads g_and (and_rule n) \<Longrightarrow> rule_reads g_or (or_rule (Suc n))"
  unfolding or_rule.simps
  by (rule chain_reads [where G = g_and and H = g_or_rest]) (auto intro: grammar_intros)

lemma and_reads: "rule_reads g_unary (unary_rule n) \<Longrightarrow> rule_reads g_and (and_rule (Suc n))"
  unfolding and_rule.simps
  by (rule chain_reads [where G = g_unary and H = g_and_rest]) (auto intro: grammar_intros)

lemma unary_reads:
  assumes "rule_reads g_unary (unary_rule n)" and "rule_reads g_comparison (comparison_rule n)"
  shows "rule_reads g_unary (unary_rule (Suc n))"
proof (rule rule_readsI)
  fix i s depth t j
  assume run: "unary_rule (Suc n) i s depth = Inr (t, j)" and depth: "depth \<le> MAX_NESTING"
  show "\<exists>ts d. kinds i = ts @ kinds j \<and> g_unary s ts (tree_expr t) d \<and> depth + d \<le> MAX_NESTING
      \<and> tree_height t = expr_height (tree_expr t) \<and> tree_height t \<le> MAX_HEIGHT"
  proof (cases "in_kind i = Some TNot")
    case True
    with run obtain u where "depth < MAX_NESTING" and u: "unary_rule n (advance i) s (depth + 1) = Inr (u, j)"
      and o: "over i ast_not u = Inr t"
      by (auto simp: unary_rule.simps)
    from \<open>depth < MAX_NESTING\<close> have "depth + 1 \<le> MAX_NESTING" by simp
    from rule_readsE [OF assms(1) u this] obtain ts d where
      "kinds (advance i) = ts @ kinds j" "g_unary s ts (tree_expr u) d" "depth + 1 + d \<le> MAX_NESTING"
      "tree_height u = expr_height (tree_expr u)" "tree_height u \<le> MAX_HEIGHT" .
    with True o show ?thesis
      by (intro exI [of _ "TNot # ts"] exI [of _ "d + 1"])
        (auto simp: in_kind_Some elim!: overE intro: grammar_intros)
  next
    case False
    with run have "comparison_rule n i s depth = Inr (t, j)" by (simp add: unary_rule.simps)
    from rule_readsE [OF assms(2) this depth] show ?thesis by (metis Unary)
  qed
qed

lemma comparison_reads:
  assumes "rule_reads g_operand (operand_rule n)"
  shows "rule_reads g_comparison (comparison_rule (Suc n))"
proof (rule rule_readsI)
  fix i s depth t j
  assume run: "comparison_rule (Suc n) i s depth = Inr (t, j)" and depth: "depth \<le> MAX_NESTING"
  then obtain l rest where l: "operand_rule n i s depth = Inr (l, rest)"
    by (auto simp: comparison_rule.simps)
  from rule_readsE [OF assms l depth] obtain ts d where
    ts: "kinds i = ts @ kinds rest" "g_operand s ts (tree_expr l) d" "depth + d \<le> MAX_NESTING"
    and hl: "tree_height l = expr_height (tree_expr l)" "tree_height l \<le> MAX_HEIGHT" .
  show "\<exists>ts d. kinds i = ts @ kinds j \<and> g_comparison s ts (tree_expr t) d \<and> depth + d \<le> MAX_NESTING
      \<and> tree_height t = expr_height (tree_expr t) \<and> tree_height t \<le> MAX_HEIGHT"
  proof (cases "comparison_maker (in_kind rest)")
    case None
    with run l ts hl show ?thesis by (auto simp: comparison_rule.simps intro: Operand)
  next
    case (Some mk)
    with run l obtain r where r: "operand_rule n (advance rest) s depth = Inr (r, j)"
      and o: "over_both rest mk l r = Inr t" by (auto simp: comparison_rule.simps)
    from rule_readsE [OF assms r depth] obtain us d' where
      us: "kinds (advance rest) = us @ kinds j" "g_operand s us (tree_expr r) d'" "depth + d' \<le> MAX_NESTING"
      and hr: "tree_height r = expr_height (tree_expr r)" "tree_height r \<le> MAX_HEIGHT" .
    obtain k where k: "in_kind rest = Some k"
      using Some by (cases "in_kind rest") (auto simp: comparison_maker_def)
    obtain op where mk: "mk = (\<lambda>l r. EInfix l (IComparison op) r)"
      using Some by (rule comparison_makerE)
    have "kinds i = (ts @ k # us) @ kinds j" using ts(1) us(1) k by (auto simp: in_kind_Some)
    moreover have "g_comparison s (ts @ k # us) (mk (tree_expr l) (tree_expr r)) (max d d')"
      using Comparison [OF ts(2) Some [unfolded k] us(2)] .
    moreover have "depth + max d d' \<le> MAX_NESTING" using ts us by simp
    ultimately show ?thesis using o hl hr by (auto elim!: over_bothE simp: mk)
  qed
qed

lemma operand_reads:
  assumes "rule_reads g_or (or_rule n)" and "rule_reads g_query (query_rule n)"
  shows "rule_reads g_operand (operand_rule (Suc n))"
proof (rule rule_readsI)
  fix i s depth t j
  assume run: "operand_rule (Suc n) i s depth = Inr (t, j)" and depth: "depth \<le> MAX_NESTING"
  let ?goal = "\<exists>ts d. kinds i = ts @ kinds j \<and> g_operand s ts (tree_expr t) d \<and> depth + d \<le> MAX_NESTING
      \<and> tree_height t = expr_height (tree_expr t) \<and> tree_height t \<le> MAX_HEIGHT"
  from run obtain k where k: "in_kind i = Some k" by (cases "in_kind i") (auto simp: operand_rule.simps)
  note step = run [unfolded operand_rule.simps k option.case]
  from k have ki: "kinds i = k # kinds (advance i)" by (auto simp: in_kind_Some)
  have one: "1 \<le> MAX_HEIGHT" by (simp add: MAX_HEIGHT_def)
  consider (group) "k = TLeftParen" | (literal) v where "k \<noteq> TLeftParen" "literal_value k = Some v"
    | (place) p where "k \<noteq> TLeftParen" "literal_value k = None" "placeholder_of k = Some p"
    | (path) "k \<noteq> TLeftParen" "literal_value k = None" "placeholder_of k = None" by fastforce
  then show ?goal
  proof cases
    case group
    with step obtain rest where "depth < MAX_NESTING" and o: "or_rule n (advance i) s (depth + 1) = Inr (t, rest)"
      and e: "kinds rest = TRightParen # kinds j" by (auto dest!: expect_InrD)
    from \<open>depth < MAX_NESTING\<close> have "depth + 1 \<le> MAX_NESTING" by simp
    from rule_readsE [OF assms(1) o this] obtain ts d where
      ts: "kinds (advance i) = ts @ kinds rest" "g_or s ts (tree_expr t) d" "depth + 1 + d \<le> MAX_NESTING"
      and h: "tree_height t = expr_height (tree_expr t)" "tree_height t \<le> MAX_HEIGHT" .
    with group ki e h show ?goal
      by (intro exI [of _ "TLeftParen # ts @ [TRightParen]"] exI [of _ "d + 1"]) (auto intro: grammar_intros)
  next
    case literal
    with step depth ki one show ?goal by (auto intro!: exI [of _ "[k]"] exI [of _ 0] grammar_intros)
  next
    case place
    then have "k = TPlaceholder p" by (auto simp: placeholder_of_def split: tkind.splits)
    with place step depth ki one show ?goal
      by (auto intro!: exI [of _ "[k]"] exI [of _ 0] grammar_intros)
  next
    case path
    with step consider "k = TAt" "query_rule n (advance i) s depth = Inr (t, j)"
      | "k = TDollar" "query_rule n (advance i) RGlobal depth = Inr (t, j)"
      by (auto split: if_splits)
    then show ?goal
    proof cases
      case 1
      from rule_readsE [OF assms(2) 1(2) depth] ki 1(1) show ?goal by (metis At append_Cons)
    next
      case 2
      from rule_readsE [OF assms(2) 2(2) depth] ki 2(1) show ?goal by (metis Dollar append_Cons)
    qed
  qed
qed


lemma query_reads:
  assumes "rule_reads g_filter (filter_rule n)"
  shows "rule_reads g_query (query_rule (Suc n))"
proof (rule rule_readsI)
  fix i s depth t j
  assume run: "query_rule (Suc n) i s depth = Inr (t, j)" and depth: "depth \<le> MAX_NESTING"
  let ?goal = "\<exists>ts d. kinds i = ts @ kinds j \<and> g_query s ts (tree_expr t) d \<and> depth + d \<le> MAX_NESTING
      \<and> tree_height t = expr_height (tree_expr t) \<and> tree_height t \<le> MAX_HEIGHT"
  have one: "1 \<le> MAX_HEIGHT" by (simp add: MAX_HEIGHT_def)
  from run obtain names after where names: "names_rule i = Inr (names, after)"
    by (auto simp: query_rule.simps)
  then have ki: "kinds i = path_kinds names @ kinds after" by (rule names_rule_InrD)
  show ?goal
  proof (cases "collection_path s names")
    case None
    then have "names = []" by (simp add: collection_path_def split: list.splits)
    with None names run ki obtain up where "s = RItem up" "t = leaf (EItem up)" "j = after"
      by (auto simp: query_rule.simps split: root.splits if_splits)
    with ki \<open>names = []\<close> depth one show ?goal by (auto intro!: exI [of _ "[]"] exI [of _ 0] Itself)
  next
    case (Some p)
    show ?goal
    proof (cases "in_kind after = Some TLeftBracket")
      case True
      with run names Some obtain inner u where w: "wildcard after = Inr inner" and "depth < MAX_NESTING"
        and u: "filter_rule n inner (RItem 0) (depth + 1) = Inr (u, j)"
        and o: "over after (ast_any p) u = Inr t"
        by (auto simp: query_rule.simps)
      from \<open>depth < MAX_NESTING\<close> have "depth + 1 \<le> MAX_NESTING" by simp
      from rule_readsE [OF assms u this] obtain us d where
        us: "kinds inner = us @ kinds j" "g_filter (RItem 0) us (tree_expr u) d" "depth + 1 + d \<le> MAX_NESTING"
        and h: "tree_height u = expr_height (tree_expr u)" "tree_height u \<le> MAX_HEIGHT" .
      have "kinds i = (path_kinds names @ wildcard_kinds @ us) @ kinds j"
        using ki wildcard_InrD [OF w] us(1) by simp
      moreover have "g_query s (path_kinds names @ wildcard_kinds @ us) (tree_expr t) (Suc d)"
        using Collection [OF Some us(2)] o by (auto elim!: overE)
      ultimately show ?goal using us(3) o h by (auto elim!: overE intro!: exI [of _ "Suc d"])
    next
      case False
      with run names Some have "t = leaf (EField p)" "j = after" by (auto simp: query_rule.simps)
      with ki Some depth one show ?goal by (auto intro!: exI [of _ 0] Field)
    qed
  qed
qed

lemma filter_reads:
  assumes "rule_reads g_or (or_rule n)"
  shows "rule_reads g_filter (filter_rule (Suc n))"
proof (rule rule_readsI)
  fix i s depth t j
  assume run: "filter_rule (Suc n) i s depth = Inr (t, j)" and depth: "depth \<le> MAX_NESTING"
  then obtain inner rest where k: "kinds i = TLeftBracket # TQuestion # kinds inner"
    and o: "or_rule n inner s depth = Inr (t, rest)" and e: "kinds rest = TRightBracket # kinds j"
    by (auto simp: filter_rule.simps Let_def dest!: expect_InrD)
  from rule_readsE [OF assms o depth] obtain ts d where
    ts: "kinds inner = ts @ kinds rest" "g_or s ts (tree_expr t) d" "depth + d \<le> MAX_NESTING"
    and h: "tree_height t = expr_height (tree_expr t)" "tree_height t \<le> MAX_HEIGHT" .
  with k e show "\<exists>ts d. kinds i = ts @ kinds j \<and> g_filter s ts (tree_expr t) d \<and> depth + d \<le> MAX_NESTING
      \<and> tree_height t = expr_height (tree_expr t) \<and> tree_height t \<le> MAX_HEIGHT"
    by (intro exI [of _ "TLeftBracket # TQuestion # ts @ [TRightBracket]"] exI [of _ d])
      (auto intro: grammar_intros)
qed

lemma reads_0:
  "rule_reads g_or (or_rule 0)" "rule_reads g_and (and_rule 0)" "rule_reads g_unary (unary_rule 0)"
  "rule_reads g_comparison (comparison_rule 0)" "rule_reads g_operand (operand_rule 0)"
  "rule_reads g_query (query_rule 0)" "rule_reads g_filter (filter_rule 0)"
  by (simp_all add: rule_reads_def or_rule.simps and_rule.simps unary_rule.simps comparison_rule.simps
      operand_rule.simps query_rule.simps filter_rule.simps)

lemma rules_read:
  "rule_reads g_or (or_rule n)" "rule_reads g_and (and_rule n)" "rule_reads g_unary (unary_rule n)"
  "rule_reads g_comparison (comparison_rule n)" "rule_reads g_operand (operand_rule n)"
  "rule_reads g_query (query_rule n)" "rule_reads g_filter (filter_rule n)"
  by (induction n)
    (simp_all add: reads_0 or_reads and_reads unary_reads comparison_reads operand_reads query_reads
      filter_reads)

end
