(* ===== verification/Jsonpath_Complete.thy ===== *)
theory Jsonpath_Complete
  imports Jsonpath_Parser_Laws
begin

section \<open>The parser always answers, and reads all of the grammar\<close>

text \<open>
  The fuel of the parser is enough for its input, so every text has an answer; and whatever the grammar of
  \<open>Jsonpath_Grammar\<close> derives, within the bounds, the parser reads.
\<close>

subsection \<open>Fuel\<close>

text \<open>A phrase has a token; so what is left after one is shorter.\<close>

lemma phrase_not_Nil:
  "g_or s ts e d \<Longrightarrow> ts \<noteq> []" "g_or_rest s l us e d \<Longrightarrow> True"
  "g_and s ts e d \<Longrightarrow> ts \<noteq> []" "g_and_rest s l us e d \<Longrightarrow> True"
  "g_unary s ts e d \<Longrightarrow> ts \<noteq> []" "g_comparison s ts e d \<Longrightarrow> ts \<noteq> []"
  "g_operand s ts e d \<Longrightarrow> ts \<noteq> []" "g_query s ts e d \<Longrightarrow> True" "g_filter s ts e d \<Longrightarrow> ts \<noteq> []"
  by (induction rule: grammar_inducts) simp_all

definition shrinks :: "(input \<Rightarrow> root \<Rightarrow> nat \<Rightarrow> tree parsed) \<Rightarrow> bool" where
  "shrinks P \<longleftrightarrow> (\<forall>i s depth t j. P i s depth = Inr (t, j) \<longrightarrow> depth \<le> MAX_NESTING \<longrightarrow>
     length (kinds j) < length (kinds i))"

lemma reads_shrinks:
  assumes "rule_reads G P" and "\<And>s ts e d. G s ts e d \<Longrightarrow> ts \<noteq> []"
  shows "shrinks P"
  unfolding shrinks_def
proof (intro allI impI)
  fix i s depth t j
  assume run: "P i s depth = Inr (t, j)" and depth: "depth \<le> MAX_NESTING"
  from rule_readsE [OF assms(1) run depth] obtain ts d where "kinds i = ts @ kinds j" "G s ts (tree_expr t) d" .
  with assms(2) show "length (kinds j) < length (kinds i)" by fastforce
qed

lemma rules_shrink:
  "shrinks (and_rule n)" "shrinks (unary_rule n)" "shrinks (operand_rule n)"
  by (rule reads_shrinks, rule rules_read, erule phrase_not_Nil)+

text \<open>With fuel for every token and \<open>c\<close> calls more, a rule does not run out.\<close>

definition runs :: "nat \<Rightarrow> nat \<Rightarrow> (input \<Rightarrow> root \<Rightarrow> nat \<Rightarrow> tree parsed) \<Rightarrow> bool" where
  "runs n c P \<longleftrightarrow> (\<forall>i s depth. depth \<le> MAX_NESTING \<longrightarrow> 8 * length (kinds i) + c \<le> n
     \<longrightarrow> P i s depth \<noteq> Inl OutOfFuel)"

lemma runsI:
  assumes "\<And>i s depth. depth \<le> MAX_NESTING \<Longrightarrow> 8 * length (kinds i) + c \<le> n
     \<Longrightarrow> P i s depth \<noteq> Inl OutOfFuel"
  shows "runs n c P"
  using assms by (simp add: runs_def)

lemma runsD:
  "runs n c P \<Longrightarrow> 8 * length (kinds i) + c \<le> n \<Longrightarrow> depth \<le> MAX_NESTING \<Longrightarrow> P i s depth \<noteq> Inl OutOfFuel"
  by (simp add: runs_def)

lemma chain_loop_runs:
  assumes "runs n c P" and "shrinks P" and "depth \<le> MAX_NESTING"
  shows "length (kinds i) < fuel \<Longrightarrow> 8 * length (kinds i) + c \<le> n
    \<Longrightarrow> chain_loop fuel k mk (\<lambda>i. P i s depth) l i \<noteq> Inl OutOfFuel"
proof (induction fuel arbitrary: l i)
  case (Suc fuel)
  show ?case
  proof (cases "in_kind i = Some k")
    case True
    then have shorter: "length (kinds (advance i)) < length (kinds i)" by (auto simp: in_kind_Some)
    show ?thesis
    proof
      assume out: "chain_loop (Suc fuel) k mk (\<lambda>i. P i s depth) l i = Inl OutOfFuel"
      have "P (advance i) s depth \<noteq> Inl OutOfFuel"
        using assms(1,3) shorter Suc.prems(2) by (intro runsD [OF assms(1)]) auto
      with out True obtain r rest where r: "P (advance i) s depth = Inr (r, rest)"
        and "and_then (over_both i mk l r) (\<lambda>l. chain_loop fuel k mk (\<lambda>i. P i s depth) l rest) = Inl OutOfFuel"
        by (auto simp: and_then_Inl_iff)
      then obtain l' where "chain_loop fuel k mk (\<lambda>i. P i s depth) l' rest = Inl OutOfFuel"
        by (auto simp: and_then_Inl_iff)
      moreover have "length (kinds rest) < length (kinds i)"
        using assms(2,3) r shorter unfolding shrinks_def by (meson less_trans)
      ultimately show False using Suc.IH [of rest l'] Suc.prems by simp
    qed
  next
    case False
    then show ?thesis by simp
  qed
qed simp

lemma chain_runs:
  assumes "runs n c P" and "shrinks P" and "0 < c"
  shows "runs (Suc n) (Suc c) (\<lambda>i s depth. chain n i k mk (\<lambda>i. P i s depth))"
proof (rule runsI)
  fix i s depth
  assume depth: "depth \<le> MAX_NESTING" and n: "8 * length (kinds i) + Suc c \<le> Suc n"
  show "chain n i k mk (\<lambda>i. P i s depth) \<noteq> Inl OutOfFuel"
  proof (cases "P i s depth")
    case (Inl e)
    with runsD [OF assms(1) _ depth, of i s] n show ?thesis by (simp add: chain_def)
  next
    case (Inr r)
    then obtain l rest where r: "P i s depth = Inr (l, rest)" by (cases r) auto
    then have "length (kinds rest) < length (kinds i)" using assms(2) depth by (simp add: shrinks_def)
    with n have "length (kinds rest) < n" "8 * length (kinds rest) + c \<le> n" by simp_all
    from chain_loop_runs [OF assms(1,2) depth this] r show ?thesis by (simp add: chain_def)
  qed
qed

lemma or_runs:
  assumes "runs n 4 (and_rule n)" shows "runs (Suc n) 5 (or_rule (Suc n))"
proof -
  have "or_rule (Suc n) = (\<lambda>i s depth. chain n i TOr ast_or (\<lambda>i. and_rule n i s depth))"
    by (simp add: fun_eq_iff or_rule.simps)
  with chain_runs [OF assms rules_shrink(1), of TOr ast_or] show ?thesis by simp
qed

lemma and_runs:
  assumes "runs n 3 (unary_rule n)" shows "runs (Suc n) 4 (and_rule (Suc n))"
proof -
  have "and_rule (Suc n) = (\<lambda>i s depth. chain n i TAnd ast_and (\<lambda>i. unary_rule n i s depth))"
    by (simp add: fun_eq_iff and_rule.simps)
  with chain_runs [OF assms rules_shrink(2), of TAnd ast_and] show ?thesis by simp
qed

lemma unary_runs:
  assumes "runs n 3 (unary_rule n)" and "runs n 2 (comparison_rule n)"
  shows "runs (Suc n) 3 (unary_rule (Suc n))"
proof (rule runsI)
  fix i s depth
  assume depth: "depth \<le> MAX_NESTING" and n: "8 * length (kinds i) + 3 \<le> Suc n"
  show "unary_rule (Suc n) i s depth \<noteq> Inl OutOfFuel"
  proof (cases "in_kind i = Some TNot")
    case True
    then have "length (kinds (advance i)) < length (kinds i)" by (auto simp: in_kind_Some)
    with n have "8 * length (kinds (advance i)) + 3 \<le> n" by simp
    from runsD [OF assms(1) this, of "depth + 1" s] True show ?thesis
      by (auto simp: unary_rule.simps and_then_Inl_iff)
  next
    case False
    with runsD [OF assms(2) _ depth, of i s] n show ?thesis by (simp add: unary_rule.simps)
  qed
qed

lemma comparison_runs:
  assumes "runs n 1 (operand_rule n)"
  shows "runs (Suc n) 2 (comparison_rule (Suc n))"
proof (rule runsI)
  fix i s depth
  assume depth: "depth \<le> MAX_NESTING" and n: "8 * length (kinds i) + 2 \<le> Suc n"
  have small: "operand_rule n j s depth \<noteq> Inl OutOfFuel" if "length (kinds j) \<le> length (kinds i)" for j
    using that n by (intro runsD [OF assms _ depth]) simp
  show "comparison_rule (Suc n) i s depth \<noteq> Inl OutOfFuel"
  proof (cases "operand_rule n i s depth")
    case (Inl e)
    with small [of i] show ?thesis by (simp add: comparison_rule.simps)
  next
    case (Inr r)
    then obtain l rest where r: "operand_rule n i s depth = Inr (l, rest)" by (cases r) auto
    then have "length (kinds rest) < length (kinds i)" using rules_shrink(3) depth by (simp add: shrinks_def)
    then have "operand_rule n (advance rest) s depth \<noteq> Inl OutOfFuel" by (intro small) simp
    with r show ?thesis by (auto simp: comparison_rule.simps and_then_Inl_iff split: option.splits)
  qed
qed

lemma operand_runs:
  assumes "runs n 5 (or_rule n)" and "runs n 1 (query_rule n)"
  shows "runs (Suc n) 1 (operand_rule (Suc n))"
proof (rule runsI)
  fix i s depth
  assume depth: "depth \<le> MAX_NESTING" and n: "8 * length (kinds i) + 1 \<le> Suc n"
  show "operand_rule (Suc n) i s depth \<noteq> Inl OutOfFuel"
  proof (cases "in_kind i")
    case None
    then show ?thesis by (simp add: operand_rule.simps)
  next
    case (Some k)
    then have "length (kinds (advance i)) < length (kinds i)" by (auto simp: in_kind_Some)
    with n have m: "8 * length (kinds (advance i)) + 5 \<le> n" "8 * length (kinds (advance i)) + 1 \<le> n" by simp_all
    have "depth < MAX_NESTING \<Longrightarrow> or_rule n (advance i) s (depth + 1) \<noteq> Inl OutOfFuel"
      by (rule runsD [OF assms(1) m(1)]) simp
    moreover have "query_rule n (advance i) r depth \<noteq> Inl OutOfFuel" for r
      by (rule runsD [OF assms(2) m(2) depth])
    ultimately show ?thesis
      using Some by (auto simp: operand_rule.simps and_then_Inl_iff split: option.split)
  qed
qed

lemma query_runs:
  assumes "runs n 1 (filter_rule n)"
  shows "runs (Suc n) 1 (query_rule (Suc n))"
proof (rule runsI)
  fix i s depth
  assume depth: "depth \<le> MAX_NESTING" and n: "8 * length (kinds i) + 1 \<le> Suc n"
  show "query_rule (Suc n) i s depth \<noteq> Inl OutOfFuel"
  proof
    assume out: "query_rule (Suc n) i s depth = Inl OutOfFuel"
    then obtain names after where names: "names_rule i = Inr (names, after)"
      by (auto simp: query_rule.simps and_then_Inl_iff)
    with out obtain inner where w: "wildcard after = Inr inner" and "depth < MAX_NESTING"
      and f: "filter_rule n inner (RItem 0) (depth + 1) = Inl OutOfFuel"
      by (auto simp: query_rule.simps and_then_Inl_iff split: option.splits root.splits if_splits)
    have "8 * length (kinds inner) + 1 \<le> n"
      using names_rule_InrD [OF names] wildcard_InrD [OF w] n by (simp add: wildcard_kinds_def)
    from runsD [OF assms this, of "depth + 1"] \<open>depth < MAX_NESTING\<close> f show False by simp
  qed
qed

lemma filter_runs:
  assumes "runs n 5 (or_rule n)"
  shows "runs (Suc n) 1 (filter_rule (Suc n))"
proof (rule runsI)
  fix i s depth
  assume depth: "depth \<le> MAX_NESTING" and n: "8 * length (kinds i) + 1 \<le> Suc n"
  show "filter_rule (Suc n) i s depth \<noteq> Inl OutOfFuel"
  proof
    assume "filter_rule (Suc n) i s depth = Inl OutOfFuel"
    then obtain inner where k: "kinds i = TLeftBracket # TQuestion # kinds inner"
      and out: "or_rule n inner s depth = Inl OutOfFuel"
      by (auto simp: filter_rule.simps Let_def and_then_Inl_iff dest!: expect_InrD)
    from k n have "8 * length (kinds inner) + 5 \<le> n" by simp
    from runsD [OF assms this depth] out show False by simp
  qed
qed

lemma runs_0: "0 < c \<Longrightarrow> runs 0 c P"
  by (simp add: runs_def)

lemma rules_run:
  "runs n 5 (or_rule n)" "runs n 4 (and_rule n)" "runs n 3 (unary_rule n)"
  "runs n 2 (comparison_rule n)" "runs n 1 (operand_rule n)" "runs n 1 (query_rule n)"
  "runs n 1 (filter_rule n)"
  by (induction n)
    (simp_all del: One_nat_def add: runs_0 or_runs and_runs unary_runs comparison_runs operand_runs query_runs filter_runs)

lemma one_style_not_out [simp]: "one_style tokens \<noteq> Inl OutOfFuel"
  by (simp add: one_style_def split: option.split)

lemma template_rule_runs: "template_rule tokens n \<noteq> Inl OutOfFuel"
proof
  assume out: "template_rule tokens n = Inl OutOfFuel"
  let ?f = "parser_fuel tokens"
  from out obtain i where i: "TDollar # kinds i = map token_kind tokens"
    and rest: "and_then (names_rule i) (\<lambda>(names, after).
      and_then
        (case collection_path RGlobal names of
           None \<Rightarrow> filter_rule ?f after RGlobal 0
         | Some source \<Rightarrow>
             and_then (wildcard after) (\<lambda>i.
               and_then (filter_rule ?f i (RItem 0) 1) (\<lambda>(predicate, rest).
                 and_then (over after (ast_any source) predicate) (\<lambda>t. Inr (t, rest)))))
        (\<lambda>(tree, i).
           case in_kind i of
             None \<Rightarrow> Inr (tree_expr tree)
           | Some _ \<Rightarrow> Inl (unexpected i ''end of expression''))) = Inl OutOfFuel"
    by (auto simp: template_rule_def Let_def and_then_Inl_iff kinds_def dest!: expect_InrD)
  from rest obtain names after where names: "names_rule i = Inr (names, after)"
    by (auto simp: and_then_Inl_iff)
  have len: "length (kinds after) \<le> length tokens"
    using arg_cong [OF i, of length] names_rule_InrD [OF names] by simp
  have fuel: "filter_rule ?f j s d \<noteq> Inl OutOfFuel" if "length (kinds j) \<le> length (kinds after)" "d \<le> 1" for j s d
    using that len by (intro runsD [OF rules_run(7)]) (simp_all add: parser_fuel_def MAX_NESTING_def)
  have "wildcard after = Inr j \<Longrightarrow> length (kinds j) \<le> length (kinds after)" for j
    by (drule wildcard_InrD) simp
  with rest names fuel show False
    by (auto simp: and_then_Inl_iff split: option.splits)
qed

subsection \<open>What may follow a phrase\<close>

definition starts :: "tkind list \<Rightarrow> tkind option" where
  "starts ks = (case ks of [] \<Rightarrow> None | k # _ \<Rightarrow> Some k)"

lemma starts_simps [simp]: "starts [] = None" "starts (k # ks) = Some k"
  by (simp_all add: starts_def)

lemma in_kind_starts: "in_kind i = starts (kinds i)"
  by (simp add: in_kind_kinds starts_def)

definition after_operand :: "tkind list \<Rightarrow> bool" where
  "after_operand ks \<longleftrightarrow> starts ks \<noteq> Some TDot \<and> starts ks \<noteq> Some TLeftBracket"

definition after_unary :: "tkind list \<Rightarrow> bool" where
  "after_unary ks \<longleftrightarrow> after_operand ks \<and> comparison_maker (starts ks) = None"

definition after_and :: "tkind list \<Rightarrow> bool" where
  "after_and ks \<longleftrightarrow> after_unary ks \<and> starts ks \<noteq> Some TAnd"

definition after_or :: "tkind list \<Rightarrow> bool" where
  "after_or ks \<longleftrightarrow> after_and ks \<and> starts ks \<noteq> Some TOr"

lemmas after_defs = after_or_def after_and_def after_unary_def after_operand_def

lemma after_or_closing: "after_or (TRightParen # ks)" "after_or (TRightBracket # ks)" "after_or []"
  by (simp_all add: after_defs comparison_maker_def)

lemma after_operand_comparison: "comparison_maker (Some k) = Some mk \<Longrightarrow> after_operand (k # ks)"
  by (auto simp: after_operand_def comparison_maker_def)

lemma after_or_rest: "g_or_rest s l us e d \<Longrightarrow> after_or ks \<Longrightarrow> after_and (us @ ks)"
  by (cases rule: g_or_rest.cases) (auto simp: after_defs comparison_maker_def)

lemma after_and_rest: "g_and_rest s l us e d \<Longrightarrow> after_and ks \<Longrightarrow> after_unary (us @ ks)"
  by (cases rule: g_and_rest.cases) (auto simp: after_defs comparison_maker_def)

lemma rest_height:
  "g_or s ts e d \<Longrightarrow> True" "g_or_rest s l us e d \<Longrightarrow> expr_height l \<le> expr_height e"
  "g_and s ts e d \<Longrightarrow> True" "g_and_rest s l us e d \<Longrightarrow> expr_height l \<le> expr_height e"
  "g_unary s ts e d \<Longrightarrow> True" "g_comparison s ts e d \<Longrightarrow> True"
  "g_operand s ts e d \<Longrightarrow> True" "g_query s ts e d \<Longrightarrow> True" "g_filter s ts e d \<Longrightarrow> True"
  by (induction rule: grammar_inducts) auto

lemma operand_starts: "g_operand s ts e d \<Longrightarrow> starts (ts @ ks) \<noteq> None \<and> starts (ts @ ks) \<noteq> Some TNot"
  by (cases rule: g_operand.cases) (auto simp: literal_value_def)

lemma comparison_starts: "g_comparison s ts e d \<Longrightarrow> starts (ts @ ks) \<noteq> Some TNot"
  by (cases rule: g_comparison.cases) (auto dest: operand_starts)

subsection \<open>All of the grammar is read\<close>

definition gives :: "tree parsed \<Rightarrow> slot expr \<Rightarrow> tkind list \<Rightarrow> bool" where
  "gives r e ks \<longleftrightarrow> r = Inl OutOfFuel \<or>
     (\<exists>t j. r = Inr (t, j) \<and> tree_expr t = e \<and> tree_height t = expr_height e \<and> kinds j = ks)"

lemma gives_out [simp]: "gives (Inl OutOfFuel) e ks"
  by (simp add: gives_def)

lemma givesI: "tree_expr t = e \<Longrightarrow> tree_height t = expr_height e \<Longrightarrow> kinds j = ks \<Longrightarrow> gives (Inr (t, j)) e ks"
  by (simp add: gives_def)

lemma gives_and_then:
  assumes "gives r e ks"
    and "\<And>t j. tree_expr t = e \<Longrightarrow> tree_height t = expr_height e \<Longrightarrow> kinds j = ks \<Longrightarrow> gives (f (t, j)) e' ks'"
  shows "gives (and_then r f) e' ks'"
  using assms unfolding gives_def [of r] by auto

definition complete ::
  "(nat \<Rightarrow> input \<Rightarrow> root \<Rightarrow> nat \<Rightarrow> tree parsed) \<Rightarrow> (tkind list \<Rightarrow> bool)
    \<Rightarrow> root \<Rightarrow> tkind list \<Rightarrow> slot expr \<Rightarrow> nat \<Rightarrow> bool" where
  "complete P F s ts e d \<longleftrightarrow> (\<forall>fuel i ks depth. kinds i = ts @ ks \<longrightarrow> F ks \<longrightarrow> expr_height e \<le> MAX_HEIGHT
     \<longrightarrow> depth + d \<le> MAX_NESTING \<longrightarrow> gives (P fuel i s depth) e ks)"

definition loop_complete ::
  "tkind \<Rightarrow> (slot expr \<Rightarrow> slot expr \<Rightarrow> slot expr) \<Rightarrow> (nat \<Rightarrow> input \<Rightarrow> root \<Rightarrow> nat \<Rightarrow> tree parsed)
    \<Rightarrow> (tkind list \<Rightarrow> bool) \<Rightarrow> root \<Rightarrow> slot expr \<Rightarrow> tkind list \<Rightarrow> slot expr \<Rightarrow> nat \<Rightarrow> bool" where
  "loop_complete k mk P F s l us e d \<longleftrightarrow> (\<forall>n fuel i ks depth t. kinds i = us @ ks \<longrightarrow> F ks
     \<longrightarrow> expr_height e \<le> MAX_HEIGHT \<longrightarrow> depth + d \<le> MAX_NESTING
     \<longrightarrow> tree_expr t = l \<longrightarrow> tree_height t = expr_height l
     \<longrightarrow> gives (chain_loop n k mk (\<lambda>i. P fuel i s depth) t i) e ks)"

lemma completeI:
  assumes "\<And>fuel i ks depth. kinds i = ts @ ks \<Longrightarrow> F ks \<Longrightarrow> expr_height e \<le> MAX_HEIGHT
     \<Longrightarrow> depth + d \<le> MAX_NESTING \<Longrightarrow> gives (P fuel i s depth) e ks"
  shows "complete P F s ts e d"
  using assms by (simp add: complete_def)

lemma completeD:
  "complete P F s ts e d \<Longrightarrow> kinds i = ts @ ks \<Longrightarrow> F ks \<Longrightarrow> expr_height e \<le> MAX_HEIGHT
     \<Longrightarrow> depth + d \<le> MAX_NESTING \<Longrightarrow> gives (P fuel i s depth) e ks"
  by (simp add: complete_def)

lemma loop_complete_end:
  assumes "\<And>ks. F ks \<Longrightarrow> starts ks \<noteq> Some k"
  shows "loop_complete k mk P F s l [] l d"
  unfolding loop_complete_def
proof (intro allI impI)
  fix n fuel i ks depth and t :: tree
  assume "kinds i = [] @ ks" "F ks" "tree_expr t = l" "tree_height t = expr_height l"
  with assms [of ks] show "gives (chain_loop n k mk (\<lambda>i. P fuel i s depth) t i) l ks"
    by (cases n) (auto simp: in_kind_starts intro: givesI)
qed

lemma over_both_Inr:
  assumes "tree_expr l = a" "tree_height l = expr_height a" "tree_expr r = b" "tree_height r = expr_height b"
    and "expr_height (mk a b) = max (expr_height a) (expr_height b) + 1"
    and "expr_height (mk a b) \<le> MAX_HEIGHT"
  shows "over_both i mk l r = Inr \<lparr>tree_expr = mk a b, tree_height = expr_height (mk a b)\<rparr>"
  using assms by (auto simp: over_both_def taller_def)

lemma loop_complete_more:
  assumes operand: "complete P F' s ts r d" and rest: "loop_complete k mk P F s (mk l r) us e d'"
    and follow: "\<And>ks. F ks \<Longrightarrow> F' (us @ ks)"
    and mk: "expr_height (mk l r) = max (expr_height l) (expr_height r) + 1"
    and grows: "expr_height (mk l r) \<le> expr_height e"
  shows "loop_complete k mk P F s l (k # ts @ us) e (max d d')"
  unfolding loop_complete_def
proof (intro allI impI)
  fix n fuel i ks depth and t :: tree
  assume i: "kinds i = (k # ts @ us) @ ks" and F: "F ks" and h: "expr_height e \<le> MAX_HEIGHT"
    and d: "depth + max d d' \<le> MAX_NESTING" and t: "tree_expr t = l" "tree_height t = expr_height l"
  show "gives (chain_loop n k mk (\<lambda>i. P fuel i s depth) t i) e ks"
  proof (cases n)
    case (Suc m)
    have "gives (P fuel (advance i) s depth) r (us @ ks)"
      using i F h d mk grows by (intro completeD [OF operand] follow) simp_all
    moreover have "gives (and_then (over_both i mk t u) (\<lambda>left. chain_loop m k mk (\<lambda>i. P fuel i s depth) left j)) e ks"
      if "tree_expr u = r" "tree_height u = expr_height r" "kinds j = us @ ks" for u :: tree and j
    proof -
      have "over_both i mk t u = Inr \<lparr>tree_expr = mk l r, tree_height = expr_height (mk l r)\<rparr>"
        using that t mk grows h by (intro over_both_Inr) simp_all
      with rest that F h d show ?thesis by (simp add: loop_complete_def)
    qed
    ultimately show ?thesis
      using i Suc by (auto simp: in_kind_starts intro!: gives_and_then)
  qed simp
qed

lemma chain_complete:
  assumes operand: "complete P F' s ts l d" and rest: "loop_complete k mk P F s l us e d'"
    and follow: "\<And>ks. F ks \<Longrightarrow> F' (us @ ks)" and grows: "expr_height l \<le> expr_height e"
    and "kinds i = (ts @ us) @ ks" "F ks" "expr_height e \<le> MAX_HEIGHT" "depth + max d d' \<le> MAX_NESTING"
  shows "gives (chain n i k mk (\<lambda>i. P fuel i s depth)) e ks"
  unfolding chain_def
proof (rule gives_and_then)
  show "gives (P fuel i s depth) l (us @ ks)"
    using assms by (intro completeD [OF operand] follow) simp_all
next
  fix t :: tree and j
  assume "tree_expr t = l" "tree_height t = expr_height l" "kinds j = us @ ks"
  with rest assms(6-8) show "gives (case (t, j) of (left, i) \<Rightarrow> chain_loop n k mk (\<lambda>i. P fuel i s depth) left i) e ks"
    by (simp add: loop_complete_def)
qed

lemma unary_not_complete:
  assumes "complete unary_rule F s ts e d"
  shows "complete unary_rule F s (TNot # ts) (ast_not e) (Suc d)"
proof (rule completeI)
  fix fuel i ks depth
  assume i: "kinds i = (TNot # ts) @ ks" and F: "F ks" and h: "expr_height (ast_not e) \<le> MAX_HEIGHT"
    and d: "depth + Suc d \<le> MAX_NESTING"
  show "gives (unary_rule fuel i s depth) (ast_not e) ks"
  proof (cases fuel)
    case (Suc n)
    have "gives (unary_rule n (advance i) s (depth + 1)) e ks"
      using i F h d by (intro completeD [OF assms]) simp_all
    with Suc i h d show ?thesis
      by (auto simp: unary_rule.simps in_kind_starts deeper_def over_def taller_def
          intro!: gives_and_then givesI)
  qed (simp add: unary_rule.simps)
qed

lemma unary_complete:
  assumes "complete comparison_rule F s ts e d" and "\<And>ks. starts (ts @ ks) \<noteq> Some TNot"
  shows "complete unary_rule F s ts e d"
proof (rule completeI)
  fix fuel i ks depth
  assume a: "kinds i = ts @ ks" "F ks" "expr_height e \<le> MAX_HEIGHT" "depth + d \<le> MAX_NESTING"
  then show "gives (unary_rule fuel i s depth) e ks"
    using assms(2) [of ks] completeD [OF assms(1) a]
    by (cases fuel) (simp_all add: unary_rule.simps in_kind_starts)
qed

lemma operand_alone_complete:
  assumes "complete operand_rule after_operand s ts e d"
  shows "complete comparison_rule after_unary s ts e d"
proof (rule completeI)
  fix fuel i ks depth
  assume a: "kinds i = ts @ ks" "after_unary ks" "expr_height e \<le> MAX_HEIGHT" "depth + d \<le> MAX_NESTING"
  then have "after_operand ks" by (simp add: after_defs)
  show "gives (comparison_rule fuel i s depth) e ks"
  proof (cases fuel)
    case (Suc n)
    show ?thesis
      unfolding Suc comparison_rule.simps
      by (rule gives_and_then [OF completeD [OF assms a(1) \<open>after_operand ks\<close> a(3,4)]])
        (use a(2) in \<open>auto simp: in_kind_starts after_unary_def intro: givesI\<close>)
  qed (simp add: comparison_rule.simps)
qed

lemma comparison_complete:
  assumes l: "complete operand_rule after_operand s ts l d"
    and k: "comparison_maker (Some k) = Some mk"
    and r: "complete operand_rule after_operand s us r d'"
  shows "complete comparison_rule after_unary s (ts @ k # us) (mk l r) (max d d')"
proof (rule completeI)
  fix fuel i ks depth
  assume i: "kinds i = (ts @ k # us) @ ks" and ks: "after_unary ks"
    and h: "expr_height (mk l r) \<le> MAX_HEIGHT" and d: "depth + max d d' \<le> MAX_NESTING"
  obtain op where mk: "mk = (\<lambda>l r. EInfix l (IComparison op) r)" using k by (rule comparison_makerE)
  have left: "gives (operand_rule n i s depth) l (k # us @ ks)" for n
    using i h d k by (intro completeD [OF l]) (simp_all add: mk after_operand_comparison)
  have right: "gives (operand_rule n (advance j) s depth) r ks" if "kinds j = k # us @ ks" for n j
    using that ks h d by (intro completeD [OF r]) (simp_all add: mk after_unary_def)
  show "gives (comparison_rule fuel i s depth) (mk l r) ks"
  proof (cases fuel)
    case (Suc n)
    show ?thesis unfolding Suc comparison_rule.simps
    proof (rule gives_and_then [OF left], unfold prod.case)
      fix t :: tree and j
      assume t: "tree_expr t = l" "tree_height t = expr_height l" and j: "kinds j = k # us @ ks"
      have o: "over_both j mk t u = Inr \<lparr>tree_expr = mk l r, tree_height = expr_height (mk l r)\<rparr>"
        if "tree_expr u = r" "tree_height u = expr_height r" for u :: tree
        using t that h by (intro over_both_Inr) (simp_all add: mk)
      show "gives (case comparison_maker (in_kind j) of None \<Rightarrow> Inr (t, j)
         | Some mk \<Rightarrow> and_then (operand_rule n (advance j) s depth) (\<lambda>(right, rest).
             and_then (over_both j mk t right) (\<lambda>t. Inr (t, rest)))) (mk l r) ks"
        using j k right [OF j] by (auto simp: in_kind_starts o intro!: gives_and_then givesI)
    qed
  qed (simp add: comparison_rule.simps)
qed

lemma group_complete:
  assumes "complete or_rule after_or s ts e d"
  shows "complete operand_rule after_operand s (TLeftParen # ts @ [TRightParen]) e (Suc d)"
proof (rule completeI)
  fix fuel i ks depth
  assume i: "kinds i = (TLeftParen # ts @ [TRightParen]) @ ks" and h: "expr_height e \<le> MAX_HEIGHT"
    and d: "depth + Suc d \<le> MAX_NESTING"
  show "gives (operand_rule fuel i s depth) e ks"
  proof (cases fuel)
    case (Suc n)
    have "gives (or_rule n (advance i) s (depth + 1)) e (TRightParen # ks)"
      using i h d by (intro completeD [OF assms]) (simp_all add: after_or_closing)
    with Suc i d show ?thesis
      by (auto simp: operand_rule.simps in_kind_starts deeper_def expect_def intro!: gives_and_then givesI)
  qed (simp add: operand_rule.simps)
qed

lemma leaf_complete:
  assumes "\<And>n i depth. in_kind i = Some k \<Longrightarrow> operand_rule (Suc n) i s depth = Inr (leaf e, advance i)"
    and "expr_height e = 1"
  shows "complete operand_rule F s [k] e 0"
proof (rule completeI)
  fix fuel i ks depth
  assume "kinds i = [k] @ ks"
  with assms show "gives (operand_rule fuel i s depth) e ks"
    by (cases fuel) (auto simp: operand_rule.simps in_kind_starts intro!: givesI)
qed

lemma query_operand_complete:
  assumes "complete query_rule after_operand r ts e d"
    and "k = TAt \<and> r = s \<or> k = TDollar \<and> r = RGlobal"
  shows "complete operand_rule after_operand s (k # ts) e d"
proof (rule completeI)
  fix fuel i ks depth
  assume i: "kinds i = (k # ts) @ ks" and a: "after_operand ks" "expr_height e \<le> MAX_HEIGHT" "depth + d \<le> MAX_NESTING"
  have "gives (query_rule n (advance i) r depth) e ks" for n
    using i a by (intro completeD [OF assms(1)]) simp_all
  with assms(2) i show "gives (operand_rule fuel i s depth) e ks"
    by (cases fuel) (auto simp: operand_rule.simps in_kind_starts literal_value_def placeholder_of_def)
qed

lemma itself_complete: "complete query_rule after_operand (RItem up) [] (EItem up) 0"
proof (rule completeI)
  fix fuel i ks depth
  assume "kinds i = [] @ ks" "after_operand ks"
  then have "kinds i = path_kinds [] @ ks" "\<And>us. ks \<noteq> TDot # us" "starts ks \<noteq> Some TLeftBracket"
    by (auto simp: after_operand_def)
  with names_rule_Inr [of i "[]" ks] show "gives (query_rule fuel i (RItem up) depth) (EItem up) ks"
    by (cases fuel) (auto simp: query_rule.simps collection_path_def in_kind_starts intro!: givesI)
qed

lemma field_complete:
  assumes "collection_path s names = Some p"
  shows "complete query_rule after_operand s (path_kinds names) (EField p) 0"
proof (rule completeI)
  fix fuel i ks depth
  assume "kinds i = path_kinds names @ ks" "after_operand ks"
  then have "kinds i = path_kinds names @ ks" "\<And>us. ks \<noteq> TDot # us" "starts ks \<noteq> Some TLeftBracket"
    by (auto simp: after_operand_def)
  with names_rule_Inr [of i names ks] assms show "gives (query_rule fuel i s depth) (EField p) ks"
    by (cases fuel) (auto simp: query_rule.simps in_kind_starts intro!: givesI)
qed

lemma any_step_complete:
  assumes f: "complete filter_rule F (RItem 0) us e d" and "F ks"
    and i: "kinds i = wildcard_kinds @ us @ ks" and h: "expr_height e < MAX_HEIGHT"
    and d: "depth + Suc d \<le> MAX_NESTING"
  shows "\<exists>inner. wildcard i = Inr inner \<and> deeper i depth = Inr (Suc depth)
    \<and> (\<forall>n. gives (and_then (filter_rule n inner (RItem 0) (Suc depth)) (\<lambda>(predicate, rest).
       and_then (over i (ast_any p) predicate) (\<lambda>t. Inr (t, rest)))) (ast_any p e) ks)"
proof -
  obtain inner where w: "wildcard i = Inr inner" and inner: "kinds inner = us @ ks"
    using wildcard_Inr [OF i] by blast
  have g: "gives (filter_rule n inner (RItem 0) (Suc depth)) e ks" for n
    using h d by (intro completeD [OF f inner \<open>F ks\<close>]) simp_all
  have "gives (and_then (filter_rule n inner (RItem 0) (Suc depth)) (\<lambda>(predicate, rest).
       and_then (over i (ast_any p) predicate) (\<lambda>t. Inr (t, rest)))) (ast_any p e) ks" for n
    using g [of n] h by (auto simp: over_def taller_def intro!: gives_and_then givesI)
  with w d show ?thesis by (auto simp: Suc_le_eq)
qed

lemma collection_complete:
  assumes "collection_path s names = Some p" and f: "complete filter_rule (\<lambda>_. True) (RItem 0) us e d"
  shows "complete query_rule after_operand s (path_kinds names @ wildcard_kinds @ us) (ast_any p e) (Suc d)"
proof (rule completeI)
  fix fuel i ks depth
  assume i: "kinds i = (path_kinds names @ wildcard_kinds @ us) @ ks" and h: "expr_height (ast_any p e) \<le> MAX_HEIGHT"
    and d: "depth + Suc d \<le> MAX_NESTING"
  have "kinds i = path_kinds names @ wildcard_kinds @ us @ ks" using i by simp
  moreover have "wildcard_kinds @ us @ ks \<noteq> TDot # vs" for vs by (simp add: wildcard_kinds_def)
  ultimately obtain after where after: "names_rule i = Inr (names, after)" "kinds after = wildcard_kinds @ us @ ks"
    using names_rule_Inr [of i names "wildcard_kinds @ us @ ks"] by blast
  have h': "expr_height e < MAX_HEIGHT" using h by simp
  note any_step_complete [where p = p, OF f TrueI after(2) h' d]
  moreover have "in_kind after = Some TLeftBracket"
    using after(2) by (simp add: in_kind_starts wildcard_kinds_def)
  ultimately show "gives (query_rule fuel i s depth) (ast_any p e) ks"
    using after(1) assms(1) by (cases fuel) (auto simp: query_rule.simps deeper_def)
qed

lemma filter_complete:
  assumes "complete or_rule after_or s ts e d"
  shows "complete filter_rule (\<lambda>_. True) s (TLeftBracket # TQuestion # ts @ [TRightBracket]) e d"
proof (rule completeI)
  fix fuel i ks depth
  assume i: "kinds i = (TLeftBracket # TQuestion # ts @ [TRightBracket]) @ ks"
    and h: "expr_height e \<le> MAX_HEIGHT" and d: "depth + d \<le> MAX_NESTING"
  show "gives (filter_rule fuel i s depth) e ks"
  proof (cases fuel)
    case (Suc n)
    have "gives (or_rule n (advance (advance i)) s depth) e (TRightBracket # ks)"
      using i h d by (intro completeD [OF assms]) (simp_all add: after_or_closing)
    with Suc i show ?thesis
      by (auto simp: filter_rule.simps Let_def in_kind_starts expect_def intro!: gives_and_then givesI)
  qed (simp add: filter_rule.simps)
qed

text \<open>The rules of the grammar, one by one.\<close>

lemma grammar_complete:
  "g_or s ts e d \<Longrightarrow> complete or_rule after_or s ts e d"
  "g_or_rest s l us e d \<Longrightarrow> loop_complete TOr ast_or and_rule after_or s l us e d"
  "g_and s ts e d \<Longrightarrow> complete and_rule after_and s ts e d"
  "g_and_rest s l us e d \<Longrightarrow> loop_complete TAnd ast_and unary_rule after_and s l us e d"
  "g_unary s ts e d \<Longrightarrow> complete unary_rule after_unary s ts e d"
  "g_comparison s ts e d \<Longrightarrow> complete comparison_rule after_unary s ts e d"
  "g_operand s ts e d \<Longrightarrow> complete operand_rule after_operand s ts e d"
  "g_query s ts e d \<Longrightarrow> complete query_rule after_operand s ts e d"
  "g_filter s ts e d \<Longrightarrow> complete filter_rule (\<lambda>_. True) s ts e d"
proof (induction rule: grammar_inducts)
  case (Or s ts l d us e d')
  show ?case
  proof (rule completeI)
    fix fuel i ks depth
    assume a: "kinds i = (ts @ us) @ ks" "after_or ks" "expr_height e \<le> MAX_HEIGHT" "depth + max d d' \<le> MAX_NESTING"
    show "gives (or_rule fuel i s depth) e ks"
      using chain_complete [OF Or.IH(1,2) after_or_rest [OF Or.hyps(2)] rest_height(2) [OF Or.hyps(2)] a]
      by (cases fuel) (simp_all add: or_rule.simps)
  qed
next
  case (Or_end s l)
  show ?case by (rule loop_complete_end) (simp add: after_or_def)
next
  case (Or_more s ts r d l us e d')
  show ?case
    using rest_height(2) [OF Or_more.hyps(2)]
    by (intro loop_complete_more [OF Or_more.IH] after_or_rest [OF Or_more.hyps(2)]) simp_all
next
  case (And s ts l d us e d')
  show ?case
  proof (rule completeI)
    fix fuel i ks depth
    assume a: "kinds i = (ts @ us) @ ks" "after_and ks" "expr_height e \<le> MAX_HEIGHT" "depth + max d d' \<le> MAX_NESTING"
    show "gives (and_rule fuel i s depth) e ks"
      using chain_complete [OF And.IH(1,2) after_and_rest [OF And.hyps(2)] rest_height(4) [OF And.hyps(2)] a]
      by (cases fuel) (simp_all add: and_rule.simps)
  qed
next
  case (And_end s l)
  show ?case by (rule loop_complete_end) (simp add: after_and_def)
next
  case (And_more s ts r d l us e d')
  show ?case
    using rest_height(4) [OF And_more.hyps(2)]
    by (intro loop_complete_more [OF And_more.IH] after_and_rest [OF And_more.hyps(2)]) simp_all
next
  case (Not s ts e d)
  then show ?case by (blast intro: unary_not_complete)
next
  case (Unary s ts e d)
  show ?case by (rule unary_complete [OF Unary.IH comparison_starts [OF Unary.hyps(1)]])
next
  case (Operand s ts e d)
  then show ?case by (blast intro: operand_alone_complete)
next
  case (Comparison s ts l d k mk us r d')
  then show ?case by (blast intro: comparison_complete)
next
  case (Group s ts e d)
  then show ?case by (blast intro: group_complete)
next
  case (Literal k v s)
  then show ?case
    by (intro leaf_complete) (auto simp: operand_rule.simps literal_value_def)
next
  case (Place s p)
  show ?case
    by (intro leaf_complete) (simp_all add: operand_rule.simps literal_value_def placeholder_of_def)
next
  case (At s ts e d)
  then show ?case by (blast intro: query_operand_complete)
next
  case (Dollar ts e d s)
  then show ?case by (blast intro: query_operand_complete)
next
  case (Itself up)
  show ?case by (rule itself_complete)
next
  case (Field s names p)
  then show ?case by (blast intro: field_complete)
next
  case (Collection s names p us e d)
  then show ?case by (blast intro: collection_complete)
next
  case (Filter s ts e d)
  then show ?case by (blast intro: filter_complete)
qed

subsection \<open>Templates\<close>

definition styled :: "tkind list \<Rightarrow> bool" where
  "styled ks \<longleftrightarrow> \<not> (list_ex is_named ks \<and> list_ex is_positional ks)"

lemma find_None_list_ex: "find P xs = None \<longleftrightarrow> \<not> list_ex P xs"
  by (induction xs) simp_all

lemma one_style_Inr: "one_style tokens = Inr () \<longleftrightarrow> styled (map token_kind tokens)"
proof -
  have "find (\<lambda>t. f (token_kind t)) tokens = None \<longleftrightarrow> \<not> list_ex f (map token_kind tokens)" for f
    by (induction tokens) auto
  from this [of is_named] this [of is_positional] show ?thesis
    by (auto simp: one_style_def styled_def split: option.split)
qed

lemma template_rule_sound:
  assumes "template_rule tokens n = Inr e"
  shows "styled (map token_kind tokens)"
    and "\<exists>d. g_template (map token_kind tokens) e d \<and> d \<le> MAX_NESTING \<and> expr_height e \<le> MAX_HEIGHT"
proof -
  let ?f = "parser_fuel tokens"
  from assms obtain i names after where style: "one_style tokens = Inr ()"
    and i: "map token_kind tokens = TDollar # kinds i" and names: "names_rule i = Inr (names, after)"
    and rest: "and_then
        (case collection_path RGlobal names of
           None \<Rightarrow> filter_rule ?f after RGlobal 0
         | Some source \<Rightarrow>
             and_then (wildcard after) (\<lambda>i.
               and_then (filter_rule ?f i (RItem 0) 1) (\<lambda>(predicate, rest).
                 and_then (over after (ast_any source) predicate) (\<lambda>t. Inr (t, rest)))))
        (\<lambda>(tree, i).
           case in_kind i of
             None \<Rightarrow> Inr (tree_expr tree)
           | Some _ \<Rightarrow> Inl (unexpected i ''end of expression'')) = Inr e"
    by (auto simp: template_rule_def Let_def kinds_def dest!: expect_InrD)
  from style show "styled (map token_kind tokens)" by (simp add: one_style_Inr)
  have tokens: "map token_kind tokens = TDollar # path_kinds names @ kinds after"
    using i names_rule_InrD [OF names] by simp
  show "\<exists>d. g_template (map token_kind tokens) e d \<and> d \<le> MAX_NESTING \<and> expr_height e \<le> MAX_HEIGHT"
  proof (cases "collection_path RGlobal names")
    case None
    then have "names = []" by (simp add: collection_path_def split: list.splits)
    from rest None obtain t j where t: "filter_rule ?f after RGlobal 0 = Inr (t, j)"
      and end_at: "in_kind j = None" and e: "e = tree_expr t"
      by (auto split: option.splits)
    from rule_readsE [OF rules_read(7) t] obtain ts d where "kinds after = ts @ kinds j"
      "g_filter RGlobal ts (tree_expr t) d" "0 + d \<le> MAX_NESTING"
      "tree_height t = expr_height (tree_expr t)" "tree_height t \<le> MAX_HEIGHT" by auto
    moreover from end_at have "kinds j = []" by (auto simp: in_kind_kinds split: list.splits)
    ultimately show ?thesis
      using tokens \<open>names = []\<close> e by (auto intro!: exI [of _ d] g_template.intros)
  next
    case (Some p)
    with rest obtain inner u t j where w: "wildcard after = Inr inner"
      and u: "filter_rule ?f inner (RItem 0) 1 = Inr (u, j)"
      and o: "over after (ast_any p) u = Inr t" and end_at: "in_kind j = None" and e: "e = tree_expr t"
      by (auto split: option.splits)
    have "1 \<le> MAX_NESTING" by (simp add: MAX_NESTING_def)
    from rule_readsE [OF rules_read(7) u this] obtain ts d where ts: "kinds inner = ts @ kinds j"
      "g_filter (RItem 0) ts (tree_expr u) d" "1 + d \<le> MAX_NESTING"
      and h: "tree_height u = expr_height (tree_expr u)" "tree_height u \<le> MAX_HEIGHT" .
    from end_at have "kinds j = []" by (auto simp: in_kind_kinds split: list.splits)
    with ts tokens wildcard_InrD [OF w]
    have "map token_kind tokens = TDollar # path_kinds names @ wildcard_kinds @ ts" by simp
    moreover have "expr_height e \<le> MAX_HEIGHT" "e = ast_any p (tree_expr u)"
      using o h e by (auto elim!: overE)
    ultimately show ?thesis
      using g_template.intros(2) [OF Some ts(2)] ts(3) by (auto intro!: exI [of _ "Suc d"])
  qed
qed

lemma gives_template:
  assumes "gives r e []" and "r \<noteq> Inl OutOfFuel"
  shows "and_then r (\<lambda>(tree, i). case in_kind i of None \<Rightarrow> Inr (tree_expr tree)
     | Some _ \<Rightarrow> Inl (unexpected i ''end of expression'')) = Inr e"
  using assms by (auto simp: gives_def in_kind_kinds)

lemma template_rule_complete:
  assumes g: "g_template (map token_kind tokens) e d" and d: "d \<le> MAX_NESTING"
    and h: "expr_height e \<le> MAX_HEIGHT" and style: "styled (map token_kind tokens)"
  shows "template_rule tokens n = Inr e"
proof -
  let ?f = "parser_fuel tokens" and ?i = "\<lparr>in_tokens = tokens, in_end = n\<rparr>"
  note out = template_rule_runs [of tokens n]
  have ki: "kinds ?i = map token_kind tokens" by (simp add: kinds_def)
  have one: "one_style tokens = Inr ()" using style by (simp add: one_style_Inr)
  from g show ?thesis
  proof (cases rule: g_template.cases)
    case (1 ts)
    then have k: "kinds ?i = TDollar # ts" using ki by simp
    then have dollar: "expect ?i TDollar m x = Inr (advance ?i)" for m x
      by (simp add: expect_def in_kind_kinds)
    from 1 obtain vs where "ts = TLeftBracket # vs" by (auto elim: g_filter.cases)
    with k names_rule_Inr [of "advance ?i" "[]" ts] obtain after where
      after: "names_rule (advance ?i) = Inr ([], after)" "kinds after = ts" by auto
    have "gives (filter_rule ?f after RGlobal 0) e []"
      using after(2) h d by (intro completeD [OF grammar_complete(9) [OF 1(2)]]) simp_all
    then have "gives (filter_rule ?f after RGlobal 0) e []" "filter_rule ?f after RGlobal 0 \<noteq> Inl OutOfFuel"
      using out one dollar after by (auto simp: template_rule_def Let_def collection_path_def)
    from gives_template [OF this] one dollar after show ?thesis
      by (simp add: template_rule_def Let_def collection_path_def)
  next
    case (2 names p ts b c)
    then have k: "kinds ?i = TDollar # path_kinds names @ wildcard_kinds @ ts" using ki by simp
    then have dollar: "expect ?i TDollar m x = Inr (advance ?i)" for m x
      by (simp add: expect_def in_kind_kinds)
    from k names_rule_Inr [of "advance ?i" names "wildcard_kinds @ ts"] obtain after where
      after: "names_rule (advance ?i) = Inr (names, after)" "kinds after = wildcard_kinds @ ts @ []"
      by (auto simp: wildcard_kinds_def)
    have h': "expr_height b < MAX_HEIGHT" and d': "0 + Suc c \<le> MAX_NESTING" using h d 2 by simp_all
    from any_step_complete [where p = p, OF grammar_complete(9) [OF 2(5)] TrueI after(2) h' d']
    obtain inner where w: "wildcard after = Inr inner"
      and r: "gives (and_then (filter_rule ?f inner (RItem 0) (Suc 0)) (\<lambda>(predicate, rest).
       and_then (over after (ast_any p) predicate) (\<lambda>t. Inr (t, rest)))) (ast_any p b) []"
      by blast
    from out one dollar after w 2(4)
    have "and_then (filter_rule ?f inner (RItem 0) (Suc 0)) (\<lambda>(predicate, rest).
       and_then (over after (ast_any p) predicate) (\<lambda>t. Inr (t, rest))) \<noteq> Inl OutOfFuel"
      by (auto simp: template_rule_def Let_def)
    from gives_template [OF r this] one dollar after w 2 show ?thesis
      by (simp add: template_rule_def Let_def)
  qed
qed

end
