(* ===== verification/Jsonpath_Strings.thy ===== *)
theory Jsonpath_Strings
  imports Jsonpath_Complete
begin

section \<open>What the tokens of a template are\<close>

text \<open>
  What the lexer makes of a text: placeholders numbered along it, and literals that are read back.
\<close>

subsection \<open>Placeholders\<close>

lemma set_of_map_filter: "set (List.map_filter f xs) = {y. \<exists>x \<in> set xs. f x = Some y}"
  by (induction xs) (auto simp: map_filter_simps split: option.splits)

definition places_in :: "tkind list \<Rightarrow> param list" where
  "places_in ks = List.map_filter placeholder_of ks"

lemma places_in_simps [simp]:
  "places_in [] = []"
  "places_in (k # ks) = (case placeholder_of k of None \<Rightarrow> places_in ks | Some p \<Rightarrow> p # places_in ks)"
  "places_in (ks @ ls) = places_in ks @ places_in ls"
  by (simp_all add: places_in_def map_filter_simps map_filter_def split: option.split)

definition slot_place :: "slot \<Rightarrow> param option" where
  "slot_place s = (case s of Literal v \<Rightarrow> None | Placeholder p \<Rightarrow> Some p)"

definition places :: "slot expr \<Rightarrow> param list" where
  "places e = List.map_filter slot_place (expr_values e)"

lemma placeholder_of_simps [simp]:
  "placeholder_of (TPlaceholder p) = Some p" "placeholder_of TOr = None" "placeholder_of TAnd = None"
  "placeholder_of TNot = None" "placeholder_of TLeftParen = None" "placeholder_of TRightParen = None"
  "placeholder_of TLeftBracket = None" "placeholder_of TRightBracket = None"
  "placeholder_of TQuestion = None" "placeholder_of TStar = None" "placeholder_of TDollar = None"
  "placeholder_of TAt = None" "placeholder_of TDot = None" "placeholder_of (TName n) = None"
  by (simp_all add: placeholder_of_def)

lemma placeholder_of_comparison: "comparison_maker (Some k) = Some mk \<Longrightarrow> placeholder_of k = None"
  by (auto simp: comparison_maker_def placeholder_of_def split: tkind.splits)

lemma placeholder_of_literal: "literal_value k = Some v \<Longrightarrow> placeholder_of k = None"
  by (auto simp: literal_value_def placeholder_of_def split: tkind.splits)

lemma places_in_path [simp]: "places_in (path_kinds ns) = []" "places_in wildcard_kinds = []"
  by (induction ns) (simp_all add: wildcard_kinds_def)

lemma places_simps [simp]:
  "places (EValue (Literal v)) = []" "places (EValue (Placeholder p)) = [p]"
  "places (EField q) = []" "places (EItem up) = []" "places (EInfix l op r) = places l @ places r"
  "places (EPrefix pre e) = places e" "places (EAny q e) = places e"
  "places (ast_or l r) = places l @ places r" "places (ast_and l r) = places l @ places r"
  "places (ast_not e) = places e" "places (ast_any q e) = places e"
  by (simp_all add: places_def map_filter_simps map_filter_def slot_place_def ast_builders)

lemma grammar_places:
  "g_or s ts e d \<Longrightarrow> places e = places_in ts"
  "g_or_rest s l us e d \<Longrightarrow> places e = places l @ places_in us"
  "g_and s ts e d \<Longrightarrow> places e = places_in ts"
  "g_and_rest s l us e d \<Longrightarrow> places e = places l @ places_in us"
  "g_unary s ts e d \<Longrightarrow> places e = places_in ts" "g_comparison s ts e d \<Longrightarrow> places e = places_in ts"
  "g_operand s ts e d \<Longrightarrow> places e = places_in ts" "g_query s ts e d \<Longrightarrow> places e = places_in ts"
  "g_filter s ts e d \<Longrightarrow> places e = places_in ts"
proof (induction rule: grammar_inducts)
  case (Comparison s ts l d k mk us r d')
  from Comparison.hyps(2) obtain op where "mk = (\<lambda>l r. EInfix l (IComparison op) r)"
    by (rule comparison_makerE)
  with Comparison placeholder_of_comparison [OF Comparison.hyps(2)] show ?case by simp
qed (simp_all add: placeholder_of_literal)

lemma template_places: "g_template ts e d \<Longrightarrow> places e = places_in ts"
  by (erule g_template.cases) (simp_all add: grammar_places)

text \<open>Every item is inside its collection.\<close>

definition root_in :: "nat \<Rightarrow> root \<Rightarrow> bool" where
  "root_in n s = (case s of RGlobal \<Rightarrow> True | RItem up \<Rightarrow> up < n)"

lemma collection_path_rooted:
  "collection_path s names = Some p \<Longrightarrow> root_in n s \<Longrightarrow> rooted n p"
  by (auto simp: collection_path_def rooted_def root_in_def split: list.splits root.splits)

lemma grammar_closed:
  "g_or s ts e d \<Longrightarrow> root_in n s \<Longrightarrow> closed n e"
  "g_or_rest s l us e d \<Longrightarrow> root_in n s \<Longrightarrow> closed n l \<Longrightarrow> closed n e"
  "g_and s ts e d \<Longrightarrow> root_in n s \<Longrightarrow> closed n e"
  "g_and_rest s l us e d \<Longrightarrow> root_in n s \<Longrightarrow> closed n l \<Longrightarrow> closed n e"
  "g_unary s ts e d \<Longrightarrow> root_in n s \<Longrightarrow> closed n e" "g_comparison s ts e d \<Longrightarrow> root_in n s \<Longrightarrow> closed n e"
  "g_operand s ts e d \<Longrightarrow> root_in n s \<Longrightarrow> closed n e" "g_query s ts e d \<Longrightarrow> root_in n s \<Longrightarrow> closed n e"
  "g_filter s ts e d \<Longrightarrow> root_in n s \<Longrightarrow> closed n e"
proof (induction arbitrary: n and n and n and n and n and n and n and n and n rule: grammar_inducts)
  case (Comparison s ts l d k mk us r d')
  from Comparison.hyps(2) obtain op where "mk = (\<lambda>l r. EInfix l (IComparison op) r)"
    by (rule comparison_makerE)
  with Comparison show ?case by simp
next
  case (Collection s names p us e d)
  then show ?case by (simp add: ast_builders collection_path_rooted root_in_def)
qed (auto simp: ast_builders root_in_def intro: collection_path_rooted split: root.splits)

lemma template_closed: "g_template ts e d \<Longrightarrow> closed 0 e"
  by (erule g_template.cases)
    (auto simp: ast_builders root_in_def intro: grammar_closed collection_path_rooted)

subsection \<open>The placeholders are numbered along the text\<close>

definition numbers_in :: "tkind list \<Rightarrow> nat list" where
  "numbers_in ks = List.map_filter (\<lambda>p. case param_key p of ByPosition n \<Rightarrow> Some n | ByName _ \<Rightarrow> None)
     (places_in ks)"

lemma numbers_in_simps [simp]:
  "numbers_in [] = []"
  "numbers_in (k # ks) =
     (case placeholder_of k of
        Some p \<Rightarrow> (case param_key p of ByPosition n \<Rightarrow> n # numbers_in ks | ByName _ \<Rightarrow> numbers_in ks)
      | None \<Rightarrow> numbers_in ks)"
  by (simp_all add: numbers_in_def map_filter_simps split: option.split param_key.split)

lemma is_positional_iff:
  "is_positional k \<longleftrightarrow> (\<exists>p n. placeholder_of k = Some p \<and> param_key p = ByPosition n)"
  by (auto simp: is_positional_def placeholder_of_def split: tkind.splits param_key.splits)

lemma is_named_iff:
  "is_named k \<longleftrightarrow> (\<exists>p n. placeholder_of k = Some p \<and> param_key p = ByName n)"
  by (auto simp: is_named_def placeholder_of_def split: tkind.splits param_key.splits)

lemma lex_text_from_text:
  "lex_text_from chars at quote read position = Inr (k, n) \<Longrightarrow> \<exists>s. k = TText s"
proof (induction chars at quote read position rule: lex_text_from.induct)
  case (1 chars at quote read position)
  note result = "1.prems" [unfolded lex_text_from.simps [of chars at quote read position]]
  from result obtain c where c: "char_at chars position = Some c" by (auto split: option.splits)
  consider "c = quote" | "c \<noteq> quote" "c = 0x5C" | "c \<noteq> quote" "c \<noteq> 0x5C" by blast
  then show ?case
  proof cases
    case 1
    with result c show ?thesis by auto
  next
    case 2
    with result c obtain d after where e: "lex_escape chars position = Inr (d, after)"
      and rest: "lex_text_from chars at quote (read @ [d]) after = Inr (k, n)"
      by (auto split: sum.splits)
    with "1.IH"(1) [OF c 2] show ?thesis by blast
  next
    case 3
    with result c have "\<not> c < 0x20"
      and "lex_text_from chars at quote (read @ [c]) (position + 1) = Inr (k, n)"
      by (auto split: if_splits)
    with "1.IH"(2) [OF c 3] show ?thesis by simp
  qed
qed

lemma lex_token_number:
  assumes "lex_token first chars at index = Inr (k, n)" "placeholder_of k = Some p"
    "param_key p = ByPosition m"
  shows "m = index"
  using assms(1)
proof (cases rule: lex_tokenE)
  case one
  with assms(2) show ?thesis by (auto simp: one_char_token_def split: if_splits)
next
  case two
  with assms(2) show ?thesis by (auto simp: two_char_token_def placeholder_of_def split: if_splits)
next
  case short
  with assms(2) show ?thesis by (auto simp: short_operator_def placeholder_of_def split: if_splits)
next
  case placeholder
  with assms(2,3) show ?thesis
    by (auto simp: placeholder_def Let_def and_then_Inr_iff split: option.splits if_splits)
next
  case quoted
  then have "\<exists>s. k = TText s" unfolding lex_text_def by (rule lex_text_from_text)
  with assms(2) show ?thesis by (auto simp: placeholder_of_def)
next
  case number
  with assms(2) show ?thesis
    by (auto simp: lex_number_def Let_def placeholder_of_def split: if_splits)
qed (use assms in auto)

lemma tokenize_from_numbers:
  "tokenize_from chars at c = Inr tokens
    \<Longrightarrow> numbers_in (map token_kind tokens) = [c ..< c + positional tokens]"
proof (induction chars at c arbitrary: tokens rule: tokenize_from.induct)
  case (1 chars at c)
  define position where "position = at + blanks chars at"
  note result = "1.prems" [unfolded tokenize_from.simps [of chars at c] Let_def, folded position_def]
  show ?case
  proof (cases "char_at chars position")
    case None
    with result show ?thesis by (simp add: positional_def)
  next
    case (Some first)
    with result obtain k after rest where tok: "lex_token first chars position c = Inr (k, after)"
      and rest: "tokenize_from chars after (c + (if is_positional k then 1 else 0)) = Inr rest"
      and tokens: "tokens = \<lparr>token_kind = k, token_position = position\<rparr> # rest"
      by (auto split: sum.splits)
    from "1.IH" [OF position_def Some tok refl rest]
    have IH: "numbers_in (map token_kind rest)
      = [c + (if is_positional k then 1 else 0) ..< c + (if is_positional k then 1 else 0) + positional rest]" .
    show ?thesis
    proof (cases "is_positional k")
      case True
      then obtain p m where p: "placeholder_of k = Some p" "param_key p = ByPosition m"
        by (auto simp: is_positional_iff)
      with lex_token_number [OF tok] have "m = c" by simp
      moreover have "[c ..< c + Suc j] = c # [Suc c ..< Suc c + j]" for j
        using upt_conv_Cons [of c "c + Suc j"] by simp
      moreover have "positional tokens = Suc (positional rest)"
        using tokens True by (simp add: positional_def)
      ultimately show ?thesis using IH tokens True p by (simp del: upt_Suc)
    next
      case False
      with IH tokens show ?thesis
        by (auto simp: positional_def is_positional_iff split: option.split param_key.split)
    qed
  qed
qed

text \<open>The tokens are in the order of the text.\<close>

lemma tokenize_from_positions:
  "tokenize_from chars at c = Inr tokens
    \<Longrightarrow> sorted_wrt (<) (map token_position tokens)
      \<and> (\<forall>t \<in> set tokens. at \<le> token_position t \<and> token_position t < length chars)"
proof (induction chars at c arbitrary: tokens rule: tokenize_from.induct)
  case (1 chars at c)
  define position where "position = at + blanks chars at"
  note result = "1.prems" [unfolded tokenize_from.simps [of chars at c] Let_def, folded position_def]
  show ?case
  proof (cases "char_at chars position")
    case None
    with result show ?thesis by simp
  next
    case (Some first)
    with result obtain k after rest where tok: "lex_token first chars position c = Inr (k, after)"
      and rest: "tokenize_from chars after (c + (if is_positional k then 1 else 0)) = Inr rest"
      and tokens: "tokens = \<lparr>token_kind = k, token_position = position\<rparr> # rest"
      by (auto split: sum.splits)
    have "position < after" using tok Some by (rule lex_token_advances)
    moreover have "position < length chars" using Some by (simp add: char_at_def split: if_splits)
    moreover have "at \<le> position" by (simp add: position_def)
    ultimately show ?thesis
      using "1.IH" [OF position_def Some tok refl rest] tokens by fastforce
  qed
qed


section \<open>Every text can be written as a literal\<close>

text \<open>
  A text written in either quote, each of its characters as it is, by its short escape, or by a unicode escape with
  digits of either case - a character beyond the basic plane by a pair of them - is read back as the text.
\<close>

definition hex_digits4 :: "nat \<Rightarrow> nat list" where
  "hex_digits4 n = [n div 4096 mod 16, n div 256 mod 16, n div 16 mod 16, n mod 16]"

definition upper_hex :: "nat \<Rightarrow> uchar" where
  "upper_hex d = (if d < 10 then 48 + d else 55 + d)"

text \<open>The four digits of a unit, each in the case one likes.\<close>

definition unit_spelled :: "nat \<Rightarrow> uchar list \<Rightarrow> bool" where
  "unit_spelled n w \<longleftrightarrow> n < 0x10000
    \<and> (\<exists>ds. w = 0x5C # ch CHR ''u'' # ds \<and> list_all2 (\<lambda>d c. c = hex_letter d \<or> c = upper_hex d) (hex_digits4 n) ds)"

inductive spells :: "uchar \<Rightarrow> uchar \<Rightarrow> uchar list \<Rightarrow> bool" for quote where
  itself: "c \<noteq> quote \<Longrightarrow> c \<noteq> 0x5C \<Longrightarrow> 0x20 \<le> c \<Longrightarrow> spells quote c [c]"
| escaped: "c \<in> {0x22, 0x27, 0x5C, ch CHR ''/''} \<Longrightarrow> spells quote c [0x5C, c]"
| backspace: "spells quote 8 [0x5C, ch CHR ''b'']"
| tabulator: "spells quote 9 [0x5C, ch CHR ''t'']"
| line_feed: "spells quote 10 [0x5C, ch CHR ''n'']"
| form_feed: "spells quote 12 [0x5C, ch CHR ''f'']"
| carriage_return: "spells quote 13 [0x5C, ch CHR ''r'']"
| basic: "unit_spelled c w \<Longrightarrow> spells quote c w"
| pair: "0x10000 \<le> c \<Longrightarrow> unit_spelled (0xD800 + (c - 0x10000) div 0x400) v \<Longrightarrow>
    unit_spelled (0xDC00 + (c - 0x10000) mod 0x400) w \<Longrightarrow> spells quote c (v @ w)"

lemma char_at_past: "char_at (pre @ xs) (length pre + k) = char_at xs k"
  by (simp add: char_at_def nth_append)

lemma char_at_Cons [simp]: "char_at (x # xs) 0 = Some x" "char_at (x # xs) (Suc k) = char_at xs k"
  by (simp_all add: char_at_def)

lemma hex4_past: "hex4 (pre @ xs) (length pre + k) = hex4 xs k"
  by (simp add: hex4_def)

lemma hex_digit_upper [simp]: "d < 16 \<Longrightarrow> hex_digit (upper_hex d) = Some d"
  by (auto simp: hex_digit_def upper_hex_def)

lemma hex_fold_digits4:
  assumes "n < 0x10000" "list_all2 (\<lambda>d c. c = hex_letter d \<or> c = upper_hex d) (hex_digits4 n) ds"
  shows "hex_fold 0 ds = Some n" "length ds = 4"
proof -
  obtain c3 c2 c1 c0 where ds: "ds = [c3, c2, c1, c0]"
    and c: "hex_digit c3 = Some (n div 4096 mod 16)" "hex_digit c2 = Some (n div 256 mod 16)"
      "hex_digit c1 = Some (n div 16 mod 16)" "hex_digit c0 = Some (n mod 16)"
    using assms(2) by (auto simp: hex_digits4_def list_all2_Cons1)
  have "n div 4096 < 16" using assms(1) by simp
  moreover have step: "m div 16 * 16 + m mod 16 = m" for m :: nat by simp
  have "n div 4096 = n div 256 div 16" "n div 256 = n div 16 div 16"
    by (simp_all add: div_mult2_eq [symmetric])
  then have "n div 4096 * 16 + n div 256 mod 16 = n div 256"
    and "n div 256 * 16 + n div 16 mod 16 = n div 16" and "n div 16 * 16 + n mod 16 = n"
    using step by simp_all
  ultimately show "hex_fold 0 ds = Some n" by (simp add: ds c)
  show "length ds = 4" by (simp add: ds)
qed

lemma unit_read:
  assumes "unit_spelled n w"
  shows "hex4 (w @ post) 2 = Some n" "length w = 6"
    "char_at (w @ post) 0 = Some 0x5C" "char_at (w @ post) (Suc 0) = Some (ch CHR ''u'')"
proof -
  obtain ds where n: "n < 0x10000" and w: "w = 0x5C # ch CHR ''u'' # ds"
    and ds: "list_all2 (\<lambda>d c. c = hex_letter d \<or> c = upper_hex d) (hex_digits4 n) ds"
    using assms by (auto simp: unit_spelled_def)
  note digits = hex_fold_digits4 [OF n ds]
  show "hex4 (w @ post) 2 = Some n" using digits by (simp add: hex4_def w)
  show "length w = 6" using digits(2) by (simp add: w)
  show "char_at (w @ post) 0 = Some 0x5C" "char_at (w @ post) (Suc 0) = Some (ch CHR ''u'')" by (simp_all add: w)
qed

lemma simple_escape_u: "simple_escape (ch CHR ''u'') = None"
  by (simp add: simple_escape_def ch_def)

lemma short_escape_read:
  assumes "simple_escape e = Some c"
  shows "lex_escape (pre @ [0x5C, e] @ post) (length pre) = Inr (c, length pre + 2)"
  using char_at_past [of pre "[0x5C, e] @ post" 1] assms by (simp add: lex_escape_def)

lemma unit_escape_read:
  assumes "scalar_value c" "unit_spelled c w"
  shows "lex_escape (pre @ w @ post) (length pre) = Inr (c, length pre + length w)"
proof -
  note w = unit_read [OF assms(2)]
  have "char_at (pre @ w @ post) (length pre + 1) = Some (ch CHR ''u'')"
    unfolding char_at_past using w(4) by simp
  moreover have "hex4 (pre @ w @ post) (length pre + 2) = Some c" unfolding hex4_past by (rule w(1))
  moreover have "\<not> (0xD800 \<le> c \<and> c < 0xDC00)" "char_from_u32 c = Some c"
    using assms(1) by (auto simp: scalar_value_def char_from_u32_def)
  ultimately show ?thesis
    unfolding lex_escape_def Let_def
    by (simp only: option.case simple_escape_u and_then_simps ok_or_simps map_ok_simps if_True if_False simp_thms w(2) refl)
qed

lemma pair_escape_read:
  assumes "scalar_value c" "0x10000 \<le> c"
    and v: "unit_spelled (0xD800 + (c - 0x10000) div 0x400) v" and w: "unit_spelled (0xDC00 + (c - 0x10000) mod 0x400) w"
  shows "lex_escape (pre @ (v @ w) @ post) (length pre) = Inr (c, length pre + length (v @ w))"
proof -
  define high where "high = 0xD800 + (c - 0x10000) div 0x400"
  define low where "low = 0xDC00 + (c - 0x10000) mod 0x400"
  let ?rest = "w @ post"
  let ?cs = "pre @ v @ ?rest"
  note v = unit_read [OF v, folded high_def] and w = unit_read [OF w, folded low_def]
  have "c < 0x110000" using assms by (simp add: scalar_value_def)
  then have high: "0xD800 \<le> high" "high < 0xDC00" and low: "0xDC00 \<le> low" "low < 0xE000"
    using assms(2) by (simp_all add: high_def low_def)
  have at6: "char_at ?cs (length pre + (6 + k)) = char_at ?rest k" for k
    using char_at_past [of pre "v @ ?rest" "6 + k"] char_at_past [of v ?rest k] v(2) by simp
  have "char_at ?cs (length pre + 1) = Some (ch CHR ''u'')"
    unfolding char_at_past using v(4) by simp
  moreover have "hex4 ?cs (length pre + 2) = Some high" unfolding hex4_past by (rule v(1))
  moreover have "char_at ?cs (length pre + 6) = Some 0x5C" "char_at ?cs (length pre + 7) = Some (ch CHR ''u'')"
    using at6 [of 0] at6 [of 1] w(3,4) by simp_all
  moreover have "hex4 ?cs (length pre + 8) = Some low"
    using hex4_past [of pre "v @ ?rest" 8] hex4_past [of v ?rest 2] v(2) w(1) by simp
  moreover have "0x10000 + (high - 0xD800) * 1024 + (low - 0xDC00) = c"
    using assms(2) by (simp add: high_def low_def)
  moreover have "char_from_u32 c = Some c" using assms by (simp add: char_from_u32_def)
  moreover have "pre @ (v @ w) @ post = ?cs" "length (v @ w) = 12" using v(2) w(2) by simp_all
  ultimately show ?thesis
    using high low by (simp add: lex_escape_def simple_escape_u)
qed

text \<open>A spelling other than the character itself is an escape that is read as the character.\<close>

lemma spelling_read:
  assumes "spells quote c w" "scalar_value c"
  shows "w = [c] \<and> c \<noteq> quote \<and> c \<noteq> 0x5C \<and> 0x20 \<le> c
    \<or> (\<exists>es. w = 0x5C # es) \<and> (\<forall>pre post. lex_escape (pre @ w @ post) (length pre) = Inr (c, length pre + length w))"
  using assms
proof cases
  case escaped
  then have "simple_escape c = Some c" by (auto simp: simple_escape_def ch_def)
  then show ?thesis using escaped short_escape_read [of c c] by auto
next
  case backspace
  then show ?thesis using short_escape_read [of "ch CHR ''b''" 8] by (simp add: simple_escape_def ch_def)
next
  case tabulator
  then show ?thesis using short_escape_read [of "ch CHR ''t''" 9] by (simp add: simple_escape_def ch_def)
next
  case line_feed
  then show ?thesis using short_escape_read [of "ch CHR ''n''" 10] by (simp add: simple_escape_def ch_def)
next
  case form_feed
  then show ?thesis using short_escape_read [of "ch CHR ''f''" 12] by (simp add: simple_escape_def ch_def)
next
  case carriage_return
  then show ?thesis using short_escape_read [of "ch CHR ''r''" 13] by (simp add: simple_escape_def ch_def)
next
  case basic
  then show ?thesis using unit_escape_read [OF assms(2)] by (auto simp: unit_spelled_def)
next
  case (pair v w')
  have "\<exists>es. v = 0x5C # es" using pair(3) by (auto simp: unit_spelled_def)
  then show ?thesis using pair pair_escape_read [OF assms(2) pair(2,3,4)] by auto
qed simp

lemma spelled_text_from:
  assumes "list_all2 (spells quote) cs ws" "list_all scalar_value cs" and quote: "quote = 0x22 \<or> quote = 0x27"
  shows "lex_text_from (pre @ concat ws @ quote # post) at quote read (length pre)
    = Inr (TText (to_bytes (read @ cs)), length pre + length (concat ws) + 1)"
  using assms(1,2)
proof (induction cs ws arbitrary: pre read rule: list_all2_induct)
  case Nil
  have "char_at (pre @ quote # post) (length pre) = Some quote"
    using char_at_past [of pre "quote # post" 0] by simp
  then show ?case by (subst lex_text_from.simps) simp
next
  case (Cons c cs w ws)
  let ?rest = "concat ws @ quote # post"
  have IH: "lex_text_from ((pre @ w) @ ?rest) at quote (read @ [c]) (length (pre @ w))
    = Inr (TText (to_bytes ((read @ [c]) @ cs)), length (pre @ w) + length (concat ws) + 1)"
    using Cons by (intro Cons.IH) simp
  have "scalar_value c" using Cons.prems by simp
  from spelling_read [OF Cons.hyps(1) this] show ?case
  proof
    assume w: "w = [c] \<and> c \<noteq> quote \<and> c \<noteq> 0x5C \<and> 0x20 \<le> c"
    then have "char_at (pre @ w @ ?rest) (length pre) = Some c"
      using char_at_past [of pre "w @ ?rest" 0] by simp
    with IH w show ?thesis
      by (subst lex_text_from.simps) (auto simp: add.assoc)
  next
    assume w: "(\<exists>es. w = 0x5C # es) \<and> (\<forall>pre post. lex_escape (pre @ w @ post) (length pre) = Inr (c, length pre + length w))"
    then have "char_at (pre @ w @ ?rest) (length pre) = Some 0x5C"
      using char_at_past [of pre "w @ ?rest" 0] by auto
    moreover have "lex_escape (pre @ w @ ?rest) (length pre) = Inr (c, length (pre @ w))" using w by simp
    ultimately show ?thesis
      using IH quote by (subst lex_text_from.simps) (auto simp: add.assoc)
  qed
qed

lemma token_of_quote:
  assumes "quote = 0x22 \<or> quote = 0x27"
  shows "lex_token quote chars at index = lex_text chars at quote"
proof -
  have "one_char_token quote = None" "short_operator quote = None"
    "two_char_token quote after = None" "quote \<noteq> ch CHR ''%''" for after
    using assms by (auto simp: one_char_token_def short_operator_def two_char_token_def ch_def)
  with assms show ?thesis by (auto simp: lex_token_def)
qed

lemma spelled_text_tokens:
  assumes "list_all2 (spells quote) cs ws" "list_all scalar_value cs" and quote: "quote = 0x22 \<or> quote = 0x27"
  shows "tokenize (quote # concat ws @ [quote])
    = Inr [\<lparr>token_kind = TText (to_bytes cs), token_position = 0\<rparr>]"
proof -
  let ?t = "quote # concat ws @ [quote]"
  have "lex_text ?t 0 quote = Inr (TText (to_bytes cs), length ?t)"
    using spelled_text_from [OF assms, of "[quote]" "[]" 0 "[]"]
    by (simp add: lex_text_def)
  moreover have "blanks ?t 0 = 0" "char_at ?t 0 = Some quote"
    using quote by (auto simp: blanks_def lex_run_def uc_is_whitespace_def)
  moreover have "tokenize_from ?t (length ?t) c = Inr []" for c
    by (subst tokenize_from.simps) (simp add: blanks_def lex_run_def char_at_def)
  ultimately show ?thesis
    unfolding tokenize_def
    by (subst tokenize_from.simps) (simp add: token_of_quote [OF quote])
qed

end
