(* ===== verification/Jsonpath_Properties.thy ===== *)
theory Jsonpath_Properties
  imports Jsonpath_Strings Evaluator_Properties
begin

section \<open>Properties of templates\<close>

text \<open>
  The properties of templates: their grammar, their bounds, what binding and matching give.
\<close>

subsection \<open>Binding\<close>

definition fill :: "val list \<Rightarrow> slot \<Rightarrow> val" where
  "fill vs s =
     (case s of
        Literal v \<Rightarrow> v
      | Placeholder p \<Rightarrow> (case param_key p of ByPosition n \<Rightarrow> vs ! n | ByName _ \<Rightarrow> VNull))"

lemma bind_slot_positional:
  "bind_slot (Positional vs) s = Inr v \<longleftrightarrow>
     (case slot_place s of
        None \<Rightarrow> True
      | Some p \<Rightarrow> \<exists>n. param_key p = ByPosition n \<and> n < length vs \<and> admits (param_kind p) (vs ! n))
     \<and> v = fill vs s"
  by (cases s) (auto simp: bind_slot_def slot_place_def params_get_def fill_def split: param_key.splits)

lemma try_map_values_Inr_iff:
  "try_map_values f e = Inr e' \<longleftrightarrow> (\<forall>v \<in> set (expr_values e). \<exists>w. f v = Inr w) \<and> e' = map_expr (projr \<circ> f) e"
proof (induction e arbitrary: e')
  case (EInfix l op r)
  show ?case by (auto simp: and_then_Inr_iff EInfix.IH)
qed (auto simp: and_then_Inr_iff)

lemma slot_place_Some: "slot_place s = Some p \<longleftrightarrow> s = Placeholder p"
  by (cases s) (simp_all add: slot_place_def)

lemma set_places: "set (places e) = {p. Placeholder p \<in> set (expr_values e)}"
  by (auto simp: places_def set_of_map_filter slot_place_Some)

lemma map_expr_cong_values:
  "(\<And>v. v \<in> set (expr_values e) \<Longrightarrow> f v = g v) \<Longrightarrow> map_expr f e = map_expr g e"
  by (simp add: set_expr_values cong: expr.map_cong)

lemma try_bind_positional:
  "try_map_values (bind_slot (Positional vs)) e = Inr b \<longleftrightarrow>
     (\<forall>p \<in> set (places e). \<exists>n. param_key p = ByPosition n \<and> n < length vs \<and> admits (param_kind p) (vs ! n))
     \<and> b = map_expr (fill vs) e" (is "?lhs \<longleftrightarrow> ?fits \<and> _")
proof -
  have fits: "(\<forall>v \<in> set (expr_values e). \<exists>w. bind_slot (Positional vs) v = Inr w) \<longleftrightarrow> ?fits"
  proof
    assume "\<forall>v \<in> set (expr_values e). \<exists>w. bind_slot (Positional vs) v = Inr w"
    then show ?fits
      unfolding bind_slot_positional set_places by (auto simp: slot_place_def)
  next
    assume ?fits
    then show "\<forall>v \<in> set (expr_values e). \<exists>w. bind_slot (Positional vs) v = Inr w"
      unfolding bind_slot_positional set_places by (auto simp: slot_place_def split: slot.splits)
  qed
  have "map_expr (projr \<circ> bind_slot (Positional vs)) e = map_expr (fill vs) e" if ?fits
  proof (rule map_expr_cong_values)
    fix s assume "s \<in> set (expr_values e)"
    with that fits obtain w where "bind_slot (Positional vs) s = Inr w" by blast
    moreover from this have "w = fill vs s" unfolding bind_slot_positional by simp
    ultimately show "(projr \<circ> bind_slot (Positional vs)) s = fill vs s" by simp
  qed
  with fits show ?thesis by (auto simp: try_map_values_Inr_iff)
qed

text \<open>A template that was read: its grammar, its style and its placeholders.\<close>

lemma template_parseE:
  assumes "template_parse source = Inr t"
  obtains tokens d where "tokenize source = Inr tokens" "template_rule tokens (length source) = Inr (tm_expr t)"
    "g_template (map token_kind tokens) (tm_expr t) d" "d \<le> MAX_NESTING"
    "expr_height (tm_expr t) \<le> MAX_HEIGHT" "styled (map token_kind tokens)"
    "tm_positional t = positional tokens" "tm_source t = source" "length (to_bytes source) \<le> MAX_LENGTH"
proof -
  from assms obtain tokens e where tok: "tokenize source = Inr tokens"
    and e: "template_rule tokens (length source) = Inr e" and len: "length (to_bytes source) \<le> MAX_LENGTH"
    and t: "t = \<lparr>tm_source = source, tm_expr = e, tm_positional = positional tokens\<rparr>"
    by (auto simp: template_parse_def split: if_splits)
  from template_rule_sound [OF e] obtain d where
    "g_template (map token_kind tokens) e d" "d \<le> MAX_NESTING" "expr_height e \<le> MAX_HEIGHT"
    "styled (map token_kind tokens)" by blast
  with tok e t len show thesis by (intro that [of tokens d]) simp_all
qed

lemma map_filter_all: "(\<And>x. x \<in> set xs \<Longrightarrow> f x = Some (g x)) \<Longrightarrow> List.map_filter f xs = map g xs"
  by (induction xs) (simp_all add: map_filter_simps)

text \<open>In one style: the keys are the numbers along the text, or they are names.\<close>

lemma parsed_places:
  assumes "template_parse source = Inr t"
  shows "map param_key (places (tm_expr t)) = map ByPosition [0 ..< tm_positional t]
    \<or> tm_positional t = 0 \<and> (\<forall>p \<in> set (places (tm_expr t)). \<exists>n. param_key p = ByName n)"
proof -
  from assms obtain tokens d where tok: "tokenize source = Inr tokens"
    and g: "g_template (map token_kind tokens) (tm_expr t) d" and style: "styled (map token_kind tokens)"
    and pos: "tm_positional t = positional tokens"
    by (rule template_parseE)
  let ?ks = "map token_kind tokens"
  have numbers: "numbers_in ?ks = [0 ..< positional tokens]"
    using tokenize_from_numbers [of source 0 0 tokens] tok by (simp add: tokenize_def)
  have places: "places (tm_expr t) = places_in ?ks" using g by (rule template_places)
  have mem: "p \<in> set (places_in ?ks) \<longleftrightarrow> (\<exists>k \<in> set ?ks. placeholder_of k = Some p)" for p
    by (auto simp: places_in_def set_of_map_filter)
  show ?thesis
  proof (cases "list_ex is_named ?ks")
    case False
    then have "\<exists>n. param_key p = ByPosition n" if "p \<in> set (places_in ?ks)" for p
      using that mem [of p] by (cases "param_key p") (auto simp: list_ex_iff is_named_iff)
    then obtain f where f: "\<And>p. p \<in> set (places_in ?ks) \<Longrightarrow> param_key p = ByPosition (f p)"
      by metis
    then have "numbers_in ?ks = map f (places_in ?ks)"
      unfolding numbers_in_def by (intro map_filter_all) simp
    moreover have "map param_key (places_in ?ks) = map ByPosition (map f (places_in ?ks))"
      using f by simp
    ultimately show ?thesis using places numbers pos by simp
  next
    case True
    with style have no: "\<not> list_ex is_positional ?ks" by (simp add: styled_def)
    then have "positional tokens = 0"
      by (auto simp: positional_def list_ex_iff filter_empty_conv)
    moreover have "\<exists>n. param_key p = ByName n" if "p \<in> set (places_in ?ks)" for p
      using that mem [of p] no by (cases "param_key p") (auto simp: list_ex_iff is_positional_iff)
    ultimately show ?thesis using places pos by simp
  qed
qed

lemma bind_positional_iff:
  assumes "template_parse source = Inr t"
  shows "template_bind ops t (Positional vs) = Inr e \<longleftrightarrow>
    map param_key (places (tm_expr t)) = map ByPosition [0 ..< length vs]
    \<and> list_all2 admits (map param_kind (places (tm_expr t))) vs
    \<and> e = throughout ops (map_expr (fill vs) (tm_expr t))" (is "_ \<longleftrightarrow> ?keys \<and> ?kinds \<and> _")
proof -
  let ?ps = "places (tm_expr t)"
  have all: "(\<forall>p \<in> set ?ps. \<exists>n. param_key p = ByPosition n \<and> n < length vs \<and> admits (param_kind p) (vs ! n))
      \<longleftrightarrow> list_all2 admits (map param_kind ?ps) vs"
    if keys: "map param_key ?ps = map ByPosition [0 ..< length vs]"
  proof -
    have len: "length ?ps = length vs" using arg_cong [OF keys, of length] by simp
    have key: "param_key (?ps ! i) = ByPosition i" if "i < length vs" for i
      using arg_cong [OF keys, of "\<lambda>xs. xs ! i"] that len by simp
    show ?thesis by (auto simp: list_all2_conv_all_nth all_set_conv_all_nth len key)
  qed
  have bound: "template_bind ops t (Positional vs) = Inr e \<longleftrightarrow>
      (\<forall>p \<in> set ?ps. \<exists>n. param_key p = ByPosition n \<and> n < length vs \<and> admits (param_kind p) (vs ! n))
      \<and> length vs \<le> tm_positional t \<and> e = throughout ops (map_expr (fill vs) (tm_expr t))"
    by (auto simp: template_bind_def and_then_Inr_iff try_bind_positional)
  from parsed_places [OF assms] consider
    (positional) "map param_key ?ps = map ByPosition [0 ..< tm_positional t]"
    | (named) "tm_positional t = 0" "\<forall>p \<in> set ?ps. \<exists>n. param_key p = ByName n"
    by (elim disjE conjE) simp_all
  then show ?thesis
  proof cases
    case positional
    have "tm_positional t \<le> length vs"
      if f: "\<forall>p \<in> set ?ps. \<exists>n. param_key p = ByPosition n \<and> n < length vs \<and> admits (param_kind p) (vs ! n)"
    proof (rule ccontr)
      assume "\<not> tm_positional t \<le> length vs"
      then have "ByPosition (length vs) \<in> set (map param_key ?ps)" unfolding positional by auto
      then obtain p where "p \<in> set ?ps" "param_key p = ByPosition (length vs)" by auto
      with f show False by fastforce
    qed
    moreover have "?keys \<longleftrightarrow> tm_positional t = length vs"
      unfolding positional by (metis diff_zero length_map length_upt)
    ultimately show ?thesis unfolding bound using all by fastforce
  next
    case named
    show ?thesis
    proof (cases ?ps)
      case Nil
      with named bound show ?thesis by auto
    next
      case (Cons p ps)
      with named obtain n where "param_key p = ByName n" by auto
      with Cons show ?thesis unfolding bound by (cases vs) (auto simp: upt_conv_Cons simp del: upt_Suc)
    qed
  qed
qed

subsection \<open>A template\<close>

definition sample_source :: "uchar list" where
  "sample_source = chs ''$[?@.a>%d]''"

definition sample_template :: template where
  "sample_template =
     \<lparr>tm_source = sample_source,
      tm_expr = EInfix (EField (path_global ''a'')) infix_GT
                  (EValue (Placeholder \<lparr>param_key = ByPosition 0, param_kind = IntegerKind\<rparr>)),
      tm_positional = 1\<rparr>"

lemmas lexing =
  chs_def char_at_def lex_run_def blanks_def uc_is_whitespace_def lex_token_def one_char_token_def
  two_char_token_def short_operator_def placeholder_def placeholder_letter_def is_name_start_def
  is_name_part_def uc_is_alphabetic_def uc_is_alphanumeric_def uc_is_digit_def is_positional_def ch_def

definition sample_tokens :: "token list" where
  "sample_tokens =
     [\<lparr>token_kind = TDollar, token_position = 0\<rparr>, \<lparr>token_kind = TLeftBracket, token_position = 1\<rparr>,
      \<lparr>token_kind = TQuestion, token_position = 2\<rparr>, \<lparr>token_kind = TAt, token_position = 3\<rparr>,
      \<lparr>token_kind = TDot, token_position = 4\<rparr>, \<lparr>token_kind = TName ''a'', token_position = 5\<rparr>,
      \<lparr>token_kind = TGt, token_position = 6\<rparr>,
      \<lparr>token_kind = TPlaceholder \<lparr>param_key = ByPosition 0, param_kind = IntegerKind\<rparr>, token_position = 7\<rparr>,
      \<lparr>token_kind = TRightBracket, token_position = 9\<rparr>]"

lemma char_of_a: "char_of (97 :: nat) = CHR ''a''"
  by code_simp

lemma sample_tokenize: "tokenize sample_source = Inr sample_tokens"
  by (simp add: sample_source_def sample_tokens_def tokenize_def tokenize_from.simps lexing utf8_def
      char_of_a)

lemma sample_rule: "template_rule sample_tokens 10 = Inr (tm_expr sample_template)"
  by code_simp

lemma sample_parse: "template_parse sample_source = Inr sample_template"
proof -
  have "length sample_source = 10" "length (to_bytes sample_source) = 10"
    by (simp_all add: sample_source_def chs_def utf8_def)
  moreover have "positional sample_tokens = 1"
    by (simp add: positional_def sample_tokens_def is_positional_def)
  ultimately show ?thesis
    by (simp add: template_parse_def MAX_LENGTH_def sample_tokenize sample_rule)
      (simp add: sample_template_def)
qed

subsection \<open>The properties\<close>

lemma template_parse_runs: "template_parse source \<noteq> Inl OutOfFuel"
  using template_rule_runs
  by (auto simp: template_parse_def and_then_Inl_iff parse_within_def split: parse_error.splits)

lemma closed_map_expr [simp]: "closed n (map_expr f e) = closed n e"
  by (induction e arbitrary: n) simp_all

lemma expr_height_map_expr [simp]: "expr_height (map_expr f e) = expr_height e"
  by (induction e) simp_all

lemma closed_throughout [simp]: "closed n (throughout ops e) = closed n e"
proof (induction ops e arbitrary: n rule: throughout.induct)
  case (1 ops l r)
  then show ?case
    by (cases "throughout ops r"; cases "throughout ops l")
      (auto simp: null_test_defs is_null_constant_def ast_builders)
next
  case (2 ops l r)
  then show ?case
    by (cases "throughout ops r"; cases "throughout ops l")
      (auto simp: null_test_defs is_null_constant_def ast_builders)
qed (simp_all add: ast_builders)

lemma expr_height_throughout: "expr_height (throughout ops e) \<le> expr_height e"
  by (induction ops e rule: throughout.induct)
    (auto simp: null_test_defs ast_builders)

text \<open>
  C11: The parser reads a sequence of tokens as a tree exactly when the documented grammar derives
  the tree from them, its placeholders are of one style, and the tree and the nesting are within
  the two bounds.
\<close>

theorem parser_reads_the_grammar:
  "template_rule tokens n = Inr e \<longleftrightarrow>
     styled (map token_kind tokens) \<and> expr_height e \<le> MAX_HEIGHT
     \<and> (\<exists>d. d \<le> MAX_NESTING \<and> g_template (map token_kind tokens) e d)"
  using template_rule_sound template_rule_complete by blast

text \<open>
  C12: Reading a template ends, whatever the text: the fuel given for its tokens is enough, so the
  outcome is the template or an error of the syntax.
\<close>

theorem every_text_is_answered:
  "(\<exists>t. template_parse source = Inr t) \<noteq> (\<exists>e. template_parse source = Inl (Syntax e))"
  using template_parse_runs [of source]
  by (cases "template_parse source") (auto intro: parse_error.exhaust)

text \<open>
  C13: A template that was read and bound is a specification no taller than 128 levels, whose items
  are inside their collections, and no equality in it has the null constant for an operand.
\<close>

theorem bound_template_is_well_formed:
  assumes "template_parse source = Inr t" and "template_bind ops t params = Inr e"
  shows "closed 0 e \<and> expr_height e \<le> MAX_HEIGHT \<and> no_null_equality ops e"
proof -
  from assms(1) obtain tokens :: "token list" and d where "g_template (map token_kind tokens) (tm_expr t) d"
    and h: "expr_height (tm_expr t) \<le> MAX_HEIGHT"
    by (rule template_parseE)
  then have "closed 0 (tm_expr t)" by (simp add: template_closed)
  moreover from assms(2) obtain b where "try_map_values (bind_slot params) (tm_expr t) = Inr b"
    and "e = throughout ops b"
    by (auto simp: template_bind_def split: params.splits if_splits)
  ultimately show ?thesis
    using h expr_height_throughout [of ops b]
    by (auto simp: try_map_values_Inr_iff throughout_no_null_equality)
qed

theorem bound_template_is_well_formed_witness:
  "closed 0 (EInfix (EField (path_global ''a'')) infix_GT (EValue (VInt 18)))
   \<and> expr_height (EInfix (EField (path_global ''a'')) infix_GT (EValue (VInt 18))) \<le> MAX_HEIGHT
   \<and> no_null_equality (value_operand sample_calendar)
       (EInfix (EField (path_global ''a'')) infix_GT (EValue (VInt 18)))"
proof (rule bound_template_is_well_formed [OF sample_parse])
  show "template_bind (value_operand sample_calendar) sample_template (Positional [VInt 18])
    = Inr (EInfix (EField (path_global ''a'')) infix_GT (EValue (VInt 18)))"
    by (simp add: template_bind_def sample_template_def bind_slot_def params_get_def admits_def ast_builders)
qed

text \<open>
  Positional parameters are bound exactly when there is one for every placeholder, in the
  order of the text, each of the kind its letter asks for; then each placeholder holds its own.
\<close>

theorem positional_binding_exact:
  assumes "template_parse source = Inr t"
  shows "template_bind ops t (Positional vs) = Inr e \<longleftrightarrow>
    map param_key (places (tm_expr t)) = map ByPosition [0 ..< length vs]
    \<and> list_all2 admits (map param_kind (places (tm_expr t))) vs
    \<and> e = throughout ops (map_expr (fill vs) (tm_expr t))"
  using assms by (rule bind_positional_iff)

theorem positional_binding_exact_witness:
  "template_bind (value_operand sample_calendar) sample_template (Positional [VText ''x''])
     \<noteq> Inr (EInfix (EField (path_global ''a'')) infix_GT (EValue (VText ''x'')))"
  unfolding positional_binding_exact [OF sample_parse]
  by (simp add: sample_template_def admits_def)

text \<open>
  C14: Every text of Unicode is the value of a literal: written in either quote, each character as it is, by
  its short escape where it has one, or by a unicode escape with digits of either case - two of them beyond the
  basic plane -, it is read back as it was.
\<close>

theorem literal_reads_back:
  assumes "list_all2 (spells quote) cs ws" and "list_all scalar_value cs" and "quote = 0x22 \<or> quote = 0x27"
  shows "tokenize (quote # concat ws @ [quote]) = Inr [\<lparr>token_kind = TText (to_bytes cs), token_position = 0\<rparr>]"
  using assms by (rule spelled_text_tokens)

theorem literal_reads_back_witness:
  "tokenize (map ch (CHR 0x22 # [CHR 0x5C] @ ''uD83d'' @ [CHR 0x5C] @ ''uDe00'' @ [CHR 0x5C, CHR 0x22, CHR 0x5C] @ ''na'' @ [CHR 0x22]))
    = Inr [\<lparr>token_kind = TText (to_bytes [0x1F600, 0x22, 10, 97]), token_position = 0\<rparr>]"
proof -
  let ?high = "map ch ([CHR 0x5C] @ ''uD83d'')" and ?low = "map ch ([CHR 0x5C] @ ''uDe00'')"
  have "unit_spelled 0xD83D ?high" "unit_spelled 0xDE00 ?low"
    by (simp_all add: unit_spelled_def hex_digits4_def hex_letter_def upper_hex_def ch_def)
  then have "spells 0x22 0x1F600 (?high @ ?low)" by (intro spells.pair) simp_all
  moreover have "spells 0x22 0x22 [0x5C, 0x22]" by (rule spells.escaped) simp
  moreover have "spells 0x22 10 [0x5C, ch CHR ''n'']" by (rule spells.line_feed)
  moreover have "spells 0x22 97 [97]" by (rule spells.itself) simp_all
  ultimately have "list_all2 (spells 0x22) [0x1F600, 0x22, 10, 97]
      [?high @ ?low, [0x5C, 0x22], [0x5C, ch CHR ''n''], [97]]" by simp
  from literal_reads_back [OF this] show ?thesis by (simp add: scalar_value_def ch_def)
qed

end
