(* ===== verification/Saga.thy ===== *)
theory Saga
  imports Values
begin

section \<open>The data of a saga\<close>

text \<open>
  \<open>crates/saga/src\<close>: \<open>error.rs\<close>, \<open>value.rs\<close>, \<open>activity.rs\<close>, \<open>work_item.rs\<close>, \<open>work_log.rs\<close>,
  \<open>routing_slip.rs\<close>, \<open>activity_resolver.rs\<close>, \<open>serializable_routing_slip.rs\<close> and
  \<open>routing_slip_serialization.rs\<close>.

  The JSON data of \<open>serde_json\<close> is a type of the model with the functions the code calls on it as
  a record. An opaque object is what this crate puts behind an \<open>Arc\<close>: a shared slip, which is an
  address, a list of them, or values; the \<open>Arc\<close> itself is an identity.
\<close>

subsection \<open>Errors\<close>

datatype saga_error =
    InvalidOperation string
  | ActivityTypeNotRegistered string
  | MissingKey string
  | UnexpectedType string string
  | ActivityError string

fun show_saga_error :: "saga_error \<Rightarrow> string" where
  "show_saga_error (InvalidOperation message) = message"
| "show_saga_error (ActivityTypeNotRegistered name) = ''activity type not registered: '' @ name"
| "show_saga_error (MissingKey key) = ''missing key: '' @ key"
| "show_saga_error (UnexpectedType key expected) =
     ''key '' @ key @ '' does not hold a value of type '' @ expected"
| "show_saga_error (ActivityError e) = ''activity failed: '' @ e"

subsection \<open>Values\<close>

record 'j json_ops =
  js_str :: "'j \<Rightarrow> string option"
  js_i64 :: "'j \<Rightarrow> i64 option"
  js_f64 :: "'j \<Rightarrow> f64 option"
  js_bool :: "'j \<Rightarrow> bool option"
  js_equal :: "'j \<Rightarrow> 'j \<Rightarrow> bool"
  js_null :: "'j"
  js_array :: "'j list \<Rightarrow> 'j"
  js_of_i64 :: "i64 \<Rightarrow> 'j"

datatype 'j svalue = SJson 'j | SAny nat "'j opaque"
and 'j opaque = OSlip nat | OSlips "nat list" | OValues "'j svalue list"

definition sv_as_json :: "'j svalue \<Rightarrow> 'j option" where
  "sv_as_json v = (case v of SJson j \<Rightarrow> Some j | SAny _ _ \<Rightarrow> None)"

definition sv_as_str :: "'j json_ops \<Rightarrow> 'j svalue \<Rightarrow> string option" where
  "sv_as_str js v = Option.bind (sv_as_json v) (js_str js)"

definition sv_as_i64 :: "'j json_ops \<Rightarrow> 'j svalue \<Rightarrow> i64 option" where
  "sv_as_i64 js v = Option.bind (sv_as_json v) (js_i64 js)"

definition sv_as_f64 :: "'j json_ops \<Rightarrow> 'j svalue \<Rightarrow> f64 option" where
  "sv_as_f64 js v = Option.bind (sv_as_json v) (js_f64 js)"

definition sv_as_bool :: "'j json_ops \<Rightarrow> 'j svalue \<Rightarrow> bool option" where
  "sv_as_bool js v = Option.bind (sv_as_json v) (js_bool js)"

text \<open>\<open>downcast_ref::<T>\<close>: the object, if it is of the type asked for.\<close>

definition sv_downcast :: "('j opaque \<Rightarrow> 't option) \<Rightarrow> 'j svalue \<Rightarrow> 't option" where
  "sv_downcast type v = (case v of SAny _ obj \<Rightarrow> type obj | SJson _ \<Rightarrow> None)"

definition as_slip :: "'j opaque \<Rightarrow> nat option" where
  "as_slip obj = (case obj of OSlip a \<Rightarrow> Some a | _ \<Rightarrow> None)"

definition as_slips :: "'j opaque \<Rightarrow> nat list option" where
  "as_slips obj = (case obj of OSlips as \<Rightarrow> Some as | _ \<Rightarrow> None)"

definition sv_is_serializable :: "'j svalue \<Rightarrow> bool" where
  "sv_is_serializable v = (case v of SJson _ \<Rightarrow> True | SAny _ _ \<Rightarrow> False)"

text \<open>Opaque values are equal when they are the same object.\<close>

definition sv_equal :: "'j json_ops \<Rightarrow> 'j svalue \<Rightarrow> 'j svalue \<Rightarrow> bool" where
  "sv_equal js l r =
     (case (l, r) of
        (SJson a, SJson b) \<Rightarrow> js_equal js a b
      | (SAny a _, SAny b _) \<Rightarrow> a = b
      | _ \<Rightarrow> False)"

definition sv_serialize :: "'j svalue \<Rightarrow> (string, 'j) result" where
  "sv_serialize v =
     (case v of
        SJson j \<Rightarrow> Inr j
      | SAny _ _ \<Rightarrow> Inl ''an opaque Value::Any cannot be serialized'')"

text \<open>\<open>From<Vec<T>>\<close>; the \<open>Arc\<close> it may make is the new object \<open>fresh\<close>.\<close>

definition sv_from_vec :: "'j json_ops \<Rightarrow> nat \<Rightarrow> 'j svalue list \<Rightarrow> 'j svalue" where
  "sv_from_vec js fresh vs =
     (if list_all sv_is_serializable vs
      then SJson (js_array js (map (\<lambda>v. case sv_as_json v of Some j \<Rightarrow> j | None \<Rightarrow> js_null js) vs))
      else SAny fresh (OValues vs))"

subsection \<open>Dictionaries\<close>

text \<open>\<open>WorkItemArguments\<close> and \<open>WorkResult\<close> are the same \<open>dict_newtype\<close> over a \<open>BTreeMap\<close>.\<close>

type_synonym 'j dict = "string \<rightharpoonup> 'j svalue"

definition dict_insert :: "'j dict \<Rightarrow> string \<Rightarrow> 'j svalue \<Rightarrow> 'j svalue option \<times> 'j dict" where
  "dict_insert d key v = (d key, d(key \<mapsto> v))"

definition dict_from :: "(string \<times> 'j svalue) list \<Rightarrow> 'j dict" where
  "dict_from entries = foldl (\<lambda>d (key, v). snd (dict_insert d key v)) Map.empty entries"

definition dict_require :: "'j dict \<Rightarrow> string \<Rightarrow> (saga_error, 'j svalue) result" where
  "dict_require d key = ok_or (MissingKey key) (d key)"

definition dict_typed ::
  "('j svalue \<Rightarrow> 't option) \<Rightarrow> string \<Rightarrow> 'j dict \<Rightarrow> string \<Rightarrow> (saga_error, 't) result" where
  "dict_typed read expected d key =
     and_then (dict_require d key) (\<lambda>v. ok_or (UnexpectedType key expected) (read v))"

definition dict_get_str :: "'j json_ops \<Rightarrow> 'j dict \<Rightarrow> string \<Rightarrow> (saga_error, string) result" where
  "dict_get_str js = dict_typed (sv_as_str js) ''string''"

definition dict_get_i64 :: "'j json_ops \<Rightarrow> 'j dict \<Rightarrow> string \<Rightarrow> (saga_error, i64) result" where
  "dict_get_i64 js = dict_typed (sv_as_i64 js) ''integer''"

definition dict_get_bool :: "'j json_ops \<Rightarrow> 'j dict \<Rightarrow> string \<Rightarrow> (saga_error, bool) result" where
  "dict_get_bool js = dict_typed (sv_as_bool js) ''boolean''"

text \<open>The type's name is what \<open>std::any::type_name\<close> gives.\<close>

definition dict_get_any ::
  "('j opaque \<Rightarrow> 't option) \<Rightarrow> string \<Rightarrow> 'j dict \<Rightarrow> string \<Rightarrow> (saga_error, 't) result" where
  "dict_get_any type type_name = dict_typed (sv_downcast type) type_name"

subsection \<open>Activity types, work items, work logs and slips\<close>

text \<open>
  The factory of a type is not data here: a function \<open>create\<close> from types to activities is an
  argument of what makes activities. The identity of a type is its \<open>TypeId\<close>.
\<close>

record activity_type =
  at_id :: nat
  at_path :: string

definition same_activity_type :: "activity_type \<Rightarrow> activity_type \<Rightarrow> bool" where
  "same_activity_type s t \<longleftrightarrow> at_id s = at_id t"

text \<open>\<open>rsplit("::").next()\<close>: what follows the last pair of colons.\<close>

fun after_last_colons :: "string \<Rightarrow> string option" where
  "after_last_colons [] = None"
| "after_last_colons (c # cs) =
     (case after_last_colons cs of
        Some s \<Rightarrow> Some s
      | None \<Rightarrow>
          (case cs of
             [] \<Rightarrow> None
           | d # ds \<Rightarrow> if c = CHR '':'' \<and> d = CHR '':'' then Some ds else None))"

definition at_short_name :: "activity_type \<Rightarrow> string" where
  "at_short_name t =
     (case after_last_colons (at_path t) of Some s \<Rightarrow> s | None \<Rightarrow> at_path t)"

record 'j work_item =
  wi_type :: activity_type
  wi_arguments :: "'j dict"

record 'j work_log =
  wl_type :: activity_type
  wl_result :: "'j dict"

record 'j slip =
  completed_work_logs :: "'j work_log list"
  next_work_items :: "'j work_item list"

definition slip_new :: "'j work_item list \<Rightarrow> 'j slip" where
  "slip_new items = \<lparr>completed_work_logs = [], next_work_items = items\<rparr>"

definition is_completed :: "'j slip \<Rightarrow> bool" where
  "is_completed slip \<longleftrightarrow> next_work_items slip = []"

definition is_in_progress :: "'j slip \<Rightarrow> bool" where
  "is_in_progress slip \<longleftrightarrow> completed_work_logs slip \<noteq> []"

definition add_work_item :: "'j slip \<Rightarrow> 'j work_item \<Rightarrow> 'j slip" where
  "add_work_item slip item = slip\<lparr>next_work_items := next_work_items slip @ [item]\<rparr>"

definition add_next_work_item :: "'j slip \<Rightarrow> 'j work_item \<Rightarrow> 'j slip" where
  "add_next_work_item slip item = slip\<lparr>next_work_items := item # next_work_items slip\<rparr>"

definition add_completed_work_log :: "'j slip \<Rightarrow> 'j work_log \<Rightarrow> 'j slip" where
  "add_completed_work_log slip log = slip\<lparr>completed_work_logs := completed_work_logs slip @ [log]\<rparr>"

subsection \<open>The resolver\<close>

text \<open>The trait, and the pair of maps. \<open>type_name\<close> is what a fresh activity says of itself.\<close>

record resolver =
  rs_resolve :: "string \<Rightarrow> (saga_error, activity_type) result"
  rs_get_name :: "activity_type \<Rightarrow> (saga_error, string) result"

record map_resolver =
  name_to_type :: "string \<rightharpoonup> activity_type"
  type_to_name :: "nat \<rightharpoonup> string"

definition map_resolver_new :: map_resolver where
  "map_resolver_new = \<lparr>name_to_type = Map.empty, type_to_name = Map.empty\<rparr>"

definition register :: "map_resolver \<Rightarrow> string \<Rightarrow> activity_type \<Rightarrow> map_resolver" where
  "register r name t =
     \<lparr>name_to_type = (name_to_type r)(name \<mapsto> t), type_to_name = (type_to_name r)(at_id t \<mapsto> name)\<rparr>"

definition map_resolve :: "map_resolver \<Rightarrow> string \<Rightarrow> (saga_error, activity_type) result" where
  "map_resolve r name = ok_or (ActivityTypeNotRegistered name) (name_to_type r name)"

definition map_get_name ::
  "(activity_type \<Rightarrow> string option) \<Rightarrow> map_resolver \<Rightarrow> activity_type \<Rightarrow> (saga_error, string) result" where
  "map_get_name type_name r t =
     (case type_to_name r (at_id t) of
        Some name \<Rightarrow> Inr name
      | None \<Rightarrow> ok_or (ActivityTypeNotRegistered (at_short_name t)) (type_name t))"

definition map_based :: "(activity_type \<Rightarrow> string option) \<Rightarrow> map_resolver \<Rightarrow> resolver" where
  "map_based type_name r = \<lparr>rs_resolve = map_resolve r, rs_get_name = map_get_name type_name r\<rparr>"

subsection \<open>The serializable form\<close>

record 'j serializable_item =
  si_type_name :: string
  si_arguments :: "'j dict"

record 'j serializable_log =
  sl_type_name :: string
  sl_result :: "'j dict"

record 'j serializable_slip =
  ss_completed :: "'j serializable_log list"
  ss_next :: "'j serializable_item list"

definition to_serializable ::
  "'j slip \<Rightarrow> resolver \<Rightarrow> (saga_error, 'j serializable_slip) result" where
  "to_serializable slip resolver =
     and_then (collect_results (map (\<lambda>log.
         map_ok (\<lambda>name. \<lparr>sl_type_name = name, sl_result = wl_result log\<rparr>)
           (rs_get_name resolver (wl_type log))) (completed_work_logs slip))) (\<lambda>logs.
     and_then (collect_results (map (\<lambda>item.
         map_ok (\<lambda>name. \<lparr>si_type_name = name, si_arguments = wi_arguments item\<rparr>)
           (rs_get_name resolver (wi_type item))) (next_work_items slip))) (\<lambda>items.
     Inr \<lparr>ss_completed = logs, ss_next = items\<rparr>))"

text \<open>The loops of \<open>from_serializable\<close> add to the slip as they go.\<close>

fun restore_items ::
  "resolver \<Rightarrow> 'j serializable_item list \<Rightarrow> 'j slip \<Rightarrow> (saga_error, 'j slip) result" where
  "restore_items resolver [] slip = Inr slip"
| "restore_items resolver (item # items) slip =
     and_then (rs_resolve resolver (si_type_name item)) (\<lambda>t.
       restore_items resolver items
         (add_work_item slip \<lparr>wi_type = t, wi_arguments = si_arguments item\<rparr>))"

fun restore_logs ::
  "resolver \<Rightarrow> 'j serializable_log list \<Rightarrow> 'j slip \<Rightarrow> (saga_error, 'j slip) result" where
  "restore_logs resolver [] slip = Inr slip"
| "restore_logs resolver (log # logs) slip =
     and_then (rs_resolve resolver (sl_type_name log)) (\<lambda>t.
       restore_logs resolver logs
         (add_completed_work_log slip \<lparr>wl_type = t, wl_result = sl_result log\<rparr>))"

definition from_serializable ::
  "'j serializable_slip \<Rightarrow> resolver \<Rightarrow> (saga_error, 'j slip) result" where
  "from_serializable serializable resolver =
     and_then (restore_items resolver (ss_next serializable) (slip_new []))
       (restore_logs resolver (ss_completed serializable))"

subsection \<open>A slip on the wire and back\<close>

text \<open>The contract of a resolver between two services: a name given is resolved to the same type.\<close>

locale faithful_resolver =
  fixes resolver :: resolver and known :: "activity_type \<Rightarrow> bool"
  assumes named: "known t \<Longrightarrow> \<exists>name. rs_get_name resolver t = Inr name \<and> rs_resolve resolver name = Inr t"
begin

lemma items_restored:
  assumes "list_all (\<lambda>i. known (wi_type i)) items"
  shows "\<exists>out. collect_results (map (\<lambda>item.
         map_ok (\<lambda>name. \<lparr>si_type_name = name, si_arguments = wi_arguments item\<rparr>)
           (rs_get_name resolver (wi_type item))) items) = Inr out
     \<and> (\<forall>slip. restore_items resolver out slip
          = Inr (slip\<lparr>next_work_items := next_work_items slip @ items\<rparr>))"
  using assms
proof (induction items)
  case (Cons i items)
  from Cons.prems named [of "wi_type i"] obtain name where
    "rs_get_name resolver (wi_type i) = Inr name" "rs_resolve resolver name = Inr (wi_type i)" by auto
  with Cons show ?case by (auto simp: add_work_item_def)
qed simp

lemma logs_restored:
  assumes "list_all (\<lambda>l. known (wl_type l)) logs"
  shows "\<exists>out. collect_results (map (\<lambda>log.
         map_ok (\<lambda>name. \<lparr>sl_type_name = name, sl_result = wl_result log\<rparr>)
           (rs_get_name resolver (wl_type log))) logs) = Inr out
     \<and> (\<forall>slip. restore_logs resolver out slip
          = Inr (slip\<lparr>completed_work_logs := completed_work_logs slip @ logs\<rparr>))"
  using assms
proof (induction logs)
  case (Cons l logs)
  from Cons.prems named [of "wl_type l"] obtain name where
    "rs_get_name resolver (wl_type l) = Inr name" "rs_resolve resolver name = Inr (wl_type l)" by auto
  with Cons show ?case by (auto simp: add_completed_work_log_def)
qed simp

lemma slip_restored:
  assumes "list_all (\<lambda>i. known (wi_type i)) (next_work_items slip)"
    and "list_all (\<lambda>l. known (wl_type l)) (completed_work_logs slip)"
  shows "\<exists>wire. to_serializable slip resolver = Inr wire \<and> from_serializable wire resolver = Inr slip"
  using items_restored [OF assms(1)] logs_restored [OF assms(2)]
  by (force simp: to_serializable_def from_serializable_def slip_new_def)

end

text \<open>What a resolver knows that names were registered in, one type to a name and one name to a type.\<close>

definition registered :: "(string \<times> activity_type) list \<Rightarrow> map_resolver" where
  "registered entries = foldl (\<lambda>r (name, t). register r name t) map_resolver_new entries"

lemma registered_snoc [simp]: "registered (entries @ [(name, t)]) = register (registered entries) name t"
  by (simp add: registered_def)

lemma registered_maps:
  assumes "distinct (map fst entries)" and "distinct (map (at_id \<circ> snd) entries)" and "(name, t) \<in> set entries"
  shows "name_to_type (registered entries) name = Some t \<and> type_to_name (registered entries) (at_id t) = Some name"
  using assms
proof (induction entries rule: rev_induct)
  case (snoc entry entries)
  obtain n u where entry: "entry = (n, u)" by (cases entry)
  show ?case
  proof (cases "(name, t) = (n, u)")
    case True
    then show ?thesis by (simp add: entry register_def)
  next
    case False
    with snoc.prems have mem: "(name, t) \<in> set entries" by (auto simp: entry)
    with snoc.prems have "name \<noteq> n" "at_id t \<noteq> at_id u" by (force simp: entry)+
    with mem snoc show ?thesis by (simp add: entry register_def)
  qed
qed simp

lemma registered_faithful:
  assumes "distinct (map fst entries)" and "distinct (map (at_id \<circ> snd) entries)"
  shows "faithful_resolver (map_based type_name (registered entries)) (\<lambda>t. t \<in> snd ` set entries)"
proof
  fix t assume "t \<in> snd ` set entries"
  then obtain name where "(name, t) \<in> set entries" by auto
  from registered_maps [OF assms this]
  show "\<exists>name. rs_get_name (map_based type_name (registered entries)) t = Inr name
    \<and> rs_resolve (map_based type_name (registered entries)) name = Inr t"
    by (auto simp: map_based_def map_get_name_def map_resolve_def)
qed

end
