(* ===== verification/Saga_Run.thy ===== *)
theory Saga_Run
  imports Saga
begin

section \<open>Running a saga\<close>

text \<open>
  \<open>crates/saga/src\<close>: the operations of \<open>routing_slip.rs\<close> that call activities, \<open>activity_host.rs\<close>,
  \<open>fallback_activity.rs\<close> and \<open>parallel_activity.rs\<close>.

  The trait \<open>Activity\<close> is the record of its methods. What they do to anything but their arguments
  is done to a state that is passed along; a method that never returns - it loops, or it waits for
  a lock nobody releases - is \<open>None\<close>. A slip shared by several owners is in the store of the state,
  at the address of its \<open>Arc\<close>; while it is locked it is not there.
\<close>

record ('s, 'j) activity =
  act_do_work :: "'j work_item \<Rightarrow> 's \<Rightarrow> ((saga_error, 'j work_log option) result \<times> 's) option"
  act_compensate :: "'j work_log \<Rightarrow> 'j slip \<Rightarrow> 's
    \<Rightarrow> ((saga_error, bool) result \<times> 'j slip \<times> 's) option"
  act_work_address :: string
  act_compensation_address :: string
  act_type :: activity_type
  act_type_name :: "string option"

type_synonym ('s, 'j) activities = "activity_type \<Rightarrow> ('s, 'j) activity"

definition work_log_new :: "('s, 'j) activity \<Rightarrow> 'j dict \<Rightarrow> 'j work_log" where
  "work_log_new act result = \<lparr>wl_type = act_type act, wl_result = result\<rparr>"

subsection \<open>One step of a slip\<close>

type_synonym ('s, 'j, 'a) slip_outcome = "((saga_error, 'a) result \<times> 'j slip \<times> 's) option"

definition process_next ::
  "('s, 'j) activities \<Rightarrow> 'j slip \<Rightarrow> 's \<Rightarrow> ('s, 'j, bool) slip_outcome" where
  "process_next create slip s =
     (case next_work_items slip of
        [] \<Rightarrow> Some (Inl (InvalidOperation ''No more work items to process''), slip, s)
      | item # items \<Rightarrow>
          let slip = slip\<lparr>next_work_items := items\<rparr> in
          (case act_do_work (create (wi_type item)) item s of
             None \<Rightarrow> None
           | Some (done, s) \<Rightarrow>
               (case done of
                  Inr (Some log) \<Rightarrow> Some (Inr True, add_completed_work_log slip log, s)
                | Inr None \<Rightarrow> Some (Inr False, slip, s)
                | Inl _ \<Rightarrow> Some (Inr False, slip, s))))"

definition undo_last ::
  "('s, 'j) activities \<Rightarrow> 'j slip \<Rightarrow> 's \<Rightarrow> ('s, 'j, bool) slip_outcome" where
  "undo_last create slip s =
     (if \<not> is_in_progress slip then Some (Inl (InvalidOperation ''No work to undo''), slip, s)
      else
        let log = last (completed_work_logs slip)
        in act_compensate (create (wl_type log)) log
             (slip\<lparr>completed_work_logs := butlast (completed_work_logs slip)\<rparr>) s)"

definition progress_uri :: "('s, 'j) activities \<Rightarrow> 'j slip \<Rightarrow> string option" where
  "progress_uri create slip =
     (case next_work_items slip of
        [] \<Rightarrow> None
      | item # _ \<Rightarrow> Some (act_work_address (create (wi_type item))))"

definition compensation_uri :: "('s, 'j) activities \<Rightarrow> 'j slip \<Rightarrow> string option" where
  "compensation_uri create slip =
     (if completed_work_logs slip = [] then None
      else Some (act_compensation_address (create (wl_type (last (completed_work_logs slip))))))"

subsection \<open>The host\<close>

text \<open>\<open>MessageSender::send\<close> may fail; it acts on the state too.\<close>

type_synonym ('s, 'j) sender = "string \<Rightarrow> 'j slip \<Rightarrow> 's \<Rightarrow> ((saga_error, unit) result \<times> 's) option"

definition send_if ::
  "('s, 'j) sender \<Rightarrow> string option \<Rightarrow> 'j slip \<Rightarrow> 's \<Rightarrow> ('s, 'j, unit) slip_outcome" where
  "send_if sender uri slip s =
     (case uri of
        None \<Rightarrow> Some (Inr (), slip, s)
      | Some uri \<Rightarrow> map_option (\<lambda>(sent, s). (sent, slip, s)) (sender uri slip s))"

definition process_forward_message ::
  "('s, 'j) activities \<Rightarrow> ('s, 'j) sender \<Rightarrow> 'j slip \<Rightarrow> 's \<Rightarrow> ('s, 'j, unit) slip_outcome" where
  "process_forward_message create sender slip s =
     (if is_completed slip then Some (Inr (), slip, s)
      else
        (case process_next create slip s of
           None \<Rightarrow> None
         | Some (Inl e, slip, s) \<Rightarrow> Some (Inl e, slip, s)
         | Some (Inr successful, slip, s) \<Rightarrow>
             send_if sender
               (if successful then progress_uri create slip else compensation_uri create slip) slip s))"

definition process_backward_message ::
  "('s, 'j) activities \<Rightarrow> ('s, 'j) sender \<Rightarrow> 'j slip \<Rightarrow> 's \<Rightarrow> ('s, 'j, unit) slip_outcome" where
  "process_backward_message create sender slip s =
     (if \<not> is_in_progress slip then Some (Inr (), slip, s)
      else
        (case undo_last create slip s of
           None \<Rightarrow> None
         | Some (Inl e, slip, s) \<Rightarrow> Some (Inl e, slip, s)
         | Some (Inr backward, slip, s) \<Rightarrow>
             send_if sender
               (if backward then compensation_uri create slip else progress_uri create slip) slip s))"

definition accept_message ::
  "('s, 'j) activities \<Rightarrow> ('s, 'j) sender \<Rightarrow> activity_type \<Rightarrow> string \<Rightarrow> 'j slip \<Rightarrow> 's
    \<Rightarrow> ('s, 'j, bool) slip_outcome" where
  "accept_message create sender host uri slip s =
     (let act = create host;
          accepted = map_option (\<lambda>(r, slip, s). (map_ok (\<lambda>_. True) r, slip, s))
      in if act_compensation_address act = uri
         then accepted (process_backward_message create sender slip s)
         else if act_work_address act = uri
         then accepted (process_forward_message create sender slip s)
         else Some (Inr False, slip, s))"

subsection \<open>To completion, or back\<close>

text \<open>\<open>while slip.is_in_progress() { slip.undo_last().await? }\<close>.\<close>

partial_function (option) undo_all ::
  "('s, 'j) activities \<Rightarrow> 'j slip \<Rightarrow> 's \<Rightarrow> ('s, 'j, unit) slip_outcome" where
  "undo_all create slip s =
     (if \<not> is_in_progress slip then Some (Inr (), slip, s)
      else
        (case undo_last create slip s of
           None \<Rightarrow> None
         | Some r \<Rightarrow>
             (case fst r of
                Inl e \<Rightarrow> Some (Inl e, fst (snd r), snd (snd r))
              | Inr _ \<Rightarrow> undo_all create (fst (snd r)) (snd (snd r)))))"

text \<open>The loop of \<open>execute_alternative\<close> and of \<open>execute_branch\<close>.\<close>

partial_function (option) run_slip ::
  "('s, 'j) activities \<Rightarrow> 'j slip \<Rightarrow> 's \<Rightarrow> ('s, 'j, bool) slip_outcome" where
  "run_slip create slip s =
     (if is_completed slip then Some (Inr True, slip, s)
      else
        (case process_next create slip s of
           None \<Rightarrow> None
         | Some r \<Rightarrow>
             (case fst r of
                Inl e \<Rightarrow> Some (Inl e, fst (snd r), snd (snd r))
              | Inr successful \<Rightarrow>
                  if successful then run_slip create (fst (snd r)) (snd (snd r))
                  else
                    map_option (\<lambda>(undone, slip, s). (map_ok (\<lambda>_. False) undone, slip, s))
                      (undo_all create (fst (snd r)) (snd (snd r))))))"

text \<open>\<open>while slip.is_in_progress() { if slip.undo_last().await.is_err() { break; } }\<close>.\<close>

partial_function (option) undo_swallowing ::
  "('s, 'j) activities \<Rightarrow> 'j slip \<Rightarrow> 's \<Rightarrow> ('j slip \<times> 's) option" where
  "undo_swallowing create slip s =
     (if \<not> is_in_progress slip then Some (slip, s)
      else
        (case undo_last create slip s of
           None \<Rightarrow> None
         | Some r \<Rightarrow>
             (case fst r of
                Inl e \<Rightarrow> Some (snd r)
              | Inr _ \<Rightarrow> undo_swallowing create (fst (snd r)) (snd (snd r)))))"

subsection \<open>Shared slips\<close>

record ('w, 'j) shared_state =
  store :: "nat \<rightharpoonup> 'j slip"
  world :: "'w"

text \<open>\<open>lock().await\<close>, what is done under the lock, and its release.\<close>

definition with_lock ::
  "nat \<Rightarrow> ('j slip \<Rightarrow> ('w, 'j) shared_state \<Rightarrow> ('a \<times> 'j slip \<times> ('w, 'j) shared_state) option)
    \<Rightarrow> ('w, 'j) shared_state \<Rightarrow> ('a \<times> ('w, 'j) shared_state) option" where
  "with_lock a body s =
     (case store s a of
        None \<Rightarrow> None
      | Some slip \<Rightarrow>
          (case body slip (s\<lparr>store := (store s)(a := None)\<rparr>) of
             None \<Rightarrow> None
           | Some (r, slip, s) \<Rightarrow> Some (r, s\<lparr>store := (store s)(a \<mapsto> slip)\<rparr>)))"

definition ALTERNATIVES :: string where "ALTERNATIVES = ''alternatives''"
definition SUCCEEDED :: string where "SUCCEEDED = ''_succeeded''"
definition BRANCHES :: string where "BRANCHES = ''branches''"
definition EXECUTED_BRANCHES :: string where "EXECUTED_BRANCHES = ''_branches''"

text \<open>The types the two activities downcast to, by the names the compiler gives them.\<close>

record type_names =
  slip_type_name :: string
  slips_type_name :: string

subsection \<open>The fallback activity\<close>

definition fallback_arguments :: "nat \<Rightarrow> nat list \<Rightarrow> 'j dict" where
  "fallback_arguments fresh alternatives = dict_from [(ALTERNATIVES, SAny fresh (OSlips alternatives))]"

definition execute_alternative ::
  "(('w, 'j) shared_state, 'j) activities \<Rightarrow> nat \<Rightarrow> ('w, 'j) shared_state
    \<Rightarrow> ((saga_error, bool) result \<times> ('w, 'j) shared_state) option" where
  "execute_alternative create alternative = with_lock alternative (run_slip create)"

text \<open>The loop over the alternatives: the one that succeeded, if any did.\<close>

fun try_alternatives ::
  "(('w, 'j) shared_state, 'j) activities \<Rightarrow> nat list \<Rightarrow> ('w, 'j) shared_state
    \<Rightarrow> ((saga_error, nat option) result \<times> ('w, 'j) shared_state) option" where
  "try_alternatives create [] s = Some (Inr None, s)"
| "try_alternatives create (a # as) s =
     (case execute_alternative create a s of
        None \<Rightarrow> None
      | Some (Inl e, s) \<Rightarrow> Some (Inl e, s)
      | Some (Inr successful, s) \<Rightarrow>
          if successful then Some (Inr (Some a), s) else try_alternatives create as s)"

text \<open>The \<open>Arc\<close> the result is put behind is the new object \<open>fresh\<close>.\<close>

definition fallback_do_work ::
  "(('w, 'j) shared_state, 'j) activities \<Rightarrow> type_names \<Rightarrow> (('w, 'j) shared_state \<Rightarrow> nat)
    \<Rightarrow> activity_type \<Rightarrow> 'j work_item \<Rightarrow> ('w, 'j) shared_state
    \<Rightarrow> ((saga_error, 'j work_log option) result \<times> ('w, 'j) shared_state) option" where
  "fallback_do_work create names fresh self item s =
     (case dict_get_any as_slips (slips_type_name names) (wi_arguments item) ALTERNATIVES of
        Inl e \<Rightarrow> Some (Inl e, s)
      | Inr alternatives \<Rightarrow>
          map_option (\<lambda>(r, s).
            (map_ok (map_option (\<lambda>a.
                \<lparr>wl_type = self, wl_result = dict_from [(SUCCEEDED, SAny (fresh s) (OSlip a))]\<rparr>)) r, s))
            (try_alternatives create alternatives s))"

definition fallback_compensate ::
  "(('w, 'j) shared_state, 'j) activities \<Rightarrow> type_names \<Rightarrow> 'j work_log \<Rightarrow> 'j slip
    \<Rightarrow> ('w, 'j) shared_state \<Rightarrow> (('w, 'j) shared_state, 'j, bool) slip_outcome" where
  "fallback_compensate create names log slip s =
     (case dict_get_any as_slip (slip_type_name names) (wl_result log) SUCCEEDED of
        Inl e \<Rightarrow> Some (Inl e, slip, s)
      | Inr succeeded \<Rightarrow>
          map_option (\<lambda>(r, s). (map_ok (\<lambda>_. True) r, slip, s))
            (with_lock succeeded (undo_all create) s))"

definition fallback_activity ::
  "(('w, 'j) shared_state, 'j) activities \<Rightarrow> type_names \<Rightarrow> (('w, 'j) shared_state \<Rightarrow> nat)
    \<Rightarrow> activity_type \<Rightarrow> (('w, 'j) shared_state, 'j) activity" where
  "fallback_activity create names fresh self =
     \<lparr>act_do_work = fallback_do_work create names fresh self,
      act_compensate = fallback_compensate create names,
      act_work_address = ''sb://./fallback'',
      act_compensation_address = ''sb://./fallbackCompensation'',
      act_type = self,
      act_type_name = None\<rparr>"

subsection \<open>The parallel activity\<close>

text \<open>
  The futures of \<open>join_all\<close> are polled in the order of the branches. What is modelled is the run in
  which no branch has to wait in the middle of its work, so that each is done when the next is
  polled; every result is kept, whatever the others are.
\<close>

definition parallel_arguments :: "nat \<Rightarrow> nat list \<Rightarrow> 'j dict" where
  "parallel_arguments fresh branches = dict_from [(BRANCHES, SAny fresh (OSlips branches))]"

fun join_all :: "('s \<Rightarrow> ('a \<times> 's) option) list \<Rightarrow> 's \<Rightarrow> ('a list \<times> 's) option" where
  "join_all [] s = Some ([], s)"
| "join_all (task # tasks) s =
     (case task s of
        None \<Rightarrow> None
      | Some (r, s) \<Rightarrow> map_option (\<lambda>(rs, s). (r # rs, s)) (join_all tasks s))"

definition execute_branch ::
  "(('w, 'j) shared_state, 'j) activities \<Rightarrow> nat \<Rightarrow> ('w, 'j) shared_state
    \<Rightarrow> ((saga_error, bool) result \<times> ('w, 'j) shared_state) option" where
  "execute_branch create branch = with_lock branch (run_slip create)"

definition compensate_branch ::
  "(('w, 'j) shared_state, 'j) activities \<Rightarrow> nat \<Rightarrow> ('w, 'j) shared_state
    \<Rightarrow> (unit \<times> ('w, 'j) shared_state) option" where
  "compensate_branch create branch =
     with_lock branch (\<lambda>slip s. map_option (\<lambda>(slip, s). ((), slip, s)) (undo_swallowing create slip s))"

definition compensate_branches ::
  "(('w, 'j) shared_state, 'j) activities \<Rightarrow> nat list \<Rightarrow> ('w, 'j) shared_state
    \<Rightarrow> ('w, 'j) shared_state option" where
  "compensate_branches create branches s =
     map_option snd (join_all (map (compensate_branch create) branches) s)"

definition parallel_do_work ::
  "(('w, 'j) shared_state, 'j) activities \<Rightarrow> type_names \<Rightarrow> (('w, 'j) shared_state \<Rightarrow> nat)
    \<Rightarrow> activity_type \<Rightarrow> 'j work_item \<Rightarrow> ('w, 'j) shared_state
    \<Rightarrow> ((saga_error, 'j work_log option) result \<times> ('w, 'j) shared_state) option" where
  "parallel_do_work create names fresh self item s =
     (case dict_get_any as_slips (slips_type_name names) (wi_arguments item) BRANCHES of
        Inl e \<Rightarrow> Some (Inl e, s)
      | Inr branches \<Rightarrow>
          (case join_all (map (execute_branch create) branches) s of
             None \<Rightarrow> None
           | Some (results, s) \<Rightarrow>
               if list_ex (\<lambda>r. r \<noteq> Inr True) results then
                 map_option (\<lambda>s. (Inr None, s)) (compensate_branches create branches s)
               else
                 Some (Inr (Some \<lparr>wl_type = self,
                   wl_result = dict_from [(EXECUTED_BRANCHES, SAny (fresh s) (OSlips branches))]\<rparr>), s)))"

definition parallel_compensate ::
  "(('w, 'j) shared_state, 'j) activities \<Rightarrow> type_names \<Rightarrow> 'j work_log \<Rightarrow> 'j slip
    \<Rightarrow> ('w, 'j) shared_state \<Rightarrow> (('w, 'j) shared_state, 'j, bool) slip_outcome" where
  "parallel_compensate create names log slip s =
     (case dict_get_any as_slips (slips_type_name names) (wl_result log) EXECUTED_BRANCHES of
        Inl e \<Rightarrow> Some (Inl e, slip, s)
      | Inr branches \<Rightarrow>
          map_option (\<lambda>s. (Inr True, slip, s)) (compensate_branches create branches s))"

definition parallel_activity ::
  "(('w, 'j) shared_state, 'j) activities \<Rightarrow> type_names \<Rightarrow> (('w, 'j) shared_state \<Rightarrow> nat)
    \<Rightarrow> activity_type \<Rightarrow> (('w, 'j) shared_state, 'j) activity" where
  "parallel_activity create names fresh self =
     \<lparr>act_do_work = parallel_do_work create names fresh self,
      act_compensate = parallel_compensate create names,
      act_work_address = ''sb://./parallel'',
      act_compensation_address = ''sb://./parallelCompensation'',
      act_type = self,
      act_type_name = None\<rparr>"


section \<open>What a saga does\<close>

text \<open>
  The abstract run of a saga: work is done item by item; the first item that fails makes every
  completed work undone, the latest first. The loop over one slip, and the hosts that pass the slip
  to one another by messages, both compute it, for activities that return and whose compensation
  leaves the slip as it is.
\<close>

definition done_by ::
  "('s, 'j) activities \<Rightarrow> 'j work_item \<Rightarrow> 's \<Rightarrow> 'j work_log option \<times> 's" where
  "done_by create item s =
     (case act_do_work (create (wi_type item)) item s of
        Some (Inr (Some log), s') \<Rightarrow> (Some log, s')
      | Some (_, s') \<Rightarrow> (None, s')
      | None \<Rightarrow> (None, s))"

definition undone_by :: "('s, 'j) activities \<Rightarrow> 'j work_log \<Rightarrow> 's \<Rightarrow> 's" where
  "undone_by create log s =
     (case act_compensate (create (wl_type log)) log (slip_new []) s of
        Some (_, _, s') \<Rightarrow> s'
      | None \<Rightarrow> s)"

fun saga_run ::
  "('s, 'j) activities \<Rightarrow> 'j work_item list \<Rightarrow> 'j work_log list \<Rightarrow> 's \<Rightarrow> bool \<times> 'j slip \<times> 's" where
  "saga_run create [] logs s = (True, \<lparr>completed_work_logs = logs, next_work_items = []\<rparr>, s)"
| "saga_run create (item # items) logs s =
     (case done_by create item s of
        (Some log, s) \<Rightarrow> saga_run create items (logs @ [log]) s
      | (None, s) \<Rightarrow>
          (False, \<lparr>completed_work_logs = [], next_work_items = items\<rparr>,
           fold (undone_by create) (rev logs) s))"

locale reliable_activities =
  fixes create :: "('s, 'j) activities" and good :: "'j work_log \<Rightarrow> bool"
  assumes work_returns:
      "\<exists>r s'. act_do_work (create (wi_type item)) item s = Some (r, s') \<and> (\<forall>log. r = Inr (Some log) \<longrightarrow> good log)"
    and undo_returns:
      "good log \<Longrightarrow> \<exists>s'. \<forall>slip. act_compensate (create (wl_type log)) log slip s = Some (Inr True, slip, s')"
begin

lemma undo_step:
  assumes "completed_work_logs slip = logs @ [log]" and "good log"
  shows "undo_last create slip s
    = Some (Inr True, slip\<lparr>completed_work_logs := logs\<rparr>, undone_by create log s)"
proof -
  from undo_returns [OF assms(2), of s] obtain s' where
    "\<And>slip. act_compensate (create (wl_type log)) log slip s = Some (Inr True, slip, s')" by blast
  with assms(1) show ?thesis by (simp add: undo_last_def is_in_progress_def undone_by_def)
qed

lemma undo_all_good:
  assumes "list_all good logs" and "completed_work_logs slip = logs"
  shows "undo_all create slip s
    = Some (Inr (), slip\<lparr>completed_work_logs := []\<rparr>, fold (undone_by create) (rev logs) s)"
  using assms
proof (induction logs arbitrary: slip s rule: rev_induct)
  case Nil
  then show ?case by (subst undo_all.simps) (simp add: is_in_progress_def)
next
  case (snoc log logs)
  let ?slip = "slip\<lparr>completed_work_logs := logs\<rparr>"
  have step: "undo_last create slip s = Some (Inr True, ?slip, undone_by create log s)"
    using snoc.prems by (intro undo_step) simp_all
  have "undo_all create ?slip (undone_by create log s)
    = Some (Inr (), slip\<lparr>completed_work_logs := []\<rparr>, fold (undone_by create) (rev logs) (undone_by create log s))"
    using snoc.IH [of ?slip "undone_by create log s"] snoc.prems by simp
  moreover have "is_in_progress slip" using snoc.prems by (simp add: is_in_progress_def)
  ultimately show ?case using step by (subst undo_all.simps) simp
qed

lemma next_step:
  assumes "next_work_items slip = item # items"
  shows "case done_by create item s of
      (Some log, s') \<Rightarrow> good log \<and> process_next create slip s
        = Some (Inr True, add_completed_work_log (slip\<lparr>next_work_items := items\<rparr>) log, s')
    | (None, s') \<Rightarrow> process_next create slip s = Some (Inr False, slip\<lparr>next_work_items := items\<rparr>, s')"
proof -
  from work_returns [of item s] obtain r s' where
    "act_do_work (create (wi_type item)) item s = Some (r, s')" "\<forall>log. r = Inr (Some log) \<longrightarrow> good log" by blast
  note work = this
  show ?thesis
  proof (cases r)
    case (Inl e)
    with work assms show ?thesis by (simp add: process_next_def done_by_def Let_def)
  next
    case (Inr l)
    with work assms show ?thesis by (cases l) (simp_all add: process_next_def done_by_def Let_def)
  qed
qed

lemma run_slip_good:
  assumes "list_all good (completed_work_logs slip)"
  shows "run_slip create slip s
    = Some (map_prod Inr id (saga_run create (next_work_items slip) (completed_work_logs slip) s))"
  using assms
proof (induction "next_work_items slip" arbitrary: slip s)
  case Nil
  then have "slip = \<lparr>completed_work_logs = completed_work_logs slip, next_work_items = []\<rparr>" by simp
  with Nil show ?case by (subst run_slip.simps) (simp add: is_completed_def)
next
  case (Cons item items)
  note items = Cons.hyps(2) [symmetric]
  obtain l s' where d: "done_by create item s = (l, s')" by (cases "done_by create item s")
  show ?case
  proof (cases l)
    case None
    with next_step [OF items, of s] d
    have n: "process_next create slip s = Some (Inr False, slip\<lparr>next_work_items := items\<rparr>, s')" by simp
    with None d items Cons.prems show ?thesis
      by (subst run_slip.simps) (simp add: is_completed_def undo_all_good [OF Cons.prems])
  next
    case (Some log)
    let ?slip = "add_completed_work_log (slip\<lparr>next_work_items := items\<rparr>) log"
    from Some next_step [OF items, of s] d
    have n: "process_next create slip s = Some (Inr True, ?slip, s')" and g: "good log" by simp_all
    have "run_slip create ?slip s'
      = Some (map_prod Inr id (saga_run create items (completed_work_logs slip @ [log]) s'))"
      using Cons.hyps(1) [of ?slip s'] Cons.prems g by (simp add: add_completed_work_log_def)
    with n Some d items show ?thesis
      by (subst run_slip.simps) (simp add: is_completed_def)
  qed
qed

end

subsection \<open>The hosts\<close>

text \<open>
  The transport: a queue by its address, and what is sent is in it. The state of the activities is
  beside the messages sent; \<open>consumer\<close> is the host that listens to a queue.
\<close>

definition lifted :: "('s, 'j) activities \<Rightarrow> ('s \<times> (string \<times> 'j slip) list, 'j) activities" where
  "lifted create t =
     (let act = create t in
      \<lparr>act_do_work = \<lambda>item (s, mail). map_option (\<lambda>(r, s). (r, s, mail)) (act_do_work act item s),
       act_compensate = \<lambda>log slip (s, mail).
         map_option (\<lambda>(r, slip, s). (r, slip, s, mail)) (act_compensate act log slip s),
       act_work_address = act_work_address act,
       act_compensation_address = act_compensation_address act,
       act_type = act_type act,
       act_type_name = act_type_name act\<rparr>)"

definition mailbox :: "('s \<times> (string \<times> 'j slip) list, 'j) sender" where
  "mailbox uri slip = (\<lambda>(s, mail). Some (Inr (), s, mail @ [(uri, slip)]))"

fun deliver ::
  "nat \<Rightarrow> (string \<Rightarrow> activity_type option) \<Rightarrow> ('s, 'j) activities \<Rightarrow> string \<Rightarrow> 'j slip \<Rightarrow> 's
    \<Rightarrow> ('j slip \<times> 's) option" where
  "deliver 0 consumer create uri slip s = None"
| "deliver (Suc n) consumer create uri slip s =
     (case consumer uri of
        None \<Rightarrow> None
      | Some host \<Rightarrow>
          (case accept_message (lifted create) mailbox host uri slip (s, []) of
             Some (Inr True, slip, s, mail) \<Rightarrow>
               (case mail of
                  [] \<Rightarrow> Some (slip, s)
                | [(uri, slip)] \<Rightarrow> deliver n consumer create uri slip s
                | _ \<Rightarrow> None)
           | _ \<Rightarrow> None))"

text \<open>Every queue has a host, and no queue is both of work and of compensation.\<close>

definition queues_apart :: "(string \<Rightarrow> activity_type option) \<Rightarrow> ('s, 'j) activities \<Rightarrow> bool" where
  "queues_apart consumer create \<longleftrightarrow>
     (\<forall>t. (\<exists>host. consumer (act_work_address (create t)) = Some host
             \<and> act_work_address (create host) = act_work_address (create t))
        \<and> (\<exists>host. consumer (act_compensation_address (create t)) = Some host
             \<and> act_compensation_address (create host) = act_compensation_address (create t))
        \<and> (\<forall>u. act_work_address (create t) \<noteq> act_compensation_address (create u)))"

lemma lifted_addresses [simp]:
  "act_work_address (lifted create t) = act_work_address (create t)"
  "act_compensation_address (lifted create t) = act_compensation_address (create t)"
  by (simp_all add: lifted_def Let_def)

lemma lifted_uris [simp]:
  "progress_uri (lifted create) slip = progress_uri create slip"
  "compensation_uri (lifted create) slip = compensation_uri create slip"
  by (simp_all add: progress_uri_def compensation_uri_def split: list.split)

lemma lifted_next:
  "process_next (lifted create) slip (s, mail)
    = map_option (\<lambda>(r, slip, s). (r, slip, s, mail)) (process_next create slip s)"
  by (auto simp: process_next_def lifted_def Let_def split: list.splits option.splits sum.splits)

lemma lifted_undo:
  "undo_last (lifted create) slip (s, mail)
    = map_option (\<lambda>(r, slip, s). (r, slip, s, mail)) (undo_last create slip s)"
  by (auto simp: undo_last_def lifted_def Let_def split: option.splits)

context reliable_activities
begin

lemma deliver_backward:
  assumes "queues_apart consumer create"
  shows "completed_work_logs slip = logs @ [log] \<Longrightarrow> list_all good (logs @ [log]) \<Longrightarrow> length logs < n
    \<Longrightarrow> deliver n consumer create (act_compensation_address (create (wl_type log))) slip s
      = Some (slip\<lparr>completed_work_logs := []\<rparr>, fold (undone_by create) (rev (logs @ [log])) s)"
proof (induction logs arbitrary: slip log s n rule: rev_induct)
  case Nil
  then obtain m where n: "n = Suc m" by (cases n) auto
  from assms obtain host where host: "consumer (act_compensation_address (create (wl_type log))) = Some host"
    "act_compensation_address (create host) = act_compensation_address (create (wl_type log))"
    unfolding queues_apart_def by blast
  from Nil undo_step [of slip "[]" log s] host n show ?case
    by (simp add: accept_message_def Let_def process_backward_message_def lifted_undo is_in_progress_def
        compensation_uri_def send_if_def)
next
  case (snoc l logs)
  then obtain m where n: "n = Suc m" by (cases n) auto
  from assms obtain host where host: "consumer (act_compensation_address (create (wl_type log))) = Some host"
    "act_compensation_address (create host) = act_compensation_address (create (wl_type log))"
    unfolding queues_apart_def by blast
  have step: "undo_last create slip s
      = Some (Inr True, slip\<lparr>completed_work_logs := logs @ [l]\<rparr>, undone_by create log s)"
    using snoc.prems by (intro undo_step) simp_all
  have "deliver m consumer create (act_compensation_address (create (wl_type l)))
      (slip\<lparr>completed_work_logs := logs @ [l]\<rparr>) (undone_by create log s)
    = Some (slip\<lparr>completed_work_logs := []\<rparr>, fold (undone_by create) (rev (logs @ [l])) (undone_by create log s))"
    using snoc.IH [of "slip\<lparr>completed_work_logs := logs @ [l]\<rparr>" l m "undone_by create log s"] snoc.prems n by simp
  with step host n snoc.prems show ?case
    by (simp add: accept_message_def Let_def process_backward_message_def lifted_undo is_in_progress_def
        compensation_uri_def send_if_def mailbox_def)
qed

lemma deliver_forward:
  assumes queues: "queues_apart consumer create"
  shows "next_work_items slip = item # items \<Longrightarrow> list_all good (completed_work_logs slip)
    \<Longrightarrow> length items + length items + length (completed_work_logs slip) + 2 \<le> n
    \<Longrightarrow> deliver n consumer create (act_work_address (create (wi_type item))) slip s
      = Some (snd (saga_run create (item # items) (completed_work_logs slip) s))"
proof (induction items arbitrary: item slip s n)
  case Nil
  then obtain m where n: "n = Suc m" by (cases n) auto
  from queues obtain host where host: "consumer (act_work_address (create (wi_type item))) = Some host"
    "act_work_address (create host) = act_work_address (create (wi_type item))"
    "act_compensation_address (create host) \<noteq> act_work_address (create (wi_type item))"
    unfolding queues_apart_def by metis
  obtain l s' where d: "done_by create item s = (l, s')" by (cases "done_by create item s")
  show ?case
  proof (cases l)
    case (Some log)
    with next_step [OF Nil(1), of s] d Nil host n show ?thesis
      by (simp add: accept_message_def Let_def process_forward_message_def lifted_next is_completed_def
          progress_uri_def send_if_def add_completed_work_log_def)
  next
    case None
    show ?thesis
    proof (cases "completed_work_logs slip" rule: rev_cases)
      case Nil': Nil
      with None next_step [OF Nil(1), of s] d Nil host n show ?thesis
        by (simp add: accept_message_def Let_def process_forward_message_def lifted_next is_completed_def
            compensation_uri_def send_if_def)
    next
      case (snoc logs log)
      have "deliver m consumer create (act_compensation_address (create (wl_type log))) (slip\<lparr>next_work_items := []\<rparr>) s'
        = Some (slip\<lparr>next_work_items := [], completed_work_logs := []\<rparr>, fold (undone_by create) (rev (logs @ [log])) s')"
        using deliver_backward [OF queues, of "slip\<lparr>next_work_items := []\<rparr>" logs log m s'] Nil n snoc by simp
      with None snoc next_step [OF Nil(1), of s] d Nil host n show ?thesis
        by (simp add: accept_message_def Let_def process_forward_message_def lifted_next is_completed_def
            compensation_uri_def send_if_def mailbox_def)
    qed
  qed
next
  case (Cons item' items)
  then obtain m where n: "n = Suc m" by (cases n) auto
  from queues obtain host where host: "consumer (act_work_address (create (wi_type item))) = Some host"
    "act_work_address (create host) = act_work_address (create (wi_type item))"
    "act_compensation_address (create host) \<noteq> act_work_address (create (wi_type item))"
    unfolding queues_apart_def by metis
  obtain l s' where d: "done_by create item s = (l, s')" by (cases "done_by create item s")
  show ?case
  proof (cases l)
    case (Some log)
    let ?slip = "slip\<lparr>next_work_items := item' # items, completed_work_logs := completed_work_logs slip @ [log]\<rparr>"
    from next_step [OF Cons.prems(1), of s] d Some have g: "good log"
      and nx: "process_next create slip s = Some (Inr True, ?slip, s')"
      by (simp_all add: add_completed_work_log_def)
    have "deliver m consumer create (act_work_address (create (wi_type item'))) ?slip s'
      = Some (snd (saga_run create (item' # items) (completed_work_logs slip @ [log]) s'))"
      using Cons.IH [of ?slip item' m s'] Cons.prems g n by simp
    with nx Some d Cons.prems host n show ?thesis
      by (simp add: accept_message_def Let_def process_forward_message_def lifted_next is_completed_def
          progress_uri_def send_if_def mailbox_def)
  next
    case None
    show ?thesis
    proof (cases "completed_work_logs slip" rule: rev_cases)
      case Nil
      with None next_step [OF Cons.prems(1), of s] d Cons.prems host n show ?thesis
        by (simp add: accept_message_def Let_def process_forward_message_def lifted_next is_completed_def
            compensation_uri_def send_if_def)
    next
      case (snoc logs log)
      let ?slip = "slip\<lparr>next_work_items := item' # items\<rparr>"
      have "deliver m consumer create (act_compensation_address (create (wl_type log))) ?slip s'
        = Some (?slip\<lparr>completed_work_logs := []\<rparr>, fold (undone_by create) (rev (logs @ [log])) s')"
        using deliver_backward [OF queues, of ?slip logs log m s'] Cons.prems n snoc by simp
      with None snoc next_step [OF Cons.prems(1), of s] d Cons.prems host n show ?thesis
        by (simp add: accept_message_def Let_def process_forward_message_def lifted_next is_completed_def
            compensation_uri_def send_if_def mailbox_def)
    qed
  qed
qed

end

end
