(* ===== verification/Saga_Examples.thy ===== *)
theory Saga_Examples
  imports Saga_Run
begin

section \<open>The activities of a travel booking\<close>

text \<open>
  \<open>crates/saga/src/examples\<close>: the activities the crate ships, with the generator of their reservation
  numbers, and the resolver of \<open>serialization_example.rs\<close>. The state is the three generators, each
  of them an atomic 64-bit word.
\<close>

unbundle bit_operations_syntax

record rngs =
  car_rng :: "64 word"
  hotel_rng :: "64 word"
  flight_rng :: "64 word"

definition rngs_new :: rngs where
  "rngs_new = \<lparr>car_rng = 2, hotel_rng = 1, flight_rng = 3\<rparr>"

definition xorshift :: "64 word \<Rightarrow> 64 word" where
  "xorshift state =
     (let state = state XOR push_bit 13 state;
          state = state XOR drop_bit 7 state
      in state XOR push_bit 17 state)"

definition next_reservation_id :: "64 word \<Rightarrow> i64 \<times> 64 word" where
  "next_reservation_id previous =
     (ucast (xorshift previous mod 100000), xorshift previous)"

definition example_type :: "nat \<Rightarrow> string \<Rightarrow> string \<Rightarrow> activity_type" where
  "example_type n module name =
     \<lparr>at_id = n, at_path = ''ascetic_ddd_saga::examples::'' @ module @ ''::'' @ name\<rparr>"

definition CAR :: activity_type where
  "CAR = example_type 0 ''reserve_car_activity'' ''ReserveCarActivity''"
definition HOTEL :: activity_type where
  "HOTEL = example_type 1 ''reserve_hotel_activity'' ''ReserveHotelActivity''"
definition FLIGHT :: activity_type where
  "FLIGHT = example_type 2 ''reserve_flight_activity'' ''ReserveFlightActivity''"
definition FAILING_FLIGHT :: activity_type where
  "FAILING_FLIGHT = example_type 3 ''reserve_flight_activity'' ''FailingReserveFlightActivity''"

text \<open>The three reservations have one body, over an argument's name and a generator.\<close>

definition reserve ::
  "'j json_ops \<Rightarrow> string \<Rightarrow> (rngs \<Rightarrow> 64 word) \<Rightarrow> (64 word \<Rightarrow> rngs \<Rightarrow> rngs) \<Rightarrow> activity_type
    \<Rightarrow> 'j work_item \<Rightarrow> rngs \<Rightarrow> ((saga_error, 'j work_log option) result \<times> rngs) option" where
  "reserve js argument get put self item s =
     (case dict_get_str js (wi_arguments item) argument of
        Inl e \<Rightarrow> Some (Inl e, s)
      | Inr _ \<Rightarrow>
          let (reservation, rng) = next_reservation_id (get s)
          in Some (Inr (Some \<lparr>wl_type = self,
               wl_result = dict_from [(''reservationId'', SJson (js_of_i64 js reservation))]\<rparr>), put rng s))"

definition cancel ::
  "'j json_ops \<Rightarrow> 'j work_log \<Rightarrow> 'j slip \<Rightarrow> rngs \<Rightarrow> (rngs, 'j, bool) slip_outcome" where
  "cancel js log slip s =
     Some (map_ok (\<lambda>_. True) (dict_get_i64 js (wl_result log) ''reservationId''), slip, s)"

definition reserve_car_activity :: "'j json_ops \<Rightarrow> (rngs, 'j) activity" where
  "reserve_car_activity js =
     \<lparr>act_do_work = reserve js ''vehicleType'' car_rng (\<lambda>r s. s\<lparr>car_rng := r\<rparr>) CAR,
      act_compensate = cancel js,
      act_work_address = ''sb://./carReservations'',
      act_compensation_address = ''sb://./carCancellations'',
      act_type = CAR, act_type_name = Some ''ReserveCarActivity''\<rparr>"

definition reserve_hotel_activity :: "'j json_ops \<Rightarrow> (rngs, 'j) activity" where
  "reserve_hotel_activity js =
     \<lparr>act_do_work = reserve js ''roomType'' hotel_rng (\<lambda>r s. s\<lparr>hotel_rng := r\<rparr>) HOTEL,
      act_compensate = cancel js,
      act_work_address = ''sb://./hotelReservations'',
      act_compensation_address = ''sb://./hotelCancellations'',
      act_type = HOTEL, act_type_name = Some ''ReserveHotelActivity''\<rparr>"

definition reserve_flight_activity :: "'j json_ops \<Rightarrow> (rngs, 'j) activity" where
  "reserve_flight_activity js =
     \<lparr>act_do_work = reserve js ''destination'' flight_rng (\<lambda>r s. s\<lparr>flight_rng := r\<rparr>) FLIGHT,
      act_compensate = cancel js,
      act_work_address = ''sb://./flightReservations'',
      act_compensation_address = ''sb://./flightCancellations'',
      act_type = FLIGHT, act_type_name = Some ''ReserveFlightActivity''\<rparr>"

text \<open>It holds a \<open>ReserveFlightActivity\<close>; what it delegates logs work of that type.\<close>

definition failing_flight_activity :: "'j json_ops \<Rightarrow> (rngs, 'j) activity" where
  "failing_flight_activity js =
     (reserve_flight_activity js)
       \<lparr>act_do_work := (\<lambda>item s.
          case dict_require (wi_arguments item) ''fatzbatz'' of
            Inl e \<Rightarrow> Some (Inl e, s)
          | Inr _ \<Rightarrow> act_do_work (reserve_flight_activity js) item s),
        act_type := FAILING_FLIGHT\<rparr>"

definition example_activities :: "'j json_ops \<Rightarrow> (rngs, 'j) activities" where
  "example_activities js t =
     (if at_id t = 0 then reserve_car_activity js
      else if at_id t = 1 then reserve_hotel_activity js
      else if at_id t = 2 then reserve_flight_activity js
      else failing_flight_activity js)"

definition make_orchestrator_resolver :: map_resolver where
  "make_orchestrator_resolver =
     register (register (register (register map_resolver_new
       ''ReserveCarActivity'' CAR) ''ReserveHotelActivity'' HOTEL)
       ''ReserveFlightActivity'' FLIGHT) ''FailingReserveFlightActivity'' FAILING_FLIGHT"

subsection \<open>They keep the contracts\<close>

definition reserved :: "'j json_ops \<Rightarrow> 'j work_log \<Rightarrow> bool" where
  "reserved js log \<longleftrightarrow> (\<exists>n. dict_get_i64 js (wl_result log) ''reservationId'' = Inr n)"

lemma cancel_reserved: "reserved js log \<Longrightarrow> cancel js log slip s = Some (Inr True, slip, s)"
  by (auto simp: reserved_def cancel_def)

lemma reserve_returns:
  assumes "\<And>n. js_i64 js (js_of_i64 js n) = Some n"
  shows "\<exists>r s'. reserve js argument get put self item s = Some (r, s')
    \<and> (\<forall>log. r = Inr (Some log) \<longrightarrow> reserved js log)"
  using assms
  by (auto simp: reserve_def reserved_def dict_get_i64_def dict_typed_def dict_require_def dict_from_def
      dict_insert_def sv_as_i64_def sv_as_json_def split: sum.splits prod.splits)

lemma examples_reliable:
  assumes "\<And>n. js_i64 js (js_of_i64 js n) = Some n"
  shows "reliable_activities (example_activities js) (reserved js)"
proof
  fix item and s :: rngs
  show "\<exists>r s'. act_do_work (example_activities js (wi_type item)) item s = Some (r, s')
    \<and> (\<forall>log. r = Inr (Some log) \<longrightarrow> reserved js log)"
    using reserve_returns [OF assms]
    by (auto simp: example_activities_def reserve_car_activity_def reserve_hotel_activity_def
        reserve_flight_activity_def failing_flight_activity_def split: sum.split)
next
  fix log and s :: rngs
  assume "reserved js log"
  then show "\<exists>s'. \<forall>slip. act_compensate (example_activities js (wl_type log)) log slip s = Some (Inr True, slip, s')"
    by (auto simp: example_activities_def reserve_car_activity_def reserve_hotel_activity_def
        reserve_flight_activity_def failing_flight_activity_def cancel_reserved)
qed

text \<open>JSON for the instances below: of the data of \<open>serde_json\<close>, what the examples use.\<close>

datatype sample_json = JNull | JBool bool | JInt i64 | JStr string | JArr "sample_json list"

definition sample_js :: "sample_json json_ops" where
  "sample_js =
     \<lparr>js_str = (\<lambda>j. case j of JStr s \<Rightarrow> Some s | _ \<Rightarrow> None),
      js_i64 = (\<lambda>j. case j of JInt i \<Rightarrow> Some i | _ \<Rightarrow> None),
      js_f64 = (\<lambda>j. case j of JInt i \<Rightarrow> Some (int_to_f64 i) | _ \<Rightarrow> None),
      js_bool = (\<lambda>j. case j of JBool b \<Rightarrow> Some b | _ \<Rightarrow> None),
      js_equal = (=), js_null = JNull, js_array = JArr, js_of_i64 = JInt\<rparr>"

interpretation travel: reliable_activities "example_activities sample_js" "reserved sample_js"
  by (rule examples_reliable) (simp add: sample_js_def)

lemma orchestrator_registered:
  "make_orchestrator_resolver = registered
     [(''ReserveCarActivity'', CAR), (''ReserveHotelActivity'', HOTEL),
      (''ReserveFlightActivity'', FLIGHT), (''FailingReserveFlightActivity'', FAILING_FLIGHT)]"
  by (simp add: make_orchestrator_resolver_def registered_def)

lemmas example_types = CAR_def HOTEL_def FLIGHT_def FAILING_FLIGHT_def example_type_def

interpretation orchestrator: faithful_resolver
  "map_based (\<lambda>t. act_type_name (example_activities sample_js t)) make_orchestrator_resolver"
  "\<lambda>t. t \<in> {CAR, HOTEL, FLIGHT, FAILING_FLIGHT}"
  using registered_faithful [of "[(''ReserveCarActivity'', CAR), (''ReserveHotelActivity'', HOTEL),
      (''ReserveFlightActivity'', FLIGHT), (''FailingReserveFlightActivity'', FAILING_FLIGHT)]"]
  unfolding orchestrator_registered by (simp add: example_types)

text \<open>Every queue has the host of its activity; a failing flight is booked where a flight is.\<close>

definition example_hosts :: "string \<Rightarrow> activity_type option" where
  "example_hosts uri =
     (if uri \<in> {''sb://./carReservations'', ''sb://./carCancellations''} then Some CAR
      else if uri \<in> {''sb://./hotelReservations'', ''sb://./hotelCancellations''} then Some HOTEL
      else if uri \<in> {''sb://./flightReservations'', ''sb://./flightCancellations''} then Some FLIGHT
      else None)"

lemma example_addresses:
  "act_work_address (example_activities js t) \<in>
     {''sb://./carReservations'', ''sb://./hotelReservations'', ''sb://./flightReservations''}"
  "act_compensation_address (example_activities js t) \<in>
     {''sb://./carCancellations'', ''sb://./hotelCancellations'', ''sb://./flightCancellations''}"
  by (simp_all add: example_activities_def reserve_car_activity_def reserve_hotel_activity_def
      reserve_flight_activity_def failing_flight_activity_def)

lemma example_queues: "queues_apart example_hosts (example_activities js)"
proof -
  have hosts: "\<exists>host. example_hosts (act_work_address (example_activities js t)) = Some host
      \<and> act_work_address (example_activities js host) = act_work_address (example_activities js t)"
    "\<exists>host. example_hosts (act_compensation_address (example_activities js t)) = Some host
      \<and> act_compensation_address (example_activities js host) = act_compensation_address (example_activities js t)" for t
    by (simp_all add: example_hosts_def example_activities_def reserve_car_activity_def reserve_hotel_activity_def
        reserve_flight_activity_def failing_flight_activity_def example_types)
  have "act_work_address (example_activities js t) \<noteq> act_compensation_address (example_activities js u)" for t u
    using example_addresses(1) [of js t] example_addresses(2) [of js u] by auto
  with hosts show ?thesis unfolding queues_apart_def by blast
qed


section \<open>Sagas inside a saga\<close>

text \<open>
  The slips of a fallback and of a parallel activity, where the activities of those slips act on the
  world and not on the store of the shared slips.
\<close>

definition on_world :: "('w, 'j) activities \<Rightarrow> (('w, 'j) shared_state, 'j) activities" where
  "on_world create t =
     (let act = create t in
      \<lparr>act_do_work = \<lambda>item s.
         map_option (\<lambda>(r, w). (r, s\<lparr>world := w\<rparr>)) (act_do_work act item (world s)),
       act_compensate = \<lambda>log slip s.
         map_option (\<lambda>(r, slip, w). (r, slip, s\<lparr>world := w\<rparr>)) (act_compensate act log slip (world s)),
       act_work_address = act_work_address act,
       act_compensation_address = act_compensation_address act,
       act_type = act_type act,
       act_type_name = act_type_name act\<rparr>)"

lemma on_world_reliable:
  assumes "reliable_activities create good"
  shows "reliable_activities (on_world create) good"
proof
  fix item and s :: "('a, 'b) shared_state"
  from reliable_activities.work_returns [OF assms, of item "world s"] show
    "\<exists>r s'. act_do_work (on_world create (wi_type item)) item s = Some (r, s') \<and> (\<forall>log. r = Inr (Some log) \<longrightarrow> good log)"
    by (auto simp: on_world_def Let_def)
next
  fix log and s :: "('a, 'b) shared_state"
  assume "good log"
  from reliable_activities.undo_returns [OF assms this, of "world s"] show
    "\<exists>s'. \<forall>slip. act_compensate (on_world create (wl_type log)) log slip s = Some (Inr True, slip, s')"
    by (auto simp: on_world_def Let_def)
qed

lemma on_world_done:
  "done_by (on_world create) item s
    = (case done_by create item (world s) of (l, w) \<Rightarrow> (l, s\<lparr>world := w\<rparr>))"
  by (auto simp: done_by_def on_world_def Let_def split: option.split sum.split)

lemma on_world_undone: "undone_by (on_world create) log s = s\<lparr>world := undone_by create log (world s)\<rparr>"
  by (auto simp: undone_by_def on_world_def Let_def split: option.split)

lemma on_world_undone_all:
  "fold (undone_by (on_world create)) logs s = s\<lparr>world := fold (undone_by create) logs (world s)\<rparr>"
  by (induction logs arbitrary: s) (simp_all add: on_world_undone)

lemma on_world_run:
  "saga_run (on_world create) items logs s
    = (case saga_run create items logs (world s) of (ok, slip, w) \<Rightarrow> (ok, slip, s\<lparr>world := w\<rparr>))"
  by (induction items arbitrary: logs s)
    (auto simp: on_world_done on_world_undone_all split: prod.splits option.splits)

context reliable_activities
begin

lemma done_good: "done_by create item s = (Some log, s') \<Longrightarrow> good log"
  using work_returns [of item s] by (auto simp: done_by_def split: option.splits sum.splits)

lemma run_outcome:
  "saga_run create items logs s = (ok, slip, s') \<Longrightarrow> list_all good logs
    \<Longrightarrow> (ok \<longrightarrow> is_completed slip \<and> list_all good (completed_work_logs slip))
      \<and> (\<not> ok \<longrightarrow> completed_work_logs slip = [])"
proof (induction items arbitrary: logs s)
  case (Cons item items)
  then show ?case
    by (auto simp: is_completed_def split: prod.splits option.splits dest: done_good)
qed (auto simp: is_completed_def)

lemma undo_swallowing_good:
  assumes "list_all good logs" and "completed_work_logs slip = logs"
  shows "undo_swallowing create slip s
    = Some (slip\<lparr>completed_work_logs := []\<rparr>, fold (undone_by create) (rev logs) s)"
  using assms
proof (induction logs arbitrary: slip s rule: rev_induct)
  case Nil
  then show ?case by (subst undo_swallowing.simps) (simp add: is_in_progress_def)
next
  case (snoc log logs)
  let ?slip = "slip\<lparr>completed_work_logs := logs\<rparr>"
  have step: "undo_last create slip s = Some (Inr True, ?slip, undone_by create log s)"
    using snoc.prems by (intro undo_step) simp_all
  have "undo_swallowing create ?slip (undone_by create log s)
    = Some (slip\<lparr>completed_work_logs := []\<rparr>, fold (undone_by create) (rev logs) (undone_by create log s))"
    using snoc.IH [of ?slip "undone_by create log s"] snoc.prems by simp
  moreover have "is_in_progress slip" using snoc.prems by (simp add: is_in_progress_def)
  ultimately show ?case using step by (subst undo_swallowing.simps) simp
qed

end

text \<open>The slips at \<open>as\<close> are in the store, unlocked, with good logs.\<close>

definition ready :: "('j work_log \<Rightarrow> bool) \<Rightarrow> nat list \<Rightarrow> ('w, 'j) shared_state \<Rightarrow> bool" where
  "ready good as s \<longleftrightarrow>
     (\<forall>a \<in> set as. \<exists>slip. store s a = Some slip \<and> list_all good (completed_work_logs slip))"

definition slip_at :: "('w, 'j) shared_state \<Rightarrow> nat \<Rightarrow> 'j slip" where
  "slip_at s a = the (store s a)"

lemma execute_outcome:
  assumes reliable: "reliable_activities create good" and "store s a = Some slip"
    and "list_all good (completed_work_logs slip)"
    and run: "saga_run create (next_work_items slip) (completed_work_logs slip) (world s) = (ok, slip', w)"
  shows "execute_alternative (on_world create) a s
      = Some (Inr ok, s\<lparr>world := w, store := (store s)(a \<mapsto> slip')\<rparr>)
    \<and> (ok \<longrightarrow> is_completed slip' \<and> list_all good (completed_work_logs slip'))
    \<and> (\<not> ok \<longrightarrow> completed_work_logs slip' = [])"
proof -
  note nested = reliable_activities.run_slip_good [OF on_world_reliable [OF reliable] assms(3)]
  from reliable_activities.run_outcome [OF reliable run assms(3)] run assms(2) show ?thesis
    by (auto simp: execute_alternative_def with_lock_def nested on_world_run)
qed

lemma execute_branch_alternative: "execute_branch create a = execute_alternative create a"
  by (simp add: fun_eq_iff execute_branch_def execute_alternative_def)

text \<open>The alternatives in order, until one succeeds.\<close>

lemma alternatives_outcome:
  assumes "reliable_activities create good"
  shows "distinct as \<Longrightarrow> ready good as s \<Longrightarrow>
    \<exists>r s'. try_alternatives (on_world create) as s = Some (Inr r, s')
      \<and> (\<forall>b. b \<notin> set as \<longrightarrow> store s' b = store s b)
      \<and> (\<forall>pre a post. as = pre @ a # post \<and> r = Some a \<longrightarrow>
           (\<forall>b \<in> set pre. completed_work_logs (slip_at s' b) = [])
           \<and> store s' a = Some (slip_at s' a) \<and> is_completed (slip_at s' a)
           \<and> list_all good (completed_work_logs (slip_at s' a))
           \<and> (\<forall>b \<in> set post. store s' b = store s b))
      \<and> (r = None \<longrightarrow> (\<forall>b \<in> set as. completed_work_logs (slip_at s' b) = []))
      \<and> (\<forall>a. r = Some a \<longrightarrow> a \<in> set as)"
proof (induction as arbitrary: s)
  case (Cons a as)
  from Cons.prems obtain slip where slip: "store s a = Some slip" "list_all good (completed_work_logs slip)"
    by (auto simp: ready_def)
  obtain ok slip' w where
    work: "saga_run create (next_work_items slip) (completed_work_logs slip) (world s) = (ok, slip', w)"
    by (rule prod_cases3)
  have
    run: "execute_alternative (on_world create) a s = Some (Inr ok, s\<lparr>world := w, store := (store s)(a \<mapsto> slip')\<rparr>)"
    and ok: "ok \<Longrightarrow> is_completed slip' \<and> list_all good (completed_work_logs slip')"
    and failed: "\<not> ok \<Longrightarrow> completed_work_logs slip' = []"
    using execute_outcome [OF assms slip work] by blast+
  let ?s = "s\<lparr>world := w, store := (store s)(a \<mapsto> slip')\<rparr>"
  show ?case
  proof (cases ok)
    case True
    show ?thesis
    proof (intro exI conjI)
      show "try_alternatives (on_world create) (a # as) s = Some (Inr (Some a), ?s)" using run True by simp
      show "\<forall>pre b post. a # as = pre @ b # post \<and> Some a = Some b \<longrightarrow>
           (\<forall>c \<in> set pre. completed_work_logs (slip_at ?s c) = [])
           \<and> store ?s b = Some (slip_at ?s b) \<and> is_completed (slip_at ?s b) \<and> list_all good (completed_work_logs (slip_at ?s b))
           \<and> (\<forall>c \<in> set post. store ?s c = store s c)"
        using Cons.prems(1) ok [OF True] by (auto simp: slip_at_def Cons_eq_append_conv)
    qed auto
  next
    case False
    have "ready good as ?s" using Cons.prems by (auto simp: ready_def)
    from Cons.IH [OF _ this] Cons.prems(1) obtain r s' where
      rest: "try_alternatives (on_world create) as ?s = Some (Inr r, s')"
      and frame: "\<And>b. b \<notin> set as \<Longrightarrow> store s' b = store ?s b"
      and won: "\<And>pre b post. as = pre @ b # post \<Longrightarrow> r = Some b \<Longrightarrow>
           (\<forall>c \<in> set pre. completed_work_logs (slip_at s' c) = [])
           \<and> store s' b = Some (slip_at s' b) \<and> is_completed (slip_at s' b) \<and> list_all good (completed_work_logs (slip_at s' b))
           \<and> (\<forall>c \<in> set post. store s' c = store ?s c)"
      and lost: "r = None \<Longrightarrow> \<forall>b \<in> set as. completed_work_logs (slip_at s' b) = []"
      and among: "\<And>b. r = Some b \<Longrightarrow> b \<in> set as"
      by auto
    have a: "completed_work_logs (slip_at s' a) = []"
      using frame [of a] Cons.prems(1) failed [OF False] by (simp add: slip_at_def)
    show ?thesis
    proof (intro exI conjI)
      show "try_alternatives (on_world create) (a # as) s = Some (Inr r, s')" using run False rest by simp
      show "\<forall>b. b \<notin> set (a # as) \<longrightarrow> store s' b = store s b" using frame by simp
      show "r = None \<longrightarrow> (\<forall>b \<in> set (a # as). completed_work_logs (slip_at s' b) = [])" using lost a by simp
      show "\<forall>b. r = Some b \<longrightarrow> b \<in> set (a # as)" using among by simp
      show "\<forall>pre b post. a # as = pre @ b # post \<and> r = Some b \<longrightarrow>
           (\<forall>c \<in> set pre. completed_work_logs (slip_at s' c) = [])
           \<and> store s' b = Some (slip_at s' b) \<and> is_completed (slip_at s' b) \<and> list_all good (completed_work_logs (slip_at s' b))
           \<and> (\<forall>c \<in> set post. store s' c = store s c)"
      proof (intro allI impI)
        fix pre b post
        assume split: "a # as = pre @ b # post \<and> r = Some b"
        with among have "b \<in> set as" by blast
        with Cons.prems(1) have "b \<noteq> a" by auto
        with split obtain pre' where pre: "pre = a # pre'" "as = pre' @ b # post"
          by (cases pre) auto
        from won [OF pre(2)] split pre a Cons.prems(1)
        show "(\<forall>c \<in> set pre. completed_work_logs (slip_at s' c) = [])
           \<and> store s' b = Some (slip_at s' b) \<and> is_completed (slip_at s' b) \<and> list_all good (completed_work_logs (slip_at s' b))
           \<and> (\<forall>c \<in> set post. store s' c = store s c)"
          by auto
      qed
    qed
  qed
qed simp

text \<open>
  The branches in order, each run to its end or undone, and the undoing of what they did, written on the
  store and the world alone.
\<close>

fun branches_run :: "('w, 'j) activities \<Rightarrow> nat list \<Rightarrow> ('w, 'j) shared_state \<Rightarrow> bool list \<times> ('w, 'j) shared_state" where
  "branches_run create [] s = ([], s)"
| "branches_run create (a # as) s =
    (case saga_run create (next_work_items (slip_at s a)) (completed_work_logs (slip_at s a)) (world s) of
       (ok, slip, w) \<Rightarrow>
         (case branches_run create as (s\<lparr>world := w, store := (store s)(a \<mapsto> slip)\<rparr>) of (oks, s') \<Rightarrow> (ok # oks, s')))"

fun branches_undone :: "('w, 'j) activities \<Rightarrow> nat list \<Rightarrow> ('w, 'j) shared_state \<Rightarrow> ('w, 'j) shared_state" where
  "branches_undone create [] s = s"
| "branches_undone create (a # as) s = branches_undone create as
    (s\<lparr>world := fold (undone_by create) (rev (completed_work_logs (slip_at s a))) (world s),
       store := (store s)(a \<mapsto> (slip_at s a)\<lparr>completed_work_logs := []\<rparr>)\<rparr>)"

text \<open>The branches, each with its result.\<close>

lemma branches_outcome:
  assumes "reliable_activities create good"
  shows "distinct as \<Longrightarrow> ready good as s \<Longrightarrow> branches_run create as s = (oks, s') \<Longrightarrow>
    join_all (map (execute_branch (on_world create)) as) s = Some (map Inr oks, s')
      \<and> ready good as s' \<and> (\<forall>b. b \<notin> set as \<longrightarrow> store s' b = store s b)
      \<and> list_all2 (\<lambda>ok a. ok \<longrightarrow> is_completed (slip_at s' a)) oks as"
proof (induction as arbitrary: s oks)
  case (Cons a as)
  from Cons.prems(2) obtain slip where slip: "store s a = Some slip" "list_all good (completed_work_logs slip)"
    by (auto simp: ready_def)
  obtain ok slip' w where
    work: "saga_run create (next_work_items slip) (completed_work_logs slip) (world s) = (ok, slip', w)"
    by (rule prod_cases3)
  let ?s = "s\<lparr>world := w, store := (store s)(a \<mapsto> slip')\<rparr>"
  have run: "execute_alternative (on_world create) a s = Some (Inr ok, ?s)"
    and ok: "ok \<longrightarrow> is_completed slip'" and logs: "list_all good (completed_work_logs slip')"
    using execute_outcome [OF assms slip work] by (cases ok; simp)+
  obtain rest where rest: "branches_run create as ?s = (rest, s')" and oks: "oks = ok # rest"
    using Cons.prems(3) slip(1) work by (auto simp: slip_at_def split: prod.splits)
  have "ready good as ?s" using Cons.prems by (auto simp: ready_def)
  with Cons.prems(1) Cons.IH [OF _ _ rest] have
    facts: "join_all (map (execute_branch (on_world create)) as) ?s = Some (map Inr rest, s')" "ready good as s'"
      "list_all2 (\<lambda>ok a. ok \<longrightarrow> is_completed (slip_at s' a)) rest as"
    and frame: "\<And>b. b \<notin> set as \<Longrightarrow> store s' b = store ?s b" by auto
  have a: "store s' a = Some slip'" using frame [of a] Cons.prems(1) by simp
  have "join_all (map (execute_branch (on_world create)) (a # as)) s = Some (map Inr oks, s')"
    using run facts(1) by (simp add: execute_branch_alternative oks)
  moreover have "ready good (a # as) s'" using facts(2) a logs by (auto simp: ready_def)
  moreover have "list_all2 (\<lambda>ok a. ok \<longrightarrow> is_completed (slip_at s' a)) oks (a # as)"
    using facts(3) a ok by (simp add: slip_at_def oks)
  ultimately show ?case using frame by simp
qed simp

lemma compensate_branches_outcome:
  assumes "reliable_activities create good"
  shows "distinct as \<Longrightarrow> ready good as s \<Longrightarrow>
    compensate_branches (on_world create) as s = Some (branches_undone create as s)
      \<and> (\<forall>b. b \<notin> set as \<longrightarrow> store (branches_undone create as s) b = store s b)
      \<and> (\<forall>b \<in> set as. completed_work_logs (slip_at (branches_undone create as s) b) = [])"
proof (induction as arbitrary: s)
  case (Cons a as)
  from Cons.prems obtain slip where slip: "store s a = Some slip" "list_all good (completed_work_logs slip)"
    by (auto simp: ready_def)
  note undo = reliable_activities.undo_swallowing_good [OF on_world_reliable [OF assms] slip(2) refl]
  let ?s = "s\<lparr>world := fold (undone_by create) (rev (completed_work_logs slip)) (world s),
    store := (store s)(a \<mapsto> slip\<lparr>completed_work_logs := []\<rparr>)\<rparr>"
  have one: "compensate_branch (on_world create) a s = Some ((), ?s)"
    using slip(1) by (simp add: compensate_branch_def with_lock_def undo on_world_undone_all)
  have undone: "branches_undone create (a # as) s = branches_undone create as ?s"
    using slip(1) by (simp add: slip_at_def)
  have "ready good as ?s" using Cons.prems by (auto simp: ready_def)
  from Cons.IH [OF _ this] Cons.prems(1) have
    rest: "compensate_branches (on_world create) as ?s = Some (branches_undone create as ?s)"
    and frame: "\<And>b. b \<notin> set as \<Longrightarrow> store (branches_undone create as ?s) b = store ?s b"
    and clear: "\<forall>b \<in> set as. completed_work_logs (slip_at (branches_undone create as ?s) b) = []" by auto
  have "completed_work_logs (slip_at (branches_undone create as ?s) a) = []"
    using frame [of a] Cons.prems(1) by (simp add: slip_at_def)
  moreover have "compensate_branches (on_world create) (a # as) s = Some (branches_undone create as ?s)"
    using one rest by (auto simp: compensate_branches_def split: option.splits prod.splits)
  ultimately show ?case unfolding undone using frame clear by auto
qed (simp add: compensate_branches_def)

end
