(* ===== verification/Saga_Properties.thy ===== *)
theory Saga_Properties
  imports Saga_Examples
begin

section \<open>Properties of sagas\<close>

text \<open>
  The properties of slips, hosts, the form on the wire and parallel activities, with the travel booking and
  a saga inside a saga as their examples.
\<close>

definition sample_item :: "activity_type \<Rightarrow> string \<Rightarrow> sample_json work_item" where
  "sample_item t argument =
     \<lparr>wi_type = t, wi_arguments = dict_from [(argument, SJson (JStr ''x''))]\<rparr>"

definition sample_trip :: "sample_json slip" where
  "sample_trip = slip_new [sample_item CAR ''vehicleType'', sample_item HOTEL ''roomType'',
     sample_item FAILING_FLIGHT ''destination'']"

lemma progress_uri_first:
  "next_work_items slip = item # items
    \<Longrightarrow> progress_uri create slip = Some (act_work_address (create (wi_type item)))"
  by (simp add: progress_uri_def)

text \<open>
  C15: A slip is run to its end: work item by item, and from the first item that fails every
  completed work is undone, the latest first, nothing else being done; and the run returns, where
  activities return and compensation leaves the slip as it is.
\<close>

theorem slip_runs_or_is_undone:
  assumes "reliable_activities create good" and "list_all good (completed_work_logs slip)"
  shows "run_slip create slip s
    = Some (map_prod Inr id (saga_run create (next_work_items slip) (completed_work_logs slip) s))"
  using assms by (rule reliable_activities.run_slip_good)

theorem slip_runs_or_is_undone_witness:
  "run_slip (example_activities sample_js) sample_trip rngs_new
    = Some (map_prod Inr id (saga_run (example_activities sample_js) (next_work_items sample_trip)
        (completed_work_logs sample_trip) rngs_new))"
  by (rule slip_runs_or_is_undone [OF travel.reliable_activities_axioms])
    (simp add: sample_trip_def slip_new_def)

text \<open>
  A host whose compensation reports \<open>false\<close> sends the slip forward again, to its next item; the loop over
  the slip does not look at what the compensation reports, and goes on undoing. The answer of the
  sender, failures too, is the host's.
\<close>

lemma host_resumes_forward:
  assumes "undo_last create slip s = Some (Inr False, slip', s')" "is_in_progress slip"
    and "act_compensation_address (create host) = uri" "progress_uri create slip' = Some forward"
  shows "accept_message create sender host uri slip s
    = map_option (\<lambda>(sent, s). (map_ok (\<lambda>_. True) sent, slip', s)) (sender forward slip' s')"
  using assms
  by (cases "sender forward slip' s'") (auto simp: accept_message_def process_backward_message_def send_if_def)

text \<open>
  C16: Hosts that pass the slip to one another by messages, each doing one step of it, come to the
  slip and the state the loop over the slip comes to, and send nothing more; two messages to an
  item are enough. This is for activities that return, whose compensation reports \<open>true\<close> and leaves the
  slip as it is, for queues of work and of compensation that are apart, and for messages that are all
  sent and delivered: where a compensation reports \<open>false\<close>, the hosts go forward again and the loop does
  not, by the lemma above.
\<close>

theorem hosts_run_the_saga:
  assumes "reliable_activities create good" and "queues_apart consumer create"
    and "list_all good (completed_work_logs slip)" and "progress_uri create slip = Some uri"
    and "2 * length (next_work_items slip) + length (completed_work_logs slip) \<le> n"
  shows "deliver n consumer create uri slip s = map_option snd (run_slip create slip s)"
proof (cases "next_work_items slip")
  case Nil
  with assms(4) show ?thesis by (simp add: progress_uri_def)
next
  case (Cons item items)
  with assms(4) have "uri = act_work_address (create (wi_type item))" by (simp add: progress_uri_def)
  with reliable_activities.deliver_forward [OF assms(1,2) Cons assms(3), of n s] assms(5) Cons
    reliable_activities.run_slip_good [OF assms(1,3), of s]
  show ?thesis by simp
qed

theorem hosts_run_the_saga_witness:
  "deliver 6 example_hosts (example_activities sample_js) ''sb://./carReservations'' sample_trip rngs_new
    = map_option snd (run_slip (example_activities sample_js) sample_trip rngs_new)"
  by (rule hosts_run_the_saga [OF travel.reliable_activities_axioms example_queues])
    (simp_all add: sample_trip_def slip_new_def progress_uri_def sample_item_def example_activities_def
      reserve_car_activity_def example_types)

text \<open>
  C17: A slip goes over the wire and comes back as it was, in the services whose resolvers registered
  the types of its activities, one name to a type and one type to a name.
\<close>

theorem slip_survives_the_wire:
  assumes "distinct (map fst entries)" and "distinct (map (at_id \<circ> snd) entries)"
    and "list_all (\<lambda>i. wi_type i \<in> snd ` set entries) (next_work_items slip)"
    and "list_all (\<lambda>l. wl_type l \<in> snd ` set entries) (completed_work_logs slip)"
  shows "\<exists>wire. to_serializable slip (map_based type_name (registered entries)) = Inr wire
    \<and> from_serializable wire (map_based type_name (registered entries)) = Inr slip"
  by (rule faithful_resolver.slip_restored [OF registered_faithful [OF assms(1,2)] assms(3,4)])

theorem slip_survives_the_wire_witness:
  "\<exists>wire. to_serializable sample_trip (map_based (\<lambda>_. None) (registered
       [(''Car'', CAR), (''Hotel'', HOTEL), (''Failing'', FAILING_FLIGHT)])) = Inr wire
    \<and> from_serializable wire (map_based (\<lambda>_. None) (registered
       [(''Car'', CAR), (''Hotel'', HOTEL), (''Failing'', FAILING_FLIGHT)])) = Inr sample_trip"
  by (rule slip_survives_the_wire)
    (simp_all add: example_types sample_trip_def slip_new_def sample_item_def)

text \<open>
  A name registered again for another type is still given for the first type, and resolved to
  the second: an item of the one type comes off the wire as an item of the other.
\<close>

theorem renamed_type_changes_on_the_wire:
  assumes "at_id t \<noteq> at_id u"
    and "resolver = map_based type_name (register (register map_resolver_new name t) name u)"
  shows "\<exists>wire. to_serializable (slip_new [\<lparr>wi_type = t, wi_arguments = d\<rparr>]) resolver = Inr wire
    \<and> from_serializable wire resolver = Inr (slip_new [\<lparr>wi_type = u, wi_arguments = d\<rparr>])"
  using assms
  by (simp add: to_serializable_def from_serializable_def slip_new_def map_based_def map_get_name_def
      map_resolve_def register_def add_work_item_def)

theorem renamed_type_changes_on_the_wire_witness:
  "\<exists>wire. to_serializable (slip_new [sample_item FLIGHT ''destination''])
       (map_based (\<lambda>_. None) (register (register map_resolver_new ''F'' FLIGHT) ''F'' FAILING_FLIGHT)) = Inr wire
    \<and> from_serializable wire
       (map_based (\<lambda>_. None) (register (register map_resolver_new ''F'' FLIGHT) ''F'' FAILING_FLIGHT))
      = Inr (slip_new [sample_item FAILING_FLIGHT ''destination''])"
  unfolding sample_item_def
  by (rule renamed_type_changes_on_the_wire) (simp_all add: example_types)

subsection \<open>Sagas inside a saga\<close>

lemma fallback_arguments_read:
  "dict_get_any as_slips n (fallback_arguments x as) ALTERNATIVES = Inr as"
  by (simp add: dict_get_any_def dict_typed_def dict_require_def fallback_arguments_def dict_from_def
      dict_insert_def sv_downcast_def as_slips_def)

lemma succeeded_read:
  "dict_get_any as_slip n (dict_from [(SUCCEEDED, SAny x (OSlip a))]) SUCCEEDED = Inr a"
  by (simp add: dict_get_any_def dict_typed_def dict_require_def dict_from_def dict_insert_def
      sv_downcast_def as_slip_def)

lemma parallel_arguments_read:
  "dict_get_any as_slips n (parallel_arguments x as) BRANCHES = Inr as"
  by (simp add: dict_get_any_def dict_typed_def dict_require_def parallel_arguments_def dict_from_def
      dict_insert_def sv_downcast_def as_slips_def)

lemma fallback_compensation:
  assumes "reliable_activities create good" and "store s a = Some inner"
    and "list_all good (completed_work_logs inner)"
    and "wl_result log = dict_from [(SUCCEEDED, SAny x (OSlip a))]"
  shows "\<exists>s'. fallback_compensate (on_world create) names log slip s = Some (Inr True, slip, s')
    \<and> completed_work_logs (slip_at s' a) = []"
  using assms(2) reliable_activities.undo_all_good [OF on_world_reliable [OF assms(1)] assms(3) refl]
  by (simp add: fallback_compensate_def assms(4) succeeded_read with_lock_def on_world_undone_all slip_at_def)

text \<open>
  The fallback activity succeeds with the first alternative that does: the ones before it were
  undone, it is done to its end, the ones after it were not touched, and compensation undoes it;
  if it fails, every alternative was undone.
\<close>

theorem fallback_keeps_one_alternative:
  assumes "reliable_activities create good" and "distinct as" and "ready good as s"
    and "wi_arguments item = fallback_arguments x as"
  shows "\<exists>r s'. fallback_do_work (on_world create) names fresh self item s = Some (Inr r, s') \<and>
    (case r of
       None \<Rightarrow> list_all (\<lambda>b. completed_work_logs (slip_at s' b) = []) as
     | Some log \<Rightarrow> \<exists>pre a post. as = pre @ a # post
         \<and> list_all (\<lambda>b. completed_work_logs (slip_at s' b) = []) pre
         \<and> is_completed (slip_at s' a)
         \<and> list_all (\<lambda>b. store s' b = store s b) post
         \<and> (\<exists>s''. fallback_compensate (on_world create) names log slip s' = Some (Inr True, slip, s'')
              \<and> completed_work_logs (slip_at s'' a) = []))"
proof -
  from alternatives_outcome [OF assms(1-3)] obtain r s' where
    run: "try_alternatives (on_world create) as s = Some (Inr r, s')"
    and frame: "\<And>b. b \<notin> set as \<Longrightarrow> store s' b = store s b"
    and won: "\<And>pre a post. as = pre @ a # post \<Longrightarrow> r = Some a \<Longrightarrow>
           (\<forall>b \<in> set pre. completed_work_logs (slip_at s' b) = [])
           \<and> store s' a = Some (slip_at s' a) \<and> is_completed (slip_at s' a) \<and> list_all good (completed_work_logs (slip_at s' a))
           \<and> (\<forall>b \<in> set post. store s' b = store s b)"
    and lost: "r = None \<Longrightarrow> \<forall>b \<in> set as. completed_work_logs (slip_at s' b) = []"
    and among: "\<And>a. r = Some a \<Longrightarrow> a \<in> set as"
    by blast
  have work: "fallback_do_work (on_world create) names fresh self item s = Some (Inr (map_option (\<lambda>a.
      \<lparr>wl_type = self, wl_result = dict_from [(SUCCEEDED, SAny (fresh s') (OSlip a))]\<rparr>) r), s')"
    by (simp add: fallback_do_work_def assms(4) fallback_arguments_read run)
  show ?thesis
  proof (cases r)
    case None
    with work lost show ?thesis by (simp add: list_all_iff)
  next
    case (Some a)
    from among [OF Some] obtain pre post where split: "as = pre @ a # post" by (meson split_list)
    note facts = won [OF split Some]
    let ?log = "\<lparr>wl_type = self, wl_result = dict_from [(SUCCEEDED, SAny (fresh s') (OSlip a))]\<rparr>"
    have "\<exists>s''. fallback_compensate (on_world create) names ?log slip s' = Some (Inr True, slip, s'')
        \<and> completed_work_logs (slip_at s'' a) = []"
      using facts by (intro fallback_compensation [OF assms(1), where inner = "slip_at s' a" and x = "fresh s'"]) (blast, blast, simp)
    with facts split have "\<exists>pre a post. as = pre @ a # post
         \<and> list_all (\<lambda>b. completed_work_logs (slip_at s' b) = []) pre
         \<and> is_completed (slip_at s' a)
         \<and> list_all (\<lambda>b. store s' b = store s b) post
         \<and> (\<exists>s''. fallback_compensate (on_world create) names ?log slip s' = Some (Inr True, slip, s'')
              \<and> completed_work_logs (slip_at s'' a) = [])"
      by (intro exI [of _ pre] exI [of _ a] exI [of _ post]) (simp add: list_all_iff)
    moreover have "fallback_do_work (on_world create) names fresh self item s = Some (Inr (Some ?log), s')"
      using work Some by simp
    ultimately show ?thesis by (intro exI [of _ "Some ?log"] exI [of _ s']) simp
  qed
qed

definition sample_store :: "(rngs, sample_json) shared_state" where
  "sample_store =
     \<lparr>store = [0 \<mapsto> sample_trip, 1 \<mapsto> slip_new [sample_item CAR ''vehicleType'']], world = rngs_new\<rparr>"

lemma sample_ready: "ready (reserved sample_js) [0, 1] sample_store"
  by (simp add: ready_def sample_store_def sample_trip_def slip_new_def)

theorem fallback_keeps_one_alternative_witness:
  "\<exists>r s'. fallback_do_work (on_world (example_activities sample_js)) \<lparr>slip_type_name = ''S'', slips_type_name = ''V''\<rparr>
        (\<lambda>_. 7) CAR \<lparr>wi_type = CAR, wi_arguments = fallback_arguments 5 [0, 1]\<rparr> sample_store = Some (Inr r, s') \<and>
    (case r of
       None \<Rightarrow> list_all (\<lambda>b. completed_work_logs (slip_at s' b) = []) [0, 1]
     | Some log \<Rightarrow> \<exists>pre a post. [0, 1] = pre @ a # post
         \<and> list_all (\<lambda>b. completed_work_logs (slip_at s' b) = []) pre
         \<and> is_completed (slip_at s' a)
         \<and> list_all (\<lambda>b. store s' b = store sample_store b) post
         \<and> (\<exists>s''. fallback_compensate (on_world (example_activities sample_js))
              \<lparr>slip_type_name = ''S'', slips_type_name = ''V''\<rparr> log sample_trip s' = Some (Inr True, sample_trip, s'')
              \<and> completed_work_logs (slip_at s'' a) = []))"
  by (rule fallback_keeps_one_alternative [OF travel.reliable_activities_axioms _ sample_ready]) simp_all

text \<open>
  C18: The parallel activity is all or nothing. Its branches, none of which waits in the middle of its work, run one after the other, each to its end or,
  from its first failing item on, undone; if all came to their end, it succeeds with their slips, and
  otherwise the work of every branch that did is compensated too, each log once, the latest first, and
  the state is the one all the compensations leave. This is for activities that return and whose
  compensation succeeds and leaves the slip as it is: the code drops an error of a compensation, and
  stops undoing that branch, which then keeps what it had done.
\<close>

theorem parallel_is_all_or_nothing:
  assumes "reliable_activities create good" and "distinct as" and "ready good as s"
    and "wi_arguments item = parallel_arguments x as" and "branches_run create as s = (oks, s1)"
  shows "parallel_do_work (on_world create) names fresh self item s = Some
      (if list_all id oks
       then (Inr (Some \<lparr>wl_type = self, wl_result = dict_from [(EXECUTED_BRANCHES, SAny (fresh s1) (OSlips as))]\<rparr>), s1)
       else (Inr None, branches_undone create as s1))
    \<and> (if list_all id oks then list_all (\<lambda>b. is_completed (slip_at s1 b)) as
       else list_all (\<lambda>b. completed_work_logs (slip_at (branches_undone create as s1) b) = []) as)"
proof -
  from branches_outcome [OF assms(1-3,5)] have
    run: "join_all (map (execute_branch (on_world create)) as) s = Some (map Inr oks, s1)"
    and ready: "ready good as s1" and oks: "list_all2 (\<lambda>ok a. ok \<longrightarrow> is_completed (slip_at s1 a)) oks as"
    by blast+
  have all: "list_ex (\<lambda>r. r \<noteq> Inr True) (map Inr oks :: (saga_error, bool) result list) \<longleftrightarrow> \<not> list_all id oks"
    by (auto simp: list_ex_iff list_all_iff)
  have "list_all (\<lambda>b. is_completed (slip_at s1 b)) as" if "list_all id oks"
    using oks that by (auto simp: list_all2_conv_all_nth list_all_length)
  with compensate_branches_outcome [OF assms(1,2) ready] run all show ?thesis
    by (simp add: parallel_do_work_def assms(4) parallel_arguments_read list_all_iff)
qed

theorem parallel_is_all_or_nothing_witness:
  "(case branches_run (example_activities sample_js) [0, 1] sample_store of (oks, s1) \<Rightarrow>
      parallel_do_work (on_world (example_activities sample_js)) \<lparr>slip_type_name = ''S'', slips_type_name = ''V''\<rparr>
        (\<lambda>_. 7) CAR \<lparr>wi_type = CAR, wi_arguments = parallel_arguments 5 [0, 1]\<rparr> sample_store
      = Some (Inr None, branches_undone (example_activities sample_js) [0, 1] s1))"
proof -
  obtain oks s1 where run: "branches_run (example_activities sample_js) [0, 1] sample_store = (oks, s1)"
    by (rule prod.exhaust)
  have "fst (branches_run (example_activities sample_js) [0, 1] sample_store) = [False, True]" by code_simp
  with run parallel_is_all_or_nothing [OF travel.reliable_activities_axioms _ sample_ready _ run]
  show ?thesis by simp
qed

end
