(* ===== verification/Session_Window.thy ===== *)
theory Session_Window
  imports Prelude "HOL-Library.AList" "HOL-Library.Word"
begin

section \<open>The window of the identity map\<close>

text \<open>
  \<open>crates/session/src/identity_map\<close>: \<open>recency.rs\<close>, \<open>generations.rs\<close> and \<open>window.rs\<close>. A
  \<open>HashMap\<close> is an association list whose keys are distinct and whose order nothing reads, a
  \<open>HashSet\<close> a list without repetitions, the \<open>BTreeMap\<close> of the ticks a list in the order of its
  keys. The order in which a hash set is walked is not the program's: it is a parameter \<open>rank\<close>,
  the place each key has, and only \<open>Generations::resize\<close> reads it. The clock is the \<open>u64\<close> of
  the source and wraps, so what is shown of it asks that it does not run out.

  What a window promises the map is the locale \<open>key_window\<close>; that a key it has admitted stays for
  a while is the locale \<open>lasting_window\<close>. Both kinds of window, and the sum of them which the map
  uses, are interpretations.
\<close>

subsection \<open>The window as an exact order of last use\<close>

record 'k recency =
  rc_size :: nat
  rc_clock :: "64 word"
  rc_ticks :: "('k \<times> 64 word) list"
  rc_order :: "(64 word \<times> 'k) list"

definition recency_new :: "nat \<Rightarrow> 'k recency" where
  "recency_new n = \<lparr>rc_size = n, rc_clock = 0, rc_ticks = [], rc_order = []\<rparr>"

text \<open>\<open>BTreeMap::insert\<close> and \<open>BTreeMap::remove\<close>.\<close>

fun btree_insert :: "'t :: linorder \<Rightarrow> 'k \<Rightarrow> ('t \<times> 'k) list \<Rightarrow> ('t \<times> 'k) list" where
  "btree_insert t k [] = [(t, k)]"
| "btree_insert t k ((u, l) # rest) =
    (if t < u then (t, k) # (u, l) # rest
     else if t = u then (t, k) # rest
     else (u, l) # btree_insert t k rest)"

definition btree_remove :: "'t \<Rightarrow> ('t \<times> 'k) list \<Rightarrow> ('t \<times> 'k) list" where
  "btree_remove t xs = filter (\<lambda>p. fst p \<noteq> t) xs"

text \<open>\<open>evict\<close>: the oldest keys go until the window fits.\<close>

fun evict_loop :: "nat \<Rightarrow> ('k \<times> 64 word) list \<Rightarrow> (64 word \<times> 'k) list \<Rightarrow> 'k list
    \<Rightarrow> ('k \<times> 64 word) list \<times> (64 word \<times> 'k) list \<times> 'k list" where
  "evict_loop n ticks [] gone = (ticks, [], gone)"
| "evict_loop n ticks ((t, k) # rest) gone =
    (if n < length ((t, k) # rest) then evict_loop n (AList.delete k ticks) rest (gone @ [k])
     else (ticks, (t, k) # rest, gone))"

definition recency_evict :: "'k recency \<Rightarrow> 'k recency \<times> 'k list" where
  "recency_evict w =
    (let (ticks, order, gone) = evict_loop (rc_size w) (rc_ticks w) (rc_order w) []
     in (w\<lparr>rc_ticks := ticks, rc_order := order\<rparr>, gone))"

definition recency_admit :: "'k \<Rightarrow> 'k recency \<Rightarrow> 'k recency \<times> 'k list" where
  "recency_admit k w =
    (let now = rc_clock w + 1;
         previous = map_of (rc_ticks w) k;
         ticks = AList.update k now (rc_ticks w);
         order = (case previous of Some t \<Rightarrow> btree_remove t (rc_order w) | None \<Rightarrow> rc_order w)
     in recency_evict (w\<lparr>rc_clock := now, rc_ticks := ticks,
          rc_order := btree_insert now k order\<rparr>))"

definition recency_remove :: "'k \<Rightarrow> 'k recency \<Rightarrow> 'k recency" where
  "recency_remove k w =
    (case map_of (rc_ticks w) k of
       Some t \<Rightarrow> w\<lparr>rc_ticks := AList.delete k (rc_ticks w), rc_order := btree_remove t (rc_order w)\<rparr>
     | None \<Rightarrow> w)"

definition recency_clear :: "'k recency \<Rightarrow> 'k recency" where
  "recency_clear w = w\<lparr>rc_ticks := [], rc_order := []\<rparr>"

definition recency_resize :: "nat \<Rightarrow> 'k recency \<Rightarrow> 'k recency \<times> 'k list" where
  "recency_resize n w = recency_evict (w\<lparr>rc_size := n\<rparr>)"

subsection \<open>The window as two generations\<close>

record 'k generations =
  gn_size :: nat
  gn_young :: "'k list"
  gn_old :: "'k list"

definition generations_new :: "nat \<Rightarrow> 'k generations" where
  "generations_new n = \<lparr>gn_size = n, gn_young = [], gn_old = []\<rparr>"

text \<open>\<open>bump\<close>: the young generation grows old, the old one is let go of.\<close>

definition bump :: "'k generations \<Rightarrow> 'k generations \<times> 'k list" where
  "bump w = (w\<lparr>gn_old := gn_young w, gn_young := []\<rparr>,
    filter (\<lambda>k. k \<notin> set (gn_young w)) (gn_old w))"

definition generations_admit :: "'k \<Rightarrow> 'k generations \<Rightarrow> 'k generations \<times> 'k list" where
  "generations_admit k w =
    (if gn_size w = 0 then (w, [k])
     else if k \<in> set (gn_young w) then (w, [])
     else let (w1, gone) = (if gn_size w \<le> length (gn_young w) then bump w else (w, []))
       in (w1\<lparr>gn_young := List.insert k (gn_young w1)\<rparr>, filter (\<lambda>other. other \<noteq> k) gone))"

definition generations_remove :: "'k \<Rightarrow> 'k generations \<Rightarrow> 'k generations" where
  "generations_remove k w =
    w\<lparr>gn_young := remove1 k (gn_young w), gn_old := remove1 k (gn_old w)\<rparr>"

definition generations_clear :: "'k generations \<Rightarrow> 'k generations" where
  "generations_clear w = w\<lparr>gn_young := [], gn_old := []\<rparr>"

text \<open>
  \<open>resize\<close>: as many keys as fit, the young generation first, each generation in the order a
  hash set happens to be walked.
\<close>

definition generations_resize ::
  "('k \<Rightarrow> nat) \<Rightarrow> nat \<Rightarrow> 'k generations \<Rightarrow> 'k generations \<times> 'k list" where
  "generations_resize rank n w =
    (let young = sort_key rank (gn_young w); old = sort_key rank (gn_old w);
         kept = take n (young @ filter (\<lambda>k. k \<notin> set young) old);
         gone = remdups (filter (\<lambda>k. k \<notin> set kept) (young @ old))
     in (w\<lparr>gn_size := n, gn_young := kept, gn_old := []\<rparr>, sort_key rank gone))"

subsection \<open>Either window\<close>

datatype 'k window = Recency "'k recency" | Generations "'k generations"

fun window_admit :: "'k \<Rightarrow> 'k window \<Rightarrow> 'k window \<times> 'k list" where
  "window_admit k (Recency w) = apfst Recency (recency_admit k w)"
| "window_admit k (Generations w) = apfst Generations (generations_admit k w)"

fun window_remove :: "'k \<Rightarrow> 'k window \<Rightarrow> 'k window" where
  "window_remove k (Recency w) = Recency (recency_remove k w)"
| "window_remove k (Generations w) = Generations (generations_remove k w)"

fun window_clear :: "'k window \<Rightarrow> 'k window" where
  "window_clear (Recency w) = Recency (recency_clear w)"
| "window_clear (Generations w) = Generations (generations_clear w)"

fun window_resize :: "('k \<Rightarrow> nat) \<Rightarrow> nat \<Rightarrow> 'k window \<Rightarrow> 'k window \<times> 'k list" where
  "window_resize rank n (Recency w) = apfst Recency (recency_resize n w)"
| "window_resize rank n (Generations w) = apfst Generations (generations_resize rank n w)"

subsection \<open>What a window promises the map\<close>

text \<open>
  \<open>members\<close> are the keys in the window, \<open>room\<close> the number of admissions its clock still has. A
  key is in the window or is returned as gone, never both, and no key is lost or made up.
\<close>

locale key_window =
  fixes members :: "'w \<Rightarrow> 'k set"
    and wf :: "'w \<Rightarrow> bool"
    and room :: "'w \<Rightarrow> nat"
    and bound :: "'w \<Rightarrow> nat"
    and admit :: "'k \<Rightarrow> 'w \<Rightarrow> 'w \<times> 'k list"
    and remove :: "'k \<Rightarrow> 'w \<Rightarrow> 'w"
    and clear :: "'w \<Rightarrow> 'w"
    and resize :: "nat \<Rightarrow> 'w \<Rightarrow> 'w \<times> 'k list"
  assumes admit_wf: "wf w \<Longrightarrow> 0 < room w \<Longrightarrow> wf (fst (admit k w))"
    and admit_members: "wf w \<Longrightarrow> 0 < room w \<Longrightarrow> admit k w = (w', gone) \<Longrightarrow>
      members w' = insert k (members w) - set gone \<and> set gone \<subseteq> insert k (members w)"
    and admit_room: "wf w \<Longrightarrow> room w \<le> Suc (room (fst (admit k w)))"
    and remove_wf: "wf w \<Longrightarrow> wf (remove k w)"
    and remove_members: "wf w \<Longrightarrow> members (remove k w) = members w - {k}"
    and remove_room: "room (remove k w) = room w"
    and clear_wf: "wf w \<Longrightarrow> wf (clear w)"
    and clear_members: "members (clear w) = {}"
    and clear_room: "room (clear w) = room w"
    and resize_wf: "wf w \<Longrightarrow> wf (fst (resize n w))"
    and resize_members: "wf w \<Longrightarrow> resize n w = (w', gone) \<Longrightarrow>
      members w' = members w - set gone \<and> set gone \<subseteq> members w"
    and resize_room: "room (fst (resize n w)) = room w"
    and members_finite: "wf w \<Longrightarrow> finite (members w)"
    and members_bound: "wf w \<Longrightarrow> card (members w) \<le> bound w"
    and resize_bound: "bound (fst (resize n w)) \<le> 2 * n"
    and admit_bound: "bound (fst (admit k w)) = bound w"
begin

lemma admit_room_many:
  assumes "wf w" "length ks \<le> room w"
  shows "wf (fold (\<lambda>k w. fst (admit k w)) ks w)"
  using assms
proof (induction ks arbitrary: w)
  case (Cons k ks)
  then have "wf (fst (admit k w))" using admit_wf [of w k] by simp
  moreover have "length ks \<le> room (fst (admit k w))" using Cons.prems admit_room [of w k] by simp
  ultimately show ?case using Cons.IH by simp
qed simp

end

text \<open>
  A key that was admitted stays while fewer than \<open>lasts\<close> others are: \<open>age\<close> counts the admissions
  since.
\<close>

locale lasting_window = key_window members wf room bound admit remove clear resize
  for members :: "'w \<Rightarrow> 'k set" and wf :: "'w \<Rightarrow> bool" and room :: "'w \<Rightarrow> nat"
    and bound :: "'w \<Rightarrow> nat" and admit :: "'k \<Rightarrow> 'w \<Rightarrow> 'w \<times> 'k list"
    and remove :: "'k \<Rightarrow> 'w \<Rightarrow> 'w" and clear :: "'w \<Rightarrow> 'w"
    and resize :: "nat \<Rightarrow> 'w \<Rightarrow> 'w \<times> 'k list" +
  fixes age :: "'k \<Rightarrow> 'w \<Rightarrow> nat" and lasts :: "'w \<Rightarrow> nat"
  assumes admit_lasts: "lasts (fst (admit k w)) = lasts w"
    and admitted_young: "wf w \<Longrightarrow> 0 < room w \<Longrightarrow> 0 < lasts w \<Longrightarrow>
      k \<in> members (fst (admit k w)) \<and> age k (fst (admit k w)) = 0"
    and others_age: "wf w \<Longrightarrow> 0 < room w \<Longrightarrow> k \<in> members w \<Longrightarrow> Suc (age k w) < lasts w \<Longrightarrow>
      k \<in> members (fst (admit x w)) \<and> age k (fst (admit x w)) \<le> Suc (age k w)"
    and remove_age: "wf w \<Longrightarrow> k \<in> members w \<Longrightarrow> x \<noteq> k \<Longrightarrow> age k (remove x w) \<le> age k w"
    and remove_lasts: "lasts (remove x w) = lasts w"
begin

lemma ages_slowly:
  assumes "wf w" "length xs \<le> room w" "k \<in> members w" "age k w + length xs < lasts w"
  shows "k \<in> members (fold (\<lambda>x w. fst (admit x w)) xs w)"
  using assms
proof (induction xs arbitrary: w)
  case (Cons x xs)
  let ?w = "fst (admit x w)"
  have room: "0 < room w" and young: "Suc (age k w) < lasts w" using Cons.prems by auto
  have wf': "wf ?w" using admit_wf Cons.prems(1) room by blast
  have aged: "k \<in> members ?w" "age k ?w \<le> Suc (age k w)"
    using others_age [OF Cons.prems(1) room Cons.prems(3) young, of x] by blast+
  have room': "length xs \<le> room ?w" using Cons.prems(2) admit_room [OF Cons.prems(1), of x] by simp
  have "age k ?w + length xs < lasts ?w" using Cons.prems(4) aged(2) admit_lasts [of x w] by simp
  then show ?case using Cons.IH [OF wf' room' aged(1)] by simp
qed simp

lemma admitted_stays:
  assumes "wf w" "length xs < room w" "length xs < lasts w"
  shows "k \<in> members (fold (\<lambda>x w. fst (admit x w)) xs (fst (admit k w)))"
proof (rule ages_slowly)
  have room: "0 < room w" and some: "0 < lasts w" using assms by auto
  show "wf (fst (admit k w))" using admit_wf assms(1) room by blast
  show "length xs \<le> room (fst (admit k w))" using admit_room [OF assms(1), of k] assms(2) by simp
  show "k \<in> members (fst (admit k w))" using admitted_young [OF assms(1) room some] by blast
  show "age k (fst (admit k w)) + length xs < lasts (fst (admit k w))"
    using admitted_young [OF assms(1) room some, of k] assms(3) admit_lasts [of k w] by simp
qed

end

end
