(* ===== verification/Identity_Map.thy ===== *)
theory Identity_Map
  imports Session_Window
begin

section \<open>The identity map of a session\<close>

text \<open>
  \<open>crates/session/src\<close>: \<open>isolation.rs\<close> and, of \<open>identity_map\<close>, \<open>policy.rs\<close>, \<open>slot.rs\<close>, \<open>state.rs\<close>
  and \<open>mod.rs\<close>. An entity stands for the allocation behind an \<open>Arc\<close>. Whether a weak reference can
  be upgraded depends on who else holds the allocation: \<open>held\<close> says of an entity that the program
  outside the map holds it at the moment of the call, and the slots of the map say the rest. So
  every operation that may look at a reference count takes \<open>held\<close>, and \<open>recall\<close> adds to it the
  answer it is about to return. A key carries the type of its entity (\<open>key.rs\<close>), so the erased
  keys are one type \<open>'k\<close> with its equality. The lock of the map makes its operations one after
  the other.
\<close>

datatype isolation_level = ReadUncommitted | ReadCommitted | RepeatableRead | Serializable

datatype fact_kind = EntityKind | AbsenceKind

text \<open>What a transaction at each level may remember.\<close>

fun level_admits :: "isolation_level \<Rightarrow> fact_kind \<Rightarrow> bool" where
  "level_admits ReadUncommitted _ = False"
| "level_admits ReadCommitted _ = False"
| "level_admits RepeatableRead EntityKind = True"
| "level_admits RepeatableRead AbsenceKind = False"
| "level_admits Serializable _ = True"

subsection \<open>Slots\<close>

datatype 'e lookup = Found 'e | Absent | Unknown

fun found :: "'e lookup \<Rightarrow> 'e option" where
  "found (Found e) = Some e"
| "found _ = None"

definition is_known :: "'e lookup \<Rightarrow> bool" where
  "is_known answer \<longleftrightarrow> (case answer of Unknown \<Rightarrow> False | _ \<Rightarrow> True)"

definition admitted :: "(fact_kind \<Rightarrow> bool) \<Rightarrow> 'e lookup \<Rightarrow> 'e lookup" where
  "admitted allows answer =
    (case answer of
       Found e \<Rightarrow> if \<not> allows EntityKind then Unknown else answer
     | Absent \<Rightarrow> if \<not> allows AbsenceKind then Unknown else answer
     | Unknown \<Rightarrow> answer)"

datatype 'e fact = FEntity 'e | FAbsence

fun fact_kind_of :: "'e fact \<Rightarrow> fact_kind" where
  "fact_kind_of (FEntity _) = EntityKind"
| "fact_kind_of FAbsence = AbsenceKind"

fun fact_recall :: "'e fact \<Rightarrow> 'e lookup" where
  "fact_recall (FEntity e) = Found e"
| "fact_recall FAbsence = Absent"

datatype 'e memory = Anchored "'e fact" | Released 'e

text \<open>\<open>is_alive\<close>, \<open>release\<close> and \<open>recall\<close>, given who else holds an entity.\<close>

fun slot_is_alive :: "('e \<Rightarrow> bool) \<Rightarrow> 'e memory \<Rightarrow> bool" where
  "slot_is_alive strong (Anchored _) = True"
| "slot_is_alive strong (Released e) = strong e"

fun slot_release :: "('e \<Rightarrow> bool) \<Rightarrow> 'e memory \<Rightarrow> 'e memory option" where
  "slot_release strong (Anchored (FEntity e)) = (if strong e then Some (Released e) else None)"
| "slot_release strong (Anchored FAbsence) = None"
| "slot_release strong (Released e) = Some (Released e)"

fun slot_recall :: "('e \<Rightarrow> bool) \<Rightarrow> 'e memory \<Rightarrow> 'e memory option \<times> 'e lookup" where
  "slot_recall strong (Anchored known) = (Some (Anchored known), fact_recall known)"
| "slot_recall strong (Released e) =
    (if strong e then (Some (Anchored (FEntity e)), Found e) else (None, Unknown))"

subsection \<open>The state\<close>

record ('k, 'e) map_state =
  im_slots :: "('k \<times> 'e memory) list"
  im_window :: "'k window"
  im_since_sweep :: nat

definition state_new :: "'k window \<Rightarrow> ('k, 'e) map_state" where
  "state_new w = \<lparr>im_slots = [], im_window = w, im_since_sweep = 0\<rparr>"

text \<open>An entity is alive while the program holds it or a slot anchors it.\<close>

definition strongly :: "('e \<Rightarrow> bool) \<Rightarrow> ('k \<times> 'e memory) list \<Rightarrow> 'e \<Rightarrow> bool" where
  "strongly held slots e \<longleftrightarrow> held e \<or> list_ex (\<lambda>p. snd p = Anchored (FEntity e)) slots"

text \<open>\<open>release\<close>: the slots of the keys the window let go leave the anchored state.\<close>

primrec slots_release :: "('e \<Rightarrow> bool) \<Rightarrow> 'k list \<Rightarrow> ('k \<times> 'e memory) list \<Rightarrow> ('k \<times> 'e memory) list" where
  "slots_release held [] slots = slots"
| "slots_release held (k # gone) slots =
    (let rest = AList.delete k slots in
     case Option.bind (map_of slots k) (slot_release (strongly held rest)) of
       Some next_slot \<Rightarrow> slots_release held gone (AList.update k next_slot rest)
     | None \<Rightarrow> slots_release held gone rest)"

definition state_release :: "('e \<Rightarrow> bool) \<Rightarrow> 'k list \<Rightarrow> ('k, 'e) map_state \<Rightarrow> ('k, 'e) map_state" where
  "state_release held gone s = s\<lparr>im_slots := slots_release held gone (im_slots s)\<rparr>"

definition sweep :: "('e \<Rightarrow> bool) \<Rightarrow> ('k, 'e) map_state \<Rightarrow> ('k, 'e) map_state" where
  "sweep held s = s\<lparr>
    im_slots := filter (\<lambda>p. slot_is_alive (strongly held (im_slots s)) (snd p)) (im_slots s),
    im_since_sweep := 0\<rparr>"

definition sweep_when_due :: "('e \<Rightarrow> bool) \<Rightarrow> ('k, 'e) map_state \<Rightarrow> ('k, 'e) map_state" where
  "sweep_when_due held s =
    (let s1 = s\<lparr>im_since_sweep := im_since_sweep s + 1\<rparr>
     in if length (im_slots s1) < im_since_sweep s1 then sweep held s1 else s1)"

definition state_remember ::
  "('e \<Rightarrow> bool) \<Rightarrow> 'k \<Rightarrow> 'e fact \<Rightarrow> ('k, 'e) map_state \<Rightarrow> ('k, 'e) map_state" where
  "state_remember held k known s =
    (let (w, gone) = window_admit k (im_window s);
         s1 = s\<lparr>im_slots := AList.update k (Anchored known) (im_slots s), im_window := w\<rparr>
     in sweep_when_due held (state_release held gone s1))"

text \<open>The answer holds its entity while the rest of the call runs.\<close>

definition with_answer :: "('e \<Rightarrow> bool) \<Rightarrow> 'e lookup \<Rightarrow> 'e \<Rightarrow> bool" where
  "with_answer held answer e \<longleftrightarrow> held e \<or> found answer = Some e"

definition state_recall ::
  "('e \<Rightarrow> bool) \<Rightarrow> 'k \<Rightarrow> ('k, 'e) map_state \<Rightarrow> ('k, 'e) map_state \<times> 'e lookup" where
  "state_recall held k s =
    (case map_of (im_slots s) k of
       None \<Rightarrow> (s, Unknown)
     | Some slot \<Rightarrow>
         let rest = AList.delete k (im_slots s);
             (next_slot, answer) = slot_recall (strongly held rest) slot;
             held = with_answer held answer;
             s1 = (case next_slot of
                 Some slot \<Rightarrow>
                   let (w, gone) = window_admit k (im_window s)
                   in state_release held gone
                     (s\<lparr>im_slots := AList.update k slot rest, im_window := w\<rparr>)
               | None \<Rightarrow> s\<lparr>im_slots := rest, im_window := window_remove k (im_window s)\<rparr>)
         in (sweep_when_due held s1, answer))"

definition state_forget :: "'k \<Rightarrow> ('k, 'e) map_state \<Rightarrow> ('k, 'e) map_state" where
  "state_forget k s = s\<lparr>im_slots := AList.delete k (im_slots s),
    im_window := window_remove k (im_window s)\<rparr>"

definition state_forget_all :: "('k, 'e) map_state \<Rightarrow> ('k, 'e) map_state" where
  "state_forget_all s = s\<lparr>im_slots := [], im_window := window_clear (im_window s)\<rparr>"

definition state_len :: "('e \<Rightarrow> bool) \<Rightarrow> ('k, 'e) map_state \<Rightarrow> ('k, 'e) map_state \<times> nat" where
  "state_len held s = (let s1 = sweep held s in (s1, length (im_slots s1)))"

definition state_resize ::
  "('k \<Rightarrow> nat) \<Rightarrow> ('e \<Rightarrow> bool) \<Rightarrow> nat \<Rightarrow> ('k, 'e) map_state \<Rightarrow> ('k, 'e) map_state" where
  "state_resize rank held n s =
    (let (w, gone) = window_resize rank n (im_window s)
     in state_release held gone (s\<lparr>im_window := w\<rparr>))"

subsection \<open>The map\<close>

record ('k, 'e) identity_map =
  id_isolation :: isolation_level
  id_state :: "('k, 'e) map_state"

definition imap_over :: "'k window \<Rightarrow> isolation_level \<Rightarrow> ('k, 'e) identity_map" where
  "imap_over w level = \<lparr>id_isolation = level, id_state = state_new w\<rparr>"

definition imap_new :: "nat \<Rightarrow> isolation_level \<Rightarrow> ('k, 'e) identity_map" where
  "imap_new n level = imap_over (Recency (recency_new n)) level"

definition imap_generational :: "nat \<Rightarrow> isolation_level \<Rightarrow> ('k, 'e) identity_map" where
  "imap_generational n level = imap_over (Generations (generations_new n)) level"

definition default_cache_size :: nat where
  "default_cache_size = 100"

definition imap_with_isolation :: "isolation_level \<Rightarrow> ('k, 'e) identity_map" where
  "imap_with_isolation level = imap_new default_cache_size level"

definition imap_remember ::
  "('e \<Rightarrow> bool) \<Rightarrow> 'k \<Rightarrow> 'e fact \<Rightarrow> ('k, 'e) identity_map \<Rightarrow> ('k, 'e) identity_map" where
  "imap_remember held k known m =
    (if level_admits (id_isolation m) (fact_kind_of known)
     then m\<lparr>id_state := state_remember held k known (id_state m)\<rparr> else m)"

definition imap_recall ::
  "('e \<Rightarrow> bool) \<Rightarrow> 'k \<Rightarrow> ('k, 'e) identity_map \<Rightarrow> ('k, 'e) identity_map \<times> 'e lookup" where
  "imap_recall held k m =
    (let (s, answer) = state_recall held k (id_state m)
     in (m\<lparr>id_state := s\<rparr>, admitted (level_admits (id_isolation m)) answer))"

definition imap_add ::
  "('e \<Rightarrow> bool) \<Rightarrow> 'k \<Rightarrow> 'e \<Rightarrow> ('k, 'e) identity_map \<Rightarrow> ('k, 'e) identity_map" where
  "imap_add held k e = imap_remember held k (FEntity e)"

definition imap_add_absent ::
  "('e \<Rightarrow> bool) \<Rightarrow> 'k \<Rightarrow> ('k, 'e) identity_map \<Rightarrow> ('k, 'e) identity_map" where
  "imap_add_absent held k = imap_remember held k FAbsence"

text \<open>\<open>get\<close> casts the entity to the type its key pins, which cannot fail.\<close>

definition imap_get ::
  "('e \<Rightarrow> bool) \<Rightarrow> 'k \<Rightarrow> ('k, 'e) identity_map \<Rightarrow> ('k, 'e) identity_map \<times> 'e lookup" where
  "imap_get held k m = imap_recall held k m"

definition imap_has ::
  "('e \<Rightarrow> bool) \<Rightarrow> 'k \<Rightarrow> ('k, 'e) identity_map \<Rightarrow> ('k, 'e) identity_map \<times> bool" where
  "imap_has held k m = apsnd is_known (imap_recall held k m)"

definition imap_remove :: "'k \<Rightarrow> ('k, 'e) identity_map \<Rightarrow> ('k, 'e) identity_map" where
  "imap_remove k m = m\<lparr>id_state := state_forget k (id_state m)\<rparr>"

definition imap_clear :: "('k, 'e) identity_map \<Rightarrow> ('k, 'e) identity_map" where
  "imap_clear m = m\<lparr>id_state := state_forget_all (id_state m)\<rparr>"

definition imap_len :: "('e \<Rightarrow> bool) \<Rightarrow> ('k, 'e) identity_map \<Rightarrow> ('k, 'e) identity_map \<times> nat" where
  "imap_len held m = apfst (\<lambda>s. m\<lparr>id_state := s\<rparr>) (state_len held (id_state m))"

definition imap_is_empty ::
  "('e \<Rightarrow> bool) \<Rightarrow> ('k, 'e) identity_map \<Rightarrow> ('k, 'e) identity_map \<times> bool" where
  "imap_is_empty held m = apsnd (\<lambda>n. n = 0) (imap_len held m)"

definition imap_set_size ::
  "('k \<Rightarrow> nat) \<Rightarrow> ('e \<Rightarrow> bool) \<Rightarrow> nat \<Rightarrow> ('k, 'e) identity_map \<Rightarrow> ('k, 'e) identity_map" where
  "imap_set_size rank held n m = m\<lparr>id_state := state_resize rank held n (id_state m)\<rparr>"

subsection \<open>A session's calls, one after the other\<close>

datatype ('k, 'e) session_call =
    CAdd 'k 'e | CAddAbsent 'k | CGet 'k | CHas 'k | CRemove 'k | CClear | CLen | CSetSize nat

datatype 'e session_answer = Looked "'e lookup" | Knows bool | Counted nat | Done

fun imap_call :: "('k \<Rightarrow> nat) \<Rightarrow> ('e \<Rightarrow> bool) \<Rightarrow> ('k, 'e) session_call \<Rightarrow> ('k, 'e) identity_map
    \<Rightarrow> ('k, 'e) identity_map \<times> 'e session_answer" where
  "imap_call rank held (CAdd k e) m = (imap_add held k e m, Done)"
| "imap_call rank held (CAddAbsent k) m = (imap_add_absent held k m, Done)"
| "imap_call rank held (CGet k) m = apsnd Looked (imap_get held k m)"
| "imap_call rank held (CHas k) m = apsnd Knows (imap_has held k m)"
| "imap_call rank held (CRemove k) m = (imap_remove k m, Done)"
| "imap_call rank held CClear m = (imap_clear m, Done)"
| "imap_call rank held CLen m = apsnd Counted (imap_len held m)"
| "imap_call rank held (CSetSize n) m = (imap_set_size rank held n m, Done)"

text \<open>Each call with what the program held meanwhile.\<close>

primrec imap_run :: "('k \<Rightarrow> nat) \<Rightarrow> (('e \<Rightarrow> bool) \<times> ('k, 'e) session_call) list \<Rightarrow> ('k, 'e) identity_map
    \<Rightarrow> ('k, 'e) identity_map" where
  "imap_run rank [] m = m"
| "imap_run rank (c # cs) m = imap_run rank cs (fst (imap_call rank (fst c) (snd c) m))"

end
