(* ===== verification/Session_Window_Laws.thy ===== *)
theory Session_Window_Laws
  imports Session_Window
begin

section \<open>Both windows keep their promises\<close>

text \<open>
  The invariants of the two kinds of window, and the interpretations of \<open>key_window\<close> and of
  \<open>lasting_window\<close> on each of them and on the sum the map uses.
\<close>

subsection \<open>Recency\<close>

text \<open>The order is by tick, the ticks are the order read the other way, none is of the future.\<close>

definition recency_ordered :: "'k recency \<Rightarrow> bool" where
  "recency_ordered w \<longleftrightarrow> sorted_wrt (<) (map fst (rc_order w)) \<and> distinct (map fst (rc_ticks w))
    \<and> set (rc_ticks w) = prod.swap ` set (rc_order w) \<and> (\<forall>p\<in>set (rc_order w). fst p \<le> rc_clock w)"

definition recency_wf :: "'k recency \<Rightarrow> bool" where
  "recency_wf w \<longleftrightarrow> recency_ordered w \<and> length (rc_order w) \<le> rc_size w"

definition recency_members :: "'k recency \<Rightarrow> 'k set" where
  "recency_members w = snd ` set (rc_order w)"

definition recency_room :: "'k recency \<Rightarrow> nat" where
  "recency_room w = 2 ^ 64 - 1 - unat (rc_clock w)"

text \<open>The age of a key is the number of keys used after it.\<close>

definition recency_age :: "'k \<Rightarrow> 'k recency \<Rightarrow> nat" where
  "recency_age k w = length (tl (dropWhile (\<lambda>p. snd p \<noteq> k) (rc_order w)))"

lemma btree_insert_last:
  "\<forall>p\<in>set xs. fst p < t \<Longrightarrow> btree_insert t k xs = xs @ [(t, k)]"
  by (induction t k xs rule: btree_insert.induct) auto

lemma evict_loop_eq:
  "evict_loop n ticks order gone =
    (fold AList.delete (map snd (take (length order - n) order)) ticks,
     drop (length order - n) order, gone @ map snd (take (length order - n) order))"
proof (induction n ticks order gone rule: evict_loop.induct)
  case (2 n ticks t k rest gone)
  then show ?case by (simp add: Suc_diff_le)
qed simp

lemma fold_delete: "fold AList.delete ks xs = filter (\<lambda>p. fst p \<notin> set ks) xs"
  by (induction ks arbitrary: xs) (auto simp: AList.delete_eq intro: filter_cong)

lemma recency_evict_eq:
  "recency_evict w = (let m = length (rc_order w) - rc_size w in
    (w\<lparr>rc_ticks := filter (\<lambda>p. fst p \<notin> snd ` set (take m (rc_order w))) (rc_ticks w),
       rc_order := drop m (rc_order w)\<rparr>, map snd (take m (rc_order w))))"
  by (simp add: recency_evict_def evict_loop_eq fold_delete Let_def)

lemma recency_keys_distinct:
  assumes "recency_ordered w" shows "distinct (map snd (rc_order w))"
proof -
  have order: "distinct (map fst (rc_order w))"
    using assms by (simp add: recency_ordered_def strict_sorted_iff)
  have "card (set (rc_ticks w)) = card (set (rc_order w))"
    using assms by (simp add: recency_ordered_def card_image)
  moreover have "snd ` set (rc_order w) = fst ` set (rc_ticks w)"
    using assms by (simp add: recency_ordered_def image_image)
  moreover have "card (fst ` set (rc_ticks w)) = card (set (rc_ticks w))"
    using assms by (metis distinct_card distinct_map length_map list.set_map recency_ordered_def)
  ultimately have "card (set (map snd (rc_order w))) = length (map snd (rc_order w))"
    using distinct_card [of "rc_order w"] order by (simp add: distinct_map)
  then show ?thesis by (rule card_distinct)
qed

lemma recency_evict_ordered:
  assumes "recency_ordered w" shows "recency_wf (fst (recency_evict w))"
proof -
  let ?m = "length (rc_order w) - rc_size w" and ?o = "rc_order w"
  have parts: "set ?o = set (take ?m ?o) \<union> set (drop ?m ?o)"
    by (metis append_take_drop_id set_append)
  have "distinct (map snd (take ?m ?o) @ map snd (drop ?m ?o))"
    using recency_keys_distinct [OF assms] by (metis append_take_drop_id map_append)
  then have apart: "snd ` set (take ?m ?o) \<inter> snd ` set (drop ?m ?o) = {}" by simp
  have "{p \<in> prod.swap ` set ?o. fst p \<notin> snd ` set (take ?m ?o)} = prod.swap ` set (drop ?m ?o)"
  proof -
    have "snd p \<notin> snd ` set (take ?m ?o) \<longleftrightarrow> p \<in> set (drop ?m ?o)" if "p \<in> set ?o" for p
      using that parts apart by blast
    then have "{q \<in> set ?o. snd q \<notin> snd ` set (take ?m ?o)} = set (drop ?m ?o)"
      using parts by blast
    moreover have "{p \<in> prod.swap ` set ?o. fst p \<notin> snd ` set (take ?m ?o)}
        = prod.swap ` {q \<in> set ?o. snd q \<notin> snd ` set (take ?m ?o)}"
      by force
    ultimately show ?thesis by simp
  qed
  moreover have "sorted_wrt (<) (map fst (drop ?m ?o))"
    using assms by (simp add: recency_ordered_def sorted_wrt_drop flip: drop_map)
  moreover have "distinct (map fst (filter (\<lambda>p. fst p \<notin> snd ` set (take ?m ?o)) (rc_ticks w)))"
    using assms by (simp add: recency_ordered_def distinct_map_filter)
  ultimately show ?thesis
    using assms parts by (auto simp: recency_wf_def recency_ordered_def recency_evict_eq Let_def)
qed

lemma recency_evict_members:
  assumes "recency_ordered w" "recency_evict w = (w', gone)"
  shows "recency_members w' = recency_members w - set gone \<and> set gone \<subseteq> recency_members w"
proof -
  let ?m = "length (rc_order w) - rc_size w" and ?o = "rc_order w"
  have "gone = map snd (take ?m ?o)" using assms(2) by (simp add: recency_evict_eq Let_def)
  then have gone: "set gone = snd ` set (take ?m ?o)" by simp
  have order: "rc_order w' = drop ?m ?o" using assms(2) by (auto simp: recency_evict_eq Let_def)
  have parts: "set ?o = set (take ?m ?o) \<union> set (drop ?m ?o)"
    by (metis append_take_drop_id set_append)
  have "distinct (map snd (take ?m ?o) @ map snd (drop ?m ?o))"
    using recency_keys_distinct [OF assms(1)] by (metis append_take_drop_id map_append)
  then have "snd ` set (take ?m ?o) \<inter> snd ` set (drop ?m ?o) = {}" by simp
  then show ?thesis using parts unfolding recency_members_def gone order by blast
qed

lemma recency_evict_kept:
  "rc_size (fst (recency_evict w)) = rc_size w" "rc_clock (fst (recency_evict w)) = rc_clock w"
  by (simp_all add: recency_evict_eq Let_def)

text \<open>Admission before the eviction: the key is last.\<close>

lemma recency_lookup:
  assumes "recency_ordered w"
  shows "map_of (rc_ticks w) k = Some t \<longleftrightarrow> (t, k) \<in> set (rc_order w)"
proof -
  have "map_of (rc_ticks w) k = Some t \<longleftrightarrow> (k, t) \<in> set (rc_ticks w)"
    using assms by (simp add: recency_ordered_def)
  also have "\<dots> \<longleftrightarrow> (t, k) \<in> set (rc_order w)"
    using assms by (auto simp: recency_ordered_def)
  finally show ?thesis .
qed

lemma recency_dropped:
  assumes "recency_ordered w"
  shows "(case map_of (rc_ticks w) k of Some t \<Rightarrow> btree_remove t (rc_order w) | None \<Rightarrow> rc_order w)
    = filter (\<lambda>p. snd p \<noteq> k) (rc_order w)"
proof (cases "map_of (rc_ticks w) k")
  case None
  then have "\<forall>p\<in>set (rc_order w). snd p \<noteq> k"
    using recency_lookup [OF assms, of k] by (metis option.distinct(1) prod.collapse)
  then show ?thesis using None by (simp add: filter_id_conv)
next
  case (Some t)
  then have mem: "(t, k) \<in> set (rc_order w)" using recency_lookup [OF assms] by blast
  have "fst p = t \<longleftrightarrow> snd p = k" if "p \<in> set (rc_order w)" for p
  proof -
    have "distinct (map fst (rc_order w))" "distinct (map snd (rc_order w))"
      using assms recency_keys_distinct by (auto simp: recency_ordered_def strict_sorted_iff)
    then show ?thesis using mem that
      by (metis (no_types, lifting) distinct_map fst_conv inj_onD snd_conv)
  qed
  then show ?thesis using Some by (auto simp: btree_remove_def intro!: filter_cong)
qed

definition recency_touched :: "'k \<Rightarrow> 'k recency \<Rightarrow> 'k recency" where
  "recency_touched k w = w\<lparr>rc_clock := rc_clock w + 1,
    rc_ticks := AList.update k (rc_clock w + 1) (rc_ticks w),
    rc_order := filter (\<lambda>p. snd p \<noteq> k) (rc_order w) @ [(rc_clock w + 1, k)]\<rparr>"

lemma recency_tick:
  assumes "0 < recency_room w"
  shows "rc_clock w < rc_clock w + 1" "unat (rc_clock w + 1) = Suc (unat (rc_clock w))"
proof -
  have "unat (rc_clock w) < 2 ^ 64 - 1" using assms by (simp add: recency_room_def)
  then have "rc_clock w \<noteq> - 1" by (auto simp: unsigned_minus_1_eq_mask mask_eq_exp_minus_1)
  then show next_tick: "unat (rc_clock w + 1) = Suc (unat (rc_clock w))"
    by (metis add.commute eq_neg_iff_add_eq_0 unatSuc)
  show "rc_clock w < rc_clock w + 1" by (simp add: word_less_nat_alt next_tick)
qed

lemma recency_future:
  assumes "recency_ordered w" "0 < recency_room w"
  shows "\<forall>p\<in>set (rc_order w). fst p < rc_clock w + 1"
  using assms(1) recency_tick(1) [OF assms(2)] by (auto simp: recency_ordered_def intro: le_less_trans)

lemma recency_admit_eq:
  assumes "recency_ordered w" "0 < recency_room w"
  shows "recency_admit k w = recency_evict (recency_touched k w)"
proof -
  have "btree_insert (rc_clock w + 1) k (filter (\<lambda>p. snd p \<noteq> k) (rc_order w))
    = filter (\<lambda>p. snd p \<noteq> k) (rc_order w) @ [(rc_clock w + 1, k)]"
    using recency_future [OF assms] by (intro btree_insert_last) auto
  then show ?thesis
    using recency_dropped [OF assms(1), of k]
    by (simp add: recency_admit_def recency_touched_def Let_def)
qed

lemma recency_touched_ordered:
  assumes "recency_ordered w" "0 < recency_room w"
  shows "recency_ordered (recency_touched k w)"
proof -
  let ?now = "rc_clock w + 1" and ?o = "filter (\<lambda>p. snd p \<noteq> k) (rc_order w)"
  have "sorted_wrt (<) (map fst ?o)"
    using assms(1) by (simp add: recency_ordered_def sorted_wrt_map sorted_wrt_filter)
  then have sorted: "sorted_wrt (<) (map fst (?o @ [(?now, k)]))"
    using recency_future [OF assms] by (simp add: sorted_wrt_append)
  have unique: "distinct (map fst (AList.update k ?now (rc_ticks w)))"
    using assms(1) by (simp add: recency_ordered_def distinct_update)
  have "(a, b) \<in> set (AList.update k ?now (rc_ticks w)) \<longleftrightarrow> (b, a) \<in> set (?o @ [(?now, k)])" for a b
  proof -
    have "(a, b) \<in> set (AList.update k ?now (rc_ticks w))
        \<longleftrightarrow> map_of (AList.update k ?now (rc_ticks w)) a = Some b"
      using unique by simp
    also have "\<dots> \<longleftrightarrow> (if a = k then b = ?now else map_of (rc_ticks w) a = Some b)"
      by (auto simp: update_conv)
    also have "\<dots> \<longleftrightarrow> (b, a) \<in> set (?o @ [(?now, k)])"
      using recency_lookup [OF assms(1), of a b] by auto
    finally show ?thesis .
  qed
  then have "set (AList.update k ?now (rc_ticks w)) = prod.swap ` set (?o @ [(?now, k)])"
    by (auto simp: image_iff)
  moreover have "\<forall>p\<in>set (?o @ [(?now, k)]). fst p \<le> ?now"
    using recency_future [OF assms] by (auto intro: less_imp_le)
  ultimately show ?thesis
    using sorted unique by (simp add: recency_ordered_def recency_touched_def)
qed

lemma recency_touched_members:
  "recency_members (recency_touched k w) = insert k (recency_members w)"
  by (auto simp: recency_members_def recency_touched_def image_iff)

lemma recency_remove_eq:
  assumes "recency_ordered w"
  shows "recency_remove k w = w\<lparr>rc_ticks := AList.delete k (rc_ticks w),
    rc_order := filter (\<lambda>p. snd p \<noteq> k) (rc_order w)\<rparr>"
proof (cases "map_of (rc_ticks w) k")
  case None
  then have "AList.delete k (rc_ticks w) = rc_ticks w"
    by (simp add: delete_idem map_of_eq_None_iff)
  then show ?thesis using None recency_dropped [OF assms, of k] by (simp add: recency_remove_def)
qed (use recency_dropped [OF assms, of k] in \<open>simp add: recency_remove_def\<close>)

lemma recency_remove_ordered:
  assumes "recency_ordered w" shows "recency_ordered (recency_remove k w)"
proof -
  have "set (AList.delete k (rc_ticks w)) = prod.swap ` set (filter (\<lambda>p. snd p \<noteq> k) (rc_order w))"
    using assms by (auto simp: recency_ordered_def AList.delete_eq image_iff)
  then show ?thesis
    using assms
    by (auto simp: recency_remove_eq recency_ordered_def distinct_delete sorted_wrt_map sorted_wrt_filter)
qed

text \<open>The age of a key that stays.\<close>

lemma drop_until:
  "k \<notin> snd ` set as \<Longrightarrow> dropWhile (\<lambda>p. snd p \<noteq> k) (as @ (t, k) # bs) = (t, k) # bs"
  by (induction as) auto

lemma recency_age_split:
  assumes "rc_order w = as @ (t, k) # bs" "k \<notin> snd ` set as"
  shows "recency_age k w = length bs"
  using drop_until [OF assms(2)] by (simp add: recency_age_def assms(1))

lemma recency_split:
  assumes "k \<in> recency_members w"
  obtains as t bs where "rc_order w = as @ (t, k) # bs" "k \<notin> snd ` set as"
proof -
  have "\<exists>p\<in>set (rc_order w). snd p = k" using assms by (auto simp: recency_members_def)
  then obtain as p bs where "rc_order w = as @ p # bs" "snd p = k" "\<forall>q\<in>set as. snd q \<noteq> k"
    using split_list_first_prop [of "rc_order w" "\<lambda>p. snd p = k"] by blast
  then show ?thesis using that [of as "fst p" bs] by (cases p) auto
qed

lemma recency_age_evict:
  assumes "rc_order w = as @ (t, k) # bs" "k \<notin> snd ` set as" "length bs < rc_size w"
  shows "k \<in> recency_members (fst (recency_evict w)) \<and> recency_age k (fst (recency_evict w)) = length bs"
proof -
  let ?m = "length (rc_order w) - rc_size w"
  have "?m \<le> length as" using assms(1,3) by simp
  then have order: "rc_order (fst (recency_evict w)) = drop ?m as @ (t, k) # bs"
    using assms(1) by (simp add: recency_evict_eq Let_def)
  moreover have "k \<notin> snd ` set (drop ?m as)" using assms(2) using set_drop_subset [of ?m as] by blast
  ultimately show ?thesis using recency_age_split by (force simp: recency_members_def)
qed

lemma recency_others_age:
  assumes "recency_wf w" "0 < recency_room w" "k \<in> recency_members w"
    and "Suc (recency_age k w) < rc_size w"
  shows "k \<in> recency_members (fst (recency_admit x w))
    \<and> recency_age k (fst (recency_admit x w)) \<le> Suc (recency_age k w)"
proof -
  have ordered: "recency_ordered w" using assms(1) by (simp add: recency_wf_def)
  obtain as t bs where split: "rc_order w = as @ (t, k) # bs" "k \<notin> snd ` set as"
    using assms(3) by (rule recency_split)
  have admit: "recency_admit x w = recency_evict (recency_touched x w)"
    by (rule recency_admit_eq [OF ordered assms(2)])
  have age: "recency_age k w = length bs" by (rule recency_age_split [OF split])
  show ?thesis
  proof (cases "x = k")
    case True
    have "rc_order (recency_touched x w)
      = filter (\<lambda>p. snd p \<noteq> k) (rc_order w) @ (rc_clock w + 1, k) # []"
      using True by (simp add: recency_touched_def)
    then have "k \<in> recency_members (fst (recency_evict (recency_touched x w)))
      \<and> recency_age k (fst (recency_evict (recency_touched x w))) = length ([] :: (64 word \<times> 'a) list)"
      by (rule recency_age_evict) (use assms(4) in \<open>auto simp: recency_touched_def\<close>)
    then show ?thesis unfolding admit by simp
  next
    case False
    have touched: "rc_order (recency_touched x w)
      = filter (\<lambda>p. snd p \<noteq> x) as @ (t, k) # filter (\<lambda>p. snd p \<noteq> x) bs @ [(rc_clock w + 1, x)]"
      using False split(1) by (simp add: recency_touched_def)
    have "length (filter (\<lambda>p. snd p \<noteq> x) bs) \<le> length bs" by simp
    moreover have "k \<notin> snd ` set (filter (\<lambda>p. snd p \<noteq> x) as)" using split(2) by auto
    moreover have "length (filter (\<lambda>p. snd p \<noteq> x) bs @ [(rc_clock w + 1, x)])
      < rc_size (recency_touched x w)"
      using le_less_trans [OF Suc_le_mono [THEN iffD2, OF calculation(1)], of "rc_size w"] assms(4) age
      by (simp add: recency_touched_def)
    ultimately show ?thesis
      using recency_age_evict [OF touched] age unfolding admit by simp
  qed
qed

lemma recency_remove_age:
  assumes "recency_ordered w" "k \<in> recency_members w" "x \<noteq> k"
  shows "recency_age k (recency_remove x w) \<le> recency_age k w"
proof -
  obtain as t bs where split: "rc_order w = as @ (t, k) # bs" "k \<notin> snd ` set as"
    using assms(2) by (rule recency_split)
  have "rc_order (recency_remove x w)
    = filter (\<lambda>p. snd p \<noteq> x) as @ (t, k) # filter (\<lambda>p. snd p \<noteq> x) bs"
    using assms(3) split(1) by (simp add: recency_remove_eq [OF assms(1)])
  moreover have "k \<notin> snd ` set (filter (\<lambda>p. snd p \<noteq> x) as)" using split(2) by auto
  ultimately show ?thesis using recency_age_split split by (metis length_filter_le)
qed

lemma recency_admitted_young:
  assumes "recency_wf w" "0 < recency_room w" "0 < rc_size w"
  shows "k \<in> recency_members (fst (recency_admit k w)) \<and> recency_age k (fst (recency_admit k w)) = 0"
proof -
  have ordered: "recency_ordered w" using assms(1) by (simp add: recency_wf_def)
  have "rc_order (recency_touched k w)
      = filter (\<lambda>p. snd p \<noteq> k) (rc_order w) @ (rc_clock w + 1, k) # []"
    by (simp add: recency_touched_def)
  then have "k \<in> recency_members (fst (recency_evict (recency_touched k w)))
      \<and> recency_age k (fst (recency_evict (recency_touched k w))) = length ([] :: (64 word \<times> 'a) list)"
    by (rule recency_age_evict) (use assms(3) in \<open>auto simp: recency_touched_def\<close>)
  then show ?thesis unfolding recency_admit_eq [OF ordered assms(2)] by simp
qed

interpretation by_use: lasting_window recency_members recency_wf recency_room rc_size
  recency_admit recency_remove recency_clear recency_resize recency_age rc_size
proof unfold_locales
  fix w w' :: "'k recency" and k x :: 'k and n :: nat and gone :: "'k list"
  show "recency_wf (recency_clear w)"
    by (simp add: recency_wf_def recency_ordered_def recency_clear_def)
  show "recency_members (recency_clear w) = {}"
    by (simp add: recency_members_def recency_clear_def)
  show "recency_room (recency_clear w) = recency_room w"
    by (simp add: recency_room_def recency_clear_def)
  show "recency_room (recency_remove k w) = recency_room w"
    by (simp add: recency_room_def recency_remove_def split: option.split)
  show size: "rc_size (fst (recency_admit k w)) = rc_size w"
    by (simp add: recency_admit_def recency_evict_kept Let_def)
  show "rc_size (recency_remove x w) = rc_size w"
    by (simp add: recency_remove_def split: option.split)
  show "recency_room (fst (recency_resize n w)) = recency_room w"
    by (simp add: recency_resize_def recency_room_def recency_evict_kept)
  show "rc_size (fst (recency_resize n w)) \<le> 2 * n"
    by (simp add: recency_resize_def recency_evict_kept)
  show "recency_room w \<le> Suc (recency_room (fst (recency_admit k w)))"
  proof (cases "0 < recency_room w")
    case True
    then show ?thesis
      using recency_tick(2) [OF True]
      by (simp add: recency_room_def recency_admit_def recency_evict_kept Let_def)
  qed simp
  assume wf: "recency_wf w"
  then have ordered: "recency_ordered w" by (simp add: recency_wf_def)
  show "recency_wf (recency_remove k w)"
    using recency_remove_ordered [OF ordered, of k] wf
    by (simp add: recency_wf_def recency_remove_eq [OF ordered])
      (meson le_trans length_filter_le)
  show "recency_members (recency_remove k w) = recency_members w - {k}"
    by (auto simp: recency_members_def recency_remove_eq [OF ordered])
  show "recency_age k (recency_remove x w) \<le> recency_age k w" if "k \<in> recency_members w" "x \<noteq> k"
    by (rule recency_remove_age [OF ordered that])
  have resized: "recency_ordered (w\<lparr>rc_size := n\<rparr>)" using ordered by (simp add: recency_ordered_def)
  show "recency_wf (fst (recency_resize n w))"
    unfolding recency_resize_def by (rule recency_evict_ordered [OF resized])
  show "recency_members w' = recency_members w - set gone \<and> set gone \<subseteq> recency_members w"
    if "recency_resize n w = (w', gone)"
    using recency_evict_members [OF resized that [unfolded recency_resize_def]]
    by (simp add: recency_members_def)
  show "finite (recency_members w)" by (simp add: recency_members_def)
  show "card (recency_members w) \<le> rc_size w"
    using wf card_image_le [of "set (rc_order w)" snd] card_length [of "rc_order w"]
    by (simp add: recency_wf_def recency_members_def)
  assume room: "0 < recency_room w"
  have touched: "recency_ordered (recency_touched k w)"
    by (rule recency_touched_ordered [OF ordered room])
  show "recency_wf (fst (recency_admit k w))"
    unfolding recency_admit_eq [OF ordered room] by (rule recency_evict_ordered [OF touched])
  show "recency_members w' = insert k (recency_members w) - set gone
      \<and> set gone \<subseteq> insert k (recency_members w)"
    if "recency_admit k w = (w', gone)"
    using recency_evict_members [OF touched that [unfolded recency_admit_eq [OF ordered room]]]
    by (simp add: recency_touched_members)
  show "k \<in> recency_members (fst (recency_admit k w)) \<and> recency_age k (fst (recency_admit k w)) = 0"
    if "0 < rc_size w"
    by (rule recency_admitted_young [OF wf room that])
  show "k \<in> recency_members (fst (recency_admit x w))
      \<and> recency_age k (fst (recency_admit x w)) \<le> Suc (recency_age k w)"
    if "k \<in> recency_members w" "Suc (recency_age k w) < rc_size w"
    by (rule recency_others_age [OF wf room that])
qed

subsection \<open>Generations\<close>

definition generations_wf :: "'k generations \<Rightarrow> bool" where
  "generations_wf w \<longleftrightarrow> distinct (gn_young w) \<and> distinct (gn_old w)
    \<and> length (gn_young w) \<le> gn_size w \<and> length (gn_old w) \<le> gn_size w"

definition generations_members :: "'k generations \<Rightarrow> 'k set" where
  "generations_members w = set (gn_young w) \<union> set (gn_old w)"

text \<open>Nothing of this window runs out.\<close>

definition generations_room :: "'k generations \<Rightarrow> nat" where
  "generations_room w = 2 ^ 64"

definition generations_bound :: "'k generations \<Rightarrow> nat" where
  "generations_bound w = 2 * gn_size w"

definition generations_age :: "'k \<Rightarrow> 'k generations \<Rightarrow> nat" where
  "generations_age k w = (if k \<in> set (gn_young w) then 0 else length (gn_young w))"

lemma generations_admit_cases:
  assumes "generations_wf w"
  obtains (none) "gn_size w = 0" "generations_admit k w = (w, [k])"
  | (young) "0 < gn_size w" "k \<in> set (gn_young w)" "generations_admit k w = (w, [])"
  | (room) "k \<notin> set (gn_young w)" "length (gn_young w) < gn_size w"
      "generations_admit k w = (w\<lparr>gn_young := k # gn_young w\<rparr>, [])"
  | (bump) "0 < gn_size w" "k \<notin> set (gn_young w)" "length (gn_young w) = gn_size w"
      "generations_admit k w = (w\<lparr>gn_young := [k], gn_old := gn_young w\<rparr>,
        filter (\<lambda>l. l \<noteq> k) (filter (\<lambda>l. l \<notin> set (gn_young w)) (gn_old w)))"
  using assms
  by (cases "gn_size w = 0"; cases "k \<in> set (gn_young w)"; cases "gn_size w \<le> length (gn_young w)")
    (auto simp: generations_admit_def generations_wf_def bump_def List.insert_def Let_def)

lemma generations_admit_size: "gn_size (fst (generations_admit k w)) = gn_size w"
  by (simp add: generations_admit_def bump_def Let_def)

lemma generations_resize_kept:
  fixes rank :: "'k \<Rightarrow> nat"
  assumes "generations_wf w" "generations_resize rank n w = (w', gone)"
  shows "gn_size w' = n" "gn_old w' = []" "length (gn_young w') \<le> n" "distinct (gn_young w')"
    "set (gn_young w') \<subseteq> generations_members w"
    "set gone = generations_members w - set (gn_young w')"
proof -
  let ?young = "sort_key rank (gn_young w)" and ?old = "sort_key rank (gn_old w)"
  let ?all = "?young @ filter (\<lambda>k. k \<notin> set ?young) ?old"
  have young: "gn_young w' = take n ?all"
    and gone: "gone = sort_key rank (remdups (filter (\<lambda>k. k \<notin> set (take n ?all)) (?young @ ?old)))"
    using assms(2) by (simp_all add: generations_resize_def Let_def) auto
  show "gn_size w' = n" "gn_old w' = []"
    using assms(2) by (auto simp: generations_resize_def Let_def)
  show "length (gn_young w') \<le> n" by (simp add: young)
  have "distinct ?all" using assms(1) by (auto simp: generations_wf_def)
  then show "distinct (gn_young w')" unfolding young by (rule distinct_take)
  have all: "set ?all = generations_members w" by (auto simp: generations_members_def)
  show "set (gn_young w') \<subseteq> generations_members w"
    using set_take_subset [of n ?all] unfolding young all by simp
  show "set gone = generations_members w - set (gn_young w')"
    unfolding gone young by (auto simp: generations_members_def)
qed

interpretation by_generation: lasting_window generations_members generations_wf generations_room
  generations_bound generations_admit generations_remove generations_clear
  "generations_resize rank" generations_age gn_size
  for rank :: "'k \<Rightarrow> nat"
proof unfold_locales
  fix w w' :: "'k generations" and k x :: 'k and n :: nat and gone :: "'k list"
  show "generations_wf w \<Longrightarrow> generations_wf (generations_clear w)"
    by (simp add: generations_wf_def generations_clear_def)
  show "generations_members (generations_clear w) = {}"
    by (simp add: generations_members_def generations_clear_def)
  show "generations_room (generations_clear w) = generations_room w"
    "generations_room (generations_remove k w) = generations_room w"
    "generations_room (fst (generations_resize rank n w)) = generations_room w"
    "generations_room w \<le> Suc (generations_room (fst (generations_admit k w)))"
    by (simp_all add: generations_room_def)
  show "gn_size (fst (generations_admit k w)) = gn_size w"
    "generations_bound (fst (generations_admit k w)) = generations_bound w"
    by (simp_all add: generations_admit_size generations_bound_def)
  show "gn_size (generations_remove x w) = gn_size w" by (simp add: generations_remove_def)
  show "generations_age k (generations_remove x w) \<le> generations_age k w" if "x \<noteq> k"
    using that by (simp add: generations_age_def generations_remove_def length_remove1)
  show "generations_bound (fst (generations_resize rank n w)) \<le> 2 * n"
    by (simp add: generations_bound_def generations_resize_def Let_def)
  assume wf: "generations_wf w"
  then have sizes: "length (gn_young w) \<le> gn_size w" "length (gn_old w) \<le> gn_size w"
    and distinct: "distinct (gn_young w)" "distinct (gn_old w)"
    by (auto simp: generations_wf_def)
  show "generations_wf (generations_remove k w)"
    using wf by (auto simp: generations_wf_def generations_remove_def distinct_remove1 length_remove1)
  show "generations_members (generations_remove k w) = generations_members w - {k}"
    using distinct by (auto simp: generations_members_def generations_remove_def set_remove1_eq)
  show "generations_wf (fst (generations_resize rank n w))"
    using generations_resize_kept [OF wf, of rank n] by (simp add: generations_wf_def prod_eq_iff)
  show "generations_members w' = generations_members w - set gone \<and> set gone \<subseteq> generations_members w"
    if "generations_resize rank n w = (w', gone)"
    using generations_resize_kept [OF wf that] by (auto simp: generations_members_def)
  show "finite (generations_members w)" by (simp add: generations_members_def)
  have "card (generations_members w) \<le> card (set (gn_young w)) + card (set (gn_old w))"
    unfolding generations_members_def by (rule card_Un_le)
  then show "card (generations_members w) \<le> generations_bound w"
    using sizes distinct by (simp add: generations_bound_def distinct_card)
  show "generations_wf (fst (generations_admit k w))"
    by (rule generations_admit_cases [OF wf, of k]) (use wf in \<open>auto simp: generations_wf_def\<close>)
  show "generations_members w' = insert k (generations_members w) - set gone
      \<and> set gone \<subseteq> insert k (generations_members w)"
    if "generations_admit k w = (w', gone)"
    by (rule generations_admit_cases [OF wf, of k])
      (use wf that in \<open>auto simp: generations_wf_def generations_members_def\<close>)
  show "k \<in> generations_members (fst (generations_admit k w))
      \<and> generations_age k (fst (generations_admit k w)) = 0"
    if "0 < gn_size w"
    by (rule generations_admit_cases [OF wf, of k])
      (use that in \<open>auto simp: generations_members_def generations_age_def\<close>)
  show "k \<in> generations_members (fst (generations_admit x w))
      \<and> generations_age k (fst (generations_admit x w)) \<le> Suc (generations_age k w)"
    if "k \<in> generations_members w" "Suc (generations_age k w) < gn_size w"
    by (rule generations_admit_cases [OF wf, of x])
      (use that in \<open>auto simp: generations_members_def generations_age_def split: if_splits\<close>)
qed

subsection \<open>The sum of them\<close>

fun window_members :: "'k window \<Rightarrow> 'k set" where
  "window_members (Recency w) = recency_members w"
| "window_members (Generations w) = generations_members w"

fun window_wf :: "'k window \<Rightarrow> bool" where
  "window_wf (Recency w) = recency_wf w"
| "window_wf (Generations w) = generations_wf w"

fun window_room :: "'k window \<Rightarrow> nat" where
  "window_room (Recency w) = recency_room w"
| "window_room (Generations w) = generations_room w"

fun window_bound :: "'k window \<Rightarrow> nat" where
  "window_bound (Recency w) = rc_size w"
| "window_bound (Generations w) = generations_bound w"

fun window_age :: "'k \<Rightarrow> 'k window \<Rightarrow> nat" where
  "window_age k (Recency w) = recency_age k w"
| "window_age k (Generations w) = generations_age k w"

fun window_size :: "'k window \<Rightarrow> nat" where
  "window_size (Recency w) = rc_size w"
| "window_size (Generations w) = gn_size w"

interpretation either: lasting_window window_members window_wf window_room window_bound window_admit
  window_remove window_clear "window_resize rank" window_age window_size
  for rank :: "'k \<Rightarrow> nat"
proof unfold_locales
  fix w w' :: "'k window" and k x :: 'k and n :: nat and gone :: "'k list"
  show "window_wf (fst (window_admit k w))" if "window_wf w" "0 < window_room w"
    using that by (cases w) (auto intro: by_use.admit_wf by_generation.admit_wf)
  show "window_members w' = insert k (window_members w) - set gone \<and> set gone \<subseteq> insert k (window_members w)"
    if "window_wf w" "0 < window_room w" "window_admit k w = (w', gone)"
    using that
    by (cases w) (auto simp: apfst_def map_prod_def split: prod.splits
      dest: by_use.admit_members by_generation.admit_members)
  show "window_room w \<le> Suc (window_room (fst (window_admit k w)))" if "window_wf w"
    using that by (cases w) (auto intro: by_use.admit_room by_generation.admit_room)
  show "window_wf (window_remove k w)" if "window_wf w"
    using that by (cases w) (auto intro: by_use.remove_wf by_generation.remove_wf)
  show "window_members (window_remove k w) = window_members w - {k}" if "window_wf w"
    using that by (cases w) (auto simp: by_use.remove_members by_generation.remove_members)
  show "window_room (window_remove k w) = window_room w"
    by (cases w) (simp_all add: by_use.remove_room by_generation.remove_room)
  show "window_wf (window_clear w)" if "window_wf w"
    using that by (cases w) (auto intro: by_use.clear_wf by_generation.clear_wf)
  show "window_members (window_clear w) = {}"
    by (cases w) (simp_all add: by_use.clear_members by_generation.clear_members)
  show "window_room (window_clear w) = window_room w"
    by (cases w) (simp_all add: by_use.clear_room by_generation.clear_room)
  show "window_wf (fst (window_resize rank n w))" if "window_wf w"
    using that by (cases w) (auto intro: by_use.resize_wf by_generation.resize_wf)
  show "window_members w' = window_members w - set gone \<and> set gone \<subseteq> window_members w"
    if "window_wf w" "window_resize rank n w = (w', gone)"
    using that
    by (cases w) (auto simp: apfst_def map_prod_def split: prod.splits
      dest: by_use.resize_members by_generation.resize_members)
  show "window_room (fst (window_resize rank n w)) = window_room w"
    by (cases w) (simp_all add: by_use.resize_room by_generation.resize_room)
  show "finite (window_members w)" if "window_wf w"
    using that by (cases w) (auto simp: by_use.members_finite by_generation.members_finite)
  show "card (window_members w) \<le> window_bound w" if "window_wf w"
    using that by (cases w) (auto intro: by_use.members_bound by_generation.members_bound)
  show "window_bound (fst (window_resize rank n w)) \<le> 2 * n"
    by (cases w) (simp_all add: by_use.resize_bound by_generation.resize_bound)
  show "window_bound (fst (window_admit k w)) = window_bound w"
    by (cases w) (simp_all add: by_use.admit_bound by_generation.admit_bound)
  show "window_size (fst (window_admit k w)) = window_size w"
    by (cases w) (simp_all add: by_use.admit_lasts by_generation.admit_lasts)
  show "window_size (window_remove x w) = window_size w"
    by (cases w) (simp_all add: by_use.remove_lasts by_generation.remove_lasts)
  show "window_age k (window_remove x w) \<le> window_age k w"
    if "window_wf w" "k \<in> window_members w" "x \<noteq> k"
    using that by (cases w) (auto intro: by_use.remove_age by_generation.remove_age)
  show "k \<in> window_members (fst (window_admit k w)) \<and> window_age k (fst (window_admit k w)) = 0"
    if "window_wf w" "0 < window_room w" "0 < window_size w"
    using that by (cases w) (auto dest: by_use.admitted_young by_generation.admitted_young)
  show "k \<in> window_members (fst (window_admit x w))
      \<and> window_age k (fst (window_admit x w)) \<le> Suc (window_age k w)"
    if "window_wf w" "0 < window_room w" "k \<in> window_members w" "Suc (window_age k w) < window_size w"
    using that by (cases w) (auto dest: by_use.others_age by_generation.others_age)
qed

end
