(* ===== verification/Identity_Map_Laws.thy ===== *)
theory Identity_Map_Laws
  imports Identity_Map Session_Window_Laws
begin

section \<open>What the identity map keeps\<close>

text \<open>
  How the slots change, as equations of \<open>map_of\<close>; the invariant of \<open>state.rs\<close>, a key is in the
  window exactly when its slot is anchored, kept by every call; and the two relations the
  properties rest on: the slots say what was last remembered, and a key in the window is answered.
\<close>

subsection \<open>Slots\<close>

named_theorems slot_simps \<open>the slots after an operation\<close>

lemma map_of_filter_value:
  "distinct (map fst xs) \<Longrightarrow> map_of (filter (\<lambda>p. P (snd p)) xs) k
    = (case map_of xs k of Some v \<Rightarrow> if P v then Some v else None | None \<Rightarrow> None)"
  by (induction xs) (auto simp: map_of_eq_None_iff image_iff split: option.split)

lemma keys_filter: "distinct (map fst xs) \<Longrightarrow> distinct (map fst (filter P xs))"
  by (simp add: distinct_map_filter)

lemma slots_release_distinct:
  "distinct (map fst slots) \<Longrightarrow> distinct (map fst (slots_release held gone slots))"
  by (induction gone arbitrary: slots)
    (auto simp: Let_def distinct_delete distinct_update split: option.split)

lemma slots_release_others:
  "k \<notin> set gone \<Longrightarrow> map_of (slots_release held gone slots) k = map_of slots k"
  by (induction gone arbitrary: slots)
    (auto simp: Let_def update_conv AList.delete_conv split: option.split)

lemma slots_release_weaker:
  "map_of (slots_release held gone slots) k = Some m \<Longrightarrow>
    \<exists>m0. map_of slots k = Some m0 \<and> (m = m0 \<or> (\<exists>e. m0 = Anchored (FEntity e) \<and> m = Released e))"
proof (induction gone arbitrary: slots)
  case (Cons g gone)
  let ?rest = "AList.delete g slots"
  show ?case
  proof (cases "Option.bind (map_of slots g) (slot_release (strongly held ?rest))")
    case None
    then show ?thesis using Cons.prems Cons.IH [of ?rest]
      by (auto simp: Let_def AList.delete_conv split: if_splits)
  next
    case (Some n)
    then obtain m0 where m0: "map_of slots g = Some m0" "slot_release (strongly held ?rest) m0 = Some n"
      by (auto simp: bind_eq_Some_conv)
    then have "n = m0 \<or> (\<exists>e. m0 = Anchored (FEntity e) \<and> n = Released e)"
      by (auto elim!: slot_release.elims split: if_splits)
    then show ?thesis using Some m0 Cons.prems Cons.IH [of "AList.update g n ?rest"]
      by (auto simp: Let_def AList.delete_conv update_conv split: if_splits)
  qed
qed auto

lemma slots_release_gone:
  "k \<in> set gone \<Longrightarrow> map_of (slots_release held gone slots) k \<noteq> Some (Anchored f)"
proof (induction gone arbitrary: slots)
  case (Cons g gone)
  show ?case
  proof (cases "k \<in> set gone")
    case False
    then have k: "k = g" using Cons.prems by simp
    have "slot_release s m \<noteq> Some (Anchored f)" for s m
      by (auto elim!: slot_release.elims split: if_splits)
    then have "Option.bind (map_of slots g) (slot_release s) \<noteq> Some (Anchored f)" for s
      by (auto simp: bind_eq_Some_conv)
    then show ?thesis
      using slots_release_others [OF False, of held] k
      by (auto simp: Let_def AList.delete_conv update_conv split: option.split)
  qed (use Cons.IH in \<open>auto simp: Let_def split: option.split\<close>)
qed simp

text \<open>What the program holds is not lost.\<close>

definition remembers :: "('k \<times> 'e memory) list \<Rightarrow> 'k \<Rightarrow> 'e \<Rightarrow> bool" where
  "remembers slots k e \<longleftrightarrow> map_of slots k \<in> {Some (Anchored (FEntity e)), Some (Released e)}"

lemma slots_release_held:
  "held e \<Longrightarrow> remembers slots k e \<Longrightarrow> remembers (slots_release held gone slots) k e"
proof (induction gone arbitrary: slots)
  case (Cons g gone)
  let ?rest = "AList.delete g slots"
  show ?case
  proof (cases "g = k")
    case True
    then have "Option.bind (map_of slots g) (slot_release (strongly held ?rest)) = Some (Released e)"
      using Cons.prems by (auto simp: remembers_def strongly_def)
    then show ?thesis
      using Cons.IH [of "AList.update g (Released e) ?rest"] True Cons.prems(1)
      by (simp add: Let_def remembers_def update_conv)
  next
    case False
    then have "remembers ?rest k e" "remembers (AList.update g n ?rest) k e" for n
      using Cons.prems by (auto simp: remembers_def update_conv AList.delete_conv)
    then show ?thesis using Cons.IH Cons.prems(1) by (simp add: Let_def split: option.split)
  qed
qed simp

subsection \<open>The invariant of the state\<close>

definition state_keys :: "('k, 'e) map_state \<Rightarrow> bool" where
  "state_keys s \<longleftrightarrow> distinct (map fst (im_slots s))"

definition anchored_keys :: "('k, 'e) map_state \<Rightarrow> 'k set" where
  "anchored_keys s = {k. \<exists>f. map_of (im_slots s) k = Some (Anchored f)}"

definition state_inv :: "('k, 'e) map_state \<Rightarrow> bool" where
  "state_inv s \<longleftrightarrow> state_keys s \<and> window_wf (im_window s)
    \<and> window_members (im_window s) = anchored_keys s"

lemma state_release_simps [slot_simps]:
  "im_slots (state_release held gone s) = slots_release held gone (im_slots s)"
  "im_window (state_release held gone s) = im_window s"
  "im_since_sweep (state_release held gone s) = im_since_sweep s"
  by (simp_all add: state_release_def)

lemma sweep_window [slot_simps]: "im_window (sweep held s) = im_window s"
  by (simp add: sweep_def)

lemma sweep_slots:
  assumes "state_keys s"
  shows "map_of (im_slots (sweep held s)) k = (case map_of (im_slots s) k of
      Some m \<Rightarrow> if slot_is_alive (strongly held (im_slots s)) m then Some m else None | None \<Rightarrow> None)"
  using assms by (simp add: sweep_def state_keys_def map_of_filter_value)

lemma sweep_keys: "state_keys s \<Longrightarrow> state_keys (sweep held s)"
  by (simp add: sweep_def state_keys_def keys_filter)

lemma sweep_anchored: "state_keys s \<Longrightarrow> anchored_keys (sweep held s) = anchored_keys s"
  by (auto simp: anchored_keys_def sweep_slots split: option.splits if_splits)

lemma sweep_when_due_cases:
  "sweep_when_due held s = s\<lparr>im_since_sweep := im_since_sweep s + 1\<rparr>
    \<or> sweep_when_due held s = sweep held s"
  by (auto simp: sweep_when_due_def sweep_def Let_def)

lemma sweep_when_due_window [slot_simps]: "im_window (sweep_when_due held s) = im_window s"
  using sweep_when_due_cases [of held s] by (auto simp: sweep_def)

lemma sweep_when_due_inv: "state_inv s \<Longrightarrow> state_inv (sweep_when_due held s)"
  using sweep_when_due_cases [of held s] sweep_anchored [of s held] sweep_keys [of s held]
  by (auto simp: state_inv_def sweep_window) (auto simp: state_keys_def anchored_keys_def)

lemma sweep_when_due_keys: "state_keys s \<Longrightarrow> state_keys (sweep_when_due held s)"
  using sweep_when_due_cases [of held s] sweep_keys [of s held] by (auto simp: state_keys_def)

lemma sweep_when_due_slots:
  assumes "state_keys s" "map_of (im_slots (sweep_when_due held s)) k = Some m"
  shows "map_of (im_slots s) k = Some m"
  using sweep_when_due_cases [of held s] assms sweep_slots [OF assms(1), of held k]
  by (auto split: option.splits if_splits)

lemma sweep_held:
  "state_keys s \<Longrightarrow> held e \<Longrightarrow> remembers (im_slots s) k e \<Longrightarrow> remembers (im_slots (sweep held s)) k e"
  by (auto simp: remembers_def sweep_slots strongly_def)

lemma sweep_when_due_held:
  "state_keys s \<Longrightarrow> held e \<Longrightarrow> remembers (im_slots s) k e \<Longrightarrow>
    remembers (im_slots (sweep_when_due held s)) k e"
  using sweep_when_due_cases [of held s] sweep_held [of s held e k] by (auto simp: remembers_def)

lemma sweep_when_due_anchored:
  assumes "state_keys s" "map_of (im_slots s) k = Some (Anchored f)"
  shows "map_of (im_slots (sweep_when_due held s)) k = Some (Anchored f)"
  using sweep_when_due_cases [of held s] assms sweep_slots [OF assms(1), of held k] by auto

text \<open>The window took a key and let others go: the slots follow.\<close>

lemma follow_window:
  assumes "window_members w' = S - set gone" "window_wf w'" "distinct (map fst slots)"
    and "{k. \<exists>f. map_of slots k = Some (Anchored f)} = S" "im_slots s = slots" "im_window s = w'"
  shows "state_inv (state_release held gone s)"
proof -
  have "(\<exists>f. map_of (slots_release held gone slots) k = Some (Anchored f)) \<longleftrightarrow> k \<in> S - set gone" for k
  proof (cases "k \<in> set gone")
    case True
    then show ?thesis using slots_release_gone [of k gone held slots] by blast
  next
    case False
    then show ?thesis using slots_release_others [OF False, of held slots] assms(4) by auto
  qed
  then show ?thesis
    using assms slots_release_distinct [of slots held gone]
    by (auto simp: state_inv_def state_keys_def anchored_keys_def state_release_simps)
qed

text \<open>What \<open>remember\<close> and the upgrade of \<open>recall\<close> have in common: a key is anchored and admitted.\<close>

definition anchor ::
  "('e \<Rightarrow> bool) \<Rightarrow> 'k \<Rightarrow> 'e fact \<Rightarrow> ('k \<times> 'e memory) list \<Rightarrow> ('k, 'e) map_state \<Rightarrow> ('k, 'e) map_state" where
  "anchor held k f slots s = (let (w, gone) = window_admit k (im_window s)
     in sweep_when_due held (state_release held gone
          (s\<lparr>im_slots := AList.update k (Anchored f) slots, im_window := w\<rparr>)))"

lemma state_remember_anchor: "state_remember held k f s = anchor held k f (im_slots s) s"
  by (simp add: state_remember_def anchor_def Let_def split: prod.split)

lemma state_recall_cases:
  obtains (unknown) "map_of (im_slots s) k = None" "state_recall held k s = (s, Unknown)"
  | (dead) e where "map_of (im_slots s) k = Some (Released e)"
      "\<not> strongly held (AList.delete k (im_slots s)) e"
      "state_recall held k s = (sweep_when_due (with_answer held Unknown)
        (s\<lparr>im_slots := AList.delete k (im_slots s), im_window := window_remove k (im_window s)\<rparr>), Unknown)"
  | (known) f where "map_of (im_slots s) k = Some (Anchored f)
        \<or> (\<exists>e. f = FEntity e \<and> map_of (im_slots s) k = Some (Released e))"
      "state_recall held k s = (anchor (with_answer held (fact_recall f)) k f
        (AList.delete k (im_slots s)) s, fact_recall f)"
proof (cases "map_of (im_slots s) k")
  case None
  then show ?thesis by (intro unknown) (simp_all add: state_recall_def)
next
  case (Some m)
  show ?thesis
  proof (cases m)
    case (Anchored f)
    then show ?thesis using Some
      by (intro known [of f]) (simp_all add: state_recall_def anchor_def Let_def split: prod.split)
  next
    case (Released e)
    show ?thesis
    proof (cases "strongly held (AList.delete k (im_slots s)) e")
      case True
      then show ?thesis using Some Released
        by (intro known [of "FEntity e"])
          (simp_all add: state_recall_def anchor_def Let_def split: prod.split)
    next
      case False
      then show ?thesis using Some Released
        by (intro dead [of e]) (simp_all add: state_recall_def Let_def)
    qed
  qed
qed

lemma anchor_inv:
  assumes "state_inv s" "0 < window_room (im_window s)" "distinct (map fst slots)"
    and "\<And>l. l \<noteq> k \<Longrightarrow> map_of slots l = map_of (im_slots s) l"
  shows "state_inv (anchor held k f slots s)"
proof -
  obtain w gone where admit: "window_admit k (im_window s) = (w, gone)" by fastforce
  let ?slots = "AList.update k (Anchored f) slots"
  have wf: "window_wf (im_window s)" using assms(1) by (simp add: state_inv_def)
  have S: "{l. \<exists>f. map_of ?slots l = Some (Anchored f)} = insert k (window_members (im_window s))"
    using assms(1,4) by (auto simp: state_inv_def anchored_keys_def update_conv)
  have members: "window_members w = insert k (window_members (im_window s)) - set gone"
    using either.admit_members [OF wf assms(2) admit] by blast
  have w: "window_wf w" using either.admit_wf [OF wf assms(2), of k] admit by simp
  have keys: "distinct (map fst ?slots)" using assms(3) by (rule distinct_update)
  show ?thesis
    unfolding anchor_def admit Let_def prod.case
    by (rule sweep_when_due_inv, rule follow_window [OF members w keys S]) simp_all
qed

lemma anchor_window: "im_window (anchor held k f slots s) = fst (window_admit k (im_window s))"
  by (simp add: anchor_def slot_simps split: prod.split)

lemma delete_others: "l \<noteq> k \<Longrightarrow> map_of (AList.delete k xs) l = map_of xs l"
  by (simp add: AList.delete_conv)

lemma remember_inv:
  "state_inv s \<Longrightarrow> 0 < window_room (im_window s) \<Longrightarrow> state_inv (state_remember held k f s)"
  unfolding state_remember_anchor by (rule anchor_inv) (auto simp: state_inv_def state_keys_def)

lemma forget_inv: "state_inv s \<Longrightarrow> state_inv (state_forget k s)"
  by (auto simp: state_inv_def state_keys_def anchored_keys_def state_forget_def distinct_delete
    either.remove_wf either.remove_members AList.delete_conv)

lemma recall_inv:
  assumes "state_inv s" "0 < window_room (im_window s)"
  shows "state_inv (fst (state_recall held k s))"
proof (cases rule: state_recall_cases [of s k held])
  case (dead e)
  have "state_inv (s\<lparr>im_slots := AList.delete k (im_slots s), im_window := window_remove k (im_window s)\<rparr>)"
    using forget_inv [OF assms(1), of k] by (simp add: state_forget_def)
  then show ?thesis using dead(3) sweep_when_due_inv by simp
next
  case (known f)
  have "state_inv (anchor (with_answer held (fact_recall f)) k f (AList.delete k (im_slots s)) s)"
    using assms by (intro anchor_inv) (auto simp: state_inv_def state_keys_def distinct_delete delete_others)
  then show ?thesis using known(2) by simp
qed (use assms in simp)

lemma forget_all_inv: "state_inv s \<Longrightarrow> state_inv (state_forget_all s)"
  by (auto simp: state_inv_def state_keys_def anchored_keys_def state_forget_all_def
    either.clear_wf either.clear_members)

lemma len_inv: "state_inv s \<Longrightarrow> state_inv (fst (state_len held s))"
  using sweep_anchored [of s held] sweep_keys [of s held]
  by (simp add: state_len_def state_inv_def sweep_window Let_def)

lemma resize_inv:
  assumes "state_inv s" shows "state_inv (state_resize rank held n s)"
proof -
  obtain w gone where resize: "window_resize rank n (im_window s) = (w, gone)" by fastforce
  have wf: "window_wf (im_window s)" using assms by (simp add: state_inv_def)
  have members: "window_members w = window_members (im_window s) - set gone"
    using either.resize_members [OF wf resize] by blast
  have w: "window_wf w" using either.resize_wf [OF wf, of rank n] resize by simp
  show ?thesis
    unfolding state_resize_def resize Let_def prod.case
    by (rule follow_window [OF members w])
      (use assms in \<open>auto simp: state_inv_def state_keys_def anchored_keys_def\<close>)
qed

lemma new_inv:
  "state_inv (state_new (Recency (recency_new n)))" "state_inv (state_new (Generations (generations_new n)))"
  by (auto simp: state_inv_def state_keys_def anchored_keys_def state_new_def recency_new_def
    recency_wf_def recency_ordered_def recency_members_def generations_new_def generations_wf_def
    generations_members_def)

subsection \<open>The calls of a session\<close>

text \<open>What is shown of every call is shown of the state's operations it is one of.\<close>

lemma imap_call_state:
  "id_isolation (fst (imap_call rank held c m)) = id_isolation m"
  by (cases c) (simp_all add: imap_add_def imap_add_absent_def imap_remember_def imap_get_def imap_has_def
    imap_recall_def imap_remove_def imap_clear_def imap_len_def imap_set_size_def split: prod.split)

lemma imap_call_simps [slot_simps]:
  "id_state (fst (imap_call rank held (CAdd k e) m)) =
    (if level_admits (id_isolation m) EntityKind then state_remember held k (FEntity e) (id_state m) else id_state m)"
  "id_state (fst (imap_call rank held (CAddAbsent k) m)) =
    (if level_admits (id_isolation m) AbsenceKind then state_remember held k FAbsence (id_state m) else id_state m)"
  "id_state (fst (imap_call rank held (CGet k) m)) = fst (state_recall held k (id_state m))"
  "id_state (fst (imap_call rank held (CHas k) m)) = fst (state_recall held k (id_state m))"
  "id_state (fst (imap_call rank held (CRemove k) m)) = state_forget k (id_state m)"
  "id_state (fst (imap_call rank held CClear m)) = state_forget_all (id_state m)"
  "id_state (fst (imap_call rank held CLen m)) = fst (state_len held (id_state m))"
  "id_state (fst (imap_call rank held (CSetSize n) m)) = state_resize rank held n (id_state m)"
  by (simp_all add: imap_add_def imap_add_absent_def imap_remember_def imap_get_def imap_has_def
    imap_recall_def imap_remove_def imap_clear_def imap_len_def imap_set_size_def split: prod.split)

declare imap_call.simps [simp del]

definition imap_inv :: "('k, 'e) identity_map \<Rightarrow> bool" where
  "imap_inv m \<longleftrightarrow> state_inv (id_state m)"

definition imap_room :: "('k, 'e) identity_map \<Rightarrow> nat" where
  "imap_room m = window_room (im_window (id_state m))"

lemma imap_call_inv: "imap_inv m \<Longrightarrow> 0 < imap_room m \<Longrightarrow> imap_inv (fst (imap_call rank held c m))"
  unfolding imap_inv_def imap_room_def
  by (cases c) (simp_all add: slot_simps remember_inv recall_inv forget_inv forget_all_inv len_inv resize_inv)

lemma state_room:
  assumes "state_inv s"
  shows "window_room (im_window s) \<le> Suc (window_room (im_window (state_remember held k f s)))"
    "window_room (im_window s) \<le> Suc (window_room (im_window (fst (state_recall held k s))))"
    "window_room (im_window (state_forget k s)) = window_room (im_window s)"
    "window_room (im_window (state_forget_all s)) = window_room (im_window s)"
    "window_room (im_window (fst (state_len held s))) = window_room (im_window s)"
    "window_room (im_window (state_resize rank held n s)) = window_room (im_window s)"
proof -
  have wf: "window_wf (im_window s)" using assms by (simp add: state_inv_def)
  show "window_room (im_window s) \<le> Suc (window_room (im_window (state_remember held k f s)))"
    using either.admit_room [OF wf] by (simp add: state_remember_anchor anchor_window)
  show "window_room (im_window s) \<le> Suc (window_room (im_window (fst (state_recall held k s))))"
    by (cases rule: state_recall_cases [of s k held])
      (simp_all add: anchor_window either.admit_room [OF wf] slot_simps either.remove_room)
  show "window_room (im_window (state_resize rank held n s)) = window_room (im_window s)"
    using either.resize_room [of rank n "im_window s"]
    by (simp add: state_resize_def slot_simps case_prod_unfold Let_def)
qed (simp_all add: state_forget_def state_forget_all_def state_len_def Let_def slot_simps
  either.remove_room either.clear_room)

lemma imap_call_room: "imap_inv m \<Longrightarrow> imap_room m \<le> Suc (imap_room (fst (imap_call rank held c m)))"
  using state_room [of "id_state m"]
  by (cases c) (simp_all add: imap_inv_def imap_room_def slot_simps)

lemma imap_run_inv:
  "imap_inv m \<Longrightarrow> length cs \<le> imap_room m \<Longrightarrow>
    imap_inv (imap_run rank cs m) \<and> imap_room m \<le> length cs + imap_room (imap_run rank cs m)"
proof (induction cs arbitrary: m)
  case (Cons c cs)
  have "imap_inv (fst (imap_call rank (fst c) (snd c) m))"
    using Cons.prems by (intro imap_call_inv) auto
  then show ?case
    using Cons.IH [of "fst (imap_call rank (fst c) (snd c) m)"] Cons.prems(2)
      imap_call_room [OF Cons.prems(1), of rank "fst c" "snd c"] by simp
qed simp

lemma imap_run_append: "imap_run rank (cs @ ds) m = imap_run rank ds (imap_run rank cs m)"
  by (induction cs arbitrary: m) simp_all

lemma imap_run_isolation: "id_isolation (imap_run rank cs m) = id_isolation m"
  by (induction cs arbitrary: m) (simp_all add: imap_call_state)

subsection \<open>What was last recorded\<close>

text \<open>
  The specification of the map: the last fact recorded for each key that the level admits, until
  it is removed.
\<close>

fun recorded :: "isolation_level \<Rightarrow> ('k, 'e) session_call \<Rightarrow> ('k \<rightharpoonup> 'e fact) \<Rightarrow> ('k \<rightharpoonup> 'e fact)" where
  "recorded level (CAdd k e) mem = (if level_admits level EntityKind then mem(k \<mapsto> FEntity e) else mem)"
| "recorded level (CAddAbsent k) mem = (if level_admits level AbsenceKind then mem(k \<mapsto> FAbsence) else mem)"
| "recorded level (CRemove k) mem = mem(k := None)"
| "recorded level CClear mem = (\<lambda>_. None)"
| "recorded level _ mem = mem"

primrec history :: "isolation_level \<Rightarrow> ('h \<times> ('k, 'e) session_call) list \<Rightarrow> ('k \<rightharpoonup> 'e fact)
    \<Rightarrow> ('k \<rightharpoonup> 'e fact)" where
  "history level [] mem = mem"
| "history level (c # cs) mem = history level cs (recorded level (snd c) mem)"

fun fact_of :: "'e memory \<Rightarrow> 'e fact" where
  "fact_of (Anchored f) = f"
| "fact_of (Released e) = FEntity e"

definition agrees :: "('k \<rightharpoonup> 'e fact) \<Rightarrow> ('k, 'e) map_state \<Rightarrow> bool" where
  "agrees mem s \<longleftrightarrow> state_keys s \<and> (\<forall>k m. map_of (im_slots s) k = Some m \<longrightarrow> mem k = Some (fact_of m))"

definition lawful :: "isolation_level \<Rightarrow> ('k \<rightharpoonup> 'e fact) \<Rightarrow> bool" where
  "lawful level mem \<longleftrightarrow> (\<forall>k f. mem k = Some f \<longrightarrow> level_admits level (fact_kind_of f))"

lemma agrees_release:
  assumes "agrees mem s" shows "agrees mem (state_release held gone s)"
proof -
  have "mem k = Some (fact_of m)" if "map_of (slots_release held gone (im_slots s)) k = Some m" for k m
  proof -
    from slots_release_weaker [OF that]
    obtain m0 where m0: "map_of (im_slots s) k = Some m0"
      and m: "m = m0 \<or> (\<exists>e. m0 = Anchored (FEntity e) \<and> m = Released e)" by blast
    have "mem k = Some (fact_of m0)" using assms m0 by (simp add: agrees_def del: map_of_eq_Some_iff)
    then show ?thesis using m by auto
  qed
  then show ?thesis
    using assms slots_release_distinct [of "im_slots s" held gone]
    by (simp add: agrees_def state_keys_def state_release_simps del: map_of_eq_Some_iff)
qed

lemma agrees_sweep: "agrees mem s \<Longrightarrow> agrees mem (sweep held s)"
  by (auto simp: agrees_def sweep_keys sweep_slots split: option.splits if_splits)

lemma agrees_sweep_when_due: "agrees mem s \<Longrightarrow> agrees mem (sweep_when_due held s)"
  using sweep_when_due_cases [of held s] agrees_sweep [of mem s held]
  by (auto simp: agrees_def state_keys_def)

lemma agrees_anchor:
  assumes "mem k = Some f" "distinct (map fst slots)"
    and "\<And>l m. l \<noteq> k \<Longrightarrow> map_of slots l = Some m \<Longrightarrow> mem l = Some (fact_of m)"
  shows "agrees mem (anchor held k f slots s)"
proof -
  obtain w gone where admit: "window_admit k (im_window s) = (w, gone)" by fastforce
  have "agrees mem (s\<lparr>im_slots := AList.update k (Anchored f) slots, im_window := w\<rparr>)"
    unfolding agrees_def state_keys_def
    using assms by (auto simp: distinct_update update_conv split: if_splits simp del: map_of_eq_Some_iff)
  then show ?thesis unfolding anchor_def admit Let_def prod.case
    by (rule agrees_sweep_when_due [OF agrees_release])
qed

lemma agrees_others:
  assumes "agrees mem s" shows "map_of (im_slots s) l = Some m \<Longrightarrow> mem l = Some (fact_of m)"
  using assms by (simp add: agrees_def)

lemma agrees_remember:
  assumes "agrees mem s" shows "agrees (mem(k \<mapsto> f)) (state_remember held k f s)"
  unfolding state_remember_anchor
  by (rule agrees_anchor) (use assms in \<open>auto simp: agrees_def state_keys_def\<close>)

lemma agrees_delete:
  assumes "agrees mem s"
  shows "agrees (mem(k := None)) (s\<lparr>im_slots := AList.delete k (im_slots s), im_window := w\<rparr>)"
    "agrees mem (s\<lparr>im_slots := AList.delete k (im_slots s), im_window := w\<rparr>)"
  using assms unfolding agrees_def state_keys_def
  by (auto simp: distinct_delete AList.delete_conv split: if_splits)

lemma agrees_recall:
  assumes "agrees mem s" shows "agrees mem (fst (state_recall held k s))"
proof (cases rule: state_recall_cases [of s k held])
  case (dead e)
  then show ?thesis using agrees_sweep_when_due [OF agrees_delete(2) [OF assms]] by simp
next
  case (known f)
  have "mem k = Some f" using known(1) agrees_others [OF assms, of k] by auto
  then have "agrees mem (anchor (with_answer held (fact_recall f)) k f (AList.delete k (im_slots s)) s)"
    by (rule agrees_anchor)
      (use assms in \<open>auto simp: agrees_def state_keys_def distinct_delete delete_others\<close>)
  then show ?thesis using known(2) by simp
qed (use assms in simp)

lemma agrees_call:
  assumes "agrees mem (id_state m)"
  shows "agrees (recorded (id_isolation m) c mem) (id_state (fst (imap_call rank held c m)))"
proof (cases c)
  case CClear
  then show ?thesis by (simp add: slot_simps agrees_def state_keys_def state_forget_all_def)
next
  case CLen
  then show ?thesis using agrees_sweep [OF assms] by (simp add: slot_simps state_len_def Let_def)
next
  case (CSetSize n)
  have "agrees mem (id_state m\<lparr>im_window := w\<rparr>)" for w
    using assms by (simp add: agrees_def state_keys_def)
  then show ?thesis using CSetSize
    by (auto simp: slot_simps state_resize_def intro!: agrees_release split: prod.split)
qed (use assms in \<open>simp_all add: slot_simps agrees_remember agrees_recall agrees_delete state_forget_def\<close>)

lemma agrees_run:
  "agrees mem (id_state m) \<Longrightarrow>
    agrees (history (id_isolation m) cs mem) (id_state (imap_run rank cs m))"
proof (induction cs arbitrary: m mem)
  case (Cons c cs)
  show ?case
    using Cons.IH [OF agrees_call [OF Cons.prems, of "snd c" rank "fst c"]] by (simp add: imap_call_state)
qed simp

lemma agrees_new: "agrees Map.empty (state_new w)"
  by (simp add: agrees_def state_keys_def state_new_def)

lemma lawful_history: "lawful level mem \<Longrightarrow> lawful level (history level cs mem)"
proof (induction cs arbitrary: mem)
  case (Cons c cs)
  have "lawful level (recorded level (snd c) mem)"
    using Cons.prems by (cases "snd c") (auto simp: lawful_def)
  then show ?case using Cons.IH by simp
qed simp

text \<open>What the map says of a fact.\<close>

definition answer_of :: "'e fact option \<Rightarrow> 'e lookup" where
  "answer_of known = (case known of Some f \<Rightarrow> fact_recall f | None \<Rightarrow> Unknown)"

lemma admitted_known:
  "level_admits level (fact_kind_of f) \<Longrightarrow> admitted (level_admits level) (fact_recall f) = fact_recall f"
  by (cases f) (simp_all add: admitted_def)

lemma recall_answer:
  assumes "agrees mem s"
  shows "snd (state_recall held k s) \<in> {Unknown, answer_of (mem k)}"
proof (cases rule: state_recall_cases [of s k held])
  case (known f)
  have "mem k = Some f" using known(1) agrees_others [OF assms, of k] by auto
  then show ?thesis using known(2) by (simp add: answer_of_def)
qed simp_all

lemma get_answer:
  assumes "agrees mem (id_state m)"
  shows "snd (imap_get held k m) \<in> {Unknown, answer_of (mem k)}"
proof -
  have "snd (imap_get held k m) = admitted (level_admits (id_isolation m)) (snd (state_recall held k (id_state m)))"
    by (simp add: imap_get_def imap_recall_def split: prod.split)
  then show ?thesis
    using recall_answer [OF assms, of held k] by (auto simp: admitted_def split: lookup.splits)
qed

lemma anchored_answer:
  assumes "map_of (im_slots (id_state m)) k = Some (Anchored f)" "level_admits (id_isolation m) (fact_kind_of f)"
  shows "snd (imap_get held k m) = fact_recall f"
proof -
  have "snd (state_recall held k (id_state m)) = fact_recall f"
    using assms(1) by (simp add: state_recall_def Let_def split: prod.split)
  then show ?thesis
    using admitted_known [OF assms(2)] by (simp add: imap_get_def imap_recall_def case_prod_unfold Let_def)
qed

lemma held_answer:
  assumes "remembers (im_slots (id_state m)) k e" "held e" "level_admits (id_isolation m) EntityKind"
  shows "snd (imap_get held k m) = Found e"
proof -
  have "snd (state_recall held k (id_state m)) = Found e"
    using assms(1,2) by (auto simp: remembers_def state_recall_def strongly_def Let_def split: prod.split)
  then show ?thesis
    using admitted_known [of "id_isolation m" "FEntity e"] assms(3)
    by (simp add: imap_get_def imap_recall_def case_prod_unfold Let_def)
qed

subsection \<open>What the program holds stays known\<close>

text \<open>A call that records nothing else of a key and does not forget it.\<close>

fun spares :: "'k \<Rightarrow> ('k, 'e) session_call \<Rightarrow> bool" where
  "spares k (CAdd l _) = (l \<noteq> k)"
| "spares k (CAddAbsent l) = (l \<noteq> k)"
| "spares k (CRemove l) = (l \<noteq> k)"
| "spares k CClear = False"
| "spares k _ = True"

lemma spares_recorded: "spares k c \<Longrightarrow> recorded level c mem k = mem k"
  by (cases c) auto

lemma spares_history: "list_all (\<lambda>c. spares k (snd c)) cs \<Longrightarrow> history level cs mem k = mem k"
  by (induction cs arbitrary: mem) (auto simp: spares_recorded)

lemma anchor_held:
  assumes "held e" "distinct (map fst slots)" "if l = k then f = FEntity e else remembers slots k e"
  shows "remembers (im_slots (anchor held l f slots s)) k e"
proof -
  obtain w gone where admit: "window_admit l (im_window s) = (w, gone)" by fastforce
  let ?s = "s\<lparr>im_slots := AList.update l (Anchored f) slots, im_window := w\<rparr>"
  have "remembers (im_slots ?s) k e"
    using assms(2,3) by (auto simp: remembers_def update_conv split: if_splits simp del: map_of_eq_Some_iff)
  then have "remembers (im_slots (state_release held gone ?s)) k e"
    using assms(1) by (simp add: state_release_simps slots_release_held)
  moreover have "state_keys (state_release held gone ?s)"
    using assms(2) by (simp add: state_keys_def state_release_simps slots_release_distinct distinct_update)
  ultimately show ?thesis unfolding anchor_def admit Let_def prod.case
    using assms(1) by (intro sweep_when_due_held)
qed

lemma recall_held:
  assumes "held e" "state_keys s" "remembers (im_slots s) k e"
  shows "remembers (im_slots (fst (state_recall held l s))) k e"
proof (cases rule: state_recall_cases [of s l held])
  case (dead d)
  then have "l \<noteq> k \<or> d \<noteq> e" using assms by (auto simp: remembers_def strongly_def)
  moreover have "l = k \<Longrightarrow> d = e" using dead(1) assms(3) by (auto simp: remembers_def)
  ultimately have l: "l \<noteq> k" by blast
  let ?s = "s\<lparr>im_slots := AList.delete l (im_slots s), im_window := window_remove l (im_window s)\<rparr>"
  have "remembers (im_slots (sweep_when_due (with_answer held Unknown) ?s)) k e"
    by (rule sweep_when_due_held)
      (use assms l in \<open>auto simp: with_answer_def remembers_def state_keys_def distinct_delete delete_others\<close>)
  then show ?thesis using dead(3) by simp
next
  case (known f)
  have "remembers (im_slots (anchor (with_answer held (fact_recall f)) l f
      (AList.delete l (im_slots s)) s)) k e"
    by (rule anchor_held)
      (use assms known(1) in
        \<open>auto simp: with_answer_def remembers_def state_keys_def distinct_delete delete_others
          simp del: map_of_eq_Some_iff\<close>)
  then show ?thesis using known(2) by simp
qed (use assms in simp)

lemma remember_held:
  assumes "held e" "state_keys s" "remembers (im_slots s) k e" "l \<noteq> k"
  shows "remembers (im_slots (state_remember held l f s)) k e"
  unfolding state_remember_anchor
  by (rule anchor_held) (use assms in \<open>auto simp: state_keys_def\<close>)

lemma forget_held:
  assumes "remembers (im_slots s) k e" "l \<noteq> k"
  shows "remembers (im_slots (state_forget l s)) k e"
  using assms by (simp add: remembers_def state_forget_def delete_others)

lemma call_held:
  assumes "held e" "state_keys (id_state m)" "remembers (im_slots (id_state m)) k e" "spares k c"
  shows "remembers (im_slots (id_state (fst (imap_call rank held c m)))) k e"
proof (cases c)
  case CLen
  then show ?thesis using sweep_held [of "id_state m" held, OF assms(2,1,3)] by (simp add: slot_simps state_len_def Let_def)
next
  case (CSetSize n)
  then show ?thesis using slots_release_held [of held, OF assms(1,3)]
    by (simp add: slot_simps state_resize_def split: prod.split)
qed (use assms in \<open>auto simp: slot_simps intro: remember_held recall_held forget_held\<close>)

lemma call_keys: "state_keys (id_state m) \<Longrightarrow> state_keys (id_state (fst (imap_call rank held c m)))"
proof -
  assume "state_keys (id_state m)"
  then have "agrees (map_option fact_of \<circ> map_of (im_slots (id_state m))) (id_state m)"
    by (simp add: agrees_def)
  from agrees_call [OF this] show ?thesis by (simp add: agrees_def)
qed

lemma run_held:
  assumes "state_keys (id_state m)" "remembers (im_slots (id_state m)) k e"
    and "list_all (\<lambda>c. fst c e \<and> spares k (snd c)) cs"
  shows "remembers (im_slots (id_state (imap_run rank cs m))) k e"
  using assms
proof (induction cs arbitrary: m)
  case (Cons c cs)
  let ?m = "fst (imap_call rank (fst c) (snd c) m)"
  have "remembers (im_slots (id_state ?m)) k e" using Cons.prems by (intro call_held) auto
  then show ?case using Cons.IH [of ?m] call_keys [OF Cons.prems(1), of rank "fst c" "snd c"] Cons.prems(3)
    by simp
qed simp

subsection \<open>What was used recently stays known\<close>

fun resizes :: "('k, 'e) session_call \<Rightarrow> bool" where
  "resizes (CSetSize _) = True"
| "resizes _ = False"

text \<open>The key is in the window, and fewer than \<open>n\<close> admissions are needed before it may go.\<close>

definition recent :: "'k \<Rightarrow> nat \<Rightarrow> ('k, 'e) identity_map \<Rightarrow> bool" where
  "recent k n m \<longleftrightarrow> imap_inv m \<and> k \<in> window_members (im_window (id_state m))
    \<and> window_age k (im_window (id_state m)) + n < window_size (im_window (id_state m))"

lemma recent_window:
  assumes "recent k (Suc n) m" "0 < imap_room m" "spares k c" "\<not> resizes c"
  shows "recent k n (fst (imap_call rank held c m))"
proof -
  let ?w = "im_window (id_state m)" and ?w' = "im_window (id_state (fst (imap_call rank held c m)))"
  have inv: "state_inv (id_state m)" and wf: "window_wf ?w" and mem: "k \<in> window_members ?w"
    and age: "Suc (window_age k ?w) < window_size ?w" and room: "0 < window_room ?w"
    using assms(1,2) by (auto simp: recent_def imap_inv_def state_inv_def imap_room_def)
  have recalled: "im_window (fst (state_recall held l (id_state m))) \<in>
      {?w, fst (window_admit l ?w)} \<union> {v. l \<noteq> k \<and> v = window_remove l ?w}" for l
  proof (cases rule: state_recall_cases [of "id_state m" l held])
    case (dead d)
    have "l \<noteq> k" using dead(1) mem inv by (auto simp: state_inv_def anchored_keys_def)
    then show ?thesis using dead(3) by (simp add: slot_simps)
  qed (simp_all add: anchor_window)
  have "?w' = ?w \<or> (\<exists>l. ?w' = fst (window_admit l ?w)) \<or> (\<exists>l. l \<noteq> k \<and> ?w' = window_remove l ?w)"
  proof (cases c)
    case (CGet l) then show ?thesis using recalled [of l] by (auto simp: slot_simps)
  next
    case (CHas l) then show ?thesis using recalled [of l] by (auto simp: slot_simps)
  qed (use assms(3,4) in \<open>auto simp: slot_simps state_remember_anchor anchor_window state_forget_def
      state_len_def Let_def\<close>)
  then have "k \<in> window_members ?w' \<and> window_age k ?w' \<le> Suc (window_age k ?w)
      \<and> window_size ?w' = window_size ?w"
    using either.others_age [OF wf room mem age] either.admit_lasts either.remove_age [OF wf mem]
      either.remove_lasts either.remove_members [OF wf] mem
    by (metis Diff_iff le_SucI order_refl singletonD)
  moreover have "imap_inv (fst (imap_call rank held c m))"
    using assms(1,2) by (intro imap_call_inv) (auto simp: recent_def)
  ultimately show ?thesis using assms(1) by (auto simp: recent_def)
qed

lemma recent_run:
  assumes "recent k (length cs) m" "length cs \<le> imap_room m"
    and "list_all (\<lambda>c. spares k (snd c) \<and> \<not> resizes (snd c)) cs"
  shows "recent k 0 (imap_run rank cs m)"
  using assms
proof (induction cs arbitrary: m)
  case (Cons c cs)
  have "recent k (length cs) (fst (imap_call rank (fst c) (snd c) m))"
    using Cons.prems by (intro recent_window) auto
  then show ?case
    using Cons.IH [of "fst (imap_call rank (fst c) (snd c) m)"] Cons.prems
      imap_call_room [of m rank "fst c" "snd c"] by (auto simp: recent_def)
qed simp

lemma recent_answer:
  assumes "recent k 0 m" "agrees mem (id_state m)" "mem k = Some f" "lawful (id_isolation m) mem"
  shows "snd (imap_get held k m) = fact_recall f"
proof -
  obtain g where g: "map_of (im_slots (id_state m)) k = Some (Anchored g)"
    using assms(1) by (auto simp: recent_def imap_inv_def state_inv_def anchored_keys_def)
  then have "g = f" using agrees_others [OF assms(2), of k "Anchored g"] assms(3) by simp
  then show ?thesis
    using g assms(3,4) by (intro anchored_answer) (auto simp: lawful_def)
qed

end
