(* ===== verification/Session_Properties.thy ===== *)
theory Session_Properties
  imports Identity_Map_Laws
begin

section \<open>Properties of the identity map\<close>

text \<open>The claims about the identity map of a session, and their witnesses.\<close>

lemma new_map:
  assumes "m \<in> {imap_new n level, imap_generational n level}"
  shows "imap_inv m" "2 ^ 64 - 1 \<le> imap_room m"
  using assms new_inv
  by (auto simp: imap_inv_def imap_new_def imap_generational_def imap_over_def imap_room_def
    state_new_def recency_new_def recency_room_def generations_room_def)

lemma over_agrees:
  "agrees (history level cs Map.empty) (id_state (imap_run rank cs (imap_over w level)))"
  using agrees_run [of Map.empty "imap_over w level" cs rank] agrees_new [of w]
  by (simp add: imap_over_def)

lemma over_isolation: "id_isolation (imap_run rank cs (imap_over w level)) = level"
  by (simp add: imap_run_isolation imap_over_def)

text \<open>
  C19: whatever the kind and the size of the window, whatever the program holds at each call and in
  whatever order its calls come, a lookup answers with the last fact recorded for the key that the
  isolation level admits, or says it knows nothing. So no stale entity and no phantom absence is
  answered; in particular, below repeatable read nothing is.
\<close>
theorem lookup_answers_the_last_fact:
  "snd (imap_get held k (imap_run rank cs (imap_over w level)))
    \<in> {Unknown, answer_of (history level cs Map.empty k)}"
  by (rule get_answer [OF over_agrees])

text \<open>
  C20: after any calls fewer than a clock of 64 bits can count, of a map with either window, a key is
  in the window exactly when its slot is anchored, no key has two slots, and the anchored slots are
  no more than the bound of the window, its size for an order of last use and twice its size for
  generations.
\<close>
theorem window_holds_the_anchored_keys:
  assumes "m \<in> {imap_new n level, imap_generational n level}" "length cs < 2 ^ 64"
    and "s = id_state (imap_run rank cs m)"
  shows "distinct (map fst (im_slots s))
    \<and> window_members (im_window s) = {k. \<exists>f. map_of (im_slots s) k = Some (Anchored f)}
    \<and> card {k. \<exists>f. map_of (im_slots s) k = Some (Anchored f)} \<le> window_bound (im_window s)"
proof -
  have "imap_inv m" "length cs \<le> imap_room m"
    using assms(2) new_map [OF assms(1)] by auto
  then have "state_inv s" using imap_run_inv [of m cs rank] assms(3) by (simp add: imap_inv_def)
  then have "state_keys s" "window_wf (im_window s)" "window_members (im_window s) = anchored_keys s"
    by (auto simp: state_inv_def)
  then show ?thesis
    using either.members_bound [of "im_window s"] by (simp add: state_keys_def anchored_keys_def)
qed

lemma window_holds_the_anchored_keys_witness:
  "let s = id_state (imap_run id [(\<lambda>_. False, CAdd 1 (10 :: nat)), (\<lambda>e. e = 10, CAdd 2 20),
        (\<lambda>_. True, CGet 1)] (imap_new 1 Serializable))
    in distinct (map fst (im_slots s))
    \<and> window_members (im_window s) = {k. \<exists>f. map_of (im_slots s) k = Some (Anchored f)}
    \<and> card {k. \<exists>f. map_of (im_slots s) k = Some (Anchored f)} \<le> window_bound (im_window s)"
  unfolding Let_def
  by (rule window_holds_the_anchored_keys
    [where m = "imap_new 1 Serializable" and n = 1 and level = Serializable and rank = id
     and cs = "[(\<lambda>_. False, CAdd 1 10), (\<lambda>e. e = 10, CAdd 2 20), (\<lambda>_. True, CGet 1)]"]) simp_all

text \<open>
  C21: an entity the program goes on holding is the one every later lookup of its key hands out, at
  a level that admits entities, however small the window and however many other keys are used in
  between: one instance per session. Only recording something else for the key, removing it or
  clearing the map ends this.
\<close>
theorem held_entity_is_found:
  assumes "level_admits level EntityKind" "held0 e"
    and "list_all (\<lambda>c. fst c e \<and> spares k (snd c)) later" "held e"
  shows "snd (imap_get held k (imap_run rank (before @ (held0, CAdd k e) # later) (imap_over w level)))
    = Found e"
proof -
  let ?m = "imap_run rank before (imap_over w level)"
  let ?n = "fst (imap_call rank held0 (CAdd k e) ?m)"
  have keys: "state_keys (id_state ?m)"
    using over_agrees [of level before rank w] by (simp add: agrees_def)
  have "remembers (im_slots (id_state ?n)) k e"
    using keys assms(1,2) over_isolation [of rank before w level]
    by (auto simp: slot_simps state_remember_anchor state_keys_def intro!: anchor_held)
  moreover have "state_keys (id_state ?n)" by (rule call_keys [OF keys])
  ultimately have "remembers (im_slots (id_state (imap_run rank later ?n))) k e"
    using assms(3) by (intro run_held)
  then show ?thesis
    using assms(1,4) by (intro held_answer) (simp_all add: imap_run_append imap_run_isolation
      imap_call_state imap_over_def)
qed

lemma held_entity_is_found_witness:
  "snd (imap_get (\<lambda>e. e = 10) 1 (imap_run id ([] @ (\<lambda>e. e = 10, CAdd 1 (10 :: nat))
      # [(\<lambda>e. e = 10, CAdd 2 20), (\<lambda>e. e = 10, CGet 3), (\<lambda>e. e = 10, CSetSize 0), (\<lambda>e. e = 10, CLen)])
    (imap_over (Generations (generations_new 1)) RepeatableRead))) = Found 10"
  by (rule held_entity_is_found) simp_all

text \<open>
  A fact the level admits is answered, held by anyone or not, and an absence as well as an
  entity, while fewer calls than the size of the window have come since it was recorded and none of
  them records, removes or resizes: with either kind of window.
\<close>
theorem recent_fact_is_answered:
  assumes "m0 \<in> {imap_new n level, imap_generational n level}"
    and "level_admits level (fact_kind_of f)"
    and "call = (case f of FEntity e \<Rightarrow> CAdd k e | FAbsence \<Rightarrow> CAddAbsent k)"
    and "list_all (\<lambda>c. spares k (snd c) \<and> \<not> resizes (snd c)) later"
    and "length later < window_size (im_window (id_state (imap_run rank before m0)))"
    and "Suc (length before + length later) < 2 ^ 64"
  shows "snd (imap_get held k (imap_run rank (before @ (held0, call) # later) m0)) = fact_recall f"
proof -
  obtain w where m0: "m0 = imap_over w level"
    using assms(1) by (auto simp: imap_new_def imap_generational_def)
  let ?m = "imap_run rank before m0" and ?n = "imap_run rank (before @ (held0, call) # later) m0"
  let ?w = "im_window (id_state ?m)" and ?called = "fst (imap_call rank held0 call ?m)"
  have level: "id_isolation ?m = level" using m0 over_isolation by metis
  have inv: "imap_inv ?m" and room: "Suc (length later) \<le> imap_room ?m"
    using imap_run_inv [of m0 before rank] new_map [OF assms(1)] assms(6) by auto
  have remembered: "id_state ?called = state_remember held0 k f (id_state ?m)"
    using assms(2,3) level by (cases f) (simp_all add: slot_simps)
  have wf: "window_wf ?w" using inv by (simp add: imap_inv_def state_inv_def)
  have "imap_inv ?called" using room by (intro imap_call_inv [OF inv]) simp
  moreover have "k \<in> window_members (fst (window_admit k ?w))" "window_age k (fst (window_admit k ?w)) = 0"
    using either.admitted_young [OF wf, of k] room assms(5) by (auto simp: imap_room_def)
  ultimately have "recent k (length later) ?called"
    using assms(5) either.admit_lasts [of k ?w]
    by (simp add: recent_def remembered state_remember_anchor anchor_window)
  moreover have "length later \<le> imap_room ?called"
    using imap_call_room [OF inv, of rank held0 call] room by simp
  ultimately have "recent k 0 ?n"
    using recent_run [of k later ?called rank] assms(4) by (simp add: imap_run_append)
  moreover have "agrees (history level (before @ (held0, call) # later) Map.empty) (id_state ?n)"
    using over_agrees unfolding m0 .
  moreover have "history level (before @ (held0, call) # later) Map.empty k = Some f"
  proof -
    have append: "history level (cs @ ds) mem = history level ds (history level cs mem)" for cs ds mem
      by (induction cs arbitrary: mem) simp_all
    have "list_all (\<lambda>c. spares k (snd c)) later" using assms(4) by (simp add: list_all_iff)
    then show ?thesis using assms(2,3) by (cases f) (simp_all add: append spares_history)
  qed
  moreover have "lawful level (history level (before @ (held0, call) # later) Map.empty)"
    by (rule lawful_history) (simp add: lawful_def)
  ultimately show ?thesis
    using recent_answer [of k ?n] by (simp add: m0 over_isolation)
qed

lemma recent_fact_is_answered_witness:
  "snd (imap_get (\<lambda>_. False) 1 (imap_run id ([] @ (\<lambda>_. False, CAddAbsent 1)
      # [(\<lambda>_. False, CAdd 2 (20 :: nat))]) (imap_new 2 Serializable))) = fact_recall FAbsence"
  by (rule recent_fact_is_answered [where n = 2 and level = Serializable])
    (simp_all add: imap_new_def imap_over_def state_new_def recency_new_def)

end
