(* ===== verification/Pg_Session.thy ===== *)
theory Pg_Session
  imports Identity_Map
begin

section \<open>Sessions and their scopes\<close>

text \<open>
  \<open>crates/session/src\<close>: \<open>error.rs\<close>, \<open>observer.rs\<close> and \<open>session.rs\<close>. What sessions share behind
  \<open>Arc\<close>s is in a store: the flags of the handles, the identity maps, and the events an observer
  is told, in their order (a signal with several subscribers tells each; the times of events are
  not modelled). A handle is what the code passes by value, with the places of its flag and of its
  map. A scope is a function of the handle it is given and of the world; a future that was dropped
  before it was ready, by a timeout, a lost \<open>select!\<close> or a panic that unwinds, is \<open>Dropped\<close>, and
  then only the guards of the frames it was in have run.
\<close>

subsection \<open>Errors\<close>

record abort_cause =
  ac_sqlstate :: string
  ac_message :: string
  ac_constraint :: "string option"

datatype 'b session_error =
    SAcquire 'b
  | SBegin 'b bool
  | SCommit 'b bool
  | SRollback 'b bool
  | SAborted "abort_cause option"
  | ScopeAlreadyOpen
  | SAbandoned

fun is_transient :: "'b session_error \<Rightarrow> bool" where
  "is_transient (SAcquire _) = True"
| "is_transient (SBegin _ transient) = transient"
| "is_transient (SCommit _ transient) = transient"
| "is_transient (SRollback _ transient) = transient"
| "is_transient (SAborted _) = False"
| "is_transient ScopeAlreadyOpen = False"
| "is_transient SAbandoned = False"

definition show_abort_cause :: "abort_cause \<Rightarrow> string" where
  "show_abort_cause c = ac_message c @ '' ('' @ ac_sqlstate c @ '')'' @
    (case ac_constraint c of Some name \<Rightarrow> '' on '' @ [CHR 0x60] @ name @ [CHR 0x60] | None \<Rightarrow> [])"

fun show_session_error :: "('b \<Rightarrow> string) \<Rightarrow> 'b session_error \<Rightarrow> string" where
  "show_session_error show (SAcquire e) = ''cannot acquire a connection: '' @ show e"
| "show_session_error show (SBegin e _) = ''cannot open a scope: '' @ show e"
| "show_session_error show (SCommit e _) = ''cannot commit a scope: '' @ show e"
| "show_session_error show (SRollback e _) = ''cannot roll a scope back: '' @ show e"
| "show_session_error show (SAborted cause) =
    ''a statement failed inside the scope and the scope still reported '' @
    ''success: the transaction was aborted and rolled back, nothing is durable'' @
    (case cause of Some c \<Rightarrow> ''; the failure absorbed: '' @ show_abort_cause c | None \<Rightarrow> [])"
| "show_session_error show ScopeAlreadyOpen =
    ''a scope is already open on this session: open a nested scope on '' @
    ''the session the outer scope handed out, or use another session''"
| "show_session_error show SAbandoned =
    ''a scope was dropped before it closed: its transaction is abandoned '' @
    ''and the connection is discarded''"

fun error_source :: "'b session_error \<Rightarrow> 'b option" where
  "error_source (SAcquire e) = Some e"
| "error_source (SBegin e _) = Some e"
| "error_source (SCommit e _) = Some e"
| "error_source (SRollback e _) = Some e"
| "error_source _ = None"

subsection \<open>What an observer is told\<close>

datatype scope_kind = SessionScope | TransactionScope | SavepointScope | LogicalScope

datatype scope_outcome = Succeeded | Failed

datatype session_event =
    ScopeStarted nat scope_kind
  | ScopeEnded nat scope_kind scope_outcome
  | QueryStarted string
  | QueryEnded string bool
  | RequestStarted string string
  | RequestEnded string string bool

definition outcome_of :: "bool \<Rightarrow> scope_outcome" where
  "outcome_of succeeded = (if succeeded then Succeeded else Failed)"

subsection \<open>Handles and the store they share\<close>

record ('k, 'e) scopes =
  sc_flags :: "bool list"
  sc_maps :: "('k, 'e) identity_map list"
  sc_log :: "session_event list"

record handle =
  h_depth :: nat
  h_flag :: nat
  h_map :: nat
  h_isolation :: isolation_level

datatype 'r awaited = Ready 'r | Dropped

definition tell :: "session_event \<Rightarrow> ('k, 'e, 'm) scopes_scheme \<Rightarrow> ('k, 'e, 'm) scopes_scheme" where
  "tell ev w = w\<lparr>sc_log := sc_log w @ [ev]\<rparr>"

text \<open>\<open>ScopeFlag\<close>: a new one is down, \<open>acquire\<close> raises it or refuses, the guard's \<open>drop\<close> lowers it.\<close>

definition flag_new :: "('k, 'e, 'm) scopes_scheme \<Rightarrow> nat \<times> ('k, 'e, 'm) scopes_scheme" where
  "flag_new w = (length (sc_flags w), w\<lparr>sc_flags := sc_flags w @ [False]\<rparr>)"

definition flag_acquire ::
  "nat \<Rightarrow> ('k, 'e, 'm) scopes_scheme \<Rightarrow> ('b session_error, unit) result \<times> ('k, 'e, 'm) scopes_scheme" where
  "flag_acquire i w =
    (if sc_flags w ! i then (Inl ScopeAlreadyOpen, w)
     else (Inr (), w\<lparr>sc_flags := (sc_flags w)[i := True]\<rparr>))"

definition flag_release :: "nat \<Rightarrow> ('k, 'e, 'm) scopes_scheme \<Rightarrow> ('k, 'e, 'm) scopes_scheme" where
  "flag_release i w = w\<lparr>sc_flags := (sc_flags w)[i := False]\<rparr>"

text \<open>\<open>let _guard = self.scope_open.acquire()?\<close> before the rest of a function.\<close>

definition guarded :: "('b session_error \<Rightarrow> 'x) \<Rightarrow> nat \<Rightarrow>
    (('k, 'e, 'm) scopes_scheme \<Rightarrow> ('x, 'v) result awaited \<times> ('k, 'e, 'm) scopes_scheme) \<Rightarrow>
    ('k, 'e, 'm) scopes_scheme \<Rightarrow> ('x, 'v) result awaited \<times> ('k, 'e, 'm) scopes_scheme" where
  "guarded from i rest w =
    (case flag_acquire i w of
       (Inl e, w1) \<Rightarrow> (Ready (Inl (from e)), w1)
     | (Inr _, w1) \<Rightarrow> apsnd (flag_release i) (rest w1))"

text \<open>\<open>child\<close>: the outermost scope has a new map, a nested one shares it.\<close>

definition child_of ::
  "handle \<Rightarrow> ('k, 'e, 'm) scopes_scheme \<Rightarrow> handle \<times> ('k, 'e, 'm) scopes_scheme" where
  "child_of s w =
    (let (i, w1) = (if h_depth s = 0
           then (length (sc_maps w),
             w\<lparr>sc_maps := sc_maps w @ [imap_with_isolation (h_isolation s)]\<rparr>)
           else (h_map s, w));
         (flag, w2) = flag_new w1
     in (\<lparr>h_depth = h_depth s + 1, h_flag = flag, h_map = i, h_isolation = h_isolation s\<rparr>, w2))"

text \<open>The session a pool hands out: nothing may be remembered outside a transaction.\<close>

definition acquired ::
  "isolation_level \<Rightarrow> ('k, 'e, 'm) scopes_scheme \<Rightarrow> handle \<times> ('k, 'e, 'm) scopes_scheme" where
  "acquired level w =
    (let (flag, w1) = flag_new (w\<lparr>sc_maps := sc_maps w @ [imap_with_isolation ReadUncommitted]\<rparr>)
     in (\<lparr>h_depth = 0, h_flag = flag, h_map = length (sc_maps w), h_isolation = level\<rparr>, w1))"

text \<open>\<open>if self.depth == 0 { identity_map.clear() }\<close>.\<close>

definition clear_map :: "handle \<Rightarrow> handle \<Rightarrow> ('k, 'e, 'm) scopes_scheme \<Rightarrow> ('k, 'e, 'm) scopes_scheme" where
  "clear_map s child w =
    (if h_depth s = 0 then w\<lparr>sc_maps := (sc_maps w)[h_map child := imap_clear (sc_maps w ! h_map child)]\<rparr>
     else w)"

text \<open>\<open>SessionPool::session\<close>, with the pool's \<open>acquire\<close> and its hooks.\<close>

definition pool_session ::
  "('w \<Rightarrow> ('b session_error, handle) result awaited \<times> 'w) \<Rightarrow> ('w \<Rightarrow> 'w) \<Rightarrow> (bool \<Rightarrow> 'w \<Rightarrow> 'w)
    \<Rightarrow> ('b session_error \<Rightarrow> 'x) \<Rightarrow> (handle \<Rightarrow> 'w \<Rightarrow> ('x, 'v) result awaited \<times> 'w)
    \<Rightarrow> 'w \<Rightarrow> ('x, 'v) result awaited \<times> 'w" where
  "pool_session acquire opened closed from scope w =
    (case acquire w of
       (Dropped, w1) \<Rightarrow> (Dropped, w1)
     | (Ready (Inl e), w1) \<Rightarrow> (Ready (Inl (from e)), w1)
     | (Ready (Inr s), w1) \<Rightarrow>
         (case scope s (opened w1) of
            (Dropped, w2) \<Rightarrow> (Dropped, w2)
          | (Ready outcome, w2) \<Rightarrow> (Ready outcome, closed (isl outcome = False) w2)))"

definition pool_opened :: "('k, 'e, 'm) scopes_scheme \<Rightarrow> ('k, 'e, 'm) scopes_scheme" where
  "pool_opened = tell (ScopeStarted 0 SessionScope)"

definition pool_closed :: "bool \<Rightarrow> ('k, 'e, 'm) scopes_scheme \<Rightarrow> ('k, 'e, 'm) scopes_scheme" where
  "pool_closed succeeded = tell (ScopeEnded 0 SessionScope (outcome_of succeeded))"


section \<open>The sessions: PostgreSQL, in memory, REST, and several as one\<close>

text \<open>
  \<open>crates/session/src\<close>: \<open>pg/session.rs\<close>, \<open>pg/connection.rs\<close>, \<open>pg/transient.rs\<close>,
  \<open>pg/identifier.rs\<close>, \<open>testing.rs\<close>, \<open>rest/session.rs\<close> and \<open>composite\<close>. The server is a parameter:
  \<open>exec\<close> is what the driver's client does with a statement, the new state of the server and the
  reply, or \<open>Dropped\<close> when the future waiting for it is dropped. An error of the driver is what the
  code asks of it.
\<close>

subsection \<open>Errors of the driver\<close>

record pg_db_error =
  db_code :: string
  db_message :: string
  db_constraint :: "string option"

record pg_error =
  pe_closed :: bool
  pe_db :: "pg_db_error option"
  pe_io :: bool
  pe_text :: string

definition pe_code :: "pg_error \<Rightarrow> string option" where
  "pe_code e = map_option db_code (pe_db e)"

definition starts_with :: "string \<Rightarrow> string \<Rightarrow> bool" where
  "starts_with p s \<longleftrightarrow> take (length p) s = p"

definition transient_state :: "string \<Rightarrow> bool" where
  "transient_state code \<longleftrightarrow>
    code \<in> set [''40001'', ''40P01'', ''40003'', ''57P01'', ''57P02'', ''57P03'']
    \<or> starts_with ''08'' code \<or> starts_with ''53'' code"

definition transient_error :: "pg_error \<Rightarrow> bool" where
  "transient_error e \<longleftrightarrow>
    (if pe_closed e then True
     else case pe_code e of
       Some code \<Rightarrow> transient_state code
     | None \<Rightarrow> pe_io e \<or> starts_with ''timeout waiting for server'' (pe_text e)
         \<or> starts_with ''error connecting to server'' (pe_text e))"

definition IN_FAILED_SQL_TRANSACTION :: string where
  "IN_FAILED_SQL_TRANSACTION = ''25P02''"

subsection \<open>Names that may be spliced into SQL\<close>

definition MAX_IDENTIFIER :: nat where
  "MAX_IDENTIFIER = 40"

record invalid_identifier =
  ii_name :: string
  ii_reason :: string

definition is_lowercase :: "char \<Rightarrow> bool" where
  "is_lowercase c \<longleftrightarrow> 97 \<le> (of_char c :: nat) \<and> (of_char c :: nat) \<le> 122"

definition identifier_new :: "string \<Rightarrow> (invalid_identifier, string) result" where
  "identifier_new name =
    (let refuse = (\<lambda>reason. Inl \<lparr>ii_name = name, ii_reason = reason\<rparr>) in
     case name of
       [] \<Rightarrow> refuse ''it is empty''
     | first # rest \<Rightarrow>
         if \<not> (is_lowercase first \<or> first = CHR ''_'')
         then refuse ''it must start with a lower-case letter or an underscore''
         else if \<not> list_all (\<lambda>c. is_lowercase c \<or> is_ascii_digit c \<or> c = CHR ''_'') rest
         then refuse (''only lower-case letters, digits and underscores are allowed; a schema '' @
           ''qualification is not, the search_path decides'')
         else if MAX_IDENTIFIER < length name then refuse ''it is longer than forty characters''
         else Inr name)"

subsection \<open>Abandoned scopes\<close>

text \<open>What a session with savepoints shares among its handles besides.\<close>

record ('k, 'e) nested_scopes = "('k, 'e) scopes" +
  ns_savepoints :: "64 word"
  ns_poisoned :: bool

definition poison :: "('k, 'e, 'm) nested_scopes_scheme \<Rightarrow> ('k, 'e, 'm) nested_scopes_scheme" where
  "poison w = w\<lparr>ns_poisoned := True\<rparr>"

text \<open>The \<open>drop\<close> of an \<open>Abandon\<close> that is still armed.\<close>

definition abandon :: "bool \<Rightarrow> nat \<Rightarrow> scope_kind \<Rightarrow> ('k, 'e, 'm) nested_scopes_scheme
    \<Rightarrow> ('k, 'e, 'm) nested_scopes_scheme" where
  "abandon started depth kind w =
    (let w1 = poison w in if started then tell (ScopeEnded depth kind Failed) w1 else w1)"

definition next_savepoint ::
  "('k, 'e, 'm) nested_scopes_scheme \<Rightarrow> 64 word \<times> ('k, 'e, 'm) nested_scopes_scheme" where
  "next_savepoint w = (ns_savepoints w + 1, w\<lparr>ns_savepoints := ns_savepoints w + 1\<rparr>)"

text \<open>\<open>(self.depth > 0).then(|| ...)\<close>, and the kind of the scope.\<close>

definition savepoint_for ::
  "handle \<Rightarrow> ('k, 'e, 'm) nested_scopes_scheme \<Rightarrow> string option \<times> ('k, 'e, 'm) nested_scopes_scheme" where
  "savepoint_for s w =
    (if 0 < h_depth s then apfst (\<lambda>n. Some (''sp'' @ show_nat (unat n))) (next_savepoint w)
     else (None, w))"

definition kind_of_scope :: "string option \<Rightarrow> scope_kind" where
  "kind_of_scope savepoint = (if savepoint \<noteq> None then SavepointScope else TransactionScope)"

text \<open>\<open>Ok(_) if poisoned => Err(Abandoned)\<close>.\<close>

definition unless_abandoned ::
  "('b session_error \<Rightarrow> 'x) \<Rightarrow> ('x, 'v) result \<Rightarrow> ('k, 'e, 'm) nested_scopes_scheme \<Rightarrow> ('x, 'v) result" where
  "unless_abandoned from outcome w =
    (if \<not> isl outcome \<and> ns_poisoned w then Inl (from SAbandoned) else outcome)"

subsection \<open>The connection\<close>

record ('k, 'e, 's) pg_world = "('k, 'e) nested_scopes" +
  pw_server :: 's
  pw_aborted_by :: "abort_cause option"

type_synonym 's executor = "'s \<Rightarrow> string \<Rightarrow> 's \<times> pg_error option awaited"

definition forget_abort_cause ::
  "('k, 'e, 's, 'm) pg_world_scheme \<Rightarrow> ('k, 'e, 's, 'm) pg_world_scheme" where
  "forget_abort_cause w = w\<lparr>pw_aborted_by := None\<rparr>"

definition take_abort_cause ::
  "('k, 'e, 's, 'm) pg_world_scheme \<Rightarrow> abort_cause option \<times> ('k, 'e, 's, 'm) pg_world_scheme" where
  "take_abort_cause w = (pw_aborted_by w, w\<lparr>pw_aborted_by := None\<rparr>)"

definition remember_error ::
  "pg_error \<Rightarrow> ('k, 'e, 's, 'm) pg_world_scheme \<Rightarrow> ('k, 'e, 's, 'm) pg_world_scheme" where
  "remember_error e w =
    (case pe_db e of
       None \<Rightarrow> w
     | Some server \<Rightarrow>
         let consequence = (db_code server = IN_FAILED_SQL_TRANSACTION);
             replace = (case pw_aborted_by w of
                 None \<Rightarrow> True
               | Some kept \<Rightarrow> ac_sqlstate kept = IN_FAILED_SQL_TRANSACTION \<and> \<not> consequence)
         in if replace
            then w\<lparr>pw_aborted_by := Some \<lparr>ac_sqlstate = db_code server, ac_message = db_message server,
                ac_constraint = db_constraint server\<rparr>\<rparr>
            else w)"

text \<open>\<open>observed\<close>: the call is reported before and after; a dropped one only before.\<close>

definition observed :: "'s executor \<Rightarrow> string \<Rightarrow> string \<Rightarrow> ('k, 'e, 's, 'm) pg_world_scheme
    \<Rightarrow> pg_error option awaited \<times> ('k, 'e, 's, 'm) pg_world_scheme" where
  "observed exec reported sql w =
    (let w1 = tell (QueryStarted reported) w;
         (server, reply) = exec (pw_server w1) sql;
         w2 = w1\<lparr>pw_server := server\<rparr>
     in case reply of
          Dropped \<Rightarrow> (Dropped, w2)
        | Ready outcome \<Rightarrow>
            let w3 = tell (QueryEnded reported (outcome \<noteq> None)) w2
            in (Ready outcome, (case outcome of Some e \<Rightarrow> remember_error e w3 | None \<Rightarrow> w3)))"

definition batch_execute where
  "batch_execute exec sql w = observed exec sql sql w"

definition batch_execute_reported where
  "batch_execute_reported exec reported sql w = observed exec reported sql w"

text \<open>What \<open>drop\<close> does with the last handle of a connection.\<close>

datatype 's returned = ToThePool 's | Discarded

definition connection_drop :: "('k, 'e, 's, 'm) pg_world_scheme \<Rightarrow> 's returned" where
  "connection_drop w = (if ns_poisoned w then Discarded else ToThePool (pw_server w))"

subsection \<open>The PostgreSQL session\<close>

definition roll_back :: "'s executor \<Rightarrow> string option \<Rightarrow> ('k, 'e, 's, 'm) pg_world_scheme
    \<Rightarrow> unit awaited \<times> ('k, 'e, 's, 'm) pg_world_scheme" where
  "roll_back exec savepoint w =
    (let statement = (case savepoint of None \<Rightarrow> ''ROLLBACK'' | Some name \<Rightarrow> ''ROLLBACK TO SAVEPOINT '' @ name)
     in case batch_execute exec statement w of
          (Dropped, w1) \<Rightarrow> (Dropped, w1)
        | (Ready outcome, w1) \<Rightarrow>
            (Ready (), forget_abort_cause (if outcome \<noteq> None then poison w1 else w1)))"

definition commit :: "'s executor \<Rightarrow> string option \<Rightarrow> ('k, 'e, 's, 'm) pg_world_scheme
    \<Rightarrow> (pg_error session_error, unit) result awaited \<times> ('k, 'e, 's, 'm) pg_world_scheme" where
  "commit exec savepoint w =
    (let closed = (case savepoint of
           None \<Rightarrow> batch_execute_reported exec ''COMMIT'' ''SELECT 1; COMMIT'' w
         | Some name \<Rightarrow> batch_execute exec (''RELEASE SAVEPOINT '' @ name) w)
     in case closed of
          (Dropped, w1) \<Rightarrow> (Dropped, w1)
        | (Ready None, w1) \<Rightarrow> (Ready (Inr ()), forget_abort_cause w1)
        | (Ready (Some e), w1) \<Rightarrow>
            let aborted = (pe_code e = Some IN_FAILED_SQL_TRANSACTION);
                (cause, w2) = (if aborted then take_abort_cause w1 else (None, w1))
            in case roll_back exec savepoint w2 of
                 (Dropped, w3) \<Rightarrow> (Dropped, w3)
               | (Ready _, w3) \<Rightarrow>
                   (Ready (Inl (if aborted then SAborted cause else SCommit e (transient_error e))), w3))"

text \<open>\<open>atomic\<close> from the point the closing statement has run.\<close>

definition pg_ended ::
  "(pg_error session_error \<Rightarrow> 'x) \<Rightarrow> handle \<Rightarrow> handle \<Rightarrow> scope_kind \<Rightarrow> ('x, 'v) result
    \<Rightarrow> (pg_error session_error, unit) result \<Rightarrow> ('k, 'e, 's, 'm) pg_world_scheme
    \<Rightarrow> ('x, 'v) result awaited \<times> ('k, 'e, 's, 'm) pg_world_scheme" where
  "pg_ended from s child kind outcome closed w =
    (let succeeded = (\<not> isl outcome \<and> \<not> isl closed);
         w1 = tell (ScopeEnded (h_depth s + 1) kind (outcome_of succeeded)) w;
         w2 = clear_map s child w1
     in (Ready (case (outcome, closed) of (Inr _, Inl e) \<Rightarrow> Inl (from e) | _ \<Rightarrow> outcome), w2))"

text \<open>\<open>atomic\<close> from the point the scope has returned.\<close>

definition pg_close ::
  "'s executor \<Rightarrow> (pg_error session_error \<Rightarrow> 'x) \<Rightarrow> handle \<Rightarrow> handle \<Rightarrow> string option \<Rightarrow> ('x, 'v) result
    \<Rightarrow> ('k, 'e, 's, 'm) pg_world_scheme \<Rightarrow> ('x, 'v) result awaited \<times> ('k, 'e, 's, 'm) pg_world_scheme" where
  "pg_close exec from s child savepoint returned w =
    (let kind = kind_of_scope savepoint;
         outcome = unless_abandoned from returned w;
         closed = (if \<not> isl outcome then commit exec savepoint w
           else case roll_back exec savepoint w of
                  (Dropped, w1) \<Rightarrow> (Dropped, w1)
                | (Ready _, w1) \<Rightarrow> (Ready (Inr ()), w1))
     in case closed of
          (Dropped, w1) \<Rightarrow> (Dropped, abandon True (h_depth s + 1) kind w1)
        | (Ready r, w1) \<Rightarrow> pg_ended from s child kind outcome r w1)"

definition pg_opening :: "string option \<Rightarrow> string" where
  "pg_opening savepoint = (case savepoint of None \<Rightarrow> ''BEGIN'' | Some name \<Rightarrow> ''SAVEPOINT '' @ name)"

definition pg_claimed ::
  "'s executor \<Rightarrow> (pg_error session_error \<Rightarrow> 'x) \<Rightarrow> handle
    \<Rightarrow> (handle \<Rightarrow> ('k, 'e, 's, 'm) pg_world_scheme \<Rightarrow> ('x, 'v) result awaited \<times> ('k, 'e, 's, 'm) pg_world_scheme)
    \<Rightarrow> ('k, 'e, 's, 'm) pg_world_scheme \<Rightarrow> ('x, 'v) result awaited \<times> ('k, 'e, 's, 'm) pg_world_scheme" where
  "pg_claimed exec from s scope w =
    (if ns_poisoned w then (Ready (Inl (from SAbandoned)), w)
     else let (savepoint, w1) = savepoint_for s w;
              kind = kind_of_scope savepoint;
              depth = h_depth s + 1
       in case batch_execute exec (pg_opening savepoint) w1 of
            (Dropped, w2) \<Rightarrow> (Dropped, abandon False depth kind w2)
          | (Ready (Some e), w2) \<Rightarrow> (Ready (Inl (from (SBegin e (transient_error e)))), w2)
          | (Ready None, w2) \<Rightarrow>
              let w3 = (if savepoint = None then forget_abort_cause w2 else w2);
                  w4 = tell (ScopeStarted depth kind) w3;
                  (child, w5) = child_of s w4
              in case scope child w5 of
                   (Dropped, w6) \<Rightarrow> (Dropped, abandon True depth kind w6)
                 | (Ready returned, w6) \<Rightarrow> pg_close exec from s child savepoint returned w6)"

definition pg_atomic ::
  "'s executor \<Rightarrow> (pg_error session_error \<Rightarrow> 'x) \<Rightarrow> handle
    \<Rightarrow> (handle \<Rightarrow> ('k, 'e, 's, 'm) pg_world_scheme \<Rightarrow> ('x, 'v) result awaited \<times> ('k, 'e, 's, 'm) pg_world_scheme)
    \<Rightarrow> ('k, 'e, 's, 'm) pg_world_scheme \<Rightarrow> ('x, 'v) result awaited \<times> ('k, 'e, 's, 'm) pg_world_scheme" where
  "pg_atomic exec from s scope w = guarded from (h_flag s) (pg_claimed exec from s scope) w"

text \<open>\<open>PgSessionPool::acquire\<close>: what the pool answers is a parameter.\<close>

definition pg_connection_new :: "'s \<Rightarrow> session_event list \<Rightarrow> ('k, 'e, 's) pg_world" where
  "pg_connection_new server log = \<lparr>sc_flags = [], sc_maps = [], sc_log = log, ns_savepoints = 0,
    ns_poisoned = False, pw_server = server, pw_aborted_by = None\<rparr>"

definition pg_acquire :: "isolation_level \<Rightarrow> ('b, 's) result \<Rightarrow> session_event list
    \<Rightarrow> ('b session_error, handle \<times> ('k, 'e, 's) pg_world) result" where
  "pg_acquire level got log =
    (case got of Inl e \<Rightarrow> Inl (SAcquire e) | Inr server \<Rightarrow> Inr (acquired level (pg_connection_new server log)))"

subsection \<open>The session in memory\<close>

record ('k, 'e) memory_world = "('k, 'e) nested_scopes" +
  mw_journal :: "string list"

definition journal_record ::
  "string \<Rightarrow> ('k, 'e, 'm) memory_world_scheme \<Rightarrow> ('k, 'e, 'm) memory_world_scheme" where
  "journal_record statement w = w\<lparr>mw_journal := mw_journal w @ [statement]\<rparr>"

definition memory_closing :: "string option \<Rightarrow> bool \<Rightarrow> string" where
  "memory_closing savepoint committed =
    (case (savepoint, committed) of
       (None, True) \<Rightarrow> ''COMMIT''
     | (None, False) \<Rightarrow> ''ROLLBACK''
     | (Some name, True) \<Rightarrow> ''RELEASE SAVEPOINT '' @ name
     | (Some name, False) \<Rightarrow> ''ROLLBACK TO SAVEPOINT '' @ name)"

definition memory_claimed ::
  "('b session_error \<Rightarrow> 'x) \<Rightarrow> handle
    \<Rightarrow> (handle \<Rightarrow> ('k, 'e, 'm) memory_world_scheme \<Rightarrow> ('x, 'v) result awaited \<times> ('k, 'e, 'm) memory_world_scheme)
    \<Rightarrow> ('k, 'e, 'm) memory_world_scheme \<Rightarrow> ('x, 'v) result awaited \<times> ('k, 'e, 'm) memory_world_scheme" where
  "memory_claimed from s scope w =
    (if ns_poisoned w then (Ready (Inl (from SAbandoned)), w)
     else let (savepoint, w1) = savepoint_for s w;
              kind = kind_of_scope savepoint;
              depth = h_depth s + 1;
              w2 = tell (ScopeStarted depth kind) (journal_record (pg_opening savepoint) w1);
              (child, w3) = child_of s w2
       in case scope child w3 of
            (Dropped, w4) \<Rightarrow> (Dropped, abandon True depth kind w4)
          | (Ready returned, w4) \<Rightarrow>
              let outcome = unless_abandoned from returned w4;
                  committed = (\<not> isl outcome);
                  w5 = journal_record (memory_closing savepoint committed) w4;
                  w6 = tell (ScopeEnded depth kind (outcome_of committed)) w5
              in (Ready outcome, clear_map s child w6))"

definition memory_atomic ::
  "('b session_error \<Rightarrow> 'x) \<Rightarrow> handle
    \<Rightarrow> (handle \<Rightarrow> ('k, 'e, 'm) memory_world_scheme \<Rightarrow> ('x, 'v) result awaited \<times> ('k, 'e, 'm) memory_world_scheme)
    \<Rightarrow> ('k, 'e, 'm) memory_world_scheme \<Rightarrow> ('x, 'v) result awaited \<times> ('k, 'e, 'm) memory_world_scheme" where
  "memory_atomic from s scope w = guarded from (h_flag s) (memory_claimed from s scope) w"

subsection \<open>The REST session\<close>

text \<open>\<open>request\<close> reports a call; what the call does is a parameter.\<close>

definition rest_request ::
  "string \<Rightarrow> string \<Rightarrow> (('k, 'e, 'm) scopes_scheme \<Rightarrow> ('x, 'v) result awaited \<times> ('k, 'e, 'm) scopes_scheme)
    \<Rightarrow> ('k, 'e, 'm) scopes_scheme \<Rightarrow> ('x, 'v) result awaited \<times> ('k, 'e, 'm) scopes_scheme" where
  "rest_request method url call w =
    (case call (tell (RequestStarted method url) w) of
       (Dropped, w1) \<Rightarrow> (Dropped, w1)
     | (Ready outcome, w1) \<Rightarrow> (Ready outcome, tell (RequestEnded method url (isl outcome)) w1))"

definition rest_claimed ::
  "handle \<Rightarrow> (handle \<Rightarrow> ('k, 'e, 'm) scopes_scheme \<Rightarrow> ('x, 'v) result awaited \<times> ('k, 'e, 'm) scopes_scheme)
    \<Rightarrow> ('k, 'e, 'm) scopes_scheme \<Rightarrow> ('x, 'v) result awaited \<times> ('k, 'e, 'm) scopes_scheme" where
  "rest_claimed s scope w =
    (let depth = h_depth s + 1;
         (child, w1) = child_of s (tell (ScopeStarted depth LogicalScope) w)
     in case scope child w1 of
          (Dropped, w2) \<Rightarrow> (Dropped, w2)
        | (Ready outcome, w2) \<Rightarrow>
            (Ready outcome, clear_map s child
              (tell (ScopeEnded depth LogicalScope (outcome_of (\<not> isl outcome))) w2)))"

definition rest_atomic ::
  "('b session_error \<Rightarrow> 'x) \<Rightarrow> handle
    \<Rightarrow> (handle \<Rightarrow> ('k, 'e, 'm) scopes_scheme \<Rightarrow> ('x, 'v) result awaited \<times> ('k, 'e, 'm) scopes_scheme)
    \<Rightarrow> ('k, 'e, 'm) scopes_scheme \<Rightarrow> ('x, 'v) result awaited \<times> ('k, 'e, 'm) scopes_scheme" where
  "rest_atomic from s scope w = guarded from (h_flag s) (rest_claimed s scope) w"

subsection \<open>Several sessions as one\<close>

text \<open>
  A delegate is its \<open>atomic\<close> on a world that holds them all, handing out a session of its own. Each
  opens a scope in turn, and the scope is handed what they handed out; so they close in reverse. A
  pair and a tuple are the same of two to eight.
\<close>

type_synonym ('d, 'w, 'x, 'v) delegate =
  "('d \<Rightarrow> 'w \<Rightarrow> ('x, 'v) result awaited \<times> 'w) \<Rightarrow> 'w \<Rightarrow> ('x, 'v) result awaited \<times> 'w"

fun open_scopes :: "('d, 'w, 'x, 'v) delegate list \<Rightarrow> 'd list
    \<Rightarrow> ('d list \<Rightarrow> 'w \<Rightarrow> ('x, 'v) result awaited \<times> 'w) \<Rightarrow> 'w \<Rightarrow> ('x, 'v) result awaited \<times> 'w" where
  "open_scopes [] opened scope w = scope opened w"
| "open_scopes (head # tail) opened scope w =
    head (\<lambda>opened_head w1. open_scopes tail (opened @ [opened_head]) scope w1) w"

definition many_atomic :: "('d, 'w, 'x, 'v) delegate list
    \<Rightarrow> ('d list \<Rightarrow> 'w \<Rightarrow> ('x, 'v) result awaited \<times> 'w) \<Rightarrow> 'w \<Rightarrow> ('x, 'v) result awaited \<times> 'w" where
  "many_atomic delegates scope w = open_scopes delegates [] scope w"

definition pair_atomic :: "(('a, 'w, 'x, 'v) delegate) \<Rightarrow> (('d, 'w, 'x, 'v) delegate)
    \<Rightarrow> ('a \<times> 'd \<Rightarrow> 'w \<Rightarrow> ('x, 'v) result awaited \<times> 'w) \<Rightarrow> 'w \<Rightarrow> ('x, 'v) result awaited \<times> 'w" where
  "pair_atomic first second scope w =
    first (\<lambda>a w1. second (\<lambda>b w2. scope (a, b) w2) w1) w"

text \<open>\<open>acquire\<close> and the hooks of a pool of pools.\<close>

fun many_acquire :: "('w \<Rightarrow> ('err, 'd) result awaited \<times> 'w) list \<Rightarrow> 'd list \<Rightarrow> 'w
    \<Rightarrow> ('err, 'd list) result awaited \<times> 'w" where
  "many_acquire [] opened w = (Ready (Inr opened), w)"
| "many_acquire (pool # pools) opened w =
    (case pool w of
       (Dropped, w1) \<Rightarrow> (Dropped, w1)
     | (Ready (Inl e), w1) \<Rightarrow> (Ready (Inl e), w1)
     | (Ready (Inr d), w1) \<Rightarrow> many_acquire pools (opened @ [d]) w1)"

definition many_scope_opened :: "('w \<Rightarrow> 'w) list \<Rightarrow> 'w \<Rightarrow> 'w" where
  "many_scope_opened hooks w = fold (\<lambda>h w. h w) hooks w"

definition many_scope_closed :: "(bool \<Rightarrow> 'w \<Rightarrow> 'w) list \<Rightarrow> bool \<Rightarrow> 'w \<Rightarrow> 'w" where
  "many_scope_closed hooks succeeded w = fold (\<lambda>h w. h succeeded w) (rev hooks) w"

subsection \<open>What a use case may do with a PostgreSQL session\<close>

text \<open>
  A program of statements and scopes over the handles it has been given, in any nesting. A handle
  may be kept after its scope has closed, a scope may be dropped and its caller go on, and a
  statement may be dropped too. The handles are in the order they were handed out.
\<close>

datatype ('x, 'v) use_case =
    Give "('x, 'v) result"
  | Vanish
  | Run string "pg_error option awaited \<Rightarrow> ('x, 'v) use_case"
  | Open nat "('x, 'v) use_case" "('x, 'v) result awaited \<Rightarrow> ('x, 'v) use_case"

record ('k, 'e, 's) use_world = "('k, 'e, 's) pg_world" +
  uw_handles :: "handle list"

primrec use_run :: "('x, 'v) use_case \<Rightarrow> 's executor \<Rightarrow> (pg_error session_error \<Rightarrow> 'x)
    \<Rightarrow> ('k, 'e, 's) use_world \<Rightarrow> ('x, 'v) result awaited \<times> ('k, 'e, 's) use_world" where
  "use_run (Give r) = (\<lambda>exec from w. (Ready r, w))"
| "use_run Vanish = (\<lambda>exec from w. (Dropped, w))"
| "use_run (Run sql k) = (\<lambda>exec from w.
    (let (reply, w1) = observed exec sql sql w in use_run (k reply) exec from w1))"
| "use_run (Open i body k) = (\<lambda>exec from w.
    (if i < length (uw_handles w)
     then let (r, w1) = pg_atomic exec from (uw_handles w ! i)
            (\<lambda>child w. use_run body exec from (w\<lparr>uw_handles := uw_handles w @ [child]\<rparr>)) w
          in use_run (k r) exec from w1
     else (Dropped, w)))"

end
