(* ===== verification/Pg_Session_Laws.thy ===== *)
theory Pg_Session_Laws
  imports Pg_Session
begin

section \<open>What every scope of a PostgreSQL session does\<close>

text \<open>
  What each step leaves alone, as rewrite rules; what an observer is told of a scope, as a grammar
  of events; and that nothing done inside a transaction is durable before the server has committed
  it. Both are shown of every program of statements and scopes, by induction over it.
\<close>

subsection \<open>What each step leaves alone\<close>

named_theorems world_simps \<open>the parts of the world after a step\<close>

lemma tell_parts [world_simps]:
  "sc_log (tell ev w) = sc_log w @ [ev]" "sc_flags (tell ev w) = sc_flags w"
  "sc_maps (tell ev w) = sc_maps w"
  by (simp_all add: tell_def)

lemma tell_more [world_simps]:
  "ns_poisoned (tell ev v) = ns_poisoned v" "ns_savepoints (tell ev v) = ns_savepoints v"
  "pw_server (tell ev w) = pw_server w" "pw_aborted_by (tell ev w) = pw_aborted_by w"
  "uw_handles (tell ev u) = uw_handles u"
  by (simp_all add: tell_def)

lemma poison_parts [world_simps]:
  "sc_log (poison v) = sc_log v" "sc_flags (poison v) = sc_flags v" "ns_poisoned (poison v)"
  "pw_server (poison w) = pw_server w" "uw_handles (poison u) = uw_handles u"
  by (simp_all add: poison_def)

lemma abandon_parts [world_simps]:
  "sc_log (abandon started d k v) = sc_log v @ (if started then [ScopeEnded d k Failed] else [])"
  "sc_flags (abandon started d k v) = sc_flags v" "ns_poisoned (abandon started d k v)"
  "pw_server (abandon started d k w) = pw_server w" "uw_handles (abandon started d k u) = uw_handles u"
  by (simp_all add: abandon_def world_simps Let_def)

lemma cause_parts [world_simps]:
  "sc_log (forget_abort_cause w) = sc_log w" "sc_flags (forget_abort_cause w) = sc_flags w"
  "ns_poisoned (forget_abort_cause w) = ns_poisoned w" "pw_server (forget_abort_cause w) = pw_server w"
  "uw_handles (forget_abort_cause u) = uw_handles u"
  "sc_log (snd (take_abort_cause w)) = sc_log w" "sc_flags (snd (take_abort_cause w)) = sc_flags w"
  "ns_poisoned (snd (take_abort_cause w)) = ns_poisoned w"
  "pw_server (snd (take_abort_cause w)) = pw_server w"
  "uw_handles (snd (take_abort_cause u)) = uw_handles u"
  by (simp_all add: forget_abort_cause_def take_abort_cause_def)

lemma remember_parts [world_simps]:
  "sc_log (remember_error e w) = sc_log w" "sc_flags (remember_error e w) = sc_flags w"
  "ns_poisoned (remember_error e w) = ns_poisoned w" "pw_server (remember_error e w) = pw_server w"
  "uw_handles (remember_error e u) = uw_handles u"
  by (simp_all add: remember_error_def Let_def split: option.split)

lemma savepoint_parts [world_simps]:
  "sc_log (snd (savepoint_for s v)) = sc_log v" "sc_flags (snd (savepoint_for s v)) = sc_flags v"
  "ns_poisoned (snd (savepoint_for s v)) = ns_poisoned v"
  "pw_server (snd (savepoint_for s w)) = pw_server w"
  "uw_handles (snd (savepoint_for s u)) = uw_handles u"
  by (simp_all add: savepoint_for_def next_savepoint_def)

lemma savepoint_iff: "fst (savepoint_for s v) = None \<longleftrightarrow> h_depth s = 0"
  by (simp add: savepoint_for_def next_savepoint_def)

lemma child_parts [world_simps]:
  "sc_log (snd (child_of s v)) = sc_log v" "sc_flags (snd (child_of s v)) = sc_flags v @ [False]"
  "ns_poisoned (snd (child_of s n)) = ns_poisoned n" "pw_server (snd (child_of s w)) = pw_server w"
  "uw_handles (snd (child_of s u)) = uw_handles u"
  "h_flag (fst (child_of s v)) = length (sc_flags v)" "h_depth (fst (child_of s v)) = h_depth s + 1"
  by (simp_all add: child_of_def flag_new_def Let_def)

lemma clear_parts [world_simps]:
  "sc_log (clear_map s c v) = sc_log v" "sc_flags (clear_map s c v) = sc_flags v"
  "ns_poisoned (clear_map s c n) = ns_poisoned n" "pw_server (clear_map s c w) = pw_server w"
  "uw_handles (clear_map s c u) = uw_handles u"
  by (simp_all add: clear_map_def)

lemma observed_parts [world_simps]:
  "sc_log (snd (observed exec rep sql w)) = sc_log w @ (case fst (observed exec rep sql w) of
      Dropped \<Rightarrow> [QueryStarted rep] | Ready out \<Rightarrow> [QueryStarted rep, QueryEnded rep (out \<noteq> None)])"
  "sc_flags (snd (observed exec rep sql w)) = sc_flags w"
  "ns_poisoned (snd (observed exec rep sql w)) = ns_poisoned w"
  "pw_server (snd (observed exec rep sql w)) = fst (exec (pw_server w) sql)"
  "fst (observed exec rep sql w) = snd (exec (pw_server w) sql)"
  "uw_handles (snd (observed exec rep sql u)) = uw_handles u"
  by (auto simp: observed_def Let_def world_simps split: prod.split awaited.split option.split)

lemmas execute_parts [world_simps] =
  observed_parts [where rep = sql and sql = sql for sql, folded batch_execute_def]
  observed_parts [folded batch_execute_reported_def]

text \<open>A scope of a handle whose flag is up is refused and does nothing.\<close>

lemma open_flag_refuses:
  "sc_flags w ! h_flag s \<Longrightarrow> pg_atomic exec conv s scope w = (Ready (Inl (conv ScopeAlreadyOpen)), w)"
  by (simp add: pg_atomic_def guarded_def flag_acquire_def)

definition raised :: "nat \<Rightarrow> ('k, 'e, 'm) scopes_scheme \<Rightarrow> ('k, 'e, 'm) scopes_scheme" where
  "raised i w = w\<lparr>sc_flags := (sc_flags w)[i := True]\<rparr>"

lemma raised_parts [world_simps]:
  "sc_log (raised i v) = sc_log v" "sc_flags (raised i v) = (sc_flags v)[i := True]"
  "ns_poisoned (raised i n) = ns_poisoned n" "pw_server (raised i w) = pw_server w"
  "uw_handles (raised i u) = uw_handles u"
  by (simp_all add: raised_def)

lemma release_parts [world_simps]:
  "sc_log (flag_release i v) = sc_log v" "sc_flags (flag_release i v) = (sc_flags v)[i := False]"
  "ns_poisoned (flag_release i n) = ns_poisoned n" "pw_server (flag_release i w) = pw_server w"
  "uw_handles (flag_release i u) = uw_handles u"
  by (simp_all add: flag_release_def)

lemma free_flag_claims:
  "\<not> sc_flags w ! h_flag s \<Longrightarrow> pg_atomic exec conv s scope w
    = apsnd (flag_release (h_flag s)) (pg_claimed exec conv s scope (raised (h_flag s) w))"
  by (simp add: pg_atomic_def guarded_def flag_acquire_def raised_def)

text \<open>Rolling back and committing.\<close>

definition rolling_back :: "string option \<Rightarrow> string" where
  "rolling_back savepoint =
    (case savepoint of None \<Rightarrow> ''ROLLBACK'' | Some name \<Rightarrow> ''ROLLBACK TO SAVEPOINT '' @ name)"

definition committing :: "string option \<Rightarrow> string" where
  "committing savepoint =
    (case savepoint of None \<Rightarrow> ''COMMIT'' | Some name \<Rightarrow> ''RELEASE SAVEPOINT '' @ name)"

definition commit_sent :: "string option \<Rightarrow> string" where
  "commit_sent savepoint =
    (case savepoint of None \<Rightarrow> ''SELECT 1; COMMIT'' | Some name \<Rightarrow> ''RELEASE SAVEPOINT '' @ name)"

abbreviation sent :: "'s executor \<Rightarrow> string \<Rightarrow> ('k, 'e, 's, 'm) pg_world_scheme
    \<Rightarrow> ('k, 'e, 's, 'm) pg_world_scheme" where
  "sent exec sql w \<equiv> snd (observed exec sql sql w)"

lemma roll_back_eq:
  "roll_back exec savepoint w = (case snd (exec (pw_server w) (rolling_back savepoint)) of
      Dropped \<Rightarrow> (Dropped, sent exec (rolling_back savepoint) w)
    | Ready out \<Rightarrow> (Ready (), forget_abort_cause
        ((if out \<noteq> None then poison else id) (sent exec (rolling_back savepoint) w))))"
  by (simp add: roll_back_def rolling_back_def case_prod_unfold batch_execute_def Let_def
    observed_parts(5) split: awaited.split option.split)

definition closing_sent :: "'s executor \<Rightarrow> string option \<Rightarrow> ('k, 'e, 's, 'm) pg_world_scheme
    \<Rightarrow> ('k, 'e, 's, 'm) pg_world_scheme" where
  "closing_sent exec savepoint w = snd (observed exec (committing savepoint) (commit_sent savepoint) w)"

lemma commit_eq:
  "commit exec savepoint w = (case snd (exec (pw_server w) (commit_sent savepoint)) of
      Dropped \<Rightarrow> (Dropped, closing_sent exec savepoint w)
    | Ready None \<Rightarrow> (Ready (Inr ()), forget_abort_cause (closing_sent exec savepoint w))
    | Ready (Some e) \<Rightarrow>
       (let aborted = (pe_code e = Some IN_FAILED_SQL_TRANSACTION);
            w1 = closing_sent exec savepoint w;
            w2 = (if aborted then snd (take_abort_cause w1) else w1);
            rolled = roll_back exec savepoint w2
        in (case fst rolled of Dropped \<Rightarrow> Dropped
              | Ready _ \<Rightarrow> Ready (Inl (if aborted then SAborted (fst (take_abort_cause w1))
                  else SCommit e (transient_error e))), snd rolled)))"
  by (simp add: commit_def committing_def commit_sent_def closing_sent_def case_prod_unfold Let_def
    batch_execute_def batch_execute_reported_def observed_parts(5) split: awaited.split option.split)

subsection \<open>What an observer is told of a scope\<close>

text \<open>
  How a scope is closed: with success only by a commit or a release the server acknowledged;
  otherwise by a refused one and a rollback, by a rollback, or by less when a future was dropped.
\<close>

inductive closes :: "string option \<Rightarrow> scope_outcome \<Rightarrow> session_event list \<Rightarrow> bool" where
  committed: "closes sp Succeeded [QueryStarted (committing sp), QueryEnded (committing sp) False]"
| refused: "closes sp Failed [QueryStarted (committing sp), QueryEnded (committing sp) True,
    QueryStarted (rolling_back sp), QueryEnded (rolling_back sp) f]"
| rolled_back: "closes sp Failed [QueryStarted (rolling_back sp), QueryEnded (rolling_back sp) f]"
| refused_dropped: "closes sp Failed [QueryStarted (committing sp), QueryEnded (committing sp) True,
    QueryStarted (rolling_back sp)]"
| close_dropped: "closes sp Failed [QueryStarted (committing sp)]"
| roll_dropped: "closes sp Failed [QueryStarted (rolling_back sp)]"
| scope_dropped: "closes sp Failed []"

inductive bracketed :: "session_event list \<Rightarrow> bool" where
  nothing: "bracketed []"
| statement: "bracketed es \<Longrightarrow> bracketed (QueryStarted sql # QueryEnded sql f # es)"
| dropped_statement: "bracketed es \<Longrightarrow> bracketed (QueryStarted sql # es)"
| scope: "bracketed inner \<Longrightarrow> bracketed es \<Longrightarrow> closes sp r close \<Longrightarrow> k = kind_of_scope sp \<Longrightarrow>
    bracketed (QueryStarted (pg_opening sp) # QueryEnded (pg_opening sp) False # ScopeStarted d k #
      inner @ close @ ScopeEnded d k r # es)"

lemma bracketed_append: "bracketed xs \<Longrightarrow> bracketed ys \<Longrightarrow> bracketed (xs @ ys)"
proof (induction rule: bracketed.induct)
  case (scope inner es sp r close k d)
  show ?case using bracketed.scope [OF scope(1) scope(6) [OF scope.prems]] scope by simp
qed (auto intro: bracketed.intros)

definition tells :: "('k, 'e, 'm) scopes_scheme \<Rightarrow> ('k, 'e, 'm) scopes_scheme \<Rightarrow> session_event list \<Rightarrow> bool" where
  "tells w w' es \<longleftrightarrow> sc_log w' = sc_log w @ es"

lemma closing_log:
  "sc_log (closing_sent exec sp w) = sc_log w @ (case snd (exec (pw_server w) (commit_sent sp)) of
      Dropped \<Rightarrow> [QueryStarted (committing sp)]
    | Ready out \<Rightarrow> [QueryStarted (committing sp), QueryEnded (committing sp) (out \<noteq> None)])"
  by (simp add: closing_sent_def world_simps)

lemma roll_back_log:
  "\<exists>es. sc_log (snd (roll_back exec sp w)) = sc_log w @ es \<and> (case fst (roll_back exec sp w) of
      Dropped \<Rightarrow> es = [QueryStarted (rolling_back sp)]
    | Ready _ \<Rightarrow> \<exists>f. es = [QueryStarted (rolling_back sp), QueryEnded (rolling_back sp) f])"
  by (auto simp: roll_back_eq world_simps split: awaited.split)

lemma commit_log:
  "\<exists>es. sc_log (snd (commit exec sp w)) = sc_log w @ es \<and> (case fst (commit exec sp w) of
      Ready (Inr _) \<Rightarrow> closes sp Succeeded es | _ \<Rightarrow> closes sp Failed es)"
proof (cases "snd (exec (pw_server w) (commit_sent sp))")
  case Dropped
  then show ?thesis by (auto simp: commit_eq closing_log intro: closes.intros)
next
  case (Ready out)
  show ?thesis
  proof (cases out)
    case None
    then show ?thesis using Ready by (auto simp: commit_eq closing_log world_simps intro: closes.intros)
  next
    case (Some e)
    let ?aborted = "pe_code e = Some IN_FAILED_SQL_TRANSACTION"
    let ?w = "if ?aborted then snd (take_abort_cause (closing_sent exec sp w)) else closing_sent exec sp w"
    have log: "sc_log ?w = sc_log w @ [QueryStarted (committing sp), QueryEnded (committing sp) True]"
      using Ready Some by (simp add: closing_log world_simps)
    obtain es where rolled: "sc_log (snd (roll_back exec sp ?w)) = sc_log ?w @ es"
      "case fst (roll_back exec sp ?w) of Dropped \<Rightarrow> es = [QueryStarted (rolling_back sp)]
        | Ready _ \<Rightarrow> \<exists>f. es = [QueryStarted (rolling_back sp), QueryEnded (rolling_back sp) f]"
      using roll_back_log [of exec sp ?w] by blast
    have "commit exec sp w = (case fst (roll_back exec sp ?w) of Dropped \<Rightarrow> Dropped
          | Ready _ \<Rightarrow> Ready (Inl (if ?aborted then SAborted (fst (take_abort_cause (closing_sent exec sp w)))
              else SCommit e (transient_error e))), snd (roll_back exec sp ?w))"
      using Ready Some by (simp add: commit_eq Let_def)
    then show ?thesis
      using rolled log by (cases "fst (roll_back exec sp ?w)") (auto intro: closes.intros)
  qed
qed

lemma pg_close_log:
  assumes "k = kind_of_scope sp"
  shows "\<exists>es r. sc_log (snd (pg_close exec conv s child sp returned w))
    = sc_log w @ es @ [ScopeEnded (h_depth s + 1) k r] \<and> closes sp r es
    \<and> (\<forall>v. fst (pg_close exec conv s child sp returned w) = Ready (Inr v) \<longrightarrow> r = Succeeded)"
proof (cases "isl (unless_abandoned conv returned w)")
  case False
  obtain es where es: "sc_log (snd (commit exec sp w)) = sc_log w @ es"
    "case fst (commit exec sp w) of Ready (Inr _) \<Rightarrow> closes sp Succeeded es | _ \<Rightarrow> closes sp Failed es"
    using commit_log by blast
  show ?thesis
  proof (cases "fst (commit exec sp w)")
    case Dropped
    then show ?thesis using False es assms
      by (auto simp: pg_close_def case_prod_unfold Let_def world_simps)
  next
    case (Ready c)
    then show ?thesis using False es assms
      by (cases c) (auto simp: pg_close_def pg_ended_def case_prod_unfold Let_def world_simps outcome_of_def
        split: sum.splits)
  qed
next
  case True
  obtain es where es: "sc_log (snd (roll_back exec sp w)) = sc_log w @ es"
    "case fst (roll_back exec sp w) of Dropped \<Rightarrow> es = [QueryStarted (rolling_back sp)]
      | Ready _ \<Rightarrow> \<exists>f. es = [QueryStarted (rolling_back sp), QueryEnded (rolling_back sp) f]"
    using roll_back_log by blast
  then show ?thesis using True assms
    by (cases "fst (roll_back exec sp w)"; cases "unless_abandoned conv returned w")
      (auto simp: pg_close_def pg_ended_def case_prod_unfold Let_def world_simps outcome_of_def
        intro: closes.intros)
qed

lemma pg_claimed_eq:
  assumes "sp = fst (savepoint_for s w)" "w1 = snd (savepoint_for s w)" "k = kind_of_scope sp"
  shows "pg_claimed exec conv s scope w =
    (if ns_poisoned w then (Ready (Inl (conv SAbandoned)), w)
     else case snd (exec (pw_server w1) (pg_opening sp)) of
        Dropped \<Rightarrow> (Dropped, abandon False (h_depth s + 1) k (sent exec (pg_opening sp) w1))
      | Ready (Some e) \<Rightarrow> (Ready (Inl (conv (SBegin e (transient_error e)))), sent exec (pg_opening sp) w1)
      | Ready None \<Rightarrow>
          (let w3 = tell (ScopeStarted (h_depth s + 1) k)
             (if sp = None then forget_abort_cause (sent exec (pg_opening sp) w1)
              else sent exec (pg_opening sp) w1);
             child = fst (child_of s w3); ran = scope child (snd (child_of s w3))
           in case fst ran of
             Dropped \<Rightarrow> (Dropped, abandon True (h_depth s + 1) k (snd ran))
           | Ready returned \<Rightarrow> pg_close exec conv s child sp returned (snd ran)))"
  unfolding assms pg_claimed_def batch_execute_def
  by (simp add: case_prod_unfold Let_def observed_parts(5) split: awaited.split option.split)

lemma pg_claimed_opened:
  assumes "sp = fst (savepoint_for s w)" "w1 = snd (savepoint_for s w)" "\<not> ns_poisoned w"
    and "snd (exec (pw_server w1) (pg_opening sp)) = Ready None"
    and "w3 = tell (ScopeStarted (h_depth s + 1) (kind_of_scope sp))
      (if sp = None then forget_abort_cause (sent exec (pg_opening sp) w1) else sent exec (pg_opening sp) w1)"
    and "after = scope (fst (child_of s w3)) (snd (child_of s w3))"
  shows "pg_claimed exec conv s scope w = (case fst after of
      Dropped \<Rightarrow> (Dropped, abandon True (h_depth s + 1) (kind_of_scope sp) (snd after))
    | Ready returned \<Rightarrow> pg_close exec conv s (fst (child_of s w3)) sp returned (snd after))"
proof -
  have alive: "ns_poisoned w = False" using assms(3) by simp
  show ?thesis
    unfolding pg_claimed_eq [OF assms(1,2) refl] assms(4,5,6) alive Let_def
    by (simp only: if_False awaited.case option.case)
qed

lemma pg_atomic_log:
  assumes scope: "\<And>child w. \<exists>es. sc_log (snd (scope child w)) = sc_log w @ es \<and> bracketed es"
  shows "\<exists>es. sc_log (snd (pg_atomic exec conv s scope w)) = sc_log w @ es \<and> bracketed es
    \<and> (\<forall>v. fst (pg_atomic exec conv s scope w) = Ready (Inr v) \<longrightarrow> es \<noteq> [] \<and>
      (\<exists>k. last es = ScopeEnded (h_depth s + 1) k Succeeded))"
proof (cases "sc_flags w ! h_flag s")
  case True
  then show ?thesis using open_flag_refuses [OF True, of exec conv scope] bracketed.nothing by simp
next
  case False
  let ?w = "raised (h_flag s) w"
  define sp where "sp = fst (savepoint_for s ?w)"
  define w1 where "w1 = snd (savepoint_for s ?w)"
  define k where "k = kind_of_scope sp"
  let ?o = "pg_opening sp" and ?d = "h_depth s + 1"
  note eq = pg_claimed_eq [OF sp_def w1_def k_def, of exec conv scope]
  have log: "sc_log (snd (pg_atomic exec conv s scope w)) = sc_log (snd (pg_claimed exec conv s scope ?w))"
    and result: "fst (pg_atomic exec conv s scope w) = fst (pg_claimed exec conv s scope ?w)"
    using free_flag_claims [OF False, of exec conv scope] by (simp_all add: world_simps)
  have w1: "sc_log w1 = sc_log w" by (simp add: w1_def world_simps)
  show ?thesis
  proof (cases "ns_poisoned ?w")
    case True
    then show ?thesis unfolding log result eq using bracketed.nothing by (auto simp: world_simps)
  next
    case alive: False
    show ?thesis
    proof (cases "snd (exec (pw_server w1) ?o)")
      case Dropped
      then show ?thesis unfolding log result eq
        using alive w1 bracketed.dropped_statement [OF bracketed.nothing] by (auto simp: world_simps)
    next
      case (Ready out)
      show ?thesis
      proof (cases out)
        case (Some e)
        then show ?thesis unfolding log result eq
          using Ready alive w1 bracketed.statement [OF bracketed.nothing] by (auto simp: world_simps)
      next
        case None
        then have opened: "snd (exec (pw_server w1) ?o) = Ready None" using Ready by simp
        define w3 where "w3 = tell (ScopeStarted ?d (kind_of_scope sp))
             (if sp = None then forget_abort_cause (sent exec ?o w1) else sent exec ?o w1)"
        define after where "after = scope (fst (child_of s w3)) (snd (child_of s w3))"
        note claimed = pg_claimed_opened [OF sp_def w1_def alive opened w3_def,
          where scope = scope and conv = conv, OF after_def]
        have w3: "sc_log w3 = sc_log w @ [QueryStarted ?o, QueryEnded ?o False, ScopeStarted ?d k]"
          using opened w1 by (cases sp) (simp_all add: w3_def k_def world_simps)
        obtain inner where inner: "sc_log (snd after) = sc_log w3 @ inner" "bracketed inner"
          using scope [of "fst (child_of s w3)" "snd (child_of s w3)"] by (auto simp: after_def world_simps)
        obtain close r where "sc_log (snd (pg_claimed exec conv s scope ?w))
            = sc_log (snd after) @ close @ [ScopeEnded ?d k r]" "closes sp r close"
          "\<forall>v. fst (pg_claimed exec conv s scope ?w) = Ready (Inr v) \<longrightarrow> r = Succeeded"
        proof (cases "fst after")
          case Dropped
          then show ?thesis using that [of "[]" Failed] closes.scope_dropped
            by (simp add: claimed k_def world_simps)
        next
          case (Ready returned)
          then show ?thesis
            using that pg_close_log [OF k_def, of exec conv s "fst (child_of s w3)" returned "snd after"]
            by (auto simp: claimed)
        qed
        then show ?thesis
          unfolding log result
          using w3 inner(1) bracketed.scope [OF inner(2) bracketed.nothing _ k_def, of r close ?d]
          by auto
      qed
    qed
  qed
qed

lemma use_run_log:
  "\<exists>es. sc_log (snd (use_run p exec conv w)) = sc_log w @ es \<and> bracketed es"
proof (induction p arbitrary: w)
  case (Run sql k)
  obtain es where es: "sc_log (snd (use_run (k (snd (exec (pw_server w) sql))) exec conv (sent exec sql w)))
      = sc_log (sent exec sql w) @ es" "bracketed es"
    using Run [OF rangeI] by blast
  show ?case
  proof (cases "snd (exec (pw_server w) sql)")
    case Dropped
    then show ?thesis using es bracketed.dropped_statement
      by (auto simp: case_prod_unfold Let_def world_simps)
  next
    case (Ready out)
    then show ?thesis using es bracketed.statement
      by (auto simp: case_prod_unfold Let_def world_simps)
  qed
next
  case (Open i body k)
  show ?case
  proof (cases "i < length (uw_handles w)")
    case True
    let ?atomic = "pg_atomic exec conv (uw_handles w ! i)
      (\<lambda>child w. use_run body exec conv (w\<lparr>uw_handles := uw_handles w @ [child]\<rparr>)) w"
    obtain es where es: "sc_log (snd ?atomic) = sc_log w @ es" "bracketed es"
      using pg_atomic_log [of "\<lambda>child w. use_run body exec conv (w\<lparr>uw_handles := uw_handles w @ [child]\<rparr>)"
          exec conv "uw_handles w ! i" w]
        Open.IH(1) [of "v\<lparr>uw_handles := uw_handles v @ [child]\<rparr>" for v child] by auto
    obtain fs where fs: "sc_log (snd (use_run (k (fst ?atomic)) exec conv (snd ?atomic))) = sc_log (snd ?atomic) @ fs"
      "bracketed fs"
      using Open.IH(2) [OF rangeI] by blast
    show ?thesis using True es fs bracketed_append [OF es(2) fs(2)]
      by (auto simp: case_prod_unfold Let_def)
  qed (use bracketed.nothing in auto)
qed (use bracketed.nothing in auto)

subsection \<open>Nothing is durable before the commit\<close>

text \<open>
  What the server promises of a transaction, of \<open>PostgreSQL\<close>'s documentation: \<open>inside\<close> is the
  state of a server that will make nothing durable but by the closing statement, in a transaction
  or with the connection lost; \<open>plain\<close> statements, and those of savepoints, leave it so; a close
  that the server answers with an error has made nothing durable, nor has a \<open>BEGIN\<close> or a
  \<open>ROLLBACK\<close>. Nothing is said of a close whose answer the connection lost.
\<close>

definition transactional ::
  "'s executor \<Rightarrow> ('s \<Rightarrow> 'd) \<Rightarrow> ('s \<Rightarrow> bool) \<Rightarrow> (string \<Rightarrow> bool) \<Rightarrow> bool" where
  "transactional exec durable inside plain \<longleftrightarrow>
    (\<forall>srv sql. inside srv \<longrightarrow> plain sql \<longrightarrow>
      inside (fst (exec srv sql)) \<and> durable (fst (exec srv sql)) = durable srv)
    \<and> (\<forall>name. plain (''SAVEPOINT '' @ name) \<and> plain (''RELEASE SAVEPOINT '' @ name)
        \<and> plain (''ROLLBACK TO SAVEPOINT '' @ name))
    \<and> (\<forall>srv. durable (fst (exec srv ''BEGIN'')) = durable srv
        \<and> (snd (exec srv ''BEGIN'') = Ready None \<longrightarrow> inside (fst (exec srv ''BEGIN''))))
    \<and> (\<forall>srv. inside srv \<longrightarrow> durable (fst (exec srv ''ROLLBACK'')) = durable srv)
    \<and> (\<forall>srv e. inside srv \<longrightarrow> snd (exec srv ''SELECT 1; COMMIT'') = Ready (Some e) \<longrightarrow>
        pe_db e \<noteq> None \<longrightarrow>
        inside (fst (exec srv ''SELECT 1; COMMIT''))
        \<and> durable (fst (exec srv ''SELECT 1; COMMIT'')) = durable srv)"

text \<open>A program whose own statements are plain.\<close>

primrec plain_case :: "(string \<Rightarrow> bool) \<Rightarrow> ('x, 'v) use_case \<Rightarrow> bool" where
  "plain_case plain (Give r) \<longleftrightarrow> True"
| "plain_case plain Vanish \<longleftrightarrow> True"
| "plain_case plain (Run sql k) \<longleftrightarrow> plain sql \<and> (\<forall>r. plain_case plain (k r))"
| "plain_case plain (Open i body k) \<longleftrightarrow> plain_case plain body \<and> (\<forall>r. plain_case plain (k r))"

text \<open>Inside the transaction that the handle with flag \<open>f\<close> opened, with \<open>D\<close> durable.\<close>

definition within :: "('s \<Rightarrow> 'd) \<Rightarrow> ('s \<Rightarrow> bool) \<Rightarrow> 'd \<Rightarrow> nat \<Rightarrow> ('k, 'e, 's) use_world \<Rightarrow> bool" where
  "within durable inside D f w \<longleftrightarrow> inside (pw_server w) \<and> durable (pw_server w) = D
    \<and> f < length (sc_flags w) \<and> sc_flags w ! f
    \<and> list_all (\<lambda>h. h_flag h = f \<or> 0 < h_depth h) (uw_handles w)"

lemma within_observed:
  assumes "transactional exec durable inside plain" "plain sql" "within durable inside D f w"
  shows "within durable inside D f (snd (observed exec rep sql w))"
  using assms by (auto simp: within_def world_simps transactional_def)

lemma plain_savepoints:
  assumes "transactional exec durable inside plain"
  shows "plain (pg_opening (Some n))" "plain (commit_sent (Some n))" "plain (rolling_back (Some n))"
  using assms unfolding pg_opening_def commit_sent_def rolling_back_def transactional_def option.case
  by blast+

lemma within_roll_back:
  assumes "transactional exec durable inside plain" "within durable inside D f w"
  shows "within durable inside D f (snd (roll_back exec (Some n) w))"
proof -
  have "within durable inside D f (sent exec (rolling_back (Some n)) w)"
    by (rule within_observed [OF assms(1) plain_savepoints(3) [OF assms(1)] assms(2)])
  then show ?thesis
    by (simp add: roll_back_eq world_simps within_def split: awaited.split)
qed

lemma within_commit:
  assumes "transactional exec durable inside plain" "within durable inside D f w"
  shows "within durable inside D f (snd (commit exec (Some n) w))"
proof -
  have closing: "within durable inside D f (closing_sent exec (Some n) w)"
    unfolding closing_sent_def
    by (rule within_observed [OF assms(1) plain_savepoints(2) [OF assms(1)] assms(2)])
  then have "within durable inside D f (snd (take_abort_cause (closing_sent exec (Some n) w)))"
    "within durable inside D f (forget_abort_cause (closing_sent exec (Some n) w))"
    by (simp_all add: within_def world_simps)
  then show ?thesis using closing
    by (auto simp: commit_eq Let_def intro: within_roll_back [OF assms(1)]
      split: awaited.split option.split)
qed

lemma within_close:
  assumes "transactional exec durable inside plain" "within durable inside D f w"
  shows "within durable inside D f (snd (pg_close exec conv s child (Some n) returned w))"
proof (cases "isl (unless_abandoned conv returned w)")
  case True
  then show ?thesis using within_roll_back [OF assms, of n]
    by (cases "fst (roll_back exec (Some n) w)")
      (simp_all add: pg_close_def pg_ended_def case_prod_unfold Let_def world_simps within_def)
next
  case False
  then show ?thesis using within_commit [OF assms, of n]
    by (cases "fst (commit exec (Some n) w)")
      (simp_all add: pg_close_def pg_ended_def case_prod_unfold Let_def world_simps within_def)
qed

lemma within_atomic:
  assumes trans: "transactional exec durable inside plain" and w: "within durable inside D f w"
    and s: "h_flag s = f \<or> 0 < h_depth s"
    and scope: "\<And>child w. within durable inside D f w \<Longrightarrow> 0 < h_depth child \<Longrightarrow>
      within durable inside D f (snd (scope child w))"
  shows "within durable inside D f (snd (pg_atomic exec conv s scope w))"
proof (cases "sc_flags w ! h_flag s")
  case True
  then show ?thesis using open_flag_refuses [OF True, of exec conv scope] w by simp
next
  case False
  have other: "h_flag s \<noteq> f" using False w by (auto simp: within_def)
  then have depth: "0 < h_depth s" using s by blast
  let ?w = "raised (h_flag s) w"
  obtain n where sp: "Some n = fst (savepoint_for s ?w)"
    using depth savepoint_iff [of s ?w] by (metis not_None_eq not_less0)
  define w1 where "w1 = snd (savepoint_for s ?w)"
  have w1: "within durable inside D f w1"
    using w other by (simp add: w1_def within_def world_simps)
  let ?o = "pg_opening (Some n)" and ?k = "kind_of_scope (Some n)"
  note eq = pg_claimed_eq [OF sp w1_def refl, of exec conv scope]
  have sent: "within durable inside D f (sent exec ?o w1)"
    by (rule within_observed [OF trans plain_savepoints(1) [OF trans] w1])
  define w3 where "w3 = tell (ScopeStarted (h_depth s + 1) ?k)
    (if Some n = None then forget_abort_cause (sent exec ?o w1) else sent exec ?o w1)"
  have "within durable inside D f (snd (child_of s w3))"
    using sent by (simp add: w3_def within_def world_simps nth_append)
  then have ran: "within durable inside D f (snd (scope (fst (child_of s w3)) (snd (child_of s w3))))"
    by (rule scope) (simp add: world_simps)
  have "within durable inside D f (snd (pg_claimed exec conv s scope ?w))"
  proof (cases "ns_poisoned ?w")
    case True
    then show ?thesis using w other by (simp add: eq within_def world_simps)
  next
    case alive: False
    show ?thesis
    proof (cases "snd (exec (pw_server w1) ?o)")
      case Dropped
      then show ?thesis using alive sent by (simp add: eq within_def world_simps)
    next
      case (Ready out)
      show ?thesis
      proof (cases out)
        case None
        then have opened: "snd (exec (pw_server w1) ?o) = Ready None" using Ready by simp
        show ?thesis
          unfolding pg_claimed_opened [OF sp w1_def alive opened w3_def refl, of conv scope]
          using ran within_close [OF trans ran]
          by (cases "fst (scope (fst (child_of s w3)) (snd (child_of s w3)))")
            (simp_all add: within_def world_simps)
      qed (use alive Ready sent in \<open>simp add: eq\<close>)
    qed
  qed
  then show ?thesis
    using free_flag_claims [OF False, of exec conv scope] other by (simp add: within_def world_simps)
qed

lemma within_run:
  fixes w :: "('k, 'e, 's) use_world"
  assumes trans: "transactional exec durable inside plain"
  shows "plain_case plain p \<Longrightarrow> within durable inside D f w \<Longrightarrow>
    within durable inside D f (snd (use_run p exec conv w))"
proof (induction p arbitrary: w)
  case (Run sql k)
  then have "within durable inside D f (sent exec sql w)"
    by (intro within_observed [OF trans]) auto
  then show ?case using Run by (auto simp: case_prod_unfold Let_def)
next
  case (Open i body k)
  show ?case
  proof (cases "i < length (uw_handles w)")
    case True
    let ?atomic = "pg_atomic exec conv (uw_handles w ! i)
      (\<lambda>child w. use_run body exec conv (w\<lparr>uw_handles := uw_handles w @ [child]\<rparr>)) w"
    have "within durable inside D f (snd ?atomic)"
    proof (rule within_atomic [OF trans Open.prems(2)])
      show "h_flag (uw_handles w ! i) = f \<or> 0 < h_depth (uw_handles w ! i)"
        using Open.prems(2) True by (auto simp: within_def list_all_length)
      fix child :: handle and v :: "('k, 'e, 's) use_world"
      assume "within durable inside D f v" "0 < h_depth child"
      then have "within durable inside D f (v\<lparr>uw_handles := uw_handles v @ [child]\<rparr>)"
        by (simp add: within_def)
      then show "within durable inside D f (snd (use_run body exec conv (v\<lparr>uw_handles := uw_handles v @ [child]\<rparr>)))"
        using Open.prems(1) by (intro Open.IH(1)) simp_all
    qed
    then show ?thesis using True Open.IH(2) [OF rangeI] Open.prems(1)
      by (simp add: case_prod_unfold Let_def)
  qed (use Open.prems in simp)
qed simp_all

end
