(* ===== verification/Scope_Properties.thy ===== *)
theory Scope_Properties
  imports Pg_Session_Laws
begin

section \<open>Properties of the scopes of a PostgreSQL session\<close>

text \<open>
  The claims about \<open>atomic\<close> of a PostgreSQL session and their witnesses, on a server of one number:
  what is durable, and what the transaction that is open has made of it.
\<close>

subsection \<open>The body of a scope, and a server\<close>

definition body_of :: "('x, 'v) use_case \<Rightarrow> 's executor \<Rightarrow> (pg_error session_error \<Rightarrow> 'x) \<Rightarrow> handle
    \<Rightarrow> ('k, 'e, 's) use_world \<Rightarrow> ('x, 'v) result awaited \<times> ('k, 'e, 's) use_world" where
  "body_of p exec conv child w = use_run p exec conv (w\<lparr>uw_handles := uw_handles w @ [child]\<rparr>)"

definition number_server :: "(nat \<times> nat option) executor" where
  "number_server srv sql =
    (let (kept, open_tx) = srv in
     if sql = ''BEGIN'' then ((kept, Some kept), Ready None)
     else if sql = ''SELECT 1; COMMIT''
     then (case open_tx of Some n \<Rightarrow> ((n, None), Ready None) | None \<Rightarrow> (srv, Ready None))
     else if sql = ''ROLLBACK'' then ((kept, None), Ready None)
     else if sql = ''INSERT'' then ((kept, map_option Suc open_tx), Ready None)
     else (srv, Ready None))"

text \<open>The same, but the connection is lost after the server has read a close.\<close>

definition connection_lost :: pg_error where
  "connection_lost = \<lparr>pe_closed = True, pe_db = None, pe_io = False, pe_text = ''connection closed''\<rparr>"

definition losing_server :: "(nat \<times> nat option) executor" where
  "losing_server srv sql = (fst (number_server srv sql),
    if sql = ''SELECT 1; COMMIT'' \<or> sql = ''ROLLBACK'' then Ready (Some connection_lost)
    else snd (number_server srv sql))"

definition number_plain :: "string \<Rightarrow> bool" where
  "number_plain sql \<longleftrightarrow> sql \<noteq> ''BEGIN'' \<and> sql \<noteq> ''SELECT 1; COMMIT'' \<and> sql \<noteq> ''ROLLBACK''"

lemma number_server_transactional:
  "transactional number_server fst (\<lambda>srv. snd srv \<noteq> None) number_plain"
  "transactional losing_server fst (\<lambda>srv. snd srv \<noteq> None) number_plain"
  unfolding transactional_def
  by (auto simp: number_server_def losing_server_def connection_lost_def number_plain_def
    split: prod.splits if_splits option.splits)

definition root_handle :: handle where
  "root_handle = \<lparr>h_depth = 0, h_flag = 0, h_map = 0, h_isolation = Serializable\<rparr>"

definition root_world :: "(nat, nat, nat \<times> nat option) use_world" where
  "root_world = \<lparr>sc_flags = [False], sc_maps = [imap_with_isolation ReadUncommitted], sc_log = [],
    ns_savepoints = 0, ns_poisoned = False, pw_server = (7, None), pw_aborted_by = None,
    uw_handles = [root_handle]\<rparr>"

subsection \<open>What an observer is told\<close>

text \<open>
  C22: whatever a use case does inside a scope, nested scopes, statements that fail or are dropped,
  scopes that are dropped and survived by their caller, handles kept after their scope, what the
  observer is told is well bracketed: every scope that started is ended once, inner ones first,
  after the statement that opened it and a close that is a commit or a release the server
  acknowledged exactly when the scope is told to have succeeded; and \<open>atomic\<close> gives a value only
  when its own scope has.
\<close>
theorem scopes_are_bracketed:
  fixes w :: "('k, 'e, 's) use_world"
  shows "\<exists>es. sc_log (snd (pg_atomic exec conv s (body_of p exec conv) w)) = sc_log w @ es \<and> bracketed es
    \<and> {v. fst (pg_atomic exec conv s (body_of p exec conv) w) = Ready (Inr v)}
      \<subseteq> {v. es \<noteq> [] \<and> (\<exists>k. last es = ScopeEnded (h_depth s + 1) k Succeeded)}"
proof -
  have "\<exists>es. sc_log (snd (body_of p exec conv child v)) = sc_log v @ es \<and> bracketed es"
    for child and v :: "('k, 'e, 's) use_world"
    using use_run_log [of p exec conv "v\<lparr>uw_handles := uw_handles v @ [child]\<rparr>"] by (simp add: body_of_def)
  from pg_atomic_log [of "body_of p exec conv" exec conv s w, OF this]
  show ?thesis by (auto simp: subset_iff)
qed

subsection \<open>All or nothing\<close>

lemma commit_root:
  assumes trans: "transactional exec durable inside plain"
    and srv: "inside (pw_server w)" "durable (pw_server w) = D"
  shows "case fst (commit exec None w) of
      Dropped \<Rightarrow> True
    | Ready (Inr _) \<Rightarrow> exec (pw_server w) ''SELECT 1; COMMIT'' = (pw_server (snd (commit exec None w)), Ready None)
        \<and> ns_poisoned (snd (commit exec None w)) = ns_poisoned w
    | Ready (Inl e) \<Rightarrow> durable (pw_server (snd (commit exec None w))) = D
        \<or> (\<exists>err t. e = SCommit err t \<and> pe_db err = None)"
proof (cases "snd (exec (pw_server w) ''SELECT 1; COMMIT'')")
  case Dropped
  then show ?thesis by (simp add: commit_eq commit_sent_def)
next
  case (Ready out)
  let ?closed = "closing_sent exec None w"
  have closed: "pw_server ?closed = fst (exec (pw_server w) ''SELECT 1; COMMIT'')"
    "ns_poisoned ?closed = ns_poisoned w"
    by (simp_all add: closing_sent_def commit_sent_def world_simps)
  show ?thesis
  proof (cases out)
    case None
    then show ?thesis using Ready closed
      by (simp add: commit_eq commit_sent_def world_simps prod_eq_iff)
  next
    case (Some e)
    have rolled: "durable (pw_server (snd (roll_back exec None v))) = D"
      if "inside (pw_server v)" "durable (pw_server v) = D" for v
      using trans that
      by (simp add: roll_back_eq rolling_back_def world_simps transactional_def split: awaited.split)
    have answered: "inside (pw_server ?closed) \<and> durable (pw_server ?closed) = D" if "pe_db e \<noteq> None"
      using trans srv Ready Some that unfolding closed transactional_def by blast
    have code: "pe_db e \<noteq> None" if "pe_code e = Some c" for c using that by (auto simp: pe_code_def)
    show ?thesis
      using Ready Some rolled [of ?closed] rolled [of "snd (take_abort_cause ?closed)"] answered
        code [of IN_FAILED_SQL_TRANSACTION]
      by (auto simp: commit_eq commit_sent_def Let_def world_simps split: awaited.split)
  qed
qed

text \<open>
  C23: a transaction is all or nothing. With a server that makes nothing durable inside a transaction
  but by its close, an outermost scope gives a value only when the server has acknowledged the
  close of a transaction that everything in the scope was part of, on a connection no scope of which
  was dropped. When it gives an error, what is durable is what was durable before, whatever the
  scope did and whatever it absorbed; but for one case, a close whose answer the connection lost.
  When its future is dropped, the connection is discarded.
\<close>
theorem transaction_is_all_or_nothing:
  fixes w :: "('k, 'e, 's) use_world"
  assumes trans: "transactional exec durable inside plain" and p: "plain_case plain p"
    and s: "h_depth s = 0" "h_flag s < length (sc_flags w)"
    and handles: "list_all (\<lambda>h. h_flag h = h_flag s \<or> 0 < h_depth h) (uw_handles w)"
    and run: "pg_atomic exec conv s (body_of p exec conv) w = (r, w')"
  shows "(\<exists>v srv. r = Ready (Inr v) \<and> inside srv \<and> durable srv = durable (pw_server w)
        \<and> exec srv ''SELECT 1; COMMIT'' = (pw_server w', Ready None) \<and> \<not> ns_poisoned w')
    \<or> (\<exists>e. r = Ready (Inl e) \<and> durable (pw_server w') = durable (pw_server w))
    \<or> (\<exists>e t. r = Ready (Inl (conv (SCommit e t))) \<and> pe_db e = None)
    \<or> r = Dropped \<and> connection_drop w' = Discarded"
proof (cases "sc_flags w ! h_flag s")
  case True
  then show ?thesis using open_flag_refuses [OF True, of exec conv "body_of p exec conv"] run by auto
next
  case False
  let ?D = "durable (pw_server w)" and ?f = "h_flag s" and ?w = "raised (h_flag s) w"
  let ?scope = "body_of p exec conv"
  define w1 where "w1 = snd (savepoint_for s ?w)"
  have sp: "None = fst (savepoint_for s ?w)" using s(1) savepoint_iff [of s ?w] by metis
  have w1: "pw_server w1 = pw_server w" by (simp add: w1_def world_simps)
  have claimed: "r = fst (pg_claimed exec conv s ?scope ?w)"
    "w' = flag_release ?f (snd (pg_claimed exec conv s ?scope ?w))"
    using run free_flag_claims [OF False, of exec conv ?scope] by (auto simp: prod_eq_iff)
  note eq = pg_claimed_eq [OF sp w1_def refl, of exec conv ?scope]
  have begin_durable: "durable (fst (exec (pw_server w) ''BEGIN'')) = ?D"
    using trans unfolding transactional_def by blast
  show ?thesis
  proof (cases "ns_poisoned ?w")
    case True
    then show ?thesis unfolding claimed eq by (auto simp: world_simps)
  next
    case alive: False
    show ?thesis
    proof (cases "snd (exec (pw_server w1) (pg_opening None))")
      case Dropped
      then show ?thesis unfolding claimed eq using alive by (auto simp: world_simps connection_drop_def)
    next
      case (Ready out)
      show ?thesis
      proof (cases out)
        case (Some e)
        then show ?thesis unfolding claimed eq using Ready alive w1 begin_durable
          by (auto simp: world_simps pg_opening_def)
      next
        case None
        then have opened: "snd (exec (pw_server w1) (pg_opening None)) = Ready None" using Ready by simp
        define w3 where "w3 = tell (ScopeStarted (h_depth s + 1) (kind_of_scope None))
          (if (None :: string option) = None then forget_abort_cause (sent exec (pg_opening None) w1)
           else sent exec (pg_opening None) w1)"
        define after where "after = ?scope (fst (child_of s w3)) (snd (child_of s w3))"
        note body = pg_claimed_opened [OF sp w1_def alive opened w3_def,
          where scope = ?scope and conv = conv, OF after_def]
        have "snd (exec (pw_server w) ''BEGIN'') = Ready None" using opened w1 by (simp add: pg_opening_def)
        then have "inside (fst (exec (pw_server w) ''BEGIN''))"
          using trans unfolding transactional_def by blast
        then have "within durable inside ?D ?f (snd (child_of s w3))"
          using s handles w1 begin_durable
          by (simp add: within_def w3_def w1_def pg_opening_def world_simps nth_append)
        then have inner: "within durable inside ?D ?f (snd after)"
          unfolding after_def body_of_def
          by (intro within_run [OF trans p]) (simp add: within_def world_simps s(1))
        then have srv: "inside (pw_server (snd after))" "durable (pw_server (snd after)) = ?D"
          by (auto simp: within_def)
        show ?thesis
        proof (cases "fst after")
          case Dropped
          then show ?thesis unfolding claimed body by (auto simp: world_simps connection_drop_def)
        next
          case (Ready returned)
          show ?thesis
          proof (cases "unless_abandoned conv returned (snd after)")
            case (Inl e)
            have "durable (pw_server (snd (roll_back exec None (snd after)))) = ?D"
              using trans srv
              by (simp add: roll_back_eq rolling_back_def world_simps transactional_def split: awaited.split)
            then show ?thesis unfolding claimed body using Ready Inl
              by (cases "fst (roll_back exec None (snd after))")
                (auto simp: pg_close_def pg_ended_def case_prod_unfold Let_def world_simps connection_drop_def)
          next
            case (Inr v)
            then have "\<not> ns_poisoned (snd after)" by (auto simp: unless_abandoned_def split: if_splits)
            then show ?thesis unfolding claimed body
              using Ready Inr srv commit_root [OF trans srv]
              by (cases "fst (commit exec None (snd after))")
                (auto simp: pg_close_def pg_ended_def case_prod_unfold Let_def world_simps
                  connection_drop_def split: sum.splits)
          qed
        qed
      qed
    qed
  qed
qed

text \<open>A use case that inserts, and absorbs the failure of a nested scope that inserts too.\<close>

definition absorbing :: "(pg_error session_error, nat) use_case" where
  "absorbing = Run ''INSERT'' (\<lambda>_. Open 1 (Run ''INSERT'' (\<lambda>_. Give (Inl ScopeAlreadyOpen)))
    (\<lambda>_. Open 0 (Give (Inr 0)) (\<lambda>r. Give (Inr (if r = Ready (Inl ScopeAlreadyOpen) then 1 else 2)))))"

lemma transaction_is_all_or_nothing_witness:
  "(let (r, w') = pg_atomic number_server id root_handle (body_of absorbing number_server id) root_world in
    (\<exists>v srv. r = Ready (Inr v) \<and> snd srv \<noteq> None \<and> fst srv = fst (pw_server root_world)
        \<and> number_server srv ''SELECT 1; COMMIT'' = (pw_server w', Ready None) \<and> \<not> ns_poisoned w')
    \<or> (\<exists>e. r = Ready (Inl e) \<and> fst (pw_server w') = fst (pw_server root_world))
    \<or> (\<exists>e t. r = Ready (Inl (id (SCommit e t))) \<and> pe_db e = None)
    \<or> r = Dropped \<and> connection_drop w' = Discarded)"
  unfolding case_prod_unfold Let_def
  by (rule transaction_is_all_or_nothing [OF number_server_transactional(1),
      where p = absorbing and s = root_handle and conv = id])
    (simp_all add: absorbing_def number_plain_def root_handle_def root_world_def)

text \<open>What it comes to: both insertions of this server stay, and the handle in use was refused.\<close>

lemma absorbing_commits:
  "let (r, w') = pg_atomic number_server id root_handle (body_of absorbing number_server id) root_world
    in r = Ready (Inr 1) \<and> fst (pw_server w') = 9 \<and> sc_flags w' = [False, False, False]"
  by code_simp

text \<open>
  The case left open above is real: when the connection is lost after the server has read the
  close, the scope is told to be refused for a reason of the moment, and is durable.
\<close>

lemma lost_answer_may_be_durable:
  "let (r, w') = pg_atomic losing_server id root_handle
      (body_of (Run ''INSERT'' (\<lambda>_. Give (Inr (1 :: nat)))) losing_server id) root_world
    in r = Ready (Inl (SCommit connection_lost True)) \<and> is_transient (SCommit connection_lost True)
      \<and> fst (pw_server w') = fst (pw_server root_world) + 1"
  by code_simp

end
