(* ===== verification/Kms_Keys.thy ===== *)
theory Kms_Keys
  imports Prelude "HOL-Library.AList" "HOL-Library.Word"
begin

section \<open>Keys, and keys wrapped by keys\<close>

text \<open>
  \<open>crates/kms/src/error.rs\<close> and \<open>crates/kms/src/domain\<close>. The libraries of the primitives are a
  parameter, the record \<open>crypto\<close>: the authenticated cipher, the MAC, the two signature schemes, and
  the randomness of the operating system, which is drawn from a state \<open>'g\<close>. What draws it is an
  action, a function of that state; a loop that draws until it has a key may never return, and then
  the action is \<open>None\<close>. Bytes are words of eight bits, a key is its bytes.
\<close>

type_synonym bytes = "8 word list"
type_synonym u32 = "32 word"

definition as_bytes :: "string \<Rightarrow> bytes" where
  "as_bytes s = map of_char s"

subsection \<open>Errors\<close>

datatype signature_algorithm = Ed25519 | EcdsaP256

fun sa_as_str :: "signature_algorithm \<Rightarrow> string" where
  "sa_as_str Ed25519 = ''ed25519''"
| "sa_as_str EcdsaP256 = ''ecdsa-p256''"

datatype kms_error =
    KekNotFound string "u32 option"
  | DecryptFailed
  | WrongKeyVersion u32 u32
  | NoKeyOfVersion u32
  | SigningKeyNotFound string signature_algorithm
  | MacKeyNotFound string string
  | InvalidSignature
  | UnsupportedAlgorithm string
  | MalformedBytes string
  | KeyConflict string string
  | KeyForbidden string string
  | Unsupported string
  | EntropyError string
  | SessionRefused string
  | DatabaseRefused string
  | MigrationRefused string
  | TransportRefused string
  | VaultRefused nat string string string

definition quote_name :: "string \<Rightarrow> string" where
  "quote_name s = [CHR 0x60] @ s @ [CHR 0x60]"

definition show_u32 :: "u32 \<Rightarrow> string" where
  "show_u32 v = show_nat (unat v)"

fun show_kms_error :: "kms_error \<Rightarrow> string" where
  "show_kms_error (KekNotFound t None) = ''tenant '' @ quote_name t @ '' has no key-encryption key''"
| "show_kms_error (KekNotFound t (Some v)) =
    ''tenant '' @ quote_name t @ '' has no key-encryption key of version '' @ show_u32 v"
| "show_kms_error DecryptFailed =
    ''the ciphertext did not open: wrong key, wrong tenant, or changed bytes''"
| "show_kms_error (WrongKeyVersion expected found) =
    ''the ciphertext was sealed under key version '' @ show_u32 found @ '', this key is version '' @
    show_u32 expected"
| "show_kms_error (NoKeyOfVersion v) = ''no key of version '' @ show_u32 v @ '' at hand''"
| "show_kms_error (SigningKeyNotFound t a) =
    ''tenant '' @ quote_name t @ '' has no '' @ sa_as_str a @ '' signing key''"
| "show_kms_error (MacKeyNotFound t purpose) =
    ''tenant '' @ quote_name t @ '' has no MAC key for '' @ quote_name purpose"
| "show_kms_error InvalidSignature = ''the signature is not the key'' @ [CHR 0x27] @ ''s over these bytes''"
| "show_kms_error (UnsupportedAlgorithm name) = ''unsupported algorithm '' @ quote_name name"
| "show_kms_error (KeyConflict t detail) =
    ''tenant '' @ quote_name t @ [CHR 0x27] @ ''s key exists otherwise: '' @ detail"
| "show_kms_error (KeyForbidden t operation) =
    ''the KMS refused '' @ operation @ '' on tenant '' @ quote_name t @
    [CHR 0x27] @ ''s key under this identity or context''"
| "show_kms_error (Unsupported what) = ''unsupported here: '' @ what"
| "show_kms_error (MalformedBytes what) = ''malformed: '' @ what"
| "show_kms_error (EntropyError e) = ''no randomness from the operating system: '' @ e"
| "show_kms_error (SessionRefused e) = ''session: '' @ e"
| "show_kms_error (DatabaseRefused e) = ''database: '' @ e"
| "show_kms_error (MigrationRefused e) = e"
| "show_kms_error (TransportRefused e) = ''vault unreachable: '' @ e"
| "show_kms_error (VaultRefused status method path message) =
    ''vault: '' @ show_nat status @ '' for '' @ method @ '' '' @ path @ '': '' @ message"

subsection \<open>Actions\<close>

type_synonym ('g, 'a) act = "'g \<Rightarrow> ((kms_error, 'a) result \<times> 'g) option"

definition ret :: "'a \<Rightarrow> ('g, 'a) act" where
  "ret a g = Some (Inr a, g)"

definition lift :: "(kms_error, 'a) result \<Rightarrow> ('g, 'a) act" where
  "lift r g = Some (r, g)"

definition bindA :: "('g, 'a) act \<Rightarrow> ('a \<Rightarrow> ('g, 'b) act) \<Rightarrow> ('g, 'b) act" where
  "bindA m f g = (case m g of None \<Rightarrow> None | Some (Inl e, g1) \<Rightarrow> Some (Inl e, g1) | Some (Inr a, g1) \<Rightarrow> f a g1)"

record 'g crypto =
  cy_fill :: "nat \<Rightarrow> 'g \<Rightarrow> (string, bytes) result \<times> 'g"
  cy_seal :: "bytes \<Rightarrow> bytes \<Rightarrow> bytes \<Rightarrow> bytes \<Rightarrow> bytes option"
  cy_open :: "bytes \<Rightarrow> bytes \<Rightarrow> bytes \<Rightarrow> bytes \<Rightarrow> bytes option"
  cy_hmac :: "bytes \<Rightarrow> bytes \<Rightarrow> (string, bytes) result"
  cy_ed_public :: "bytes \<Rightarrow> bytes"
  cy_ed_is_public :: "bytes \<Rightarrow> bool"
  cy_ed_sign :: "bytes \<Rightarrow> bytes \<Rightarrow> bytes"
  cy_ed_verify :: "bytes \<Rightarrow> bytes \<Rightarrow> bytes \<Rightarrow> bool"
  cy_p256_public :: "bytes \<Rightarrow> bytes option"
  cy_p256_point :: "bytes \<Rightarrow> bytes option"
  cy_p256_sign :: "bytes \<Rightarrow> bytes \<Rightarrow> bytes"
  cy_p256_is_signature :: "bytes \<Rightarrow> bool"
  cy_p256_verify :: "bytes \<Rightarrow> bytes \<Rightarrow> bytes \<Rightarrow> bool"

definition draw_bytes :: "'g crypto \<Rightarrow> nat \<Rightarrow> ('g, bytes) act" where
  "draw_bytes cy n g = (case cy_fill cy n g of (Inl e, g1) \<Rightarrow> Some (Inl (EntropyError e), g1)
     | (Inr b, g1) \<Rightarrow> Some (Inr b, g1))"

subsection \<open>The cipher\<close>

datatype algorithm = Aes256Gcm

definition KEY_SIZE :: nat where "KEY_SIZE = 32"
definition NONCE_SIZE :: nat where "NONCE_SIZE = 12"
definition TAG_SIZE :: nat where "TAG_SIZE = 16"

fun algorithm_as_str :: "algorithm \<Rightarrow> string" where
  "algorithm_as_str Aes256Gcm = ''AES-256-GCM''"

definition algorithm_from_str :: "string \<Rightarrow> (kms_error, algorithm) result" where
  "algorithm_from_str name =
    (if name = ''AES-256-GCM'' then Inr Aes256Gcm else Inl (UnsupportedAlgorithm name))"

text \<open>The trait \<open>Cipher\<close> as the record of its methods.\<close>

record 'g cipher =
  ci_encrypt :: "bytes \<Rightarrow> ('g, bytes) act"
  ci_decrypt :: "bytes \<Rightarrow> (kms_error, bytes) result"
  ci_generate_key :: "('g, bytes) act"

definition random_key :: "'g crypto \<Rightarrow> ('g, bytes) act" where
  "random_key cy = draw_bytes cy KEY_SIZE"

definition too_short :: "nat \<Rightarrow> kms_error" where
  "too_short n = MalformedBytes (show_nat n @ '' bytes cannot be sealed: a nonce and a tag alone are '' @
    show_nat (NONCE_SIZE + TAG_SIZE))"

definition encrypt_with :: "'g crypto \<Rightarrow> bytes \<Rightarrow> bytes \<Rightarrow> bytes \<Rightarrow> bytes \<Rightarrow> (kms_error, bytes) result" where
  "encrypt_with cy key aad nonce plaintext =
    (case cy_seal cy key nonce aad plaintext of
       None \<Rightarrow> Inl (MalformedBytes ''the plaintext is longer than AES-GCM seals'')
     | Some sealed \<Rightarrow> Inr (nonce @ sealed))"

definition aes_encrypt :: "'g crypto \<Rightarrow> bytes \<Rightarrow> bytes \<Rightarrow> bytes \<Rightarrow> ('g, bytes) act" where
  "aes_encrypt cy key aad plaintext =
    bindA (draw_bytes cy NONCE_SIZE) (\<lambda>nonce. lift (encrypt_with cy key aad nonce plaintext))"

definition aes_decrypt :: "'g crypto \<Rightarrow> bytes \<Rightarrow> bytes \<Rightarrow> bytes \<Rightarrow> (kms_error, bytes) result" where
  "aes_decrypt cy key aad sealed =
    (if length sealed < NONCE_SIZE then Inl (too_short (length sealed))
     else let nonce = take NONCE_SIZE sealed; rest = drop NONCE_SIZE sealed in
       if length rest < TAG_SIZE then Inl (too_short (length sealed))
       else case cy_open cy key nonce aad rest of None \<Rightarrow> Inl DecryptFailed | Some plain \<Rightarrow> Inr plain)"

definition aes_new :: "'g crypto \<Rightarrow> bytes \<Rightarrow> bytes \<Rightarrow> (kms_error, 'g cipher) result" where
  "aes_new cy key aad =
    (if length key \<noteq> KEY_SIZE
     then Inl (MalformedBytes (''a key for '' @ algorithm_as_str Aes256Gcm @ '' is '' @ show_nat KEY_SIZE @
       '' bytes, this one is '' @ show_nat (length key)))
     else Inr \<lparr>ci_encrypt = aes_encrypt cy key aad, ci_decrypt = aes_decrypt cy key aad,
       ci_generate_key = random_key cy\<rparr>)"

fun algorithm_generate_key :: "'g crypto \<Rightarrow> algorithm \<Rightarrow> ('g, bytes) act" where
  "algorithm_generate_key cy Aes256Gcm = random_key cy"

fun algorithm_cipher :: "'g crypto \<Rightarrow> algorithm \<Rightarrow> bytes \<Rightarrow> bytes \<Rightarrow> (kms_error, 'g cipher) result" where
  "algorithm_cipher cy Aes256Gcm key aad = aes_new cy key aad"

subsection \<open>A wrapped key\<close>

definition VERSION_SIZE :: nat where "VERSION_SIZE = 4"

record wrapped_key =
  wk_version :: u32
  wk_sealed :: bytes

definition to_be_bytes :: "u32 \<Rightarrow> bytes" where
  "to_be_bytes v = map (\<lambda>i. word_of_nat (unat v div 256 ^ i)) [3, 2, 1, 0]"

definition from_be_bytes :: "bytes \<Rightarrow> u32" where
  "from_be_bytes bs = word_of_nat (foldl (\<lambda>n b. n * 256 + unat b) 0 bs)"

definition wrapped_parse :: "bytes \<Rightarrow> (kms_error, wrapped_key) result" where
  "wrapped_parse bs =
    (if length bs < VERSION_SIZE
     then Inl (MalformedBytes (show_nat (length bs) @
       '' bytes cannot be a wrapped key: the key version alone is '' @ show_nat VERSION_SIZE))
     else Inr \<lparr>wk_version = from_be_bytes (take VERSION_SIZE bs), wk_sealed = drop VERSION_SIZE bs\<rparr>)"

definition wrapped_to_bytes :: "wrapped_key \<Rightarrow> bytes" where
  "wrapped_to_bytes w = to_be_bytes (wk_version w) @ wk_sealed w"

definition wrapped_wrap :: "u32 \<Rightarrow> 'g cipher \<Rightarrow> bytes \<Rightarrow> ('g, wrapped_key) act" where
  "wrapped_wrap version cipher key =
    bindA (ci_encrypt cipher key) (\<lambda>sealed. ret \<lparr>wk_version = version, wk_sealed = sealed\<rparr>)"

definition wrapped_unwrap :: "wrapped_key \<Rightarrow> u32 \<Rightarrow> 'g cipher \<Rightarrow> (kms_error, bytes) result" where
  "wrapped_unwrap w version cipher =
    (if wk_version w \<noteq> version then Inl (WrongKeyVersion version (wk_version w))
     else ci_decrypt cipher (wk_sealed w))"

subsection \<open>The key-encryption key\<close>

record 'g kek =
  ke_tenant :: string
  ke_context :: "string option"
  ke_version :: u32
  ke_algorithm :: algorithm
  ke_cipher :: "'g cipher"
  ke_wrapped :: wrapped_key

text \<open>What a KEK wraps under: the length that comes first is that of the tenant's id.\<close>

definition length_u32 :: "nat \<Rightarrow> u32" where
  "length_u32 n = (if n < 2 ^ 32 then word_of_nat n else - 1)"

definition binding :: "string \<Rightarrow> string option \<Rightarrow> bytes" where
  "binding tenant context =
    (case context of
       None \<Rightarrow> as_bytes tenant
     | Some context \<Rightarrow> to_be_bytes (length_u32 (length tenant)) @ as_bytes tenant @ as_bytes context)"

definition kek_new :: "'g crypto \<Rightarrow> string \<Rightarrow> string option \<Rightarrow> u32 \<Rightarrow> algorithm \<Rightarrow> bytes \<Rightarrow> wrapped_key
    \<Rightarrow> (kms_error, 'g kek) result" where
  "kek_new cy tenant context version algorithm key wrapped =
    and_then (algorithm_cipher cy algorithm key (binding tenant context)) (\<lambda>cipher.
      Inr \<lparr>ke_tenant = tenant, ke_context = context, ke_version = version, ke_algorithm = algorithm,
        ke_cipher = cipher, ke_wrapped = wrapped\<rparr>)"

definition kek_wrap :: "'g kek \<Rightarrow> bytes \<Rightarrow> ('g, wrapped_key) act" where
  "kek_wrap k dek = wrapped_wrap (ke_version k) (ke_cipher k) dek"

definition kek_unwrap :: "'g kek \<Rightarrow> wrapped_key \<Rightarrow> (kms_error, bytes) result" where
  "kek_unwrap k w = wrapped_unwrap w (ke_version k) (ke_cipher k)"

definition kek_rewrap :: "'g kek \<Rightarrow> wrapped_key \<Rightarrow> 'g kek \<Rightarrow> ('g, wrapped_key) act" where
  "kek_rewrap k w origin = bindA (lift (kek_unwrap origin w)) (kek_wrap k)"

definition kek_generate_dek :: "'g kek \<Rightarrow> ('g, bytes \<times> wrapped_key) act" where
  "kek_generate_dek k =
    bindA (ci_generate_key (ke_cipher k)) (\<lambda>dek. bindA (kek_wrap k dek) (\<lambda>w. ret (dek, w)))"

subsection \<open>The master key\<close>

definition MASTER_KEY_VERSION :: u32 where "MASTER_KEY_VERSION = 1"

record master_key =
  mk_key :: bytes
  mk_algorithm :: algorithm

definition master_cipher :: "'g crypto \<Rightarrow> master_key \<Rightarrow> string \<Rightarrow> (kms_error, 'g cipher) result" where
  "master_cipher cy mk tenant = algorithm_cipher cy (mk_algorithm mk) (mk_key mk) (as_bytes tenant)"

definition master_new :: "'g crypto \<Rightarrow> bytes \<Rightarrow> algorithm \<Rightarrow> (kms_error, master_key) result" where
  "master_new cy key algorithm =
    and_then (algorithm_cipher cy algorithm key []) (\<lambda>_. Inr \<lparr>mk_key = key, mk_algorithm = algorithm\<rparr>)"

definition master_wrap :: "'g crypto \<Rightarrow> master_key \<Rightarrow> string \<Rightarrow> bytes \<Rightarrow> ('g, wrapped_key) act" where
  "master_wrap cy mk tenant key =
    bindA (lift (master_cipher cy mk tenant)) (\<lambda>cipher. wrapped_wrap MASTER_KEY_VERSION cipher key)"

definition master_unwrap ::
  "'g crypto \<Rightarrow> master_key \<Rightarrow> string \<Rightarrow> wrapped_key \<Rightarrow> (kms_error, bytes) result" where
  "master_unwrap cy mk tenant w =
    and_then (master_cipher cy mk tenant) (wrapped_unwrap w MASTER_KEY_VERSION)"

definition make_kek ::
  "'g crypto \<Rightarrow> master_key \<Rightarrow> string \<Rightarrow> string option \<Rightarrow> u32 \<Rightarrow> ('g, 'g kek) act" where
  "make_kek cy mk tenant context version =
    bindA (lift (master_cipher cy mk tenant)) (\<lambda>cipher.
    bindA (ci_generate_key cipher) (\<lambda>key.
    bindA (wrapped_wrap MASTER_KEY_VERSION cipher key) (\<lambda>wrapped.
      lift (kek_new cy tenant context version (mk_algorithm mk) key wrapped))))"

definition generate_kek :: "'g crypto \<Rightarrow> master_key \<Rightarrow> string \<Rightarrow> string option \<Rightarrow> ('g, 'g kek) act" where
  "generate_kek cy mk tenant context = make_kek cy mk tenant context 1"

definition load_kek :: "'g crypto \<Rightarrow> master_key \<Rightarrow> string \<Rightarrow> string option \<Rightarrow> wrapped_key \<Rightarrow> u32 \<Rightarrow> algorithm
    \<Rightarrow> (kms_error, 'g kek) result" where
  "load_kek cy mk tenant context wrapped version algorithm =
    and_then (master_unwrap cy mk tenant wrapped) (\<lambda>key.
      kek_new cy tenant context version algorithm key wrapped)"

definition rotate_master_kek :: "'g crypto \<Rightarrow> master_key \<Rightarrow> 'g kek \<Rightarrow> ('g, 'g kek) act" where
  "rotate_master_kek cy mk k =
    (if ke_version k = - 1
     then lift (Inl (MalformedBytes (''no key version after '' @ show_u32 (ke_version k))))
     else make_kek cy mk (ke_tenant k) (ke_context k) (ke_version k + 1))"


section \<open>Signing keys, MAC keys and keyrings\<close>

text \<open>
  \<open>crates/kms/src/domain\<close>: \<open>signature.rs\<close>, \<open>signing_key.rs\<close>, \<open>mac_key.rs\<close>, \<open>public_keyring.rs\<close>; and
  \<open>testing.rs\<close>, the keys in memory, whose rings are maps from a version to a key in the order of the
  versions. A label is its text. A lock is held over a call, so the calls come one after the other.
\<close>

subsection \<open>Signatures, MACs and labels\<close>

definition sa_parse :: "string \<Rightarrow> (kms_error, signature_algorithm) result" where
  "sa_parse text =
    (if text = ''ed25519'' then Inr Ed25519
     else if text = ''ecdsa-p256'' then Inr EcdsaP256
     else Inl (UnsupportedAlgorithm text))"

record signature =
  si_algorithm :: signature_algorithm
  si_version :: u32
  si_bytes :: bytes

record mac =
  ma_version :: u32
  ma_bytes :: bytes

definition is_alphanumeric :: "char \<Rightarrow> bool" where
  "is_alphanumeric c \<longleftrightarrow> is_ascii_digit c
    \<or> (65 \<le> (of_char c :: nat) \<and> (of_char c :: nat) \<le> 90) \<or> (97 \<le> (of_char c :: nat) \<and> (of_char c :: nat) \<le> 122)"

definition is_key_part :: "string \<Rightarrow> bool" where
  "is_key_part text \<longleftrightarrow>
    text \<noteq> [] \<and> list_all (\<lambda>c. is_alphanumeric c \<or> c = CHR ''_'' \<or> c = CHR ''-'') text"

definition key_label_new :: "string \<Rightarrow> (kms_error, string) result" where
  "key_label_new text =
    (if 64 < length text \<or> \<not> is_key_part text
     then Inl (MalformedBytes (''a key label is one to sixty-four of letters, digits, '' @ quote_name ''_'' @
       '' and '' @ quote_name ''-'' @ '', not '' @ quote_name text))
     else Inr text)"

subsection \<open>Public keys\<close>

record public_key =
  pk_algorithm :: signature_algorithm
  pk_bytes :: bytes

definition ed_verifying_key :: "'g crypto \<Rightarrow> bytes \<Rightarrow> (kms_error, bytes) result" where
  "ed_verifying_key cy b =
    (if length b \<noteq> 32 then Inl (MalformedBytes ''an Ed25519 public key is thirty-two bytes'')
     else if \<not> cy_ed_is_public cy b then Inl (MalformedBytes ''not an Ed25519 public key'')
     else Inr b)"

definition p256_verifying_key :: "'g crypto \<Rightarrow> bytes \<Rightarrow> (kms_error, bytes) result" where
  "p256_verifying_key cy b =
    (case cy_p256_point cy b of None \<Rightarrow> Inl (MalformedBytes ''not a P-256 public key'') | Some p \<Rightarrow> Inr p)"

definition public_key_new ::
  "'g crypto \<Rightarrow> signature_algorithm \<Rightarrow> bytes \<Rightarrow> (kms_error, public_key) result" where
  "public_key_new cy algorithm b =
    and_then (case algorithm of Ed25519 \<Rightarrow> ed_verifying_key cy b | EcdsaP256 \<Rightarrow> p256_verifying_key cy b)
      (\<lambda>b. Inr \<lparr>pk_algorithm = algorithm, pk_bytes = b\<rparr>)"

definition public_key_verify ::
  "'g crypto \<Rightarrow> public_key \<Rightarrow> bytes \<Rightarrow> signature \<Rightarrow> (kms_error, unit) result" where
  "public_key_verify cy pk message sig =
    (if si_algorithm sig \<noteq> pk_algorithm pk then Inl InvalidSignature
     else case pk_algorithm pk of
       Ed25519 \<Rightarrow>
         if length (si_bytes sig) \<noteq> 64 then Inl InvalidSignature
         else and_then (ed_verifying_key cy (pk_bytes pk)) (\<lambda>key.
           if cy_ed_verify cy key message (si_bytes sig) then Inr () else Inl InvalidSignature)
     | EcdsaP256 \<Rightarrow>
         if \<not> cy_p256_is_signature cy (si_bytes sig) then Inl InvalidSignature
         else and_then (p256_verifying_key cy (pk_bytes pk)) (\<lambda>key.
           if cy_p256_verify cy key message (si_bytes sig) then Inr () else Inl InvalidSignature))"

subsection \<open>Signing keys\<close>

record signing_key =
  sk_tenant :: string
  sk_algorithm :: signature_algorithm
  sk_version :: u32
  sk_private :: bytes
  sk_public :: public_key

definition ed_signing_key :: "bytes \<Rightarrow> (kms_error, bytes) result" where
  "ed_signing_key private =
    (if length private \<noteq> 32 then Inl (MalformedBytes ''an Ed25519 private key is thirty-two bytes'')
     else Inr private)"

definition p256_public :: "'g crypto \<Rightarrow> bytes \<Rightarrow> (kms_error, bytes) result" where
  "p256_public cy private =
    (case cy_p256_public cy private of
       None \<Rightarrow> Inl (MalformedBytes ''a P-256 private key is a scalar of the field'')
     | Some p \<Rightarrow> Inr p)"

definition signing_key_load :: "'g crypto \<Rightarrow> string \<Rightarrow> signature_algorithm \<Rightarrow> u32 \<Rightarrow> bytes
    \<Rightarrow> (kms_error, signing_key) result" where
  "signing_key_load cy tenant algorithm version private =
    and_then (case algorithm of
        Ed25519 \<Rightarrow> map_ok (cy_ed_public cy) (ed_signing_key private)
      | EcdsaP256 \<Rightarrow> p256_public cy private)
      (\<lambda>public. Inr \<lparr>sk_tenant = tenant, sk_algorithm = algorithm, sk_version = version,
        sk_private = private, sk_public = \<lparr>pk_algorithm = algorithm, pk_bytes = public\<rparr>\<rparr>)"

definition signing_key_from_seed where
  "signing_key_from_seed cy tenant algorithm version seed = signing_key_load cy tenant algorithm version seed"

text \<open>A draw that is no key is drawn again, for as long as it takes.\<close>

partial_function (option) signing_key_generate :: "'g crypto \<Rightarrow> string \<Rightarrow> signature_algorithm \<Rightarrow> u32
    \<Rightarrow> ('g, signing_key) act" where
  "signing_key_generate cy tenant algorithm version g =
    (case draw_bytes cy 32 g of
       None \<Rightarrow> None
     | Some (Inl e, g1) \<Rightarrow> Some (Inl e, g1)
     | Some (Inr seed, g1) \<Rightarrow>
         (case signing_key_from_seed cy tenant algorithm version seed of
            Inr key \<Rightarrow> Some (Inr key, g1)
          | Inl _ \<Rightarrow> signing_key_generate cy tenant algorithm version g1))"

definition signing_name_of :: "string \<Rightarrow> signature_algorithm \<Rightarrow> string" where
  "signing_name_of tenant algorithm = tenant @ ''.sign.'' @ sa_as_str algorithm"

definition signing_key_name :: "signing_key \<Rightarrow> string" where
  "signing_key_name k = signing_name_of (sk_tenant k) (sk_algorithm k)"

definition signing_key_sign :: "'g crypto \<Rightarrow> signing_key \<Rightarrow> bytes \<Rightarrow> (kms_error, signature) result" where
  "signing_key_sign cy k message =
    and_then (case sk_algorithm k of
        Ed25519 \<Rightarrow> map_ok (\<lambda>seed. cy_ed_sign cy seed message) (ed_signing_key (sk_private k))
      | EcdsaP256 \<Rightarrow> map_ok (\<lambda>_. cy_p256_sign cy (sk_private k) message) (p256_public cy (sk_private k)))
      (\<lambda>b. Inr \<lparr>si_algorithm = sk_algorithm k, si_version = sk_version k, si_bytes = b\<rparr>)"

subsection \<open>MAC keys\<close>

record mac_key =
  mc_tenant :: string
  mc_purpose :: string
  mc_version :: u32
  mc_key :: bytes

definition mac_key_load :: "string \<Rightarrow> string \<Rightarrow> u32 \<Rightarrow> bytes \<Rightarrow> mac_key" where
  "mac_key_load tenant purpose version key =
    \<lparr>mc_tenant = tenant, mc_purpose = purpose, mc_version = version, mc_key = key\<rparr>"

definition mac_key_generate :: "'g crypto \<Rightarrow> string \<Rightarrow> string \<Rightarrow> u32 \<Rightarrow> ('g, mac_key) act" where
  "mac_key_generate cy tenant purpose version =
    bindA (draw_bytes cy 32) (\<lambda>b. ret (mac_key_load tenant purpose version b))"

definition mac_name_of :: "string \<Rightarrow> string \<Rightarrow> string" where
  "mac_name_of tenant purpose = tenant @ ''.mac.'' @ purpose"

definition mac_key_name :: "mac_key \<Rightarrow> string" where
  "mac_key_name k = mac_name_of (mc_tenant k) (mc_purpose k)"

definition mac_key_mac :: "'g crypto \<Rightarrow> mac_key \<Rightarrow> bytes \<Rightarrow> (kms_error, mac) result" where
  "mac_key_mac cy k message =
    (case cy_hmac cy (mc_key k) message of
       Inl e \<Rightarrow> Inl (MalformedBytes e)
     | Inr b \<Rightarrow> Inr \<lparr>ma_version = mc_version k, ma_bytes = b\<rparr>)"

subsection \<open>The public halves of a keyring\<close>

record public_keyring =
  pr_algorithm :: signature_algorithm
  pr_keys :: "(u32 \<times> public_key) list"

text \<open>A \<open>BTreeMap\<close> by version: a list in the order of the versions.\<close>

fun version_insert :: "u32 \<Rightarrow> 'a \<Rightarrow> (u32 \<times> 'a) list \<Rightarrow> (u32 \<times> 'a) list" where
  "version_insert v a [] = [(v, a)]"
| "version_insert v a ((u, b) # rest) =
    (if v < u then (v, a) # (u, b) # rest
     else if v = u then (v, a) # rest
     else (u, b) # version_insert v a rest)"

fun keyring_insert :: "signature_algorithm \<Rightarrow> (u32 \<times> public_key) list \<Rightarrow> (u32 \<times> public_key) list
    \<Rightarrow> (kms_error, (u32 \<times> public_key) list) result" where
  "keyring_insert algorithm [] ring = Inr ring"
| "keyring_insert algorithm ((version, key) # keys) ring =
    (if version = 0 then Inl (MalformedBytes (''a keyring'' @ [CHR 0x27] @ ''s versions count from one''))
     else if pk_algorithm key \<noteq> algorithm
     then Inl (MalformedBytes (''version '' @ show_u32 version @ '' is a '' @ sa_as_str (pk_algorithm key) @
       '' key in a '' @ sa_as_str algorithm @ '' keyring''))
     else if map_of ring version \<noteq> None
     then Inl (MalformedBytes (''version '' @ show_u32 version @ '' is named twice in a keyring''))
     else keyring_insert algorithm keys (version_insert version key ring))"

definition public_keyring_new ::
  "signature_algorithm \<Rightarrow> (u32 \<times> public_key) list \<Rightarrow> (kms_error, public_keyring) result" where
  "public_keyring_new algorithm keys =
    and_then (keyring_insert algorithm keys []) (\<lambda>ring.
      if ring = [] then Inl (MalformedBytes ''a keyring has at least one version that verifies'')
      else Inr \<lparr>pr_algorithm = algorithm, pr_keys = ring\<rparr>)"

subsection \<open>The keys in memory\<close>

record 'k ring =
  rg_versions :: "(u32 \<times> 'k) list"
  rg_made :: u32

definition ring_default :: "'k ring" where
  "ring_default = \<lparr>rg_versions = [], rg_made = 0\<rparr>"

definition ring_version :: "'k ring \<Rightarrow> u32 \<Rightarrow> (kms_error, 'k) result" where
  "ring_version r v = (case map_of (rg_versions r) v of Some k \<Rightarrow> Inr k | None \<Rightarrow> Inl (NoKeyOfVersion v))"

definition ring_latest :: "'k ring \<Rightarrow> (kms_error, 'k) result" where
  "ring_latest r = (if rg_versions r = [] then Inl (NoKeyOfVersion (rg_made r)) else Inr (snd (last (rg_versions r))))"

definition saturating_succ :: "u32 \<Rightarrow> u32" where
  "saturating_succ v = (if v = - 1 then - 1 else v + 1)"

definition ring_push :: "(u32 \<Rightarrow> ('g, 'k) act) \<Rightarrow> 'k ring \<Rightarrow> ('g, 'k ring \<times> u32) act" where
  "ring_push mk r =
    (let version = saturating_succ (rg_made r) in
     bindA (mk version) (\<lambda>key.
       ret (r\<lparr>rg_versions := version_insert version key (rg_versions r), rg_made := version\<rparr>, version)))"

definition ring_retire_before :: "u32 \<Rightarrow> 'k ring \<Rightarrow> (kms_error, 'k ring) result" where
  "ring_retire_before v r =
    (if rg_made r < v then Inl (NoKeyOfVersion v)
     else Inr (r\<lparr>rg_versions := filter (\<lambda>p. v \<le> fst p) (rg_versions r)\<rparr>))"

record key_options =
  ko_auto_rotate :: "nat option"

definition memory_no_scheduler :: "key_options \<Rightarrow> (kms_error, unit) result" where
  "memory_no_scheduler options =
    (if ko_auto_rotate options \<noteq> None
     then Inl (Unsupported ''automatic rotation: the in-memory keys rotate on request only'') else Inr ())"

text \<open>
  The store: the rings by tenant and algorithm, and by tenant and purpose, and the randomness. What
  the two kinds of key do with a ring is the same, so it is defined once, over the ring's place.
\<close>

record 'g memory_keys =
  my_signing :: "((string \<times> signature_algorithm) \<times> signing_key ring) list"
  my_mac :: "((string \<times> string) \<times> mac_key ring) list"
  my_managed :: bool
  my_random :: 'g

definition entry_or_default :: "('id \<times> 'k ring) list \<Rightarrow> 'id \<Rightarrow> 'k ring" where
  "entry_or_default rings i = (case map_of rings i of Some r \<Rightarrow> r | None \<Rightarrow> ring_default)"

definition ring_with_key :: "kms_error \<Rightarrow> ('id \<times> 'k ring) list \<Rightarrow> 'id \<Rightarrow> (kms_error, 'k ring) result" where
  "ring_with_key missing rings i =
    (case map_of rings i of
       Some r \<Rightarrow> if rg_versions r = [] then Inl missing else Inr r
     | None \<Rightarrow> Inl missing)"

text \<open>An action on the randomness of the store, and one that changes a ring.\<close>

definition on_random :: "('g, 'a) act \<Rightarrow> 'g memory_keys \<Rightarrow> ((kms_error, 'a) result \<times> 'g memory_keys) option" where
  "on_random m st = map_option (\<lambda>(r, g). (r, st\<lparr>my_random := g\<rparr>)) (m (my_random st))"

definition put_signing :: "string \<times> signature_algorithm \<Rightarrow> signing_key ring \<Rightarrow> ('g memory_keys, unit) act" where
  "put_signing i r st = Some (Inr (), st\<lparr>my_signing := AList.update i r (my_signing st)\<rparr>)"

definition put_mac :: "string \<times> string \<Rightarrow> mac_key ring \<Rightarrow> ('g memory_keys, unit) act" where
  "put_mac i r st = Some (Inr (), st\<lparr>my_mac := AList.update i r (my_mac st)\<rparr>)"

text \<open>
  \<open>entry(..).or_default()\<close> leaves the default ring behind even when the making of a key fails: the
  ring is put back first.
\<close>

definition memory_push_signing :: "string \<Rightarrow> signature_algorithm \<Rightarrow> (u32 \<Rightarrow> ('g, signing_key) act)
    \<Rightarrow> ('g memory_keys, u32) act" where
  "memory_push_signing tenant algorithm mk st =
    (let i = (tenant, algorithm); r = entry_or_default (my_signing st) i in
     bindA (put_signing i r) (\<lambda>_. bindA (on_random (ring_push mk r)) (\<lambda>(r1, v).
       bindA (put_signing i r1) (\<lambda>_. ret v))) st)"

definition memory_register :: "'g crypto \<Rightarrow> string \<Rightarrow> bytes \<Rightarrow> ('g memory_keys, u32) act" where
  "memory_register cy tenant seed =
    memory_push_signing tenant Ed25519 (\<lambda>v. lift (signing_key_from_seed cy tenant Ed25519 v seed))"

definition memory_ring :: "string \<Rightarrow> signature_algorithm \<Rightarrow> 'g memory_keys \<Rightarrow> (kms_error, signing_key ring) result" where
  "memory_ring tenant algorithm st =
    ring_with_key (SigningKeyNotFound tenant algorithm) (my_signing st) (tenant, algorithm)"

definition memory_sign :: "'g crypto \<Rightarrow> string \<Rightarrow> signature_algorithm \<Rightarrow> bytes \<Rightarrow> ('g memory_keys, signature) act" where
  "memory_sign cy tenant algorithm message st =
    (if my_managed st
     then lift (and_then (memory_ring tenant algorithm st) (\<lambda>r.
       and_then (ring_latest r) (\<lambda>k. signing_key_sign cy k message))) st
     else bindA
       (\<lambda>st. let r = entry_or_default (my_signing st) (tenant, algorithm) in
          if rg_versions r = []
          then memory_push_signing tenant algorithm (signing_key_generate cy tenant algorithm) st
          else Some (Inr (rg_made r), st))
       (\<lambda>_ st. lift (and_then (ring_latest (entry_or_default (my_signing st) (tenant, algorithm)))
          (\<lambda>k. signing_key_sign cy k message)) st) st)"

definition memory_sign_with_version :: "'g crypto \<Rightarrow> string \<Rightarrow> signature_algorithm \<Rightarrow> u32 \<Rightarrow> bytes
    \<Rightarrow> ('g memory_keys, signature) act" where
  "memory_sign_with_version cy tenant algorithm version message st =
    lift (and_then (memory_ring tenant algorithm st) (\<lambda>r.
      and_then (ring_version r version) (\<lambda>k. signing_key_sign cy k message))) st"

definition memory_verify :: "'g crypto \<Rightarrow> string \<Rightarrow> bytes \<Rightarrow> signature \<Rightarrow> ('g memory_keys, unit) act" where
  "memory_verify cy tenant message sig st =
    lift (and_then (memory_ring tenant (si_algorithm sig) st) (\<lambda>r.
      and_then (ring_version r (si_version sig)) (\<lambda>k. public_key_verify cy (sk_public k) message sig))) st"

definition memory_create_signing_key :: "'g crypto \<Rightarrow> string \<Rightarrow> signature_algorithm \<Rightarrow> key_options
    \<Rightarrow> ('g memory_keys, u32) act" where
  "memory_create_signing_key cy tenant algorithm options =
    bindA (lift (memory_no_scheduler options)) (\<lambda>_ st.
      let r = entry_or_default (my_signing st) (tenant, algorithm) in
      if rg_versions r = []
      then memory_push_signing tenant algorithm (signing_key_generate cy tenant algorithm) st
      else Some (Inr (rg_made r), st))"

definition memory_rotate_signing_key :: "'g crypto \<Rightarrow> string \<Rightarrow> signature_algorithm \<Rightarrow> ('g memory_keys, u32) act" where
  "memory_rotate_signing_key cy tenant algorithm st =
    bindA (lift (memory_ring tenant algorithm st)) (\<lambda>r.
      bindA (on_random (ring_push (signing_key_generate cy tenant algorithm) r)) (\<lambda>(r1, v).
        bindA (put_signing (tenant, algorithm) r1) (\<lambda>_. ret v))) st"

definition memory_retire_signing :: "string \<Rightarrow> signature_algorithm \<Rightarrow> u32 \<Rightarrow> ('g memory_keys, unit) act" where
  "memory_retire_signing tenant algorithm version st =
    bindA (lift (and_then (memory_ring tenant algorithm st) (ring_retire_before version)))
      (put_signing (tenant, algorithm)) st"

definition memory_delete_signing :: "string \<Rightarrow> signature_algorithm \<Rightarrow> ('g memory_keys, unit) act" where
  "memory_delete_signing tenant algorithm st =
    Some (Inr (), st\<lparr>my_signing := AList.delete (tenant, algorithm) (my_signing st)\<rparr>)"

definition memory_public_keys :: "string \<Rightarrow> signature_algorithm \<Rightarrow> ('g memory_keys, public_keyring) act" where
  "memory_public_keys tenant algorithm st =
    lift (and_then (memory_ring tenant algorithm st) (\<lambda>r.
      public_keyring_new algorithm (map (apsnd sk_public) (rg_versions r)))) st"

definition memory_push_mac :: "'g crypto \<Rightarrow> string \<Rightarrow> string \<Rightarrow> ('g memory_keys, u32) act" where
  "memory_push_mac cy tenant purpose st =
    (let i = (tenant, purpose); r = entry_or_default (my_mac st) i in
     bindA (put_mac i r) (\<lambda>_. bindA (on_random (ring_push (mac_key_generate cy tenant purpose) r)) (\<lambda>(r1, v).
       bindA (put_mac i r1) (\<lambda>_. ret v))) st)"

definition memory_mac_ring :: "string \<Rightarrow> string \<Rightarrow> 'g memory_keys \<Rightarrow> (kms_error, mac_key ring) result" where
  "memory_mac_ring tenant purpose st =
    ring_with_key (MacKeyNotFound tenant purpose) (my_mac st) (tenant, purpose)"

definition memory_mac :: "'g crypto \<Rightarrow> string \<Rightarrow> string \<Rightarrow> bytes \<Rightarrow> ('g memory_keys, mac) act" where
  "memory_mac cy tenant purpose message st =
    (if my_managed st
     then lift (and_then (memory_mac_ring tenant purpose st) (\<lambda>r.
       and_then (ring_latest r) (\<lambda>k. mac_key_mac cy k message))) st
     else bindA
       (\<lambda>st. let r = entry_or_default (my_mac st) (tenant, purpose) in
          if rg_versions r = [] then memory_push_mac cy tenant purpose st else Some (Inr (rg_made r), st))
       (\<lambda>_ st. lift (and_then (ring_latest (entry_or_default (my_mac st) (tenant, purpose)))
          (\<lambda>k. mac_key_mac cy k message)) st) st)"

definition memory_create_mac_key :: "'g crypto \<Rightarrow> string \<Rightarrow> string \<Rightarrow> key_options \<Rightarrow> ('g memory_keys, u32) act" where
  "memory_create_mac_key cy tenant purpose options =
    bindA (lift (memory_no_scheduler options)) (\<lambda>_ st.
      let r = entry_or_default (my_mac st) (tenant, purpose) in
      if rg_versions r = [] then memory_push_mac cy tenant purpose st else Some (Inr (rg_made r), st))"

definition memory_rotate_mac_key :: "'g crypto \<Rightarrow> string \<Rightarrow> string \<Rightarrow> ('g memory_keys, u32) act" where
  "memory_rotate_mac_key cy tenant purpose st =
    bindA (lift (memory_mac_ring tenant purpose st)) (\<lambda>r.
      bindA (on_random (ring_push (mac_key_generate cy tenant purpose) r)) (\<lambda>(r1, v).
        bindA (put_mac (tenant, purpose) r1) (\<lambda>_. ret v))) st"

definition memory_retire_mac :: "string \<Rightarrow> string \<Rightarrow> u32 \<Rightarrow> ('g memory_keys, unit) act" where
  "memory_retire_mac tenant purpose version st =
    bindA (lift (and_then (memory_mac_ring tenant purpose st) (ring_retire_before version)))
      (put_mac (tenant, purpose)) st"

definition memory_delete_mac :: "string \<Rightarrow> string \<Rightarrow> ('g memory_keys, unit) act" where
  "memory_delete_mac tenant purpose st =
    Some (Inr (), st\<lparr>my_mac := AList.delete (tenant, purpose) (my_mac st)\<rparr>)"

end
