(* ===== verification/Kms_Pg.thy ===== *)
theory Kms_Pg
  imports Kms_Keys
begin

section \<open>The key management service over PostgreSQL\<close>

text \<open>
  \<open>crates/kms/src/pg.rs\<close>. A table is the list of its rows, a keyring of a table is named by what its
  queries filter by: the tenant of a KEK, the tenant and the algorithm of a signing key, the tenant and
  the purpose of a MAC key. The primary key is that name with the version, and a row that would repeat
  it is refused. A version is a column of 32 bits with a sign. The advisory lock is held to the end of
  the transaction, so what runs under it is one step; a scope that ends with an error leaves the tables
  as they were, the randomness it drew is gone. The server refuses nothing else here.
\<close>

subsection \<open>Rows and tables\<close>

record 'id key_row =
  kr_id :: 'id
  kr_version :: int
  kr_sealed :: bytes
  kr_master :: string

record kek_row = "string key_row" +
  kr_algorithm :: string

record signing_row = "(string \<times> string) key_row" +
  kr_public :: bytes

type_synonym mac_row = "(string \<times> string) key_row"

record pg_tables =
  tb_keks :: "kek_row list"
  tb_signing :: "signing_row list"
  tb_mac :: "mac_row list"

record 'g pg_keys = pg_tables +
  tb_random :: 'g

record pg_service =
  sv_master :: bytes
  sv_algorithm :: algorithm
  sv_context :: "string option"
  sv_managed :: bool

definition pg_service_new :: "bytes \<Rightarrow> pg_service" where
  "pg_service_new key =
    \<lparr>sv_master = key, sv_algorithm = Aes256Gcm, sv_context = None, sv_managed = False\<rparr>"

definition with_derivation_context :: "string \<Rightarrow> pg_service \<Rightarrow> pg_service" where
  "with_derivation_context context sv = sv\<lparr>sv_context := Some context\<rparr>"

definition managed_keys :: "pg_service \<Rightarrow> pg_service" where
  "managed_keys sv = sv\<lparr>sv_managed := True\<rparr>"

definition with_master_algorithm :: "algorithm \<Rightarrow> pg_service \<Rightarrow> pg_service" where
  "with_master_algorithm algorithm sv = sv\<lparr>sv_algorithm := algorithm\<rparr>"

text \<open>\<open>ORDER BY key_version DESC LIMIT 1\<close>, a version by its primary key, \<open>max\<close>, \<open>INSERT\<close> and \<open>DELETE\<close>.\<close>

definition rows_of :: "'id \<Rightarrow> ('id, 'x) key_row_scheme list \<Rightarrow> ('id, 'x) key_row_scheme list" where
  "rows_of i rows = filter (\<lambda>r. kr_id r = i) rows"

fun highest :: "('id, 'x) key_row_scheme list \<Rightarrow> ('id, 'x) key_row_scheme option" where
  "highest [] = None"
| "highest (r # rs) =
    (case highest rs of None \<Rightarrow> Some r | Some s \<Rightarrow> if kr_version s < kr_version r then Some r else Some s)"

definition row_of_version :: "'id \<Rightarrow> int \<Rightarrow> ('id, 'x) key_row_scheme list \<Rightarrow> ('id, 'x) key_row_scheme option" where
  "row_of_version i v rows = find (\<lambda>r. kr_version r = v) (rows_of i rows)"

definition insert_row :: "('id, 'x) key_row_scheme \<Rightarrow> ('id, 'x) key_row_scheme list
    \<Rightarrow> (kms_error, ('id, 'x) key_row_scheme list) result" where
  "insert_row r rows =
    (if row_of_version (kr_id r) (kr_version r) rows \<noteq> None
     then Inl (DatabaseRefused ''duplicate key value violates unique constraint'')
     else Inr (rows @ [r]))"

definition delete_below :: "'id \<Rightarrow> int \<Rightarrow> ('id, 'x) key_row_scheme list \<Rightarrow> ('id, 'x) key_row_scheme list" where
  "delete_below i v rows = filter (\<lambda>r. \<not> (kr_id r = i \<and> kr_version r < v)) rows"

definition delete_all :: "'id \<Rightarrow> ('id, 'x) key_row_scheme list \<Rightarrow> ('id, 'x) key_row_scheme list" where
  "delete_all i rows = filter (\<lambda>r. kr_id r \<noteq> i) rows"

definition show_version :: "int \<Rightarrow> string" where
  "show_version i = (if i < 0 then ''-'' @ show_nat (nat (- i)) else show_nat (nat i))"

definition stored_version :: "u32 \<Rightarrow> (kms_error, int) result" where
  "stored_version v =
    (if unat v < 2 ^ 31 then Inr (int (unat v))
     else Inl (MalformedBytes (''key version '' @ show_u32 v @ '' does not fit the column'')))"

definition read_version :: "int \<Rightarrow> (kms_error, u32) result" where
  "read_version i =
    (if 0 \<le> i then Inr (word_of_int i)
     else Inl (MalformedBytes (''key version '' @ show_version i @ '' is not a count'')))"

definition latest_version :: "'id \<Rightarrow> ('id, 'x) key_row_scheme list \<Rightarrow> (kms_error, u32 option) result" where
  "latest_version i rows =
    (case highest (rows_of i rows) of None \<Rightarrow> Inr None | Some r \<Rightarrow> map_ok Some (read_version (kr_version r)))"

subsection \<open>Steps of a call\<close>

text \<open>A read of the tables, a draw of randomness, and a scope of the adapter's own.\<close>

definition pg_read :: "(pg_tables \<Rightarrow> (kms_error, 'a) result) \<Rightarrow> ('g pg_keys, 'a) act" where
  "pg_read f st = Some (f (pg_tables.truncate st), st)"

definition drawing :: "('g, 'a) act \<Rightarrow> ('g pg_keys, 'a) act" where
  "drawing m st = map_option (\<lambda>(r, g). (r, st\<lparr>tb_random := g\<rparr>)) (m (tb_random st))"

definition pg_scope :: "('g pg_keys, 'a) act \<Rightarrow> ('g pg_keys, 'a) act" where
  "pg_scope m st =
    (case m st of
       None \<Rightarrow> None
     | Some (Inl e, st1) \<Rightarrow> Some (Inl e, st\<lparr>tb_random := tb_random st1\<rparr>)
     | Some (Inr a, st1) \<Rightarrow> Some (Inr a, st1))"

definition put_keks :: "(kek_row list \<Rightarrow> (kms_error, kek_row list) result) \<Rightarrow> ('g pg_keys, unit) act" where
  "put_keks f st = (case f (tb_keks st) of Inl e \<Rightarrow> Some (Inl e, st) | Inr rows \<Rightarrow> Some (Inr (), st\<lparr>tb_keks := rows\<rparr>))"

definition put_signing_rows ::
  "(signing_row list \<Rightarrow> (kms_error, signing_row list) result) \<Rightarrow> ('g pg_keys, unit) act" where
  "put_signing_rows f st =
    (case f (tb_signing st) of Inl e \<Rightarrow> Some (Inl e, st) | Inr rows \<Rightarrow> Some (Inr (), st\<lparr>tb_signing := rows\<rparr>))"

definition put_mac_rows :: "(mac_row list \<Rightarrow> (kms_error, mac_row list) result) \<Rightarrow> ('g pg_keys, unit) act" where
  "put_mac_rows f st =
    (case f (tb_mac st) of Inl e \<Rightarrow> Some (Inl e, st) | Inr rows \<Rightarrow> Some (Inr (), st\<lparr>tb_mac := rows\<rparr>))"

subsection \<open>The key-encryption keys\<close>

definition pg_master_key :: "'g crypto \<Rightarrow> pg_service \<Rightarrow> algorithm \<Rightarrow> (kms_error, master_key) result" where
  "pg_master_key cy sv algorithm = master_new cy (sv_master sv) algorithm"

definition pg_load_kek :: "'g crypto \<Rightarrow> pg_service \<Rightarrow> string \<Rightarrow> kek_row \<Rightarrow> (kms_error, 'g kek) result" where
  "pg_load_kek cy sv tenant row =
    and_then (read_version (kr_version row)) (\<lambda>version.
    and_then (wrapped_parse (kr_sealed row)) (\<lambda>wrapped.
    and_then (algorithm_from_str (kr_master row)) (\<lambda>master_algorithm.
    and_then (algorithm_from_str (kr_algorithm row)) (\<lambda>key_algorithm.
    and_then (pg_master_key cy sv master_algorithm) (\<lambda>mk.
      load_kek cy mk tenant (sv_context sv) wrapped version key_algorithm)))))"

definition pg_current_kek :: "'g crypto \<Rightarrow> pg_service \<Rightarrow> string \<Rightarrow> ('t pg_keys, 'g kek) act" where
  "pg_current_kek cy sv tenant = pg_read (\<lambda>t.
    case highest (rows_of tenant (tb_keks t)) of
      Some row \<Rightarrow> pg_load_kek cy sv tenant row
    | None \<Rightarrow> Inl (KekNotFound tenant None))"

definition pg_kek :: "'g crypto \<Rightarrow> pg_service \<Rightarrow> string \<Rightarrow> u32 \<Rightarrow> ('t pg_keys, 'g kek) act" where
  "pg_kek cy sv tenant version = pg_read (\<lambda>t.
    and_then (stored_version version) (\<lambda>v.
      case row_of_version tenant v (tb_keks t) of
        Some row \<Rightarrow> pg_load_kek cy sv tenant row
      | None \<Rightarrow> Inl (KekNotFound tenant (Some version))))"

definition pg_save_kek :: "pg_service \<Rightarrow> 'g kek \<Rightarrow> ('t pg_keys, unit) act" where
  "pg_save_kek sv k =
    bindA (lift (stored_version (ke_version k))) (\<lambda>v.
      put_keks (insert_row
        \<lparr>kr_id = ke_tenant k, kr_version = v, kr_sealed = wrapped_to_bytes (ke_wrapped k),
          kr_master = algorithm_as_str (sv_algorithm sv), kr_algorithm = algorithm_as_str (ke_algorithm k)\<rparr>))"

text \<open>An answer is taken as it is but for \<open>KekNotFound\<close>, of whatever version, where something else is done.\<close>

definition or_not_found :: "('g pg_keys, 'a) act \<Rightarrow> ('g pg_keys, 'a) act \<Rightarrow> ('g pg_keys, 'a) act" where
  "or_not_found m alt st =
    (case m st of
       Some (Inl (KekNotFound t v), st1) \<Rightarrow> alt st1
     | r \<Rightarrow> r)"

definition pg_first_kek :: "'g crypto \<Rightarrow> pg_service \<Rightarrow> string \<Rightarrow> ('g pg_keys, 'g kek) act" where
  "pg_first_kek cy sv tenant =
    bindA (lift (pg_master_key cy sv (sv_algorithm sv))) (\<lambda>mk.
    bindA (drawing (generate_kek cy mk tenant (sv_context sv))) (\<lambda>k.
    bindA (pg_save_kek sv k) (\<lambda>_. ret k)))"

definition pg_get_or_create_kek :: "'g crypto \<Rightarrow> pg_service \<Rightarrow> string \<Rightarrow> ('g pg_keys, 'g kek) act" where
  "pg_get_or_create_kek cy sv tenant =
    (if sv_managed sv then pg_current_kek cy sv tenant
     else or_not_found (pg_current_kek cy sv tenant)
       (pg_scope (or_not_found (pg_current_kek cy sv tenant) (pg_first_kek cy sv tenant))))"

subsection \<open>Wrapping and custody of the KEKs\<close>

definition pg_encrypt_dek :: "'g crypto \<Rightarrow> pg_service \<Rightarrow> string \<Rightarrow> bytes \<Rightarrow> ('g pg_keys, bytes) act" where
  "pg_encrypt_dek cy sv tenant dek =
    bindA (pg_get_or_create_kek cy sv tenant) (\<lambda>k.
    bindA (drawing (kek_wrap k dek)) (\<lambda>w. ret (wrapped_to_bytes w)))"

definition pg_decrypt_dek :: "'g crypto \<Rightarrow> pg_service \<Rightarrow> string \<Rightarrow> bytes \<Rightarrow> ('t pg_keys, bytes) act" where
  "pg_decrypt_dek cy sv tenant sealed =
    bindA (lift (wrapped_parse sealed)) (\<lambda>w.
    bindA (pg_kek cy sv tenant (wk_version w)) (\<lambda>k. lift (kek_unwrap k w)))"

definition pg_generate_dek :: "'g crypto \<Rightarrow> pg_service \<Rightarrow> string \<Rightarrow> ('g pg_keys, bytes \<times> bytes) act" where
  "pg_generate_dek cy sv tenant =
    bindA (pg_get_or_create_kek cy sv tenant) (\<lambda>k.
    bindA (drawing (kek_generate_dek k)) (\<lambda>(dek, w). ret (dek, wrapped_to_bytes w)))"

definition pg_rewrap_dek :: "'g crypto \<Rightarrow> pg_service \<Rightarrow> string \<Rightarrow> bytes \<Rightarrow> ('g pg_keys, bytes) act" where
  "pg_rewrap_dek cy sv tenant sealed =
    bindA (lift (wrapped_parse sealed)) (\<lambda>w.
    bindA (pg_kek cy sv tenant (wk_version w)) (\<lambda>origin.
    bindA (pg_get_or_create_kek cy sv tenant) (\<lambda>current.
    bindA (drawing (kek_rewrap current w origin)) (\<lambda>w1. ret (wrapped_to_bytes w1)))))"

definition pg_no_scheduler :: "nat option \<Rightarrow> (kms_error, unit) result" where
  "pg_no_scheduler period =
    (if period \<noteq> None
     then Inl (Unsupported ''automatic rotation: the PostgreSQL KMS rotates on request only'') else Inr ())"

definition pg_create_kek :: "'g crypto \<Rightarrow> pg_service \<Rightarrow> string \<Rightarrow> nat option \<Rightarrow> ('g pg_keys, u32) act" where
  "pg_create_kek cy sv tenant period =
    bindA (lift (pg_no_scheduler period)) (\<lambda>_.
      pg_scope (bindA (or_not_found (pg_current_kek cy sv tenant) (pg_first_kek cy sv tenant))
        (\<lambda>k. ret (ke_version k))))"

definition pg_rotate_kek :: "'g crypto \<Rightarrow> pg_service \<Rightarrow> string \<Rightarrow> ('g pg_keys, u32) act" where
  "pg_rotate_kek cy sv tenant =
    pg_scope (bindA (pg_current_kek cy sv tenant) (\<lambda>current.
      bindA (lift (pg_master_key cy sv (sv_algorithm sv))) (\<lambda>mk.
      bindA (drawing (rotate_master_kek cy mk current)) (\<lambda>k.
      bindA (pg_save_kek sv k) (\<lambda>_. ret (ke_version k))))))"

text \<open>The latest version, or the error of a keyring without one; and the bound of a retirement.\<close>

definition existing :: "kms_error \<Rightarrow> (kms_error, 'a option) result \<Rightarrow> (kms_error, 'a) result" where
  "existing missing r = and_then r (\<lambda>v. case v of None \<Rightarrow> Inl missing | Some a \<Rightarrow> Inr a)"

definition retirement :: "u32 \<Rightarrow> u32 \<Rightarrow> (kms_error, int) result" where
  "retirement version latest =
    (if latest < version then Inl (NoKeyOfVersion version) else stored_version version)"

definition pg_retire_keks :: "string \<Rightarrow> u32 \<Rightarrow> ('g pg_keys, unit) act" where
  "pg_retire_keks tenant version =
    pg_scope (bindA (pg_read (\<lambda>t. existing (KekNotFound tenant None) (latest_version tenant (tb_keks t)))) (\<lambda>latest.
      bindA (lift (retirement version latest)) (\<lambda>v.
        put_keks (\<lambda>rows. Inr (delete_below tenant v rows)))))"

definition pg_delete_kek :: "string \<Rightarrow> ('g pg_keys, unit) act" where
  "pg_delete_kek tenant = put_keks (\<lambda>rows. Inr (delete_all tenant rows))"


section \<open>Signing keys and MAC keys over PostgreSQL\<close>

text \<open>
  The rest of \<open>crates/kms/src/pg.rs\<close>: the private half of a signing key and a MAC key are wrapped by
  the master key under the name of the key; the public half is stored beside, and checked against the
  private one whenever it is read by its version.
\<close>

subsection \<open>Signing keys\<close>

definition pg_load_signing :: "'g crypto \<Rightarrow> pg_service \<Rightarrow> string \<Rightarrow> signature_algorithm \<Rightarrow> signing_row
    \<Rightarrow> (kms_error, signing_key) result" where
  "pg_load_signing cy sv tenant algorithm row =
    and_then (read_version (kr_version row)) (\<lambda>version.
    and_then (wrapped_parse (kr_sealed row)) (\<lambda>wrapped.
    and_then (algorithm_from_str (kr_master row)) (\<lambda>master_algorithm.
    and_then (pg_master_key cy sv master_algorithm) (\<lambda>mk.
    and_then (master_unwrap cy mk (signing_name_of tenant algorithm) wrapped) (\<lambda>private.
      signing_key_load cy tenant algorithm version private)))))"

definition pg_checked_signing :: "'g crypto \<Rightarrow> pg_service \<Rightarrow> string \<Rightarrow> signature_algorithm \<Rightarrow> signing_row
    \<Rightarrow> (kms_error, signing_key) result" where
  "pg_checked_signing cy sv tenant algorithm row =
    and_then (pg_load_signing cy sv tenant algorithm row) (\<lambda>key.
      if kr_public row = pk_bytes (sk_public key) then Inr key
      else Inl (MalformedBytes (''the stored public half of '' @ quote_name (signing_key_name key) @ '' v'' @
        show_u32 (sk_version key) @ '' is not its private half'' @ [CHR 0x27] @ ''s'')))"

definition pg_current_signing :: "'g crypto \<Rightarrow> pg_service \<Rightarrow> string \<Rightarrow> signature_algorithm
    \<Rightarrow> ('t pg_keys, signing_key option) act" where
  "pg_current_signing cy sv tenant algorithm = pg_read (\<lambda>t.
    case highest (rows_of (tenant, sa_as_str algorithm) (tb_signing t)) of
      None \<Rightarrow> Inr None
    | Some row \<Rightarrow> map_ok Some (pg_load_signing cy sv tenant algorithm row))"

definition pg_signing_of_version :: "'g crypto \<Rightarrow> pg_service \<Rightarrow> string \<Rightarrow> signature_algorithm \<Rightarrow> u32
    \<Rightarrow> ('t pg_keys, signing_key) act" where
  "pg_signing_of_version cy sv tenant algorithm version = pg_read (\<lambda>t.
    let i = (tenant, sa_as_str algorithm) in
    and_then (stored_version version) (\<lambda>v.
      case row_of_version i v (tb_signing t) of
        Some row \<Rightarrow> pg_checked_signing cy sv tenant algorithm row
      | None \<Rightarrow>
          if rows_of i (tb_signing t) \<noteq> [] then Inl (NoKeyOfVersion version)
          else Inl (SigningKeyNotFound tenant algorithm)))"

definition pg_save_signing :: "'g crypto \<Rightarrow> pg_service \<Rightarrow> signing_key \<Rightarrow> ('g pg_keys, unit) act" where
  "pg_save_signing cy sv k =
    bindA (lift (pg_master_key cy sv (sv_algorithm sv))) (\<lambda>mk.
    bindA (drawing (master_wrap cy mk (signing_key_name k) (sk_private k))) (\<lambda>w.
    bindA (lift (stored_version (sk_version k))) (\<lambda>v.
      put_signing_rows (insert_row
        \<lparr>kr_id = (sk_tenant k, sa_as_str (sk_algorithm k)), kr_version = v, kr_sealed = wrapped_to_bytes w,
          kr_master = algorithm_as_str (sv_algorithm sv), kr_public = pk_bytes (sk_public k)\<rparr>))))"

definition pg_make_signing :: "'g crypto \<Rightarrow> pg_service \<Rightarrow> string \<Rightarrow> signature_algorithm \<Rightarrow> u32
    \<Rightarrow> ('g pg_keys, signing_key) act" where
  "pg_make_signing cy sv tenant algorithm version =
    bindA (drawing (signing_key_generate cy tenant algorithm version)) (\<lambda>k.
    bindA (pg_save_signing cy sv k) (\<lambda>_. ret k))"

definition pg_get_or_create_signing :: "'g crypto \<Rightarrow> pg_service \<Rightarrow> string \<Rightarrow> signature_algorithm
    \<Rightarrow> ('g pg_keys, signing_key) act" where
  "pg_get_or_create_signing cy sv tenant algorithm =
    bindA (pg_current_signing cy sv tenant algorithm) (\<lambda>found. case found of
      Some k \<Rightarrow> ret k
    | None \<Rightarrow>
        if sv_managed sv then lift (Inl (SigningKeyNotFound tenant algorithm))
        else pg_scope (bindA (pg_current_signing cy sv tenant algorithm) (\<lambda>found. case found of
          Some k \<Rightarrow> ret k
        | None \<Rightarrow> pg_make_signing cy sv tenant algorithm 1)))"

definition latest_signing :: "string \<Rightarrow> signature_algorithm \<Rightarrow> ('t pg_keys, u32 option) act" where
  "latest_signing tenant algorithm =
    pg_read (\<lambda>t. latest_version (tenant, sa_as_str algorithm) (tb_signing t))"

definition pg_sign :: "'g crypto \<Rightarrow> pg_service \<Rightarrow> string \<Rightarrow> signature_algorithm \<Rightarrow> bytes
    \<Rightarrow> ('g pg_keys, signature) act" where
  "pg_sign cy sv tenant algorithm message =
    bindA (pg_get_or_create_signing cy sv tenant algorithm) (\<lambda>k. lift (signing_key_sign cy k message))"

definition pg_sign_with_version :: "'g crypto \<Rightarrow> pg_service \<Rightarrow> string \<Rightarrow> signature_algorithm \<Rightarrow> u32 \<Rightarrow> bytes
    \<Rightarrow> ('t pg_keys, signature) act" where
  "pg_sign_with_version cy sv tenant algorithm version message =
    bindA (pg_signing_of_version cy sv tenant algorithm version) (\<lambda>k. lift (signing_key_sign cy k message))"

definition pg_verify :: "'g crypto \<Rightarrow> pg_service \<Rightarrow> string \<Rightarrow> bytes \<Rightarrow> signature \<Rightarrow> ('t pg_keys, unit) act" where
  "pg_verify cy sv tenant message sig =
    bindA (pg_signing_of_version cy sv tenant (si_algorithm sig) (si_version sig))
      (\<lambda>k. lift (public_key_verify cy (sk_public k) message sig))"

definition pg_create_signing :: "'g crypto \<Rightarrow> pg_service \<Rightarrow> string \<Rightarrow> signature_algorithm \<Rightarrow> key_options
    \<Rightarrow> ('g pg_keys, u32) act" where
  "pg_create_signing cy sv tenant algorithm options =
    bindA (lift (pg_no_scheduler (ko_auto_rotate options))) (\<lambda>_.
      pg_scope (bindA (latest_signing tenant algorithm) (\<lambda>latest. case latest of
        Some v \<Rightarrow> ret v
      | None \<Rightarrow> bindA (pg_make_signing cy sv tenant algorithm 1) (\<lambda>_. ret 1))))"

definition pg_rotate_signing :: "'g crypto \<Rightarrow> pg_service \<Rightarrow> string \<Rightarrow> signature_algorithm \<Rightarrow> ('g pg_keys, u32) act" where
  "pg_rotate_signing cy sv tenant algorithm =
    pg_scope (bindA (latest_signing tenant algorithm) (\<lambda>found.
      bindA (lift (existing (SigningKeyNotFound tenant algorithm) (Inr found))) (\<lambda>latest.
      bindA (pg_make_signing cy sv tenant algorithm (latest + 1)) (\<lambda>k. ret (sk_version k)))))"

definition pg_retire_signing :: "string \<Rightarrow> signature_algorithm \<Rightarrow> u32 \<Rightarrow> ('g pg_keys, unit) act" where
  "pg_retire_signing tenant algorithm version =
    pg_scope (bindA (latest_signing tenant algorithm) (\<lambda>found.
      bindA (lift (existing (SigningKeyNotFound tenant algorithm) (Inr found))) (\<lambda>latest.
      bindA (lift (retirement version latest)) (\<lambda>v.
        put_signing_rows (\<lambda>rows. Inr (delete_below (tenant, sa_as_str algorithm) v rows))))))"

definition pg_delete_signing :: "string \<Rightarrow> signature_algorithm \<Rightarrow> ('g pg_keys, unit) act" where
  "pg_delete_signing tenant algorithm =
    put_signing_rows (\<lambda>rows. Inr (delete_all (tenant, sa_as_str algorithm) rows))"

text \<open>The rows of a keyring in the order of their versions, each checked.\<close>

fun checked_rows :: "'g crypto \<Rightarrow> pg_service \<Rightarrow> string \<Rightarrow> signature_algorithm \<Rightarrow> signing_row list
    \<Rightarrow> (kms_error, (u32 \<times> public_key) list) result" where
  "checked_rows cy sv tenant algorithm [] = Inr []"
| "checked_rows cy sv tenant algorithm (row # rows) =
    and_then (pg_checked_signing cy sv tenant algorithm row) (\<lambda>k.
    and_then (checked_rows cy sv tenant algorithm rows) (\<lambda>keys. Inr ((sk_version k, sk_public k) # keys)))"

definition pg_public_keys :: "'g crypto \<Rightarrow> pg_service \<Rightarrow> string \<Rightarrow> signature_algorithm
    \<Rightarrow> ('t pg_keys, public_keyring) act" where
  "pg_public_keys cy sv tenant algorithm = pg_read (\<lambda>t.
    let rows = sort_key kr_version (rows_of (tenant, sa_as_str algorithm) (tb_signing t)) in
    if rows = [] then Inl (SigningKeyNotFound tenant algorithm)
    else and_then (checked_rows cy sv tenant algorithm rows) (public_keyring_new algorithm))"

subsection \<open>MAC keys\<close>

definition pg_load_mac :: "'g crypto \<Rightarrow> pg_service \<Rightarrow> string \<Rightarrow> string \<Rightarrow> mac_row \<Rightarrow> (kms_error, mac_key) result" where
  "pg_load_mac cy sv tenant purpose row =
    and_then (read_version (kr_version row)) (\<lambda>version.
    and_then (wrapped_parse (kr_sealed row)) (\<lambda>wrapped.
    and_then (algorithm_from_str (kr_master row)) (\<lambda>master_algorithm.
    and_then (pg_master_key cy sv master_algorithm) (\<lambda>mk.
    and_then (master_unwrap cy mk (mac_name_of tenant purpose) wrapped) (\<lambda>key.
      Inr (mac_key_load tenant purpose version key))))))"

definition pg_current_mac :: "'g crypto \<Rightarrow> pg_service \<Rightarrow> string \<Rightarrow> string \<Rightarrow> ('t pg_keys, mac_key option) act" where
  "pg_current_mac cy sv tenant purpose = pg_read (\<lambda>t.
    case highest (rows_of (tenant, purpose) (tb_mac t)) of
      None \<Rightarrow> Inr None
    | Some row \<Rightarrow> map_ok Some (pg_load_mac cy sv tenant purpose row))"

definition pg_save_mac :: "'g crypto \<Rightarrow> pg_service \<Rightarrow> mac_key \<Rightarrow> ('g pg_keys, unit) act" where
  "pg_save_mac cy sv k =
    bindA (lift (pg_master_key cy sv (sv_algorithm sv))) (\<lambda>mk.
    bindA (drawing (master_wrap cy mk (mac_key_name k) (mc_key k))) (\<lambda>w.
    bindA (lift (stored_version (mc_version k))) (\<lambda>v.
      put_mac_rows (insert_row
        \<lparr>kr_id = (mc_tenant k, mc_purpose k), kr_version = v, kr_sealed = wrapped_to_bytes w,
          kr_master = algorithm_as_str (sv_algorithm sv)\<rparr>))))"

definition pg_make_mac :: "'g crypto \<Rightarrow> pg_service \<Rightarrow> string \<Rightarrow> string \<Rightarrow> u32 \<Rightarrow> ('g pg_keys, mac_key) act" where
  "pg_make_mac cy sv tenant purpose version =
    bindA (drawing (mac_key_generate cy tenant purpose version)) (\<lambda>k.
    bindA (pg_save_mac cy sv k) (\<lambda>_. ret k))"

definition pg_get_or_create_mac :: "'g crypto \<Rightarrow> pg_service \<Rightarrow> string \<Rightarrow> string \<Rightarrow> ('g pg_keys, mac_key) act" where
  "pg_get_or_create_mac cy sv tenant purpose =
    bindA (pg_current_mac cy sv tenant purpose) (\<lambda>found. case found of
      Some k \<Rightarrow> ret k
    | None \<Rightarrow>
        if sv_managed sv then lift (Inl (MacKeyNotFound tenant purpose))
        else pg_scope (bindA (pg_current_mac cy sv tenant purpose) (\<lambda>found. case found of
          Some k \<Rightarrow> ret k
        | None \<Rightarrow> pg_make_mac cy sv tenant purpose 1)))"

definition latest_mac :: "string \<Rightarrow> string \<Rightarrow> ('t pg_keys, u32 option) act" where
  "latest_mac tenant purpose = pg_read (\<lambda>t. latest_version (tenant, purpose) (tb_mac t))"

definition pg_mac :: "'g crypto \<Rightarrow> pg_service \<Rightarrow> string \<Rightarrow> string \<Rightarrow> bytes \<Rightarrow> ('g pg_keys, mac) act" where
  "pg_mac cy sv tenant purpose message =
    bindA (pg_get_or_create_mac cy sv tenant purpose) (\<lambda>k. lift (mac_key_mac cy k message))"

definition pg_create_mac :: "'g crypto \<Rightarrow> pg_service \<Rightarrow> string \<Rightarrow> string \<Rightarrow> key_options \<Rightarrow> ('g pg_keys, u32) act" where
  "pg_create_mac cy sv tenant purpose options =
    bindA (lift (pg_no_scheduler (ko_auto_rotate options))) (\<lambda>_.
      pg_scope (bindA (latest_mac tenant purpose) (\<lambda>latest. case latest of
        Some v \<Rightarrow> ret v
      | None \<Rightarrow> bindA (pg_make_mac cy sv tenant purpose 1) (\<lambda>_. ret 1))))"

definition pg_rotate_mac :: "'g crypto \<Rightarrow> pg_service \<Rightarrow> string \<Rightarrow> string \<Rightarrow> ('g pg_keys, u32) act" where
  "pg_rotate_mac cy sv tenant purpose =
    pg_scope (bindA (latest_mac tenant purpose) (\<lambda>found.
      bindA (lift (existing (MacKeyNotFound tenant purpose) (Inr found))) (\<lambda>latest.
      bindA (pg_make_mac cy sv tenant purpose (latest + 1)) (\<lambda>k. ret (mc_version k)))))"

definition pg_retire_mac :: "string \<Rightarrow> string \<Rightarrow> u32 \<Rightarrow> ('g pg_keys, unit) act" where
  "pg_retire_mac tenant purpose version =
    pg_scope (bindA (latest_mac tenant purpose) (\<lambda>found.
      bindA (lift (existing (MacKeyNotFound tenant purpose) (Inr found))) (\<lambda>latest.
      bindA (lift (retirement version latest)) (\<lambda>v.
        put_mac_rows (\<lambda>rows. Inr (delete_below (tenant, purpose) v rows))))))"

definition pg_delete_mac :: "string \<Rightarrow> string \<Rightarrow> ('g pg_keys, unit) act" where
  "pg_delete_mac tenant purpose = put_mac_rows (\<lambda>rows. Inr (delete_all (tenant, purpose) rows))"

end
