(* ===== verification/Kms_Custody.thy ===== *)
theory Kms_Custody
  imports Kms_Pg
begin

section \<open>What custody promises of a keyring\<close>

text \<open>
  \<open>crates/kms/src/port.rs\<close> promises of a keyring that its versions count from one, that a rotation adds
  the next, that a retirement drops the lowest and keeps the latest, and that a deletion drops all. So a
  keyring is the interval of its versions, or nothing; the locale is the contract of whoever keeps one,
  and a keeper may also fail for the keys themselves, leaving the keyring as it was.
\<close>

datatype custody_call = Create_key | Rotate_key | Retire_before u32 | Delete_key

type_synonym keyring = "(nat \<times> nat) option"

fun spec_step :: "kms_error \<Rightarrow> custody_call \<Rightarrow> keyring \<Rightarrow> (kms_error, u32 option) result \<times> keyring" where
  "spec_step missing Create_key None = (Inr (Some 1), Some (1, 1))"
| "spec_step missing Create_key (Some (low, high)) = (Inr (Some (of_nat high)), Some (low, high))"
| "spec_step missing Rotate_key None = (Inl missing, None)"
| "spec_step missing Rotate_key (Some (low, high)) = (Inr (Some (of_nat (high + 1))), Some (low, high + 1))"
| "spec_step missing (Retire_before v) None = (Inl missing, None)"
| "spec_step missing (Retire_before v) (Some (low, high)) =
    (if high < unat v then (Inl (NoKeyOfVersion v), Some (low, high))
     else (Inr None, Some (max low (unat v), high)))"
| "spec_step missing Delete_key k = (Inr None, None)"

fun of_the_keys :: "kms_error \<Rightarrow> bool" where
  "of_the_keys (EntropyError e) = True"
| "of_the_keys (MalformedBytes e) = True"
| "of_the_keys (UnsupportedAlgorithm e) = True"
| "of_the_keys DecryptFailed = True"
| "of_the_keys (WrongKeyVersion e f) = True"
| "of_the_keys e = False"

definition latest_of :: "keyring \<Rightarrow> nat" where
  "latest_of k = (case k of None \<Rightarrow> 0 | Some (low, high) \<Rightarrow> high)"

text \<open>The answers a sequence of calls may get.\<close>

inductive follows :: "kms_error \<Rightarrow> keyring \<Rightarrow> custody_call list \<Rightarrow> (kms_error, u32 option) result list
    \<Rightarrow> keyring \<Rightarrow> bool" for missing where
  over: "follows missing k [] [] k"
| served: "spec_step missing c k = (r, k1) \<Longrightarrow> follows missing k1 cs rs k2
    \<Longrightarrow> follows missing k (c # cs) (r # rs) k2"
| failed: "of_the_keys e \<Longrightarrow> follows missing k cs rs k2 \<Longrightarrow> follows missing k (c # cs) (Inl e # rs) k2"

inductive_cases follows_none: "follows missing k [] rs k2"
inductive_cases follows_call: "follows missing k (c # cs) rs k2"

fun run_calls :: "('c \<Rightarrow> ('s, 'a) act) \<Rightarrow> 'c list \<Rightarrow> 's \<Rightarrow> ((kms_error, 'a) result list \<times> 's) option" where
  "run_calls step [] s = Some ([], s)"
| "run_calls step (c # cs) s =
    (case step c s of
       None \<Rightarrow> None
     | Some (r, s1) \<Rightarrow> map_option (apfst (Cons r)) (run_calls step cs s1))"

lemma run_calls_ConsE:
  assumes "run_calls step (c # cs) s = Some (rs, s2)"
  obtains r s1 rest where "step c s = Some (r, s1)" "run_calls step cs s1 = Some (rest, s2)" "rs = r # rest"
  using assms by (auto split: option.splits)

lemma spec_step_latest:
  "latest_of (snd (spec_step missing c k)) \<le> latest_of k + 1"
  by (cases "(missing, c, k)" rule: spec_step.cases) (simp_all add: latest_of_def)

lemma follows_length: "follows missing k cs rs k2 \<Longrightarrow> length rs = length cs"
  by (induction rule: follows.induct) simp_all

lemma follows_latest: "follows missing k cs rs k2 \<Longrightarrow> latest_of k2 \<le> latest_of k + length cs"
proof (induction rule: follows.induct)
  case (served c k r k1 cs rs k2)
  then show ?case using spec_step_latest [of missing c k] by simp
qed simp_all

text \<open>Without a failure of the keys the answers are determined.\<close>

lemma follows_determined:
  assumes "follows missing k cs rs k1" "follows missing k cs rs' k1'"
    and "list_all (\<lambda>r. case r of Inl e \<Rightarrow> \<not> of_the_keys e | Inr a \<Rightarrow> True) (rs @ rs')"
  shows "rs = rs' \<and> k1 = k1'"
  using assms
proof (induction arbitrary: rs' k1' rule: follows.induct)
  case (over k) then show ?case by (auto elim: follows_none)
next
  case (served c k r ka cs rs kb)
  from served.prems(1) show ?case
  proof (cases rule: follows_call [consumes 1, case_names served failed])
    case (served r' kc rs2)
    then have "r' = r" "kc = ka" using served.hyps(1) by simp_all
    then show ?thesis using served served.IH [of rs2 k1'] served.prems(2) by simp
  next
    case (failed e rs2) then show ?thesis using served.prems(2) by simp
  qed
next
  case (failed e k cs rs kb c) then show ?case by simp
qed

text \<open>The versions rotations answer, without a deletion, go up by one each time.\<close>

fun rotated :: "custody_call list \<Rightarrow> (kms_error, u32 option) result list \<Rightarrow> u32 list" where
  "rotated (Rotate_key # cs) (Inr (Some v) # rs) = v # rotated cs rs"
| "rotated (c # cs) (r # rs) = rotated cs rs"
| "rotated cs rs = []"

lemma spec_step_keeps:
  assumes "c \<noteq> Rotate_key" "c \<noteq> Delete_key" "k \<noteq> None"
  shows "latest_of (snd (spec_step missing c k)) = latest_of k \<and> snd (spec_step missing c k) \<noteq> None"
  using assms by (cases "(missing, c, k)" rule: spec_step.cases) (simp_all add: latest_of_def)

lemma rotated_skip: "c \<noteq> Rotate_key \<Longrightarrow> rotated (c # cs) (r # rs) = rotated cs rs"
  by (cases "(c # cs, r # rs)" rule: rotated.cases) simp_all

lemma follows_rotated:
  "follows missing k cs rs k2 \<Longrightarrow> Delete_key \<notin> set cs \<Longrightarrow> k \<noteq> None
    \<Longrightarrow> k2 \<noteq> None \<and> rotated cs rs = map of_nat [Suc (latest_of k)..<Suc (latest_of k2)] \<and> latest_of k \<le> latest_of k2"
proof (induction rule: follows.induct)
  case (served c k r k1 cs rs k2)
  obtain low high where k: "k = Some (low, high)" using served.prems by auto
  show ?case
  proof (cases "c = Rotate_key")
    case True
    then have k1: "k1 \<noteq> None" "latest_of k1 = Suc high" and r: "r = Inr (Some (of_nat (Suc high)))"
      and "latest_of k = high"
      using served.hyps(1) k by (auto simp: latest_of_def)
    with served.IH [OF _ k1(1)] served.prems True show ?thesis
      by (simp add: upt_conv_Cons del: upt_Suc of_nat_Suc)
  next
    case False
    then have "latest_of k1 = latest_of k \<and> k1 \<noteq> None"
      using spec_step_keeps [of c k missing] served.hyps(1) served.prems by auto
    then show ?thesis using served.IH served.prems False by (simp add: rotated_skip)
  qed
next
  case (failed e k cs rs k2 c)
  then show ?case by (cases c) simp_all
qed simp

subsection \<open>The contract\<close>

locale keyring_custody =
  fixes step :: "custody_call \<Rightarrow> ('s, u32 option) act"
    and holds :: "'s \<Rightarrow> keyring \<Rightarrow> bool"
    and limit :: nat
    and missing :: kms_error
  assumes step_refines: "\<lbrakk>holds s k; latest_of k < limit; step c s = Some (r, s1)\<rbrakk>
    \<Longrightarrow> (r = fst (spec_step missing c k) \<and> holds s1 (snd (spec_step missing c k)))
      \<or> (\<exists>e. r = Inl e \<and> of_the_keys e \<and> holds s1 k)"
begin

lemma run_follows:
  "\<lbrakk>run_calls step cs s = Some (rs, s2); holds s k; latest_of k + length cs \<le> limit\<rbrakk>
    \<Longrightarrow> \<exists>k2. follows missing k cs rs k2 \<and> holds s2 k2"
proof (induction cs arbitrary: s k rs)
  case Nil then show ?case by (auto intro: follows.over)
next
  case (Cons c cs)
  from Cons.prems(1) obtain r s1 rest
    where st: "step c s = Some (r, s1)" and run: "run_calls step cs s1 = Some (rest, s2)" and rs: "rs = r # rest"
    by (elim run_calls_ConsE)
  have room: "latest_of k < limit" using Cons.prems(3) by simp
  from step_refines [OF Cons.prems(2) room st] show ?case
  proof (elim disjE conjE exE)
    assume r: "r = fst (spec_step missing c k)" and h: "holds s1 (snd (spec_step missing c k))"
    have "latest_of (snd (spec_step missing c k)) + length cs \<le> limit"
      using spec_step_latest [of missing c k] Cons.prems(3) by simp
    from Cons.IH [OF run h this] show ?thesis
      using rs r by (metis follows.served surjective_pairing)
  next
    fix e assume "r = Inl e" "of_the_keys e" and h: "holds s1 k"
    moreover have "latest_of k + length cs \<le> limit" using Cons.prems(3) by simp
    ultimately show ?thesis using Cons.IH [OF run h] rs by (metis follows.failed)
  qed
qed

lemma versions_go_up:
  assumes "run_calls step cs s = Some (rs, s2)" "holds s k" "k \<noteq> None"
    and "latest_of k + length cs \<le> limit" "Delete_key \<notin> set cs"
  shows "\<exists>m. rotated cs rs = map of_nat [Suc (latest_of k)..<Suc m] \<and> m \<le> limit"
  using run_follows [OF assms(1,2,4)] follows_rotated [OF _ assms(5,3)] follows_latest assms(4)
  by (metis dual_order.trans)

end

text \<open>Two keepers of the same keyring.\<close>

lemma keepers_agree:
  assumes "keyring_custody step holds limit missing" "keyring_custody step' holds' limit' missing"
    and "run_calls step cs s = Some (rs, s2)" "run_calls step' cs s' = Some (rs', s2')"
    and "holds s k" "holds' s' k" "latest_of k + length cs \<le> min limit limit'"
    and "list_all (\<lambda>r. case r of Inl e \<Rightarrow> \<not> of_the_keys e | Inr a \<Rightarrow> True) (rs @ rs')"
  shows "rs = rs'"
  using keyring_custody.run_follows [OF assms(1,3,5)] keyring_custody.run_follows [OF assms(2,4,6)]
    follows_determined [OF _ _ assms(8)] assms(7) by fastforce

end
