(* ===== verification/Kms_Keepers.thy ===== *)
theory Kms_Keepers
  imports Kms_Custody
begin

section \<open>The tables and the rings as keyrings\<close>

text \<open>
  The rows of a keyring, and the versions of a ring in memory, are an interval of versions; each way to
  change them does to the interval what custody promises. The keepers interpret the contract of custody.
\<close>

subsection \<open>Actions\<close>

lemma bindA_iff: "bindA m f g = Some (r, g2) \<longleftrightarrow>
    (\<exists>e. m g = Some (Inl e, g2) \<and> r = Inl e) \<or> (\<exists>a g1. m g = Some (Inr a, g1) \<and> f a g1 = Some (r, g2))"
  by (auto simp: bindA_def split: option.splits prod.splits sum.splits)

lemma act_simps [simp]:
  "ret a g = Some (Inr a, g)" "lift r g = Some (r, g)" "pg_read f st = Some (f (pg_tables.truncate st), st)"
  by (simp_all add: ret_def lift_def pg_read_def)

lemma truncate_tables [simp]:
  "tb_keks (pg_tables.truncate st) = tb_keks st" "tb_signing (pg_tables.truncate st) = tb_signing st"
  "tb_mac (pg_tables.truncate st) = tb_mac st"
  by (simp_all add: pg_tables.truncate_def)

lemma drawing_iff: "drawing m st = Some (r, st1) \<longleftrightarrow>
    (\<exists>g. m (tb_random st) = Some (r, g) \<and> st1 = st\<lparr>tb_random := g\<rparr>)"
  by (auto simp: drawing_def)

lemma pg_scope_iff: "pg_scope m st = Some (r, st1) \<longleftrightarrow>
    (\<exists>e s. m st = Some (Inl e, s) \<and> r = Inl e \<and> st1 = st\<lparr>tb_random := tb_random s\<rparr>)
    \<or> (\<exists>a. m st = Some (Inr a, st1) \<and> r = Inr a)"
  by (auto simp: pg_scope_def split: option.splits prod.splits sum.splits)

lemma put_rows_iff:
  "put_keks f st = Some (r, st1) \<longleftrightarrow> (\<exists>e. f (tb_keks st) = Inl e \<and> r = Inl e \<and> st1 = st)
    \<or> (\<exists>rows. f (tb_keks st) = Inr rows \<and> r = Inr () \<and> st1 = st\<lparr>tb_keks := rows\<rparr>)"
  "put_signing_rows f1 st = Some (r, st1) \<longleftrightarrow> (\<exists>e. f1 (tb_signing st) = Inl e \<and> r = Inl e \<and> st1 = st)
    \<or> (\<exists>rows. f1 (tb_signing st) = Inr rows \<and> r = Inr () \<and> st1 = st\<lparr>tb_signing := rows\<rparr>)"
  "put_mac_rows f2 st = Some (r, st1) \<longleftrightarrow> (\<exists>e. f2 (tb_mac st) = Inl e \<and> r = Inl e \<and> st1 = st)
    \<or> (\<exists>rows. f2 (tb_mac st) = Inr rows \<and> r = Inr () \<and> st1 = st\<lparr>tb_mac := rows\<rparr>)"
  by (auto simp: put_keks_def put_signing_rows_def put_mac_rows_def split: sum.splits)

lemmas act_iffs = bindA_iff drawing_iff pg_scope_iff put_rows_iff

subsection \<open>Rows\<close>

definition versions_in :: "'id \<Rightarrow> ('id, 'x) key_row_scheme list \<Rightarrow> int list" where
  "versions_in i rows = map kr_version (rows_of i rows)"

definition INTEGER_MAX :: nat where "INTEGER_MAX = 2 ^ 31 - 1"

definition grown :: "keyring \<Rightarrow> keyring" where
  "grown k = (case k of None \<Rightarrow> Some (1, 1) | Some (low, high) \<Rightarrow> Some (low, high + 1))"

text \<open>The versions of a keyring are those of its interval, once each.\<close>

definition row_ring :: "'id \<Rightarrow> ('id, 'x) key_row_scheme list \<Rightarrow> keyring \<Rightarrow> bool" where
  "row_ring i rows k \<longleftrightarrow> distinct (versions_in i rows) \<and>
    (case k of
       None \<Rightarrow> versions_in i rows = []
     | Some (low, high) \<Rightarrow> 1 \<le> low \<and> low \<le> high \<and> high \<le> INTEGER_MAX
         \<and> set (versions_in i rows) = int ` {low..high})"

lemma highest_none [simp]: "highest rs = None \<longleftrightarrow> rs = []"
  by (cases rs) (auto split: option.splits)

lemma highest_in: "highest rs = Some r \<Longrightarrow> r \<in> set rs \<and> (\<forall>s\<in>set rs. kr_version s \<le> kr_version r)"
proof (induction rs arbitrary: r)
  case (Cons a rs)
  then show ?case by (cases "highest rs") (fastforce split: if_splits)+
qed simp

lemma row_of_version_none: "row_of_version i v rows = None \<longleftrightarrow> v \<notin> set (versions_in i rows)"
  by (auto simp: row_of_version_def versions_in_def find_None_iff)

lemma versions_append:
  "versions_in i (rows @ [r]) = versions_in i rows @ (if kr_id r = i then [kr_version r] else [])"
  by (simp add: versions_in_def rows_of_def)

lemma versions_below:
  "versions_in i (delete_below j v rows) =
    (if i = j then filter (\<lambda>w. v \<le> w) (versions_in i rows) else versions_in i rows)"
  by (induction rows) (auto simp: versions_in_def rows_of_def delete_below_def)

lemma versions_all:
  "versions_in i (delete_all j rows) = (if i = j then [] else versions_in i rows)"
  by (induction rows) (auto simp: versions_in_def rows_of_def delete_all_def)

lemma row_ring_latest:
  assumes "row_ring i rows k"
  shows "latest_version i rows = Inr (case k of None \<Rightarrow> None | Some (low, high) \<Rightarrow> Some (of_nat high))"
proof (cases k)
  case None
  then show ?thesis using assms by (simp add: row_ring_def latest_version_def versions_in_def)
next
  case (Some p)
  obtain low high where k: "k = Some (low, high)" using Some by (cases p) auto
  then have vs: "set (versions_in i rows) = int ` {low..high}" "low \<le> high" using assms by (auto simp: row_ring_def)
  then have "rows_of i rows \<noteq> []" by (auto simp: versions_in_def)
  then obtain r where r: "highest (rows_of i rows) = Some r" by fastforce
  have "kr_version r \<in> set (versions_in i rows)" "\<forall>v\<in>set (versions_in i rows). v \<le> kr_version r"
    using highest_in [OF r] by (auto simp: versions_in_def)
  then have "kr_version r = int high" using vs by force
  then show ?thesis using r k by (simp add: latest_version_def read_version_def)
qed

lemma row_ring_new:
  assumes "row_ring (kr_id r) rows k" "latest_of k < INTEGER_MAX" "kr_version r = int (Suc (latest_of k))"
  shows "insert_row r rows = Inr (rows @ [r])"
    "row_ring (kr_id r) (rows @ [r]) (grown k)"
proof -
  have "kr_version r \<notin> set (versions_in (kr_id r) rows)"
    using assms by (auto simp: row_ring_def latest_of_def split: option.splits)
  then show "insert_row r rows = Inr (rows @ [r])"
    "row_ring (kr_id r) (rows @ [r]) (grown k)"
    using assms
    by (auto simp: insert_row_def row_of_version_none row_ring_def grown_def versions_append latest_of_def
      atLeastAtMostSuc_conv split: option.splits)
qed

lemma row_ring_retired:
  assumes "row_ring i rows (Some (low, high))" "v \<le> high"
  shows "row_ring i (delete_below i (int v) rows) (Some (max low v, high))"
proof -
  have "{x \<in> int ` {low..high}. int v \<le> x} = int ` {max low v..high}" by auto
  then show ?thesis using assms by (auto simp: row_ring_def versions_below)
qed

lemma row_ring_deleted: "row_ring i (delete_all i rows) None"
  by (simp add: row_ring_def versions_all)

lemma stored_version_of_nat:
  "n \<le> INTEGER_MAX \<Longrightarrow> stored_version (of_nat n) = Inr (int n)"
  by (simp add: stored_version_def INTEGER_MAX_def unat_of_nat take_bit_nat_eq_self)

lemma stored_version_unat: "unat v \<le> INTEGER_MAX \<Longrightarrow> stored_version v = Inr (int (unat v))"
  by (simp add: stored_version_def INTEGER_MAX_def)

lemma retirement_bound:
  assumes "high \<le> INTEGER_MAX"
  shows "retirement v (of_nat high) =
    (if high < unat v then Inl (NoKeyOfVersion v) else Inr (int (unat v)))"
proof -
  have "unat (of_nat high :: u32) = high"
    using assms by (simp add: INTEGER_MAX_def unat_of_nat take_bit_nat_eq_self)
  then show ?thesis using assms by (simp add: retirement_def stored_version_unat word_less_nat_alt)
qed


section \<open>The keepers of keyrings\<close>

text \<open>
  PostgreSQL keeps KEKs, signing keys and MAC keys, memory keeps the latter two: each interprets the
  contract of custody, and fails only for the keys.
\<close>

subsection \<open>What can fail\<close>

definition key_refusal :: "(kms_error, 'a) result \<Rightarrow> bool" where
  "key_refusal r = (case r of Inl e \<Rightarrow> of_the_keys e | Inr a \<Rightarrow> True)"

definition fails_for_keys :: "('g, 'a) act \<Rightarrow> bool" where
  "fails_for_keys m \<longleftrightarrow> (\<forall>g e g1. m g = Some (Inl e, g1) \<longrightarrow> of_the_keys e)"

named_theorems refusals

lemma key_refusal_simps [simp]: "key_refusal (Inr a)" "key_refusal (Inl e) = of_the_keys e"
  by (simp_all add: key_refusal_def)

lemma refusal_and_then [refusals]:
  "key_refusal r \<Longrightarrow> (\<And>a. r = Inr a \<Longrightarrow> key_refusal (f a)) \<Longrightarrow> key_refusal (and_then r f)"
  by (cases r) simp_all

lemma refusal_lift [refusals]: "key_refusal r \<Longrightarrow> fails_for_keys (lift r)"
  by (cases r) (simp_all add: fails_for_keys_def)

lemma refusal_ret [refusals]: "fails_for_keys (ret a)"
  by (simp add: fails_for_keys_def)

lemma refusal_bind [refusals]:
  "fails_for_keys m \<Longrightarrow> (\<And>a. fails_for_keys (f a)) \<Longrightarrow> fails_for_keys (bindA m f)"
  unfolding fails_for_keys_def bindA_iff by (metis Inl_Inr_False old.sum.inject(1))

lemma refusal_bind_lift:
  "key_refusal r \<Longrightarrow> (\<And>a. r = Inr a \<Longrightarrow> fails_for_keys (f a)) \<Longrightarrow> fails_for_keys (bindA (lift r) f)"
  by (cases r) (simp_all add: fails_for_keys_def bindA_iff)

lemma refusal_drawing [refusals]: "fails_for_keys m \<Longrightarrow> fails_for_keys (drawing m)"
  by (auto simp: fails_for_keys_def drawing_iff)

lemma refusal_fill [refusals]: "fails_for_keys (draw_bytes cy n)"
  by (auto simp: fails_for_keys_def draw_bytes_def split: prod.splits sum.splits)

lemma refusal_parse [refusals]:
  "key_refusal (wrapped_parse bs)" "key_refusal (algorithm_from_str name)"
  "key_refusal (stored_version v)" "key_refusal (read_version i)"
  "key_refusal (encrypt_with cy key aad nonce m)" "key_refusal (aes_decrypt cy key aad sealed)"
  by (simp_all add: wrapped_parse_def algorithm_from_str_def stored_version_def read_version_def
    encrypt_with_def aes_decrypt_def too_short_def Let_def split: option.split)

lemma refusal_cipher [refusals]: "key_refusal (algorithm_cipher cy algorithm key aad)"
  by (cases algorithm) (simp add: aes_new_def)

lemma algorithm_cipher_is:
  "algorithm_cipher cy algorithm key aad = Inr c \<Longrightarrow> length key = KEY_SIZE
    \<and> c = \<lparr>ci_encrypt = aes_encrypt cy key aad, ci_decrypt = aes_decrypt cy key aad, ci_generate_key = random_key cy\<rparr>"
  by (cases algorithm) (simp add: aes_new_def split: if_splits)

lemma refusal_master [refusals]: "key_refusal (pg_master_key cy sv algorithm)"
  by (auto simp: pg_master_key_def master_new_def intro: refusals)

lemma refusal_of_cipher:
  assumes "algorithm_cipher cy algorithm key aad = Inr c"
  shows "fails_for_keys (ci_encrypt c m)" "key_refusal (ci_decrypt c s)" "fails_for_keys (ci_generate_key c)"
  using algorithm_cipher_is [OF assms]
  by (auto simp: aes_encrypt_def random_key_def intro!: refusals)

lemma refusal_master_wrap [refusals]:
  "fails_for_keys (master_wrap cy mk name key)" "key_refusal (master_unwrap cy mk name w)"
proof -
  have c: "key_refusal (master_cipher cy mk name)"
    unfolding master_cipher_def by (rule refusal_cipher)
  note of = refusal_of_cipher [OF trans [OF sym [OF master_cipher_def]]]
  show "fails_for_keys (master_wrap cy mk name key)"
    unfolding master_wrap_def wrapped_wrap_def
    by (rule refusal_bind_lift [OF c]) (auto intro!: refusals of(1))
  show "key_refusal (master_unwrap cy mk name w)"
    unfolding master_unwrap_def
    by (rule refusal_and_then [OF c]) (auto simp: wrapped_unwrap_def dest: of(2))
qed

lemma refusal_load [refusals]:
  "key_refusal (signing_key_load cy tenant algorithm version private)"
  by (cases algorithm)
    (auto simp: signing_key_load_def ed_signing_key_def p256_public_def map_ok_def intro!: refusals
      split: option.splits)

lemma signing_key_load_fields:
  "signing_key_load cy tenant algorithm version private = Inr k
    \<Longrightarrow> sk_tenant k = tenant \<and> sk_algorithm k = algorithm \<and> sk_version k = version \<and> sk_private k = private"
  by (auto simp: signing_key_load_def and_then_Inr_iff)

lemma generated:
  assumes "signing_key_generate cy tenant algorithm version g = Some y"
  shows "case fst y of Inl e \<Rightarrow> of_the_keys e
     | Inr k \<Rightarrow> sk_tenant k = tenant \<and> sk_algorithm k = algorithm \<and> sk_version k = version"
proof (rule signing_key_generate.raw_induct [OF _ assms])
  fix generate cy tenant algorithm version and g :: 'a and y
  assume 1: "\<And>cy tenant algorithm version g y. generate cy tenant algorithm version g = Some y \<Longrightarrow>
      case fst y of Inl e \<Rightarrow> of_the_keys e
      | Inr k \<Rightarrow> sk_tenant k = tenant \<and> sk_algorithm k = algorithm \<and> sk_version k = version"
    and 2: "(case draw_bytes cy 32 g of
       None \<Rightarrow> None
     | Some (Inl e, g1) \<Rightarrow> Some (Inl e, g1)
     | Some (Inr seed, g1) \<Rightarrow>
         (case signing_key_from_seed cy tenant algorithm version seed of
            Inr key \<Rightarrow> Some (Inr key, g1)
          | Inl _ \<Rightarrow> generate cy tenant algorithm version g1)) = Some y"
  have no: "of_the_keys e" if "draw_bytes cy 32 g = Some (Inl e, g1)" for e g1
    using refusal_fill [of cy 32] that unfolding fails_for_keys_def by blast
  obtain r g1 where f: "draw_bytes cy 32 g = Some (r, g1)"
    using 2 by (cases "draw_bytes cy 32 g") auto
  show "case fst y of Inl e \<Rightarrow> of_the_keys e | Inr k \<Rightarrow> sk_tenant k = tenant \<and> sk_algorithm k = algorithm \<and> sk_version k = version"
  proof (cases r)
    case (Inl e) then show ?thesis using 2 f no by auto
  next
    case (Inr seed)
    show ?thesis
    proof (cases "signing_key_load cy tenant algorithm version seed")
      case (Inl e)
      then show ?thesis using 1 [of cy tenant algorithm version g1] 2 f Inr
        by (simp add: signing_key_from_seed_def)
    next
      case (Inr k)
      then show ?thesis using 2 f \<open>r = Inr seed\<close> signing_key_load_fields [OF Inr]
        by (auto simp: signing_key_from_seed_def)
    qed
  qed
qed

subsection \<open>Signing keys over PostgreSQL\<close>

lemma refusal_of: "fails_for_keys m \<Longrightarrow> m g = Some (Inl e, g1) \<Longrightarrow> of_the_keys e"
  by (auto simp: fails_for_keys_def)

lemma save_signing_grows:
  assumes save: "pg_save_signing cy sv key st = Some (r, st1)"
    and ring: "row_ring (sk_tenant key, sa_as_str (sk_algorithm key)) (tb_signing st) k"
    and room: "latest_of k < INTEGER_MAX" and ver: "sk_version key = of_nat (Suc (latest_of k))"
  shows "(\<exists>e. r = Inl e \<and> of_the_keys e \<and> tb_signing st1 = tb_signing st)
    \<or> r = Inr () \<and> row_ring (sk_tenant key, sa_as_str (sk_algorithm key)) (tb_signing st1) (grown k)"
proof -
  have v: "stored_version (sk_version key) = Inr (int (Suc (latest_of k)))"
    unfolding ver using room by (intro stored_version_of_nat) simp
  consider e where "pg_master_key cy sv (sv_algorithm sv) = Inl e" "r = Inl e" "st1 = st"
    | mk e g where "master_wrap cy mk (signing_key_name key) (sk_private key) (tb_random st) = Some (Inl e, g)"
        "r = Inl e" "st1 = st\<lparr>tb_random := g\<rparr>"
    | w g where "put_signing_rows (insert_row
        \<lparr>kr_id = (sk_tenant key, sa_as_str (sk_algorithm key)), kr_version = int (Suc (latest_of k)),
          kr_sealed = wrapped_to_bytes w, kr_master = algorithm_as_str (sv_algorithm sv),
          kr_public = pk_bytes (sk_public key)\<rparr>) (st\<lparr>tb_random := g\<rparr>) = Some (r, st1)"
    using save unfolding pg_save_signing_def bindA_iff drawing_iff by (auto simp: v)
  then show ?thesis
  proof cases
    case 1
    then show ?thesis using refusal_master [of cy sv "sv_algorithm sv"] by simp
  next
    case 2
    then show ?thesis using refusal_of [OF refusal_master_wrap(1)] by fastforce
  next
    case 3
    then show ?thesis
      using row_ring_new [of "\<lparr>kr_id = (sk_tenant key, sa_as_str (sk_algorithm key)), kr_version = int (Suc (latest_of k)),
          kr_sealed = wrapped_to_bytes w, kr_master = algorithm_as_str (sv_algorithm sv),
          kr_public = pk_bytes (sk_public key)\<rparr>" "tb_signing st" k] ring room
      by (auto simp: put_rows_iff)
  qed
qed

lemma make_signing_grows:
  assumes make: "pg_make_signing cy sv tenant algorithm (of_nat (Suc (latest_of k))) st = Some (r, st1)"
    and ring: "row_ring (tenant, sa_as_str algorithm) (tb_signing st) k" and room: "latest_of k < INTEGER_MAX"
  shows "(\<exists>e. r = Inl e \<and> of_the_keys e \<and> tb_signing st1 = tb_signing st)
    \<or> (\<exists>key. r = Inr key \<and> sk_version key = of_nat (Suc (latest_of k))
        \<and> row_ring (tenant, sa_as_str algorithm) (tb_signing st1) (grown k))"
proof -
  consider e g where "signing_key_generate cy tenant algorithm (of_nat (Suc (latest_of k))) (tb_random st) = Some (Inl e, g)"
      "r = Inl e" "st1 = st\<lparr>tb_random := g\<rparr>"
    | key g r2 where "signing_key_generate cy tenant algorithm (of_nat (Suc (latest_of k))) (tb_random st) = Some (Inr key, g)"
      "pg_save_signing cy sv key (st\<lparr>tb_random := g\<rparr>) = Some (r2, st1)" "r = map_ok (\<lambda>_. key) r2"
    using make unfolding pg_make_signing_def bindA_iff drawing_iff by (fastforce simp: map_ok_def)
  then show ?thesis
  proof cases
    case 1
    then show ?thesis using generated by fastforce
  next
    case 2
    have "sk_tenant key = tenant" "sk_algorithm key = algorithm" "sk_version key = of_nat (Suc (latest_of k))"
      using generated [OF 2(1)] by auto
    then show ?thesis using save_signing_grows [OF 2(2), of k] ring room 2(3)
      by (auto simp: map_ok_def)
  qed
qed

subsection \<open>MAC keys over PostgreSQL\<close>

lemma save_mac_grows:
  assumes save: "pg_save_mac cy sv key st = Some (r, st1)"
    and ring: "row_ring (mc_tenant key, mc_purpose key) (tb_mac st) k"
    and room: "latest_of k < INTEGER_MAX" and ver: "mc_version key = of_nat (Suc (latest_of k))"
  shows "(\<exists>e. r = Inl e \<and> of_the_keys e \<and> tb_mac st1 = tb_mac st)
    \<or> r = Inr () \<and> row_ring (mc_tenant key, mc_purpose key) (tb_mac st1) (grown k)"
proof -
  have v: "stored_version (mc_version key) = Inr (int (Suc (latest_of k)))"
    unfolding ver using room by (intro stored_version_of_nat) simp
  consider e where "pg_master_key cy sv (sv_algorithm sv) = Inl e" "r = Inl e" "st1 = st"
    | mk e g where "master_wrap cy mk (mac_key_name key) (mc_key key) (tb_random st) = Some (Inl e, g)"
        "r = Inl e" "st1 = st\<lparr>tb_random := g\<rparr>"
    | w g where "put_mac_rows (insert_row
        \<lparr>kr_id = (mc_tenant key, mc_purpose key), kr_version = int (Suc (latest_of k)),
          kr_sealed = wrapped_to_bytes w, kr_master = algorithm_as_str (sv_algorithm sv)\<rparr>)
        (st\<lparr>tb_random := g\<rparr>) = Some (r, st1)"
    using save unfolding pg_save_mac_def bindA_iff drawing_iff by (auto simp: v)
  then show ?thesis
  proof cases
    case 1
    then show ?thesis using refusal_master [of cy sv "sv_algorithm sv"] by simp
  next
    case 2
    then show ?thesis using refusal_of [OF refusal_master_wrap(1)] by fastforce
  next
    case 3
    then show ?thesis
      using row_ring_new [of "\<lparr>kr_id = (mc_tenant key, mc_purpose key), kr_version = int (Suc (latest_of k)),
          kr_sealed = wrapped_to_bytes w, kr_master = algorithm_as_str (sv_algorithm sv)\<rparr>" "tb_mac st" k] ring room
      by (auto simp: put_rows_iff)
  qed
qed

lemma mac_generated:
  "mac_key_generate cy tenant purpose version g = Some (r, g1) \<Longrightarrow>
    (case r of Inl e \<Rightarrow> of_the_keys e
     | Inr k \<Rightarrow> mc_tenant k = tenant \<and> mc_purpose k = purpose \<and> mc_version k = version)"
  using refusal_of [OF refusal_fill, of cy 32]
  by (auto simp: mac_key_generate_def mac_key_load_def bindA_iff ret_def)

lemma make_mac_grows:
  assumes make: "pg_make_mac cy sv tenant purpose (of_nat (Suc (latest_of k))) st = Some (r, st1)"
    and ring: "row_ring (tenant, purpose) (tb_mac st) k" and room: "latest_of k < INTEGER_MAX"
  shows "(\<exists>e. r = Inl e \<and> of_the_keys e \<and> tb_mac st1 = tb_mac st)
    \<or> (\<exists>key. r = Inr key \<and> mc_version key = of_nat (Suc (latest_of k))
        \<and> row_ring (tenant, purpose) (tb_mac st1) (grown k))"
proof -
  consider e g where "mac_key_generate cy tenant purpose (of_nat (Suc (latest_of k))) (tb_random st) = Some (Inl e, g)"
      "r = Inl e" "st1 = st\<lparr>tb_random := g\<rparr>"
    | key g r2 where "mac_key_generate cy tenant purpose (of_nat (Suc (latest_of k))) (tb_random st) = Some (Inr key, g)"
      "pg_save_mac cy sv key (st\<lparr>tb_random := g\<rparr>) = Some (r2, st1)" "r = map_ok (\<lambda>_. key) r2"
    using make unfolding pg_make_mac_def bindA_iff drawing_iff by (fastforce simp: map_ok_def)
  then show ?thesis
  proof cases
    case 1
    then show ?thesis using mac_generated [OF 1(1)] by simp
  next
    case 2
    then show ?thesis using mac_generated [OF 2(1)] save_mac_grows [OF 2(2), of k] ring room
      by (auto simp: map_ok_def)
  qed
qed


section \<open>A table as a keeper of keyrings\<close>

text \<open>
  The signing keys and the MAC keys of \<open>pg.rs\<close> are kept alike: the latest version is read under the lock,
  and a key is made, or rows are deleted. The locale is what they share; its sublocale is the contract.
\<close>

lemma bindA_lift_Inr [simp]: "bindA (lift (Inr a)) f = f a"
  by (rule ext) (simp add: bindA_def)

definition optional :: "('g, 'a) act \<Rightarrow> ('g, 'a option) act" where
  "optional m = bindA m (\<lambda>a. ret (Some a))"

definition silent :: "('g, 'a) act \<Rightarrow> ('g, 'b option) act" where
  "silent m = bindA m (\<lambda>_. ret None)"

lemma optional_iff: "optional m st = Some (r, st1) \<longleftrightarrow> (\<exists>r1. m st = Some (r1, st1) \<and> r = map_ok Some r1)"
  by (cases "m st") (auto simp: optional_def bindA_def split: sum.splits prod.splits)

lemma silent_iff: "silent m st = Some (r, st1) \<longleftrightarrow> (\<exists>r1. m st = Some (r1, st1) \<and> r = map_ok (\<lambda>_. None) r1)"
  by (cases "m st") (auto simp: silent_def bindA_def split: sum.splits prod.splits)

locale row_keeper =
  fixes step :: "custody_call \<Rightarrow> ('g pg_keys, u32 option) act"
    and tab :: "'g pg_keys \<Rightarrow> ('id, 'x) key_row_scheme list" and i :: 'id
    and lat :: "('g pg_keys, u32 option) act" and mk :: "u32 \<Rightarrow> ('g pg_keys, 'k) act"
    and ver :: "'k \<Rightarrow> u32"
    and change :: "(('id, 'x) key_row_scheme list \<Rightarrow> ('id, 'x) key_row_scheme list) \<Rightarrow> ('g pg_keys, unit) act"
    and missing :: kms_error
  assumes lat: "lat st = Some (latest_version i (tab st), st)"
    and change: "change f st = Some (u, st1) \<Longrightarrow> u = Inr () \<and> tab st1 = f (tab st)"
    and random: "tab (st\<lparr>tb_random := g\<rparr>) = tab st"
    and grows: "\<lbrakk>mk (of_nat (Suc (latest_of k))) st = Some (r, st1); row_ring i (tab st) k;
        latest_of k < INTEGER_MAX\<rbrakk>
      \<Longrightarrow> (\<exists>e. r = Inl e \<and> of_the_keys e \<and> tab st1 = tab st)
        \<or> (\<exists>key. r = Inr key \<and> ver key = of_nat (Suc (latest_of k)) \<and> row_ring i (tab st1) (grown k))"
    and create: "step Create_key = optional (pg_scope (bindA lat (\<lambda>latest. case latest of
        Some v \<Rightarrow> ret v | None \<Rightarrow> bindA (mk 1) (\<lambda>_. ret 1))))"
    and rotate: "step Rotate_key = optional (pg_scope (bindA lat (\<lambda>found.
        bindA (lift (existing missing (Inr found))) (\<lambda>latest.
        bindA (mk (latest + 1)) (\<lambda>key. ret (ver key))))))"
    and retire: "step (Retire_before v) = silent (pg_scope (bindA lat (\<lambda>found.
        bindA (lift (existing missing (Inr found))) (\<lambda>latest.
        bindA (lift (retirement v latest)) (\<lambda>w. change (delete_below i w))))))"
    and delete: "step Delete_key = silent (change (delete_all i))"
begin

lemma lat_ring:
  "row_ring i (tab st) k
    \<Longrightarrow> lat st = Some (Inr (case k of None \<Rightarrow> None | Some (low, high) \<Rightarrow> Some (of_nat high)), st)"
  by (simp add: lat row_ring_latest)

lemma created:
  assumes "row_ring i (tab st) k" "latest_of k < INTEGER_MAX" "step Create_key st = Some (r, st1)"
  shows "(r = fst (spec_step missing Create_key k) \<and> row_ring i (tab st1) (snd (spec_step missing Create_key k)))
    \<or> (\<exists>e. r = Inl e \<and> of_the_keys e \<and> row_ring i (tab st1) k)"
proof (cases k)
  case None
  then show ?thesis using assms grows [of None st]
    by (fastforce simp: create optional_iff pg_scope_iff bindA_iff lat_ring [OF assms(1)] latest_of_def grown_def random)
next
  case (Some p)
  then show ?thesis using assms
    by (cases p) (auto simp: create optional_iff pg_scope_iff bindA_iff lat_ring [OF assms(1)])
qed

lemma rotated_row:
  assumes "row_ring i (tab st) k" "latest_of k < INTEGER_MAX" "step Rotate_key st = Some (r, st1)"
  shows "(r = fst (spec_step missing Rotate_key k) \<and> row_ring i (tab st1) (snd (spec_step missing Rotate_key k)))
    \<or> (\<exists>e. r = Inl e \<and> of_the_keys e \<and> row_ring i (tab st1) k)"
proof (cases k)
  case None
  then show ?thesis using assms
    by (auto simp: rotate optional_iff pg_scope_iff bindA_iff lat_ring [OF assms(1)] existing_def random)
next
  case (Some p)
  obtain low high where k: "k = Some (low, high)" using Some by (cases p) auto
  show ?thesis using assms(3) grows [of k st] assms(1,2)
    by (fastforce simp: rotate optional_iff pg_scope_iff bindA_iff lat_ring [OF assms(1)] existing_def random k
      latest_of_def grown_def add.commute)
qed

lemma retired_row:
  assumes "row_ring i (tab st) k" "step (Retire_before v) st = Some (r, st1)"
  shows "r = fst (spec_step missing (Retire_before v) k)
    \<and> row_ring i (tab st1) (snd (spec_step missing (Retire_before v) k))"
proof (cases k)
  case None
  then show ?thesis using assms
    by (auto simp: retire silent_iff pg_scope_iff bindA_iff lat_ring [OF assms(1)] existing_def random)
next
  case (Some p)
  obtain low high where k: "k = Some (low, high)" using Some by (cases p) auto
  then have b: "high \<le> INTEGER_MAX" using assms(1) by (simp add: row_ring_def)
  show ?thesis using assms row_ring_retired [of i "tab st" low high "unat v"]
    by (auto simp: retire silent_iff pg_scope_iff bindA_iff lat_ring [OF assms(1)] existing_def random k
      retirement_bound [OF b] dest!: change split: if_splits)
qed

lemma deleted_row:
  assumes "step Delete_key st = Some (r, st1)"
  shows "r = fst (spec_step missing Delete_key k) \<and> row_ring i (tab st1) (snd (spec_step missing Delete_key k))"
  using assms by (auto simp: delete silent_iff row_ring_deleted dest!: change)

end

sublocale row_keeper \<subseteq> keyring_custody step "\<lambda>st. row_ring i (tab st)" INTEGER_MAX missing
proof
  fix st k c r st1
  assume "row_ring i (tab st) k" "latest_of k < INTEGER_MAX" "step c st = Some (r, st1)"
  then show "(r = fst (spec_step missing c k) \<and> row_ring i (tab st1) (snd (spec_step missing c k)))
      \<or> (\<exists>e. r = Inl e \<and> of_the_keys e \<and> row_ring i (tab st1) k)"
    by (cases c) (auto dest: created rotated_row retired_row deleted_row)
qed

subsection \<open>The signing keys\<close>

fun signing_custody :: "'g crypto \<Rightarrow> pg_service \<Rightarrow> string \<Rightarrow> signature_algorithm \<Rightarrow> custody_call
    \<Rightarrow> ('g pg_keys, u32 option) act" where
  "signing_custody cy sv tenant a Create_key = optional (pg_create_signing cy sv tenant a \<lparr>ko_auto_rotate = None\<rparr>)"
| "signing_custody cy sv tenant a Rotate_key = optional (pg_rotate_signing cy sv tenant a)"
| "signing_custody cy sv tenant a (Retire_before v) = silent (pg_retire_signing tenant a v)"
| "signing_custody cy sv tenant a Delete_key = silent (pg_delete_signing tenant a)"

interpretation pg_signing: row_keeper "signing_custody cy sv tenant a" tb_signing "(tenant, sa_as_str a)"
    "latest_signing tenant a" "pg_make_signing cy sv tenant a" sk_version
    "\<lambda>f. put_signing_rows (\<lambda>rows. Inr (f rows))" "SigningKeyNotFound tenant a"
  by unfold_locales
    (auto simp: latest_signing_def put_rows_iff pg_create_signing_def pg_no_scheduler_def pg_rotate_signing_def
      pg_retire_signing_def pg_delete_signing_def simp del: of_nat_Suc dest: make_signing_grows)

subsection \<open>The MAC keys\<close>

fun mac_custody :: "'g crypto \<Rightarrow> pg_service \<Rightarrow> string \<Rightarrow> string \<Rightarrow> custody_call \<Rightarrow> ('g pg_keys, u32 option) act" where
  "mac_custody cy sv tenant p Create_key = optional (pg_create_mac cy sv tenant p \<lparr>ko_auto_rotate = None\<rparr>)"
| "mac_custody cy sv tenant p Rotate_key = optional (pg_rotate_mac cy sv tenant p)"
| "mac_custody cy sv tenant p (Retire_before v) = silent (pg_retire_mac tenant p v)"
| "mac_custody cy sv tenant p Delete_key = silent (pg_delete_mac tenant p)"

interpretation pg_mac: row_keeper "mac_custody cy sv tenant p" tb_mac "(tenant, p)"
    "latest_mac tenant p" "pg_make_mac cy sv tenant p" mc_version
    "\<lambda>f. put_mac_rows (\<lambda>rows. Inr (f rows))" "MacKeyNotFound tenant p"
  by unfold_locales
    (auto simp: latest_mac_def put_rows_iff pg_create_mac_def pg_no_scheduler_def pg_rotate_mac_def
      pg_retire_mac_def pg_delete_mac_def simp del: of_nat_Suc dest: make_mac_grows)

end
