(* ===== verification/Kms_Kek_Keeper.thy ===== *)
theory Kms_Kek_Keeper
  imports Kms_Keepers
begin

section \<open>The KEKs and the rings in memory as keepers\<close>

text \<open>
  The KEKs of a tenant as a keyring of \<open>Kms_Custody\<close>, with the bytes a wrapped key is bound by, and the rows
  of the table that an operation spares.
\<close>

subsection \<open>The KEKs\<close>

text \<open>The latest KEK is loaded, not only its version read: what cannot be loaded cannot be rotated.\<close>

fun kek_custody :: "'g crypto \<Rightarrow> pg_service \<Rightarrow> string \<Rightarrow> custody_call \<Rightarrow> ('g pg_keys, u32 option) act" where
  "kek_custody cy sv tenant Create_key = optional (pg_create_kek cy sv tenant None)"
| "kek_custody cy sv tenant Rotate_key = optional (pg_rotate_kek cy sv tenant)"
| "kek_custody cy sv tenant (Retire_before v) = silent (pg_retire_keks tenant v)"
| "kek_custody cy sv tenant Delete_key = silent (pg_delete_kek tenant)"

lemma refusal_kek_new [refusals]: "key_refusal (kek_new cy tenant context version algorithm key w)"
  by (auto simp: kek_new_def intro!: refusals)

lemma kek_new_fields:
  "kek_new cy tenant context version algorithm key w = Inr k
    \<Longrightarrow> ke_tenant k = tenant \<and> ke_context k = context \<and> ke_version k = version"
  by (auto simp: kek_new_def and_then_Inr_iff)

lemma refusal_load_kek [refusals]: "key_refusal (pg_load_kek cy sv tenant row)"
  unfolding pg_load_kek_def load_kek_def by (intro refusals)

lemma load_kek_fields:
  "pg_load_kek cy sv tenant row = Inr k \<Longrightarrow> ke_tenant k = tenant \<and> Inr (ke_version k) = read_version (kr_version row)"
  by (auto simp: pg_load_kek_def load_kek_def and_then_Inr_iff dest: kek_new_fields)

lemma refusal_make_kek [refusals]: "fails_for_keys (make_kek cy mk tenant context version)"
proof -
  have c: "key_refusal (master_cipher cy mk tenant)"
    unfolding master_cipher_def by (rule refusal_cipher)
  note of = refusal_of_cipher [OF trans [OF sym [OF master_cipher_def]]]
  show ?thesis
    unfolding make_kek_def wrapped_wrap_def
    by (rule refusal_bind_lift [OF c]) (auto intro!: refusals of)
qed

lemma make_kek_fields:
  "make_kek cy mk tenant context version g = Some (Inr k, g1) \<Longrightarrow> ke_tenant k = tenant \<and> ke_version k = version"
  by (auto simp: make_kek_def bindA_iff dest!: kek_new_fields)

lemma save_kek_grows:
  assumes save: "pg_save_kek sv k st = Some (r, st1)" and ring: "row_ring (ke_tenant k) (tb_keks st) n"
    and room: "latest_of n < INTEGER_MAX" and ver: "ke_version k = of_nat (Suc (latest_of n))"
  shows "r = Inr () \<and> row_ring (ke_tenant k) (tb_keks st1) (grown n)"
proof -
  have v: "stored_version (ke_version k) = Inr (int (Suc (latest_of n)))"
    unfolding ver using room by (intro stored_version_of_nat) simp
  show ?thesis
    using save row_ring_new [of "\<lparr>kr_id = ke_tenant k, kr_version = int (Suc (latest_of n)),
      kr_sealed = wrapped_to_bytes (ke_wrapped k), kr_master = algorithm_as_str (sv_algorithm sv),
      kr_algorithm = algorithm_as_str (ke_algorithm k)\<rparr>" "tb_keks st" n] ring room
    by (auto simp: pg_save_kek_def v put_rows_iff)
qed

lemma drawn_kek_grows:
  assumes draw: "bindA (lift (pg_master_key cy sv (sv_algorithm sv))) (\<lambda>mk.
      bindA (drawing (made mk)) (\<lambda>k. bindA (pg_save_kek sv k) (\<lambda>_. f k))) st = Some (r, st1)"
    and made: "\<And>mk g r g1. made mk g = Some (r, g1) \<Longrightarrow> (case r of Inl e \<Rightarrow> of_the_keys e
      | Inr k \<Rightarrow> ke_tenant k = tenant \<and> ke_version k = of_nat (Suc (latest_of n)))"
    and ring: "row_ring tenant (tb_keks st) n" and room: "latest_of n < INTEGER_MAX"
  shows "(\<exists>e. r = Inl e \<and> of_the_keys e \<and> tb_keks st1 = tb_keks st)
    \<or> (\<exists>k st2. ke_version k = of_nat (Suc (latest_of n)) \<and> row_ring tenant (tb_keks st2) (grown n)
        \<and> f k st2 = Some (r, st1))"
proof -
  consider e where "pg_master_key cy sv (sv_algorithm sv) = Inl e" "r = Inl e" "st1 = st"
    | mk e g where "made mk (tb_random st) = Some (Inl e, g)" "r = Inl e" "st1 = st\<lparr>tb_random := g\<rparr>"
    | mk k g e where "made mk (tb_random st) = Some (Inr k, g)"
        "pg_save_kek sv k (st\<lparr>tb_random := g\<rparr>) = Some (Inl e, st1)" "r = Inl e"
    | mk k g st2 where "made mk (tb_random st) = Some (Inr k, g)"
        "pg_save_kek sv k (st\<lparr>tb_random := g\<rparr>) = Some (Inr (), st2)" "f k st2 = Some (r, st1)"
    using draw unfolding bindA_iff drawing_iff by fastforce
  then show ?thesis
  proof cases
    case 1
    then show ?thesis using refusal_master [of cy sv "sv_algorithm sv"] by simp
  next
    case 2
    then show ?thesis using made [OF 2(1)] by simp
  next
    case 3
    then show ?thesis using made [OF 3(1)] save_kek_grows [OF 3(2), of n] ring room by auto
  next
    case 4
    then show ?thesis using made [OF 4(1)] save_kek_grows [OF 4(2), of n] ring room by auto
  qed
qed

lemma current_kek_ring:
  assumes "row_ring tenant (tb_keks st) n" "pg_current_kek cy sv tenant st = Some (r, st1)"
  shows "st1 = st \<and> (case r of
      Inl e \<Rightarrow> (n = None \<and> e = KekNotFound tenant None) \<or> (n \<noteq> None \<and> of_the_keys e)
    | Inr k \<Rightarrow> n \<noteq> None \<and> ke_tenant k = tenant \<and> ke_version k = of_nat (latest_of n))"
proof (cases n)
  case None
  then have "rows_of tenant (tb_keks st) = []" using assms(1) by (simp add: row_ring_def versions_in_def)
  then show ?thesis using assms(2) None by (auto simp: pg_current_kek_def)
next
  case (Some p)
  obtain low high where n: "n = Some (low, high)" using Some by (cases p) auto
  then obtain row where row: "highest (rows_of tenant (tb_keks st)) = Some row"
      "read_version (kr_version row) = Inr (of_nat high)"
    using row_ring_latest [OF assms(1)] by (auto simp: latest_version_def split: option.splits)
  show ?thesis
    using assms(2) row n load_kek_fields [of cy sv tenant row] refusal_load_kek [of cy sv tenant row]
    by (auto simp: pg_current_kek_def latest_of_def split: sum.splits)
qed

lemma made_kek:
  assumes "make_kek cy mk tenant context version g = Some (r, g1)"
  shows "case r of Inl e \<Rightarrow> of_the_keys e | Inr k \<Rightarrow> ke_tenant k = tenant \<and> ke_version k = version"
proof (cases r)
  case (Inl e)
  then show ?thesis using refusal_of [OF refusal_make_kek] assms by fastforce
next
  case (Inr k)
  then show ?thesis using make_kek_fields assms by fastforce
qed

lemma first_kek_drawn:
  assumes "n = None" "generate_kek cy mk tenant context g = Some (r, g1)"
  shows "case r of Inl e \<Rightarrow> of_the_keys e
    | Inr k \<Rightarrow> ke_tenant k = tenant \<and> ke_version k = of_nat (Suc (latest_of n))"
  using made_kek [of cy mk tenant "context" 1 g r g1] assms
  by (simp add: generate_kek_def latest_of_def split: sum.splits)

lemma next_kek_drawn:
  assumes "ke_tenant k = tenant" "ke_version k = of_nat (latest_of n)" "rotate_master_kek cy mk k g = Some (r, g1)"
  shows "case r of Inl e \<Rightarrow> of_the_keys e
    | Inr k1 \<Rightarrow> ke_tenant k1 = tenant \<and> ke_version k1 = of_nat (Suc (latest_of n))"
proof (cases "ke_version k = - 1")
  case True
  then show ?thesis using assms(3) by (auto simp: rotate_master_kek_def)
next
  case False
  then show ?thesis using assms made_kek [of cy mk tenant "ke_context k" "ke_version k + 1" g r g1]
    by (simp add: rotate_master_kek_def add.commute split: sum.splits)
qed

text \<open>The keeper of the KEKs.\<close>

lemma first_kek_grows:
  assumes "pg_first_kek cy sv tenant st = Some (r, st1)" "row_ring tenant (tb_keks st) None"
  shows "(\<exists>e. r = Inl e \<and> of_the_keys e \<and> tb_keks st1 = tb_keks st)
    \<or> (\<exists>k. r = Inr k \<and> ke_version k = 1 \<and> row_ring tenant (tb_keks st1) (Some (1, 1)))"
proof -
  have room: "latest_of None < INTEGER_MAX" by (simp add: INTEGER_MAX_def latest_of_def)
  have "(\<exists>e. r = Inl e \<and> of_the_keys e \<and> tb_keks st1 = tb_keks st)
    \<or> (\<exists>k st2. ke_version k = of_nat (Suc (latest_of None)) \<and> row_ring tenant (tb_keks st2) (grown None)
        \<and> ret k st2 = Some (r, st1))"
    by (rule drawn_kek_grows [OF _ first_kek_drawn [OF refl] assms(2) room])
      (rule assms(1) [unfolded pg_first_kek_def])
  then show ?thesis by (auto simp: latest_of_def grown_def)
qed

lemma kek_created:
  assumes "row_ring tenant (tb_keks st) n" "kek_custody cy sv tenant Create_key st = Some (r, st1)"
  shows "(r = fst (spec_step missing Create_key n) \<and> row_ring tenant (tb_keks st1) (snd (spec_step missing Create_key n)))
    \<or> (\<exists>e. r = Inl e \<and> of_the_keys e \<and> row_ring tenant (tb_keks st1) n)"
proof -
  obtain r1 s1 where cur: "pg_current_kek cy sv tenant st = Some (r1, s1)"
    by (simp add: pg_current_kek_def)
  note ring = current_kek_ring [OF assms(1) cur]
  show ?thesis
  proof (cases r1)
    case (Inr k)
    then show ?thesis using assms ring cur
      by (cases n) (auto simp: pg_create_kek_def pg_no_scheduler_def optional_iff pg_scope_iff bindA_iff
        or_not_found_def latest_of_def)
  next
    case (Inl e)
    show ?thesis
    proof (cases n)
      case None
      then have m: "pg_current_kek cy sv tenant st = Some (Inl (KekNotFound tenant None), st)"
        using cur ring Inl by simp
      show ?thesis
        using assms None first_kek_grows [of cy sv tenant st]
        by (fastforce simp: pg_create_kek_def pg_no_scheduler_def optional_iff pg_scope_iff bindA_iff or_not_found_def m)
    next
      case (Some p)
      then have e: "of_the_keys e" "s1 = st" using ring Inl by auto
      then have "or_not_found (pg_current_kek cy sv tenant) f st = Some (Inl e, st)" for f
        using cur Inl by (cases e) (simp_all add: or_not_found_def)
      then show ?thesis
        using assms e by (auto simp: pg_create_kek_def pg_no_scheduler_def optional_iff pg_scope_iff bindA_iff)
    qed
  qed
qed

lemma kek_rotated:
  assumes "row_ring tenant (tb_keks st) n" "latest_of n < INTEGER_MAX"
    "kek_custody cy sv tenant Rotate_key st = Some (r, st1)"
  shows "(r = fst (spec_step (KekNotFound tenant None) Rotate_key n)
        \<and> row_ring tenant (tb_keks st1) (snd (spec_step (KekNotFound tenant None) Rotate_key n)))
    \<or> (\<exists>e. r = Inl e \<and> of_the_keys e \<and> row_ring tenant (tb_keks st1) n)"
proof -
  obtain r1 s1 where cur: "pg_current_kek cy sv tenant st = Some (r1, s1)"
    by (simp add: pg_current_kek_def)
  note ring = current_kek_ring [OF assms(1) cur]
  show ?thesis
  proof (cases r1)
    case (Inl e)
    then show ?thesis using assms ring cur
      by (auto simp: pg_rotate_kek_def optional_iff pg_scope_iff bindA_iff)
  next
    case (Inr k)
    then have k: "n \<noteq> None" "ke_tenant k = tenant" "ke_version k = of_nat (latest_of n)" "s1 = st"
      using ring by auto
    then obtain low high where n: "n = Some (low, high)" by (cases n) auto
    define drawn where "drawn = bindA (lift (pg_master_key cy sv (sv_algorithm sv))) (\<lambda>mk.
      bindA (drawing (rotate_master_kek cy mk k)) (\<lambda>k. bindA (pg_save_kek sv k) (\<lambda>_. ret (ke_version k))))"
    have grow: "(\<exists>e. r2 = Inl e \<and> of_the_keys e \<and> tb_keks s2 = tb_keks st)
        \<or> (r2 = Inr (of_nat (Suc (latest_of n))) \<and> row_ring tenant (tb_keks s2) (grown n))"
      if "drawn st = Some (r2, s2)" for r2 s2
      by (rule disjE [OF drawn_kek_grows [OF that [unfolded drawn_def] _ assms(1,2)]])
        (erule next_kek_drawn [OF k(2,3)], auto)
    have "pg_rotate_kek cy sv tenant st = pg_scope drawn st"
      using cur Inr k(4) by (simp add: pg_rotate_kek_def pg_scope_def bindA_def [of "pg_current_kek cy sv tenant"] drawn_def)
    then show ?thesis
      using assms(1,3) n by (auto simp: optional_iff pg_scope_iff latest_of_def grown_def dest!: grow)
  qed
qed

interpretation pg_kek: keyring_custody "kek_custody cy sv tenant" "\<lambda>st. row_ring tenant (tb_keks st)"
    INTEGER_MAX "KekNotFound tenant None"
proof
  fix st k c r st1
  assume a: "row_ring tenant (tb_keks st) k" "latest_of k < INTEGER_MAX" "kek_custody cy sv tenant c st = Some (r, st1)"
  note lat = row_ring_latest [OF a(1)]
  show "(r = fst (spec_step (KekNotFound tenant None) c k)
        \<and> row_ring tenant (tb_keks st1) (snd (spec_step (KekNotFound tenant None) c k)))
      \<or> (\<exists>e. r = Inl e \<and> of_the_keys e \<and> row_ring tenant (tb_keks st1) k)"
  proof (cases c)
    case Create_key then show ?thesis using kek_created a by blast
  next
    case Rotate_key then show ?thesis using kek_rotated a by blast
  next
    case Delete_key then show ?thesis using a
      by (auto simp: silent_iff pg_delete_kek_def put_rows_iff row_ring_deleted)
  next
    case (Retire_before v)
    show ?thesis
    proof (cases k)
      case None
      then show ?thesis using a Retire_before
        by (auto simp: silent_iff pg_retire_keks_def pg_scope_iff bindA_iff lat existing_def)
    next
      case (Some p)
      obtain low high where k: "k = Some (low, high)" using Some by (cases p) auto
      then have b: "high \<le> INTEGER_MAX" using a(1) by (simp add: row_ring_def)
      show ?thesis
        using a Retire_before row_ring_retired [of tenant "tb_keks st" low high "unat v"]
        by (auto simp: silent_iff pg_retire_keks_def pg_scope_iff bindA_iff lat existing_def k retirement_bound [OF b]
          put_rows_iff split: if_splits)
    qed
  qed
qed


section \<open>What wrapping promises\<close>

text \<open>
  Of the libraries of the primitives the service relies on three things: what fills bytes fills as many
  as asked, what the cipher seals it opens under the same key, nonce and data, and what it seals it
  opens under no other data. With them a wrapped key opens for as long as the version it names is
  there, whatever the other calls, and for its tenant and its context only.
\<close>

definition faithful_crypto :: "'g crypto \<Rightarrow> bool" where
  "faithful_crypto cy \<longleftrightarrow>
    (\<forall>n g b g1. cy_fill cy n g = (Inr b, g1) \<longrightarrow> length b = n) \<and>
    (\<forall>key n aad m c. cy_seal cy key n aad m = Some c \<longrightarrow> TAG_SIZE \<le> length c \<and> cy_open cy key n aad c = Some m)"

definition binding_crypto :: "'g crypto \<Rightarrow> bool" where
  "binding_crypto cy \<longleftrightarrow> (\<forall>key key1 n aad aad1 m m1 c.
    cy_seal cy key n aad m = Some c \<longrightarrow> cy_open cy key1 n aad1 c = Some m1 \<longrightarrow> aad1 = aad)"

subsection \<open>Bytes\<close>

lemma to_be_bytes_length [simp]: "length (to_be_bytes v) = 4"
  by (simp add: to_be_bytes_def)

lemma bytes_of_u32:
  "to_be_bytes v = [word_of_nat (unat v div 16777216), word_of_nat (unat v div 65536),
    word_of_nat (unat v div 256), word_of_nat (unat v)]"
  by (simp add: to_be_bytes_def)

lemma from_to_be_bytes [simp]: "from_be_bytes (to_be_bytes v) = v"
proof -
  have u: "unat (word_of_nat n :: 8 word) = n mod 256" for n
    by (simp add: unat_of_nat take_bit_eq_mod)
  let ?n = "unat v"
  have "?n < 4294967296" using unsigned_less [of v] by simp
  then have "?n div 16777216 mod 256 = ?n div 16777216" by simp
  moreover have "?n div 16777216 * 256 + ?n div 65536 mod 256 = ?n div 65536"
    using div_mult_mod_eq [of "?n div 65536" 256] by (simp add: div_mult2_eq [symmetric])
  moreover have "?n div 65536 * 256 + ?n div 256 mod 256 = ?n div 256"
    using div_mult_mod_eq [of "?n div 256" 256] by (simp add: div_mult2_eq [symmetric])
  moreover have "?n div 256 * 256 + ?n mod 256 = ?n" by simp
  ultimately have "foldl (\<lambda>n b. n * 256 + unat b) 0 (to_be_bytes v) = ?n"
    by (simp only: bytes_of_u32 foldl.simps u mult_zero_left add_0)
  then show ?thesis by (simp add: from_be_bytes_def)
qed

lemma to_be_bytes_inject: "to_be_bytes v = to_be_bytes w \<longleftrightarrow> v = w"
  using from_to_be_bytes by metis

lemma wrapped_round [simp]: "wrapped_parse (wrapped_to_bytes w) = Inr w"
  by (simp add: wrapped_parse_def wrapped_to_bytes_def VERSION_SIZE_def)

lemma wrapped_inject: "wrapped_to_bytes w = wrapped_to_bytes w1 \<longleftrightarrow> w = w1"
  using wrapped_round by (metis sum.inject(2))

lemma as_bytes_inject: "as_bytes s = as_bytes t \<longleftrightarrow> s = t"
proof -
  have u: "unat (of_char c :: 8 word) = of_char c" for c
  proof -
    have "unat (of_nat (of_char c) :: 8 word) = of_char c mod 256"
      by (simp only: unat_of_nat take_bit_eq_mod) simp
    then show ?thesis by (simp only: of_nat_of_char of_char_mod_256)
  qed
  have "inj (of_char :: char \<Rightarrow> 8 word)"
  proof (rule injI)
    fix c d :: char
    assume "(of_char c :: 8 word) = of_char d"
    then have "unat (of_char c :: 8 word) = unat (of_char d :: 8 word)" by (rule arg_cong)
    then show "c = d" unfolding u of_char_eq_iff .
  qed
  then show ?thesis unfolding as_bytes_def by (rule inj_map_eq_map)
qed

lemma as_bytes_length [simp]: "length (as_bytes s) = length s"
  by (simp add: as_bytes_def)

text \<open>Neither part of what a wrap is bound to runs into the other.\<close>

lemma binding_inject:
  assumes "binding t c = binding t' c'" "length t < 2 ^ 32" "length t' < 2 ^ 32" "(c = None) = (c' = None)"
  shows "t = t' \<and> c = c'"
proof (cases c)
  case None
  then show ?thesis using assms by (simp add: binding_def as_bytes_inject)
next
  case (Some d)
  then obtain d' where d': "c' = Some d'" using assms(4) by auto
  have e: "to_be_bytes (length_u32 (length t)) @ as_bytes t @ as_bytes d
      = to_be_bytes (length_u32 (length t')) @ as_bytes t' @ as_bytes d'"
    using assms(1) Some d' by (simp add: binding_def)
  then have l: "length_u32 (length t) = length_u32 (length t')" and r: "as_bytes t @ as_bytes d = as_bytes t' @ as_bytes d'"
    by (simp_all add: append_eq_append_conv to_be_bytes_inject)
  have "length t = length t'"
    using arg_cong [OF l, of unat] assms(2,3) by (simp add: length_u32_def unat_of_nat take_bit_nat_eq_self)
  then show ?thesis
    using r Some d' by (simp add: append_eq_append_conv as_bytes_inject)
qed

subsection \<open>The cipher\<close>

lemma fill_length: "faithful_crypto cy \<Longrightarrow> draw_bytes cy n g = Some (Inr b, g1) \<Longrightarrow> length b = n"
  by (auto simp: faithful_crypto_def draw_bytes_def split: prod.splits sum.splits)

lemma sealed_opens:
  "faithful_crypto cy \<Longrightarrow> cy_seal cy key n aad m = Some c \<Longrightarrow> \<not> length c < TAG_SIZE \<and> cy_open cy key n aad c = Some m"
  unfolding faithful_crypto_def by (metis not_less)

lemma cipher_opens:
  assumes "faithful_crypto cy" "algorithm_cipher cy a key aad = Inr c" "ci_encrypt c m g = Some (Inr s, g1)"
  shows "ci_decrypt c s = Inr m"
proof -
  have c: "c = \<lparr>ci_encrypt = aes_encrypt cy key aad, ci_decrypt = aes_decrypt cy key aad, ci_generate_key = random_key cy\<rparr>"
    using algorithm_cipher_is [OF assms(2)] by simp
  obtain n g2 x where n: "draw_bytes cy NONCE_SIZE g = Some (Inr n, g2)" and x: "cy_seal cy key n aad m = Some x" "s = n @ x"
    using assms(3) by (auto simp: c aes_encrypt_def bindA_iff encrypt_with_def split: option.splits)
  then show ?thesis
    using fill_length [OF assms(1) n] sealed_opens [OF assms(1) x(1)] by (simp add: c aes_decrypt_def)
qed

lemma cipher_binds:
  assumes "faithful_crypto cy" "binding_crypto cy" "algorithm_cipher cy a key aad = Inr c"
    "ci_encrypt c m g = Some (Inr s, g1)"
    "algorithm_cipher cy a1 key1 aad1 = Inr c1" "ci_decrypt c1 s = Inr m1"
  shows "aad1 = aad"
proof -
  have c: "c = \<lparr>ci_encrypt = aes_encrypt cy key aad, ci_decrypt = aes_decrypt cy key aad, ci_generate_key = random_key cy\<rparr>"
    and c1: "c1 = \<lparr>ci_encrypt = aes_encrypt cy key1 aad1, ci_decrypt = aes_decrypt cy key1 aad1, ci_generate_key = random_key cy\<rparr>"
    using algorithm_cipher_is [OF assms(3)] algorithm_cipher_is [OF assms(5)] by simp_all
  obtain n g2 x where n: "draw_bytes cy NONCE_SIZE g = Some (Inr n, g2)" and x: "cy_seal cy key n aad m = Some x" "s = n @ x"
    using assms(4) by (auto simp: c aes_encrypt_def bindA_iff encrypt_with_def split: option.splits)
  then have "cy_open cy key1 n aad1 x = Some m1"
    using fill_length [OF assms(1) n] assms(6) by (auto simp: c1 aes_decrypt_def Let_def split: if_splits option.splits)
  then show ?thesis using assms(2) x(1) unfolding binding_crypto_def by blast
qed

subsection \<open>A KEK from its row\<close>

lemma kek_cipher_of:
  "pg_load_kek cy sv tenant row = Inr k
    \<Longrightarrow> \<exists>a key. algorithm_cipher cy a key (binding tenant (sv_context sv)) = Inr (ke_cipher k)"
  by (auto simp: pg_load_kek_def load_kek_def kek_new_def and_then_Inr_iff) blast

lemma saved_kek_loads:
  assumes cy: "faithful_crypto cy" and mk: "pg_master_key cy sv (sv_algorithm sv) = Inr mk"
    and made: "make_kek cy mk tenant (sv_context sv) v g = Some (Inr k, g1)" and v: "stored_version v = Inr i"
  shows "\<exists>k1. pg_load_kek cy sv tenant
      \<lparr>kr_id = tenant, kr_version = i, kr_sealed = wrapped_to_bytes (ke_wrapped k),
        kr_master = algorithm_as_str (sv_algorithm sv), kr_algorithm = algorithm_as_str (ke_algorithm k)\<rparr> = Inr k1
    \<and> ke_version k1 = v \<and> ke_cipher k1 = ke_cipher k"
proof -
  have m: "mk_algorithm mk = sv_algorithm sv"
    using mk by (auto simp: pg_master_key_def master_new_def and_then_Inr_iff)
  obtain c key w where c: "master_cipher cy mk tenant = Inr c"
    and w: "\<exists>g. wrapped_wrap MASTER_KEY_VERSION c key g = Some (Inr w, g1)"
    and k: "kek_new cy tenant (sv_context sv) v (mk_algorithm mk) key w = Inr k"
    using made by (auto simp: make_kek_def bindA_iff)
  obtain g2 where "ci_encrypt c key g2 = Some (Inr (wk_sealed w), g1)" and wv: "wk_version w = MASTER_KEY_VERSION"
    using w by (auto simp: wrapped_wrap_def bindA_iff)
  then have un: "master_unwrap cy mk tenant w = Inr key"
    using cipher_opens [OF cy c [unfolded master_cipher_def]] c by (simp add: master_unwrap_def wrapped_unwrap_def)
  have ke: "ke_wrapped k = w" "ke_algorithm k = mk_algorithm mk" "ke_version k = v"
    using k by (auto simp: kek_new_def and_then_Inr_iff)
  have rv: "read_version i = Inr v"
    using v by (auto simp: stored_version_def read_version_def split: if_splits)
  have as: "algorithm_from_str (algorithm_as_str a) = Inr a" for a
    by (cases a) (simp add: algorithm_from_str_def)
  show ?thesis
    using k ke by (simp add: pg_load_kek_def rv as mk load_kek_def un m)
qed


section \<open>How the table of KEKs changes\<close>

text \<open>
  Whatever a call of the service does, the versions of the table stay apart, and a row goes only when its
  version is retired or its tenant's key deleted.
\<close>

datatype kms_call =
    Wrap_dek string bytes
  | New_dek string
  | Rewrap_dek string bytes
  | Open_dek string bytes
  | Kek_custody string custody_call

text \<open>A call through one of the services that share the table, each with its context and its custody.\<close>

fun kms_step :: "'g crypto \<Rightarrow> pg_service \<times> kms_call \<Rightarrow> ('g pg_keys, unit) act" where
  "kms_step cy (sv, Wrap_dek t dek) = bindA (pg_encrypt_dek cy sv t dek) (\<lambda>_. ret ())"
| "kms_step cy (sv, New_dek t) = bindA (pg_generate_dek cy sv t) (\<lambda>_. ret ())"
| "kms_step cy (sv, Rewrap_dek t w) = bindA (pg_rewrap_dek cy sv t w) (\<lambda>_. ret ())"
| "kms_step cy (sv, Open_dek t w) = bindA (pg_decrypt_dek cy sv t w) (\<lambda>_. ret ())"
| "kms_step cy (sv, Kek_custody t c) = bindA (kek_custody cy sv t c) (\<lambda>_. ret ())"

fun destroys :: "string \<Rightarrow> u32 \<Rightarrow> pg_service \<times> kms_call \<Rightarrow> bool" where
  "destroys t v (sv, Kek_custody t1 Delete_key) = (t1 = t)"
| "destroys t v (sv, Kek_custody t1 (Retire_before v1)) = (t1 = t \<and> v < v1)"
| "destroys t v c = False"

definition table_ok :: "('id, 'x) key_row_scheme list \<Rightarrow> bool" where
  "table_ok rows \<longleftrightarrow> distinct (map (\<lambda>r. (kr_id r, kr_version r)) rows)
    \<and> (\<forall>r\<in>set rows. kr_version r < 2 ^ 31)"

lemma table_ok_row:
  assumes "table_ok rows" "r \<in> set rows"
  shows "row_of_version (kr_id r) (kr_version r) rows = Some r"
proof -
  have "s = r" if "s \<in> set rows" "kr_id s = kr_id r" "kr_version s = kr_version r" for s
    using assms that unfolding table_ok_def distinct_map inj_on_def by simp
  then show ?thesis
    using assms(2) unfolding row_of_version_def rows_of_def
    by (induction rows) auto
qed

subsection \<open>Acts that spare rows\<close>

definition spares_rows :: "(kek_row \<Rightarrow> bool) \<Rightarrow> ('g pg_keys, 'a) act \<Rightarrow> bool" where
  "spares_rows P m \<longleftrightarrow> (\<forall>st r st1. m st = Some (r, st1) \<longrightarrow> table_ok (tb_keks st) \<longrightarrow>
    table_ok (tb_keks st1) \<and> (\<forall>row\<in>set (tb_keks st). P row \<longrightarrow> row \<in> set (tb_keks st1)))"

named_theorems sparing

lemma spares_bind [sparing]:
  "spares_rows P m \<Longrightarrow> (\<And>a. spares_rows P (f a)) \<Longrightarrow> spares_rows P (bindA m f)"
  unfolding spares_rows_def bindA_iff by metis

lemma spares_basic [sparing]:
  "spares_rows P (lift r)" "spares_rows P (ret a)" "spares_rows P (pg_read f)" "spares_rows P (drawing d)"
  by (auto simp: spares_rows_def drawing_iff)

lemma spares_pg_scope [sparing]: "spares_rows P m \<Longrightarrow> spares_rows P (pg_scope m)"
  unfolding spares_rows_def pg_scope_iff by fastforce

lemma spares_or [sparing]: "spares_rows P m \<Longrightarrow> spares_rows P f \<Longrightarrow> spares_rows P (or_not_found m f)"
  unfolding spares_rows_def or_not_found_def
  by (auto split: option.splits prod.splits sum.splits kms_error.splits)

lemma spares_put:
  "(\<And>rows rows1. table_ok rows \<Longrightarrow> f rows = Inr rows1 \<Longrightarrow>
      table_ok rows1 \<and> (\<forall>row\<in>set rows. P row \<longrightarrow> row \<in> set rows1)) \<Longrightarrow> spares_rows P (put_keks f)"
  by (auto simp: spares_rows_def put_rows_iff)

lemma spares_optional [sparing]: "spares_rows P m \<Longrightarrow> spares_rows P (optional m)" "spares_rows P m \<Longrightarrow> spares_rows P (silent m)"
  by (auto simp: optional_def silent_def intro!: sparing)

lemma spares_insert [sparing]: "kr_version r < 2 ^ 31 \<Longrightarrow> spares_rows P (put_keks (insert_row r))"
  by (rule spares_put) (auto simp: table_ok_def insert_row_def row_of_version_none versions_in_def rows_of_def split: if_splits)

lemma stored_version_is:
  assumes "stored_version v = Inr i"
  shows "i = int (unat v) \<and> i < 2 ^ 31"
proof -
  have u: "unat v < 2 ^ 31" "i = int (unat v)"
    using assms by (simp_all add: stored_version_def split: if_splits)
  have "int (unat v) < int (2 ^ 31)" using u(1) by (simp only: of_nat_less_iff)
  then show ?thesis using u(2) by simp
qed

lemma spares_save [sparing]: "spares_rows P (pg_save_kek sv k)"
proof (cases "stored_version (ke_version k)")
  case (Inl e)
  then show ?thesis by (simp add: pg_save_kek_def spares_rows_def bindA_iff)
next
  case (Inr v)
  then have "v < 2 ^ 31" using stored_version_is by blast
  with Inr show ?thesis by (simp add: pg_save_kek_def spares_insert)
qed

lemma spares_delete:
  "(\<And>row. P row \<Longrightarrow> kr_id row \<noteq> t) \<Longrightarrow> spares_rows P (put_keks (\<lambda>rows. Inr (delete_all t rows)))"
  by (rule spares_put) (auto simp: table_ok_def delete_all_def distinct_map_filter)

lemma spares_retire:
  "(\<And>row. P row \<Longrightarrow> kr_id row = t \<Longrightarrow> v \<le> kr_version row)
    \<Longrightarrow> spares_rows P (put_keks (\<lambda>rows. Inr (delete_below t v rows)))"
  by (rule spares_put) (force simp: table_ok_def delete_below_def distinct_map_filter)

lemma spares_get_or_create [sparing]: "spares_rows P (pg_get_or_create_kek cy sv t)"
  unfolding pg_get_or_create_kek_def pg_current_kek_def pg_first_kek_def by (auto intro!: sparing)

lemma spares_wrapping [sparing]:
  "spares_rows P (pg_encrypt_dek cy sv t dek)" "spares_rows P (pg_generate_dek cy sv t)"
  "spares_rows P (pg_rewrap_dek cy sv t w)" "spares_rows P (pg_decrypt_dek cy sv t w)"
  unfolding pg_encrypt_dek_def pg_generate_dek_def pg_rewrap_dek_def pg_decrypt_dek_def pg_kek_def
  by (auto intro!: sparing split: prod.split)

lemma spares_custody:
  assumes "\<not> destroys t v (sv, Kek_custody t1 c)"
  shows "spares_rows (\<lambda>row. kr_id row = t \<and> kr_version row = int (unat v)) (kek_custody cy sv t1 c)"
proof (cases c)
  case Create_key
  then show ?thesis
    unfolding Create_key kek_custody.simps pg_create_kek_def pg_current_kek_def pg_first_kek_def by (auto intro!: sparing)
next
  case Rotate_key
  then show ?thesis
    unfolding Rotate_key kek_custody.simps pg_rotate_kek_def pg_current_kek_def by (auto intro!: sparing)
next
  case Delete_key
  then show ?thesis using assms
    by (auto simp: pg_delete_kek_def intro!: sparing spares_delete)
next
  case (Retire_before v1)
  have "spares_rows (\<lambda>row. kr_id row = t \<and> kr_version row = int (unat v))
    (bindA (lift (retirement v1 latest)) (\<lambda>v. put_keks (\<lambda>rows. Inr (delete_below t1 v rows))))" for latest
  proof (cases "retirement v1 latest")
    case (Inl e)
    then show ?thesis by (simp add: spares_rows_def bindA_iff)
  next
    case (Inr w)
    then have "w = int (unat v1)" by (auto simp: retirement_def stored_version_def split: if_splits)
    then show ?thesis using assms Retire_before Inr
      by (auto simp: word_less_def intro!: spares_retire)
  qed
  then show ?thesis
    unfolding Retire_before kek_custody.simps pg_retire_keks_def
    by (intro spares_optional(2) spares_pg_scope spares_bind [OF spares_basic(3)])
qed

lemma spares_step:
  assumes "\<not> destroys t v c"
  shows "spares_rows (\<lambda>row. kr_id row = t \<and> kr_version row = int (unat v)) (kms_step cy c)"
proof (cases c)
  case (Pair sv d)
  show ?thesis
  proof (cases d)
    case (Kek_custody t1 e)
    then show ?thesis using Pair assms spares_custody [of t v sv t1 e cy] by (simp add: spares_bind spares_basic)
  qed (auto simp: Pair intro!: sparing)
qed

lemma spared_by_calls:
  assumes "run_calls (kms_step cy) cs st = Some (rs, st1)" "list_all (\<lambda>c. \<not> destroys t v c) cs"
    "table_ok (tb_keks st)" "row \<in> set (tb_keks st)" "kr_id row = t" "kr_version row = int (unat v)"
  shows "table_ok (tb_keks st1) \<and> row \<in> set (tb_keks st1)"
  using assms
proof (induction cs arbitrary: st rs)
  case (Cons c cs)
  from Cons.prems(1) obtain r s1 rest
    where "kms_step cy c st = Some (r, s1)" "run_calls (kms_step cy) cs s1 = Some (rest, st1)"
    by (elim run_calls_ConsE)
  then show ?case using Cons.IH Cons.prems spares_step [of t v c cy] by (auto simp: spares_rows_def)
qed simp

end
