(* ===== verification/Kms_Ring_Keeper.thy ===== *)
theory Kms_Ring_Keeper
  imports Kms_Keepers
begin

section \<open>The rings in memory as keepers\<close>

text \<open>
  \<open>testing.rs\<close>: what the signing keys and the MAC keys in memory share, down to the last version but one
  of 32 bits; the next is numbered as the last.
\<close>

definition U32_MAX :: nat where "U32_MAX = 2 ^ 32 - 1"

definition mem_ring :: "'k ring \<Rightarrow> keyring \<Rightarrow> bool" where
  "mem_ring r k \<longleftrightarrow>
    (case k of
       None \<Rightarrow> rg_versions r = [] \<and> rg_made r = 0
     | Some (low, high) \<Rightarrow> 1 \<le> low \<and> low \<le> high \<and> high \<le> U32_MAX \<and> rg_made r = of_nat high
         \<and> map fst (rg_versions r) = map of_nat [low..<Suc high])"

lemma version_insert_above:
  "\<forall>p\<in>set xs. fst p < v \<Longrightarrow> version_insert v a xs = xs @ [(v, a)]"
  by (induction v a xs rule: version_insert.induct) auto

lemma of_nat_less_u32: "m \<le> U32_MAX \<Longrightarrow> n \<le> U32_MAX \<Longrightarrow> (of_nat m :: u32) < of_nat n \<longleftrightarrow> m < n"
  by (simp add: U32_MAX_def word_less_nat_alt unat_of_nat take_bit_nat_eq_self)

lemma unat_of_nat_u32: "m \<le> U32_MAX \<Longrightarrow> unat (of_nat m :: u32) = m"
  by (simp add: U32_MAX_def unat_of_nat take_bit_nat_eq_self)

lemma mem_ring_default [simp]: "mem_ring ring_default None"
  by (simp add: mem_ring_def ring_default_def)

lemma saturating_next:
  "n < U32_MAX \<Longrightarrow> saturating_succ (of_nat n) = of_nat (Suc n)"
proof -
  assume n: "n < U32_MAX"
  then have "unat (of_nat n :: u32) \<noteq> unat (- 1 :: u32)"
    by (simp add: unat_of_nat_u32) (simp add: U32_MAX_def unsigned_minus_1_eq_mask mask_eq_exp_minus_1)
  then show ?thesis by (auto simp: saturating_succ_def add.commute)
qed

text \<open>At the last number of 32 bits a ring numbers as the last again, and the key it held there is gone.\<close>

lemma last_version_is_overwritten:
  assumes "rg_made r = - 1" "rg_versions r = [(- 1, old)]" "mk (- 1) g = Some (Inr new, g1)"
  shows "ring_push mk r g = Some (Inr (r\<lparr>rg_versions := [(- 1, new)]\<rparr>, - 1), g1)"
  using assms by (simp add: ring_push_def saturating_succ_def bindA_def ret_def Let_def)

lemma mem_ring_made: "mem_ring r k \<Longrightarrow> rg_made r = of_nat (latest_of k)"
  by (auto simp: mem_ring_def latest_of_def split: option.splits)

lemma mem_ring_empty: "mem_ring r k \<Longrightarrow> rg_versions r = [] \<longleftrightarrow> k = None"
  by (auto simp: mem_ring_def split: option.splits)

lemma mem_ring_push:
  assumes ring: "mem_ring r k" and room: "latest_of k < U32_MAX"
  shows "mem_ring (r\<lparr>rg_versions := version_insert (of_nat (Suc (latest_of k))) key (rg_versions r),
    rg_made := of_nat (Suc (latest_of k))\<rparr>) (grown k)"
proof (cases k)
  case None
  then show ?thesis using ring by (simp add: mem_ring_def grown_def latest_of_def U32_MAX_def)
next
  case (Some p)
  obtain low high where k: "k = Some (low, high)" using Some by (cases p) auto
  then have vs: "map fst (rg_versions r) = map of_nat [low..<Suc high]" and b: "high < U32_MAX" "1 \<le> low" "low \<le> high"
    using ring room by (auto simp: mem_ring_def latest_of_def)
  have "v < of_nat (Suc high)" if "v \<in> fst ` set (rg_versions r)" for v :: u32
  proof -
    have "v \<in> of_nat ` {low..<Suc high}"
      using that arg_cong [OF vs, of set] by (simp only: set_map set_upt)
    then show ?thesis using b of_nat_less_u32 [of _ "Suc high"] by (auto simp del: of_nat_Suc)
  qed
  then have "version_insert (of_nat (Suc high)) key (rg_versions r) = rg_versions r @ [(of_nat (Suc high), key)]"
    by (intro version_insert_above) force
  then show ?thesis using k vs b by (simp add: mem_ring_def grown_def latest_of_def del: of_nat_Suc)
qed

lemma ring_push_grows:
  assumes "ring_push mk r g = Some (res, g1)" "mem_ring r k" "latest_of k < U32_MAX" "\<And>v. fails_for_keys (mk v)"
  shows "(\<exists>e. res = Inl e \<and> of_the_keys e)
    \<or> (\<exists>r1. res = Inr (r1, of_nat (Suc (latest_of k))) \<and> mem_ring r1 (grown k))"
proof -
  let ?v = "of_nat (Suc (latest_of k)) :: u32"
  have "saturating_succ (rg_made r) = ?v"
    using assms(2,3) by (simp add: mem_ring_made saturating_next del: of_nat_Suc)
  then have "bindA (mk ?v) (\<lambda>key. ret (r\<lparr>rg_versions := version_insert ?v key (rg_versions r), rg_made := ?v\<rparr>, ?v)) g
      = Some (res, g1)"
    using assms(1) by (simp add: ring_push_def Let_def)
  then show ?thesis
    using refusal_of [OF assms(4)] mem_ring_push [OF assms(2,3)] by (fastforce simp: bindA_iff simp del: of_nat_Suc)
qed

lemma mem_ring_retired:
  assumes "mem_ring r (Some (low, high))" "unat v \<le> high"
  shows "mem_ring (r\<lparr>rg_versions := filter (\<lambda>p. v \<le> fst p) (rg_versions r)\<rparr>) (Some (max low (unat v), high))"
proof -
  have b: "1 \<le> low" "low \<le> high" "high \<le> U32_MAX" "rg_made r = of_nat high"
    and vs: "map fst (rg_versions r) = map of_nat [low..<Suc high]"
    using assms(1) by (auto simp: mem_ring_def)
  have "map fst (filter (\<lambda>p. v \<le> fst p) (rg_versions r)) = filter (\<lambda>w. v \<le> w) (map of_nat [low..<Suc high])"
    by (simp only: vs [symmetric] filter_map o_def)
  also have "\<dots> = map of_nat (filter (\<lambda>n. unat v \<le> n) [low..<Suc high])"
  proof -
    have "(v \<le> of_nat n) = (unat v \<le> n)" if "n \<in> set [low..<Suc high]" for n
      using that b(3) by (auto simp: word_le_nat_alt unat_of_nat_u32)
    then show ?thesis by (simp only: filter_map o_def cong: filter_cong)
  qed
  also have "filter (\<lambda>n. unat v \<le> n) [low..<Suc high] = [max low (unat v)..<Suc high]"
    by (rule sorted_distinct_set_unique) (auto intro: sorted_wrt_filter simp del: upt_Suc)
  finally show ?thesis using b assms(2) by (auto simp: mem_ring_def simp del: upt_Suc)
qed

locale ring_keeper =
  fixes step :: "custody_call \<Rightarrow> ('g memory_keys, u32 option) act"
    and rings :: "'g memory_keys \<Rightarrow> ('id \<times> 'k ring) list" and i :: 'id
    and put :: "'k ring \<Rightarrow> ('g memory_keys, unit) act" and mk :: "u32 \<Rightarrow> ('g, 'k) act"
    and push :: "('g memory_keys, u32) act" and missing :: kms_error
  assumes put: "put r st = Some (u, st1) \<Longrightarrow> u = Inr () \<and> entry_or_default (rings st1) i = r"
    and random: "rings (st\<lparr>my_random := g\<rparr>) = rings st"
    and made: "fails_for_keys (mk v)"
    and push: "push st = bindA (put (entry_or_default (rings st) i)) (\<lambda>_.
        bindA (on_random (ring_push mk (entry_or_default (rings st) i))) (\<lambda>(r1, v).
          bindA (put r1) (\<lambda>_. ret v))) st"
    and create: "step Create_key st = optional (\<lambda>st. let r = entry_or_default (rings st) i in
        if rg_versions r = [] then push st else Some (Inr (rg_made r), st)) st"
    and rotate: "step Rotate_key st = optional (\<lambda>st. bindA (lift (ring_with_key missing (rings st) i)) (\<lambda>r.
        bindA (on_random (ring_push mk r)) (\<lambda>(r1, v). bindA (put r1) (\<lambda>_. ret v))) st) st"
    and retire: "step (Retire_before v) st = silent (\<lambda>st. bindA
        (lift (and_then (ring_with_key missing (rings st) i) (ring_retire_before v))) put st) st"
    and delete: "step Delete_key st = Some (w, st1) \<Longrightarrow> w = Inr None \<and> entry_or_default (rings st1) i = ring_default"
begin

abbreviation entry :: "'g memory_keys \<Rightarrow> 'k ring" where
  "entry st \<equiv> entry_or_default (rings st) i"

lemma with_key: "ring_with_key missing (rings st) i =
    (if rg_versions (entry st) = [] then Inl missing else Inr (entry st))"
  by (simp add: ring_with_key_def entry_or_default_def ring_default_def split: option.split)

lemma on_random_iff: "on_random m st = Some (r, st1) \<longleftrightarrow>
    (\<exists>g. m (my_random st) = Some (r, g) \<and> st1 = st\<lparr>my_random := g\<rparr>)"
  by (auto simp: on_random_def)

lemma pushed:
  assumes "bindA (on_random (ring_push mk (entry st))) (\<lambda>(r1, v). bindA (put r1) (\<lambda>_. ret v)) st = Some (r, st1)"
    and "mem_ring (entry st) k" "latest_of k < U32_MAX"
  shows "(\<exists>e. r = Inl e \<and> of_the_keys e \<and> mem_ring (entry st1) k)
    \<or> r = Inr (of_nat (Suc (latest_of k))) \<and> mem_ring (entry st1) (grown k)"
proof -
  consider e g where "ring_push mk (entry st) (my_random st) = Some (Inl e, g)" "r = Inl e" "st1 = st\<lparr>my_random := g\<rparr>"
    | r1 v g where "ring_push mk (entry st) (my_random st) = Some (Inr (r1, v), g)"
        "bindA (put r1) (\<lambda>_. ret v) (st\<lparr>my_random := g\<rparr>) = Some (r, st1)"
    using assms(1) unfolding bindA_iff [of "on_random _"] on_random_iff by fastforce
  then show ?thesis
  proof cases
    case 1
    then show ?thesis using ring_push_grows [OF 1(1) assms(2,3) made] assms(2) by (auto simp: random)
  next
    case 2
    then show ?thesis using ring_push_grows [OF 2(1) assms(2,3) made]
      by (auto simp: bindA_iff simp del: of_nat_Suc dest!: put)
  qed
qed

end

sublocale ring_keeper \<subseteq> keyring_custody step "\<lambda>st. mem_ring (entry_or_default (rings st) i)" U32_MAX missing
proof
  fix st k c r st1
  assume a: "mem_ring (entry st) k" "latest_of k < U32_MAX" "step c st = Some (r, st1)"
  note empty = mem_ring_empty [OF a(1)] and latest = mem_ring_made [OF a(1)]
  show "(r = fst (spec_step missing c k) \<and> mem_ring (entry st1) (snd (spec_step missing c k)))
      \<or> (\<exists>e. r = Inl e \<and> of_the_keys e \<and> mem_ring (entry st1) k)"
  proof (cases c)
    case Create_key
    show ?thesis
    proof (cases k)
      case None
      then obtain r0 where r0: "push st = Some (r0, st1)" "r = map_ok Some r0"
        using a Create_key empty by (auto simp: create optional_iff)
      obtain st0 where st0: "entry st0 = entry st"
        "bindA (on_random (ring_push mk (entry st0))) (\<lambda>(r1, v). bindA (put r1) (\<lambda>_. ret v)) st0 = Some (r0, st1)"
        using r0(1) unfolding push [of st] bindA_iff [of "put _"] by (metis put sum.distinct(1))
      show ?thesis
        using pushed [OF st0(2), of k] st0(1) a None r0(2) Create_key by (auto simp: grown_def latest_of_def)
    next
      case (Some p)
      then show ?thesis using a Create_key empty latest
        by (cases p) (auto simp: create optional_iff latest_of_def)
    qed
  next
    case Rotate_key
    show ?thesis
    proof (cases k)
      case None
      then show ?thesis using a Rotate_key empty by (auto simp: rotate optional_iff with_key bindA_iff)
    next
      case (Some p)
      then obtain r0 where r0: "r = map_ok Some r0"
          "bindA (on_random (ring_push mk (entry st))) (\<lambda>(r1, v). bindA (put r1) (\<lambda>_. ret v)) st = Some (r0, st1)"
        using a Rotate_key empty by (auto simp: rotate optional_iff with_key)
      show ?thesis
        using pushed [OF r0(2) a(1,2)] Some Rotate_key r0(1) by (cases p) (auto simp: grown_def latest_of_def)
    qed
  next
    case (Retire_before v)
    show ?thesis
    proof (cases k)
      case None
      then show ?thesis using a Retire_before empty by (auto simp: retire silent_iff with_key bindA_iff)
    next
      case (Some p)
      obtain low high where k: "k = Some (low, high)" using Some by (cases p) auto
      have made: "rg_made (entry st) < v \<longleftrightarrow> high < unat v"
        using a(1) k by (auto simp: mem_ring_def word_less_nat_alt unat_of_nat_u32)
      show ?thesis
        using a Retire_before empty k made mem_ring_retired [of "entry st" low high v]
        by (auto simp: retire silent_iff with_key ring_retire_before_def bindA_iff dest!: put split: if_splits)
    qed
  next
    case Delete_key
    then show ?thesis using a delete by auto
  qed
qed

subsection \<open>The signing keys and the MAC keys in memory\<close>

fun memory_signing_custody :: "'g crypto \<Rightarrow> string \<Rightarrow> signature_algorithm \<Rightarrow> custody_call
    \<Rightarrow> ('g memory_keys, u32 option) act" where
  "memory_signing_custody cy tenant a Create_key =
    optional (memory_create_signing_key cy tenant a \<lparr>ko_auto_rotate = None\<rparr>)"
| "memory_signing_custody cy tenant a Rotate_key = optional (memory_rotate_signing_key cy tenant a)"
| "memory_signing_custody cy tenant a (Retire_before v) = silent (memory_retire_signing tenant a v)"
| "memory_signing_custody cy tenant a Delete_key = silent (memory_delete_signing tenant a)"

fun memory_mac_custody :: "'g crypto \<Rightarrow> string \<Rightarrow> string \<Rightarrow> custody_call \<Rightarrow> ('g memory_keys, u32 option) act" where
  "memory_mac_custody cy tenant p Create_key = optional (memory_create_mac_key cy tenant p \<lparr>ko_auto_rotate = None\<rparr>)"
| "memory_mac_custody cy tenant p Rotate_key = optional (memory_rotate_mac_key cy tenant p)"
| "memory_mac_custody cy tenant p (Retire_before v) = silent (memory_retire_mac tenant p v)"
| "memory_mac_custody cy tenant p Delete_key = silent (memory_delete_mac tenant p)"

lemma refusal_generate [refusals]: "fails_for_keys (signing_key_generate cy tenant a v)"
  unfolding fails_for_keys_def using generated by fastforce

lemma refusal_mac_generate [refusals]: "fails_for_keys (mac_key_generate cy tenant p v)"
  unfolding mac_key_generate_def by (intro refusals)

interpretation memory_signing: ring_keeper "memory_signing_custody cy tenant a" my_signing "(tenant, a)"
    "put_signing (tenant, a)" "signing_key_generate cy tenant a"
    "memory_push_signing tenant a (signing_key_generate cy tenant a)" "SigningKeyNotFound tenant a"
  by unfold_locales
    (auto simp: put_signing_def entry_or_default_def update_conv' delete_conv' Let_def memory_push_signing_def
      memory_create_signing_key_def memory_no_scheduler_def memory_rotate_signing_key_def memory_ring_def
      memory_retire_signing_def memory_delete_signing_def silent_iff optional_def silent_def bindA_def
      intro: refusals)

interpretation memory_macs: ring_keeper "memory_mac_custody cy tenant p" my_mac "(tenant, p)"
    "put_mac (tenant, p)" "mac_key_generate cy tenant p" "memory_push_mac cy tenant p" "MacKeyNotFound tenant p"
  by unfold_locales
    (auto simp: put_mac_def entry_or_default_def update_conv' delete_conv' Let_def memory_push_mac_def
      memory_create_mac_key_def memory_no_scheduler_def memory_rotate_mac_key_def memory_mac_ring_def
      memory_retire_mac_def memory_delete_mac_def silent_iff optional_def silent_def bindA_def
      intro: refusals)

end
