(* ===== verification/Kms_Properties.thy ===== *)
theory Kms_Properties
  imports Kms_Kek_Keeper Kms_Ring_Keeper
begin

section \<open>Properties of the key management service\<close>

text \<open>
  A wrapped key opens again, whatever calls come between, and for no other tenant and in no other context.
\<close>

subsection \<open>The key a wrap uses\<close>

definition backed :: "'g crypto \<Rightarrow> pg_service \<Rightarrow> string \<Rightarrow> 'g kek \<Rightarrow> kek_row list \<Rightarrow> bool" where
  "backed cy sv t k rows \<longleftrightarrow> (\<exists>row k1. row \<in> set rows \<and> kr_id row = t \<and> kr_version row = int (unat (ke_version k))
    \<and> stored_version (ke_version k) = Inr (kr_version row)
    \<and> pg_load_kek cy sv t row = Inr k1 \<and> ke_version k1 = ke_version k \<and> ke_cipher k1 = ke_cipher k)"

lemma read_stored:
  assumes "read_version i = Inr v" "i < 2 ^ 31"
  shows "stored_version v = Inr i" "i = int (unat v)"
proof -
  have v: "v = word_of_int i" "0 \<le> i" using assms(1) by (auto simp: read_version_def split: if_splits)
  then have "uint v = i" using assms(2) by (simp add: uint_word_of_int take_bit_int_eq_self)
  then show "i = int (unat v)" by simp
  then have "int (unat v) < int (2 ^ 31)" using assms(2) by simp
  then have "unat v < 2 ^ 31" by (simp only: of_nat_less_iff)
  then show "stored_version v = Inr i" using \<open>i = int (unat v)\<close> by (simp add: stored_version_def)
qed

lemma current_backed:
  assumes "pg_current_kek cy sv t st = Some (Inr k, st1)" "table_ok (tb_keks st)"
  shows "st1 = st \<and> backed cy sv t k (tb_keks st)"
proof -
  have cur: "(case highest (rows_of t (tb_keks st)) of Some row \<Rightarrow> pg_load_kek cy sv t row
      | None \<Rightarrow> Inl (KekNotFound t None)) = Inr k" and st1: "st1 = st"
    using assms(1) unfolding pg_current_kek_def act_simps truncate_tables option.inject prod.inject by auto
  then obtain row where row: "highest (rows_of t (tb_keks st)) = Some row" "pg_load_kek cy sv t row = Inr k"
    by (cases "highest (rows_of t (tb_keks st))") simp_all
  have r: "row \<in> set (tb_keks st)" "kr_id row = t" using highest_in [OF row(1)] by (simp_all add: rows_of_def)
  then have b: "kr_version row < 2 ^ 31" using assms(2) by (simp add: table_ok_def)
  have "read_version (kr_version row) = Inr (ke_version k)" using load_kek_fields [OF row(2)] by simp
  from read_stored [OF this b] show ?thesis using row(2) r st1 unfolding backed_def by blast
qed

lemma first_backed:
  assumes cy: "faithful_crypto cy" and first: "pg_first_kek cy sv t st = Some (Inr k, st1)"
  shows "backed cy sv t k (tb_keks st1)"
proof -
  obtain mk g g1 where mk: "pg_master_key cy sv (sv_algorithm sv) = Inr mk"
    and made: "make_kek cy mk t (sv_context sv) 1 g = Some (Inr k, g1)"
    and saved: "pg_save_kek sv k (st\<lparr>tb_random := g1\<rparr>) = Some (Inr (), st1)"
    using first by (auto simp: pg_first_kek_def bindA_iff drawing_iff generate_kek_def)
  have k: "ke_tenant k = t" "ke_version k = 1" using make_kek_fields [OF made] by auto
  have v: "stored_version 1 = Inr 1" by (simp add: stored_version_def)
  have "\<lparr>kr_id = t, kr_version = 1, kr_sealed = wrapped_to_bytes (ke_wrapped k),
      kr_master = algorithm_as_str (sv_algorithm sv), kr_algorithm = algorithm_as_str (ke_algorithm k)\<rparr> \<in> set (tb_keks st1)"
    using saved by (auto simp: pg_save_kek_def k v put_rows_iff insert_row_def split: if_splits)
  moreover obtain k1 where "pg_load_kek cy sv t \<lparr>kr_id = t, kr_version = 1,
      kr_sealed = wrapped_to_bytes (ke_wrapped k), kr_master = algorithm_as_str (sv_algorithm sv),
      kr_algorithm = algorithm_as_str (ke_algorithm k)\<rparr> = Inr k1" "ke_version k1 = 1" "ke_cipher k1 = ke_cipher k"
    using saved_kek_loads [OF cy mk made v] by blast
  ultimately show ?thesis
    unfolding backed_def by (intro exI [of _ k1] exI conjI) (assumption | simp add: k v)+
qed

lemma used_backed:
  assumes cy: "faithful_crypto cy" and ok: "table_ok (tb_keks st)"
    and used: "pg_get_or_create_kek cy sv t st = Some (Inr k, st1)"
  shows "backed cy sv t k (tb_keks st1) \<and> table_ok (tb_keks st1)"
proof -
  have ok1: "table_ok (tb_keks st1)"
    using spares_get_or_create [of "\<lambda>_. False" cy sv t] ok used unfolding spares_rows_def by blast
  obtain r0 s0 where cur: "pg_current_kek cy sv t st = Some (r0, st)"
    by (simp add: pg_current_kek_def)
  have "backed cy sv t k (tb_keks st1)"
  proof (cases r0)
    case (Inr k0)
    then have "k = k0" "st1 = st" using used cur by (auto simp: pg_get_or_create_kek_def or_not_found_def split: if_splits)
    then show ?thesis using current_backed [OF _ ok, of cy sv t k0 st] cur Inr by simp
  next
    case (Inl e)
    then have "or_not_found (pg_current_kek cy sv t) (pg_first_kek cy sv t) st = Some (Inr k, st1)"
      using used cur by (auto simp: pg_get_or_create_kek_def or_not_found_def pg_scope_iff split: if_splits kms_error.splits)
    then have "pg_first_kek cy sv t st = Some (Inr k, st1)"
      using cur Inl by (auto simp: or_not_found_def split: kms_error.splits)
    then show ?thesis by (rule first_backed [OF cy])
  qed
  then show ?thesis using ok1 by simp
qed

lemma encrypted_by:
  assumes cy: "faithful_crypto cy" and ok: "table_ok (tb_keks st)"
    and enc: "pg_encrypt_dek cy sv t dek st = Some (Inr sealed, st1)"
  shows "\<exists>k w g g1. backed cy sv t k (tb_keks st1) \<and> table_ok (tb_keks st1) \<and> sealed = wrapped_to_bytes w
    \<and> wk_version w = ke_version k \<and> ci_encrypt (ke_cipher k) dek g = Some (Inr (wk_sealed w), g1)"
proof -
  obtain k s g w g1 where "pg_get_or_create_kek cy sv t st = Some (Inr k, s)"
    and "kek_wrap k dek g = Some (Inr w, g1)" "st1 = s\<lparr>tb_random := g1\<rparr>" "sealed = wrapped_to_bytes w"
    using enc by (auto simp: pg_encrypt_dek_def bindA_iff drawing_iff)
  then show ?thesis
    using used_backed [OF cy ok] by (fastforce simp: kek_wrap_def wrapped_wrap_def bindA_iff)
qed


lemma decrypts_with:
  assumes "backed cy sv t k rows" "set rows \<subseteq> set (tb_keks st) \<or> (\<exists>row. row \<in> set (tb_keks st) \<and> rows = [row])"
    "table_ok (tb_keks st)" "wk_version w = ke_version k"
  shows "pg_decrypt_dek cy sv t (wrapped_to_bytes w) st = Some (ci_decrypt (ke_cipher k) (wk_sealed w), st)"
proof -
  obtain row k1 where row: "row \<in> set (tb_keks st)" "kr_id row = t" "stored_version (ke_version k) = Inr (kr_version row)"
    and k1: "pg_load_kek cy sv t row = Inr k1" "ke_version k1 = ke_version k" "ke_cipher k1 = ke_cipher k"
    using assms(1,2) unfolding backed_def by auto
  have "row_of_version t (kr_version row) (tb_keks st) = Some row"
    using table_ok_row [OF assms(3) row(1)] row(2) by simp
  then have "pg_kek cy sv t (wk_version w) st = Some (Inr k1, st)"
    by (simp add: pg_kek_def assms(4) row(3) k1(1))
  then show ?thesis
    by (simp add: pg_decrypt_dek_def bindA_def kek_unwrap_def wrapped_unwrap_def assms(4) k1)
qed

text \<open>What a version that is gone wrapped is refused as a KEK that is not found, not as a missing version.\<close>

lemma retired_version_is_not_found:
  assumes "wrapped_parse sealed = Inr w" "stored_version (wk_version w) = Inr v"
    and "row_of_version t v (tb_keks st) = None"
  shows "pg_decrypt_dek cy sv t sealed st = Some (Inl (KekNotFound t (Some (wk_version w))), st)"
  using assms by (simp add: pg_decrypt_dek_def pg_kek_def bindA_def)

subsection \<open>A cipher to compute with\<close>

text \<open>What it seals is sixteen zeros, the data with its length before it, and the message in the clear.\<close>

definition clear_seal :: "bytes \<Rightarrow> bytes \<Rightarrow> bytes" where
  "clear_seal aad m = replicate TAG_SIZE 0 @ to_be_bytes (word_of_nat (length aad)) @ aad @ m"

definition clear_crypto :: "nat crypto" where
  "clear_crypto = \<lparr>cy_fill = \<lambda>n g. (Inr (replicate n (word_of_nat g)), Suc g),
    cy_seal = \<lambda>key nonce aad m. if length aad < 2 ^ 32 then Some (clear_seal aad m) else None,
    cy_open = \<lambda>key nonce aad c.
      if length aad < 2 ^ 32 \<and> take (TAG_SIZE + 4 + length aad) c = clear_seal aad []
      then Some (drop (TAG_SIZE + 4 + length aad) c) else None,
    cy_hmac = \<lambda>key m. Inr (key @ m),
    cy_ed_public = id, cy_ed_is_public = \<lambda>b. True, cy_ed_sign = \<lambda>seed m. take 64 (seed @ m @ replicate 64 0),
    cy_ed_verify = \<lambda>key m s. s = take 64 (key @ m @ replicate 64 0),
    cy_p256_public = Some, cy_p256_point = Some, cy_p256_sign = (@), cy_p256_is_signature = \<lambda>s. True,
    cy_p256_verify = \<lambda>key m s. s = key @ m\<rparr>"

lemma clear_simps:
  "cy_fill clear_crypto n g = (Inr (replicate n (word_of_nat g)), Suc g)"
  "cy_seal clear_crypto key nonce aad m = (if length aad < 2 ^ 32 then Some (clear_seal aad m) else None)"
  "length aad < 2 ^ 32 \<Longrightarrow> cy_open clear_crypto key nonce aad (clear_seal aad m) = Some m"
  "length (clear_seal aad m) = TAG_SIZE + 4 + length aad + length m"
  by (simp_all add: clear_crypto_def clear_seal_def)

lemma clear_faithful: "faithful_crypto clear_crypto"
  by (auto simp: faithful_crypto_def clear_crypto_def clear_seal_def)

lemma clear_binding: "binding_crypto clear_crypto"
  unfolding binding_crypto_def
proof (intro allI impI)
  fix key key1 n aad aad1 m m1 c
  assume "cy_seal clear_crypto key n aad m = Some c" "cy_open clear_crypto key1 n aad1 c = Some m1"
  then have l: "length aad < 2 ^ 32" "length aad1 < 2 ^ 32" and
    t: "take (TAG_SIZE + 4 + length aad1) (clear_seal aad m) = clear_seal aad1 []"
    by (auto simp: clear_crypto_def split: if_splits)
  have "take 4 (drop TAG_SIZE (take (TAG_SIZE + 4 + length aad1) (clear_seal aad m))) = to_be_bytes (word_of_nat (length aad))"
    by (simp add: clear_seal_def drop_take)
  then have "to_be_bytes (word_of_nat (length aad1)) = to_be_bytes (word_of_nat (length aad))"
    unfolding t by (simp add: clear_seal_def)
  then have "unat (word_of_nat (length aad1) :: u32) = unat (word_of_nat (length aad) :: u32)"
    by (simp add: to_be_bytes_inject)
  then have "length aad1 = length aad" using l by (simp add: unat_of_nat take_bit_nat_eq_self)
  then show "aad1 = aad" using t by (simp add: clear_seal_def)
qed

definition some_service :: pg_service where
  "some_service = pg_service_new (replicate 32 7)"

definition no_keys :: "nat pg_keys" where
  "no_keys = \<lparr>tb_keks = [], tb_signing = [], tb_mac = [], tb_random = 1\<rparr>"

definition some_calls :: "(pg_service \<times> kms_call) list" where
  "some_calls = [(some_service, Kek_custody ''a'' Rotate_key), (some_service, New_dek ''b''),
    (with_derivation_context ''c'' some_service, Wrap_dek ''a'' [3]),
    (some_service, Kek_custody ''b'' Delete_key), (some_service, Kek_custody ''a'' (Retire_before 1))]"

definition some_wrap :: "((kms_error, bytes) result \<times> nat pg_keys) option" where
  "some_wrap = pg_encrypt_dek clear_crypto some_service ''a'' [1, 2] no_keys"

lemmas kek_defs = pg_encrypt_dek_def pg_get_or_create_kek_def pg_service_new_def or_not_found_def pg_scope_def
  pg_current_kek_def rows_of_def pg_first_kek_def pg_master_key_def master_new_def drawing_def generate_kek_def
  make_kek_def master_cipher_def aes_new_def random_key_def draw_bytes_def wrapped_wrap_def aes_encrypt_def
  encrypt_with_def kek_new_def pg_save_kek_def stored_version_def put_keks_def insert_row_def row_of_version_def
  kek_wrap_def pg_load_kek_def load_kek_def master_unwrap_def wrapped_unwrap_def aes_decrypt_def read_version_def
  algorithm_from_str_def binding_def pg_rotate_kek_def rotate_master_kek_def pg_delete_kek_def delete_all_def
  pg_retire_keks_def existing_def latest_version_def retirement_def delete_below_def optional_def silent_def
  pg_generate_dek_def kek_generate_dek_def with_derivation_context_def bindA_def

lemma some_wrap_is: "\<exists>w st1. wk_version w = 1 \<and> some_wrap = Some (Inr (wrapped_to_bytes w), st1)
    \<and> (\<exists>rs st2. run_calls (kms_step clear_crypto) some_calls st1 = Some (rs, st2))"
  by (simp add: some_wrap_def kek_defs some_service_def no_keys_def clear_simps as_bytes_length
    KEY_SIZE_def NONCE_SIZE_def TAG_SIZE_def some_calls_def MASTER_KEY_VERSION_def wrapped_inject
    del: replicate_Suc)

subsection \<open>The properties\<close>

text \<open>
  C24: a key that a service wrapped for a tenant opens to itself, for that tenant, after any calls through
  any services that share the table, as long as none deleted the tenant's key or retired the version the
  wrapped key names: rotations, later wraps and other tenants change nothing of it.
\<close>
theorem wrapped_key_keeps_opening:
  assumes cy: "faithful_crypto cy" and ok: "table_ok (tb_keks st)"
    and enc: "pg_encrypt_dek cy sv t dek st = Some (Inr sealed, st1)"
    and calls: "run_calls (kms_step cy) cs st1 = Some (rs, st2)"
    and spared: "list_all (\<lambda>c. \<not> destroys t (from_be_bytes (take VERSION_SIZE sealed)) c) cs"
  shows "pg_decrypt_dek cy sv t sealed st2 = Some (Inr dek, st2)"
proof -
  obtain k w g g1 where k: "backed cy sv t k (tb_keks st1)" "table_ok (tb_keks st1)"
    and w: "sealed = wrapped_to_bytes w" "wk_version w = ke_version k"
    and c: "ci_encrypt (ke_cipher k) dek g = Some (Inr (wk_sealed w), g1)"
    using encrypted_by [OF cy ok enc] by blast
  have v: "from_be_bytes (take VERSION_SIZE sealed) = ke_version k"
    by (simp add: w wrapped_to_bytes_def VERSION_SIZE_def)
  obtain row k1 where row: "row \<in> set (tb_keks st1)" "kr_id row = t" "kr_version row = int (unat (ke_version k))"
      "stored_version (ke_version k) = Inr (kr_version row)"
    and k1: "pg_load_kek cy sv t row = Inr k1" "ke_version k1 = ke_version k" "ke_cipher k1 = ke_cipher k"
    using k(1) unfolding backed_def by blast
  have st2: "table_ok (tb_keks st2)" "row \<in> set (tb_keks st2)"
    using spared_by_calls [OF calls spared [unfolded v] k(2) row(1,2,3)] by auto
  have "backed cy sv t k [row]" unfolding backed_def using row k1 by auto
  then have "pg_decrypt_dek cy sv t sealed st2 = Some (ci_decrypt (ke_cipher k) (wk_sealed w), st2)"
    unfolding w(1) by (rule decrypts_with) (use st2 w(2) in auto)
  moreover obtain a key where "algorithm_cipher cy a key (binding t (sv_context sv)) = Inr (ke_cipher k)"
    using kek_cipher_of [OF k1(1)] k1(3) by auto
  ultimately show ?thesis using cipher_opens [OF cy _ c] by simp
qed

lemma wrapped_key_keeps_opening_witness:
  "\<exists>sealed st1 rs st2. some_wrap = Some (Inr sealed, st1)
    \<and> run_calls (kms_step clear_crypto) some_calls st1 = Some (rs, st2)
    \<and> pg_decrypt_dek clear_crypto some_service ''a'' sealed st2 = Some (Inr [1, 2], st2)"
proof -
  obtain w st1 rs st2 where w: "wk_version w = 1" "some_wrap = Some (Inr (wrapped_to_bytes w), st1)"
      "run_calls (kms_step clear_crypto) some_calls st1 = Some (rs, st2)"
    using some_wrap_is by blast
  have ok: "table_ok (tb_keks no_keys)" by (simp add: no_keys_def table_ok_def)
  have "from_be_bytes (take VERSION_SIZE (wrapped_to_bytes w)) = 1"
    by (simp add: wrapped_to_bytes_def VERSION_SIZE_def w(1))
  then have "list_all (\<lambda>c. \<not> destroys ''a'' (from_be_bytes (take VERSION_SIZE (wrapped_to_bytes w))) c) some_calls"
    by (simp add: some_calls_def)
  from wrapped_key_keeps_opening [OF clear_faithful ok w(2) [unfolded some_wrap_def] w(3) this] show ?thesis
    using w(2,3) by blast
qed

text \<open>
  C25: what a service wrapped for a tenant opens through no service for another tenant and in no other
  context, whatever is in the tables, provided that both serve a context or neither does.
\<close>
theorem wrapped_key_is_bound:
  assumes cy: "faithful_crypto cy" "binding_crypto cy" and ok: "table_ok (tb_keks st)"
    and enc: "pg_encrypt_dek cy sv t dek st = Some (Inr sealed, st1)"
    and dec: "pg_decrypt_dek cy sv' t' sealed st2 = Some (Inr d, st3)"
    and both: "sv_context sv = None \<longleftrightarrow> sv_context sv' = None" "length t < 2 ^ 32" "length t' < 2 ^ 32"
  shows "t' = t \<and> sv_context sv' = sv_context sv"
proof -
  obtain k w g g1 where k: "backed cy sv t k (tb_keks st1)" and w: "sealed = wrapped_to_bytes w"
    and c: "ci_encrypt (ke_cipher k) dek g = Some (Inr (wk_sealed w), g1)"
    using encrypted_by [OF cy(1) ok enc] by blast
  obtain row1 k1 where k1: "pg_load_kek cy sv t row1 = Inr k1" "ke_cipher k1 = ke_cipher k"
    using k unfolding backed_def by blast
  obtain k2 where k2: "pg_kek cy sv' t' (wk_version w) st2 = Some (Inr k2, st3)" "kek_unwrap k2 w = Inr d"
    using dec by (auto simp: pg_decrypt_dek_def w bindA_iff)
  then obtain row2 where "pg_load_kek cy sv' t' row2 = Inr k2"
    by (auto simp: pg_kek_def and_then_Inr_iff split: option.splits)
  then obtain a2 key2 where a2: "algorithm_cipher cy a2 key2 (binding t' (sv_context sv')) = Inr (ke_cipher k2)"
    using kek_cipher_of by blast
  obtain a key where a: "algorithm_cipher cy a key (binding t (sv_context sv)) = Inr (ke_cipher k)"
    using kek_cipher_of [OF k1(1)] k1(2) by auto
  have "ci_decrypt (ke_cipher k2) (wk_sealed w) = Inr d"
    using k2(2) by (auto simp: kek_unwrap_def wrapped_unwrap_def split: if_splits)
  from cipher_binds [OF cy a c a2 this] show ?thesis
    using binding_inject [of t' "sv_context sv'" t "sv_context sv"] both by auto
qed

lemma wrapped_key_is_bound_witness:
  "\<exists>sealed st1 d st3. some_wrap = Some (Inr sealed, st1)
    \<and> pg_decrypt_dek clear_crypto some_service ''a'' sealed st1 = Some (Inr d, st3)
    \<and> ''a'' = ''a'' \<and> sv_context some_service = sv_context some_service"
proof -
  obtain w st1 rs st2 where w: "wk_version w = 1" "some_wrap = Some (Inr (wrapped_to_bytes w), st1)"
    using some_wrap_is by blast
  have ok: "table_ok (tb_keks no_keys)" by (simp add: no_keys_def table_ok_def)
  obtain k w1 g g1 where k: "backed clear_crypto some_service ''a'' k (tb_keks st1)" "table_ok (tb_keks st1)"
    "w1 = w" "wk_version w1 = ke_version k"
    "ci_encrypt (ke_cipher k) [1, 2] g = Some (Inr (wk_sealed w1), g1)"
    using encrypted_by [OF clear_faithful ok w(2) [unfolded some_wrap_def]] by (auto simp: wrapped_inject)
  have d: "pg_decrypt_dek clear_crypto some_service ''a'' (wrapped_to_bytes w) st1
      = Some (ci_decrypt (ke_cipher k) (wk_sealed w), st1)"
    using decrypts_with [OF k(1) disjI1 k(2)] k(3,4) by simp
  obtain a key where "algorithm_cipher clear_crypto a key (binding ''a'' (sv_context some_service)) = Inr (ke_cipher k)"
    using k(1) kek_cipher_of unfolding backed_def by metis
  then have "ci_decrypt (ke_cipher k) (wk_sealed w) = Inr [1, 2]"
    using cipher_opens [OF clear_faithful] k(3,5) by blast
  then have e: "pg_decrypt_dek clear_crypto some_service ''a'' (wrapped_to_bytes w) st1 = Some (Inr [1, 2], st1)"
    using d by simp
  have "''a'' = ''a'' \<and> sv_context some_service = sv_context some_service"
    by (rule wrapped_key_is_bound [OF clear_faithful clear_binding ok w(2) [unfolded some_wrap_def] e])
      (simp_all add: some_service_def pg_service_new_def)
  then show ?thesis using w(2) e by blast
qed

end
