(* ===== verification/Kms_Cache.thy ===== *)
theory Kms_Cache
  imports Kms_Pg
begin

section \<open>The cache of unwrapped keys\<close>

text \<open>
  \<open>crates/kms/src/cache.rs\<close>. The service behind it is a parameter, what it does to its own state; so is
  the order in which a hash map lists its entries, \<open>order\<close>, and each call is given the time it runs at.
  The capacity and the time to live are of the cache, a time is a number of ticks. What passes through
  the cache is the service's own.
\<close>

record cache_entry =
  ce_key :: bytes
  ce_since :: nat

type_synonym cache_entries = "((string \<times> bytes) \<times> cache_entry) list"

record 's cached =
  ca_kms :: 's
  ca_capacity :: nat
  ca_ttl :: nat
  ca_entries :: cache_entries

text \<open>A tick is a second: a thousand keys, five minutes each.\<close>

definition cached_new :: "'s \<Rightarrow> 's cached" where
  "cached_new kms = \<lparr>ca_kms = kms, ca_capacity = 1000, ca_ttl = 5 * 60, ca_entries = []\<rparr>"

definition with_capacity :: "nat \<Rightarrow> 's cached \<Rightarrow> 's cached" where
  "with_capacity capacity c = c\<lparr>ca_capacity := capacity\<rparr>"

definition with_ttl :: "nat \<Rightarrow> 's cached \<Rightarrow> 's cached" where
  "with_ttl ttl c = c\<lparr>ca_ttl := ttl\<rparr>"

text \<open>\<open>elapsed\<close> is zero for an instant that is not past yet, as the subtraction of naturals.\<close>

definition kept :: "nat \<Rightarrow> nat \<Rightarrow> cache_entry \<Rightarrow> bool" where
  "kept ttl now e \<longleftrightarrow> now - ce_since e < ttl"

definition cache_get :: "nat \<Rightarrow> string \<Rightarrow> bytes \<Rightarrow> 's cached \<Rightarrow> bytes option" where
  "cache_get now tenant wrapped c =
    (case map_of (ca_entries c) (tenant, wrapped) of
       None \<Rightarrow> None
     | Some e \<Rightarrow> if kept (ca_ttl c) now e then Some (ce_key e) else None)"

text \<open>The oldest of the entries as they are listed: the first of those of the least instant.\<close>

fun oldest :: "cache_entries \<Rightarrow> (string \<times> bytes) option" where
  "oldest [] = None"
| "oldest ((i, e) # es) =
    (case oldest es of
       None \<Rightarrow> Some i
     | Some j \<Rightarrow> (case map_of es j of
         Some f \<Rightarrow> if ce_since f < ce_since e then Some j else Some i
       | None \<Rightarrow> Some i))"

function make_room :: "(cache_entries \<Rightarrow> cache_entries) \<Rightarrow> nat \<Rightarrow> cache_entries \<Rightarrow> cache_entries" where
  "make_room order capacity es =
    (if length es < capacity then es
     else case oldest (order es) of
       None \<Rightarrow> es
     | Some i \<Rightarrow>
         let rest = AList.delete i es in
         if length rest < length es then make_room order capacity rest else es)"
  by pat_completeness auto

termination
  by (relation "measure (\<lambda>(order, capacity, es). length es)") simp_all

declare make_room.simps [simp del]

definition cache_put :: "(cache_entries \<Rightarrow> cache_entries) \<Rightarrow> nat \<Rightarrow> string \<Rightarrow> bytes \<Rightarrow> bytes \<Rightarrow> 's cached \<Rightarrow> 's cached" where
  "cache_put order now tenant wrapped key c =
    (if ca_capacity c = 0 \<or> ca_ttl c = 0 then c
     else let live = filter (\<lambda>(i, e). kept (ca_ttl c) now e) (ca_entries c) in
       c\<lparr>ca_entries := AList.update (tenant, wrapped) \<lparr>ce_key = key, ce_since = now\<rparr>
         (make_room order (ca_capacity c) live)\<rparr>)"

definition cache_forget :: "string \<Rightarrow> 's cached \<Rightarrow> 's cached" where
  "cache_forget tenant c = c\<lparr>ca_entries := filter (\<lambda>((t, w), e). t \<noteq> tenant) (ca_entries c)\<rparr>"

text \<open>What the service does, with the cache beside.\<close>

definition behind :: "('s, 'a) act \<Rightarrow> ('s cached, 'a) act" where
  "behind m c = map_option (\<lambda>(r, s). (r, c\<lparr>ca_kms := s\<rparr>)) (m (ca_kms c))"

definition cached_decrypt_dek :: "(cache_entries \<Rightarrow> cache_entries) \<Rightarrow> nat
    \<Rightarrow> (string \<Rightarrow> bytes \<Rightarrow> ('s, bytes) act) \<Rightarrow> string \<Rightarrow> bytes \<Rightarrow> ('s cached, bytes) act" where
  "cached_decrypt_dek order now decrypt tenant wrapped c =
    (case cache_get now tenant wrapped c of
       Some key \<Rightarrow> ret key c
     | None \<Rightarrow> bindA (behind (decrypt tenant wrapped))
         (\<lambda>key c1. ret key (cache_put order now tenant wrapped key c1)) c)"

definition cached_retire :: "(string \<Rightarrow> u32 \<Rightarrow> ('s, unit) act) \<Rightarrow> string \<Rightarrow> u32 \<Rightarrow> ('s cached, unit) act" where
  "cached_retire retire tenant version =
    bindA (behind (retire tenant version)) (\<lambda>_ c. ret () (cache_forget tenant c))"

definition cached_delete :: "(string \<Rightarrow> ('s, unit) act) \<Rightarrow> string \<Rightarrow> ('s cached, unit) act" where
  "cached_delete delete tenant = bindA (behind (delete tenant)) (\<lambda>_ c. ret () (cache_forget tenant c))"


section \<open>What the cache of unwrapped keys promises\<close>

text \<open>
  Beside the cache runs what the service behind it last answered for a tenant and a wrapped key, and
  when, since the tenant's keys were last forgotten.
\<close>

datatype cache_call = Decrypt nat string bytes | Retire string u32 | Delete string

type_synonym answers = "string \<times> bytes \<Rightarrow> (bytes \<times> nat) option"

record 's behind_cache =
  bc_decrypt :: "string \<Rightarrow> bytes \<Rightarrow> ('s, bytes) act"
  bc_retire :: "string \<Rightarrow> u32 \<Rightarrow> ('s, unit) act"
  bc_delete :: "string \<Rightarrow> ('s, unit) act"

fun cache_step :: "(cache_entries \<Rightarrow> cache_entries) \<Rightarrow> 's behind_cache \<Rightarrow> cache_call
    \<Rightarrow> ('s cached, bytes option) act" where
  "cache_step order s (Decrypt now t w) =
    bindA (cached_decrypt_dek order now (bc_decrypt s) t w) (\<lambda>key. ret (Some key))"
| "cache_step order s (Retire t v) = bindA (cached_retire (bc_retire s) t v) (\<lambda>_. ret None)"
| "cache_step order s (Delete t) = bindA (cached_delete (bc_delete s) t) (\<lambda>_. ret None)"

definition forgotten :: "string \<Rightarrow> answers \<Rightarrow> answers" where
  "forgotten t h = (\<lambda>(t1, w). if t1 = t then None else h (t1, w))"

fun noted :: "cache_call \<Rightarrow> 's cached \<Rightarrow> (kms_error, bytes option) result \<Rightarrow> answers \<Rightarrow> answers" where
  "noted (Decrypt now t w) c (Inr (Some key)) h =
    (if cache_get now t w c = None then h((t, w) \<mapsto> (key, now)) else h)"
| "noted (Retire t v) c (Inr a) h = forgotten t h"
| "noted (Delete t) c (Inr a) h = forgotten t h"
| "noted call c r h = h"

fun cache_run :: "(cache_entries \<Rightarrow> cache_entries) \<Rightarrow> 's behind_cache \<Rightarrow> cache_call list \<Rightarrow> 's cached \<times> answers
    \<Rightarrow> ('s cached \<times> answers) option" where
  "cache_run order s [] (c, h) = Some (c, h)"
| "cache_run order s (call # calls) (c, h) =
    (case cache_step order s call c of
       None \<Rightarrow> None
     | Some (r, c1) \<Rightarrow> cache_run order s calls (c1, noted call c r h))"

definition cache_ok :: "nat \<Rightarrow> nat \<Rightarrow> 's cached \<Rightarrow> answers \<Rightarrow> bool" where
  "cache_ok capacity ttl c h \<longleftrightarrow> ca_capacity c = capacity \<and> ca_ttl c = ttl
    \<and> (ttl = 0 \<longrightarrow> ca_entries c = [])
    \<and> distinct (map fst (ca_entries c)) \<and> length (ca_entries c) \<le> capacity
    \<and> (\<forall>(i, e)\<in>set (ca_entries c). h i = Some (ce_key e, ce_since e))"

subsection \<open>Making room\<close>

lemma oldest_in: "oldest es = Some i \<Longrightarrow> i \<in> fst ` set es"
  by (induction es arbitrary: i) (auto split: option.splits if_splits)

lemma oldest_none: "oldest es = None \<longleftrightarrow> es = []"
  by (cases es) (auto split: option.splits)

lemma delete_filter: "AList.delete i es = filter (\<lambda>p. fst p \<noteq> i) es"
  by (induction es) (auto simp: AList.delete_eq)

lemma delete_shrinks: "i \<in> fst ` set es \<Longrightarrow> length (AList.delete i es) < length es"
  unfolding delete_filter by (auto intro!: length_filter_less)

lemma make_room_is:
  assumes "\<And>es. set (order es) = set es" "0 < capacity" "distinct (map fst es)"
  shows "set (make_room order capacity es) \<subseteq> set es \<and> distinct (map fst (make_room order capacity es))
    \<and> length (make_room order capacity es) < capacity"
  using assms(3)
proof (induction "length es" arbitrary: es rule: less_induct)
  case less
  show ?case
  proof (cases "length es < capacity")
    case True
    then show ?thesis using less.prems by (subst (1 2 3) make_room.simps) simp
  next
    case False
    then have "order es \<noteq> []" using assms(1) [of es] assms(2) by auto
    then obtain i where i: "oldest (order es) = Some i" using oldest_none by fastforce
    then have s: "length (AList.delete i es) < length es"
      using oldest_in [OF i] assms(1) by (intro delete_shrinks) auto
    have d: "distinct (map fst (AList.delete i es))"
      using less.prems by (simp add: delete_filter distinct_map_filter)
    have "make_room order capacity es = make_room order capacity (AList.delete i es)"
      using False i s by (subst make_room.simps) (simp add: Let_def)
    moreover have "set (AList.delete i es) \<subseteq> set es" by (auto simp: delete_filter)
    ultimately show ?thesis using less.hyps [OF s d] by auto
  qed
qed

lemma update_entries:
  assumes "distinct (map fst es)"
  shows "distinct (map fst (AList.update i e es))"
    "set (AList.update i e es) = insert (i, e) {p \<in> set es. fst p \<noteq> i}"
    "length (AList.update i e es) \<le> Suc (length es)"
  using assms
proof (induction es)
  case (Cons p es)
  {
    case 1 then show ?case using Cons.IH by (cases p) (auto simp: update_keys)
  next
    case 2 then show ?case using Cons.IH by (cases p) force
  next
    case 3 then show ?case using Cons.IH by (cases p) auto
  }
qed simp_all

lemma put_ok:
  assumes "\<And>es. set (order es) = set es" "cache_ok capacity ttl c h" "h1 = h((t, w) \<mapsto> (key, now))"
  shows "cache_ok capacity ttl (cache_put order now t w key c) h1"
proof (cases "capacity = 0 \<or> ttl = 0")
  case True
  then have "cache_put order now t w key c = c" "ca_entries c = []"
    using assms(2) by (auto simp: cache_ok_def cache_put_def)
  then show ?thesis using assms(2) by (simp add: cache_ok_def)
next
  case False
  define live where "live = filter (\<lambda>(i, e). kept (ca_ttl c) now e) (ca_entries c)"
  define es where "es = make_room order capacity live"
  have "distinct (map fst live)" using assms(2) by (simp add: live_def cache_ok_def distinct_map_filter)
  then have es: "set es \<subseteq> set live" "distinct (map fst es)" "length es < capacity"
    using make_room_is [OF assms(1), where capacity = capacity and es = live] False by (auto simp: es_def)
  have put: "cache_put order now t w key c
      = c\<lparr>ca_entries := AList.update (t, w) \<lparr>ce_key = key, ce_since = now\<rparr> es\<rparr>"
    using False assms(2) by (simp add: cache_put_def cache_ok_def es_def live_def)
  have "set es \<subseteq> set (ca_entries c)" using es(1) by (auto simp: live_def)
  then show ?thesis
    using assms(2,3) update_entries [OF es(2), of "(t, w)" "\<lparr>ce_key = key, ce_since = now\<rparr>"] es(3) False
    unfolding put cache_ok_def by auto
qed

lemma forget_ok:
  "cache_ok capacity ttl c h \<Longrightarrow> cache_ok capacity ttl (cache_forget t c) (forgotten t h)"
  by (auto simp: cache_ok_def cache_forget_def forgotten_def distinct_map_filter
    intro: le_trans [OF length_filter_le])

lemma behind_ok:
  "behind m c = Some (r, c1) \<Longrightarrow> cache_ok capacity ttl c h \<Longrightarrow> cache_ok capacity ttl c1 h"
  by (auto simp: behind_def cache_ok_def)

lemma step_ok:
  assumes order: "\<And>es. set (order es) = set es" and ok: "cache_ok capacity ttl c h"
    and step: "cache_step order s call c = Some (r, c1)"
  shows "cache_ok capacity ttl c1 (noted call c r h)"
proof (cases call)
  case (Decrypt now t w)
  show ?thesis
  proof (cases "cache_get now t w c")
    case (Some key)
    then have "r = Inr (Some key)" "c1 = c" using step Decrypt
      by (simp_all add: cached_decrypt_dek_def bindA_def ret_def)
    then show ?thesis using ok Decrypt Some by simp
  next
    case None
    then obtain r2 c2 where b: "behind (bc_decrypt s t w) c = Some (r2, c2)"
      using step Decrypt by (cases "behind (bc_decrypt s t w) c") (auto simp: cached_decrypt_dek_def bindA_def)
    show ?thesis
    proof (cases r2)
      case (Inl e)
      then show ?thesis using step Decrypt None b behind_ok [OF b ok]
        by (auto simp: cached_decrypt_dek_def bindA_def)
    next
      case (Inr key)
      then have "r = Inr (Some key)" "c1 = cache_put order now t w key c2"
        using step Decrypt None b by (simp_all add: cached_decrypt_dek_def bindA_def ret_def)
      then show ?thesis using put_ok [OF order behind_ok [OF b ok] refl] Decrypt None by simp
    qed
  qed
next
  case (Retire t v)
  then show ?thesis using step ok
    by (auto simp: cached_retire_def bindA_def ret_def split: option.splits sum.splits prod.splits
      intro!: forget_ok intro: behind_ok)
next
  case (Delete t)
  then show ?thesis using step ok
    by (auto simp: cached_delete_def bindA_def ret_def split: option.splits sum.splits prod.splits
      intro!: forget_ok intro: behind_ok)
qed

lemma run_ok:
  assumes "\<And>es. set (order es) = set es"
  shows "cache_run order s calls (c, h) = Some (c1, h1) \<Longrightarrow> cache_ok capacity ttl c h \<Longrightarrow> cache_ok capacity ttl c1 h1"
proof (induction calls arbitrary: c h)
  case (Cons call calls)
  obtain r c2 where "cache_step order s call c = Some (r, c2)" "cache_run order s calls (c2, noted call c r h) = Some (c1, h1)"
    using Cons.prems(1) by (auto split: option.splits)
  then show ?case using step_ok [OF assms Cons.prems(2)] Cons.IH by blast
qed simp

lemma get_ok:
  assumes "cache_ok capacity ttl c h" "cache_get now t w c = Some key"
  shows "\<exists>since. h (t, w) = Some (key, since) \<and> now - since < ttl"
  using assms by (auto simp: cache_get_def cache_ok_def kept_def split: option.splits if_splits dest!: map_of_SomeD)

end
