(* ===== verification/Kms_Custody_Properties.thy ===== *)
theory Kms_Custody_Properties
  imports Kms_Properties Kms_Cache
begin

section \<open>Properties of custody and of the cache\<close>

text \<open>
  The contract of custody, on the keys in memory and in PostgreSQL through the interpretations of its locale,
  and the promises of the cache.
\<close>

definition custody_calls :: "custody_call list" where
  "custody_calls = [Rotate_key, Create_key, Rotate_key, Retire_before 2, Retire_before 5, Rotate_key, Delete_key, Create_key]"

definition no_memory :: "nat memory_keys" where
  "no_memory = \<lparr>my_signing = [], my_mac = [], my_managed = False, my_random = 1\<rparr>"

definition without_failure :: "(kms_error, u32 option) result list \<Rightarrow> bool" where
  "without_failure rs \<longleftrightarrow> list_all (\<lambda>r. case r of Inl e \<Rightarrow> \<not> of_the_keys e | Inr a \<Rightarrow> True) rs"

text \<open>
  C26: given the same calls of custody, the keys in memory and the keys in PostgreSQL answer alike: the
  same versions, the same refusals. It holds for fewer calls than the column of versions can count, of
  any two services and sources of randomness, as long as neither fails for the keys themselves.
\<close>
theorem memory_answers_as_postgres:
  assumes pg: "run_calls (signing_custody cy sv tenant a) cs st = Some (rs, st1)"
    and memory: "run_calls (memory_signing_custody cy' tenant a) cs ms = Some (rs', ms1)"
    and fresh: "rows_of (tenant, sa_as_str a) (tb_signing st) = []" "map_of (my_signing ms) (tenant, a) = None"
    and room: "length cs < 2 ^ 31" and served: "without_failure (rs @ rs')"
  shows "rs = rs'"
proof (rule keepers_agree [OF pg_signing.keyring_custody_axioms memory_signing.keyring_custody_axioms pg memory])
  show "row_ring (tenant, sa_as_str a) (tb_signing st) None" using fresh(1) by (simp add: row_ring_def versions_in_def)
  show "mem_ring (entry_or_default (my_signing ms) (tenant, a)) None" using fresh(2) by (simp add: entry_or_default_def)
  show "latest_of None + length cs \<le> min INTEGER_MAX U32_MAX"
    using room by (simp add: latest_of_def INTEGER_MAX_def U32_MAX_def)
qed (rule served [unfolded without_failure_def])

lemmas signing_defs = pg_create_signing_def pg_rotate_signing_def pg_retire_signing_def pg_delete_signing_def
  pg_no_scheduler_def latest_signing_def latest_version_def rows_of_def pg_scope_def bindA_def optional_def silent_def
  pg_make_signing_def pg_save_signing_def drawing_def signing_key_generate.simps draw_bytes_def clear_simps
  signing_key_from_seed_def signing_key_load_def ed_signing_key_def signing_key_name_def signing_name_of_def
  pg_master_key_def master_new_def aes_new_def master_wrap_def master_cipher_def wrapped_wrap_def aes_encrypt_def
  encrypt_with_def stored_version_def put_signing_rows_def insert_row_def row_of_version_def read_version_def
  existing_def retirement_def delete_below_def delete_all_def KEY_SIZE_def NONCE_SIZE_def TAG_SIZE_def

lemmas memory_defs = memory_create_signing_key_def memory_no_scheduler_def memory_push_signing_def put_signing_def
  on_random_def ring_push_def ring_default_def saturating_succ_def memory_rotate_signing_key_def memory_ring_def
  ring_with_key_def memory_retire_signing_def ring_retire_before_def memory_delete_signing_def entry_or_default_def

lemma custody_run:
  "\<exists>rs st1. run_calls (signing_custody clear_crypto some_service ''a'' Ed25519) custody_calls no_keys = Some (rs, st1)
    \<and> rs = [Inl (SigningKeyNotFound ''a'' Ed25519), Inr (Some 1), Inr (Some 2), Inr None, Inl (NoKeyOfVersion 5),
      Inr (Some 3), Inr None, Inr (Some 1)]"
  by (simp add: custody_calls_def no_keys_def some_service_def pg_service_new_def signing_defs del: replicate_Suc)

lemma memory_run:
  "\<exists>rs st1. run_calls (memory_signing_custody clear_crypto ''a'' Ed25519) custody_calls no_memory = Some (rs, st1)
    \<and> without_failure rs"
  by (simp add: custody_calls_def no_memory_def without_failure_def memory_defs signing_defs del: replicate_Suc)

lemma memory_answers_as_postgres_witness:
  "\<exists>rs st1 ms1.
    run_calls (signing_custody clear_crypto some_service ''a'' Ed25519) custody_calls no_keys = Some (rs, st1)
    \<and> run_calls (memory_signing_custody clear_crypto ''a'' Ed25519) custody_calls no_memory = Some (rs, ms1)
    \<and> rs = [Inl (SigningKeyNotFound ''a'' Ed25519), Inr (Some 1), Inr (Some 2), Inr None, Inl (NoKeyOfVersion 5),
      Inr (Some 3), Inr None, Inr (Some 1)]"
proof -
  obtain rs st1 where p: "run_calls (signing_custody clear_crypto some_service ''a'' Ed25519) custody_calls no_keys
      = Some (rs, st1)" and rs: "rs = [Inl (SigningKeyNotFound ''a'' Ed25519), Inr (Some 1), Inr (Some 2), Inr None,
      Inl (NoKeyOfVersion 5), Inr (Some 3), Inr None, Inr (Some 1)]"
    using custody_run by blast
  obtain rs' ms1 where m: "run_calls (memory_signing_custody clear_crypto ''a'' Ed25519) custody_calls no_memory
      = Some (rs', ms1)" "without_failure rs'" using memory_run by blast
  have "rs = rs'"
    by (rule memory_answers_as_postgres [OF p m(1)])
      (use m(2) in \<open>simp_all add: rs without_failure_def no_keys_def no_memory_def rows_of_def custody_calls_def\<close>)
  then show ?thesis using p m(1) rs by blast
qed

text \<open>
  The rotations of a tenant's KEK answer the versions after the latest, one by one and each once,
  whatever is created and retired between them, as long as the key is not deleted; and the latest
  version is in the table afterwards.
\<close>
theorem rotations_count_up:
  assumes "run_calls (kek_custody cy sv t) cs st = Some (rs, st1)"
    and "row_ring t (tb_keks st) (Some (low, high))" "high + length cs < 2 ^ 31" "Delete_key \<notin> set cs"
  shows "\<exists>low1 m. rotated cs rs = map of_nat [Suc high..<Suc m] \<and> row_ring t (tb_keks st1) (Some (low1, m))"
proof -
  have "latest_of (Some (low, high)) + length cs \<le> INTEGER_MAX"
    using assms(3) by (simp add: latest_of_def INTEGER_MAX_def)
  from pg_kek.run_follows [OF assms(1,2) this] obtain k2
    where k2: "follows (KekNotFound t None) (Some (low, high)) cs rs k2" "row_ring t (tb_keks st1) k2" by blast
  then obtain low1 m where "k2 = Some (low1, m)" using follows_rotated [OF k2(1) assms(4)] by auto
  then show ?thesis using follows_rotated [OF k2(1) assms(4)] k2(2) by (auto simp: latest_of_def simp del: upt_Suc)
qed

definition rotations :: "custody_call list" where
  "rotations = [Rotate_key, Create_key, Retire_before 2, Rotate_key, Retire_before 9]"

lemma rotation_run:
  "\<exists>k st1. pg_create_kek clear_crypto some_service ''a'' None no_keys = Some (Inr k, st1)
    \<and> row_ring ''a'' (tb_keks st1) (Some (1, 1))
    \<and> (\<exists>rs st2. run_calls (kek_custody clear_crypto some_service ''a'') rotations st1 = Some (rs, st2)
        \<and> rotated rotations rs = [2, 3])"
  by (simp add: rotations_def no_keys_def some_service_def kek_defs pg_create_kek_def pg_no_scheduler_def clear_simps
    KEY_SIZE_def NONCE_SIZE_def TAG_SIZE_def MASTER_KEY_VERSION_def row_ring_def versions_in_def INTEGER_MAX_def
    del: replicate_Suc list.set_map set_filter)

lemma rotations_count_up_witness:
  "\<exists>st1 rs st2 low1 m. row_ring ''a'' (tb_keks st1) (Some (1, 1))
    \<and> run_calls (kek_custody clear_crypto some_service ''a'') rotations st1 = Some (rs, st2)
    \<and> rotated rotations rs = [2, 3] \<and> row_ring ''a'' (tb_keks st2) (Some (low1, m))"
proof -
  obtain st1 rs st2 where r: "row_ring ''a'' (tb_keks st1) (Some (1, 1))"
      "run_calls (kek_custody clear_crypto some_service ''a'') rotations st1 = Some (rs, st2)"
      "rotated rotations rs = [2, 3]"
    using rotation_run by blast
  have "length rotations < 100" "Delete_key \<notin> set rotations" by (simp_all add: rotations_def)
  then obtain low1 m where "row_ring ''a'' (tb_keks st2) (Some (low1, m))"
    using rotations_count_up [OF r(2,1)] by auto
  then show ?thesis using r by blast
qed

text \<open>
  C27: the cache never holds more keys than its capacity, and a key it hands out without asking is what
  the service behind it last answered for that tenant and wrapped key, less than the time to live ago
  and since the tenant's keys were last retired or deleted through the cache.
\<close>
theorem cached_key_is_the_services:
  assumes order: "\<And>es. set (order es) = set es"
    and run: "cache_run order s calls (with_ttl ttl (with_capacity capacity (cached_new kms)), Map.empty) = Some (c, h)"
  shows "length (ca_entries c) \<le> capacity
    \<and> cache_get now t w c \<in> {None} \<union> {Some key | key since. h (t, w) = Some (key, since) \<and> now - since < ttl}"
proof -
  have "cache_ok capacity ttl (with_ttl ttl (with_capacity capacity (cached_new kms))) Map.empty"
    by (simp add: cache_ok_def with_ttl_def with_capacity_def cached_new_def)
  from run_ok [OF order run this] have ok: "cache_ok capacity ttl c h" .
  then show ?thesis using get_ok [OF ok, of now t w]
    by (cases "cache_get now t w c") (auto simp: cache_ok_def)
qed

definition echo :: "unit behind_cache" where
  "echo = \<lparr>bc_decrypt = \<lambda>t w. ret (w @ [1]), bc_retire = \<lambda>t v. ret (), bc_delete = \<lambda>t. ret ()\<rparr>"

definition cache_calls :: "cache_call list" where
  "cache_calls = [Decrypt 0 ''a'' [5], Decrypt 1 ''b'' [6], Decrypt 2 ''b'' [7], Delete ''b'', Decrypt 3 ''b'' [8]]"

lemma cache_calls_run:
  "\<exists>c h. cache_run id echo cache_calls (with_ttl 9 (with_capacity 2 (cached_new ())), Map.empty) = Some (c, h)
    \<and> length (ca_entries c) = 1 \<and> cache_get 4 ''b'' [8] c = Some [8, 1]"
  by (simp add: cache_calls_def echo_def cached_new_def with_ttl_def with_capacity_def cached_decrypt_dek_def
    cache_get_def bindA_def behind_def ret_def cache_put_def kept_def make_room.simps Let_def cached_delete_def
    cache_forget_def)

lemma cached_key_is_the_services_witness:
  "\<exists>c h. cache_run id echo cache_calls (with_ttl 9 (with_capacity 2 (cached_new ())), Map.empty) = Some (c, h)
    \<and> length (ca_entries c) \<le> 2 \<and> cache_get 4 ''b'' [8] c = Some [8, 1]
    \<and> cache_get 4 ''b'' [8] c \<in> {None} \<union> {Some key | key since. h (''b'', [8]) = Some (key, since) \<and> 4 - since < 9}"
proof -
  obtain c h where r: "cache_run id echo cache_calls (with_ttl 9 (with_capacity 2 (cached_new ())), Map.empty) = Some (c, h)"
    "cache_get 4 ''b'' [8] c = Some [8, 1]" using cache_calls_run by blast
  then show ?thesis using cached_key_is_the_services [of id, OF _ r(1)] by (intro exI conjI) auto
qed

end
