(* ===== verification/Outbox_Snapshot.thy ===== *)
theory Outbox_Snapshot
  imports Prelude
begin

section \<open>Snapshots, and the ring of generations\<close>

text \<open>
  \<open>crates/outbox/src/message.rs\<close> and \<open>crates/outbox/src/pg/ring.rs\<close>: a snapshot of PostgreSQL's
  transactions, the position of a consumer group, and the ring of partitions the table of messages is
  cut into. The ids of transactions are of 64 bits; no operation here leaves them, so they are naturals,
  and the bound shows where a text is read.
\<close>

subsection \<open>Snapshots\<close>

record snapshot =
  sn_xmin :: nat
  sn_xmax :: nat
  sn_xip :: "nat list"

definition snapshot_nothing :: snapshot where
  "snapshot_nothing = \<lparr>sn_xmin = 1, sn_xmax = 1, sn_xip = []\<rparr>"

definition sees :: "snapshot \<Rightarrow> nat \<Rightarrow> bool" where
  "sees s xid \<longleftrightarrow> xid < sn_xmin s \<or> (xid < sn_xmax s \<and> xid \<notin> set (sn_xip s))"

definition below :: "nat \<Rightarrow> snapshot \<Rightarrow> snapshot" where
  "below xid s = \<lparr>sn_xmin = min (sn_xmin s) xid, sn_xmax = min (sn_xmax s) xid,
    sn_xip = filter (\<lambda>x. x < xid) (sn_xip s)\<rparr>"

definition show_snapshot :: "snapshot \<Rightarrow> string" where
  "show_snapshot s = show_nat (sn_xmin s) @ '':'' @ show_nat (sn_xmax s) @ '':'' @
    join_with '','' (map show_nat (sn_xip s))"

text \<open>\<open>str::parse::<u64>\<close>: digits, a plus sign before them allowed, within 64 bits.\<close>

definition parse_u64 :: "string \<Rightarrow> nat option" where
  "parse_u64 s =
    (let digits = (case s of c # cs \<Rightarrow> if c = CHR ''+'' then cs else s | [] \<Rightarrow> s) in
     case read_nat digits of None \<Rightarrow> None | Some n \<Rightarrow> if n < 2 ^ 64 then Some n else None)"

text \<open>\<open>splitn(n, c)\<close>: the last part is what is left.\<close>

fun splitn :: "nat \<Rightarrow> char \<Rightarrow> string \<Rightarrow> string list" where
  "splitn n c [] = [[]]"
| "splitn n c (x # xs) =
    (if n \<le> 1 then [x # xs]
     else if x = c then [] # splitn (n - 1) c xs
     else case splitn n c xs of [] \<Rightarrow> [[x]] | p # ps \<Rightarrow> (x # p) # ps)"

definition malformed_snapshot :: "string \<Rightarrow> string" where
  "malformed_snapshot text = ''snapshot '' @ [CHR 0x60] @ text @ [CHR 0x60]"

definition snapshot_from_str :: "string \<Rightarrow> (string, snapshot) result" where
  "snapshot_from_str text =
    (let number = (\<lambda>part. ok_or (malformed_snapshot text) (parse_u64 part)) in
     case splitn 3 (CHR '':'') text of
       [xmin, xmax, xip] \<Rightarrow>
         and_then (number xmin) (\<lambda>xmin.
         and_then (number xmax) (\<lambda>xmax.
         and_then (if xip = [] then Inr [] else collect_results (map number (split_on (CHR '','') xip))) (\<lambda>xip.
           Inr \<lparr>sn_xmin = xmin, sn_xmax = xmax, sn_xip = xip\<rparr>)))
     | _ \<Rightarrow> Inl (malformed_snapshot text))"

subsection \<open>Positions\<close>

record generation_span =
  gn_generation :: nat
  gn_first :: int
  gn_last :: int

record epoch =
  ep_snapshot :: snapshot
  ep_offset :: int
  ep_end :: "int option"
  ep_generations :: "generation_span list"

record place =
  pl_delivered :: snapshot
  pl_epoch :: "epoch option"

datatype move = ToStart | ToXid nat | ToNow

subsection \<open>The ring\<close>

record ring_shape =
  ri_generations :: nat
  ri_window :: nat

definition ring_default_shape :: ring_shape where
  "ring_default_shape = \<lparr>ri_generations = 8, ri_window = 2 ^ 23\<rparr>"

definition ring_shape_new :: "nat \<Rightarrow> nat \<Rightarrow> ring_shape" where
  "ring_shape_new generations window =
    \<lparr>ri_generations = min (max generations 2) (2 ^ 15 - 1), ri_window = max window 1\<rparr>"

definition generation_of :: "ring_shape \<Rightarrow> nat \<Rightarrow> nat" where
  "generation_of ring xid = (xid div ri_window ring) mod ri_generations ring"

definition generations_between :: "ring_shape \<Rightarrow> nat \<Rightarrow> nat \<Rightarrow> nat set" where
  "generations_between ring lo hi =
    (if hi \<le> lo then {}
     else let first = lo div ri_window ring; last = (hi - 1) div ri_window ring in
       if ri_generations ring \<le> last - first + 1 then {0..<ri_generations ring}
       else (\<lambda>w. w mod ri_generations ring) ` {first..last})"

definition ring_generations_new :: "ring_shape \<Rightarrow> snapshot \<Rightarrow> snapshot \<Rightarrow> nat set" where
  "ring_generations_new ring delivered epoch =
    generations_between ring (sn_xmax delivered) (sn_xmax epoch)
    \<union> generation_of ring ` set (filter (sees epoch) (sn_xip delivered))"

subsection \<open>What is new to a position\<close>

definition ring_ok :: "ring_shape \<Rightarrow> bool" where
  "ring_ok ring \<longleftrightarrow> 2 \<le> ri_generations ring \<and> 1 \<le> ri_window ring"

definition snapshot_ok :: "snapshot \<Rightarrow> bool" where
  "snapshot_ok s \<longleftrightarrow> sn_xmin s \<le> sn_xmax s \<and> (\<forall>x\<in>set (sn_xip s). sn_xmin s \<le> x \<and> x < sn_xmax s)"

lemma ring_shape_new_ok: "ring_ok (ring_shape_new n w)" "ring_ok ring_default_shape"
  by (simp_all add: ring_ok_def ring_shape_new_def ring_default_shape_def)

lemma sees_nothing [simp]: "sees snapshot_nothing x \<longleftrightarrow> x < 1"
  by (auto simp: sees_def snapshot_nothing_def)

lemma snapshot_nothing_ok [simp]: "snapshot_ok snapshot_nothing"
  by (simp add: snapshot_ok_def snapshot_nothing_def)

lemma sees_below: "snapshot_ok s \<Longrightarrow> sees (below x s) y \<longleftrightarrow> sees s y \<and> y < x"
  by (auto simp: sees_def below_def snapshot_ok_def)

lemma below_ok [simp]: "snapshot_ok s \<Longrightarrow> snapshot_ok (below x s)"
  by (auto simp: below_def snapshot_ok_def)

lemma sees_xmax: "snapshot_ok s \<Longrightarrow> sees s x \<Longrightarrow> x < sn_xmax s"
  by (auto simp: sees_def snapshot_ok_def)

lemma new_xid:
  assumes "snapshot_ok d" "\<not> sees d x"
  shows "sn_xmax d \<le> x \<or> x \<in> set (sn_xip d)"
  using assms by (auto simp: sees_def snapshot_ok_def not_less)

lemma generations_between_iff:
  assumes "ring_ok ring"
  shows "g \<in> generations_between ring lo hi \<longleftrightarrow> (\<exists>x. lo \<le> x \<and> x < hi \<and> generation_of ring x = g)"
proof (cases "hi \<le> lo")
  case True
  then show ?thesis by (auto simp: generations_between_def)
next
  case False
  let ?r = "ri_window ring" and ?k = "ri_generations ring"
  let ?first = "lo div ?r" and ?last = "(hi - 1) div ?r"
  have r: "0 < ?r" "0 < ?k" using assms by (auto simp: ring_ok_def)
  have windows: "(\<exists>x. lo \<le> x \<and> x < hi \<and> x div ?r = w) \<longleftrightarrow> ?first \<le> w \<and> w \<le> ?last" for w
  proof
    assume "\<exists>x. lo \<le> x \<and> x < hi \<and> x div ?r = w"
    then obtain x where "lo \<le> x" "x \<le> hi - 1" "x div ?r = w" by auto
    then show "?first \<le> w \<and> w \<le> ?last" by (auto intro: div_le_mono)
  next
    assume w: "?first \<le> w \<and> w \<le> ?last"
    let ?x = "max lo (w * ?r)"
    have "w * ?r \<le> hi - 1" using w r by (metis div_times_less_eq_dividend le_trans mult_le_mono1)
    then have "?x < hi" using False by auto
    moreover have "?x div ?r = w"
    proof (cases "lo \<le> w * ?r")
      case True then show ?thesis using r by (simp add: max_def)
    next
      case False
      then have "w \<le> lo div ?r" using r by (metis div_le_mono div_mult_self_is_m less_imp_le_nat not_less)
      then show ?thesis using w False by (simp add: max_def)
    qed
    ultimately show "\<exists>x. lo \<le> x \<and> x < hi \<and> x div ?r = w" by (intro exI [of _ ?x]) simp
  qed
  have all: "\<exists>w. ?first \<le> w \<and> w \<le> ?last \<and> w mod ?k = g" if "?k \<le> ?last - ?first + 1" "g < ?k"
  proof -
    let ?w = "?first + (g + ?k - ?first mod ?k) mod ?k"
    have "?w mod ?k = g"
    proof -
      have m: "?first mod ?k < ?k" using r by simp
      have "?w mod ?k = (?first mod ?k + (g + ?k - ?first mod ?k)) mod ?k" by (simp add: mod_simps)
      also have "\<dots> = (g + ?k) mod ?k" using m by simp
      finally show ?thesis using that(2) by simp
    qed
    moreover have "(g + ?k - ?first mod ?k) mod ?k < ?k" using r by simp
    moreover have "?first \<le> ?last" using False by (auto intro: div_le_mono)
    ultimately show ?thesis using that(1) by (intro exI [of _ ?w]) linarith
  qed
  show ?thesis
  proof (cases "?k \<le> ?last - ?first + 1")
    case True
    then have "generations_between ring lo hi = {0..<?k}" using False by (simp add: generations_between_def Let_def)
    moreover have "(\<exists>x. lo \<le> x \<and> x < hi \<and> generation_of ring x = g) \<longleftrightarrow> g < ?k"
      using all [OF True] windows r unfolding generation_of_def by (metis mod_less_divisor)
    ultimately show ?thesis by simp
  next
    case notall: False
    then have "generations_between ring lo hi = (\<lambda>w. w mod ?k) ` {?first..?last}"
      using False by (simp add: generations_between_def Let_def)
    then have "g \<in> generations_between ring lo hi \<longleftrightarrow> (\<exists>w. (?first \<le> w \<and> w \<le> ?last) \<and> w mod ?k = g)"
      by auto
    then show ?thesis unfolding windows [symmetric] generation_of_def by blast
  qed
qed

text \<open>The names are the generations of the ids that are new, and of no other.\<close>

lemma ring_generations_new_iff:
  assumes "ring_ok ring"
  shows "g \<in> ring_generations_new ring d e \<longleftrightarrow> (\<exists>x. generation_of ring x = g
    \<and> ((sn_xmax d \<le> x \<and> x < sn_xmax e) \<or> (x \<in> set (sn_xip d) \<and> sees e x)))"
  using generations_between_iff [OF assms] by (auto simp: ring_generations_new_def)

lemma generation_named:
  assumes "ring_ok ring" "snapshot_ok d" "snapshot_ok e" "sees e x" "\<not> sees d x"
  shows "generation_of ring x \<in> ring_generations_new ring d e"
  using assms new_xid [OF assms(2,5)] sees_xmax [OF assms(3,4)] by (auto simp: ring_generations_new_iff)

subsection \<open>A snapshot and its text\<close>

lemma splitn_part:
  "c \<notin> set p \<Longrightarrow> 1 < n \<Longrightarrow> splitn n c (p @ c # xs) = p # splitn (n - 1) c xs"
  by (induction p) auto

lemma splitn_rest: "splitn (Suc 0) c xs = [xs]"
  by (cases xs) simp_all

lemma show_nat_no_char: "\<not> is_ascii_digit c \<Longrightarrow> c \<notin> set (show_nat n)"
  using show_nat_digits by blast

lemma parse_show_u64: "n < 2 ^ 64 \<Longrightarrow> parse_u64 (show_nat n) = Some n"
proof -
  assume n: "n < 2 ^ 64"
  have "CHR ''+'' \<notin> set (show_nat n)" by (rule show_nat_no_char) (simp add: is_ascii_digit_def)
  then have "(case show_nat n of c # cs \<Rightarrow> if c = CHR ''+'' then cs else show_nat n | [] \<Rightarrow> show_nat n) = show_nat n"
    by (auto split: list.split)
  then show ?thesis using n by (simp add: parse_u64_def)
qed

lemma collect_shown:
  "\<forall>x\<in>set xs. x < 2 ^ 64 \<Longrightarrow> collect_results (map (\<lambda>x. ok_or m (parse_u64 (show_nat x))) xs) = Inr xs"
  by (induction xs) (simp_all add: parse_show_u64)

lemma snapshot_round_trip:
  assumes "sn_xmin s < 2 ^ 64" "sn_xmax s < 2 ^ 64" "\<forall>x\<in>set (sn_xip s). x < 2 ^ 64"
  shows "snapshot_from_str (show_snapshot s) = Inr s"
proof -
  have colon: "CHR '':'' \<notin> set (show_nat n)" and comma: "CHR '','' \<notin> set (show_nat n)" for n
    by (rule show_nat_no_char; simp add: is_ascii_digit_def)+
  let ?x = "join_with '','' (map show_nat (sn_xip s))"
  have parts: "splitn 3 (CHR '':'') (show_snapshot s) = [show_nat (sn_xmin s), show_nat (sn_xmax s), ?x]"
    unfolding show_snapshot_def by (simp add: splitn_part [OF colon] splitn_rest)
  have "?x = [] \<longleftrightarrow> sn_xip s = []"
    by (cases "sn_xip s"; cases "tl (sn_xip s)") auto
  moreover have "sn_xip s \<noteq> [] \<Longrightarrow> split_on (CHR '','') ?x = map show_nat (sn_xip s)"
    by (rule split_on_join) (auto simp: comma)
  moreover have "collect_results (map (\<lambda>x. ok_or m (parse_u64 (show_nat x))) (sn_xip s)) = Inr (sn_xip s)" for m :: string
    using assms(3) by (rule collect_shown)
  ultimately show ?thesis
    using assms by (simp add: snapshot_from_str_def parts parse_show_u64 Let_def o_def)
qed

end
