(* ===== verification/Outbox_Server.thy ===== *)
theory Outbox_Server
  imports Outbox_Snapshot
begin

section \<open>The table of messages, and who writes it\<close>

text \<open>
  \<open>crates/outbox/src/error.rs\<close>, \<open>message.rs\<close> and the statements of \<open>pg/store.rs\<close> that write messages. The
  server is its rows, inserted by transactions still open or committed, the ids of the open transactions,
  the id it assigns next, one past the latest id that has ended, the sequence of positions, and the
  positions of the groups. A transaction that is rolled back takes its rows with it. The hash of a URI
  is a parameter, \<open>hashtext\<close> with its sign cleared; the values of the metadata are texts, as the producers
  of the bus write them.
\<close>

subsection \<open>Errors\<close>

record identity =
  id_channel :: string
  id_tenant :: string
  id_stream_type :: string
  id_stream_id :: string
  id_stream_position :: string

definition show_identity :: "identity \<Rightarrow> string" where
  "show_identity i = ''Tenant '' @ id_tenant i @ '', stream '' @ id_stream_type i @ '' '' @ id_stream_id i @
    '' at '' @ id_stream_position i @ '', on '' @ [CHR 0x60] @ id_channel i @ [CHR 0x60]"

datatype outbox_error =
    OSession string bool
  | ODatabase string bool
  | OSubscriber string
  | OMalformed string
  | OMigration string
  | OIdentityTaken identity
  | OSequenceCache string
  | OCounterReset string
  | OReclaimed nat nat
  | OBeyondReplayHorizon nat nat nat
  | OCopyTooLarge nat nat
  | OGroupActive string nat
  | OFormat int int

text \<open>Whether an error of the session or of the database is of the moment is known where it is met.\<close>

fun outbox_transient :: "outbox_error \<Rightarrow> bool" where
  "outbox_transient (OSession e transient) = transient"
| "outbox_transient (ODatabase e transient) = transient"
| "outbox_transient e = False"

subsection \<open>Messages and rows\<close>

record outbox_message =
  om_uri :: string
  om_payload :: string
  om_metadata :: "(string \<times> string) list"
  om_position :: "int option"
  om_transaction :: "nat option"

definition outbox_message_new :: "string \<Rightarrow> string \<Rightarrow> (string \<times> string) list \<Rightarrow> outbox_message" where
  "outbox_message_new uri payload metadata =
    \<lparr>om_uri = uri, om_payload = payload, om_metadata = metadata, om_position = None, om_transaction = None\<rparr>"

record stored_row =
  st_position :: int
  st_xid :: nat
  st_uri :: string
  st_payload :: string
  st_metadata :: "(string \<times> string) list"

definition message_of :: "stored_row \<Rightarrow> outbox_message" where
  "message_of r = \<lparr>om_uri = st_uri r, om_payload = st_payload r, om_metadata = st_metadata r,
    om_position = Some (st_position r), om_transaction = Some (st_xid r)\<rparr>"

record outbox_config =
  oc_hash :: "string \<Rightarrow> nat"
  oc_slots :: nat
  oc_ring :: ring_shape
  oc_batch :: nat
  oc_horizon :: "nat option"
  oc_margin :: nat
  oc_margin_age :: nat

definition slot_of :: "outbox_config \<Rightarrow> stored_row \<Rightarrow> nat" where
  "slot_of cf r = oc_hash cf (st_uri r) mod oc_slots cf"

definition row_generation :: "outbox_config \<Rightarrow> stored_row \<Rightarrow> nat" where
  "row_generation cf r = generation_of (oc_ring cf) (st_xid r)"

text \<open>\<open>split_part\<close>: the n-th part, from one, or nothing.\<close>

definition split_part :: "string \<Rightarrow> char \<Rightarrow> nat \<Rightarrow> string" where
  "split_part s c n = (let parts = split_on c s in if n - 1 < length parts then parts ! (n - 1) else [])"

text \<open>
  The index that guards the identities: the channel and the four fields as one array, and the part, which
  is empty when there is none; a row that lacks one of the four is exempt.
\<close>

definition guard_key :: "string \<Rightarrow> (string \<times> string) list \<Rightarrow> (string \<times> string list) option" where
  "guard_key uri md =
    (case map (map_of md) [''tenant_id'', ''stream_type'', ''stream_id'', ''stream_position''] of
       [Some t, Some y, Some i, Some p] \<Rightarrow>
         Some (split_part uri CHR ''/'' 1 @ ''//'' @ split_part uri CHR ''/'' 3,
           [t, y, i, p, case map_of md ''part'' of Some x \<Rightarrow> x | None \<Rightarrow> []])
     | _ \<Rightarrow> None)"

text \<open>\<open>split_once\<close> at \<open>://\<close>, and the channel of a URI without its key.\<close>

fun split_once :: "string \<Rightarrow> string \<Rightarrow> (string \<times> string) option" where
  "split_once sep [] = None"
| "split_once sep (x # xs) =
    (case strip_prefix sep (x # xs) of
       Some rest \<Rightarrow> Some ([], rest)
     | None \<Rightarrow> map_option (\<lambda>(a, b). (x # a, b)) (split_once sep xs))"

definition without_key :: "string \<Rightarrow> string" where
  "without_key uri =
    (case split_once ''://'' uri of
       Some (scheme, rest) \<Rightarrow>
         if CHR ''/'' \<in> set rest then scheme @ ''://'' @ takeWhile (\<lambda>c. c \<noteq> CHR ''/'') rest else uri
     | None \<Rightarrow> uri)"

definition identity_of :: "outbox_message \<Rightarrow> identity" where
  "identity_of m =
    (let field = (\<lambda>name. case map_of (om_metadata m) name of Some text \<Rightarrow> text | None \<Rightarrow> []) in
     \<lparr>id_channel = without_key (om_uri m), id_tenant = field ''tenant_id'', id_stream_type = field ''stream_type'',
       id_stream_id = field ''stream_id'', id_stream_position = field ''stream_position''\<rparr>)"

subsection \<open>The server\<close>

text \<open>
  The last field is not a column: it is what the position started without, kept for the statements below,
  as \<open>ow_handed\<close> is the messages of the batches that were acknowledged, in their order, and \<open>ow_gone\<close> the
  rows that were reclaimed.
\<close>

record place_row = place +
  pr_epoch_at :: "nat option"
  pr_delivered_at :: "nat option"
  pr_updated_at :: nat
  pr_old_xid :: int
  pr_old_offset :: int
  pr_skipped :: snapshot

text \<open>A position's key: the group, the selection's URI, the slot.\<close>

type_synonym place_key = "string \<times> string \<times> nat"

record outbox_meta =
  me_slots :: nat
  me_refused :: "string option"
  me_gone_below :: "nat option"
  me_intact_from :: "nat option"
  me_passed :: "(nat \<times> nat) list"

record outbox_world =
  ow_rows :: "stored_row list"
  ow_open :: "nat list"
  ow_next :: nat
  ow_ended :: nat
  ow_seq :: int
  ow_sequence :: "(string \<times> nat option) option"
  ow_places :: "(place_key \<times> place_row) list"
  ow_meta :: outbox_meta
  ow_clock :: nat
  ow_handed :: "(place_key \<times> stored_row) list"
  ow_gone :: "stored_row list"

definition current_snapshot :: "outbox_world \<Rightarrow> snapshot" where
  "current_snapshot w =
    (let running = sort (filter (\<lambda>x. x < ow_ended w) (ow_open w)) in
     \<lparr>sn_xmin = (case running of [] \<Rightarrow> ow_ended w | x # _ \<Rightarrow> x), sn_xmax = ow_ended w, sn_xip = running\<rparr>)"

text \<open>The rows a statement reads: those of the transactions that its snapshot sees.\<close>

definition visible_rows :: "outbox_world \<Rightarrow> stored_row list" where
  "visible_rows w = filter (\<lambda>r. sees (current_snapshot w) (st_xid r)) (ow_rows w)"

subsection \<open>Producers\<close>

definition begin_xid :: "outbox_world \<Rightarrow> outbox_world" where
  "begin_xid w = w\<lparr>ow_open := ow_next w # ow_open w, ow_next := Suc (ow_next w)\<rparr>"

definition end_xid :: "nat \<Rightarrow> outbox_world \<Rightarrow> outbox_world" where
  "end_xid xid w =
    (if xid \<in> set (ow_open w)
     then w\<lparr>ow_open := filter (\<lambda>x. x \<noteq> xid) (ow_open w), ow_ended := max (ow_ended w) (Suc xid)\<rparr>
     else w)"

definition abort_xid :: "nat \<Rightarrow> outbox_world \<Rightarrow> outbox_world" where
  "abort_xid xid w =
    (if xid \<in> set (ow_open w)
     then end_xid xid (w\<lparr>ow_rows := filter (\<lambda>r. st_xid r \<noteq> xid) (ow_rows w)\<rparr>)
     else w)"

record receipt =
  rc_transaction :: nat
  rc_position :: int

definition publish :: "outbox_config \<Rightarrow> nat \<Rightarrow> outbox_message \<Rightarrow> outbox_world
    \<Rightarrow> (outbox_error, receipt) result \<times> outbox_world" where
  "publish cf xid m w =
    (let row = \<lparr>st_position = ow_seq w, st_xid = xid, st_uri = om_uri m, st_payload = om_payload m,
           st_metadata = om_metadata m\<rparr>;
         drawn = w\<lparr>ow_seq := ow_seq w + 1\<rparr>;
         guard = guard_key (om_uri m) (om_metadata m);
         id = map_of (om_metadata m) ''message_id'' in
     if xid \<notin> set (ow_open w) then (Inl (ODatabase ''no transaction'' False), w)
     else if guard \<noteq> None \<and> list_ex (\<lambda>r. st_xid r = xid \<and> guard_key (st_uri r) (st_metadata r) = guard) (ow_rows w)
     then (Inl (OIdentityTaken (identity_of m)), abort_xid xid drawn)
     else if id \<noteq> None \<and> list_ex (\<lambda>r. row_generation cf r = row_generation cf row
         \<and> map_of (st_metadata r) ''message_id'' = id) (ow_rows w)
     then (Inl (ODatabase ''duplicate key value violates unique constraint'' False), abort_xid xid drawn)
     else (Inr \<lparr>rc_transaction = xid, rc_position = ow_seq w\<rparr>, drawn\<lparr>ow_rows := ow_rows w @ [row]\<rparr>))"

datatype producer = PBegin | PPublish nat outbox_message | PCommit nat | PAbort nat | PTick

fun produce :: "outbox_config \<Rightarrow> producer \<Rightarrow> outbox_world \<Rightarrow> outbox_world" where
  "produce cf PBegin w = begin_xid w"
| "produce cf (PPublish xid m) w = snd (publish cf xid m w)"
| "produce cf (PCommit xid) w = end_xid xid w"
| "produce cf (PAbort xid) w = abort_xid xid w"
| "produce cf PTick w = w\<lparr>ow_clock := Suc (ow_clock w)\<rparr>"

definition meanwhile :: "outbox_config \<Rightarrow> producer list \<Rightarrow> outbox_world \<Rightarrow> outbox_world" where
  "meanwhile cf ps w = fold (produce cf) ps w"

subsection \<open>Selections\<close>

text \<open>
  \<open>LIKE\<close>: a percent sign is any text, an underscore any character, a backslash takes the next as it is.
  The URIs are ASCII here, so a character is a byte.
\<close>

fun sql_like :: "string \<Rightarrow> string \<Rightarrow> bool" where
  "sql_like [] [] = True"
| "sql_like [] (t # ts) = False"
| "sql_like (p # ps) [] = (p = CHR 0x25 \<and> sql_like ps [])"
| "sql_like (p # ps) (t # ts) =
    (if p = CHR 0x25 then sql_like ps (t # ts) \<or> sql_like (p # ps) ts
     else if p = CHR 0x5F then sql_like ps ts
     else if p = CHR 0x5C then (case ps of [] \<Rightarrow> False | c # cs \<Rightarrow> c = t \<and> sql_like cs ts)
     else p = t \<and> sql_like ps ts)"

definition selected :: "string \<Rightarrow> stored_row \<Rightarrow> bool" where
  "selected uri r \<longleftrightarrow> uri = [] \<or> st_uri r = uri \<or> sql_like (uri @ ''/'' @ [CHR 0x25]) (st_uri r)"

text \<open>An underscore in a selection's URI takes rows of other channels too.\<close>

lemma underscore_selects_another_channel:
  "selected ''kafka://order_events'' \<lparr>st_position = 1, st_xid = 1, st_uri = ''kafka://orderXevents/7'',
    st_payload = [], st_metadata = []\<rparr>"
  by (simp add: selected_def)

end
