(* ===== verification/Outbox_Dispatch.thy ===== *)
theory Outbox_Dispatch
  imports Outbox_Server "HOL-Library.AList"
begin

section \<open>The dispatcher\<close>

text \<open>
  \<open>crates/outbox/src/pg/dispatch.rs\<close> and the statements it runs, of \<open>pg/store.rs\<close>. A dispatch is one
  transaction; what the producers do before each of its statements is an argument, and so are the
  positions that other dispatchers hold and what the subscriber answers. The id that the dispatcher's own
  transaction takes when it writes holds no row, and is left out. A transaction that fails leaves the
  positions as they were.
\<close>

record selection =
  sl_group :: string
  sl_uri :: string

definition selection_group :: "string \<Rightarrow> selection" where
  "selection_group g = \<lparr>sl_group = g, sl_uri = []\<rparr>"

definition selection_uri :: "string \<Rightarrow> selection \<Rightarrow> selection" where
  "selection_uri uri s = s\<lparr>sl_uri := uri\<rparr>"

definition place_of :: "selection \<Rightarrow> nat \<Rightarrow> place_key" where
  "place_of s slot = (sl_group s, sl_uri s, slot)"

definition of_selection :: "selection \<Rightarrow> place_key \<Rightarrow> bool" where
  "of_selection s k \<longleftrightarrow> k = place_of s (snd (snd k))"

subsection \<open>The look\<close>

record taken =
  tk_slot :: "nat option"
  tk_position :: place
  tk_slots :: nat
  tk_known :: bool
  tk_refused :: "string option"
  tk_reset :: bool

text \<open>The statement before the look: the generations it will name.\<close>

definition look_names :: "outbox_config \<Rightarrow> selection \<Rightarrow> outbox_world \<Rightarrow> nat set" where
  "look_names cf s w =
    (\<Union>kp\<in>set (filter (\<lambda>(k, p). of_selection s k \<and> pl_epoch p = None) (ow_places w)).
      ring_generations_new (oc_ring cf) (pl_delivered (snd kp)) (current_snapshot w))"

definition has_work :: "outbox_config \<Rightarrow> nat set \<Rightarrow> outbox_world \<Rightarrow> place_key \<times> place_row \<Rightarrow> bool" where
  "has_work cf names w = (\<lambda>(k, p).
    let here = filter (\<lambda>r. row_generation cf r \<in> names \<and> slot_of cf r = snd (snd k)) (visible_rows w);
        d = pl_delivered p in
    pl_epoch p \<noteq> None
    \<or> list_ex (\<lambda>r. sn_xmax d \<le> st_xid r) here
    \<or> list_ex (\<lambda>x. sees (current_snapshot w) x \<and> list_ex (\<lambda>r. st_xid r = x) here) (sn_xip d))"

definition counter_reset :: "outbox_world \<Rightarrow> bool" where
  "counter_reset w \<longleftrightarrow>
    list_ex (\<lambda>(k, p). sn_xmax (current_snapshot w) < sn_xmax (pl_delivered p)) (ow_places w)"

definition take_slot :: "outbox_config \<Rightarrow> place_key set \<Rightarrow> selection \<Rightarrow> nat set \<Rightarrow> outbox_world \<Rightarrow> taken" where
  "take_slot cf held s names w =
    (let mine = filter (\<lambda>(k, p). of_selection s k) (ow_places w);
         waiting = sort_key (\<lambda>(k, p). pr_updated_at p) (filter (has_work cf names w) mine);
         free = filter (\<lambda>(k, p). k \<notin> held) waiting in
     \<lparr>tk_slot = (case free of [] \<Rightarrow> None | (k, p) # _ \<Rightarrow> Some (snd (snd k))),
      tk_position = (case free of [] \<Rightarrow> \<lparr>pl_delivered = snapshot_nothing, pl_epoch = None\<rparr>
        | (k, p) # _ \<Rightarrow> place.truncate p),
      tk_slots = me_slots (ow_meta w), tk_known = (mine \<noteq> []),
      tk_refused = me_refused (ow_meta w), tk_reset = counter_reset w\<rparr>)"

subsection \<open>The first contact of a selection\<close>

text \<open>
  A lane, a selection of some URIs, starts where its group's selection of everything stands; any other
  starts at what the ring still holds.
\<close>

definition ring_start :: "outbox_world \<Rightarrow> snapshot" where
  "ring_start w = (case me_intact_from (ow_meta w) of
      None \<Rightarrow> snapshot_nothing
    | Some x \<Rightarrow> below (max x 1) (current_snapshot w))"

definition first_position :: "selection \<Rightarrow> nat \<Rightarrow> outbox_world \<Rightarrow> nat \<Rightarrow> place_row" where
  "first_position s now w slot =
    (let stands = (if sl_uri s = [] then None else map_of (ow_places w) (place_of (selection_group (sl_group s)) slot)) in
     \<lparr>pl_delivered = (case stands of Some e \<Rightarrow> pl_delivered e | None \<Rightarrow> ring_start w), pl_epoch = None,
      pr_epoch_at = None, pr_delivered_at = None, pr_updated_at = now, pr_old_xid = 0, pr_old_offset = 0,
      pr_skipped = (case stands of Some e \<Rightarrow> pr_skipped e | None \<Rightarrow> ring_start w)\<rparr>)"

definition ensure_positions :: "selection \<Rightarrow> nat \<Rightarrow> outbox_world \<Rightarrow> outbox_world" where
  "ensure_positions s now w =
    w\<lparr>ow_places := ow_places w @
      map (\<lambda>slot. (place_of s slot, first_position s now w slot))
        (filter (\<lambda>slot. place_of s slot \<notin> fst ` set (ow_places w)) [0..<me_slots (ow_meta w)])\<rparr>"

subsection \<open>An epoch's start\<close>

record start =
  se_epoch :: snapshot
  se_first :: "int option"
  se_last :: "int option"
  se_generations :: "generation_span list"

definition check_sequence :: "outbox_world \<Rightarrow> (outbox_error, unit) result" where
  "check_sequence w =
    (case ow_sequence w of
       None \<Rightarrow> Inl (OSequenceCache ''no sequence is owned by `outbox`.position'')
     | Some (s, cache) \<Rightarrow>
         if cache = Some 1 then Inr ()
         else Inl (OSequenceCache ([CHR 0x60] @ s @ [CHR 0x60] @ '' caches '' @
           (case cache of None \<Rightarrow> ''an unknown number of'' | Some c \<Rightarrow> show_nat c) @ '' values'')))"

definition members :: "outbox_config \<Rightarrow> nat \<Rightarrow> string \<Rightarrow> snapshot \<Rightarrow> snapshot \<Rightarrow> outbox_world \<Rightarrow> stored_row list" where
  "members cf slot uri d e w =
    (let names = ring_generations_new (oc_ring cf) d e;
         ended = filter (sees e) (sn_xip d);
         here = filter (\<lambda>r. row_generation cf r \<in> names \<and> slot_of cf r = slot \<and> selected uri r) (visible_rows w) in
     filter (\<lambda>r. sn_xmax d \<le> st_xid r \<and> st_xid r < sn_xmax e \<and> sees e (st_xid r)) here
     @ filter (\<lambda>r. st_xid r \<in> set ended) here)"

definition spans :: "outbox_config \<Rightarrow> stored_row list \<Rightarrow> generation_span list" where
  "spans cf rows =
    map (\<lambda>g. let ps = map st_position (filter (\<lambda>r. row_generation cf r = g) rows) in
        \<lparr>gn_generation = g, gn_first = Min (set ps), gn_last = Max (set ps)\<rparr>)
      (sort (remdups (map (row_generation cf) rows)))"

definition start_epoch :: "outbox_config \<Rightarrow> nat \<Rightarrow> string \<Rightarrow> snapshot \<Rightarrow> snapshot \<Rightarrow> outbox_world \<Rightarrow> start" where
  "start_epoch cf slot uri d e w =
    (let gs = spans cf (members cf slot uri d e w) in
     \<lparr>se_epoch = e,
      se_first = (if gs = [] then None else Some (Min (set (map gn_first gs)))),
      se_last = (if gs = [] then None else Some (Max (set (map gn_last gs)))),
      se_generations = gs\<rparr>)"

datatype chosen = InFlight epoch bool | NothingNew snapshot

text \<open>
  The epoch in flight, one converted from the positions of the older rule, whose end is found now, or a
  new one: its snapshot in a statement of its own, its rows in a later one.
\<close>

definition choose_epoch :: "outbox_config \<Rightarrow> nat \<Rightarrow> string \<Rightarrow> place \<Rightarrow> outbox_world \<Rightarrow> outbox_world
    \<Rightarrow> (outbox_error, chosen) result" where
  "choose_epoch cf slot uri pos w w' =
    (case pl_epoch pos of
       Some e \<Rightarrow>
         if ep_end e \<noteq> None then Inr (InFlight e False)
         else let start = start_epoch cf slot uri (pl_delivered pos) (ep_snapshot e) w' in
           Inr (InFlight
             (e\<lparr>ep_end := Some (case se_last start of None \<Rightarrow> ep_offset e | Some l \<Rightarrow> max l (ep_offset e)),
                ep_generations := se_generations start\<rparr>) False)
     | None \<Rightarrow>
         and_then (check_sequence w) (\<lambda>_.
           let start = start_epoch cf slot uri (pl_delivered pos) (current_snapshot w) w' in
           Inr (case (se_first start, se_last start) of
               (Some lo, Some hi) \<Rightarrow>
                 InFlight \<lparr>ep_snapshot = se_epoch start, ep_offset = lo - 1, ep_end = Some hi,
                   ep_generations = se_generations start\<rparr> True
             | _ \<Rightarrow> NothingNew (se_epoch start))))"

subsection \<open>A batch\<close>

definition branch :: "outbox_config \<Rightarrow> nat \<Rightarrow> string \<Rightarrow> epoch \<Rightarrow> snapshot \<Rightarrow> outbox_world \<Rightarrow> generation_span \<Rightarrow> stored_row list" where
  "branch cf slot uri e d w g =
    filter (\<lambda>r. row_generation cf r = gn_generation g \<and> slot_of cf r = slot \<and> selected uri r
        \<and> max (ep_offset e) (gn_first g - 1) < st_position r \<and> st_position r \<le> gn_last g
        \<and> sees (ep_snapshot e) (st_xid r) \<and> \<not> sees d (st_xid r)) (visible_rows w)"

definition read_batch :: "outbox_config \<Rightarrow> nat \<Rightarrow> string \<Rightarrow> epoch \<Rightarrow> snapshot \<Rightarrow> outbox_world \<Rightarrow> stored_row list" where
  "read_batch cf slot uri e d w =
    take (oc_batch cf) (sort_key st_position (concat
      (map (\<lambda>g. take (oc_batch cf) (sort_key st_position (branch cf slot uri e d w g)))
        (filter (\<lambda>g. ep_offset e < gn_last g) (ep_generations e)))))"

fun handle_all :: "(outbox_message \<Rightarrow> string option) \<Rightarrow> outbox_message list \<Rightarrow> string option" where
  "handle_all h [] = None"
| "handle_all h (m # ms) = (case h m of Some e \<Rightarrow> Some e | None \<Rightarrow> handle_all h ms)"

definition ack :: "nat \<Rightarrow> selection \<Rightarrow> nat \<Rightarrow> snapshot option \<Rightarrow> epoch option \<Rightarrow> bool \<Rightarrow> outbox_world
    \<Rightarrow> (outbox_error, outbox_world) result" where
  "ack now s slot drained_to e started w =
    (case map_of (ow_places w) (place_of s slot) of
       None \<Rightarrow> Inl (OMalformed (''the position of slot '' @ show_nat slot @ '' of `'' @ sl_group s @ ''` is gone''))
     | Some p \<Rightarrow>
         let d = (case drained_to of Some t \<Rightarrow> t | None \<Rightarrow> pl_delivered p);
             moved = p\<lparr>pl_delivered := d, pl_epoch := e,
               pr_epoch_at := (if started then Some now else pr_epoch_at p),
               pr_delivered_at := (if drained_to = None then pr_delivered_at p else Some now),
               pr_old_xid := int (sn_xmin d) - 1, pr_old_offset := 2 ^ 63 - 1, pr_updated_at := now\<rparr> in
         Inr (w\<lparr>ow_places := AList.update (place_of s slot) moved (ow_places w)\<rparr>))"

text \<open>
  The batch, the subscriber, the position moved: past the batch, or, when the batch is shorter than its
  size, to the epoch.
\<close>

definition hand_on :: "outbox_config \<Rightarrow> nat \<Rightarrow> selection \<Rightarrow> nat \<Rightarrow> (outbox_message \<Rightarrow> string option) \<Rightarrow> epoch \<Rightarrow> snapshot
    \<Rightarrow> bool \<Rightarrow> outbox_world \<Rightarrow> outbox_world \<Rightarrow> (outbox_error, outbox_world) result" where
  "hand_on cf now s slot h e d started w w' =
    (let rows = read_batch cf slot (sl_uri s) e d w;
         reached = (if rows = [] then ep_offset e else st_position (last rows));
         moved = (if length rows < oc_batch cf then ack now s slot (Some (ep_snapshot e)) None started w'
           else ack now s slot None (Some (e\<lparr>ep_offset := reached\<rparr>)) started w') in
     case handle_all h (map message_of rows) of
       Some err \<Rightarrow> Inl (OSubscriber err)
     | None \<Rightarrow> and_then moved (\<lambda>w'. Inr (w'\<lparr>ow_handed := ow_handed w' @ map (Pair (place_of s slot)) rows\<rparr>)))"

subsection \<open>The transaction\<close>

definition reset_reason :: string where
  "reset_reason = ''a position delivered past the server'' @ [CHR 0x27] @ ''s transaction ids: the database was moved by dump and restore''"

definition refuse :: "string \<Rightarrow> outbox_world \<Rightarrow> outbox_world" where
  "refuse reason w =
    w\<lparr>ow_meta := (ow_meta w)\<lparr>me_refused := (case me_refused (ow_meta w) of None \<Rightarrow> Some reason | Some r \<Rightarrow> Some r)\<rparr>\<rparr>"

definition clear_counter_reset :: "outbox_world \<Rightarrow> outbox_world" where
  "clear_counter_reset w = w\<lparr>ow_meta := (ow_meta w)\<lparr>me_refused := None\<rparr>\<rparr>"

text \<open>The look, twice when the first finds no position of the selection.\<close>

definition look :: "outbox_config \<Rightarrow> (nat \<Rightarrow> producer list) \<Rightarrow> place_key set \<Rightarrow> selection \<Rightarrow> outbox_world
    \<Rightarrow> taken \<times> outbox_world" where
  "look cf env held s w =
    (let w1 = meanwhile cf (env 0) w;
         w2 = meanwhile cf (env 1) w1;
         t = take_slot cf held s (look_names cf s w1) w2 in
     if tk_known t then (t, w2)
     else let w3 = ensure_positions s (ow_clock w) (meanwhile cf (env 2) w2);
              w4 = meanwhile cf (env 3) w3;
              w5 = meanwhile cf (env 4) w4 in
       (take_slot cf held s (look_names cf s w4) w5, w5))"

text \<open>The slot that was taken, to the end of the transaction.\<close>

definition serve :: "outbox_config \<Rightarrow> (nat \<Rightarrow> producer list) \<Rightarrow> (outbox_message \<Rightarrow> string option) \<Rightarrow> nat \<Rightarrow> selection
    \<Rightarrow> nat \<Rightarrow> place \<Rightarrow> outbox_world \<Rightarrow> (outbox_error, unit) result \<times> outbox_world" where
  "serve cf env h now s slot pos w =
    (let w1 = meanwhile cf (env 5) w;
         w2 = meanwhile cf (env 6) w1;
         w3 = meanwhile cf (env 7) w2;
         w4 = meanwhile cf (env 8) w3;
         finish = (\<lambda>outcome. case outcome of Inl e \<Rightarrow> (Inl e, w4) | Inr w' \<Rightarrow> (Inr (), w')) in
     case choose_epoch cf slot (sl_uri s) pos w1 w2 of
       Inl e \<Rightarrow> (Inl e, w1)
     | Inr (NothingNew t) \<Rightarrow> finish (ack now s slot (Some t) None False w4)
     | Inr (InFlight e started) \<Rightarrow> finish (hand_on cf now s slot h e (pl_delivered pos) started w3 w4))"

definition dispatch :: "outbox_config \<Rightarrow> (nat \<Rightarrow> producer list) \<Rightarrow> place_key set \<Rightarrow> (outbox_message \<Rightarrow> string option)
    \<Rightarrow> selection \<Rightarrow> outbox_world \<Rightarrow> (outbox_error, bool) result \<times> outbox_world" where
  "dispatch cf env held h s w =
    (let (t, w1) = look cf env held s w;
         rolled_back = (\<lambda>w'. w'\<lparr>ow_places := ow_places w\<rparr>) in
     case tk_refused t of
       Some reason \<Rightarrow> (Inl (OCounterReset reason), rolled_back w1)
     | None \<Rightarrow>
         if tk_reset t then (Inl (OCounterReset reset_reason), rolled_back (refuse reset_reason w1))
         else case tk_slot t of
             None \<Rightarrow> (Inr False, w1)
           | Some slot \<Rightarrow>
               (case serve cf env h (ow_clock w) s slot (tk_position t) w1 of
                  (Inl e, w2) \<Rightarrow> (Inl e, rolled_back w2)
                | (Inr u, w2) \<Rightarrow> (Inr True, w2)))"

subsection \<open>Moves\<close>

text \<open>
  A rewind keeps of what was delivered what lies below its transaction. What a move ahead passes by, it
  passes by for good.
\<close>

definition moved_to :: "move \<Rightarrow> nat \<Rightarrow> outbox_world \<Rightarrow> place_row \<Rightarrow> place_row" where
  "moved_to to now w p =
    (let d = (case to of ToStart \<Rightarrow> snapshot_nothing | ToNow \<Rightarrow> current_snapshot w
        | ToXid x \<Rightarrow> below (max x 1) (pl_delivered p)) in
     p\<lparr>pl_delivered := d, pl_epoch := None, pr_delivered_at := Some now, pr_updated_at := now,
       pr_old_xid := int (sn_xmin d) - 1, pr_old_offset := 2 ^ 63 - 1,
       pr_skipped := (if to = ToNow then d else pr_skipped p)\<rparr>)"

definition move_all :: "selection \<Rightarrow> move \<Rightarrow> nat \<Rightarrow> outbox_world \<Rightarrow> outbox_world" where
  "move_all s to now w =
    w\<lparr>ow_places := map (\<lambda>(k, p). (k, if of_selection s k then moved_to to now w p else p)) (ow_places w)\<rparr>"

definition clear_passed :: "outbox_world \<Rightarrow> outbox_world" where
  "clear_passed w = w\<lparr>ow_meta := (ow_meta w)\<lparr>me_passed := []\<rparr>\<rparr>"

text \<open>
  How old the first row from a transaction on is, an argument: the rows carry no time here.
\<close>

definition beyond_horizon :: "outbox_config \<Rightarrow> (outbox_world \<Rightarrow> nat \<Rightarrow> nat option) \<Rightarrow> move \<Rightarrow> outbox_world
    \<Rightarrow> outbox_error option" where
  "beyond_horizon cf first_row_age to w =
    (case (oc_horizon cf, to) of
       (Some horizon, ToXid x) \<Rightarrow>
         (case first_row_age w x of
            Some age \<Rightarrow> if horizon < age then Some (OBeyondReplayHorizon x age horizon) else None
          | None \<Rightarrow> None)
     | _ \<Rightarrow> None)"

definition set_position :: "outbox_config \<Rightarrow> (outbox_world \<Rightarrow> nat \<Rightarrow> nat option) \<Rightarrow> selection \<Rightarrow> move \<Rightarrow> outbox_world
    \<Rightarrow> (outbox_error, unit) result \<times> outbox_world" where
  "set_position cf first_row_age s to w =
    (let there = (case (to, me_intact_from (ow_meta w)) of
           (ToXid x, Some i) \<Rightarrow> if x < i then Inl (OReclaimed x i) else Inr to
         | (ToStart, Some i) \<Rightarrow> Inr (ToXid i)
         | _ \<Rightarrow> Inr to) in
     case there of
       Inl e \<Rightarrow> (Inl e, w)
     | Inr to \<Rightarrow>
         (case beyond_horizon cf first_row_age to w of
            Some e \<Rightarrow> (Inl e, w)
          | None \<Rightarrow>
              let moved = move_all s to (ow_clock w) (ensure_positions s (ow_clock w) w) in
              (Inr (), if to = ToNow then moved else clear_passed moved)))"


section \<open>What the producers leave to the relay\<close>

text \<open>
  A transaction is finished once its id is assigned and no longer open. The current snapshot sees the
  finished ones exactly, and whatever the producers do, the rows of a finished transaction stay as they
  are: the interface \<open>bystanders\<close>, which the relay's statements rest on and the producers provide.
\<close>

subsection \<open>The world of transactions\<close>

definition finished :: "outbox_world \<Rightarrow> nat \<Rightarrow> bool" where
  "finished w x \<longleftrightarrow> x < ow_next w \<and> x \<notin> set (ow_open w)"

definition world_ok :: "outbox_world \<Rightarrow> bool" where
  "world_ok w \<longleftrightarrow> 1 \<le> ow_next w \<and> ow_ended w \<le> ow_next w
    \<and> (\<forall>x\<in>set (ow_open w). 1 \<le> x \<and> x < ow_next w)
    \<and> (\<forall>x. ow_ended w \<le> x \<and> x < ow_next w \<longrightarrow> x \<in> set (ow_open w))
    \<and> (\<forall>r\<in>set (ow_rows w). 1 \<le> st_xid r \<and> st_xid r < ow_next w \<and> st_position r < ow_seq w)
    \<and> distinct (map st_position (ow_rows w))"

definition later :: "outbox_world \<Rightarrow> outbox_world \<Rightarrow> bool" where
  "later w w' \<longleftrightarrow> (\<forall>x. finished w x \<longrightarrow> finished w' x)
    \<and> (\<forall>r. finished w (st_xid r) \<longrightarrow> (r \<in> set (ow_rows w') \<longleftrightarrow> r \<in> set (ow_rows w)))
    \<and> (\<forall>r\<in>set (ow_rows w'). r \<in> set (ow_rows w) \<or> ow_seq w \<le> st_position r)
    \<and> ow_seq w \<le> ow_seq w' \<and> ow_next w \<le> ow_next w'
    \<and> ow_places w' = ow_places w \<and> ow_meta w' = ow_meta w \<and> ow_handed w' = ow_handed w
    \<and> ow_sequence w' = ow_sequence w \<and> ow_gone w' = ow_gone w"

lemma later_refl [simp]: "later w w"
  by (simp add: later_def)

lemma later_trans [trans]: "later a b \<Longrightarrow> later b c \<Longrightarrow> later a c"
proof -
  assume ab: "later a b" and bc: "later b c"
  have "\<forall>x. finished a x \<longrightarrow> finished c x" using ab bc unfolding later_def by blast
  moreover have "\<forall>r. finished a (st_xid r) \<longrightarrow> (r \<in> set (ow_rows c) \<longleftrightarrow> r \<in> set (ow_rows a))"
    using ab bc unfolding later_def by blast
  moreover have "\<forall>r\<in>set (ow_rows c). r \<in> set (ow_rows a) \<or> ow_seq a \<le> st_position r"
    using ab bc unfolding later_def by (meson order_trans)
  moreover have "ow_seq a \<le> ow_seq c" "ow_next a \<le> ow_next c"
    "ow_places c = ow_places a" "ow_meta c = ow_meta a" "ow_handed c = ow_handed a" "ow_sequence c = ow_sequence a"
    "ow_gone c = ow_gone a"
    using ab bc unfolding later_def by (blast intro: order_trans, blast intro: order_trans, (simp only:)+)
  ultimately show ?thesis unfolding later_def by blast
qed

lemma later_finished: "later w w' \<Longrightarrow> finished w x \<Longrightarrow> finished w' x"
  by (simp add: later_def)

lemma later_rows: "later w w' \<Longrightarrow> finished w (st_xid r) \<Longrightarrow> r \<in> set (ow_rows w') \<longleftrightarrow> r \<in> set (ow_rows w)"
  by (simp add: later_def)

lemma later_same:
  "later w w' \<Longrightarrow> ow_places w' = ow_places w" "later w w' \<Longrightarrow> ow_meta w' = ow_meta w"
  "later w w' \<Longrightarrow> ow_handed w' = ow_handed w" "later w w' \<Longrightarrow> ow_gone w' = ow_gone w"
  by (simp_all add: later_def)

lemma current_snapshot_ok: "world_ok w \<Longrightarrow> snapshot_ok (current_snapshot w)"
proof -
  assume ok: "world_ok w"
  let ?running = "sort (filter (\<lambda>x. x < ow_ended w) (ow_open w))"
  have sorted: "sorted ?running" and less: "\<forall>x\<in>set ?running. x < ow_ended w" by simp_all
  show ?thesis
  proof (cases ?running)
    case Nil
    then show ?thesis by (simp add: snapshot_ok_def current_snapshot_def)
  next
    case (Cons y ys)
    have "sorted (y # ys)" "\<forall>x\<in>set (y # ys). x < ow_ended w"
      using sorted less unfolding Cons by simp_all
    moreover have "current_snapshot w = \<lparr>sn_xmin = y, sn_xmax = ow_ended w, sn_xip = y # ys\<rparr>"
      unfolding current_snapshot_def Let_def Cons by simp
    ultimately show ?thesis by (auto simp: snapshot_ok_def)
  qed
qed

lemma sees_current:
  assumes "world_ok w"
  shows "sees (current_snapshot w) x \<longleftrightarrow> finished w x"
proof -
  let ?running = "sort (filter (\<lambda>x. x < ow_ended w) (ow_open w))"
  have "sees (current_snapshot w) x \<longleftrightarrow> x < ow_ended w \<and> x \<notin> set (ow_open w)"
  proof (cases ?running)
    case Nil
    then have "x < ow_ended w \<Longrightarrow> x \<notin> set (ow_open w)"
      by (metis filter_empty_conv set_empty set_sort)
    then show ?thesis using Nil by (auto simp: sees_def current_snapshot_def)
  next
    case (Cons y ys)
    have sorted: "sorted (y # ys)" and members: "set (y # ys) = {x \<in> set (ow_open w). x < ow_ended w}"
      unfolding Cons [symmetric] by simp_all
    have "y < ow_ended w" using members by auto
    moreover have "x < y \<Longrightarrow> x \<notin> set (y # ys)" using sorted by auto
    moreover have "current_snapshot w = \<lparr>sn_xmin = y, sn_xmax = ow_ended w, sn_xip = y # ys\<rparr>"
      unfolding current_snapshot_def Let_def Cons by simp
    moreover have "x \<in> set (y # ys) \<longleftrightarrow> x \<in> set (ow_open w) \<and> x < ow_ended w" using members by blast
    ultimately show ?thesis by (auto simp: sees_def)
  qed
  also have "\<dots> \<longleftrightarrow> finished w x"
  proof -
    have "finished w x \<Longrightarrow> x < ow_ended w"
      using assms unfolding finished_def world_ok_def by (meson not_less)
    moreover have "x < ow_ended w \<Longrightarrow> x < ow_next w"
      using assms unfolding world_ok_def by linarith
    ultimately show ?thesis unfolding finished_def by blast
  qed
  finally show ?thesis .
qed

lemma visible_iff:
  "world_ok w \<Longrightarrow> r \<in> set (visible_rows w) \<longleftrightarrow> r \<in> set (ow_rows w) \<and> finished w (st_xid r)"
  by (simp add: visible_rows_def sees_current)

lemma finished_zero: "world_ok w \<Longrightarrow> finished w 0"
  unfolding finished_def world_ok_def by force

subsection \<open>The interface\<close>

locale bystanders =
  fixes act :: "'a \<Rightarrow> outbox_world \<Rightarrow> outbox_world"
  assumes act_ok: "world_ok w \<Longrightarrow> world_ok (act a w)"
    and act_later: "world_ok w \<Longrightarrow> later w (act a w)"
begin

lemma acts_ok: "world_ok w \<Longrightarrow> world_ok (fold act as w)"
  by (induction as arbitrary: w) (simp_all add: act_ok)

lemma acts_later: "world_ok w \<Longrightarrow> later w (fold act as w)"
proof (induction as arbitrary: w)
  case (Cons a as)
  then show ?case using later_trans [OF act_later [OF Cons.prems] Cons.IH [OF act_ok [OF Cons.prems]]] by simp
qed simp

text \<open>What a snapshot saw before, it sees the rows of afterwards.\<close>

lemma seen_rows_stay:
  assumes "world_ok w" "\<And>x. sees s x \<Longrightarrow> finished w x" "sees s (st_xid r)"
  shows "r \<in> set (ow_rows (fold act as w)) \<longleftrightarrow> r \<in> set (ow_rows w)"
  using later_rows [OF acts_later [OF assms(1)]] assms(2,3) by blast

end

subsection \<open>The producers\<close>

lemma begin_ok: "world_ok w \<Longrightarrow> world_ok (begin_xid w)"
  unfolding world_ok_def begin_xid_def by (auto simp: less_Suc_eq)

lemma begin_later: "world_ok w \<Longrightarrow> later w (begin_xid w)"
  unfolding later_def begin_xid_def finished_def by auto

lemma end_ok: "world_ok w \<Longrightarrow> world_ok (end_xid x w)"
  unfolding world_ok_def end_xid_def by (auto simp: max_def Suc_le_eq)

lemma end_later: "world_ok w \<Longrightarrow> later w (end_xid x w)"
  unfolding later_def end_xid_def finished_def by auto

lemma distinct_filtered: "distinct (map f xs) \<Longrightarrow> distinct (map f (filter P xs))"
  by (simp add: distinct_map_filter)

lemma unpublish_ok: "world_ok w \<Longrightarrow> world_ok (w\<lparr>ow_rows := filter P (ow_rows w)\<rparr>)"
  unfolding world_ok_def by (auto simp: distinct_filtered)

lemma abort_ok: "world_ok w \<Longrightarrow> world_ok (abort_xid x w)"
  unfolding abort_xid_def by (simp add: end_ok unpublish_ok)

lemma abort_later:
  assumes "world_ok w"
  shows "later w (abort_xid x w)"
proof (cases "x \<in> set (ow_open w)")
  case True
  let ?v = "w\<lparr>ow_rows := filter (\<lambda>r. st_xid r \<noteq> x) (ow_rows w)\<rparr>"
  have "later w ?v" using True by (auto simp: later_def finished_def)
  then show ?thesis
    using True end_later [OF unpublish_ok [OF assms]] later_trans by (simp add: abort_xid_def)
qed (simp add: abort_xid_def)

lemma draw_ok: "world_ok w \<Longrightarrow> world_ok (w\<lparr>ow_seq := ow_seq w + 1\<rparr>)"
  unfolding world_ok_def by auto

lemma draw_later: "later w (w\<lparr>ow_seq := ow_seq w + 1\<rparr>)"
  by (auto simp: later_def finished_def)

lemma publish_ok:
  assumes "world_ok w"
  shows "world_ok (snd (publish cf x m w))"
proof -
  have "world_ok (w\<lparr>ow_seq := ow_seq w + 1, ow_rows := ow_rows w @ [\<lparr>st_position = ow_seq w, st_xid = x,
      st_uri = u, st_payload = p, st_metadata = md\<rparr>]\<rparr>)" if "x \<in> set (ow_open w)" for u p md
    using assms that unfolding world_ok_def by auto
  then show ?thesis using assms abort_ok [OF draw_ok [OF assms]] by (simp add: publish_def Let_def)
qed

lemma publish_later:
  assumes "world_ok w"
  shows "later w (snd (publish cf x m w))"
proof -
  have "later w (w\<lparr>ow_seq := ow_seq w + 1, ow_rows := ow_rows w @ [\<lparr>st_position = ow_seq w, st_xid = x,
      st_uri = u, st_payload = p, st_metadata = md\<rparr>]\<rparr>)" if "x \<in> set (ow_open w)" for u p md
    using that by (auto simp: later_def finished_def)
  moreover have "later w (abort_xid x (w\<lparr>ow_seq := ow_seq w + 1\<rparr>))"
    by (rule later_trans [OF draw_later abort_later [OF draw_ok [OF assms]]])
  ultimately show ?thesis by (simp add: publish_def Let_def)
qed

lemma produce_ok: "world_ok w \<Longrightarrow> world_ok (produce cf p w)"
  by (cases p) (simp_all add: begin_ok publish_ok end_ok abort_ok, simp add: world_ok_def)

lemma produce_later: "world_ok w \<Longrightarrow> later w (produce cf p w)"
  by (cases p) (simp_all add: begin_later publish_later end_later abort_later, simp add: later_def finished_def)

interpretation producing: bystanders "produce cf" for cf
  by unfold_locales (fact produce_ok produce_later)+

lemma meanwhile_ok: "world_ok w \<Longrightarrow> world_ok (meanwhile cf ps w)"
  unfolding meanwhile_def by (rule producing.acts_ok)

lemma meanwhile_later: "world_ok w \<Longrightarrow> later w (meanwhile cf ps w)"
  unfolding meanwhile_def by (rule producing.acts_later)

lemma meanwhile_same [simp]:
  assumes "world_ok w"
  shows "ow_places (meanwhile cf ps w) = ow_places w" "ow_meta (meanwhile cf ps w) = ow_meta w"
    "ow_handed (meanwhile cf ps w) = ow_handed w"
  using later_same [OF meanwhile_later [OF assms]] by simp_all

end
