(* ===== verification/Outbox_Batch.thy ===== *)
theory Outbox_Batch
  imports Outbox_Dispatch "HOL-Library.Multiset"
begin

section \<open>A batch is the next rows of its epoch\<close>

text \<open>
  An epoch's members are the rows it sees and its position's \<open>delivered\<close> does not; a batch, read branch by
  branch and merged, is the first of them past the offset, in the order of their positions.
\<close>

subsection \<open>Limits in the branches\<close>

lemma take_insort: "take n (insort_key f x (take n xs)) = take n (insort_key f x xs)"
proof (induction xs arbitrary: n)
  case Nil then show ?case by simp
next
  case (Cons y ys)
  then show ?case by (cases n) (simp_all add: take_Cons')
qed

lemma take_foldr_insort:
  "take n (foldr (insort_key f) xs (take n ys)) = take n (foldr (insort_key f) xs ys)"
proof (induction xs)
  case (Cons x xs)
  have "take n (insort_key f x (foldr (insort_key f) xs (take n ys)))
      = take n (insort_key f x (take n (foldr (insort_key f) xs (take n ys))))"
    by (simp add: take_insort)
  also have "\<dots> = take n (insort_key f x (foldr (insort_key f) xs ys))"
    unfolding Cons.IH by (rule take_insort)
  finally show ?case by simp
qed simp

lemma sort_of_sorted: "sorted (map f xs) \<Longrightarrow> sort_key f xs = xs"
  by (rule sort_key_id_if_sorted)

lemma take_sort_append:
  "take n (sort_key f (xs @ take n (sort_key f ys))) = take n (sort_key f (xs @ ys))"
proof -
  have append: "sort_key f (xs @ zs) = foldr (insort_key f) xs (sort_key f zs)" for zs
    by (induction xs) (simp_all add: sort_key_def)
  have "sorted (map f (take n (sort_key f ys)))"
    by (metis sorted_sort_key sorted_wrt_take take_map)
  then show ?thesis unfolding append by (simp add: sort_of_sorted take_foldr_insort)
qed

lemma sort_key_commute:
  assumes "distinct (map f (xs @ ys))"
  shows "sort_key f (xs @ ys) = sort_key f (ys @ xs)"
proof (rule sort_key_eq_sort_key)
  show "mset (xs @ ys) = mset (ys @ xs)" by simp
  show "inj_on f (set (xs @ ys))" using assms by (simp only: distinct_map)
qed

lemma distinct_map_part:
  assumes "distinct (map f (xs @ ys))" "set zs \<subseteq> set ys" "distinct (map f zs)"
  shows "distinct (map f (xs @ zs))"
proof -
  have "f ` set xs \<inter> f ` set ys = {}" "distinct (map f xs)" using assms(1) by simp_all
  moreover have "f ` set zs \<subseteq> f ` set ys" using assms(2) by (rule image_mono)
  ultimately show ?thesis using assms(3) by (simp add: disjoint_iff subset_iff) metis
qed

lemma distinct_map_rotate: "distinct (map f (xs @ ys @ zs)) \<longleftrightarrow> distinct (map f ((xs @ zs) @ ys))"
  by (auto simp: Int_Un_distrib Int_Un_distrib2)

lemma take_sort_branches:
  assumes "distinct (map f (xs @ concat bs))"
  shows "take n (sort_key f (xs @ concat (map (\<lambda>b. take n (sort_key f b)) bs))) = take n (sort_key f (xs @ concat bs))"
  using assms
proof (induction bs arbitrary: xs)
  case Nil then show ?case by simp
next
  case (Cons b bs)
  let ?t = "\<lambda>b. take n (sort_key f b)"
  have part: "set (?t b) \<subseteq> set b" for b
    using set_take_subset [of n "sort_key f b"] by simp
  have distinct_part: "distinct (map f b) \<Longrightarrow> distinct (map f (?t b))" for b
    unfolding distinct_map using inj_on_subset [OF _ part [of b], of f] by simp
  have rest: "set (concat (map ?t bs)) \<subseteq> set (concat bs)" for bs using part by fastforce
  have distinct_rest: "distinct (map f (concat bs)) \<Longrightarrow> distinct (map f (concat (map ?t bs)))" for bs
  proof (induction bs)
    case (Cons c cs)
    have "distinct (map f (concat cs @ c))" "distinct (map f c)" "distinct (map f (concat cs))"
      using Cons.prems by (simp_all add: Int_commute)
    then have "distinct (map f (concat cs @ ?t c))"
      by (intro distinct_map_part [OF _ part] distinct_part)
    then have "distinct (map f (?t c @ concat cs))" by (simp add: Int_commute)
    then have "distinct (map f (?t c @ concat (map ?t cs)))"
      by (rule distinct_map_part [OF _ rest]) (rule Cons.IH, fact)
    then show ?case by simp
  qed simp
  let ?rest = "concat (map ?t bs)"
  have d: "distinct (map f ((xs @ b) @ concat bs))" using Cons.prems by simp
  have dr: "distinct (map f ((xs @ b) @ ?rest))"
    by (rule distinct_map_part [OF d rest]) (rule distinct_rest, use d in simp)
  then have db: "distinct (map f ((xs @ ?rest) @ b))" using distinct_map_rotate [of f xs b ?rest] by simp
  have dt: "distinct (map f ((xs @ ?rest) @ ?t b))"
    by (rule distinct_map_part [OF db part]) (rule distinct_part, use db in simp)
  have swap: "sort_key f (xs @ c @ ?rest) = sort_key f ((xs @ ?rest) @ c)" if "distinct (map f ((xs @ ?rest) @ c))" for c
  proof (rule sort_key_eq_sort_key)
    show "mset (xs @ c @ ?rest) = mset ((xs @ ?rest) @ c)" by simp
    show "inj_on f (set (xs @ c @ ?rest))" using that unfolding distinct_map by (simp add: Un_ac)
  qed
  have "take n (sort_key f (xs @ ?t b @ ?rest)) = take n (sort_key f ((xs @ ?rest) @ ?t b))"
    using swap [OF dt] by simp
  also have "\<dots> = take n (sort_key f ((xs @ ?rest) @ b))" by (rule take_sort_append)
  also have "\<dots> = take n (sort_key f ((xs @ b) @ ?rest))" using swap [OF db] by simp
  also have "\<dots> = take n (sort_key f ((xs @ b) @ concat bs))" by (rule Cons.IH [OF d])
  finally show ?case by simp
qed

text \<open>What the first of a sorted list leaves, lies past them.\<close>

lemma left_out_is_past:
  assumes "distinct (map f xs)" "x \<in> set xs" "x \<notin> set (take n (sort_key f xs))" "y \<in> set (take n (sort_key f xs))"
  shows "f y < f x"
proof -
  have "x \<in> set (drop n (sort_key f xs))"
    using assms(2,3) by (metis append_take_drop_id set_append set_sort Un_iff)
  moreover have "sorted (map f (take n (sort_key f xs) @ drop n (sort_key f xs)))" by simp
  ultimately have "f y \<le> f x" using assms(4) by (auto simp: sorted_append simp del: append_take_drop_id)
  moreover have "x \<noteq> y" using assms(3,4) by blast
  moreover have "y \<in> set xs" using assms(4) by (metis in_set_takeD set_sort)
  ultimately show ?thesis using assms(1,2) by (auto simp: distinct_map inj_on_def order_less_le)
qed

subsection \<open>An epoch's members\<close>

definition due :: "outbox_config \<Rightarrow> place_key \<Rightarrow> stored_row \<Rightarrow> bool" where
  "due cf k r \<longleftrightarrow> slot_of cf r = snd (snd k) \<and> selected (fst (snd k)) r"

definition sees_only_finished :: "outbox_world \<Rightarrow> snapshot \<Rightarrow> bool" where
  "sees_only_finished w s \<longleftrightarrow> snapshot_ok s \<and> (\<forall>x. sees s x \<longrightarrow> finished w x)"

definition new_to :: "snapshot \<Rightarrow> snapshot \<Rightarrow> stored_row \<Rightarrow> bool" where
  "new_to d e r \<longleftrightarrow> sees e (st_xid r) \<and> \<not> sees d (st_xid r)"

definition config_ok :: "outbox_config \<Rightarrow> bool" where
  "config_ok cf \<longleftrightarrow> ring_ok (oc_ring cf) \<and> 1 \<le> oc_batch cf"

lemma sees_only_finished_later: "sees_only_finished w s \<Longrightarrow> later w w' \<Longrightarrow> sees_only_finished w' s"
  unfolding sees_only_finished_def using later_finished by blast

lemma current_sees_only_finished: "world_ok w \<Longrightarrow> sees_only_finished w (current_snapshot w)"
  by (simp add: sees_only_finished_def current_snapshot_ok sees_current)

lemma nothing_sees_only_finished [simp]: "world_ok w \<Longrightarrow> sees_only_finished w snapshot_nothing"
  using finished_zero by (auto simp: sees_only_finished_def less_Suc_eq)

lemma below_sees_only_finished: "sees_only_finished w s \<Longrightarrow> sees_only_finished w (below x s)"
  by (simp add: sees_only_finished_def sees_below)

lemma visible_new:
  "world_ok w \<Longrightarrow> sees_only_finished w e \<Longrightarrow> new_to d e r \<Longrightarrow> r \<in> set (visible_rows w) \<longleftrightarrow> r \<in> set (ow_rows w)"
  by (simp add: visible_iff sees_only_finished_def new_to_def)

lemma set_members:
  assumes "config_ok cf" "world_ok w" "snapshot_ok d" "sees_only_finished w e"
  shows "set (members cf (snd (snd k)) (fst (snd k)) d e w) = {r \<in> set (ow_rows w). due cf k r \<and> new_to d e r}"
proof (rule set_eqI)
  fix r :: stored_row
  have ring: "ring_ok (oc_ring cf)" and e: "snapshot_ok e" using assms(1,4) by (simp_all add: config_ok_def sees_only_finished_def)
  have seen: "\<not> sees d (st_xid r)" if "sn_xmax d \<le> st_xid r \<or> st_xid r \<in> set (sn_xip d)"
    using that assms(3) by (auto simp: sees_def snapshot_ok_def)
  have new: "new_to d e r \<Longrightarrow> row_generation cf r \<in> ring_generations_new (oc_ring cf) d e
      \<and> (sn_xmax d \<le> st_xid r \<and> st_xid r < sn_xmax e \<or> st_xid r \<in> set (sn_xip d))"
    unfolding new_to_def row_generation_def
    using generation_named [OF ring assms(3) e] new_xid [OF assms(3)] sees_xmax [OF e] by blast
  show "r \<in> set (members cf (snd (snd k)) (fst (snd k)) d e w) \<longleftrightarrow> r \<in> {r \<in> set (ow_rows w). due cf k r \<and> new_to d e r}"
  proof
    assume "r \<in> set (members cf (snd (snd k)) (fst (snd k)) d e w)"
    then have "due cf k r" "sees e (st_xid r)" "sn_xmax d \<le> st_xid r \<or> st_xid r \<in> set (sn_xip d)"
      "r \<in> set (visible_rows w)"
      by (auto simp: members_def Let_def due_def)
    then show "r \<in> {r \<in> set (ow_rows w). due cf k r \<and> new_to d e r}"
      using seen assms(2) by (simp add: new_to_def visible_iff)
  next
    assume "r \<in> {r \<in> set (ow_rows w). due cf k r \<and> new_to d e r}"
    then have "r \<in> set (visible_rows w)" "due cf k r" "new_to d e r"
      using visible_new [OF assms(2,4)] by auto
    then show "r \<in> set (members cf (snd (snd k)) (fst (snd k)) d e w)"
      using new by (auto simp: members_def Let_def due_def new_to_def)
  qed
qed

lemma spans_distinct: "distinct (map gn_generation (spans cf rows))"
  by (simp add: spans_def Let_def o_def)

lemma spans_empty: "spans cf rows = [] \<longleftrightarrow> rows = []"
  unfolding spans_def map_is_Nil_conv by (metis list.set_map image_is_empty set_empty set_remdups set_sort)

lemma spans_hold:
  assumes "r \<in> set rows"
  shows "\<exists>g\<in>set (spans cf rows). gn_generation g = row_generation cf r \<and> gn_first g \<le> st_position r \<and> st_position r \<le> gn_last g"
  using assms by (auto simp: spans_def Let_def)

lemma span_firsts:
  assumes "r \<in> set rows"
  shows "Min (set (map gn_first (spans cf rows))) \<le> st_position r"
proof -
  obtain g where "g \<in> set (spans cf rows)" "gn_first g \<le> st_position r" using spans_hold [OF assms] by blast
  then show ?thesis by (auto intro: Min_le [THEN order_trans])
qed

subsection \<open>A batch\<close>

definition spans_cover :: "outbox_config \<Rightarrow> place_key \<Rightarrow> snapshot \<Rightarrow> epoch \<Rightarrow> outbox_world \<Rightarrow> bool" where
  "spans_cover cf k d e w \<longleftrightarrow> distinct (map gn_generation (ep_generations e))
    \<and> (\<forall>r\<in>set (ow_rows w). due cf k r \<and> new_to d (ep_snapshot e) r \<and> ep_offset e < st_position r \<longrightarrow>
         (\<exists>g\<in>set (ep_generations e). gn_generation g = row_generation cf r
            \<and> gn_first g \<le> st_position r \<and> st_position r \<le> gn_last g))"

lemma distinct_concat_map:
  assumes "distinct (map key gs)" "\<And>g. g \<in> set gs \<Longrightarrow> distinct (F g)"
    and "\<And>g r. g \<in> set gs \<Longrightarrow> r \<in> set (F g) \<Longrightarrow> owner r = key g"
  shows "distinct (concat (map F gs))"
  using assms by (induction gs) (auto, metis image_eqI)

text \<open>The rows an epoch still owes, in the order they are handed on.\<close>

definition owed :: "outbox_config \<Rightarrow> place_key \<Rightarrow> snapshot \<Rightarrow> epoch \<Rightarrow> outbox_world \<Rightarrow> stored_row list" where
  "owed cf k d e w = sort_key st_position
    (filter (\<lambda>r. due cf k r \<and> new_to d (ep_snapshot e) r \<and> ep_offset e < st_position r) (ow_rows w))"

lemma set_owed:
  "set (owed cf k d e w) = {r \<in> set (ow_rows w). due cf k r \<and> new_to d (ep_snapshot e) r \<and> ep_offset e < st_position r}"
  by (simp add: owed_def)

lemma batch_is_next_owed:
  assumes "world_ok w" "sees_only_finished w (ep_snapshot e)" "spans_cover cf k d e w"
  shows "read_batch cf (snd (snd k)) (fst (snd k)) e d w = take (oc_batch cf) (owed cf k d e w)"
proof -
  let ?b = "branch cf (snd (snd k)) (fst (snd k)) e d w"
  let ?gs = "filter (\<lambda>g. ep_offset e < gn_last g) (ep_generations e)"
  let ?all = "concat (map ?b ?gs)"
  let ?owed = "filter (\<lambda>r. due cf k r \<and> new_to d (ep_snapshot e) r \<and> ep_offset e < st_position r) (ow_rows w)"
  have rows: "distinct (ow_rows w)" "inj_on st_position (set (ow_rows w))"
    using assms(1) by (simp_all add: world_ok_def distinct_map)
  have visible: "distinct (visible_rows w)" using rows(1) by (simp add: visible_rows_def)
  have mem: "r \<in> set ?all \<longleftrightarrow> r \<in> set ?owed" for r
  proof
    assume "r \<in> set ?all"
    then show "r \<in> set ?owed" by (auto simp: branch_def due_def new_to_def visible_rows_def)
  next
    assume r: "r \<in> set ?owed"
    then obtain g where g: "g \<in> set (ep_generations e)" "gn_generation g = row_generation cf r"
        "gn_first g \<le> st_position r" "st_position r \<le> gn_last g"
      using assms(3) by (auto simp: spans_cover_def)
    moreover have "r \<in> set (visible_rows w)" using r visible_new [OF assms(1,2)] by auto
    ultimately have "r \<in> set (?b g)" "ep_offset e < gn_last g"
      using r by (auto simp: branch_def due_def new_to_def)
    then show "r \<in> set ?all" using g(1) by auto
  qed
  have "distinct (map gn_generation (ep_generations e))" using assms(3) by (simp add: spans_cover_def)
  then have "distinct ?all"
    by (intro distinct_concat_map [where key = gn_generation and owner = "row_generation cf"])
      (auto simp: distinct_map_filter branch_def visible)
  moreover have "inj_on st_position (set ?all)" using mem by (intro inj_on_subset [OF rows(2)]) auto
  ultimately have "distinct (map st_position ?all)" by (simp only: distinct_map)
  then have limits: "take (oc_batch cf) (sort_key st_position (concat (map (\<lambda>b. take (oc_batch cf) (sort_key st_position b)) (map ?b ?gs))))
      = take (oc_batch cf) (sort_key st_position ?all)"
    using take_sort_branches [of st_position "[]" "map ?b ?gs"] by simp
  have "mset ?all = mset ?owed"
    using \<open>distinct ?all\<close> rows(1) mem by (intro set_eq_iff_mset_eq_distinct [THEN iffD1]) auto
  then have "sort_key st_position ?all = sort_key st_position ?owed"
    using \<open>inj_on st_position (set ?all)\<close> by (rule sort_key_eq_sort_key)
  then show ?thesis unfolding read_batch_def owed_def limits [unfolded map_map o_def, symmetric] by (simp add: limits [unfolded map_map o_def])
qed

end
