(* ===== verification/Outbox_Relay.thy ===== *)
theory Outbox_Relay
  imports Outbox_Batch
begin

section \<open>The relay loses nothing\<close>

text \<open>
  What holds of every position between dispatches: the snapshots it stores see only finished
  transactions, every row that its \<open>delivered\<close> sees was handed to its group or passed by when the position
  began, and of an epoch in flight everything up to its offset was handed on and the rest lies in the
  generations it names. Each statement of the dispatcher keeps it, whatever the producers do between them.
\<close>

subsection \<open>The invariant\<close>

definition handed_to :: "outbox_world \<Rightarrow> string \<Rightarrow> stored_row \<Rightarrow> bool" where
  "handed_to w g r \<longleftrightarrow> (\<exists>k. fst k = g \<and> (k, r) \<in> set (ow_handed w))"

definition epoch_ok :: "outbox_config \<Rightarrow> place_key \<Rightarrow> snapshot \<Rightarrow> epoch \<Rightarrow> outbox_world \<Rightarrow> bool" where
  "epoch_ok cf k d e w \<longleftrightarrow> sees_only_finished w (ep_snapshot e) \<and> (\<forall>x. sees d x \<longrightarrow> sees (ep_snapshot e) x)
    \<and> (\<forall>r\<in>set (ow_rows w). due cf k r \<and> new_to d (ep_snapshot e) r \<and> st_position r \<le> ep_offset e
         \<longrightarrow> handed_to w (fst k) r)
    \<and> (ep_end e \<noteq> None \<longrightarrow> spans_cover cf k d e w)"

definition place_ok :: "outbox_config \<Rightarrow> outbox_world \<Rightarrow> place_key \<Rightarrow> place_row \<Rightarrow> bool" where
  "place_ok cf w k p \<longleftrightarrow> sees_only_finished w (pl_delivered p)
    \<and> (\<forall>r\<in>set (ow_rows w). due cf k r \<and> sees (pl_delivered p) (st_xid r)
         \<longrightarrow> handed_to w (fst k) r \<or> sees (pr_skipped p) (st_xid r))
    \<and> (\<forall>r\<in>set (ow_gone w). due cf k r \<longrightarrow> handed_to w (fst k) r \<or> sees (pr_skipped p) (st_xid r))
    \<and> (\<forall>e. pl_epoch p = Some e \<longrightarrow> epoch_ok cf k (pl_delivered p) e w)"

text \<open>What was reclaimed lies below the ring's bound.\<close>

definition gone_ok :: "outbox_world \<Rightarrow> bool" where
  "gone_ok w \<longleftrightarrow> (\<forall>r\<in>set (ow_gone w). finished w (st_xid r)
    \<and> (\<exists>i. me_intact_from (ow_meta w) = Some i \<and> st_xid r < i))"

definition relay_ok :: "outbox_config \<Rightarrow> outbox_world \<Rightarrow> bool" where
  "relay_ok cf w \<longleftrightarrow> world_ok w \<and> gone_ok w \<and> distinct (map fst (ow_places w))
    \<and> (\<forall>(k, p)\<in>set (ow_places w). place_ok cf w k p)"

text \<open>A world that grows keeps it, place by place.\<close>

definition grows :: "outbox_world \<Rightarrow> outbox_world \<Rightarrow> bool" where
  "grows w w' \<longleftrightarrow> (\<forall>x. finished w x \<longrightarrow> finished w' x)
    \<and> (\<forall>r\<in>set (ow_rows w'). finished w (st_xid r) \<longrightarrow> r \<in> set (ow_rows w))
    \<and> set (ow_handed w) \<subseteq> set (ow_handed w') \<and> ow_gone w' = ow_gone w
    \<and> me_intact_from (ow_meta w') = me_intact_from (ow_meta w)"

lemma gone_ok_grows: "grows w w' \<Longrightarrow> gone_ok w \<Longrightarrow> gone_ok w'"
  unfolding gone_ok_def grows_def by metis

lemma later_grows: "later w w' \<Longrightarrow> grows w w'"
  by (auto simp: later_def grows_def)

lemma grows_handed_to: "grows w w' \<Longrightarrow> handed_to w g r \<Longrightarrow> handed_to w' g r"
  unfolding grows_def handed_to_def by blast

lemma grows_sees: "grows w w' \<Longrightarrow> sees_only_finished w s \<Longrightarrow> sees_only_finished w' s"
  unfolding grows_def sees_only_finished_def by blast

lemma grows_row:
  "grows w w' \<Longrightarrow> sees_only_finished w s \<Longrightarrow> sees s (st_xid r) \<Longrightarrow> r \<in> set (ow_rows w') \<Longrightarrow> r \<in> set (ow_rows w)"
  unfolding grows_def sees_only_finished_def by blast

lemma spans_cover_grows:
  assumes "grows w w'" "sees_only_finished w (ep_snapshot e)" "spans_cover cf k d e w"
  shows "spans_cover cf k d e w'"
  using assms(3) grows_row [OF assms(1,2)] unfolding spans_cover_def new_to_def by blast

lemma epoch_ok_grows:
  assumes "grows w w'" "epoch_ok cf k d e w"
  shows "epoch_ok cf k d e w'"
proof -
  have e: "sees_only_finished w (ep_snapshot e)" using assms(2) by (simp add: epoch_ok_def)
  have "handed_to w' (fst k) r" if "r \<in> set (ow_rows w')" "due cf k r" "new_to d (ep_snapshot e) r"
      "st_position r \<le> ep_offset e" for r
    using that assms(2) grows_row [OF assms(1) e] grows_handed_to [OF assms(1)]
    unfolding epoch_ok_def new_to_def by blast
  then show ?thesis
    using assms(2) grows_sees [OF assms(1) e] spans_cover_grows [OF assms(1) e] unfolding epoch_ok_def by blast
qed

lemma place_ok_grows:
  assumes "grows w w'" "place_ok cf w k p"
  shows "place_ok cf w' k p"
proof -
  have d: "sees_only_finished w (pl_delivered p)" using assms(2) by (simp add: place_ok_def)
  have "handed_to w' (fst k) r \<or> sees (pr_skipped p) (st_xid r)"
    if "r \<in> set (ow_rows w')" "due cf k r" "sees (pl_delivered p) (st_xid r)" for r
    using that assms(2) grows_row [OF assms(1) d] grows_handed_to [OF assms(1)] unfolding place_ok_def by blast
  moreover have "handed_to w' (fst k) r \<or> sees (pr_skipped p) (st_xid r)"
    if "r \<in> set (ow_gone w')" "due cf k r" for r
    using that assms grows_handed_to [OF assms(1)] unfolding place_ok_def grows_def by metis
  ultimately show ?thesis
    using assms(2) grows_sees [OF assms(1) d] epoch_ok_grows [OF assms(1)] unfolding place_ok_def by blast
qed

lemma relay_ok_place: "relay_ok cf w \<Longrightarrow> map_of (ow_places w) k = Some p \<Longrightarrow> place_ok cf w k p"
  unfolding relay_ok_def using map_of_SomeD by fastforce

lemma relay_ok_grows:
  "relay_ok cf w \<Longrightarrow> grows w w' \<Longrightarrow> world_ok w' \<Longrightarrow> ow_places w' = ow_places w \<Longrightarrow> relay_ok cf w'"
  unfolding relay_ok_def using place_ok_grows gone_ok_grows by fastforce

lemma relay_ok_later: "relay_ok cf w \<Longrightarrow> later w w' \<Longrightarrow> world_ok w' \<Longrightarrow> relay_ok cf w'"
  using relay_ok_grows later_grows later_same(1) by blast

lemma relay_ok_update:
  assumes "relay_ok cf w" "grows w w'" "world_ok w'"
    and "ow_places w' = AList.update k p (ow_places w)" "place_ok cf w' k p"
  shows "relay_ok cf w'"
proof -
  have "place_ok cf w' k' p'" if "(k', p') \<in> set (ow_places w')" for k' p'
  proof -
    have "distinct (map fst (ow_places w'))"
      using assms(1,4) by (simp add: relay_ok_def distinct_update)
    then have "map_of (ow_places w') k' = Some p'" using that by simp
    then have "k' = k \<and> p' = p \<or> map_of (ow_places w) k' = Some p'"
      unfolding assms(4) by (auto simp: update_conv split: if_splits)
    then show ?thesis
      using assms(5) place_ok_grows [OF assms(2) relay_ok_place [OF assms(1)]] by blast
  qed
  then show ?thesis using assms(1,3,4) gone_ok_grows [OF assms(2)] by (auto simp: relay_ok_def distinct_update)
qed

subsection \<open>The look and the first contact\<close>

lemma taken_place:
  assumes "tk_slot (take_slot cf held s names w) = Some slot" "distinct (map fst (ow_places w))"
  shows "\<exists>p. map_of (ow_places w) (place_of s slot) = Some p
    \<and> tk_position (take_slot cf held s names w) = place.truncate p \<and> place_of s slot \<notin> held
    \<and> has_work cf names w (place_of s slot, p)"
proof -
  let ?free = "filter (\<lambda>(k, p). k \<notin> held) (sort_key (\<lambda>(k, p). pr_updated_at p)
    (filter (has_work cf names w) (filter (\<lambda>(k, p). of_selection s k) (ow_places w))))"
  obtain k p rest where free: "?free = (k, p) # rest"
    using assms(1) by (auto simp: take_slot_def Let_def split: list.splits)
  then have "(k, p) \<in> set ?free" by simp
  then have kp: "(k, p) \<in> set (ow_places w)" "of_selection s k" "k \<notin> held" "has_work cf names w (k, p)" by auto
  have "slot = snd (snd k)" using assms(1) free by (simp add: take_slot_def)
  then have "k = place_of s slot" using kp(2) by (simp add: of_selection_def)
  then show ?thesis using kp assms(2) free by (auto simp: take_slot_def)
qed

lemma ring_start_ok: "world_ok w \<Longrightarrow> sees_only_finished w (ring_start w)"
  by (simp add: ring_start_def below_sees_only_finished current_sees_only_finished split: option.split)

lemma selected_all [simp]: "selected [] r"
  by (simp add: selected_def)

lemma first_position_ok:
  assumes "relay_ok cf w"
  shows "place_ok cf w (place_of s slot) (first_position s now w slot)"
proof (cases "if sl_uri s = [] then None else map_of (ow_places w) (place_of (selection_group (sl_group s)) slot)")
  case None
  moreover have "sees (ring_start w) (st_xid r)" if "r \<in> set (ow_gone w)" for r
  proof -
    have "sees_only_finished w (current_snapshot w)" "sees (current_snapshot w) (st_xid r)"
      using that assms by (simp_all add: relay_ok_def gone_ok_def current_sees_only_finished sees_current)
    moreover have "gone_ok w" using assms by (simp add: relay_ok_def)
    then have "\<exists>i. me_intact_from (ow_meta w) = Some i \<and> st_xid r < i" using that by (simp add: gone_ok_def)
    then obtain i where "me_intact_from (ow_meta w) = Some i" "st_xid r < i" by blast
    ultimately show ?thesis by (simp add: ring_start_def sees_below sees_only_finished_def)
  qed
  ultimately show ?thesis
    using assms by (simp add: place_ok_def first_position_def Let_def ring_start_ok relay_ok_def)
next
  case (Some e)
  let ?k = "place_of (selection_group (sl_group s)) slot"
  have e: "place_ok cf w ?k e" using relay_ok_place [OF assms] Some by (auto split: if_splits)
  moreover have "due cf (place_of s slot) r \<Longrightarrow> due cf ?k r" for r
    by (simp add: due_def place_of_def selection_group_def)
  moreover have "fst ?k = fst (place_of s slot)" by (simp add: place_of_def selection_group_def)
  ultimately show ?thesis
    unfolding place_ok_def first_position_def Let_def Some by auto
qed

lemma ensure_positions_ok:
  assumes "relay_ok cf w"
  shows "relay_ok cf (ensure_positions s now w)"
proof -
  let ?w = "ensure_positions s now w"
  have world: "world_ok ?w" using assms by (simp add: ensure_positions_def relay_ok_def world_ok_def)
  have grows: "grows w ?w" by (simp add: ensure_positions_def grows_def finished_def)
  have "distinct (map fst (ow_places ?w))"
    using assms by (auto simp: ensure_positions_def relay_ok_def o_def distinct_map inj_on_def place_of_def)
  moreover have "place_ok cf ?w k p" if "(k, p) \<in> set (ow_places ?w)" for k p
  proof -
    have "place_ok cf w k p"
      using that assms first_position_ok [OF assms] by (auto simp: ensure_positions_def relay_ok_def)
    then show ?thesis by (rule place_ok_grows [OF grows])
  qed
  moreover have "gone_ok ?w" using gone_ok_grows [OF grows] assms by (simp add: relay_ok_def)
  ultimately show ?thesis using world by (auto simp: relay_ok_def)
qed

lemma meanwhile_relay_ok: "relay_ok cf w \<Longrightarrow> relay_ok cf (meanwhile cf ps w)"
  by (rule relay_ok_later [OF _ meanwhile_later meanwhile_ok]) (simp_all add: relay_ok_def)

lemma look_ok:
  assumes "relay_ok cf w" "look cf env held s w = (t, w')"
  shows "relay_ok cf w'"
  using assms
  by (auto simp: look_def Let_def meanwhile_relay_ok ensure_positions_ok split: if_splits)

lemma look_taken:
  assumes "relay_ok cf w" "look cf env held s w = (t, w')" "tk_slot t = Some slot"
  shows "\<exists>p. map_of (ow_places w') (place_of s slot) = Some p \<and> tk_position t = place.truncate p
    \<and> place_of s slot \<notin> held"
proof -
  have "\<exists>names. t = take_slot cf held s names w'"
    using assms(2) by (auto simp: look_def Let_def split: if_splits)
  then show ?thesis
    using taken_place assms(3) look_ok [OF assms(1,2)] unfolding relay_ok_def by blast
qed

subsection \<open>An epoch\<close>

lemma start_epoch_covers:
  assumes "config_ok cf" "world_ok w" "sees_only_finished w d" "sees_only_finished w t"
    and "st = start_epoch cf (snd (snd k)) (fst (snd k)) d t w" "ep_snapshot e = t" "ep_generations e = se_generations st"
  shows "spans_cover cf k d e w"
    and "se_first st = Some lo \<Longrightarrow> r \<in> set (ow_rows w) \<Longrightarrow> due cf k r \<Longrightarrow> new_to d t r \<Longrightarrow> lo \<le> st_position r"
    and "se_first st = None \<Longrightarrow> r \<in> set (ow_rows w) \<Longrightarrow> due cf k r \<Longrightarrow> \<not> new_to d t r"
proof -
  let ?m = "members cf (snd (snd k)) (fst (snd k)) d t w"
  have "snapshot_ok d" using assms(3) by (simp add: sees_only_finished_def)
  note m = set_members [OF assms(1,2) this assms(4), of k]
  show "spans_cover cf k d e w"
    using m spans_hold [of _ ?m cf] assms(5-7) spans_distinct [of cf ?m]
    by (simp add: spans_cover_def start_epoch_def Let_def)
  show "se_first st = Some lo \<Longrightarrow> r \<in> set (ow_rows w) \<Longrightarrow> due cf k r \<Longrightarrow> new_to d t r \<Longrightarrow> lo \<le> st_position r"
    using m span_firsts [of r ?m cf] assms(5) by (auto simp: start_epoch_def Let_def split: if_splits)
  show "se_first st = None \<Longrightarrow> r \<in> set (ow_rows w) \<Longrightarrow> due cf k r \<Longrightarrow> \<not> new_to d t r"
    using m assms(5) by (auto simp: start_epoch_def Let_def spans_empty split: if_splits)
qed

lemma chosen_epoch_ok:
  assumes "config_ok cf" "relay_ok cf w" "place_ok cf w (place_of s slot) p"
    and "pos = place.truncate p" "w' = meanwhile cf ps w"
    and "choose_epoch cf slot (sl_uri s) pos w w' = Inr (InFlight e started)"
  shows "epoch_ok cf (place_of s slot) (pl_delivered p) e w'" "ep_end e \<noteq> None"
proof -
  let ?k = "place_of s slot" and ?d = "pl_delivered p"
  have k: "snd (snd ?k) = slot" "fst (snd ?k) = sl_uri s" by (simp_all add: place_of_def)
  have w: "world_ok w" using assms(2) by (simp add: relay_ok_def)
  then have w': "world_ok w'" and later: "later w w'" unfolding assms(5) by (rule meanwhile_ok meanwhile_later)+
  have d: "sees_only_finished w ?d" using assms(3) by (simp add: place_ok_def)
  then have d': "sees_only_finished w' ?d" using later by (rule sees_only_finished_later)
  have pos: "pl_delivered pos = ?d" "pl_epoch pos = pl_epoch p" by (simp_all add: assms(4) place.truncate_def)
  have p': "place_ok cf w' ?k p" by (rule place_ok_grows [OF later_grows [OF later] assms(3)])
  have "epoch_ok cf ?k ?d e w' \<and> ep_end e \<noteq> None"
  proof (cases "pl_epoch p")
    case None
    let ?t = "current_snapshot w"
    let ?st = "start_epoch cf slot (sl_uri s) ?d ?t w'"
    have t': "sees_only_finished w' ?t"
      by (rule sees_only_finished_later [OF current_sees_only_finished [OF w] later])
    obtain lo hi where lo: "se_first ?st = Some lo" "se_last ?st = Some hi"
      and e: "e = \<lparr>ep_snapshot = ?t, ep_offset = lo - 1, ep_end = Some hi, ep_generations = se_generations ?st\<rparr>"
      using assms(6) None by (auto simp: choose_epoch_def pos and_then_Inr_iff start_epoch_def Let_def split: if_splits)
    note covers = start_epoch_covers [OF assms(1) w' d' t', where k = ?k, unfolded k, OF refl, where e = e]
    have "spans_cover cf ?k ?d e w'" using covers(1) e by simp
    moreover have "\<not> st_position r \<le> lo - 1"
      if "r \<in> set (ow_rows w')" "due cf ?k r" "new_to ?d ?t r" for r
      using covers(2) [OF _ _ lo(1) that] e by simp
    moreover have "sees ?d x \<Longrightarrow> sees ?t x" for x using d sees_current [OF w] by (simp add: sees_only_finished_def)
    ultimately show ?thesis using t' e unfolding epoch_ok_def by auto
  next
    case (Some e0)
    have e0: "epoch_ok cf ?k ?d e0 w'" using p' Some by (simp add: place_ok_def)
    show ?thesis
    proof (cases "ep_end e0 = None")
      case False
      then have "e = e0" using assms(6) Some by (simp add: choose_epoch_def pos)
      then show ?thesis using e0 False by simp
    next
      case True
      let ?st = "start_epoch cf slot (sl_uri s) ?d (ep_snapshot e0) w'"
      have e: "ep_snapshot e = ep_snapshot e0" "ep_offset e = ep_offset e0" "ep_end e \<noteq> None"
          "ep_generations e = se_generations ?st"
        using assms(6) Some True by (auto simp: choose_epoch_def pos Let_def)
      have t': "sees_only_finished w' (ep_snapshot e0)" using e0 by (simp add: epoch_ok_def)
      have "spans_cover cf ?k ?d e w'"
        by (rule start_epoch_covers(1) [OF assms(1) w' d' t', where k = ?k, unfolded k, OF refl])
          (simp_all add: e)
      then show ?thesis using e0 e unfolding epoch_ok_def by simp
    qed
  qed
  then show "epoch_ok cf ?k ?d e w'" "ep_end e \<noteq> None" by blast+
qed

lemma nothing_new_ok:
  assumes "config_ok cf" "relay_ok cf w" "place_ok cf w (place_of s slot) p"
    and "pos = place.truncate p" "w' = meanwhile cf ps w"
    and "choose_epoch cf slot (sl_uri s) pos w w' = Inr (NothingNew t)"
  shows "place_ok cf w' (place_of s slot) (p\<lparr>pl_delivered := t, pl_epoch := None\<rparr>)"
proof -
  let ?k = "place_of s slot" and ?d = "pl_delivered p"
  have k: "snd (snd ?k) = slot" "fst (snd ?k) = sl_uri s" by (simp_all add: place_of_def)
  have w: "world_ok w" using assms(2) by (simp add: relay_ok_def)
  then have w': "world_ok w'" and later: "later w w'" unfolding assms(5) by (rule meanwhile_ok meanwhile_later)+
  have d: "sees_only_finished w ?d" using assms(3) by (simp add: place_ok_def)
  then have d': "sees_only_finished w' ?d" using later by (rule sees_only_finished_later)
  have pos: "pl_delivered pos = ?d" "pl_epoch pos = pl_epoch p" by (simp_all add: assms(4) place.truncate_def)
  have p': "place_ok cf w' ?k p" by (rule place_ok_grows [OF later_grows [OF later] assms(3)])
  let ?st = "start_epoch cf slot (sl_uri s) ?d (current_snapshot w) w'"
  have t: "t = current_snapshot w" "se_first ?st = None"
    using assms(6) by (auto simp: choose_epoch_def pos and_then_Inr_iff start_epoch_def Let_def split: option.splits if_splits)
  have t': "sees_only_finished w' t"
    unfolding t(1) by (rule sees_only_finished_later [OF current_sees_only_finished [OF w] later])
  have "\<not> new_to ?d t r" if "r \<in> set (ow_rows w')" "due cf ?k r" for r
    using start_epoch_covers(3) [OF assms(1) w' d' t', where k = ?k, unfolded k, OF refl, where
        e = "\<lparr>ep_snapshot = t, ep_offset = 0, ep_end = None, ep_generations = se_generations ?st\<rparr>"] t that
    by simp
  then show ?thesis using p' t' unfolding place_ok_def new_to_def by simp
qed

subsection \<open>A batch handed on\<close>

lemma ack_world:
  assumes "ack now s slot dr e started w = Inr w'" "map_of (ow_places w) (place_of s slot) = Some p"
  shows "\<exists>moved. w' = w\<lparr>ow_places := AList.update (place_of s slot) moved (ow_places w)\<rparr>
    \<and> pl_delivered moved = (case dr of Some t \<Rightarrow> t | None \<Rightarrow> pl_delivered p) \<and> pl_epoch moved = e
    \<and> pr_skipped moved = pr_skipped p \<and> pr_updated_at moved = now"
  using assms by (auto simp: ack_def Let_def intro!: exI)

lemma ack_found: "map_of (ow_places w) (place_of s slot) = Some p \<Longrightarrow> \<exists>w'. ack now s slot dr e started w = Inr w'"
  by (simp add: ack_def Let_def)

text \<open>What the rows handed on leave of the epoch.\<close>

lemma drained_place_ok:
  assumes "place_ok cf w k p" "epoch_ok cf k (pl_delivered p) e w"
    and "\<And>r. r \<in> set (owed cf k (pl_delivered p) e w) \<Longrightarrow> handed_to w (fst k) r"
    and "pl_delivered q = ep_snapshot e" "pl_epoch q = None" "pr_skipped q = pr_skipped p"
  shows "place_ok cf w k q"
proof -
  have "handed_to w (fst k) r \<or> sees (pr_skipped p) (st_xid r)"
    if "r \<in> set (ow_rows w)" "due cf k r" "sees (ep_snapshot e) (st_xid r)" for r
  proof (cases "sees (pl_delivered p) (st_xid r)")
    case True then show ?thesis using assms(1) that by (simp add: place_ok_def)
  next
    case False
    then have new: "new_to (pl_delivered p) (ep_snapshot e) r" using that by (simp add: new_to_def)
    show ?thesis
    proof (cases "st_position r \<le> ep_offset e")
      case True then show ?thesis using assms(2) that new by (simp add: epoch_ok_def)
    next
      case False then show ?thesis using assms(3) that new by (simp add: set_owed)
    qed
  qed
  then show ?thesis using assms by (simp add: place_ok_def epoch_ok_def)
qed

lemma advanced_place_ok:
  assumes "place_ok cf w k p" "epoch_ok cf k (pl_delivered p) e w" "ep_end e \<noteq> None" "ep_offset e \<le> n"
    and "\<And>r. r \<in> set (owed cf k (pl_delivered p) e w) \<Longrightarrow> st_position r \<le> n \<Longrightarrow> handed_to w (fst k) r"
    and "pl_delivered q = pl_delivered p" "pl_epoch q = Some (e\<lparr>ep_offset := n\<rparr>)" "pr_skipped q = pr_skipped p"
  shows "place_ok cf w k q"
proof -
  let ?e = "e\<lparr>ep_offset := n\<rparr>"
  have "handed_to w (fst k) r"
    if "r \<in> set (ow_rows w)" "due cf k r" "new_to (pl_delivered p) (ep_snapshot e) r" "st_position r \<le> n" for r
    using that assms(2,5) by (cases "st_position r \<le> ep_offset e") (auto simp: epoch_ok_def set_owed)
  moreover have "spans_cover cf k (pl_delivered p) ?e w"
    using assms(2-4) by (auto simp: epoch_ok_def spans_cover_def)
  ultimately have "epoch_ok cf k (pl_delivered p) ?e w"
    using assms(2,3) by (simp add: epoch_ok_def)
  then show ?thesis using assms(1,6-8) by (simp add: place_ok_def)
qed

lemma owed_stays:
  assumes "sees_only_finished w (ep_snapshot e)" "later w w'"
  shows "set (owed cf k d e w') = set (owed cf k d e w)"
  using later_rows [OF assms(2)] assms(1) by (auto simp: set_owed new_to_def sees_only_finished_def)

lemma not_in_batch_is_past:
  assumes "world_ok w" "r \<in> set (owed cf k d e w)" "r \<notin> set (take n (owed cf k d e w))"
    "q \<in> set (take n (owed cf k d e w))"
  shows "st_position q < st_position r"
proof -
  let ?xs = "filter (\<lambda>r. due cf k r \<and> new_to d (ep_snapshot e) r \<and> ep_offset e < st_position r) (ow_rows w)"
  have "distinct (map st_position ?xs)" using assms(1) by (simp add: world_ok_def distinct_filtered)
  moreover have "r \<in> set ?xs" using assms(2) by (simp add: set_owed)
  ultimately show ?thesis
    using assms(3,4) unfolding owed_def by (rule left_out_is_past)
qed

lemma hand_on_ok:
  assumes "config_ok cf" "relay_ok cf w" "map_of (ow_places w) (place_of s slot) = Some p"
    and "epoch_ok cf (place_of s slot) (pl_delivered p) e w" "ep_end e \<noteq> None" "w' = meanwhile cf ps w"
    and "hand_on cf now s slot h e (pl_delivered p) started w w' = Inr w2"
  shows "relay_ok cf w2"
    and "ow_handed w2 = ow_handed w @ map (Pair (place_of s slot)) (take (oc_batch cf) (owed cf (place_of s slot) (pl_delivered p) e w))"
    and "\<exists>q hs. w2 = w'\<lparr>ow_places := AList.update (place_of s slot) q (ow_places w'), ow_handed := hs\<rparr>
      \<and> pr_skipped q = pr_skipped p \<and> (pl_epoch q = None \<or> (\<exists>n. pl_epoch q = Some (e\<lparr>ep_offset := n\<rparr>)))"
proof -
  let ?k = "place_of s slot" and ?d = "pl_delivered p" and ?n = "oc_batch cf"
  let ?rows = "take ?n (owed cf ?k ?d e w)"
  let ?reached = "if ?rows = [] then ep_offset e else st_position (last ?rows)"
  have k: "snd (snd ?k) = slot" "fst (snd ?k) = sl_uri s" by (simp_all add: place_of_def)
  have w: "world_ok w" using assms(2) by (simp add: relay_ok_def)
  have later: "later w w'" unfolding assms(6) by (rule meanwhile_later [OF w])
  have ok': "relay_ok cf w'" unfolding assms(6) by (rule meanwhile_relay_ok [OF assms(2)])
  have places': "map_of (ow_places w') ?k = Some p" using assms(3) later_same(1) [OF later] by simp
  have sof: "sees_only_finished w (ep_snapshot e)" and cover: "spans_cover cf ?k ?d e w"
    using assms(4,5) by (simp_all add: epoch_ok_def)
  have batch: "read_batch cf slot (sl_uri s) e ?d w = ?rows"
    using batch_is_next_owed [OF w sof cover] by (simp only: k)
  define short where "short = (length ?rows < ?n)"
  define dr where "dr = (if short then Some (ep_snapshot e) else None)"
  define en where "en = (if short then None else Some (e\<lparr>ep_offset := ?reached\<rparr>))"
  have "Inr w2 =
      (case handle_all h (map message_of ?rows) of Some err \<Rightarrow> Inl (OSubscriber err)
       | None \<Rightarrow> and_then (ack now s slot dr en started w') (\<lambda>w1. Inr (w1\<lparr>ow_handed := ow_handed w1 @ map (Pair ?k) ?rows\<rparr>)))"
    unfolding assms(7) [symmetric] hand_on_def batch Let_def short_def [symmetric] dr_def en_def
    by (cases short) simp_all
  then obtain w1 where moved: "ack now s slot dr en started w' = Inr w1"
    and w2: "w2 = w1\<lparr>ow_handed := ow_handed w1 @ map (Pair ?k) ?rows\<rparr>"
    by (cases "ack now s slot dr en started w'") (auto split: option.splits)
  obtain q where w1: "w1 = w'\<lparr>ow_places := AList.update ?k q (ow_places w')\<rparr>"
    and q: "pl_delivered q = (case dr of Some t \<Rightarrow> t | None \<Rightarrow> ?d)" "pl_epoch q = en" "pr_skipped q = pr_skipped p"
    using ack_world [OF moved places'] by blast
  let ?w2 = "w'\<lparr>ow_places := AList.update ?k q (ow_places w'), ow_handed := ow_handed w' @ map (Pair ?k) ?rows\<rparr>"
  have w2': "w2 = ?w2" using w2 w1 by simp
  have grows: "grows w' ?w2" by (auto simp: grows_def finished_def)
  have world2: "world_ok ?w2" using ok' by (simp add: relay_ok_def world_ok_def)
  have epoch2: "epoch_ok cf ?k ?d e ?w2"
    by (rule epoch_ok_grows [OF grows epoch_ok_grows [OF later_grows [OF later] assms(4)]])
  have place2: "place_ok cf ?w2 ?k p"
    by (rule place_ok_grows [OF grows relay_ok_place [OF ok' places']])
  have owed2: "set (owed cf ?k ?d e ?w2) = set (owed cf ?k ?d e w)"
    using owed_stays [OF sof later] by (simp add: set_owed)
  have handed: "r \<in> set ?rows \<Longrightarrow> handed_to ?w2 (fst ?k) r" for r
    unfolding handed_to_def by (rule exI [of _ ?k]) simp
  have "place_ok cf ?w2 ?k q"
  proof (cases short)
    case True
    then have "length (owed cf ?k ?d e w) \<le> ?n" by (simp add: short_def min_def split: if_splits)
    then have "?rows = owed cf ?k ?d e w" by (rule take_all)
    then show ?thesis
      using True q handed owed2 unfolding dr_def en_def by (intro drained_place_ok [OF place2 epoch2]) simp_all
  next
    case False
    then have some: "?rows \<noteq> []" using assms(1) by (auto simp: config_ok_def short_def)
    have last: "last ?rows \<in> set ?rows" using some by (rule last_in_set)
    have "last ?rows \<in> set (owed cf ?k ?d e w)"
      using set_take_subset last by (rule subsetD)
    then have "ep_offset e \<le> ?reached" unfolding set_owed using some by simp
    moreover have "handed_to ?w2 (fst ?k) r" if "r \<in> set (owed cf ?k ?d e ?w2)" "st_position r \<le> ?reached" for r
      using not_in_batch_is_past [OF w _ _ last, of r] that some owed2 handed by (auto simp: not_less)
    ultimately show ?thesis
      using False q unfolding dr_def en_def by (intro advanced_place_ok [OF place2 epoch2 assms(5)]) simp_all
  qed
  then show "relay_ok cf w2"
    unfolding w2' by (intro relay_ok_update [OF ok' grows world2]) simp_all
  show "ow_handed w2 = ow_handed w @ map (Pair ?k) ?rows"
    unfolding w2' using later_same(3) [OF later] by simp
  have "pl_epoch q = None \<or> (\<exists>n. pl_epoch q = Some (e\<lparr>ep_offset := n\<rparr>))"
  proof (cases short)
    case False
    then have "pl_epoch q = Some (e\<lparr>ep_offset := ?reached\<rparr>)" unfolding q(2) en_def by (simp only: if_False)
    then show ?thesis by blast
  qed (simp add: q(2) en_def)
  then show "\<exists>q hs. w2 = w'\<lparr>ow_places := AList.update ?k q (ow_places w'), ow_handed := hs\<rparr>
      \<and> pr_skipped q = pr_skipped p \<and> (pl_epoch q = None \<or> (\<exists>n. pl_epoch q = Some (e\<lparr>ep_offset := n\<rparr>)))"
    unfolding w2' using q(3) by blast
qed

subsection \<open>The transaction\<close>

text \<open>What a slot taken comes to: an error, nothing new, or a batch.\<close>

lemma serve_cases:
  assumes "relay_ok cf w" "map_of (ow_places w) (place_of s slot) = Some p" "pos = place.truncate p"
    and "serve cf env h now s slot pos w = (outcome, w')"
  obtains w1 w2 w3 w4
  where "relay_ok cf w1" "relay_ok cf w2" "relay_ok cf w3" "relay_ok cf w4"
    "later w w1" "later w1 w2" "later w2 w3" "later w3 w4" "w2 = meanwhile cf (env 6) w1" "w4 = meanwhile cf (env 8) w3"
    "map_of (ow_places w1) (place_of s slot) = Some p" "map_of (ow_places w3) (place_of s slot) = Some p"
    "map_of (ow_places w4) (place_of s slot) = Some p"
    "(\<exists>err. outcome = Inl err \<and> (w' = w1 \<or> w' = w4))
     \<or> (\<exists>t. outcome = Inr () \<and> choose_epoch cf slot (sl_uri s) pos w1 w2 = Inr (NothingNew t)
          \<and> ack now s slot (Some t) None False w4 = Inr w')
     \<or> (\<exists>e started. outcome = Inr () \<and> choose_epoch cf slot (sl_uri s) pos w1 w2 = Inr (InFlight e started)
          \<and> hand_on cf now s slot h e (pl_delivered p) started w3 w4 = Inr w')"
proof -
  let ?k = "place_of s slot"
  define w1 where "w1 = meanwhile cf (env 5) w"
  define w2 where "w2 = meanwhile cf (env 6) w1"
  define w3 where "w3 = meanwhile cf (env 7) w2"
  define w4 where "w4 = meanwhile cf (env 8) w3"
  have ok: "relay_ok cf w1" "relay_ok cf w2" "relay_ok cf w3" "relay_ok cf w4"
    by (simp_all add: w1_def w2_def w3_def w4_def meanwhile_relay_ok assms(1))
  have world: "world_ok w" "world_ok w1" "world_ok w2" "world_ok w3"
    using assms(1) ok by (simp_all add: relay_ok_def)
  have steps: "later w w1" "later w1 w2" "later w2 w3" "later w3 w4"
    unfolding w1_def w2_def w3_def w4_def by (rule meanwhile_later, use world in \<open>simp add: w1_def w2_def w3_def\<close>)+
  have places: "map_of (ow_places w1) ?k = Some p" "map_of (ow_places w3) ?k = Some p" "map_of (ow_places w4) ?k = Some p"
    using assms(2) later_same(1) [OF steps(1)] later_same(1) [OF steps(2)] later_same(1) [OF steps(3)] later_same(1) [OF steps(4)]
    by simp_all
  have "pl_delivered pos = pl_delivered p" by (simp add: assms(3) place.truncate_def)
  then have "(\<exists>err. outcome = Inl err \<and> (w' = w1 \<or> w' = w4))
     \<or> (\<exists>t. outcome = Inr () \<and> choose_epoch cf slot (sl_uri s) pos w1 w2 = Inr (NothingNew t)
          \<and> ack now s slot (Some t) None False w4 = Inr w')
     \<or> (\<exists>e started. outcome = Inr () \<and> choose_epoch cf slot (sl_uri s) pos w1 w2 = Inr (InFlight e started)
          \<and> hand_on cf now s slot h e (pl_delivered p) started w3 w4 = Inr w')"
    using assms(4) unfolding serve_def Let_def w1_def [symmetric] w2_def [symmetric] w3_def [symmetric] w4_def [symmetric]
    by (auto split: sum.splits chosen.splits)
  then show thesis by (rule that [OF ok steps w2_def w4_def places])
qed

lemma nothing_new_acked:
  assumes "config_ok cf" "relay_ok cf w1" "map_of (ow_places w1) (place_of s slot) = Some p" "pos = place.truncate p"
    and "w2 = meanwhile cf ps w1" "choose_epoch cf slot (sl_uri s) pos w1 w2 = Inr (NothingNew t)"
    and "later w2 w4" "relay_ok cf w4" "map_of (ow_places w4) (place_of s slot) = Some p"
    and "ack now s slot (Some t) None False w4 = Inr w'"
  shows "relay_ok cf w'"
proof -
  let ?k = "place_of s slot"
  obtain q where q: "w' = w4\<lparr>ow_places := AList.update ?k q (ow_places w4)\<rparr>"
      "pl_delivered q = t" "pl_epoch q = None" "pr_skipped q = pr_skipped p"
    using ack_world [OF assms(10,9)] by auto
  have "place_ok cf w2 ?k (p\<lparr>pl_delivered := t, pl_epoch := None\<rparr>)"
    by (rule nothing_new_ok [OF assms(1,2) relay_ok_place [OF assms(2,3)] assms(4-6)])
  then have "place_ok cf w2 ?k q" using q by (simp add: place_ok_def)
  then have "place_ok cf w4 ?k q" by (rule place_ok_grows [OF later_grows [OF assms(7)]])
  moreover have grows: "grows w4 w'" by (simp add: q grows_def finished_def)
  ultimately have "place_ok cf w' ?k q" by (intro place_ok_grows [OF grows])
  moreover have "world_ok w'" using assms(8) by (simp add: q relay_ok_def world_ok_def)
  ultimately show ?thesis by (intro relay_ok_update [OF assms(8) grows]) (simp_all add: q)
qed

lemma serve_ok:
  assumes "config_ok cf" "relay_ok cf w" "map_of (ow_places w) (place_of s slot) = Some p" "pos = place.truncate p"
    and "serve cf env h now s slot pos w = (outcome, w')"
  shows "relay_ok cf w'" and "outcome = Inl err \<Longrightarrow> later w w'"
proof -
  have "relay_ok cf w' \<and> (\<forall>err. outcome = Inl err \<longrightarrow> later w w')"
    using assms(2-5)
  proof (cases rule: serve_cases)
    case (1 w1 w2 w3 w4)
    have ends: "later w w4" by (rule later_trans [OF later_trans [OF 1(5,6)] later_trans [OF 1(7,8)]])
    from 1(14) show ?thesis
    proof (elim disjE exE conjE)
      fix t assume t: "choose_epoch cf slot (sl_uri s) pos w1 w2 = Inr (NothingNew t)"
        "ack now s slot (Some t) None False w4 = Inr w'" "outcome = Inr ()"
      show ?thesis
        using nothing_new_acked [OF assms(1) 1(1,11) assms(4) 1(9) t(1) later_trans [OF 1(7,8)] 1(4,13) t(2)] t(3) by simp
    next
      fix e started
      assume e: "choose_epoch cf slot (sl_uri s) pos w1 w2 = Inr (InFlight e started)"
        "hand_on cf now s slot h e (pl_delivered p) started w3 w4 = Inr w'" "outcome = Inr ()"
      note chosen = chosen_epoch_ok [OF assms(1) 1(1) relay_ok_place [OF 1(1,11)] assms(4) 1(9) e(1)]
      show ?thesis
        using hand_on_ok(1) [OF assms(1) 1(3,12) epoch_ok_grows [OF later_grows [OF 1(7)] chosen(1)] chosen(2) 1(10) e(2)] e(3)
        by simp
    qed (use 1(1,4,5) ends in auto)
  qed
  then show "relay_ok cf w'" "outcome = Inl err \<Longrightarrow> later w w'" by blast+
qed

lemma grows_trans: "grows a b \<Longrightarrow> grows b c \<Longrightarrow> grows a c"
  unfolding grows_def by (intro conjI) (blast, blast, blast, simp, simp)

lemma world_ok_besides [simp]:
  "world_ok (w\<lparr>ow_places := ps\<rparr>) = world_ok w" "world_ok (w\<lparr>ow_meta := m\<rparr>) = world_ok w"
  "world_ok (w\<lparr>ow_handed := hs\<rparr>) = world_ok w"
  by (simp_all add: world_ok_def)

lemma grows_besides [simp]:
  "grows w (w'\<lparr>ow_places := ps\<rparr>) = grows w w'"
  "me_intact_from m = me_intact_from (ow_meta w') \<Longrightarrow> grows w (w'\<lparr>ow_meta := m\<rparr>) = grows w w'"
  by (simp_all add: grows_def finished_def)

lemma grows_refl [simp]: "grows w w"
  by (simp add: grows_def)

lemma meanwhile_grows: "world_ok w \<Longrightarrow> grows w (meanwhile cf ps w)"
  by (rule later_grows [OF meanwhile_later])

lemma ensure_positions_grows: "grows w (ensure_positions s now w)"
  by (simp add: ensure_positions_def)

lemma ensure_positions_world [simp]: "world_ok (ensure_positions s now w) = world_ok w"
  by (simp add: ensure_positions_def)

lemma look_grows:
  assumes "world_ok w" "look cf env held s w = (t, w')"
  shows "grows w w' \<and> world_ok w'"
proof -
  define w1 where "w1 = meanwhile cf (env 0) w"
  define w2 where "w2 = meanwhile cf (env 1) w1"
  define w2' where "w2' = meanwhile cf (env 2) w2"
  define w3 where "w3 = ensure_positions s (ow_clock w) w2'"
  define w4 where "w4 = meanwhile cf (env 3) w3"
  define w5 where "w5 = meanwhile cf (env 4) w4"
  have world: "world_ok w1" "world_ok w2" "world_ok w2'" "world_ok w3" "world_ok w4" "world_ok w5"
    using assms(1) by (simp_all add: w1_def w2_def w2'_def w3_def w4_def w5_def meanwhile_ok)
  have first: "grows w w2"
    unfolding w2_def w1_def by (intro grows_trans [OF meanwhile_grows meanwhile_grows] meanwhile_ok assms(1))
  have "grows w2 w2'" "grows w2' w3" "grows w3 w4" "grows w4 w5"
    using world by (simp_all add: w2'_def w3_def w4_def w5_def meanwhile_grows ensure_positions_grows)
  then have "grows w w5" using first grows_trans by meson
  moreover have "w' = w2 \<or> w' = w5"
    using assms(2) by (auto simp: look_def Let_def w1_def w2_def w2'_def w3_def w4_def w5_def split: if_splits)
  ultimately show ?thesis using first world by blast
qed

lemma rolled_back_ok:
  assumes "relay_ok cf w" "grows w w'" "world_ok w'"
  shows "relay_ok cf (w'\<lparr>ow_places := ow_places w\<rparr>)"
  using assms by (intro relay_ok_grows [OF assms(1)]) simp_all

text \<open>A dispatch keeps the invariant, whether it commits or rolls back.\<close>

lemma dispatch_ok:
  assumes "config_ok cf" "relay_ok cf w"
  shows "relay_ok cf (snd (dispatch cf env held h s w))"
proof -
  obtain t w1 where look: "look cf env held s w = (t, w1)" by fastforce
  have world: "world_ok w" using assms(2) by (simp add: relay_ok_def)
  have ok1: "relay_ok cf w1" by (rule look_ok [OF assms(2) look])
  have grows1: "grows w w1" "world_ok w1" using look_grows [OF world look] by blast+
  show ?thesis
  proof (cases "tk_refused t \<noteq> None \<or> tk_reset t")
    case True
    then show ?thesis
      using rolled_back_ok [OF assms(2) grows1] rolled_back_ok [OF assms(2), of "refuse reset_reason w1"] grows1
      by (auto simp: dispatch_def look Let_def refuse_def split: option.splits)
  next
    case False
    show ?thesis
    proof (cases "tk_slot t")
      case None
      then show ?thesis using False ok1 by (simp add: dispatch_def look Let_def)
    next
      case (Some slot)
      obtain p where p: "map_of (ow_places w1) (place_of s slot) = Some p" "tk_position t = place.truncate p"
        using look_taken [OF assms(2) look Some] by blast
      obtain outcome w2 where serve: "serve cf env h (ow_clock w) s slot (tk_position t) w1 = (outcome, w2)" by fastforce
      note served = serve_ok [OF assms(1) ok1 p serve]
      show ?thesis
      proof (cases outcome)
        case (Inl err)
        have "grows w w2" "world_ok w2"
          using served(1) served(2) [OF Inl] grows_trans [OF grows1(1) later_grows] by (auto simp: relay_ok_def)
        then show ?thesis
          using rolled_back_ok [OF assms(2)] False Some serve Inl by (simp add: dispatch_def look Let_def)
      next
        case (Inr u)
        then show ?thesis using served(1) False Some serve by (simp add: dispatch_def look Let_def)
      qed
    qed
  qed
qed

end
