(* ===== verification/Outbox_System.thy ===== *)
theory Outbox_System
  imports Outbox_Relay
begin

section \<open>The ring's reclamation\<close>

text \<open>
  \<open>crates/outbox/src/pg/reclaim.rs\<close>, with the outcomes of \<open>observer.rs\<close>. Whether the reclamation's key and
  the partition's lock are granted in time are arguments; a partition's lock is never granted while a
  transaction that wrote into it is open. Times are readings of the server's clock.
\<close>

subsection \<open>The outcomes\<close>

datatype skipped =
    Busy
  | EmptyRing
  | NotPast nat nat nat
  | NotClosed nat nat
  | NotPassed nat string string nat "nat option"
  | NotOldEnough nat nat
  | Held nat
  | PassedNoMore nat

record emptied =
  em_generation :: nat
  em_windows :: "nat \<times> nat"
  em_rows :: int
  em_gone_below :: nat
  em_intact_from :: nat

datatype reclamation = Emptied emptied | Skipped skipped

record candidate =
  ca_generation :: nat
  ca_oldest :: nat
  ca_newest :: nat

subsection \<open>The ids the statements read\<close>

definition ids_of :: "outbox_config \<Rightarrow> nat \<Rightarrow> outbox_world \<Rightarrow> nat list" where
  "ids_of cf g w = map st_xid (filter (\<lambda>r. row_generation cf r = g) (visible_rows w))"

definition least_per_generation :: "outbox_config \<Rightarrow> outbox_world \<Rightarrow> nat option list" where
  "least_per_generation cf w =
    map (\<lambda>g. case ids_of cf g w of [] \<Rightarrow> None | x # xs \<Rightarrow> Some (Min (set (x # xs)))) [0..<ri_generations (oc_ring cf)]"

definition newest_of :: "outbox_config \<Rightarrow> nat \<Rightarrow> outbox_world \<Rightarrow> nat option" where
  "newest_of cf g w = (case ids_of cf g w of [] \<Rightarrow> None | x # xs \<Rightarrow> Some (Max (set (x # xs))))"

text \<open>The first of the least: an id counts only when it is below all before it.\<close>

fun oldest_from :: "nat \<Rightarrow> nat option list \<Rightarrow> (nat \<times> nat) option \<Rightarrow> (nat \<times> nat) option" where
  "oldest_from g [] best = best"
| "oldest_from g (None # ls) best = oldest_from (Suc g) ls best"
| "oldest_from g (Some x # ls) best =
    oldest_from (Suc g) ls (case best of
      None \<Rightarrow> Some (g, x) | Some (b, least) \<Rightarrow> if x < least then Some (g, x) else Some (b, least))"

definition find_candidate :: "outbox_config \<Rightarrow> outbox_world \<Rightarrow> outbox_world \<Rightarrow> candidate option" where
  "find_candidate cf w w' =
    (case oldest_from 0 (least_per_generation cf w) None of
       None \<Rightarrow> None
     | Some (g, oldest) \<Rightarrow>
         Some \<lparr>ca_generation = g, ca_oldest = oldest,
           ca_newest = (case newest_of cf g w' of Some x \<Rightarrow> x | None \<Rightarrow> oldest)\<rparr>)"

definition pinned :: "outbox_config \<Rightarrow> candidate \<Rightarrow> outbox_world \<Rightarrow> skipped option" where
  "pinned cf c w =
    (case filter (\<lambda>(k, p). sn_xmax (pl_delivered p) \<le> ca_newest c
        \<or> list_ex (\<lambda>x. x \<le> ca_newest c \<and> x \<in> set (ids_of cf (ca_generation c) w)) (sn_xip (pl_delivered p))) (ow_places w) of
       [] \<Rightarrow> None
     | ((g, uri, slot), p) # _ \<Rightarrow>
         Some (NotPassed (ca_generation c) g uri slot (map_option (\<lambda>t. ow_clock w - t) (pr_delivered_at p))))"

text \<open>
  A transaction id of 32 bits widened against the next: the arguments of the remainder are never
  negative.
\<close>

definition widened :: "int \<Rightarrow> int \<Rightarrow> int" where
  "widened nxt xid = (nxt + ((xid - nxt mod 4294967296 + 6442450944) mod 4294967296)) - 2147483648"

subsection \<open>The emptying\<close>

definition closed_generation :: "outbox_config \<Rightarrow> nat \<Rightarrow> outbox_world \<Rightarrow> bool" where
  "closed_generation cf g w \<longleftrightarrow>
    \<not> list_ex (\<lambda>r. row_generation cf r = g \<and> st_xid r \<in> set (ow_open w)) (ow_rows w)"

definition truncate_generation :: "outbox_config \<Rightarrow> nat \<Rightarrow> outbox_world \<Rightarrow> outbox_world" where
  "truncate_generation cf g w = w\<lparr>ow_rows := filter (\<lambda>r. row_generation cf r \<noteq> g) (ow_rows w),
    ow_gone := ow_gone w @ filter (\<lambda>r. row_generation cf r = g) (ow_rows w)\<rparr>"

text \<open>Under the partition's lock; the number of rows is the planner's estimate, an argument.\<close>

definition empty_generation :: "outbox_config \<Rightarrow> int \<Rightarrow> candidate \<Rightarrow> outbox_world \<Rightarrow> reclamation \<times> outbox_world" where
  "empty_generation cf estimate c w =
    (let g = ca_generation c;
         newest = (case newest_of cf g w of Some x \<Rightarrow> x | None \<Rightarrow> ca_newest c) in
     if pinned cf (c\<lparr>ca_newest := newest\<rparr>) w \<noteq> None then (Skipped (PassedNoMore g), w)
     else
       let w1 = truncate_generation cf g w;
           gone_below = Min (set (sn_xmax (current_snapshot w1) #
             map the (filter (\<lambda>l. l \<noteq> None) (least_per_generation cf w1)) @ ow_open w1));
           intact_from = (case me_intact_from (ow_meta w1) of None \<Rightarrow> Suc newest | Some x \<Rightarrow> max x (Suc newest)) in
       (Emptied \<lparr>em_generation = g,
          em_windows = (ca_oldest c div ri_window (oc_ring cf), newest div ri_window (oc_ring cf)),
          em_rows = max estimate 0, em_gone_below = gone_below, em_intact_from = intact_from\<rparr>,
        w1\<lparr>ow_meta := (ow_meta w1)\<lparr>me_gone_below := Some gone_below, me_intact_from := Some intact_from,
          me_passed := AList.delete g (me_passed (ow_meta w1))\<rparr>\<rparr>))"

subsection \<open>A pass\<close>

text \<open>When the generation was first found passed: recorded once, kept until it is emptied.\<close>

definition note_passed :: "nat \<Rightarrow> nat \<Rightarrow> outbox_world \<Rightarrow> nat \<times> outbox_world" where
  "note_passed now g w =
    (case map_of (me_passed (ow_meta w)) g of
       Some t \<Rightarrow> (now - t, w)
     | None \<Rightarrow> (0, w\<lparr>ow_meta := (ow_meta w)\<lparr>me_passed := AList.update g now (me_passed (ow_meta w))\<rparr>\<rparr>))"

definition try_emptying :: "outbox_config \<Rightarrow> (nat \<Rightarrow> producer list) \<Rightarrow> bool \<Rightarrow> int \<Rightarrow> nat \<Rightarrow> candidate \<Rightarrow> outbox_world
    \<Rightarrow> reclamation \<times> outbox_world" where
  "try_emptying cf env granted estimate now c w =
    (let g = ca_generation c;
         w1 = meanwhile cf (env 6) w;
         (passed_for, w2) = note_passed now g w1 in
     if passed_for < oc_margin_age cf then (Skipped (NotOldEnough g passed_for), w2)
     else
       let w3 = meanwhile cf (env 7) w2 in
       if granted \<and> closed_generation cf g w3 then empty_generation cf estimate c w3
       else (Skipped (Held g), w3))"

definition reclaim_pass :: "outbox_config \<Rightarrow> (nat \<Rightarrow> producer list) \<Rightarrow> bool \<Rightarrow> bool \<Rightarrow> int \<Rightarrow> outbox_world
    \<Rightarrow> (outbox_error, reclamation) result \<times> outbox_world" where
  "reclaim_pass cf env key granted estimate w =
    (let window = ri_window (oc_ring cf);
         w0 = meanwhile cf (env 0) w;
         w1 = meanwhile cf (env 1) w0;
         w2 = meanwhile cf (env 2) w1;
         w3 = meanwhile cf (env 3) w2;
         w4 = meanwhile cf (env 4) w3;
         w5 = meanwhile cf (env 5) w4 in
     if \<not> key then (Inr (Skipped Busy), w)
     else case me_refused (ow_meta w0) of
       Some reason \<Rightarrow> (Inl (OCounterReset reason), w0)
     | None \<Rightarrow>
         if counter_reset w0 then (Inl (OCounterReset reset_reason), refuse reset_reason w0)
         else case find_candidate cf w1 w2 of
             None \<Rightarrow> (Inr (Skipped EmptyRing), w2)
           | Some c \<Rightarrow>
               (let newest_window = ca_newest c div window;
                    next_window = sn_xmax (current_snapshot w3) div window in
                if next_window - newest_window < oc_margin cf
                then (Inr (Skipped (NotPast (ca_generation c) newest_window next_window)), w3)
                else case List.find (\<lambda>x. generation_of (oc_ring cf) x = ca_generation c) (ow_open w4) of
                    Some x \<Rightarrow> (Inr (Skipped (NotClosed (ca_generation c) x)), w4)
                  | None \<Rightarrow>
                      (case pinned cf c w5 of
                         Some reason \<Rightarrow> (Inr (Skipped reason), w5)
                       | None \<Rightarrow>
                           let (outcome, w') = try_emptying cf env granted estimate (ow_clock w) c w5 in
                           (Inr outcome, w'))))"

subsection \<open>Positions given up\<close>

definition forget_positions :: "outbox_config \<Rightarrow> string \<Rightarrow> string option \<Rightarrow> outbox_world
    \<Rightarrow> (outbox_error, unit) result \<times> outbox_world" where
  "forget_positions cf grp uri w =
    (let chosen = (\<lambda>(k, p). fst k = grp \<and> (uri = None \<or> uri = Some (fst (snd k))));
         times = map (\<lambda>(k, p). pr_updated_at p) (filter chosen (ow_places w));
         moved = (if times = [] then None else Some (ow_clock w - Max (set times))) in
     case moved of
       Some m \<Rightarrow>
         if m < oc_margin_age cf then (Inl (OGroupActive grp m), w)
         else (Inr (), w\<lparr>ow_places := filter (\<lambda>kp. \<not> chosen kp) (ow_places w)\<rparr>)
     | None \<Rightarrow> (Inr (), w\<lparr>ow_places := filter (\<lambda>kp. \<not> chosen kp) (ow_places w)\<rparr>))"

definition forget_group :: "outbox_config \<Rightarrow> string \<Rightarrow> outbox_world \<Rightarrow> (outbox_error, unit) result \<times> outbox_world" where
  "forget_group cf grp w = forget_positions cf grp None w"

definition forget_selection :: "outbox_config \<Rightarrow> selection \<Rightarrow> outbox_world \<Rightarrow> (outbox_error, unit) result \<times> outbox_world" where
  "forget_selection cf s w = forget_positions cf (sl_group s) (Some (sl_uri s)) w"

subsection \<open>A counter reset undone\<close>

text \<open>
  The rows no position handed on are kept, of those that share an identity and a channel the first, and
  written again under one new id in their positions' order. The outbox is locked meanwhile, so that no
  open transaction has rows in it, and all of them are read, whatever the ids they were restored with.
\<close>

record rebased =
  rb_kept :: nat
  rb_emptied :: nat
  rb_bound :: nat

definition rebase_key :: "stored_row \<Rightarrow> (string \<times> string list) + int" where
  "rebase_key r = (case guard_key (st_uri r) (st_metadata r) of Some k \<Rightarrow> Inl k | None \<Rightarrow> Inr (st_position r))"

fun first_per_key :: "('a \<Rightarrow> 'k) \<Rightarrow> 'k list \<Rightarrow> 'a list \<Rightarrow> 'a list" where
  "first_per_key key seen [] = []"
| "first_per_key key seen (x # xs) =
    (if key x \<in> set seen then first_per_key key seen xs else x # first_per_key key (key x # seen) xs)"

definition kept_rows :: "nat \<Rightarrow> outbox_world \<Rightarrow> stored_row list" where
  "kept_rows restored w =
    first_per_key rebase_key [] (sort_key st_position
      (filter (\<lambda>r. st_xid r < restored \<or> list_ex (\<lambda>(k, p). \<not> sees (pl_delivered p) (st_xid r)) (ow_places w))
        (ow_rows w)))"

fun renumbered :: "int \<Rightarrow> nat \<Rightarrow> stored_row list \<Rightarrow> stored_row list" where
  "renumbered p x [] = []"
| "renumbered p x (r # rs) = r\<lparr>st_position := p, st_xid := x\<rparr> # renumbered (p + 1) x rs"

definition reached_reason :: string where
  "reached_reason = ''the server'' @ [CHR 0x27] @ ''s transaction ids have reached the restored ring'' @ [CHR 0x27] @
    ''s: rows written since the restore cannot be told from restored ones''"

definition rebase :: "outbox_world \<Rightarrow> (outbox_error, rebased option) result \<times> outbox_world" where
  "rebase w =
    (let s = current_snapshot w; meta = ow_meta w in
     if me_refused meta = None \<and> \<not> counter_reset w then (Inr None, w)
     else case me_gone_below meta of
       None \<Rightarrow> (Inl (OCounterReset reached_reason), w)
     | Some restored \<Rightarrow>
         if \<not> sn_xmax s < restored
         then (Inl (OCounterReset reached_reason), w)
         else
           let kept = kept_rows restored w;
               own = ow_next w;
               bound = Min (set (own # ow_open w));
               moved = (\<lambda>p. p\<lparr>pl_delivered := s, pl_epoch := None, pr_delivered_at := Some (ow_clock w),
                 pr_updated_at := ow_clock w, pr_old_xid := int (sn_xmin s) - 1, pr_old_offset := 2 ^ 63 - 1\<rparr>) in
           (Inr (Some \<lparr>rb_kept = length kept, rb_emptied = length (ow_rows w) - length kept, rb_bound = bound\<rparr>),
            end_xid own (begin_xid w)
              \<lparr>ow_rows := renumbered (ow_seq w) own kept, ow_seq := ow_seq w + int (length kept),
               ow_places := map (\<lambda>(k, p). (k, moved p)) (ow_places w),
               ow_meta := meta\<lparr>me_gone_below := Some bound, me_intact_from := Some bound, me_passed := [],
                 me_refused := None\<rparr>\<rparr>))"


section \<open>The outbox as a whole\<close>

text \<open>
  Everything that happens to an outbox, as steps: what the producers do, dispatches, moves, passes of the
  reclamation, positions given up. Each keeps the invariant of \<open>Outbox_Relay\<close>.
\<close>

subsection \<open>Moves\<close>

lemma relay_ok_places:
  assumes "relay_ok cf w" "w' = w\<lparr>ow_places := ps, ow_meta := m\<rparr>" "me_intact_from m = me_intact_from (ow_meta w)"
    and "distinct (map fst ps)" "\<And>k p. (k, p) \<in> set ps \<Longrightarrow> place_ok cf w k p"
  shows "relay_ok cf w'"
proof -
  have grows: "grows w w'" using assms(2,3) by simp
  then have "gone_ok w'" using gone_ok_grows assms(1) by (auto simp: relay_ok_def)
  moreover have "place_ok cf w' k p" if "(k, p) \<in> set ps" for k p
    by (rule place_ok_grows [OF grows assms(5) [OF that]])
  moreover have "world_ok w'" using assms(1,2) by (simp add: relay_ok_def)
  ultimately show ?thesis using assms(2,4) by (auto simp: relay_ok_def)
qed

lemma moved_to_ok:
  assumes "relay_ok cf w" "place_ok cf w k p"
  shows "place_ok cf w k (moved_to to now w p)"
proof -
  have w: "world_ok w" and gone: "gone_ok w" using assms(1) by (simp_all add: relay_ok_def)
  have d: "sees_only_finished w (pl_delivered p)" using assms(2) by (simp add: place_ok_def)
  show ?thesis
  proof (cases to)
    case ToStart
    have "\<forall>r\<in>set (ow_rows w). st_xid r \<noteq> 0" using w by (auto simp: world_ok_def)
    then show ?thesis using ToStart assms(2) w by (auto simp: place_ok_def moved_to_def Let_def)
  next
    case (ToXid x)
    have "sees (below (max x 1) (pl_delivered p)) y \<Longrightarrow> sees (pl_delivered p) y" for y
      using d by (simp add: sees_below sees_only_finished_def)
    then show ?thesis using ToXid assms(2) d by (simp add: place_ok_def moved_to_def Let_def below_sees_only_finished)
  next
    case ToNow
    have "sees (current_snapshot w) (st_xid r)" if "r \<in> set (ow_gone w)" for r
      using that gone w by (simp add: gone_ok_def sees_current)
    then show ?thesis
      using ToNow w by (simp add: place_ok_def moved_to_def Let_def current_sees_only_finished)
  qed
qed

lemma move_all_ok:
  assumes "relay_ok cf w"
  shows "relay_ok cf (move_all s to now w)"
proof (rule relay_ok_places [OF assms])
  show "move_all s to now w = w\<lparr>ow_places := ow_places (move_all s to now w), ow_meta := ow_meta w\<rparr>"
    by (simp add: move_all_def)
  show "distinct (map fst (ow_places (move_all s to now w)))"
    using assms by (simp add: relay_ok_def move_all_def o_def case_prod_beta)
  show "place_ok cf w k p" if "(k, p) \<in> set (ow_places (move_all s to now w))" for k p
    using that assms moved_to_ok [OF assms] by (auto simp: relay_ok_def move_all_def)
qed simp

lemma clear_passed_ok: "relay_ok cf w \<Longrightarrow> relay_ok cf (clear_passed w)"
  by (rule relay_ok_grows [of cf w]) (simp_all add: clear_passed_def relay_ok_def)

lemma clear_counter_reset_ok: "relay_ok cf w \<Longrightarrow> relay_ok cf (clear_counter_reset w)"
  by (rule relay_ok_grows [of cf w]) (simp_all add: clear_counter_reset_def relay_ok_def)

lemma set_position_ok: "relay_ok cf w \<Longrightarrow> relay_ok cf (snd (set_position cf age s to w))"
  by (simp add: set_position_def Let_def clear_passed_ok move_all_ok ensure_positions_ok split: sum.split option.split)

subsection \<open>The reclamation\<close>

lemma ids_of_iff:
  "world_ok w \<Longrightarrow> x \<in> set (ids_of cf g w) \<longleftrightarrow> (\<exists>r\<in>set (ow_rows w). row_generation cf r = g \<and> st_xid r = x \<and> finished w x)"
  by (auto simp: ids_of_def visible_iff)

lemma newest_of_bound: "x \<in> set (ids_of cf g w) \<Longrightarrow> \<exists>m. newest_of cf g w = Some m \<and> x \<le> m"
  by (cases "ids_of cf g w") (auto simp: newest_of_def)

text \<open>
  A generation that is closed, and that the check under the lock finds passed: every position has
  delivered every row of it.
\<close>

lemma passed_rows_delivered:
  assumes "relay_ok cf w" "closed_generation cf g w"
    and "newest = (case newest_of cf g w of Some x \<Rightarrow> x | None \<Rightarrow> n)"
    and "pinned cf (c\<lparr>ca_generation := g, ca_newest := newest\<rparr>) w = None"
    and "r \<in> set (ow_rows w)" "row_generation cf r = g" "(k, p) \<in> set (ow_places w)"
  shows "sees (pl_delivered p) (st_xid r)" "st_xid r \<le> newest" "finished w (st_xid r)"
proof -
  have w: "world_ok w" using assms(1) by (simp add: relay_ok_def)
  have "st_xid r \<notin> set (ow_open w)" "st_xid r < ow_next w"
    using assms(2,5,6) w by (auto simp: closed_generation_def list_ex_iff world_ok_def)
  then show fin: "finished w (st_xid r)" by (simp add: finished_def)
  then have ids: "st_xid r \<in> set (ids_of cf g w)" using assms(5,6) by (auto simp: ids_of_iff [OF w])
  then show le: "st_xid r \<le> newest" using newest_of_bound [OF ids] assms(3) by auto
  have "\<not> (sn_xmax (pl_delivered p) \<le> newest
      \<or> list_ex (\<lambda>x. x \<le> newest \<and> x \<in> set (ids_of cf g w)) (sn_xip (pl_delivered p)))"
    using assms(4,7) unfolding pinned_def by (auto simp: filter_empty_conv split: list.splits)
  then show "sees (pl_delivered p) (st_xid r)"
    using ids le by (auto simp: sees_def list_ex_iff)
qed

lemma emptied_generation:
  assumes "empty_generation cf est c w = (Emptied em, w')"
    and "newest = (case newest_of cf (ca_generation c) w of Some x \<Rightarrow> x | None \<Rightarrow> ca_newest c)"
  shows "pinned cf (c\<lparr>ca_newest := newest\<rparr>) w = None"
    and "\<exists>m i. w' = (truncate_generation cf (ca_generation c) w)\<lparr>ow_meta := m\<rparr> \<and> me_intact_from m = Some i \<and> Suc newest \<le> i
      \<and> (\<forall>j. me_intact_from (ow_meta w) = Some j \<longrightarrow> j \<le> i)"
  using assms by (auto simp: empty_generation_def Let_def truncate_generation_def split: if_splits option.splits)

lemma emptied_ok:
  assumes "relay_ok cf w" "closed_generation cf (ca_generation c) w" "empty_generation cf est c w = (Emptied em, w')"
  shows "relay_ok cf w'"
proof -
  let ?g = "ca_generation c"
  define newest where "newest = (case newest_of cf ?g w of Some x \<Rightarrow> x | None \<Rightarrow> ca_newest c)"
  note e = emptied_generation [OF assms(3) newest_def]
  obtain m i where w': "w' = (truncate_generation cf ?g w)\<lparr>ow_meta := m\<rparr>"
    and i: "me_intact_from m = Some i" "Suc newest \<le> i" "\<And>j. me_intact_from (ow_meta w) = Some j \<Longrightarrow> j \<le> i"
    using e(2) by blast
  have w: "world_ok w" and gone: "gone_ok w" using assms(1) by (simp_all add: relay_ok_def)
  have passed: "sees (pl_delivered p) (st_xid r)"
    if "r \<in> set (ow_rows w)" "row_generation cf r = ?g" "(k, p) \<in> set (ow_places w)" for r k p
    using passed_rows_delivered(1) [OF assms(1,2) newest_def, where c = c] e(1) that by simp
  have fin: "finished w (st_xid r) \<and> st_xid r < i" if "r \<in> set (ow_rows w)" "row_generation cf r = ?g" for r
  proof -
    have "st_xid r \<notin> set (ow_open w)" "st_xid r < ow_next w"
      using assms(2) that w by (auto simp: closed_generation_def list_ex_iff world_ok_def)
    then have f: "finished w (st_xid r)" by (simp add: finished_def)
    then have "st_xid r \<in> set (ids_of cf ?g w)" using that by (auto simp: ids_of_iff [OF w])
    then show ?thesis using newest_of_bound [of "st_xid r" cf ?g w] i(2) f by (auto simp: newest_def)
  qed
  have rows: "set (ow_rows w') = {r \<in> set (ow_rows w). row_generation cf r \<noteq> ?g}"
    and gone': "set (ow_gone w') = set (ow_gone w) \<union> {r \<in> set (ow_rows w). row_generation cf r = ?g}"
    and same: "ow_places w' = ow_places w" "ow_handed w' = ow_handed w" "ow_meta w' = m"
    by (auto simp: w' truncate_generation_def)
  have finished': "finished w' x = finished w x" and handed': "handed_to w' q r = handed_to w q r" for x q r
    by (simp_all add: w' truncate_generation_def finished_def handed_to_def)
  have sof: "sees_only_finished w' t = sees_only_finished w t" for t by (simp add: sees_only_finished_def finished')
  have "world_ok w'" using unpublish_ok [OF w, of "\<lambda>r. row_generation cf r \<noteq> ?g"]
    by (simp add: w' truncate_generation_def world_ok_def)
  moreover have "gone_ok w'"
    using gone fin i(1,3) by (auto simp: gone_ok_def gone' finished' same(3) dest: less_le_trans)
  moreover have "place_ok cf w' k p" if kp: "(k, p) \<in> set (ow_places w)" for k p
  proof -
    have p: "place_ok cf w k p" using assms(1) kp by (auto simp: relay_ok_def)
    have "epoch_ok cf k (pl_delivered p) e w'" if "epoch_ok cf k (pl_delivered p) e w" for e
      using that unfolding epoch_ok_def spans_cover_def by (simp add: sof rows handed')
    moreover have "handed_to w (fst k) r \<or> sees (pr_skipped p) (st_xid r)"
      if "r \<in> set (ow_gone w')" "due cf k r" for r
      using that p passed [OF _ _ kp] unfolding gone' place_ok_def by blast
    ultimately show ?thesis using p unfolding place_ok_def by (simp add: sof rows handed')
  qed
  ultimately show ?thesis using assms(1) same(1) by (auto simp: relay_ok_def)
qed

lemma empty_generation_ok:
  assumes "relay_ok cf w" "closed_generation cf (ca_generation c) w"
  shows "relay_ok cf (snd (empty_generation cf est c w))"
proof (cases "empty_generation cf est c w")
  case (Pair out w')
  show ?thesis
  proof (cases out)
    case (Emptied em)
    then show ?thesis using emptied_ok [OF assms] Pair by simp
  next
    case (Skipped s)
    then have "w' = w" using Pair by (auto simp: empty_generation_def Let_def split: if_splits)
    then show ?thesis using assms(1) Pair by simp
  qed
qed

lemma note_passed_ok: "relay_ok cf w \<Longrightarrow> relay_ok cf (snd (note_passed now g w))"
proof (cases "map_of (me_passed (ow_meta w)) g")
  case None
  assume ok: "relay_ok cf w"
  then have "world_ok w" by (simp add: relay_ok_def)
  then have "relay_ok cf (w\<lparr>ow_meta := (ow_meta w)\<lparr>me_passed := AList.update g now (me_passed (ow_meta w))\<rparr>\<rparr>)"
    by (intro relay_ok_grows [OF ok]) simp_all
  then show ?thesis using None by (simp add: note_passed_def)
qed (simp add: note_passed_def)

lemma try_emptying_ok:
  assumes "relay_ok cf w"
  shows "relay_ok cf (snd (try_emptying cf env granted est now c w))"
proof -
  obtain a w2 where n: "note_passed now (ca_generation c) (meanwhile cf (env 6) w) = (a, w2)" by fastforce
  then have w2: "relay_ok cf w2"
    using note_passed_ok [OF meanwhile_relay_ok [OF assms], of now "ca_generation c" "env 6"] by simp
  then have "relay_ok cf (meanwhile cf (env 7) w2)" by (rule meanwhile_relay_ok)
  then show ?thesis
    using w2 empty_generation_ok by (simp add: try_emptying_def Let_def n)
qed

lemma refuse_ok: "relay_ok cf w \<Longrightarrow> relay_ok cf (refuse reason w)"
  by (rule relay_ok_grows [of cf w]) (simp_all add: refuse_def relay_ok_def)

lemma reclaim_pass_ok:
  assumes "relay_ok cf w"
  shows "relay_ok cf (snd (reclaim_pass cf env key granted est w))"
  using assms
  by (simp add: reclaim_pass_def Let_def split_beta meanwhile_relay_ok refuse_ok try_emptying_ok split: option.split)

lemma forget_positions_ok:
  assumes "relay_ok cf w"
  shows "relay_ok cf (snd (forget_positions cf g uri w))"
proof -
  have "relay_ok cf (w\<lparr>ow_places := filter P (ow_places w)\<rparr>)" for P
    by (rule relay_ok_places [OF assms, where ps = "filter P (ow_places w)" and m = "ow_meta w"])
      (use assms in \<open>auto simp: relay_ok_def distinct_filtered\<close>)
  then show ?thesis using assms by (simp add: forget_positions_def Let_def)
qed

subsection \<open>Steps\<close>

datatype outbox_event =
    StepProduce producer
  | StepDispatch "nat \<Rightarrow> producer list" "place_key set" "outbox_message \<Rightarrow> string option" selection
  | StepMove "outbox_world \<Rightarrow> nat \<Rightarrow> nat option" selection move
  | StepReclaim "nat \<Rightarrow> producer list" bool bool int
  | StepForget string "string option"
  | StepClear

fun outbox_step :: "outbox_config \<Rightarrow> outbox_event \<Rightarrow> outbox_world \<Rightarrow> outbox_world" where
  "outbox_step cf (StepProduce p) w = produce cf p w"
| "outbox_step cf (StepDispatch env held h s) w = snd (dispatch cf env held h s w)"
| "outbox_step cf (StepMove age s to) w = snd (set_position cf age s to w)"
| "outbox_step cf (StepReclaim env key granted est) w = snd (reclaim_pass cf env key granted est w)"
| "outbox_step cf (StepForget g uri) w = snd (forget_positions cf g uri w)"
| "outbox_step cf StepClear w = clear_counter_reset w"

definition outbox_steps :: "outbox_config \<Rightarrow> outbox_event list \<Rightarrow> outbox_world \<Rightarrow> outbox_world" where
  "outbox_steps cf steps w = fold (outbox_step cf) steps w"

definition outbox_new :: "nat \<Rightarrow> nat \<Rightarrow> outbox_world" where
  "outbox_new slots xid = \<lparr>ow_rows = [], ow_open = [], ow_next = xid, ow_ended = xid, ow_seq = 1,
    ow_sequence = Some (''outbox_position_seq'', Some 1), ow_places = [],
    ow_meta = \<lparr>me_slots = slots, me_refused = None, me_gone_below = None, me_intact_from = None, me_passed = []\<rparr>,
    ow_clock = 0, ow_handed = [], ow_gone = []\<rparr>"

lemma outbox_new_ok: "1 \<le> xid \<Longrightarrow> relay_ok cf (outbox_new slots xid)"
  by (simp add: relay_ok_def world_ok_def gone_ok_def outbox_new_def)

lemma outbox_step_ok: "config_ok cf \<Longrightarrow> relay_ok cf w \<Longrightarrow> relay_ok cf (outbox_step cf st w)"
proof (cases st)
  case (StepProduce p)
  assume "relay_ok cf w"
  then show ?thesis
    using StepProduce meanwhile_relay_ok [of cf w "[p]"] by (simp add: meanwhile_def)
qed (simp_all add: dispatch_ok set_position_ok reclaim_pass_ok forget_positions_ok clear_counter_reset_ok)

lemma outbox_steps_ok: "config_ok cf \<Longrightarrow> relay_ok cf w \<Longrightarrow> relay_ok cf (outbox_steps cf steps w)"
  unfolding outbox_steps_def by (induction steps arbitrary: w) (simp_all add: outbox_step_ok)

end
