(* ===== verification/Outbox_History.thy ===== *)
theory Outbox_History
  imports Outbox_System
begin

section \<open>What happened, and in what order\<close>

text \<open>
  A finished transaction's rows stay in the outbox until they are reclaimed; what is handed on is only
  ever added to; and what a dispatch hands on is the next rows of an epoch, whose snapshot was taken at
  that dispatch or stored by one before.
\<close>

definition stays :: "outbox_world \<Rightarrow> outbox_world \<Rightarrow> bool" where
  "stays w w' \<longleftrightarrow> (\<forall>x. finished w x \<longrightarrow> finished w' x)
    \<and> (\<forall>r. finished w (st_xid r) \<longrightarrow> r \<in> set (ow_rows w) \<union> set (ow_gone w) \<longrightarrow> r \<in> set (ow_rows w') \<union> set (ow_gone w'))
    \<and> (\<forall>r\<in>set (ow_rows w'). r \<in> set (ow_rows w) \<or> ow_seq w \<le> st_position r)
    \<and> ow_seq w \<le> ow_seq w'"

lemma stays_refl [simp]: "stays w w"
  by (simp add: stays_def)

lemma stays_trans: "stays a b \<Longrightarrow> stays b c \<Longrightarrow> stays a c"
proof -
  assume ab: "stays a b" and bc: "stays b c"
  have "\<forall>x. finished a x \<longrightarrow> finished c x" using ab bc unfolding stays_def by blast
  moreover have "\<forall>r. finished a (st_xid r) \<longrightarrow> r \<in> set (ow_rows a) \<union> set (ow_gone a) \<longrightarrow> r \<in> set (ow_rows c) \<union> set (ow_gone c)"
    using ab bc unfolding stays_def by blast
  moreover have "\<forall>r\<in>set (ow_rows c). r \<in> set (ow_rows a) \<or> ow_seq a \<le> st_position r"
    using ab bc unfolding stays_def by (meson order_trans)
  moreover have "ow_seq a \<le> ow_seq c" using ab bc unfolding stays_def by (blast intro: order_trans)
  ultimately show ?thesis unfolding stays_def by blast
qed

lemma later_stays: "later w w' \<Longrightarrow> stays w w'"
  unfolding later_def stays_def by simp

lemma meanwhile_stays: "world_ok w \<Longrightarrow> stays w (meanwhile cf ps w)"
  by (rule later_stays [OF meanwhile_later])

lemma stays_besides [simp]:
  "stays w (w'\<lparr>ow_places := ps\<rparr>) = stays w w'" "stays w (w'\<lparr>ow_meta := m\<rparr>) = stays w w'"
  "stays w (w'\<lparr>ow_handed := hs\<rparr>) = stays w w'"
  by (simp_all add: stays_def finished_def)

lemma truncate_stays: "stays w (truncate_generation cf g w)"
  by (auto simp: stays_def truncate_generation_def finished_def)

subsection \<open>The steps that hand on nothing\<close>

text \<open>Epochs are stored by dispatches alone; a step of another kind keeps those in flight, or clears them.\<close>

definition epochs_from :: "outbox_world \<Rightarrow> outbox_world \<Rightarrow> bool" where
  "epochs_from w w' \<longleftrightarrow> (\<forall>(k, p)\<in>set (ow_places w'). \<forall>e. pl_epoch p = Some e \<longrightarrow>
    (\<exists>(k', p')\<in>set (ow_places w). \<exists>e'. pl_epoch p' = Some e' \<and> ep_snapshot e' = ep_snapshot e)
    \<or> (\<exists>w0. stays w w0 \<and> world_ok w0 \<and> ep_snapshot e = current_snapshot w0))"

definition quiet :: "outbox_world \<Rightarrow> outbox_world \<Rightarrow> bool" where
  "quiet w w' \<longleftrightarrow> stays w w' \<and> epochs_from w w' \<and> ow_handed w' = ow_handed w"

lemma epochs_from_same: "ow_places w' = ow_places w \<Longrightarrow> epochs_from w w'"
  unfolding epochs_from_def by fastforce

lemma quiet_later: "later w w' \<Longrightarrow> quiet w w'"
  using later_stays epochs_from_same later_same unfolding quiet_def by blast

lemma quiet_refl [simp]: "quiet w w"
  by (simp add: quiet_def epochs_from_same)

lemma epochs_from_trans:
  assumes "stays a b" "epochs_from a b" "epochs_from b c"
  shows "epochs_from a c"
  unfolding epochs_from_def
proof (clarify)
  fix g u sl p e
  assume p: "((g, u, sl), p) \<in> set (ow_places c)" "pl_epoch p = Some e"
    and no: "\<nexists>w0. stays a w0 \<and> world_ok w0 \<and> ep_snapshot e = current_snapshot w0"
  have "\<nexists>w0. stays b w0 \<and> world_ok w0 \<and> ep_snapshot e = current_snapshot w0"
    using no stays_trans [OF assms(1)] by blast
  then obtain k' p' e' where "(k', p') \<in> set (ow_places b)" "pl_epoch p' = Some e'" "ep_snapshot e' = ep_snapshot e"
    using assms(3) p unfolding epochs_from_def by fastforce
  then show "\<exists>(k', p')\<in>set (ow_places a). \<exists>e'. pl_epoch p' = Some e' \<and> ep_snapshot e' = ep_snapshot e"
    using assms(2) no unfolding epochs_from_def by fastforce
qed

lemma quiet_trans: "quiet a b \<Longrightarrow> quiet b c \<Longrightarrow> quiet a c"
  unfolding quiet_def using epochs_from_trans stays_trans by (metis (no_types, lifting))

lemma quiet_meanwhile: "world_ok w \<Longrightarrow> quiet w (meanwhile cf ps w)"
  by (rule quiet_later [OF meanwhile_later])

lemma quiet_places:
  assumes "\<And>k p e. (k, p) \<in> set ps \<Longrightarrow> pl_epoch p = Some e \<Longrightarrow> \<exists>p'. (k, p') \<in> set (ow_places w) \<and> pl_epoch p' = Some e"
  shows "quiet w (w\<lparr>ow_places := ps\<rparr>)"
  using assms unfolding quiet_def epochs_from_def by (simp add: case_prod_beta) (metis fst_conv snd_conv prod.collapse)

lemma quiet_ensure: "quiet w (ensure_positions s now w)"
  unfolding ensure_positions_def
  by (rule quiet_places) (auto simp: first_position_def Let_def)

lemma quiet_move: "quiet w (move_all s to now w)"
  unfolding move_all_def
  by (rule quiet_places) (auto simp: moved_to_def Let_def split: if_splits)

lemma quiet_meta [simp]: "quiet w (w'\<lparr>ow_meta := m\<rparr>) = quiet w w'"
  by (simp add: quiet_def epochs_from_def)

lemma quiet_set_position: "quiet w (snd (set_position cf age s to w))"
  using quiet_trans [OF quiet_ensure quiet_move]
  by (simp add: set_position_def Let_def clear_passed_def split: sum.split option.split)

lemma quiet_forget: "quiet w (snd (forget_positions cf g uri w))"
proof -
  have "quiet w (w\<lparr>ow_places := filter P (ow_places w)\<rparr>)" for P by (rule quiet_places) auto
  then show ?thesis by (simp add: forget_positions_def Let_def)
qed

lemma quiet_empty: "quiet w (snd (empty_generation cf est c w))"
proof -
  have "quiet w (truncate_generation cf g w)" for g
    using truncate_stays epochs_from_same unfolding quiet_def by (simp add: truncate_generation_def)
  then show ?thesis by (simp add: empty_generation_def Let_def)
qed

lemma quiet_note: "quiet w (snd (note_passed now g w))"
  by (simp add: note_passed_def split: option.split)

lemma note_passed_world: "world_ok w \<Longrightarrow> world_ok (snd (note_passed now g w))"
  by (simp add: note_passed_def split: option.split)

lemma quiet_try:
  assumes "world_ok w"
  shows "quiet w (snd (try_emptying cf env granted est now c w))"
proof -
  define w1 where "w1 = meanwhile cf (env 6) w"
  obtain a w2 where n: "note_passed now (ca_generation c) w1 = (a, w2)" by fastforce
  define w3 where "w3 = meanwhile cf (env 7) w2"
  have w: "world_ok w1" "world_ok w2"
    using assms note_passed_world [of w1 now "ca_generation c"] n by (simp_all add: w1_def meanwhile_ok)
  have q2: "quiet w w2"
    using quiet_trans [OF quiet_meanwhile [OF assms] quiet_note [of w1 now "ca_generation c", unfolded w1_def]] n
    by (simp add: w1_def)
  have q3: "quiet w w3" unfolding w3_def by (rule quiet_trans [OF q2 quiet_meanwhile [OF w(2)]])
  show ?thesis
    using q2 q3 quiet_trans [OF q3 quiet_empty]
    by (simp add: try_emptying_def Let_def n w3_def w1_def [symmetric])
qed

lemma quiet_reclaim:
  assumes "world_ok w"
  shows "quiet w (snd (reclaim_pass cf env key granted est w))"
proof -
  define w0 where "w0 = meanwhile cf (env 0) w"
  define w1 where "w1 = meanwhile cf (env 1) w0"
  define w2 where "w2 = meanwhile cf (env 2) w1"
  define w3 where "w3 = meanwhile cf (env 3) w2"
  define w4 where "w4 = meanwhile cf (env 4) w3"
  define w5 where "w5 = meanwhile cf (env 5) w4"
  note defs = w0_def w1_def w2_def w3_def w4_def w5_def
  have w: "world_ok w0" "world_ok w1" "world_ok w2" "world_ok w3" "world_ok w4" "world_ok w5"
    using assms by (simp_all add: defs meanwhile_ok)
  have q0: "quiet w w0" unfolding w0_def by (rule quiet_meanwhile [OF assms])
  have q1: "quiet w w1" unfolding w1_def by (rule quiet_trans [OF q0 quiet_meanwhile [OF w(1)]])
  have q2: "quiet w w2" unfolding w2_def by (rule quiet_trans [OF q1 quiet_meanwhile [OF w(2)]])
  have q3: "quiet w w3" unfolding w3_def by (rule quiet_trans [OF q2 quiet_meanwhile [OF w(3)]])
  have q4: "quiet w w4" unfolding w4_def by (rule quiet_trans [OF q3 quiet_meanwhile [OF w(4)]])
  have q5: "quiet w w5" unfolding w5_def by (rule quiet_trans [OF q4 quiet_meanwhile [OF w(5)]])
  show ?thesis
    using q0 q1 q2 q3 q4 q5 quiet_trans [OF q5 quiet_try [OF w(6)]]
    unfolding reclaim_pass_def Let_def defs [symmetric] split_beta
    by (simp add: refuse_def split: option.split)
qed

subsection \<open>A dispatch\<close>

definition snapshot_from :: "outbox_world \<Rightarrow> epoch \<Rightarrow> bool" where
  "snapshot_from w e \<longleftrightarrow>
    (\<exists>(k', p')\<in>set (ow_places w). \<exists>e'. pl_epoch p' = Some e' \<and> ep_snapshot e' = ep_snapshot e)
    \<or> (\<exists>w0. stays w w0 \<and> world_ok w0 \<and> ep_snapshot e = current_snapshot w0)"

lemma epochs_from_iff:
  "epochs_from w w' \<longleftrightarrow> (\<forall>(k, p)\<in>set (ow_places w'). \<forall>e. pl_epoch p = Some e \<longrightarrow> snapshot_from w e)"
  by (simp add: epochs_from_def snapshot_from_def)

lemma snapshot_from_stored:
  "(k, p) \<in> set (ow_places w) \<Longrightarrow> pl_epoch p = Some e' \<Longrightarrow> ep_snapshot e' = ep_snapshot e \<Longrightarrow> snapshot_from w e"
  unfolding snapshot_from_def by (rule disjI1, rule bexI [of _ "(k, p)"]) auto

lemma snapshot_from_through:
  assumes "stays w w'" "epochs_from w w'" "snapshot_from w' e"
  shows "snapshot_from w e"
proof -
  let ?at = "w'\<lparr>ow_places := [(undefined, undefined\<lparr>pl_epoch := Some e\<rparr>)]\<rparr>"
  have "epochs_from w' ?at" using assms(3) by (simp add: epochs_from_iff)
  then have "epochs_from w ?at" by (rule epochs_from_trans [OF assms(1,2)])
  then show "snapshot_from w e" by (simp add: epochs_from_iff)
qed

lemma snapshot_from_quiet: "quiet w w' \<Longrightarrow> snapshot_from w' e \<Longrightarrow> snapshot_from w e"
  unfolding quiet_def by (blast intro: snapshot_from_through)

lemma quiet_look:
  assumes "world_ok w" "look cf env held s w = (t, w')"
  shows "quiet w w'"
proof -
  define w1 where "w1 = meanwhile cf (env 0) w"
  define w2 where "w2 = meanwhile cf (env 1) w1"
  define w2' where "w2' = meanwhile cf (env 2) w2"
  define w3 where "w3 = ensure_positions s (ow_clock w) w2'"
  define w4 where "w4 = meanwhile cf (env 3) w3"
  define w5 where "w5 = meanwhile cf (env 4) w4"
  note defs = w1_def w2_def w2'_def w3_def w4_def w5_def
  have w: "world_ok w1" "world_ok w2" "world_ok w3" "world_ok w4"
    using assms(1) by (simp_all add: defs meanwhile_ok)
  have q: "quiet w w1" "quiet w1 w2" "quiet w2 w2'" "quiet w2' w3" "quiet w3 w4" "quiet w4 w5"
    using assms(1) w by (simp_all add: defs quiet_meanwhile quiet_ensure)
  have q2: "quiet w w2" by (rule quiet_trans [OF q(1,2)])
  have q5: "quiet w w5"
    by (rule quiet_trans [OF quiet_trans [OF q2 quiet_trans [OF q(3,4)]] quiet_trans [OF q(5,6)]])
  have "w' = w2 \<or> w' = w5"
    using assms(2) unfolding look_def Let_def defs [symmetric] by (auto split: if_splits)
  then show ?thesis using q2 q5 by blast
qed

lemma quiet_rolled_back:
  assumes "stays w w'" "ow_handed w' = ow_handed w"
  shows "quiet w (w'\<lparr>ow_places := ow_places w\<rparr>)"
  using assms by (simp add: quiet_def epochs_from_same)

lemma chosen_snapshot:
  assumes "choose_epoch cf slot uri pos w w' = Inr (InFlight e started)"
  shows "(\<exists>e'. pl_epoch pos = Some e' \<and> ep_snapshot e' = ep_snapshot e) \<or> ep_snapshot e = current_snapshot w"
  using assms
  by (auto simp: choose_epoch_def and_then_Inr_iff start_epoch_def Let_def split: option.splits if_splits)

text \<open>What a dispatch adds to what was handed on.\<close>

definition handed_batch :: "outbox_config \<Rightarrow> selection \<Rightarrow> outbox_world \<Rightarrow> outbox_world \<Rightarrow> bool" where
  "handed_batch cf s w w' \<longleftrightarrow> (\<exists>slot p e v. stays w v \<and> stays v w' \<and> relay_ok cf v
    \<and> (set (ow_handed v) \<subseteq> set (ow_handed w)) \<and> map_of (ow_places v) (place_of s slot) = Some p
    \<and> epoch_ok cf (place_of s slot) (pl_delivered p) e v \<and> snapshot_from w e
    \<and> (\<exists>q. (place_of s slot, q) \<in> set (ow_places w') \<and> pr_skipped q = pr_skipped p)
    \<and> ow_handed w' = ow_handed w @
        map (Pair (place_of s slot)) (take (oc_batch cf) (owed cf (place_of s slot) (pl_delivered p) e v)))"

lemma handed_batch_quiet:
  assumes "quiet w w'" "handed_batch cf s w' w2"
  shows "handed_batch cf s w w2"
proof -
  obtain slot p e v where b: "stays w' v" "stays v w2" "relay_ok cf v" "set (ow_handed v) \<subseteq> set (ow_handed w')"
    "map_of (ow_places v) (place_of s slot) = Some p" "epoch_ok cf (place_of s slot) (pl_delivered p) e v"
    "snapshot_from w' e" "\<exists>q. (place_of s slot, q) \<in> set (ow_places w2) \<and> pr_skipped q = pr_skipped p"
    "ow_handed w2 = ow_handed w' @
        map (Pair (place_of s slot)) (take (oc_batch cf) (owed cf (place_of s slot) (pl_delivered p) e v))"
    using assms(2) unfolding handed_batch_def by blast
  have "stays w v" "ow_handed w' = ow_handed w" using assms(1) b(1) stays_trans unfolding quiet_def by blast+
  then show ?thesis
    unfolding handed_batch_def using b snapshot_from_quiet [OF assms(1) b(7)]
    by (intro exI [of _ slot] exI [of _ p] exI [of _ e] exI [of _ v]) simp
qed

lemma in_set_update: "x \<in> set (AList.update k q xs) \<Longrightarrow> x = (k, q) \<or> x \<in> set xs"
  by (induction xs) (auto split: if_splits)

lemma quiet_alist_update:
  assumes "pl_epoch q = None"
  shows "quiet w (w\<lparr>ow_places := AList.update k q (ow_places w)\<rparr>)"
  by (rule quiet_places) (use assms in \<open>auto dest: in_set_update\<close>)

lemma serve_history:
  assumes "config_ok cf" "relay_ok cf w" "map_of (ow_places w) (place_of s slot) = Some p" "pos = place.truncate p"
    and "serve cf env h now s slot pos w = (outcome, w')"
  shows "stays w w' \<and> (quiet w w' \<or> epochs_from w w' \<and> handed_batch cf s w w') \<and> (\<forall>err. outcome = Inl err \<longrightarrow> quiet w w')"
  using assms(2-5)
proof (cases rule: serve_cases)
  case (1 w1 w2 w3 w4)
  let ?k = "place_of s slot"
  have q1: "quiet w w1" by (rule quiet_later [OF 1(5)])
  have l3: "later w w3" by (rule later_trans [OF later_trans [OF 1(5,6)] 1(7)])
  have l4: "later w w4" by (rule later_trans [OF l3 1(8)])
  have q4: "quiet w w4" by (rule quiet_later [OF l4])
  from 1(14) show ?thesis
  proof (elim disjE exE conjE)
    fix t assume t: "ack now s slot (Some t) None False w4 = Inr w'" "outcome = Inr ()"
    obtain q where "w' = w4\<lparr>ow_places := AList.update ?k q (ow_places w4)\<rparr>" "pl_epoch q = None"
      using ack_world [OF t(1) 1(13)] by blast
    then have "quiet w w'" using quiet_trans [OF q4 quiet_alist_update] by blast
    then show ?thesis using t(2) by (simp add: quiet_def)
  next
    fix e started
    assume e: "choose_epoch cf slot (sl_uri s) pos w1 w2 = Inr (InFlight e started)"
      "hand_on cf now s slot h e (pl_delivered p) started w3 w4 = Inr w'" "outcome = Inr ()"
    note chosen = chosen_epoch_ok [OF assms(1) 1(1) relay_ok_place [OF 1(1,11)] assms(4) 1(9) e(1)]
    have e3: "epoch_ok cf ?k (pl_delivered p) e w3"
      by (rule epoch_ok_grows [OF later_grows [OF 1(7)] chosen(1)])
    note handed = hand_on_ok [OF assms(1) 1(3,12) e3 chosen(2) 1(10) e(2)]
    obtain q hs where w': "w' = w4\<lparr>ow_places := AList.update ?k q (ow_places w4), ow_handed := hs\<rparr>"
      and skipped: "pr_skipped q = pr_skipped p" and q: "pl_epoch q = None \<or> (\<exists>n. pl_epoch q = Some (e\<lparr>ep_offset := n\<rparr>))"
      using handed(3) by blast
    have "pl_epoch pos = pl_epoch p" by (simp add: assms(4) place.truncate_def)
    then have snap: "snapshot_from w e"
    proof -
      consider e' where "pl_epoch p = Some e'" "ep_snapshot e' = ep_snapshot e" | "ep_snapshot e = current_snapshot w1"
        using chosen_snapshot [OF e(1)] \<open>pl_epoch pos = pl_epoch p\<close> by auto
      then show ?thesis
      proof cases
        case 1
        then show ?thesis using snapshot_from_stored [OF map_of_SomeD [OF assms(3)]] by blast
      next
        case 2
        have "world_ok w1" using 1(1) by (simp add: relay_ok_def)
        then show ?thesis using 2 later_stays [OF 1(5)] unfolding snapshot_from_def by blast
      qed
    qed
    then have snap': "snapshot_from w (e\<lparr>ep_offset := n\<rparr>)" for n by (simp add: snapshot_from_def)
    have stays34: "stays w3 w'" using later_stays [OF 1(8)] by (simp add: w')
    have stays: "stays w w'" using later_stays [OF l4] by (simp add: w')
    have "snapshot_from w e'" if "(k', p') \<in> set (ow_places w')" "pl_epoch p' = Some e'" for k' p' e'
    proof -
      have "(k', p') \<in> insert (?k, q) (set (ow_places w))"
        using that(1) later_same(1) [OF l4] by (auto simp: w' dest: in_set_update)
      then consider "p' = q" | "(k', p') \<in> set (ow_places w)" by auto
      then show ?thesis
      proof cases
        case 1 then show ?thesis using q that(2) snap' by auto
      next
        case 2 then show ?thesis using snapshot_from_stored that(2) by blast
      qed
    qed
    then have "epochs_from w w'" unfolding epochs_from_iff by blast
    moreover have "(?k, q) \<in> set (ow_places w')"
      using map_of_SomeD [of "ow_places w'" ?k q] by (simp add: w' update_conv)
    then have there: "\<exists>q. (?k, q) \<in> set (ow_places w') \<and> pr_skipped q = pr_skipped p"
      using skipped by blast
    moreover have "handed_batch cf s w w'"
      unfolding handed_batch_def
      using later_stays [OF l3] stays34 1(3,12) e3 snap handed(2) later_same(3) [OF l3] there
      by (intro exI [of _ slot] exI [of _ p] exI [of _ e] exI [of _ w3]) (intro conjI; simp)
    ultimately show ?thesis using stays e(3) by simp
  qed (use q1 q4 in \<open>auto simp: quiet_def\<close>)
qed

lemma dispatch_history:
  assumes "config_ok cf" "relay_ok cf w"
  shows "quiet w (snd (dispatch cf env held h s w))
    \<or> epochs_from w (snd (dispatch cf env held h s w)) \<and> stays w (snd (dispatch cf env held h s w))
      \<and> handed_batch cf s w (snd (dispatch cf env held h s w))"
proof -
  obtain t w1 where look: "look cf env held s w = (t, w1)" by fastforce
  have world: "world_ok w" using assms(2) by (simp add: relay_ok_def)
  have q1: "quiet w w1" by (rule quiet_look [OF world look])
  have ok1: "relay_ok cf w1" by (rule look_ok [OF assms(2) look])
  have undone: "quiet w (v\<lparr>ow_places := ow_places w\<rparr>)" if "quiet w v" for v
    using that quiet_rolled_back by (simp add: quiet_def)
  show ?thesis
  proof (cases "tk_refused t \<noteq> None \<or> tk_reset t")
    case True
    then show ?thesis
      using undone [OF q1] undone [of "refuse reset_reason w1"] q1
      by (auto simp: dispatch_def look Let_def refuse_def split: option.splits)
  next
    case False
    show ?thesis
    proof (cases "tk_slot t")
      case None
      then show ?thesis using False q1 by (simp add: dispatch_def look Let_def)
    next
      case (Some slot)
      obtain p where p: "map_of (ow_places w1) (place_of s slot) = Some p" "tk_position t = place.truncate p"
        using look_taken [OF assms(2) look Some] by blast
      obtain outcome w2 where serve: "serve cf env h (ow_clock w) s slot (tk_position t) w1 = (outcome, w2)" by fastforce
      note served = serve_history [OF assms(1) ok1 p serve]
      show ?thesis
      proof (cases outcome)
        case (Inl err)
        then show ?thesis
          using undone [OF quiet_trans [OF q1]] served False Some serve by (simp add: dispatch_def look Let_def)
      next
        case (Inr u)
        have out: "snd (dispatch cf env held h s w) = w2"
          using Inr False Some serve by (simp add: dispatch_def look Let_def)
        show ?thesis
        proof (cases "quiet w1 w2")
          case True then show ?thesis using quiet_trans [OF q1] out by simp
        next
          case False
          then have "stays w1 w2" "epochs_from w1 w2" "handed_batch cf s w1 w2" using served by blast+
          then have "stays w w2" "epochs_from w w2" "handed_batch cf s w w2"
            using q1 stays_trans epochs_from_trans
              handed_batch_quiet [OF q1] unfolding quiet_def by blast+
          then show ?thesis using out by simp
        qed
      qed
    qed
  qed
qed

subsection \<open>A run\<close>

lemma outbox_step_history:
  assumes "config_ok cf" "relay_ok cf w"
  shows "stays w (outbox_step cf st w) \<and> epochs_from w (outbox_step cf st w)"
proof -
  have w: "world_ok w" using assms(2) by (simp add: relay_ok_def)
  show ?thesis
  proof (cases st)
    case (StepProduce p)
    then show ?thesis using quiet_meanwhile [OF w, of cf "[p]"] by (simp add: meanwhile_def quiet_def)
  next
    case (StepDispatch env held h s)
    then show ?thesis using dispatch_history [OF assms] by (auto simp: quiet_def)
  next
    case (StepReclaim env key granted est)
    then show ?thesis using quiet_reclaim [OF w] by (simp add: quiet_def)
  next
    case StepClear
    then show ?thesis by (simp add: clear_counter_reset_def epochs_from_same)
  qed (use quiet_set_position quiet_forget in \<open>auto simp: quiet_def\<close>)
qed

lemma outbox_steps_history:
  assumes "config_ok cf" "relay_ok cf w"
  shows "stays w (outbox_steps cf steps w) \<and> epochs_from w (outbox_steps cf steps w)"
  using assms(2)
proof (induction steps arbitrary: w)
  case Nil
  then show ?case by (simp add: outbox_steps_def epochs_from_same)
next
  case (Cons st steps)
  have "relay_ok cf (outbox_step cf st w)" by (rule outbox_step_ok [OF assms(1) Cons.prems])
  then show ?case
    using outbox_step_history [OF assms(1) Cons.prems, of st] Cons.IH [of "outbox_step cf st w"]
      stays_trans epochs_from_trans unfolding outbox_steps_def by (simp add: o_def) blast
qed

text \<open>
  A row committed before another's position was drawn: no epoch taken from there on holds the second
  without the first.
\<close>

lemma snapshots_in_order:
  assumes "relay_ok cf w" "finished w x" "\<not> finished w y" "snapshot_from w e" "sees (ep_snapshot e) y"
  shows "sees (ep_snapshot e) x"
proof -
  consider k p e' where "(k, p) \<in> set (ow_places w)" "pl_epoch p = Some e'" "ep_snapshot e' = ep_snapshot e"
    | v where "stays w v" "world_ok v" "ep_snapshot e = current_snapshot v"
    using assms(4) unfolding snapshot_from_def by (auto simp: case_prod_beta)
  then show ?thesis
  proof cases
    case 1
    then have "place_ok cf w k p" using assms(1) by (auto simp: relay_ok_def)
    then have "epoch_ok cf k (pl_delivered p) e' w" using 1 by (simp add: place_ok_def)
    then have "finished w y" using assms(5) 1(3) by (simp add: epoch_ok_def sees_only_finished_def)
    then show ?thesis using assms(3) by blast
  next
    case 2
    then show ?thesis using assms(2) by (simp add: sees_current stays_def)
  qed
qed

lemma earlier_in_batch:
  assumes "world_ok w" "i < length (take n (owed cf k d e w))" "take n (owed cf k d e w) ! i = b"
    and "a \<in> set (owed cf k d e w)" "st_position a < st_position b"
  shows "\<exists>j<i. take n (owed cf k d e w) ! j = a"
proof -
  let ?xs = "owed cf k d e w"
  have i: "i < length ?xs" "?xs ! i = b" "i < n" using assms(2,3) by auto
  obtain j where j: "j < length ?xs" "?xs ! j = a" using assms(4) by (meson in_set_conv_nth)
  have "j < i"
  proof (rule ccontr)
    assume "\<not> j < i"
    moreover have "sorted (map st_position ?xs)" by (simp add: owed_def)
    ultimately have "map st_position ?xs ! i \<le> map st_position ?xs ! j"
      using j(1) by (intro sorted_nth_mono) simp_all
    then show False using i j assms(5) by simp
  qed
  then show ?thesis using j i by (intro exI [of _ j]) simp
qed

end
