(* ===== verification/Outbox_Properties.thy ===== *)
theory Outbox_Properties
  imports Outbox_History
begin

section \<open>What the outbox promises\<close>

text \<open>
  The properties of the relay, over runs of dispatches, moves and emptyings with producers beside them, and
  of the rebase that undoes a counter reset.
\<close>

subsection \<open>Nothing is lost\<close>

text \<open>
  C28: a message whose transaction committed is kept until it is handed on. Whatever happens afterwards,
  dispatches that fail, moves, emptyings of the ring, producers between any two statements: for every
  position whose selection and slot take the message, it is still in the outbox and still owed, or it was
  handed to the position's group, or it lies in what the position started without.
\<close>

theorem committed_message_is_not_lost:
  assumes "config_ok cf" "1 \<le> xid" "w = outbox_steps cf before (outbox_new slots xid)"
    and "r \<in> set (ow_rows w)" "finished w (st_xid r)"
    and "w' = outbox_steps cf after w" "(k, p) \<in> set (ow_places w')" "due cf k r"
  shows "(r \<in> set (ow_rows w') \<and> \<not> sees (pl_delivered p) (st_xid r)) \<or> handed_to w' (fst k) r
    \<or> sees (pr_skipped p) (st_xid r)"
proof -
  have ok: "relay_ok cf w" unfolding assms(3) by (intro outbox_steps_ok outbox_new_ok assms(1,2))
  then have ok': "relay_ok cf w'" unfolding assms(6) by (intro outbox_steps_ok assms(1))
  have "stays w w'" unfolding assms(6) using outbox_steps_history [OF assms(1) ok] by blast
  then have "r \<in> set (ow_rows w') \<union> set (ow_gone w')" using assms(4,5) unfolding stays_def by blast
  moreover have "place_ok cf w' k p" using ok' assms(7) by (auto simp: relay_ok_def)
  ultimately show ?thesis using assms(8) unfolding place_ok_def by blast
qed

definition small_outbox :: outbox_config where
  "small_outbox = \<lparr>oc_hash = (\<lambda>uri. 0), oc_slots = 1, oc_ring = \<lparr>ri_generations = 2, ri_window = 1\<rparr>,
    oc_batch = 2, oc_horizon = None, oc_margin = 1, oc_margin_age = 0\<rparr>"

definition small_dispatch :: outbox_event where
  "small_dispatch = StepDispatch (\<lambda>n. []) {} (\<lambda>m. None) (selection_group ''g'')"

definition small_row :: "int \<Rightarrow> nat \<Rightarrow> stored_row" where
  "small_row p x = \<lparr>st_position = p, st_xid = x, st_uri = ''s'', st_payload = ''a'', st_metadata = []\<rparr>"

definition small_message :: outbox_message where
  "small_message = outbox_message_new ''s'' ''a'' []"

definition small_start :: "outbox_event list" where
  "small_start = map StepProduce [PBegin, PBegin, PPublish 1 small_message, PCommit 1]"

lemma small_outbox_ok: "config_ok small_outbox"
  by (simp add: config_ok_def ring_ok_def small_outbox_def)

theorem committed_message_is_not_lost_witness:
  "(small_row 1 1 \<in> set (ow_rows (outbox_steps small_outbox [small_dispatch] (outbox_steps small_outbox small_start (outbox_new 1 1))))
      \<and> \<not> sees \<lparr>sn_xmin = 2, sn_xmax = 2, sn_xip = []\<rparr> 1)
    \<or> handed_to (outbox_steps small_outbox [small_dispatch] (outbox_steps small_outbox small_start (outbox_new 1 1))) ''g'' (small_row 1 1)
    \<or> sees snapshot_nothing 1"
proof -
  let ?w = "outbox_steps small_outbox small_start (outbox_new 1 1)"
  let ?p = "\<lparr>pl_delivered = \<lparr>sn_xmin = 2, sn_xmax = 2, sn_xip = []\<rparr>, pl_epoch = None, pr_epoch_at = Some 0,
    pr_delivered_at = Some 0, pr_updated_at = 0, pr_old_xid = 1, pr_old_offset = 2 ^ 63 - 1, pr_skipped = snapshot_nothing\<rparr>"
  have rows: "ow_rows ?w = [small_row 1 1]" "finished ?w (st_xid (small_row 1 1))" by code_simp+
  have places: "ow_places (outbox_steps small_outbox [small_dispatch] ?w) = [((''g'', [], 0), ?p)]" by code_simp
  have due: "due small_outbox (''g'', [], 0) (small_row 1 1)" by code_simp
  show ?thesis
    using committed_message_is_not_lost [OF small_outbox_ok order_refl refl, where before = small_start and slots = 1
        and r = "small_row 1 1" and after = "[small_dispatch]" and k = "(''g'', [], 0)" and p = ?p, OF _ _ refl]
      rows places due by (simp add: small_row_def)
qed

text \<open>
  C29: messages are handed on in the order of commits. When the first message's transaction was over before
  the second's position was drawn, whatever happened in between, a dispatch that hands on the second to a
  position that takes both has handed on the first before it: to the group earlier, or earlier in the same
  batch; or the position started past it.
\<close>

theorem commit_order:
  assumes "config_ok cf" "1 \<le> xid" "v = outbox_steps cf before (outbox_new slots xid)"
    and "a \<in> set (ow_rows v)" "finished v (st_xid a)" "b \<notin> set (ow_rows v)" "\<not> finished v (st_xid b)"
    and "w = outbox_steps cf between v" "w' = snd (dispatch cf env held h s w)"
    and "batch = drop (length (ow_handed w)) (ow_handed w')" "i < length batch" "batch ! i = (k, b)" "due cf k a"
  shows "handed_to w (fst k) a \<or> (\<exists>j<i. batch ! j = (k, a))
    \<or> (\<exists>p. (k, p) \<in> set (ow_places w') \<and> sees (pr_skipped p) (st_xid a))"
proof -
  let ?n = "oc_batch cf"
  have okv: "relay_ok cf v" unfolding assms(3) by (intro outbox_steps_ok outbox_new_ok assms(1,2))
  then have okw: "relay_ok cf w" unfolding assms(8) by (intro outbox_steps_ok assms(1))
  have vw: "stays v w" "epochs_from v w"
    unfolding assms(8) using outbox_steps_history [OF assms(1) okv] by blast+
  have "ow_handed w' \<noteq> ow_handed w" using assms(10,11) by auto
  then have "handed_batch cf s w w'"
    using dispatch_history [OF assms(1) okw] assms(9) unfolding quiet_def by blast
  then obtain slot p e u q where wu: "stays w u" and u: "relay_ok cf u" "set (ow_handed u) \<subseteq> set (ow_handed w)"
    and p: "map_of (ow_places u) (place_of s slot) = Some p" and e: "epoch_ok cf (place_of s slot) (pl_delivered p) e u"
    and snap: "snapshot_from w e" and q: "(place_of s slot, q) \<in> set (ow_places w')" "pr_skipped q = pr_skipped p"
    and handed: "ow_handed w' = ow_handed w @
        map (Pair (place_of s slot)) (take ?n (owed cf (place_of s slot) (pl_delivered p) e u))"
    unfolding handed_batch_def by blast
  let ?k = "place_of s slot"
  let ?rows = "take ?n (owed cf ?k (pl_delivered p) e u)"
  have batch: "batch = map (Pair ?k) ?rows" using assms(10) handed by simp
  then have i: "i < length ?rows" "?rows ! i = b" "k = ?k" using assms(11,12) by auto
  then have "b \<in> set (owed cf ?k (pl_delivered p) e u)" by (metis in_set_takeD nth_mem)
  then have b: "b \<in> set (ow_rows u)" "new_to (pl_delivered p) (ep_snapshot e) b" by (simp_all add: set_owed)
  have vu: "stays v u" by (rule stays_trans [OF vw(1) wu])
  have "st_position a < ow_seq v" using okv assms(4) by (auto simp: relay_ok_def world_ok_def)
  moreover have "ow_seq v \<le> st_position b" using b(1) assms(6) vu unfolding stays_def by blast
  ultimately have order: "st_position a < st_position b" by simp
  have "snapshot_from v e" using snap vw snapshot_from_through by blast
  then have seen: "sees (ep_snapshot e) (st_xid a)"
    using snapshots_in_order [OF okv assms(5,7)] b(2) by (simp add: new_to_def)
  have place: "place_ok cf u ?k p" by (rule relay_ok_place [OF u(1) p])
  have there: "a \<in> set (ow_rows u) \<union> set (ow_gone u)" using vu assms(4,5) unfolding stays_def by blast
  have due: "due cf ?k a" using assms(13) i(3) by simp
  have "handed_to u (fst ?k) a \<or> (\<exists>j<i. ?rows ! j = a) \<or> sees (pr_skipped p) (st_xid a)"
  proof (cases "a \<in> set (ow_gone u) \<or> sees (pl_delivered p) (st_xid a)")
    case True
    then show ?thesis using place there due unfolding place_ok_def by blast
  next
    case False
    then have a: "a \<in> set (ow_rows u)" "new_to (pl_delivered p) (ep_snapshot e) a"
      using there seen by (simp_all add: new_to_def)
    show ?thesis
    proof (cases "st_position a \<le> ep_offset e")
      case True
      then show ?thesis using e a due unfolding epoch_ok_def by blast
    next
      case False
      then have "a \<in> set (owed cf ?k (pl_delivered p) e u)" using a due by (simp add: set_owed)
      then show ?thesis using earlier_in_batch [OF _ i(1,2) _ order] u(1) by (simp add: relay_ok_def)
    qed
  qed
  moreover have "handed_to u g a \<Longrightarrow> handed_to w g a" for g using u(2) unfolding handed_to_def by blast
  moreover have "\<exists>j<i. batch ! j = (k, a)" if "\<exists>j<i. ?rows ! j = a"
    using that i batch by auto
  ultimately show ?thesis using q i(3) by auto
qed

definition order_start :: "outbox_event list" where
  "order_start = map StepProduce [PBegin, PBegin, PPublish 2 small_message, PCommit 2]"

definition order_rest :: "outbox_event list" where
  "order_rest = map StepProduce [PPublish 1 small_message, PCommit 1]"

theorem commit_order_witness:
  "handed_to (outbox_steps small_outbox order_rest (outbox_steps small_outbox order_start (outbox_new 1 1))) ''g'' (small_row 1 2)
   \<or> (\<exists>j<1. [((''g'', [], 0), small_row 1 2), ((''g'', [], 0), small_row 2 1)] ! j = ((''g'', [], 0::nat), small_row 1 2))
   \<or> (\<exists>p. ((''g'', [], 0), p) \<in> set (ow_places (snd (dispatch small_outbox (\<lambda>n. []) {} (\<lambda>m. None) (selection_group ''g'')
         (outbox_steps small_outbox order_rest (outbox_steps small_outbox order_start (outbox_new 1 1))))))
       \<and> sees (pr_skipped p) (st_xid (small_row 1 2)))"
proof -
  let ?v = "outbox_steps small_outbox order_start (outbox_new 1 1)"
  let ?w = "outbox_steps small_outbox order_rest ?v"
  let ?d = "snd (dispatch small_outbox (\<lambda>n. []) {} (\<lambda>m. None) (selection_group ''g'') ?w)"
  let ?batch = "[((''g'', [], 0::nat), small_row 1 2), ((''g'', [], 0), small_row 2 1)]"
  have v: "ow_rows ?v = [small_row 1 2]" "finished ?v (st_xid (small_row 1 2))" "\<not> finished ?v (st_xid (small_row 2 1))"
    by code_simp+
  have w: "?batch = drop (length (ow_handed ?w)) (ow_handed ?d)" by code_simp
  have due: "due small_outbox (''g'', [], 0) (small_row 1 2)" by code_simp
  have "small_row 2 1 \<notin> set (ow_rows ?v)" using v(1) by (simp add: small_row_def)
  then show ?thesis
    using commit_order [OF small_outbox_ok order_refl refl, where before = order_start and slots = 1 and a = "small_row 1 2"
        and b = "small_row 2 1" and between = order_rest and env = "\<lambda>n. []" and held = "{}" and h = "\<lambda>m. None"
        and s = "selection_group ''g''" and batch = ?batch and i = 1 and k = "(''g'', [], 0)", OF _ v(2) _ v(3) refl refl w _ _ due]
      v(1) by simp
qed

subsection \<open>The ring\<close>

text \<open>
  C30: emptying a generation takes only messages that were handed on. Whichever generation a pass chose,
  and whatever committed since it was chosen, a row that the emptying takes was handed to the group of
  every position that takes it, or lies in what the position started without.
\<close>

theorem emptying_takes_what_was_handed:
  assumes "config_ok cf" "1 \<le> xid" "w = outbox_steps cf before (outbox_new slots xid)"
    and "closed_generation cf (ca_generation c) w" "empty_generation cf est c w = (Emptied em, w')"
    and "r \<in> set (ow_rows w)" "r \<notin> set (ow_rows w')" "(k, p) \<in> set (ow_places w)" "due cf k r"
  shows "handed_to w (fst k) r \<or> sees (pr_skipped p) (st_xid r)"
proof -
  have ok: "relay_ok cf w" unfolding assms(3) by (intro outbox_steps_ok outbox_new_ok assms(1,2))
  note emptied = emptied_generation [OF assms(5) refl]
  have "row_generation cf r = ca_generation c"
    using emptied(2) assms(6,7) by (auto simp: truncate_generation_def)
  then have "sees (pl_delivered p) (st_xid r)"
    using passed_rows_delivered(1) [OF ok assms(4) refl, where c = c] emptied(1) assms(6,8) by simp
  then show ?thesis using ok assms(6,8,9) by (auto simp: relay_ok_def place_ok_def)
qed

theorem emptying_takes_what_was_handed_witness:
  "handed_to (outbox_steps small_outbox (small_start @ [small_dispatch]) (outbox_new 1 1)) ''g'' (small_row 1 1)
   \<or> sees snapshot_nothing 1"
proof -
  let ?w = "outbox_steps small_outbox (small_start @ [small_dispatch]) (outbox_new 1 1)"
  let ?c = "\<lparr>ca_generation = 1, ca_oldest = 1, ca_newest = 1\<rparr>"
  let ?p = "\<lparr>pl_delivered = \<lparr>sn_xmin = 2, sn_xmax = 2, sn_xip = []\<rparr>, pl_epoch = None, pr_epoch_at = Some 0,
    pr_delivered_at = Some 0, pr_updated_at = 0, pr_old_xid = 1, pr_old_offset = 2 ^ 63 - 1, pr_skipped = snapshot_nothing\<rparr>"
  have w: "closed_generation small_outbox (ca_generation ?c) ?w" "ow_rows ?w = [small_row 1 1]"
    "ow_places ?w = [((''g'', [], 0), ?p)]" "due small_outbox (''g'', [], 0) (small_row 1 1)"
    "case empty_generation small_outbox 0 ?c ?w of (Emptied em, w') \<Rightarrow> ow_rows w' = [] | _ \<Rightarrow> False"
    by code_simp+
  obtain em w' where e: "empty_generation small_outbox 0 ?c ?w = (Emptied em, w')" "ow_rows w' = []"
    using w(5) by (auto split: prod.splits reclamation.splits)
  show ?thesis
    using emptying_takes_what_was_handed [OF small_outbox_ok order_refl refl w(1) e(1), where r = "small_row 1 1"
        and k = "(''g'', [], 0)" and p = ?p] w(2-4) e(2) by (simp add: small_row_def)
qed

text \<open>
  The generations that a statement names are enough, and no more than enough: it names a generation
  exactly when some id of it lies past what was delivered and before the snapshot, or was running when what
  was delivered was read and is seen since.
\<close>

theorem generations_named_exactly:
  assumes "ring_ok ring"
  shows "g \<in> ring_generations_new ring d e \<longleftrightarrow> (\<exists>x. generation_of ring x = g
    \<and> ((sn_xmax d \<le> x \<and> x < sn_xmax e) \<or> (x \<in> set (sn_xip d) \<and> sees e x)))"
  by (rule ring_generations_new_iff [OF assms])

theorem generations_named_exactly_witness:
  "1 \<in> ring_generations_new \<lparr>ri_generations = 8, ri_window = 2\<rparr> snapshot_nothing \<lparr>sn_xmin = 4, sn_xmax = 4, sn_xip = []\<rparr>"
proof -
  have "generation_of \<lparr>ri_generations = 8, ri_window = 2\<rparr> 3 = 1" by code_simp
  then show ?thesis
    by (subst generations_named_exactly) (auto simp: ring_ok_def snapshot_nothing_def intro!: exI [of _ 3])
qed

text \<open>
  A transaction id shown with its lowest 32 bits is widened to the id itself, as long as that lies
  within half the range of the next: a transaction open now is told exactly.
\<close>

theorem widened_id_is_exact:
  assumes "nxt - 2147483648 \<le> xid" "xid < nxt + 2147483648" "0 \<le> xid" "0 \<le> nxt"
  shows "widened nxt (xid mod 4294967296) = xid"
proof -
  let ?m = "4294967296 :: int"
  have "(xid mod ?m - nxt mod ?m + 6442450944) mod ?m = (xid - nxt + 2147483648) mod ?m"
  proof -
    have "(xid mod ?m - nxt mod ?m + 6442450944) mod ?m = ((xid mod ?m - nxt mod ?m) mod ?m + 6442450944) mod ?m"
      by (rule mod_add_left_eq [symmetric])
    also have "\<dots> = ((xid - nxt) mod ?m + 6442450944) mod ?m" by (simp only: mod_diff_eq)
    also have "\<dots> = (xid - nxt + 6442450944) mod ?m" by (rule mod_add_left_eq)
    also have "xid - nxt + 6442450944 = (xid - nxt + 2147483648) + ?m" by simp
    also have "\<dots> mod ?m = (xid - nxt + 2147483648) mod ?m" by (rule mod_add_self2)
    finally show ?thesis .
  qed
  also have "\<dots> = xid - nxt + 2147483648" using assms by (intro mod_pos_pos_trivial) auto
  finally show ?thesis by (simp add: widened_def)
qed

theorem widened_id_is_exact_witness: "widened 4294967300 (4294967290 mod 4294967296) = 4294967290"
  by (rule widened_id_is_exact) simp_all

subsection \<open>One message per identity\<close>

text \<open>
  Two messages are under one identity when both carry the four fields of one, with the same values, and
  the same part, one that is left out being the empty one, and their URIs have the same scheme and the same
  channel, whatever the key.
\<close>

definition same_identity :: "string \<Rightarrow> (string \<times> string) list \<Rightarrow> string \<Rightarrow> (string \<times> string) list \<Rightarrow> bool" where
  "same_identity uri md uri' md' \<longleftrightarrow>
    split_part uri CHR ''/'' 1 = split_part uri' CHR ''/'' 1 \<and> split_part uri CHR ''/'' 3 = split_part uri' CHR ''/'' 3
    \<and> list_all (\<lambda>f. map_of md f \<noteq> None \<and> map_of md f = map_of md' f)
        [''tenant_id'', ''stream_type'', ''stream_id'', ''stream_position'']
    \<and> (if map_of md ''part'' = None then Some [] else map_of md ''part'')
      = (if map_of md' ''part'' = None then Some [] else map_of md' ''part'')"

definition same_identity_rows :: "stored_row \<Rightarrow> stored_row \<Rightarrow> bool" where
  "same_identity_rows r q \<longleftrightarrow> same_identity (st_uri r) (st_metadata r) (st_uri q) (st_metadata q)"

lemma split_on_pieces: "x \<in> set (split_on c s) \<Longrightarrow> c \<notin> set x"
  by (induction c s arbitrary: x rule: split_on.induct) (auto split: list.splits if_splits)

lemma split_part_free: "c \<notin> set (split_part s c n)"
  using split_on_pieces [OF nth_mem] by (fastforce simp: split_part_def Let_def)

lemma channel_parts:
  "split_part u CHR ''/'' i @ ''//'' @ x = split_part v CHR ''/'' j @ ''//'' @ y
    \<longleftrightarrow> split_part u CHR ''/'' i = split_part v CHR ''/'' j \<and> x = y" (is "?l \<longleftrightarrow> ?r")
proof
  assume eq: ?l
  have free: "takeWhile (\<lambda>c. c \<noteq> CHR ''/'') (split_part s CHR ''/'' n @ ''//'' @ z) = split_part s CHR ''/'' n" for s n z
    using split_part_free [of "CHR ''/''" s n] by (subst takeWhile_append2) auto
  have "split_part u CHR ''/'' i = split_part v CHR ''/'' j"
    using arg_cong [OF eq, of "takeWhile (\<lambda>c. c \<noteq> CHR ''/'')"] unfolding free .
  with eq show ?r by simp
qed simp

text \<open>The index keeps apart just what is under different identities.\<close>

lemma guard_key_identity:
  "guard_key u md \<noteq> None \<and> guard_key v nd = guard_key u md \<longleftrightarrow> same_identity u md v nd"
  by (auto simp: guard_key_def same_identity_def channel_parts [simplified] split: option.splits)







definition identified :: "(string \<times> string) list" where
  "identified = [(''tenant_id'', ''t''), (''stream_type'', ''o''), (''stream_id'', ''7''), (''stream_position'', ''1'')]"



subsection \<open>A counter reset undone\<close>

lemma first_per_key_subset: "set (first_per_key key seen xs) \<subseteq> set xs"
  by (induction xs arbitrary: seen) auto

lemma first_per_key_covers:
  "sorted (map f xs) \<Longrightarrow> x \<in> set xs
    \<Longrightarrow> key x \<in> set seen \<or> (\<exists>y\<in>set (first_per_key key seen xs). key y = key x \<and> f y \<le> f x)"
proof (induction xs arbitrary: seen)
  case (Cons z zs)
  show ?case
  proof (cases "key z \<in> set seen")
    case True
    then show ?thesis using Cons by auto
  next
    case False
    then show ?thesis using Cons.prems Cons.IH [of "key z # seen"] by auto
  qed
qed simp

lemma first_per_key_distinct:
  "distinct (map key (first_per_key key seen xs)) \<and> set seen \<inter> key ` set (first_per_key key seen xs) = {}"
proof (induction xs arbitrary: seen)
  case (Cons z zs)
  then show ?case using Cons.IH [of seen] Cons.IH [of "key z # seen"] by auto
qed simp

lemma first_per_key_sorted: "sorted (map f xs) \<Longrightarrow> sorted (map f (first_per_key key seen xs))"
proof (induction xs arbitrary: seen)
  case (Cons z zs)
  then show ?case using first_per_key_subset [of key "key z # seen" zs] by auto
qed simp

lemma renumbered_rows:
  "r \<in> set (renumbered p x rs) \<Longrightarrow> st_xid r = x \<and> p \<le> st_position r \<and> st_position r < p + int (length rs)"
  by (induction rs arbitrary: p) force+

lemma renumbered_distinct: "distinct (map st_position (renumbered p x rs))"
proof (induction rs arbitrary: p)
  case (Cons r rs)
  have "p \<noteq> st_position q" if "q \<in> set (renumbered (p + 1) x rs)" for q
    using renumbered_rows [OF that] by simp
  then show ?case using Cons by auto
qed simp

definition content_of :: "stored_row \<Rightarrow> string \<times> string \<times> (string \<times> string) list" where
  "content_of r = (st_uri r, st_payload r, st_metadata r)"

lemma renumbered_content: "map content_of (renumbered p x rs) = map content_of rs"
  by (induction rs arbitrary: p) (simp_all add: content_of_def)

lemma renumbered_positions: "map st_position (renumbered p x rs) = map (\<lambda>i. p + int i) [0..<length rs]"
  by (induction rs arbitrary: p) (simp_all add: upt_conv_Cons map_Suc_upt [symmetric] del: upt_Suc)

text \<open>
  The rows that some position had not handed on, or that were written since the restore, before the ids the
  ring had reached.
\<close>

definition still_owed :: "outbox_world \<Rightarrow> nat \<Rightarrow> stored_row \<Rightarrow> bool" where
  "still_owed w restored r \<longleftrightarrow> r \<in> set (ow_rows w)
    \<and> (st_xid r < restored \<or> list_ex (\<lambda>(k, p). \<not> sees (pl_delivered p) (st_xid r)) (ow_places w))"

text \<open>One row stands for another: it is the row, or one before it under the same identity.\<close>

definition stands_for :: "stored_row \<Rightarrow> stored_row \<Rightarrow> bool" where
  "stands_for q r \<longleftrightarrow> st_position q \<le> st_position r
    \<and> (if same_identity_rows r r then same_identity_rows q r
       else \<not> same_identity_rows q q \<and> st_position q = st_position r)"

lemma same_rebase_key:
  "rebase_key q = rebase_key r \<longleftrightarrow>
    (if same_identity_rows r r then same_identity_rows q r
     else \<not> same_identity_rows q q \<and> st_position q = st_position r)"
  unfolding rebase_key_def same_identity_rows_def guard_key_identity [symmetric]
  by (auto split: option.splits)

lemma kept_rows_facts:
  "sorted (map st_position (kept_rows restored w))"
  "set (kept_rows restored w) \<subseteq> {r. still_owed w restored r}"
  "still_owed w restored r \<Longrightarrow> \<exists>q\<in>set (kept_rows restored w). stands_for q r"
  "distinct (map rebase_key (kept_rows restored w))"
proof -
  let ?owed = "filter (\<lambda>r. st_xid r < restored \<or> list_ex (\<lambda>(k, p). \<not> sees (pl_delivered p) (st_xid r)) (ow_places w)) (ow_rows w)"
  show "sorted (map st_position (kept_rows restored w))"
    unfolding kept_rows_def by (intro first_per_key_sorted) simp
  show "set (kept_rows restored w) \<subseteq> {r. still_owed w restored r}"
    using first_per_key_subset [of rebase_key "[]" "sort_key st_position ?owed"]
    by (auto simp: kept_rows_def still_owed_def)
  show "distinct (map rebase_key (kept_rows restored w))"
    unfolding kept_rows_def using first_per_key_distinct by blast
  assume "still_owed w restored r"
  then have "r \<in> set (sort_key st_position ?owed)" by (simp add: still_owed_def)
  from first_per_key_covers [OF _ this, of st_position rebase_key "[]"]
  show "\<exists>q\<in>set (kept_rows restored w). stands_for q r"
    by (auto simp: kept_rows_def stands_for_def same_rebase_key)
qed

lemma rebased_world:
  assumes "rebase w = (Inr (Some rb), w')"
  shows "\<exists>restored m moved. me_gone_below (ow_meta w) = Some restored \<and> sn_xmax (current_snapshot w) < restored
    \<and> w' = end_xid (ow_next w) (begin_xid w)
      \<lparr>ow_rows := renumbered (ow_seq w) (ow_next w) (kept_rows restored w),
       ow_seq := ow_seq w + int (length (kept_rows restored w)),
       ow_places := map (\<lambda>(k, p). (k, moved p)) (ow_places w), ow_meta := m\<rparr>
    \<and> (\<forall>p. pl_delivered (moved p) = current_snapshot w \<and> pl_epoch (moved p) = None)"
  using assms
  by (auto simp: rebase_def Let_def split: if_splits option.splits intro!: exI)

lemma current_snapshot_rows [simp]: "current_snapshot (w\<lparr>ow_rows := rs\<rparr>) = current_snapshot w"
  by (simp add: current_snapshot_def cong: list.case_cong)

lemma rebased_position_sees_nothing_kept:
  assumes "world_ok (w\<lparr>ow_rows := []\<rparr>)"
  shows "\<not> sees (current_snapshot w) (ow_next w)"
  using sees_current [OF assms, of "ow_next w"] by (simp add: finished_def)

text \<open>
  C32: a rebase gives the relay back what it rests on, and keeps what is owed. After a dump and restore
  nothing need hold of the rows and positions restored; whatever they were, when the rebase goes through,
  the invariant of the relay holds again, over a history that starts over. The rows it leaves are, in
  the order of their positions and drawn anew from the sequence, rows that were still owed: some position
  had not handed them on, or they were written since the restore. Every row still owed is kept, or one
  that came before it under the same identity on the same channel is, and no two are kept under one; and
  every position has yet to hand on every one of them.
\<close>

theorem rebase_restores_the_relay:
  assumes "world_ok (w\<lparr>ow_rows := []\<rparr>)" "distinct (map fst (ow_places w))" "rebase w = (Inr (Some rb), w')"
  shows "relay_ok cf (w'\<lparr>ow_gone := []\<rparr>)
    \<and> (\<exists>restored kept. me_gone_below (ow_meta w) = Some restored
        \<and> map content_of (ow_rows w') = map content_of kept
        \<and> map st_position (ow_rows w') = map (\<lambda>i. ow_seq w + int i) [0..<length kept]
        \<and> sorted (map st_position kept) \<and> list_all (still_owed w restored) kept
        \<and> (\<forall>r. still_owed w restored r \<longrightarrow> list_ex (\<lambda>q. stands_for q r) kept)
        \<and> (\<forall>q\<in>set kept. \<forall>r\<in>set kept. same_identity_rows q r \<longrightarrow> q = r)
        \<and> list_all (\<lambda>(k, p). list_all (\<lambda>r. \<not> sees (pl_delivered p) (st_xid r)) (ow_rows w')) (ow_places w'))"
proof -
  let ?v = "w\<lparr>ow_rows := []\<rparr>" and ?own = "ow_next w" and ?s = "current_snapshot w"
  obtain restored m moved where restored: "me_gone_below (ow_meta w) = Some restored"
    and w': "w' = end_xid ?own (begin_xid w)
      \<lparr>ow_rows := renumbered (ow_seq w) ?own (kept_rows restored w),
       ow_seq := ow_seq w + int (length (kept_rows restored w)),
       ow_places := map (\<lambda>(k, p). (k, moved p)) (ow_places w), ow_meta := m\<rparr>"
    and moved: "\<And>p. pl_delivered (moved p) = ?s" "\<And>p. pl_epoch (moved p) = None"
    using rebased_world [OF assms(3)] by blast
  let ?b = "end_xid ?own (begin_xid ?v)" and ?w = "w'\<lparr>ow_gone := []\<rparr>"
  have b: "world_ok ?b" by (intro end_ok begin_ok assms(1))
  have same: "ow_open ?w = ow_open ?b" "ow_next ?w = ow_next ?b" "ow_ended ?w = ow_ended ?b" "ow_next ?b = Suc ?own"
    by (simp_all add: w' end_xid_def begin_xid_def)
  have rows: "1 \<le> st_xid r \<and> st_xid r < ow_next ?w \<and> st_position r < ow_seq ?w" if "r \<in> set (ow_rows ?w)" for r
    using renumbered_rows [of r "ow_seq w" ?own "kept_rows restored w"] that assms(1) same(2,4)
    by (simp add: w' world_ok_def)
  have "distinct (map st_position (ow_rows ?w))" by (simp add: w' renumbered_distinct)
  then have world: "world_ok ?w" using b rows unfolding world_ok_def same by blast
  have "sees_only_finished ?v ?s" using current_sees_only_finished [OF assms(1)] by simp
  moreover have "finished ?w x" if "finished ?v x" for x
  proof -
    have "finished ?b x"
      by (rule later_finished [OF later_trans [OF begin_later [OF assms(1)] end_later [OF begin_ok [OF assms(1)]]] that])
    then show ?thesis unfolding finished_def same(1,2) .
  qed
  ultimately have "sees_only_finished ?w ?s" unfolding sees_only_finished_def by blast
  moreover have unseen: "\<not> sees ?s (st_xid r)" if "r \<in> set (ow_rows ?w)" for r
    using renumbered_rows [of r "ow_seq w" ?own "kept_rows restored w"] that rebased_position_sees_nothing_kept [OF assms(1)]
    by (simp add: w')
  ultimately have "place_ok cf ?w k (moved p)" for k p by (simp add: place_ok_def moved)
  moreover have places: "ow_places ?w = map (\<lambda>(k, p). (k, moved p)) (ow_places w)" by (simp add: w')
  ultimately have relay: "relay_ok cf ?w"
    using world assms(2) by (auto simp: relay_ok_def gone_ok_def o_def case_prod_beta)
  let ?kept = "kept_rows restored w"
  have "map content_of (ow_rows w') = map content_of ?kept"
    "map st_position (ow_rows w') = map (\<lambda>i. ow_seq w + int i) [0..<length ?kept]"
    by (simp_all add: w' renumbered_content renumbered_positions)
  moreover have "list_all (still_owed w restored) ?kept"
    using kept_rows_facts(2) by (auto simp: list_all_iff)
  moreover have "list_ex (\<lambda>q. stands_for q r) ?kept" if "still_owed w restored r" for r
    using kept_rows_facts(3) [OF that] by (simp add: list_ex_iff)
  moreover have "q = r" if "q \<in> set ?kept" "r \<in> set ?kept" "same_identity_rows q r" for q r
  proof -
    have "rebase_key q = rebase_key r"
      using that(3) unfolding rebase_key_def same_identity_rows_def guard_key_identity [symmetric] by auto
    with that(1,2) kept_rows_facts(4) [of restored w] show ?thesis by (auto simp: distinct_map dest: inj_onD)
  qed
  moreover have "list_all (\<lambda>(k, p). list_all (\<lambda>r. \<not> sees (pl_delivered p) (st_xid r)) (ow_rows w')) (ow_places w')"
    using places unseen by (auto simp: list_all_iff moved)
  ultimately have "me_gone_below (ow_meta w) = Some restored
      \<and> map content_of (ow_rows w') = map content_of ?kept
      \<and> map st_position (ow_rows w') = map (\<lambda>i. ow_seq w + int i) [0..<length ?kept]
      \<and> sorted (map st_position ?kept) \<and> list_all (still_owed w restored) ?kept
      \<and> (\<forall>r. still_owed w restored r \<longrightarrow> list_ex (\<lambda>q. stands_for q r) ?kept)
      \<and> (\<forall>q\<in>set ?kept. \<forall>r\<in>set ?kept. same_identity_rows q r \<longrightarrow> q = r)
      \<and> list_all (\<lambda>(k, p). list_all (\<lambda>r. \<not> sees (pl_delivered p) (st_xid r)) (ow_rows w')) (ow_places w')"
    using restored kept_rows_facts(1) by blast
  with relay show ?thesis by blast
qed

text \<open>
  A restored table: a row written since the restore, three owed ones, the later two under one identity, and
  one that was handed on.
\<close>

definition restored_outbox :: outbox_world where
  "restored_outbox = (outbox_new 1 2)\<lparr>ow_rows := [small_row 1 8, (small_row 9 9)\<lparr>st_metadata := identified\<rparr>,
      (small_row 4 8)\<lparr>st_metadata := identified\<rparr>, small_row 2 6],
    ow_places := [((''g'', [], 0), \<lparr>pl_delivered = \<lparr>sn_xmin = 7, sn_xmax = 7, sn_xip = []\<rparr>, pl_epoch = None, pr_epoch_at = None,
      pr_delivered_at = None, pr_updated_at = 0, pr_old_xid = 0, pr_old_offset = 0, pr_skipped = snapshot_nothing\<rparr>)],
    ow_seq := 10, ow_meta := \<lparr>me_slots = 1, me_refused = None, me_gone_below = Some 6, me_intact_from = None, me_passed = []\<rparr>\<rparr>"

theorem rebase_restores_the_relay_witness:
  "\<exists>w'. rebase restored_outbox = (Inr (Some \<lparr>rb_kept = 2, rb_emptied = 2, rb_bound = 2\<rparr>), w')
    \<and> relay_ok small_outbox (w'\<lparr>ow_gone := []\<rparr>)
    \<and> (\<exists>kept. map content_of (ow_rows w') = map content_of kept
        \<and> map st_position (ow_rows w') = map (\<lambda>i. 10 + int i) [0..<length kept]
        \<and> list_ex (\<lambda>q. stands_for q ((small_row 9 9)\<lparr>st_metadata := identified\<rparr>)) kept)"
proof -
  have ok: "world_ok (restored_outbox\<lparr>ow_rows := []\<rparr>)" "distinct (map fst (ow_places restored_outbox))"
    by (simp_all add: restored_outbox_def world_ok_def outbox_new_def)
  have "fst (rebase restored_outbox) = Inr (Some \<lparr>rb_kept = 2, rb_emptied = 2, rb_bound = 2\<rparr>)" by code_simp
  then obtain w' where rebased: "rebase restored_outbox = (Inr (Some \<lparr>rb_kept = 2, rb_emptied = 2, rb_bound = 2\<rparr>), w')"
    by (metis prod.collapse)
  have restored: "me_gone_below (ow_meta restored_outbox) = Some 6" "ow_seq restored_outbox = 10"
    by (simp_all add: restored_outbox_def)
  have "still_owed restored_outbox 6 ((small_row 9 9)\<lparr>st_metadata := identified\<rparr>)" by code_simp
  with restored rebase_restores_the_relay [OF ok rebased, of small_outbox] rebased show ?thesis by auto
qed

end
