(* ===== verification/Outbox_Options.thy ===== *)
theory Outbox_Options
  imports Outbox_System Unicode_Text
begin

section \<open>The outbox's options, and what it checks at its start\<close>

text \<open>
  \<open>crates/outbox/src/pg/mod.rs\<close> and the checks of \<open>pg/store.rs\<close>. A duration is a number of nanoseconds, at
  most \<open>DURATION_MAX\<close>; a sum or product past it is none.
\<close>

definition DURATION_MAX :: nat where
  "DURATION_MAX = 2 ^ 64 * 10 ^ 9 - 1"

definition duration_mul :: "nat \<Rightarrow> nat \<Rightarrow> nat option" where
  "duration_mul d n = (if d * n \<le> DURATION_MAX then Some (d * n) else None)"

record loops =
  lo_concurrency :: nat
  lo_poll_interval :: nat
  lo_max_pause :: nat

definition loops_default :: loops where
  "loops_default = \<lparr>lo_concurrency = 1, lo_poll_interval = 10 ^ 9, lo_max_pause = 60 * 10 ^ 9\<rparr>"

text \<open>The subtraction saturates, as that of the naturals does.\<close>

definition pause_after :: "loops \<Rightarrow> nat \<Rightarrow> nat" where
  "pause_after l n =
    (case duration_mul (lo_poll_interval l) (2 ^ min (n - 1) 31) of
       None \<Rightarrow> lo_max_pause l
     | Some pause \<Rightarrow> min pause (lo_max_pause l))"

lemma pause_is_bounded: "pause_after l n \<le> lo_max_pause l"
  by (simp add: pause_after_def split: option.split)

text \<open>A pause never gets shorter as failures add up.\<close>

lemma pause_grows:
  assumes "m \<le> n"
  shows "pause_after l m \<le> pause_after l n"
proof -
  define a where "a = lo_poll_interval l * 2 ^ min (m - 1) 31"
  define b where "b = lo_poll_interval l * 2 ^ min (n - 1) 31"
  have "(2::nat) ^ min (m - 1) 31 \<le> 2 ^ min (n - 1) 31" using assms by (intro power_increasing) auto
  then have "a \<le> b" by (simp add: a_def b_def)
  then show ?thesis
    unfolding pause_after_def duration_mul_def a_def [symmetric] b_def [symmetric] by auto
qed

record reclaiming =
  rg_interval :: nat
  rg_margin :: nat
  rg_margin_age :: nat
  rg_lock_timeout :: nat

definition reclaiming_default :: reclaiming where
  "reclaiming_default = \<lparr>rg_interval = 60 * 10 ^ 9, rg_margin = 1, rg_margin_age = 3600 * 10 ^ 9, rg_lock_timeout = 10 ^ 9\<rparr>"

definition outbox_with_batch_size :: "nat \<Rightarrow> outbox_config \<Rightarrow> outbox_config" where
  "outbox_with_batch_size sz cf = cf\<lparr>oc_batch := max sz 1\<rparr>"

definition outbox_with_slots :: "nat \<Rightarrow> outbox_config \<Rightarrow> outbox_config" where
  "outbox_with_slots slots cf = cf\<lparr>oc_slots := min (max slots 1) (2 ^ 15 - 1)\<rparr>"

definition outbox_with_ring :: "ring_shape \<Rightarrow> outbox_config \<Rightarrow> outbox_config" where
  "outbox_with_ring ring cf = cf\<lparr>oc_ring := ring\<rparr>"

definition with_replay_horizon :: "nat \<Rightarrow> outbox_config \<Rightarrow> outbox_config" where
  "with_replay_horizon horizon cf = cf\<lparr>oc_horizon := Some horizon\<rparr>"

definition with_reclaiming :: "reclaiming \<Rightarrow> outbox_config \<Rightarrow> outbox_config" where
  "with_reclaiming r cf = cf\<lparr>oc_margin := rg_margin r, oc_margin_age := rg_margin_age r\<rparr>"

lemma built_config_ok:
  "config_ok (outbox_with_batch_size sz (outbox_with_ring (ring_shape_new n w) cf))"
  by (simp add: config_ok_def outbox_with_batch_size_def outbox_with_ring_def ring_shape_new_ok)

subsection \<open>The checks\<close>

definition OUTBOX_FORMAT :: int where
  "OUTBOX_FORMAT = 2"

text \<open>The numbers the table was made with, as the meta table holds them: slots, format, generations, window.\<close>

definition check_meta :: "string \<Rightarrow> outbox_config \<Rightarrow> nat \<Rightarrow> int \<Rightarrow> nat \<Rightarrow> nat \<Rightarrow> (outbox_error, unit) result" where
  "check_meta table cf slots format generations window =
    (if slots \<noteq> oc_slots cf
     then Inl (OMalformed (''table `'' @ table @ ''` is cut into '' @ show_nat slots @ '' slots, this outbox asks for ''
       @ show_nat (oc_slots cf) @ ''; the number is fixed for the life of the table''))
     else if generations \<noteq> ri_generations (oc_ring cf) \<or> window \<noteq> ri_window (oc_ring cf)
     then Inl (OMalformed (''table `'' @ table @ ''` is a ring of '' @ show_nat generations @ '' generations of ''
       @ show_nat window @ '' ids, this outbox asks for '' @ show_nat (ri_generations (oc_ring cf)) @ '' of ''
       @ show_nat (ri_window (oc_ring cf)) @ ''; the ring is fixed for the life of the table''))
     else if OUTBOX_FORMAT < format then Inl (OFormat format OUTBOX_FORMAT)
     else Inr ())"

definition check_names :: "string \<Rightarrow> outbox_config \<Rightarrow> (outbox_error, unit) result" where
  "check_names table cf =
    (let longest = table @ ''_g'' @ show_nat (ri_generations (oc_ring cf) - 1) @ ''_slot_position_idx'' in
     if 63 < length longest
     then Inl (OMalformed (''table `'' @ table @ ''` is too long a name for its ring'' @ [CHR 0x27] @ ''s: `'' @ longest @ ''` passes 63 bytes''))
     else Inr ())"

text \<open>A violation of uniqueness names the partition's index.\<close>

definition identity_taken :: "string \<Rightarrow> bool \<Rightarrow> string option \<Rightarrow> bool" where
  "identity_taken table unique_violation constraint =
    (unique_violation \<and> (case constraint of
       None \<Rightarrow> False
     | Some c \<Rightarrow> (case strip_prefix (table @ ''_g'') c of
         None \<Rightarrow> False
       | Some rest \<Rightarrow> (case strip_suffix ''_identity_uniq'' rest of
           None \<Rightarrow> False
         | Some n \<Rightarrow> n \<noteq> [] \<and> list_all is_ascii_digit n))))"

subsection \<open>The generations of an epoch, as stored\<close>

text \<open>What the error shows of the value stored is left out.\<close>

datatype stored_json = SInt int | SArray "stored_json list" | SOther

definition generations_json :: "generation_span list \<Rightarrow> stored_json" where
  "generations_json gs = SArray (map (\<lambda>g. SArray [SInt (int (gn_generation g)), SInt (gn_first g), SInt (gn_last g)]) gs)"

fun span_of :: "stored_json \<Rightarrow> generation_span option" where
  "span_of (SArray [SInt g, SInt lo, SInt hi]) =
    (if 0 \<le> g \<and> g < 2 ^ 32 \<and> - (2 ^ 63) \<le> lo \<and> lo < 2 ^ 63 \<and> - (2 ^ 63) \<le> hi \<and> hi < 2 ^ 63
     then Some \<lparr>gn_generation = nat g, gn_first = lo, gn_last = hi\<rparr> else None)"
| "span_of j = None"

fun collect_some :: "'a option list \<Rightarrow> 'a list option" where
  "collect_some [] = Some []"
| "collect_some (None # xs) = None"
| "collect_some (Some x # xs) = map_option (Cons x) (collect_some xs)"

definition generations_of :: "stored_json option \<Rightarrow> (outbox_error, generation_span list) result" where
  "generations_of stored =
    (let malformed = OMalformed (''an epoch'' @ [CHR 0x27] @ ''s generations'') in
     case stored of
       None \<Rightarrow> Inr []
     | Some (SArray entries) \<Rightarrow> ok_or malformed (collect_some (map span_of entries))
     | Some j \<Rightarrow> Inl malformed)"

lemma generations_round_trip:
  assumes "\<forall>g\<in>set gs. gn_generation g < 2 ^ 32 \<and> - (2 ^ 63) \<le> gn_first g \<and> gn_first g < 2 ^ 63
    \<and> - (2 ^ 63) \<le> gn_last g \<and> gn_last g < 2 ^ 63"
  shows "generations_of (Some (generations_json gs)) = Inr gs"
proof -
  have "collect_some (map (\<lambda>g. span_of (SArray [SInt (int (gn_generation g)), SInt (gn_first g), SInt (gn_last g)])) gs) = Some gs"
    using assms by (induction gs) auto
  then show ?thesis by (simp add: generations_of_def generations_json_def o_def ok_or_def)
qed

end
