(* ===== verification/Inbox_Message.thy ===== *)
theory Inbox_Message
  imports Outbox_Snapshot "HOL-Library.Word"
begin

section \<open>What the inbox stores\<close>

text \<open>
  \<open>crates/inbox/src/message.rs\<close>, \<open>error.rs\<close>, \<open>snapshot.rs\<close> and \<open>partition.rs\<close>. A JSON value is what
  \<open>jsonb\<close> keeps of it: the keys of an object are sorted and occur once, and a number is a decimal with the
  digits after its point that were written, so that 1 and 1.0 are two values, which print differently and
  are nonetheless equal to \<open>jsonb\<close>. A value of the program reads as the \<open>jsonb\<close> that its text gives. The
  positions of a stream are of 32 bits, signed; none is computed with, so they are integers, and the bound
  shows where a value is read.
\<close>

subsection \<open>JSON\<close>

text \<open>The digits as one integer, and how many of them stand after the point.\<close>

datatype json_number = Decimal int nat

datatype json_value =
    NullV
  | BoolV bool
  | NumberV json_number
  | StringV string
  | ArrayV "json_value list"
  | ObjectV "(string \<times> json_value) list"

fun json_get :: "string \<Rightarrow> json_value \<Rightarrow> json_value option" where
  "json_get k (ObjectV fds) = map_of fds k"
| "json_get k v = None"

fun as_array :: "json_value \<Rightarrow> json_value list option" where
  "as_array (ArrayV vs) = Some vs"
| "as_array v = None"

fun as_str :: "json_value \<Rightarrow> string option" where
  "as_str (StringV s) = Some s"
| "as_str v = None"

text \<open>An insertion into an object, or another map of strings, whose keys stay sorted.\<close>

fun json_insert :: "string \<Rightarrow> 'v \<Rightarrow> (string \<times> 'v) list \<Rightarrow> (string \<times> 'v) list" where
  "json_insert k v [] = [(k, v)]"
| "json_insert k v ((k', v') # rest) =
    (if k = k' then (k, v) # rest
     else if is_lt (bytes_cmp k k') then (k, v) # (k', v') # rest
     else (k', v') # json_insert k v rest)"

lemma map_of_json_insert [simp]: "map_of (json_insert k v fds) = (map_of fds)(k \<mapsto> v)"
  by (induction k v fds rule: json_insert.induct) auto

text \<open>
  What \<open>jsonb\<close> compares: two values are equal when they are the same once every number is written without
  zeros at the end of its fraction.
\<close>

fun canon_number :: "int \<Rightarrow> nat \<Rightarrow> json_number" where
  "canon_number c 0 = Decimal c 0"
| "canon_number c (Suc s) = (if c mod 10 = 0 then canon_number (c div 10) s else Decimal c (Suc s))"

primrec canon :: "json_value \<Rightarrow> json_value" where
  "canon NullV = NullV"
| "canon (BoolV b) = BoolV b"
| "canon (NumberV n) = NumberV (case n of Decimal c s \<Rightarrow> canon_number c s)"
| "canon (StringV s) = StringV s"
| "canon (ArrayV vs) = ArrayV (map canon vs)"
| "canon (ObjectV fds) = ObjectV (map (map_prod id canon) fds)"

lemma canon_number_stable: "canon_number c s = Decimal c' s' \<Longrightarrow> canon_number c' s' = Decimal c' s'"
  by (induction c s rule: canon_number.induct) (auto split: if_splits)

lemma canon_canon [simp]: "canon (canon v) = canon v"
proof (induction v)
  case (NumberV n)
  obtain c s where n: "n = Decimal c s" by (cases n)
  obtain c' s' where "canon_number c s = Decimal c' s'" by (cases "canon_number c s")
  then show ?case using canon_number_stable by (simp add: n)
next
  case (ObjectV fds)
  then show ?case by (auto simp: map_prod_def fsts.simps snds.simps split: prod.split)
qed simp_all

lemma one_and_one_point_zero: "canon (NumberV (Decimal 10 1)) = canon (NumberV (Decimal 1 0))"
  by simp

subsection \<open>Dependencies\<close>

record dependency =
  dp_tenant :: string
  dp_stream_type :: string
  dp_stream_id :: json_value
  dp_stream_position :: int

definition i32_ok :: "int \<Rightarrow> bool" where
  "i32_ok n \<longleftrightarrow> - (2 ^ 31) \<le> n \<and> n < 2 ^ 31"

definition dependency_json :: "dependency \<Rightarrow> json_value" where
  "dependency_json d = ObjectV
    [(''stream_id'', dp_stream_id d), (''stream_position'', NumberV (Decimal (dp_stream_position d) 0)),
     (''stream_type'', StringV (dp_stream_type d)), (''tenant_id'', StringV (dp_tenant d))]"

definition dependency_of_parts :: "json_value \<Rightarrow> json_value \<Rightarrow> json_value \<Rightarrow> json_value \<Rightarrow> dependency option" where
  "dependency_of_parts tenant stream_type stream_id position =
    (case (tenant, stream_type, position) of
       (StringV t, StringV y, NumberV (Decimal p 0)) \<Rightarrow>
         if i32_ok p
         then Some \<lparr>dp_tenant = t, dp_stream_type = y, dp_stream_id = stream_id, dp_stream_position = p\<rparr>
         else None
     | _ \<Rightarrow> None)"

text \<open>
  The identity that the server compares: a dependency as far as \<open>jsonb\<close> tells its stream id from another.
\<close>

definition canon_id :: "dependency \<Rightarrow> dependency" where
  "canon_id d = d\<lparr>dp_stream_id := canon (dp_stream_id d)\<rparr>"

lemma canon_id_idem [simp]: "canon_id (canon_id d) = canon_id d"
  by (simp add: canon_id_def)

lemma same_jsonb_same_identity: "canon (dependency_json d) = canon (dependency_json e) \<longleftrightarrow> canon_id d = canon_id e"
  by (cases d; cases e) (auto simp: dependency_json_def canon_id_def)

text \<open>A position is read where it is written as an integer, of 32 bits: 5.0 is none. What serde derives reads an object, fields it does not know ignored, or an array of the fields in order.\<close>

fun dependency_from_json :: "json_value \<Rightarrow> dependency option" where
  "dependency_from_json (ObjectV fds) =
    (case (map_of fds ''tenant_id'', map_of fds ''stream_type'', map_of fds ''stream_id'', map_of fds ''stream_position'') of
       (Some t, Some y, Some i, Some p) \<Rightarrow> dependency_of_parts t y i p
     | _ \<Rightarrow> None)"
| "dependency_from_json (ArrayV [t, y, i, p]) = dependency_of_parts t y i p"
| "dependency_from_json v = None"

lemma dependency_round_trip:
  assumes "i32_ok (dp_stream_position d)"
  shows "dependency_from_json (dependency_json d) = Some d"
  using assms by (simp add: dependency_json_def dependency_of_parts_def)

lemma dependency_json_inject [simp]: "dependency_json d = dependency_json e \<longleftrightarrow> d = e"
  by (cases d; cases e) (auto simp: dependency_json_def)

subsection \<open>Messages\<close>

record inbox_message =
  im_tenant_id :: string
  im_stream_type :: string
  im_stream_id :: json_value
  im_stream_position :: int
  im_uri :: string
  im_payload :: string
  im_metadata :: "json_value option"
  im_received_position :: "int option"
  im_processed_position :: "int option"
  im_attempts :: int
  im_last_error :: "string option"
  im_waiting_for :: "dependency option"

definition inbox_message_new :: "string \<Rightarrow> string \<Rightarrow> json_value \<Rightarrow> int \<Rightarrow> string \<Rightarrow> string \<Rightarrow> inbox_message" where
  "inbox_message_new tenant_id stream_type stream_id stream_position uri payload =
    \<lparr>im_tenant_id = tenant_id, im_stream_type = stream_type, im_stream_id = stream_id,
     im_stream_position = stream_position, im_uri = uri, im_payload = payload, im_metadata = None,
     im_received_position = None, im_processed_position = None, im_attempts = 0, im_last_error = None,
     im_waiting_for = None\<rparr>"

definition with_metadata :: "json_value \<Rightarrow> inbox_message \<Rightarrow> inbox_message" where
  "with_metadata v m = m\<lparr>im_metadata := Some v\<rparr>"

definition depending_on :: "dependency list \<Rightarrow> inbox_message \<Rightarrow> inbox_message" where
  "depending_on ds m =
    (let metadata = (case im_metadata m of Some v \<Rightarrow> v | None \<Rightarrow> ObjectV []) in
     m\<lparr>im_metadata := Some (case metadata of
         ObjectV fds \<Rightarrow> ObjectV (json_insert ''causal_dependencies'' (ArrayV (map dependency_json ds)) fds)
       | other \<Rightarrow> other)\<rparr>)"

text \<open>The reader of a JSON text is \<open>serde_json\<close>'s: a parameter.\<close>

definition causal_dependencies :: "(string \<Rightarrow> json_value option) \<Rightarrow> inbox_message \<Rightarrow> dependency list" where
  "causal_dependencies parse m =
    (case Option.bind (im_metadata m) (json_get ''causal_dependencies'') of
       None \<Rightarrow> []
     | Some entries \<Rightarrow>
         (case as_array (case entries of
              StringV text \<Rightarrow> (case parse text of Some v \<Rightarrow> v | None \<Rightarrow> NullV)
            | other \<Rightarrow> other) of
            None \<Rightarrow> []
          | Some vs \<Rightarrow> List.map_filter dependency_from_json vs))"

definition message_id :: "inbox_message \<Rightarrow> string option" where
  "message_id m = Option.bind (Option.bind (im_metadata m) (json_get ''message_id'')) as_str"

definition dependency_on :: "inbox_message \<Rightarrow> dependency" where
  "dependency_on m = \<lparr>dp_tenant = im_tenant_id m, dp_stream_type = im_stream_type m,
    dp_stream_id = im_stream_id m, dp_stream_position = im_stream_position m\<rparr>"

text \<open>The identity of a message, as the server compares it.\<close>

definition id_of :: "inbox_message \<Rightarrow> dependency" where
  "id_of m = canon_id (dependency_on m)"

lemma canon_id_of [simp]: "canon_id (id_of m) = id_of m"
  by (simp add: id_of_def)

lemma dependency_on_fields [simp]:
  "dependency_on (m\<lparr>im_metadata := a\<rparr>) = dependency_on m"
  "dependency_on (m\<lparr>im_received_position := b\<rparr>) = dependency_on m"
  "dependency_on (m\<lparr>im_processed_position := b\<rparr>) = dependency_on m"
  "dependency_on (m\<lparr>im_attempts := c\<rparr>) = dependency_on m"
  "dependency_on (m\<lparr>im_last_error := e\<rparr>) = dependency_on m"
  "dependency_on (m\<lparr>im_waiting_for := f\<rparr>) = dependency_on m"
  by (simp_all add: dependency_on_def)

lemma id_of_fields [simp]:
  "id_of (m\<lparr>im_metadata := a\<rparr>) = id_of m"
  "id_of (m\<lparr>im_received_position := b\<rparr>) = id_of m"
  "id_of (m\<lparr>im_processed_position := b\<rparr>) = id_of m"
  "id_of (m\<lparr>im_attempts := c\<rparr>) = id_of m"
  "id_of (m\<lparr>im_last_error := e\<rparr>) = id_of m"
  "id_of (m\<lparr>im_waiting_for := f\<rparr>) = id_of m"
  by (simp_all add: id_of_def)

lemma causal_dependencies_fields [simp]:
  "causal_dependencies parse (m\<lparr>im_received_position := b\<rparr>) = causal_dependencies parse m"
  "causal_dependencies parse (m\<lparr>im_processed_position := b\<rparr>) = causal_dependencies parse m"
  "causal_dependencies parse (m\<lparr>im_attempts := c\<rparr>) = causal_dependencies parse m"
  "causal_dependencies parse (m\<lparr>im_last_error := e\<rparr>) = causal_dependencies parse m"
  "causal_dependencies parse (m\<lparr>im_waiting_for := f\<rparr>) = causal_dependencies parse m"
  by (simp_all add: causal_dependencies_def)

lemma map_filter_inverse: "(\<And>x. x \<in> set xs \<Longrightarrow> f (g x) = Some x) \<Longrightarrow> List.map_filter f (map g xs) = xs"
  by (induction xs) (simp_all add: List.map_filter_def)

lemma causal_dependencies_depending_on:
  assumes "im_metadata m = None \<or> (\<exists>fds. im_metadata m = Some (ObjectV fds))"
    and "\<forall>d\<in>set ds. i32_ok (dp_stream_position d)"
  shows "causal_dependencies parse (depending_on ds m) = ds"
proof -
  obtain fds where fds: "(case im_metadata m of Some v \<Rightarrow> v | None \<Rightarrow> ObjectV []) = ObjectV fds"
    using assms(1) by auto
  have "im_metadata (depending_on ds m)
      = Some (ObjectV (json_insert ''causal_dependencies'' (ArrayV (map dependency_json ds)) fds))"
    unfolding depending_on_def Let_def fds by simp
  moreover have "List.map_filter dependency_from_json (map dependency_json ds) = ds"
    using assms(2) by (intro map_filter_inverse dependency_round_trip) simp
  ultimately show ?thesis by (simp add: causal_dependencies_def del: json_insert.simps)
qed

subsection \<open>Errors\<close>

datatype failure = FTransient string | FPermanent string

fun failure_error :: "failure \<Rightarrow> string" where
  "failure_error (FTransient e) = e"
| "failure_error (FPermanent e) = e"

fun is_permanent :: "failure \<Rightarrow> bool" where
  "is_permanent (FTransient e) = False"
| "is_permanent (FPermanent e) = True"

text \<open>Whether an error of the session or of the database is of the moment is known where it is met.\<close>

datatype inbox_error =
    ISession string bool
  | IDatabase string bool
  | ISubscriber failure
  | IMalformed string
  | IMigration string

fun inbox_transient :: "inbox_error \<Rightarrow> bool" where
  "inbox_transient (ISession e transient) = transient"
| "inbox_transient (IDatabase e transient) = transient"
| "inbox_transient e = False"

fun show_inbox_error :: "inbox_error \<Rightarrow> string" where
  "show_inbox_error (ISession e t) = ''session: '' @ e"
| "show_inbox_error (IDatabase e t) = ''database: '' @ e"
| "show_inbox_error (ISubscriber f) = ''subscriber: '' @ failure_error f"
| "show_inbox_error (IMalformed what) = ''malformed inbox: '' @ what"
| "show_inbox_error (IMigration e) = e"

subsection \<open>Snapshots\<close>

definition inbox_snapshot_from_str :: "string \<Rightarrow> (string, snapshot) result" where
  "inbox_snapshot_from_str text =
    (let malformed = ''not a snapshot: '' @ [CHR 0x60] @ text @ [CHR 0x60];
         number = (\<lambda>part. ok_or malformed (parse_u64 part)) in
     case split_on (CHR '':'') text of
       [xmin, xmax, xip] \<Rightarrow>
         and_then (number xmin) (\<lambda>xmin.
         and_then (number xmax) (\<lambda>xmax.
         and_then (collect_results (map number (filter (\<lambda>p. p \<noteq> []) (split_on (CHR '','') xip)))) (\<lambda>xip.
           Inr \<lparr>sn_xmin = xmin, sn_xmax = xmax, sn_xip = xip\<rparr>)))
     | _ \<Rightarrow> Inl malformed)"

subsection \<open>Partition keys\<close>

text \<open>A key is an expression over the columns, with the value it has on a message; how \<open>jsonb\<close> prints is a parameter.\<close>

record partition_key =
  pk_sql :: string
  pk_value :: "inbox_message \<Rightarrow> string"

definition by_uri :: partition_key where
  "by_uri = \<lparr>pk_sql = ''uri'', pk_value = im_uri\<rparr>"

definition by_stream :: "(json_value \<Rightarrow> string) \<Rightarrow> partition_key" where
  "by_stream jsonb_text =
    \<lparr>pk_sql = ''tenant_id || '' @ [CHR 0x27] @ '':'' @ [CHR 0x27] @ '' || stream_type || '' @ [CHR 0x27] @ '':'' @ [CHR 0x27]
       @ '' || stream_id::text'',
     pk_value = (\<lambda>m. im_tenant_id m @ '':'' @ im_stream_type m @ '':'' @ jsonb_text (im_stream_id m))\<rparr>"

end
