(* ===== verification/Inbox_Dispatch.thy ===== *)
theory Inbox_Dispatch
  imports Inbox_Message "HOL-Library.AList"
begin

section \<open>The statements of the inbox\<close>

text \<open>
  \<open>crates/inbox/src/pg/store.rs\<close>. A statement reads the rows its snapshot sees and gives the new versions of
  the rows it writes; \<open>apply_rows\<close> puts them in their places, which is what a commit does. A row keeps its
  columns as the message they are read back as, and the five columns no message has. How the server hashes,
  prints a \<open>jsonb\<close>, reads a \<open>uuid\<close> and makes an interval of a duration, and which values it refuses, are
  parameters, and so is the reader of a JSON text. Times and durations are numbers of nanoseconds.
\<close>

record inbox_config =
  ic_hash :: "string \<Rightarrow> 32 word"
  ic_key :: partition_key
  ic_slots :: nat
  ic_max_attempts :: nat
  ic_backoff :: "nat \<Rightarrow> nat"
  ic_max_wait :: "nat option"
  ic_interval :: "nat \<Rightarrow> nat"
  ic_parse :: "string \<Rightarrow> json_value option"
  ic_text :: "json_value \<Rightarrow> string"
  ic_uuid :: "string \<Rightarrow> nat option"
  ic_refuses :: "inbox_message \<Rightarrow> string option"

definition inbox_with_slots :: "nat \<Rightarrow> inbox_config \<Rightarrow> inbox_config" where
  "inbox_with_slots slots cf = cf\<lparr>ic_slots := min (max slots 1) (2 ^ 15 - 1)\<rparr>"

definition inbox_slot :: "inbox_config \<Rightarrow> inbox_message \<Rightarrow> nat" where
  "inbox_slot cf m = unat (and (ic_hash cf (pk_value (ic_key cf) m)) 2147483647) mod ic_slots cf"

record inbox_row =
  ir_message :: inbox_message
  ir_next_attempt_at :: "nat option"
  ir_parked_at :: "nat option"
  ir_waiting_since :: "nat option"
  ir_processed_at :: "nat option"
  ir_slot :: nat

definition row_id :: "inbox_row \<Rightarrow> dependency" where
  "row_id r = id_of (ir_message r)"

text \<open>What a row waits for, as the server compares it.\<close>

definition waits_on :: "inbox_row \<Rightarrow> dependency option" where
  "waits_on r = map_option canon_id (im_waiting_for (ir_message r))"

definition is_row_processed :: "inbox_row \<Rightarrow> bool" where
  "is_row_processed r \<longleftrightarrow> im_processed_position (ir_message r) \<noteq> None"

definition in_queue :: "inbox_row \<Rightarrow> bool" where
  "in_queue r \<longleftrightarrow> \<not> is_row_processed r \<and> ir_parked_at r = None \<and> im_waiting_for (ir_message r) = None"

definition received_at :: "inbox_message \<Rightarrow> int" where
  "received_at m = (case im_received_position m of Some p \<Rightarrow> p | None \<Rightarrow> 0)"

definition row_due :: "nat \<Rightarrow> inbox_row \<Rightarrow> bool" where
  "row_due now r \<longleftrightarrow> (case ir_next_attempt_at r of None \<Rightarrow> True | Some t \<Rightarrow> t \<le> now)"

definition with_message :: "(inbox_message \<Rightarrow> inbox_message) \<Rightarrow> inbox_row \<Rightarrow> inbox_row" where
  "with_message f r = r\<lparr>ir_message := f (ir_message r)\<rparr>"

definition apply_rows :: "inbox_row list \<Rightarrow> inbox_row list \<Rightarrow> inbox_row list" where
  "apply_rows written rows =
    map (\<lambda>r. case find (\<lambda>x. row_id x = row_id r) written of Some x \<Rightarrow> x | None \<Rightarrow> r) rows"

subsection \<open>Taking a slot, and its head\<close>

definition slot_head :: "inbox_row list \<Rightarrow> nat \<Rightarrow> inbox_row option" where
  "slot_head rows slot =
    (case sort_key (\<lambda>r. received_at (ir_message r)) (filter (\<lambda>r. ir_slot r = slot \<and> in_queue r) rows) of
       [] \<Rightarrow> None | r # _ \<Rightarrow> Some r)"

definition head_due :: "nat \<Rightarrow> inbox_row list \<Rightarrow> nat \<Rightarrow> bool" where
  "head_due now rows slot = (case slot_head rows slot of None \<Rightarrow> False | Some r \<Rightarrow> row_due now r)"

text \<open>The slots, with when each was served last; \<open>held\<close> are those whose rows are locked by others.\<close>

definition inbox_take :: "nat \<Rightarrow> nat list \<Rightarrow> inbox_row list \<Rightarrow> (nat \<times> nat) list \<Rightarrow> nat option \<times> (nat \<times> nat) list" where
  "inbox_take now held rows slots =
    (case sort_key snd (filter (\<lambda>(s, _). s \<notin> set held \<and> head_due now rows s) slots) of
       [] \<Rightarrow> (None, slots)
     | (s, _) # _ \<Rightarrow> (Some s, AList.update s now slots))"

definition head_of :: "nat \<Rightarrow> inbox_row list \<Rightarrow> nat \<Rightarrow> (inbox_message \<times> bool) option" where
  "head_of now rows slot = map_option (\<lambda>r. (ir_message r, \<not> row_due now r)) (slot_head rows slot)"

subsection \<open>Dependencies and waits\<close>

text \<open>Asked of an identity as the server compares it.\<close>

definition is_processed :: "inbox_row list \<Rightarrow> dependency \<Rightarrow> bool" where
  "is_processed rows d = list_ex (\<lambda>r. row_id r = d \<and> is_row_processed r) rows"

fun first_unprocessed :: "inbox_row list \<Rightarrow> dependency list \<Rightarrow> dependency option" where
  "first_unprocessed rows [] = None"
| "first_unprocessed rows (d # ds) = (if is_processed rows (canon_id d) then first_unprocessed rows ds else Some d)"

text \<open>
  The key of the lock that orders a wait for a dependency against its mark, within the table: the hash of
  the dependency's \<open>jsonb\<close> text. The text is not what \<open>jsonb\<close> compares: one identity spelled in two ways has
  two keys.
\<close>

definition lock_key :: "inbox_config \<Rightarrow> dependency \<Rightarrow> 32 word" where
  "lock_key cf d = ic_hash cf (ic_text cf (dependency_json d))"

definition set_waiting_unless_processed :: "nat \<Rightarrow> inbox_message \<Rightarrow> dependency \<Rightarrow> inbox_row list \<Rightarrow> inbox_row list" where
  "set_waiting_unless_processed now m d rows =
    (if is_processed rows (canon_id d) then []
     else map (\<lambda>r. with_message (im_waiting_for_update (\<lambda>_. Some d)) r\<lparr>ir_waiting_since := Some now\<rparr>)
       (filter (\<lambda>r. row_id r = id_of m) rows))"

definition sorted_messages :: "inbox_row list \<Rightarrow> inbox_message list" where
  "sorted_messages rs = sort_key received_at (map ir_message rs)"

text \<open>\<open>locked\<close> are the rows that \<open>SKIP LOCKED\<close> passes by.\<close>

definition expire_waiting :: "inbox_config \<Rightarrow> nat \<Rightarrow> nat \<Rightarrow> dependency list \<Rightarrow> inbox_row list \<Rightarrow> inbox_row list \<times> inbox_message list" where
  "expire_waiting cf now max_wait locked rows =
    (let expired = map (\<lambda>r. with_message (\<lambda>m. m\<lparr>
             im_last_error := Some (''dependency '' @ ic_text cf (dependency_json (the (im_waiting_for m))) @ '' never arrived''),
             im_waiting_for := None\<rparr>) r\<lparr>ir_parked_at := Some now, ir_waiting_since := None\<rparr>)
           (filter (\<lambda>r. im_waiting_for (ir_message r) \<noteq> None \<and> row_id r \<notin> set locked \<and>
             (case ir_waiting_since r of None \<Rightarrow> False | Some t \<Rightarrow> t + ic_interval cf max_wait < now)) rows)
     in (expired, sorted_messages expired))"

subsection \<open>Marks and failures\<close>

definition marked_row :: "int \<Rightarrow> nat \<Rightarrow> inbox_row \<Rightarrow> inbox_row" where
  "marked_row pos at r = with_message (im_processed_position_update (\<lambda>_. Some pos)) r\<lparr>ir_processed_at := Some at\<rparr>"

definition woken_row :: "inbox_row \<Rightarrow> inbox_row" where
  "woken_row r = with_message (im_waiting_for_update (\<lambda>_. None)) r\<lparr>ir_waiting_since := None\<rparr>"

definition woken_rows :: "dependency \<Rightarrow> inbox_row list \<Rightarrow> inbox_row list" where
  "woken_rows d rows = map woken_row (filter (\<lambda>r. waits_on r = Some d) rows)"

text \<open>The rows written, and the messages woken.\<close>

definition mark_processed :: "inbox_message \<Rightarrow> int \<Rightarrow> nat \<Rightarrow> inbox_row list \<Rightarrow> (inbox_error, inbox_row list \<times> inbox_message list) result" where
  "mark_processed m pos at rows =
    (let marked = map (marked_row pos at) (filter (\<lambda>r. row_id r = id_of m) rows);
         woken = woken_rows (id_of m) rows in
     if marked = [] then Inl (IMalformed ''the row to mark is gone'')
     else Inr (marked @ woken, sorted_messages woken))"

definition last_attempt :: "inbox_config \<Rightarrow> int \<Rightarrow> bool" where
  "last_attempt cf attempts =
    (let limit = sint (of_nat (ic_max_attempts cf) :: 32 word) in 0 < limit \<and> limit \<le> attempts)"

definition record_failure :: "inbox_config \<Rightarrow> nat \<Rightarrow> inbox_message \<Rightarrow> failure \<Rightarrow> nat \<Rightarrow> inbox_row list
    \<Rightarrow> (inbox_error, inbox_row list \<times> int \<times> bool) result" where
  "record_failure cf now m f retry_after rows =
    (case find (\<lambda>r. row_id r = id_of m) rows of
       None \<Rightarrow> Inl (IDatabase ''query returned an unexpected number of rows'' False)
     | Some r \<Rightarrow>
         (let attempts = im_attempts (ir_message r) + 1; park = is_permanent f \<or> last_attempt cf attempts in
          if \<not> i32_ok attempts then Inl (IDatabase ''integer out of range'' False)
          else Inr ([with_message (\<lambda>m. m\<lparr>im_attempts := attempts, im_last_error := Some (failure_error f)\<rparr>)
                 r\<lparr>ir_next_attempt_at := Some (now + ic_interval cf retry_after),
                   ir_parked_at := (if park then Some now else None)\<rparr>], attempts, park)))"

subsection \<open>The operator\<close>

definition parked_rows :: "inbox_row list \<Rightarrow> inbox_message list" where
  "parked_rows rows = sorted_messages (filter (\<lambda>r. ir_parked_at r \<noteq> None) rows)"

definition unpark_row :: "inbox_message \<Rightarrow> inbox_row list \<Rightarrow> inbox_row list" where
  "unpark_row m rows =
    map (\<lambda>r. with_message (im_attempts_update (\<lambda>_. 0)) r\<lparr>ir_parked_at := None, ir_next_attempt_at := None\<rparr>)
      (filter (\<lambda>r. row_id r = id_of m \<and> ir_parked_at r \<noteq> None) rows)"

definition resolve_row :: "inbox_message \<Rightarrow> int \<Rightarrow> nat \<Rightarrow> inbox_row list \<Rightarrow> (inbox_row list \<times> inbox_message list) option" where
  "resolve_row m pos at rows =
    (let resolved = map (\<lambda>r. marked_row pos at r\<lparr>ir_parked_at := None\<rparr>)
           (filter (\<lambda>r. row_id r = id_of m \<and> ir_parked_at r \<noteq> None) rows);
         woken = woken_rows (id_of m) rows in
     if resolved = [] then None else Some (resolved @ woken, sorted_messages woken))"

subsection \<open>Receiving\<close>

text \<open>\<open>->>\<close> of \<open>jsonb\<close>.\<close>

fun arrow_text :: "(json_value \<Rightarrow> string) \<Rightarrow> string \<Rightarrow> json_value \<Rightarrow> string option" where
  "arrow_text text k (ObjectV fds) =
    (case map_of fds k of
       None \<Rightarrow> None | Some NullV \<Rightarrow> None | Some (StringV s) \<Rightarrow> Some s | Some v \<Rightarrow> Some (text v))"
| "arrow_text text k v = None"

definition message_id_text :: "inbox_config \<Rightarrow> inbox_message \<Rightarrow> string option" where
  "message_id_text cf m = Option.bind (im_metadata m) (arrow_text (ic_text cf) ''message_id'')"

text \<open>The index over the message ids: a text that is no \<open>uuid\<close>, or one that a row has, is refused.\<close>

definition message_id_refused :: "inbox_config \<Rightarrow> inbox_message \<Rightarrow> inbox_row list \<Rightarrow> string option" where
  "message_id_refused cf m rows =
    (case message_id_text cf m of
       None \<Rightarrow> None
     | Some text \<Rightarrow>
         (case ic_uuid cf text of
            None \<Rightarrow> Some ''invalid input syntax for type uuid''
          | Some u \<Rightarrow>
              if list_ex (\<lambda>r. Option.bind (message_id_text cf (ir_message r)) (ic_uuid cf) = Some u) rows
              then Some ''duplicate key value violates unique constraint'' else None))"

definition inserted_row :: "inbox_config \<Rightarrow> inbox_message \<Rightarrow> int \<Rightarrow> inbox_row" where
  "inserted_row cf m pos =
    \<lparr>ir_message = m\<lparr>im_received_position := Some pos, im_processed_position := None, im_attempts := 0,
       im_last_error := None, im_waiting_for := None\<rparr>,
     ir_next_attempt_at = None, ir_parked_at = None, ir_waiting_since = None, ir_processed_at = None,
     ir_slot = inbox_slot cf m\<rparr>"

datatype received =
    RStored inbox_row
  | RHeld "string option"

text \<open>The values are refused before the position is drawn; a repeat draws one and leaves it unused.\<close>

definition receive_row :: "inbox_config \<Rightarrow> inbox_message \<Rightarrow> int \<Rightarrow> inbox_row list \<Rightarrow> (inbox_error, received) result" where
  "receive_row cf m pos rows =
    (case ic_refuses cf m of
       Some e \<Rightarrow> Inl (IDatabase e False)
     | None \<Rightarrow>
         (case find (\<lambda>r. row_id r = id_of m) rows of
            Some r \<Rightarrow> Inr (RHeld (message_id_text cf (ir_message r)))
          | None \<Rightarrow>
              (case message_id_refused cf m rows of
                 Some e \<Rightarrow> Inl (IDatabase e False)
               | None \<Rightarrow> Inr (RStored (inserted_row cf m pos)))))"

subsection \<open>The cut of the table\<close>

definition check_cut :: "string \<Rightarrow> inbox_config \<Rightarrow> nat \<Rightarrow> string \<Rightarrow> (inbox_error, unit) result" where
  "check_cut table cf pinned_slots pinned_key =
    (if pinned_slots \<noteq> ic_slots cf \<or> pinned_key \<noteq> pk_sql (ic_key cf)
     then Inl (IMalformed (''table `'' @ table @ ''` is cut into '' @ show_nat pinned_slots @ '' slots by `'' @ pinned_key
       @ ''`, this inbox asks for '' @ show_nat (ic_slots cf) @ '' by `'' @ pk_sql (ic_key cf)
       @ ''`; both are fixed for the life of the table''))
     else Inr ())"

subsection \<open>Facts\<close>

lemma row_id_updates [simp]:
  "row_id (r\<lparr>ir_next_attempt_at := a\<rparr>) = row_id r" "row_id (r\<lparr>ir_parked_at := b\<rparr>) = row_id r"
  "row_id (r\<lparr>ir_waiting_since := c\<rparr>) = row_id r" "row_id (r\<lparr>ir_processed_at := c\<rparr>) = row_id r"
  by (simp_all add: row_id_def)

lemma waits_on_None [simp]: "waits_on r = None \<longleftrightarrow> im_waiting_for (ir_message r) = None"
  by (simp add: waits_on_def)

lemma waits_on_Some: "im_waiting_for (ir_message r) = Some d \<Longrightarrow> waits_on r = Some (canon_id d)"
  by (simp add: waits_on_def)

lemma waits_onE:
  assumes "waits_on r = Some i"
  obtains d where "im_waiting_for (ir_message r) = Some d" "i = canon_id d"
  using assms by (auto simp: waits_on_def)

lemma waits_on_updates [simp]:
  "waits_on (r\<lparr>ir_next_attempt_at := a\<rparr>) = waits_on r" "waits_on (r\<lparr>ir_parked_at := b\<rparr>) = waits_on r"
  "waits_on (r\<lparr>ir_waiting_since := c\<rparr>) = waits_on r" "waits_on (r\<lparr>ir_processed_at := c\<rparr>) = waits_on r"
  by (simp_all add: waits_on_def)

lemma with_message_fields [simp]:
  "ir_message (with_message f r) = f (ir_message r)" "ir_slot (with_message f r) = ir_slot r"
  "ir_parked_at (with_message f r) = ir_parked_at r" "ir_next_attempt_at (with_message f r) = ir_next_attempt_at r"
  "ir_waiting_since (with_message f r) = ir_waiting_since r" "ir_processed_at (with_message f r) = ir_processed_at r"
  by (simp_all add: with_message_def)

lemma with_message_id: "id_of (f (ir_message r)) = row_id r \<Longrightarrow> row_id (with_message f r) = row_id r"
  by (simp add: row_id_def)

lemma woken_row_fields [simp]:
  "row_id (woken_row r) = row_id r" "ir_slot (woken_row r) = ir_slot r" "ir_parked_at (woken_row r) = ir_parked_at r"
  "is_row_processed (woken_row r) = is_row_processed r" "im_waiting_for (ir_message (woken_row r)) = None"
  "dependency_on (ir_message (woken_row r)) = dependency_on (ir_message r)"
  "received_at (ir_message (woken_row r)) = received_at (ir_message r)"
  "im_last_error (ir_message (woken_row r)) = im_last_error (ir_message r)"
  "causal_dependencies p (ir_message (woken_row r)) = causal_dependencies p (ir_message r)"
  by (simp_all add: woken_row_def row_id_def is_row_processed_def received_at_def)

lemma marked_row_fields [simp]:
  "row_id (marked_row pos at r) = row_id r" "ir_slot (marked_row pos at r) = ir_slot r"
  "ir_parked_at (marked_row pos at r) = ir_parked_at r" "is_row_processed (marked_row pos at r)"
  "im_waiting_for (ir_message (marked_row pos at r)) = im_waiting_for (ir_message r)"
  "waits_on (marked_row pos at r) = waits_on r"
  "dependency_on (ir_message (marked_row pos at r)) = dependency_on (ir_message r)"
  "received_at (ir_message (marked_row pos at r)) = received_at (ir_message r)"
  "im_last_error (ir_message (marked_row pos at r)) = im_last_error (ir_message r)"
  "causal_dependencies p (ir_message (marked_row pos at r)) = causal_dependencies p (ir_message r)"
  by (simp_all add: marked_row_def row_id_def is_row_processed_def received_at_def waits_on_def)

lemma slot_is_of_the_table: "0 < ic_slots cf \<Longrightarrow> inbox_slot cf m < ic_slots cf"
  by (simp add: inbox_slot_def)

lemma length_apply_rows [simp]: "length (apply_rows ws rows) = length rows"
  by (simp add: apply_rows_def)

lemma apply_no_rows [simp]: "apply_rows [] rows = rows"
  by (simp add: apply_rows_def)

lemma row_id_apply [simp]: "map row_id (apply_rows ws rows) = map row_id rows"
  by (auto simp: apply_rows_def find_Some_iff split: option.splits)

lemma find_row:
  assumes "distinct (map row_id rows)" "r \<in> set rows"
  shows "find (\<lambda>x. row_id x = row_id r) rows = Some r"
  using assms by (induction rows) auto

lemma filter_row:
  assumes "distinct (map row_id rows)" "r \<in> set rows" "row_id r = i"
  shows "filter (\<lambda>x. row_id x = i) rows = [r]"
  using assms by (induction rows) (auto simp: filter_empty_conv, metis image_eqI)

lemma set_apply_rows:
  assumes "distinct (map row_id ws)" "row_id ` set ws \<subseteq> row_id ` set rows"
  shows "set (apply_rows ws rows) = set ws \<union> {r \<in> set rows. row_id r \<notin> row_id ` set ws}"
proof -
  let ?f = "\<lambda>r. case find (\<lambda>x. row_id x = row_id r) ws of Some x \<Rightarrow> x | None \<Rightarrow> r"
  have none: "?f r = r" if "row_id r \<notin> row_id ` set ws" for r
  proof -
    have "find (\<lambda>x. row_id x = row_id r) ws = None" using that unfolding find_None_iff by (metis image_eqI)
    then show ?thesis by simp
  qed
  have some: "?f r = x" if "x \<in> set ws" "row_id x = row_id r" for r x
    using find_row [OF assms(1) that(1)] that(2) by simp
  show ?thesis
  proof (intro set_eqI iffI)
    fix x assume "x \<in> set (apply_rows ws rows)"
    then obtain r where r: "r \<in> set rows" "x = ?f r" by (auto simp: apply_rows_def)
    show "x \<in> set ws \<union> {r \<in> set rows. row_id r \<notin> row_id ` set ws}"
    proof (cases "row_id r \<in> row_id ` set ws")
      case True
      then obtain y where "y \<in> set ws" "row_id y = row_id r" by auto
      then show ?thesis using some r(2) by simp
    next
      case False
      then show ?thesis using none r by simp
    qed
  next
    fix x assume "x \<in> set ws \<union> {r \<in> set rows. row_id r \<notin> row_id ` set ws}"
    then show "x \<in> set (apply_rows ws rows)"
    proof
      assume x: "x \<in> set ws"
      then obtain r where r: "r \<in> set rows" "row_id r = row_id x" using assms(2) by force
      have "?f r = x" by (rule some [OF x r(2) [symmetric]])
      then show ?thesis using r(1) unfolding apply_rows_def by (metis (no_types, lifting) image_eqI set_map)
    next
      assume x: "x \<in> {r \<in> set rows. row_id r \<notin> row_id ` set ws}"
      then have "?f x = x" using none by simp
      then show ?thesis using x unfolding apply_rows_def by (metis (no_types, lifting) image_eqI mem_Collect_eq set_map)
    qed
  qed
qed

lemma slot_headD:
  assumes "slot_head rows slot = Some r"
  shows "r \<in> set rows" "ir_slot r = slot" "in_queue r"
    "\<And>x. x \<in> set rows \<Longrightarrow> ir_slot x = slot \<Longrightarrow> in_queue x \<Longrightarrow> received_at (ir_message r) \<le> received_at (ir_message x)"
proof -
  let ?q = "filter (\<lambda>r. ir_slot r = slot \<and> in_queue r) rows"
  obtain rest where q: "sort_key (\<lambda>r. received_at (ir_message r)) ?q = r # rest"
    using assms by (auto simp: slot_head_def split: list.splits)
  have s: "set (r # rest) = set ?q" by (simp only: set_sort flip: q)
  show "r \<in> set rows" "ir_slot r = slot" "in_queue r" using s by auto
  have le: "\<forall>x\<in>set rest. received_at (ir_message r) \<le> received_at (ir_message x)"
    using sorted_sort_key [of "\<lambda>r. received_at (ir_message r)" ?q] unfolding q by simp
  fix x assume "x \<in> set rows" "ir_slot x = slot" "in_queue x"
  then have "x \<in> set (r # rest)" unfolding s by simp
  then show "received_at (ir_message r) \<le> received_at (ir_message x)" using le by auto
qed

lemma slot_head_None: "slot_head rows slot = None \<longleftrightarrow> (\<forall>r\<in>set rows. ir_slot r = slot \<longrightarrow> \<not> in_queue r)"
proof -
  let ?q = "filter (\<lambda>r. ir_slot r = slot \<and> in_queue r) rows"
  have "slot_head rows slot = None \<longleftrightarrow> set (sort_key (\<lambda>r. received_at (ir_message r)) ?q) = {}"
    by (auto simp: slot_head_def simp del: set_sort split: list.splits)
  then show ?thesis by auto
qed

lemma is_processed_iff: "is_processed rows d \<longleftrightarrow> (\<exists>r\<in>set rows. row_id r = d \<and> is_row_processed r)"
  by (auto simp: is_processed_def list_ex_iff)

lemma first_unprocessed_None: "first_unprocessed rows ds = None \<longleftrightarrow> (\<forall>d\<in>set ds. is_processed rows (canon_id d))"
  by (induction ds) auto

lemma first_unprocessed_Some: "first_unprocessed rows ds = Some d \<Longrightarrow> d \<in> set ds \<and> \<not> is_processed rows (canon_id d)"
  by (induction ds) (auto split: if_splits)


section \<open>A dispatch, from beginning to end\<close>

text \<open>
  \<open>crates/inbox/src/pg/dispatch.rs\<close> and \<open>publish\<close> of \<open>pg/store.rs\<close>, each transaction alone; the theory
  of the system interleaves them. The subscriber is a function of the message and of what subscribers
  have written before, and gives its own writes and how it ended. \<open>iw_done\<close> is no column: it is the
  messages marked, in the order of their marks, each with what its subscriber wrote, or nothing for a
  message resolved by hand; \<open>iw_forgotten\<close> is the rows the sweep deleted; \<open>iw_spelled\<close> is every identity
  as a message received or resolved spelled it, its own and those it depends on. Here \<open>unpark\<close> and \<open>resolve\<close>
  are transactions of their own; the code lets a caller run them inside a longer one. An error of the
  statement that expires waits is left out: it ends the dispatch before it took anything.
\<close>

datatype attempt = ASucceeded | AFailed failure | ABroken inbox_error

type_synonym 'w subscriber = "inbox_message \<Rightarrow> 'w list \<Rightarrow> 'w list \<times> attempt"

record 'w inbox_world =
  iw_rows :: "inbox_row list"
  iw_slots :: "(nat \<times> nat) list"
  iw_seq :: int
  iw_clock :: nat
  iw_data :: "'w list"
  iw_done :: "(inbox_message \<times> 'w list option) list"
  iw_forgotten :: "dependency list"
  iw_spelled :: "dependency list"

datatype inbox_outcome = INothing | ISetAside | IProcessed | IFailed int bool

definition inbox_world_new :: "nat \<Rightarrow> 'w inbox_world" where
  "inbox_world_new slots = \<lparr>iw_rows = [], iw_slots = map (\<lambda>s. (s, 0)) [0..<slots], iw_seq = 1, iw_clock = 0,
    iw_data = [], iw_done = [], iw_forgotten = [], iw_spelled = []\<rparr>"

definition spelled_ids :: "inbox_config \<Rightarrow> inbox_message \<Rightarrow> dependency list" where
  "spelled_ids cf m = dependency_on m # causal_dependencies (ic_parse cf) m"

definition inbox_publish :: "inbox_config \<Rightarrow> inbox_message \<Rightarrow> 'w inbox_world
    \<Rightarrow> (inbox_error, received) result \<times> 'w inbox_world" where
  "inbox_publish cf m w =
    (case receive_row cf m (iw_seq w) (iw_rows w) of
       Inl e \<Rightarrow> (Inl e, w)
     | Inr (RHeld holder) \<Rightarrow> (Inr (RHeld holder), w\<lparr>iw_seq := iw_seq w + 1\<rparr>)
     | Inr (RStored r) \<Rightarrow> (Inr (RStored r), w\<lparr>iw_seq := iw_seq w + 1, iw_rows := iw_rows w @ [r],
         iw_spelled := iw_spelled w @ spelled_ids cf m\<rparr>))"

definition expire :: "inbox_config \<Rightarrow> dependency list \<Rightarrow> 'w inbox_world \<Rightarrow> 'w inbox_world" where
  "expire cf locked w =
    (case ic_max_wait cf of
       None \<Rightarrow> w
     | Some max_wait \<Rightarrow> w\<lparr>iw_rows := apply_rows (fst (expire_waiting cf (iw_clock w) max_wait locked (iw_rows w))) (iw_rows w)\<rparr>)"

text \<open>
  The head of the slot, worked: its wait, its mark, or its failure. An error rolls back all but the
  sequence, which no transaction gives back.
\<close>

definition work_head :: "inbox_config \<Rightarrow> 'w subscriber \<Rightarrow> inbox_message \<Rightarrow> 'w inbox_world
    \<Rightarrow> (inbox_error, inbox_outcome) result \<times> 'w inbox_world" where
  "work_head cf subscriber m w =
    (case first_unprocessed (iw_rows w) (causal_dependencies (ic_parse cf) m) of
       Some d \<Rightarrow>
         (case set_waiting_unless_processed (iw_clock w) m d (iw_rows w) of
            [r] \<Rightarrow> (Inr ISetAside, w\<lparr>iw_rows := apply_rows [r] (iw_rows w)\<rparr>)
          | _ \<Rightarrow> (Inr INothing, w))
     | None \<Rightarrow>
         (case subscriber m (iw_data w) of
            (writes, ASucceeded) \<Rightarrow>
              (case mark_processed m (iw_seq w) (iw_clock w) (iw_rows w) of
                 Inl e \<Rightarrow> (Inl e, w)
               | Inr (written, woken) \<Rightarrow>
                   (Inr IProcessed, w\<lparr>iw_seq := iw_seq w + 1, iw_rows := apply_rows written (iw_rows w),
                      iw_data := iw_data w @ writes, iw_done := iw_done w @ [(m, Some writes)]\<rparr>))
          | (writes, AFailed f) \<Rightarrow>
              (case record_failure cf (iw_clock w) m f (ic_backoff cf (nat (im_attempts m + 1))) (iw_rows w) of
                 Inl e \<Rightarrow> (Inl e, w)
               | Inr (written, attempts, parked) \<Rightarrow>
                   (Inr (IFailed attempts parked), w\<lparr>iw_rows := apply_rows written (iw_rows w)\<rparr>))
          | (writes, ABroken e) \<Rightarrow> (Inl e, w)))"

text \<open>\<open>held\<close> are the slots other dispatchers hold. An error leaves the time of serving as it was.\<close>

definition inbox_dispatch :: "inbox_config \<Rightarrow> 'w subscriber \<Rightarrow> nat list \<Rightarrow> 'w inbox_world
    \<Rightarrow> (inbox_error, inbox_outcome) result \<times> 'w inbox_world" where
  "inbox_dispatch cf subscriber held w0 =
    (let w = expire cf [] w0 in
     case inbox_take (iw_clock w) held (iw_rows w) (iw_slots w) of
       (None, _) \<Rightarrow> (Inr INothing, w)
     | (Some slot, slots) \<Rightarrow>
         (let served = w\<lparr>iw_slots := slots\<rparr> in
          case head_of (iw_clock w) (iw_rows w) slot of
            Some (m, False) \<Rightarrow>
              (case work_head cf subscriber m served of
                 (Inl e, _) \<Rightarrow> (Inl e, w)
               | (Inr out, w') \<Rightarrow> (Inr out, w'))
          | _ \<Rightarrow> (Inr INothing, served)))"

definition parked_messages :: "'w inbox_world \<Rightarrow> inbox_message list" where
  "parked_messages w = parked_rows (iw_rows w)"

definition unpark :: "inbox_message \<Rightarrow> 'w inbox_world \<Rightarrow> bool \<times> 'w inbox_world" where
  "unpark m w =
    (let written = unpark_row m (iw_rows w) in
     (length written = 1, w\<lparr>iw_rows := apply_rows written (iw_rows w)\<rparr>))"

definition resolve :: "inbox_message \<Rightarrow> 'w inbox_world \<Rightarrow> bool \<times> 'w inbox_world" where
  "resolve m w =
    (case resolve_row m (iw_seq w) (iw_clock w) (iw_rows w) of
       None \<Rightarrow> (False, w\<lparr>iw_spelled := iw_spelled w @ [dependency_on m]\<rparr>)
     | Some (written, woken) \<Rightarrow>
         (True, w\<lparr>iw_spelled := iw_spelled w @ [dependency_on m], iw_seq := iw_seq w + 1, iw_rows := apply_rows written (iw_rows w), iw_done := iw_done w @ [(m, None)]\<rparr>))"

end
