(* ===== verification/Inbox_System.thy ===== *)
theory Inbox_System
  imports Inbox_Dispatch
begin

section \<open>The inbox at work\<close>

text \<open>
  Every transaction of \<open>pg/dispatch.rs\<close>, \<open>pg/store.rs\<close> and \<open>pg/sweep.rs\<close> as its statements, in the order
  the code makes them, interleaved with those of any number of others. A statement reads the committed
  rows (\<open>READ COMMITTED\<close>); what a transaction writes is seen by others when it commits. It may hold the row
  of one slot and one advisory lock, which is keyed by a hash of the text of an identity; both are let go
  when it ends. Two identities whose hashes meet share a lock, and one identity spelled in two ways has
  two. A statement that writes a row waits for another that has written it. Any transaction may be rolled
  back at any moment. An \<open>unpark\<close> is one committed step, and a \<open>resolve\<close> a transaction of its own; the code
  lets both run inside a longer transaction of the caller. The rows that \<open>take\<close> reads may be older than its lock, so they are any rows;
  so is what a subscriber sees of the writes of others.
\<close>

datatype 'w ending =
    ENothing
  | EWaits inbox_row dependency
  | EFails inbox_row
  | EMarks inbox_message "'w list option" "inbox_row list"
  | EInserts inbox_row

datatype 'w phase =
    Begun
  | Took
  | Checking inbox_message "dependency list"
  | Lacking inbox_message dependency
  | Waiting inbox_message dependency
  | Cleared inbox_message
  | Handled inbox_message "'w list"
  | Marking inbox_message "'w list"
  | Failing inbox_message failure
  | Resolving inbox_message
  | Ended "'w ending"

record 'w inbox_tx =
  tx_now :: nat
  tx_slot :: "nat option"
  tx_lock :: "32 word option"
  tx_phase :: "'w phase"

record 'w inbox_state =
  is_world :: "'w inbox_world"
  is_txs :: "nat \<Rightarrow> 'w inbox_tx option"

definition tx_begin :: "nat \<Rightarrow> 'w phase \<Rightarrow> 'w inbox_tx" where
  "tx_begin now p = \<lparr>tx_now = now, tx_slot = None, tx_lock = None, tx_phase = p\<rparr>"

definition put_tx :: "nat \<Rightarrow> 'w inbox_tx \<Rightarrow> 'w inbox_state \<Rightarrow> 'w inbox_state" where
  "put_tx t x s = s\<lparr>is_txs := (is_txs s)(t \<mapsto> x)\<rparr>"

abbreviation is_rows :: "'w inbox_state \<Rightarrow> inbox_row list" where
  "is_rows s \<equiv> iw_rows (is_world s)"

definition lock_free :: "'w inbox_state \<Rightarrow> 32 word \<Rightarrow> bool" where
  "lock_free s k \<longleftrightarrow> (\<forall>t x. is_txs s t = Some x \<longrightarrow> tx_lock x \<noteq> Some k)"

definition slot_free :: "'w inbox_state \<Rightarrow> nat \<Rightarrow> bool" where
  "slot_free s slot \<longleftrightarrow> (\<forall>t x. is_txs s t = Some x \<longrightarrow> tx_slot x \<noteq> Some slot)"

text \<open>What a transaction has written, and what it has inserted.\<close>

fun ending_rows :: "'w ending \<Rightarrow> inbox_row list" where
  "ending_rows (EWaits r d) = [r]"
| "ending_rows (EFails r) = [r]"
| "ending_rows (EMarks m w rs) = rs"
| "ending_rows e = []"

fun tx_rows :: "'w phase \<Rightarrow> inbox_row list" where
  "tx_rows (Ended e) = ending_rows e"
| "tx_rows p = []"

fun tx_inserted :: "'w phase \<Rightarrow> inbox_row option" where
  "tx_inserted (Ended (EInserts r)) = Some r"
| "tx_inserted p = None"

definition row_free :: "'w inbox_state \<Rightarrow> dependency \<Rightarrow> bool" where
  "row_free s i \<longleftrightarrow> (\<forall>t x. is_txs s t = Some x \<longrightarrow> i \<notin> row_id ` set (tx_rows (tx_phase x)))"

text \<open>An insertion waits for one that is open over the same identity, or the same message id.\<close>

definition insert_free :: "inbox_config \<Rightarrow> 'w inbox_state \<Rightarrow> inbox_row \<Rightarrow> bool" where
  "insert_free cf s r \<longleftrightarrow> (\<forall>t x r'. is_txs s t = Some x \<longrightarrow> tx_inserted (tx_phase x) = Some r' \<longrightarrow>
    row_id r' \<noteq> row_id r \<and> message_id_refused cf (ir_message r) [r'] = None)"

fun commit_ending :: "'w ending \<Rightarrow> 'w inbox_world \<Rightarrow> 'w inbox_world" where
  "commit_ending ENothing w = w"
| "commit_ending (EWaits r d) w = w\<lparr>iw_rows := apply_rows [r] (iw_rows w)\<rparr>"
| "commit_ending (EFails r) w = w\<lparr>iw_rows := apply_rows [r] (iw_rows w)\<rparr>"
| "commit_ending (EMarks m writes rs) w = w\<lparr>iw_rows := apply_rows rs (iw_rows w),
     iw_data := iw_data w @ (case writes of Some ws \<Rightarrow> ws | None \<Rightarrow> []), iw_done := iw_done w @ [(m, writes)]\<rparr>"
| "commit_ending (EInserts r) w = w\<lparr>iw_rows := iw_rows w @ [r]\<rparr>"

definition serve_slot :: "'w inbox_tx \<Rightarrow> 'w inbox_world \<Rightarrow> 'w inbox_world" where
  "serve_slot x w = (case tx_slot x of None \<Rightarrow> w | Some slot \<Rightarrow> w\<lparr>iw_slots := AList.update slot (tx_now x) (iw_slots w)\<rparr>)"

text \<open>The rows a statement of the sweep may delete.\<close>

definition forgettable :: "inbox_row list \<Rightarrow> inbox_row \<Rightarrow> bool" where
  "forgettable rows r \<longleftrightarrow> is_row_processed r \<and> list_all (\<lambda>w. waits_on w \<noteq> Some (row_id r)) rows"

inductive inbox_step :: "inbox_config \<Rightarrow> 'w subscriber \<Rightarrow> 'w inbox_state \<Rightarrow> 'w inbox_state \<Rightarrow> bool"
  for cf :: inbox_config and subscriber :: "'w subscriber" where
  clock: "iw_clock (is_world s) \<le> now \<Longrightarrow> inbox_step cf subscriber s (s\<lparr>is_world := (is_world s)\<lparr>iw_clock := now\<rparr>\<rparr>)"
| begins: "is_txs s t = None \<Longrightarrow> inbox_step cf subscriber s (put_tx t (tx_begin (iw_clock (is_world s)) Begun) s)"
| takes: "is_txs s t = Some x \<Longrightarrow> tx_phase x = Begun \<Longrightarrow> \<forall>slot. \<not> slot_free s slot \<longrightarrow> slot \<in> set held \<Longrightarrow>
    inbox_take (tx_now x) held rows (iw_slots (is_world s)) = (Some slot, slots) \<Longrightarrow>
    inbox_step cf subscriber s (put_tx t (x\<lparr>tx_slot := Some slot, tx_phase := Took\<rparr>) s)"
| takes_none: "is_txs s t = Some x \<Longrightarrow> tx_phase x = Begun \<Longrightarrow>
    inbox_take (tx_now x) held rows (iw_slots (is_world s)) = (None, slots) \<Longrightarrow>
    inbox_step cf subscriber s (put_tx t (x\<lparr>tx_phase := Ended ENothing\<rparr>) s)"
| reads: "is_txs s t = Some x \<Longrightarrow> tx_phase x = Took \<Longrightarrow> tx_slot x = Some slot \<Longrightarrow>
    head_of (tx_now x) (is_rows s) slot = Some (m, False) \<Longrightarrow>
    inbox_step cf subscriber s (put_tx t (x\<lparr>tx_phase := Checking m (causal_dependencies (ic_parse cf) m)\<rparr>) s)"
| reads_none: "is_txs s t = Some x \<Longrightarrow> tx_phase x = Took \<Longrightarrow> tx_slot x = Some slot \<Longrightarrow>
    \<forall>m. head_of (tx_now x) (is_rows s) slot \<noteq> Some (m, False) \<Longrightarrow>
    inbox_step cf subscriber s (put_tx t (x\<lparr>tx_phase := Ended ENothing\<rparr>) s)"
| finds: "is_txs s t = Some x \<Longrightarrow> tx_phase x = Checking m (d # ds) \<Longrightarrow> is_processed (is_rows s) (canon_id d) \<Longrightarrow>
    inbox_step cf subscriber s (put_tx t (x\<lparr>tx_phase := Checking m ds\<rparr>) s)"
| lacks: "is_txs s t = Some x \<Longrightarrow> tx_phase x = Checking m (d # ds) \<Longrightarrow> \<not> is_processed (is_rows s) (canon_id d) \<Longrightarrow>
    inbox_step cf subscriber s (put_tx t (x\<lparr>tx_phase := Lacking m d\<rparr>) s)"
| locks_wait: "is_txs s t = Some x \<Longrightarrow> tx_phase x = Lacking m d \<Longrightarrow> lock_free s (lock_key cf d) \<Longrightarrow>
    inbox_step cf subscriber s (put_tx t (x\<lparr>tx_lock := Some (lock_key cf d), tx_phase := Waiting m d\<rparr>) s)"
| waits: "is_txs s t = Some x \<Longrightarrow> tx_phase x = Waiting m d \<Longrightarrow>
    set_waiting_unless_processed (tx_now x) m d (is_rows s) = [r] \<Longrightarrow>
    inbox_step cf subscriber s (put_tx t (x\<lparr>tx_phase := Ended (EWaits r d)\<rparr>) s)"
| waits_no_more: "is_txs s t = Some x \<Longrightarrow> tx_phase x = Waiting m d \<Longrightarrow>
    set_waiting_unless_processed (tx_now x) m d (is_rows s) = [] \<Longrightarrow>
    inbox_step cf subscriber s (put_tx t (x\<lparr>tx_phase := Ended ENothing\<rparr>) s)"
| clears: "is_txs s t = Some x \<Longrightarrow> tx_phase x = Checking m [] \<Longrightarrow>
    inbox_step cf subscriber s (put_tx t (x\<lparr>tx_phase := Cleared m\<rparr>) s)"
| handles: "is_txs s t = Some x \<Longrightarrow> tx_phase x = Cleared m \<Longrightarrow> subscriber m seen = (writes, ASucceeded) \<Longrightarrow>
    inbox_step cf subscriber s (put_tx t (x\<lparr>tx_phase := Handled m writes\<rparr>) s)"
| fails: "is_txs s t = Some x \<Longrightarrow> tx_phase x = Cleared m \<Longrightarrow> subscriber m seen = (writes, AFailed f) \<Longrightarrow>
    inbox_step cf subscriber s (put_tx t (x\<lparr>tx_phase := Failing m f\<rparr>) s)"
| locks_mark: "is_txs s t = Some x \<Longrightarrow> tx_phase x = Handled m writes \<Longrightarrow> 1 < ic_slots cf \<Longrightarrow>
    lock_free s (lock_key cf (dependency_on m)) \<Longrightarrow>
    inbox_step cf subscriber s (put_tx t (x\<lparr>tx_lock := Some (lock_key cf (dependency_on m)), tx_phase := Marking m writes\<rparr>) s)"
| needs_no_lock: "is_txs s t = Some x \<Longrightarrow> tx_phase x = Handled m writes \<Longrightarrow> \<not> 1 < ic_slots cf \<Longrightarrow>
    inbox_step cf subscriber s (put_tx t (x\<lparr>tx_phase := Marking m writes\<rparr>) s)"
| marks: "is_txs s t = Some x \<Longrightarrow> tx_phase x = Marking m writes \<Longrightarrow>
    mark_processed m (iw_seq (is_world s)) (iw_clock (is_world s)) (is_rows s) = Inr (written, woken) \<Longrightarrow>
    inbox_step cf subscriber s (put_tx t (x\<lparr>tx_phase := Ended (EMarks m (Some writes) written)\<rparr>)
      (s\<lparr>is_world := (is_world s)\<lparr>iw_seq := iw_seq (is_world s) + 1\<rparr>\<rparr>))"
| records: "is_txs s t = Some x \<Longrightarrow> tx_phase x = Failing m f \<Longrightarrow>
    record_failure cf (tx_now x) m f (ic_backoff cf (nat (im_attempts m + 1))) (is_rows s) = Inr ([r], attempts, parked) \<Longrightarrow>
    inbox_step cf subscriber s (put_tx t (x\<lparr>tx_phase := Ended (EFails r)\<rparr>) s)"
| commits: "is_txs s t = Some x \<Longrightarrow> tx_phase x = Ended e \<Longrightarrow>
    inbox_step cf subscriber s \<lparr>is_world = serve_slot x (commit_ending e (is_world s)), is_txs = (is_txs s)(t := None)\<rparr>"
| aborts: "is_txs s t = Some x \<Longrightarrow> inbox_step cf subscriber s (s\<lparr>is_txs := (is_txs s)(t := None)\<rparr>)"
| expires: "ic_max_wait cf = Some max_wait \<Longrightarrow> \<forall>i. \<not> row_free s i \<longrightarrow> i \<in> set locked \<Longrightarrow>
    inbox_step cf subscriber s (s\<lparr>is_world := expire cf locked (is_world s)\<rparr>)"
| inserts: "is_txs s t = None \<Longrightarrow>
    receive_row cf m (iw_seq (is_world s)) (is_rows s) = Inr (RStored r) \<Longrightarrow> insert_free cf s r \<Longrightarrow>
    inbox_step cf subscriber s (put_tx t (tx_begin (iw_clock (is_world s)) (Ended (EInserts r)))
      (s\<lparr>is_world := (is_world s)\<lparr>iw_seq := iw_seq (is_world s) + 1, iw_spelled := iw_spelled (is_world s) @ spelled_ids cf m\<rparr>\<rparr>))"
| draws: "inbox_step cf subscriber s (s\<lparr>is_world := (is_world s)\<lparr>iw_seq := iw_seq (is_world s) + 1\<rparr>\<rparr>)"
| unparks: "row_free s (id_of m) \<Longrightarrow>
    inbox_step cf subscriber s (s\<lparr>is_world := snd (unpark m (is_world s))\<rparr>)"
| locks_resolve: "is_txs s t = None \<Longrightarrow> lock_free s (lock_key cf (dependency_on m)) \<Longrightarrow>
    inbox_step cf subscriber s (put_tx t ((tx_begin (iw_clock (is_world s)) (Resolving m))\<lparr>tx_lock := Some (lock_key cf (dependency_on m))\<rparr>)
      (s\<lparr>is_world := (is_world s)\<lparr>iw_spelled := iw_spelled (is_world s) @ [dependency_on m]\<rparr>\<rparr>))"
| resolves: "is_txs s t = Some x \<Longrightarrow> tx_phase x = Resolving m \<Longrightarrow> row_free s (id_of m) \<Longrightarrow>
    resolve_row m (iw_seq (is_world s)) (iw_clock (is_world s)) (is_rows s) = Some (written, woken) \<Longrightarrow>
    inbox_step cf subscriber s (put_tx t (x\<lparr>tx_phase := Ended (EMarks m None written)\<rparr>)
      (s\<lparr>is_world := (is_world s)\<lparr>iw_seq := iw_seq (is_world s) + 1\<rparr>\<rparr>))"
| resolves_none: "is_txs s t = Some x \<Longrightarrow> tx_phase x = Resolving m \<Longrightarrow>
    resolve_row m (iw_seq (is_world s)) (iw_clock (is_world s)) (is_rows s) = None \<Longrightarrow>
    inbox_step cf subscriber s (put_tx t (x\<lparr>tx_phase := Ended ENothing\<rparr>) s)"
| sweeps: "\<forall>r\<in>set gone. forgettable (is_rows s) r \<Longrightarrow>
    inbox_step cf subscriber s (s\<lparr>is_world := (is_world s)
      \<lparr>iw_rows := filter (\<lambda>r. r \<notin> set gone) (is_rows s),
       iw_forgotten := iw_forgotten (is_world s) @ map row_id (filter (\<lambda>r. r \<in> set gone) (is_rows s))\<rparr>\<rparr>)"

inductive inbox_steps :: "inbox_config \<Rightarrow> 'w subscriber \<Rightarrow> 'w inbox_state \<Rightarrow> 'w inbox_state \<Rightarrow> bool"
  for cf :: inbox_config and subscriber :: "'w subscriber" where
  none: "inbox_steps cf subscriber s s"
| more: "inbox_steps cf subscriber s s' \<Longrightarrow> inbox_step cf subscriber s' s'' \<Longrightarrow> inbox_steps cf subscriber s s''"

definition inbox_start :: "inbox_config \<Rightarrow> 'w inbox_state" where
  "inbox_start cf = \<lparr>is_world = inbox_world_new (ic_slots cf), is_txs = (\<lambda>t. None)\<rparr>"

end
