(* ===== verification/Inbox_Invariant.thy ===== *)
theory Inbox_Invariant
  imports Inbox_System
begin

section \<open>The invariant of the inbox\<close>

text \<open>
  What holds of the rows and of every open transaction whatever the order of their statements: the
  identities are unique, every identity was marked as often as it was forgotten and once more if its row is
  processed, and each transaction still has the row it works on. That no row waits for a processed one
  takes the locks, and is in a theory of its own.
\<close>

definition done_ids :: "'w inbox_world \<Rightarrow> dependency list" where
  "done_ids w = map (\<lambda>e. id_of (fst e)) (iw_done w)"

definition done_in_order :: "inbox_config \<Rightarrow> (inbox_message \<times> 'w list option) list \<Rightarrow> bool" where
  "done_in_order cf done \<longleftrightarrow> (\<forall>before m writes rest. done = before @ (m, Some writes) # rest \<longrightarrow>
    canon_id ` set (causal_dependencies (ic_parse cf) m) \<subseteq> (\<lambda>e. id_of (fst e)) ` set before)"

definition row_ok :: "inbox_config \<Rightarrow> inbox_row \<Rightarrow> bool" where
  "row_ok cf r \<longleftrightarrow> (is_row_processed r \<longrightarrow> ir_parked_at r = None \<and> im_waiting_for (ir_message r) = None)
    \<and> (ir_parked_at r \<noteq> None \<longrightarrow> im_waiting_for (ir_message r) = None \<and> im_last_error (ir_message r) \<noteq> None)
    \<and> (\<forall>d. im_waiting_for (ir_message r) = Some d \<longrightarrow> d \<in> set (causal_dependencies (ic_parse cf) (ir_message r)))
    \<and> ir_slot r < ic_slots cf"

definition written_data :: "(inbox_message \<times> 'w list option) list \<Rightarrow> 'w list" where
  "written_data done = concat (map (\<lambda>e. case snd e of Some ws \<Rightarrow> ws | None \<Rightarrow> []) done)"

definition none_waits_for_processed :: "inbox_row list \<Rightarrow> bool" where
  "none_waits_for_processed rows \<longleftrightarrow> (\<forall>r\<in>set rows. \<forall>i. waits_on r = Some i \<longrightarrow> \<not> is_processed rows i)"

definition inbox_world_ok :: "inbox_config \<Rightarrow> 'w inbox_world \<Rightarrow> bool" where
  "inbox_world_ok cf w \<longleftrightarrow> distinct (map row_id (iw_rows w)) \<and> (\<forall>r\<in>set (iw_rows w). row_ok cf r)
    \<and> (\<forall>i. count_list (done_ids w) i = count_list (iw_forgotten w) i + (if is_processed (iw_rows w) i then 1 else 0))
    \<and> done_in_order cf (iw_done w) \<and> iw_data w = written_data (iw_done w)
    \<and> fst ` set (iw_slots w) \<subseteq> {..<ic_slots cf}"

subsection \<open>Transactions\<close>

definition holds_head :: "'w inbox_world \<Rightarrow> 'w inbox_tx \<Rightarrow> inbox_message \<Rightarrow> bool" where
  "holds_head w x m \<longleftrightarrow> (\<exists>r\<in>set (iw_rows w). ir_message r = m \<and> tx_slot x = Some (ir_slot r) \<and> in_queue r)"

definition deps_done :: "inbox_config \<Rightarrow> 'w inbox_world \<Rightarrow> inbox_message \<Rightarrow> bool" where
  "deps_done cf w m \<longleftrightarrow> canon_id ` set (causal_dependencies (ic_parse cf) m) \<subseteq> set (done_ids w)"

text \<open>A mark has the lock of its identity as its message spells it, or the only slot.\<close>

definition guards :: "inbox_config \<Rightarrow> 'w inbox_tx \<Rightarrow> dependency \<Rightarrow> bool" where
  "guards cf x d \<longleftrightarrow> tx_lock x = Some (lock_key cf d) \<or> (\<not> 1 < ic_slots cf \<and> tx_slot x \<noteq> None)"

definition rewrites_head :: "'w inbox_world \<Rightarrow> 'w inbox_tx \<Rightarrow> inbox_row \<Rightarrow> bool" where
  "rewrites_head w x r \<longleftrightarrow> (\<exists>r0\<in>set (iw_rows w). row_id r0 = row_id r \<and> in_queue r0
    \<and> tx_slot x = Some (ir_slot r0) \<and> ir_slot r = ir_slot r0 \<and> \<not> is_row_processed r)"

text \<open>Every row that a mark wakes waited for its identity; whether it wakes every such row is said later.\<close>

definition marks_row :: "'w inbox_world \<Rightarrow> 'w inbox_tx \<Rightarrow> inbox_message \<Rightarrow> 'w list option \<Rightarrow> inbox_row list \<Rightarrow> bool" where
  "marks_row w x m writes rs \<longleftrightarrow> (\<exists>r0\<in>set (iw_rows w). \<exists>r1 us. rs = r1 # map woken_row us
    \<and> set us \<subseteq> {q \<in> set (iw_rows w). waits_on q = Some (id_of m)} \<and> distinct (map row_id us)
    \<and> row_id r0 = id_of m \<and> \<not> is_row_processed r0 \<and> im_waiting_for (ir_message r0) = None
    \<and> row_id r1 = id_of m \<and> is_row_processed r1 \<and> ir_parked_at r1 = None
    \<and> im_waiting_for (ir_message r1) = None \<and> ir_slot r1 = ir_slot r0
    \<and> (case writes of Some ws \<Rightarrow> in_queue r0 \<and> tx_slot x = Some (ir_slot r0) | None \<Rightarrow> ir_parked_at r0 \<noteq> None))"

fun ending_ok :: "inbox_config \<Rightarrow> 'w inbox_world \<Rightarrow> 'w inbox_tx \<Rightarrow> 'w ending \<Rightarrow> bool" where
  "ending_ok cf w x ENothing \<longleftrightarrow> True"
| "ending_ok cf w x (EWaits r d) \<longleftrightarrow> rewrites_head w x r \<and> ir_parked_at r = None
    \<and> im_waiting_for (ir_message r) = Some d \<and> d \<in> set (causal_dependencies (ic_parse cf) (ir_message r))
    \<and> tx_lock x = Some (lock_key cf d)"
| "ending_ok cf w x (EFails r) \<longleftrightarrow> rewrites_head w x r \<and> im_waiting_for (ir_message r) = None
    \<and> im_last_error (ir_message r) \<noteq> None"
| "ending_ok cf w x (EMarks m writes rs) \<longleftrightarrow> marks_row w x m writes rs \<and> guards cf x (dependency_on m)
    \<and> (writes \<noteq> None \<longrightarrow> deps_done cf w m)"
| "ending_ok cf w x (EInserts r) \<longleftrightarrow> row_id r \<notin> row_id ` set (iw_rows w) \<and> in_queue r \<and> ir_slot r < ic_slots cf"

fun phase_ok :: "inbox_config \<Rightarrow> 'w inbox_world \<Rightarrow> 'w inbox_tx \<Rightarrow> 'w phase \<Rightarrow> bool" where
  "phase_ok cf w x Begun \<longleftrightarrow> True"
| "phase_ok cf w x Took \<longleftrightarrow> True"
| "phase_ok cf w x (Checking m ds) \<longleftrightarrow> holds_head w x m \<and>
    canon_id ` set (causal_dependencies (ic_parse cf) m) \<subseteq> canon_id ` set ds \<union> set (done_ids w) \<and>
    set ds \<subseteq> set (causal_dependencies (ic_parse cf) m)"
| "phase_ok cf w x (Lacking m d) \<longleftrightarrow> holds_head w x m \<and> d \<in> set (causal_dependencies (ic_parse cf) m)"
| "phase_ok cf w x (Waiting m d) \<longleftrightarrow> holds_head w x m \<and> d \<in> set (causal_dependencies (ic_parse cf) m) \<and> tx_lock x = Some (lock_key cf d)"
| "phase_ok cf w x (Cleared m) \<longleftrightarrow> holds_head w x m \<and> deps_done cf w m"
| "phase_ok cf w x (Handled m writes) \<longleftrightarrow> holds_head w x m \<and> deps_done cf w m"
| "phase_ok cf w x (Marking m writes) \<longleftrightarrow> holds_head w x m \<and> deps_done cf w m \<and> guards cf x (dependency_on m)"
| "phase_ok cf w x (Failing m f) \<longleftrightarrow> holds_head w x m"
| "phase_ok cf w x (Resolving m) \<longleftrightarrow> tx_lock x = Some (lock_key cf (dependency_on m))"
| "phase_ok cf w x (Ended e) \<longleftrightarrow> ending_ok cf w x e"

definition tx_ok :: "inbox_config \<Rightarrow> 'w inbox_world \<Rightarrow> 'w inbox_tx \<Rightarrow> bool" where
  "tx_ok cf w x \<longleftrightarrow> phase_ok cf w x (tx_phase x) \<and> (\<forall>slot. tx_slot x = Some slot \<longrightarrow> slot < ic_slots cf)"

text \<open>Two open transactions have no slot, no lock, no insertion and no resolved row in common.\<close>

fun tx_resolved :: "'w phase \<Rightarrow> dependency option" where
  "tx_resolved (Ended (EMarks m None rs)) = Some (id_of m)"
| "tx_resolved p = None"


definition apart :: "'w inbox_tx \<Rightarrow> 'w inbox_tx \<Rightarrow> bool" where
  "apart x y \<longleftrightarrow> (tx_slot x = tx_slot y \<longrightarrow> tx_slot x = None) \<and> (tx_lock x = tx_lock y \<longrightarrow> tx_lock x = None)
    \<and> (tx_resolved (tx_phase x) = tx_resolved (tx_phase y) \<longrightarrow> tx_resolved (tx_phase x) = None)
    \<and> (\<forall>r r'. tx_inserted (tx_phase x) = Some r \<longrightarrow> tx_inserted (tx_phase y) = Some r' \<longrightarrow> row_id r \<noteq> row_id r')"

definition inbox_ok :: "inbox_config \<Rightarrow> 'w inbox_state \<Rightarrow> bool" where
  "inbox_ok cf s \<longleftrightarrow> inbox_world_ok cf (is_world s)
    \<and> (\<forall>t x. is_txs s t = Some x \<longrightarrow> tx_ok cf (is_world s) x)
    \<and> (\<forall>t u x y. t \<noteq> u \<longrightarrow> is_txs s t = Some x \<longrightarrow> is_txs s u = Some y \<longrightarrow> apart x y)"

lemma tx_resolvedE:
  assumes "tx_resolved p = Some i"
  obtains m rs where "p = Ended (EMarks m None rs)" "id_of m = i"
  using assms by (induction p rule: tx_resolved.induct) auto

lemma apart_sym: "apart x y \<Longrightarrow> apart y x"
  by (auto simp: apart_def)

lemma inbox_okD:
  assumes "inbox_ok cf s"
  shows "inbox_world_ok cf (is_world s)" "is_txs s t = Some x \<Longrightarrow> tx_ok cf (is_world s) x"
    "t \<noteq> u \<Longrightarrow> is_txs s t = Some x \<Longrightarrow> is_txs s u = Some y \<Longrightarrow> apart x y"
  using assms unfolding inbox_ok_def by blast+

lemma inbox_world_okD:
  assumes "inbox_world_ok cf w"
  shows "distinct (map row_id (iw_rows w))" "r \<in> set (iw_rows w) \<Longrightarrow> row_ok cf r"
    "count_list (done_ids w) i = count_list (iw_forgotten w) i + (if is_processed (iw_rows w) i then 1 else 0)"
    "done_in_order cf (iw_done w)" "iw_data w = written_data (iw_done w)" "fst ` set (iw_slots w) \<subseteq> {..<ic_slots cf}"
  using assms unfolding inbox_world_ok_def by blast+

lemma same_row:
  assumes "distinct (map row_id rows)" "r \<in> set rows" "r' \<in> set rows" "row_id r = row_id r'"
  shows "r = r'"
  using assms by (auto simp: distinct_map inj_on_def)

text \<open>What is known of a processed identity is that it was marked.\<close>

lemma processed_is_done:
  assumes "inbox_world_ok cf w" "is_processed (iw_rows w) d"
  shows "d \<in> set (done_ids w)"
  using inbox_world_okD(3) [OF assms(1), of d] assms(2) count_notin [of d "done_ids w"] by fastforce

subsection \<open>Steps that leave the rows alone\<close>

lemma tx_ok_world:
  assumes "iw_rows w' = iw_rows w" "iw_done w' = iw_done w"
  shows "tx_ok cf w' x = tx_ok cf w x"
proof -
  have "ending_ok cf w' x e = ending_ok cf w x e" for e
    using assms by (cases e) (simp_all add: rewrites_head_def marks_row_def deps_done_def done_ids_def)
  then have "phase_ok cf w' x p = phase_ok cf w x p" for p
    using assms by (cases p) (simp_all add: holds_head_def deps_done_def done_ids_def)
  then show ?thesis by (simp add: tx_ok_def)
qed

lemma world_ok_world:
  assumes "iw_rows w' = iw_rows w" "iw_done w' = iw_done w" "iw_data w' = iw_data w"
    "iw_forgotten w' = iw_forgotten w" "fst ` set (iw_slots w') \<subseteq> fst ` set (iw_slots w) \<union> {..<ic_slots cf}"
    "inbox_world_ok cf w"
  shows "inbox_world_ok cf w'"
proof -
  have "fst ` set (iw_slots w') \<subseteq> {..<ic_slots cf}"
    using assms(5) inbox_world_okD(6) [OF assms(6)] by blast
  then show ?thesis using assms unfolding inbox_world_ok_def done_ids_def by simp
qed

lemma inbox_ok_world:
  assumes ok: "inbox_ok cf s" and same: "iw_rows w' = iw_rows (is_world s)" "iw_done w' = iw_done (is_world s)"
    "iw_data w' = iw_data (is_world s)" "iw_forgotten w' = iw_forgotten (is_world s)" "iw_slots w' = iw_slots (is_world s)"
  shows "inbox_ok cf (s\<lparr>is_world := w'\<rparr>)"
  using ok world_ok_world [OF same(1-4) _ inbox_okD(1) [OF ok]] same(5)
  unfolding inbox_ok_def by (simp add: tx_ok_world [OF same(1,2)])

lemma inbox_ok_put:
  assumes ok: "inbox_ok cf s" and "tx_ok cf (is_world s) x"
    and "\<And>u y. u \<noteq> t \<Longrightarrow> is_txs s u = Some y \<Longrightarrow> apart x y"
  shows "inbox_ok cf (put_tx t x s)"
proof -
  have sym: "apart y x" if "u \<noteq> t" "is_txs s u = Some y" for u y
    by (rule apart_sym [OF assms(3) [OF that]])
  show ?thesis
    unfolding inbox_ok_def put_tx_def
  proof (intro conjI allI impI)
    fix u v y z
    assume u: "u \<noteq> v" "is_txs (s\<lparr>is_txs := (is_txs s)(t \<mapsto> x)\<rparr>) u = Some y"
      "is_txs (s\<lparr>is_txs := (is_txs s)(t \<mapsto> x)\<rparr>) v = Some z"
    show "apart y z"
    proof (cases "u = t")
      case True
      then show ?thesis using u assms(3) [of v z] by simp
    next
      case False
      then show ?thesis using u sym [of u y] inbox_okD(3) [OF ok, of u v y z] by (cases "v = t") simp_all
    qed
  qed (use inbox_okD [OF ok] assms(2) in \<open>auto split: if_splits\<close>)
qed

lemma inbox_ok_move:
  assumes ok: "inbox_ok cf s" and x: "is_txs s t = Some x"
    and "tx_slot x' = tx_slot x" "tx_lock x' = tx_lock x" "tx_inserted (tx_phase x') = None"
    "tx_resolved (tx_phase x') = None" and "phase_ok cf (is_world s) x' (tx_phase x')"
  shows "inbox_ok cf (put_tx t x' s)"
proof (rule inbox_ok_put [OF ok])
  show "tx_ok cf (is_world s) x'"
    using assms inbox_okD(2) [OF ok x] by (simp add: tx_ok_def)
  show "apart x' y" if "u \<noteq> t" "is_txs s u = Some y" for u y
    using assms inbox_okD(3) [OF ok, of t u x y] that by (auto simp: apart_def)
qed

lemma inbox_ok_abort: "inbox_ok cf s \<Longrightarrow> inbox_ok cf (s\<lparr>is_txs := (is_txs s)(t := None)\<rparr>)"
  unfolding inbox_ok_def by auto

subsection \<open>What a change of the rows must leave to the others\<close>

lemma marks_rowE:
  assumes "marks_row w x m writes rs"
  obtains r0 r1 us where "r0 \<in> set (iw_rows w)" "rs = r1 # map woken_row us"
    "set us \<subseteq> {q \<in> set (iw_rows w). waits_on q = Some (id_of m)}" "distinct (map row_id us)"
    "row_id r0 = id_of m" "\<not> is_row_processed r0" "im_waiting_for (ir_message r0) = None"
    "row_id r1 = id_of m" "is_row_processed r1" "ir_parked_at r1 = None"
    "im_waiting_for (ir_message r1) = None" "ir_slot r1 = ir_slot r0"
    "case writes of Some ws \<Rightarrow> in_queue r0 \<and> tx_slot x = Some (ir_slot r0) | None \<Rightarrow> ir_parked_at r0 \<noteq> None"
  using assms unfolding marks_row_def by blast

lemma tx_ok_keeps:
  assumes ok: "tx_ok cf w x"
    and heads: "\<And>r. r \<in> set (iw_rows w) \<Longrightarrow> in_queue r \<Longrightarrow> tx_slot x = Some (ir_slot r) \<Longrightarrow> r \<in> set (iw_rows w')"
    and dn: "set (done_ids w) \<subseteq> set (done_ids w')"
    and marks: "\<And>m ws rs r. tx_phase x = Ended (EMarks m ws rs) \<Longrightarrow> r \<in> set (iw_rows w) \<Longrightarrow>
      waits_on r = Some (id_of m) \<Longrightarrow> row_id r \<in> row_id ` set rs \<Longrightarrow> r \<in> set (iw_rows w')"
    and parked: "\<And>m rs r. tx_phase x = Ended (EMarks m None rs) \<Longrightarrow> r \<in> set (iw_rows w) \<Longrightarrow>
      row_id r = id_of m \<Longrightarrow> ir_parked_at r \<noteq> None \<Longrightarrow> r \<in> set (iw_rows w')"
    and inserts: "\<And>r. tx_phase x = Ended (EInserts r) \<Longrightarrow> row_id r \<notin> row_id ` set (iw_rows w) \<Longrightarrow> row_id r \<notin> row_id ` set (iw_rows w')"
  shows "tx_ok cf w' x"
proof -
  have head: "holds_head w x m \<Longrightarrow> holds_head w' x m" for m
    unfolding holds_head_def using heads by blast
  have deps: "deps_done cf w m \<Longrightarrow> deps_done cf w' m" for m
    unfolding deps_done_def using dn by blast
  have rewr: "rewrites_head w x r \<Longrightarrow> rewrites_head w' x r" for r
    unfolding rewrites_head_def using heads by metis
  have mark: "marks_row w' x m ws rs"
    if ended: "tx_phase x = Ended (EMarks m ws rs)" and old: "marks_row w x m ws rs" for m ws rs
  proof -
    obtain r0 r1 us where r: "r0 \<in> set (iw_rows w)" "rs = r1 # map woken_row us"
      "set us \<subseteq> {q \<in> set (iw_rows w). waits_on q = Some (id_of m)}" "distinct (map row_id us)"
      "row_id r0 = id_of m" "\<not> is_row_processed r0" "im_waiting_for (ir_message r0) = None"
      "row_id r1 = id_of m" "is_row_processed r1" "ir_parked_at r1 = None"
      "im_waiting_for (ir_message r1) = None" "ir_slot r1 = ir_slot r0"
      "case ws of Some v \<Rightarrow> in_queue r0 \<and> tx_slot x = Some (ir_slot r0) | None \<Rightarrow> ir_parked_at r0 \<noteq> None"
      by (rule marks_rowE [OF old])
    have "r0 \<in> set (iw_rows w')"
    proof (cases ws)
      case None
      then show ?thesis using parked [of m rs r0] ended r(1,5,13) by simp
    next
      case (Some v)
      then show ?thesis using heads [OF r(1)] r(13) by simp
    qed
    moreover have "set us \<subseteq> {q \<in> set (iw_rows w'). waits_on q = Some (id_of m)}"
      using r(3) marks [OF ended] by (fastforce simp: r(2) image_iff)
    ultimately show ?thesis
      unfolding marks_row_def using r by (intro bexI [of _ r0] exI [of _ r1] exI [of _ us]) simp_all
  qed
  show ?thesis
  proof (cases "tx_phase x")
    case (Ended e)
    have "ending_ok cf w' x e"
    proof (cases e)
      case (EMarks m ws rs)
      then show ?thesis using ok Ended mark deps by (auto simp: tx_ok_def)
    next
      case (EInserts r)
      then show ?thesis using ok Ended inserts by (auto simp: tx_ok_def)
    qed (use ok Ended rewr in \<open>auto simp: tx_ok_def\<close>)
    then show ?thesis using ok Ended by (simp add: tx_ok_def)
  next
    case (Checking m ds)
    then show ?thesis using ok head dn by (auto simp: tx_ok_def)
  qed (use ok head deps in \<open>auto simp: tx_ok_def\<close>)
qed

end
