(* ===== verification/Inbox_Commit.thy ===== *)
theory Inbox_Commit
  imports Inbox_Invariant
begin

section \<open>Commits keep the invariant\<close>

text \<open>
  What the commit of each kind of transaction does to the invariant of \<open>Inbox_Invariant\<close>: the table keeps it,
  and so does every transaction still open.
\<close>

lemma row_okD:
  assumes "row_ok cf r"
  shows "is_row_processed r \<Longrightarrow> ir_parked_at r = None" "is_row_processed r \<Longrightarrow> im_waiting_for (ir_message r) = None"
    "ir_parked_at r \<noteq> None \<Longrightarrow> im_waiting_for (ir_message r) = None" "ir_slot r < ic_slots cf"
    "ir_parked_at r \<noteq> None \<Longrightarrow> im_last_error (ir_message r) \<noteq> None"
    "im_waiting_for (ir_message r) = Some d \<Longrightarrow> d \<in> set (causal_dependencies (ic_parse cf) (ir_message r))"
  using assms by (auto simp: row_ok_def)

lemma is_row_processed_updates [simp]:
  "is_row_processed (r\<lparr>ir_next_attempt_at := a\<rparr>) = is_row_processed r" "is_row_processed (r\<lparr>ir_parked_at := b\<rparr>) = is_row_processed r"
  "is_row_processed (r\<lparr>ir_waiting_since := c\<rparr>) = is_row_processed r" "is_row_processed (r\<lparr>ir_processed_at := c\<rparr>) = is_row_processed r"
  by (simp_all add: is_row_processed_def)

lemma inbox_world_okI:
  assumes "distinct (map row_id (iw_rows w))" "\<And>r. r \<in> set (iw_rows w) \<Longrightarrow> row_ok cf r"
    "\<And>i. count_list (done_ids w) i = count_list (iw_forgotten w) i + (if is_processed (iw_rows w) i then 1 else 0)"
    "done_in_order cf (iw_done w)" "iw_data w = written_data (iw_done w)" "fst ` set (iw_slots w) \<subseteq> {..<ic_slots cf}"
  shows "inbox_world_ok cf w"
  using assms unfolding inbox_world_ok_def by blast

subsection \<open>The head rewritten\<close>

lemma set_apply_one:
  assumes "r0 \<in> set rows" "row_id r0 = row_id r"
  shows "set (apply_rows [r] rows) = insert r {q \<in> set rows. row_id q \<noteq> row_id r}"
proof -
  have "row_id r \<in> row_id ` set rows" using assms by (metis image_eqI)
  then have "row_id ` set [r] \<subseteq> row_id ` set rows" by simp
  then have "set (apply_rows [r] rows) = set [r] \<union> {q \<in> set rows. row_id q \<notin> row_id ` set [r]}"
    by (intro set_apply_rows) simp_all
  then show ?thesis by auto
qed

lemma rewritten_processed:
  assumes "inbox_world_ok cf w" "rewrites_head w x r"
  shows "is_processed (apply_rows [r] (iw_rows w)) i = is_processed (iw_rows w) i"
proof -
  obtain r0 where r0: "r0 \<in> set (iw_rows w)" "row_id r0 = row_id r" "in_queue r0" "\<not> is_row_processed r"
    using assms(2) unfolding rewrites_head_def by blast
  have not: "\<not> is_row_processed q" if "q \<in> set (iw_rows w)" "row_id q = row_id r" for q
    using same_row [OF inbox_world_okD(1) [OF assms(1)] that(1) r0(1)] that(2) r0(2,3) by (simp add: in_queue_def)
  show ?thesis
    unfolding is_processed_iff set_apply_one [OF r0(1,2)] using not r0(4) by blast
qed

lemma rewrite_inbox_world_ok:
  assumes ok: "inbox_world_ok cf w" and rw: "rewrites_head w x r"
    and r: "ir_parked_at r \<noteq> None \<longrightarrow> im_waiting_for (ir_message r) = None \<and> im_last_error (ir_message r) \<noteq> None"
    and waits: "\<And>d. im_waiting_for (ir_message r) = Some d \<Longrightarrow> d \<in> set (causal_dependencies (ic_parse cf) (ir_message r))"
  shows "inbox_world_ok cf (w\<lparr>iw_rows := apply_rows [r] (iw_rows w)\<rparr>)"
proof -
  obtain r0 where r0: "r0 \<in> set (iw_rows w)" "row_id r0 = row_id r" "ir_slot r = ir_slot r0" "\<not> is_row_processed r"
    using rw unfolding rewrites_head_def by blast
  note rows = set_apply_one [OF r0(1,2)] and processed = rewritten_processed [OF ok rw]
  have r_ok: "row_ok cf r" using r0 r waits inbox_world_okD(2) [OF ok r0(1)] by (simp add: row_ok_def)
  show ?thesis
  proof (rule inbox_world_okI)
    show "row_ok cf q" if "q \<in> set (iw_rows (w\<lparr>iw_rows := apply_rows [r] (iw_rows w)\<rparr>))" for q
      using that r_ok inbox_world_okD(2) [OF ok] by (auto simp: rows)
  qed (use inbox_world_okD [OF ok] in \<open>simp_all add: processed done_ids_def\<close>)
qed

lemma rewrite_others_ok:
  assumes ok: "inbox_world_ok cf w" and rw: "rewrites_head w x r" and y: "tx_ok cf w y" and apart: "apart x y"
  shows "tx_ok cf (w\<lparr>iw_rows := apply_rows [r] (iw_rows w)\<rparr>) y"
proof (rule tx_ok_keeps [OF y])
  obtain r0 where r0: "r0 \<in> set (iw_rows w)" "row_id r0 = row_id r" "in_queue r0" "tx_slot x = Some (ir_slot r0)"
    using rw unfolding rewrites_head_def by blast
  note rows = set_apply_one [OF r0(1,2)]
  have same: "q = r0" if "q \<in> set (iw_rows w)" "row_id q = row_id r" for q
    using same_row [OF inbox_world_okD(1) [OF ok] that(1) r0(1)] that(2) r0(2) by simp
  show "q \<in> set (iw_rows (w\<lparr>iw_rows := apply_rows [r] (iw_rows w)\<rparr>))"
    if "q \<in> set (iw_rows w)" "in_queue q" "tx_slot y = Some (ir_slot q)" for q
    using that same [of q] r0(4) apart by (auto simp: rows apart_def)
  show "q \<in> set (iw_rows (w\<lparr>iw_rows := apply_rows [r] (iw_rows w)\<rparr>))"
    if "q \<in> set (iw_rows w)" "waits_on q = Some (id_of m)" for m q
    using that same [of q] r0(3) by (auto simp: rows in_queue_def waits_on_def)
  show "q \<in> set (iw_rows (w\<lparr>iw_rows := apply_rows [r] (iw_rows w)\<rparr>))"
    if "q \<in> set (iw_rows w)" "ir_parked_at q \<noteq> None" for q
    using that same [of q] r0(3) by (auto simp: rows in_queue_def)
  show "row_id q \<notin> row_id ` set (iw_rows (w\<lparr>iw_rows := apply_rows [r] (iw_rows w)\<rparr>))"
    if "row_id q \<notin> row_id ` set (iw_rows w)" for q
    using that r0(1,2) by (auto simp: rows image_iff)
qed (simp_all add: rewritten_processed [OF ok rw] done_ids_def)

subsection \<open>Marks\<close>

lemma set_mark_rows:
  assumes ok: "inbox_world_ok cf w" and rows: "r0 \<in> set (iw_rows w)" "row_id r0 = i" "im_waiting_for (ir_message r0) = None"
    and us: "set us \<subseteq> {q \<in> set (iw_rows w). waits_on q = Some i}" "distinct (map row_id us)" and r1: "row_id r1 = i"
  shows "set (apply_rows (r1 # map woken_row us) (iw_rows w)) =
    insert r1 (woken_row ` set us \<union> {q \<in> set (iw_rows w). q \<noteq> r0 \<and> q \<notin> set us})"
proof -
  let ?rows = "iw_rows w" and ?ws = "r1 # map woken_row us"
  note dist = inbox_world_okD(1) [OF ok]
  have ids: "row_id ` set ?ws = insert i (row_id ` set us)" using r1 by (simp add: image_image)
  have "r0 \<notin> set us" using us(1) rows(3) by (auto simp: waits_on_def)
  have i: "i \<notin> row_id ` set us"
  proof
    assume "i \<in> row_id ` set us"
    then obtain u where u: "u \<in> set us" "row_id u = i" by auto
    then have "u \<in> set ?rows" using us(1) by blast
    then have "u = r0" using same_row [OF dist _ rows(1), of u] u(2) rows(2) by simp
    then show False using u(1) \<open>r0 \<notin> set us\<close> by simp
  qed
  then have "distinct (map row_id ?ws)" using us(2) r1 by (simp add: comp_def)
  moreover have "row_id ` set ?ws \<subseteq> row_id ` set ?rows" unfolding ids using us(1) rows(1,2) by blast
  ultimately have "set (apply_rows ?ws ?rows) = set ?ws \<union> {q \<in> set ?rows. row_id q \<notin> row_id ` set ?ws}"
    by (rule set_apply_rows)
  moreover have "row_id q \<notin> row_id ` set ?ws \<longleftrightarrow> q \<noteq> r0 \<and> q \<notin> set us" if q: "q \<in> set ?rows" for q
  proof -
    have "row_id q = i \<longleftrightarrow> q = r0" using same_row [OF dist q rows(1)] rows(2) by auto
    moreover have "row_id q \<in> row_id ` set us \<longleftrightarrow> q \<in> set us"
    proof
      assume "row_id q \<in> row_id ` set us"
      then obtain u where "u \<in> set us" "row_id q = row_id u" by blast
      then show "q \<in> set us" using same_row [OF dist q, of u] us(1) by auto
    qed simp
    ultimately show ?thesis unfolding ids by simp
  qed
  ultimately show ?thesis by auto
qed

lemma mark_rows:
  assumes ok: "inbox_world_ok cf w" and mk: "marks_row w x m writes rs"
  obtains r0 r1 us where "set (apply_rows rs (iw_rows w)) =
      insert r1 (woken_row ` set us \<union> {q \<in> set (iw_rows w). q \<noteq> r0 \<and> q \<notin> set us})"
    "r0 \<in> set (iw_rows w)" "rs = r1 # map woken_row us" "\<forall>u\<in>set us. u \<in> set (iw_rows w)"
    "\<forall>u\<in>set us. waits_on u = Some (id_of m)" "\<forall>u\<in>set us. \<not> is_row_processed u"
    "row_id r0 = id_of m" "\<not> is_row_processed r0" "im_waiting_for (ir_message r0) = None"
    "row_id r1 = id_of m" "is_row_processed r1" "ir_parked_at r1 = None"
    "im_waiting_for (ir_message r1) = None" "ir_slot r1 = ir_slot r0"
    "case writes of Some ws \<Rightarrow> in_queue r0 \<and> tx_slot x = Some (ir_slot r0) | None \<Rightarrow> ir_parked_at r0 \<noteq> None"
proof (rule marks_rowE [OF mk])
  fix r0 r1 us
  assume r: "r0 \<in> set (iw_rows w)" "rs = r1 # map woken_row us"
    "set us \<subseteq> {q \<in> set (iw_rows w). waits_on q = Some (id_of m)}" "distinct (map row_id us)"
    "row_id r0 = id_of m" "\<not> is_row_processed r0" "im_waiting_for (ir_message r0) = None"
    "row_id r1 = id_of m" "is_row_processed r1" "ir_parked_at r1 = None"
    "im_waiting_for (ir_message r1) = None" "ir_slot r1 = ir_slot r0"
    "case writes of Some ws \<Rightarrow> in_queue r0 \<and> tx_slot x = Some (ir_slot r0) | None \<Rightarrow> ir_parked_at r0 \<noteq> None"
  have us: "u \<in> set (iw_rows w) \<and> waits_on u = Some (id_of m)" if "u \<in> set us" for u using r(3) that by blast
  have "\<not> is_row_processed u" if "u \<in> set us" for u
    using row_okD(2) [OF inbox_world_okD(2) [OF ok], of u] us [OF that] by (auto simp: waits_on_def)
  with us r show thesis
    by (intro that [OF set_mark_rows [OF ok r(1,5,7,3,4,8), folded r(2)]]) simp_all
qed

lemma mark_processed_rows:
  assumes ok: "inbox_world_ok cf w" and mk: "marks_row w x m writes rs"
  shows "is_processed (apply_rows rs (iw_rows w)) i \<longleftrightarrow> i = id_of m \<or> is_processed (iw_rows w) i"
    and "\<not> is_processed (iw_rows w) (id_of m)"
proof -
  let ?i = "id_of m" and ?rows = "iw_rows w"
  obtain r0 r1 us where set_rows: "set (apply_rows rs ?rows) =
      insert r1 (woken_row ` set us \<union> {q \<in> set ?rows. q \<noteq> r0 \<and> q \<notin> set us})"
    and r: "r0 \<in> set ?rows" "\<forall>u\<in>set us. \<not> is_row_processed u" "row_id r0 = ?i" "\<not> is_row_processed r0"
      "row_id r1 = ?i" "is_row_processed r1"
    by (rule mark_rows [OF ok mk]) blast
  have r0: "q = r0" if "q \<in> set ?rows" "row_id q = ?i" for q
    using same_row [OF inbox_world_okD(1) [OF ok] that(1) r(1)] that(2) r(3) by simp
  then show old: "\<not> is_processed ?rows ?i" unfolding is_processed_iff using r(4) by blast
  show "is_processed (apply_rows rs ?rows) i \<longleftrightarrow> i = ?i \<or> is_processed ?rows i"
  proof
    assume "is_processed (apply_rows rs ?rows) i"
    then obtain q where q: "q \<in> set (apply_rows rs ?rows)" "row_id q = i" "is_row_processed q"
      unfolding is_processed_iff by blast
    from q(1) consider "q = r1" | p where "q = woken_row p" "p \<in> set us" | "q \<in> set ?rows"
      unfolding set_rows by blast
    then show "i = ?i \<or> is_processed ?rows i"
    proof cases
      case 1
      then show ?thesis using q(2) r(5) by simp
    next
      case (2 p)
      then show ?thesis using q(3) r(2) by simp
    next
      case 3
      then show ?thesis using q(2,3) unfolding is_processed_iff by blast
    qed
  next
    assume "i = ?i \<or> is_processed ?rows i"
    then show "is_processed (apply_rows rs ?rows) i"
    proof
      assume "i = ?i"
      then show ?thesis unfolding is_processed_iff set_rows using r(5,6) by blast
    next
      assume "is_processed ?rows i"
      then obtain q where q: "q \<in> set ?rows" "row_id q = i" "is_row_processed q" unfolding is_processed_iff by blast
      moreover have "q \<noteq> r0" "q \<notin> set us" using q(3) r(2,4) by auto
      ultimately show ?thesis unfolding is_processed_iff set_rows by blast
    qed
  qed
qed

lemma done_in_order_snoc:
  assumes "done_in_order cf done"
    and "\<And>ws. writes = Some ws \<Longrightarrow> canon_id ` set (causal_dependencies (ic_parse cf) m) \<subseteq> (\<lambda>e. id_of (fst e)) ` set done"
  shows "done_in_order cf (done @ [(m, writes)])"
  unfolding done_in_order_def
proof (intro allI impI)
  fix before m' ws rest assume split: "done @ [(m, writes)] = before @ (m', Some ws) # rest"
  show "canon_id ` set (causal_dependencies (ic_parse cf) m') \<subseteq> (\<lambda>e. id_of (fst e)) ` set before"
  proof (cases rest rule: rev_cases)
    case Nil
    then show ?thesis using split assms(2) [of ws] by simp
  next
    case (snoc rest' e)
    then have "done = before @ (m', Some ws) # rest'" using split by simp
    then show ?thesis using assms(1) unfolding done_in_order_def by blast
  qed
qed

lemma mark_inbox_world_ok:
  assumes ok: "inbox_world_ok cf w" and mk: "marks_row w x m writes rs" and deps: "writes \<noteq> None \<longrightarrow> deps_done cf w m"
  shows "inbox_world_ok cf (commit_ending (EMarks m writes rs) w)"
proof -
  let ?i = "id_of m" and ?rows = "iw_rows w" and ?w = "commit_ending (EMarks m writes rs) w"
  obtain r0 r1 us where set_rows: "set (apply_rows rs ?rows) =
      insert r1 (woken_row ` set us \<union> {q \<in> set ?rows. q \<noteq> r0 \<and> q \<notin> set us})"
    and r: "r0 \<in> set ?rows" "\<forall>u\<in>set us. u \<in> set ?rows" "is_row_processed r1" "ir_parked_at r1 = None"
      "im_waiting_for (ir_message r1) = None" "ir_slot r1 = ir_slot r0"
    by (rule mark_rows [OF ok mk]) blast
  note processed = mark_processed_rows [OF ok mk]
  note row = inbox_world_okD(2) [OF ok]
  show ?thesis
  proof (rule inbox_world_okI)
    show "distinct (map row_id (iw_rows ?w))" using inbox_world_okD(1) [OF ok] by simp
    show "row_ok cf q" if q: "q \<in> set (iw_rows ?w)" for q
    proof -
      from q consider "q = r1" | p where "q = woken_row p" "p \<in> set us"
        | "q \<in> set ?rows" unfolding commit_ending.simps using set_rows by auto
      then show ?thesis
      proof cases
        case 1
        then show ?thesis using r row [OF r(1)] by (simp add: row_ok_def)
      next
        case (2 p)
        then show ?thesis using row [of p] r(2) 2(2) by (simp add: row_ok_def)
      qed (rule row)
    qed
    show "count_list (done_ids ?w) i = count_list (iw_forgotten ?w) i + (if is_processed (iw_rows ?w) i then 1 else 0)" for i
      using inbox_world_okD(3) [OF ok, of i] processed by (auto simp: done_ids_def)
    show "done_in_order cf (iw_done ?w)"
      using done_in_order_snoc [OF inbox_world_okD(4) [OF ok], of writes m] deps
      by (auto simp: deps_done_def done_ids_def)
    show "iw_data ?w = written_data (iw_done ?w)"
      using inbox_world_okD(5) [OF ok] by (simp add: written_data_def)
  qed (use inbox_world_okD(6) [OF ok] in simp)
qed

text \<open>Nobody else marks an identity that is being marked.\<close>

lemma marks_apart:
  assumes ok: "inbox_world_ok cf w"
    and x: "tx_ok cf w x" "tx_phase x = Ended (EMarks m ws rs)"
    and y: "tx_ok cf w y" "tx_phase y = Ended (EMarks m' ws' rs')"
    and apart: "apart x y"
  shows "id_of m \<noteq> id_of m'"
proof
  assume same: "id_of m = id_of m'"
  have mx: "marks_row w x m ws rs" and my: "marks_row w y m' ws' rs'"
    using x y by (auto simp: tx_ok_def)
  obtain r where r: "r \<in> set (iw_rows w)" "row_id r = id_of m"
    "case ws of Some v \<Rightarrow> in_queue r \<and> tx_slot x = Some (ir_slot r) | None \<Rightarrow> ir_parked_at r \<noteq> None"
    by (rule marks_rowE [OF mx]) blast
  obtain q where q: "q \<in> set (iw_rows w)" "row_id q = id_of m'"
    "case ws' of Some v \<Rightarrow> in_queue q \<and> tx_slot y = Some (ir_slot q) | None \<Rightarrow> ir_parked_at q \<noteq> None"
    by (rule marks_rowE [OF my]) blast
  have "q = r" using same_row [OF inbox_world_okD(1) [OF ok] q(1) r(1)] q(2) r(2) same by simp
  then show False
    using r(3) q(3) apart same x(2) y(2) by (cases ws; cases ws') (auto simp: apart_def in_queue_def)
qed

lemma mark_others_ok:
  assumes ok: "inbox_world_ok cf w" and x: "tx_ok cf w x" "tx_phase x = Ended (EMarks m writes rs)"
    and y: "tx_ok cf w y" and apart: "apart x y"
  shows "tx_ok cf (commit_ending (EMarks m writes rs) w) y"
proof (rule tx_ok_keeps [OF y])
  let ?i = "id_of m" and ?rows = "iw_rows w" and ?w = "commit_ending (EMarks m writes rs) w"
  have mk: "marks_row w x m writes rs" using x by (auto simp: tx_ok_def)
  obtain r0 r1 us where set_rows: "set (apply_rows rs ?rows) =
      insert r1 (woken_row ` set us \<union> {q \<in> set ?rows. q \<noteq> r0 \<and> q \<notin> set us})"
    and r: "r0 \<in> set ?rows" "\<forall>u\<in>set us. waits_on u = Some ?i" "row_id r0 = ?i" "im_waiting_for (ir_message r0) = None"
      "case writes of Some ws \<Rightarrow> in_queue r0 \<and> tx_slot x = Some (ir_slot r0) | None \<Rightarrow> ir_parked_at r0 \<noteq> None"
    by (rule mark_rows [OF ok mk]) blast
  have kept: "q \<in> set (iw_rows ?w)" if "q \<in> set ?rows" "q \<noteq> r0" "waits_on q \<noteq> Some ?i" for q
    using that r(2) set_rows by auto
  show "q \<in> set (iw_rows ?w)" if "q \<in> set ?rows" "in_queue q" "tx_slot y = Some (ir_slot q)" for q
  proof (rule kept [OF that(1)])
    show "q \<noteq> r0" using that(2,3) r(5) apart by (cases writes) (auto simp: in_queue_def apart_def)
    show "waits_on q \<noteq> Some ?i" using that(2) by (auto simp: in_queue_def waits_on_def)
  qed
  show "set (done_ids w) \<subseteq> set (done_ids ?w)" by (auto simp: done_ids_def)
  show "q \<in> set (iw_rows ?w)"
    if "tx_phase y = Ended (EMarks m' ws' rs')" "q \<in> set ?rows" "waits_on q = Some (id_of m')" for m' ws' rs' q
  proof (rule kept [OF that(2)])
    show "q \<noteq> r0" using that(3) r(4) by (auto simp: waits_on_def)
    show "waits_on q \<noteq> Some ?i" using that(3) marks_apart [OF ok x y that(1) apart] by simp
  qed
  show "q \<in> set (iw_rows ?w)"
    if "tx_phase y = Ended (EMarks m' None rs')" "q \<in> set ?rows" "row_id q = id_of m'" "ir_parked_at q \<noteq> None" for m' rs' q
  proof (rule kept [OF that(2)])
    show "q \<noteq> r0" using marks_apart [OF ok x y that(1) apart] that(3) r(3) by auto
    show "waits_on q \<noteq> Some ?i" using row_okD(3) [OF inbox_world_okD(2) [OF ok that(2)] that(4)] by (simp add: waits_on_def)
  qed
  show "row_id q \<notin> row_id ` set (iw_rows ?w)" if "row_id q \<notin> row_id ` set ?rows" for q
  proof -
    have "row_id ` set (iw_rows ?w) = row_id ` set ?rows"
      using row_id_apply [of rs ?rows] by (simp flip: set_map)
    then show ?thesis using that by simp
  qed
qed

subsection \<open>Insertions\<close>

lemma insert_inbox_world_ok:
  assumes ok: "inbox_world_ok cf w" and r: "row_id r \<notin> row_id ` set (iw_rows w)" "in_queue r" "ir_slot r < ic_slots cf"
  shows "inbox_world_ok cf (commit_ending (EInserts r) w)"
proof (rule inbox_world_okI)
  show "row_ok cf q" if "q \<in> set (iw_rows (commit_ending (EInserts r) w))" for q
    using that inbox_world_okD(2) [OF ok] r by (auto simp: row_ok_def in_queue_def)
qed (use inbox_world_okD [OF ok] r in \<open>auto simp: is_processed_def in_queue_def done_ids_def\<close>)

lemma insert_others_ok:
  assumes r: "in_queue r" and y: "tx_ok cf w y" and new: "\<And>r'. tx_phase y = Ended (EInserts r') \<Longrightarrow> row_id r' \<noteq> row_id r"
  shows "tx_ok cf (commit_ending (EInserts r) w) y"
  by (rule tx_ok_keeps [OF y]) (use r new in \<open>auto simp: is_processed_def in_queue_def done_ids_def woken_rows_def\<close>)

subsection \<open>Every commit\<close>

lemma rewrites_headD: "rewrites_head w x r \<Longrightarrow> tx_slot x \<noteq> None"
  by (auto simp: rewrites_head_def)

lemma commit_inbox_world_ok:
  assumes ok: "inbox_world_ok cf w" and x: "tx_ok cf w x" "tx_phase x = Ended e"
  shows "inbox_world_ok cf (commit_ending e w)"
proof (cases e)
  case (EWaits r d)
  then show ?thesis using x rewrite_inbox_world_ok [OF ok, of x r] by (auto simp: tx_ok_def)
next
  case (EFails r)
  then show ?thesis using x rewrite_inbox_world_ok [OF ok, of x r] by (auto simp: tx_ok_def)
next
  case (EMarks m ws rs)
  then show ?thesis using x mark_inbox_world_ok [OF ok, of x m ws rs] by (auto simp: tx_ok_def)
next
  case (EInserts r)
  then show ?thesis using x insert_inbox_world_ok [OF ok, of r] by (auto simp: tx_ok_def)
qed (use ok in simp)

lemma commit_others_ok:
  assumes ok: "inbox_world_ok cf w" and x: "tx_ok cf w x" "tx_phase x = Ended e" and y: "tx_ok cf w y" and apart: "apart x y"
  shows "tx_ok cf (commit_ending e w) y"
proof (cases e)
  case (EWaits r d)
  then show ?thesis using x rewrite_others_ok [OF ok _ y apart, of r] by (auto simp: tx_ok_def)
next
  case (EFails r)
  then show ?thesis using x rewrite_others_ok [OF ok _ y apart, of r] by (auto simp: tx_ok_def)
next
  case (EMarks m ws rs)
  then show ?thesis using mark_others_ok [OF ok x(1) _ y apart] x(2) by simp
next
  case (EInserts r)
  have "row_id r' \<noteq> row_id r" if "tx_phase y = Ended (EInserts r')" for r'
    using apart x(2) EInserts that unfolding apart_def by (metis tx_inserted.simps(1))
  then show ?thesis using x y EInserts insert_others_ok [of r cf w y] by (auto simp: tx_ok_def)
qed (use y in simp)

lemma commit_ok:
  assumes ok: "inbox_ok cf s" and x: "is_txs s t = Some x" "tx_phase x = Ended e"
  shows "inbox_ok cf \<lparr>is_world = serve_slot x (commit_ending e (is_world s)), is_txs = (is_txs s)(t := None)\<rparr>"
proof -
  let ?w = "commit_ending e (is_world s)"
  have tx: "tx_ok cf (is_world s) x" by (rule inbox_okD(2) [OF ok x(1)])
  have w: "inbox_world_ok cf ?w" by (rule commit_inbox_world_ok [OF inbox_okD(1) [OF ok] tx x(2)])
  have same: "iw_rows (serve_slot x ?w) = iw_rows ?w" "iw_done (serve_slot x ?w) = iw_done ?w"
    "iw_data (serve_slot x ?w) = iw_data ?w" "iw_forgotten (serve_slot x ?w) = iw_forgotten ?w"
    by (auto simp: serve_slot_def split: option.split)
  have slots: "fst ` set (iw_slots (serve_slot x ?w)) \<subseteq> fst ` set (iw_slots ?w) \<union> {..<ic_slots cf}"
  proof (cases "tx_slot x")
    case (Some slot)
    have "fst ` set (AList.update slot (tx_now x) (iw_slots ?w)) = insert slot (fst ` set (iw_slots ?w))"
      by (simp add: dom_update)
    then show ?thesis using Some tx by (auto simp: serve_slot_def tx_ok_def)
  qed (simp add: serve_slot_def)
  have "tx_ok cf (serve_slot x ?w) y" if "u \<noteq> t" "is_txs s u = Some y" for u y
    unfolding tx_ok_world [OF same(1,2)]
    by (rule commit_others_ok [OF inbox_okD(1) [OF ok] tx x(2) inbox_okD(2) [OF ok that(2)]])
      (rule inbox_okD(3) [OF ok that(1) [symmetric] x(1) that(2)])
  then show ?thesis
    using world_ok_world [OF same slots w] inbox_okD(3) [OF ok] unfolding inbox_ok_def by auto
qed

end
