(* ===== verification/Inbox_Safety.thy ===== *)
theory Inbox_Safety
  imports Inbox_Commit
begin

section \<open>Every step keeps the invariant\<close>

text \<open>
  Every statement of a producer, a dispatcher, an operator or the sweep keeps the invariant of
  \<open>Inbox_Invariant\<close>; with the commits of \<open>Inbox_Commit\<close>, so does every run.
\<close>

subsection \<open>Statements outside a dispatch\<close>

lemma count_list_distinct: "distinct xs \<Longrightarrow> count_list xs x = (if x \<in> set xs then 1 else 0)"
  by (induction xs) auto

lemma apply_mapped:
  assumes "distinct (map row_id rows)" "\<And>r. row_id (f r) = row_id r"
  shows "apply_rows (map f (filter P rows)) rows = map (\<lambda>r. if P r then f r else r) rows"
proof -
  let ?ws = "map f (filter P rows)"
  have dist: "distinct (map row_id ?ws)"
    using assms by (simp add: comp_def) (simp add: distinct_map inj_on_def)
  have "(case find (\<lambda>x. row_id x = row_id r) ?ws of Some x \<Rightarrow> x | None \<Rightarrow> r) = (if P r then f r else r)"
    if r: "r \<in> set rows" for r
  proof (cases "P r")
    case True
    then have "f r \<in> set ?ws" using r by simp
    from find_row [OF dist this] show ?thesis using True assms(2) by simp
  next
    case False
    have "find (\<lambda>x. row_id x = row_id r) ?ws = None"
      unfolding find_None_iff
    proof
      assume "\<exists>x. x \<in> set ?ws \<and> row_id x = row_id r"
      then obtain q where "q \<in> set rows" "P q" "row_id q = row_id r" using assms(2) by auto
      then show False using same_row [OF assms(1) _ r, of q] False by simp
    qed
    then show ?thesis using False by simp
  qed
  then show ?thesis by (simp add: apply_rows_def)
qed

lemma quiet_ok:
  assumes ok: "inbox_ok cf s"
    and g: "\<And>r. row_id (g r) = row_id r" "\<And>r. is_row_processed (g r) = is_row_processed r"
      "\<And>r. r \<in> set (is_rows s) \<Longrightarrow> in_queue r \<Longrightarrow> g r = r" "\<And>r. r \<in> set (is_rows s) \<Longrightarrow> row_ok cf r \<Longrightarrow> row_ok cf (g r)"
    and free: "\<And>r. r \<in> set (is_rows s) \<Longrightarrow> \<not> row_free s (row_id r) \<Longrightarrow> g r = r"
  shows "inbox_ok cf (s\<lparr>is_world := (is_world s)\<lparr>iw_rows := map g (is_rows s)\<rparr>\<rparr>)"
proof -
  let ?w = "is_world s" and ?w' = "(is_world s)\<lparr>iw_rows := map g (is_rows s)\<rparr>"
  have w: "inbox_world_ok cf ?w" by (rule inbox_okD(1) [OF ok])
  have processed: "is_processed (map g (is_rows s)) i = is_processed (is_rows s) i" for i
    by (simp add: is_processed_iff g)
  have ids: "map row_id (map g (is_rows s)) = map row_id (is_rows s)" by (simp add: g)
  have "inbox_world_ok cf ?w'"
  proof (rule inbox_world_okI)
    show "row_ok cf r" if "r \<in> set (iw_rows ?w')" for r
      using that g(4) inbox_world_okD(2) [OF w] by auto
    have "map row_id (iw_rows ?w') = map row_id (is_rows s)" using ids by simp
    then show "distinct (map row_id (iw_rows ?w'))" using inbox_world_okD(1) [OF w] by (simp only:)
  qed (use inbox_world_okD [OF w] in \<open>simp_all add: processed done_ids_def\<close>)
  moreover have "tx_ok cf ?w' x" if x: "is_txs s t = Some x" for t x
  proof (rule tx_ok_keeps [OF inbox_okD(2) [OF ok x]])
    show "r \<in> set (iw_rows ?w')" if "r \<in> set (iw_rows ?w)" "in_queue r" for r
      using imageI [OF that(1), of g] g(3) [OF that] by simp
    have held: "r \<in> set (iw_rows ?w')"
      if "tx_phase x = Ended (EMarks m ws rs)" "r \<in> set (is_rows s)" "row_id r \<in> row_id ` set rs" for m ws rs r
    proof -
      have "\<not> row_free s (row_id r)" unfolding row_free_def using x that(1,3) by force
      then have "g r = r" by (rule free [OF that(2)])
      then show ?thesis using imageI [OF that(2), of g] by simp
    qed
    then show "r \<in> set (iw_rows ?w')"
      if "tx_phase x = Ended (EMarks m ws rs)" "r \<in> set (iw_rows ?w)" "row_id r \<in> row_id ` set rs" for m ws rs r
      using that by blast
    show "r \<in> set (iw_rows ?w')"
      if that: "tx_phase x = Ended (EMarks m None rs)" "r \<in> set (iw_rows ?w)" "row_id r = id_of m" for m rs r
    proof -
      have "marks_row ?w x m None rs" using inbox_okD(2) [OF ok x] that(1) by (simp add: tx_ok_def)
      then obtain r1 us where "rs = r1 # map woken_row us" "row_id r1 = id_of m" unfolding marks_row_def by blast
      then show ?thesis using held [OF that(1,2)] that(3) by simp
    qed
    show "row_id r \<notin> row_id ` set (iw_rows ?w')" if "row_id r \<notin> row_id ` set (iw_rows ?w)" for r
      using that by (simp add: image_image g)
  qed (simp_all add: processed done_ids_def)
  ultimately show ?thesis using inbox_okD(3) [OF ok] unfolding inbox_ok_def by simp
qed

lemma expire_ok:
  assumes ok: "inbox_ok cf s" and locked: "\<forall>i. \<not> row_free s i \<longrightarrow> i \<in> set locked"
  shows "inbox_ok cf (s\<lparr>is_world := expire cf locked (is_world s)\<rparr>)"
proof (cases "ic_max_wait cf")
  case None
  then show ?thesis using ok by (simp add: expire_def)
next
  case (Some max_wait)
  define f where "f = (\<lambda>r. with_message (\<lambda>m. m\<lparr>
             im_last_error := Some (''dependency '' @ ic_text cf (dependency_json (the (im_waiting_for m))) @ '' never arrived''),
             im_waiting_for := None\<rparr>) r\<lparr>ir_parked_at := Some (iw_clock (is_world s)), ir_waiting_since := None\<rparr>)"
  define P where "P = (\<lambda>r. im_waiting_for (ir_message r) \<noteq> None \<and> row_id r \<notin> set locked \<and>
             (case ir_waiting_since r of None \<Rightarrow> False | Some t \<Rightarrow> t + ic_interval cf max_wait < iw_clock (is_world s)))"
  have id: "row_id (f r) = row_id r" for r by (simp add: f_def with_message_id row_id_def)
  have proc: "is_row_processed (f r) = is_row_processed r" for r by (simp add: f_def is_row_processed_def)
  have "expire cf locked (is_world s) = (is_world s)\<lparr>iw_rows := map (\<lambda>r. if P r then f r else r) (is_rows s)\<rparr>"
    using apply_mapped [OF inbox_world_okD(1) [OF inbox_okD(1) [OF ok]], of f P] id Some
    by (simp add: expire_def expire_waiting_def f_def P_def Let_def)
  moreover have "inbox_ok cf (s\<lparr>is_world := (is_world s)\<lparr>iw_rows := map (\<lambda>r. if P r then f r else r) (is_rows s)\<rparr>\<rparr>)"
  proof (rule quiet_ok [OF ok])
    show "row_ok cf (if P r then f r else r)" if "row_ok cf r" for r
      using that by (auto simp: row_ok_def proc P_def) (auto simp: f_def)
    show "(if P r then f r else r) = r" if "\<not> row_free s (row_id r)" for r
      using that locked by (simp add: P_def)
    show "row_id (if P r then f r else r) = row_id r" for r by (simp add: id)
    show "is_row_processed (if P r then f r else r) = is_row_processed r" for r by (simp add: proc)
    show "(if P r then f r else r) = r" if "in_queue r" for r using that by (simp add: P_def in_queue_def)
  qed
  ultimately show ?thesis by simp
qed

lemma unpark_ok:
  assumes ok: "inbox_ok cf s" and free: "row_free s (id_of m)"
  shows "inbox_ok cf (s\<lparr>is_world := snd (unpark m (is_world s))\<rparr>)"
proof -
  define f where "f = (\<lambda>r. with_message (im_attempts_update (\<lambda>_. 0)) r\<lparr>ir_parked_at := None, ir_next_attempt_at := None\<rparr>)"
  define P where "P = (\<lambda>r. row_id r = id_of m \<and> ir_parked_at r \<noteq> None)"
  have id: "row_id (f r) = row_id r" for r by (simp add: f_def with_message_id row_id_def)
  have proc: "is_row_processed (f r) = is_row_processed r" for r by (simp add: f_def is_row_processed_def)
  have "snd (unpark m (is_world s)) = (is_world s)\<lparr>iw_rows := map (\<lambda>r. if P r then f r else r) (is_rows s)\<rparr>"
    using apply_mapped [OF inbox_world_okD(1) [OF inbox_okD(1) [OF ok]], of f P] id
    by (simp add: unpark_def unpark_row_def f_def P_def Let_def)
  moreover have "inbox_ok cf (s\<lparr>is_world := (is_world s)\<lparr>iw_rows := map (\<lambda>r. if P r then f r else r) (is_rows s)\<rparr>\<rparr>)"
  proof (rule quiet_ok [OF ok])
    show "row_ok cf (if P r then f r else r)" if "row_ok cf r" for r
      using that by (auto simp: row_ok_def proc P_def) (auto simp: f_def)
    show "(if P r then f r else r) = r" if "\<not> row_free s (row_id r)" for r
      using that free by (auto simp: P_def)
    show "row_id (if P r then f r else r) = row_id r" for r by (simp add: id)
    show "is_row_processed (if P r then f r else r) = is_row_processed r" for r by (simp add: proc)
    show "(if P r then f r else r) = r" if "in_queue r" for r using that by (simp add: P_def in_queue_def)
  qed
  ultimately show ?thesis by simp
qed

lemma sweep_ok:
  assumes ok: "inbox_ok cf s" and gone: "\<forall>r\<in>set gone. forgettable (is_rows s) r"
  shows "inbox_ok cf (s\<lparr>is_world := (is_world s)
      \<lparr>iw_rows := filter (\<lambda>r. r \<notin> set gone) (is_rows s),
       iw_forgotten := iw_forgotten (is_world s) @ map row_id (filter (\<lambda>r. r \<in> set gone) (is_rows s))\<rparr>\<rparr>)"
    (is "inbox_ok cf (s\<lparr>is_world := ?w'\<rparr>)")
proof -
  let ?w = "is_world s" and ?rows = "is_rows s"
  have w: "inbox_world_ok cf ?w" by (rule inbox_okD(1) [OF ok])
  note dist = inbox_world_okD(1) [OF w]
  have processed_gone: "is_row_processed r" if "r \<in> set gone" for r using gone that by (auto simp: forgettable_def)
  have less: "is_processed (iw_rows ?w') i \<Longrightarrow> is_processed ?rows i" for i by (auto simp: is_processed_iff)
  have count: "count_list (map row_id (filter (\<lambda>r. r \<in> set gone) ?rows)) i + (if is_processed (iw_rows ?w') i then 1 else 0)
      = (if is_processed ?rows i then 1 else 0)" for i
  proof (cases "\<exists>r\<in>set ?rows. row_id r = i")
    case True
    then obtain r where r: "r \<in> set ?rows" "row_id r = i" by blast
    have only: "q \<in> set ?rows \<and> row_id q = i \<longleftrightarrow> q = r" for q using same_row [OF dist _ r(1), of q] r by auto
    have cnt: "count_list (map row_id (filter P ?rows)) i = (if P r then 1 else 0)" for P
    proof -
      have "distinct (map row_id (filter P ?rows))" using dist by (simp add: distinct_map inj_on_def)
      then have "count_list (map row_id (filter P ?rows)) i = (if i \<in> set (map row_id (filter P ?rows)) then 1 else 0)"
        by (rule count_list_distinct)
      also have "i \<in> set (map row_id (filter P ?rows)) \<longleftrightarrow> (\<exists>q. (q \<in> set ?rows \<and> row_id q = i) \<and> P q)" by auto
      also have "\<dots> \<longleftrightarrow> P r" unfolding only by simp
      finally show ?thesis by simp
    qed
    have one: "(\<exists>q\<in>set ?rows. row_id q = i \<and> Q q) \<longleftrightarrow> Q r" for Q
    proof -
      have "(\<exists>q\<in>set ?rows. row_id q = i \<and> Q q) \<longleftrightarrow> (\<exists>q. (q \<in> set ?rows \<and> row_id q = i) \<and> Q q)" by blast
      then show ?thesis unfolding only by simp
    qed
    have "is_processed ?rows i \<longleftrightarrow> is_row_processed r" unfolding is_processed_iff by (rule one)
    moreover have "is_processed (iw_rows ?w') i \<longleftrightarrow> is_row_processed r \<and> r \<notin> set gone"
    proof -
      have "is_processed (iw_rows ?w') i \<longleftrightarrow> (\<exists>q\<in>set ?rows. row_id q = i \<and> (is_row_processed q \<and> q \<notin> set gone))"
        unfolding is_processed_iff by auto
      then show ?thesis unfolding one .
    qed
    ultimately show ?thesis using cnt [of "\<lambda>r. r \<in> set gone"] processed_gone by auto
  next
    case False
    then have "i \<notin> set (map row_id (filter (\<lambda>r. r \<in> set gone) ?rows))" by auto
    moreover have "\<not> is_processed ?rows i" using False by (auto simp: is_processed_iff)
    ultimately show ?thesis using less [of i] by (auto simp: count_notin)
  qed
  have "inbox_world_ok cf ?w'"
  proof (rule inbox_world_okI)
    show "distinct (map row_id (iw_rows ?w'))" using dist by (simp add: distinct_map inj_on_def)
    show "count_list (done_ids ?w') i = count_list (iw_forgotten ?w') i + (if is_processed (iw_rows ?w') i then 1 else 0)" for i
    proof -
      have "count_list (iw_forgotten ?w') i
          = count_list (iw_forgotten ?w) i + count_list (map row_id (filter (\<lambda>r. r \<in> set gone) ?rows)) i" by simp
      then show ?thesis using inbox_world_okD(3) [OF w, of i] count [of i] unfolding done_ids_def by simp
    qed
  qed (use inbox_world_okD [OF w] in auto)
  moreover have "tx_ok cf ?w' x" if x: "is_txs s t = Some x" for t x
  proof (rule tx_ok_keeps [OF inbox_okD(2) [OF ok x]])
    show "r \<in> set (iw_rows ?w')" if "r \<in> set (iw_rows ?w)" "in_queue r" for r
      using that processed_gone by (auto simp: in_queue_def)
    show "r \<in> set (iw_rows ?w')" if "r \<in> set (iw_rows ?w)" "waits_on r = Some i" for r i
      using that processed_gone row_okD(2) [OF inbox_world_okD(2) [OF w that(1)]] by (auto simp: waits_on_def)
    show "r \<in> set (iw_rows ?w')" if "r \<in> set (iw_rows ?w)" "ir_parked_at r \<noteq> None" for r
      using that processed_gone row_okD(1) [OF inbox_world_okD(2) [OF w that(1)]] by auto
  qed (use less in \<open>auto simp: done_ids_def\<close>)
  ultimately show ?thesis using inbox_okD(3) [OF ok] unfolding inbox_ok_def by simp
qed


subsection \<open>The statements of a dispatch\<close>

lemma move_okD:
  assumes "inbox_ok cf s" "is_txs s t = Some x"
  shows "phase_ok cf (is_world s) x (tx_phase x)"
  using inbox_okD(2) [OF assms] by (simp add: tx_ok_def)

lemma take_is_free:
  assumes "inbox_take now held rows slots = (Some slot, slots')"
  shows "slot \<notin> set held" "slot \<in> fst ` set slots"
proof -
  let ?q = "filter (\<lambda>(s, _). s \<notin> set held \<and> head_due now rows s) slots"
  obtain t rest where "sort_key snd ?q = (slot, t) # rest"
    using assms by (auto simp: inbox_take_def split: list.splits)
  then have "(slot, t) \<in> set ?q" by (metis list.set_intros(1) set_sort)
  then show "slot \<notin> set held" "slot \<in> fst ` set slots" by force+
qed

lemma head_ofD:
  assumes "head_of now rows slot = Some (m, deferred)"
  obtains r where "slot_head rows slot = Some r" "m = ir_message r"
  using assms by (auto simp: head_of_def)

lemma holds_headE:
  assumes ok: "inbox_world_ok cf w" and "holds_head w x m"
  obtains r where "r \<in> set (iw_rows w)" "ir_message r = m" "row_id r = id_of m" "tx_slot x = Some (ir_slot r)" "in_queue r"
    "filter (\<lambda>q. row_id q = id_of m) (iw_rows w) = [r]"
proof -
  obtain r where r: "r \<in> set (iw_rows w)" "ir_message r = m" "tx_slot x = Some (ir_slot r)" "in_queue r"
    using assms(2) unfolding holds_head_def by blast
  moreover have "row_id r = id_of m" using r(2) by (simp add: row_id_def)
  ultimately show thesis using that filter_row [OF inbox_world_okD(1) [OF ok] r(1)] by blast
qed

lemma waits_ok:
  assumes ok: "inbox_world_ok cf w" and head: "holds_head w x m" and d: "d \<in> set (causal_dependencies (ic_parse cf) m)"
    and lock: "tx_lock x = Some (lock_key cf d)" and set: "set_waiting_unless_processed now m d (iw_rows w) = [r]"
  shows "ending_ok cf w (x\<lparr>tx_phase := p\<rparr>) (EWaits r d)"
proof -
  obtain r0 where r0: "r0 \<in> set (iw_rows w)" "row_id r0 = id_of m" "tx_slot x = Some (ir_slot r0)" "in_queue r0"
    "filter (\<lambda>q. row_id q = id_of m) (iw_rows w) = [r0]" "ir_message r0 = m"
    using holds_headE [OF ok head] by metis
  have "\<not> is_processed (iw_rows w) (canon_id d)"
    using set by (auto simp: set_waiting_unless_processed_def split: if_splits)
  moreover have "r = with_message (im_waiting_for_update (\<lambda>_. Some d)) r0\<lparr>ir_waiting_since := Some now\<rparr>"
    using set r0(5) calculation by (simp add: set_waiting_unless_processed_def)
  ultimately show ?thesis
    using r0 lock d by (auto simp: rewrites_head_def in_queue_def row_id_def is_row_processed_def)
qed

lemma fails_ok:
  assumes ok: "inbox_world_ok cf w" and head: "holds_head w x m"
    and rec: "record_failure cf now m f after (iw_rows w) = Inr ([r], attempts, parked)"
  shows "ending_ok cf w (x\<lparr>tx_phase := p\<rparr>) (EFails r)"
proof -
  obtain r0 where r0: "r0 \<in> set (iw_rows w)" "row_id r0 = id_of m" "tx_slot x = Some (ir_slot r0)" "in_queue r0"
    using holds_headE [OF ok head] by metis
  have "find (\<lambda>q. row_id q = id_of m) (iw_rows w) = Some r0"
    using find_row [OF inbox_world_okD(1) [OF ok] r0(1)] r0(2) by simp
  then have "row_id r = row_id r0 \<and> ir_slot r = ir_slot r0 \<and> \<not> is_row_processed r \<and> im_waiting_for (ir_message r) = None
      \<and> im_last_error (ir_message r) \<noteq> None"
    using rec r0(4) by (auto simp: record_failure_def Let_def in_queue_def is_row_processed_def row_id_def split: if_splits)
  then show ?thesis using r0 by (auto simp: rewrites_head_def)
qed

lemma woken_rows_marked:
  assumes "inbox_world_ok cf w"
  obtains us where "woken_rows i (iw_rows w) = map woken_row us" "set us \<subseteq> {q \<in> set (iw_rows w). waits_on q = Some i}"
    "distinct (map row_id us)"
  by (rule that [of "filter (\<lambda>r. waits_on r = Some i) (iw_rows w)"])
    (use inbox_world_okD(1) [OF assms] in \<open>auto simp: woken_rows_def distinct_map inj_on_def\<close>)

lemma marks_ok:
  assumes ok: "inbox_world_ok cf w" and head: "holds_head w x m" and deps: "deps_done cf w m" and g: "guards cf x (dependency_on m)"
    and mk: "mark_processed m pos at (iw_rows w) = Inr (written, woken)"
  shows "ending_ok cf w (x\<lparr>tx_phase := p\<rparr>) (EMarks m (Some ws) written)"
proof -
  obtain r0 where r0: "r0 \<in> set (iw_rows w)" "row_id r0 = id_of m" "tx_slot x = Some (ir_slot r0)" "in_queue r0"
    "filter (\<lambda>q. row_id q = id_of m) (iw_rows w) = [r0]"
    using holds_headE [OF ok head] by metis
  have "written = marked_row pos at r0 # woken_rows (id_of m) (iw_rows w)"
    using mk r0(5) by (simp add: mark_processed_def Let_def)
  moreover obtain us where "woken_rows (id_of m) (iw_rows w) = map woken_row us"
    "set us \<subseteq> {q \<in> set (iw_rows w). waits_on q = Some (id_of m)}" "distinct (map row_id us)"
    by (rule woken_rows_marked [OF ok])
  ultimately have "marks_row w (x\<lparr>tx_phase := p\<rparr>) m (Some ws) written"
    unfolding marks_row_def using r0
    by (intro bexI [of _ r0] exI [of _ "marked_row pos at r0"] exI [of _ us]) (auto simp: in_queue_def)
  then show ?thesis using deps g by (simp add: guards_def)
qed

lemma resolves_ok:
  assumes ok: "inbox_world_ok cf w" and lock: "tx_lock x = Some (lock_key cf (dependency_on m))"
    and rs: "resolve_row m pos at (iw_rows w) = Some (written, woken)"
  shows "ending_ok cf w (x\<lparr>tx_phase := p\<rparr>) (EMarks m None written)"
proof -
  let ?P = "\<lambda>r. row_id r = id_of m \<and> ir_parked_at r \<noteq> None"
  obtain r0 rest where "filter ?P (iw_rows w) = r0 # rest"
    using rs by (cases "filter ?P (iw_rows w)") (simp_all add: resolve_row_def Let_def)
  then have "r0 \<in> set (filter ?P (iw_rows w))" by simp
  then have r0: "r0 \<in> set (iw_rows w)" "row_id r0 = id_of m" "ir_parked_at r0 \<noteq> None" by auto
  have "filter ?P (iw_rows w) = filter (\<lambda>r. ir_parked_at r \<noteq> None) (filter (\<lambda>r. row_id r = id_of m) (iw_rows w))"
    unfolding filter_filter by (rule filter_cong) auto
  also have "\<dots> = [r0]" using filter_row [OF inbox_world_okD(1) [OF ok] r0(1,2)] r0(3) by simp
  finally have written: "written = (marked_row pos at r0)\<lparr>ir_parked_at := None\<rparr> # woken_rows (id_of m) (iw_rows w)"
    using rs by (simp add: resolve_row_def Let_def)
  note row = inbox_world_okD(2) [OF ok r0(1)]
  obtain us where "woken_rows (id_of m) (iw_rows w) = map woken_row us"
    "set us \<subseteq> {q \<in> set (iw_rows w). waits_on q = Some (id_of m)}" "distinct (map row_id us)"
    by (rule woken_rows_marked [OF ok])
  then have "marks_row w (x\<lparr>tx_phase := p\<rparr>) m None written"
    unfolding marks_row_def written
    using r0 row_okD(1,3) [OF row]
    by (intro bexI [of _ r0] exI [of _ "(marked_row pos at r0)\<lparr>ir_parked_at := None\<rparr>"] exI [of _ us]) auto
  then show ?thesis using lock by (simp add: guards_def)
qed

lemma inserted_row_ok:
  assumes "receive_row cf m pos rows = Inr (RStored r)" "0 < ic_slots cf"
  shows "row_id r \<notin> row_id ` set rows" "in_queue r" "ir_slot r < ic_slots cf"
proof -
  have r: "r = inserted_row cf m pos" and "find (\<lambda>r. row_id r = id_of m) rows = None"
    using assms(1) by (auto simp: receive_row_def split: option.splits)
  then have "\<forall>q\<in>set rows. row_id q \<noteq> id_of m" by (auto simp: find_None_iff)
  moreover have "row_id r = id_of m" by (simp add: r inserted_row_def row_id_def)
  ultimately show "row_id r \<notin> row_id ` set rows" by auto
  show "in_queue r" by (simp add: r inserted_row_def in_queue_def is_row_processed_def)
  show "ir_slot r < ic_slots cf" using slot_is_of_the_table [OF assms(2)] by (simp add: r inserted_row_def)
qed


subsection \<open>All steps\<close>

lemma apart_lock:
  assumes "apart x y" "tx_slot x' = tx_slot x" "tx_inserted (tx_phase x') = None" "tx_resolved (tx_phase x') = None"
    "tx_lock x' = Some k" "tx_lock y \<noteq> Some k"
  shows "apart x' y"
  using assms by (auto simp: apart_def)

lemma apart_slot:
  assumes "apart x y" "tx_slot y \<noteq> Some slot" "tx_inserted p = None" "tx_resolved p = None"
  shows "apart (x\<lparr>tx_slot := Some slot, tx_phase := p\<rparr>) y"
  using assms by (auto simp: apart_def)

lemma lock_ok:
  assumes ok: "inbox_ok cf s" and x: "is_txs s t = Some x" and free: "lock_free s k"
    and p: "phase_ok cf (is_world s) (x\<lparr>tx_lock := Some k, tx_phase := p\<rparr>) p" "tx_inserted p = None" "tx_resolved p = None"
  shows "inbox_ok cf (put_tx t (x\<lparr>tx_lock := Some k, tx_phase := p\<rparr>) s)"
proof (rule inbox_ok_put [OF ok])
  show "tx_ok cf (is_world s) (x\<lparr>tx_lock := Some k, tx_phase := p\<rparr>)"
    using p(1) inbox_okD(2) [OF ok x] by (simp add: tx_ok_def)
  show "apart (x\<lparr>tx_lock := Some k, tx_phase := p\<rparr>) y" if "u \<noteq> t" "is_txs s u = Some y" for u y
    using apart_lock [OF inbox_okD(3) [OF ok that(1) [symmetric] x that(2)]] p(2,3) free that(2) by (simp add: lock_free_def)
qed

lemma holds_head_phase [simp]:
  "holds_head w (x\<lparr>tx_phase := p\<rparr>) m = holds_head w x m" "holds_head w (x\<lparr>tx_lock := l\<rparr>) m = holds_head w x m"
  by (simp_all add: holds_head_def)

lemma guards_phase [simp]: "guards cf (x\<lparr>tx_phase := p\<rparr>) d = guards cf x d"
  by (simp add: guards_def)

lemma seq_ok: "inbox_ok cf s \<Longrightarrow> inbox_ok cf (s\<lparr>is_world := (is_world s)\<lparr>iw_seq := n\<rparr>\<rparr>)"
  by (rule inbox_ok_world) simp_all

lemma put_seq_ok:
  assumes "inbox_ok cf (put_tx t x s)"
  shows "inbox_ok cf (put_tx t x (s\<lparr>is_world := (is_world s)\<lparr>iw_seq := n\<rparr>\<rparr>))"
    "inbox_ok cf (put_tx t x (s\<lparr>is_world := (is_world s)\<lparr>iw_spelled := sp\<rparr>\<rparr>))"
    "inbox_ok cf (put_tx t x (s\<lparr>is_world := (is_world s)\<lparr>iw_seq := n, iw_spelled := sp\<rparr>\<rparr>))"
proof -
  have "inbox_ok cf ((put_tx t x s)\<lparr>is_world := w\<rparr>)"
    if "w \<in> {(is_world s)\<lparr>iw_seq := n\<rparr>, (is_world s)\<lparr>iw_spelled := sp\<rparr>, (is_world s)\<lparr>iw_seq := n, iw_spelled := sp\<rparr>}" for w
    by (rule inbox_ok_world [OF assms]) (use that in \<open>auto simp: put_tx_def\<close>)
  moreover have "(put_tx t x s)\<lparr>is_world := w\<rparr> = put_tx t x (s\<lparr>is_world := w\<rparr>)" for w by (cases s) (simp add: put_tx_def)
  ultimately show "inbox_ok cf (put_tx t x (s\<lparr>is_world := (is_world s)\<lparr>iw_seq := n\<rparr>\<rparr>))"
    "inbox_ok cf (put_tx t x (s\<lparr>is_world := (is_world s)\<lparr>iw_spelled := sp\<rparr>\<rparr>))"
    "inbox_ok cf (put_tx t x (s\<lparr>is_world := (is_world s)\<lparr>iw_seq := n, iw_spelled := sp\<rparr>\<rparr>))"
    by simp_all
qed

theorem inbox_step_ok:
  assumes cf: "0 < ic_slots cf" and "inbox_step cf subscriber s s'" "inbox_ok cf s"
  shows "inbox_ok cf s'"
  using assms(2,3)
proof (induction rule: inbox_step.induct)
  case (clock s now)
  then show ?case using inbox_ok_world [of cf s "(is_world s)\<lparr>iw_clock := now\<rparr>"] by simp
next
  case (begins s t)
  then show ?case
    by (auto intro!: inbox_ok_put simp: tx_begin_def tx_ok_def apart_def)
next
  case (takes s t x held rows slot slots)
  note free = take_is_free [OF takes(4)]
  have slot: "slot < ic_slots cf"
    using free(2) inbox_world_okD(6) [OF inbox_okD(1) [OF takes(5)]] by auto
  have sfree: "slot_free s slot" using takes free(1) by blast
  have "inbox_ok cf (put_tx t (x\<lparr>tx_slot := Some slot, tx_phase := Took\<rparr>) s)"
  proof (rule inbox_ok_put [OF takes(5)])
    show "tx_ok cf (is_world s) (x\<lparr>tx_slot := Some slot, tx_phase := Took\<rparr>)" using slot by (simp add: tx_ok_def)
    show "apart (x\<lparr>tx_slot := Some slot, tx_phase := Took\<rparr>) y" if "u \<noteq> t" "is_txs s u = Some y" for u y
    proof (rule apart_slot)
      show "apart x y" using inbox_okD(3) [OF takes(5), of t u x y] that takes(1) by auto
    qed (use sfree that(2) in \<open>auto simp: slot_free_def\<close>)
  qed
  then show ?case using takes by simp
next
  case (reads s t x slot m)
  obtain r where r: "slot_head (is_rows s) slot = Some r" "m = ir_message r" using reads head_ofD by metis
  have "holds_head (is_world s) x m"
    using slot_headD(1-3) [OF r(1)] r(2) reads by (auto simp: holds_head_def)
  then show ?case using reads by (auto intro!: inbox_ok_move)
next
  case (finds s t x m d ds)
  let ?C = "set (causal_dependencies (ic_parse cf) m)"
  have d: "canon_id d \<in> set (done_ids (is_world s))" using processed_is_done finds inbox_okD(1) by blast
  have p: "holds_head (is_world s) x m" "canon_id ` ?C \<subseteq> canon_id ` set (d # ds) \<union> set (done_ids (is_world s))" "set (d # ds) \<subseteq> ?C"
    using finds move_okD [of cf s t x] by simp_all
  have "canon_id ` set (d # ds) \<union> set (done_ids (is_world s)) = canon_id ` set ds \<union> set (done_ids (is_world s))" using d by auto
  then have "phase_ok cf (is_world s) (x\<lparr>tx_phase := Checking m ds\<rparr>) (Checking m ds)" using p by simp
  then show ?case using finds by (intro inbox_ok_move) simp_all
next
  case (locks_wait s t x m d)
  then show ?case using move_okD [of cf s t x] by (auto intro!: lock_ok)
next
  case (waits s t x m d r)
  then show ?case using move_okD [of cf s t x] waits_ok [OF inbox_okD(1)]
    by (auto intro!: inbox_ok_move simp del: ending_ok.simps)
next
  case (locks_mark s t x m writes)
  then show ?case using move_okD [of cf s t x] by (auto intro!: lock_ok simp: guards_def)
next
  case (needs_no_lock s t x m writes)
  then have "guards cf x (dependency_on m)"
    using move_okD [of cf s t x] by (auto simp: guards_def holds_head_def)
  then show ?case using needs_no_lock move_okD [of cf s t x] by (auto intro!: inbox_ok_move)
next
  case (marks s t x m writes written woken)
  have "inbox_ok cf (put_tx t (x\<lparr>tx_phase := Ended (EMarks m (Some writes) written)\<rparr>) s)"
    using marks move_okD [of cf s t x] marks_ok [OF inbox_okD(1)]
    by (auto intro!: inbox_ok_move simp del: ending_ok.simps)
  then show ?case by (rule put_seq_ok(1))
next
  case (records s t x m f r attempts parked)
  then show ?case using move_okD [of cf s t x] fails_ok [OF inbox_okD(1)]
    by (auto intro!: inbox_ok_move simp del: ending_ok.simps)
next
  case (commits s t x e)
  then show ?case using commit_ok by blast
next
  case (aborts s t x)
  then show ?case using inbox_ok_abort by blast
next
  case (expires max_wait s locked)
  then show ?case using expire_ok by blast
next
  case (inserts s t m r)
  note r = inserted_row_ok [OF inserts(2) cf]
  have "inbox_ok cf (put_tx t (tx_begin (iw_clock (is_world s)) (Ended (EInserts r))) s)"
  proof (rule inbox_ok_put [OF inserts(4)])
    show "apart (tx_begin (iw_clock (is_world s)) (Ended (EInserts r))) y" if "u \<noteq> t" "is_txs s u = Some y" for u y
      using inserts(3) that unfolding insert_free_def apart_def by (simp add: tx_begin_def) metis
  qed (use r in \<open>simp add: tx_ok_def tx_begin_def\<close>)
  then show ?case by (rule put_seq_ok(3))
next
  case (draws s)
  then show ?case using seq_ok by blast
next
  case (unparks s m)
  then show ?case using unpark_ok by blast
next
  case (locks_resolve s t m)
  show ?case
  proof (rule put_seq_ok(2), rule inbox_ok_put [OF locks_resolve(3)])
    show "apart ((tx_begin (iw_clock (is_world s)) (Resolving m))\<lparr>tx_lock := Some (lock_key cf (dependency_on m))\<rparr>) y"
      if "u \<noteq> t" "is_txs s u = Some y" for u y
    proof -
      have "tx_lock y \<noteq> Some (lock_key cf (dependency_on m))" using locks_resolve(2) that(2) by (auto simp: lock_free_def)
      then show ?thesis by (auto simp: apart_def tx_begin_def)
    qed
  qed (simp add: tx_begin_def tx_ok_def)
next
  case (resolves s t x m written woken)
  let ?x = "x\<lparr>tx_phase := Ended (EMarks m None written)\<rparr>"
  have "inbox_ok cf (put_tx t ?x s)"
  proof (rule inbox_ok_put [OF resolves(5)])
    show "tx_ok cf (is_world s) ?x"
      using resolves move_okD [of cf s t x] resolves_ok [OF inbox_okD(1)] inbox_okD(2) [OF resolves(5,1)]
      by (auto simp: tx_ok_def simp del: ending_ok.simps)
    show "apart ?x y" if u: "u \<noteq> t" "is_txs s u = Some y" for u y
    proof -
      have "tx_resolved (tx_phase y) \<noteq> Some (id_of m)"
      proof
        assume "tx_resolved (tx_phase y) = Some (id_of m)"
        then obtain m' rs where y: "tx_phase y = Ended (EMarks m' None rs)" "id_of m' = id_of m"
          by (rule tx_resolvedE)
        then have "marks_row (is_world s) y m' None rs" using inbox_okD(2) [OF resolves(5) u(2)] by (simp add: tx_ok_def)
        then have "id_of m \<in> row_id ` set (tx_rows (tx_phase y))" using y by (auto simp: marks_row_def)
        then show False using resolves(3) u(2) unfolding row_free_def by blast
      qed
      then show ?thesis using inbox_okD(3) [OF resolves(5) u(1) [symmetric] resolves(1) u(2)] by (auto simp: apart_def)
    qed
  qed
  then show ?case by (rule put_seq_ok(1))
next
  case (sweeps gone s)
  then show ?case using sweep_ok by blast
qed (use move_okD in \<open>fastforce intro!: inbox_ok_move simp: deps_done_def\<close>)+

lemma inbox_start_ok: "inbox_ok cf (inbox_start cf)"
  by (auto simp: inbox_ok_def inbox_start_def inbox_world_ok_def inbox_world_new_def none_waits_for_processed_def
      is_processed_def done_ids_def done_in_order_def written_data_def)

theorem inbox_steps_ok:
  assumes "inbox_steps cf subscriber s s'" "0 < ic_slots cf" "inbox_ok cf s"
  shows "inbox_ok cf s'"
  using assms by (induction rule: inbox_steps.induct) (auto intro: inbox_step_ok)

end
