(* ===== verification/Inbox_Run.thy ===== *)
theory Inbox_Run
  imports Inbox_Safety
begin

section \<open>A dispatch alone is a run of its transaction\<close>

text \<open>
  \<open>inbox_dispatch\<close>, the dispatch of \<open>pg/dispatch.rs\<close> from beginning to end, as the statements of one
  transaction of \<open>Inbox_System\<close>, when no other is open.
\<close>

definition alone :: "'w inbox_world \<Rightarrow> 'w inbox_state" where
  "alone w = \<lparr>is_world = w, is_txs = (\<lambda>t. None)\<rparr>"

definition only_tx :: "'w inbox_tx \<Rightarrow> 'w inbox_world \<Rightarrow> 'w inbox_state" where
  "only_tx x w = \<lparr>is_world = w, is_txs = [0 \<mapsto> x]\<rparr>"

lemma alone_simps [simp]:
  "is_world (alone w) = w" "is_txs (alone w) = (\<lambda>t. None)" "put_tx 0 x (alone w) = only_tx x w"
  "(alone w)\<lparr>is_world := w'\<rparr> = alone w'"
  by (simp_all add: alone_def only_tx_def put_tx_def)

lemma only_tx_simps [simp]:
  "is_world (only_tx x w) = w" "is_txs (only_tx x w) 0 = Some x" "put_tx 0 x' (only_tx x w) = only_tx x' w"
  "(only_tx x w)\<lparr>is_world := w'\<rparr> = only_tx x w'" "(is_txs (only_tx x w))(0 := None) = (\<lambda>t. None)"
  by (auto simp: only_tx_def put_tx_def)

lemma lock_free_only: "tx_lock x = None \<Longrightarrow> lock_free (only_tx x w) d"
  by (auto simp: lock_free_def only_tx_def)

lemma inbox_steps_trans:
  assumes "inbox_steps cf f s' s''" "inbox_steps cf f s s'"
  shows "inbox_steps cf f s s''"
  using assms by (induction rule: inbox_steps.induct) (auto intro: inbox_steps.more)

lemma inbox_steps_one: "inbox_step cf f s s' \<Longrightarrow> inbox_steps cf f s s'"
  by (blast intro: inbox_steps.none inbox_steps.more)

lemma inbox_steps_first: "inbox_step cf f s s' \<Longrightarrow> inbox_steps cf f s' s'' \<Longrightarrow> inbox_steps cf f s s''"
  by (blast intro: inbox_steps_trans inbox_steps_one)

lemma abort_run: "inbox_steps cf f (only_tx x w) (alone w)"
proof -
  have "inbox_step cf f (only_tx x w) ((only_tx x w)\<lparr>is_txs := (is_txs (only_tx x w))(0 := None)\<rparr>)"
    by (rule inbox_step.aborts [of _ 0]) simp
  then show ?thesis by (intro inbox_steps_one) (simp add: only_tx_def alone_def)
qed

lemma commit_run:
  assumes "tx_phase x = Ended e"
  shows "inbox_steps cf f (only_tx x w) (alone (serve_slot x (commit_ending e w)))"
proof -
  have "inbox_step cf f (only_tx x w)
      \<lparr>is_world = serve_slot x (commit_ending e (is_world (only_tx x w))), is_txs = (is_txs (only_tx x w))(0 := None)\<rparr>"
    by (rule inbox_step.commits [of _ 0]) (simp_all add: assms)
  then show ?thesis by (intro inbox_steps_one) (simp add: alone_def)
qed

text \<open>One step of the only transaction.\<close>

lemma tx_run:
  assumes "inbox_step cf f (only_tx x w) (put_tx 0 x' (only_tx x w))" "inbox_steps cf f (only_tx x' w) s"
  shows "inbox_steps cf f (only_tx x w) s"
  using assms unfolding only_tx_simps by (rule inbox_steps_first)

lemma checks_run:
  "first_unprocessed (iw_rows w) ds = None \<Longrightarrow>
    inbox_steps cf f (only_tx (x\<lparr>tx_phase := Checking m ds\<rparr>) w) (only_tx (x\<lparr>tx_phase := Cleared m\<rparr>) w)"
  "first_unprocessed (iw_rows w) ds = Some d \<Longrightarrow>
    inbox_steps cf f (only_tx (x\<lparr>tx_phase := Checking m ds\<rparr>) w) (only_tx (x\<lparr>tx_phase := Lacking m d\<rparr>) w)"
proof (induction ds)
  case Nil
  {
    case 1
    show ?case
      using tx_run [OF inbox_step.clears [of "only_tx (x\<lparr>tx_phase := Checking m []\<rparr>) w" 0 "x\<lparr>tx_phase := Checking m []\<rparr>" m] inbox_steps.none]
      by simp
  next
    case 2
    then show ?case by simp
  }
next
  case (Cons e ds)
  have found: "inbox_steps cf f (only_tx (x\<lparr>tx_phase := Checking m (e # ds)\<rparr>) w) s"
    if "is_processed (iw_rows w) (canon_id e)" "inbox_steps cf f (only_tx (x\<lparr>tx_phase := Checking m ds\<rparr>) w) s" for s
    using tx_run [OF inbox_step.finds [of "only_tx (x\<lparr>tx_phase := Checking m (e # ds)\<rparr>) w" 0 "x\<lparr>tx_phase := Checking m (e # ds)\<rparr>" m e ds]]
      that by simp
  {
    case 1
    then show ?case using found Cons.IH(1) by (simp split: if_splits)
  next
    case 2
    show ?case
    proof (cases "is_processed (iw_rows w) (canon_id e)")
      case True
      then show ?thesis using 2 found Cons.IH(2) by simp
    next
      case False
      then have "e = d" using 2 by simp
      then show ?thesis
        using False tx_run [OF inbox_step.lacks [of "only_tx (x\<lparr>tx_phase := Checking m (e # ds)\<rparr>) w" 0
              "x\<lparr>tx_phase := Checking m (e # ds)\<rparr>" m e ds] inbox_steps.none] by simp
    qed
  }
qed

text \<open>The head worked: \<open>served\<close> is the world with the slot served, as \<open>work_head\<close> has it.\<close>

lemma serve_slot_commute:
  assumes "tx_slot x = Some slot" "tx_now x = now"
  shows "serve_slot x (w\<lparr>iw_rows := rows\<rparr>) = w\<lparr>iw_slots := AList.update slot now (iw_slots w), iw_rows := rows\<rparr>"
    "serve_slot x w = w\<lparr>iw_slots := AList.update slot now (iw_slots w)\<rparr>"
    "serve_slot x (w\<lparr>iw_seq := n, iw_rows := rows, iw_data := dt, iw_done := dn\<rparr>)
      = w\<lparr>iw_slots := AList.update slot now (iw_slots w), iw_seq := n, iw_rows := rows, iw_data := dt, iw_done := dn\<rparr>"
  using assms by (cases w, simp add: serve_slot_def)+

lemma wait_run:
  assumes x: "tx_now x = iw_clock w" "tx_slot x = Some slot" "tx_lock x = None"
    and set: "set_waiting_unless_processed (iw_clock w) m d (iw_rows w) = [r]"
  shows "inbox_steps cf f (only_tx (x\<lparr>tx_phase := Lacking m d\<rparr>) w)
    (alone (w\<lparr>iw_slots := AList.update slot (iw_clock w) (iw_slots w), iw_rows := apply_rows [r] (iw_rows w)\<rparr>))"
proof -
  let ?l = "x\<lparr>tx_phase := Lacking m d\<rparr>" and ?w = "x\<lparr>tx_lock := Some (lock_key cf d), tx_phase := Waiting m d\<rparr>"
    and ?e = "x\<lparr>tx_lock := Some (lock_key cf d), tx_phase := Ended (EWaits r d)\<rparr>"
  have s1: "inbox_step cf f (only_tx ?l w) (put_tx 0 (?l\<lparr>tx_lock := Some (lock_key cf d), tx_phase := Waiting m d\<rparr>) (only_tx ?l w))"
    by (rule inbox_step.locks_wait) (simp_all add: lock_free_only x)
  have s2: "inbox_step cf f (only_tx ?w w) (put_tx 0 (?w\<lparr>tx_phase := Ended (EWaits r d)\<rparr>) (only_tx ?w w))"
    by (rule inbox_step.waits [where m = m]) (use set x in simp_all)
  have s3: "inbox_steps cf f (only_tx ?e w) (alone (serve_slot ?e (commit_ending (EWaits r d) w)))"
    by (rule commit_run) simp
  have "inbox_steps cf f (only_tx ?w w) (alone (serve_slot ?e (commit_ending (EWaits r d) w)))"
    using tx_run [OF s2] s3 by simp
  then have "inbox_steps cf f (only_tx ?l w) (alone (serve_slot ?e (commit_ending (EWaits r d) w)))"
    using tx_run [OF s1] by simp
  then show ?thesis using x by (simp add: serve_slot_commute(1) [where slot = slot])
qed

lemma mark_run:
  assumes x: "tx_now x = iw_clock w" "tx_slot x = Some slot" "tx_lock x = None"
    and mk: "mark_processed m (iw_seq w) (iw_clock w) (iw_rows w) = Inr (written, woken)"
  shows "inbox_steps cf f (only_tx (x\<lparr>tx_phase := Handled m ws\<rparr>) w)
    (alone (w\<lparr>iw_slots := AList.update slot (iw_clock w) (iw_slots w), iw_seq := iw_seq w + 1,
       iw_rows := apply_rows written (iw_rows w), iw_data := iw_data w @ ws, iw_done := iw_done w @ [(m, Some ws)]\<rparr>))"
proof -
  let ?h = "x\<lparr>tx_phase := Handled m ws\<rparr>" and ?e = "Ended (EMarks m (Some ws) written)"
  have finish: "inbox_steps cf f (only_tx (y\<lparr>tx_phase := Marking m ws\<rparr>) w)
    (alone (w\<lparr>iw_slots := AList.update slot (iw_clock w) (iw_slots w), iw_seq := iw_seq w + 1,
       iw_rows := apply_rows written (iw_rows w), iw_data := iw_data w @ ws, iw_done := iw_done w @ [(m, Some ws)]\<rparr>))"
    if y: "tx_now y = iw_clock w" "tx_slot y = Some slot" for y
  proof -
    let ?m = "only_tx (y\<lparr>tx_phase := Marking m ws\<rparr>) w" and ?w = "w\<lparr>iw_seq := iw_seq w + 1\<rparr>"
    have s1: "inbox_step cf f ?m (put_tx 0 ((y\<lparr>tx_phase := Marking m ws\<rparr>)\<lparr>tx_phase := ?e\<rparr>)
        (?m\<lparr>is_world := (is_world ?m)\<lparr>iw_seq := iw_seq (is_world ?m) + 1\<rparr>\<rparr>))"
      by (rule inbox_step.marks [where woken = woken]) (use mk in simp_all)
    have "inbox_steps cf f (only_tx (y\<lparr>tx_phase := ?e\<rparr>) ?w)
        (alone (serve_slot (y\<lparr>tx_phase := ?e\<rparr>) (commit_ending (EMarks m (Some ws) written) ?w)))"
      by (rule commit_run) simp
    then have "inbox_steps cf f ?m (alone (serve_slot (y\<lparr>tx_phase := ?e\<rparr>) (commit_ending (EMarks m (Some ws) written) ?w)))"
      using inbox_steps_first [OF s1] by simp
    then show ?thesis using y by (simp add: serve_slot_commute(3) [where slot = slot])
  qed
  show ?thesis
  proof (cases "1 < ic_slots cf")
    case True
    have "inbox_step cf f (only_tx ?h w) (put_tx 0 (?h\<lparr>tx_lock := Some (lock_key cf (dependency_on m)), tx_phase := Marking m ws\<rparr>) (only_tx ?h w))"
      by (rule inbox_step.locks_mark) (use True x in \<open>simp_all add: lock_free_only\<close>)
    from tx_run [OF this] finish [of "x\<lparr>tx_lock := Some (lock_key cf (dependency_on m))\<rparr>"] x show ?thesis by simp
  next
    case False
    have "inbox_step cf f (only_tx ?h w) (put_tx 0 (?h\<lparr>tx_phase := Marking m ws\<rparr>) (only_tx ?h w))"
      by (rule inbox_step.needs_no_lock) (use False in simp_all)
    from tx_run [OF this] finish [of x] x show ?thesis by simp
  qed
qed

lemma fail_run:
  assumes x: "tx_now x = iw_clock w" "tx_slot x = Some slot"
    and rec: "record_failure cf (iw_clock w) m fl (ic_backoff cf (nat (im_attempts m + 1))) (iw_rows w) = Inr (written, attempts, parked)"
  shows "inbox_steps cf f (only_tx (x\<lparr>tx_phase := Failing m fl\<rparr>) w)
    (alone (w\<lparr>iw_slots := AList.update slot (iw_clock w) (iw_slots w), iw_rows := apply_rows written (iw_rows w)\<rparr>))"
proof -
  obtain r where r: "written = [r]" using rec by (auto simp: record_failure_def Let_def split: option.splits if_splits)
  let ?p = "x\<lparr>tx_phase := Failing m fl\<rparr>" and ?e = "x\<lparr>tx_phase := Ended (EFails r)\<rparr>"
  have s1: "inbox_step cf f (only_tx ?p w) (put_tx 0 (?p\<lparr>tx_phase := Ended (EFails r)\<rparr>) (only_tx ?p w))"
    by (rule inbox_step.records [where m = m and f = fl and attempts = attempts and parked = parked]) (use rec r x in simp_all)
  have "inbox_steps cf f (only_tx ?e w) (alone (serve_slot ?e (commit_ending (EFails r) w)))"
    by (rule commit_run) simp
  then have "inbox_steps cf f (only_tx ?p w) (alone (serve_slot ?e (commit_ending (EFails r) w)))"
    using tx_run [OF s1] by simp
  then show ?thesis using x r by (simp add: serve_slot_commute(1) [where slot = slot])
qed


section \<open>Dispatches one after another\<close>

lemma fail_writes_one:
  "record_failure cf now m fl after rows = Inr (written, attempts, parked) \<Longrightarrow> \<exists>r. written = [r]"
  by (auto simp: record_failure_def Let_def split: option.splits if_splits)

text \<open>The head of a slot waits for its first unprocessed dependency, and then one row is written.\<close>

lemma set_waiting_head:
  assumes ok: "inbox_world_ok cf w" and head: "slot_head (iw_rows w) slot = Some r" and "\<not> is_processed (iw_rows w) (canon_id d)"
  shows "set_waiting_unless_processed now (ir_message r) d (iw_rows w) =
    [with_message (im_waiting_for_update (\<lambda>_. Some d)) r\<lparr>ir_waiting_since := Some now\<rparr>]"
  using filter_row [OF inbox_world_okD(1) [OF ok] slot_headD(1) [OF head]] assms(3)
  by (simp add: set_waiting_unless_processed_def row_id_def)

lemma work_run:
  assumes ok: "inbox_world_ok cf w" and head: "slot_head (iw_rows w) slot = Some r" and m: "m = ir_message r"
    and x: "tx_now x = iw_clock w" "tx_slot x = Some slot" "tx_lock x = None"
    and work: "work_head cf subscriber m (w\<lparr>iw_slots := AList.update slot (iw_clock w) (iw_slots w)\<rparr>) = (res, w')"
  shows "inbox_steps cf subscriber (only_tx (x\<lparr>tx_phase := Checking m (causal_dependencies (ic_parse cf) m)\<rparr>) w)
    (alone (case res of Inl e \<Rightarrow> w | Inr out \<Rightarrow> w'))"
proof (cases "first_unprocessed (iw_rows w) (causal_dependencies (ic_parse cf) m)")
  case (Some d)
  note d = first_unprocessed_Some [OF Some]
  obtain r' where r': "set_waiting_unless_processed (iw_clock w) m d (iw_rows w) = [r']"
    using set_waiting_head [OF ok head, of d] d m by simp
  have "res = Inr ISetAside" "w' = w\<lparr>iw_slots := AList.update slot (iw_clock w) (iw_slots w), iw_rows := apply_rows [r'] (iw_rows w)\<rparr>"
    using work Some r' by (auto simp: work_head_def)
  then show ?thesis
    using inbox_steps_trans [OF wait_run [OF x r'] checks_run(2) [OF Some]] by simp
next
  case None
  note clear = checks_run(1) [OF None]
  let ?c = "x\<lparr>tx_phase := Cleared m\<rparr>"
  obtain writes a where sub: "subscriber m (iw_data w) = (writes, a)" by fastforce
  show ?thesis
  proof (cases a)
    case ASucceeded
    have h: "inbox_step cf subscriber (only_tx ?c w) (put_tx 0 (?c\<lparr>tx_phase := Handled m writes\<rparr>) (only_tx ?c w))"
      by (rule inbox_step.handles) (use sub ASucceeded in simp_all)
    show ?thesis
    proof (cases "mark_processed m (iw_seq w) (iw_clock w) (iw_rows w)")
      case (Inl e)
      then have "res = Inl e" using work None sub ASucceeded by (auto simp: work_head_def)
      then show ?thesis using inbox_steps_trans [OF abort_run clear] by simp
    next
      case (Inr v)
      obtain written woken where v: "v = (written, woken)" by fastforce
      note mk = Inr [unfolded v]
      have "inbox_steps cf subscriber (only_tx ?c w)
        (alone (w\<lparr>iw_slots := AList.update slot (iw_clock w) (iw_slots w), iw_seq := iw_seq w + 1,
         iw_rows := apply_rows written (iw_rows w), iw_data := iw_data w @ writes, iw_done := iw_done w @ [(m, Some writes)]\<rparr>))"
        using tx_run [OF h] mark_run [OF x mk, where cf = cf and f = subscriber and ws = writes] by simp
      moreover have "res = Inr IProcessed" "w' = w\<lparr>iw_slots := AList.update slot (iw_clock w) (iw_slots w), iw_seq := iw_seq w + 1,
         iw_rows := apply_rows written (iw_rows w), iw_data := iw_data w @ writes, iw_done := iw_done w @ [(m, Some writes)]\<rparr>"
        using work None sub ASucceeded mk by (auto simp: work_head_def)
      ultimately show ?thesis using inbox_steps_trans [OF _ clear] by simp
    qed
  next
    case (AFailed fl)
    have h: "inbox_step cf subscriber (only_tx ?c w) (put_tx 0 (?c\<lparr>tx_phase := Failing m fl\<rparr>) (only_tx ?c w))"
      by (rule inbox_step.fails) (use sub AFailed in simp_all)
    show ?thesis
    proof (cases "record_failure cf (iw_clock w) m fl (ic_backoff cf (nat (im_attempts m + 1))) (iw_rows w)")
      case (Inl e)
      then have "res = Inl e" using work None sub AFailed by (auto simp: work_head_def)
      then show ?thesis using inbox_steps_trans [OF abort_run clear] by simp
    next
      case (Inr v)
      obtain written attempts parked where v: "v = (written, attempts, parked)" by (cases v)
      note rec = Inr [unfolded v]
      have "inbox_steps cf subscriber (only_tx ?c w)
        (alone (w\<lparr>iw_slots := AList.update slot (iw_clock w) (iw_slots w), iw_rows := apply_rows written (iw_rows w)\<rparr>))"
        using tx_run [OF h] fail_run [OF x(1,2) rec, where f = subscriber] by simp
      moreover have "res = Inr (IFailed attempts parked)"
        "w' = w\<lparr>iw_slots := AList.update slot (iw_clock w) (iw_slots w), iw_rows := apply_rows written (iw_rows w)\<rparr>"
        using work None sub AFailed rec by (auto simp: work_head_def)
      ultimately show ?thesis using inbox_steps_trans [OF _ clear] by simp
    qed
  next
    case (ABroken e)
    then have "res = Inl e" using work None sub by (auto simp: work_head_def)
    then show ?thesis using inbox_steps_trans [OF abort_run clear] by simp
  qed
qed

lemma expire_run: "inbox_steps cf f (alone w) (alone (expire cf [] w))"
proof (cases "ic_max_wait cf")
  case None
  then show ?thesis by (simp add: expire_def inbox_steps.none)
next
  case (Some max_wait)
  have "inbox_step cf f (alone w) ((alone w)\<lparr>is_world := expire cf [] (is_world (alone w))\<rparr>)"
    by (rule inbox_step.expires [OF Some]) (simp add: row_free_def)
  then show ?thesis by (intro inbox_steps_one) simp
qed

lemma expire_fields [simp]:
  "iw_clock (expire cf l w) = iw_clock w" "iw_slots (expire cf l w) = iw_slots w" "iw_seq (expire cf l w) = iw_seq w"
  "iw_data (expire cf l w) = iw_data w" "iw_done (expire cf l w) = iw_done w" "iw_forgotten (expire cf l w) = iw_forgotten w"
  by (simp_all add: expire_def split: option.split)

text \<open>What a dispatch finds: the slot it takes has a due head.\<close>

lemma take_due:
  assumes "inbox_take now held rows slots = (Some slot, slots')"
  shows "head_due now rows slot" "slots' = AList.update slot now slots"
proof -
  let ?q = "filter (\<lambda>(s, _). s \<notin> set held \<and> head_due now rows s) slots"
  obtain t rest where q: "sort_key snd ?q = (slot, t) # rest"
    using assms by (auto simp: inbox_take_def split: list.splits)
  then have "(slot, t) \<in> set ?q" by (metis list.set_intros(1) set_sort)
  then show "head_due now rows slot" by simp
  show "slots' = AList.update slot now slots" using assms q by (simp add: inbox_take_def)
qed

lemma take_none:
  assumes "inbox_take now held rows slots = (None, slots')" "s \<in> fst ` set slots" "s \<notin> set held"
  shows "\<not> head_due now rows s"
proof
  assume due: "head_due now rows s"
  let ?q = "filter (\<lambda>(s, _). s \<notin> set held \<and> head_due now rows s) slots"
  have "sort_key snd ?q = []" using assms(1) by (auto simp: inbox_take_def split: list.splits)
  then have "set ?q = {}" by (metis list.set(1) set_sort)
  then show False using due assms(2,3) by auto
qed

lemma head_dueD:
  assumes "head_due now rows slot"
  obtains r where "slot_head rows slot = Some r" "head_of now rows slot = Some (ir_message r, False)"
  using assms by (auto simp: head_due_def head_of_def split: option.splits)

lemma dispatch_cases:
  assumes "inbox_dispatch cf subscriber held w0 = (res, w')"
  obtains "res = Inr INothing" "w' = expire cf [] w0"
      "inbox_take (iw_clock w0) held (iw_rows (expire cf [] w0)) (iw_slots w0) = (None, iw_slots w0)"
  | slot r out w1 where "inbox_take (iw_clock w0) held (iw_rows (expire cf [] w0)) (iw_slots w0)
        = (Some slot, AList.update slot (iw_clock w0) (iw_slots w0))"
      "slot_head (iw_rows (expire cf [] w0)) slot = Some r" "head_of (iw_clock w0) (iw_rows (expire cf [] w0)) slot = Some (ir_message r, False)"
      "work_head cf subscriber (ir_message r) ((expire cf [] w0)\<lparr>iw_slots := AList.update slot (iw_clock w0) (iw_slots w0)\<rparr>) = (out, w1)"
      "res = out" "w' = (case out of Inl e \<Rightarrow> expire cf [] w0 | Inr v \<Rightarrow> w1)"
proof -
  let ?w = "expire cf [] w0"
  obtain o' slots' where take: "inbox_take (iw_clock w0) held (iw_rows ?w) (iw_slots w0) = (o', slots')" by fastforce
  show thesis
  proof (cases o')
    case None
    then have "slots' = iw_slots w0" using take by (auto simp: inbox_take_def split: list.splits)
    then show thesis using that(1) take None assms by (simp add: inbox_dispatch_def Let_def)
  next
    case (Some slot)
    note due = take_due [OF take [unfolded Some]]
    obtain r where r: "slot_head (iw_rows ?w) slot = Some r" "head_of (iw_clock w0) (iw_rows ?w) slot = Some (ir_message r, False)"
      using head_dueD [OF due(1)] by blast
    obtain out w1 where work: "work_head cf subscriber (ir_message r) (?w\<lparr>iw_slots := AList.update slot (iw_clock w0) (iw_slots w0)\<rparr>) = (out, w1)"
      by fastforce
    show thesis
    proof (rule that(2) [OF _ r work])
      show "inbox_take (iw_clock w0) held (iw_rows ?w) (iw_slots w0) = (Some slot, AList.update slot (iw_clock w0) (iw_slots w0))"
        using take Some due(2) by simp
      show "res = out" "w' = (case out of Inl e \<Rightarrow> ?w | Inr v \<Rightarrow> w1)"
        using assms take Some due(2) r(2) work by (auto simp: inbox_dispatch_def Let_def split: sum.splits)
    qed
  qed
qed

theorem dispatch_run:
  assumes ok: "inbox_world_ok cf w" and cf: "0 < ic_slots cf" and "inbox_dispatch cf subscriber held w = (res, w')"
  shows "inbox_steps cf subscriber (alone w) (alone w')"
  using assms(3)
proof (cases rule: dispatch_cases)
  case 1
  then show ?thesis using expire_run by simp
next
  case (2 slot r out w1)
  let ?w = "expire cf [] w" and ?b = "tx_begin (iw_clock w) Begun"
  let ?m = "ir_message r" and ?x = "tx_begin (iw_clock w) Begun\<lparr>tx_slot := Some slot\<rparr>"
  have "inbox_ok cf (alone w)" using ok by (simp add: inbox_ok_def)
  then have w: "inbox_world_ok cf ?w"
    using inbox_okD(1) [OF inbox_steps_ok [OF expire_run cf]] by fastforce
  have "inbox_step cf subscriber (alone ?w) (put_tx 0 (tx_begin (iw_clock (is_world (alone ?w))) Begun) (alone ?w))"
    by (rule inbox_step.begins) simp
  then have s1: "inbox_step cf subscriber (alone ?w) (only_tx ?b ?w)" by simp
  have s2: "inbox_step cf subscriber (only_tx ?b ?w) (put_tx 0 (?b\<lparr>tx_slot := Some slot, tx_phase := Took\<rparr>) (only_tx ?b ?w))"
    by (rule inbox_step.takes [where held = held and rows = "iw_rows ?w"])
      (use 2(1) in \<open>auto simp: tx_begin_def slot_free_def only_tx_def\<close>)
  let ?t = "?x\<lparr>tx_phase := Took\<rparr>"
  have s3: "inbox_step cf subscriber (only_tx ?t ?w)
      (put_tx 0 (?t\<lparr>tx_phase := Checking ?m (causal_dependencies (ic_parse cf) ?m)\<rparr>) (only_tx ?t ?w))"
    by (rule inbox_step.reads [where slot = slot]) (use 2(3) in \<open>simp_all add: tx_begin_def\<close>)
  have s4: "inbox_steps cf subscriber (only_tx (?x\<lparr>tx_phase := Checking ?m (causal_dependencies (ic_parse cf) ?m)\<rparr>) ?w)
      (alone (case out of Inl e \<Rightarrow> ?w | Inr out \<Rightarrow> w1))"
    by (rule work_run [OF w 2(2)]) (use 2(4) in \<open>simp_all add: tx_begin_def\<close>)
  have "inbox_steps cf subscriber (only_tx ?t ?w) (alone w')" using tx_run [OF s3] s4 2(6) by simp
  then have "inbox_steps cf subscriber (only_tx ?b ?w) (alone w')" using tx_run [OF s2] by simp
  then show ?thesis using inbox_steps_trans [OF inbox_steps_first [OF s1] expire_run] by blast
qed

corollary dispatch_world_ok:
  assumes "inbox_world_ok cf w" "0 < ic_slots cf" "inbox_dispatch cf subscriber held w = (res, w')"
  shows "inbox_world_ok cf w'"
  using inbox_okD(1) [OF inbox_steps_ok [OF dispatch_run [OF assms] assms(2)]] assms(1) by (fastforce simp: inbox_ok_def)

end
