(* ===== verification/Inbox_Liveness.thy ===== *)
theory Inbox_Liveness
  imports Inbox_Run
begin

section \<open>Everything received is processed\<close>

text \<open>
  What is left to do is measured over the unprocessed rows: two for every dependency a row still lacks,
  one for the row, and one more while it is in the queue. Setting a head aside takes it out of the queue; a
  mark takes a row away and, from each row it wakes, a dependency.
\<close>

definition lacking :: "inbox_config \<Rightarrow> inbox_row list \<Rightarrow> inbox_message \<Rightarrow> nat" where
  "lacking cf rows m = length (filter (\<lambda>d. \<not> is_processed rows (canon_id d)) (causal_dependencies (ic_parse cf) m))"

definition row_work :: "inbox_config \<Rightarrow> inbox_row list \<Rightarrow> inbox_row \<Rightarrow> nat" where
  "row_work cf rows r = (if is_row_processed r then 0 else 2 * lacking cf rows (ir_message r) + 1 + (if in_queue r then 1 else 0))"

definition work_left :: "inbox_config \<Rightarrow> inbox_row list \<Rightarrow> nat" where
  "work_left cf rows = sum_list (map (row_work cf rows) rows)"

lemma sum_list_less:
  fixes g h :: "'a \<Rightarrow> nat"
  assumes "\<And>x. x \<in> set xs \<Longrightarrow> g x \<le> h x" "x \<in> set xs" "g x < h x"
  shows "sum_list (map g xs) < sum_list (map h xs)"
  using assms
proof (induction xs)
  case (Cons y ys)
  have le: "sum_list (map g ys) \<le> sum_list (map h ys)" using Cons.prems(1) by (intro sum_list_mono) simp
  show ?case
  proof (cases "x = y")
    case True
    then show ?thesis using le Cons.prems(3) by simp
  next
    case False
    then have "sum_list (map g ys) < sum_list (map h ys)" using Cons by simp
    moreover have "g y \<le> h y" using Cons.prems(1) by simp
    ultimately show ?thesis by simp
  qed
qed simp

lemma apply_rows_map:
  assumes "distinct (map row_id ws)"
    and "\<And>r. r \<in> set rows \<Longrightarrow> row_id r \<in> row_id ` set ws \<Longrightarrow> g r \<in> set ws \<and> row_id (g r) = row_id r"
    and "\<And>r. r \<in> set rows \<Longrightarrow> row_id r \<notin> row_id ` set ws \<Longrightarrow> g r = r"
  shows "apply_rows ws rows = map g rows"
proof -
  have "(case find (\<lambda>x. row_id x = row_id r) ws of Some x \<Rightarrow> x | None \<Rightarrow> r) = g r" if r: "r \<in> set rows" for r
  proof (cases "row_id r \<in> row_id ` set ws")
    case True
    note gr = assms(2) [OF r True]
    show ?thesis using find_row [OF assms(1), of "g r"] gr by simp
  next
    case False
    then have "find (\<lambda>x. row_id x = row_id r) ws = None" unfolding find_None_iff by (metis image_eqI)
    then show ?thesis using assms(3) [OF r False] by simp
  qed
  then show ?thesis by (simp add: apply_rows_def)
qed

text \<open>A change that only processes more rows, wakes and sets aside.\<close>

definition advances :: "(inbox_row \<Rightarrow> inbox_row) \<Rightarrow> bool" where
  "advances g \<longleftrightarrow> (\<forall>r. row_id (g r) = row_id r \<and> ir_next_attempt_at (g r) = ir_next_attempt_at r
    \<and> ir_parked_at (g r) = ir_parked_at r \<and> im_metadata (ir_message (g r)) = im_metadata (ir_message r)
    \<and> (is_row_processed r \<longrightarrow> is_row_processed (g r)))"

lemma advancesD:
  assumes "advances g"
  shows "row_id (g r) = row_id r" "ir_next_attempt_at (g r) = ir_next_attempt_at r" "ir_parked_at (g r) = ir_parked_at r"
    "causal_dependencies p (ir_message (g r)) = causal_dependencies p (ir_message r)"
    "is_row_processed r \<Longrightarrow> is_row_processed (g r)"
  using assms by (auto simp: advances_def causal_dependencies_def)

lemma advances_processed:
  assumes "advances g" "is_processed rows d"
  shows "is_processed (map g rows) d"
  using assms advancesD(1,5) [OF assms(1)] by (fastforce simp: is_processed_iff)

lemma advances_lacking:
  assumes "advances g"
  shows "lacking cf (map g rows) (ir_message (g r)) \<le> lacking cf rows (ir_message r)"
proof -
  have "length (filter (\<lambda>d. \<not> is_processed (map g rows) (canon_id d)) ds) \<le> length (filter (\<lambda>d. \<not> is_processed rows (canon_id d)) ds)" for ds
    by (induction ds) (auto dest: advances_processed [OF assms])
  then show ?thesis by (simp add: lacking_def advancesD(4) [OF assms])
qed

lemma advances_lacking_less:
  assumes "advances g" "d \<in> set (causal_dependencies (ic_parse cf) (ir_message r))" "\<not> is_processed rows (canon_id d)" "is_processed (map g rows) (canon_id d)"
  shows "lacking cf (map g rows) (ir_message (g r)) < lacking cf rows (ir_message r)"
proof -
  have le: "length (filter (\<lambda>d. \<not> is_processed (map g rows) (canon_id d)) ds) \<le> length (filter (\<lambda>d. \<not> is_processed rows (canon_id d)) ds)" for ds
    by (induction ds) (auto dest: advances_processed [OF assms(1)])
  have "length (filter (\<lambda>d. \<not> is_processed (map g rows) (canon_id d)) ds) < length (filter (\<lambda>d. \<not> is_processed rows (canon_id d)) ds)" if "d \<in> set ds" for ds
    using that
  proof (induction ds)
    case (Cons e ds)
    show ?case
    proof (cases "e = d")
      case True
      then show ?thesis using assms(3,4) le [of ds] by simp
    next
      case False
      then show ?thesis using Cons advances_processed [OF assms(1), of rows "canon_id e"] by auto
    qed
  qed simp
  then show ?thesis using assms(2) by (simp add: lacking_def advancesD(4) [OF assms(1)])
qed

lemma row_work_kept:
  assumes "advances g" "g r = r"
  shows "row_work cf (map g rows) (g r) \<le> row_work cf rows r"
  using advances_lacking [OF assms(1), of cf rows r] assms(2) by (simp add: row_work_def)

lemma work_left_map:
  assumes "\<And>r. r \<in> set rows \<Longrightarrow> row_work cf (map g rows) (g r) \<le> row_work cf rows r"
    "r \<in> set rows" "row_work cf (map g rows) (g r) < row_work cf rows r"
  shows "work_left cf (map g rows) < work_left cf rows"
  unfolding work_left_def map_map using sum_list_less [of rows "\<lambda>r. row_work cf (map g rows) (g r)" "row_work cf rows" r] assms by (simp add: comp_def)

subsection \<open>The two ways a head is worked\<close>

lemma set_aside_advances:
  assumes ok: "inbox_world_ok cf w" and head: "slot_head (iw_rows w) slot = Some r" and not: "\<not> is_processed (iw_rows w) (canon_id d)"
    and r': "r' = with_message (im_waiting_for_update (\<lambda>_. Some d)) r\<lparr>ir_waiting_since := Some now\<rparr>"
  obtains g where "apply_rows [r'] (iw_rows w) = map g (iw_rows w)" "advances g"
    "work_left cf (map g (iw_rows w)) < work_left cf (iw_rows w)"
    "none_waits_for_processed (iw_rows w) \<longrightarrow> none_waits_for_processed (map g (iw_rows w))"
proof -
  let ?rows = "iw_rows w"
  define f where "f = (\<lambda>q. with_message (im_waiting_for_update (\<lambda>_. Some d)) q\<lparr>ir_waiting_since := Some now\<rparr>)"
  define g where "g = (\<lambda>q. if row_id q = row_id r then f q else q)"
  note r = slot_headD(1,3) [OF head]
  have f: "row_id (f q) = row_id q" "is_row_processed (f q) = is_row_processed q" "\<not> in_queue (f q)" for q
    by (simp_all add: f_def row_id_def is_row_processed_def in_queue_def)
  have adv: "advances g"
    by (auto simp: advances_def g_def f) (auto simp: f_def)
  have "apply_rows [r'] ?rows = map g ?rows"
  proof (rule apply_rows_map)
    show "g q \<in> set [r'] \<and> row_id (g q) = row_id q" if "q \<in> set ?rows" "row_id q \<in> row_id ` set [r']" for q
    proof -
      have "row_id q = row_id r" using that(2) r' f(1) [of r] by (simp add: f_def)
      moreover from this have "q = r" using same_row [OF inbox_world_okD(1) [OF ok] that(1) r(1)] by simp
      ultimately show ?thesis using r' f(1) [of r] by (simp add: g_def f_def)
    qed
    show "g q = q" if "row_id q \<notin> row_id ` set [r']" for q
      using that r' f(1) [of r] by (simp add: g_def f_def)
  qed simp
  moreover have less: "row_work cf (map g ?rows) (g r) < row_work cf ?rows r"
  proof -
    have "\<not> is_row_processed r" using r(2) by (simp add: in_queue_def)
    moreover have "g r = f r" by (simp add: g_def)
    ultimately show ?thesis using advances_lacking [OF adv, of cf ?rows r] r(2) f [of r] by (simp add: row_work_def)
  qed
  moreover have "work_left cf (map g ?rows) < work_left cf ?rows"
  proof (rule work_left_map [OF _ r(1) less])
    fix q assume q: "q \<in> set ?rows"
    show "row_work cf (map g ?rows) (g q) \<le> row_work cf ?rows q"
    proof (cases "row_id q = row_id r")
      case True
      then have "q = r" using same_row [OF inbox_world_okD(1) [OF ok] q r(1)] by simp
      then show ?thesis using less by simp
    next
      case False
      then show ?thesis by (intro row_work_kept [OF adv]) (simp add: g_def)
    qed
  qed
  moreover have "none_waits_for_processed (map g ?rows)" if "none_waits_for_processed ?rows"
  proof -
    have processed: "is_processed (map g ?rows) i = is_processed ?rows i" for i
    proof -
      have "row_id (g q) = row_id q" "is_row_processed (g q) = is_row_processed q" for q using f(1,2) by (simp_all add: g_def)
      then show ?thesis by (simp add: is_processed_def list_ex_iff)
    qed
    have "waits_on (g q) = Some i \<Longrightarrow> waits_on q = Some i \<or> i = canon_id d" for q i
      by (auto simp: g_def f_def waits_on_def split: if_splits)
    then show ?thesis using that not unfolding none_waits_for_processed_def processed by fastforce
  qed
  ultimately show thesis using that adv by blast
qed

lemma mark_advances:
  assumes ok: "inbox_world_ok cf w" and head: "slot_head (iw_rows w) slot = Some r"
    and mk: "mark_processed (ir_message r) pos at (iw_rows w) = Inr (written, woken)"
  obtains g where "apply_rows written (iw_rows w) = map g (iw_rows w)" "advances g"
    "work_left cf (map g (iw_rows w)) < work_left cf (iw_rows w)"
    "none_waits_for_processed (iw_rows w) \<longrightarrow> none_waits_for_processed (map g (iw_rows w))"
proof -
  let ?rows = "iw_rows w" and ?i = "row_id r"
  define g where "g = (\<lambda>q. if row_id q = ?i then marked_row pos at q
    else if waits_on q = Some ?i then woken_row q else q)"
  note r = slot_headD(1,3) [OF head] and dist = inbox_world_okD(1) [OF ok]
  have written: "written = marked_row pos at r # woken_rows ?i ?rows"
    using mk filter_row [OF dist r(1) refl] by (simp add: mark_processed_def Let_def row_id_def)
  have adv: "advances g"
    by (auto simp: advances_def g_def) (auto simp: marked_row_def woken_row_def is_row_processed_def)
  have ri: "q = r" if "q \<in> set ?rows" "row_id q = ?i" for q
    using same_row [OF dist that(1) r(1)] that(2) by simp
  have notw: "im_waiting_for (ir_message r) = None" "\<not> is_row_processed r" using r(2) by (auto simp: in_queue_def)
  have setids: "row_id ` set written = insert ?i (row_id ` {q \<in> set ?rows. waits_on q = Some ?i})"
    by (simp add: written woken_rows_def image_image)
  have applied: "apply_rows written ?rows = map g ?rows"
  proof (rule apply_rows_map)
    have "map row_id (woken_rows ?i ?rows) = map row_id (filter (\<lambda>q. waits_on q = Some ?i) ?rows)"
      by (simp add: woken_rows_def comp_def)
    moreover have "distinct (map row_id (filter (\<lambda>q. waits_on q = Some ?i) ?rows))"
      using dist by (simp add: distinct_map inj_on_def)
    moreover have "?i \<notin> row_id ` {q \<in> set ?rows. waits_on q = Some ?i}"
      using ri notw(1) by (auto simp: waits_on_def)
    ultimately show "distinct (map row_id written)" by (simp add: written)
    fix q assume q: "q \<in> set ?rows"
    {
      assume "row_id q \<in> row_id ` set written"
      then have "row_id q = ?i \<or> (\<exists>p\<in>set ?rows. waits_on p = Some ?i \<and> row_id q = row_id p)"
        unfolding setids by auto
      then have "row_id q = ?i \<or> waits_on q = Some ?i"
        using same_row [OF dist q] by metis
      then show "g q \<in> set written \<and> row_id (g q) = row_id q"
        using ri [OF q] q by (auto simp: g_def written woken_rows_def)
    next
      assume "row_id q \<notin> row_id ` set written"
      then have "row_id q \<noteq> ?i" "waits_on q \<noteq> Some ?i" unfolding setids using q by auto
      then show "g q = q" by (simp add: g_def)
    }
  qed
  have gr: "g r = marked_row pos at r" by (simp add: g_def)
  have processed: "is_processed (map g ?rows) ?i"
    using r(1) gr by (auto simp: is_processed_iff intro!: bexI [of _ r])
  have unprocessed: "\<not> is_processed ?rows ?i" using ri notw(2) by (auto simp: is_processed_iff)
  have less: "row_work cf (map g ?rows) (g r) < row_work cf ?rows r"
    using notw(2) by (simp add: row_work_def gr)
  have "work_left cf (map g ?rows) < work_left cf ?rows"
  proof (rule work_left_map [OF _ r(1) less])
    fix q assume q: "q \<in> set ?rows"
    consider "row_id q = ?i" | "row_id q \<noteq> ?i" "waits_on q = Some ?i"
      | "row_id q \<noteq> ?i" "waits_on q \<noteq> Some ?i" by blast
    then show "row_work cf (map g ?rows) (g q) \<le> row_work cf ?rows q"
    proof cases
      case 1
      then show ?thesis using ri [OF q] less by simp
    next
      case 2
      from 2(2) obtain d where d: "im_waiting_for (ir_message q) = Some d" "canon_id d = ?i" by (auto elim: waits_onE)
      then have "lacking cf (map g ?rows) (ir_message (g q)) < lacking cf ?rows (ir_message q)"
        using advances_lacking_less [OF adv row_okD(6) [OF inbox_world_okD(2) [OF ok q] d(1)]] unprocessed processed by simp
      moreover have "is_row_processed (g q) = is_row_processed q" using 2 by (simp add: g_def)
      ultimately show ?thesis by (simp add: row_work_def)
    next
      case 3
      then show ?thesis by (intro row_work_kept [OF adv]) (simp add: g_def)
    qed
  qed
  moreover have "none_waits_for_processed (map g ?rows)" if none: "none_waits_for_processed ?rows"
    unfolding none_waits_for_processed_def
  proof (intro ballI allI impI)
    fix q' j assume "q' \<in> set (map g ?rows)" "waits_on q' = Some j"
    then obtain q where q: "q \<in> set ?rows" "waits_on (g q) = Some j" by auto
    have "waits_on (g q) = None" if "row_id q = ?i" using ri [OF q(1) that] gr notw(1) by simp
    then have other: "row_id q \<noteq> ?i" using q(2) by auto
    have "waits_on q \<noteq> Some ?i" using q(2) other by (auto simp: g_def waits_on_def [of "woken_row q"])
    then have j: "waits_on q = Some j" "j \<noteq> ?i" using q(2) other by (auto simp: g_def)
    have "\<not> is_processed ?rows j" using none q(1) j(1) unfolding none_waits_for_processed_def by blast
    moreover have "is_row_processed (g p) \<longleftrightarrow> is_row_processed p" if "row_id p \<noteq> ?i" for p
      using that by (simp add: g_def)
    ultimately show "\<not> is_processed (map g ?rows) j"
      using advancesD(1) [OF adv] j(2) by (auto simp: is_processed_def list_ex_iff)
  qed
  ultimately show thesis using that applied adv by blast
qed

subsection \<open>A dispatch with a subscriber that succeeds\<close>

definition always_succeeds :: "'w subscriber \<Rightarrow> bool" where
  "always_succeeds f \<longleftrightarrow> (\<forall>m seen. snd (f m seen) = ASucceeded)"

definition never_failed :: "inbox_row list \<Rightarrow> bool" where
  "never_failed rows \<longleftrightarrow> (\<forall>r\<in>set rows. ir_next_attempt_at r = None \<and> ir_parked_at r = None)"

lemma dispatch_advances:
  assumes ok: "inbox_world_ok cf w" and wait: "ic_max_wait cf = None" and sub: "always_succeeds f"
    and run: "inbox_dispatch cf f [] w = (res, w')"
  shows "(\<exists>g. advances g \<and> iw_rows w' = map g (iw_rows w)) \<and> fst ` set (iw_slots w) \<subseteq> fst ` set (iw_slots w')
    \<and> (none_waits_for_processed (iw_rows w) \<longrightarrow> none_waits_for_processed (iw_rows w'))
    \<and> (work_left cf (iw_rows w') < work_left cf (iw_rows w)
       \<or> w' = w \<and> (\<forall>s\<in>fst ` set (iw_slots w). \<not> head_due (iw_clock w) (iw_rows w) s))"
proof -
  have e: "expire cf [] w = w" by (simp add: expire_def wait)
  have id: "advances (\<lambda>r. r)" by (simp add: advances_def)
  show ?thesis
    using run
  proof (cases rule: dispatch_cases)
    case 1
    then show ?thesis using take_none [of "iw_clock w" "[]" "iw_rows w" "iw_slots w"] id e
      by (auto intro!: exI [of _ "\<lambda>r. r"])
  next
    case (2 slot r out w1)
    note head = 2(2) [unfolded e] and work = 2(4) [unfolded e]
    let ?m = "ir_message r" and ?ds = "causal_dependencies (ic_parse cf) (ir_message r)"
    have slots: "fst ` set (AList.update slot (iw_clock w) (iw_slots w)) = insert slot (fst ` set (iw_slots w))"
      by (simp add: dom_update)
    show ?thesis
    proof (cases "first_unprocessed (iw_rows w) ?ds")
      case (Some d)
      define r' where "r' = with_message (im_waiting_for_update (\<lambda>_. Some d)) r\<lparr>ir_waiting_since := Some (iw_clock w)\<rparr>"
      have not: "\<not> is_processed (iw_rows w) (canon_id d)" using first_unprocessed_Some [OF Some] by simp
      obtain g where g: "apply_rows [r'] (iw_rows w) = map g (iw_rows w)" "advances g"
        "work_left cf (map g (iw_rows w)) < work_left cf (iw_rows w)"
        "none_waits_for_processed (iw_rows w) \<longrightarrow> none_waits_for_processed (map g (iw_rows w))"
        by (rule set_aside_advances [OF ok head not r'_def])
      have "w' = w\<lparr>iw_slots := AList.update slot (iw_clock w) (iw_slots w), iw_rows := map g (iw_rows w)\<rparr>"
        using 2(5,6) work Some set_waiting_head [OF ok head not] g(1) by (auto simp: work_head_def r'_def)
      then show ?thesis using g(2-4) slots by auto
    next
      case None
      obtain writes where sub_m: "f ?m (iw_data w) = (writes, ASucceeded)"
        using sub unfolding always_succeeds_def by (metis prod.collapse)
      have "filter (\<lambda>q. row_id q = id_of ?m) (iw_rows w) = [r]"
        using filter_row [OF inbox_world_okD(1) [OF ok] slot_headD(1) [OF head]] by (simp add: row_id_def)
      then obtain written woken where mk: "mark_processed ?m (iw_seq w) (iw_clock w) (iw_rows w) = Inr (written, woken)"
        by (simp add: mark_processed_def Let_def)
      obtain g where g: "apply_rows written (iw_rows w) = map g (iw_rows w)" "advances g"
        "work_left cf (map g (iw_rows w)) < work_left cf (iw_rows w)"
        "none_waits_for_processed (iw_rows w) \<longrightarrow> none_waits_for_processed (map g (iw_rows w))"
        by (rule mark_advances [OF ok head mk])
      have "w' = w\<lparr>iw_slots := AList.update slot (iw_clock w) (iw_slots w), iw_seq := iw_seq w + 1,
          iw_rows := map g (iw_rows w), iw_data := iw_data w @ writes, iw_done := iw_done w @ [(?m, Some writes)]\<rparr>"
        using 2(5,6) work None sub_m mk g(1) by (auto simp: work_head_def)
      then show ?thesis using g(2-4) slots by auto
    qed
  qed
qed

definition dispatch_times :: "nat \<Rightarrow> inbox_config \<Rightarrow> 'w subscriber \<Rightarrow> 'w inbox_world \<Rightarrow> 'w inbox_world" where
  "dispatch_times n cf f = (\<lambda>w. snd (inbox_dispatch cf f [] w)) ^^ n"

text \<open>What stays as it was: the rows, who depends on whom, and that nothing failed.\<close>

definition same_rows :: "inbox_config \<Rightarrow> inbox_row list \<Rightarrow> inbox_row list \<Rightarrow> bool" where
  "same_rows cf rows rows' \<longleftrightarrow>
    map (\<lambda>r. (row_id r, causal_dependencies (ic_parse cf) (ir_message r), ir_next_attempt_at r, ir_parked_at r)) rows
    = map (\<lambda>r. (row_id r, causal_dependencies (ic_parse cf) (ir_message r), ir_next_attempt_at r, ir_parked_at r)) rows'"

lemma same_rows_advances: "advances g \<Longrightarrow> same_rows cf rows (map g rows)"
  by (simp add: same_rows_def advancesD)

lemma same_rows_trans: "same_rows cf a b \<Longrightarrow> same_rows cf b c \<Longrightarrow> same_rows cf a c"
  by (simp only: same_rows_def)

lemma same_rows_ids: "same_rows cf a b \<Longrightarrow> map row_id b = map row_id a"
  unfolding same_rows_def by (drule arg_cong [of _ _ "map fst"]) (simp add: comp_def)

lemma same_rows_row:
  assumes "same_rows cf a b" "q \<in> set b"
  obtains r where "r \<in> set a" "row_id r = row_id q" "ir_next_attempt_at r = ir_next_attempt_at q" "ir_parked_at r = ir_parked_at q"
    "causal_dependencies (ic_parse cf) (ir_message r) = causal_dependencies (ic_parse cf) (ir_message q)"
proof -
  let ?g = "\<lambda>r. (row_id r, causal_dependencies (ic_parse cf) (ir_message r), ir_next_attempt_at r, ir_parked_at r)"
  have "?g ` set a = ?g ` set b" using assms(1) unfolding same_rows_def set_map [symmetric] by (rule arg_cong)
  then have "?g q \<in> ?g ` set a" using imageI [OF assms(2), of ?g] by (simp only:)
  then obtain r where r: "?g q = ?g r" "r \<in> set a" by (rule imageE)
  from r(1) have "row_id q = row_id r \<and> causal_dependencies (ic_parse cf) (ir_message q) = causal_dependencies (ic_parse cf) (ir_message r)
      \<and> ir_next_attempt_at q = ir_next_attempt_at r \<and> ir_parked_at q = ir_parked_at r"
    unfolding prod.inject .
  then show thesis by (elim conjE) (rule that [OF r(2)]; rule sym, assumption)
qed

lemma same_rows_never_failed:
  assumes "same_rows cf a b" "never_failed a"
  shows "never_failed b"
  unfolding never_failed_def
proof
  fix q assume "q \<in> set b"
  then obtain r where r: "r \<in> set a" "ir_next_attempt_at r = ir_next_attempt_at q" "ir_parked_at r = ir_parked_at q"
    by (rule same_rows_row [OF assms(1)])
  then show "ir_next_attempt_at q = None \<and> ir_parked_at q = None" using assms(2) unfolding never_failed_def by fastforce
qed

lemma same_rows_rank:
  fixes rank :: "dependency \<Rightarrow> nat"
  assumes same: "same_rows cf a b"
    and rank: "\<And>r d. r \<in> set a \<Longrightarrow> d \<in> set (causal_dependencies (ic_parse cf) (ir_message r)) \<Longrightarrow>
      canon_id d \<in> row_id ` set a \<and> rank (canon_id d) < rank (row_id r)"
    and q: "q \<in> set b" "d \<in> set (causal_dependencies (ic_parse cf) (ir_message q))"
  shows "canon_id d \<in> row_id ` set b \<and> rank (canon_id d) < rank (row_id q)"
proof -
  obtain r where r: "r \<in> set a" "row_id r = row_id q" "d \<in> set (causal_dependencies (ic_parse cf) (ir_message r))"
  proof (rule same_rows_row [OF same q(1)])
    fix r
    assume r: "r \<in> set a" "row_id r = row_id q" "causal_dependencies (ic_parse cf) (ir_message r) = causal_dependencies (ic_parse cf) (ir_message q)"
    show thesis by (rule that [OF r(1,2)]) (simp only: r(3) q(2))
  qed
  have "row_id ` set b = row_id ` set a" using arg_cong [OF same_rows_ids [OF same], of set] by (simp only: set_map)
  then show ?thesis using rank [OF r(1,3)] unfolding r(2) by (simp only:)
qed

lemma dispatches_end:
  assumes "inbox_world_ok cf w" "none_waits_for_processed (iw_rows w)"
    and cf: "0 < ic_slots cf" "ic_max_wait cf = None" and sub: "always_succeeds f"
  shows "\<exists>n. inbox_world_ok cf (dispatch_times n cf f w) \<and> none_waits_for_processed (iw_rows (dispatch_times n cf f w)) \<and> same_rows cf (iw_rows w) (iw_rows (dispatch_times n cf f w))
    \<and> fst ` set (iw_slots w) \<subseteq> fst ` set (iw_slots (dispatch_times n cf f w))
    \<and> (\<forall>s\<in>fst ` set (iw_slots (dispatch_times n cf f w)). \<not> head_due (iw_clock (dispatch_times n cf f w)) (iw_rows (dispatch_times n cf f w)) s)"
  using assms(1,2)
proof (induction "work_left cf (iw_rows w)" arbitrary: w rule: less_induct)
  case less
  obtain res w' where run: "inbox_dispatch cf f [] w = (res, w')" by fastforce
  have ok: "inbox_world_ok cf w'" by (rule dispatch_world_ok [OF less.prems(1) cf(1) run])
  note adv = dispatch_advances [OF less.prems(1) cf(2) sub run]
  obtain g where g: "advances g" "iw_rows w' = map g (iw_rows w)" using adv by blast
  from adv consider "work_left cf (iw_rows w') < work_left cf (iw_rows w)"
    | "w' = w" "\<forall>s\<in>fst ` set (iw_slots w). \<not> head_due (iw_clock w) (iw_rows w) s" by blast
  then show ?case
  proof cases
    case 1
    have none: "none_waits_for_processed (iw_rows w')" using adv less.prems(2) by blast
    from less.hyps [OF 1 ok none] obtain n where n: "inbox_world_ok cf (dispatch_times n cf f w')"
      "none_waits_for_processed (iw_rows (dispatch_times n cf f w'))"
      "same_rows cf (iw_rows w') (iw_rows (dispatch_times n cf f w'))"
      "fst ` set (iw_slots w') \<subseteq> fst ` set (iw_slots (dispatch_times n cf f w'))"
      "\<forall>s\<in>fst ` set (iw_slots (dispatch_times n cf f w')). \<not> head_due (iw_clock (dispatch_times n cf f w')) (iw_rows (dispatch_times n cf f w')) s"
      by blast
    have "dispatch_times (Suc n) cf f w = dispatch_times n cf f w'"
      by (simp add: dispatch_times_def funpow_Suc_right run del: funpow.simps)
    moreover have "same_rows cf (iw_rows w) (iw_rows (dispatch_times n cf f w'))"
      using same_rows_trans [OF same_rows_advances [OF g(1)]] n(3) g(2) by simp
    moreover have "fst ` set (iw_slots w) \<subseteq> fst ` set (iw_slots (dispatch_times n cf f w'))" using adv n(4) by blast
    ultimately show ?thesis using n(1,2,5) by (intro exI [of _ "Suc n"]) simp
  next
    case 2
    then show ?thesis using less.prems by (intro exI [of _ 0]) (simp add: dispatch_times_def same_rows_def)
  qed
qed

lemma none_due_none_queued:
  assumes ok: "inbox_world_ok cf w" and slots: "{..<ic_slots cf} \<subseteq> fst ` set (iw_slots w)"
    and due: "\<forall>s\<in>fst ` set (iw_slots w). \<not> head_due (iw_clock w) (iw_rows w) s"
    and fresh: "never_failed (iw_rows w)" and r: "r \<in> set (iw_rows w)"
  shows "\<not> in_queue r"
proof
  assume q: "in_queue r"
  have "ir_slot r \<in> fst ` set (iw_slots w)" using row_okD(4) [OF inbox_world_okD(2) [OF ok r]] slots by auto
  then have not_due: "\<not> head_due (iw_clock w) (iw_rows w) (ir_slot r)" using due by blast
  show False
  proof (cases "slot_head (iw_rows w) (ir_slot r)")
    case None
    then show ?thesis using slot_head_None r q by blast
  next
    case (Some h)
    then have "ir_next_attempt_at h = None" using slot_headD(1) [OF Some] fresh by (simp add: never_failed_def)
    then show ?thesis using not_due Some by (simp add: head_due_def row_due_def)
  qed
qed

lemma ranked_all_processed:
  fixes rank :: "dependency \<Rightarrow> nat"
  assumes ok: "inbox_world_ok cf w" and none: "none_waits_for_processed (iw_rows w)" and fresh: "never_failed (iw_rows w)"
    and queue: "\<And>r. r \<in> set (iw_rows w) \<Longrightarrow> \<not> in_queue r"
    and rank: "\<And>r d. r \<in> set (iw_rows w) \<Longrightarrow> d \<in> set (causal_dependencies (ic_parse cf) (ir_message r)) \<Longrightarrow>
      canon_id d \<in> row_id ` set (iw_rows w) \<and> rank (canon_id d) < rank (row_id r)"
    and r: "r \<in> set (iw_rows w)"
  shows "is_row_processed r"
  using r
proof (induction "rank (row_id r)" arbitrary: r rule: less_induct)
  case less
  show ?case
  proof (rule ccontr)
    assume not: "\<not> is_row_processed r"
    have "ir_parked_at r = None" using fresh less.prems by (simp add: never_failed_def)
    then obtain d where d: "im_waiting_for (ir_message r) = Some d"
      using not queue [OF less.prems] by (auto simp: in_queue_def)
    have "d \<in> set (causal_dependencies (ic_parse cf) (ir_message r))"
      by (rule row_okD(6) [OF inbox_world_okD(2) [OF ok less.prems] d])
    from rank [OF less.prems this] obtain q where q: "q \<in> set (iw_rows w)" "canon_id d = row_id q" "rank (row_id q) < rank (row_id r)"
      by (metis imageE)
    have "is_row_processed q" by (rule less.hyps [OF q(3,1)])
    then have "is_processed (iw_rows w) (canon_id d)" using q(1,2) by (auto simp: is_processed_def list_ex_iff)
    then show False using none less.prems waits_on_Some [OF d] unfolding none_waits_for_processed_def by blast
  qed
qed

end
