(* ===== verification/Inbox_Listed.thy ===== *)
theory Inbox_Listed
  imports Inbox_Safety
begin

section \<open>What is drawn and what is spelled\<close>

text \<open>
  Positions are drawn once, and every identity that a row or a transaction has, as it is spelled there, is
  one that a message received or resolved spelled: no statement writes a row but from one it read, keeping
  its position, its identity and its dependencies.
\<close>

lemma apply_rows_elim:
  assumes "r \<in> set (apply_rows ws rows)"
  shows "r \<in> set ws \<or> r \<in> set rows"
proof -
  obtain q where q: "q \<in> set rows" "r = (case find (\<lambda>x. row_id x = row_id q) ws of Some x \<Rightarrow> x | None \<Rightarrow> q)"
    using assms by (auto simp: apply_rows_def)
  show ?thesis
  proof (cases "find (\<lambda>x. row_id x = row_id q) ws")
    case (Some x)
    then have "x \<in> set ws" by (auto simp: find_Some_iff)
    then show ?thesis using q Some by simp
  qed (use q in simp)
qed

lemma apply_rows_other:
  assumes "r \<in> set rows" "row_id r \<notin> row_id ` set ws"
  shows "r \<in> set (apply_rows ws rows)"
proof -
  have "find (\<lambda>x. row_id x = row_id r) ws = None" using assms(2) unfolding find_None_iff by (metis image_eqI)
  then show ?thesis using assms(1) by (force simp: apply_rows_def)
qed

lemma received_at_fields [simp]:
  "received_at (m\<lparr>im_processed_position := b\<rparr>) = received_at m" "received_at (m\<lparr>im_attempts := c\<rparr>) = received_at m"
  "received_at (m\<lparr>im_last_error := e\<rparr>) = received_at m" "received_at (m\<lparr>im_waiting_for := f\<rparr>) = received_at m"
  by (simp_all add: received_at_def)

subsection \<open>What a statement keeps of a row\<close>

definition stem :: "inbox_config \<Rightarrow> inbox_row \<Rightarrow> int \<times> dependency \<times> dependency list" where
  "stem cf r = (received_at (ir_message r), dependency_on (ir_message r), causal_dependencies (ic_parse cf) (ir_message r))"

abbreviation stems :: "inbox_config \<Rightarrow> inbox_row list \<Rightarrow> (int \<times> dependency \<times> dependency list) set" where
  "stems cf rows \<equiv> stem cf ` set rows"

lemma woken_stem [simp]: "stem cf (woken_row r) = stem cf r"
  by (simp add: stem_def)

lemma woken_rows_stems: "r \<in> set (woken_rows d rows) \<Longrightarrow> stem cf r \<in> stems cf rows"
  by (auto simp: woken_rows_def)

lemma written_stems:
  "set_waiting_unless_processed now m d rows = ws \<Longrightarrow> r \<in> set ws \<Longrightarrow> stem cf r \<in> stems cf rows"
  "mark_processed m pos at rows = Inr (ws, woken) \<Longrightarrow> r \<in> set ws \<Longrightarrow> stem cf r \<in> stems cf rows"
  "record_failure cg now m f after rows = Inr (ws, attempts, parked) \<Longrightarrow> r \<in> set ws \<Longrightarrow> stem cf r \<in> stems cf rows"
  "resolve_row m pos at rows = Some (ws, woken) \<Longrightarrow> r \<in> set ws \<Longrightarrow> stem cf r \<in> stems cf rows"
  "r \<in> set (fst (expire_waiting cg now w locked rows)) \<Longrightarrow> stem cf r \<in> stems cf rows"
  "r \<in> set (unpark_row m rows) \<Longrightarrow> stem cf r \<in> stems cf rows"
proof -
  have same: "stem cf (marked_row p t q) = stem cf q" "stem cf (marked_row p t q\<lparr>ir_parked_at := None\<rparr>) = stem cf q" for p t q
    by (simp_all add: stem_def)
  show "set_waiting_unless_processed now m d rows = ws \<Longrightarrow> r \<in> set ws \<Longrightarrow> stem cf r \<in> stems cf rows"
    by (auto simp: set_waiting_unless_processed_def stem_def split: if_splits)
  show "mark_processed m pos at rows = Inr (ws, woken) \<Longrightarrow> r \<in> set ws \<Longrightarrow> stem cf r \<in> stems cf rows"
    by (auto simp: mark_processed_def Let_def same split: if_splits dest: woken_rows_stems [where cf = cf])
  show "record_failure cg now m f after rows = Inr (ws, attempts, parked) \<Longrightarrow> r \<in> set ws \<Longrightarrow> stem cf r \<in> stems cf rows"
    by (auto simp: record_failure_def Let_def find_Some_iff stem_def image_iff split: option.splits if_splits intro!: bexI [OF _ nth_mem])
  show "resolve_row m pos at rows = Some (ws, woken) \<Longrightarrow> r \<in> set ws \<Longrightarrow> stem cf r \<in> stems cf rows"
    by (auto simp: resolve_row_def Let_def same split: if_splits dest: woken_rows_stems [where cf = cf])
  show "r \<in> set (fst (expire_waiting cg now w locked rows)) \<Longrightarrow> stem cf r \<in> stems cf rows"
    by (auto simp: expire_waiting_def Let_def stem_def image_iff)
  show "r \<in> set (unpark_row m rows) \<Longrightarrow> stem cf r \<in> stems cf rows"
    by (auto simp: unpark_row_def stem_def image_iff)
qed

subsection \<open>Rows and transactions that are listed\<close>

definition listed :: "inbox_config \<Rightarrow> 'w inbox_world \<Rightarrow> inbox_row \<Rightarrow> bool" where
  "listed cf w r \<longleftrightarrow> received_at (ir_message r) < iw_seq w \<and> set (spelled_ids cf (ir_message r)) \<subseteq> set (iw_spelled w)"

text \<open>The identities a transaction has at hand, as they are spelled.\<close>

fun phase_spells :: "inbox_config \<Rightarrow> 'w phase \<Rightarrow> dependency list" where
  "phase_spells cf (Checking m ds) = dependency_on m # ds"
| "phase_spells cf (Lacking m d) = [dependency_on m, d]"
| "phase_spells cf (Waiting m d) = [dependency_on m, d]"
| "phase_spells cf (Cleared m) = [dependency_on m]"
| "phase_spells cf (Handled m ws) = [dependency_on m]"
| "phase_spells cf (Marking m ws) = [dependency_on m]"
| "phase_spells cf (Resolving m) = [dependency_on m]"
| "phase_spells cf (Ended (EWaits r d)) = [d]"
| "phase_spells cf (Ended (EMarks m ws rs)) = [dependency_on m]"
| "phase_spells cf p = []"

definition listed_tx :: "inbox_config \<Rightarrow> 'w inbox_world \<Rightarrow> 'w phase \<Rightarrow> bool" where
  "listed_tx cf w p \<longleftrightarrow> (\<forall>r\<in>set (tx_rows p). listed cf w r) \<and> (\<forall>r. tx_inserted p = Some r \<longrightarrow> listed cf w r)
    \<and> set (phase_spells cf p) \<subseteq> set (iw_spelled w)"

definition listed_ok :: "inbox_config \<Rightarrow> 'w inbox_state \<Rightarrow> bool" where
  "listed_ok cf s \<longleftrightarrow> (\<forall>r\<in>set (is_rows s). listed cf (is_world s) r)
    \<and> (\<forall>t x. is_txs s t = Some x \<longrightarrow> listed_tx cf (is_world s) (tx_phase x))"

lemma listed_okD:
  assumes "listed_ok cf s"
  shows "r \<in> set (is_rows s) \<Longrightarrow> listed cf (is_world s) r" "is_txs s t = Some x \<Longrightarrow> listed_tx cf (is_world s) (tx_phase x)"
  using assms unfolding listed_ok_def by blast+

definition lists_more :: "'w inbox_world \<Rightarrow> 'w inbox_world \<Rightarrow> bool" where
  "lists_more w w' \<longleftrightarrow> iw_seq w \<le> iw_seq w' \<and> set (iw_spelled w) \<subseteq> set (iw_spelled w')"

lemma lists_moreD:
  assumes "lists_more w w'"
  shows "listed cf w r \<Longrightarrow> listed cf w' r" "listed_tx cf w p \<Longrightarrow> listed_tx cf w' p"
proof -
  show row: "listed cf w r \<Longrightarrow> listed cf w' r" for r using assms by (auto simp: lists_more_def listed_def)
  show "listed_tx cf w p \<Longrightarrow> listed_tx cf w' p"
    using assms row unfolding listed_tx_def lists_more_def by blast
qed

lemma listed_stem: "listed cf w q \<Longrightarrow> stem cf r = stem cf q \<Longrightarrow> listed cf w r"
  by (simp add: listed_def stem_def spelled_ids_def)

lemma listed_from:
  assumes "listed_ok cf s" "stem cf r \<in> stems cf (is_rows s)"
  shows "listed cf (is_world s) r"
proof -
  obtain q where "q \<in> set (is_rows s)" "stem cf r = stem cf q" using assms(2) by auto
  then show ?thesis using listed_stem listed_okD(1) [OF assms(1)] by blast
qed

lemma listed_put:
  assumes ok: "listed_ok cf s" and w: "iw_rows w = is_rows s" "lists_more (is_world s) w" and x: "listed_tx cf w (tx_phase x)"
  shows "listed_ok cf (put_tx t x (s\<lparr>is_world := w\<rparr>))"
  using listed_okD [OF ok] lists_moreD [OF w(2)] w(1) x unfolding listed_ok_def put_tx_def by (auto split: if_splits)

lemma listed_move:
  assumes ok: "listed_ok cf s" and x: "listed_tx cf (is_world s) (tx_phase y)"
  shows "listed_ok cf (put_tx t y s)"
  using listed_put [OF ok refl _ x, of t] by (simp add: lists_more_def)

text \<open>From one phase to the next, with nothing new at hand.\<close>

lemma listed_next:
  assumes ok: "listed_ok cf s" and x: "is_txs s t = Some x" and "tx_rows (tx_phase y) = []" "tx_inserted (tx_phase y) = None"
    "set (phase_spells cf (tx_phase y)) \<subseteq> set (phase_spells cf (tx_phase x))"
  shows "listed_ok cf (put_tx t y s)"
  by (rule listed_move [OF ok]) (use listed_okD(2) [OF ok x] assms(3-5) in \<open>auto simp: listed_tx_def\<close>)

lemma listed_world:
  assumes ok: "listed_ok cf s" and w: "lists_more (is_world s) w"
    and rows: "\<And>r. r \<in> set (iw_rows w) \<Longrightarrow> r \<in> set (is_rows s) \<or> stem cf r \<in> stems cf (is_rows s)"
    and txs: "\<And>t x. txs t = Some x \<Longrightarrow> is_txs s t = Some x"
  shows "listed_ok cf \<lparr>is_world = w, is_txs = txs\<rparr>"
  unfolding listed_ok_def
proof (intro conjI ballI allI impI)
  fix r assume "r \<in> set (iw_rows (is_world \<lparr>is_world = w, is_txs = txs\<rparr>))"
  then have "listed cf (is_world s) r" using rows listed_from [OF ok] listed_okD(1) [OF ok] by auto
  then show "listed cf (is_world \<lparr>is_world = w, is_txs = txs\<rparr>) r" using lists_moreD(1) [OF w] by simp
next
  fix t x assume "is_txs \<lparr>is_world = w, is_txs = txs\<rparr> t = Some x"
  then show "listed_tx cf (is_world \<lparr>is_world = w, is_txs = txs\<rparr>) (tx_phase x)"
    using lists_moreD(2) [OF w listed_okD(2) [OF ok txs, of t x]] by simp
qed

lemma state_update: "s\<lparr>is_world := w\<rparr> = \<lparr>is_world = w, is_txs = is_txs s\<rparr>" "s\<lparr>is_txs := f\<rparr> = \<lparr>is_world = is_world s, is_txs = f\<rparr>"
  by (cases s; simp)+

lemma commit_rows:
  assumes "r \<in> set (iw_rows (commit_ending e w))"
  shows "r \<in> set (iw_rows w) \<or> r \<in> set (ending_rows e) \<or> e = EInserts r"
proof (cases e)
  case (EMarks m ws rs)
  then show ?thesis using assms apply_rows_elim by fastforce
qed (use assms in \<open>auto dest: apply_rows_elim\<close>)

lemma serve_slot_fields [simp]:
  "iw_rows (serve_slot x w) = iw_rows w" "iw_seq (serve_slot x w) = iw_seq w" "iw_clock (serve_slot x w) = iw_clock w"
  "iw_spelled (serve_slot x w) = iw_spelled w"
  by (simp_all add: serve_slot_def split: option.split)

lemma commit_fields [simp]: "iw_seq (commit_ending e w) = iw_seq w" "iw_spelled (commit_ending e w) = iw_spelled w"
  by (cases e; simp)+

lemma listed_step:
  assumes "inbox_step cf f s s'" "listed_ok cf s"
  shows "listed_ok cf s'"
  using assms
proof (induction rule: inbox_step.induct)
  case (begins s t)
  then show ?case by (intro listed_move) (simp_all add: tx_begin_def listed_tx_def)
next
  case (reads s t x slot m)
  obtain r where "slot_head (is_rows s) slot = Some r" "m = ir_message r" using reads(4) head_ofD by metis
  then have "set (spelled_ids cf m) \<subseteq> set (iw_spelled (is_world s))"
    using listed_okD(1) [OF reads(5)] slot_headD(1) by (auto simp: listed_def)
  then show ?case by (intro listed_move [OF reads(5)]) (simp add: listed_tx_def spelled_ids_def)
next
  case (waits s t x m d r)
  have "listed cf (is_world s) r" by (rule listed_from [OF waits(4) written_stems(1) [OF waits(3)]]) simp
  then show ?case
    using listed_okD(2) [OF waits(4,1)] waits(2) by (intro listed_move [OF waits(4)]) (simp add: listed_tx_def)
next
  case (records s t x m fl r attempts parked)
  have "listed cf (is_world s) r" by (rule listed_from [OF records(4) written_stems(3) [OF records(3)]]) simp
  then show ?case by (intro listed_move [OF records(4)]) (simp add: listed_tx_def)
next
  case (marks s t x m writes written woken)
  let ?w = "(is_world s)\<lparr>iw_seq := iw_seq (is_world s) + 1\<rparr>"
  have more: "lists_more (is_world s) ?w" by (simp add: lists_more_def)
  have "listed cf ?w r" if "r \<in> set written" for r
    by (rule lists_moreD(1) [OF more listed_from [OF marks(4) written_stems(2) [OF marks(3) that]]])
  then show ?case
    using listed_okD(2) [OF marks(4,1)] marks(2)
    by (intro listed_put [OF marks(4) _ more]) (simp_all add: listed_tx_def)
next
  case (resolves s t x m written woken)
  let ?w = "(is_world s)\<lparr>iw_seq := iw_seq (is_world s) + 1\<rparr>"
  have more: "lists_more (is_world s) ?w" by (simp add: lists_more_def)
  have "listed cf ?w r" if "r \<in> set written" for r
    by (rule lists_moreD(1) [OF more listed_from [OF resolves(5) written_stems(4) [OF resolves(4) that]]])
  then show ?case
    using listed_okD(2) [OF resolves(5,1)] resolves(2)
    by (intro listed_put [OF resolves(5) _ more]) (simp_all add: listed_tx_def)
next
  case (inserts s t m r)
  have r: "r = inserted_row cf m (iw_seq (is_world s))"
    using inserts(2) by (auto simp: receive_row_def split: option.splits)
  have "set (spelled_ids cf (ir_message r)) = set (spelled_ids cf m)" "received_at (ir_message r) = iw_seq (is_world s)"
    by (simp_all add: r inserted_row_def spelled_ids_def received_at_def)
  then show ?case
    using inserts(4) by (intro listed_put) (auto simp: tx_begin_def listed_tx_def listed_def lists_more_def)
next
  case (locks_resolve s t m)
  then show ?case by (intro listed_put) (auto simp: tx_begin_def listed_tx_def lists_more_def)
next
  case (commits s t x e)
  let ?w = "serve_slot x (commit_ending e (is_world s))"
  have rows: "listed cf (is_world s) r" if "r \<in> set (iw_rows ?w)" for r
    using commit_rows [of r e "is_world s"] that listed_okD(1) [OF commits(3)] listed_okD(2) [OF commits(3,1)] commits(2)
    by (auto simp: listed_tx_def)
  have more: "lists_more (is_world s) ?w" by (simp add: lists_more_def)
  show ?case
    unfolding listed_ok_def
  proof (intro conjI ballI allI impI)
    fix r assume "r \<in> set (is_rows \<lparr>is_world = ?w, is_txs = (is_txs s)(t := None)\<rparr>)"
    then show "listed cf (is_world \<lparr>is_world = ?w, is_txs = (is_txs s)(t := None)\<rparr>) r"
      using lists_moreD(1) [OF more rows] by simp
  next
    fix u y assume "is_txs \<lparr>is_world = ?w, is_txs = (is_txs s)(t := None)\<rparr> u = Some y"
    then show "listed_tx cf (is_world \<lparr>is_world = ?w, is_txs = (is_txs s)(t := None)\<rparr>) (tx_phase y)"
      using lists_moreD(2) [OF more listed_okD(2) [OF commits(3), of u y]] by (simp split: if_splits)
  qed
next
  case (aborts s t x)
  show ?case unfolding state_update
    by (rule listed_world [OF aborts(2)]) (auto simp: lists_more_def split: if_splits)
next
  case (expires max_wait s locked)
  have rows: "r \<in> set (is_rows s) \<or> stem cf r \<in> stems cf (is_rows s)"
    if "r \<in> set (iw_rows (expire cf locked (is_world s)))" for r
  proof -
    have "r \<in> set (apply_rows (fst (expire_waiting cf (iw_clock (is_world s)) max_wait locked (is_rows s))) (is_rows s))"
      using that by (simp add: expire_def expires(1))
    from apply_rows_elim [OF this] show ?thesis using written_stems(5) by blast
  qed
  show ?case unfolding state_update
    by (rule listed_world [OF expires(3) _ rows]) (simp_all add: expire_def expires(1) lists_more_def)
next
  case (unparks s m)
  have rows: "r \<in> set (is_rows s) \<or> stem cf r \<in> stems cf (is_rows s)"
    if "r \<in> set (iw_rows (snd (unpark m (is_world s))))" for r
  proof -
    have "r \<in> set (apply_rows (unpark_row m (is_rows s)) (is_rows s))" using that by (simp add: unpark_def Let_def)
    from apply_rows_elim [OF this] show ?thesis using written_stems(6) by blast
  qed
  show ?case unfolding state_update
    by (rule listed_world [OF unparks(2) _ rows]) (simp_all add: unpark_def Let_def lists_more_def)
next
  case (sweeps gone s)
  show ?case unfolding state_update by (rule listed_world [OF sweeps(2)]) (auto simp: lists_more_def)
next
  case (clock s now)
  show ?case unfolding state_update by (rule listed_world [OF clock(2)]) (auto simp: lists_more_def)
next
  case (draws s)
  show ?case unfolding state_update by (rule listed_world [OF draws]) (auto simp: lists_more_def)
qed (auto intro: listed_next)

lemma listed_steps:
  assumes "inbox_steps cf f s s'" "listed_ok cf s"
  shows "listed_ok cf s'"
  using assms by (induction rule: inbox_steps.induct) (auto intro: listed_step)

lemma listed_reachable:
  assumes "inbox_steps cf f (inbox_start cf) s"
  shows "listed_ok cf s"
  by (rule listed_steps [OF assms]) (simp add: listed_ok_def inbox_start_def inbox_world_new_def)

text \<open>What is spelled stays.\<close>

lemma spelled_step:
  assumes "inbox_step cf f s s'"
  shows "set (iw_spelled (is_world s)) \<subseteq> set (iw_spelled (is_world s'))"
  using assms
proof (induction rule: inbox_step.induct)
  case (expires max_wait s locked)
  then show ?case by (simp add: expire_def)
next
  case (unparks s m)
  then show ?case by (simp add: unpark_def Let_def)
qed (auto simp: put_tx_def)

end
