(* ===== verification/Inbox_Order.thy ===== *)
theory Inbox_Order
  imports Inbox_Listed
begin

section \<open>The order of arrival within a slot\<close>

text \<open>
  Positions are drawn once, so the rows of a slot have an order; a row behind one that is due and waits for
  nothing stays in the queue, and no dispatcher works on it (\<open>ordered\<close>), in every run.
\<close>

subsection \<open>Two rows of a slot\<close>

text \<open>
  A row is ahead while it is unprocessed, has never failed and waits for nothing: then it is in the queue.
  A row behind it, received later into the same slot, stays in the queue, and no dispatcher works on it.
\<close>

definition ahead :: "inbox_config \<Rightarrow> dependency \<Rightarrow> int \<Rightarrow> nat \<Rightarrow> inbox_row list \<Rightarrow> bool" where
  "ahead cf i p slot rows \<longleftrightarrow> (\<exists>q\<in>set rows. row_id q = i \<and> received_at (ir_message q) = p \<and> ir_slot q = slot
    \<and> \<not> is_row_processed q \<and> im_last_error (ir_message q) = None \<and> causal_dependencies (ic_parse cf) (ir_message q) = [])"

definition queued_behind :: "dependency \<Rightarrow> int \<Rightarrow> nat \<Rightarrow> inbox_row list \<Rightarrow> bool" where
  "queued_behind j p slot rows \<longleftrightarrow> (\<exists>r\<in>set rows. row_id r = j \<and> p < received_at (ir_message r) \<and> ir_slot r = slot \<and> in_queue r)"

fun ending_id :: "'w ending \<Rightarrow> dependency option" where
  "ending_id (EWaits r d) = Some (row_id r)"
| "ending_id (EFails r) = Some (row_id r)"
| "ending_id (EMarks m (Some ws) rs) = Some (id_of m)"
| "ending_id e = None"

fun phase_id :: "'w phase \<Rightarrow> dependency option" where
  "phase_id (Checking m ds) = Some (id_of m)"
| "phase_id (Lacking m d) = Some (id_of m)"
| "phase_id (Waiting m d) = Some (id_of m)"
| "phase_id (Cleared m) = Some (id_of m)"
| "phase_id (Handled m ws) = Some (id_of m)"
| "phase_id (Marking m ws) = Some (id_of m)"
| "phase_id (Failing m f) = Some (id_of m)"
| "phase_id (Ended e) = ending_id e"
| "phase_id p = None"

definition not_worked :: "'w inbox_state \<Rightarrow> dependency \<Rightarrow> bool" where
  "not_worked s j \<longleftrightarrow> (\<forall>t x. is_txs s t = Some x \<longrightarrow> phase_id (tx_phase x) \<noteq> Some j)"

definition ordered :: "inbox_config \<Rightarrow> dependency \<Rightarrow> dependency \<Rightarrow> int \<Rightarrow> nat \<Rightarrow> 'w inbox_state \<Rightarrow> bool" where
  "ordered cf i j p slot s \<longleftrightarrow> p < iw_seq (is_world s)
    \<and> (\<forall>t x r. is_txs s t = Some x \<longrightarrow> tx_inserted (tx_phase x) = Some r \<longrightarrow> row_id r = i \<longrightarrow> received_at (ir_message r) \<noteq> p)
    \<and> (ahead cf i p slot (is_rows s) \<longrightarrow> queued_behind j p slot (is_rows s) \<and> not_worked s j)"

lemma orderedD:
  assumes "ordered cf i j p slot s"
  shows "p < iw_seq (is_world s)"
    "is_txs s t = Some x \<Longrightarrow> tx_inserted (tx_phase x) = Some r \<Longrightarrow> row_id r = i \<Longrightarrow> received_at (ir_message r) \<noteq> p"
    "ahead cf i p slot (is_rows s) \<Longrightarrow> queued_behind j p slot (is_rows s)"
    "ahead cf i p slot (is_rows s) \<Longrightarrow> not_worked s j"
  using assms unfolding ordered_def by blast+

lemma aheadE:
  assumes "inbox_world_ok cf w" "ahead cf i p slot (iw_rows w)"
  obtains q where "q \<in> set (iw_rows w)" "row_id q = i" "received_at (ir_message q) = p" "ir_slot q = slot" "in_queue q"
proof -
  obtain q where q: "q \<in> set (iw_rows w)" "row_id q = i" "received_at (ir_message q) = p" "ir_slot q = slot"
    "\<not> is_row_processed q" "im_last_error (ir_message q) = None" "causal_dependencies (ic_parse cf) (ir_message q) = []"
    using assms(2) unfolding ahead_def by blast
  note row = inbox_world_okD(2) [OF assms(1) q(1)]
  have "ir_parked_at q = None" using row_okD(5) [OF row] q(6) by blast
  moreover have "im_waiting_for (ir_message q) = None" using row_okD(6) [OF row] q(7) by fastforce
  ultimately show thesis using that q by (simp add: in_queue_def)
qed

text \<open>The head of a slot is not behind a row that is ahead.\<close>

lemma head_not_behind:
  assumes ok: "inbox_world_ok cf w" and "ahead cf i p slot (iw_rows w)" "queued_behind j p slot (iw_rows w)"
    and head: "slot_head (iw_rows w) slot' = Some r"
  shows "row_id r \<noteq> j"
proof
  assume r: "row_id r = j"
  obtain b where b: "b \<in> set (iw_rows w)" "row_id b = j" "p < received_at (ir_message b)" "ir_slot b = slot"
    using assms(3) unfolding queued_behind_def by blast
  note h = slot_headD [OF head]
  have "b = r" using same_row [OF inbox_world_okD(1) [OF ok] b(1) h(1)] b(2) r by simp
  then have "slot' = slot" using h(2) b(4) by simp
  moreover obtain q where q: "q \<in> set (iw_rows w)" "received_at (ir_message q) = p" "ir_slot q = slot" "in_queue q"
    using aheadE [OF ok assms(2)] by metis
  ultimately have "received_at (ir_message r) \<le> p" using h(4) [OF q(1)] by simp
  then show False using b(3) \<open>b = r\<close> by simp
qed

lemma ordered_put:
  assumes o: "ordered cf i j p slot s" and w: "iw_rows w = is_rows s" "iw_seq (is_world s) \<le> iw_seq w"
    and id: "ahead cf i p slot (is_rows s) \<Longrightarrow> phase_id (tx_phase x) \<noteq> Some j"
    and ins: "\<And>r. tx_inserted (tx_phase x) = Some r \<Longrightarrow> received_at (ir_message r) \<noteq> p"
  shows "ordered cf i j p slot (put_tx t x (s\<lparr>is_world := w\<rparr>))"
proof -
  let ?s = "put_tx t x (s\<lparr>is_world := w\<rparr>)"
  have txs: "is_txs ?s u = (if u = t then Some x else is_txs s u)" for u by (simp add: put_tx_def)
  have rows: "is_rows ?s = is_rows s" "is_world ?s = w" using w by (simp_all add: put_tx_def)
  have worked: "not_worked ?s j" if "ahead cf i p slot (is_rows s)"
    using orderedD(4) [OF o that] id [OF that] unfolding not_worked_def txs by auto
  have inserted: "received_at (ir_message r) \<noteq> p"
    if "is_txs ?s u = Some y" "tx_inserted (tx_phase y) = Some r" "row_id r = i" for u y r
    using that ins [of r] orderedD(2) [OF o, of u y r] unfolding txs by (auto split: if_splits)
  show ?thesis
    unfolding ordered_def rows using worked inserted orderedD(1,3) [OF o] w by auto
qed

lemma ordered_put_same:
  assumes "ordered cf i j p slot s" "ahead cf i p slot (is_rows s) \<Longrightarrow> phase_id (tx_phase x) \<noteq> Some j"
    "\<And>r. tx_inserted (tx_phase x) = Some r \<Longrightarrow> received_at (ir_message r) \<noteq> p"
  shows "ordered cf i j p slot (put_tx t x s)"
  using ordered_put [OF assms(1) refl order_refl, of x t] assms(2,3) by simp

lemma ordered_move:
  assumes o: "ordered cf i j p slot s" and x: "is_txs s t = Some x"
    and id: "phase_id q = None \<or> phase_id q = phase_id (tx_phase x)" and ins: "tx_inserted q = None"
  shows "ordered cf i j p slot (put_tx t (x\<lparr>tx_phase := q\<rparr>) s)" "ordered cf i j p slot (put_tx t (x\<lparr>tx_slot := a, tx_phase := q\<rparr>) s)"
    "ordered cf i j p slot (put_tx t (x\<lparr>tx_lock := b, tx_phase := q\<rparr>) s)"
    "ordered cf i j p slot (put_tx t (x\<lparr>tx_phase := q\<rparr>) (s\<lparr>is_world := (is_world s)\<lparr>iw_seq := iw_seq (is_world s) + 1\<rparr>\<rparr>))"
proof -
  have id': "phase_id q \<noteq> Some j" if "ahead cf i p slot (is_rows s)"
    using orderedD(4) [OF o that] x id unfolding not_worked_def by auto
  show "ordered cf i j p slot (put_tx t (x\<lparr>tx_phase := q\<rparr>) s)" "ordered cf i j p slot (put_tx t (x\<lparr>tx_slot := a, tx_phase := q\<rparr>) s)"
    "ordered cf i j p slot (put_tx t (x\<lparr>tx_lock := b, tx_phase := q\<rparr>) s)"
    by (rule ordered_put_same [OF o]; use id' ins in simp)+
  show "ordered cf i j p slot (put_tx t (x\<lparr>tx_phase := q\<rparr>) (s\<lparr>is_world := (is_world s)\<lparr>iw_seq := iw_seq (is_world s) + 1\<rparr>\<rparr>))"
    by (rule ordered_put [OF o]) (use id' ins in simp_all)
qed

text \<open>A change of the rows: no row comes to be ahead, and what is in the queue behind one stays.\<close>

lemma ordered_rows:
  assumes o: "ordered cf i j p slot s"
    and txs: "\<And>t x. is_txs s' t = Some x \<Longrightarrow> is_txs s t = Some x" and seq: "iw_seq (is_world s') = iw_seq (is_world s)"
    and new: "\<And>q. q \<in> set (is_rows s') \<Longrightarrow> q \<in> set (is_rows s) \<or> is_row_processed q
      \<or> im_last_error (ir_message q) \<noteq> None \<or> causal_dependencies (ic_parse cf) (ir_message q) \<noteq> [] \<or> row_id q \<noteq> i \<or> received_at (ir_message q) \<noteq> p"
    and stays: "\<And>r. ahead cf i p slot (is_rows s) \<Longrightarrow> r \<in> set (is_rows s) \<Longrightarrow> row_id r = j \<Longrightarrow> in_queue r \<Longrightarrow> r \<in> set (is_rows s')"
  shows "ordered cf i j p slot s'"
proof -
  have before: "ahead cf i p slot (is_rows s)" if "ahead cf i p slot (is_rows s')"
    using that new unfolding ahead_def by metis
  have "queued_behind j p slot (is_rows s') \<and> not_worked s' j" if a': "ahead cf i p slot (is_rows s')"
  proof
    note a = before [OF a']
    obtain r where r: "r \<in> set (is_rows s)" "row_id r = j" "p < received_at (ir_message r)" "ir_slot r = slot" "in_queue r"
      using orderedD(3) [OF o a] unfolding queued_behind_def by blast
    then show "queued_behind j p slot (is_rows s')" using stays [OF a] unfolding queued_behind_def by blast
    show "not_worked s' j" using orderedD(4) [OF o a] txs unfolding not_worked_def by blast
  qed
  moreover have "received_at (ir_message r) \<noteq> p"
    if "is_txs s' t = Some x" "tx_inserted (tx_phase x) = Some r" "row_id r = i" for t x r
    by (rule orderedD(2) [OF o txs [OF that(1)] that(2,3)])
  ultimately show ?thesis using orderedD(1) [OF o] seq unfolding ordered_def by simp
qed

lemma ordered_commit:
  assumes ok: "inbox_ok cf s" and o: "ordered cf i j p slot s" and x: "is_txs s t = Some x" "tx_phase x = Ended e"
  shows "ordered cf i j p slot \<lparr>is_world = serve_slot x (commit_ending e (is_world s)), is_txs = (is_txs s)(t := None)\<rparr>"
proof (rule ordered_rows [OF o])
  let ?w = "is_world s"
  have e_ok: "ending_ok cf ?w x e" using inbox_okD(2) [OF ok x(1)] x(2) by (simp add: tx_ok_def)
  note w = inbox_okD(1) [OF ok]
  show "q \<in> set (is_rows s) \<or> is_row_processed q \<or> im_last_error (ir_message q) \<noteq> None
      \<or> causal_dependencies (ic_parse cf) (ir_message q) \<noteq> [] \<or> row_id q \<noteq> i \<or> received_at (ir_message q) \<noteq> p"
    if q: "q \<in> set (is_rows \<lparr>is_world = serve_slot x (commit_ending e ?w), is_txs = (is_txs s)(t := None)\<rparr>)" for q
  proof -
    from q have "q \<in> set (iw_rows (commit_ending e ?w))" by simp
    from commit_rows [OF this] consider "q \<in> set (is_rows s)" | "q \<in> set (ending_rows e)" | "e = EInserts q" by blast
    then show ?thesis
    proof cases
      case 2
      then show ?thesis
      proof (cases e)
        case (EWaits r d)
        then show ?thesis using 2 e_ok by fastforce
      next
        case (EFails r)
        then show ?thesis using 2 e_ok by simp
      next
        case (EMarks m ws rs)
        have "marks_row ?w x m ws rs" using e_ok EMarks by simp
        then obtain r1 us where "rs = r1 # map woken_row us" "is_row_processed r1"
          "set us \<subseteq> {q \<in> set (iw_rows ?w). waits_on q = Some (id_of m)}"
          by (rule marks_rowE)
        moreover have "causal_dependencies (ic_parse cf) (ir_message u) \<noteq> []"
          if "u \<in> set (iw_rows ?w)" "waits_on u = Some (id_of m)" for u
          using row_okD(6) [OF inbox_world_okD(2) [OF w that(1)]] that(2) by (fastforce elim!: waits_onE)
        ultimately show ?thesis using 2 EMarks by auto
      qed simp_all
    next
      case 3
      then show ?thesis using orderedD(2) [OF o x(1), of q] x(2) by auto
    qed simp
  qed
  show "r \<in> set (is_rows \<lparr>is_world = serve_slot x (commit_ending e ?w), is_txs = (is_txs s)(t := None)\<rparr>)"
    if a: "ahead cf i p slot (is_rows s)" and r: "r \<in> set (is_rows s)" "row_id r = j" "in_queue r" for r
  proof -
    have id: "ending_id e \<noteq> Some j" using orderedD(4) [OF o a] x unfolding not_worked_def by fastforce
    have "r \<in> set (iw_rows (commit_ending e ?w))"
    proof (cases e)
      case (EMarks m ws rs)
      have mk: "marks_row ?w x m ws rs" using e_ok EMarks by simp
      obtain r0 r1 us where m: "set (apply_rows rs (iw_rows ?w)) = insert r1 (woken_row ` set us \<union> {q \<in> set (iw_rows ?w). q \<noteq> r0 \<and> q \<notin> set us})"
        "\<forall>u\<in>set us. waits_on u = Some (id_of m)" "row_id r0 = id_of m"
        "case ws of Some v \<Rightarrow> in_queue r0 \<and> tx_slot x = Some (ir_slot r0) | None \<Rightarrow> ir_parked_at r0 \<noteq> None"
        by (rule mark_rows [OF w mk]) blast
      have "r \<noteq> r0" using id r(2,3) m(3,4) EMarks by (cases ws) (auto simp: in_queue_def)
      moreover have "r \<notin> set us" using m(2) r(3) by (auto simp: in_queue_def waits_on_def)
      ultimately show ?thesis using r(1) m(1) EMarks by auto
    qed (use r id in \<open>auto intro!: apply_rows_other\<close>)
    then show ?thesis by simp
  qed
qed (auto split: if_splits)

theorem ordered_step:
  assumes "inbox_step cf f s s'" "inbox_ok cf s" "ordered cf i j p slot s"
  shows "ordered cf i j p slot s'"
  using assms
proof (induction rule: inbox_step.induct)
  case (reads s t x slot' m)
  obtain r where r: "slot_head (is_rows s) slot' = Some r" "m = ir_message r" using reads(4) head_ofD by metis
  have "id_of m \<noteq> j" if "ahead cf i p slot (is_rows s)"
    using head_not_behind [OF inbox_okD(1) [OF reads(5)] that orderedD(3) [OF reads(6) that] r(1)] r(2) by (simp add: row_id_def)
  then show ?case by (intro ordered_put_same [OF reads(6)]) simp_all
next
  case (waits s t x m d r)
  have "row_id r = id_of m"
    using waits(3) by (auto simp: set_waiting_unless_processed_def row_id_def filter_eq_Cons_iff split: if_splits)
  then show ?case using waits by (intro ordered_move) auto
next
  case (records s t x m fl r attempts parked)
  have "row_id r = id_of m"
    using records(3) by (auto simp: record_failure_def Let_def row_id_def find_Some_iff split: option.splits if_splits)
  then show ?case using records by (intro ordered_move) auto
next
  case (commits s t x e)
  then show ?case using ordered_commit by blast
next
  case (begins s t)
  then show ?case by (intro ordered_put_same) (simp_all add: tx_begin_def)
next
  case (locks_resolve s t m)
  show ?case by (rule ordered_put [OF locks_resolve(4)]) (simp_all add: tx_begin_def)
next
  case (inserts s t m r)
  have "received_at (ir_message r) = iw_seq (is_world s)"
    using inserts(2) by (auto simp: receive_row_def inserted_row_def received_at_def split: option.splits)
  then show ?case using inserts orderedD(1) [OF inserts(5)] by (intro ordered_put) (auto simp: tx_begin_def)
next
  case (clock s now)
  then show ?case by (intro ordered_rows [OF clock(3)]) auto
next
  case (draws s)
  then show ?case using orderedD [OF draws(2)] unfolding ordered_def not_worked_def by fastforce
next
  case (aborts s t x)
  then show ?case by (intro ordered_rows [OF aborts(3)]) (auto split: if_splits)
next
  case (expires max_wait s locked)
  show ?case
  proof (rule ordered_rows [OF expires(4)])
    let ?ws = "fst (expire_waiting cf (iw_clock (is_world s)) max_wait locked (is_rows s))"
    have rows: "iw_rows (expire cf locked (is_world s)) = apply_rows ?ws (is_rows s)" by (simp add: expire_def expires(1))
    show "q \<in> set (is_rows s) \<or> is_row_processed q \<or> im_last_error (ir_message q) \<noteq> None
        \<or> causal_dependencies (ic_parse cf) (ir_message q) \<noteq> [] \<or> row_id q \<noteq> i \<or> received_at (ir_message q) \<noteq> p"
      if "q \<in> set (is_rows (s\<lparr>is_world := expire cf locked (is_world s)\<rparr>))" for q
    proof -
      have "q \<in> set (apply_rows ?ws (is_rows s))" using that rows by simp
      from apply_rows_elim [OF this] show ?thesis by (auto simp: expire_waiting_def Let_def)
    qed
    show "r \<in> set (is_rows (s\<lparr>is_world := expire cf locked (is_world s)\<rparr>))" if r: "r \<in> set (is_rows s)" "in_queue r" for r
    proof -
      have "row_id r \<notin> row_id ` set ?ws"
      proof
        assume "row_id r \<in> row_id ` set ?ws"
        then obtain u where u: "u \<in> set (is_rows s)" "im_waiting_for (ir_message u) \<noteq> None" "row_id r = row_id u"
          by (auto simp: expire_waiting_def Let_def row_id_def)
        then show False using same_row [OF inbox_world_okD(1) [OF inbox_okD(1) [OF expires(3)]] r(1) u(1)] r(2) by (simp add: in_queue_def)
      qed
      then show ?thesis using apply_rows_other [OF r(1)] rows by simp
    qed
  qed (auto simp: expire_def expires(1))
next
  case (unparks s m)
  show ?case
  proof (rule ordered_rows [OF unparks(3)])
    have rows: "is_rows (s\<lparr>is_world := snd (unpark m (is_world s))\<rparr>) = apply_rows (unpark_row m (is_rows s)) (is_rows s)"
      by (simp add: unpark_def Let_def)
    note row = inbox_world_okD(2) [OF inbox_okD(1) [OF unparks(2)]]
    show "q \<in> set (is_rows s) \<or> is_row_processed q \<or> im_last_error (ir_message q) \<noteq> None
        \<or> causal_dependencies (ic_parse cf) (ir_message q) \<noteq> [] \<or> row_id q \<noteq> i \<or> received_at (ir_message q) \<noteq> p"
      if "q \<in> set (is_rows (s\<lparr>is_world := snd (unpark m (is_world s))\<rparr>))" for q
    proof -
      have "q \<in> set (apply_rows (unpark_row m (is_rows s)) (is_rows s))" using that rows by simp
      from apply_rows_elim [OF this] show ?thesis using row_okD(5) [OF row] by (fastforce simp: unpark_row_def)
    qed
    show "r \<in> set (is_rows (s\<lparr>is_world := snd (unpark m (is_world s))\<rparr>))" if r: "r \<in> set (is_rows s)" "in_queue r" for r
    proof -
      have "row_id r \<notin> row_id ` set (unpark_row m (is_rows s))"
      proof
        assume "row_id r \<in> row_id ` set (unpark_row m (is_rows s))"
        then obtain u where u: "u \<in> set (is_rows s)" "ir_parked_at u \<noteq> None" "row_id r = row_id u"
          by (auto simp: unpark_row_def row_id_def)
        then show False using same_row [OF inbox_world_okD(1) [OF inbox_okD(1) [OF unparks(2)]] r(1) u(1)] r(2) by (simp add: in_queue_def)
      qed
      then show ?thesis using apply_rows_other [OF r(1)] rows by simp
    qed
  qed (auto simp: unpark_def Let_def)
next
  case (sweeps gone s)
  then show ?case by (intro ordered_rows [OF sweeps(3)]) (auto simp: forgettable_def in_queue_def)
qed (auto intro!: ordered_move)

subsection \<open>Runs\<close>

lemma ordered_steps:
  assumes "inbox_steps cf f s s'" "0 < ic_slots cf" "inbox_ok cf s" "ordered cf i j p slot s"
  shows "ordered cf i j p slot s'"
  using assms
proof (induction rule: inbox_steps.induct)
  case (more s s' s'')
  have "inbox_ok cf s'" by (rule inbox_steps_ok [OF more.hyps(1) more.prems(1,2)])
  then show ?case using ordered_step [OF more.hyps(2)] more.IH [OF more.prems] by blast
qed simp

lemma tx_inserted_EInserts: "tx_inserted p = Some r \<Longrightarrow> p = Ended (EInserts r)"
  by (induction p rule: tx_inserted.induct) simp_all

lemma ordered_start:
  assumes ok: "inbox_ok cf s" "listed_ok cf s"
    and rows: "ahead cf i p slot (is_rows s)" "queued_behind j p slot (is_rows s)" "not_worked s j"
  shows "ordered cf i j p slot s"
proof -
  obtain q where q: "q \<in> set (is_rows s)" "row_id q = i" "received_at (ir_message q) = p"
    using rows(1) unfolding ahead_def by blast
  have "p < iw_seq (is_world s)" using listed_okD(1) [OF ok(2) q(1)] q(3) by (simp add: listed_def)
  moreover have "row_id r \<noteq> i" if "is_txs s t = Some x" "tx_inserted (tx_phase x) = Some r" for t x r
  proof -
    have "tx_phase x = Ended (EInserts r)" using that(2) by (rule tx_inserted_EInserts)
    then have "row_id r \<notin> row_id ` set (is_rows s)" using inbox_okD(2) [OF ok(1) that(1)] by (simp add: tx_ok_def)
    then show ?thesis using q(1,2) by force
  qed
  ultimately show ?thesis using rows unfolding ordered_def by blast
qed

end
