(* ===== verification/Inbox_Sweep.thy ===== *)
theory Inbox_Sweep
  imports Inbox_Run Outbox_Server
begin

section \<open>The sweep, and the inbox's options\<close>

text \<open>
  \<open>crates/inbox/src/pg/sweep.rs\<close> and \<open>pg/mod.rs\<close>. A statement of the sweep either finds the sweep held by
  another, or fails, or deletes a batch; which of them is an argument, by channel and by how many statements
  are left. What the sweep remembers is the time of the last row it deleted, by channel.
\<close>

subsection \<open>Options\<close>

record retention =
  rt_windows :: "(string \<times> nat) list"
  rt_interval :: nat
  rt_batch :: nat
  rt_grace :: nat
  rt_lock_timeout :: nat

definition keep_everything :: retention where
  "keep_everything = \<lparr>rt_windows = [], rt_interval = 60 * 10 ^ 9, rt_batch = 1000, rt_grace = 600 * 10 ^ 9,
    rt_lock_timeout = 10 ^ 9\<rparr>"

definition retention_window :: "string \<Rightarrow> nat \<Rightarrow> retention \<Rightarrow> retention" where
  "retention_window channel window rt = rt\<lparr>rt_windows := json_insert channel window (rt_windows rt)\<rparr>"

definition retention_keep :: "string \<Rightarrow> retention \<Rightarrow> retention" where
  "retention_keep channel rt = rt\<lparr>rt_windows := filter (\<lambda>(c, _). c \<noteq> channel) (rt_windows rt)\<rparr>"

text \<open>The wait after a failure doubles up to its cap; the subtraction saturates, as that of the naturals does.\<close>

definition INBOX_DURATION_MAX :: nat where
  "INBOX_DURATION_MAX = 2 ^ 64 * 10 ^ 9 - 1"

definition exponential :: "nat \<Rightarrow> nat \<Rightarrow> nat \<Rightarrow> nat" where
  "exponential base cap attempt =
    (let wait = base * 2 ^ min (attempt - 1) 31 in
     if INBOX_DURATION_MAX < wait then cap else min wait cap)"

definition retries_unlimited :: "inbox_config \<Rightarrow> inbox_config" where
  "retries_unlimited cf = cf\<lparr>ic_max_attempts := 0, ic_backoff := (\<lambda>_. 0)\<rparr>"

definition retries_up_to :: "nat \<Rightarrow> inbox_config \<Rightarrow> inbox_config" where
  "retries_up_to n cf = (retries_unlimited cf)\<lparr>ic_max_attempts := n\<rparr>"

definition with_backoff :: "(nat \<Rightarrow> nat) \<Rightarrow> inbox_config \<Rightarrow> inbox_config" where
  "with_backoff backoff cf = cf\<lparr>ic_backoff := backoff\<rparr>"

definition with_max_wait :: "nat \<Rightarrow> inbox_config \<Rightarrow> inbox_config" where
  "with_max_wait max_wait cf = cf\<lparr>ic_max_wait := Some max_wait\<rparr>"

lemma exponential_bounded: "exponential base cap n \<le> cap"
  by (simp add: exponential_def Let_def)

lemma exponential_grows:
  assumes "m \<le> n"
  shows "exponential base cap m \<le> exponential base cap n"
proof -
  define a where "a = base * 2 ^ min (m - 1) 31"
  define b where "b = base * 2 ^ min (n - 1) 31"
  have "(2::nat) ^ min (m - 1) 31 \<le> 2 ^ min (n - 1) 31" using assms by (intro power_increasing) auto
  then have "a \<le> b" by (simp add: a_def b_def)
  then show ?thesis unfolding exponential_def Let_def a_def [symmetric] b_def [symmetric] by auto
qed

subsection \<open>Grace\<close>

record grace =
  gr_grace :: nat
  gr_armed_at :: nat

definition grace_new :: "nat \<Rightarrow> nat \<Rightarrow> grace" where
  "grace_new g now = \<lparr>gr_grace = g, gr_armed_at = now + g\<rparr>"

definition grace_allows :: "grace \<Rightarrow> nat \<Rightarrow> bool" where
  "grace_allows g now \<longleftrightarrow> gr_armed_at g \<le> now"

definition grace_failed :: "grace \<Rightarrow> nat \<Rightarrow> grace" where
  "grace_failed g now = grace_new (gr_grace g) now"

subsection \<open>A statement, a channel, a pass\<close>

definition BATCHES_PER_PASS :: nat where
  "BATCHES_PER_PASS = 100"

datatype turn = TFree | THeld | TBroken inbox_error

definition inbox_channel_of :: "string \<Rightarrow> string" where
  "inbox_channel_of uri = split_part uri CHR ''/'' 1 @ ''//'' @ split_part uri CHR ''/'' 3"

definition forgotten_by :: "inbox_config \<Rightarrow> nat \<Rightarrow> string \<Rightarrow> nat \<Rightarrow> nat option \<Rightarrow> inbox_row list \<Rightarrow> inbox_row \<Rightarrow> bool" where
  "forgotten_by cf now channel window begin rows r \<longleftrightarrow>
    inbox_channel_of (im_uri (ir_message r)) = channel
    \<and> (case ir_processed_at r of None \<Rightarrow> False
       | Some t \<Rightarrow> t + ic_interval cf window < now \<and> (case begin of None \<Rightarrow> True | Some b \<Rightarrow> b \<le> t))
    \<and> forgettable rows r"

definition forget_rows :: "inbox_config \<Rightarrow> nat \<Rightarrow> dependency list \<Rightarrow> nat \<Rightarrow> string \<Rightarrow> nat \<Rightarrow> nat option \<Rightarrow> inbox_row list \<Rightarrow> inbox_row list" where
  "forget_rows cf batch locked now channel window begin rows =
    take batch (sort_key (\<lambda>r. the (ir_processed_at r))
      (filter (\<lambda>r. forgotten_by cf now channel window begin rows r \<and> row_id r \<notin> set locked) rows))"

type_synonym 'w swept = "'w inbox_world \<times> (string \<times> nat) list"

definition forget_batch :: "inbox_config \<Rightarrow> retention \<Rightarrow> dependency list \<Rightarrow> turn \<Rightarrow> string \<Rightarrow> nat \<Rightarrow> 'w swept
    \<Rightarrow> (inbox_error, nat \<times> bool) result \<times> 'w swept" where
  "forget_batch cf rt locked turn channel window ws =
    (case turn of
       TBroken e \<Rightarrow> (Inl e, ws)
     | THeld \<Rightarrow> (Inr (0, False), ws)
     | TFree \<Rightarrow>
         (let (w, swept_to) = ws; batch = max (rt_batch rt) 1;
              gone = forget_rows cf batch locked (iw_clock w) channel window (map_of swept_to channel) (iw_rows w) in
          (Inr (length gone, batch \<le> length gone),
           w\<lparr>iw_rows := filter (\<lambda>r. r \<notin> set gone) (iw_rows w),
             iw_forgotten := iw_forgotten w @ map row_id (filter (\<lambda>r. r \<in> set gone) (iw_rows w))\<rparr>,
           if gone = [] then swept_to
           else AList.update channel (foldr (\<lambda>r. max (the (ir_processed_at r))) gone 0) swept_to)))"

fun sweep_channel :: "inbox_config \<Rightarrow> retention \<Rightarrow> dependency list \<Rightarrow> (nat \<Rightarrow> turn) \<Rightarrow> string \<Rightarrow> nat \<Rightarrow> nat \<Rightarrow> 'w swept
    \<Rightarrow> (inbox_error, nat) result \<times> 'w swept" where
  "sweep_channel cf rt locked turns channel window 0 ws = (Inr 0, ws)"
| "sweep_channel cf rt locked turns channel window (Suc n) ws =
    (case forget_batch cf rt locked (turns n) channel window ws of
       (Inl e, ws') \<Rightarrow> (Inl e, ws')
     | (Inr (rows, full), ws') \<Rightarrow>
         if full
         then (case sweep_channel cf rt locked turns channel window n ws' of
                 (Inl e, ws'') \<Rightarrow> (Inl e, ws'')
               | (Inr others, ws'') \<Rightarrow> (Inr (rows + others), ws''))
         else (Inr rows, ws'))"

fun sweep_windows :: "inbox_config \<Rightarrow> retention \<Rightarrow> dependency list \<Rightarrow> (string \<Rightarrow> nat \<Rightarrow> turn) \<Rightarrow> (string \<times> nat) list \<Rightarrow> 'w swept
    \<Rightarrow> (inbox_error, nat) result \<times> 'w swept" where
  "sweep_windows cf rt locked turns [] ws = (Inr 0, ws)"
| "sweep_windows cf rt locked turns ((channel, window) # rest) ws =
    (case sweep_channel cf rt locked (turns channel) channel window BATCHES_PER_PASS ws of
       (Inl e, ws') \<Rightarrow> (Inl e, ws')
     | (Inr swept, ws') \<Rightarrow>
         (case sweep_windows cf rt locked turns rest ws' of
            (Inl e, ws'') \<Rightarrow> (Inl e, ws'')
          | (Inr others, ws'') \<Rightarrow> (Inr (swept + others), ws'')))"

definition inbox_sweep :: "inbox_config \<Rightarrow> retention \<Rightarrow> dependency list \<Rightarrow> (string \<Rightarrow> nat \<Rightarrow> turn) \<Rightarrow> 'w swept
    \<Rightarrow> (inbox_error, nat) result \<times> 'w swept" where
  "inbox_sweep cf rt locked turns ws = sweep_windows cf rt locked turns (rt_windows rt) ws"

text \<open>One turn of the loop of a process: the time before the pass, and the time after it.\<close>

definition sweep_turn :: "inbox_config \<Rightarrow> retention \<Rightarrow> dependency list \<Rightarrow> (string \<Rightarrow> nat \<Rightarrow> turn) \<Rightarrow> nat \<Rightarrow> nat
    \<Rightarrow> grace \<times> 'w swept \<Rightarrow> grace \<times> 'w swept" where
  "sweep_turn cf rt locked turns now later gws =
    (let (g, ws) = gws in
     if \<not> grace_allows g now then (g, ws)
     else (case inbox_sweep cf rt locked turns ws of
             (Inl e, ws') \<Rightarrow> (grace_failed g later, ws')
           | (Inr n, ws') \<Rightarrow> (g, ws')))"

subsection \<open>What a pass deletes\<close>

text \<open>
  A row that may go: processed, in a channel with a window, longer ago than the window, and no row waits for it.
\<close>

definition outlived :: "inbox_config \<Rightarrow> (string \<times> nat) list \<Rightarrow> nat \<Rightarrow> inbox_row list \<Rightarrow> inbox_row \<Rightarrow> bool" where
  "outlived cf windows now rows r \<longleftrightarrow> forgettable rows r \<and>
    (\<exists>window t. (inbox_channel_of (im_uri (ir_message r)), window) \<in> set windows \<and> ir_processed_at r = Some t
      \<and> t + ic_interval cf window < now)"

text \<open>A statement deletes such rows and is a step of the system; so is a pass, statement by statement.\<close>

definition sweeps_to :: "inbox_config \<Rightarrow> (string \<times> nat) list \<Rightarrow> 'w inbox_world \<Rightarrow> 'w inbox_world \<Rightarrow> bool" where
  "sweeps_to cf windows w w' \<longleftrightarrow> iw_clock w' = iw_clock w
    \<and> (\<exists>P. iw_rows w' = filter P (iw_rows w)) \<and> (\<forall>r\<in>set (iw_rows w) - set (iw_rows w'). outlived cf windows (iw_clock w) (iw_rows w) r)
    \<and> (\<forall>(f :: 'w subscriber) txs. inbox_steps cf f \<lparr>is_world = w, is_txs = txs\<rparr> \<lparr>is_world = w', is_txs = txs\<rparr>)"

lemma sweeps_toD:
  assumes "sweeps_to cf windows w w'"
  shows "iw_clock w' = iw_clock w" "\<exists>P. iw_rows w' = filter P (iw_rows w)"
    "r \<in> set (iw_rows w) - set (iw_rows w') \<Longrightarrow> outlived cf windows (iw_clock w) (iw_rows w) r"
    "inbox_steps cf f \<lparr>is_world = w, is_txs = txs\<rparr> \<lparr>is_world = w', is_txs = txs\<rparr>"
  using assms unfolding sweeps_to_def by blast+

lemma sweeps_toI:
  fixes w w' :: "'w inbox_world"
  assumes "iw_clock w' = iw_clock w" "iw_rows w' = filter P (iw_rows w)"
    "\<And>r. r \<in> set (iw_rows w) - set (iw_rows w') \<Longrightarrow> outlived cf windows (iw_clock w) (iw_rows w) r"
    "\<And>(f :: 'w subscriber) txs. inbox_steps cf f \<lparr>is_world = w, is_txs = txs\<rparr> \<lparr>is_world = w', is_txs = txs\<rparr>"
  shows "sweeps_to cf windows w w'"
  using assms unfolding sweeps_to_def by blast

lemma sweeps_to_refl: "sweeps_to cf windows w w"
  by (auto simp: sweeps_to_def inbox_steps.none intro: exI [of _ "\<lambda>_. True"])

lemma waits_kept:
  assumes ok: "inbox_world_ok cf w" and go: "sweeps_to cf windows w w'"
    and r: "r \<in> set (iw_rows w)" "waits_on r = Some i"
  shows "r \<in> set (iw_rows w')"
proof (rule ccontr)
  assume "r \<notin> set (iw_rows w')"
  then have "outlived cf windows (iw_clock w) (iw_rows w) r" using sweeps_toD(3) [OF go] r(1) by blast
  then have "is_row_processed r" by (simp add: outlived_def forgettable_def)
  then show False using row_okD(2) [OF inbox_world_okD(2) [OF ok r(1)]] r(2) by (simp add: waits_on_def)
qed

lemma sweeps_to_trans:
  assumes ok: "inbox_world_ok cf w" and a: "sweeps_to cf windows w w'" and b: "sweeps_to cf windows w' w''"
  shows "sweeps_to cf windows w w''"
proof -
  obtain P Q where PQ: "iw_rows w' = filter P (iw_rows w)" "iw_rows w'' = filter Q (iw_rows w')"
    using sweeps_toD(2) [OF a] sweeps_toD(2) [OF b] by blast
  show ?thesis
  proof (rule sweeps_toI)
    show "iw_clock w'' = iw_clock w" using sweeps_toD(1) [OF a] sweeps_toD(1) [OF b] by simp
    show "iw_rows w'' = filter (\<lambda>x. P x \<and> Q x) (iw_rows w)" by (simp add: PQ)
    show "outlived cf windows (iw_clock w) (iw_rows w) r" if r: "r \<in> set (iw_rows w) - set (iw_rows w'')" for r
    proof (cases "r \<in> set (iw_rows w')")
      case True
      then have out: "outlived cf windows (iw_clock w) (iw_rows w') r"
        using sweeps_toD(3) [OF b, of r] sweeps_toD(1) [OF a] r by simp
      then have "forgettable (iw_rows w) r"
        using waits_kept [OF ok a] by (auto simp: outlived_def forgettable_def list_all_iff)
      then show ?thesis using out by (simp add: outlived_def)
    next
      case False
      then show ?thesis using sweeps_toD(3) [OF a, of r] r by simp
    qed
    show "inbox_steps cf f \<lparr>is_world = w, is_txs = txs\<rparr> \<lparr>is_world = w'', is_txs = txs\<rparr>" for f txs
      by (rule inbox_steps_trans [OF sweeps_toD(4) [OF b] sweeps_toD(4) [OF a]])
  qed
qed

lemma sweeps_to_ok:
  assumes ok: "inbox_world_ok cf w" and cf: "0 < ic_slots cf" and go: "sweeps_to cf windows w w'"
  shows "inbox_world_ok cf w'"
proof -
  have start: "inbox_ok cf \<lparr>is_world = w, is_txs = (\<lambda>_. None)\<rparr>" using ok by (simp add: inbox_ok_def)
  have "inbox_steps cf (\<lambda>m seen. ([], ASucceeded)) \<lparr>is_world = w, is_txs = (\<lambda>_. None)\<rparr> \<lparr>is_world = w', is_txs = (\<lambda>_. None)\<rparr>"
    by (rule sweeps_toD(4) [OF go])
  from inbox_okD(1) [OF inbox_steps_ok [OF this cf start]] show ?thesis by simp
qed

lemma batch_sweeps:
  assumes "(channel, window) \<in> set windows"
  shows "sweeps_to cf windows (fst ws) (fst (snd (forget_batch cf rt locked turn channel window ws)))"
proof (cases turn)
  case TFree
  let ?w = "fst ws"
  define gone where "gone = forget_rows cf (max (rt_batch rt) 1) locked (iw_clock ?w) channel window (map_of (snd ws) channel) (iw_rows ?w)"
  define w' where "w' = ?w\<lparr>iw_rows := filter (\<lambda>r. r \<notin> set gone) (iw_rows ?w),
             iw_forgotten := iw_forgotten ?w @ map row_id (filter (\<lambda>r. r \<in> set gone) (iw_rows ?w))\<rparr>"
  have res: "fst (snd (forget_batch cf rt locked turn channel window ws)) = w'"
    by (cases ws) (simp add: forget_batch_def TFree w'_def gone_def Let_def)
  have gone: "forgotten_by cf (iw_clock ?w) channel window (map_of (snd ws) channel) (iw_rows ?w) r" if "r \<in> set gone" for r
    using in_set_takeD [OF that [unfolded gone_def forget_rows_def]] by simp
  have out: "outlived cf windows (iw_clock ?w) (iw_rows ?w) r" if "r \<in> set gone" for r
  proof -
    obtain t where "ir_processed_at r = Some t" "t + ic_interval cf window < iw_clock ?w" "forgettable (iw_rows ?w) r"
      "inbox_channel_of (im_uri (ir_message r)) = channel"
      using gone [OF \<open>r \<in> set gone\<close>] by (auto simp: forgotten_by_def split: option.splits)
    then show ?thesis using assms unfolding outlived_def by blast
  qed
  have go: "inbox_step cf f \<lparr>is_world = ?w, is_txs = txs\<rparr> \<lparr>is_world = w', is_txs = txs\<rparr>" for f :: "'a subscriber" and txs
    using inbox_step.sweeps [of gone "\<lparr>is_world = ?w, is_txs = txs\<rparr>" cf f] gone by (simp add: w'_def forgotten_by_def)
  have "sweeps_to cf windows ?w w'"
  proof (rule sweeps_toI)
    show "iw_rows w' = filter (\<lambda>r. r \<notin> set gone) (iw_rows ?w)" by (simp add: w'_def)
    show "outlived cf windows (iw_clock ?w) (iw_rows ?w) r" if "r \<in> set (iw_rows ?w) - set (iw_rows w')" for r
      using that out by (auto simp: w'_def)
    show "inbox_steps cf f \<lparr>is_world = ?w, is_txs = txs\<rparr> \<lparr>is_world = w', is_txs = txs\<rparr>" for f txs
      by (rule inbox_steps_one [OF go])
  qed (simp add: w'_def)
  then show ?thesis using res by simp
qed (simp_all add: forget_batch_def sweeps_to_refl)

lemma channel_sweeps:
  assumes "(channel, window) \<in> set windows" "0 < ic_slots cf" "inbox_world_ok cf (fst ws)"
  shows "sweeps_to cf windows (fst ws) (fst (snd (sweep_channel cf rt locked turns channel window n ws)))"
  using assms(3)
proof (induction n arbitrary: ws)
  case (Suc n)
  obtain res ws' where batch: "forget_batch cf rt locked (turns n) channel window ws = (res, ws')" by (rule prod.exhaust)
  have go: "sweeps_to cf windows (fst ws) (fst ws')"
    using batch_sweeps [OF assms(1), of cf ws rt locked "turns n"] batch by simp
  have "sweeps_to cf windows (fst ws) (fst (snd (sweep_channel cf rt locked turns channel window n ws')))"
    by (rule sweeps_to_trans [OF Suc.prems go Suc.IH [OF sweeps_to_ok [OF Suc.prems assms(2) go]]])
  then show ?case using go batch by (auto split: sum.splits prod.splits)
qed (simp add: sweeps_to_refl)

lemma windows_sweep:
  assumes "set ps \<subseteq> set windows" "0 < ic_slots cf" "inbox_world_ok cf (fst ws)"
  shows "sweeps_to cf windows (fst ws) (fst (snd (sweep_windows cf rt locked turns ps ws)))"
  using assms(1,3)
proof (induction ps arbitrary: ws)
  case (Cons p ps)
  obtain channel window where p: "p = (channel, window)" by fastforce
  obtain res ws' where ch: "sweep_channel cf rt locked (turns channel) channel window BATCHES_PER_PASS ws = (res, ws')" by (rule prod.exhaust)
  have mem: "(channel, window) \<in> set windows" using Cons.prems(1) p by simp
  have go: "sweeps_to cf windows (fst ws) (fst ws')"
    using channel_sweeps [OF mem assms(2) Cons.prems(2), of rt locked "turns channel" BATCHES_PER_PASS] ch by simp
  have "set ps \<subseteq> set windows" using Cons.prems(1) by simp
  then have "sweeps_to cf windows (fst ws) (fst (snd (sweep_windows cf rt locked turns ps ws')))"
    by (intro sweeps_to_trans [OF Cons.prems(2) go] Cons.IH sweeps_to_ok [OF Cons.prems(2) assms(2) go])
  then show ?case using go ch p by (auto split: sum.splits prod.splits)
qed (simp add: sweeps_to_refl)

end
