(* ===== verification/Inbox_Wake.thy ===== *)
theory Inbox_Wake
  imports Inbox_Listed
begin

section \<open>No row waits for a processed one\<close>

text \<open>
  A wait is written under the lock of the dependency as the waiting message spells it, and a mark under the
  lock of the identity as the marked message spells it. Where whoever spells an identity spells it so that the
  lock is the same, or there is one slot only, a wait and a mark of one identity are never open together:
  then a mark wakes whatever waits, and no row comes to wait for what is processed.
\<close>

text \<open>Dependencies that are one to the server have one lock.\<close>

definition alike :: "inbox_config \<Rightarrow> dependency set \<Rightarrow> bool" where
  "alike cf A \<longleftrightarrow> (\<forall>d\<in>A. \<forall>e\<in>A. canon_id d = canon_id e \<longrightarrow> lock_key cf d = lock_key cf e)"

lemma alike_subset: "alike cf A \<Longrightarrow> B \<subseteq> A \<Longrightarrow> alike cf B"
  unfolding alike_def by blast

definition wakes_phase :: "inbox_row list \<Rightarrow> 'w phase \<Rightarrow> bool" where
  "wakes_phase rows p \<longleftrightarrow>
    (\<forall>r d. p = Ended (EWaits r d) \<longrightarrow> \<not> is_processed rows (canon_id d))
    \<and> (\<forall>m ws rs. p = Ended (EMarks m ws rs) \<longrightarrow>
        (\<forall>q\<in>set rows. waits_on q = Some (id_of m) \<longrightarrow> row_id q \<in> row_id ` set rs))"

definition wakes_ok :: "'w inbox_state \<Rightarrow> bool" where
  "wakes_ok s \<longleftrightarrow> none_waits_for_processed (is_rows s)
    \<and> (\<forall>t x. is_txs s t = Some x \<longrightarrow> wakes_phase (is_rows s) (tx_phase x))"

lemma wakes_okD:
  assumes "wakes_ok s"
  shows "none_waits_for_processed (is_rows s)" "is_txs s t = Some x \<Longrightarrow> wakes_phase (is_rows s) (tx_phase x)"
  using assms unfolding wakes_ok_def by blast+

lemma wakes_phaseD:
  assumes "wakes_phase rows p"
  shows "p = Ended (EWaits r d) \<Longrightarrow> \<not> is_processed rows (canon_id d)"
    "p = Ended (EMarks m ws rs) \<Longrightarrow> q \<in> set rows \<Longrightarrow> waits_on q = Some (id_of m) \<Longrightarrow> row_id q \<in> row_id ` set rs"
  using assms unfolding wakes_phase_def by blast+

text \<open>A change of the rows that makes none wait and marks none.\<close>

definition rows_thin :: "inbox_row list \<Rightarrow> inbox_row list \<Rightarrow> bool" where
  "rows_thin rows rows' \<longleftrightarrow>
    (\<forall>q\<in>set rows'. \<forall>i. waits_on q = Some i \<longrightarrow> (\<exists>p\<in>set rows. row_id p = row_id q \<and> waits_on p = Some i))
    \<and> (\<forall>i. is_processed rows' i \<longrightarrow> is_processed rows i)"

lemma rows_thin_phase: "rows_thin rows rows' \<Longrightarrow> wakes_phase rows p \<Longrightarrow> wakes_phase rows' p"
  unfolding rows_thin_def wakes_phase_def by metis

lemma rows_thin_none_waits: "rows_thin rows rows' \<Longrightarrow> none_waits_for_processed rows \<Longrightarrow> none_waits_for_processed rows'"
  unfolding rows_thin_def none_waits_for_processed_def by metis

lemma wakes_shrink:
  assumes ok: "wakes_ok s" and "rows_thin (is_rows s) (iw_rows w)" "\<And>t x. txs t = Some x \<Longrightarrow> is_txs s t = Some x"
  shows "wakes_ok \<lparr>is_world = w, is_txs = txs\<rparr>"
  unfolding wakes_ok_def
proof (intro conjI allI impI)
  show "none_waits_for_processed (is_rows \<lparr>is_world = w, is_txs = txs\<rparr>)"
    using rows_thin_none_waits [OF assms(2) wakes_okD(1) [OF ok]] by simp
  fix t x assume "is_txs \<lparr>is_world = w, is_txs = txs\<rparr> t = Some x"
  then have "is_txs s t = Some x" using assms(3) by simp
  from rows_thin_phase [OF assms(2) wakes_okD(2) [OF ok this]]
  show "wakes_phase (is_rows \<lparr>is_world = w, is_txs = txs\<rparr>) (tx_phase x)" by simp
qed

lemma rows_thin_refl: "rows_thin rows rows"
  unfolding rows_thin_def by blast

lemma rows_thin_mapped:
  assumes "\<And>r. row_id (g r) = row_id r" "\<And>r. is_row_processed (g r) = is_row_processed r"
    "\<And>r i. waits_on (g r) = Some i \<Longrightarrow> waits_on r = Some i"
  shows "rows_thin rows (map g rows)"
proof -
  have "is_processed (map g rows) i \<longleftrightarrow> is_processed rows i" for i
    by (simp add: is_processed_def list_ex_iff assms(1,2))
  moreover have "\<exists>p\<in>set rows. row_id p = row_id q \<and> waits_on p = Some i"
    if q: "q \<in> set (map g rows)" "waits_on q = Some i" for q i
  proof -
    obtain r where "r \<in> set rows" "q = g r" using q(1) by auto
    then show ?thesis using assms(1) [of r] assms(3) [of r i] q(2) by (intro bexI [of _ r]) simp_all
  qed
  ultimately show ?thesis unfolding rows_thin_def by blast
qed

lemma rows_thin_filter: "rows_thin rows (filter P rows)"
  by (auto simp: rows_thin_def is_processed_iff)

lemma wakes_put:
  assumes ok: "wakes_ok s" and "wakes_phase (is_rows s) (tx_phase x)" "iw_rows w = is_rows s"
  shows "wakes_ok (put_tx t x (s\<lparr>is_world := w\<rparr>))"
  using wakes_okD [OF ok] assms(2,3) by (simp add: wakes_ok_def put_tx_def)

lemma wakes_move:
  assumes "wakes_ok s" "wakes_phase (is_rows s) (tx_phase x)"
  shows "wakes_ok (put_tx t x s)"
  using wakes_put [OF assms refl, of t] by simp

subsection \<open>A wait and a mark of one identity\<close>

lemma wait_and_mark_apart:
  assumes ok: "inbox_ok cf s" and listed: "listed_ok cf s" and alike: "alike cf (set (iw_spelled (is_world s)))"
    and x: "is_txs s t = Some x" "tx_phase x = Ended (EWaits r d)"
    and y: "is_txs s u = Some y" "tx_phase y = Ended (EMarks m ws rs)"
  shows "canon_id d \<noteq> id_of m"
proof
  assume same: "canon_id d = id_of m"
  have "d \<in> set (iw_spelled (is_world s))" "dependency_on m \<in> set (iw_spelled (is_world s))"
    using listed_okD(2) [OF listed x(1)] listed_okD(2) [OF listed y(1)] x(2) y(2) by (simp_all add: listed_tx_def)
  then have key: "lock_key cf d = lock_key cf (dependency_on m)"
    using alike same unfolding alike_def id_of_def by blast
  have "t \<noteq> u" using x y by auto
  then have apart: "apart x y" using inbox_okD(3) [OF ok] x(1) y(1) by blast
  have tx: "tx_lock x = Some (lock_key cf d)" "tx_slot x \<noteq> None" "\<And>slot. tx_slot x = Some slot \<Longrightarrow> slot < ic_slots cf"
    using inbox_okD(2) [OF ok x(1)] x(2) rewrites_headD by (auto simp: tx_ok_def)
  have ty: "guards cf y (dependency_on m)" "\<And>slot. tx_slot y = Some slot \<Longrightarrow> slot < ic_slots cf"
    using inbox_okD(2) [OF ok y(1)] y(2) by (auto simp: tx_ok_def)
  show False
  proof (cases "tx_lock y = Some (lock_key cf (dependency_on m))")
    case True
    then show ?thesis using tx(1) key apart by (simp add: apart_def)
  next
    case False
    then obtain b where b: "\<not> 1 < ic_slots cf" "tx_slot y = Some b" using ty(1) by (auto simp: guards_def)
    obtain a where a: "tx_slot x = Some a" using tx(2) by auto
    have "a = b" using tx(3) [OF a] ty(2) [OF b(2)] b(1) by simp
    then show ?thesis using apart a b(2) by (simp add: apart_def)
  qed
qed

subsection \<open>Commits\<close>

lemma waits_commit:
  assumes ok: "inbox_ok cf s" and listed: "listed_ok cf s" and wakes: "wakes_ok s" and alike: "alike cf (set (iw_spelled (is_world s)))"
    and x: "is_txs s t = Some x" "tx_phase x = Ended (EWaits r d)" and y: "is_txs s u = Some y"
    and rows: "rows = apply_rows [r] (is_rows s)"
  shows "none_waits_for_processed rows" "wakes_phase rows (tx_phase y)"
proof -
  have w: "rewrites_head (is_world s) x r" "waits_on r = Some (canon_id d)"
    using inbox_okD(2) [OF ok x(1)] x(2) by (auto simp: tx_ok_def waits_on_def)
  note processed = rewritten_processed [OF inbox_okD(1) [OF ok] w(1), folded rows]
  have row: "q = r \<or> q \<in> set (is_rows s)" if "q \<in> set rows" for q
    using apply_rows_elim that unfolding rows by fastforce
  have not: "\<not> is_processed rows (canon_id d)"
    using wakes_phaseD(1) [OF wakes_okD(2) [OF wakes x(1)] x(2)] processed by simp
  show "none_waits_for_processed rows"
    using row w(2) not wakes_okD(1) [OF wakes] processed unfolding none_waits_for_processed_def by fastforce
  show "wakes_phase rows (tx_phase y)"
    unfolding wakes_phase_def
  proof (intro conjI allI impI ballI)
    show "\<not> is_processed rows (canon_id d')" if "tx_phase y = Ended (EWaits r' d')" for r' d'
      using wakes_phaseD(1) [OF wakes_okD(2) [OF wakes y] that] processed by simp
    fix m ws rs q
    assume m: "tx_phase y = Ended (EMarks m ws rs)" "q \<in> set rows" "waits_on q = Some (id_of m)"
    have "q \<noteq> r" using wait_and_mark_apart [OF ok listed alike x y m(1)] w(2) m(3) by auto
    then show "row_id q \<in> row_id ` set rs"
      using row [OF m(2)] wakes_phaseD(2) [OF wakes_okD(2) [OF wakes y] m(1) _ m(3)] by blast
  qed
qed

lemma marks_commit:
  assumes ok: "inbox_ok cf s" and listed: "listed_ok cf s" and wakes: "wakes_ok s" and alike: "alike cf (set (iw_spelled (is_world s)))"
    and x: "is_txs s t = Some x" "tx_phase x = Ended (EMarks m ws rs)" and y: "is_txs s u = Some y"
    and rows: "rows = apply_rows rs (is_rows s)"
  shows "none_waits_for_processed rows" "wakes_phase rows (tx_phase y)"
proof -
  note world = inbox_okD(1) [OF ok]
  have mk: "marks_row (is_world s) x m ws rs" using inbox_okD(2) [OF ok x(1)] x(2) by (simp add: tx_ok_def)
  obtain r0 r1 us where set_rows: "set rows = insert r1 (woken_row ` set us \<union> {q \<in> set (is_rows s). q \<noteq> r0 \<and> q \<notin> set us})"
    and r: "r0 \<in> set (is_rows s)" "rs = r1 # map woken_row us" "\<forall>u\<in>set us. u \<in> set (is_rows s)"
      "row_id r0 = id_of m" "im_waiting_for (ir_message r0) = None" "row_id r1 = id_of m" "im_waiting_for (ir_message r1) = None"
    unfolding rows by (rule mark_rows [OF world mk]) blast
  note processed = mark_processed_rows(1) [OF world mk, folded rows]
  have waiting: "q \<in> set (is_rows s) \<and> i \<noteq> id_of m" if q: "q \<in> set rows" "waits_on q = Some i" for q i
  proof -
    have q': "q \<in> set (is_rows s)" "q \<notin> set us" using q r(7) set_rows by (auto simp: waits_on_def)
    have "i \<noteq> id_of m"
    proof
      assume "i = id_of m"
      then have "row_id q \<in> row_id ` set rs"
        using wakes_phaseD(2) [OF wakes_okD(2) [OF wakes x(1)] x(2) q'(1)] q(2) by simp
      then consider "row_id q = row_id r0" | v where "v \<in> set us" "row_id q = row_id v" using r(2,4,6) by auto
      then show False
      proof cases
        case 1
        then have "q = r0" by (rule same_row [OF inbox_world_okD(1) [OF world] q'(1) r(1)])
        then show False using q(2) r(5) by (simp add: waits_on_def)
      next
        case (2 v)
        then have "q = v" using same_row [OF inbox_world_okD(1) [OF world] q'(1)] r(3) by blast
        then show False using q'(2) 2(1) by simp
      qed
    qed
    with q'(1) show ?thesis by blast
  qed
  show "none_waits_for_processed rows"
    using waiting wakes_okD(1) [OF wakes] processed unfolding none_waits_for_processed_def by blast
  show "wakes_phase rows (tx_phase y)"
    unfolding wakes_phase_def
  proof (intro conjI allI impI ballI)
    show "\<not> is_processed rows (canon_id d)" if "tx_phase y = Ended (EWaits r' d)" for r' d
      using wakes_phaseD(1) [OF wakes_okD(2) [OF wakes y] that] wait_and_mark_apart [OF ok listed alike y that x] processed by simp
    show "row_id q \<in> row_id ` set rs'"
      if "tx_phase y = Ended (EMarks m' ws' rs')" "q \<in> set rows" "waits_on q = Some (id_of m')" for m' ws' rs' q
      using waiting [OF that(2,3)] wakes_phaseD(2) [OF wakes_okD(2) [OF wakes y] that(1) _ that(3)] by blast
  qed
qed

lemma commit_thins:
  assumes ok: "inbox_ok cf s" and x: "is_txs s t = Some x" "tx_phase x = Ended e"
    and e: "\<And>r d. e \<noteq> EWaits r d" "\<And>m ws rs. e \<noteq> EMarks m ws rs"
  shows "rows_thin (is_rows s) (iw_rows (commit_ending e (is_world s)))"
proof (cases e)
  case (EFails r)
  have w: "rewrites_head (is_world s) x r" "waits_on r = None"
    using inbox_okD(2) [OF ok x(1)] x(2) EFails by (auto simp: tx_ok_def)
  have "q = r \<or> q \<in> set (is_rows s)" if "q \<in> set (apply_rows [r] (is_rows s))" for q
    using apply_rows_elim [OF that] by simp
  then show ?thesis
    using w(2) rewritten_processed [OF inbox_okD(1) [OF ok] w(1)] EFails unfolding rows_thin_def by fastforce
next
  case (EInserts r)
  have "in_queue r" using inbox_okD(2) [OF ok x(1)] x(2) EInserts by (simp add: tx_ok_def)
  then show ?thesis using EInserts by (auto simp: rows_thin_def is_processed_iff in_queue_def waits_on_def)
qed (use e rows_thin_refl in auto)

lemma wakes_commit:
  assumes ok: "inbox_ok cf s" and listed: "listed_ok cf s" and wakes: "wakes_ok s" and alike: "alike cf (set (iw_spelled (is_world s)))"
    and x: "is_txs s t = Some x" "tx_phase x = Ended e"
  shows "wakes_ok \<lparr>is_world = serve_slot x (commit_ending e (is_world s)), is_txs = (is_txs s)(t := None)\<rparr>"
proof -
  let ?rows = "iw_rows (commit_ending e (is_world s))"
  have "none_waits_for_processed ?rows \<and> (\<forall>u y. is_txs s u = Some y \<longrightarrow> wakes_phase ?rows (tx_phase y))"
  proof (cases e)
    case (EWaits r d)
    have rows: "?rows = apply_rows [r] (is_rows s)" by (simp add: EWaits)
    show ?thesis using waits_commit [OF ok listed wakes alike x(1) x(2) [unfolded EWaits] _ rows] x(1) by blast
  next
    case (EMarks m ws rs)
    have rows: "?rows = apply_rows rs (is_rows s)" by (simp add: EMarks)
    show ?thesis using marks_commit [OF ok listed wakes alike x(1) x(2) [unfolded EMarks] _ rows] x(1) by blast
  qed (use rows_thin_phase [OF commit_thins [OF ok x]] rows_thin_none_waits [OF commit_thins [OF ok x]] wakes_okD [OF wakes] in auto)
  then show ?thesis by (simp add: wakes_ok_def)
qed

subsection \<open>Every step, every run\<close>

lemma woken_rows_cover: "q \<in> set rows \<Longrightarrow> waits_on q = Some i \<Longrightarrow> row_id q \<in> row_id ` set (woken_rows i rows)"
  by (auto simp: woken_rows_def image_image)

lemma processed_rows: "is_row_processed (with_message f r) = (im_processed_position (f (ir_message r)) \<noteq> None)"
  by (simp add: is_row_processed_def)

lemma wakes_step:
  assumes "inbox_step cf f s s'" "inbox_ok cf s" "listed_ok cf s" "wakes_ok s" "alike cf (set (iw_spelled (is_world s)))"
  shows "wakes_ok s'"
  using assms
proof (induction rule: inbox_step.induct)
  case (waits s t x m d r)
  have "\<not> is_processed (is_rows s) (canon_id d)"
    using waits(3) by (auto simp: set_waiting_unless_processed_def split: if_splits)
  then show ?case by (intro wakes_move [OF waits(6)]) (simp add: wakes_phase_def)
next
  case (marks s t x m writes written woken)
  have "row_id q \<in> row_id ` set written" if "q \<in> set (is_rows s)" "waits_on q = Some (id_of m)" for q
    using marks(3) woken_rows_cover [OF that] by (auto simp: mark_processed_def Let_def split: if_splits)
  then show ?case by (intro wakes_put [OF marks(6)]) (simp_all add: wakes_phase_def)
next
  case (resolves s t x m written woken)
  have "row_id q \<in> row_id ` set written" if "q \<in> set (is_rows s)" "waits_on q = Some (id_of m)" for q
    using resolves(4) woken_rows_cover [OF that] by (auto simp: resolve_row_def Let_def split: if_splits)
  then show ?case by (intro wakes_put [OF resolves(7)]) (simp_all add: wakes_phase_def)
next
  case (commits s t x e)
  then show ?case using wakes_commit by blast
next
  case (inserts s t m r)
  then show ?case by (intro wakes_put) (simp_all add: wakes_phase_def tx_begin_def)
next
  case (locks_resolve s t m)
  then show ?case by (intro wakes_put) (simp_all add: wakes_phase_def tx_begin_def)
next
  case (begins s t)
  then show ?case by (intro wakes_move) (simp_all add: wakes_phase_def tx_begin_def)
next
  case (aborts s t x)
  show ?case unfolding state_update by (rule wakes_shrink [OF aborts(4) rows_thin_refl]) (simp split: if_splits)
next
  case (clock s now)
  show ?case unfolding state_update by (rule wakes_shrink [OF clock(4)]) (simp_all add: rows_thin_refl)
next
  case (draws s)
  show ?case unfolding state_update by (rule wakes_shrink [OF draws(3)]) (simp_all add: rows_thin_refl)
next
  case (sweeps gone s)
  show ?case unfolding state_update by (rule wakes_shrink [OF sweeps(4)]) (simp_all add: rows_thin_filter)
next
  case (expires max_wait s locked)
  have "rows_thin (is_rows s) (iw_rows (expire cf locked (is_world s)))"
    unfolding expire_def expires(1) option.case expire_waiting_def Let_def fst_conv
    by (simp add: apply_mapped [OF inbox_world_okD(1) [OF inbox_okD(1) [OF expires(3)]]] row_id_def, rule rows_thin_mapped)
      (simp_all add: row_id_def processed_rows is_row_processed_def waits_on_def split: if_splits)
  then show ?case unfolding state_update by (rule wakes_shrink [OF expires(5)]) simp
next
  case (unparks s m)
  have "rows_thin (is_rows s) (iw_rows (snd (unpark m (is_world s))))"
    unfolding unpark_def unpark_row_def Let_def snd_conv
    by (simp add: apply_mapped [OF inbox_world_okD(1) [OF inbox_okD(1) [OF unparks(2)]]] row_id_def, rule rows_thin_mapped)
      (simp_all add: row_id_def processed_rows is_row_processed_def waits_on_def split: if_splits)
  then show ?case unfolding state_update by (rule wakes_shrink [OF unparks(4)]) simp
qed (auto intro!: wakes_move simp: wakes_phase_def)

theorem wakes_steps:
  assumes "inbox_steps cf f s s'" "0 < ic_slots cf" "inbox_ok cf s" "listed_ok cf s" "wakes_ok s"
    "alike cf (set (iw_spelled (is_world s')))"
  shows "wakes_ok s'"
  using assms
proof (induction rule: inbox_steps.induct)
  case (more s s' s'')
  have alike: "alike cf (set (iw_spelled (is_world s')))"
    by (rule alike_subset [OF more.prems(5) spelled_step [OF more.hyps(2)]])
  show ?case
    by (rule wakes_step [OF more.hyps(2) inbox_steps_ok [OF more.hyps(1) more.prems(1,2)] listed_steps [OF more.hyps(1) more.prems(3)]
          more.IH [OF more.prems(1-4) alike] alike])
qed simp

lemma wakes_reachable:
  assumes "0 < ic_slots cf" "inbox_steps cf f (inbox_start cf) s" "alike cf (set (iw_spelled (is_world s)))"
  shows "wakes_ok s"
  by (rule wakes_steps [OF assms(2,1) inbox_start_ok _ _ assms(3)])
    (simp_all add: listed_ok_def wakes_ok_def inbox_start_def inbox_world_new_def none_waits_for_processed_def)

end
