(* ===== verification/Inbox_Properties.thy ===== *)
theory Inbox_Properties
  imports Inbox_Liveness Inbox_Order Inbox_Sweep Inbox_Wake
begin

section \<open>What the inbox promises\<close>

text \<open>
  The properties of the inbox, each with a run where it applies: two messages are received, the first of which
  depends on the second; three dispatches set the first aside, process the second, which wakes the first,
  and process the first.
\<close>

subsection \<open>A run\<close>

lemma publish_run:
  assumes "inbox_publish cf m w = (res, w')"
  shows "inbox_steps cf f (alone w) (alone w')"
proof (cases "receive_row cf m (iw_seq w) (iw_rows w)")
  case (Inl e)
  then show ?thesis using assms by (simp add: inbox_publish_def inbox_steps.none)
next
  case (Inr v)
  show ?thesis
  proof (cases v)
    case (RHeld h)
    then have "w' = w\<lparr>iw_seq := iw_seq w + 1\<rparr>" using assms Inr by (simp add: inbox_publish_def)
    then show ?thesis using inbox_steps_one [OF inbox_step.draws [of cf f "alone w"]] by simp
  next
    case (RStored r)
    let ?x = "tx_begin (iw_clock w) (Ended (EInserts r))" and ?w = "w\<lparr>iw_seq := iw_seq w + 1, iw_spelled := iw_spelled w @ spelled_ids cf m\<rparr>"
    have w': "w' = ?w\<lparr>iw_rows := iw_rows w @ [r]\<rparr>" using assms Inr RStored by (cases w) (auto simp: inbox_publish_def)
    have s1: "inbox_step cf f (alone w) (put_tx 0 (tx_begin (iw_clock (is_world (alone w))) (Ended (EInserts r)))
        ((alone w)\<lparr>is_world := (is_world (alone w))\<lparr>iw_seq := iw_seq (is_world (alone w)) + 1,
          iw_spelled := iw_spelled (is_world (alone w)) @ spelled_ids cf m\<rparr>\<rparr>))"
      by (rule inbox_step.inserts [where m = m]) (use Inr RStored in \<open>simp_all add: insert_free_def\<close>)
    have "inbox_steps cf f (only_tx ?x ?w) (alone (serve_slot ?x (commit_ending (EInserts r) ?w)))"
      by (rule commit_run) (simp add: tx_begin_def)
    then have "inbox_steps cf f (only_tx ?x ?w) (alone w')" by (simp add: serve_slot_def tx_begin_def w')
    then show ?thesis using inbox_steps_first [OF s1] by simp
  qed
qed

definition sample_config :: inbox_config where
  "sample_config = \<lparr>ic_hash = (\<lambda>_. 0), ic_key = by_uri, ic_slots = 1, ic_max_attempts = 3, ic_backoff = (\<lambda>_. 5), ic_max_wait = None,
    ic_interval = (\<lambda>d. d), ic_parse = (\<lambda>_. None), ic_text = (\<lambda>_. []), ic_uuid = (\<lambda>_. None), ic_refuses = (\<lambda>_. None)\<rparr>"

definition sample_subscriber :: "int subscriber" where
  "sample_subscriber = (\<lambda>m seen. ([im_stream_position m], ASucceeded))"

definition sample_first :: inbox_message where
  "sample_first = inbox_message_new ''t'' ''s'' NullV 1 ''kafka://orders/k'' []"

definition sample_second :: inbox_message where
  "sample_second = depending_on [dependency_on sample_first] (inbox_message_new ''t'' ''s'' NullV 2 ''kafka://orders/k'' [])"

definition sample_received :: "int inbox_world" where
  "sample_received = snd (inbox_publish sample_config sample_first (snd (inbox_publish sample_config sample_second (inbox_world_new 1))))"

definition sample_next :: "int inbox_world \<Rightarrow> int inbox_world" where
  "sample_next w = snd (inbox_dispatch sample_config sample_subscriber [] w)"

lemma sample_slots [simp]: "ic_slots sample_config = 1" "ic_max_wait sample_config = None"
  by (simp_all add: sample_config_def)

lemma sample_received_reachable: "inbox_steps sample_config sample_subscriber (inbox_start sample_config) (alone sample_received)"
proof -
  have start: "inbox_start sample_config = alone (inbox_world_new 1)" by (simp add: inbox_start_def alone_def)
  show ?thesis
    unfolding start sample_received_def by (rule inbox_steps_trans; rule publish_run, rule prod.collapse [symmetric])
qed

lemma reachable_ok:
  assumes "inbox_steps cf f (inbox_start cf) s" "0 < ic_slots cf"
  shows "inbox_ok cf s"
  by (rule inbox_steps_ok [OF assms inbox_start_ok])

lemma sample_next_reachable:
  assumes "inbox_steps sample_config sample_subscriber (inbox_start sample_config) (alone w)"
  shows "inbox_steps sample_config sample_subscriber (inbox_start sample_config) (alone (sample_next w))"
proof -
  have "inbox_world_ok sample_config w" using inbox_okD(1) [OF reachable_ok [OF assms]] by simp
  then have "inbox_steps sample_config sample_subscriber (alone w) (alone (sample_next w))"
    unfolding sample_next_def by (intro dispatch_run [OF _ _ prod.collapse [symmetric]]) simp_all
  then show ?thesis using assms by (rule inbox_steps_trans)
qed

lemmas sample_run = sample_next_reachable [OF sample_received_reachable] sample_next_reachable [OF sample_next_reachable [OF sample_received_reachable]]
  sample_next_reachable [OF sample_next_reachable [OF sample_next_reachable [OF sample_received_reachable]]]

subsection \<open>The properties\<close>

text \<open>C33: whatever transactions interleave, an identity was marked processed as often as the sweep forgot it, and once more if its row is processed: between two sweeps of it, once.\<close>

theorem marked_once_between_sweeps:
  assumes "0 < ic_slots cf" "inbox_steps cf f (inbox_start cf) s"
  shows "count_list (done_ids (is_world s)) i
    = count_list (iw_forgotten (is_world s)) i + (if is_processed (is_rows s) i then 1 else 0)"
  by (rule inbox_world_okD(3) [OF inbox_okD(1) [OF reachable_ok [OF assms(2,1)]]])

theorem marked_once_between_sweeps_witness:
  "count_list (done_ids (sample_next (sample_next sample_received))) (id_of sample_first) = 1"
proof -
  have "is_processed (iw_rows (sample_next (sample_next sample_received))) (id_of sample_first)"
    "iw_forgotten (sample_next (sample_next sample_received)) = []"
    by code_simp+
  then show ?thesis using marked_once_between_sweeps [OF _ sample_run(2), of "id_of sample_first"] by simp
qed

text \<open>
  C34: no wake-up is lost: a row never waits for a message that is processed, however a wait and a mark race,
  where the identities that are one to the server have one lock (\<open>alike\<close>), over every identity as a message
  that was received or resolved spelled it. The lock is keyed by a hash of the text of the identity, and
  \<open>jsonb\<close> prints equal numbers differently: stream ids 1 and 1.0 are one identity and two locks. With those,
  a wake-up can be lost; the theory \<open>Inbox_Spelling\<close> has the run.
\<close>

theorem no_wake_up_is_lost:
  assumes "0 < ic_slots cf" "inbox_steps cf f (inbox_start cf) s" "alike cf (set (iw_spelled (is_world s)))"
    "r \<in> set (is_rows s)" "im_waiting_for (ir_message r) = Some d"
  shows "\<not> is_processed (is_rows s) (canon_id d)"
  using wakes_okD(1) [OF wakes_reachable [OF assms(1-3)]] assms(4) waits_on_Some [OF assms(5)]
  unfolding none_waits_for_processed_def by blast

theorem no_wake_up_is_lost_witness:
  "\<not> is_processed (iw_rows (sample_next sample_received)) (canon_id (dependency_on sample_first))"
proof -
  let ?w = "sample_next sample_received"
  have row: "im_waiting_for (ir_message (hd (iw_rows ?w))) = Some (dependency_on sample_first)" "iw_rows ?w \<noteq> []"
    by code_simp+
  have "alike sample_config (set (iw_spelled ?w))" by (simp add: alike_def lock_key_def sample_config_def)
  then show ?thesis
    using no_wake_up_is_lost [OF _ sample_run(1) _ _, of "hd (iw_rows ?w)" "dependency_on sample_first"] row by simp
qed

text \<open>C35: a subscriber's message is marked after every message it depends on.\<close>

theorem dependencies_are_marked_first:
  assumes "0 < ic_slots cf" "inbox_steps cf f (inbox_start cf) s" "iw_done (is_world s) = before @ (m, Some writes) # after"
    "d \<in> set (causal_dependencies (ic_parse cf) m)"
  shows "canon_id d \<in> (\<lambda>e. id_of (fst e)) ` set before"
  using inbox_world_okD(4) [OF inbox_okD(1) [OF reachable_ok [OF assms(2,1)]]] assms(3,4)
  unfolding done_in_order_def by blast

theorem dependencies_are_marked_first_witness:
  "id_of sample_first \<in> (\<lambda>e. id_of (fst e)) ` set (butlast (iw_done (sample_next (sample_next (sample_next sample_received)))))"
proof -
  let ?done = "iw_done (sample_next (sample_next (sample_next sample_received)))"
  have last: "?done \<noteq> []" "snd (last ?done) = Some [2]"
    "dependency_on sample_first \<in> set (causal_dependencies (ic_parse sample_config) (fst (last ?done)))"
    by code_simp+
  then have "?done = butlast ?done @ (fst (last ?done), Some [2]) # []"
    by (metis append_butlast_last_id prod.collapse)
  then show ?thesis using dependencies_are_marked_first [OF _ sample_run(3), of "butlast ?done" "fst (last ?done)" "[2]" "[]"] last(3)
    by (simp add: id_of_def)
qed

text \<open>C36: what the subscribers wrote is kept for the marked messages alone, once for each and in the order of their marks: a failed attempt leaves nothing.\<close>

theorem writes_are_of_the_marked:
  assumes "0 < ic_slots cf" "inbox_steps cf f (inbox_start cf) s"
  shows "iw_data (is_world s) = concat (map (\<lambda>e. case snd e of Some ws \<Rightarrow> ws | None \<Rightarrow> []) (iw_done (is_world s)))"
  using inbox_world_okD(5) [OF inbox_okD(1) [OF reachable_ok [OF assms(2,1)]]] by (simp add: written_data_def)

theorem writes_are_of_the_marked_witness:
  "iw_data (sample_next (sample_next (sample_next sample_received))) = [1, 2]"
proof -
  let ?done = "iw_done (sample_next (sample_next (sample_next sample_received)))"
  have "map (\<lambda>e. case snd e of Some ws \<Rightarrow> ws | None \<Rightarrow> []) ?done = map (\<lambda>v. case v of Some ws \<Rightarrow> ws | None \<Rightarrow> []) (map snd ?done)"
    by simp
  also have "map snd ?done = [Some [1], Some [2]]" by code_simp
  finally have "concat (map (\<lambda>e. case snd e of Some ws \<Rightarrow> ws | None \<Rightarrow> []) ?done) = [1, 2]" by simp
  then show ?thesis using writes_are_of_the_marked [OF _ sample_run(3)] by simp
qed

text \<open>
  C37: within a slot the order of arrival is kept: a row that is in the queue behind one that depends on
  nothing and has not failed, when no dispatcher is at work on it, is not processed before that one is
  processed, or has failed. Positions are drawn when a message is inserted and are seen when it commits: a
  row may be taken while an earlier position is not committed yet. That row is at work when the earlier one
  is first seen, and may be processed before it; it is not covered, and the order is that of commits there.
\<close>

theorem slot_keeps_arrival_order:
  assumes "0 < ic_slots cf" "inbox_steps cf f (inbox_start cf) s"
    and rows: "ahead cf i p slot (is_rows s)" "queued_behind j p slot (is_rows s)" "not_worked s j"
    and "inbox_steps cf f s s'" "is_processed (is_rows s') j"
  shows "\<not> ahead cf i p slot (is_rows s')"
proof
  assume a: "ahead cf i p slot (is_rows s')"
  have ok: "inbox_ok cf s" by (rule reachable_ok [OF assms(2,1)])
  have "ordered cf i j p slot s"
    by (rule ordered_start [OF ok listed_reachable [OF assms(2)] rows])
  then have o: "ordered cf i j p slot s'" using ordered_steps [OF assms(6) assms(1) ok] by blast
  have ok': "inbox_world_ok cf (is_world s')" by (rule inbox_okD(1) [OF inbox_steps_ok [OF assms(6,1) ok]])
  obtain r where "r \<in> set (is_rows s')" "row_id r = j" "in_queue r"
    using orderedD(3) [OF o a] unfolding queued_behind_def by blast
  then show False
    using assms(7) same_row [OF inbox_world_okD(1) [OF ok'], of r] unfolding is_processed_iff in_queue_def by metis
qed

definition sample_ordered :: "int inbox_world" where
  "sample_ordered = snd (inbox_publish sample_config sample_second (snd (inbox_publish sample_config sample_first (inbox_world_new 1))))"

lemma sample_ordered_reachable: "inbox_steps sample_config sample_subscriber (inbox_start sample_config) (alone sample_ordered)"
proof -
  have start: "inbox_start sample_config = alone (inbox_world_new 1)" by (simp add: inbox_start_def alone_def)
  show ?thesis
    unfolding start sample_ordered_def by (rule inbox_steps_trans; rule publish_run, rule prod.collapse [symmetric])
qed

lemma sample_next_steps:
  assumes "inbox_steps sample_config sample_subscriber (inbox_start sample_config) (alone w)"
  shows "inbox_steps sample_config sample_subscriber (alone w) (alone (sample_next w))"
proof -
  have "inbox_world_ok sample_config w" using inbox_okD(1) [OF reachable_ok [OF assms]] by simp
  then show ?thesis unfolding sample_next_def by (intro dispatch_run [OF _ _ prod.collapse [symmetric]]) simp_all
qed

theorem slot_keeps_arrival_order_witness:
  "\<not> ahead sample_config (id_of sample_first) 1 0 (iw_rows (sample_next (sample_next sample_ordered)))"
proof -
  have steps: "inbox_steps sample_config sample_subscriber (alone sample_ordered) (alone (sample_next (sample_next sample_ordered)))"
    by (rule inbox_steps_trans [OF sample_next_steps [OF sample_next_reachable [OF sample_ordered_reachable]]
          sample_next_steps [OF sample_ordered_reachable]])
  have "ahead sample_config (id_of sample_first) 1 0 (iw_rows sample_ordered)"
    "queued_behind (id_of sample_second) 1 0 (iw_rows sample_ordered)"
    "is_processed (iw_rows (sample_next (sample_next sample_ordered))) (id_of sample_second)"
    by code_simp+
  moreover have "not_worked (alone sample_ordered) (id_of sample_second)" by (simp add: not_worked_def)
  ultimately show ?thesis
    using slot_keeps_arrival_order [OF _ sample_ordered_reachable _ _ _ steps] by simp
qed

text \<open>C38: a dispatch that nobody disturbs, as the code writes it from beginning to end, is a run of the statements that the others interleave with.\<close>

theorem dispatch_is_a_run:
  assumes "inbox_world_ok cf w" "0 < ic_slots cf" "inbox_dispatch cf f held w = (res, w')"
  shows "inbox_steps cf f \<lparr>is_world = w, is_txs = (\<lambda>t. None)\<rparr> \<lparr>is_world = w', is_txs = (\<lambda>t. None)\<rparr>"
  using dispatch_run [OF assms] by (simp add: alone_def)

theorem dispatch_is_a_run_witness:
  "inbox_steps sample_config sample_subscriber \<lparr>is_world = sample_received, is_txs = (\<lambda>t. None)\<rparr>
    \<lparr>is_world = sample_next sample_received, is_txs = (\<lambda>t. None)\<rparr>"
proof -
  have "inbox_world_ok sample_config sample_received"
    using inbox_okD(1) [OF reachable_ok [OF sample_received_reachable]] by simp
  then show ?thesis
    unfolding sample_next_def by (intro dispatch_is_a_run [OF _ _ prod.collapse [symmetric]]) simp_all
qed

text \<open>
  C39: when dependencies are received, go round in no circle and no subscriber fails, finitely many dispatches
  process everything, where a wait may last as long as it takes (no \<open>max_wait\<close> is set: with one, a row whose
  dependency is only slow is parked by the next dispatch after it), no row has failed or is parked, and none
  waits for a processed one at the start.
\<close>

theorem everything_received_is_processed:
  fixes rank :: "dependency \<Rightarrow> nat"
  assumes ok: "inbox_world_ok cf w" "none_waits_for_processed (iw_rows w)"
    and cf: "0 < ic_slots cf" "ic_max_wait cf = None" and sub: "always_succeeds f"
    and slots: "{..<ic_slots cf} \<subseteq> fst ` set (iw_slots w)" and fresh: "never_failed (iw_rows w)"
    and rank: "\<And>r d. r \<in> set (iw_rows w) \<Longrightarrow> d \<in> set (causal_dependencies (ic_parse cf) (ir_message r)) \<Longrightarrow>
      canon_id d \<in> row_id ` set (iw_rows w) \<and> rank (canon_id d) < rank (row_id r)"
  shows "\<exists>n. list_all is_row_processed (iw_rows (dispatch_times n cf f w)) \<and> map row_id (iw_rows (dispatch_times n cf f w)) = map row_id (iw_rows w)"
proof -
  obtain n where n: "inbox_world_ok cf (dispatch_times n cf f w)" "none_waits_for_processed (iw_rows (dispatch_times n cf f w))"
    "same_rows cf (iw_rows w) (iw_rows (dispatch_times n cf f w))"
    "fst ` set (iw_slots w) \<subseteq> fst ` set (iw_slots (dispatch_times n cf f w))"
    "\<forall>s\<in>fst ` set (iw_slots (dispatch_times n cf f w)). \<not> head_due (iw_clock (dispatch_times n cf f w)) (iw_rows (dispatch_times n cf f w)) s"
    using dispatches_end [OF ok cf sub] by blast
  let ?w = "dispatch_times n cf f w"
  have fresh': "never_failed (iw_rows ?w)" by (rule same_rows_never_failed [OF n(3) fresh])
  have "is_row_processed r" if "r \<in> set (iw_rows ?w)" for r
  proof (rule ranked_all_processed [OF n(1,2) fresh' _ _ that])
    show "\<not> in_queue q" if "q \<in> set (iw_rows ?w)" for q
      using none_due_none_queued [OF n(1) _ n(5) fresh' that] slots n(4) by blast
    show "canon_id d \<in> row_id ` set (iw_rows ?w) \<and> rank (canon_id d) < rank (row_id q)"
      if "q \<in> set (iw_rows ?w)" "d \<in> set (causal_dependencies (ic_parse cf) (ir_message q))" for q d
      by (rule same_rows_rank [OF n(3) rank that])
  qed
  then show ?thesis using same_rows_ids [OF n(3)] by (intro exI [of _ n]) (simp add: list_all_iff)
qed

theorem everything_received_is_processed_witness:
  "\<exists>n. list_all is_row_processed (iw_rows (dispatch_times n sample_config sample_subscriber sample_received))"
proof -
  have ok: "inbox_world_ok sample_config sample_received"
    using inbox_okD(1) [OF reachable_ok [OF sample_received_reachable]] by simp
  have rows: "list_all (\<lambda>r. list_all (\<lambda>d. List.member (map row_id (iw_rows sample_received)) (canon_id d)
      \<and> nat (dp_stream_position (canon_id d)) < nat (dp_stream_position (row_id r)))
    (causal_dependencies (ic_parse sample_config) (ir_message r))) (iw_rows sample_received)"
    "list_all (\<lambda>r. ir_next_attempt_at r = None \<and> ir_parked_at r = None) (iw_rows sample_received)"
    "map fst (iw_slots sample_received) = [0]" "list_all (\<lambda>r. waits_on r = None) (iw_rows sample_received)"
    by code_simp+
  have slots: "fst ` set (iw_slots sample_received) = {0}" using rows(3) by (metis list.simps(15) set_empty set_map list.set(1))
  have none: "none_waits_for_processed (iw_rows sample_received)"
    using rows(4) by (simp add: none_waits_for_processed_def list_all_iff waits_on_def)
  show ?thesis
    using everything_received_is_processed [OF ok none, of sample_subscriber "\<lambda>d. nat (dp_stream_position d)"] rows(1,2) slots
    by (auto simp: always_succeeds_def sample_subscriber_def never_failed_def list_all_iff)
qed

text \<open>C40: a pass of the sweep deletes only rows that are processed, in a channel with a window, older than it, and that no row waits for; and it keeps the invariant.\<close>

theorem sweep_deletes_the_outlived:
  assumes "inbox_world_ok cf w" "0 < ic_slots cf" "inbox_sweep cf rt locked turns (w, swept_to) = (res, w', swept_to')"
    and "r \<in> set (iw_rows w)" "r \<notin> set (iw_rows w')"
  shows "is_row_processed r \<and> list_all (\<lambda>q. waits_on q \<noteq> Some (row_id r)) (iw_rows w)
    \<and> (\<exists>window t. (inbox_channel_of (im_uri (ir_message r)), window) \<in> set (rt_windows rt)
         \<and> ir_processed_at r = Some t \<and> t + ic_interval cf window < iw_clock w)
    \<and> inbox_world_ok cf w'"
proof -
  have go: "sweeps_to cf (rt_windows rt) w w'"
    using windows_sweep [of "rt_windows rt" "rt_windows rt" cf "(w, swept_to)" rt locked turns] assms(1-3) by (simp add: inbox_sweep_def)
  have "outlived cf (rt_windows rt) (iw_clock w) (iw_rows w) r" using sweeps_toD(3) [OF go] assms(4,5) by blast
  then show ?thesis using sweeps_to_ok [OF assms(1,2) go] by (simp add: outlived_def forgettable_def)
qed

definition sample_old :: "int inbox_world" where
  "sample_old = (sample_next (sample_next (sample_next sample_received)))\<lparr>iw_clock := 100\<rparr>"

definition sample_retention :: retention where
  "sample_retention = \<lparr>rt_windows = [(''kafka://orders'', 10)], rt_interval = 1, rt_batch = 5, rt_grace = 1, rt_lock_timeout = 1\<rparr>"

theorem sweep_deletes_the_outlived_witness:
  "is_row_processed (hd (iw_rows sample_old)) \<and> iw_rows (fst (snd (inbox_sweep sample_config sample_retention [] (\<lambda>_ _. TFree) (sample_old, [])))) = []"
proof -
  let ?w = "sample_next (sample_next (sample_next sample_received))"
  have "inbox_world_ok sample_config ?w" using inbox_okD(1) [OF reachable_ok [OF sample_run(3)]] by simp
  then have ok: "inbox_world_ok sample_config sample_old"
    unfolding sample_old_def by (rule world_ok_world [rotated -1]) simp_all
  have rows: "iw_rows sample_old \<noteq> []" by code_simp
  let ?batch = "forget_batch sample_config sample_retention [] TFree ''kafka://orders'' 10 (sample_old, [])"
  have batch: "fst ?batch = Inr (2, False)" "iw_rows (fst (snd ?batch)) = []" by code_simp+
  have windows: "rt_windows sample_retention = [(''kafka://orders'', 10)]" by (simp add: sample_retention_def)
  obtain wb swb where b: "?batch = (Inr (2, False), wb, swb)" using batch(1) by (metis prod.collapse)
  have hundred: "BATCHES_PER_PASS = Suc 99" by (simp add: BATCHES_PER_PASS_def)
  have "sweep_channel sample_config sample_retention [] (\<lambda>_. TFree) ''kafka://orders'' 10 BATCHES_PER_PASS (sample_old, [])
      = (Inr 2, wb, swb)"
    unfolding hundred sweep_channel.simps b by simp
  moreover have "iw_rows wb = []" using batch(2) b by simp
  ultimately have gone: "iw_rows (fst (snd (inbox_sweep sample_config sample_retention [] (\<lambda>_ _. TFree) (sample_old, [])))) = []"
    by (simp add: inbox_sweep_def windows)
  obtain res w' sw where run: "inbox_sweep sample_config sample_retention [] (\<lambda>_ _. TFree) (sample_old, []) = (res, w', sw)"
    by (metis prod.exhaust)
  have "iw_rows w' = []" using gone unfolding run by simp
  moreover have "hd (iw_rows sample_old) \<in> set (iw_rows sample_old)" using rows by simp
  moreover have "0 < ic_slots sample_config" by simp
  ultimately have "is_row_processed (hd (iw_rows sample_old))"
    using sweep_deletes_the_outlived [OF ok _ run, of "hd (iw_rows sample_old)"] by (metis list.set(1) empty_iff)
  then show ?thesis using gone by (rule conjI)
qed

end
