(* ===== verification/Inbox_Spelling.thy ===== *)
theory Inbox_Spelling
  imports Inbox_Properties
begin

section \<open>A wake-up that is lost\<close>

text \<open>
  Two messages of a table with two slots: the first has the stream id 1, the second depends on it and spells
  the stream id 1.0. To \<open>jsonb\<close> they are one identity; the locks of the wait and of the mark are two, as
  their texts are. The wait is written while the mark is open, and committed after it: the second message
  waits for one that is processed, and nothing will wake it.
\<close>

definition spelling_config :: inbox_config where
  "spelling_config = \<lparr>ic_hash = (\<lambda>s. of_nat (length s)), ic_key = by_uri, ic_slots = 2, ic_max_attempts = 3,
    ic_backoff = (\<lambda>_. 5), ic_max_wait = None, ic_interval = (\<lambda>d. d), ic_parse = (\<lambda>_. None),
    ic_text = (\<lambda>v. case json_get ''stream_id'' v of Some (NumberV (Decimal c s)) \<Rightarrow> replicate s CHR ''0'' | _ \<Rightarrow> []),
    ic_uuid = (\<lambda>_. None), ic_refuses = (\<lambda>_. None)\<rparr>"

definition spelled_one :: inbox_message where
  "spelled_one = inbox_message_new ''t'' ''s'' (NumberV (Decimal 1 0)) 1 ''k://a'' []"

definition spelled_one_point_zero :: dependency where
  "spelled_one_point_zero = (dependency_on spelled_one)\<lparr>dp_stream_id := NumberV (Decimal 10 1)\<rparr>"

definition spelled_two :: inbox_message where
  "spelled_two = depending_on [spelled_one_point_zero]
    (inbox_message_new ''t'' ''s'' (NumberV (Decimal 2 0)) 1 ''k://ab'' [])"

definition both_received :: "int inbox_world" where
  "both_received = snd (inbox_publish spelling_config spelled_two (snd (inbox_publish spelling_config spelled_one (inbox_world_new 2))))"

lemma spelled_in_two_ways:
  "canon_id spelled_one_point_zero = id_of spelled_one"
  "lock_key spelling_config spelled_one_point_zero \<noteq> lock_key spelling_config (dependency_on spelled_one)"
  by code_simp+

subsection \<open>Two transactions at once\<close>

definition two_txs :: "'w inbox_tx \<Rightarrow> 'w inbox_tx \<Rightarrow> 'w inbox_world \<Rightarrow> 'w inbox_state" where
  "two_txs x y w = \<lparr>is_world = w, is_txs = [0 \<mapsto> x, 1 \<mapsto> y]\<rparr>"

lemma two_txs_simps [simp]:
  "is_world (two_txs x y w) = w" "is_txs (two_txs x y w) 1 = Some y" "is_txs (two_txs x y w) (Suc 0) = Some y"
  "put_tx 1 y' (two_txs x y w) = two_txs x y' w" "put_tx (Suc 0) y' (two_txs x y w) = two_txs x y' w"
  "put_tx 1 y (only_tx x w) = two_txs x y w" "put_tx (Suc 0) y (only_tx x w) = two_txs x y w"
  "is_txs (only_tx x w) 1 = None" "is_txs (only_tx x w) (Suc 0) = None"
  "(two_txs x y w)\<lparr>is_world := w'\<rparr> = two_txs x y w'"
  "\<lparr>is_world = w', is_txs = (is_txs (two_txs x y w))(1 := None)\<rparr> = only_tx x w'"
  "\<lparr>is_world = w', is_txs = (is_txs (two_txs x y w))(Suc 0 := None)\<rparr> = only_tx x w'"
  by (auto simp: two_txs_def only_tx_def put_tx_def)

lemma lock_free_two: "tx_lock x \<noteq> Some k \<Longrightarrow> tx_lock y \<noteq> Some k \<Longrightarrow> lock_free (two_txs x y w) k"
  by (auto simp: lock_free_def two_txs_def split: if_splits)

lemma slot_free_two: "\<not> slot_free (two_txs x y w) slot \<Longrightarrow> tx_slot x = Some slot \<or> tx_slot y = Some slot"
  by (auto simp: slot_free_def two_txs_def split: if_splits)

text \<open>The wait, up to its commit.\<close>

lemma wait_written:
  assumes "inbox_take 0 [] (iw_rows w) (iw_slots w) = (Some slot, slots)" "iw_clock w = 0"
    and "head_of 0 (iw_rows w) slot = Some (m, False)" "causal_dependencies (ic_parse cf) m = d # ds"
    and "\<not> is_processed (iw_rows w) (canon_id d)" "set_waiting_unless_processed 0 m d (iw_rows w) = [r]"
  shows "inbox_steps cf f (alone w)
    (only_tx \<lparr>tx_now = 0, tx_slot = Some slot, tx_lock = Some (lock_key cf d), tx_phase = Ended (EWaits r d)\<rparr> w)"
proof -
  let ?tx = "\<lambda>l p. \<lparr>tx_now = 0, tx_slot = Some slot, tx_lock = l, tx_phase = p\<rparr>" and ?k = "Some (lock_key cf d)"
  have "inbox_step cf f (alone w) (put_tx 0 (tx_begin (iw_clock (is_world (alone w))) Begun) (alone w))"
    by (rule inbox_step.begins) simp
  then have s1: "inbox_step cf f (alone w) (only_tx (tx_begin 0 Begun) w)" by (simp add: assms(2))
  have s2: "inbox_step cf f (only_tx (tx_begin 0 Begun) w) (put_tx 0 ((tx_begin 0 Begun)\<lparr>tx_slot := Some slot, tx_phase := Took\<rparr>) (only_tx (tx_begin 0 Begun) w))"
    by (rule inbox_step.takes [where held = "[]" and rows = "iw_rows w" and slots = slots])
      (use assms(1) in \<open>auto simp: tx_begin_def slot_free_def only_tx_def\<close>)
  have s3: "inbox_step cf f (only_tx (?tx None Took) w) (put_tx 0 ((?tx None Took)\<lparr>tx_phase := Checking m (causal_dependencies (ic_parse cf) m)\<rparr>) (only_tx (?tx None Took) w))"
    by (rule inbox_step.reads [where slot = slot]) (use assms(3) in simp_all)
  have s4: "inbox_step cf f (only_tx (?tx None (Checking m (d # ds))) w) (put_tx 0 ((?tx None (Checking m (d # ds)))\<lparr>tx_phase := Lacking m d\<rparr>) (only_tx (?tx None (Checking m (d # ds))) w))"
    by (rule inbox_step.lacks) (use assms(5) in simp_all)
  have s5: "inbox_step cf f (only_tx (?tx None (Lacking m d)) w) (put_tx 0 ((?tx None (Lacking m d))\<lparr>tx_lock := ?k, tx_phase := Waiting m d\<rparr>) (only_tx (?tx None (Lacking m d)) w))"
    by (rule inbox_step.locks_wait) (simp_all add: lock_free_only)
  have s6: "inbox_step cf f (only_tx (?tx ?k (Waiting m d)) w) (put_tx 0 ((?tx ?k (Waiting m d))\<lparr>tx_phase := Ended (EWaits r d)\<rparr>) (only_tx (?tx ?k (Waiting m d)) w))"
    by (rule inbox_step.waits [where m = m]) (use assms(6) in simp_all)
  have "inbox_steps cf f (only_tx (?tx ?k (Waiting m d)) w) (only_tx (?tx ?k (Ended (EWaits r d))) w)"
    using inbox_steps_one [OF s6] by simp
  then have "inbox_steps cf f (only_tx (?tx None (Lacking m d)) w) (only_tx (?tx ?k (Ended (EWaits r d))) w)"
    using inbox_steps_first [OF s5] by simp
  then have "inbox_steps cf f (only_tx (?tx None (Checking m (d # ds))) w) (only_tx (?tx ?k (Ended (EWaits r d))) w)"
    using inbox_steps_first [OF s4] by simp
  then have "inbox_steps cf f (only_tx (?tx None Took) w) (only_tx (?tx ?k (Ended (EWaits r d))) w)"
    using inbox_steps_first [OF s3] assms(4) by simp
  then have "inbox_steps cf f (only_tx (tx_begin 0 Begun) w) (only_tx (?tx ?k (Ended (EWaits r d))) w)"
    using inbox_steps_first [OF s2] by (simp add: tx_begin_def)
  then show ?thesis by (rule inbox_steps_first [OF s1])
qed

text \<open>A message that depends on nothing is worked and marked beside it, and committed.\<close>

lemma mark_beside:
  assumes x: "tx_slot x = Some other" "tx_lock x = Some k"
    and "inbox_take 0 [other] (iw_rows w) (iw_slots w) = (Some slot, slots)" "iw_clock w = 0"
    and "head_of 0 (iw_rows w) slot = Some (m, False)" "causal_dependencies (ic_parse cf) m = []"
    and "f m [] = (ws, ASucceeded)" "1 < ic_slots cf" "k \<noteq> lock_key cf (dependency_on m)"
    and mk: "mark_processed m (iw_seq w) 0 (iw_rows w) = Inr (written, woken)"
  shows "\<exists>w'. inbox_steps cf f (only_tx x w) (only_tx x w') \<and> iw_rows w' = apply_rows written (iw_rows w)"
proof -
  let ?tx = "\<lambda>l p. \<lparr>tx_now = 0, tx_slot = Some slot, tx_lock = l, tx_phase = p\<rparr>"
    and ?k = "Some (lock_key cf (dependency_on m))" and ?b = "tx_begin 0 Begun"
  let ?s = "\<lambda>l p. two_txs x (?tx l p) w" and ?w = "w\<lparr>iw_seq := iw_seq w + 1\<rparr>" and ?e = "EMarks m (Some ws) written"
  have "inbox_step cf f (only_tx x w) (put_tx 1 (tx_begin (iw_clock (is_world (only_tx x w))) Begun) (only_tx x w))"
    by (rule inbox_step.begins) simp
  then have s1: "inbox_step cf f (only_tx x w) (two_txs x ?b w)" by (simp add: assms(4))
  have s2: "inbox_step cf f (two_txs x ?b w) (put_tx 1 (?b\<lparr>tx_slot := Some slot, tx_phase := Took\<rparr>) (two_txs x ?b w))"
    by (rule inbox_step.takes [where held = "[other]" and rows = "iw_rows w" and slots = slots])
      (use assms(3) x(1) slot_free_two [of x ?b w] in \<open>auto simp: tx_begin_def\<close>)
  have s3: "inbox_step cf f (?s None Took) (put_tx 1 ((?tx None Took)\<lparr>tx_phase := Checking m (causal_dependencies (ic_parse cf) m)\<rparr>) (?s None Took))"
    by (rule inbox_step.reads [where slot = slot]) (use assms(5) in simp_all)
  have s4: "inbox_step cf f (?s None (Checking m [])) (put_tx 1 ((?tx None (Checking m []))\<lparr>tx_phase := Cleared m\<rparr>) (?s None (Checking m [])))"
    by (rule inbox_step.clears) simp_all
  have s5: "inbox_step cf f (?s None (Cleared m)) (put_tx 1 ((?tx None (Cleared m))\<lparr>tx_phase := Handled m ws\<rparr>) (?s None (Cleared m)))"
    by (rule inbox_step.handles [where seen = "[]"]) (use assms(7) in simp_all)
  have s6: "inbox_step cf f (?s None (Handled m ws)) (put_tx 1 ((?tx None (Handled m ws))\<lparr>tx_lock := ?k, tx_phase := Marking m ws\<rparr>) (?s None (Handled m ws)))"
    by (rule inbox_step.locks_mark) (use assms(8,9) x(2) in \<open>auto intro!: lock_free_two\<close>)
  have s7: "inbox_step cf f (?s ?k (Marking m ws)) (put_tx 1 ((?tx ?k (Marking m ws))\<lparr>tx_phase := Ended ?e\<rparr>)
      ((?s ?k (Marking m ws))\<lparr>is_world := (is_world (?s ?k (Marking m ws)))\<lparr>iw_seq := iw_seq (is_world (?s ?k (Marking m ws))) + 1\<rparr>\<rparr>))"
    by (rule inbox_step.marks [where woken = woken]) (use mk assms(4) in simp_all)
  let ?w' = "serve_slot (?tx ?k (Ended ?e)) (commit_ending ?e ?w)"
  have "inbox_step cf f (two_txs x (?tx ?k (Ended ?e)) ?w) \<lparr>is_world = serve_slot (?tx ?k (Ended ?e))
      (commit_ending ?e (is_world (two_txs x (?tx ?k (Ended ?e)) ?w))), is_txs = (is_txs (two_txs x (?tx ?k (Ended ?e)) ?w))(1 := None)\<rparr>"
    by (rule inbox_step.commits) simp_all
  then have "inbox_steps cf f (two_txs x (?tx ?k (Ended ?e)) ?w) (only_tx x ?w')"
    unfolding two_txs_simps by (rule inbox_steps_one)
  then have "inbox_steps cf f (?s ?k (Marking m ws)) (only_tx x ?w')" using inbox_steps_first [OF s7] by simp
  then have "inbox_steps cf f (?s None (Handled m ws)) (only_tx x ?w')" using inbox_steps_first [OF s6] by simp
  then have "inbox_steps cf f (?s None (Cleared m)) (only_tx x ?w')" using inbox_steps_first [OF s5] by simp
  then have "inbox_steps cf f (?s None (Checking m [])) (only_tx x ?w')" using inbox_steps_first [OF s4] by simp
  then have "inbox_steps cf f (?s None Took) (only_tx x ?w')" using inbox_steps_first [OF s3] assms(6) by simp
  then have "inbox_steps cf f (two_txs x ?b w) (only_tx x ?w')" using inbox_steps_first [OF s2] by (simp add: tx_begin_def)
  then have "inbox_steps cf f (only_tx x w) (only_tx x ?w')" by (rule inbox_steps_first [OF s1])
  then show ?thesis by (intro exI [of _ ?w']) simp
qed

subsection \<open>The run\<close>

lemma lost_wake_up:
  "\<exists>w' d. inbox_steps spelling_config sample_subscriber (inbox_start spelling_config) (alone w')
    \<and> im_waiting_for (ir_message (iw_rows w' ! 1)) = Some d \<and> is_processed (iw_rows w') (canon_id d)"
proof -
  let ?w = both_received and ?d = spelled_one_point_zero
  let ?m1 = "ir_message (iw_rows ?w ! 0)" and ?m2 = "ir_message (iw_rows ?w ! 1)"
  let ?waits = "set_waiting_unless_processed 0 ?m2 ?d (iw_rows ?w)"
  let ?mark = "mark_processed ?m1 (iw_seq ?w) 0 (iw_rows ?w)"
  have start: "inbox_start spelling_config = alone (inbox_world_new 2)"
    by (simp add: inbox_start_def alone_def spelling_config_def)
  have received: "inbox_steps spelling_config sample_subscriber (inbox_start spelling_config) (alone ?w)"
    unfolding start both_received_def by (rule inbox_steps_trans; rule publish_run, rule prod.collapse [symmetric])
  have now: "iw_clock ?w = 0" "length ?waits = 1" "\<not> is_processed (iw_rows ?w) (canon_id ?d)"
    "causal_dependencies (ic_parse spelling_config) ?m2 = [?d]" "causal_dependencies (ic_parse spelling_config) ?m1 = []"
    "dependency_on ?m1 = dependency_on spelled_one"
    by code_simp+
  have take: "fst (inbox_take 0 [] (iw_rows ?w) (iw_slots ?w)) = Some 0" "fst (inbox_take 0 [0] (iw_rows ?w) (iw_slots ?w)) = Some 1"
    "head_of 0 (iw_rows ?w) 0 = Some (?m2, False)" "head_of 0 (iw_rows ?w) 1 = Some (?m1, False)"
    by code_simp+
  obtain r where r: "?waits = [r]" using now(2) by (auto simp: length_Suc_conv)
  obtain slots slots' where slots: "inbox_take 0 [] (iw_rows ?w) (iw_slots ?w) = (Some 0, slots)"
    "inbox_take 0 [0] (iw_rows ?w) (iw_slots ?w) = (Some 1, slots')" using take(1,2) by (metis prod.collapse)
  have marked: "case ?mark of Inl e \<Rightarrow> False | Inr (written, woken) \<Rightarrow>
      is_processed (apply_rows ?waits (apply_rows written (iw_rows ?w))) (canon_id ?d)
      \<and> im_waiting_for (ir_message (apply_rows ?waits (apply_rows written (iw_rows ?w)) ! 1)) = Some ?d"
    by code_simp
  obtain written woken where mk: "?mark = Inr (written, woken)" using marked by (auto split: sum.splits)
  let ?x = "\<lparr>tx_now = 0, tx_slot = Some 0, tx_lock = Some (lock_key spelling_config ?d), tx_phase = Ended (EWaits r ?d)\<rparr>"
  have "inbox_steps spelling_config sample_subscriber (alone ?w) (only_tx ?x ?w)"
    by (rule wait_written [OF slots(1) now(1) take(3) now(4,3) r])
  moreover have "lock_key spelling_config ?d \<noteq> lock_key spelling_config (dependency_on ?m1)"
    using spelled_in_two_ways(2) now(6) by simp
  then obtain w' where w': "inbox_steps spelling_config sample_subscriber (only_tx ?x ?w) (only_tx ?x w')"
    "iw_rows w' = apply_rows written (iw_rows ?w)"
    using mark_beside [OF _ _ slots(2) now(1) take(4) now(5) _ _ _ mk, of ?x "lock_key spelling_config ?d" sample_subscriber]
    by (auto simp: sample_subscriber_def spelling_config_def)
  moreover have "inbox_steps spelling_config sample_subscriber (only_tx ?x w') (alone (serve_slot ?x (commit_ending (EWaits r ?d) w')))"
    by (rule commit_run) simp
  ultimately have "inbox_steps spelling_config sample_subscriber (inbox_start spelling_config)
      (alone (serve_slot ?x (commit_ending (EWaits r ?d) w')))"
    using received by (blast intro: inbox_steps_trans)
  moreover have "iw_rows (serve_slot ?x (commit_ending (EWaits r ?d) w')) = apply_rows ?waits (apply_rows written (iw_rows ?w))"
    using w'(2) r by simp
  ultimately show ?thesis
    using marked mk by (intro exI [of _ "serve_slot ?x (commit_ending (EWaits r ?d) w')"] exI [of _ ?d]) simp
qed

end
