(* ===== verification/Spec2Isabelle.thy ===== *)
theory Spec2Isabelle
  imports Mapping_Laws Pg_Properties Jsonpath_Properties Saga_Properties Session_Properties Scope_Properties Kms_Custody_Properties Outbox_Properties Outbox_Options Inbox_Properties Inbox_Spelling
begin

text \<open>
  A model of the core logic of \<open>ascetic-ddd-rust\<close>, a workspace of crates for domain-driven design,
  with the theorems that make it correct. Strings of Rust are lists of code points or of ASCII
  characters as the code needs them, machine integers are bounded where the code may leave their
  range, an error is the left side of a sum, and a call that may never return is an option, or a
  relation. What is outside the repository (the calendar, ciphers, hashes, the SQL server's conversions,
  clocks, what a callback does) is an argument of the definitions that use it.

  \<^bold>\<open>Shared.\<close> \<open>Prelude\<close>: results, the strings of the standard library, orderings. \<open>Unicode_Text\<close>:
  characters and the numbers a text spells.

  \<^bold>\<open>The specification crate\<close> (\<open>crates/specification\<close>). A specification is one tree, \<open>Expr\<close>, with two
  readings: it is evaluated on a candidate in memory, and it is compiled to the condition of a
  query. Between the two a mapping rewrites it from the members of the domain to those of the storage.

  \<^item> \<open>Operators\<close>, \<open>Ast\<close>: \<open>domain/operator.rs\<close>, \<open>operand.rs\<close>, \<open>ast.rs\<close>.
  \<^item> \<open>Evaluate\<close>, \<open>Evaluate_Laws\<close>: \<open>domain/evaluate.rs\<close>, \<open>record.rs\<close>, \<open>null_test.rs\<close>. The traits \<open>Operand\<close> and
    \<open>Context\<close> are records of their methods; the locale \<open>operand_laws\<close> is what the evaluator relies on,
    and \<open>value_ops\<close> its interpretation.
  \<^item> \<open>Float64\<close>, \<open>Reading\<close>, \<open>Values\<close>, \<open>Value_Laws\<close>: \<open>domain/value.rs\<close> and \<open>reading.rs\<close>, with binary64
    written out and \<open>chrono\<close> and \<open>uuid\<close> as a record of parameters.
  \<^item> \<open>Typing\<close>, \<open>Evaluator_Properties\<close>: type soundness and the laws of the evaluator.
  \<^item> \<open>Mapping_Transform\<close>, \<open>Mapping_Laws\<close>: \<open>infrastructure/mapping.rs\<close>.
  \<^item> \<open>Pg_Containment\<close>, \<open>Pg_Compile\<close>: \<open>infrastructure/pg\<close>, the schema and the compiler. \<open>Pg_Text\<close>,
    \<open>Pg_Laws\<close>, \<open>Pg_Constants\<close>, \<open>Pg_Blind\<close>, \<open>Pg_Grouping\<close>, \<open>Pg_Index\<close>, \<open>Pg_Properties\<close>: what the
    compiled text is made of, what its parameters are, how it is grouped, and that what an index is
    asked for follows from the condition.
  \<^item> \<open>Jsonpath_Lexer\<close>, \<open>Jsonpath_Strings\<close>, \<open>Jsonpath_Grammar\<close>, \<open>Jsonpath_Parser\<close>,
    \<open>Jsonpath_Parser_Laws\<close>, \<open>Jsonpath_Complete\<close>, \<open>Jsonpath_Properties\<close>: \<open>infrastructure/jsonpath\<close>, from
    a text to a bound template. The rules of the parser that call one another in a circle take fuel,
    eight for each token and ten more, which is shown to be enough; trees are bounded by the source's
    \<open>MAX_HEIGHT\<close>, 128, and \<open>MAX_NESTING\<close>, 32.

  \<^bold>\<open>Sagas\<close> (\<open>crates/saga\<close>). \<open>Saga\<close>, \<open>Saga_Run\<close>: routing slips, logs, hosts, the serializable form, and
  the fallback and parallel activities. An activity is the record of its methods, over a state of its
  own; a method that never returns is \<open>None\<close>. A slip that several own is in a store, and a locked one is
  not there; \<open>join_all\<close> runs its branches one after another, no branch waiting in the middle of its work.
  \<open>Saga_Examples\<close>: the travel booking of the examples. \<open>Saga_Properties\<close>: a slip runs to its end or is
  undone in reverse, hosts come to the same end as the loop over the slip, the form on the wire, parallel
  branches are all done or all undone. The first two and the last are for activities that return and whose
  compensation succeeds (the locale \<open>reliable_activities\<close>); a compensation that reports \<open>false\<close> makes the
  hosts go forward again (\<open>host_resumes_forward\<close>), and one that fails stops the undoing of its branch.

  \<^bold>\<open>Sessions\<close> (\<open>crates/session\<close>).

  \<^item> \<open>Session_Window\<close>, \<open>Session_Window_Laws\<close>, \<open>Identity_Map\<close>, \<open>Identity_Map_Laws\<close>,
    \<open>Session_Properties\<close>: the identity map. Who holds an entity outside the map is an argument; the clock
    of 64 bits is not exhausted; the locale of a window has both policies as interpretations.
  \<^item> \<open>Pg_Session\<close>, \<open>Pg_Session_Laws\<close>, \<open>Scope_Properties\<close>: nested scopes, transactions and savepoints of
    the sessions (PostgreSQL, REST, memory, composites). The server is a parameter that answers each
    statement; a future may be dropped before its end.

  \<^bold>\<open>Key management\<close> (\<open>crates/kms\<close>). \<open>Kms_Keys\<close>: ciphers, keys wrapped by keys, signatures, MACs; the
  primitives and the randomness are a record of parameters. \<open>Kms_Custody\<close>: what the ports promise, as an
  abstract keyring. \<open>Kms_Kek_Keeper\<close>, \<open>Kms_Ring_Keeper\<close>, \<open>Kms_Keepers\<close>: the keys in memory and in tables
  keep it. \<open>Kms_Pg\<close>: the service over PostgreSQL, whose tables are lists of rows and whose server refuses
  a second row of a primary key. \<open>Kms_Cache\<close>: the cache, with its clock. \<open>Kms_Properties\<close>,
  \<open>Kms_Custody_Properties\<close>: round trips, binding to tenant and context, memory answers as PostgreSQL.
  Versions are counted up to the largest \<open>u32\<close> in memory and the largest \<open>integer\<close> in the tables.

  \<^bold>\<open>The outbox\<close> (\<open>crates/outbox\<close>). Producers insert messages in their own transactions; dispatchers hand them
  on by group, in the order of commits, and a ring of generations is emptied behind them.

  \<^item> \<open>Outbox_Snapshot\<close>, \<open>Outbox_Options\<close>: \<open>message.rs\<close>, \<open>pg/ring.rs\<close>, \<open>pg/mod.rs\<close>, \<open>error.rs\<close>, the checks
    of \<open>pg/store.rs\<close> at its start.
  \<^item> \<open>Outbox_Server\<close>, \<open>Outbox_Dispatch\<close>, \<open>Outbox_System\<close>: the table and its transactions, the
    statements of \<open>pg/store.rs\<close>, \<open>pg/dispatch.rs\<close> and \<open>pg/reclaim.rs\<close>. What producers do between the
    statements of a dispatch, and the slots others hold, are arguments; dispatches otherwise come one
    after another, and the dispatcher's own transaction id is left out. The values of the metadata are
    texts, and the hash of a URI is a parameter. \<open>pr_skipped\<close>, \<open>ow_handed\<close> and \<open>ow_gone\<close> are history, read
    by no operation.
  \<^item> \<open>Outbox_History\<close>, \<open>Outbox_Batch\<close>, \<open>Outbox_Relay\<close>, \<open>Outbox_Properties\<close>: a committed message is kept
    until every group was handed it, the order of commits, one message per identity and transaction,
    emptying loses nothing and a rebase keeps what is owed. The locale
    \<open>bystanders\<close> is what a dispatch relies on of the producers beside it.

  \<^bold>\<open>The inbox\<close> (\<open>crates/inbox\<close>). Received messages are stored once per identity, cut into slots, and worked
  slot by slot, each after the messages it depends on.

  \<^item> \<open>Inbox_Message\<close>: \<open>message.rs\<close>, \<open>snapshot.rs\<close>, \<open>partition.rs\<close>, \<open>error.rs\<close>; JSON is what a \<open>jsonb\<close>
    column keeps of it, the digits of a number's fraction too; \<open>canon\<close> is what \<open>jsonb\<close> compares, and an
    identity is a dependency whose stream id is brought to that form (\<open>canon_id\<close>, \<open>id_of\<close>).
  \<^item> \<open>Inbox_Dispatch\<close>: the statements of \<open>pg/store.rs\<close>, each as the rows it writes, and \<open>pg/dispatch.rs\<close>
    from beginning to end. The hash, the text of \<open>jsonb\<close> and of \<open>uuid\<close>, intervals and the values the
    server refuses are fields of \<open>inbox_config\<close>.
  \<^item> \<open>Inbox_System\<close>: the same statements as the steps of transactions that interleave: each reads what is
    committed, as under \<open>READ COMMITTED\<close>, writes what is committed with its transaction, and waits for the
    rows, the slots and the advisory locks that others hold. The key of a lock is the hash of the text of an
    identity as it is spelled (\<open>lock_key\<close>). \<open>Inbox_Run\<close> shows that a dispatch alone is such a run. \<open>iw_done\<close>,
    \<open>iw_forgotten\<close> and \<open>iw_spelled\<close> are history. An \<open>unpark\<close> is one committed step and a \<open>resolve\<close> a
    transaction of its own, though the code lets both run inside a longer transaction of the caller.
  \<^item> \<open>Inbox_Invariant\<close>, \<open>Inbox_Commit\<close>, \<open>Inbox_Safety\<close>: the invariant of the table and of every open
    transaction, kept by every step. \<open>Inbox_Listed\<close>: what positions are drawn and what identities are
    spelled. \<open>Inbox_Wake\<close>: no row waits for a processed one, where identities that are one have one lock;
    \<open>Inbox_Spelling\<close>: the run that loses a wake-up where 1 and 1.0 are spelled for one id. \<open>Inbox_Order\<close>: the
    order within a slot. \<open>Inbox_Liveness\<close>: dispatches come to an end, with a measure over the rows, where no
    bound is set on waits. \<open>Inbox_Sweep\<close>: \<open>pg/sweep.rs\<close> and the options of
    \<open>pg/mod.rs\<close>; whether a sweep gets its turn is an argument. \<open>Inbox_Properties\<close>: what the inbox promises.

  \<^bold>\<open>Not modelled\<close>: the loops of a process (their waits, pauses and shutdown), migrations and teardown, the
  backlog an operator reads, \<open>stamp_processed\<close>, observers beyond the events they are told, the channels of the
  bus; and the crates \<open>bus\<close> (but for the keyless part of a URI), \<open>dek\<close>, \<open>event-store\<close>, \<open>migration\<close>, \<open>rop\<close>,
  \<open>trace\<close>, \<open>specification-macros\<close> and the Vault service of \<open>kms\<close>.
\<close>

end
